(* ===== verification/Prelude.thy ===== *)
theory Prelude
  imports Main "HOL-Library.Word" "HOL-Library.While_Combinator" "HOL-Library.Multiset"
begin

unbundle bit_operations_syntax

text \<open>
  Shared vocabulary of the development: the machine integer types of the driver, the outcome
  type of its fallible C functions, and the generic lemmas on bit lists, byte lists and words
  which the component theories use.

  A C function that reports failure by \<open>false\<close>, \<open>-1\<close> or \<open>NULL\<close> yields \<open>Fail\<close>. \<open>Fault\<close> is
  undefined behaviour of C, such as an access outside an array or a shift by at least the
  width of the operand; it is a separate value, so that its absence is a theorem.
\<close>

type_synonym u8 = "8 word"
type_synonym u16 = "16 word"
type_synonym u32 = "32 word"
type_synonym u64 = "64 word"

datatype 'a outcome = Ok 'a | Fail | Fault

named_theorems bits_simps \<open>bit contents of the writer operations\<close>
named_theorems len_simps \<open>number of bits a syntax element occupies\<close>

primrec obind :: "'a outcome \<Rightarrow> ('a \<Rightarrow> 'b outcome) \<Rightarrow> 'b outcome" where
  "obind (Ok x) f = f x"
| "obind Fail f = Fail"
| "obind Fault f = Fault"

definition guard_else_fail :: "bool \<Rightarrow> 'a outcome \<Rightarrow> 'a outcome" where
  "guard_else_fail b m = (if b then m else Fail)"

text \<open>Bits are listed most significant first, the order in which a bitstream carries them.\<close>

definition word_bits :: "nat \<Rightarrow> 'a::len word \<Rightarrow> bool list" where
  "word_bits n w = map (bit w) (rev [0..<n])"

definition byte_bits :: "u8 \<Rightarrow> bool list" where
  "byte_bits b = word_bits 8 b"

definition bytes_bits :: "u8 list \<Rightarrow> bool list" where
  "bytes_bits bs = concat (map byte_bits bs)"

definition bits_val :: "bool list \<Rightarrow> nat" where
  "bits_val bs = foldl (\<lambda>a b. 2 * a + of_bool b) 0 bs"

section \<open>Outcomes\<close>

lemma obind_Ok_iff [simp]: "obind m f = Ok y \<longleftrightarrow> (\<exists>x. m = Ok x \<and> f x = Ok y)"
  by (cases m) auto

lemma obind_eq_Fault [simp]:
  "obind m f = Fault \<longleftrightarrow> m = Fault \<or> (\<exists>x. m = Ok x \<and> f x = Fault)"
  by (cases m) auto

lemma obind_Ok_right [simp]: "obind m Ok = m"
  by (cases m) auto

lemma obind_assoc: "obind (obind m f) g = obind m (\<lambda>x. obind (f x) g)"
  by (cases m) auto

lemma guard_Ok_iff [simp]: "guard_else_fail b m = Ok y \<longleftrightarrow> b \<and> m = Ok y"
  by (simp add: guard_else_fail_def)

lemma guard_Fault_iff [simp]: "guard_else_fail b m = Fault \<longleftrightarrow> b \<and> m = Fault"
  by (simp add: guard_else_fail_def)

lemma guard_simps [simp]:
  "guard_else_fail True m = m" "guard_else_fail False m = Fail"
  by (simp_all add: guard_else_fail_def)

text \<open>
  A computation does not fault and its results satisfy \<open>P\<close>: the partial-correctness triple of
  the fallible functions.
\<close>

primrec outcome_sat :: "'a outcome \<Rightarrow> ('a \<Rightarrow> bool) \<Rightarrow> bool" where
  "outcome_sat (Ok x) P = P x"
| "outcome_sat Fail P = True"
| "outcome_sat Fault P = False"

lemma outcome_sat_alt: "outcome_sat m P \<longleftrightarrow> m \<noteq> Fault \<and> (\<forall>x. m = Ok x \<longrightarrow> P x)"
  by (cases m) auto

lemma outcome_sat_bind:
  "outcome_sat m P \<Longrightarrow> (\<And>x. P x \<Longrightarrow> outcome_sat (f x) Q) \<Longrightarrow> outcome_sat (obind m f) Q"
  by (cases m) auto

lemma outcome_sat_guard [simp]: "outcome_sat (guard_else_fail b m) P \<longleftrightarrow> (b \<longrightarrow> outcome_sat m P)"
  by (simp add: guard_else_fail_def)

lemma outcome_sat_mono: "outcome_sat m P \<Longrightarrow> (\<And>x. P x \<Longrightarrow> Q x) \<Longrightarrow> outcome_sat m Q"
  by (cases m) auto

section \<open>Bit lists\<close>

lemma length_word_bits [simp, len_simps]: "length (word_bits n w) = n"
  by (simp add: word_bits_def)

lemma word_bits_0 [simp]: "word_bits 0 w = []"
  by (simp add: word_bits_def)

lemma word_bits_Suc: "word_bits (Suc n) w = bit w n # word_bits n w"
  by (simp add: word_bits_def)

lemma nth_word_bits: "i < n \<Longrightarrow> word_bits n w ! i = bit w (n - Suc i)"
  by (simp add: word_bits_def rev_nth)

lemma length_byte_bits [simp]: "length (byte_bits b) = 8"
  by (simp add: byte_bits_def)

lemma byte_bits_not_Nil [simp]: "byte_bits b \<noteq> []"
  using length_byte_bits [of b] by fastforce

lemma bytes_bits_Nil [simp]: "bytes_bits [] = []"
  by (simp add: bytes_bits_def)

lemma bytes_bits_Cons [simp]: "bytes_bits (b # bs) = byte_bits b @ bytes_bits bs"
  by (simp add: bytes_bits_def)

lemma bytes_bits_append [simp]: "bytes_bits (xs @ ys) = bytes_bits xs @ bytes_bits ys"
  by (simp add: bytes_bits_def)

lemma length_bytes_bits [simp]: "length (bytes_bits bs) = 8 * length bs"
  by (induction bs) auto

lemma nth_bytes_bits:
  "i < 8 * length bs \<Longrightarrow> bytes_bits bs ! i = bit (bs ! (i div 8)) (7 - i mod 8)"
proof (induction bs arbitrary: i)
  case Nil
  then show ?case by simp
next
  case (Cons b bs)
  show ?case
  proof (cases "i < 8")
    case True
    then show ?thesis
      by (simp add: nth_append byte_bits_def nth_word_bits)
  next
    case False
    then obtain j where "i = j + 8"
      by (metis add.commute le_Suc_ex not_less)
    with Cons show ?thesis by (simp add: nth_append div_add_self2)
  qed
qed

lemma byte_bits_inject [simp]: "byte_bits a = byte_bits b \<longleftrightarrow> a = b"
proof
  assume eq: "byte_bits a = byte_bits b"
  show "a = b"
  proof (rule bit_word_eqI)
    fix n assume "n < LENGTH(8)"
    then have "byte_bits a ! (7 - n) = bit a n" "byte_bits b ! (7 - n) = bit b n"
      by (auto simp: byte_bits_def nth_word_bits)
    with eq show "bit a n = bit b n" by simp
  qed
qed simp

lemma bytes_bits_inject: "bytes_bits xs = bytes_bits ys \<longleftrightarrow> xs = ys"
proof (induction xs arbitrary: ys)
  case Nil
  show ?case by (cases ys) auto
next
  case (Cons x xs)
  show ?case
  proof (cases ys)
    case Nil
    then show ?thesis by simp
  next
    case (Cons y zs)
    have "byte_bits x @ bytes_bits xs = byte_bits y @ bytes_bits zs \<longleftrightarrow>
        byte_bits x = byte_bits y \<and> bytes_bits xs = bytes_bits zs"
      by (rule append_eq_append_conv) simp
    with Cons Cons.IH show ?thesis by simp
  qed
qed

lemma bits_val_Nil [simp]: "bits_val [] = 0"
  by (simp add: bits_val_def)

lemma bits_val_snoc: "bits_val (bs @ [b]) = 2 * bits_val bs + of_bool b"
  by (simp add: bits_val_def)

lemma bits_val_lt: "bits_val bs < 2 ^ length bs"
  by (induction bs rule: rev_induct) (auto simp: bits_val_snoc of_bool_def)

lemma bits_val_Cons: "bits_val (b # bs) = of_bool b * 2 ^ length bs + bits_val bs"
proof (induction bs rule: rev_induct)
  case Nil
  then show ?case by (simp add: bits_val_def)
next
  case (snoc x xs)
  then show ?case
    using bits_val_snoc [of "b # xs" x] by (simp add: bits_val_snoc)
qed

lemma bits_val_inj: "bits_val xs = bits_val ys \<Longrightarrow> length xs = length ys \<Longrightarrow> xs = ys"
proof (induction xs arbitrary: ys)
  case (Cons x xs)
  then obtain y ys' where ys: "ys = y # ys'" "length ys' = length xs" by (cases ys) auto
  have "bits_val xs < 2 ^ length xs" "bits_val ys' < 2 ^ length xs"
    using bits_val_lt [of xs] bits_val_lt [of ys'] ys by simp_all
  with Cons ys show ?case by (cases x; cases y) (auto simp: bits_val_Cons)
qed simp

lemma unat_take_bit_Suc:
  "unat (take_bit (Suc n) w) = of_bool (bit w n) * 2 ^ n + unat (take_bit n w)"
  for w :: "'a::len word"
proof -
  have "take_bit (Suc n) (unat w) = 2 ^ n * of_bool (bit (unat w) n) + take_bit n (unat w)"
    by (simp add: take_bit_Suc_from_most)
  then show ?thesis
    by (simp add: unsigned_take_bit_eq bit_unsigned_iff impossible_bit)
qed

lemma bits_val_word_bits: "bits_val (word_bits n w) = unat (take_bit n w)"
  by (induction n) (simp_all add: word_bits_Suc bits_val_Cons unat_take_bit_Suc)

lemma bits_val_word_bits_small:
  "unat w < 2 ^ n \<Longrightarrow> bits_val (word_bits n w) = unat w"
  by (simp add: bits_val_word_bits unsigned_take_bit_eq take_bit_nat_eq_self)

lemma unat_u8_lt [simp]: "unat (w :: u8) < 256"
  using unsigned_less [of w] by simp

lemma unat_u16_lt [simp]: "unat (w :: u16) < 65536"
  using unsigned_less [of w] by simp

lemma unat_u32_lt [simp]: "unat (w :: u32) < 4294967296"
  using unsigned_less [of w] by simp

lemma unat_u64_lt [simp]: "unat (w :: u64) < 18446744073709551616"
  using unsigned_less [of w] by simp

lemma unat_minus_one_u32 [simp]: "unat (- 1 :: u32) = 4294967295"
  by (simp add: unsigned_minus_1_eq_mask mask_eq_exp_minus_1)

lemma unat_minus_one_u64 [simp]: "unat (- 1 :: u64) = 18446744073709551615"
  by (simp add: unsigned_minus_1_eq_mask mask_eq_exp_minus_1)

lemma unat_word_of_int_u32: "0 \<le> k \<Longrightarrow> k < 2 ^ 32 \<Longrightarrow> unat (word_of_int k :: u32) = nat k"
proof -
  assume "0 \<le> k" "k < 2 ^ 32"
  then have "uint (word_of_int k :: u32) = k"
    by (simp add: uint_word_of_int_eq take_bit_int_eq_self)
  from arg_cong [OF this, of nat] show ?thesis by simp
qed

section \<open>Lists\<close>

lemma unat_ucast_widen:
  "LENGTH('a) \<le> LENGTH('b) \<Longrightarrow> unat (ucast (w :: 'a::len word) :: 'b::len word) = unat w"
  by transfer (simp add: min_def)

lemma small_not_max [simp]: "unat w < 4294967295 \<Longrightarrow> w \<noteq> - 1" for w :: u32
  by (metis nat_less_le unat_minus_one_u32)

lemma unat_ucast_u8_u32 [simp]: "unat (ucast (w :: u8) :: u32) = unat w"
  by (simp add: unat_ucast_widen)

lemma unat_ucast_u16_u32 [simp]: "unat (ucast (w :: u16) :: u32) = unat w"
  by (simp add: unat_ucast_widen)

lemma unat_ucast_u8_u64 [simp]: "unat (ucast (w :: u8) :: u64) = unat w"
  by (simp add: unat_ucast_widen)

lemma unat_ucast_u16_u64 [simp]: "unat (ucast (w :: u16) :: u64) = unat w"
  by (simp add: unat_ucast_widen)

lemma unat_ucast_u32_u64 [simp]: "unat (ucast (w :: u32) :: u64) = unat w"
  by (simp add: unat_ucast_widen)

lemma bit_of_bool_0 [simp]: "bit (of_bool b :: u32) 0 \<longleftrightarrow> b"
  by (simp add: bit_0)

lemma ucast_ucast_u8 [simp]: "ucast (ucast (g :: u8) :: u32) = g"
  by (rule bit_word_eqI) (auto simp: bit_simps)

lemma ucast_u8_not_max [simp]: "(ucast (w :: u8) :: u32) \<noteq> - 1"
  by (rule small_not_max, unfold unat_ucast_u8_u32, rule less_trans [OF unat_u8_lt]) simp

lemma ucast_u16_not_max [simp]: "(ucast (w :: u16) :: u32) \<noteq> - 1"
  by (rule small_not_max, unfold unat_ucast_u16_u32, rule less_trans [OF unat_u16_lt]) simp

lemma unat_eq_lit_u32: "unat (w :: u32) = unat (k :: u32) \<longleftrightarrow> w = k"
  by (simp add: word_unat_eq_iff)

section \<open>Shifting bits into a word\<close>

definition shift_in :: "u32 \<Rightarrow> bool list \<Rightarrow> u32" where
  "shift_in x bs = foldl (\<lambda>w b. 2 * w + of_bool b) x bs"

lemma shift_in_simps [simp]:
  "shift_in x [] = x" "shift_in x (b # bs) = shift_in (2 * x + of_bool b) bs"
  by (simp_all add: shift_in_def)

lemma shift_in_of_nat: "shift_in (of_nat k) bs = of_nat (foldl (\<lambda>a b. 2 * a + of_bool b) k bs)"
proof (induction bs arbitrary: k)
  case (Cons b bs)
  show ?case using Cons [of "2 * k + of_bool b"] by simp
qed simp

lemma shift_in_zero: "shift_in 0 bs = of_nat (bits_val bs)"
  using shift_in_of_nat [of 0 bs] by (simp add: bits_val_def)

lemma ucast_bit_and_1:
  "(ucast (drop_bit k (w :: u8)) AND 1 :: u32) = of_bool (bit w k)"
  by (rule bit_eqI) (auto simp: bit_simps bit_1_iff)

lemma shift_in_bit: "push_bit 1 (x :: u32) OR of_bool b = 2 * x + of_bool b"
proof -
  have "push_bit 1 x OR of_bool b = push_bit 1 x + of_bool b"
    by (rule disjunctive_add [symmetric]) (auto simp: bit_simps bit_0)
  then show ?thesis by (simp add: push_bit_eq_mult mult.commute)
qed

lemma unat_bits_val: "length bs \<le> 31 \<Longrightarrow> unat (of_nat (bits_val bs) :: u32) = bits_val bs"
proof -
  assume "length bs \<le> 31"
  then have "(2::nat) ^ length bs \<le> 2 ^ 31" by (intro power_increasing) simp_all
  with bits_val_lt [of bs] have "bits_val bs < 2 ^ 32" by simp
  then show ?thesis by (simp add: unat_of_nat)
qed

lemma take_append_absorb: "take n (take n xs @ ys) = take n (xs @ ys)"
  by (cases "length xs \<le> n") auto

lemma drop_eq_Cons_nth: "i < length xs \<Longrightarrow> drop i xs = xs ! i # drop (Suc i) xs"
  by (simp add: Cons_nth_drop_Suc)

definition bits_between :: "nat \<Rightarrow> nat \<Rightarrow> 'a list \<Rightarrow> 'a list" where
  "bits_between i j xs = take (j - i) (drop i xs)"

lemma bits_between_empty [simp]: "bits_between i i xs = []"
  by (simp add: bits_between_def)

lemma bits_between_0 [simp]: "bits_between 0 j xs = take j xs"
  by (simp add: bits_between_def)

lemma bits_between_Cons:
  "i < j \<Longrightarrow> j \<le> length xs \<Longrightarrow> bits_between i j xs = xs ! i # bits_between (Suc i) j xs"
  by (simp add: bits_between_def drop_eq_Cons_nth take_Cons' Suc_diff_Suc)

lemma length_bits_between [simp]: "j \<le> length xs \<Longrightarrow> length (bits_between i j xs) = j - i"
  by (simp add: bits_between_def)

lemma drop_eq_append_shift:
  "drop i xs = ys @ zs \<Longrightarrow> drop (i + length ys) xs = zs"
  by (metis add.commute append_eq_conv_conj drop_drop)

end
