(* ===== verification/Bitstream.thy ===== *)
theory Bitstream
  imports Prelude
begin

text \<open>
  The bit writer of \<open>src/bs.h\<close>. A writer owns a zeroed byte array and a cursor of a byte and a
  bit position; \<open>size_t\<close> positions are naturals, since they never exceed the capacity (at most
  32768, or a slice size plus 4096). A write past the capacity is silently dropped, as in the
  code, and the laws below say exactly which bits survive.

  Parameter sets are emitted by long sequences of \<open>bs_write\<close>, \<open>bs_write_ue\<close> and \<open>bs_write_se\<close>
  calls; such a sequence is a list of \<open>wop\<close> values executed in order by \<open>bs_run\<close> on the byte
  array.
\<close>

unbundle bit_operations_syntax

record BSWriter =
  bs_data :: "u8 list"
  bs_capacity :: nat
  byte_pos :: nat
  bit_pos :: nat

definition bs_init :: "nat \<Rightarrow> BSWriter" where
  "bs_init cap = \<lparr>bs_data = replicate cap 0, bs_capacity = cap, byte_pos = 0, bit_pos = 0\<rparr>"

text \<open>The byte \<open>(bit & 1) << (7 - bit_pos)\<close>.\<close>

definition bs_flag :: "nat \<Rightarrow> u32 \<Rightarrow> u8" where
  "bs_flag q b = ucast (push_bit (7 - q) (b AND 1))"

definition bs_write1 :: "BSWriter \<Rightarrow> u32 \<Rightarrow> BSWriter" where
  "bs_write1 bs b =
     (if byte_pos bs \<ge> bs_capacity bs then bs
      else let d = (bs_data bs)[byte_pos bs :=
                     bs_data bs ! byte_pos bs OR bs_flag (bit_pos bs) b];
               p = bit_pos bs + 1
           in if p = 8 then bs\<lparr>bs_data := d, bit_pos := 0, byte_pos := byte_pos bs + 1\<rparr>
              else bs\<lparr>bs_data := d, bit_pos := p\<rparr>)"

fun bs_write :: "BSWriter \<Rightarrow> u32 \<Rightarrow> nat \<Rightarrow> BSWriter" where
  "bs_write bs val 0 = bs"
| "bs_write bs val (Suc i) = bs_write (bs_write1 bs (drop_bit i val AND 1)) val i"

text \<open>The loop \<open>while (tmp > 1) { tmp >>= 1; bits++; }\<close>.\<close>

function ue_prefix :: "u32 \<Rightarrow> nat \<Rightarrow> nat" where
  "ue_prefix tmp bits = (if tmp > 1 then ue_prefix (drop_bit 1 tmp) (bits + 1) else bits)"
  by pat_completeness auto
termination
proof (relation "measure (\<lambda>(tmp, bits). unat tmp)")
  fix tmp :: u32 and bits :: nat
  assume "tmp > 1"
  then have "unat tmp > 1"
    by (simp add: word_less_nat_alt)
  then show "((drop_bit 1 tmp, bits + 1), (tmp, bits)) \<in> measure (\<lambda>(tmp, bits). unat tmp)"
    by (simp add: unat_drop_bit_eq drop_bit_eq_div unat_div)
qed simp

declare ue_prefix.simps [simp del]

definition bs_write_ue :: "BSWriter \<Rightarrow> u32 \<Rightarrow> BSWriter" where
  "bs_write_ue bs val =
     (let val = val + 1; bits = ue_prefix val 0
      in bs_write (bs_write bs 0 bits) val (bits + 1))"

definition se_code :: "int \<Rightarrow> u32" where
  "se_code val = (if val \<le> 0 then word_of_int (- 2 * val) else word_of_int (2 * val - 1))"

definition bs_write_se :: "BSWriter \<Rightarrow> int \<Rightarrow> BSWriter" where
  "bs_write_se bs val = bs_write_ue bs (se_code val)"

text \<open>The loop \<open>while (bs->bit_pos != 0) bs_write1(bs, 0)\<close> of the alignment code.\<close>

definition bs_align :: "BSWriter \<Rightarrow> BSWriter" where
  "bs_align bs = while (\<lambda>b. bit_pos b \<noteq> 0) (\<lambda>b. bs_write1 b 0) bs"

definition bs_rbsp_trailing :: "BSWriter \<Rightarrow> BSWriter" where
  "bs_rbsp_trailing bs = bs_align (bs_write1 bs 1)"

definition bs_bytes :: "BSWriter \<Rightarrow> nat" where
  "bs_bytes bs = byte_pos bs + (if bit_pos bs > 0 then 1 else 0)"

text \<open>The bytes a caller passes on: the first \<open>bs_bytes\<close> bytes of the array.\<close>

definition bs_payload :: "BSWriter \<Rightarrow> u8 list" where
  "bs_payload bs = take (bs_bytes bs) (bs_data bs)"

datatype wop = W u32 nat | UE u32 | SE int

primrec bs_op :: "BSWriter \<Rightarrow> wop \<Rightarrow> BSWriter" where
  "bs_op bs (W val n) = bs_write bs val n"
| "bs_op bs (UE val) = bs_write_ue bs val"
| "bs_op bs (SE val) = bs_write_se bs val"

definition bs_run :: "BSWriter \<Rightarrow> wop list \<Rightarrow> BSWriter" where
  "bs_run bs ops = foldl bs_op bs ops"

section \<open>Abstraction: the bits written so far\<close>

definition bs_bits :: "BSWriter \<Rightarrow> bool list" where
  "bs_bits bs = take (8 * byte_pos bs + bit_pos bs) (bytes_bits (bs_data bs))"

definition bs_wf :: "BSWriter \<Rightarrow> bool" where
  "bs_wf bs \<longleftrightarrow> length (bs_data bs) = bs_capacity bs \<and> bit_pos bs < 8 \<and>
     byte_pos bs \<le> bs_capacity bs \<and> (byte_pos bs = bs_capacity bs \<longrightarrow> bit_pos bs = 0) \<and>
     (\<forall>i. 8 * byte_pos bs + bit_pos bs \<le> i \<and> i < 8 * bs_capacity bs \<longrightarrow>
          \<not> bytes_bits (bs_data bs) ! i)"

definition ue_bits :: "u32 \<Rightarrow> bool list" where
  "ue_bits val = (let n = ue_prefix (val + 1) 0
                  in replicate n False @ word_bits (n + 1) (val + 1))"

primrec op_bits :: "wop \<Rightarrow> bool list" where
  "op_bits (W val n) = word_bits n val"
| "op_bits (UE val) = ue_bits val"
| "op_bits (SE val) = ue_bits (se_code val)"

definition ops_bits :: "wop list \<Rightarrow> bool list" where
  "ops_bits ops = concat (map op_bits ops)"

text \<open>What a writer of \<open>cap\<close> bytes keeps of a bit sequence.\<close>

definition fit_bits :: "nat \<Rightarrow> bool list \<Rightarrow> bool list" where
  "fit_bits cap bits = take (8 * cap) bits"

text \<open>The padding that completes a byte after \<open>n\<close> bits.\<close>

definition pad_bits :: "nat \<Rightarrow> bool list" where
  "pad_bits n = replicate ((8 - n mod 8) mod 8) False"

definition trailing_bits :: "bool list \<Rightarrow> bool list" where
  "trailing_bits bits = bits @ True # pad_bits (Suc (length bits))"

section \<open>Single bits\<close>

lemma length_bs_bits: "bs_wf bs \<Longrightarrow> length (bs_bits bs) = 8 * byte_pos bs + bit_pos bs"
  by (auto simp: bs_bits_def bs_wf_def)

lemma bs_bits_capacity: "bs_wf bs \<Longrightarrow> length (bs_bits bs) \<le> 8 * bs_capacity bs"
  by (auto simp: length_bs_bits) (auto simp: bs_wf_def)

lemma fit_bits_absorb [simp]: "fit_bits cap (fit_bits cap xs @ ys) = fit_bits cap (xs @ ys)"
  by (simp only: fit_bits_def take_append_absorb)

lemma fit_bits_id: "length xs \<le> 8 * cap \<Longrightarrow> fit_bits cap xs = xs"
  by (simp add: fit_bits_def)

lemma fit_bs_bits [simp]: "bs_wf bs \<Longrightarrow> fit_bits (bs_capacity bs) (bs_bits bs) = bs_bits bs"
  by (simp add: fit_bits_id bs_bits_capacity)

lemma bs_init_wf [simp]: "bs_wf (bs_init cap)"
  by (auto simp: bs_wf_def bs_init_def nth_bytes_bits)

lemma bs_init_bits [simp]: "bs_bits (bs_init cap) = []"
  by (simp add: bs_bits_def bs_init_def)

lemma bs_init_capacity [simp]: "bs_capacity (bs_init cap) = cap"
  by (simp add: bs_init_def)

lemma bit_bs_flag:
  "q < 8 \<Longrightarrow> j < 8 \<Longrightarrow> bit (bs_flag q b) (7 - j) \<longleftrightarrow> j = q \<and> bit b 0"
  by (auto simp: bs_flag_def bit_simps bit_1_iff)

lemma bytes_bits_write1:
  assumes "p < length ds" and "q < 8" and "i < 8 * length ds"
  shows "bytes_bits (ds[p := ds ! p OR bs_flag q b]) ! i =
    (bytes_bits ds ! i \<or> (i = 8 * p + q \<and> bit b 0))"
proof (cases "i div 8 = p")
  case True
  then have "i = 8 * p + i mod 8" using mult_div_mod_eq [of 8 i] by simp
  then have "i mod 8 = q \<longleftrightarrow> i = 8 * p + q" by presburger
  with assms True show ?thesis
    by (auto simp: nth_bytes_bits bit_or_iff bit_bs_flag)
next
  case False
  with assms have "i \<noteq> 8 * p + q" by auto
  with assms False show ?thesis
    by (simp add: nth_bytes_bits)
qed

text \<open>The cursor after one written bit, as a bit index.\<close>

lemma bs_write1_full: "byte_pos bs \<ge> bs_capacity bs \<Longrightarrow> bs_write1 bs b = bs"
  by (simp add: bs_write1_def)

lemma bs_write1_capacity [simp]: "bs_capacity (bs_write1 bs b) = bs_capacity bs"
  by (simp add: bs_write1_def Let_def)

lemma bs_write1_cursor:
  assumes "byte_pos bs < bs_capacity bs" and "bit_pos bs < 8"
  shows "8 * byte_pos (bs_write1 bs b) + bit_pos (bs_write1 bs b) =
      Suc (8 * byte_pos bs + bit_pos bs)"
    and "bit_pos (bs_write1 bs b) < 8"
    and "bs_data (bs_write1 bs b) =
      (bs_data bs)[byte_pos bs := bs_data bs ! byte_pos bs OR bs_flag (bit_pos bs) b]"
  using assms by (auto simp: bs_write1_def Let_def)

lemma bs_write1_wf [simp]:
  assumes "bs_wf bs"
  shows "bs_wf (bs_write1 bs b)"
proof (cases "byte_pos bs < bs_capacity bs")
  case True
  let ?c = "8 * byte_pos bs + bit_pos bs" and ?bs = "bs_write1 bs b"
  from assms True have *: "bit_pos bs < 8" "length (bs_data bs) = bs_capacity bs"
    by (auto simp: bs_wf_def)
  note cur = bs_write1_cursor [OF True *(1), of b]
  have "\<not> bytes_bits (bs_data ?bs) ! i" if "Suc ?c \<le> i" "i < 8 * bs_capacity bs" for i
    using that assms True * by (subst cur(3), subst bytes_bits_write1) (auto simp: bs_wf_def)
  then have "\<forall>i. 8 * byte_pos ?bs + bit_pos ?bs \<le> i \<and> i < 8 * bs_capacity ?bs \<longrightarrow>
      \<not> bytes_bits (bs_data ?bs) ! i"
    by (simp only: cur(1) bs_write1_capacity) blast
  moreover have "8 * byte_pos ?bs + bit_pos ?bs \<le> 8 * bs_capacity bs"
    unfolding cur(1) using True *(1) by simp
  then have "byte_pos ?bs \<le> bs_capacity ?bs \<and> (byte_pos ?bs = bs_capacity ?bs \<longrightarrow> bit_pos ?bs = 0)"
    by auto
  moreover have "length (bs_data ?bs) = bs_capacity ?bs"
    by (simp add: cur(3) *(2))
  ultimately show ?thesis
    unfolding bs_wf_def using cur(2) by blast
qed (use assms in \<open>simp add: bs_write1_full\<close>)

lemma bs_write1_bits [bits_simps]:
  assumes "bs_wf bs"
  shows "bs_bits (bs_write1 bs b) = fit_bits (bs_capacity bs) (bs_bits bs @ [bit b 0])"
proof (cases "byte_pos bs < bs_capacity bs")
  case True
  let ?c = "8 * byte_pos bs + bit_pos bs" and ?bs = "bs_write1 bs b"
  from assms True have *: "bit_pos bs < 8" "length (bs_data bs) = bs_capacity bs"
    by (auto simp: bs_wf_def)
  then have c: "?c < 8 * length (bs_data bs)" using True by simp
  note cur = bs_write1_cursor [OF True *(1), of b]
  have nth: "bytes_bits (bs_data ?bs) ! i = (bytes_bits (bs_data bs) ! i \<or> (i = ?c \<and> bit b 0))"
    if "i < 8 * length (bs_data bs)" for i
    using that True * by (subst cur(3), subst bytes_bits_write1) auto
  have "\<not> bytes_bits (bs_data bs) ! ?c"
    using assms c * by (auto simp: bs_wf_def)
  then have "bs_bits ?bs = bs_bits bs @ [bit b 0]"
    unfolding bs_bits_def cur(1) using c nth
    by (intro nth_equalityI) (auto simp: nth_append less_Suc_eq cur(3))
  with c * show ?thesis by (simp add: fit_bits_def length_bs_bits [OF assms])
next
  case False
  with assms have "length (bs_bits bs) = 8 * bs_capacity bs"
    by (auto simp: length_bs_bits) (auto simp: bs_wf_def)
  with False show ?thesis by (simp add: bs_write1_full fit_bits_def)
qed

section \<open>Fixed-length and Exp-Golomb codes\<close>

lemma bs_write_capacity [simp]: "bs_capacity (bs_write bs val n) = bs_capacity bs"
  by (induction n arbitrary: bs) auto

lemma bs_write_wf [simp]: "bs_wf bs \<Longrightarrow> bs_wf (bs_write bs val n)"
  by (induction n arbitrary: bs) auto

lemma bs_write_bits [bits_simps]:
  "bs_wf bs \<Longrightarrow>
     bs_bits (bs_write bs val n) = fit_bits (bs_capacity bs) (bs_bits bs @ word_bits n val)"
proof (induction n arbitrary: bs)
  case 0
  then show ?case by simp
next
  case (Suc n)
  have "bit (drop_bit n val AND 1) 0 = bit val n"
    by (simp add: bit_simps)
  with Suc show ?case
    by (simp add: bs_write1_bits word_bits_Suc)
qed

lemma bs_write_ue_capacity [simp]: "bs_capacity (bs_write_ue bs val) = bs_capacity bs"
  by (simp add: bs_write_ue_def Let_def)

lemma bs_write_ue_wf [simp]: "bs_wf bs \<Longrightarrow> bs_wf (bs_write_ue bs val)"
  by (simp add: bs_write_ue_def Let_def)

lemma word_bits_zero: "word_bits n 0 = replicate n False"
  by (induction n) (simp_all add: word_bits_Suc)

lemma bs_write_ue_bits [bits_simps]:
  "bs_wf bs \<Longrightarrow>
     bs_bits (bs_write_ue bs val) = fit_bits (bs_capacity bs) (bs_bits bs @ ue_bits val)"
  by (simp add: bs_write_ue_def Let_def ue_bits_def bs_write_bits word_bits_zero
      del: bs_write.simps)

lemma bs_op_capacity [simp]: "bs_capacity (bs_op bs x) = bs_capacity bs"
  by (cases x) (simp_all add: bs_write_se_def)

lemma bs_op_wf [simp]: "bs_wf bs \<Longrightarrow> bs_wf (bs_op bs x)"
  by (cases x) (simp_all add: bs_write_se_def)

lemma bs_op_bits:
  "bs_wf bs \<Longrightarrow> bs_bits (bs_op bs x) = fit_bits (bs_capacity bs) (bs_bits bs @ op_bits x)"
  by (cases x) (simp_all add: bs_write_se_def bits_simps)

lemma bs_run_simps [simp]:
  "bs_run bs [] = bs" "bs_run bs (x # xs) = bs_run (bs_op bs x) xs"
  by (simp_all add: bs_run_def)

lemma bs_run_append: "bs_run bs (xs @ ys) = bs_run (bs_run bs xs) ys"
  by (simp add: bs_run_def)

lemma ops_bits_simps [simp]:
  "ops_bits [] = []" "ops_bits (x # xs) = op_bits x @ ops_bits xs"
  "ops_bits (xs @ ys) = ops_bits xs @ ops_bits ys"
  by (simp_all add: ops_bits_def)

lemma bs_run_capacity [simp]: "bs_capacity (bs_run bs ops) = bs_capacity bs"
  by (induction ops arbitrary: bs) auto

lemma bs_run_wf [simp]: "bs_wf bs \<Longrightarrow> bs_wf (bs_run bs ops)"
  by (induction ops arbitrary: bs) auto

lemma bs_run_bits [bits_simps]:
  "bs_wf bs \<Longrightarrow>
     bs_bits (bs_run bs ops) = fit_bits (bs_capacity bs) (bs_bits bs @ ops_bits ops)"
  by (induction ops arbitrary: bs)
    (simp_all add: bs_op_bits)

section \<open>Alignment\<close>

text \<open>
  The alignment loop ends on every well-formed writer: a partly filled byte lies below the
  capacity, so each dummy bit is stored and moves the cursor.
\<close>

lemma bs_write1_progress:
  assumes "bs_wf bs" and "bit_pos bs \<noteq> 0"
  shows "8 - bit_pos (bs_write1 bs b) < 8 - bit_pos bs \<or> bit_pos (bs_write1 bs b) = 0"
  using assms by (auto simp: bs_wf_def bs_write1_def Let_def)

lemma bs_align_stop: "bit_pos bs = 0 \<Longrightarrow> bs_align bs = bs"
  by (simp add: bs_align_def while_unfold)

lemma bs_align_step: "bit_pos bs \<noteq> 0 \<Longrightarrow> bs_align bs = bs_align (bs_write1 bs 0)"
  by (simp add: bs_align_def while_unfold)

lemma bs_align_room:
  assumes "bs_wf bs" and "bit_pos bs \<noteq> 0"
  shows "byte_pos bs < bs_capacity bs" "bit_pos bs < 8"
  using assms by (auto simp: bs_wf_def le_less)

definition bs_aligned_to :: "BSWriter \<Rightarrow> BSWriter \<Rightarrow> bool" where
  "bs_aligned_to bs bs' \<longleftrightarrow> bs_wf bs' \<and> bit_pos bs' = 0 \<and> bs_capacity bs' = bs_capacity bs \<and>
     bs_bits bs' = bs_bits bs @ pad_bits (length (bs_bits bs))"

lemma bs_align_aligned: "bs_wf bs \<Longrightarrow> bs_aligned_to bs (bs_align bs)"
proof (induction "(8 - bit_pos bs) mod 8" arbitrary: bs rule: less_induct)
  case less
  show ?case
  proof (cases "bit_pos bs = 0")
    case True
    with less.prems show ?thesis
      by (simp add: bs_aligned_to_def bs_align_stop pad_bits_def length_bs_bits)
  next
    case False
    let ?bs = "bs_write1 bs 0"
    note room = bs_align_room [OF less.prems False]
    note cur = bs_write1_cursor [OF room, of 0]
    have bp: "bit_pos ?bs = (if bit_pos bs = 7 then 0 else Suc (bit_pos bs))"
      using room by (auto simp: bs_write1_def Let_def)
    then have "(8 - bit_pos ?bs) mod 8 < (8 - bit_pos bs) mod 8"
      using False room(2) by auto
    with less.hyps less.prems have IH: "bs_aligned_to ?bs (bs_align ?bs)" by simp
    have bits: "bs_bits ?bs = bs_bits bs @ [False]"
      using less.prems room by (simp add: bs_write1_bits fit_bits_def length_bs_bits)
    have "pad_bits (length (bs_bits bs)) = False # pad_bits (Suc (length (bs_bits bs)))"
      using False room(2) by (auto simp: pad_bits_def length_bs_bits [OF less.prems] mod_Suc
          simp flip: replicate_Suc)
    with IH bits show ?thesis
      by (simp add: bs_aligned_to_def bs_align_step [OF False])
  qed
qed

lemma bs_align_terminates:
  assumes "bs_wf bs"
  shows "\<exists>bs'. while_option (\<lambda>b. bit_pos b \<noteq> 0) (\<lambda>b. bs_write1 b 0) bs = Some bs'"
proof (rule measure_while_option_Some [where P = bs_wf and f = "\<lambda>b. (8 - bit_pos b) mod 8"])
  fix b assume "bs_wf b" "bit_pos b \<noteq> 0"
  moreover from this have "(8 - bit_pos (bs_write1 b 0)) mod 8 < (8 - bit_pos b) mod 8"
    by (auto simp: bs_wf_def bs_write1_def Let_def)
  ultimately show "bs_wf (bs_write1 b 0) \<and>
      (8 - bit_pos (bs_write1 b 0)) mod 8 < (8 - bit_pos b) mod 8"
    by simp
qed (rule assms)

text \<open>A finished writer: stop bit, alignment, and the bytes handed on.\<close>

lemma pad_bits_mod [simp]: "(n + length (pad_bits n)) mod 8 = 0"
proof -
  have "n + (8 - n mod 8) = 8 * (n div 8 + 1)" by presburger
  then have "(n + (8 - n mod 8)) mod 8 = 0" by (simp only: mod_mult_self1_is_0)
  then show ?thesis by (simp add: pad_bits_def mod_add_right_eq del: mod_mod_trivial)
qed

lemma length_trailing_bits_mod: "length (trailing_bits bits) mod 8 = 0"
  using pad_bits_mod [of "Suc (length bits)"] by (simp add: trailing_bits_def)

lemma bs_rbsp_trailing_bits:
  assumes "bs_wf bs" and "length (trailing_bits (bs_bits bs)) \<le> 8 * bs_capacity bs"
  shows "bs_bits (bs_rbsp_trailing bs) = trailing_bits (bs_bits bs)"
proof -
  have "bs_bits (bs_write1 bs 1) = bs_bits bs @ [True]"
    using assms by (simp add: bs_write1_bits fit_bits_id trailing_bits_def)
  then show ?thesis
    using bs_align_aligned [of "bs_write1 bs 1"] assms(1)
    by (simp add: bs_aligned_to_def bs_rbsp_trailing_def trailing_bits_def)
qed

lemma bs_rbsp_trailing_wf:
  "bs_wf bs \<Longrightarrow> bs_wf (bs_rbsp_trailing bs) \<and> bit_pos (bs_rbsp_trailing bs) = 0 \<and>
     bs_capacity (bs_rbsp_trailing bs) = bs_capacity bs"
  using bs_align_aligned [of "bs_write1 bs 1"]
  by (simp add: bs_aligned_to_def bs_rbsp_trailing_def)

lemma bytes_bits_take: "bytes_bits (take n ds) = take (8 * n) (bytes_bits ds)"
  by (induction ds arbitrary: n) (auto simp: take_Cons' algebra_simps)

lemma bytes_bits_drop: "bytes_bits (drop n ds) = drop (8 * n) (bytes_bits ds)"
proof -
  have "bytes_bits (take n ds) @ bytes_bits (drop n ds) = bytes_bits ds"
    by (simp flip: bytes_bits_append)
  then have "take (8 * n) (bytes_bits ds) @ bytes_bits (drop n ds) = bytes_bits ds"
    by (simp only: bytes_bits_take)
  then show ?thesis by (metis append_take_drop_id same_append_eq)
qed

lemma bs_payload_bits:
  "bs_wf bs \<Longrightarrow> bit_pos bs = 0 \<Longrightarrow> bytes_bits (bs_payload bs) = bs_bits bs"
  by (simp add: bs_payload_def bs_bytes_def bs_bits_def bytes_bits_take)

text \<open>
  The central law of the writer: when the code sequence and the trailing bits fit into the
  array, the bytes handed on are exactly the sequence, a stop bit and the padding.
\<close>

definition bs_emit :: "nat \<Rightarrow> wop list \<Rightarrow> u8 list" where
  "bs_emit cap ops = bs_payload (bs_rbsp_trailing (bs_run (bs_init cap) ops))"

lemma length_bytes_bits_payload:
  "length (bs_payload bs) = bs_bytes bs" if "bs_wf bs"
  using that by (auto simp: bs_payload_def bs_wf_def bs_bytes_def le_less)

lemma bs_emit_bits:
  assumes "length (ops_bits ops) + 8 \<le> 8 * cap"
  shows "bytes_bits (bs_emit cap ops) = trailing_bits (ops_bits ops)"
proof -
  let ?bs = "bs_run (bs_init cap) ops"
  have bits: "bs_bits ?bs = ops_bits ops"
    using assms by (simp add: bs_run_bits fit_bits_id)
  have "length (pad_bits (Suc (length (ops_bits ops)))) < 8"
    by (simp add: pad_bits_def)
  then have "length (trailing_bits (bs_bits ?bs)) \<le> 8 * bs_capacity ?bs"
    using assms by (simp add: bits trailing_bits_def)
  then have "bs_bits (bs_rbsp_trailing ?bs) = trailing_bits (ops_bits ops)"
    using bs_rbsp_trailing_bits [of ?bs] by (simp add: bits)
  with bs_rbsp_trailing_wf [of ?bs] show ?thesis
    by (simp add: bs_emit_def bs_payload_bits)
qed

lemma length_bs_emit:
  assumes "length (ops_bits ops) + 8 \<le> 8 * cap"
  shows "length (bs_emit cap ops) = Suc (length (ops_bits ops) div 8)"
proof -
  have "8 * length (bs_emit cap ops) = length (trailing_bits (ops_bits ops))"
    using arg_cong [OF bs_emit_bits [OF assms], of length] by simp
  then show ?thesis
    by (simp add: trailing_bits_def pad_bits_def mod_Suc split: if_splits) linarith?
qed

section \<open>Exp-Golomb prefix\<close>

lemma ue_prefix_shift: "ue_prefix tmp (bits + k) = ue_prefix tmp bits + k"
proof (induction tmp bits rule: ue_prefix.induct)
  case (1 tmp bits)
  then show ?case by (simp add: ue_prefix.simps [of tmp])
qed

lemma ue_prefix_bounds:
  "tmp \<noteq> 0 \<Longrightarrow> 2 ^ ue_prefix tmp 0 \<le> unat tmp \<and> unat tmp < 2 ^ Suc (ue_prefix tmp 0)"
proof (induction "unat tmp" arbitrary: tmp rule: less_induct)
  case less
  show ?case
  proof (cases "tmp > 1")
    case True
    then have gt: "unat tmp > 1" by (simp add: word_less_nat_alt)
    have half: "unat (drop_bit 1 tmp) = unat tmp div 2"
      by (simp add: drop_bit_eq_div unat_div)
    with gt have "drop_bit 1 tmp \<noteq> 0" and "unat (drop_bit 1 tmp) < unat tmp" by auto
    then have "2 ^ ue_prefix (drop_bit 1 tmp) 0 \<le> unat tmp div 2 \<and>
        unat tmp div 2 < 2 ^ Suc (ue_prefix (drop_bit 1 tmp) 0)"
      using less.hyps half by metis
    moreover have "ue_prefix tmp 0 = Suc (ue_prefix (drop_bit 1 tmp) 0)"
      using True ue_prefix_shift [of "drop_bit 1 tmp" 0 1] by (simp add: ue_prefix.simps [of tmp])
    ultimately show ?thesis by auto
  next
    case False
    with less.prems have "unat tmp \<le> 1" "unat tmp \<noteq> 0"
      by (auto simp: not_less word_le_nat_alt unat_0_iff)
    then have "unat tmp = unat (1 :: u32)" by simp
    then have "tmp = 1" by (simp only: unsigned_word_eqI)
    then show ?thesis by (simp add: ue_prefix.simps)
  qed
qed

lemma ue_prefix_le: "ue_prefix tmp 0 \<le> 31"
proof (cases "tmp = 0")
  case True
  then show ?thesis by (simp add: ue_prefix.simps)
next
  case False
  have "2 ^ ue_prefix tmp 0 \<le> unat tmp" using ue_prefix_bounds [OF False] by simp
  also have "unat tmp < 2 ^ 32" using unat_u32_lt [of tmp] by simp
  finally have "ue_prefix tmp 0 < 32" by (simp only: power_strict_increasing_iff)
  then show ?thesis by simp
qed

lemma length_ue_bits: "length (ue_bits val) = 2 * ue_prefix (val + 1) 0 + 1"
  by (simp add: ue_bits_def Let_def)

lemma length_ue_bits_le: "length (ue_bits val) \<le> 63"
  using ue_prefix_le [of "val + 1"] by (simp add: length_ue_bits)

lemma length_ue_bits_bound:
  assumes "unat val + 1 < 2 ^ Suc n" and "n < 32"
  shows "length (ue_bits val) \<le> 2 * n + 1"
proof (cases "val + 1 = 0")
  case True
  then show ?thesis by (simp add: length_ue_bits ue_prefix.simps)
next
  case False
  have "unat (val + 1) \<le> unat val + 1"
    by (simp add: unat_word_ariths)
  moreover have "2 ^ ue_prefix (val + 1) 0 \<le> unat (val + 1)"
    using ue_prefix_bounds [OF False] by simp
  ultimately have "(2::nat) ^ ue_prefix (val + 1) 0 < 2 ^ Suc n"
    using assms(1) by linarith
  then have "ue_prefix (val + 1) 0 < Suc n"
    by (simp only: power_strict_increasing_iff)
  then show ?thesis by (simp add: length_ue_bits)
qed

text \<open>An upper bound for the number of bits, counting 63 for every variable-length code.\<close>

primrec op_cost :: "wop \<Rightarrow> nat" where
  "op_cost (W v n) = n"
| "op_cost (UE v) = 63"
| "op_cost (SE v) = 63"

lemma length_ops_bits_cost: "length (ops_bits ops) \<le> sum_list (map op_cost ops)"
proof (induction ops)
  case (Cons x ops)
  have "length (op_bits x) \<le> op_cost x"
    by (cases x) (simp_all add: length_ue_bits_le)
  with Cons show ?case by simp
qed simp

definition rbsp_tail :: "bool list \<Rightarrow> bool" where
  "rbsp_tail bits \<longleftrightarrow> (\<exists>n < 8. bits = True # replicate n False)"

lemma trailing_bits_tail: "\<exists>t. trailing_bits bits = bits @ t \<and> rbsp_tail t"
  by (auto simp: trailing_bits_def rbsp_tail_def pad_bits_def)

section \<open>Properties\<close>

text \<open>
  C38: after any sequence of writer calls the bit stream in the array is the concatenation of
  the requested codes, cut off exactly at the capacity of the array and never elsewhere.
\<close>

theorem bs_writer_exact: "bs_bits (bs_run (bs_init cap) ops) = take (8 * cap) (ops_bits ops)"
  by (simp add: bs_run_bits fit_bits_def)

text \<open>
  C39: the alignment loop ends after any sequence of writer calls, even when the array is full
  and further writes are dropped.
\<close>

theorem bs_align_ends:
  "\<exists>bs'. while_option (\<lambda>b. bit_pos b \<noteq> 0) (\<lambda>b. bs_write1 b 0) (bs_run (bs_init cap) ops) = Some bs' \<and>
     bs_align (bs_run (bs_init cap) ops) = bs' \<and> bit_pos bs' = 0"
proof -
  have wf: "bs_wf (bs_run (bs_init cap) ops)" by simp
  obtain bs' where "while_option (\<lambda>b. bit_pos b \<noteq> 0) (\<lambda>b. bs_write1 b 0) (bs_run (bs_init cap) ops) = Some bs'"
    using bs_align_terminates [OF wf] by blast
  with bs_align_aligned [OF wf] show ?thesis
    by (simp add: bs_align_def while_def bs_aligned_to_def)
qed

end
