(* ===== verification/Syntax_Elements.thy ===== *)
theory Syntax_Elements
  imports Bitstream
begin

text \<open>
  Reference decoding of the syntax element descriptors \<open>u(n)\<close>, \<open>ue(v)\<close> and \<open>se(v)\<close> as clause 9
  of the H.264 and H.265 specifications defines them, on bit lists and without any machine
  limits. It is the specification against which the driver's writer is judged: a decoder that
  reads the descriptors in order gets back the values that were written.
\<close>

definition get_u :: "nat \<Rightarrow> bool list \<Rightarrow> (nat \<times> bool list) option" where
  "get_u n bits = (if n \<le> length bits then Some (bits_val (take n bits), drop n bits) else None)"

definition get_ue :: "bool list \<Rightarrow> (nat \<times> bool list) option" where
  "get_ue bits =
     (let z = length (takeWhile Not bits)
      in case get_u (z + 1) (drop z bits) of
           None \<Rightarrow> None
         | Some (v, rest) \<Rightarrow> if v = 0 then None else Some (v - 1, rest))"

definition se_of_ue :: "nat \<Rightarrow> int" where
  "se_of_ue k = (if even k then - int (k div 2) else int ((k + 1) div 2))"

datatype shape = RU nat | RUE | RSE

primrec get_elem :: "shape \<Rightarrow> bool list \<Rightarrow> (int \<times> bool list) option" where
  "get_elem (RU n) bits = map_option (map_prod int id) (get_u n bits)"
| "get_elem RUE bits = map_option (map_prod int id) (get_ue bits)"
| "get_elem RSE bits = map_option (map_prod se_of_ue id) (get_ue bits)"

fun get_elems :: "shape list \<Rightarrow> bool list \<Rightarrow> (int list \<times> bool list) option" where
  "get_elems [] bits = Some ([], bits)"
| "get_elems (s # ss) bits =
     (case get_elem s bits of
        None \<Rightarrow> None
      | Some (v, rest) \<Rightarrow> map_option (map_prod ((#) v) id) (get_elems ss rest))"

primrec wop_shape :: "wop \<Rightarrow> shape" where
  "wop_shape (W val n) = RU n"
| "wop_shape (UE val) = RUE"
| "wop_shape (SE val) = RSE"

primrec wop_val :: "wop \<Rightarrow> int" where
  "wop_val (W val n) = uint val"
| "wop_val (UE val) = uint val"
| "wop_val (SE val) = val"

definition get_flag :: "bool list \<Rightarrow> (bool \<times> bool list) option" where
  "get_flag bits = (case bits of [] \<Rightarrow> None | b # rest \<Rightarrow> Some (b, rest))"

definition get_se :: "bool list \<Rightarrow> (int \<times> bool list) option" where
  "get_se bits = map_option (map_prod se_of_ue id) (get_ue bits)"

text \<open>
  The values a descriptor can carry: a fixed-length field must fit its width, \<open>ue(v)\<close> must not
  be \<open>UINT32_MAX\<close> (the writer's \<open>val++\<close> wraps there), and \<open>se(v)\<close> must keep \<open>2 * val\<close> in range.
\<close>

primrec wop_ok :: "wop \<Rightarrow> bool" where
  "wop_ok (W val n) \<longleftrightarrow> unat val < 2 ^ n"
| "wop_ok (UE val) \<longleftrightarrow> val \<noteq> - 1"
| "wop_ok (SE val) \<longleftrightarrow> - (2 ^ 30) < val \<and> val < 2 ^ 30"

abbreviation wops_ok :: "wop list \<Rightarrow> bool" where
  "wops_ok ops \<equiv> list_all wop_ok ops"

section \<open>Round trips\<close>

lemma get_u_append: "n = length bs \<Longrightarrow> get_u n (bs @ rest) = Some (bits_val bs, rest)"
  by (simp add: get_u_def)

lemma unat_Suc_no_wrap: "val \<noteq> - 1 \<Longrightarrow> unat (val + 1) = Suc (unat val)"
  for val :: u32
  by (simp add: unatSuc add.commute [of val] add_eq_0_iff)

lemma takeWhile_replicate_False:
  "takeWhile Not (replicate n False @ True # rest) = replicate n False"
  by (induction n) auto

lemma get_ue_bits:
  assumes "val \<noteq> - 1"
  shows "get_ue (ue_bits val @ rest) = Some (unat val, rest)"
proof -
  let ?v = "val + 1" and ?n = "ue_prefix (val + 1) 0"
  have nz: "?v \<noteq> 0" using assms by (metis add_eq_0_iff2)
  note b = ue_prefix_bounds [OF nz]
  have "bits_val (word_bits (Suc ?n) ?v) = unat ?v"
    using b by (intro bits_val_word_bits_small) simp
  moreover have top: "word_bits (Suc ?n) ?v = True # word_bits ?n ?v"
  proof -
    have "bits_val (word_bits ?n ?v) < 2 ^ ?n"
      using bits_val_lt [of "word_bits ?n ?v"] by simp
    with calculation b have "bit ?v ?n"
      by (cases "bit ?v ?n") (auto simp: word_bits_Suc bits_val_Cons)
    then show ?thesis by (simp add: word_bits_Suc)
  qed
  moreover have "length (takeWhile Not (ue_bits val @ rest)) = ?n"
    using top takeWhile_replicate_False [of ?n] by (simp add: ue_bits_def Let_def)
  moreover have "drop ?n (ue_bits val @ rest) = word_bits (Suc ?n) ?v @ rest"
    by (simp add: ue_bits_def Let_def)
  then have "get_u (?n + 1) (drop ?n (ue_bits val @ rest)) =
      Some (bits_val (word_bits (Suc ?n) ?v), rest)"
    by (simp only: get_u_append length_word_bits Suc_eq_plus1)
  ultimately show ?thesis
    using unat_Suc_no_wrap [OF assms] by (simp add: get_ue_def Let_def del: drop_append)
qed

lemma se_code_neq:
  assumes "- (2 ^ 30) < val" and "val < 2 ^ 30"
  shows "unat (se_code val) = nat (if val \<le> 0 then - 2 * val else 2 * val - 1)"
  using assms by (auto simp: se_code_def unat_word_of_int_u32 simp del: of_int_mult of_int_diff of_int_minus of_int_numeral)

lemma se_of_ue_code: "- (2 ^ 30) < val \<Longrightarrow> val < 2 ^ 30 \<Longrightarrow> se_of_ue (unat (se_code val)) = val"
  by (subst se_code_neq) (auto simp: se_of_ue_def even_nat_iff nat_add_distrib nat_div_distrib)

lemma get_elem_op:
  assumes "wop_ok x"
  shows "get_elem (wop_shape x) (op_bits x @ rest) = Some (wop_val x, rest)"
proof (cases x)
  case (W val n)
  with assms show ?thesis
    by (simp add: get_u_append bits_val_word_bits_small)
next
  case (UE val)
  with assms show ?thesis by (simp add: get_ue_bits)
next
  case (SE val)
  with assms have r: "- (2 ^ 30) < val" "val < 2 ^ 30" by auto
  then have "unat (se_code val) < 2 ^ 31" by (auto simp: se_code_neq)
  then have "se_code val \<noteq> - 1" by auto
  with SE r show ?thesis by (simp add: get_ue_bits se_of_ue_code)
qed

lemma get_elems_ops:
  "wops_ok ops \<Longrightarrow>
     get_elems (map wop_shape ops) (ops_bits ops @ rest) = Some (map wop_val ops, rest)"
  by (induction ops) (simp_all add: get_elem_op)

section \<open>Reading back single elements\<close>

lemma word_bits_flag [simp]: "word_bits (Suc 0) w = [bit w 0]"
  by (simp add: word_bits_Suc)

lemma get_flag_Cons [simp]: "get_flag (b # rest) = Some (b, rest)"
  by (simp add: get_flag_def)

lemma get_u_word [simp]:
  "unat w < 2 ^ n \<Longrightarrow> get_u n (word_bits n w @ rest) = Some (unat w, rest)"
  by (simp add: get_u_append bits_val_word_bits_small)

lemma get_ue_word [simp]: "w \<noteq> - 1 \<Longrightarrow> get_ue (ue_bits w @ rest) = Some (unat w, rest)"
  by (rule get_ue_bits)

lemma get_se_word [simp]:
  assumes "- (2 ^ 30) < v" and "v < 2 ^ 30"
  shows "get_se (ue_bits (se_code v) @ rest) = Some (v, rest)"
  using get_elem_op [of "SE v" rest] assms by (simp add: get_se_def)

lemma get_se_sint [simp]: "get_se (ue_bits (se_code (sint (w :: u8))) @ rest) = Some (sint w, rest)"
  using sint_range_size [of w] by (intro get_se_word) (simp_all add: word_size)

section \<open>Properties\<close>

text \<open>
  C37: a decoder that reads the descriptors in the order they were written recovers every
  value from the emitted bytes, and what is left is the stop bit with fewer than eight zeros.
\<close>

theorem bs_emit_roundtrip:
  assumes "wops_ok ops" and "length (ops_bits ops) + 8 \<le> 8 * cap"
  shows "\<exists>n < 8. get_elems (map wop_shape ops) (bytes_bits (bs_emit cap ops)) =
    Some (map wop_val ops, True # replicate n False)"
  using get_elems_ops [OF assms(1)] bs_emit_bits [OF assms(2)]
  by (auto simp: trailing_bits_def pad_bits_def)

theorem bs_emit_roundtrip_witness:
  "\<exists>n < 8. get_elems [RU 8, RUE, RSE, RU 1] (bytes_bits (bs_emit 8 [W 0x67 8, UE 41, SE (- 3), W 1 1])) =
    Some ([0x67, 41, - 3, 1], True # replicate n False)"
proof -
  have "length (ops_bits [W 0x67 8, UE 41, SE (- 3), W 1 1]) + 8 \<le> 8 * 8" by code_simp
  from bs_emit_roundtrip [OF _ this] show ?thesis by simp
qed

end
