(* ===== verification/Nal.thy ===== *)
theory Nal
  imports Syntax_Elements
begin

text \<open>
  Byte-level NAL unit packaging: the emulation prevention of \<open>src/hevc.c\<close> and \<open>src/h264.c\<close> (two
  copies of one algorithm), the inverse \<open>unescape_prefix\<close> of \<open>src/hevc.c\<close>, and the Annex B start
  code helpers. A destination buffer with its capacity becomes the list of bytes stored so
  far; the returned \<open>size_t\<close> is the length of the resulting list, so the code's failure value 0
  is the empty list.

  The specification is the unbounded pair \<open>escape\<close> / \<open>unescape\<close>. The locale \<open>nal_escape\<close> states
  what a caller may rely on; both copies of \<open>emulation_prevent\<close> are interpretations.
\<close>

fun ep_loop :: "nat \<Rightarrow> u8 list \<Rightarrow> nat \<Rightarrow> u8 list \<Rightarrow> u8 list" where
  "ep_loop cap out zeros [] = out"
| "ep_loop cap out zeros (b # src) =
     (case (if zeros \<ge> 2 \<and> b \<le> 3
            then (if length out \<ge> cap then None else Some (out @ [3], 0))
            else Some (out, zeros)) of
        None \<Rightarrow> []
      | Some (out, zeros) \<Rightarrow>
          if length out \<ge> cap then []
          else ep_loop cap (out @ [b]) (if b = 0 then zeros + 1 else 0) src)"

definition emulation_prevent :: "u8 list \<Rightarrow> nat \<Rightarrow> u8 list" where
  "emulation_prevent src dst_size = ep_loop dst_size [] 0 src"

fun h264_ep_loop :: "nat \<Rightarrow> u8 list \<Rightarrow> nat \<Rightarrow> u8 list \<Rightarrow> u8 list" where
  "h264_ep_loop out_cap out zeros [] = out"
| "h264_ep_loop out_cap out zeros (b # rest) =
     (if zeros \<ge> 2 \<and> b \<le> 3
      then (if length out \<ge> out_cap then []
            else if length (out @ [3]) \<ge> out_cap then []
            else h264_ep_loop out_cap (out @ [3] @ [b]) (if b = 0 then 1 else 0) rest)
      else if length out \<ge> out_cap then []
      else h264_ep_loop out_cap (out @ [b]) (if b = 0 then zeros + 1 else 0) rest)"

definition h264_emulation_prevent :: "u8 list \<Rightarrow> nat \<Rightarrow> u8 list" where
  "h264_emulation_prevent input out_cap = h264_ep_loop out_cap [] 0 input"

fun unescape_loop :: "nat \<Rightarrow> u8 list \<Rightarrow> nat \<Rightarrow> u8 list \<Rightarrow> u8 list" where
  "unescape_loop cap out zeros [] = out"
| "unescape_loop cap out zeros (b # src) =
     (if length out < cap
      then if zeros \<ge> 2 \<and> b = 3 \<and> (case src of [] \<Rightarrow> False | c # _ \<Rightarrow> c \<le> 3)
           then unescape_loop cap out 0 src
           else unescape_loop cap (out @ [b]) (if b = 0 then zeros + 1 else 0) src
      else out)"

definition unescape_prefix :: "u8 list \<Rightarrow> nat \<Rightarrow> u8 list" where
  "unescape_prefix src dst_size = unescape_loop dst_size [] 0 src"

definition has_annex_b_prefix :: "u8 list \<Rightarrow> bool" where
  "has_annex_b_prefix data \<longleftrightarrow>
     (length data \<ge> 3 \<and> data ! 0 = 0 \<and> data ! 1 = 0 \<and> data ! 2 = 1) \<or>
     (length data \<ge> 4 \<and> data ! 0 = 0 \<and> data ! 1 = 0 \<and> data ! 2 = 0 \<and> data ! 3 = 1)"

definition nal_offset :: "u8 list \<Rightarrow> nat" where
  "nal_offset data =
     (if length data \<ge> 4 \<and> data ! 0 = 0 \<and> data ! 1 = 0 \<and> data ! 2 = 0 \<and> data ! 3 = 1 then 4
      else if length data \<ge> 3 \<and> data ! 0 = 0 \<and> data ! 1 = 0 \<and> data ! 2 = 1 then 3
      else 0)"

section \<open>Specification\<close>

fun escape :: "nat \<Rightarrow> u8 list \<Rightarrow> u8 list" where
  "escape z [] = []"
| "escape z (b # bs) =
     (if z \<ge> 2 \<and> b \<le> 3 then 3 # b # escape (if b = 0 then 1 else 0) bs
      else b # escape (if b = 0 then z + 1 else 0) bs)"

fun unescape :: "nat \<Rightarrow> u8 list \<Rightarrow> u8 list" where
  "unescape z [] = []"
| "unescape z (b # bs) =
     (if z \<ge> 2 \<and> b = 3 \<and> (case bs of [] \<Rightarrow> False | c # _ \<Rightarrow> c \<le> 3) then unescape 0 bs
      else b # unescape (if b = 0 then z + 1 else 0) bs)"

text \<open>
  No position carries two zero bytes followed by 0, 1 or 2: the three sequences that a byte
  stream decoder takes for a start code or a forbidden pattern.
\<close>

definition no_start_code :: "u8 list \<Rightarrow> bool" where
  "no_start_code s \<longleftrightarrow>
     \<not> (\<exists>i. i + 2 < length s \<and> s ! i = 0 \<and> s ! (i + 1) = 0 \<and> s ! (i + 2) \<le> 2)"

fun clean :: "nat \<Rightarrow> u8 list \<Rightarrow> bool" where
  "clean z [] = True"
| "clean z (b # bs) \<longleftrightarrow> \<not> (z \<ge> 2 \<and> b \<le> 2) \<and> clean (if b = 0 then z + 1 else 0) bs"

section \<open>Laws of the specification\<close>

lemma escape_unescape: "unescape z (escape z bs) = bs"
  by (induction z bs rule: escape.induct) auto

lemma clean_escape: "clean z (escape z bs)"
proof (induction z bs rule: escape.induct)
  case (2 z b bs)
  have "b \<le> 2 \<Longrightarrow> b \<le> 3" by (erule order_trans) simp
  with 2 show ?case by auto
qed simp

lemma clean_mono: "clean z' s \<Longrightarrow> z \<le> z' \<Longrightarrow> clean z s"
proof (induction s arbitrary: z z')
  case (Cons b s)
  from Cons.prems have "clean (if b = 0 then z' + 1 else 0) s"
    and "(if b = 0 then z + 1 else 0) \<le> (if b = 0 then z' + 1 else (0::nat))" by simp_all
  then have "clean (if b = 0 then z + 1 else 0) s" by (rule Cons.IH)
  with Cons.prems show ?case by simp
qed simp

lemma clean_zero: "clean z s \<Longrightarrow> clean 0 s"
  by (erule clean_mono) simp

lemma clean_no_start_code:
  assumes "clean 0 s"
  shows "no_start_code s"
proof -
  have "\<not> (s ! i = 0 \<and> s ! (i + 1) = 0 \<and> s ! (i + 2) \<le> 2)" if "clean 0 s" "i + 2 < length s" for i
    using that
  proof (induction i arbitrary: s)
    case 0
    then obtain a b c t where "s = a # b # c # t"
      by (cases s; cases "tl s"; cases "tl (tl s)") auto
    with 0 show ?case by auto
  next
    case (Suc i)
    then obtain a t where s: "s = a # t" by (cases s) auto
    with Suc.prems have "clean 0 t" by (auto intro: clean_zero split: if_splits)
    with Suc s show ?case by auto
  qed
  with assms show ?thesis by (auto simp: no_start_code_def)
qed

lemma escape_no_start_code: "no_start_code (escape 0 bs)"
  by (intro clean_no_start_code clean_escape)

lemma length_escape_le: "length (escape z bs) \<le> 2 * length bs"
  by (induction z bs rule: escape.induct) auto

lemma length_escape_ge: "length bs \<le> length (escape z bs)"
  by (induction z bs rule: escape.induct) auto

lemma escape_eq_Nil [simp]: "escape z bs = [] \<longleftrightarrow> bs = []"
  by (cases bs) auto

lemma last_escape: "bs \<noteq> [] \<Longrightarrow> last (escape z bs) = last bs"
  by (induction z bs rule: escape.induct) auto

section \<open>The interface of an escaping routine\<close>

locale nal_escape =
  fixes esc :: "u8 list \<Rightarrow> nat \<Rightarrow> u8 list"
  assumes esc_fits: "length (escape 0 src) \<le> cap \<Longrightarrow> esc src cap = escape 0 src"
    and esc_overflow: "cap < length (escape 0 src) \<Longrightarrow> esc src cap = []"
begin

lemma esc_cases: "esc src cap = (if length (escape 0 src) \<le> cap then escape 0 src else [])"
  by (simp add: esc_fits esc_overflow)

lemma esc_bounded: "length (esc src cap) \<le> cap"
  by (simp add: esc_cases)

lemma esc_clean: "no_start_code (esc src cap)"
  by (auto simp: esc_cases escape_no_start_code) (simp add: no_start_code_def)

lemma esc_double: "2 * length src \<le> cap \<Longrightarrow> esc src cap = escape 0 src"
  using length_escape_le [of 0 src] by (simp add: esc_fits)

lemma esc_inverse: "esc src cap \<noteq> [] \<Longrightarrow> unescape 0 (esc src cap) = src"
  by (auto simp: esc_cases escape_unescape split: if_splits)

lemma esc_Nil_iff: "esc src cap = [] \<longleftrightarrow> src = [] \<or> cap < length (escape 0 src)"
  by (auto simp: esc_cases)

end

lemma ep_loop_escape:
  "length out \<le> cap \<Longrightarrow> ep_loop cap out zeros src =
     (if length out + length (escape zeros src) \<le> cap then out @ escape zeros src else [])"
  by (induction src arbitrary: out zeros) auto

lemma h264_ep_loop_escape:
  "length out \<le> cap \<Longrightarrow> h264_ep_loop cap out zeros src =
     (if length out + length (escape zeros src) \<le> cap then out @ escape zeros src else [])"
  by (induction src arbitrary: out zeros) auto

interpretation hevc_esc: nal_escape emulation_prevent
  by unfold_locales (simp_all add: emulation_prevent_def ep_loop_escape)

interpretation h264_esc: nal_escape h264_emulation_prevent
  by unfold_locales (simp_all add: h264_emulation_prevent_def h264_ep_loop_escape)

section \<open>Unescaping\<close>

lemma unescape_loop_spec:
  "length out \<le> cap \<Longrightarrow>
     unescape_loop cap out zeros src = take cap (out @ unescape zeros src)"
  by (induction cap out zeros src rule: unescape_loop.induct) (auto split: list.splits)

lemma unescape_prefix_spec: "unescape_prefix src cap = take cap (unescape 0 src)"
  by (simp add: unescape_prefix_def unescape_loop_spec)

lemma length_unescape_le: "length (unescape z bs) \<le> length bs"
  by (induction z bs rule: unescape.induct) (auto split: list.splits)

lemma unescape_prefix_full: "length src \<le> cap \<Longrightarrow> unescape_prefix src cap = unescape 0 src"
  using length_unescape_le [of 0 src] by (simp add: unescape_prefix_spec)

lemma length_unescape_prefix: "length (unescape_prefix src cap) \<le> cap"
  by (simp add: unescape_prefix_spec)

text \<open>
  A finished Annex B unit holds a syntax structure: after the start code it contains no other
  start code, and removing the emulation prevention gives bits which \<open>dec\<close> accepts up to the
  trailing bits.
\<close>

definition nal_holds ::
    "(bool list \<Rightarrow> ('a \<times> bool list) option) \<Rightarrow> 'a \<Rightarrow> u8 list \<Rightarrow> bool" where
  "nal_holds dec x out \<longleftrightarrow> take 4 out = [0, 0, 0, 1] \<and> no_start_code (drop 4 out) \<and>
     (\<exists>t. dec (bytes_bits (unescape 0 (drop 4 out))) = Some (x, t) \<and> rbsp_tail t)"

lemma nal_holds_annex_b:
  assumes "bytes_bits raw = trailing_bits bits"
    and "\<And>t. rbsp_tail t \<Longrightarrow> dec (bits @ t) = Some (x, t)"
  shows "nal_holds dec x ([0, 0, 0, 1] @ escape 0 raw)"
  using assms trailing_bits_tail [of bits]
  by (auto simp: nal_holds_def escape_unescape escape_no_start_code)

lemma nal_offset_le: "nal_offset data \<le> length data"
  by (auto simp: nal_offset_def)

lemma nal_offset_prefix: "has_annex_b_prefix data \<longleftrightarrow> nal_offset data \<noteq> 0"
  by (auto simp: nal_offset_def has_annex_b_prefix_def)

section \<open>Properties\<close>

text \<open>
  C35: emulation prevention writes at most the capacity, its output contains no start code, the
  driver's own unescaping restores the input from it, and it reports failure exactly when the
  input is empty or the escaped bytes do not fit.
\<close>

theorem emulation_prevent_correct:
  "length (emulation_prevent src cap) \<le> cap \<and> no_start_code (emulation_prevent src cap) \<and>
   (emulation_prevent src cap = [] \<longleftrightarrow> src = [] \<or> cap < length (escape 0 src)) \<and>
   (if emulation_prevent src cap = [] then True
    else unescape_prefix (emulation_prevent src cap) (length (emulation_prevent src cap)) = src)"
  using hevc_esc.esc_bounded hevc_esc.esc_clean hevc_esc.esc_Nil_iff hevc_esc.esc_inverse
  by (simp add: unescape_prefix_full)

text \<open>C36: the copy of the routine in the H.264 writer computes the same bytes.\<close>

theorem emulation_prevent_copies_agree: "h264_emulation_prevent src cap = emulation_prevent src cap"
  by (simp add: h264_esc.esc_cases hevc_esc.esc_cases)

end
