(* ===== verification/H264.thy ===== *)
theory H264
  imports Nal "HOL-Library.Monad_Syntax"
begin

text \<open>
  Parameter set reconstruction of \<open>src/h264.c\<close>: the level table and its search, the SPS writer,
  the scaling list writer and the PPS writer. The VA structs carry only the fields this code
  reads, with the widths of the VA headers; one-bit fields are booleans. A return value of \<open>-1\<close>
  is \<open>None\<close>; a positive return value \<open>n\<close> is the list of the \<open>n\<close> bytes stored in the buffer.

  The specification is a decoder for the two syntax structures, written from clause 7.3.2 of
  the H.264 standard on top of the reference descriptors.
\<close>

record VAPictureParameterBufferH264 =
  picture_width_in_mbs_minus1 :: u16
  picture_height_in_mbs_minus1 :: u16
  bit_depth_luma_minus8 :: u8
  bit_depth_chroma_minus8 :: u8
  num_ref_frames :: u8
  chroma_format_idc :: u32
  residual_colour_transform_flag :: bool
  gaps_in_frame_num_value_allowed_flag :: bool
  frame_mbs_only_flag :: bool
  mb_adaptive_frame_field_flag :: bool
  direct_8x8_inference_flag :: bool
  MinLumaBiPredSize8x8 :: bool
  log2_max_frame_num_minus4 :: u32
  pic_order_cnt_type :: u32
  log2_max_pic_order_cnt_lsb_minus4 :: u32
  delta_pic_order_always_zero_flag :: bool
  entropy_coding_mode_flag :: bool
  weighted_pred_flag :: bool
  weighted_bipred_idc :: u32
  transform_8x8_mode_flag :: bool
  constrained_intra_pred_flag :: bool
  pic_order_present_flag :: bool
  deblocking_filter_control_present_flag :: bool
  redundant_pic_cnt_present_flag :: bool
  pic_init_qp_minus26 :: u8
  pic_init_qs_minus26 :: u8
  chroma_qp_index_offset :: u8
  second_chroma_qp_index_offset :: u8

text \<open>The two arrays of \<open>VAIQMatrixBufferH264\<close>: six lists of 16 and two lists of 64 bytes.\<close>

record VAIQMatrixBufferH264 =
  ScalingList4x4 :: "u8 list list"
  ScalingList8x8 :: "u8 list list"

text \<open>The bit fields of the picture parameters are two or four bits wide.\<close>

definition h264_pp_wf :: "VAPictureParameterBufferH264 \<Rightarrow> bool" where
  "h264_pp_wf pp \<longleftrightarrow> unat (chroma_format_idc pp) < 4 \<and> unat (log2_max_frame_num_minus4 pp) < 16 \<and>
     unat (pic_order_cnt_type pp) < 4 \<and> unat (log2_max_pic_order_cnt_lsb_minus4 pp) < 16 \<and>
     unat (weighted_bipred_idc pp) < 4"

definition h264_iq_wf :: "VAIQMatrixBufferH264 \<Rightarrow> bool" where
  "h264_iq_wf iq \<longleftrightarrow> length (ScalingList4x4 iq) = 6 \<and> length (ScalingList8x8 iq) = 2 \<and>
     list_all (\<lambda>l. length l = 16) (ScalingList4x4 iq) \<and>
     list_all (\<lambda>l. length l = 64) (ScalingList8x8 iq)"

section \<open>Level derivation\<close>

record H264LevelLimit =
  level_idc :: u8
  max_fs :: u32
  max_dpb_mbs :: u32

definition mk_level :: "u8 \<times> u32 \<times> u32 \<Rightarrow> H264LevelLimit" where
  "mk_level = (\<lambda>(l, f, d). \<lparr>level_idc = l, max_fs = f, max_dpb_mbs = d\<rparr>)"

definition h264_level_limits :: "H264LevelLimit list" where
  "h264_level_limits = map mk_level
     [(10, 99, 396), (11, 396, 900), (12, 396, 2376), (21, 792, 4752), (22, 1620, 8100),
      (31, 3600, 18000), (32, 5120, 20480), (40, 8192, 32768), (42, 8704, 34816),
      (50, 22080, 110400), (51, 36864, 184320), (60, 139264, 696320)]"

definition level_skip :: "VAPictureParameterBufferH264 \<Rightarrow> H264LevelLimit \<Rightarrow> bool" where
  "level_skip pp limit =
     (let width_mbs = ucast (picture_width_in_mbs_minus1 pp) + 1 :: u64;
          height_mbs = ucast (picture_height_in_mbs_minus1 pp) + 1;
          frame_mbs = width_mbs * height_mbs;
          dpb_mbs = frame_mbs * ucast (num_ref_frames pp)
      in (MinLumaBiPredSize8x8 pp \<and> level_idc limit < 31) \<or>
         frame_mbs > ucast (max_fs limit) \<or>
         width_mbs * width_mbs > 8 * ucast (max_fs limit) \<or>
         height_mbs * height_mbs > 8 * ucast (max_fs limit) \<or>
         dpb_mbs > ucast (max_dpb_mbs limit))"

fun level_scan :: "VAPictureParameterBufferH264 \<Rightarrow> H264LevelLimit list \<Rightarrow> u8" where
  "level_scan pp [] = 62"
| "level_scan pp (limit # ls) = (if level_skip pp limit then level_scan pp ls else level_idc limit)"

definition h264_derive_level_idc :: "VAPictureParameterBufferH264 option \<Rightarrow> u8" where
  "h264_derive_level_idc p =
     (case p of None \<Rightarrow> 62 | Some pp \<Rightarrow> level_scan pp h264_level_limits)"

section \<open>Writers\<close>

text \<open>The shared tail of both writers: size check, start code, emulation prevention.\<close>

definition h264_annex_b :: "u8 list \<Rightarrow> nat \<Rightarrow> u8 list option" where
  "h264_annex_b raw buf_size =
     (if 4 + length raw * 2 > buf_size then None
      else let ep = h264_emulation_prevent raw (buf_size - 4)
           in if ep = [] then None else Some ([0, 0, 0, 1] @ ep))"

definition h264_high_profile :: "int \<Rightarrow> bool" where
  "h264_high_profile profile_idc \<longleftrightarrow> profile_idc \<in> {100, 110, 122, 244, 44, 83, 86, 118, 128}"

definition h264_ph_units :: "VAPictureParameterBufferH264 \<Rightarrow> u32" where
  "h264_ph_units pp =
     (if frame_mbs_only_flag pp then ucast (picture_height_in_mbs_minus1 pp)
      else (ucast (picture_height_in_mbs_minus1 pp) + 1) div 2 - 1)"

definition sps_chroma_ops :: "VAPictureParameterBufferH264 \<Rightarrow> int \<Rightarrow> wop list" where
  "sps_chroma_ops pp profile_idc =
     (if h264_high_profile profile_idc
      then [UE (chroma_format_idc pp)] @
           (if chroma_format_idc pp = 3
            then [W (of_bool (residual_colour_transform_flag pp)) 1] else []) @
           [UE (ucast (bit_depth_luma_minus8 pp)), UE (ucast (bit_depth_chroma_minus8 pp)),
            W 0 1, W 0 1]
      else [])"

definition sps_poc_ops :: "VAPictureParameterBufferH264 \<Rightarrow> wop list" where
  "sps_poc_ops pp =
     (if pic_order_cnt_type pp = 0 then [UE (log2_max_pic_order_cnt_lsb_minus4 pp)]
      else if pic_order_cnt_type pp = 1
      then [W (of_bool (delta_pic_order_always_zero_flag pp)) 1, SE 0, SE 0, UE 0]
      else [])"

definition h264_sps_ops :: "VAPictureParameterBufferH264 \<Rightarrow> int \<Rightarrow> wop list" where
  "h264_sps_ops pp profile_idc =
     [W 0x67 8, W (word_of_int profile_idc) 8,
      W (of_bool (profile_idc = 66)) 1, W (of_bool (profile_idc = 66 \<or> profile_idc = 77)) 1,
      W 0 1, W 0 5, W (ucast (h264_derive_level_idc (Some pp))) 8, UE 0] @
     sps_chroma_ops pp profile_idc @
     [UE (log2_max_frame_num_minus4 pp), UE (pic_order_cnt_type pp)] @
     sps_poc_ops pp @
     [UE (ucast (num_ref_frames pp)),
      W (of_bool (gaps_in_frame_num_value_allowed_flag pp)) 1,
      UE (ucast (picture_width_in_mbs_minus1 pp)),
      UE (h264_ph_units pp), W (of_bool (frame_mbs_only_flag pp)) 1] @
     (if \<not> frame_mbs_only_flag pp
      then [W (of_bool (mb_adaptive_frame_field_flag pp)) 1] else []) @
     [W (of_bool (direct_8x8_inference_flag pp)) 1, W 0 1, W 0 1]"

definition h264_write_sps ::
    "nat \<Rightarrow> VAPictureParameterBufferH264 \<Rightarrow> int \<Rightarrow> u8 list option" where
  "h264_write_sps buf_size pp profile_idc =
     (let bs = bs_run (bs_init 512) (h264_sps_ops pp profile_idc);
          bs = bs_rbsp_trailing bs
      in h264_annex_b (bs_payload bs) buf_size)"

text \<open>
  \<open>scale_delta\<close> is the difference of two entries brought into the range of \<open>delta_scale\<close>. The
  writer stops with \<open>-1\<close> at the first zero entry.
\<close>

definition scale_delta :: "int \<Rightarrow> int \<Rightarrow> int" where
  "scale_delta last_scale next_scale =
     (let delta = next_scale - last_scale
      in if delta > 127 then delta - 256 else if delta < - 128 then delta + 256 else delta)"

fun scaling_list_loop :: "BSWriter \<Rightarrow> u8 list \<Rightarrow> int \<Rightarrow> nat list \<Rightarrow> BSWriter option" where
  "scaling_list_loop bs list last_scale [] = Some bs"
| "scaling_list_loop bs list last_scale (s # scan) =
     (let next_scale = uint (list ! s)
      in if next_scale = 0 then None
         else scaling_list_loop (bs_write_se bs (scale_delta last_scale next_scale))
                list next_scale scan)"

definition write_scaling_list :: "BSWriter \<Rightarrow> u8 list \<Rightarrow> nat list \<Rightarrow> BSWriter option" where
  "write_scaling_list bs list scan = scaling_list_loop bs list 8 scan"

definition scan4x4 :: "nat list" where
  "scan4x4 = [0, 1, 4, 8, 5, 2, 3, 6, 9, 12, 13, 10, 7, 11, 14, 15]"

definition scan8x8 :: "nat list" where
  "scan8x8 =
     [0, 1, 8, 16, 9, 2, 3, 10, 17, 24, 32, 25, 18, 11, 4, 5,
      12, 19, 26, 33, 40, 48, 41, 34, 27, 20, 13, 6, 7, 14, 21, 28,
      35, 42, 49, 56, 57, 50, 43, 36, 29, 22, 15, 23, 30, 37, 44, 51,
      58, 59, 52, 45, 38, 31, 39, 46, 53, 60, 61, 54, 47, 55, 62, 63]"

text \<open>The loop over the lists of one size: a present flag, then the list.\<close>

fun pps_scaling_lists :: "BSWriter \<Rightarrow> nat list \<Rightarrow> u8 list list \<Rightarrow> BSWriter option" where
  "pps_scaling_lists bs scan [] = Some bs"
| "pps_scaling_lists bs scan (l # ls) =
     do { bs' \<leftarrow> write_scaling_list (bs_write bs 1 1) l scan; pps_scaling_lists bs' scan ls }"

definition pps_extension ::
    "VAPictureParameterBufferH264 \<Rightarrow> VAIQMatrixBufferH264 option \<Rightarrow> BSWriter \<Rightarrow> BSWriter option" where
  "pps_extension pp iq bs =
     do {
       bs \<leftarrow> Some (bs_run bs [W (of_bool (transform_8x8_mode_flag pp)) 1, W (of_bool (iq \<noteq> None)) 1]);
       bs \<leftarrow> (case iq of
           None \<Rightarrow> Some bs
         | Some m \<Rightarrow> do {
             bs \<leftarrow> pps_scaling_lists bs scan4x4 (take 6 (ScalingList4x4 m));
             if transform_8x8_mode_flag pp
             then pps_scaling_lists bs scan8x8 (take 2 (ScalingList8x8 m)) else Some bs });
       Some (bs_write_se bs (sint (second_chroma_qp_index_offset pp)))
     }"

definition pps_has_extension ::
    "VAPictureParameterBufferH264 \<Rightarrow> VAIQMatrixBufferH264 option \<Rightarrow> bool" where
  "pps_has_extension pp iq \<longleftrightarrow> iq \<noteq> None \<or> transform_8x8_mode_flag pp \<or>
     second_chroma_qp_index_offset pp \<noteq> chroma_qp_index_offset pp"

definition h264_pps_ops :: "VAPictureParameterBufferH264 \<Rightarrow> int \<Rightarrow> int \<Rightarrow> wop list" where
  "h264_pps_ops pp l0 l1 =
     [W 0x68 8, UE 0, UE 0, W (of_bool (entropy_coding_mode_flag pp)) 1,
      W (of_bool (pic_order_present_flag pp)) 1, UE 0,
      UE (word_of_int (if l0 < 0 then 0 else l0)), UE (word_of_int (if l1 < 0 then 0 else l1)),
      W (of_bool (weighted_pred_flag pp)) 1, W (weighted_bipred_idc pp) 2,
      SE (sint (pic_init_qp_minus26 pp)), SE (sint (pic_init_qs_minus26 pp)),
      SE (sint (chroma_qp_index_offset pp)),
      W (of_bool (deblocking_filter_control_present_flag pp)) 1,
      W (of_bool (constrained_intra_pred_flag pp)) 1,
      W (of_bool (redundant_pic_cnt_present_flag pp)) 1]"

definition h264_write_pps ::
    "nat \<Rightarrow> VAPictureParameterBufferH264 \<Rightarrow> VAIQMatrixBufferH264 option \<Rightarrow> int \<Rightarrow> int \<Rightarrow>
     u8 list option" where
  "h264_write_pps buf_size pp iq num_ref_idx_l0_default_minus1 num_ref_idx_l1_default_minus1 =
     do {
       bs \<leftarrow> Some (bs_run (bs_init 1024)
              (h264_pps_ops pp num_ref_idx_l0_default_minus1 num_ref_idx_l1_default_minus1));
       bs \<leftarrow> (if pps_has_extension pp iq then pps_extension pp iq bs else Some bs);
       h264_annex_b (bs_payload (bs_rbsp_trailing bs)) buf_size
     }"

section \<open>Specification: decoding the syntax structures\<close>

text \<open>What a decoder learns from a sequence parameter set.\<close>

record sps_info =
  si_profile :: nat
  si_constraints :: "bool \<times> bool"
  si_level :: nat
  si_chroma :: "(nat \<times> bool \<times> nat \<times> nat) option"
  si_log2_frame_num :: nat
  si_poc_type :: nat
  si_log2_poc_lsb :: nat
  si_delta_always_zero :: bool
  si_num_ref :: nat
  si_gaps :: bool
  si_width :: nat
  si_height_units :: nat
  si_frame_mbs_only :: bool
  si_mbaff :: bool
  si_direct8x8 :: bool

definition dec_chroma :: "nat \<Rightarrow> bool list \<Rightarrow> ((nat \<times> bool \<times> nat \<times> nat) option \<times> bool list) option" where
  "dec_chroma profile b =
     (if profile \<in> {100, 110, 122, 244, 44, 83, 86, 118, 128}
      then do {
        (cfi, b) \<leftarrow> get_ue b;
        (sep, b) \<leftarrow> (if cfi = 3 then get_flag b else Some (False, b));
        (bdl, b) \<leftarrow> get_ue b;
        (bdc, b) \<leftarrow> get_ue b;
        (bypass, b) \<leftarrow> get_flag b;
        (matrix, b) \<leftarrow> get_flag b;
        if bypass \<or> matrix then None else Some (Some (cfi, sep, bdl, bdc), b) }
      else Some (None, b))"

definition dec_poc :: "bool list \<Rightarrow> ((nat \<times> nat \<times> bool) \<times> bool list) option" where
  "dec_poc b =
     do {
       (poc, b) \<leftarrow> get_ue b;
       if poc = 0 then do { (lsb, b) \<leftarrow> get_ue b; Some ((poc, lsb, False), b) }
       else if poc = 1 then do {
         (dz, b) \<leftarrow> get_flag b;
         (o1, b) \<leftarrow> get_se b;
         (o2, b) \<leftarrow> get_se b;
         (n, b) \<leftarrow> get_ue b;
         if o1 = 0 \<and> o2 = 0 \<and> n = 0 then Some ((poc, 0, dz), b) else None }
       else Some ((poc, 0, False), b)
     }"

definition dec_sps :: "bool list \<Rightarrow> (sps_info \<times> bool list) option" where
  "dec_sps b =
     do {
       (hdr, b) \<leftarrow> get_u 8 b;
       (profile, b) \<leftarrow> get_u 8 b;
       (c0, b) \<leftarrow> get_flag b;
       (c1, b) \<leftarrow> get_flag b;
       (c2, b) \<leftarrow> get_flag b;
       (reserved, b) \<leftarrow> get_u 5 b;
       (level, b) \<leftarrow> get_u 8 b;
       (sps_id, b) \<leftarrow> get_ue b;
       (chroma, b) \<leftarrow> dec_chroma profile b;
       (lfn, b) \<leftarrow> get_ue b;
       ((poc, lsb, dz), b) \<leftarrow> dec_poc b;
       (refs, b) \<leftarrow> get_ue b;
       (gaps, b) \<leftarrow> get_flag b;
       (w, b) \<leftarrow> get_ue b;
       (h, b) \<leftarrow> get_ue b;
       (fmo, b) \<leftarrow> get_flag b;
       (mbaff, b) \<leftarrow> (if fmo then Some (False, b) else get_flag b);
       (d8, b) \<leftarrow> get_flag b;
       (crop, b) \<leftarrow> get_flag b;
       (vui, b) \<leftarrow> get_flag b;
       if hdr = 0x67 \<and> sps_id = 0 \<and> \<not> c2 \<and> reserved = 0 \<and> \<not> crop \<and> \<not> vui
       then Some (\<lparr>si_profile = profile, si_constraints = (c0, c1), si_level = level,
         si_chroma = chroma, si_log2_frame_num = lfn, si_poc_type = poc, si_log2_poc_lsb = lsb,
         si_delta_always_zero = dz, si_num_ref = refs, si_gaps = gaps, si_width = w,
         si_height_units = h, si_frame_mbs_only = fmo, si_mbaff = mbaff, si_direct8x8 = d8\<rparr>, b)
       else None
     }"

definition sps_info_of :: "VAPictureParameterBufferH264 \<Rightarrow> int \<Rightarrow> sps_info" where
  "sps_info_of pp profile =
     \<lparr>si_profile = nat profile,
      si_constraints = (profile = 66, profile = 66 \<or> profile = 77),
      si_level = unat (h264_derive_level_idc (Some pp)),
      si_chroma =
        (if h264_high_profile profile
         then Some (unat (chroma_format_idc pp),
                    chroma_format_idc pp = 3 \<and> residual_colour_transform_flag pp,
                    unat (bit_depth_luma_minus8 pp), unat (bit_depth_chroma_minus8 pp))
         else None),
      si_log2_frame_num = unat (log2_max_frame_num_minus4 pp),
      si_poc_type = unat (pic_order_cnt_type pp),
      si_log2_poc_lsb =
        (if pic_order_cnt_type pp = 0 then unat (log2_max_pic_order_cnt_lsb_minus4 pp) else 0),
      si_delta_always_zero = (pic_order_cnt_type pp = 1 \<and> delta_pic_order_always_zero_flag pp),
      si_num_ref = unat (num_ref_frames pp),
      si_gaps = gaps_in_frame_num_value_allowed_flag pp,
      si_width = unat (picture_width_in_mbs_minus1 pp),
      si_height_units =
        (if frame_mbs_only_flag pp then unat (picture_height_in_mbs_minus1 pp)
         else (unat (picture_height_in_mbs_minus1 pp) + 1) div 2 - 1),
      si_frame_mbs_only = frame_mbs_only_flag pp,
      si_mbaff = (\<not> frame_mbs_only_flag pp \<and> mb_adaptive_frame_field_flag pp),
      si_direct8x8 = direct_8x8_inference_flag pp\<rparr>"

section \<open>Sequence parameter set\<close>

lemma h264_ph_units_val:
  assumes "frame_mbs_only_flag pp \<or> 0 < picture_height_in_mbs_minus1 pp"
  shows "unat (h264_ph_units pp) =
    (if frame_mbs_only_flag pp then unat (picture_height_in_mbs_minus1 pp)
     else (unat (picture_height_in_mbs_minus1 pp) + 1) div 2 - 1)"
proof -
  let ?h = "ucast (picture_height_in_mbs_minus1 pp) :: u32"
  have "unat (?h + 1) = unat (picture_height_in_mbs_minus1 pp) + 1"
    by (simp add: unat_Suc_no_wrap)
  then have d: "unat ((?h + 1) div 2) = (unat (picture_height_in_mbs_minus1 pp) + 1) div 2"
    by (simp add: unat_div)
  moreover have "unat ((?h + 1) div 2 - 1) = unat ((?h + 1) div 2) - 1"
    if "unat ((?h + 1) div 2) \<noteq> 0"
    using that by (subst unat_sub) (auto simp: word_le_nat_alt)
  ultimately show ?thesis
    using assms by (auto simp: h264_ph_units_def word_less_nat_alt)
qed

lemma h264_ph_units_ok:
  assumes "frame_mbs_only_flag pp \<or> 0 < picture_height_in_mbs_minus1 pp"
  shows "h264_ph_units pp \<noteq> - 1"
proof (rule small_not_max)
  have "unat (h264_ph_units pp) \<le> unat (picture_height_in_mbs_minus1 pp)"
    using h264_ph_units_val [OF assms] by (simp split: if_splits)
  then show "unat (h264_ph_units pp) < 4294967295"
    using unat_u16_lt [of "picture_height_in_mbs_minus1 pp"] by linarith
qed

lemma unat_profile: "0 \<le> p \<Longrightarrow> p < 256 \<Longrightarrow> unat (word_of_int p :: u32) = nat p"
  by (simp add: unat_word_of_int_u32)

lemma dec_chroma_ops:
  assumes "h264_pp_wf pp" and "0 \<le> p"
  shows "dec_chroma (nat p)
     (ops_bits (sps_chroma_ops pp p) @ rest) = Some (si_chroma (sps_info_of pp p), rest)"
proof -
  have hp: "nat p \<in> {100, 110, 122, 244, 44, 83, 86, 118, 128} \<longleftrightarrow> h264_high_profile p"
    using assms(2) by (auto simp: h264_high_profile_def nat_eq_iff)
  have c: "chroma_format_idc pp \<noteq> - 1" "unat (chroma_format_idc pp) = 3 \<longleftrightarrow> chroma_format_idc pp = 3"
    using assms(1) unat_eq_lit_u32 [of "chroma_format_idc pp" 3] by (auto simp: h264_pp_wf_def)
  show ?thesis
    unfolding dec_chroma_def hp by (auto simp: c sps_info_of_def sps_chroma_ops_def)
qed

lemma dec_poc_ops:
  assumes "h264_pp_wf pp"
  shows "dec_poc (ue_bits (pic_order_cnt_type pp) @
     ops_bits (sps_poc_ops pp) @ rest) =
    Some ((si_poc_type (sps_info_of pp p), si_log2_poc_lsb (sps_info_of pp p),
           si_delta_always_zero (sps_info_of pp p)), rest)"
proof -
  have c: "pic_order_cnt_type pp \<noteq> - 1" "log2_max_pic_order_cnt_lsb_minus4 pp \<noteq> - 1"
    "unat (pic_order_cnt_type pp) = 0 \<longleftrightarrow> pic_order_cnt_type pp = 0"
    "unat (pic_order_cnt_type pp) = Suc 0 \<longleftrightarrow> pic_order_cnt_type pp = 1"
    using assms unat_eq_lit_u32 [of "pic_order_cnt_type pp" 0]
      unat_eq_lit_u32 [of "pic_order_cnt_type pp" 1] by (auto simp: h264_pp_wf_def)
  show ?thesis
    by (auto simp: dec_poc_def c sps_info_of_def sps_poc_ops_def)
qed

lemma dec_sps_ops:
  assumes "h264_pp_wf pp" and "0 \<le> p" and "p < 256"
    and "frame_mbs_only_flag pp \<or> 0 < picture_height_in_mbs_minus1 pp"
  shows "dec_sps (ops_bits (h264_sps_ops pp p) @ rest) = Some (sps_info_of pp p, rest)"
proof -
  have l: "log2_max_frame_num_minus4 pp \<noteq> - 1" using assms(1) by (auto simp: h264_pp_wf_def)
  note vals = dec_chroma_ops [OF assms(1,2)] dec_poc_ops [OF assms(1), where p = p]
    unat_profile [OF assms(2,3)] h264_ph_units_ok [OF assms(4)] h264_ph_units_val [OF assms(4)] l
  have "nat p < 256" using assms(2,3) by simp
  then show ?thesis
    unfolding dec_sps_def h264_sps_ops_def
    by (cases "frame_mbs_only_flag pp") (simp_all add: vals, simp_all add: sps_info_of_def)
qed

text \<open>Bounds on the number of bits, so that the 512 byte array never truncates.\<close>

lemma h264_sps_cost: "length (ops_bits (h264_sps_ops pp p)) \<le> 1100"
proof -
  have "sum_list (map op_cost (sps_chroma_ops pp p)) \<le> 192"
    "sum_list (map op_cost (sps_poc_ops pp)) \<le> 190"
    by (simp_all add: sps_chroma_ops_def sps_poc_ops_def)
  then have "sum_list (map op_cost (h264_sps_ops pp p)) \<le> 1100"
    by (simp add: h264_sps_ops_def)
  then show ?thesis using length_ops_bits_cost [of "h264_sps_ops pp p"] by simp
qed

text \<open>The common tail succeeds exactly when the doubled size fits.\<close>

lemma h264_annex_b_fits:
  "raw \<noteq> [] \<Longrightarrow> 4 + 2 * length raw \<le> buf_size \<Longrightarrow>
     h264_annex_b raw buf_size = Some ([0, 0, 0, 1] @ escape 0 raw)"
  using h264_esc.esc_double [of raw "buf_size - 4"] by (simp add: h264_annex_b_def)

lemma h264_annex_b_small: "buf_size < 4 + 2 * length raw \<Longrightarrow> h264_annex_b raw buf_size = None"
  by (simp add: h264_annex_b_def)

lemma h264_write_sps_cases:
  "h264_write_sps buf_size pp p = h264_annex_b (bs_emit 512 (h264_sps_ops pp p)) buf_size"
  by (simp add: h264_write_sps_def bs_emit_def Let_def)

lemma h264_sps_raw:
  "length (bs_emit 512 (h264_sps_ops pp p)) \<le> 138"
  "bs_emit 512 (h264_sps_ops pp p) \<noteq> []"
  "bytes_bits (bs_emit 512 (h264_sps_ops pp p)) = trailing_bits (ops_bits (h264_sps_ops pp p))"
proof -
  have fit: "length (ops_bits (h264_sps_ops pp p)) + 8 \<le> 8 * 512"
    using h264_sps_cost [of pp p] by simp
  show "length (bs_emit 512 (h264_sps_ops pp p)) \<le> 138"
    using h264_sps_cost [of pp p] by (simp add: length_bs_emit [OF fit])
  show "bs_emit 512 (h264_sps_ops pp p) \<noteq> []"
    using length_bs_emit [OF fit] by auto
  show "bytes_bits (bs_emit 512 (h264_sps_ops pp p)) = trailing_bits (ops_bits (h264_sps_ops pp p))"
    by (rule bs_emit_bits [OF fit])
qed

lemma h264_write_sps_holds:
  assumes "h264_pp_wf pp" and "0 \<le> p" and "p < 256"
    and "frame_mbs_only_flag pp \<or> 0 < picture_height_in_mbs_minus1 pp" and "280 \<le> buf_size"
  shows "\<exists>out. h264_write_sps buf_size pp p = Some out \<and> nal_holds dec_sps (sps_info_of pp p) out"
proof -
  let ?raw = "bs_emit 512 (h264_sps_ops pp p)"
  have "h264_write_sps buf_size pp p = Some ([0, 0, 0, 1] @ escape 0 ?raw)"
    unfolding h264_write_sps_cases using h264_sps_raw(1,2) [of pp p] assms(5)
    by (intro h264_annex_b_fits) simp_all
  with nal_holds_annex_b [where dec = dec_sps, OF h264_sps_raw(3) dec_sps_ops [OF assms(1-4)]]
  show ?thesis by blast
qed

section \<open>The derived level\<close>

definition level_admits :: "VAPictureParameterBufferH264 \<Rightarrow> H264LevelLimit \<Rightarrow> bool" where
  "level_admits pp limit \<longleftrightarrow>
     (let w = unat (picture_width_in_mbs_minus1 pp) + 1;
          h = unat (picture_height_in_mbs_minus1 pp) + 1
      in w * h \<le> unat (max_fs limit) \<and> w ^ 2 \<le> 8 * unat (max_fs limit) \<and>
         h ^ 2 \<le> 8 * unat (max_fs limit) \<and>
         w * h * unat (num_ref_frames pp) \<le> unat (max_dpb_mbs limit) \<and>
         (MinLumaBiPredSize8x8 pp \<longrightarrow> 31 \<le> level_idc limit))"

lemma unat_mult_small: "unat a * unat b < 2 ^ 64 \<Longrightarrow> unat (a * b) = unat a * unat b"
  for a b :: u64
  by (simp add: unat_word_ariths)

lemma level_skip_iff: "level_skip pp limit \<longleftrightarrow> \<not> level_admits pp limit"
proof -
  let ?w = "ucast (picture_width_in_mbs_minus1 pp) + 1 :: u64"
  let ?h = "ucast (picture_height_in_mbs_minus1 pp) + 1 :: u64"
  let ?W = "unat (picture_width_in_mbs_minus1 pp) + 1"
  let ?H = "unat (picture_height_in_mbs_minus1 pp) + 1"
  let ?r = "ucast (num_ref_frames pp) :: u64"
  have b: "?W \<le> 65536" "?H \<le> 65536" "unat (num_ref_frames pp) \<le> 256"
    using unat_u16_lt [of "picture_width_in_mbs_minus1 pp"]
      unat_u16_lt [of "picture_height_in_mbs_minus1 pp"] unat_u8_lt [of "num_ref_frames pp"]
    by linarith+
  have w: "unat ?w = ?W" and h: "unat ?h = ?H"
    using b by (simp_all add: unat_word_ariths)
  note prods = mult_le_mono [OF b(1) b(2)] mult_le_mono [OF b(1) b(1)] mult_le_mono [OF b(2) b(2)]
  have wh: "unat (?w * ?h) = ?W * ?H"
    by (subst unat_mult_small; use prods(1) in \<open>simp only: w h\<close>) simp
  have ww: "unat (?w * ?w) = ?W * ?W"
    by (subst unat_mult_small; use prods(2) in \<open>simp only: w\<close>) simp
  have hh: "unat (?h * ?h) = ?H * ?H"
    by (subst unat_mult_small; use prods(3) in \<open>simp only: h\<close>) simp
  have whr: "unat (?w * ?h * ?r) = ?W * ?H * unat (num_ref_frames pp)"
    by (subst unat_mult_small;
        use mult_le_mono [OF prods(1) b(3)] in \<open>simp only: wh unat_ucast_u8_u64\<close>) simp
  have m: "unat (8 * (ucast (max_fs limit) :: u64)) = 8 * unat (max_fs limit)"
  proof -
    have "8 * unat (max_fs limit) < 18446744073709551616"
      using unat_u32_lt [of "max_fs limit"] by linarith
    then show ?thesis by (simp add: unat_word_ariths)
  qed
  show ?thesis
    unfolding level_skip_def level_admits_def Let_def word_less_nat_alt wh ww hh whr m
      unat_ucast_u32_u64 power2_eq_square
    by (auto simp: not_le word_le_nat_alt)
qed

lemma level_scan_spec:
  "sorted_wrt (\<lambda>a b. level_idc a < level_idc b) ls \<Longrightarrow>
     (\<exists>l \<in> set ls. level_scan pp ls = level_idc l \<and> level_admits pp l \<and>
        (\<forall>k \<in> set ls. level_admits pp k \<longrightarrow> level_idc l \<le> level_idc k)) \<or>
     (level_scan pp ls = 62 \<and> (\<forall>k \<in> set ls. \<not> level_admits pp k))"
  by (induction ls) (auto simp: level_skip_iff)

lemma h264_level_limits_sorted: "sorted_wrt (\<lambda>a b. level_idc a < level_idc b) h264_level_limits"
  by (simp add: h264_level_limits_def mk_level_def)

section \<open>Picture parameter set\<close>

text \<open>
  The scaling list syntax of clause 7.3.2.1.1.1. A decoded value of zero would switch to the
  default list, so it is not a coded entry.
\<close>

fun dec_scaling :: "nat \<Rightarrow> int \<Rightarrow> bool list \<Rightarrow> (int list \<times> bool list) option" where
  "dec_scaling 0 last_scale b = Some ([], b)"
| "dec_scaling (Suc n) last_scale b =
     do {
       (delta, b) \<leftarrow> get_se b;
       let next_scale = (last_scale + delta + 256) mod 256;
       if next_scale = 0 then None
       else do { (xs, b) \<leftarrow> dec_scaling n next_scale b; Some (next_scale # xs, b) }
     }"

fun dec_scaling_lists :: "nat \<Rightarrow> nat \<Rightarrow> bool list \<Rightarrow> (int list list \<times> bool list) option" where
  "dec_scaling_lists 0 n b = Some ([], b)"
| "dec_scaling_lists (Suc k) n b =
     do {
       (present, b) \<leftarrow> get_flag b;
       if \<not> present then None
       else do {
         (l, b) \<leftarrow> dec_scaling n 8 b;
         (ls, b) \<leftarrow> dec_scaling_lists k n b;
         Some (l # ls, b) }
     }"

text \<open>\<open>more_rbsp_data\<close>: some bit other than the first of the remaining ones is set.\<close>

definition more_rbsp_data :: "bool list \<Rightarrow> bool" where
  "more_rbsp_data b \<longleftrightarrow> \<not> (b = [] \<or> True \<notin> set (tl b))"

record pps_info =
  pi_cabac :: bool
  pi_pic_order_present :: bool
  pi_refs :: "nat \<times> nat"
  pi_weighted :: "bool \<times> nat"
  pi_qp :: "int \<times> int \<times> int"
  pi_flags :: "bool \<times> bool \<times> bool"
  pi_ext :: "(bool \<times> (int list list \<times> int list list) option \<times> int) option"

definition dec_pps_ext ::
    "bool list \<Rightarrow> ((bool \<times> (int list list \<times> int list list) option \<times> int) \<times> bool list) option" where
  "dec_pps_ext b =
     do {
       (t8, b) \<leftarrow> get_flag b;
       (matrix, b) \<leftarrow> get_flag b;
       (lists, b) \<leftarrow> (if matrix
          then do {
            (l4, b) \<leftarrow> dec_scaling_lists 6 16 b;
            (l8, b) \<leftarrow> dec_scaling_lists (if t8 then 2 else 0) 64 b;
            Some (Some (l4, l8), b) }
          else Some (None, b));
       (cqp2, b) \<leftarrow> get_se b;
       Some ((t8, lists, cqp2), b)
     }"

definition dec_pps :: "bool list \<Rightarrow> (pps_info \<times> bool list) option" where
  "dec_pps b =
     do {
       (hdr, b) \<leftarrow> get_u 8 b;
       (pps_id, b) \<leftarrow> get_ue b;
       (sps_id, b) \<leftarrow> get_ue b;
       (cabac, b) \<leftarrow> get_flag b;
       (pop, b) \<leftarrow> get_flag b;
       (groups, b) \<leftarrow> get_ue b;
       (l0, b) \<leftarrow> get_ue b;
       (l1, b) \<leftarrow> get_ue b;
       (wp, b) \<leftarrow> get_flag b;
       (bipred, b) \<leftarrow> get_u 2 b;
       (qp, b) \<leftarrow> get_se b;
       (qs, b) \<leftarrow> get_se b;
       (cqp, b) \<leftarrow> get_se b;
       (dbk, b) \<leftarrow> get_flag b;
       (cip, b) \<leftarrow> get_flag b;
       (rpc, b) \<leftarrow> get_flag b;
       (ext, b) \<leftarrow> (if more_rbsp_data b then map_option (map_prod Some id) (dec_pps_ext b)
                    else Some (None, b));
       if hdr = 0x68 \<and> pps_id = 0 \<and> sps_id = 0 \<and> groups = 0
       then Some (\<lparr>pi_cabac = cabac, pi_pic_order_present = pop, pi_refs = (l0, l1),
         pi_weighted = (wp, bipred), pi_qp = (qp, qs, cqp), pi_flags = (dbk, cip, rpc),
         pi_ext = ext\<rparr>, b)
       else None
     }"

definition scan_list :: "nat list \<Rightarrow> u8 list \<Rightarrow> int list" where
  "scan_list scan l = map (\<lambda>s. uint (l ! s)) scan"

definition pps_ext_of ::
    "VAPictureParameterBufferH264 \<Rightarrow> VAIQMatrixBufferH264 option \<Rightarrow>
     bool \<times> (int list list \<times> int list list) option \<times> int" where
  "pps_ext_of pp iq =
     (transform_8x8_mode_flag pp,
      map_option (\<lambda>m. (map (scan_list scan4x4) (ScalingList4x4 m),
        if transform_8x8_mode_flag pp then map (scan_list scan8x8) (ScalingList8x8 m) else [])) iq,
      sint (second_chroma_qp_index_offset pp))"

definition pps_info_of ::
    "VAPictureParameterBufferH264 \<Rightarrow> VAIQMatrixBufferH264 option \<Rightarrow> int \<Rightarrow> int \<Rightarrow> pps_info" where
  "pps_info_of pp iq l0 l1 =
     \<lparr>pi_cabac = entropy_coding_mode_flag pp, pi_pic_order_present = pic_order_present_flag pp,
      pi_refs = (nat l0, nat l1),
      pi_weighted = (weighted_pred_flag pp, unat (weighted_bipred_idc pp)),
      pi_qp = (sint (pic_init_qp_minus26 pp), sint (pic_init_qs_minus26 pp),
               sint (chroma_qp_index_offset pp)),
      pi_flags = (deblocking_filter_control_present_flag pp, constrained_intra_pred_flag pp,
                  redundant_pic_cnt_present_flag pp),
      pi_ext = (if pps_has_extension pp iq then Some (pps_ext_of pp iq) else None)\<rparr>"

text \<open>The scaling list entries that the PPS writer visits are all nonzero.\<close>

definition iq_coded :: "VAPictureParameterBufferH264 \<Rightarrow> VAIQMatrixBufferH264 option \<Rightarrow> bool" where
  "iq_coded pp iq \<longleftrightarrow> (case iq of None \<Rightarrow> True | Some m \<Rightarrow>
     list_all (\<lambda>l. 0 \<notin> set l) (ScalingList4x4 m) \<and>
     (transform_8x8_mode_flag pp \<longrightarrow> list_all (\<lambda>l. 0 \<notin> set l) (ScalingList8x8 m)))"

subsection \<open>Scaling lists\<close>

fun scale_ops :: "int \<Rightarrow> int list \<Rightarrow> wop list" where
  "scale_ops last_scale [] = []"
| "scale_ops last_scale (x # xs) = SE (scale_delta last_scale x) # scale_ops x xs"

lemma scaling_list_loop_run:
  "scaling_list_loop bs l last_scale scan =
     (if 0 \<in> set (scan_list scan l) then None
      else Some (bs_run bs (scale_ops last_scale (scan_list scan l))))"
  by (induction scan arbitrary: bs last_scale) (auto simp: scan_list_def Let_def bs_op.simps)

lemma scale_delta_range:
  "0 \<le> x \<Longrightarrow> x < 256 \<Longrightarrow> 0 \<le> y \<Longrightarrow> y < 256 \<Longrightarrow> - 128 \<le> scale_delta x y \<and> scale_delta x y \<le> 127"
  by (simp add: scale_delta_def Let_def)

lemma scale_delta_inverse:
  assumes "0 \<le> x" "x < 256" "0 \<le> y" "y < 256"
  shows "(x + scale_delta x y + 256) mod 256 = y"
proof -
  have "scale_delta x y \<in> {y - x, y - x - 256, y - x + 256}"
    by (simp add: scale_delta_def Let_def)
  then show ?thesis using assms by auto
qed

lemma dec_scaling_ops:
  "list_all (\<lambda>x. 0 < x \<and> x < 256) xs \<Longrightarrow> 0 \<le> last_scale \<Longrightarrow> last_scale < 256 \<Longrightarrow>
     dec_scaling (length xs) last_scale (ops_bits (scale_ops last_scale xs) @ rest) = Some (xs, rest)"
proof (induction xs arbitrary: last_scale)
  case (Cons x xs)
  then have "- (2 ^ 30) < scale_delta last_scale x" "scale_delta last_scale x < 2 ^ 30"
    using scale_delta_range [of last_scale x] by auto
  with Cons scale_delta_inverse [of last_scale x] show ?case by simp
qed simp

definition lists_ops :: "int list list \<Rightarrow> wop list" where
  "lists_ops ls = concat (map (\<lambda>l. W 1 1 # scale_ops 8 l) ls)"

lemma lists_ops_simps [simp]:
  "lists_ops [] = []" "lists_ops (l # ls) = W 1 1 # scale_ops 8 l @ lists_ops ls"
  by (simp_all add: lists_ops_def)

lemma pps_scaling_lists_run:
  "pps_scaling_lists bs scan ls =
     (if list_all (\<lambda>l. 0 \<notin> set (scan_list scan l)) ls
      then Some (bs_run bs (lists_ops (map (scan_list scan) ls))) else None)"
  by (induction ls arbitrary: bs)
    (auto simp: write_scaling_list_def scaling_list_loop_run bs_run_append)

lemma dec_scaling_lists_ops:
  "list_all (\<lambda>l. length l = n \<and> list_all (\<lambda>x. 0 < x \<and> x < 256) l) ls \<Longrightarrow>
     dec_scaling_lists (length ls) n (ops_bits (lists_ops ls) @ rest) = Some (ls, rest)"
  by (induction ls) (auto simp: dec_scaling_ops)

subsection \<open>The whole structure\<close>

lemma scan4x4_perm: "set scan4x4 = {..<16}" "length scan4x4 = 16"
  by (simp add: scan4x4_def lessThan_nat_numeral lessThan_Suc insert_commute) (simp add: scan4x4_def)

lemma scan8x8_perm: "set scan8x8 = {..<64}" "length scan8x8 = 64"
  by (simp add: scan8x8_def lessThan_nat_numeral lessThan_Suc insert_commute) (simp add: scan8x8_def)

lemma set_scan_list: "set scan = {..<n} \<Longrightarrow> length l = n \<Longrightarrow> set (scan_list scan l) = uint ` set l"
proof -
  assume *: "set scan = {..<n}" "length l = n"
  have "set l = (\<lambda>i. l ! i) ` {..<length l}" by (auto simp: set_conv_nth)
  with * show ?thesis by (simp add: scan_list_def image_image)
qed

lemma scan_list_entries: "list_all (\<lambda>x. 0 \<le> x \<and> x < 256) (scan_list scan l)"
  by (auto simp: scan_list_def list_all_iff uint_lt2p [where 'a = 8, simplified])

lemma length_scan_list [simp]: "length (scan_list scan l) = length scan"
  by (simp add: scan_list_def)

definition lists8 ::
    "VAPictureParameterBufferH264 \<Rightarrow> VAIQMatrixBufferH264 \<Rightarrow> int list list" where
  "lists8 pp m = (if transform_8x8_mode_flag pp then map (scan_list scan8x8) (ScalingList8x8 m) else [])"

definition pps_ext_ops ::
    "VAPictureParameterBufferH264 \<Rightarrow> VAIQMatrixBufferH264 option \<Rightarrow> wop list" where
  "pps_ext_ops pp iq =
     [W (of_bool (transform_8x8_mode_flag pp)) 1, W (of_bool (iq \<noteq> None)) 1] @
     (case iq of None \<Rightarrow> [] | Some m \<Rightarrow>
        lists_ops (map (scan_list scan4x4) (ScalingList4x4 m)) @ lists_ops (lists8 pp m)) @
     [SE (sint (second_chroma_qp_index_offset pp))]"

lemma zero_notin_scan:
  assumes "set scan = {..<n}" and "list_all (\<lambda>l. length l = n) ls"
  shows "list_all (\<lambda>l. 0 \<notin> set (scan_list scan l)) ls \<longleftrightarrow> list_all (\<lambda>l. 0 \<notin> set l) ls"
proof -
  have "0 \<in> uint ` set l \<longleftrightarrow> 0 \<in> set l" for l :: "u8 list"
    by (auto simp: image_iff uint_0_iff)
  with assms show ?thesis
    by (auto simp: list_all_iff set_scan_list [OF assms(1)])
qed

lemma pps_extension_run:
  assumes "\<And>m. iq = Some m \<Longrightarrow> h264_iq_wf m"
  shows "pps_extension pp iq bs =
    (if iq_coded pp iq then Some (bs_run bs (pps_ext_ops pp iq)) else None)"
proof (cases iq)
  case None
  then show ?thesis by (simp add: pps_extension_def iq_coded_def pps_ext_ops_def)
next
  case (Some m)
  with assms have wf: "h264_iq_wf m" by simp
  then have z: "list_all (\<lambda>l. 0 \<notin> set (scan_list scan4x4 l)) (ScalingList4x4 m) \<longleftrightarrow>
        list_all (\<lambda>l. 0 \<notin> set l) (ScalingList4x4 m)"
      "list_all (\<lambda>l. 0 \<notin> set (scan_list scan8x8 l)) (ScalingList8x8 m) \<longleftrightarrow>
        list_all (\<lambda>l. 0 \<notin> set l) (ScalingList8x8 m)"
    by (auto simp: h264_iq_wf_def zero_notin_scan scan4x4_perm scan8x8_perm)
  from wf have l: "length (ScalingList4x4 m) = 6" "length (ScalingList8x8 m) = 2"
    by (simp_all add: h264_iq_wf_def)
  show ?thesis
    using Some by (simp add: pps_extension_def pps_scaling_lists_run z l iq_coded_def
        pps_ext_ops_def lists8_def bs_run_append)
qed

lemma dec_lists_scan:
  assumes "set scan = {..<n}" "length scan = n"
    and "list_all (\<lambda>l. length l = n) ls" and "list_all (\<lambda>l. 0 \<notin> set l) ls"
  shows "dec_scaling_lists (length ls) n (ops_bits (lists_ops (map (scan_list scan) ls)) @ rest) =
    Some (map (scan_list scan) ls, rest)"
proof -
  have "list_all (\<lambda>l. 0 \<notin> set (scan_list scan l)) ls"
    using zero_notin_scan [OF assms(1,3)] assms(4) by simp
  then have "list_all (\<lambda>l. length l = n \<and> list_all (\<lambda>x. 0 < x \<and> x < 256) l) (map (scan_list scan) ls)"
    using scan_list_entries [of scan] assms(2)
    by (fastforce simp: list_all_iff order_less_le)
  from dec_scaling_lists_ops [OF this] show ?thesis by simp
qed

lemma dec_pps_ext_ops:
  assumes "\<And>m. iq = Some m \<Longrightarrow> h264_iq_wf m" and "iq_coded pp iq"
  shows "dec_pps_ext (ops_bits (pps_ext_ops pp iq) @ rest) = Some (pps_ext_of pp iq, rest)"
proof (cases iq)
  case None
  then show ?thesis
    by (simp add: dec_pps_ext_def pps_ext_ops_def pps_ext_of_def)
next
  case (Some m)
  with assms have wf: "h264_iq_wf m" and
    nz: "list_all (\<lambda>l. 0 \<notin> set l) (ScalingList4x4 m)"
      "transform_8x8_mode_flag pp \<Longrightarrow> list_all (\<lambda>l. 0 \<notin> set l) (ScalingList8x8 m)"
    by (simp_all add: iq_coded_def)
  have d4: "dec_scaling_lists 6 16 (ops_bits (lists_ops (map (scan_list scan4x4) (ScalingList4x4 m))) @ r)
      = Some (map (scan_list scan4x4) (ScalingList4x4 m), r)" for r
    using dec_lists_scan [OF scan4x4_perm, of "ScalingList4x4 m" r] wf nz(1)
    by (simp add: h264_iq_wf_def)
  have d8: "dec_scaling_lists (if transform_8x8_mode_flag pp then 2 else 0) 64
       (ops_bits (lists_ops (lists8 pp m)) @ r) = Some (lists8 pp m, r)" for r
    using dec_lists_scan [OF scan8x8_perm, of "ScalingList8x8 m" r] wf nz(2)
    by (simp add: h264_iq_wf_def lists8_def)
  show ?thesis
    using Some d8 by (cases "transform_8x8_mode_flag pp")
      (simp_all add: dec_pps_ext_def pps_ext_ops_def d4 pps_ext_of_def lists8_def)
qed

lemma more_rbsp_data_ext:
  "bits \<noteq> [] \<Longrightarrow> rbsp_tail t \<Longrightarrow> more_rbsp_data (bits @ t)"
  by (cases bits) (auto simp: more_rbsp_data_def rbsp_tail_def)

lemma no_more_rbsp_data: "rbsp_tail t \<Longrightarrow> \<not> more_rbsp_data t"
  by (auto simp: more_rbsp_data_def rbsp_tail_def)

definition h264_pps_all_ops ::
    "VAPictureParameterBufferH264 \<Rightarrow> VAIQMatrixBufferH264 option \<Rightarrow> int \<Rightarrow> int \<Rightarrow> wop list" where
  "h264_pps_all_ops pp iq l0 l1 = h264_pps_ops pp l0 l1 @
     (if pps_has_extension pp iq then pps_ext_ops pp iq else [])"

lemma iq_coded_no_extension: "\<not> pps_has_extension pp iq \<Longrightarrow> iq_coded pp iq"
  by (auto simp: pps_has_extension_def iq_coded_def)

lemma h264_write_pps_run:
  assumes "\<And>m. iq = Some m \<Longrightarrow> h264_iq_wf m"
  shows "h264_write_pps buf_size pp iq l0 l1 =
    (if iq_coded pp iq then h264_annex_b (bs_emit 1024 (h264_pps_all_ops pp iq l0 l1)) buf_size
     else None)"
  by (simp add: h264_write_pps_def pps_extension_run assms h264_pps_all_ops_def bs_emit_def
      bs_run_append iq_coded_no_extension)

lemma default_refs:
  assumes "l < 2 ^ 31"
  shows "unat (word_of_int (if l < 0 then 0 else l) :: u32) = nat l"
  using assms by (simp add: unat_word_of_int_u32)

lemma default_refs_ok: "l < 2 ^ 31 \<Longrightarrow> (word_of_int (if l < 0 then 0 else l) :: u32) \<noteq> - 1"
  by (rule small_not_max, subst default_refs) auto

lemma dec_pps_ops:
  assumes "h264_pp_wf pp" and "\<And>m. iq = Some m \<Longrightarrow> h264_iq_wf m" and "iq_coded pp iq"
    and "l0 < 2 ^ 31" and "l1 < 2 ^ 31" and "rbsp_tail t"
  shows "dec_pps (ops_bits (h264_pps_all_ops pp iq l0 l1) @ t) = Some (pps_info_of pp iq l0 l1, t)"
proof -
  let ?ext = "ops_bits (if pps_has_extension pp iq then pps_ext_ops pp iq else [])"
  have "pps_has_extension pp iq \<Longrightarrow> more_rbsp_data (ops_bits (pps_ext_ops pp iq) @ t)"
    by (rule more_rbsp_data_ext [OF _ assms(6)]) (simp add: pps_ext_ops_def)
  then have ext: "(if more_rbsp_data (?ext @ t)
       then map_option (map_prod Some id) (dec_pps_ext (?ext @ t)) else Some (None, ?ext @ t)) =
      Some (pi_ext (pps_info_of pp iq l0 l1), t)"
    using assms by (cases "pps_ext_of pp iq")
      (simp add: dec_pps_ext_ops no_more_rbsp_data pps_info_of_def)
  have w: "unat (weighted_bipred_idc pp) < 4"
    using assms(1) by (simp add: h264_pp_wf_def)
  note refs = default_refs [OF assms(4)] default_refs [OF assms(5)]
    default_refs_ok [OF assms(4)] default_refs_ok [OF assms(5)]
  show ?thesis
    unfolding dec_pps_def h264_pps_all_ops_def h264_pps_ops_def
    by (simp add: refs ext w split del: if_split) (simp add: pps_info_of_def)
qed

lemma scale_op_small:
  "- 128 \<le> v \<Longrightarrow> v \<le> 128 \<Longrightarrow> length (op_bits (SE v)) \<le> 17"
proof -
  assume "- 128 \<le> v" "v \<le> 128"
  then have "unat (se_code v) + 1 < 2 ^ Suc 8" by (subst se_code_neq) auto
  from length_ue_bits_bound [OF this] show ?thesis by simp
qed

lemma scale_ops_cost:
  "list_all (\<lambda>x. 0 \<le> x \<and> x < 256) xs \<Longrightarrow> 0 \<le> last_scale \<Longrightarrow> last_scale < 256 \<Longrightarrow>
     length (ops_bits (scale_ops last_scale xs)) \<le> 17 * length xs"
proof (induction xs arbitrary: last_scale)
  case (Cons x xs)
  then have "length (op_bits (SE (scale_delta last_scale x))) \<le> 17"
    using scale_delta_range [of last_scale x] by (intro scale_op_small) simp_all
  moreover have "length (ops_bits (scale_ops x xs)) \<le> 17 * length xs"
    using Cons by simp
  ultimately show ?case by simp
qed simp

lemma lists_ops_cost:
  "length (ops_bits (lists_ops (map (scan_list scan) ls))) \<le> length ls * (1 + 17 * length scan)"
proof (induction ls)
  case (Cons l ls)
  with scale_ops_cost [OF scan_list_entries, of 8 scan l] show ?case by simp
qed simp

lemma h264_pps_cost:
  assumes "\<And>m. iq = Some m \<Longrightarrow> h264_iq_wf m"
  shows "length (ops_bits (h264_pps_all_ops pp iq l0 l1)) \<le> 4500"
proof -
  have 1: "length (ops_bits (h264_pps_ops pp l0 l1)) \<le> 528"
    using length_ops_bits_cost [of "h264_pps_ops pp l0 l1"] by (simp add: h264_pps_ops_def)
  have "length (ops_bits (pps_ext_ops pp iq)) \<le> 3972"
  proof (cases iq)
    case None
    then show ?thesis
      using length_ue_bits_le [of "se_code (sint (second_chroma_qp_index_offset pp))"]
      by (simp add: pps_ext_ops_def)
  next
    case (Some m)
    with assms have wf: "h264_iq_wf m" by simp
    have "length (ops_bits (lists_ops (lists8 pp m))) \<le> 2178"
      using wf lists_ops_cost [of scan8x8 "ScalingList8x8 m"]
      by (simp add: lists8_def h264_iq_wf_def scan8x8_perm)
    then show ?thesis
      using Some wf lists_ops_cost [of scan4x4 "ScalingList4x4 m"] 
        length_ue_bits_le [of "se_code (sint (second_chroma_qp_index_offset pp))"]
      by (simp add: pps_ext_ops_def h264_iq_wf_def scan4x4_perm)
  qed
  with 1 show ?thesis by (simp add: h264_pps_all_ops_def)
qed

lemma h264_write_pps_holds:
  assumes "h264_pp_wf pp" and "\<And>m. iq = Some m \<Longrightarrow> h264_iq_wf m" and "iq_coded pp iq"
    and "l0 < 2 ^ 31" and "l1 < 2 ^ 31" and "1200 \<le> buf_size"
  shows "\<exists>out. h264_write_pps buf_size pp iq l0 l1 = Some out \<and>
    nal_holds dec_pps (pps_info_of pp iq l0 l1) out"
proof -
  let ?ops = "h264_pps_all_ops pp iq l0 l1"
  have c: "length (ops_bits ?ops) \<le> 4500" by (rule h264_pps_cost) (rule assms(2))
  then have fit: "length (ops_bits ?ops) + 8 \<le> 8 * 1024" by simp
  have "length (bs_emit 1024 ?ops) \<le> 563" "bs_emit 1024 ?ops \<noteq> []"
    using c length_bs_emit [OF fit] by auto
  then have "h264_write_pps buf_size pp iq l0 l1 = Some ([0, 0, 0, 1] @ escape 0 (bs_emit 1024 ?ops))"
    using assms(3,6) by (simp add: h264_write_pps_run assms(2) h264_annex_b_fits)
  moreover have "nal_holds dec_pps (pps_info_of pp iq l0 l1) ([0, 0, 0, 1] @ escape 0 (bs_emit 1024 ?ops))"
    by (rule nal_holds_annex_b [OF bs_emit_bits [OF fit]], rule dec_pps_ops) (use assms in auto)
  ultimately show ?thesis by blast
qed

section \<open>Properties\<close>

definition sample_pp :: VAPictureParameterBufferH264 where
  "sample_pp = \<lparr>picture_width_in_mbs_minus1 = 119, picture_height_in_mbs_minus1 = 67,
     bit_depth_luma_minus8 = 0, bit_depth_chroma_minus8 = 0, num_ref_frames = 4,
     chroma_format_idc = 1, residual_colour_transform_flag = False,
     gaps_in_frame_num_value_allowed_flag = False, frame_mbs_only_flag = False,
     mb_adaptive_frame_field_flag = True, direct_8x8_inference_flag = True,
     MinLumaBiPredSize8x8 = True, log2_max_frame_num_minus4 = 5, pic_order_cnt_type = 0,
     log2_max_pic_order_cnt_lsb_minus4 = 6, delta_pic_order_always_zero_flag = False,
     entropy_coding_mode_flag = True, weighted_pred_flag = True, weighted_bipred_idc = 2,
     transform_8x8_mode_flag = True, constrained_intra_pred_flag = False,
     pic_order_present_flag = False, deblocking_filter_control_present_flag = True,
     redundant_pic_cnt_present_flag = False, pic_init_qp_minus26 = - 3, pic_init_qs_minus26 = 0,
     chroma_qp_index_offset = - 2, second_chroma_qp_index_offset = - 2\<rparr>"

definition sample_iq :: VAIQMatrixBufferH264 where
  "sample_iq = \<lparr>ScalingList4x4 = replicate 6 (replicate 16 16),
     ScalingList8x8 = replicate 2 (map of_nat [1..<65])\<rparr>"

text \<open>
  The reconstructed H.264 SPS is one Annex B unit without inner start codes, and a decoder
  following the standard's syntax reads from it the picture parameters, the derived level and
  the chosen profile. The height must not be a single macroblock row of an interlaced stream,
  the one case in which the code's \<open>/ 2 - 1\<close> wraps.
\<close>

theorem h264_sps_reconstructs:
  assumes "h264_pp_wf pp" and "0 \<le> profile" and "profile < 256"
    and "frame_mbs_only_flag pp \<or> 0 < picture_height_in_mbs_minus1 pp" and "280 \<le> buf_size"
  shows "\<exists>out. h264_write_sps buf_size pp profile = Some out \<and>
    nal_holds dec_sps (sps_info_of pp profile) out"
  by (rule h264_write_sps_holds [OF assms])

theorem h264_sps_reconstructs_witness:
  "\<exists>out. h264_write_sps 2048 sample_pp 100 = Some out \<and>
    nal_holds dec_sps (sps_info_of sample_pp 100) out"
  by (rule h264_sps_reconstructs) (simp_all add: h264_pp_wf_def sample_pp_def)



text \<open>
  With a buffer of the driver's size the PPS writer fails exactly when a scaling list it
  must transmit contains a zero entry, which the delta syntax cannot express.
\<close>

theorem h264_pps_fails_iff:
  assumes "h264_pp_wf pp" and "h264_iq_wf m" and "l0 < 2 ^ 31" and "l1 < 2 ^ 31" and "2048 \<le> buf_size"
  shows "h264_write_pps buf_size pp (Some m) l0 l1 = None \<longleftrightarrow>
    (\<exists>l \<in> set (ScalingList4x4 m) \<union> (if transform_8x8_mode_flag pp then set (ScalingList8x8 m) else {}).
       0 \<in> set l)"
proof (cases "iq_coded pp (Some m)")
  case True
  with h264_write_pps_holds [of pp "Some m" l0 l1 buf_size] assms show ?thesis
    by (auto simp: iq_coded_def list_all_iff split: if_splits)
next
  case False
  then have "h264_write_pps buf_size pp (Some m) l0 l1 = None"
    using assms(2) h264_write_pps_run [of "Some m" buf_size pp l0 l1] by simp
  with False show ?thesis by (auto simp: iq_coded_def list_all_iff)
qed

theorem h264_pps_fails_iff_witness:
  "h264_write_pps 2048 sample_pp (Some (sample_iq\<lparr>ScalingList8x8 := replicate 2 (map of_nat [0..<64])\<rparr>)) 0 0 = None"
proof -
  let ?m = "sample_iq\<lparr>ScalingList8x8 := replicate 2 (map of_nat [0..<64])\<rparr>"
  have wf: "h264_pp_wf sample_pp" "h264_iq_wf ?m"
    by (simp_all add: h264_pp_wf_def sample_pp_def h264_iq_wf_def sample_iq_def list_all_iff)
  have "(0 :: u8) \<in> set (map of_nat [0..<64])" by (simp add: image_iff) (rule bexI [of _ 0], simp_all)
  with h264_pps_fails_iff [OF wf, of 0 0 2048] show ?thesis
    by (simp add: sample_pp_def sample_iq_def)
qed

text \<open>
  C25: the derived level is the least level of the table whose frame size, dimension, DPB and
  bi-prediction limits admit the stream, and 62 when none does; the 64-bit products of the code
  never wrap.
\<close>

theorem h264_level_least:
  "(\<exists>l \<in> set h264_level_limits. h264_derive_level_idc (Some pp) = level_idc l \<and> level_admits pp l \<and>
      {k \<in> set h264_level_limits. level_admits pp k} \<subseteq> {k. level_idc l \<le> level_idc k}) \<or>
   (h264_derive_level_idc (Some pp) = 62 \<and> {k \<in> set h264_level_limits. level_admits pp k} = {})"
  using level_scan_spec [OF h264_level_limits_sorted, of pp]
  by (auto simp: h264_derive_level_idc_def)

end
