(* ===== verification/HEVC_Params.thy ===== *)
theory HEVC_Params
  imports Nal "HOL-Library.Monad_Syntax"
begin

unbundle bit_operations_syntax

text \<open>
  HEVC picture parameters as \<open>src/hevc.c\<close> sees them: the VA structs with the fields it reads, the
  checks of \<open>validate_slice_syntax_bounds\<close> and \<open>validate_picture_parameters\<close>, and the collection
  of the reference picture set. One-bit fields and the picture flags are booleans, an invalid
  surface identifier is \<open>None\<close>, and signed fields are words read with \<open>sint\<close>. Arithmetic on
  dimensions stays far below 32 bits (16-bit sizes, at most 22 tiles) and uses naturals. Shifts
  by the operand width or more and accesses outside an array are a \<open>Fault\<close>; they are reachable
  only without the preceding checks.
\<close>

record VAPictureHEVC =
  picture_id :: "u32 option"
  pic_order_cnt :: u32
  flag_invalid :: bool
  flag_field_pic :: bool
  flag_long_term_reference :: bool
  flag_rps_st_curr_before :: bool
  flag_rps_st_curr_after :: bool
  flag_rps_lt_curr :: bool

record VAPictureParameterBufferHEVC =
  CurrPic :: VAPictureHEVC
  ReferenceFrames :: "VAPictureHEVC list"
  pic_width_in_luma_samples :: u16
  pic_height_in_luma_samples :: u16
  chroma_format_idc :: u32
  separate_colour_plane_flag :: bool
  pcm_enabled_flag :: bool
  scaling_list_enabled_flag :: bool
  transform_skip_enabled_flag :: bool
  amp_enabled_flag :: bool
  strong_intra_smoothing_enabled_flag :: bool
  sign_data_hiding_enabled_flag :: bool
  constrained_intra_pred_flag :: bool
  cu_qp_delta_enabled_flag :: bool
  weighted_pred_flag :: bool
  weighted_bipred_flag :: bool
  transquant_bypass_enabled_flag :: bool
  tiles_enabled_flag :: bool
  entropy_coding_sync_enabled_flag :: bool
  pps_loop_filter_across_slices_enabled_flag :: bool
  loop_filter_across_tiles_enabled_flag :: bool
  pcm_loop_filter_disabled_flag :: bool
  NoPicReorderingFlag :: bool
  sps_max_dec_pic_buffering_minus1 :: u8
  bit_depth_luma_minus8 :: u8
  bit_depth_chroma_minus8 :: u8
  pcm_sample_bit_depth_luma_minus1 :: u8
  pcm_sample_bit_depth_chroma_minus1 :: u8
  log2_min_luma_coding_block_size_minus3 :: u8
  log2_diff_max_min_luma_coding_block_size :: u8
  log2_min_transform_block_size_minus2 :: u8
  log2_diff_max_min_transform_block_size :: u8
  log2_min_pcm_luma_coding_block_size_minus3 :: u8
  log2_diff_max_min_pcm_luma_coding_block_size :: u8
  max_transform_hierarchy_depth_intra :: u8
  max_transform_hierarchy_depth_inter :: u8
  init_qp_minus26 :: u8
  diff_cu_qp_delta_depth :: u8
  pps_cb_qp_offset :: u8
  pps_cr_qp_offset :: u8
  log2_parallel_merge_level_minus2 :: u8
  num_tile_columns_minus1 :: u8
  num_tile_rows_minus1 :: u8
  column_width_minus1 :: "u16 list"
  row_height_minus1 :: "u16 list"
  lists_modification_present_flag :: bool
  long_term_ref_pics_present_flag :: bool
  sps_temporal_mvp_enabled_flag :: bool
  cabac_init_present_flag :: bool
  output_flag_present_flag :: bool
  dependent_slice_segments_enabled_flag :: bool
  pps_slice_chroma_qp_offsets_present_flag :: bool
  sample_adaptive_offset_enabled_flag :: bool
  deblocking_filter_override_enabled_flag :: bool
  pps_disable_deblocking_filter_flag :: bool
  slice_segment_header_extension_present_flag :: bool
  log2_max_pic_order_cnt_lsb_minus4 :: u8
  num_short_term_ref_pic_sets :: u8
  num_long_term_ref_pic_sps :: u8
  num_ref_idx_l0_default_active_minus1 :: u8
  num_ref_idx_l1_default_active_minus1 :: u8
  pps_beta_offset_div2 :: u8
  pps_tc_offset_div2 :: u8
  num_extra_slice_header_bits :: u8
  st_rps_bits :: u32

record VAIQMatrixBufferHEVC =
  ScalingList4x4 :: "u8 list list"
  ScalingList8x8 :: "u8 list list"
  ScalingList16x16 :: "u8 list list"
  ScalingList32x32 :: "u8 list list"
  ScalingListDC16x16 :: "u8 list"
  ScalingListDC32x32 :: "u8 list"

text \<open>The array lengths of the VA headers and the width of the two-bit field.\<close>

definition hevc_pp_wf :: "VAPictureParameterBufferHEVC \<Rightarrow> bool" where
  "hevc_pp_wf pp \<longleftrightarrow> length (ReferenceFrames pp) = 15 \<and> length (column_width_minus1 pp) = 19 \<and>
     length (row_height_minus1 pp) = 21 \<and> unat (chroma_format_idc pp) < 4"

definition hevc_iq_wf :: "VAIQMatrixBufferHEVC \<Rightarrow> bool" where
  "hevc_iq_wf iq \<longleftrightarrow> length (ScalingList4x4 iq) = 6 \<and> length (ScalingList8x8 iq) = 6 \<and>
     length (ScalingList16x16 iq) = 6 \<and> length (ScalingList32x32 iq) = 2 \<and>
     length (ScalingListDC16x16 iq) = 6 \<and> length (ScalingListDC32x32 iq) = 2 \<and>
     list_all (\<lambda>l. length l = 16) (ScalingList4x4 iq) \<and>
     list_all (\<lambda>l. length l = 64) (ScalingList8x8 iq @ ScalingList16x16 iq @ ScalingList32x32 iq)"

section \<open>Reference picture sets\<close>

record HEVCRPSEntry =
  delta :: u32
  poc :: u32
  used :: bool

record HEVCRPS =
  negative :: "HEVCRPSEntry list"
  positive :: "HEVCRPSEntry list"
  long_term :: "HEVCRPSEntry list"

definition HEVC_MAX_RPS_REFS :: nat where
  "HEVC_MAX_RPS_REFS = 15"

definition valid_picture :: "VAPictureHEVC \<Rightarrow> bool" where
  "valid_picture picture \<longleftrightarrow> picture_id picture \<noteq> None \<and> \<not> flag_invalid picture"

text \<open>
  The inner loop of \<open>sort_entries\<close> shifts larger entries up and stores the value at the free
  place. Both loops work on the array; an index outside it is unspecified by \<open>!\<close> and the proofs
  never use one.
\<close>

fun sort_shift :: "HEVCRPSEntry list \<Rightarrow> HEVCRPSEntry \<Rightarrow> nat \<Rightarrow> HEVCRPSEntry list" where
  "sort_shift values v 0 = values[0 := v]"
| "sort_shift values v (Suc j) =
     (if delta (values ! j) > delta v then sort_shift (values[Suc j := values ! j]) v j
      else values[Suc j := v])"

fun sort_loop :: "HEVCRPSEntry list \<Rightarrow> nat list \<Rightarrow> HEVCRPSEntry list" where
  "sort_loop values [] = values"
| "sort_loop values (i # is) = sort_loop (sort_shift values (values ! i) i) is"

definition sort_entries :: "HEVCRPSEntry list \<Rightarrow> HEVCRPSEntry list" where
  "sort_entries values = sort_loop values [1..<length values]"

definition short_term_entry :: "int \<Rightarrow> VAPictureHEVC \<Rightarrow> bool \<Rightarrow> HEVCRPSEntry" where
  "short_term_entry d ref u = \<lparr>delta = word_of_int d, poc = pic_order_cnt ref, used = u\<rparr>"

text \<open>
  One round of the loop of \<open>collect_rps\<close>. The counters of the code are the lengths of the three
  lists. The test \<open>rps_flags & (rps_flags - 1)\<close> asks whether two of the three distinct flag bits
  are set.
\<close>

definition collect_ref :: "int \<Rightarrow> HEVCRPS \<Rightarrow> VAPictureHEVC \<Rightarrow> HEVCRPS option" where
  "collect_ref current_poc rps ref =
     (if \<not> valid_picture ref then Some rps
      else let st_before = flag_rps_st_curr_before ref; st_after = flag_rps_st_curr_after ref;
               lt = flag_rps_lt_curr ref
      in if (st_before \<and> st_after) \<or> (st_before \<and> lt) \<or> (st_after \<and> lt) then None
      else if length (negative rps) + length (positive rps) + length (long_term rps) \<ge> HEVC_MAX_RPS_REFS
      then None
      else let d = sint (pic_order_cnt ref) - current_poc;
               only_lt = lt \<and> \<not> st_before \<and> \<not> st_after;
               is_long_term = flag_long_term_reference ref \<or> only_lt;
               used_by_curr = st_before \<or> st_after \<or> lt
      in if is_long_term
         then Some (rps\<lparr>long_term := long_term rps @
                [\<lparr>delta = 0, poc = pic_order_cnt ref, used = only_lt\<rparr>]\<rparr>)
         else if d < 0
         then if d \<ge> 0 \<or> - d > 65535 then None
              else Some (rps\<lparr>negative := negative rps @
                     [short_term_entry (- d) ref used_by_curr]\<rparr>)
         else if d > 0
         then if d \<le> 0 \<or> d > 65535 then None
              else Some (rps\<lparr>positive := positive rps @
                     [short_term_entry d ref used_by_curr]\<rparr>)
         else None)"

fun collect_loop :: "int \<Rightarrow> HEVCRPS \<Rightarrow> VAPictureHEVC list \<Rightarrow> HEVCRPS option" where
  "collect_loop current_poc rps [] = Some rps"
| "collect_loop current_poc rps (ref # refs) =
     do { rps \<leftarrow> collect_ref current_poc rps ref; collect_loop current_poc rps refs }"

definition collect_rps :: "VAPictureParameterBufferHEVC \<Rightarrow> HEVCRPS option" where
  "collect_rps pp =
     do {
       rps \<leftarrow> collect_loop (sint (pic_order_cnt (CurrPic pp)))
               \<lparr>negative = [], positive = [], long_term = []\<rparr> (take 15 (ReferenceFrames pp));
       Some (rps\<lparr>negative := sort_entries (negative rps), positive := sort_entries (positive rps)\<rparr>)
     }"

section \<open>Validation\<close>

definition ctb_log2_of :: "VAPictureParameterBufferHEVC \<Rightarrow> nat" where
  "ctb_log2_of pp = unat (log2_min_luma_coding_block_size_minus3 pp) + 3 +
     unat (log2_diff_max_min_luma_coding_block_size pp)"

text \<open>The expression \<open>1u << n\<close>.\<close>

definition shift_one :: "nat \<Rightarrow> nat outcome" where
  "shift_one n = (if n < 32 then Ok (2 ^ n) else Fault)"

definition hevc_ctb_size :: "VAPictureParameterBufferHEVC \<Rightarrow> nat outcome" where
  "hevc_ctb_size pp = shift_one (ctb_log2_of pp)"

definition ctbs :: "u16 \<Rightarrow> nat \<Rightarrow> nat" where
  "ctbs samples ctb_size = (unat samples + ctb_size - 1) div ctb_size"

text \<open>The loop of \<open>tile_spacing_is_uniform\<close> over the columns, and again over the rows.\<close>

fun uniform_loop :: "u16 list \<Rightarrow> nat \<Rightarrow> nat \<Rightarrow> nat list \<Rightarrow> bool outcome" where
  "uniform_loop sizes ctb_count parts [] = Ok True"
| "uniform_loop sizes ctb_count parts (i # is) =
     (let start = i * ctb_count div parts; stop = (i + 1) * ctb_count div parts
      in if stop \<le> start then Ok False
         else if i \<ge> length sizes then Fault
         else if unat (sizes ! i) \<noteq> stop - start - 1 then Ok False
         else uniform_loop sizes ctb_count parts is)"

definition tile_spacing_is_uniform :: "VAPictureParameterBufferHEVC \<Rightarrow> bool outcome" where
  "tile_spacing_is_uniform pp =
     obind (hevc_ctb_size pp) (\<lambda>ctb_size.
       let width_ctbs = ctbs (pic_width_in_luma_samples pp) ctb_size;
           height_ctbs = ctbs (pic_height_in_luma_samples pp) ctb_size;
           columns = unat (num_tile_columns_minus1 pp) + 1;
           rows = unat (num_tile_rows_minus1 pp) + 1
       in obind (uniform_loop (column_width_minus1 pp) width_ctbs columns
                   [0..<unat (num_tile_columns_minus1 pp)]) (\<lambda>ok.
            if \<not> ok then Ok False
            else uniform_loop (row_height_minus1 pp) height_ctbs rows
                   [0..<unat (num_tile_rows_minus1 pp)]))"

definition validate_slice_syntax_bounds :: "VAPictureParameterBufferHEVC \<Rightarrow> bool" where
  "validate_slice_syntax_bounds pp \<longleftrightarrow>
     \<not> (\<not> valid_picture (CurrPic pp) \<or>
        pic_width_in_luma_samples pp = 0 \<or> pic_height_in_luma_samples pp = 0 \<or>
        log2_min_luma_coding_block_size_minus3 pp > 3 \<or>
        log2_diff_max_min_luma_coding_block_size pp > 3 \<or>
        log2_max_pic_order_cnt_lsb_minus4 pp > 12 \<or>
        num_short_term_ref_pic_sets pp > 64 \<or>
        num_long_term_ref_pic_sps pp > 32 \<or>
        num_extra_slice_header_bits pp > 7) \<and>
     ctb_log2_of pp \<le> 6"

definition basic_params_ok ::
    "VAPictureParameterBufferHEVC \<Rightarrow> VAIQMatrixBufferHEVC option \<Rightarrow> int \<Rightarrow> bool" where
  "basic_params_ok pp iq profile_idc \<longleftrightarrow>
     \<not> ((profile_idc \<noteq> 1 \<and> profile_idc \<noteq> 2) \<or>
        \<not> validate_slice_syntax_bounds pp \<or>
        chroma_format_idc pp \<noteq> 1 \<or>
        separate_colour_plane_flag pp \<or>
        sps_max_dec_pic_buffering_minus1 pp > 15 \<or>
        bit_depth_luma_minus8 pp \<noteq> bit_depth_chroma_minus8 pp \<or>
        (profile_idc = 1 \<and> bit_depth_luma_minus8 pp \<noteq> 0) \<or>
        (profile_idc = 2 \<and> bit_depth_luma_minus8 pp > 2) \<or>
        log2_min_transform_block_size_minus2 pp > 3 \<or>
        log2_diff_max_min_transform_block_size pp > 3 \<or>
        num_ref_idx_l0_default_active_minus1 pp > 14 \<or>
        num_ref_idx_l1_default_active_minus1 pp > 14 \<or>
        sint (pps_cb_qp_offset pp) < - 12 \<or> sint (pps_cb_qp_offset pp) > 12 \<or>
        sint (pps_cr_qp_offset pp) < - 12 \<or> sint (pps_cr_qp_offset pp) > 12 \<or>
        sint (pps_beta_offset_div2 pp) < - 6 \<or> sint (pps_beta_offset_div2 pp) > 6 \<or>
        sint (pps_tc_offset_div2 pp) < - 6 \<or> sint (pps_tc_offset_div2 pp) > 6 \<or>
        num_tile_columns_minus1 pp > 19 \<or>
        num_tile_rows_minus1 pp > 21 \<or>
        (scaling_list_enabled_flag pp \<and> iq = None)) \<and>
     \<not> (sint (init_qp_minus26 pp) < - (26 + 6 * int (unat (bit_depth_luma_minus8 pp))) \<or>
        sint (init_qp_minus26 pp) > 25)"

text \<open>Accumulation of the explicit tile sizes.\<close>

fun explicit_sum :: "u16 list \<Rightarrow> nat list \<Rightarrow> nat \<Rightarrow> nat outcome" where
  "explicit_sum sizes [] acc = Ok acc"
| "explicit_sum sizes (i # is) acc =
     (if i \<ge> length sizes then Fault else explicit_sum sizes is (acc + unat (sizes ! i) + 1))"

definition tiles_ok :: "VAPictureParameterBufferHEVC \<Rightarrow> nat \<Rightarrow> bool outcome" where
  "tiles_ok pp ctb_size =
     (let width_ctbs = ctbs (pic_width_in_luma_samples pp) ctb_size;
          height_ctbs = ctbs (pic_height_in_luma_samples pp) ctb_size;
          columns = unat (num_tile_columns_minus1 pp) + 1;
          rows = unat (num_tile_rows_minus1 pp) + 1
      in if columns > width_ctbs \<or> rows > height_ctbs then Ok False
         else obind (explicit_sum (column_width_minus1 pp) [0..<unat (num_tile_columns_minus1 pp)] 0) (\<lambda>explicit_width.
              obind (explicit_sum (row_height_minus1 pp) [0..<unat (num_tile_rows_minus1 pp)] 0) (\<lambda>explicit_height.
                Ok (\<not> (explicit_width \<ge> width_ctbs \<or> explicit_height \<ge> height_ctbs)))))"

definition validate_picture_parameters ::
    "VAPictureParameterBufferHEVC \<Rightarrow> VAIQMatrixBufferHEVC option \<Rightarrow> int \<Rightarrow> HEVCRPS outcome" where
  "validate_picture_parameters pp iq profile_idc =
     guard_else_fail (basic_params_ok pp iq profile_idc) (
     obind (shift_one (unat (log2_min_luma_coding_block_size_minus3 pp) + 3)) (\<lambda>min_cb_size.
     obind (hevc_ctb_size pp) (\<lambda>ctb_size.
     guard_else_fail (\<not> (unat (pic_width_in_luma_samples pp) mod min_cb_size \<noteq> 0 \<or>
        unat (pic_height_in_luma_samples pp) mod min_cb_size \<noteq> 0 \<or>
        unat (log2_parallel_merge_level_minus2 pp) > ctb_log2_of pp - 2 \<or>
        (cu_qp_delta_enabled_flag pp \<and>
         diff_cu_qp_delta_depth pp > log2_diff_max_min_luma_coding_block_size pp))) (
     guard_else_fail (\<not> (pcm_enabled_flag pp \<and>
        (pcm_sample_bit_depth_luma_minus1 pp > 15 \<or>
         pcm_sample_bit_depth_chroma_minus1 pp > 15 \<or>
         log2_min_pcm_luma_coding_block_size_minus3 pp > 2 \<or>
         unat (log2_min_pcm_luma_coding_block_size_minus3 pp) +
           unat (log2_diff_max_min_pcm_luma_coding_block_size pp) > ctb_log2_of pp - 3))) (
     obind (if tiles_enabled_flag pp then tiles_ok pp ctb_size else Ok True) (\<lambda>ok.
     guard_else_fail ok (
     case collect_rps pp of None \<Rightarrow> Fail | Some rps \<Rightarrow> Ok rps)))))))"

section \<open>Sorting\<close>

fun ins_rev :: "HEVCRPSEntry \<Rightarrow> HEVCRPSEntry list \<Rightarrow> HEVCRPSEntry list" where
  "ins_rev v [] = [v]"
| "ins_rev v (z # zs) = (if delta z > delta v then z # ins_rev v zs else v # z # zs)"

abbreviation by_delta :: "HEVCRPSEntry list \<Rightarrow> bool" where
  "by_delta xs \<equiv> sorted_wrt (\<lambda>a b. delta a \<le> delta b) xs"

lemma mset_ins_rev [simp]: "mset (ins_rev v zs) = add_mset v (mset zs)"
  by (induction zs) auto

lemma set_ins_rev [simp]: "set (ins_rev v zs) = insert v (set zs)"
  by (induction zs) auto

lemma length_ins_rev [simp]: "length (ins_rev v zs) = Suc (length zs)"
  by (induction zs) auto

lemma sorted_ins_rev:
  "sorted_wrt (\<lambda>a b. delta b \<le> delta a) zs \<Longrightarrow> sorted_wrt (\<lambda>a b. delta b \<le> delta a) (ins_rev v zs)"
  by (induction zs) auto

lemma sort_shift_ins:
  "sort_shift (xs @ y # ys) v (length xs) = rev (ins_rev v (rev xs)) @ ys"
proof (induction xs arbitrary: y ys rule: rev_induct)
  case (snoc z xs)
  have "(xs @ [z] @ y # ys) ! length xs = z" by simp
  moreover have "(xs @ [z] @ y # ys)[Suc (length xs) := w] = xs @ z # w # ys" for w
    by (simp add: list_update_append)
  ultimately show ?case using snoc by (simp add: list_update_append)
qed simp

lemma sort_loop_sorted:
  assumes "by_delta xs"
  shows "\<exists>zs. sort_loop (xs @ ys) [length xs..<length xs + length ys] = zs \<and> by_delta zs \<and>
    mset zs = mset xs + mset ys"
  using assms
proof (induction ys arbitrary: xs)
  case (Cons y ys)
  let ?xs = "rev (ins_rev y (rev xs))"
  have "sorted_wrt (\<lambda>a b. delta b \<le> delta a) (rev xs)"
    using Cons.prems by (simp add: sorted_wrt_rev)
  then have s: "by_delta ?xs" using sorted_ins_rev by (simp add: sorted_wrt_rev)
  have "[length xs..<length xs + length (y # ys)] =
      length xs # [length ?xs..<length ?xs + length ys]"
    by (simp add: upt_rec)
  moreover have "sort_shift (xs @ y # ys) ((xs @ y # ys) ! length xs) (length xs) = ?xs @ ys"
    by (simp add: sort_shift_ins)
  ultimately have "sort_loop (xs @ y # ys) [length xs..<length xs + length (y # ys)] =
      sort_loop (?xs @ ys) [length ?xs..<length ?xs + length ys]" by simp
  with Cons.IH [OF s] show ?case by (auto simp: mset_rev)
qed simp

lemma sort_entries_sorted: "by_delta (sort_entries xs) \<and> mset (sort_entries xs) = mset xs"
proof (cases xs)
  case (Cons x ys)
  then show ?thesis
    using sort_loop_sorted [of "[x]" ys] by (simp add: sort_entries_def upt_rec)
qed (simp add: sort_entries_def)

lemma set_sort_entries [simp]: "set (sort_entries xs) = set xs"
  using sort_entries_sorted [of xs] by (metis set_mset_mset)

lemma length_sort_entries [simp]: "length (sort_entries xs) = length xs"
  using sort_entries_sorted [of xs] by (metis size_mset)

section \<open>Collected reference pictures\<close>

text \<open>
  A collected set has at most fifteen entries, its short-term deltas lie in the range the syntax
  can express, and each list is in the order in which the slice header transmits it.
\<close>

definition entry_ok :: "HEVCRPSEntry \<Rightarrow> bool" where
  "entry_ok e \<longleftrightarrow> 1 \<le> unat (delta e) \<and> unat (delta e) \<le> 65535"

definition rps_wf :: "HEVCRPS \<Rightarrow> bool" where
  "rps_wf rps \<longleftrightarrow> length (negative rps) + length (positive rps) + length (long_term rps) \<le> 15 \<and>
     list_all entry_ok (negative rps) \<and> list_all entry_ok (positive rps)"

lemma entry_delta_ok: "1 \<le> d \<Longrightarrow> d \<le> 65535 \<Longrightarrow> entry_ok (short_term_entry d ref u)"
  by (auto simp: entry_ok_def short_term_entry_def unat_word_of_int_u32)

lemma collect_ref_wf: "collect_ref cur rps ref = Some rps' \<Longrightarrow> rps_wf rps \<Longrightarrow> rps_wf rps'"
  by (auto simp: collect_ref_def Let_def rps_wf_def HEVC_MAX_RPS_REFS_def intro!: entry_delta_ok
      split: if_splits)

lemma collect_loop_wf: "collect_loop cur rps refs = Some rps' \<Longrightarrow> rps_wf rps \<Longrightarrow> rps_wf rps'"
  by (induction refs arbitrary: rps) (auto dest: collect_ref_wf split: Option.bind_splits)

lemma collect_rps_wf:
  assumes "collect_rps pp = Some rps"
  shows "rps_wf rps" and "by_delta (negative rps)" and "by_delta (positive rps)"
proof -
  from assms obtain r where r: "collect_loop (sint (pic_order_cnt (CurrPic pp)))
      \<lparr>negative = [], positive = [], long_term = []\<rparr> (take 15 (ReferenceFrames pp)) = Some r"
    and rps: "rps = r\<lparr>negative := sort_entries (negative r), positive := sort_entries (positive r)\<rparr>"
    by (auto simp: collect_rps_def split: Option.bind_splits)
  have "rps_wf r" by (rule collect_loop_wf [OF r]) (simp add: rps_wf_def)
  then show "rps_wf rps" by (simp add: rps rps_wf_def list_all_iff)
  show "by_delta (negative rps)" "by_delta (positive rps)"
    by (simp_all add: rps sort_entries_sorted)
qed

section \<open>The validation is safe and gives the bounds the writers need\<close>

lemma explicit_sum_safe: "list_all (\<lambda>i. i < length sizes) is \<Longrightarrow> explicit_sum sizes is acc \<noteq> Fault"
  by (induction "is" arbitrary: acc) auto

lemma uniform_loop_safe:
  "list_all (\<lambda>i. i < length sizes) is \<Longrightarrow> \<exists>b. uniform_loop sizes n parts is = Ok b"
  by (induction "is") (auto simp: Let_def)

lemma basic_bounds:
  assumes "basic_params_ok pp iq p"
  shows "ctb_log2_of pp \<le> 6" and "unat (num_tile_columns_minus1 pp) \<le> 19"
    and "unat (num_tile_rows_minus1 pp) \<le> 21" and "unat (log2_min_luma_coding_block_size_minus3 pp) \<le> 3"
  using assms by (auto simp: basic_params_ok_def validate_slice_syntax_bounds_def word_less_nat_alt)

lemma tiles_ok_safe:
  "hevc_pp_wf pp \<Longrightarrow> basic_params_ok pp iq p \<Longrightarrow> tiles_ok pp c \<noteq> Fault"
  using basic_bounds [of pp iq p] explicit_sum_safe
  by (auto simp: tiles_ok_def Let_def hevc_pp_wf_def list_all_iff)

lemma validate_safe: "hevc_pp_wf pp \<Longrightarrow> validate_picture_parameters pp iq p \<noteq> Fault"
  using basic_bounds [of pp iq p] tiles_ok_safe [of pp iq p]
  by (auto simp: validate_picture_parameters_def hevc_ctb_size_def shift_one_def split: option.splits)

lemma tile_spacing_safe:
  assumes "hevc_pp_wf pp" and "basic_params_ok pp iq p"
  shows "\<exists>b. tile_spacing_is_uniform pp = Ok b"
proof -
  have "ctb_log2_of pp < 32" using basic_bounds(1) [OF assms(2)] by simp
  moreover have "\<exists>b. uniform_loop (column_width_minus1 pp) n k [0..<unat (num_tile_columns_minus1 pp)] = Ok b" for n k
    by (rule uniform_loop_safe) (use assms basic_bounds(2) [OF assms(2)] in \<open>auto simp: list_all_iff hevc_pp_wf_def\<close>)
  moreover have "\<exists>b. uniform_loop (row_height_minus1 pp) n k [0..<unat (num_tile_rows_minus1 pp)] = Ok b" for n k
    by (rule uniform_loop_safe) (use assms basic_bounds(3) [OF assms(2)] in \<open>auto simp: list_all_iff hevc_pp_wf_def\<close>)
  ultimately show ?thesis
    by (auto simp: tile_spacing_is_uniform_def hevc_ctb_size_def shift_one_def Let_def)
      (metis obind.simps(1))
qed

lemma validate_basic: "validate_picture_parameters pp iq p = Ok rps \<Longrightarrow> basic_params_ok pp iq p"
  by (auto simp: validate_picture_parameters_def)

end
