(* ===== verification/HEVC_Sets.thy ===== *)
theory HEVC_Sets
  imports HEVC_Params
begin

text \<open>
  The parameter set writers of \<open>src/hevc.c\<close>: VPS, SPS and PPS, the profile and level structure,
  the scaling lists, and the three entry points that validate first. \<open>None\<close> and \<open>Fail\<close> are the
  return value \<open>-1\<close>; a success is the list of bytes stored. The pointer arithmetic
  \<open>buf + used\<close>, \<open>buf_size - used\<close> becomes concatenation with the remaining capacity.

  The specification is again a decoder written from the standard's syntax tables
  (clauses 7.3.2.1 to 7.3.2.3, 7.3.3 and 7.3.4 of H.265).
\<close>

definition HEVC_RAW_NAL_CAPACITY :: nat where
  "HEVC_RAW_NAL_CAPACITY = 32768"

definition INT_MAX :: nat where
  "INT_MAX = 2147483647"

definition finish_nal :: "nat \<Rightarrow> u8 list \<Rightarrow> u8 list option" where
  "finish_nal buf_size raw =
     (if buf_size < 4 then None
      else let escaped = emulation_prevent raw (buf_size - 4)
           in if escaped = [] \<or> length escaped > INT_MAX - 4 then None
              else Some ([0, 0, 0, 1] @ escaped))"

definition write_nal_header :: "u32 \<Rightarrow> wop list" where
  "write_nal_header nal_type = [W 0 1, W nal_type 6, W 0 6, W 1 3]"

definition derive_level_idc :: "VAPictureParameterBufferHEVC \<Rightarrow> u32" where
  "derive_level_idc pp =
     (let samples = (ucast (pic_width_in_luma_samples pp) :: u64) * ucast (pic_height_in_luma_samples pp)
      in if samples \<le> 36864 then 30
         else if samples \<le> 122880 then 60
         else if samples \<le> 245760 then 63
         else if samples \<le> 552960 then 90
         else if samples \<le> 983040 then 93
         else if samples \<le> 2228224 then 123
         else if samples \<le> 8912896 then 156
         else if samples \<le> 35651584 then 186
         else 186)"

definition write_profile_tier_level :: "int \<Rightarrow> u32 \<Rightarrow> bool \<Rightarrow> wop list" where
  "write_profile_tier_level profile_idc level_idc field_pic =
     [W 0 2, W 0 1, W (word_of_int profile_idc) 5] @
     map (\<lambda>i. W (of_bool (int i = profile_idc)) 1) [0..<32] @
     [W (of_bool (\<not> field_pic)) 1, W (of_bool field_pic) 1, W 1 1, W (of_bool (\<not> field_pic)) 1] @
     (if profile_idc = 2 then [W 0 7, W 0 1, W 0 24, W 0 11] else [W 0 24, W 0 19]) @
     [W 0 1, W level_idc 8]"

definition hevc_reorder :: "VAPictureParameterBufferHEVC \<Rightarrow> u32" where
  "hevc_reorder pp = (if NoPicReorderingFlag pp then 0 else ucast (sps_max_dec_pic_buffering_minus1 pp))"

definition hevc_vps_ops :: "VAPictureParameterBufferHEVC \<Rightarrow> int \<Rightarrow> wop list" where
  "hevc_vps_ops pp profile_idc =
     write_nal_header 32 @
     [W 0 4, W 1 1, W 1 1, W 0 6, W 0 3, W 1 1, W 0xffff 16] @
     write_profile_tier_level profile_idc (derive_level_idc pp) (flag_field_pic (CurrPic pp)) @
     [W 0 1, UE (ucast (sps_max_dec_pic_buffering_minus1 pp)), UE (hevc_reorder pp), UE 0,
      W 0 6, UE 0, W 0 1, W 0 1]"

definition write_vps :: "nat \<Rightarrow> VAPictureParameterBufferHEVC \<Rightarrow> int \<Rightarrow> u8 list option" where
  "write_vps buf_size pp profile_idc =
     (let bs = bs_rbsp_trailing (bs_run (bs_init 512) (hevc_vps_ops pp profile_idc))
      in finish_nal buf_size (bs_payload bs))"

definition hevc_pcm_ops :: "VAPictureParameterBufferHEVC \<Rightarrow> wop list" where
  "hevc_pcm_ops pp =
     (if pcm_enabled_flag pp
      then [W (ucast (pcm_sample_bit_depth_luma_minus1 pp)) 4,
            W (ucast (pcm_sample_bit_depth_chroma_minus1 pp)) 4,
            UE (ucast (log2_min_pcm_luma_coding_block_size_minus3 pp)),
            UE (ucast (log2_diff_max_min_pcm_luma_coding_block_size pp)),
            W (of_bool (pcm_loop_filter_disabled_flag pp)) 1]
      else [])"

definition hevc_sps_size_ops :: "VAPictureParameterBufferHEVC \<Rightarrow> wop list" where
  "hevc_sps_size_ops pp =
     [UE 0, UE (chroma_format_idc pp), UE (ucast (pic_width_in_luma_samples pp)),
      UE (ucast (pic_height_in_luma_samples pp)), W 0 1,
      UE (ucast (bit_depth_luma_minus8 pp)), UE (ucast (bit_depth_chroma_minus8 pp)),
      UE (ucast (log2_max_pic_order_cnt_lsb_minus4 pp)), W 0 1,
      UE (ucast (sps_max_dec_pic_buffering_minus1 pp)), UE (hevc_reorder pp), UE 0,
      UE (ucast (log2_min_luma_coding_block_size_minus3 pp)),
      UE (ucast (log2_diff_max_min_luma_coding_block_size pp)),
      UE (ucast (log2_min_transform_block_size_minus2 pp)),
      UE (ucast (log2_diff_max_min_transform_block_size pp)),
      UE (ucast (max_transform_hierarchy_depth_inter pp)),
      UE (ucast (max_transform_hierarchy_depth_intra pp))]"

definition hevc_sps_ops :: "VAPictureParameterBufferHEVC \<Rightarrow> int \<Rightarrow> wop list" where
  "hevc_sps_ops pp profile_idc =
     write_nal_header 33 @
     [W 0 4, W 0 3, W 1 1] @
     write_profile_tier_level profile_idc (derive_level_idc pp) (flag_field_pic (CurrPic pp)) @
     hevc_sps_size_ops pp @
     [W (of_bool (scaling_list_enabled_flag pp)) 1] @
     (if scaling_list_enabled_flag pp then [W 0 1] else []) @
     [W (of_bool (amp_enabled_flag pp)) 1, W (of_bool (sample_adaptive_offset_enabled_flag pp)) 1,
      W (of_bool (pcm_enabled_flag pp)) 1] @
     hevc_pcm_ops pp @
     [UE 0, W (of_bool (long_term_ref_pics_present_flag pp)) 1] @
     (if long_term_ref_pics_present_flag pp then [UE 0] else []) @
     [W (of_bool (sps_temporal_mvp_enabled_flag pp)) 1,
      W (of_bool (strong_intra_smoothing_enabled_flag pp)) 1, W 0 1, W 0 1]"

definition write_sps :: "nat \<Rightarrow> VAPictureParameterBufferHEVC \<Rightarrow> int \<Rightarrow> u8 list option" where
  "write_sps buf_size pp profile_idc =
     (let bs = bs_rbsp_trailing (bs_run (bs_init HEVC_RAW_NAL_CAPACITY) (hevc_sps_ops pp profile_idc))
      in finish_nal buf_size (bs_payload bs))"

section \<open>Scaling lists\<close>

definition diag4x4_x :: "nat list" where
  "diag4x4_x = [0, 0, 1, 0, 1, 2, 0, 1, 2, 3, 1, 2, 3, 2, 3, 3]"

definition diag4x4_y :: "nat list" where
  "diag4x4_y = [0, 1, 0, 2, 1, 0, 3, 2, 1, 0, 3, 2, 1, 3, 2, 3]"

definition diag8x8_x :: "nat list" where
  "diag8x8_x =
     [0,0,1,0,1,2,0,1,2,3,0,1,2,3,4,0,
      1,2,3,4,5,0,1,2,3,4,5,6,0,1,2,3,
      4,5,6,7,1,2,3,4,5,6,7,2,3,4,5,6,
      7,3,4,5,6,7,4,5,6,7,5,6,7,6,7,7]"

definition diag8x8_y :: "nat list" where
  "diag8x8_y =
     [0,1,0,2,1,0,3,2,1,0,4,3,2,1,0,5,
      4,3,2,1,0,6,5,4,3,2,1,0,7,6,5,4,
      3,2,1,0,7,6,5,4,3,2,1,7,6,5,4,3,
      2,7,6,5,4,3,7,6,5,4,7,6,5,7,6,7]"

definition scaling_matrix :: "VAIQMatrixBufferHEVC \<Rightarrow> nat \<Rightarrow> nat \<Rightarrow> u8 list" where
  "scaling_matrix iq size_id matrix_id =
     (if size_id = 0 then ScalingList4x4 iq ! matrix_id
      else if size_id = 1 then ScalingList8x8 iq ! matrix_id
      else if size_id = 2 then ScalingList16x16 iq ! matrix_id
      else ScalingList32x32 iq ! (matrix_id div 3))"

definition scaling_dc :: "VAIQMatrixBufferHEVC \<Rightarrow> nat \<Rightarrow> nat \<Rightarrow> int" where
  "scaling_dc iq size_id matrix_id =
     (if size_id = 2 then uint (ScalingListDC16x16 iq ! matrix_id)
      else if size_id = 3 then uint (ScalingListDC32x32 iq ! (matrix_id div 3))
      else 8)"

definition coef_delta :: "int \<Rightarrow> int \<Rightarrow> int" where
  "coef_delta prev value =
     (let delta = value - prev;
          delta = (if delta > 127 then delta - 256 else delta)
      in if delta < - 128 then delta + 256 else delta)"

definition diag_positions :: "nat \<Rightarrow> nat list" where
  "diag_positions size_id =
     (if size_id = 0 then map (\<lambda>i. 4 * diag4x4_y ! i + diag4x4_x ! i) [0..<16]
      else map (\<lambda>i. 8 * diag8x8_y ! i + diag8x8_x ! i) [0..<64])"

fun write_coefs :: "BSWriter \<Rightarrow> u8 list \<Rightarrow> int \<Rightarrow> nat list \<Rightarrow> BSWriter" where
  "write_coefs bs matrix prev [] = bs"
| "write_coefs bs matrix prev (pos # ps) =
     write_coefs (bs_write_se bs (coef_delta prev (uint (matrix ! pos)))) matrix (uint (matrix ! pos)) ps"

text \<open>One round of the two outer loops, and the rounds in their order.\<close>

definition write_scaling_matrix ::
    "VAIQMatrixBufferHEVC \<Rightarrow> BSWriter \<Rightarrow> nat \<times> nat \<Rightarrow> BSWriter option" where
  "write_scaling_matrix iq bs = (\<lambda>(size_id, matrix_id).
     let matrix = scaling_matrix iq size_id matrix_id;
         bs = bs_write bs 1 1
     in if size_id > 1
        then let dc = scaling_dc iq size_id matrix_id
             in if dc = 0 then None
                else Some (write_coefs (bs_write_se bs (dc - 8)) matrix dc (diag_positions size_id))
        else Some (write_coefs bs matrix 8 (diag_positions size_id)))"

definition scaling_rounds :: "(nat \<times> nat) list" where
  "scaling_rounds = concat (map (\<lambda>size_id.
     map (Pair size_id) (if size_id = 3 then [0, 3] else [0, 1, 2, 3, 4, 5])) [0, 1, 2, 3])"

fun scaling_loop :: "VAIQMatrixBufferHEVC \<Rightarrow> BSWriter \<Rightarrow> (nat \<times> nat) list \<Rightarrow> BSWriter option" where
  "scaling_loop iq bs [] = Some bs"
| "scaling_loop iq bs (r # rs) = do { bs \<leftarrow> write_scaling_matrix iq bs r; scaling_loop iq bs rs }"

definition write_scaling_lists :: "BSWriter \<Rightarrow> VAIQMatrixBufferHEVC \<Rightarrow> BSWriter option" where
  "write_scaling_lists bs iq = scaling_loop iq bs scaling_rounds"

section \<open>Picture parameter set and entry points\<close>

definition deblock_present :: "VAPictureParameterBufferHEVC \<Rightarrow> bool" where
  "deblock_present pp \<longleftrightarrow> deblocking_filter_override_enabled_flag pp \<or>
     pps_disable_deblocking_filter_flag pp \<or> pps_beta_offset_div2 pp \<noteq> 0 \<or> pps_tc_offset_div2 pp \<noteq> 0"

definition hevc_tiles_ops :: "VAPictureParameterBufferHEVC \<Rightarrow> bool \<Rightarrow> wop list" where
  "hevc_tiles_ops pp uniform_spacing =
     (if tiles_enabled_flag pp
      then [UE (ucast (num_tile_columns_minus1 pp)), UE (ucast (num_tile_rows_minus1 pp)),
            W (of_bool uniform_spacing) 1] @
           (if \<not> uniform_spacing
            then map (\<lambda>i. UE (ucast (column_width_minus1 pp ! i))) [0..<unat (num_tile_columns_minus1 pp)] @
                 map (\<lambda>i. UE (ucast (row_height_minus1 pp ! i))) [0..<unat (num_tile_rows_minus1 pp)]
            else []) @
           [W (of_bool (loop_filter_across_tiles_enabled_flag pp)) 1]
      else [])"

definition hevc_pps_head_ops :: "VAPictureParameterBufferHEVC \<Rightarrow> u8 \<Rightarrow> wop list" where
  "hevc_pps_head_ops pp pps_id =
     write_nal_header 34 @
     [UE (ucast pps_id), UE 0, W (of_bool (dependent_slice_segments_enabled_flag pp)) 1,
      W (of_bool (output_flag_present_flag pp)) 1, W (ucast (num_extra_slice_header_bits pp)) 3,
      W (of_bool (sign_data_hiding_enabled_flag pp)) 1, W (of_bool (cabac_init_present_flag pp)) 1,
      UE (ucast (num_ref_idx_l0_default_active_minus1 pp)),
      UE (ucast (num_ref_idx_l1_default_active_minus1 pp)),
      SE (sint (init_qp_minus26 pp)), W (of_bool (constrained_intra_pred_flag pp)) 1,
      W (of_bool (transform_skip_enabled_flag pp)) 1, W (of_bool (cu_qp_delta_enabled_flag pp)) 1] @
     (if cu_qp_delta_enabled_flag pp then [UE (ucast (diff_cu_qp_delta_depth pp))] else []) @
     [SE (sint (pps_cb_qp_offset pp)), SE (sint (pps_cr_qp_offset pp)),
      W (of_bool (pps_slice_chroma_qp_offsets_present_flag pp)) 1,
      W (of_bool (weighted_pred_flag pp)) 1, W (of_bool (weighted_bipred_flag pp)) 1,
      W (of_bool (transquant_bypass_enabled_flag pp)) 1, W (of_bool (tiles_enabled_flag pp)) 1,
      W (of_bool (entropy_coding_sync_enabled_flag pp)) 1]"

definition hevc_deblock_ops :: "VAPictureParameterBufferHEVC \<Rightarrow> wop list" where
  "hevc_deblock_ops pp =
     [W (of_bool (pps_loop_filter_across_slices_enabled_flag pp)) 1, W (of_bool (deblock_present pp)) 1] @
     (if deblock_present pp
      then [W (of_bool (deblocking_filter_override_enabled_flag pp)) 1,
            W (of_bool (pps_disable_deblocking_filter_flag pp)) 1] @
           (if \<not> pps_disable_deblocking_filter_flag pp
            then [SE (sint (pps_beta_offset_div2 pp)), SE (sint (pps_tc_offset_div2 pp))] else [])
      else []) @
     [W (of_bool (scaling_list_enabled_flag pp)) 1]"

definition hevc_pps_tail_ops :: "VAPictureParameterBufferHEVC \<Rightarrow> wop list" where
  "hevc_pps_tail_ops pp =
     [W (of_bool (lists_modification_present_flag pp)) 1,
      UE (ucast (log2_parallel_merge_level_minus2 pp)),
      W (of_bool (slice_segment_header_extension_present_flag pp)) 1, W 0 1]"

definition of_opt :: "'a option \<Rightarrow> 'a outcome" where
  "of_opt x = (case x of None \<Rightarrow> Fail | Some y \<Rightarrow> Ok y)"

definition write_pps ::
    "nat \<Rightarrow> VAPictureParameterBufferHEVC \<Rightarrow> VAIQMatrixBufferHEVC option \<Rightarrow> u8 \<Rightarrow> u8 list outcome" where
  "write_pps buf_size pp iq pps_id =
     obind (if tiles_enabled_flag pp then tile_spacing_is_uniform pp else Ok True) (\<lambda>uniform_spacing.
       let bs = bs_run (bs_init HEVC_RAW_NAL_CAPACITY)
                 (hevc_pps_head_ops pp pps_id @ hevc_tiles_ops pp uniform_spacing @ hevc_deblock_ops pp)
       in obind (if scaling_list_enabled_flag pp
                 then (case iq of None \<Rightarrow> Fault | Some m \<Rightarrow> of_opt (write_scaling_lists bs m))
                 else Ok bs) (\<lambda>bs.
            let bs = bs_rbsp_trailing (bs_run bs (hevc_pps_tail_ops pp))
            in of_opt (finish_nal buf_size (bs_payload bs))))"

definition write_sequence_parameter_sets ::
    "nat \<Rightarrow> VAPictureParameterBufferHEVC \<Rightarrow> int \<Rightarrow> u8 list option" where
  "write_sequence_parameter_sets buf_size pp profile_idc =
     do {
       vps \<leftarrow> write_vps buf_size pp profile_idc;
       sps \<leftarrow> write_sps (buf_size - length vps) pp profile_idc;
       if length vps + length sps \<le> INT_MAX then Some (vps @ sps) else None
     }"

definition rk_hevc_write_sequence_parameter_sets ::
    "nat \<Rightarrow> VAPictureParameterBufferHEVC \<Rightarrow> VAIQMatrixBufferHEVC option \<Rightarrow> int \<Rightarrow> u8 list outcome" where
  "rk_hevc_write_sequence_parameter_sets buf_size pp iq profile_idc =
     obind (validate_picture_parameters pp iq profile_idc) (\<lambda>rps.
       of_opt (write_sequence_parameter_sets buf_size pp profile_idc))"

definition rk_hevc_write_parameter_sets ::
    "nat \<Rightarrow> VAPictureParameterBufferHEVC \<Rightarrow> VAIQMatrixBufferHEVC option \<Rightarrow> u8 \<Rightarrow> int \<Rightarrow> u8 list outcome" where
  "rk_hevc_write_parameter_sets buf_size pp iq pps_id profile_idc =
     guard_else_fail (\<not> pps_id > 63) (
     obind (validate_picture_parameters pp iq profile_idc) (\<lambda>rps.
     obind (of_opt (write_sequence_parameter_sets buf_size pp profile_idc)) (\<lambda>seq.
     obind (write_pps (buf_size - length seq) pp iq pps_id) (\<lambda>pps.
       if length seq > INT_MAX - length pps then Fail else Ok (seq @ pps)))))"

definition rk_hevc_write_picture_parameter_set ::
    "nat \<Rightarrow> VAPictureParameterBufferHEVC \<Rightarrow> VAIQMatrixBufferHEVC option \<Rightarrow> u8 \<Rightarrow> int \<Rightarrow> u8 list outcome" where
  "rk_hevc_write_picture_parameter_set buf_size pp iq pps_id profile_idc =
     guard_else_fail (\<not> pps_id > 63) (
     obind (validate_picture_parameters pp iq profile_idc) (\<lambda>rps.
       write_pps buf_size pp iq pps_id))"

section \<open>Specification: decoding the parameter sets\<close>

definition get_flags :: "nat \<Rightarrow> bool list \<Rightarrow> (bool list \<times> bool list) option" where
  "get_flags n b = (if n \<le> length b then Some (take n b, drop n b) else None)"

definition dec_nal_header :: "nat \<Rightarrow> bool list \<Rightarrow> (unit \<times> bool list) option" where
  "dec_nal_header nal_type b =
     do {
       (forbidden, b) \<leftarrow> get_flag b;
       (ty, b) \<leftarrow> get_u 6 b;
       (layer, b) \<leftarrow> get_u 6 b;
       (tid, b) \<leftarrow> get_u 3 b;
       if \<not> forbidden \<and> ty = nal_type \<and> layer = 0 \<and> tid = 1 then Some ((), b) else None
     }"

record ptl_info =
  pt_profile :: nat
  pt_compat :: "bool list"
  pt_progressive :: bool
  pt_interlaced :: bool
  pt_non_packed :: bool
  pt_frame_only :: bool
  pt_level :: nat

definition dec_ptl :: "bool list \<Rightarrow> (ptl_info \<times> bool list) option" where
  "dec_ptl b =
     do {
       (space, b) \<leftarrow> get_u 2 b;
       (tier, b) \<leftarrow> get_flag b;
       (profile, b) \<leftarrow> get_u 5 b;
       (compat, b) \<leftarrow> get_flags 32 b;
       (progressive, b) \<leftarrow> get_flag b;
       (interlaced, b) \<leftarrow> get_flag b;
       (non_packed, b) \<leftarrow> get_flag b;
       (frame_only, b) \<leftarrow> get_flag b;
       (zeros, b) \<leftarrow> get_u 43 b;
       (inbld, b) \<leftarrow> get_flag b;
       (level, b) \<leftarrow> get_u 8 b;
       if space = 0 \<and> \<not> tier \<and> zeros = 0 \<and> \<not> inbld
       then Some (\<lparr>pt_profile = profile, pt_compat = compat, pt_progressive = progressive,
         pt_interlaced = interlaced, pt_non_packed = non_packed, pt_frame_only = frame_only,
         pt_level = level\<rparr>, b)
       else None
     }"

definition ptl_of :: "VAPictureParameterBufferHEVC \<Rightarrow> int \<Rightarrow> ptl_info" where
  "ptl_of pp p = \<lparr>pt_profile = nat p, pt_compat = map (\<lambda>i. int i = p) [0..<32],
     pt_progressive = (\<not> flag_field_pic (CurrPic pp)), pt_interlaced = flag_field_pic (CurrPic pp),
     pt_non_packed = True, pt_frame_only = (\<not> flag_field_pic (CurrPic pp)),
     pt_level = unat (derive_level_idc pp)\<rparr>"

definition dec_vps :: "bool list \<Rightarrow> ((ptl_info \<times> nat \<times> nat) \<times> bool list) option" where
  "dec_vps b =
     do {
       (_, b) \<leftarrow> dec_nal_header 32 b;
       (vps_id, b) \<leftarrow> get_u 4 b;
       (internal, b) \<leftarrow> get_flag b;
       (available, b) \<leftarrow> get_flag b;
       (layers, b) \<leftarrow> get_u 6 b;
       (sub_layers, b) \<leftarrow> get_u 3 b;
       (nesting, b) \<leftarrow> get_flag b;
       (reserved, b) \<leftarrow> get_u 16 b;
       (ptl, b) \<leftarrow> dec_ptl b;
       (ordering, b) \<leftarrow> get_flag b;
       (dpb, b) \<leftarrow> get_ue b;
       (reorder, b) \<leftarrow> get_ue b;
       (latency, b) \<leftarrow> get_ue b;
       (max_layer, b) \<leftarrow> get_u 6 b;
       (layer_sets, b) \<leftarrow> get_ue b;
       (timing, b) \<leftarrow> get_flag b;
       (ext, b) \<leftarrow> get_flag b;
       if vps_id = 0 \<and> internal \<and> available \<and> layers = 0 \<and> sub_layers = 0 \<and> nesting \<and>
          reserved = 0xffff \<and> latency = 0 \<and> max_layer = 0 \<and> layer_sets = 0 \<and> \<not> timing \<and> \<not> ext
       then Some ((ptl, dpb, reorder), b) else None
     }"

record hevc_sps_info =
  hs_ptl :: ptl_info
  hs_chroma :: nat
  hs_size :: "nat \<times> nat"
  hs_depth :: "nat \<times> nat"
  hs_log2_poc :: nat
  hs_dpb :: "nat \<times> nat"
  hs_cb :: "nat \<times> nat"
  hs_tb :: "nat \<times> nat"
  hs_hierarchy :: "nat \<times> nat"
  hs_scaling :: bool
  hs_amp :: bool
  hs_sao :: bool
  hs_pcm :: "(nat \<times> nat \<times> nat \<times> nat \<times> bool) option"
  hs_long_term :: bool
  hs_tmvp :: bool
  hs_strong :: bool

definition dec_pcm :: "bool list \<Rightarrow> ((nat \<times> nat \<times> nat \<times> nat \<times> bool) option \<times> bool list) option" where
  "dec_pcm b =
     do {
       (pcm, b) \<leftarrow> get_flag b;
       if pcm then do {
         (l, b) \<leftarrow> get_u 4 b;
         (c, b) \<leftarrow> get_u 4 b;
         (m, b) \<leftarrow> get_ue b;
         (d, b) \<leftarrow> get_ue b;
         (f, b) \<leftarrow> get_flag b;
         Some (Some (l, c, m, d, f), b) }
       else Some (None, b)
     }"

text \<open>The part from the sample formats to the transform hierarchy depths.\<close>

definition dec_sps_sizes ::
    "bool list \<Rightarrow> ((nat \<times> (nat \<times> nat) \<times> (nat \<times> nat) \<times> nat \<times> (nat \<times> nat) \<times> (nat \<times> nat) \<times>
       (nat \<times> nat) \<times> (nat \<times> nat)) \<times> bool list) option" where
  "dec_sps_sizes b =
     do {
       (sps_id, b) \<leftarrow> get_ue b;
       (chroma, b) \<leftarrow> get_ue b;
       (w, b) \<leftarrow> get_ue b;
       (h, b) \<leftarrow> get_ue b;
       (window, b) \<leftarrow> get_flag b;
       (bdl, b) \<leftarrow> get_ue b;
       (bdc, b) \<leftarrow> get_ue b;
       (poc, b) \<leftarrow> get_ue b;
       (sub_layer_info, b) \<leftarrow> get_flag b;
       (dpb, b) \<leftarrow> get_ue b;
       (reorder, b) \<leftarrow> get_ue b;
       (latency, b) \<leftarrow> get_ue b;
       (cb_min, b) \<leftarrow> get_ue b;
       (cb_diff, b) \<leftarrow> get_ue b;
       (tb_min, b) \<leftarrow> get_ue b;
       (tb_diff, b) \<leftarrow> get_ue b;
       (inter, b) \<leftarrow> get_ue b;
       (intra, b) \<leftarrow> get_ue b;
       if sps_id = 0 \<and> chroma \<noteq> 3 \<and> \<not> window \<and> latency = 0
       then Some ((chroma, (w, h), (bdl, bdc), poc, (dpb, reorder), (cb_min, cb_diff),
                   (tb_min, tb_diff), (inter, intra)), b)
       else None
     }"

definition dec_hevc_sps :: "bool list \<Rightarrow> (hevc_sps_info \<times> bool list) option" where
  "dec_hevc_sps b =
     do {
       (_, b) \<leftarrow> dec_nal_header 33 b;
       (vps_id, b) \<leftarrow> get_u 4 b;
       (sub_layers, b) \<leftarrow> get_u 3 b;
       (nesting, b) \<leftarrow> get_flag b;
       (ptl, b) \<leftarrow> dec_ptl b;
       ((chroma, size, depth, poc, dpb, cb, tb, hierarchy), b) \<leftarrow> dec_sps_sizes b;
       (scaling, b) \<leftarrow> get_flag b;
       (lists, b) \<leftarrow> (if scaling then get_flag b else Some (False, b));
       (amp, b) \<leftarrow> get_flag b;
       (sao, b) \<leftarrow> get_flag b;
       (pcm, b) \<leftarrow> dec_pcm b;
       (st_sets, b) \<leftarrow> get_ue b;
       (long, b) \<leftarrow> get_flag b;
       (lt_sets, b) \<leftarrow> (if long then get_ue b else Some (0, b));
       (tmvp, b) \<leftarrow> get_flag b;
       (strong, b) \<leftarrow> get_flag b;
       (vui, b) \<leftarrow> get_flag b;
       (ext, b) \<leftarrow> get_flag b;
       if vps_id = 0 \<and> sub_layers = 0 \<and> nesting \<and> \<not> lists \<and> st_sets = 0 \<and> lt_sets = 0 \<and> \<not> vui \<and> \<not> ext
       then Some (\<lparr>hs_ptl = ptl, hs_chroma = chroma, hs_size = size, hs_depth = depth, hs_log2_poc = poc,
         hs_dpb = dpb, hs_cb = cb, hs_tb = tb, hs_hierarchy = hierarchy, hs_scaling = scaling,
         hs_amp = amp, hs_sao = sao, hs_pcm = pcm, hs_long_term = long, hs_tmvp = tmvp,
         hs_strong = strong\<rparr>, b)
       else None
     }"

definition hevc_sps_info_of :: "VAPictureParameterBufferHEVC \<Rightarrow> int \<Rightarrow> hevc_sps_info" where
  "hevc_sps_info_of pp p =
     \<lparr>hs_ptl = ptl_of pp p, hs_chroma = unat (chroma_format_idc pp),
      hs_size = (unat (pic_width_in_luma_samples pp), unat (pic_height_in_luma_samples pp)),
      hs_depth = (unat (bit_depth_luma_minus8 pp), unat (bit_depth_chroma_minus8 pp)),
      hs_log2_poc = unat (log2_max_pic_order_cnt_lsb_minus4 pp),
      hs_dpb = (unat (sps_max_dec_pic_buffering_minus1 pp), unat (hevc_reorder pp)),
      hs_cb = (unat (log2_min_luma_coding_block_size_minus3 pp),
               unat (log2_diff_max_min_luma_coding_block_size pp)),
      hs_tb = (unat (log2_min_transform_block_size_minus2 pp),
               unat (log2_diff_max_min_transform_block_size pp)),
      hs_hierarchy = (unat (max_transform_hierarchy_depth_inter pp),
                      unat (max_transform_hierarchy_depth_intra pp)),
      hs_scaling = scaling_list_enabled_flag pp, hs_amp = amp_enabled_flag pp,
      hs_sao = sample_adaptive_offset_enabled_flag pp,
      hs_pcm = (if pcm_enabled_flag pp
        then Some (unat (pcm_sample_bit_depth_luma_minus1 pp),
                   unat (pcm_sample_bit_depth_chroma_minus1 pp),
                   unat (log2_min_pcm_luma_coding_block_size_minus3 pp),
                   unat (log2_diff_max_min_pcm_luma_coding_block_size pp),
                   pcm_loop_filter_disabled_flag pp)
        else None),
      hs_long_term = long_term_ref_pics_present_flag pp,
      hs_tmvp = sps_temporal_mvp_enabled_flag pp,
      hs_strong = strong_intra_smoothing_enabled_flag pp\<rparr>"

section \<open>VPS and SPS decode to the picture parameters\<close>

lemma dec_nal_header_ops:
  "unat t < 64 \<Longrightarrow> dec_nal_header (unat t) (ops_bits (write_nal_header t) @ rest) = Some ((), rest)"
  by (simp add: dec_nal_header_def write_nal_header_def)

lemma ops_bits_flags: "ops_bits (map (\<lambda>x. W (of_bool (f x)) 1) xs) = map f xs"
  by (induction xs) auto

lemma get_flags_append: "n = length fs \<Longrightarrow> get_flags n (fs @ rest) = Some (fs, rest)"
  by (simp add: get_flags_def)

lemma bits_val_zeros [simp]: "bits_val (replicate n False) = 0"
  by (induction n) (simp_all add: bits_val_Cons)

lemma get_u_zeros: "get_u n (replicate n False @ rest) = Some (0, rest)"
  by (simp add: get_u_append)

lemma derive_level_small: "unat (derive_level_idc pp) < 256"
  by (simp add: derive_level_idc_def Let_def)

lemma reserved_zeros:
  "ops_bits (if p = 2 then [W 0 7, W 0 1, W 0 24, W 0 11] else [W 0 24, W 0 19]) = replicate 43 False"
  by (simp add: word_bits_zero flip: replicate_add replicate_Suc)

lemma dec_ptl_ops:
  assumes "p = 1 \<or> p = 2"
  shows "dec_ptl (ops_bits (write_profile_tier_level p (derive_level_idc pp)
      (flag_field_pic (CurrPic pp))) @ rest) = Some (ptl_of pp p, rest)"
proof -
  have p: "unat (word_of_int p :: u32) = nat p" "nat p < 32" using assms by auto
  show ?thesis
    unfolding dec_ptl_def write_profile_tier_level_def ops_bits_simps(3) reserved_zeros ops_bits_flags
    using p derive_level_small [of pp]
    by (simp add: get_flags_append get_u_zeros ptl_of_def del: upt_Suc map_upt_Suc)
qed

lemma hevc_reorder_ok [simp]: "hevc_reorder pp \<noteq> - 1"
  by (simp add: hevc_reorder_def)

lemma dec_vps_ops:
  assumes "p = 1 \<or> p = 2"
  shows "dec_vps (ops_bits (hevc_vps_ops pp p) @ rest) =
    Some ((ptl_of pp p, unat (sps_max_dec_pic_buffering_minus1 pp), unat (hevc_reorder pp)), rest)"
  unfolding dec_vps_def hevc_vps_ops_def
  using dec_nal_header_ops [of 32] dec_ptl_ops [OF assms] by simp

lemma dec_pcm_ops:
  assumes "pcm_enabled_flag pp \<Longrightarrow> unat (pcm_sample_bit_depth_luma_minus1 pp) \<le> 15 \<and>
    unat (pcm_sample_bit_depth_chroma_minus1 pp) \<le> 15"
  shows "dec_pcm (pcm_enabled_flag pp # ops_bits (hevc_pcm_ops pp) @ rest) =
    Some (hs_pcm (hevc_sps_info_of pp p), rest)"
  using assms by (cases "pcm_enabled_flag pp") (simp_all add: dec_pcm_def hevc_pcm_ops_def hevc_sps_info_of_def)

lemma dec_sps_sizes_ops:
  assumes "unat (chroma_format_idc pp) < 3"
  shows "dec_sps_sizes (ops_bits (hevc_sps_size_ops pp) @ rest) =
    (let i = hevc_sps_info_of pp p in Some ((hs_chroma i, hs_size i, hs_depth i, hs_log2_poc i, hs_dpb i,
       hs_cb i, hs_tb i, hs_hierarchy i), rest))"
proof -
  have "chroma_format_idc pp \<noteq> - 1" "unat (chroma_format_idc pp) \<noteq> 3" using assms by auto
  then show ?thesis
    unfolding dec_sps_sizes_def hevc_sps_size_ops_def by (simp add: hevc_sps_info_of_def)
qed

lemma dec_hevc_sps_ops:
  assumes "p = 1 \<or> p = 2" and "unat (chroma_format_idc pp) < 3"
    and "pcm_enabled_flag pp \<Longrightarrow> unat (pcm_sample_bit_depth_luma_minus1 pp) \<le> 15 \<and>
      unat (pcm_sample_bit_depth_chroma_minus1 pp) \<le> 15"
  shows "dec_hevc_sps (ops_bits (hevc_sps_ops pp p) @ rest) = Some (hevc_sps_info_of pp p, rest)"
proof -
  note d = dec_nal_header_ops [of 33, simplified] dec_ptl_ops [OF assms(1)]
    dec_sps_sizes_ops [OF assms(2), where p = p] dec_pcm_ops [OF assms(3), where p = p]
  show ?thesis
    unfolding dec_hevc_sps_def hevc_sps_ops_def
    by (cases "scaling_list_enabled_flag pp"; cases "long_term_ref_pics_present_flag pp")
      (simp_all add: d Let_def, simp_all add: hevc_sps_info_of_def)
qed

lemma ptl_op_cost: "sum_list (map op_cost (write_profile_tier_level p l f)) = 96"
  by (simp add: write_profile_tier_level_def comp_def sum_list_triv del: upt_Suc map_upt_Suc)

lemma hevc_vps_cost: "length (ops_bits (hevc_vps_ops pp p)) \<le> 420"
  by (rule le_trans [OF length_ops_bits_cost])
    (simp add: hevc_vps_ops_def write_nal_header_def ptl_op_cost)

lemma hevc_sps_cost: "length (ops_bits (hevc_sps_ops pp p)) \<le> 1700"
  by (rule le_trans [OF length_ops_bits_cost])
    (simp add: hevc_sps_ops_def write_nal_header_def ptl_op_cost hevc_sps_size_ops_def hevc_pcm_ops_def)

section \<open>Scaling lists decode to the matrices\<close>

fun dec_coefs :: "nat \<Rightarrow> int \<Rightarrow> bool list \<Rightarrow> (int list \<times> bool list) option" where
  "dec_coefs 0 prev b = Some ([], b)"
| "dec_coefs (Suc n) prev b =
     do {
       (d, b) \<leftarrow> get_se b;
       let v = (prev + d + 256) mod 256;
       (vs, b) \<leftarrow> dec_coefs n v b;
       Some (v # vs, b)
     }"

text \<open>
  One entry of \<open>scaling_list_data\<close> with explicit coefficients; larger sizes carry a DC value.
\<close>

definition dec_matrix :: "nat \<Rightarrow> bool list \<Rightarrow> ((int \<times> int list) \<times> bool list) option" where
  "dec_matrix size_id b =
     do {
       (pred_mode, b) \<leftarrow> get_flag b;
       (dc, b) \<leftarrow> (if size_id > 1 then map_option (map_prod (\<lambda>d. d + 8) id) (get_se b) else Some (8, b));
       (vs, b) \<leftarrow> dec_coefs (if size_id = 0 then 16 else 64) dc b;
       if pred_mode then Some ((dc, vs), b) else None
     }"

fun dec_matrices :: "nat list \<Rightarrow> bool list \<Rightarrow> ((int \<times> int list) list \<times> bool list) option" where
  "dec_matrices [] b = Some ([], b)"
| "dec_matrices (sz # szs) b =
     do { (m, b) \<leftarrow> dec_matrix sz b; (ms, b) \<leftarrow> dec_matrices szs b; Some (m # ms, b) }"

definition round_dc :: "VAIQMatrixBufferHEVC \<Rightarrow> nat \<times> nat \<Rightarrow> int" where
  "round_dc iq r = (if fst r > 1 then scaling_dc iq (fst r) (snd r) else 8)"

definition round_coefs :: "VAIQMatrixBufferHEVC \<Rightarrow> nat \<times> nat \<Rightarrow> int list" where
  "round_coefs iq r = map (\<lambda>pos. uint (scaling_matrix iq (fst r) (snd r) ! pos)) (diag_positions (fst r))"

definition scaling_of :: "VAIQMatrixBufferHEVC \<Rightarrow> (int \<times> int list) list" where
  "scaling_of iq = map (\<lambda>r. (round_dc iq r, round_coefs iq r)) scaling_rounds"

definition dc_coded :: "VAIQMatrixBufferHEVC \<Rightarrow> bool" where
  "dc_coded iq \<longleftrightarrow> list_all (\<lambda>r. round_dc iq r \<noteq> 0) scaling_rounds"

fun coef_ops :: "int \<Rightarrow> int list \<Rightarrow> wop list" where
  "coef_ops prev [] = []"
| "coef_ops prev (v # vs) = SE (coef_delta prev v) # coef_ops v vs"

definition matrix_ops :: "VAIQMatrixBufferHEVC \<Rightarrow> nat \<times> nat \<Rightarrow> wop list" where
  "matrix_ops iq r = W 1 1 # (if fst r > 1 then [SE (round_dc iq r - 8)] else []) @
     coef_ops (round_dc iq r) (round_coefs iq r)"

definition byte_val :: "int \<Rightarrow> bool" where
  "byte_val v \<longleftrightarrow> 0 \<le> v \<and> v < 256"

lemma byte_val_uint [simp]: "byte_val (uint (w :: u8))"
  using uint_lt2p [of w] by (simp add: byte_val_def)

lemma byte_val_8 [simp]: "byte_val 8"
  by (simp add: byte_val_def)

lemma round_dc_byte [simp]: "byte_val (round_dc iq r)"
  by (auto simp: round_dc_def scaling_dc_def)

lemma round_coefs_bytes [simp]: "list_all byte_val (round_coefs iq r)"
  by (simp add: round_coefs_def list_all_iff)

lemma coef_delta_range:
  "byte_val x \<Longrightarrow> byte_val y \<Longrightarrow> - 128 \<le> coef_delta x y \<and> coef_delta x y \<le> 127"
  by (simp add: byte_val_def coef_delta_def Let_def)

lemma coef_delta_inverse:
  assumes "byte_val x" "byte_val y"
  shows "(x + coef_delta x y + 256) mod 256 = y"
proof -
  have "coef_delta x y \<in> {y - x, y - x - 256, y - x + 256}"
    by (simp add: coef_delta_def Let_def)
  then show ?thesis using assms by (auto simp: byte_val_def)
qed

lemma write_coefs_run:
  "write_coefs bs matrix prev ps = bs_run bs (coef_ops prev (map (\<lambda>pos. uint (matrix ! pos)) ps))"
  by (induction ps arbitrary: bs prev) simp_all

lemma write_scaling_matrix_run:
  "write_scaling_matrix iq bs r = (if round_dc iq r = 0 then None else Some (bs_run bs (matrix_ops iq r)))"
  by (cases r) (simp add: write_scaling_matrix_def Let_def write_coefs_run matrix_ops_def round_dc_def
      round_coefs_def)

lemma scaling_loop_run:
  "scaling_loop iq bs rs = (if list_all (\<lambda>r. round_dc iq r \<noteq> 0) rs
     then Some (bs_run bs (concat (map (matrix_ops iq) rs))) else None)"
  by (induction rs arbitrary: bs) (simp_all add: write_scaling_matrix_run bs_run_append)

lemma dec_coefs_ops:
  "list_all byte_val vs \<Longrightarrow> byte_val prev \<Longrightarrow>
     dec_coefs (length vs) prev (ops_bits (coef_ops prev vs) @ rest) = Some (vs, rest)"
proof (induction vs arbitrary: prev)
  case (Cons v vs)
  then have "- (2 ^ 30) < coef_delta prev v" "coef_delta prev v < 2 ^ 30"
    using coef_delta_range [of prev v] by auto
  with Cons coef_delta_inverse [of prev v] show ?case by (simp add: Let_def)
qed simp

lemma length_diag [simp]: "length (diag_positions sz) = (if sz = 0 then 16 else 64)"
  by (simp add: diag_positions_def)

lemma length_round_coefs: "length (round_coefs iq r) = (if fst r = 0 then 16 else 64)"
  by (simp add: round_coefs_def)

lemma dec_matrix_ops:
  "dec_matrix (fst r) (ops_bits (matrix_ops iq r) @ rest) = Some ((round_dc iq r, round_coefs iq r), rest)"
proof -
  have d: "get_se (ue_bits (se_code (round_dc iq r - 8)) @ b) = Some (round_dc iq r - 8, b)" for b
    using round_dc_byte [of iq r] by (intro get_se_word) (simp_all add: byte_val_def)
  note c = dec_coefs_ops [OF round_coefs_bytes [of iq r] round_dc_byte [of iq r], unfolded length_round_coefs]
  have "\<not> fst r > 1 \<Longrightarrow> round_dc iq r = 8" by (simp add: round_dc_def)
  then show ?thesis
    using c by (cases "fst r > 1"; cases "fst r = 0") (simp_all add: dec_matrix_def matrix_ops_def d)
qed

lemma dec_matrices_ops:
  "dec_matrices (map fst rs) (ops_bits (concat (map (matrix_ops iq) rs)) @ rest) =
     Some (map (\<lambda>r. (round_dc iq r, round_coefs iq r)) rs, rest)"
  by (induction rs) (simp_all add: dec_matrix_ops)

lemma small_se_cost: "- 128 \<le> v \<Longrightarrow> v \<le> 255 \<Longrightarrow> length (op_bits (SE v)) \<le> 17"
proof -
  assume "- 128 \<le> v" "v \<le> 255"
  then have "unat (se_code v) + 1 < 2 ^ Suc 8" by (subst se_code_neq) auto
  from length_ue_bits_bound [OF this] show ?thesis by simp
qed

lemma coef_ops_cost:
  "list_all byte_val vs \<Longrightarrow> byte_val prev \<Longrightarrow> length (ops_bits (coef_ops prev vs)) \<le> 17 * length vs"
proof (induction vs arbitrary: prev)
  case (Cons v vs)
  then have "length (op_bits (SE (coef_delta prev v))) \<le> 17"
    using coef_delta_range [of prev v] by (intro small_se_cost) simp_all
  moreover have "length (ops_bits (coef_ops v vs)) \<le> 17 * length vs" using Cons by simp
  ultimately show ?case by simp
qed simp

lemma matrix_ops_cost: "length (ops_bits (matrix_ops iq r)) \<le> 1106"
proof -
  have "length (op_bits (SE (round_dc iq r - 8))) \<le> 17"
    using round_dc_byte [of iq r] by (intro small_se_cost) (simp_all add: byte_val_def)
  moreover have "length (ops_bits (coef_ops (round_dc iq r) (round_coefs iq r))) \<le> 17 * 64"
    using coef_ops_cost [OF round_coefs_bytes [of iq r] round_dc_byte [of iq r]]
    by (simp add: length_round_coefs split: if_splits)
  ultimately show ?thesis by (simp add: matrix_ops_def)
qed

lemma matrices_cost: "length (ops_bits (concat (map (matrix_ops iq) rs))) \<le> 1106 * length rs"
proof (induction rs)
  case (Cons r rs)
  then show ?case using matrix_ops_cost [of iq r] by simp
qed simp

section \<open>The PPS decodes to the picture parameters\<close>

fun get_ues :: "nat \<Rightarrow> bool list \<Rightarrow> (nat list \<times> bool list) option" where
  "get_ues 0 b = Some ([], b)"
| "get_ues (Suc n) b = do { (x, b) \<leftarrow> get_ue b; (xs, b) \<leftarrow> get_ues n b; Some (x # xs, b) }"

record hevc_pps_info =
  hp_id :: nat
  hp_slice_flags :: "bool \<times> bool \<times> nat"
  hp_coding :: "bool \<times> bool"
  hp_refs :: "nat \<times> nat"
  hp_qp :: "int \<times> int \<times> int"
  hp_tools :: "bool \<times> bool \<times> nat option"
  hp_pred :: "bool \<times> bool \<times> bool \<times> bool"
  hp_sync :: bool
  hp_tiles :: "(nat \<times> nat \<times> (nat list \<times> nat list) option \<times> bool) option"
  hp_across :: bool
  hp_deblock :: "(bool \<times> bool \<times> (int \<times> int) option) option"
  hp_scaling :: "(int \<times> int list) list option"
  hp_tail :: "bool \<times> nat \<times> bool"

definition dec_tiles ::
    "bool \<Rightarrow> bool list \<Rightarrow> ((nat \<times> nat \<times> (nat list \<times> nat list) option \<times> bool) option \<times> bool list) option" where
  "dec_tiles tiles b =
     (if tiles then do {
        (c, b) \<leftarrow> get_ue b;
        (r, b) \<leftarrow> get_ue b;
        (uniform, b) \<leftarrow> get_flag b;
        (sizes, b) \<leftarrow> (if uniform then Some (None, b)
          else do { (ws, b) \<leftarrow> get_ues c b; (hs, b) \<leftarrow> get_ues r b; Some (Some (ws, hs), b) });
        (across, b) \<leftarrow> get_flag b;
        Some (Some (c, r, sizes, across), b) }
      else Some (None, b))"

definition dec_deblock ::
    "bool list \<Rightarrow> ((bool \<times> bool \<times> (int \<times> int) option) option \<times> bool list) option" where
  "dec_deblock b =
     do {
       (present, b) \<leftarrow> get_flag b;
       if present then do {
         (ovr, b) \<leftarrow> get_flag b;
         (dis, b) \<leftarrow> get_flag b;
         if dis then Some (Some (ovr, dis, None), b)
         else do { (be, b) \<leftarrow> get_se b; (tc, b) \<leftarrow> get_se b; Some (Some (ovr, dis, Some (be, tc)), b) } }
       else Some (None, b)
     }"

definition dec_hevc_pps :: "bool list \<Rightarrow> (hevc_pps_info \<times> bool list) option" where
  "dec_hevc_pps b =
     do {
       (_, b) \<leftarrow> dec_nal_header 34 b;
       (pps_id, b) \<leftarrow> get_ue b;
       (sps_id, b) \<leftarrow> get_ue b;
       (dep, b) \<leftarrow> get_flag b;
       (outp, b) \<leftarrow> get_flag b;
       (extra, b) \<leftarrow> get_u 3 b;
       (sign, b) \<leftarrow> get_flag b;
       (cabac, b) \<leftarrow> get_flag b;
       (l0, b) \<leftarrow> get_ue b;
       (l1, b) \<leftarrow> get_ue b;
       (qp, b) \<leftarrow> get_se b;
       (cip, b) \<leftarrow> get_flag b;
       (skip, b) \<leftarrow> get_flag b;
       (cuqp, b) \<leftarrow> get_flag b;
       (depth, b) \<leftarrow> (if cuqp then map_option (map_prod Some id) (get_ue b) else Some (None, b));
       (cb, b) \<leftarrow> get_se b;
       (cr, b) \<leftarrow> get_se b;
       (sc, b) \<leftarrow> get_flag b;
       (wp, b) \<leftarrow> get_flag b;
       (wb, b) \<leftarrow> get_flag b;
       (bypass, b) \<leftarrow> get_flag b;
       (tiles, b) \<leftarrow> get_flag b;
       (sync, b) \<leftarrow> get_flag b;
       (ts, b) \<leftarrow> dec_tiles tiles b;
       (across, b) \<leftarrow> get_flag b;
       (dbk, b) \<leftarrow> dec_deblock b;
       (scaling, b) \<leftarrow> get_flag b;
       (lists, b) \<leftarrow> (if scaling
          then map_option (map_prod Some id) (dec_matrices (map fst scaling_rounds) b) else Some (None, b));
       (modification, b) \<leftarrow> get_flag b;
       (merge, b) \<leftarrow> get_ue b;
       (header_ext, b) \<leftarrow> get_flag b;
       (ext, b) \<leftarrow> get_flag b;
       if sps_id = 0 \<and> \<not> ext
       then Some (\<lparr>hp_id = pps_id, hp_slice_flags = (dep, outp, extra), hp_coding = (sign, cabac),
         hp_refs = (l0, l1), hp_qp = (qp, cb, cr), hp_tools = (cip, skip, depth),
         hp_pred = (sc, wp, wb, bypass), hp_sync = sync, hp_tiles = ts, hp_across = across,
         hp_deblock = dbk, hp_scaling = lists, hp_tail = (modification, merge, header_ext)\<rparr>, b)
       else None
     }"

definition hevc_pps_info_of ::
    "VAPictureParameterBufferHEVC \<Rightarrow> VAIQMatrixBufferHEVC option \<Rightarrow> u8 \<Rightarrow> bool \<Rightarrow> hevc_pps_info" where
  "hevc_pps_info_of pp iq pps_id uniform =
     \<lparr>hp_id = unat pps_id,
      hp_slice_flags = (dependent_slice_segments_enabled_flag pp, output_flag_present_flag pp,
        unat (num_extra_slice_header_bits pp)),
      hp_coding = (sign_data_hiding_enabled_flag pp, cabac_init_present_flag pp),
      hp_refs = (unat (num_ref_idx_l0_default_active_minus1 pp), unat (num_ref_idx_l1_default_active_minus1 pp)),
      hp_qp = (sint (init_qp_minus26 pp), sint (pps_cb_qp_offset pp), sint (pps_cr_qp_offset pp)),
      hp_tools = (constrained_intra_pred_flag pp, transform_skip_enabled_flag pp,
        if cu_qp_delta_enabled_flag pp then Some (unat (diff_cu_qp_delta_depth pp)) else None),
      hp_pred = (pps_slice_chroma_qp_offsets_present_flag pp, weighted_pred_flag pp,
        weighted_bipred_flag pp, transquant_bypass_enabled_flag pp),
      hp_sync = entropy_coding_sync_enabled_flag pp,
      hp_tiles = (if tiles_enabled_flag pp
        then Some (unat (num_tile_columns_minus1 pp), unat (num_tile_rows_minus1 pp),
          if uniform then None
          else Some (map unat (take (unat (num_tile_columns_minus1 pp)) (column_width_minus1 pp)),
                     map unat (take (unat (num_tile_rows_minus1 pp)) (row_height_minus1 pp))),
          loop_filter_across_tiles_enabled_flag pp)
        else None),
      hp_across = pps_loop_filter_across_slices_enabled_flag pp,
      hp_deblock = (if deblock_present pp
        then Some (deblocking_filter_override_enabled_flag pp, pps_disable_deblocking_filter_flag pp,
          if pps_disable_deblocking_filter_flag pp then None
          else Some (sint (pps_beta_offset_div2 pp), sint (pps_tc_offset_div2 pp)))
        else None),
      hp_scaling = (if scaling_list_enabled_flag pp then map_option scaling_of iq else None),
      hp_tail = (lists_modification_present_flag pp, unat (log2_parallel_merge_level_minus2 pp),
        slice_segment_header_extension_present_flag pp)\<rparr>"

lemma get_ues_ops:
  "get_ues (length xs) (ops_bits (map (\<lambda>x. UE (ucast (x :: u16))) xs) @ rest) = Some (map unat xs, rest)"
  by (induction xs) simp_all

lemma map_nth_upt: "n \<le> length xs \<Longrightarrow> map (\<lambda>i. f (xs ! i)) [0..<n] = map f (take n xs)"
  by (auto intro!: nth_equalityI)

lemma dec_tiles_ops:
  assumes "unat (num_tile_columns_minus1 pp) \<le> length (column_width_minus1 pp)"
    and "unat (num_tile_rows_minus1 pp) \<le> length (row_height_minus1 pp)"
  shows "dec_tiles (tiles_enabled_flag pp) (ops_bits (hevc_tiles_ops pp uniform) @ rest) =
    Some (hp_tiles (hevc_pps_info_of pp iq pps_id uniform), rest)"
proof -
  let ?ws = "take (unat (num_tile_columns_minus1 pp)) (column_width_minus1 pp)"
  let ?hs = "take (unat (num_tile_rows_minus1 pp)) (row_height_minus1 pp)"
  have len: "length ?ws = unat (num_tile_columns_minus1 pp)" "length ?hs = unat (num_tile_rows_minus1 pp)"
    using assms by simp_all
  have g: "get_ues (unat (num_tile_columns_minus1 pp)) (ops_bits (map (\<lambda>x. UE (ucast x)) ?ws) @ b) = Some (map unat ?ws, b)"
    "get_ues (unat (num_tile_rows_minus1 pp)) (ops_bits (map (\<lambda>x. UE (ucast x)) ?hs) @ b) = Some (map unat ?hs, b)" for b
    using get_ues_ops [of ?ws b] get_ues_ops [of ?hs b] by (simp_all only: len)
  show ?thesis
    unfolding dec_tiles_def hevc_tiles_ops_def map_nth_upt [OF assms(1), of "\<lambda>x. UE (ucast x)"]
      map_nth_upt [OF assms(2), of "\<lambda>x. UE (ucast x)"]
    by (cases "tiles_enabled_flag pp"; cases uniform) (simp_all add: g hevc_pps_info_of_def)
qed

lemma dec_deblock_ops:
  "get_flag (ops_bits (hevc_deblock_ops pp) @ rest) =
     Some (pps_loop_filter_across_slices_enabled_flag pp, tl (ops_bits (hevc_deblock_ops pp)) @ rest)"
  "dec_deblock (tl (ops_bits (hevc_deblock_ops pp)) @ rest) =
     Some (hp_deblock (hevc_pps_info_of pp iq pps_id uniform), scaling_list_enabled_flag pp # rest)"
  by (simp_all add: hevc_deblock_ops_def dec_deblock_def hevc_pps_info_of_def)

definition hevc_scaling_ops :: "VAPictureParameterBufferHEVC \<Rightarrow> VAIQMatrixBufferHEVC option \<Rightarrow> wop list" where
  "hevc_scaling_ops pp iq = (case iq of None \<Rightarrow> []
     | Some m \<Rightarrow> if scaling_list_enabled_flag pp then concat (map (matrix_ops m) scaling_rounds) else [])"

definition hevc_pps_ops ::
    "VAPictureParameterBufferHEVC \<Rightarrow> VAIQMatrixBufferHEVC option \<Rightarrow> u8 \<Rightarrow> bool \<Rightarrow> wop list" where
  "hevc_pps_ops pp iq pps_id uniform = hevc_pps_head_ops pp pps_id @ hevc_tiles_ops pp uniform @
     hevc_deblock_ops pp @ hevc_scaling_ops pp iq @ hevc_pps_tail_ops pp"

lemma dec_hevc_pps_ops:
  assumes "unat (num_tile_columns_minus1 pp) \<le> length (column_width_minus1 pp)"
    and "unat (num_tile_rows_minus1 pp) \<le> length (row_height_minus1 pp)"
    and "unat (num_extra_slice_header_bits pp) < 8" and "scaling_list_enabled_flag pp \<Longrightarrow> iq \<noteq> None"
  shows "dec_hevc_pps (ops_bits (hevc_pps_ops pp iq pps_id uniform) @ rest) =
    Some (hevc_pps_info_of pp iq pps_id uniform, rest)"
proof -
  note t = dec_tiles_ops [OF assms(1,2), of uniform _ iq pps_id]
  note d = dec_deblock_ops(1) dec_deblock_ops(2) [where iq = iq and pps_id = pps_id and uniform = uniform]
  have sc: "(if scaling_list_enabled_flag pp
      then map_option (map_prod Some id) (dec_matrices (map fst scaling_rounds) (ops_bits (hevc_scaling_ops pp iq) @ b))
      else Some (None, ops_bits (hevc_scaling_ops pp iq) @ b)) =
      Some (hp_scaling (hevc_pps_info_of pp iq pps_id uniform), b)" for b
    using assms(4) dec_matrices_ops [of scaling_rounds]
    by (auto simp: hevc_scaling_ops_def hevc_pps_info_of_def scaling_of_def split: option.splits)
  show ?thesis
    unfolding dec_hevc_pps_def hevc_pps_ops_def hevc_pps_head_ops_def hevc_pps_tail_ops_def
    using assms(3) by (cases "cu_qp_delta_enabled_flag pp")
      (simp_all add: dec_nal_header_ops [of 34, simplified] t d sc split del: if_split,
       simp_all add: hevc_pps_info_of_def)
qed

section \<open>Sizes and composition\<close>

lemma hevc_pps_cost: "length (ops_bits (hevc_pps_ops pp iq pps_id uniform)) \<le> 27000"
  if "unat (num_tile_columns_minus1 pp) \<le> 19" "unat (num_tile_rows_minus1 pp) \<le> 21"
proof -
  have "length (ops_bits (hevc_pps_head_ops pp pps_id)) \<le> 600"
    by (rule le_trans [OF length_ops_bits_cost]) (simp add: hevc_pps_head_ops_def write_nal_header_def)
  moreover have "length (ops_bits (hevc_tiles_ops pp uniform)) \<le> 2700"
    by (rule le_trans [OF length_ops_bits_cost])
      (use that in \<open>simp add: hevc_tiles_ops_def comp_def sum_list_triv\<close>)
  moreover have "length (ops_bits (hevc_deblock_ops pp)) \<le> 200"
    by (rule le_trans [OF length_ops_bits_cost]) (simp add: hevc_deblock_ops_def)
  moreover have "length (ops_bits (hevc_pps_tail_ops pp)) \<le> 70"
    by (rule le_trans [OF length_ops_bits_cost]) (simp add: hevc_pps_tail_ops_def)
  moreover have "length (ops_bits (hevc_scaling_ops pp iq)) \<le> 22120"
    using matrices_cost [of _ scaling_rounds]
    by (auto simp: hevc_scaling_ops_def scaling_rounds_def split: option.splits)
  ultimately show ?thesis by (simp add: hevc_pps_ops_def)
qed

lemma finish_nal_fits:
  assumes "raw \<noteq> []" and "4 + 2 * length raw \<le> buf_size" and "length raw \<le> 32768"
  shows "finish_nal buf_size raw = Some ([0, 0, 0, 1] @ escape 0 raw)"
proof -
  have "emulation_prevent raw (buf_size - 4) = escape 0 raw"
    using assms(2) by (intro hevc_esc.esc_double) simp
  moreover have "length (escape 0 raw) \<le> 65536" using length_escape_le [of 0 raw] assms(3) by simp
  ultimately show ?thesis using assms by (simp add: finish_nal_def INT_MAX_def Let_def)
qed

text \<open>
  Emitting a code sequence that stays within the raw array yields a unit which holds whatever
  structure decodes from that sequence.
\<close>

lemma emit_holds:
  assumes "length (ops_bits ops) \<le> n" and "n + 8 \<le> 8 * cap" and "cap \<le> 32768"
    and "4 + 2 * Suc (n div 8) \<le> buf_size"
    and "\<And>t. rbsp_tail t \<Longrightarrow> dec (ops_bits ops @ t) = Some (x, t)"
  shows "\<exists>out. finish_nal buf_size (bs_emit cap ops) = Some out \<and> nal_holds dec x out \<and>
    length out \<le> 4 + 2 * Suc (n div 8)"
proof -
  have fit: "length (ops_bits ops) + 8 \<le> 8 * cap" using assms(1,2) by simp
  have len: "length (bs_emit cap ops) \<le> Suc (n div 8)"
    unfolding length_bs_emit [OF fit] using assms(1) by (simp add: div_le_mono)
  have "bs_emit cap ops \<noteq> []" using length_bs_emit [OF fit] by auto
  moreover have "length (bs_emit cap ops) \<le> 32768"
    unfolding length_bs_emit [OF fit] using fit assms(3) by linarith
  ultimately have "finish_nal buf_size (bs_emit cap ops) = Some ([0, 0, 0, 1] @ escape 0 (bs_emit cap ops))"
    using len assms(4) by (intro finish_nal_fits) simp_all
  moreover have "nal_holds dec x ([0, 0, 0, 1] @ escape 0 (bs_emit cap ops))"
    by (rule nal_holds_annex_b [OF bs_emit_bits [OF fit] assms(5)])
  moreover have "length ([0, 0, 0, 1] @ escape 0 (bs_emit cap ops)) \<le> 4 + 2 * Suc (n div 8)"
    using length_escape_le [of 0 "bs_emit cap ops"] len by simp
  ultimately show ?thesis by blast
qed

definition hevc_vps_info_of :: "VAPictureParameterBufferHEVC \<Rightarrow> int \<Rightarrow> ptl_info \<times> nat \<times> nat" where
  "hevc_vps_info_of pp p =
     (ptl_of pp p, unat (sps_max_dec_pic_buffering_minus1 pp), unat (hevc_reorder pp))"

lemma write_vps_holds:
  assumes "p = 1 \<or> p = 2" and "200 \<le> buf_size"
  shows "\<exists>out. write_vps buf_size pp p = Some out \<and> nal_holds dec_vps (hevc_vps_info_of pp p) out \<and>
    length out \<le> 200"
proof -
  have "dec_vps (ops_bits (hevc_vps_ops pp p) @ t) = Some (hevc_vps_info_of pp p, t)" for t
    unfolding hevc_vps_info_of_def by (rule dec_vps_ops [OF assms(1)])
  from emit_holds [OF hevc_vps_cost _ _ _ this, of 512 buf_size] assms(2) show ?thesis
    by (auto simp: write_vps_def bs_emit_def)
qed

lemma validate_facts:
  assumes "validate_picture_parameters pp iq p = Ok rps"
  shows "p = 1 \<or> p = 2" and "unat (chroma_format_idc pp) < 3"
    and "pcm_enabled_flag pp \<Longrightarrow> unat (pcm_sample_bit_depth_luma_minus1 pp) \<le> 15 \<and>
      unat (pcm_sample_bit_depth_chroma_minus1 pp) \<le> 15"
    and "unat (num_extra_slice_header_bits pp) < 8" and "scaling_list_enabled_flag pp \<Longrightarrow> iq \<noteq> None"
proof -
  note b = validate_basic [OF assms]
  have "(p = 1 \<or> p = 2) \<and> \<not> (scaling_list_enabled_flag pp \<and> iq = None)"
    using b unfolding basic_params_ok_def by blast
  then show "p = 1 \<or> p = 2" "scaling_list_enabled_flag pp \<Longrightarrow> iq \<noteq> None" by auto
  have "chroma_format_idc pp = 1" using b unfolding basic_params_ok_def by blast
  then show "unat (chroma_format_idc pp) < 3" by simp
  have "validate_slice_syntax_bounds pp" using b unfolding basic_params_ok_def by blast
  then show "unat (num_extra_slice_header_bits pp) < 8"
    unfolding validate_slice_syntax_bounds_def by (simp add: word_less_nat_alt)
  show "unat (pcm_sample_bit_depth_luma_minus1 pp) \<le> 15 \<and> unat (pcm_sample_bit_depth_chroma_minus1 pp) \<le> 15"
    if "pcm_enabled_flag pp"
    using assms that by (auto simp: validate_picture_parameters_def word_less_nat_alt)
qed

lemma write_sps_holds:
  assumes "validate_picture_parameters pp iq p = Ok rps" and "430 \<le> buf_size"
  shows "\<exists>out. write_sps buf_size pp p = Some out \<and> nal_holds dec_hevc_sps (hevc_sps_info_of pp p) out \<and>
    length out \<le> 430"
proof -
  have "dec_hevc_sps (ops_bits (hevc_sps_ops pp p) @ t) = Some (hevc_sps_info_of pp p, t)" for t
    by (rule dec_hevc_sps_ops) (use validate_facts(1-3) [OF assms(1)] in auto)
  from emit_holds [OF hevc_sps_cost _ _ _ this, of 32768 buf_size] assms(2) show ?thesis
    by (auto simp: write_sps_def bs_emit_def HEVC_RAW_NAL_CAPACITY_def)
qed

lemma write_pps_run:
  assumes "tiles_enabled_flag pp \<Longrightarrow> tile_spacing_is_uniform pp = Ok u" and "u \<or> tiles_enabled_flag pp"
    and "scaling_list_enabled_flag pp \<Longrightarrow> iq \<noteq> None"
  shows "write_pps buf_size pp iq pps_id =
    (if scaling_list_enabled_flag pp \<and> \<not> dc_coded (the iq) then Fail
     else of_opt (finish_nal buf_size (bs_emit HEVC_RAW_NAL_CAPACITY (hevc_pps_ops pp iq pps_id u))))"
proof -
  have "(if tiles_enabled_flag pp then tile_spacing_is_uniform pp else Ok True) = Ok u"
    using assms(1,2) by auto
  then show ?thesis
    using assms(3)
    by (auto simp: write_pps_def Let_def write_scaling_lists_def scaling_loop_run dc_coded_def of_opt_def
        hevc_pps_ops_def hevc_scaling_ops_def bs_emit_def bs_run_append split: option.splits)
qed

definition pps_uniform :: "VAPictureParameterBufferHEVC \<Rightarrow> bool" where
  "pps_uniform pp \<longleftrightarrow> (if tiles_enabled_flag pp then tile_spacing_is_uniform pp = Ok True else True)"

lemma pps_uniform_run:
  assumes "hevc_pp_wf pp" and "basic_params_ok pp iq p"
  shows "tiles_enabled_flag pp \<Longrightarrow> tile_spacing_is_uniform pp = Ok (pps_uniform pp)"
    and "pps_uniform pp \<or> tiles_enabled_flag pp"
  using tile_spacing_safe [OF assms] by (auto simp: pps_uniform_def)

lemma write_pps_holds:
  assumes "hevc_pp_wf pp" and "validate_picture_parameters pp iq p = Ok rps" and "6800 \<le> buf_size"
    and "scaling_list_enabled_flag pp \<Longrightarrow> dc_coded (the iq)"
  shows "\<exists>out. write_pps buf_size pp iq pps_id = Ok out \<and>
    nal_holds dec_hevc_pps (hevc_pps_info_of pp iq pps_id (pps_uniform pp)) out \<and> length out \<le> 6800"
proof -
  note b = validate_basic [OF assms(2)]
  note bb = basic_bounds(2,3) [OF b]
  note f = validate_facts(4,5) [OF assms(2)]
  let ?ops = "hevc_pps_ops pp iq pps_id (pps_uniform pp)"
  have "dec_hevc_pps (ops_bits ?ops @ t) = Some (hevc_pps_info_of pp iq pps_id (pps_uniform pp), t)" for t
    by (rule dec_hevc_pps_ops) (use assms(1) bb f in \<open>auto simp: hevc_pp_wf_def\<close>)
  from emit_holds [OF hevc_pps_cost [OF bb] _ _ _ this, of 32768 buf_size] assms(3) obtain out
    where "finish_nal buf_size (bs_emit 32768 ?ops) = Some out"
      "nal_holds dec_hevc_pps (hevc_pps_info_of pp iq pps_id (pps_uniform pp)) out" "length out \<le> 6800"
    by auto
  with write_pps_run [OF pps_uniform_run [OF assms(1) b] f(2), of buf_size pps_id] assms(4) show ?thesis
    by (auto simp: HEVC_RAW_NAL_CAPACITY_def of_opt_def)
qed

lemma write_sequence_holds:
  assumes "validate_picture_parameters pp iq p = Ok rps" and "640 \<le> buf_size"
  shows "\<exists>vps sps. write_sequence_parameter_sets buf_size pp p = Some (vps @ sps) \<and>
    nal_holds dec_vps (hevc_vps_info_of pp p) vps \<and> nal_holds dec_hevc_sps (hevc_sps_info_of pp p) sps \<and>
    length vps + length sps \<le> 630"
proof -
  obtain vps where v: "write_vps buf_size pp p = Some vps" "nal_holds dec_vps (hevc_vps_info_of pp p) vps"
    "length vps \<le> 200"
    using write_vps_holds [OF validate_facts(1) [OF assms(1)], of buf_size pp] assms(2) by auto
  obtain sps where s: "write_sps (buf_size - length vps) pp p = Some sps"
    "nal_holds dec_hevc_sps (hevc_sps_info_of pp p) sps" "length sps \<le> 430"
  proof -
    have "430 \<le> buf_size - length vps" using assms(2) v(3) by linarith
    from write_sps_holds [OF assms(1) this] that show thesis by blast
  qed
  show ?thesis
    using v s by (intro exI [of _ vps] exI [of _ sps])
      (simp add: write_sequence_parameter_sets_def INT_MAX_def)
qed

lemma finish_nal_size: "finish_nal buf_size raw = Some out \<Longrightarrow> length out \<le> buf_size"
  using hevc_esc.esc_bounded [of raw "buf_size - 4"]
  by (auto simp: finish_nal_def Let_def split: if_splits)

lemma write_pps_safe:
  assumes "hevc_pp_wf pp" and "validate_picture_parameters pp iq p = Ok rps"
  shows "write_pps buf_size pp iq pps_id \<noteq> Fault"
  using write_pps_run [OF pps_uniform_run [OF assms(1) validate_basic [OF assms(2)]]
      validate_facts(5) [OF assms(2)], of buf_size pps_id]
  by (auto simp: of_opt_def split: option.splits)

text \<open>The tile sizes a decoder derives when the spacing is uniform (clause 6.5.1).\<close>

definition uniform_sizes :: "nat \<Rightarrow> nat \<Rightarrow> nat list" where
  "uniform_sizes ctb_count n = map (\<lambda>i. (i + 1) * ctb_count div (n + 1) - i * ctb_count div (n + 1)) [0..<n]"

lemma uniform_loop_sizes:
  "uniform_loop sizes c k is = Ok True \<Longrightarrow>
     map (\<lambda>i. unat (sizes ! i) + 1) is = map (\<lambda>i. (i + 1) * c div k - i * c div k) is"
  by (induction "is") (auto simp: Let_def split: if_splits)

lemma pps_uniform_sizes:
  assumes "hevc_pp_wf pp" and "basic_params_ok pp iq p" and "tiles_enabled_flag pp" and "pps_uniform pp"
  shows "uniform_sizes (ctbs (pic_width_in_luma_samples pp) (2 ^ ctb_log2_of pp)) (unat (num_tile_columns_minus1 pp)) =
      map (\<lambda>w. unat w + 1) (take (unat (num_tile_columns_minus1 pp)) (column_width_minus1 pp))"
    and "uniform_sizes (ctbs (pic_height_in_luma_samples pp) (2 ^ ctb_log2_of pp)) (unat (num_tile_rows_minus1 pp)) =
      map (\<lambda>w. unat w + 1) (take (unat (num_tile_rows_minus1 pp)) (row_height_minus1 pp))"
proof -
  have l: "unat (num_tile_columns_minus1 pp) \<le> length (column_width_minus1 pp)"
    "unat (num_tile_rows_minus1 pp) \<le> length (row_height_minus1 pp)"
    using assms(1) basic_bounds(2,3) [OF assms(2)] by (auto simp: hevc_pp_wf_def)
  let ?n = "unat (num_tile_columns_minus1 pp)" and ?m = "unat (num_tile_rows_minus1 pp)"
  let ?w = "ctbs (pic_width_in_luma_samples pp) (2 ^ ctb_log2_of pp)"
  let ?h = "ctbs (pic_height_in_luma_samples pp) (2 ^ ctb_log2_of pp)"
  have "ctb_log2_of pp < 32" using basic_bounds(1) [OF assms(2)] by simp
  then have "obind (uniform_loop (column_width_minus1 pp) ?w (?n + 1) [0..<?n]) (\<lambda>ok.
      if \<not> ok then Ok False else uniform_loop (row_height_minus1 pp) ?h (?m + 1) [0..<?m]) = Ok True"
    using assms(3,4) by (simp only: pps_uniform_def tile_spacing_is_uniform_def hevc_ctb_size_def
        shift_one_def Let_def if_True obind.simps)
  then have u: "uniform_loop (column_width_minus1 pp) ?w (?n + 1) [0..<?n] = Ok True"
    "uniform_loop (row_height_minus1 pp) ?h (?m + 1) [0..<?m] = Ok True"
    unfolding obind_Ok_iff by (auto split: if_splits)
  show "uniform_sizes ?w ?n = map (\<lambda>w. unat w + 1) (take ?n (column_width_minus1 pp))"
    using uniform_loop_sizes [OF u(1)] map_nth_upt [OF l(1), of "\<lambda>w. unat w + 1"]
    by (simp only: uniform_sizes_def)
  show "uniform_sizes ?h ?m = map (\<lambda>w. unat w + 1) (take ?m (row_height_minus1 pp))"
    using uniform_loop_sizes [OF u(2)] map_nth_upt [OF l(2), of "\<lambda>w. unat w + 1"]
    by (simp only: uniform_sizes_def)
qed

section \<open>Properties\<close>

definition sample_pic :: VAPictureHEVC where
  "sample_pic = \<lparr>picture_id = Some 1, pic_order_cnt = 8, flag_invalid = False, flag_field_pic = False,
     flag_long_term_reference = False, flag_rps_st_curr_before = False, flag_rps_st_curr_after = False,
     flag_rps_lt_curr = False\<rparr>"

definition sample_refs :: "VAPictureHEVC list" where
  "sample_refs = [sample_pic\<lparr>pic_order_cnt := 4, flag_rps_st_curr_before := True\<rparr>,
     sample_pic\<lparr>pic_order_cnt := 16, flag_rps_st_curr_after := True\<rparr>, sample_pic\<lparr>pic_order_cnt := 6\<rparr>] @
     replicate 12 (sample_pic\<lparr>picture_id := None\<rparr>)"

definition sample_hevc :: VAPictureParameterBufferHEVC where
  "sample_hevc = \<lparr>CurrPic = sample_pic, ReferenceFrames = sample_refs,
     pic_width_in_luma_samples = 1920, pic_height_in_luma_samples = 1088, chroma_format_idc = 1,
     separate_colour_plane_flag = False, pcm_enabled_flag = False, scaling_list_enabled_flag = True,
     transform_skip_enabled_flag = True, amp_enabled_flag = True,
     strong_intra_smoothing_enabled_flag = True, sign_data_hiding_enabled_flag = True,
     constrained_intra_pred_flag = False, cu_qp_delta_enabled_flag = True, weighted_pred_flag = False,
     weighted_bipred_flag = False, transquant_bypass_enabled_flag = False, tiles_enabled_flag = True,
     entropy_coding_sync_enabled_flag = False, pps_loop_filter_across_slices_enabled_flag = True,
     loop_filter_across_tiles_enabled_flag = True, pcm_loop_filter_disabled_flag = False,
     NoPicReorderingFlag = False, sps_max_dec_pic_buffering_minus1 = 4, bit_depth_luma_minus8 = 2,
     bit_depth_chroma_minus8 = 2, pcm_sample_bit_depth_luma_minus1 = 0,
     pcm_sample_bit_depth_chroma_minus1 = 0, log2_min_luma_coding_block_size_minus3 = 0,
     log2_diff_max_min_luma_coding_block_size = 3, log2_min_transform_block_size_minus2 = 0,
     log2_diff_max_min_transform_block_size = 3, log2_min_pcm_luma_coding_block_size_minus3 = 0,
     log2_diff_max_min_pcm_luma_coding_block_size = 0, max_transform_hierarchy_depth_intra = 1,
     max_transform_hierarchy_depth_inter = 1, init_qp_minus26 = - 30, diff_cu_qp_delta_depth = 1,
     pps_cb_qp_offset = - 2, pps_cr_qp_offset = 2, log2_parallel_merge_level_minus2 = 0,
     num_tile_columns_minus1 = 1, num_tile_rows_minus1 = 0, column_width_minus1 = 14 # replicate 18 0,
     row_height_minus1 = replicate 21 0, lists_modification_present_flag = False,
     long_term_ref_pics_present_flag = True, sps_temporal_mvp_enabled_flag = True,
     cabac_init_present_flag = False, output_flag_present_flag = False,
     dependent_slice_segments_enabled_flag = False, pps_slice_chroma_qp_offsets_present_flag = False,
     sample_adaptive_offset_enabled_flag = True, deblocking_filter_override_enabled_flag = False,
     pps_disable_deblocking_filter_flag = False, slice_segment_header_extension_present_flag = False,
     log2_max_pic_order_cnt_lsb_minus4 = 4, num_short_term_ref_pic_sets = 1,
     num_long_term_ref_pic_sps = 0, num_ref_idx_l0_default_active_minus1 = 1,
     num_ref_idx_l1_default_active_minus1 = 0, pps_beta_offset_div2 = 1, pps_tc_offset_div2 = - 1,
     num_extra_slice_header_bits = 0, st_rps_bits = 9\<rparr>"

definition sample_hevc_iq :: VAIQMatrixBufferHEVC where
  "sample_hevc_iq = \<lparr>ScalingList4x4 = replicate 6 (replicate 16 16), ScalingList8x8 = replicate 6 (replicate 64 20),
     ScalingList16x16 = replicate 6 (replicate 64 24), ScalingList32x32 = replicate 2 (replicate 64 200),
     ScalingListDC16x16 = replicate 6 16, ScalingListDC32x32 = replicate 2 255\<rparr>"

lemma sample_hevc_wf: "hevc_pp_wf sample_hevc"
  by (simp add: hevc_pp_wf_def sample_hevc_def sample_refs_def)

lemma collect_loop_invalid:
  "\<not> valid_picture x \<Longrightarrow> collect_loop c rps (replicate n x) = Some rps"
  by (induction n) (simp_all add: collect_ref_def)

lemma sample_hevc_rps:
  "map_option (map (unat \<circ> delta) \<circ> negative) (collect_rps sample_hevc) = Some [2, 4]"
  by (simp add: collect_rps_def sample_hevc_def sample_refs_def sample_pic_def collect_ref_def Let_def
      valid_picture_def HEVC_MAX_RPS_REFS_def collect_loop_invalid short_term_entry_def
      sort_entries_def)

lemma sample_hevc_valid: "\<exists>rps. validate_picture_parameters sample_hevc (Some sample_hevc_iq) 2 = Ok rps"
proof -
  have "case validate_picture_parameters sample_hevc (Some sample_hevc_iq) 2 of Ok rps \<Rightarrow> True | _ \<Rightarrow> False"
    by code_simp
  then show ?thesis by (auto split: outcome.splits)
qed



lemma parameter_sets_no_fault:
  assumes "hevc_pp_wf pp"
  shows "rk_hevc_write_parameter_sets buf_size pp iq pps_id p \<noteq> Fault \<and>
    rk_hevc_write_picture_parameter_set buf_size pp iq pps_id p \<noteq> Fault \<and>
    rk_hevc_write_sequence_parameter_sets buf_size pp iq p \<noteq> Fault"
  using validate_safe [OF assms] write_pps_safe [OF assms]
  by (auto simp: rk_hevc_write_parameter_sets_def rk_hevc_write_picture_parameter_set_def
      rk_hevc_write_sequence_parameter_sets_def of_opt_def guard_else_fail_def
      split: option.splits if_splits)



text \<open>
  When the PPS announces uniform tile spacing, the column widths and row heights that a
  decoder derives are exactly the ones of the picture parameters.
\<close>

theorem hevc_uniform_tiles_exact:
  assumes "hevc_pp_wf pp" and "validate_picture_parameters pp iq p = Ok rps"
    and "tiles_enabled_flag pp" and "pps_uniform pp"
  shows "uniform_sizes (ctbs (pic_width_in_luma_samples pp) (2 ^ ctb_log2_of pp)) (unat (num_tile_columns_minus1 pp)) =
      map (\<lambda>w. unat w + 1) (take (unat (num_tile_columns_minus1 pp)) (column_width_minus1 pp)) \<and>
    uniform_sizes (ctbs (pic_height_in_luma_samples pp) (2 ^ ctb_log2_of pp)) (unat (num_tile_rows_minus1 pp)) =
      map (\<lambda>w. unat w + 1) (take (unat (num_tile_rows_minus1 pp)) (row_height_minus1 pp))"
  using pps_uniform_sizes [OF assms(1) validate_basic [OF assms(2)] assms(3,4)] by blast

theorem hevc_uniform_tiles_exact_witness:
  "uniform_sizes (ctbs (pic_width_in_luma_samples sample_hevc) (2 ^ ctb_log2_of sample_hevc))
     (unat (num_tile_columns_minus1 sample_hevc)) = [15]"
proof -
  obtain rps where rps: "validate_picture_parameters sample_hevc (Some sample_hevc_iq) 2 = Ok rps"
    using sample_hevc_valid by blast
  have "tile_spacing_is_uniform sample_hevc = Ok True" by code_simp
  then have "pps_uniform sample_hevc" "tiles_enabled_flag sample_hevc"
    by (simp_all add: pps_uniform_def, simp add: sample_hevc_def)
  from hevc_uniform_tiles_exact [OF sample_hevc_wf rps this(2,1)] show ?thesis
    by (simp add: sample_hevc_def)
qed

text \<open>
  The collected reference picture set has at most fifteen entries, holds only valid
  pictures, and each short-term list is ordered by increasing distance from the current
  picture with every distance in the range 1 to 65535.
\<close>

theorem hevc_collected_rps_ordered:
  assumes "collect_rps pp = Some rps"
  shows "rps_wf rps \<and> by_delta (negative rps) \<and> by_delta (positive rps)"
  using collect_rps_wf [OF assms] by simp

theorem hevc_collected_rps_ordered_witness:
  "\<exists>rps. collect_rps sample_hevc = Some rps \<and> rps_wf rps \<and> by_delta (negative rps) \<and>
     map (unat \<circ> delta) (negative rps) = [2, 4]"
proof -
  obtain rps where rps: "collect_rps sample_hevc = Some rps"
      "(map (unat \<circ> delta) \<circ> negative) rps = [2, 4]"
    using sample_hevc_rps unfolding map_option_eq_Some by blast
  show ?thesis
    by (rule exI [of _ rps]) (use hevc_collected_rps_ordered [OF rps(1)] rps in \<open>simp only: o_apply simp_thms\<close>)
qed

end
