(* ===== verification/HEVC_Slice.thy ===== *)
theory HEVC_Slice
  imports HEVC_Sets "HOL-Library.Signed_Division"
begin

text \<open>
  The slice functions of \<open>src/hevc.c\<close>: the bit reader, the identification of a slice
  (\<open>rk_hevc_parse_slice_info\<close>) and the rewriting of a slice header so that it carries its
  reference picture set explicitly (\<open>rk_hevc_rewrite_slice_nal\<close>). VA-API hides the reference
  picture set tables of the original SPS, so the driver replaces the set in every slice header.

  A reader is an array, the number of valid bytes and a bit cursor; a read outside the array is
  a \<open>Fault\<close>. Sizes are naturals: \<open>rk_hevc_rewrite_slice_nal\<close> bounds them by \<open>INT_MAX\<close>. The two
  \<open>malloc\<close> calls of the rewriter are the argument \<open>alloc_ok\<close>.
\<close>

unbundle bit_operations_syntax

section \<open>Bit reader\<close>

record HEVCBitReader =
  br_data :: "u8 list"
  br_size :: nat
  br_bit :: nat

text \<open>The expression \<open>(src[bit / 8] >> (7 - bit % 8)) & 1\<close>.\<close>

definition bit_at :: "u8 list \<Rightarrow> nat \<Rightarrow> u32 outcome" where
  "bit_at src b = (if b div 8 < length src
     then Ok (ucast (drop_bit (7 - b mod 8) (src ! (b div 8))) AND 1) else Fault)"

definition br_read_bit :: "HEVCBitReader \<Rightarrow> (u32 \<times> HEVCBitReader) outcome" where
  "br_read_bit br =
     guard_else_fail (\<not> br_bit br \<ge> br_size br * 8)
       (obind (bit_at (br_data br) (br_bit br)) (\<lambda>v. Ok (v, br\<lparr>br_bit := br_bit br + 1\<rparr>)))"

text \<open>
  The loop that counts the leading zeros of \<open>br_read_ue\<close>; the argument is the number of further
  zeros allowed before the thirty-second one makes the function fail.
\<close>

fun ue_zeros :: "nat \<Rightarrow> HEVCBitReader \<Rightarrow> (nat \<times> HEVCBitReader) outcome" where
  "ue_zeros left br =
     obind (br_read_bit br) (\<lambda>(v, br).
       if v \<noteq> 0 then Ok (0, br)
       else case left of 0 \<Rightarrow> Fail
            | Suc left \<Rightarrow> obind (ue_zeros left br) (\<lambda>(zeros, br). Ok (zeros + 1, br)))"

fun br_shift_in :: "HEVCBitReader \<Rightarrow> nat \<Rightarrow> u32 \<Rightarrow> (u32 \<times> HEVCBitReader) outcome" where
  "br_shift_in br 0 out = Ok (out, br)"
| "br_shift_in br (Suc n) out =
     obind (br_read_bit br) (\<lambda>(v, br). br_shift_in br n (push_bit 1 out OR v))"

definition br_read_ue :: "HEVCBitReader \<Rightarrow> (u32 \<times> HEVCBitReader) outcome" where
  "br_read_ue br =
     obind (ue_zeros 31 br) (\<lambda>(zeros, br).
     obind (br_shift_in br zeros 0) (\<lambda>(suffix, br).
       Ok ((if zeros = 31 then - 1 else push_bit zeros 1 - 1) + suffix, br)))"

definition br_read_bits :: "HEVCBitReader \<Rightarrow> nat \<Rightarrow> (u32 \<times> HEVCBitReader) outcome" where
  "br_read_bits br cnt =
     guard_else_fail (\<not> (cnt > 32 \<or> br_bit br > br_size br * 8 \<or> cnt > br_size br * 8 - br_bit br))
       (br_shift_in br cnt 0)"

definition br_skip_bits :: "HEVCBitReader \<Rightarrow> nat \<Rightarrow> HEVCBitReader outcome" where
  "br_skip_bits br cnt =
     guard_else_fail (\<not> (br_bit br > br_size br * 8 \<or> cnt > br_size br * 8 - br_bit br))
       (Ok (br\<lparr>br_bit := br_bit br + cnt\<rparr>))"

text \<open>The loop \<open>while (max) { bits++; max >>= 1; }\<close>.\<close>

function log2_loop :: "u32 \<Rightarrow> nat \<Rightarrow> nat" where
  "log2_loop m bits = (if m \<noteq> 0 then log2_loop (drop_bit 1 m) (bits + 1) else bits)"
  by auto
termination
proof (relation "measure (\<lambda>(m, bits). unat m)")
  fix m :: u32 and bits :: nat
  assume "m \<noteq> 0"
  then have "0 < unat m" by (simp add: unat_gt_0)
  then show "((drop_bit 1 m, bits + 1), (m, bits)) \<in> measure (\<lambda>(m, bits). unat m)"
    by (simp add: unat_drop_bit_eq drop_bit_eq_div unat_div)
qed simp

declare log2_loop.simps [simp del]

definition ceil_log2_u32 :: "u32 \<Rightarrow> nat" where
  "ceil_log2_u32 value = log2_loop (if value > 0 then value - 1 else 0) 0"

section \<open>Slice identification\<close>

record RKHEVCSliceInfo =
  nal_unit_type :: u8
  temporal_id_plus1 :: u8
  slice_pps_id :: u8
  first_slice_segment_in_pic :: bool

definition nal_type_of :: "u8 list \<Rightarrow> u8" where
  "nal_type_of nal = drop_bit 1 (nal ! 0) AND 0x3f"

text \<open>Types 16 to 23 are the intra random access points, whose slices carry one more flag.\<close>

definition irap_flag :: "u8 \<Rightarrow> HEVCBitReader \<Rightarrow> (u32 \<times> HEVCBitReader) outcome" where
  "irap_flag nal_type br =
     (if nal_type \<ge> 16 \<and> nal_type \<le> 23 then br_read_bit br else Ok (0, br))"

definition rk_hevc_parse_slice_info :: "u8 list \<Rightarrow> RKHEVCSliceInfo outcome" where
  "rk_hevc_parse_slice_info data =
     (let offset = nal_offset data
      in guard_else_fail (\<not> length data - offset < 3)
      (let nal = drop offset data
       in guard_else_fail (\<not> nal ! 0 AND 0x80 \<noteq> 0)
       (let nal_type = nal_type_of nal; tid = nal ! 1 AND 7
        in guard_else_fail (\<not> (nal_type > 31 \<or> tid = 0))
        (let rbsp = unescape_prefix (drop 2 nal) 128
         in obind (br_read_bit \<lparr>br_data = rbsp, br_size = length rbsp, br_bit = 0\<rparr>) (\<lambda>(first, br).
            obind (irap_flag nal_type br) (\<lambda>(_, br).
            obind (br_read_ue br) (\<lambda>(pps_id, br).
              guard_else_fail (\<not> pps_id > 63)
                (Ok \<lparr>nal_unit_type = nal_type, temporal_id_plus1 = tid,
                     slice_pps_id = ucast pps_id, first_slice_segment_in_pic = (first \<noteq> 0)\<rparr>))))))))"

section \<open>Writing a reference picture set\<close>

fun st_entry_ops :: "u32 \<Rightarrow> HEVCRPSEntry list \<Rightarrow> wop list" where
  "st_entry_ops previous [] = []"
| "st_entry_ops previous (e # es) =
     UE (delta e - previous - 1) # W (of_bool (used e)) 1 # st_entry_ops (delta e) es"

definition write_short_term_rps :: "HEVCRPS \<Rightarrow> nat \<Rightarrow> wop list" where
  "write_short_term_rps rps index =
     (if index > 0 then [W 0 1] else []) @
     [UE (of_nat (length (negative rps))), UE (of_nat (length (positive rps)))] @
     st_entry_ops 0 (negative rps) @ st_entry_ops 0 (positive rps)"

definition poc_bits_of :: "VAPictureParameterBufferHEVC \<Rightarrow> nat" where
  "poc_bits_of pp = unat (log2_max_pic_order_cnt_lsb_minus4 pp) + 4"

text \<open>
  One long-term entry at a time, with the running cycle count of the previous entry. The signed
  64-bit quotient truncates toward zero; none of its operands exceeds 34 bits.
\<close>

fun lt_entry_ops :: "nat \<Rightarrow> int \<Rightarrow> u32 \<Rightarrow> int \<Rightarrow> HEVCRPSEntry list \<Rightarrow> wop list option" where
  "lt_entry_ops poc_bits current_poc poc_lsb previous_msb [] = Some []"
| "lt_entry_ops poc_bits current_poc poc_lsb previous_msb (e # es) =
     (let max_poc_lsb = 2 ^ poc_bits;
          ref_poc = sint (poc e);
          ref_lsb = poc e AND mask poc_bits;
          msb = (uint ref_lsb + current_poc - uint poc_lsb - ref_poc) sdiv max_poc_lsb
      in if msb < 0 \<or> msb < previous_msb then None
         else let d = msb - previous_msb
         in if d > 4294967295 then None
            else map_option (\<lambda>ops. W ref_lsb poc_bits # W (of_bool (used e)) 1 # W 1 1 #
                   UE (word_of_int d) # ops)
                 (lt_entry_ops poc_bits current_poc poc_lsb msb es))"

definition write_long_term_rps ::
    "HEVCRPS \<Rightarrow> VAPictureParameterBufferHEVC \<Rightarrow> u32 \<Rightarrow> wop list option" where
  "write_long_term_rps rps pp poc_lsb =
     (if \<not> long_term_ref_pics_present_flag pp then Some []
      else map_option (\<lambda>ops. UE (of_nat (length (long_term rps))) # ops)
             (lt_entry_ops (poc_bits_of pp) (sint (pic_order_cnt (CurrPic pp))) poc_lsb 0
               (long_term rps)))"

section \<open>Copying and skipping\<close>

fun copy_loop :: "BSWriter \<Rightarrow> u8 list \<Rightarrow> nat list \<Rightarrow> BSWriter outcome" where
  "copy_loop bs src [] = Ok bs"
| "copy_loop bs src (b # rest) =
     obind (bit_at src b) (\<lambda>v. copy_loop (bs_write1 bs v) src rest)"

definition copy_bits :: "BSWriter \<Rightarrow> u8 list \<Rightarrow> nat \<Rightarrow> nat \<Rightarrow> BSWriter outcome" where
  "copy_bits bs src start_bit end_bit =
     guard_else_fail (\<not> start_bit > end_bit) (copy_loop bs src [start_bit..<end_bit])"

primrec find_align :: "u8 list \<Rightarrow> nat \<Rightarrow> nat \<Rightarrow> nat outcome" where
  "find_align rbsp rps_end_bit 0 = Fail"
| "find_align rbsp rps_end_bit (Suc candidate) =
     (if Suc candidate > rps_end_bit
      then obind (bit_at rbsp candidate) (\<lambda>v.
             if v \<noteq> 0 then Ok candidate else find_align rbsp rps_end_bit candidate)
      else Fail)"

definition find_byte_alignment_start :: "u8 list \<Rightarrow> nat \<Rightarrow> nat \<Rightarrow> nat outcome" where
  "find_byte_alignment_start rbsp rps_end_bit slice_data_bit =
     guard_else_fail (\<not> rps_end_bit > slice_data_bit) (find_align rbsp rps_end_bit slice_data_bit)"

definition skip_short_term_rps ::
    "HEVCBitReader \<Rightarrow> VAPictureParameterBufferHEVC \<Rightarrow> HEVCBitReader outcome" where
  "skip_short_term_rps br pp =
     obind (br_read_bit br) (\<lambda>(flag, br).
       if flag = 0 then br_skip_bits br (unat (st_rps_bits pp))
       else if num_short_term_ref_pic_sets pp = 0 then Fail
       else br_skip_bits br (ceil_log2_u32 (ucast (num_short_term_ref_pic_sets pp))))"

fun skip_lt_loop ::
    "nat \<Rightarrow> nat \<Rightarrow> u32 \<Rightarrow> HEVCBitReader \<Rightarrow> nat list \<Rightarrow> HEVCBitReader outcome" where
  "skip_lt_loop idx_bits poc_bits num_lt_sps br [] = Ok br"
| "skip_lt_loop idx_bits poc_bits num_lt_sps br (i # is) =
     obind (if i < unat num_lt_sps then br_skip_bits br idx_bits
            else br_skip_bits br (poc_bits + 1)) (\<lambda>br.
     obind (br_read_bit br) (\<lambda>(delta_present, br).
     obind (if delta_present \<noteq> 0 then br_read_ue br else Ok (0, br)) (\<lambda>(_, br).
       skip_lt_loop idx_bits poc_bits num_lt_sps br is)))"

text \<open>The result is the reader, \<open>*lt_verbatim_bit\<close> and \<open>*lt_verbatim\<close>.\<close>

definition skip_original_rps ::
    "HEVCBitReader \<Rightarrow> VAPictureParameterBufferHEVC \<Rightarrow> (HEVCBitReader \<times> nat \<times> bool) outcome" where
  "skip_original_rps br pp =
     obind (skip_short_term_rps br pp) (\<lambda>br.
       if long_term_ref_pics_present_flag pp
       then obind (if num_long_term_ref_pic_sps pp > 0 then br_read_ue br else Ok (0, br)) (\<lambda>(num_lt_sps, br).
         let lt_verbatim_bit = br_bit br
         in obind (br_read_ue br) (\<lambda>(num_lt_pics, br).
              guard_else_fail (\<not> (num_lt_sps > ucast (num_long_term_ref_pic_sps pp) \<or>
                  unat (num_lt_sps + num_lt_pics) > HEVC_MAX_RPS_REFS))
                (obind (skip_lt_loop (ceil_log2_u32 (ucast (num_long_term_ref_pic_sps pp)))
                         (poc_bits_of pp) num_lt_sps br [0..<unat (num_lt_sps + num_lt_pics)]) (\<lambda>br.
                   Ok (br, lt_verbatim_bit, num_lt_sps = 0)))))
       else Ok (br, 0, False))"

section \<open>Rewriting a slice\<close>

record VASliceParameterBufferHEVC =
  slice_data_byte_offset :: u32

text \<open>
  The slice segment header up to \<open>slice_segment_address\<close>: whether the segment depends on the
  previous one, and the reader behind the address.
\<close>

definition slice_start ::
    "u8 \<Rightarrow> VAPictureParameterBufferHEVC \<Rightarrow> HEVCBitReader \<Rightarrow> (bool \<times> HEVCBitReader) outcome" where
  "slice_start nal_type pp br =
     obind (br_read_bit br) (\<lambda>(first_slice, br).
     obind (irap_flag nal_type br) (\<lambda>(_, br).
     obind (br_read_ue br) (\<lambda>(_, br).
       if first_slice \<noteq> 0 then Ok (False, br)
       else obind (if dependent_slice_segments_enabled_flag pp then br_read_bit br else Ok (0, br)) (\<lambda>(dependent, br).
         obind (hevc_ctb_size pp) (\<lambda>ctb_size.
         obind (br_skip_bits br (ceil_log2_u32
             (of_nat (ctbs (pic_width_in_luma_samples pp) ctb_size) *
              of_nat (ctbs (pic_height_in_luma_samples pp) ctb_size)))) (\<lambda>br.
           Ok (dependent \<noteq> 0, br)))))))"

fun skip_extra_bits :: "nat \<Rightarrow> HEVCBitReader \<Rightarrow> HEVCBitReader outcome" where
  "skip_extra_bits 0 br = Ok br"
| "skip_extra_bits (Suc n) br = obind (br_read_bit br) (\<lambda>(_, br). skip_extra_bits n br)"

text \<open>The header fields between the address and the reference picture set; the result is \<open>poc_lsb\<close>.\<close>

definition slice_poc ::
    "VAPictureParameterBufferHEVC \<Rightarrow> HEVCBitReader \<Rightarrow> (u32 \<times> HEVCBitReader) outcome" where
  "slice_poc pp br =
     obind (skip_extra_bits (unat (num_extra_slice_header_bits pp)) br) (\<lambda>br.
     obind (br_read_ue br) (\<lambda>(_, br).
     obind (if output_flag_present_flag pp then br_read_bit br else Ok (0, br)) (\<lambda>(_, br).
     obind (if separate_colour_plane_flag pp then br_skip_bits br 2 else Ok br) (\<lambda>br.
       br_read_bits br (poc_bits_of pp)))))"

definition emit_ops :: "BSWriter \<Rightarrow> wop list option \<Rightarrow> BSWriter outcome" where
  "emit_ops bs ops = (case ops of None \<Rightarrow> Fail | Some ops \<Rightarrow> Ok (bs_run bs ops))"

text \<open>
  The rest of the header and the slice data. With slice parameters the header is closed by a
  fresh byte alignment and the slice data starts at a byte boundary; the result is the writer
  and \<open>suffix_start\<close>.
\<close>

definition realign ::
    "BSWriter \<Rightarrow> u8 list \<Rightarrow> nat \<Rightarrow> VASliceParameterBufferHEVC option \<Rightarrow> (BSWriter \<times> nat) outcome" where
  "realign bs rbsp rps_end sp =
     (case sp of
        Some sp \<Rightarrow>
          if unat (slice_data_byte_offset sp) \<ge> 2
          then let slice_data_bit = (unat (slice_data_byte_offset sp) - 2) * 8
               in guard_else_fail (\<not> slice_data_bit > length rbsp * 8)
                  (obind (find_byte_alignment_start rbsp rps_end slice_data_bit) (\<lambda>align_start.
                   obind (copy_bits bs rbsp rps_end align_start) (\<lambda>bs.
                     Ok (bs_align (bs_write1 bs 1), slice_data_bit))))
          else Ok (bs, rps_end)
      | None \<Rightarrow> Ok (bs, rps_end))"

definition rewrite_header ::
    "nat \<Rightarrow> u8 list \<Rightarrow> VAPictureParameterBufferHEVC \<Rightarrow> VASliceParameterBufferHEVC option \<Rightarrow>
     u32 \<Rightarrow> HEVCBitReader \<Rightarrow> BSWriter outcome" where
  "rewrite_header cap rbsp pp sp poc_lsb br =
     obind (skip_original_rps br pp) (\<lambda>(br', lt_verbatim_bit, lt_verbatim).
     obind (of_opt (collect_rps pp)) (\<lambda>rps.
     obind (copy_bits (bs_init cap) rbsp 0 (br_bit br)) (\<lambda>bs.
     obind (let bs = bs_run bs (W 0 1 # write_short_term_rps rps 0)
            in if lt_verbatim then copy_bits bs rbsp lt_verbatim_bit (br_bit br')
               else emit_ops bs (write_long_term_rps rps pp poc_lsb)) (\<lambda>bs.
     obind (realign bs rbsp (br_bit br') sp) (\<lambda>(bs, suffix_start).
       copy_bits bs rbsp suffix_start (length rbsp * 8))))))"

text \<open>
  Packing of the result behind the original start code and NAL header. \<open>emulation_prevent\<close> gets
  the space left in the caller's buffer.
\<close>

definition pack_slice :: "nat \<Rightarrow> u8 list \<Rightarrow> nat \<Rightarrow> u8 list \<Rightarrow> u8 list outcome" where
  "pack_slice buf_size data prefix rewritten =
     guard_else_fail (\<not> buf_size < prefix + 2)
       (let head = take prefix data @ [data ! prefix, data ! (prefix + 1)];
            escaped = emulation_prevent rewritten (buf_size - length head)
        in guard_else_fail (\<not> (length escaped = 0 \<or> length escaped > INT_MAX - length head))
             (Ok (head @ escaped)))"

definition rk_hevc_rewrite_slice_nal ::
    "bool \<Rightarrow> nat \<Rightarrow> u8 list \<Rightarrow> VAPictureParameterBufferHEVC \<Rightarrow> VASliceParameterBufferHEVC option \<Rightarrow>
     u8 list outcome" where
  "rk_hevc_rewrite_slice_nal alloc_ok buf_size data pp sp =
     guard_else_fail (validate_slice_syntax_bounds pp)
     (let prefix = nal_offset data
      in guard_else_fail (\<not> (length data - prefix < 3 \<or> length data > INT_MAX))
      (let nal = drop prefix data; nal_type = nal_type_of nal
       in guard_else_fail (\<not> (nal ! 0 AND 0x80 \<noteq> 0 \<or> nal_type > 31 \<or> nal ! 1 AND 7 = 0))
       (if nal_type = 19 \<or> nal_type = 20
        then guard_else_fail (\<not> buf_size < length data) (Ok data)
        else guard_else_fail alloc_ok
          (let rbsp = unescape_prefix (drop 2 nal) (length nal)
           in obind (slice_start nal_type pp \<lparr>br_data = rbsp, br_size = length rbsp, br_bit = 0\<rparr>) (\<lambda>(dependent, br).
              if dependent
              then guard_else_fail (\<not> buf_size < length data) (Ok data)
              else obind (slice_poc pp br) (\<lambda>(poc_lsb, br).
                   obind (rewrite_header (length nal + 4096) rbsp pp sp poc_lsb br) (\<lambda>bs.
                     pack_slice buf_size data prefix (bs_payload bs))))))))"


section \<open>The reader as a bit list\<close>

definition br_wf :: "HEVCBitReader \<Rightarrow> bool" where
  "br_wf br \<longleftrightarrow> br_size br = length (br_data br) \<and> br_bit br \<le> 8 * br_size br"

definition br_rest :: "HEVCBitReader \<Rightarrow> bool list" where
  "br_rest br = drop (br_bit br) (bytes_bits (br_data br))"

text \<open>A later state of the same reader.\<close>

definition br_adv :: "HEVCBitReader \<Rightarrow> HEVCBitReader \<Rightarrow> bool" where
  "br_adv br br' \<longleftrightarrow> br_wf br' \<and> br_data br' = br_data br \<and> br_bit br \<le> br_bit br'"

lemma br_adv_refl: "br_wf br \<Longrightarrow> br_adv br br"
  by (simp add: br_adv_def)

lemma br_adv_trans [trans]: "br_adv a b \<Longrightarrow> br_adv b c \<Longrightarrow> br_adv a c"
  by (auto simp: br_adv_def)

lemma br_adv_wf: "br_adv a b \<Longrightarrow> br_wf b"
  by (simp add: br_adv_def)

lemma bit_at_value: "b < 8 * length src \<Longrightarrow> bit_at src b = Ok (of_bool (bytes_bits src ! b))"
  by (auto simp: bit_at_def nth_bytes_bits ucast_bit_and_1 less_mult_imp_div_less mult.commute)

lemma br_read_bit_Nil: "br_wf br \<Longrightarrow> br_rest br = [] \<Longrightarrow> br_read_bit br = Fail"
  by (simp add: br_read_bit_def br_rest_def br_wf_def mult.commute)

lemma br_read_bit_Cons:
  assumes "br_wf br" and "br_rest br = b # bs"
  shows "\<exists>br'. br_read_bit br = Ok (of_bool b, br') \<and> br_adv br br' \<and> br_rest br' = bs"
proof -
  have lt: "br_bit br < 8 * length (br_data br)"
    using assms by (cases "br_bit br < 8 * length (br_data br)") (auto simp: br_rest_def)
  then have "bytes_bits (br_data br) ! br_bit br = b" "drop (Suc (br_bit br)) (bytes_bits (br_data br)) = bs"
    using assms(2) by (simp_all add: br_rest_def drop_eq_Cons_nth)
  with lt assms(1) show ?thesis
    by (auto simp: br_read_bit_def br_wf_def bit_at_value br_adv_def br_rest_def mult.commute)
qed

text \<open>The triple of a reading function: no fault, and the reader only moves forward.\<close>

abbreviation reads :: "HEVCBitReader \<Rightarrow> ('a \<times> HEVCBitReader) outcome \<Rightarrow> bool" where
  "reads br m \<equiv> outcome_sat m (\<lambda>(v, br'). br_adv br br')"

abbreviation skips :: "HEVCBitReader \<Rightarrow> HEVCBitReader outcome \<Rightarrow> bool" where
  "skips br m \<equiv> outcome_sat m (br_adv br)"

lemma br_read_bit_reads: "br_wf br \<Longrightarrow> reads br (br_read_bit br)"
  by (cases "br_rest br") (auto simp: br_read_bit_Nil dest: br_read_bit_Cons)

lemma reads_bind:
  assumes "reads br m" and "\<And>v br'. br_wf br' \<Longrightarrow> reads br' (f v br')"
  shows "reads br (obind m (case_prod f))"
  using assms(1) by (rule outcome_sat_bind)
    (auto intro: outcome_sat_mono [OF assms(2)] br_adv_trans dest: br_adv_wf)

lemma skips_bind:
  assumes "skips br m" and "\<And>br'. br_wf br' \<Longrightarrow> reads br' (f br')"
  shows "reads br (obind m f)"
  using assms(1) by (rule outcome_sat_bind)
    (auto intro: outcome_sat_mono [OF assms(2)] br_adv_trans dest: br_adv_wf)

lemma reads_bind_skips:
  assumes "reads br m" and "\<And>v br'. br_wf br' \<Longrightarrow> skips br' (f v br')"
  shows "skips br (obind m (case_prod f))"
  using assms(1) by (rule outcome_sat_bind)
    (auto intro: outcome_sat_mono [OF assms(2)] br_adv_trans dest: br_adv_wf)

lemma skips_bind_skips:
  assumes "skips br m" and "\<And>br'. br_wf br' \<Longrightarrow> skips br' (f br')"
  shows "skips br (obind m f)"
  using assms(1) by (rule outcome_sat_bind)
    (auto intro: outcome_sat_mono [OF assms(2)] br_adv_trans dest: br_adv_wf)

lemma reads_Ok: "br_wf br \<Longrightarrow> reads br (Ok (v, br))"
  by (simp add: br_adv_refl)

lemma skips_Ok: "br_wf br \<Longrightarrow> skips br (Ok br)"
  by (simp add: br_adv_refl)

lemma reads_if: "(b \<Longrightarrow> outcome_sat m P) \<Longrightarrow> (\<not> b \<Longrightarrow> outcome_sat n P) \<Longrightarrow> outcome_sat (if b then m else n) P"
  by simp

lemma sat_guardI: "(b \<Longrightarrow> outcome_sat m P) \<Longrightarrow> outcome_sat (guard_else_fail b m) P"
  by simp

lemma reads_Fail: "outcome_sat Fail P"
  by simp

lemmas reads_intros = reads_bind skips_bind reads_bind_skips skips_bind_skips reads_Ok skips_Ok
  reads_if reads_Fail br_read_bit_reads

lemma ue_zeros_reads: "br_wf br \<Longrightarrow> reads br (ue_zeros n br)"
proof (induction n arbitrary: br)
  case 0
  then show ?case
    by (subst ue_zeros.simps) (intro reads_intros; simp)
next
  case (Suc n)
  show ?case
    by (subst ue_zeros.simps, unfold nat.case) (intro reads_intros Suc)
qed

lemma br_shift_in_reads: "br_wf br \<Longrightarrow> reads br (br_shift_in br n out)"
proof (induction n arbitrary: br out)
  case (Suc n)
  show ?case unfolding br_shift_in.simps by (intro reads_intros Suc)
qed (simp add: br_adv_refl)

lemma br_read_ue_reads: "br_wf br \<Longrightarrow> reads br (br_read_ue br)"
  unfolding br_read_ue_def by (intro reads_intros ue_zeros_reads br_shift_in_reads)

lemma br_read_bits_reads: "br_wf br \<Longrightarrow> reads br (br_read_bits br n)"
  by (simp add: br_read_bits_def br_shift_in_reads)

lemma br_skip_bits_skips: "br_wf br \<Longrightarrow> skips br (br_skip_bits br n)"
  by (auto simp: br_skip_bits_def br_adv_def br_wf_def)

lemmas br_reads = br_read_bit_reads br_read_ue_reads br_read_bits_reads br_skip_bits_skips

section \<open>Safety of the header scan\<close>

lemma irap_flag_reads: "br_wf br \<Longrightarrow> reads br (irap_flag t br)"
  unfolding irap_flag_def by (intro reads_intros)

lemma skip_short_term_rps_skips: "br_wf br \<Longrightarrow> skips br (skip_short_term_rps br pp)"
  unfolding skip_short_term_rps_def by (intro reads_intros br_reads)

lemma skip_lt_loop_skips: "br_wf br \<Longrightarrow> skips br (skip_lt_loop ib pb n br is)"
proof (induction "is" arbitrary: br)
  case (Cons i "is")
  show ?case unfolding skip_lt_loop.simps by (intro reads_intros br_reads Cons)
qed (simp add: br_adv_refl)

lemma skip_extra_bits_skips: "br_wf br \<Longrightarrow> skips br (skip_extra_bits n br)"
proof (induction n arbitrary: br)
  case (Suc n)
  show ?case unfolding skip_extra_bits.simps by (intro reads_intros Suc)
qed (simp add: br_adv_refl)

lemma slice_poc_reads: "br_wf br \<Longrightarrow> reads br (slice_poc pp br)"
  unfolding slice_poc_def by (intro reads_intros br_reads skip_extra_bits_skips)

lemma slice_bounds_ctb: "validate_slice_syntax_bounds pp \<Longrightarrow> hevc_ctb_size pp = Ok (2 ^ ctb_log2_of pp)"
  by (simp add: validate_slice_syntax_bounds_def hevc_ctb_size_def shift_one_def)

lemma slice_start_reads:
  assumes "validate_slice_syntax_bounds pp" and "br_wf br"
  shows "reads br (slice_start t pp br)"
  unfolding slice_start_def slice_bounds_ctb [OF assms(1)] obind.simps
  by (intro reads_intros br_reads irap_flag_reads assms(2))

text \<open>
  The reused long-term section lies between the end of the short-term set and the end of the
  whole set.
\<close>

definition rps_span :: "HEVCBitReader \<Rightarrow> HEVCBitReader \<times> nat \<times> bool \<Rightarrow> bool" where
  "rps_span br r = (case r of (br', ltb, v) \<Rightarrow>
     br_adv br br' \<and> (v \<longrightarrow> br_bit br \<le> ltb \<and> ltb \<le> br_bit br'))"

lemma rps_span_later: "br_adv a b \<Longrightarrow> outcome_sat m (rps_span b) \<Longrightarrow> outcome_sat m (rps_span a)"
  by (erule outcome_sat_mono) (auto simp: rps_span_def br_adv_def)

lemma reads_bind_sat:
  "reads br m \<Longrightarrow> (\<And>v br'. br_adv br br' \<Longrightarrow> br_wf br' \<Longrightarrow> outcome_sat (f v br') Q) \<Longrightarrow>
     outcome_sat (obind m (case_prod f)) Q"
  by (erule outcome_sat_bind) (auto dest: br_adv_wf)

lemma skips_bind_sat:
  "skips br m \<Longrightarrow> (\<And>br'. br_adv br br' \<Longrightarrow> br_wf br' \<Longrightarrow> outcome_sat (f br') Q) \<Longrightarrow>
     outcome_sat (obind m f) Q"
  by (erule outcome_sat_bind) (auto dest: br_adv_wf)

lemma skip_original_rps_span:
  assumes "br_wf br"
  shows "outcome_sat (skip_original_rps br pp) (rps_span br)"
  unfolding skip_original_rps_def Let_def
proof (rule skips_bind_sat [OF skip_short_term_rps_skips [OF assms]], rule reads_if)
  fix br1 assume 1: "br_adv br br1" "br_wf br1"
  then show "outcome_sat (Ok (br1, 0, False)) (rps_span br)" by (simp add: rps_span_def)
  let ?n = "\<lambda>a b. unat (a + b :: u32)"
  show "outcome_sat (obind (if num_long_term_ref_pic_sps pp > 0 then br_read_ue br1 else Ok (0, br1)) (\<lambda>(num_lt_sps, br).
      obind (br_read_ue br) (\<lambda>(num_lt_pics, br'). guard_else_fail (\<not> (num_lt_sps > ucast (num_long_term_ref_pic_sps pp) \<or>
          ?n num_lt_sps num_lt_pics > HEVC_MAX_RPS_REFS))
        (obind (skip_lt_loop (ceil_log2_u32 (ucast (num_long_term_ref_pic_sps pp))) (poc_bits_of pp) num_lt_sps br'
          [0..<?n num_lt_sps num_lt_pics]) (\<lambda>br''. Ok (br'', br_bit br, num_lt_sps = 0)))))) (rps_span br)"
  proof (rule reads_bind_sat)
    show "reads br1 (if num_long_term_ref_pic_sps pp > 0 then br_read_ue br1 else Ok (0, br1))"
      using 1 by (intro reads_intros br_reads)
  next
    fix a br2 assume 2: "br_adv br1 br2" "br_wf br2"
    show "outcome_sat (obind (br_read_ue br2) (\<lambda>(b, br'). guard_else_fail (\<not> (a > ucast (num_long_term_ref_pic_sps pp) \<or>
          ?n a b > HEVC_MAX_RPS_REFS)) (obind (skip_lt_loop (ceil_log2_u32 (ucast (num_long_term_ref_pic_sps pp)))
          (poc_bits_of pp) a br' [0..<?n a b]) (\<lambda>br''. Ok (br'', br_bit br2, a = 0))))) (rps_span br)"
      by (rule reads_bind_sat [OF br_read_ue_reads [OF 2(2)]], unfold outcome_sat_guard, rule impI,
          rule skips_bind_sat [OF skip_lt_loop_skips], assumption)
        (use 1 2 in \<open>auto simp: rps_span_def br_adv_def\<close>)
  qed
qed

section \<open>Copying\<close>

text \<open>A writer of \<open>cap\<close> bytes that holds \<open>bits\<close>, as far as they fit.\<close>

definition bs_has :: "nat \<Rightarrow> bool list \<Rightarrow> BSWriter \<Rightarrow> bool" where
  "bs_has cap bits bs \<longleftrightarrow> bs_wf bs \<and> bs_capacity bs = cap \<and> bs_bits bs = fit_bits cap bits"

lemma bs_has_init [simp]: "bs_has cap [] (bs_init cap)"
  by (simp add: bs_has_def fit_bits_def)

lemma bs_has_run: "bs_has cap bits bs \<Longrightarrow> bs_has cap (bits @ ops_bits ops) (bs_run bs ops)"
  by (simp add: bs_has_def bs_run_bits)

lemma bs_has_write1: "bs_has cap bits bs \<Longrightarrow> bs_has cap (bits @ [bit v 0]) (bs_write1 bs v)"
  by (simp add: bs_has_def bs_write1_bits)

lemma copy_loop_has:
  "bs_has cap bits bs \<Longrightarrow> list_all (\<lambda>b. b < 8 * length src) is \<Longrightarrow>
     \<exists>bs'. copy_loop bs src is = Ok bs' \<and> bs_has cap (bits @ map ((!) (bytes_bits src)) is) bs'"
proof (induction "is" arbitrary: bs bits)
  case (Cons i "is")
  then have "bs_has cap (bits @ [bytes_bits src ! i]) (bs_write1 bs (of_bool (bytes_bits src ! i)))"
    using bs_has_write1 [of cap bits bs "of_bool (bytes_bits src ! i)"] by simp
  from Cons.IH [OF this] Cons.prems show ?case by (simp add: bit_at_value)
qed auto

lemma copy_bits_has:
  assumes "bs_has cap bits bs" and "s \<le> e" and "e \<le> 8 * length src"
  shows "\<exists>bs'. copy_bits bs src s e = Ok bs' \<and> bs_has cap (bits @ bits_between s e (bytes_bits src)) bs'"
proof -
  have "map ((!) (bytes_bits src)) [s..<e] = bits_between s e (bytes_bits src)"
    using assms(2,3) by (intro nth_equalityI) (auto simp: bits_between_def)
  with copy_loop_has [OF assms(1), of src "[s..<e]"] assms(2,3) show ?thesis
    by (simp add: copy_bits_def list_all_iff not_less)
qed

lemma find_align_sat:
  "b \<le> 8 * length src \<Longrightarrow> outcome_sat (find_align src lo b) (\<lambda>a. lo \<le> a \<and> a < b)"
  by (induction b) (auto simp: bit_at_value outcome_sat_alt)

lemma find_align_bits:
  "find_align src lo b = Ok a \<Longrightarrow> b \<le> 8 * length src \<Longrightarrow>
     bytes_bits src ! a \<and> bits_between (Suc a) b (bytes_bits src) = replicate (b - Suc a) False"
proof (induction b)
  case (Suc b)
  show ?case
  proof (cases "bytes_bits src ! b")
    case True
    with Suc.prems show ?thesis by (auto simp: bit_at_value split: if_splits)
  next
    case False
    with Suc.prems have r: "find_align src lo b = Ok a" by (auto simp: bit_at_value split: if_splits)
    then have "a < b" using find_align_sat [of b src lo] Suc.prems by simp
    moreover have "bits_between (Suc a) (Suc b) (bytes_bits src) =
        bits_between (Suc a) b (bytes_bits src) @ [bytes_bits src ! b]"
      using \<open>a < b\<close> Suc.prems(2)
      by (simp add: bits_between_def Suc_diff_Suc [symmetric] take_Suc_conv_app_nth)
    ultimately show ?thesis
      using Suc.IH [OF r] Suc.prems(2) False
      by (simp add: Suc_diff_Suc [symmetric] replicate_append_same)
  qed
qed simp

section \<open>Size of the written reference picture set\<close>

lemma st_entry_cost: "sum_list (map op_cost (st_entry_ops p es)) = 64 * length es"
  by (induction es arbitrary: p) simp_all

lemma lt_entry_cost:
  "lt_entry_ops pb c l m es = Some ops \<Longrightarrow> sum_list (map op_cost ops) = (65 + pb) * length es"
  by (induction es arbitrary: m ops) (auto simp: Let_def split: if_splits)

lemma short_term_length: "rps_wf rps \<Longrightarrow> length (ops_bits (write_short_term_rps rps 0)) \<le> 1086"
  using length_ops_bits_cost [of "write_short_term_rps rps 0"]
  by (simp add: write_short_term_rps_def st_entry_cost rps_wf_def)

lemma slice_bounds_poc: "validate_slice_syntax_bounds pp \<Longrightarrow> poc_bits_of pp \<le> 16"
  by (simp add: validate_slice_syntax_bounds_def poc_bits_of_def word_less_nat_alt)

lemma long_term_length:
  assumes "rps_wf rps" and "validate_slice_syntax_bounds pp" and "write_long_term_rps rps pp l = Some ops"
  shows "length (ops_bits ops) \<le> 1278"
proof -
  have "(65 + poc_bits_of pp) * length (long_term rps) \<le> 81 * 15"
    using assms(1) slice_bounds_poc [OF assms(2)] by (intro mult_le_mono) (simp_all add: rps_wf_def)
  then have "sum_list (map op_cost ops) \<le> 1278"
    using assms(3) by (auto simp: write_long_term_rps_def lt_entry_cost split: if_splits)
  with length_ops_bits_cost [of ops] show ?thesis by linarith
qed

section \<open>The rewritten header\<close>

lemma bs_has_close:
  assumes "bs_has cap bits bs" and "length bits + 8 \<le> 8 * cap"
  shows "bs_has cap (bits @ True # pad_bits (Suc (length bits))) (bs_align (bs_write1 bs 1))"
proof -
  have 1: "bs_has cap (bits @ [True]) (bs_write1 bs 1)" using bs_has_write1 [OF assms(1), of 1] by simp
  then have "bs_bits (bs_write1 bs 1) = bits @ [True]"
    using assms(2) by (simp add: bs_has_def fit_bits_id)
  with bs_align_aligned [of "bs_write1 bs 1"] 1 assms(2)
  have "bs_bits (bs_align (bs_write1 bs 1)) = bits @ True # pad_bits (Suc (length bits))"
    "bs_wf (bs_align (bs_write1 bs 1))" "bs_capacity (bs_align (bs_write1 bs 1)) = cap"
    by (simp_all add: bs_aligned_to_def bs_has_def)
  moreover have "length (pad_bits (Suc (length bits))) \<le> 7" by (simp add: pad_bits_def)
  then have "length (bits @ True # pad_bits (Suc (length bits))) \<le> 8 * cap" using assms(2) by simp
  ultimately show ?thesis by (simp add: bs_has_def fit_bits_id del: length_append)
qed

text \<open>
  What closes the header after \<open>n\<close> bits: with slice parameters the remaining header bits up to
  the original stop bit, a new stop bit and zeros to the next byte boundary, and the slice data
  begins at the announced byte; without them nothing, and the copy goes on behind the set.
\<close>

definition closes ::
    "bool list \<Rightarrow> nat \<Rightarrow> VASliceParameterBufferHEVC option \<Rightarrow> nat \<Rightarrow> bool list \<Rightarrow> nat \<Rightarrow> bool" where
  "closes R rps_end sp n ext ss \<longleftrightarrow>
     (if \<exists>p. sp = Some p \<and> 2 \<le> unat (slice_data_byte_offset p)
      then ss = (unat (slice_data_byte_offset (the sp)) - 2) * 8 \<and>
        (\<exists>a. rps_end \<le> a \<and> a < ss \<and> R ! a \<and> bits_between (Suc a) ss R = replicate (ss - Suc a) False \<and>
           ext = bits_between rps_end a R @ True # pad_bits (Suc (n + (a - rps_end))))
      else ss = rps_end \<and> ext = [])"

lemma realign_sat:
  assumes "bs_has cap bits bs" and "e \<le> 8 * length rbsp" and "length bits + (8 * length rbsp - e) + 8 \<le> 8 * cap"
  shows "outcome_sat (realign bs rbsp e sp) (\<lambda>(bs', ss). ss \<le> 8 * length rbsp \<and>
    (\<exists>ext. bs_has cap (bits @ ext) bs' \<and> closes (bytes_bits rbsp) e sp (length bits) ext ss))"
proof (cases "\<exists>p. sp = Some p \<and> 2 \<le> unat (slice_data_byte_offset p)")
  case False
  with assms show ?thesis by (auto simp: realign_def closes_def split: option.splits)
next
  case True
  then obtain p where p: "sp = Some p" "2 \<le> unat (slice_data_byte_offset p)" by blast
  let ?d = "(unat (slice_data_byte_offset p) - 2) * 8" and ?R = "bytes_bits rbsp"
  have step: "outcome_sat (obind (copy_bits bs rbsp e a) (\<lambda>bs. Ok (bs_align (bs_write1 bs 1), ?d)))
      (\<lambda>(bs', ss). ss \<le> 8 * length rbsp \<and> (\<exists>ext. bs_has cap (bits @ ext) bs' \<and> closes ?R e sp (length bits) ext ss))"
    if d: "?d \<le> 8 * length rbsp" and a: "find_align rbsp e ?d = Ok a" for a
  proof -
    have "e \<le> a" "a < ?d" using find_align_sat [OF d, of e] a by simp_all
    with d obtain bs1 where bs1: "copy_bits bs rbsp e a = Ok bs1"
        "bs_has cap (bits @ bits_between e a ?R) bs1"
      using copy_bits_has [OF assms(1), of e a rbsp] by auto
    have "length (bits @ bits_between e a ?R) + 8 \<le> 8 * cap"
      using \<open>a < ?d\<close> d assms(3) by simp
    from bs_has_close [OF bs1(2) this] \<open>e \<le> a\<close> \<open>a < ?d\<close> d find_align_bits [OF a d] show ?thesis
      unfolding bs1(1) obind.simps outcome_sat.simps prod.case
      by (intro conjI exI [of _ "bits_between e a ?R @ True # pad_bits (Suc (length bits + (a - e)))"])
        (auto simp: closes_def p)
  qed
  show ?thesis
    unfolding realign_def p option.case if_P [OF p(2)] Let_def find_byte_alignment_start_def
      outcome_sat_guard
    by (intro impI outcome_sat_bind [where P = "\<lambda>a. find_align rbsp e ?d = Ok a"])
      (use step find_align_sat [of ?d rbsp e] p in \<open>auto simp: outcome_sat_alt mult.commute\<close>)
qed

text \<open>The long-term section of the new header: reused bits of the slice, or newly written ones.\<close>

definition lt_section ::
    "bool list \<Rightarrow> VAPictureParameterBufferHEVC \<Rightarrow> HEVCRPS \<Rightarrow> u32 \<Rightarrow> HEVCBitReader \<times> nat \<times> bool \<Rightarrow> bool list \<Rightarrow> bool" where
  "lt_section R pp rps poc_lsb r lt = (case r of (br', ltb, v) \<Rightarrow>
     if v then lt = bits_between ltb (br_bit br') R
     else \<exists>ops. write_long_term_rps rps pp poc_lsb = Some ops \<and> lt = ops_bits ops)"

lemma lt_section_write:
  assumes "bs_has cap bits bs" and "rps_span br r" and "br_data br = rbsp"
  shows "outcome_sat (case r of (br', ltb, v) \<Rightarrow>
      if v then copy_bits bs rbsp ltb (br_bit br') else emit_ops bs (write_long_term_rps rps pp l))
    (\<lambda>bs'. \<exists>lt. lt_section (bytes_bits rbsp) pp rps l r lt \<and> bs_has cap (bits @ lt) bs')"
proof -
  obtain br' ltb v where r: "r = (br', ltb, v)" by (cases r)
  show ?thesis
  proof (cases v)
    case True
    then have "ltb \<le> br_bit br'" "br_bit br' \<le> 8 * length rbsp"
      using assms(2,3) by (auto simp: r rps_span_def br_adv_def br_wf_def)
    with copy_bits_has [OF assms(1)] True show ?thesis by (fastforce simp: r lt_section_def)
  next
    case False
    with bs_has_run [OF assms(1)] show ?thesis
      by (auto simp: r lt_section_def emit_ops_def split: option.splits)
  qed
qed

lemma lt_section_length:
  assumes "rps_wf rps" and "validate_slice_syntax_bounds pp" and "rps_span br r"
    and "lt_section (bytes_bits (br_data br)) pp rps l r lt"
  shows "length lt \<le> 1278 + (br_bit (fst r) - br_bit br)"
  using assms long_term_length [OF assms(1,2)]
  by (auto simp: lt_section_def rps_span_def br_adv_def br_wf_def split: prod.splits if_splits)
    fastforce

definition new_header ::
    "VAPictureParameterBufferHEVC \<Rightarrow> VASliceParameterBufferHEVC option \<Rightarrow> u32 \<Rightarrow> HEVCBitReader \<Rightarrow>
     HEVCRPS \<Rightarrow> bool list \<Rightarrow> nat \<Rightarrow> bool" where
  "new_header pp sp poc_lsb br rps hdr ss \<longleftrightarrow>
     (\<exists>r lt ext. skip_original_rps br pp = Ok r \<and> lt_section (bytes_bits (br_data br)) pp rps poc_lsb r lt \<and>
        closes (bytes_bits (br_data br)) (br_bit (fst r)) sp
          (br_bit br + 1 + length (ops_bits (write_short_term_rps rps 0)) + length lt) ext ss \<and>
        hdr = take (br_bit br) (bytes_bits (br_data br)) @ False #
          ops_bits (write_short_term_rps rps 0) @ lt @ ext)"

definition rewritten_as ::
    "nat \<Rightarrow> u8 list \<Rightarrow> VAPictureParameterBufferHEVC \<Rightarrow> VASliceParameterBufferHEVC option \<Rightarrow> u32 \<Rightarrow>
     HEVCBitReader \<Rightarrow> BSWriter \<Rightarrow> bool" where
  "rewritten_as cap rbsp pp sp l br bs \<longleftrightarrow> (\<exists>rps hdr ss. collect_rps pp = Some rps \<and>
     new_header pp sp l br rps hdr ss \<and> ss \<le> 8 * length rbsp \<and>
     bs_has cap (hdr @ drop ss (bytes_bits rbsp)) bs)"

lemma rewrite_tail_sat:
  assumes "validate_slice_syntax_bounds pp" and "br_wf br" and "br_data br = rbsp"
    and "length rbsp + 4096 \<le> cap" and rps: "collect_rps pp = Some rps"
    and r: "skip_original_rps br pp = Ok (br', ltb, v)" and span: "rps_span br (br', ltb, v)"
  shows "outcome_sat (obind (copy_bits (bs_init cap) rbsp 0 (br_bit br)) (\<lambda>bs.
      obind (let bs = bs_run bs (W 0 1 # write_short_term_rps rps 0)
             in if v then copy_bits bs rbsp ltb (br_bit br') else emit_ops bs (write_long_term_rps rps pp l)) (\<lambda>bs.
      obind (realign bs rbsp (br_bit br') sp) (\<lambda>(bs, ss). copy_bits bs rbsp ss (length rbsp * 8)))))
    (rewritten_as cap rbsp pp sp l br)"
proof -
  have le: "br_bit br \<le> 8 * length rbsp" using assms(2,3) by (simp add: br_wf_def)
  let ?R = "bytes_bits rbsp"
  let ?st = "ops_bits (write_short_term_rps rps 0)"
  let ?pre = "take (br_bit br) ?R @ False # ?st"
  note wf = collect_rps_wf(1) [OF rps]
  obtain bs0 where bs0: "copy_bits (bs_init cap) rbsp 0 (br_bit br) = Ok bs0" "bs_has cap (take (br_bit br) ?R) bs0"
    using copy_bits_has [OF bs_has_init, of 0 "br_bit br" rbsp cap] le by auto
  have bs1: "bs_has cap ?pre (bs_run bs0 (W 0 1 # write_short_term_rps rps 0))"
    using bs_has_run [OF bs0(2), of "W 0 1 # write_short_term_rps rps 0"] by simp
  have adv: "br_bit br \<le> br_bit br'" "br_bit br' \<le> 8 * length rbsp"
    using span assms(3) by (auto simp: rps_span_def br_adv_def br_wf_def)
  show ?thesis
    unfolding bs0(1) obind.simps Let_def
  proof (rule outcome_sat_bind [OF lt_section_write [OF bs1 span assms(3), of rps pp l, unfolded prod.case]], elim exE conjE)
    fix bs2 lt assume lt: "lt_section ?R pp rps l (br', ltb, v) lt" and bs2: "bs_has cap (?pre @ lt) bs2"
    have "length lt \<le> 1278 + (br_bit br' - br_bit br)"
      using lt_section_length [OF wf assms(1) span] lt assms(3) by simp
    with adv short_term_length [OF wf] assms(4)
    have room: "length (?pre @ lt) + (8 * length rbsp - br_bit br') + 8 \<le> 8 * cap" by simp
    show "outcome_sat (obind (realign bs2 rbsp (br_bit br') sp) (\<lambda>(bs, ss). copy_bits bs rbsp ss (length rbsp * 8))) (rewritten_as cap rbsp pp sp l br)"
    proof (rule outcome_sat_bind [OF realign_sat [OF bs2 adv(2) room]], clarify)
      fix bs3 ss ext assume ss: "ss \<le> 8 * length rbsp" and bs3: "bs_has cap ((?pre @ lt) @ ext) bs3"
        and cl: "closes ?R (br_bit br') sp (length (?pre @ lt)) ext ss"
      have "new_header pp sp l br rps ((?pre @ lt) @ ext) ss"
        unfolding new_header_def
        by (rule exI [of _ "(br', ltb, v)"], rule exI [of _ lt], rule exI [of _ ext])
          (use r lt cl le assms(3) in \<open>simp add: add.assoc\<close>)
      moreover have "bits_between ss (length rbsp * 8) ?R = drop ss ?R"
        by (simp add: bits_between_def mult.commute)
      ultimately show "outcome_sat (copy_bits bs3 rbsp ss (length rbsp * 8)) (rewritten_as cap rbsp pp sp l br)"
        using copy_bits_has [OF bs3, of ss "length rbsp * 8" rbsp] ss rps
        by (fastforce simp: rewritten_as_def)
    qed
  qed
qed

lemma rewrite_header_sat:
  assumes "validate_slice_syntax_bounds pp" and "br_wf br" and "br_data br = rbsp"
    and "length rbsp + 4096 \<le> cap"
  shows "outcome_sat (rewrite_header cap rbsp pp sp l br) (rewritten_as cap rbsp pp sp l br)"
  unfolding rewrite_header_def
  by (rule outcome_sat_bind [where P = "\<lambda>r. skip_original_rps br pp = Ok r \<and> rps_span br r"])
    (use skip_original_rps_span [OF assms(2), of pp] rewrite_tail_sat [OF assms] in
      \<open>auto simp: outcome_sat_alt of_opt_def split: option.splits\<close>)

text \<open>The reader over the payload of a slice NAL unit.\<close>

abbreviation slice_rbsp :: "u8 list \<Rightarrow> u8 list" where
  "slice_rbsp data \<equiv> unescape 0 (drop (nal_offset data + 2) data)"

abbreviation slice_reader :: "u8 list \<Rightarrow> HEVCBitReader" where
  "slice_reader data \<equiv> \<lparr>br_data = slice_rbsp data, br_size = length (slice_rbsp data), br_bit = 0\<rparr>"

lemma slice_reader_wf: "br_wf (slice_reader data)"
  by (simp add: br_wf_def)

lemma pack_slice_sat:
  "outcome_sat (pack_slice n data prefix raw) (\<lambda>out.
     out = take prefix data @ [data ! prefix, data ! (prefix + 1)] @ escape 0 raw)"
  using hevc_esc.esc_cases [of raw] by (auto simp: pack_slice_def Let_def)

definition slice_rewritten ::
    "u8 list \<Rightarrow> VAPictureParameterBufferHEVC \<Rightarrow> VASliceParameterBufferHEVC option \<Rightarrow> u8 list \<Rightarrow> bool" where
  "slice_rewritten data pp sp out \<longleftrightarrow>
     (\<exists>br0 l br bs. slice_start (nal_type_of (drop (nal_offset data) data)) pp (slice_reader data) = Ok (False, br0) \<and>
        slice_poc pp br0 = Ok (l, br) \<and>
        rewritten_as (length data - nal_offset data + 4096) (slice_rbsp data) pp sp l br bs \<and>
        out = take (nal_offset data) data @ [data ! nal_offset data, data ! (nal_offset data + 1)] @
          escape 0 (bs_payload bs))"

lemma slice_start_same:
  "br_wf br \<Longrightarrow> validate_slice_syntax_bounds pp \<Longrightarrow> slice_start t pp br = Ok (d, br') \<Longrightarrow> br_adv br br'"
  using slice_start_reads [of pp br t] by simp

lemma rewrite_body_sat:
  assumes v: "validate_slice_syntax_bounds pp"
    and s: "slice_start (nal_type_of (drop (nal_offset data) data)) pp (slice_reader data) = Ok (False, br0)"
  shows "outcome_sat (obind (slice_poc pp br0) (\<lambda>(l, br).
      obind (rewrite_header (length data - nal_offset data + 4096) (slice_rbsp data) pp sp l br) (\<lambda>bs.
        pack_slice buf_size data (nal_offset data) (bs_payload bs)))) (slice_rewritten data pp sp)"
proof (rule outcome_sat_bind [where P = "\<lambda>(l, br). slice_poc pp br0 = Ok (l, br) \<and> br_adv br0 br"], goal_cases)
  case 1
  have "br_wf br0" using slice_start_same [OF slice_reader_wf v s] by (rule br_adv_wf)
  then show ?case using slice_poc_reads [of br0 pp] by (auto simp: outcome_sat_alt)
next
  case (2 x)
  then obtain l br where x: "x = (l, br)" "slice_poc pp br0 = Ok (l, br)" "br_adv br0 br" by auto
  with slice_start_same [OF slice_reader_wf v s] have br: "br_wf br" "br_data br = slice_rbsp data"
    by (auto simp: br_adv_def)
  have cap: "length (slice_rbsp data) + 4096 \<le> length data - nal_offset data + 4096"
    using length_unescape_le [of 0 "drop (nal_offset data + 2) data"] by simp
  show ?case unfolding x prod.case
    by (rule outcome_sat_bind [OF rewrite_header_sat [OF v br cap]], rule outcome_sat_mono [OF pack_slice_sat])
      (use s x in \<open>auto simp: slice_rewritten_def\<close>)
qed

lemma slice_unescape_prefix:
  "unescape_prefix (drop 2 (drop (nal_offset data) data)) (length (drop (nal_offset data) data)) = slice_rbsp data"
  by (simp add: unescape_prefix_full add.commute)

text \<open>
  The rewriter behind its guards, and its result: a slice that needs no rewriting is returned
  as it is, any other is rewritten.
\<close>

definition slice_unchanged :: "u8 list \<Rightarrow> VAPictureParameterBufferHEVC \<Rightarrow> bool" where
  "slice_unchanged data pp \<longleftrightarrow> nal_type_of (drop (nal_offset data) data) \<in> {19, 20} \<or>
     (\<exists>br. slice_start (nal_type_of (drop (nal_offset data) data)) pp (slice_reader data) = Ok (True, br))"

definition slice_result ::
    "u8 list \<Rightarrow> VAPictureParameterBufferHEVC \<Rightarrow> VASliceParameterBufferHEVC option \<Rightarrow> u8 list \<Rightarrow> bool" where
  "slice_result data pp sp out \<longleftrightarrow>
     (if slice_unchanged data pp then out = data else slice_rewritten data pp sp out)"

lemma rewrite_scan_sat:
  assumes v: "validate_slice_syntax_bounds pp" and t: "nal_type_of (drop (nal_offset data) data) \<notin> {19, 20}"
  shows "outcome_sat (obind (slice_start (nal_type_of (drop (nal_offset data) data)) pp (slice_reader data)) (\<lambda>(dependent, br0).
      if dependent then guard_else_fail (\<not> buf_size < length data) (Ok data)
      else obind (slice_poc pp br0) (\<lambda>(l, br).
        obind (rewrite_header (length data - nal_offset data + 4096) (slice_rbsp data) pp sp l br) (\<lambda>bs.
        pack_slice buf_size data (nal_offset data) (bs_payload bs))))) (slice_result data pp sp)"
proof (rule outcome_sat_bind [where P = "\<lambda>r. slice_start (nal_type_of (drop (nal_offset data) data)) pp (slice_reader data) = Ok r"], goal_cases)
  case 1
  show ?case using slice_start_reads [OF v slice_reader_wf] by (auto simp: outcome_sat_alt)
next
  case (2 x)
  then obtain d br0 where x: "x = (d, br0)"
    "slice_start (nal_type_of (drop (nal_offset data) data)) pp (slice_reader data) = Ok (d, br0)"
    by (cases x) auto
  show ?case
  proof (cases d)
    case True
    with x show ?thesis by (simp add: slice_result_def slice_unchanged_def)
  next
    case False
    have "\<not> slice_unchanged data pp" using x False t by (simp add: slice_unchanged_def)
    then show ?thesis
      unfolding x(1) prod.case if_not_P [OF False]
      by (intro outcome_sat_mono [OF rewrite_body_sat [OF v]])
        (use x(2) False in \<open>simp_all add: slice_result_def\<close>)
  qed
qed

lemma rewrite_slice_sat:
  "outcome_sat (rk_hevc_rewrite_slice_nal alloc_ok buf_size data pp sp) (slice_result data pp sp)"
proof -
  have "\<not> (nal_type_of (drop (nal_offset data) data) = 19 \<or> nal_type_of (drop (nal_offset data) data) = 20) \<Longrightarrow>
      nal_type_of (drop (nal_offset data) data) \<notin> {19, 20}" by simp
  note scan = rewrite_scan_sat [OF _ this]
  show ?thesis
    unfolding rk_hevc_rewrite_slice_nal_def Let_def slice_unescape_prefix unfolding length_drop
    by (intro sat_guardI reads_if scan) (simp_all add: slice_result_def slice_unchanged_def)
qed

section \<open>Specification: decoding the reference picture set\<close>

text \<open>
  The syntax \<open>st_ref_pic_set\<close> without inter prediction and the long-term part of a slice header
  for a sequence without long-term candidates. A short-term entry is decoded to its distance
  from the current picture and its usage flag, a long-term entry to its picture order count.
\<close>

fun dec_st_entries :: "nat \<Rightarrow> nat \<Rightarrow> bool list \<Rightarrow> ((nat \<times> bool) list \<times> bool list) option" where
  "dec_st_entries 0 prev bits = Some ([], bits)"
| "dec_st_entries (Suc n) prev bits =
     do {
       (d, bits) \<leftarrow> get_ue bits;
       (u, bits) \<leftarrow> get_flag bits;
       (es, bits) \<leftarrow> dec_st_entries n (prev + d + 1) bits;
       Some ((prev + d + 1, u) # es, bits)
     }"

definition dec_short_term ::
    "bool list \<Rightarrow> (((nat \<times> bool) list \<times> (nat \<times> bool) list) \<times> bool list) option" where
  "dec_short_term bits =
     do {
       (num_negative, bits) \<leftarrow> get_ue bits;
       (num_positive, bits) \<leftarrow> get_ue bits;
       (neg, bits) \<leftarrow> dec_st_entries num_negative 0 bits;
       (pos, bits) \<leftarrow> dec_st_entries num_positive 0 bits;
       Some ((neg, pos), bits)
     }"

text \<open>
  Clause 8.3.2: \<open>pocLt = lsb + PicOrderCntVal - DeltaPocMsbCycleLt * MaxPicOrderCntLsb -
  (PicOrderCntVal & (MaxPicOrderCntLsb - 1))\<close>, where the cycle count accumulates over the entries.
\<close>

fun dec_lt_entries ::
    "nat \<Rightarrow> int \<Rightarrow> nat \<Rightarrow> int \<Rightarrow> bool list \<Rightarrow> ((int \<times> bool) list \<times> bool list) option" where
  "dec_lt_entries pb cur 0 cycle bits = Some ([], bits)"
| "dec_lt_entries pb cur (Suc n) cycle bits =
     do {
       (lsb, bits) \<leftarrow> get_u pb bits;
       (u, bits) \<leftarrow> get_flag bits;
       (present, bits) \<leftarrow> get_flag bits;
       (d, bits) \<leftarrow> (if present then get_ue bits else Some (0, bits));
       (es, bits) \<leftarrow> dec_lt_entries pb cur n (cycle + int d) bits;
       Some ((if present then int lsb + cur - (cycle + int d) * 2 ^ pb - cur mod 2 ^ pb else int lsb, u) # es, bits)
     }"

definition dec_long_term :: "nat \<Rightarrow> int \<Rightarrow> bool list \<Rightarrow> ((int \<times> bool) list \<times> bool list) option" where
  "dec_long_term pb cur bits = do { (n, bits) \<leftarrow> get_ue bits; dec_lt_entries pb cur n 0 bits }"

section \<open>Round trips of the reference picture set\<close>

abbreviation st_value :: "HEVCRPSEntry \<Rightarrow> nat \<times> bool" where
  "st_value e \<equiv> (unat (delta e), used e)"

lemma unat_gap:
  fixes a b :: u32
  assumes "b < a"
  shows "unat (a - b - 1) = unat a - unat b - 1" and "a - b - 1 \<noteq> - 1"
proof -
  have lt: "unat b < unat a" using assms by (simp add: word_less_nat_alt)
  have d: "unat (a - b) = unat a - unat b" using assms by (simp add: unat_sub order_less_imp_le)
  then have nz: "a - b \<noteq> 0" using lt by auto
  then have one: "1 \<le> a - b" by (simp add: word_le_nat_alt d lt Suc_leI)
  show u: "unat (a - b - 1) = unat a - unat b - 1" by (simp add: unat_sub [OF one] d)
  show "a - b - 1 \<noteq> - 1" using nz by auto
qed

lemma dec_st_entries_ops:
  "sorted_wrt (\<lambda>a b. delta a < delta b) es \<Longrightarrow> list_all (\<lambda>e. p < delta e) es \<Longrightarrow>
     dec_st_entries (length es) (unat p) (ops_bits (st_entry_ops p es) @ rest) = Some (map st_value es, rest)"
proof (induction es arbitrary: p)
  case (Cons e es)
  then have "p < delta e" by simp
  then have "unat p < unat (delta e)" by (simp add: word_less_nat_alt)
  then have "Suc (unat p + (unat (delta e) - Suc (unat p))) = unat (delta e)" by simp
  moreover have "list_all (\<lambda>x. delta e < delta x) es" using Cons.prems by (simp add: list_all_iff)
  ultimately show ?case
    using Cons.IH [of "delta e"] Cons.prems unat_gap [OF \<open>p < delta e\<close>] by simp
qed simp

lemma strict_by_delta:
  assumes "by_delta es" and "distinct (map delta es)"
  shows "sorted_wrt (\<lambda>a b. delta a < delta b) es"
  using assms by (induction es) (auto simp: image_iff le_less)

lemma small_count: "n \<le> 15 \<Longrightarrow> unat (of_nat n :: u32) = n \<and> (of_nat n :: u32) \<noteq> - 1"
proof -
  assume "n \<le> 15"
  then have "unat (of_nat n :: u32) = n" by (simp add: unat_of_nat)
  with \<open>n \<le> 15\<close> show ?thesis using small_not_max [of "of_nat n"] by simp
qed

lemma positive_delta: "list_all entry_ok es \<Longrightarrow> list_all (\<lambda>e. 0 < delta e) es"
  by (auto simp: list_all_iff entry_ok_def word_less_nat_alt)

lemma dec_short_term_ops:
  assumes "rps_wf rps" and "by_delta (negative rps)" and "by_delta (positive rps)"
    and "distinct (map delta (negative rps))" and "distinct (map delta (positive rps))"
  shows "dec_short_term (ops_bits (write_short_term_rps rps 0) @ rest) =
    Some ((map st_value (negative rps), map st_value (positive rps)), rest)"
proof -
  have c: "unat (of_nat (length (negative rps)) :: u32) = length (negative rps)"
    "(of_nat (length (negative rps)) :: u32) \<noteq> - 1"
    "unat (of_nat (length (positive rps)) :: u32) = length (positive rps)"
    "(of_nat (length (positive rps)) :: u32) \<noteq> - 1"
    using assms(1) small_count [of "length (negative rps)"] small_count [of "length (positive rps)"]
    by (auto simp: rps_wf_def)
  have p: "list_all (\<lambda>e. 0 < delta e) (negative rps)" "list_all (\<lambda>e. 0 < delta e) (positive rps)"
    using assms(1) by (simp_all add: rps_wf_def positive_delta)
  note d = dec_st_entries_ops [of _ 0, unfolded unsigned_0]
  show ?thesis
    using c d [OF strict_by_delta [OF assms(2,4)] p(1)] d [OF strict_by_delta [OF assms(3,5)] p(2)]
    by (simp add: dec_short_term_def write_short_term_rps_def)
qed

section \<open>The collected set is the set of the picture parameters\<close>

definition neg_entry :: "int \<Rightarrow> HEVCRPSEntry \<Rightarrow> bool" where
  "neg_entry cur e \<longleftrightarrow> cur - int (unat (delta e)) = sint (poc e)"

definition pos_entry :: "int \<Rightarrow> HEVCRPSEntry \<Rightarrow> bool" where
  "pos_entry cur e \<longleftrightarrow> cur + int (unat (delta e)) = sint (poc e)"

definition rps_from :: "int \<Rightarrow> VAPictureHEVC list \<Rightarrow> HEVCRPS \<Rightarrow> bool" where
  "rps_from cur refs rps \<longleftrightarrow> list_all (neg_entry cur) (negative rps) \<and> list_all (pos_entry cur) (positive rps) \<and>
     mset (map poc (negative rps)) + mset (map poc (positive rps)) + mset (map poc (long_term rps)) =
     mset (map pic_order_cnt (filter valid_picture refs))"

lemma poc_short_term_entry [simp]: "poc (short_term_entry d ref u) = pic_order_cnt ref"
  by (simp add: short_term_entry_def)

lemma unat_short_term_delta: "0 \<le> d \<Longrightarrow> d \<le> 65535 \<Longrightarrow> unat (delta (short_term_entry d ref u)) = nat d"
  by (simp add: short_term_entry_def unat_word_of_int_u32)

lemma short_term_entry_neg:
  "sint (pic_order_cnt ref) < cur \<Longrightarrow> cur - sint (pic_order_cnt ref) \<le> 65535 \<Longrightarrow>
     neg_entry cur (short_term_entry (cur - sint (pic_order_cnt ref)) ref u)"
  by (simp add: neg_entry_def unat_short_term_delta)

lemma short_term_entry_pos:
  "cur < sint (pic_order_cnt ref) \<Longrightarrow> sint (pic_order_cnt ref) - cur \<le> 65535 \<Longrightarrow>
     pos_entry cur (short_term_entry (sint (pic_order_cnt ref) - cur) ref u)"
  by (simp add: pos_entry_def unat_short_term_delta)

lemma collect_ref_from:
  assumes "collect_ref cur rps ref = Some rps'" and "rps_from cur refs rps"
  shows "rps_from cur (refs @ [ref]) rps'"
proof (cases "valid_picture ref")
  case True
  then show ?thesis
    using assms short_term_entry_neg short_term_entry_pos
    by (auto simp: collect_ref_def Let_def rps_from_def not_less split: if_splits)
next
  case False
  with assms show ?thesis by (simp add: collect_ref_def rps_from_def)
qed

lemma collect_loop_from:
  "collect_loop cur rps refs = Some rps' \<Longrightarrow> rps_from cur done rps \<Longrightarrow> rps_from cur (done @ refs) rps'"
proof (induction refs arbitrary: rps "done")
  case (Cons ref refs)
  then obtain r where "collect_ref cur rps ref = Some r" "collect_loop cur r refs = Some rps'"
    by (auto split: Option.bind_splits)
  with Cons.IH [of r "done @ [ref]"] collect_ref_from Cons.prems(2) show ?case by simp
qed simp

lemma collect_rps_from:
  assumes "collect_rps pp = Some rps"
  shows "rps_from (sint (pic_order_cnt (CurrPic pp))) (take 15 (ReferenceFrames pp)) rps"
proof -
  let ?cur = "sint (pic_order_cnt (CurrPic pp))"
  obtain r where r: "collect_loop ?cur \<lparr>negative = [], positive = [], long_term = []\<rparr> (take 15 (ReferenceFrames pp)) = Some r"
    and rps: "rps = r\<lparr>negative := sort_entries (negative r), positive := sort_entries (positive r)\<rparr>"
    using assms by (auto simp: collect_rps_def split: Option.bind_splits)
  have "rps_from ?cur [] \<lparr>negative = [], positive = [], long_term = []\<rparr>" by (simp add: rps_from_def)
  from collect_loop_from [OF r this] have f: "rps_from ?cur (take 15 (ReferenceFrames pp)) r" by simp
  have "mset (map poc (sort_entries xs)) = mset (map poc xs)" for xs
    using sort_entries_sorted [of xs] by (metis mset_map)
  with f show ?thesis by (simp add: rps rps_from_def list_all_iff)
qed

section \<open>Long-term round trip\<close>

lemma uint_lsb: "pb \<le> 32 \<Longrightarrow> uint (w AND mask pb) = sint w mod 2 ^ pb" for w :: u32
proof -
  assume "pb \<le> 32"
  then have "take_bit pb (sint w) = take_bit pb (uint w)"
    by (simp add: sint_uint take_bit_signed_take_bit)
  moreover have "w AND mask pb = take_bit pb w" by (simp add: take_bit_eq_mask)
  ultimately have "uint (w AND mask pb) = take_bit pb (sint w)" by (simp add: unsigned_take_bit_eq)
  then show ?thesis by (simp add: take_bit_eq_mod)
qed

text \<open>
  With \<open>poc_lsb\<close> equal to the low bits of the current picture order count the quotient is exact:
  it is the difference of the cycles of the two pictures.
\<close>

definition lt_cycle :: "nat \<Rightarrow> int \<Rightarrow> HEVCRPSEntry \<Rightarrow> int" where
  "lt_cycle pb cur e = cur div 2 ^ pb - sint (poc e) div 2 ^ pb"

lemma lt_quotient:
  assumes "pb \<le> 32" and "uint l = cur mod 2 ^ pb"
  shows "(uint (poc e AND mask pb) + cur - uint l - sint (poc e)) sdiv 2 ^ pb = lt_cycle pb cur e"
proof -
  let ?M = "2 ^ pb :: int"
  have "sint (poc e) mod ?M + cur - cur mod ?M - sint (poc e) = ?M * lt_cycle pb cur e"
    using div_mult_mod_eq [of cur ?M] div_mult_mod_eq [of "sint (poc e)" ?M]
    by (simp add: lt_cycle_def algebra_simps)
  then have "uint (poc e AND mask pb) + cur - uint l - sint (poc e) = ?M * lt_cycle pb cur e"
    by (simp add: uint_lsb [OF assms(1)] assms(2))
  then show ?thesis
    by (simp add: signed_divide_int_def abs_mult sgn_mult) (simp add: sgn_mult_abs)
qed

lemma lt_cycle_small:
  assumes "0 < pb" and "- (2 ^ 31) \<le> cur" and "cur < 2 ^ 31"
  shows "lt_cycle pb cur e < 2 ^ 31 + 1"
proof -
  have p: "2 ^ 1 \<le> (2 ^ pb :: int)" using assms(1) by (intro power_increasing) auto
  have "cur div 2 ^ pb \<le> (2 ^ 31) div 2" if "0 \<le> cur"
    using that p assms(3) zdiv_mono2 [of cur 2 "2 ^ pb"] zdiv_mono1 [of cur "2 ^ 31" 2] by simp
  moreover have "cur div 2 ^ pb \<le> 0" if "cur < 0" using that p
    by (simp add: div_nonpos_pos_le0)
  moreover have "- (2 ^ 30) \<le> sint (poc e) div 2 ^ pb"
  proof (cases "0 \<le> sint (poc e)")
    case True
    then have "0 \<le> sint (poc e) div 2 ^ pb" using p by (intro pos_imp_zdiv_nonneg_iff [THEN iffD2]) auto
    then show ?thesis by simp
  next
    case False
    have "- (2 ^ 31) \<le> sint (poc e)" using sint_range_size [of "poc e"] by (simp add: word_size)
    then have "(- (2 ^ 31)) div 2 \<le> sint (poc e) div 2" by (intro zdiv_mono1) auto
    also have "\<dots> \<le> sint (poc e) div 2 ^ pb" using False p by (intro zdiv_mono2_neg) auto
    finally show ?thesis by simp
  qed
  ultimately show ?thesis unfolding lt_cycle_def by (cases "0 \<le> cur") simp_all
qed

lemma dec_lt_entries_ops:
  assumes "0 < pb" and "pb \<le> 32" and "uint l = cur mod 2 ^ pb" and "- (2 ^ 31) \<le> cur" and "cur < 2 ^ 31"
  shows "lt_entry_ops pb cur l prev es = Some ops \<Longrightarrow> 0 \<le> prev \<Longrightarrow>
    dec_lt_entries pb cur (length es) prev (ops_bits ops @ rest) = Some (map (\<lambda>e. (sint (poc e), used e)) es, rest)"
proof (induction es arbitrary: prev ops)
  case (Cons e es)
  let ?q = "lt_cycle pb cur e" and ?lsb = "poc e AND mask pb"
  from Cons.prems lt_quotient [OF assms(2,3), of e] obtain ops'
    where le: "0 \<le> ?q" "prev \<le> ?q" and rec: "lt_entry_ops pb cur l ?q es = Some ops'"
      and ops: "ops = W ?lsb pb # W (of_bool (used e)) 1 # W 1 1 # UE (word_of_int (?q - prev)) # ops'"
    by (auto simp: Let_def split: if_splits)
  have d: "0 \<le> ?q - prev" "?q - prev < 2 ^ 31 + 1"
    using le Cons.prems(2) lt_cycle_small [OF assms(1,4,5), of e] by linarith+
  then have u: "unat (word_of_int (?q - prev) :: u32) = nat (?q - prev)"
    by (intro unat_word_of_int_u32) simp_all
  have "(word_of_int (?q - prev) :: u32) \<noteq> - 1" by (rule small_not_max) (use u d in simp)
  moreover have "uint ?lsb < 2 ^ pb" by (simp add: uint_lsb [OF assms(2)])
  then have "unat ?lsb < 2 ^ pb" by (simp flip: of_nat_less_iff [where 'a = int])
  moreover have "int (unat ?lsb) = sint (poc e) mod 2 ^ pb" by (simp add: uint_lsb [OF assms(2)])
  moreover have "sint (poc e) mod 2 ^ pb + cur - ?q * 2 ^ pb - cur mod 2 ^ pb = sint (poc e)"
    using div_mult_mod_eq [of cur "2 ^ pb"] div_mult_mod_eq [of "sint (poc e)" "2 ^ pb"]
    by (simp add: lt_cycle_def algebra_simps)
  ultimately show ?case
    using Cons.IH [OF rec le(1)] u d(1)
    by (simp add: ops del: of_int_diff of_nat_unat)
qed simp

section \<open>Slice data stays byte aligned\<close>

lemma bs_has_payload:
  assumes "bs_has cap bits bs" and "length bits \<le> 8 * cap" and "length bits mod 8 = 0"
  shows "bytes_bits (bs_payload bs) = bits"
proof -
  have b: "bs_wf bs" "bs_bits bs = bits" using assms(1,2) by (simp_all add: bs_has_def fit_bits_id)
  then have "bit_pos bs < 8" "length bits = 8 * byte_pos bs + bit_pos bs"
    using length_bs_bits [of bs] by (simp_all add: bs_wf_def)
  then have "bit_pos bs = 0" using assms(3) by (simp add: mod_mult_self4 add.commute)
  with bs_payload_bits [OF b(1)] b(2) show ?thesis by simp
qed

lemma bytes_of_bits_append:
  assumes "bytes_bits raw = hdr @ bytes_bits t" and "length hdr mod 8 = 0"
  shows "\<exists>H. raw = H @ t \<and> bytes_bits H = hdr"
proof (intro exI conjI)
  let ?n = "length hdr div 8"
  have n: "8 * ?n = length hdr" using assms(2) by auto
  show "bytes_bits (take ?n raw) = hdr" by (simp add: bytes_bits_take n assms(1))
  have "bytes_bits (drop ?n raw) = bytes_bits t" by (simp add: bytes_bits_drop n assms(1))
  then have "drop ?n raw = t" by (simp add: bytes_bits_inject)
  then show "raw = take ?n raw @ t" by (metis append_take_drop_id)
qed

lemma new_header_shape:
  assumes "new_header pp (Some p) l br rps hdr ss" and "2 \<le> unat (slice_data_byte_offset p)"
    and "validate_slice_syntax_bounds pp" and "rps_wf rps" and "br_wf br" and "ss \<le> 8 * length (br_data br)"
  shows "ss = (unat (slice_data_byte_offset p) - 2) * 8" and "length hdr mod 8 = 0"
    and "length hdr + (8 * length (br_data br) - ss) \<le> 8 * (length (br_data br) + 4096)"
proof -
  let ?R = "bytes_bits (br_data br)" and ?st = "ops_bits (write_short_term_rps rps 0)"
  obtain r lt a where r: "skip_original_rps br pp = Ok r" and lt: "lt_section ?R pp rps l r lt"
    and ss: "ss = (unat (slice_data_byte_offset p) - 2) * 8" and a: "br_bit (fst r) \<le> a" "a < ss"
    and hdr: "hdr = take (br_bit br) ?R @ False # ?st @ lt @ bits_between (br_bit (fst r)) a ?R @
      True # pad_bits (Suc (br_bit br + 1 + length ?st + length lt + (a - br_bit (fst r))))"
    using assms(1,2) by (auto simp: new_header_def closes_def)
  show "ss = (unat (slice_data_byte_offset p) - 2) * 8" by (rule ss)
  have span: "rps_span br r" using skip_original_rps_span [OF assms(5), of pp] r by simp
  have le: "br_bit br \<le> 8 * length (br_data br)" "br_bit br \<le> br_bit (fst r)" "a \<le> 8 * length (br_data br)"
    using assms(5,6) a span by (auto simp: br_wf_def rps_span_def br_adv_def)
  let ?m = "Suc (br_bit br + 1 + length ?st + length lt + (a - br_bit (fst r)))"
  have len: "length hdr = ?m + length (pad_bits ?m)"
    using le by (simp add: hdr)
  then show "length hdr mod 8 = 0" by (simp only: pad_bits_mod)
  have "length lt \<le> 1278 + (br_bit (fst r) - br_bit br)"
    by (rule lt_section_length [OF assms(4,3) span lt])
  moreover have "length (pad_bits ?m) \<le> 7" by (simp add: pad_bits_def)
  ultimately show "length hdr + (8 * length (br_data br) - ss) \<le> 8 * (length (br_data br) + 4096)"
    using len short_term_length [OF assms(4)] le(2,3) a assms(6)
    by (auto dest!: le_Suc_ex less_imp_Suc_add)
qed

lemma rewritten_bytes:
  assumes "rewritten_as cap rbsp pp (Some p) l br bs" and "2 \<le> unat (slice_data_byte_offset p)"
    and "validate_slice_syntax_bounds pp" and "br_wf br" and "br_data br = rbsp" and "length rbsp + 4096 \<le> cap"
  shows "\<exists>rps H. collect_rps pp = Some rps \<and>
    new_header pp (Some p) l br rps (bytes_bits H) ((unat (slice_data_byte_offset p) - 2) * 8) \<and>
    bs_payload bs = H @ drop (unat (slice_data_byte_offset p) - 2) rbsp"
proof -
  obtain rps hdr ss where rps: "collect_rps pp = Some rps" and h: "new_header pp (Some p) l br rps hdr ss"
    and le: "ss \<le> 8 * length (br_data br)" and bs: "bs_has cap (hdr @ drop ss (bytes_bits rbsp)) bs"
    using assms(1,5) by (auto simp: rewritten_as_def)
  note s = new_header_shape [OF h assms(2,3) collect_rps_wf(1) [OF rps] assms(4) le]
  let ?k = "unat (slice_data_byte_offset p) - 2"
  have t: "drop ss (bytes_bits rbsp) = bytes_bits (drop ?k rbsp)"
    by (simp add: s(1) bytes_bits_drop mult.commute)
  have "length (hdr @ bytes_bits (drop ?k rbsp)) \<le> 8 * cap"
    using s(1,3) assms(5,6) by (simp add: mult.commute [of 8]) 
  moreover have "length (hdr @ bytes_bits (drop ?k rbsp)) mod 8 = 0" using s(2) by simp
  ultimately have "bytes_bits (bs_payload bs) = hdr @ bytes_bits (drop ?k rbsp)"
    by (rule bs_has_payload [OF bs [unfolded t]])
  from bytes_of_bits_append [OF this s(2)] show ?thesis using h rps s(1) by blast
qed

section \<open>Exp-Golomb reading\<close>

lemma ue_zeros_value:
  "br_wf br \<Longrightarrow> br_rest br = replicate z False @ True # t \<Longrightarrow> z \<le> n \<Longrightarrow>
     \<exists>br'. ue_zeros n br = Ok (z, br') \<and> br_adv br br' \<and> br_rest br' = t"
proof (induction n arbitrary: br z)
  case 0
  then obtain br' where "br_read_bit br = Ok (of_bool True, br')" "br_adv br br'" "br_rest br' = t"
    using br_read_bit_Cons [of br True t] by auto
  with 0 show ?case by (subst ue_zeros.simps) simp
next
  case (Suc n)
  show ?case
  proof (cases z)
    case 0
    then obtain br' where "br_read_bit br = Ok (of_bool True, br')" "br_adv br br'" "br_rest br' = t"
      using br_read_bit_Cons [of br True t] Suc.prems by auto
    with 0 show ?thesis by (subst ue_zeros.simps) simp
  next
    case (Suc k)
    then obtain br1 where br1: "br_read_bit br = Ok (of_bool False, br1)" "br_adv br br1"
        "br_rest br1 = replicate k False @ True # t"
      using br_read_bit_Cons [of br False "replicate k False @ True # t"] Suc.prems by auto
    with Suc.IH [of br1 k] Suc \<open>z \<le> Suc n\<close> obtain br' where
      "ue_zeros n br1 = Ok (k, br')" "br_adv br1 br'" "br_rest br' = t" by (auto dest: br_adv_wf)
    with br1 Suc show ?thesis by (subst ue_zeros.simps) (auto intro: br_adv_trans simp del: ue_zeros.simps)
  qed
qed

lemma br_shift_in_value:
  "br_wf br \<Longrightarrow> n \<le> length (br_rest br) \<Longrightarrow>
     \<exists>br'. br_shift_in br n out = Ok (shift_in out (take n (br_rest br)), br') \<and> br_adv br br' \<and>
       br_rest br' = drop n (br_rest br)"
proof (induction n arbitrary: br out)
  case (Suc n)
  then obtain b bs where b: "br_rest br = b # bs" by (cases "br_rest br") auto
  from br_read_bit_Cons [OF Suc.prems(1) b] obtain br1
    where br1: "br_read_bit br = Ok (of_bool b, br1)" "br_adv br br1" "br_rest br1 = bs" by blast
  from this Suc.prems b have "br_wf br1" "n \<le> length (br_rest br1)" by (auto dest: br_adv_wf)
  note IH = Suc.IH [OF this, of "2 * out + of_bool b"]
  show ?case
    unfolding br_shift_in.simps br1(1) obind.simps prod.case shift_in_bit
    using IH br1(2,3) by (auto simp: b intro: br_adv_trans)
qed (simp add: br_adv_refl)

lemma get_ue_split:
  assumes "get_ue bits = Some (v, rest)"
  shows "\<exists>z t. bits = replicate z False @ True # t @ rest \<and> length t = z \<and> v + 1 = 2 ^ z + bits_val t"
proof -
  let ?z = "length (takeWhile Not bits)"
  have z: "takeWhile Not bits = replicate ?z False"
    by (rule replicate_length_same [symmetric]) (auto dest: set_takeWhileD)
  from assms have len: "?z + 1 \<le> length (drop ?z bits)" and r: "rest = drop (?z + 1) (drop ?z bits)"
    and v: "bits_val (take (?z + 1) (drop ?z bits)) = v + 1"
    by (auto simp: get_ue_def get_u_def Let_def split: if_splits option.splits)
  from len have ne: "dropWhile Not bits \<noteq> []" by (metis dropWhile_eq_drop add_is_0 le_zero_eq list.size(3) one_neq_zero)
  then obtain u where u: "dropWhile Not bits = True # u"
    using hd_dropWhile [OF ne] by (cases "dropWhile Not bits") auto
  have d: "drop ?z bits = True # u" using u by (simp add: dropWhile_eq_drop)
  have "bits = replicate ?z False @ True # u"
    using takeWhile_dropWhile_id [of Not bits] u z by metis
  moreover have "rest = drop ?z u" "v + 1 = 2 ^ ?z + bits_val (take ?z u)" "length (take ?z u) = ?z"
    using r v d len by (simp_all add: bits_val_Cons)
  ultimately show ?thesis by (metis append_take_drop_id)
qed

lemma br_read_ue_value:
  assumes "br_wf br" and "get_ue (br_rest br) = Some (v, rest)" and "v + 1 < 2 ^ 31"
  shows "\<exists>br'. br_read_ue br = Ok (of_nat v, br') \<and> br_adv br br' \<and> br_rest br' = rest"
proof -
  obtain z t where t: "br_rest br = replicate z False @ True # t @ rest" "length t = z"
      "v + 1 = 2 ^ z + bits_val t"
    using get_ue_split [OF assms(2)] by blast
  then have "(2::nat) ^ z < 2 ^ 31" using assms(3) by linarith
  then have z: "z < 31" by (simp only: power_strict_increasing_iff)
  then obtain br1 where br1: "ue_zeros 31 br = Ok (z, br1)" "br_adv br br1" "br_rest br1 = t @ rest"
    using ue_zeros_value [OF assms(1) t(1), of 31] by auto
  then obtain br' where br': "br_shift_in br1 z 0 = Ok (shift_in 0 t, br')" "br_adv br1 br'" "br_rest br' = rest"
    using br_shift_in_value [of br1 z 0] t(2) by (auto dest: br_adv_wf)
  have "of_nat v + 1 = (2 ^ z + of_nat (bits_val t) :: u32)" 
    using arg_cong [OF t(3), of "of_nat :: nat \<Rightarrow> u32"] by (simp add: add.commute)
  then have "push_bit z 1 - 1 + shift_in 0 t = (of_nat v :: u32)"
    by (simp add: shift_in_zero algebra_simps push_bit_eq_mult)
  with br1 br' z show ?thesis by (auto simp: br_read_ue_def intro: br_adv_trans simp del: ue_zeros.simps)
qed

text \<open>
  With 31 leading zeros the function adds the suffix to \<open>UINT32_MAX\<close> instead of
  \<open>(1 << 31) - 1\<close>: the code of 2147483648 is read as 0.
\<close>

lemma br_read_ue_alias:
  "map_prod id (\<lambda>_. ()) ` {r. br_read_ue \<lparr>br_data = [0, 0, 0, 1, 0, 0, 0, 2], br_size = 8, br_bit = 0\<rparr> = Ok r} = {(0, ())} \<and>
   map_option fst (get_ue (bytes_bits [0, 0, 0, 1, 0, 0, 0, 2])) = Some 2147483648"
proof -
  have "\<exists>br. br_read_ue \<lparr>br_data = [0, 0, 0, 1, 0, 0, 0, 2], br_size = 8, br_bit = 0\<rparr> = Ok (0, br)"
  proof -
    have "(case br_read_ue \<lparr>br_data = [0, 0, 0, 1, 0, 0, 0, 2], br_size = 8, br_bit = 0\<rparr> of
        Ok (v, br) \<Rightarrow> v = 0 | _ \<Rightarrow> False)" by code_simp
    then show ?thesis by (auto split: outcome.splits)
  qed
  then show ?thesis
    by (auto simp: get_ue_def get_u_def byte_bits_def word_bits_def upt_rec bits_val_def)
qed

section \<open>Acceptance\<close>

text \<open>
  The rewriter refuses a slice only for a reason visible in the slice: the scan of the original
  header fails, the set cannot be collected or expressed, the announced slice data offset has no
  stop bit before it, or the output buffer is too small.
\<close>

definition align_possible :: "u8 list \<Rightarrow> nat \<Rightarrow> VASliceParameterBufferHEVC option \<Rightarrow> bool" where
  "align_possible rbsp rps_end sp \<longleftrightarrow> (case sp of None \<Rightarrow> True | Some p \<Rightarrow>
     unat (slice_data_byte_offset p) \<ge> 2 \<longrightarrow>
       (unat (slice_data_byte_offset p) - 2) * 8 \<le> length rbsp * 8 \<and>
       (\<exists>a. find_byte_alignment_start rbsp rps_end ((unat (slice_data_byte_offset p) - 2) * 8) = Ok a))"

lemma realign_accepts:
  assumes "bs_has cap bits bs" and "e \<le> 8 * length rbsp" and "align_possible rbsp e sp"
  shows "\<exists>bs' ss. realign bs rbsp e sp = Ok (bs', ss)"
proof (cases "\<exists>p. sp = Some p \<and> unat (slice_data_byte_offset p) \<ge> 2")
  case False
  then show ?thesis by (auto simp: realign_def split: option.splits)
next
  case True
  then obtain p where p: "sp = Some p" "unat (slice_data_byte_offset p) \<ge> 2" by blast
  let ?d = "(unat (slice_data_byte_offset p) - 2) * 8"
  from assms(3) p obtain a where a: "?d \<le> length rbsp * 8" "find_byte_alignment_start rbsp e ?d = Ok a"
    by (auto simp: align_possible_def)
  then have "find_align rbsp e ?d = Ok a" by (simp add: find_byte_alignment_start_def)
  with find_align_sat [of ?d rbsp e] a(1) have "e \<le> a" "a < ?d" by (auto simp: mult.commute)
  with copy_bits_has [OF assms(1), of e a rbsp] a(1) obtain bs' where "copy_bits bs rbsp e a = Ok bs'"
    by (auto simp: mult.commute)
  with p a show ?thesis by (simp add: realign_def Let_def)
qed

lemma copy_loop_not_Fail: "copy_loop bs src is \<noteq> Fail"
  by (induction "is" arbitrary: bs) (auto simp: bit_at_def)

lemma rewrite_header_accepts:
  assumes "validate_slice_syntax_bounds pp" and "br_wf br" and "br_data br = rbsp" and "length rbsp + 4096 \<le> cap"
    and r: "skip_original_rps br pp = Ok (br', ltb, v)" and rps: "collect_rps pp = Some rps"
    and lt: "v \<or> write_long_term_rps rps pp l \<noteq> None" and al: "align_possible rbsp (br_bit br') sp"
  shows "\<exists>bs. rewrite_header cap rbsp pp sp l br = Ok bs \<and> bs_payload bs \<noteq> []"
proof -
  let ?R = "bytes_bits rbsp"
  have span: "rps_span br (br', ltb, v)" using skip_original_rps_span [OF assms(2), of pp] r by simp
  then have le: "br_bit br' \<le> 8 * length rbsp" "v \<Longrightarrow> ltb \<le> br_bit br'" "br_bit br \<le> 8 * length rbsp"
    using assms(2,3) by (auto simp: rps_span_def br_adv_def br_wf_def)
  obtain bs0 where bs0: "copy_bits (bs_init cap) rbsp 0 (br_bit br) = Ok bs0" "bs_has cap (take (br_bit br) ?R) bs0"
    using copy_bits_has [OF bs_has_init, of 0 "br_bit br" rbsp cap] le by auto
  let ?bs1 = "bs_run bs0 (W 0 1 # write_short_term_rps rps 0)"
  note bs1 = bs_has_run [OF bs0(2), of "W 0 1 # write_short_term_rps rps 0"]
  obtain bs2 bits where bs2: "(if v then copy_bits ?bs1 rbsp ltb (br_bit br') else emit_ops ?bs1 (write_long_term_rps rps pp l)) = Ok bs2"
      "bs_has cap bits bs2"
    using copy_bits_has [OF bs1, of ltb "br_bit br'" rbsp] le(1,2) lt bs_has_run [OF bs1]
    by (cases v) (fastforce simp: emit_ops_def)+
  obtain bs3 ss where bs3: "realign bs2 rbsp (br_bit br') sp = Ok (bs3, ss)"
    using realign_accepts [OF bs2(2) le(1) al] by blast
  have run: "rewrite_header cap rbsp pp sp l br = copy_bits bs3 rbsp ss (length rbsp * 8)"
    unfolding rewrite_header_def r obind.simps prod.case rps of_opt_def option.case bs0(1) Let_def
      bs2(1) bs3 ..
  note sat = rewrite_header_sat [OF assms(1-4), of sp l]
  have "ss \<le> 8 * length rbsp" using bs3 al le(1)
    by (auto simp: realign_def align_possible_def Let_def mult.commute split: option.splits if_splits)
  then have "copy_bits bs3 rbsp ss (length rbsp * 8) \<noteq> Fail"
    by (auto simp: copy_bits_def mult.commute guard_else_fail_def copy_loop_not_Fail)
  then have "rewrite_header cap rbsp pp sp l br \<noteq> Fail" by (simp add: run)
  with sat obtain bs where bs: "rewrite_header cap rbsp pp sp l br = Ok bs"
    by (metis outcome.exhaust outcome_sat.simps(3))
  with sat have "rewritten_as cap rbsp pp sp l br bs" by simp
  then obtain rps' hdr ss' where h: "new_header pp sp l br rps' hdr ss'" "bs_has cap (hdr @ drop ss' ?R) bs"
    by (auto simp: rewritten_as_def)
  then have "bs_bits bs \<noteq> []" using assms(4) by (auto simp: new_header_def bs_has_def fit_bits_def)
  then have "bs_payload bs \<noteq> []" using h(2) length_bytes_bits_payload [of bs] length_bs_bits [of bs]
    by (auto simp: bs_has_def bs_bytes_def split: if_splits)
  with bs show ?thesis by blast
qed

section \<open>Properties\<close>

definition dec_slice_info :: "u8 \<Rightarrow> bool list \<Rightarrow> (bool \<times> nat) option" where
  "dec_slice_info t bits =
     do {
       (first, bits) \<leftarrow> get_flag bits;
       (no_output, bits) \<leftarrow> (if 16 \<le> t \<and> t \<le> 23 then get_flag bits else Some (False, bits));
       (pps, bits) \<leftarrow> get_ue bits;
       Some (first, pps)
     }"

lemma br_read_flag:
  assumes "br_wf br" and "get_flag (br_rest br) = Some (b, bits)"
  shows "\<exists>br'. br_read_bit br = Ok (of_bool b, br') \<and> br_adv br br' \<and> br_rest br' = bits"
  using assms br_read_bit_Cons [of br b bits] by (auto simp: get_flag_def split: list.splits)

lemma irap_flag_value:
  assumes "br_wf br" and "(if 16 \<le> t \<and> t \<le> 23 then get_flag (br_rest br) else Some (False, br_rest br)) = Some (b, bits)"
  shows "\<exists>br'. irap_flag t br = Ok (of_bool b, br') \<and> br_adv br br' \<and> br_rest br' = bits"
  using assms br_read_flag [of br b bits] by (auto simp: irap_flag_def br_adv_refl split: if_splits)

lemma parse_slice_bits:
  assumes "dec_slice_info t (bytes_bits rbsp) = Some (first, pps)" and "pps \<le> 63"
  shows "\<exists>br2. obind (br_read_bit \<lparr>br_data = rbsp, br_size = length rbsp, br_bit = 0\<rparr>) (\<lambda>(f, br).
      obind (irap_flag t br) (\<lambda>(_, br). obind (br_read_ue br) (\<lambda>(i, br). Ok (f, i, br)))) =
    Ok (of_bool first, of_nat pps, br2)"
proof -
  let ?br = "\<lparr>br_data = rbsp, br_size = length rbsp, br_bit = 0\<rparr>"
  from assms(1) obtain b1 x b2 b3 where d: "get_flag (bytes_bits rbsp) = Some (first, b1)"
    "(if 16 \<le> t \<and> t \<le> 23 then get_flag b1 else Some (False, b1)) = Some (x, b2)" "get_ue b2 = Some (pps, b3)"
    by (auto simp: dec_slice_info_def bind_eq_Some_conv split del: if_split)
  have wf: "br_wf ?br" "br_rest ?br = bytes_bits rbsp" by (simp_all add: br_wf_def br_rest_def)
  with d(1) obtain br where 1: "br_read_bit ?br = Ok (of_bool first, br)" "br_adv ?br br" "br_rest br = b1"
    using br_read_flag [OF wf(1)] by auto
  with d(2) obtain br1 where 2: "irap_flag t br = Ok (of_bool x, br1)" "br_adv br br1" "br_rest br1 = b2"
    using irap_flag_value [OF br_adv_wf [OF 1(2)], of t x b2] by auto
  with d(3) obtain br2 where 3: "br_read_ue br1 = Ok (of_nat pps, br2)"
    using br_read_ue_value [OF br_adv_wf [OF 2(2)], of pps b3] assms(2) by auto
  show ?thesis by (simp add: 1(1) 2(1) 3)
qed

text \<open>
  A slice NAL unit with a valid two-byte header whose first 128 payload bytes hold the
  start of a slice header with a legal picture parameter set identifier is identified with
  exactly the fields that a decoder of the standard's syntax reads.
\<close>

theorem hevc_slice_info_exact:
  assumes "3 \<le> length data - nal_offset data" and "data ! nal_offset data AND 0x80 = 0"
    and "nal_type_of (drop (nal_offset data) data) \<le> 31" and "data ! (nal_offset data + 1) AND 7 \<noteq> 0"
    and "dec_slice_info (nal_type_of (drop (nal_offset data) data)) (bytes_bits (take 128 (slice_rbsp data))) = Some (first, pps)"
    and "pps \<le> 63"
  shows "rk_hevc_parse_slice_info data =
    Ok \<lparr>nal_unit_type = nal_type_of (drop (nal_offset data) data),
        temporal_id_plus1 = data ! (nal_offset data + 1) AND 7,
        slice_pps_id = of_nat pps, first_slice_segment_in_pic = first\<rparr>"
proof -
  let ?t = "nal_type_of (drop (nal_offset data) data)" and ?rbsp = "take 128 (slice_rbsp data)"
  have u: "unat (of_nat pps :: u32) = pps" using assms(6) by (simp add: unat_of_nat)
  have le: "\<not> (of_nat pps :: u32) > 63" using u assms(6) by (simp add: word_less_nat_alt)
  have cast: "ucast (of_nat pps :: u32) = (of_nat pps :: u8)"
    using assms(6) by (simp add: unsigned_of_nat take_bit_nat_eq_self)
  have rbsp: "unescape_prefix (drop 2 (drop (nal_offset data) data)) 128 = ?rbsp"
    by (simp add: unescape_prefix_spec add.commute)
  obtain br2 where "obind (br_read_bit \<lparr>br_data = ?rbsp, br_size = length ?rbsp, br_bit = 0\<rparr>) (\<lambda>(f, br).
      obind (irap_flag ?t br) (\<lambda>(_, br). obind (br_read_ue br) (\<lambda>(i, br). Ok (f, i, br)))) =
    Ok (of_bool first, of_nat pps, br2)"
    using parse_slice_bits [OF assms(5,6)] by blast
  then show ?thesis
    using assms(1-4) le cast
    unfolding rk_hevc_parse_slice_info_def Let_def rbsp by (auto simp: not_less)
qed

theorem hevc_slice_info_exact_witness:
  "rk_hevc_parse_slice_info [0, 0, 1, 0x26, 0x02, 0x8b, 0x80, 0x11] =
    Ok \<lparr>nal_unit_type = 19, temporal_id_plus1 = 2, slice_pps_id = 4, first_slice_segment_in_pic = True\<rparr>"
proof -
  let ?d = "[0, 0, 1, 0x26, 0x02, 0x8b, 0x80, 0x11] :: u8 list"
  have o: "nal_offset ?d = 3" by (simp add: nal_offset_def)
  have t: "nal_type_of [0x26, 0x02, 0x8b, 0x80, 0x11] = 19" by (simp add: nal_type_of_def)
  have "dec_slice_info 19 (bytes_bits (take 128 (unescape 0 (drop (3 + 2) ?d)))) = Some (True, 4)" by code_simp
  from hevc_slice_info_exact [of ?d True 4] this show ?thesis
    by (simp add: o t)
qed

lemma slice_no_fault:
  "rk_hevc_rewrite_slice_nal alloc_ok buf_size data pp sp \<noteq> Fault \<and> rk_hevc_parse_slice_info data \<noteq> Fault"
proof
  show "rk_hevc_rewrite_slice_nal alloc_ok buf_size data pp sp \<noteq> Fault"
    using rewrite_slice_sat by (simp add: outcome_sat_alt)
  let ?rbsp = "unescape_prefix (drop 2 (drop (nal_offset data) data)) 128"
  have "br_wf \<lparr>br_data = ?rbsp, br_size = length ?rbsp, br_bit = 0\<rparr>" by (simp add: br_wf_def)
  then have "outcome_sat (rk_hevc_parse_slice_info data) (\<lambda>_. True)"
    unfolding rk_hevc_parse_slice_info_def Let_def
    by (intro sat_guardI reads_bind_sat [OF br_read_bit_reads] reads_bind_sat [OF irap_flag_reads]
        reads_bind_sat [OF br_read_ue_reads]) (assumption | simp)+
  then show "rk_hevc_parse_slice_info data \<noteq> Fault" by (simp add: outcome_sat_alt)
qed


lemma pack_slice_accepts:
  assumes "bs_wf bs" and "bs_payload bs \<noteq> []" and "prefix \<le> 4"
    and "2 * bs_capacity bs + 6 \<le> buf_size" and "2 * bs_capacity bs + 6 \<le> INT_MAX"
  shows "\<exists>out. pack_slice buf_size data prefix (bs_payload bs) = Ok out"
proof -
  have "length (bs_payload bs) \<le> bs_capacity bs"
    using assms(1) by (auto simp: bs_payload_def bs_wf_def bs_bytes_def)
  with length_escape_le [of 0 "bs_payload bs"]
  have len: "length (escape 0 (bs_payload bs)) \<le> 2 * bs_capacity bs" by simp
  let ?n = "length (take prefix data @ [data ! prefix, data ! (prefix + 1)])"
  have n: "?n \<le> 6" using assms(3) by simp
  have "length (escape 0 (bs_payload bs)) \<le> buf_size - ?n" using len n assms(4) by linarith
  then have "emulation_prevent (bs_payload bs) (buf_size - ?n) = escape 0 (bs_payload bs)"
    by (rule hevc_esc.esc_fits)
  moreover have "\<not> length (escape 0 (bs_payload bs)) > INT_MAX - ?n" using len n assms(5) by linarith
  ultimately show ?thesis
    using assms(2-4) unfolding pack_slice_def Let_def by simp
qed

definition slice_header_ok :: "u8 list \<Rightarrow> bool" where
  "slice_header_ok data \<longleftrightarrow> 3 \<le> length data - nal_offset data \<and> data ! nal_offset data AND 0x80 = 0 \<and>
     data ! (nal_offset data + 1) AND 7 \<noteq> 0 \<and> nal_type_of (drop (nal_offset data) data) \<le> 31"

definition slice_scans ::
    "u8 list \<Rightarrow> VAPictureParameterBufferHEVC \<Rightarrow> VASliceParameterBufferHEVC option \<Rightarrow> bool" where
  "slice_scans data pp sp \<longleftrightarrow> (\<exists>br0 l br br' ltb v rps.
     slice_start (nal_type_of (drop (nal_offset data) data)) pp (slice_reader data) = Ok (False, br0) \<and>
     slice_poc pp br0 = Ok (l, br) \<and> skip_original_rps br pp = Ok (br', ltb, v) \<and> collect_rps pp = Some rps \<and>
     (v \<or> write_long_term_rps rps pp l \<noteq> None) \<and> align_possible (slice_rbsp data) (br_bit br') sp)"

lemma rewrite_slice_accepts:
  assumes v: "validate_slice_syntax_bounds pp" and h: "slice_header_ok data"
    and t: "nal_type_of (drop (nal_offset data) data) \<notin> {19, 20}" and "slice_scans data pp sp"
    and sz: "2 * (length data + 4096) + 6 \<le> buf_size" "2 * (length data + 4096) + 6 \<le> INT_MAX"
  shows "\<exists>out. rk_hevc_rewrite_slice_nal True buf_size data pp sp = Ok out"
proof -
  let ?cap = "length data - nal_offset data + 4096"
  obtain br0 l br br' ltb w rps where
    s: "slice_start (nal_type_of (drop (nal_offset data) data)) pp (slice_reader data) = Ok (False, br0)"
      "slice_poc pp br0 = Ok (l, br)" and r: "skip_original_rps br pp = Ok (br', ltb, w)" "collect_rps pp = Some rps"
      "w \<or> write_long_term_rps rps pp l \<noteq> None" "align_possible (slice_rbsp data) (br_bit br') sp"
    using assms(4) unfolding slice_scans_def by blast
  have a: "br_adv (slice_reader data) br0" by (rule slice_start_same [OF slice_reader_wf v s(1)])
  then have "br_adv br0 br" using slice_poc_reads [OF br_adv_wf [OF a], of pp] s(2) by simp
  with a have br: "br_wf br" "br_data br = slice_rbsp data" by (auto simp: br_adv_def)
  have cap: "length (slice_rbsp data) + 4096 \<le> ?cap"
    using length_unescape_le [of 0 "drop (nal_offset data + 2) data"] by simp
  obtain bs where bs: "rewrite_header ?cap (slice_rbsp data) pp sp l br = Ok bs" "bs_payload bs \<noteq> []"
    using rewrite_header_accepts [OF v br cap r] by blast
  with rewrite_header_sat [OF v br cap, of sp l] have "bs_wf bs" "bs_capacity bs = ?cap"
    by (auto simp: rewritten_as_def bs_has_def)
  moreover have "nal_offset data \<le> 4" by (simp add: nal_offset_def)
  moreover have "2 * ?cap + 6 \<le> buf_size" "2 * ?cap + 6 \<le> INT_MAX" using sz by simp_all
  ultimately obtain out where "pack_slice buf_size data (nal_offset data) (bs_payload bs) = Ok out"
    using pack_slice_accepts [of bs "nal_offset data" buf_size data] bs(2) by auto
  then show ?thesis
    using v h t s bs(1) sz(2)
    unfolding rk_hevc_rewrite_slice_nal_def Let_def slice_unescape_prefix slice_header_ok_def unfolding length_drop
    by (auto simp: not_less)
qed

definition sample_slice :: "u8 list" where
  "sample_slice = [0, 0, 1, 0x02, 0x01, 0xd0, 0x08, 0x08, 0xaf, 0x10, 0x86, 0xaa, 0x55, 0x12]"

lemma sample_slice_reader:
  "slice_reader sample_slice =
     \<lparr>br_data = [0xd0, 0x08, 0x08, 0xaf, 0x10, 0x86, 0xaa, 0x55, 0x12], br_size = 9, br_bit = 0\<rparr>"
proof -
  have o: "nal_offset sample_slice = 3" by (simp add: sample_slice_def nal_offset_def)
  show ?thesis unfolding o by (simp add: sample_slice_def)
qed

lemma sample_slice_scan:
  "obind (slice_start 1 sample_hevc \<lparr>br_data = [0xd0, 0x08, 0x08, 0xaf, 0x10, 0x86, 0xaa, 0x55, 0x12], br_size = 9, br_bit = 0\<rparr>)
     (\<lambda>(d, br0). obind (slice_poc sample_hevc br0) (\<lambda>(l, br).
      obind (skip_original_rps br sample_hevc) (\<lambda>(br', ltb, v). Ok (d, l, br_bit br', v)))) = Ok (False, 1, 45, True)"
  by code_simp

lemma sample_slice_ok:
  "validate_slice_syntax_bounds sample_hevc" "slice_header_ok sample_slice"
  "nal_type_of (drop (nal_offset sample_slice) sample_slice) = 1"
  "slice_scans sample_slice sample_hevc (Some \<lparr>slice_data_byte_offset = 8\<rparr>)" "length sample_slice = 14"
proof -
  have o: "nal_offset sample_slice = 3" by (simp add: sample_slice_def nal_offset_def)
  show t: "nal_type_of (drop (nal_offset sample_slice) sample_slice) = 1"
    unfolding o by (simp add: sample_slice_def nal_type_of_def)
  show "validate_slice_syntax_bounds sample_hevc" by code_simp
  show "slice_header_ok sample_slice" "length sample_slice = 14"
    unfolding slice_header_ok_def t unfolding o by (simp_all add: sample_slice_def)
  from sample_slice_scan obtain br0 l br br' ltb where
      s: "slice_start 1 sample_hevc (slice_reader sample_slice) = Ok (False, br0)"
      "slice_poc sample_hevc br0 = Ok (l, br)" "skip_original_rps br sample_hevc = Ok (br', ltb, True)" "br_bit br' = 45"
    unfolding sample_slice_reader by auto
  obtain rps where rps: "collect_rps sample_hevc = Some rps"
    using sample_hevc_rps by (auto simp: map_option_case split: option.splits)
  have f: "find_byte_alignment_start [0xd0, 0x08, 0x08, 0xaf, 0x10, 0x86, 0xaa, 0x55, 0x12] 45 48 = Ok 46" by code_simp
  have "align_possible (slice_rbsp sample_slice) (br_bit br') (Some \<lparr>slice_data_byte_offset = 8\<rparr>)"
    unfolding o using f s(4) by (simp add: sample_slice_def align_possible_def)
  with s(1-3) rps show "slice_scans sample_slice sample_hevc (Some \<lparr>slice_data_byte_offset = 8\<rparr>)"
    unfolding slice_scans_def t by blast
qed



text \<open>
  C28: rewriting keeps everything but the reference picture set. Dependent and IDR slices are
  returned unchanged. Any other slice with slice parameters becomes the original start code and
  NAL header, followed by the escaped new payload: the original header bits up to the set, the
  new set, the original rest of the header, a stop bit, padding, and then exactly the original
  slice data bytes. Nothing is lost to the capacity of the intermediate buffer.
\<close>

theorem hevc_slice_rewrite_exact:
  assumes "rk_hevc_rewrite_slice_nal alloc_ok buf_size data pp (Some p) = Ok out"
    and "2 \<le> unat (slice_data_byte_offset p)"
  shows "if slice_unchanged data pp then out = data else
    (\<exists>br0 l br rps H. slice_start (nal_type_of (drop (nal_offset data) data)) pp (slice_reader data) = Ok (False, br0) \<and>
       slice_poc pp br0 = Ok (l, br) \<and> collect_rps pp = Some rps \<and>
       new_header pp (Some p) l br rps (bytes_bits H) ((unat (slice_data_byte_offset p) - 2) * 8) \<and>
       out = take (nal_offset data) data @ [data ! nal_offset data, data ! (nal_offset data + 1)] @
         escape 0 (H @ drop (unat (slice_data_byte_offset p) - 2) (slice_rbsp data)))"
proof (cases "slice_unchanged data pp")
  case True
  then show ?thesis using rewrite_slice_sat [of alloc_ok buf_size data pp "Some p"] assms(1)
    by (simp add: slice_result_def)
next
  case False
  then have "slice_rewritten data pp (Some p) out"
    using rewrite_slice_sat [of alloc_ok buf_size data pp "Some p"] assms(1) by (simp add: slice_result_def)
  then obtain br0 l br bs where s: "slice_start (nal_type_of (drop (nal_offset data) data)) pp (slice_reader data) = Ok (False, br0)"
    "slice_poc pp br0 = Ok (l, br)" "rewritten_as (length data - nal_offset data + 4096) (slice_rbsp data) pp (Some p) l br bs"
    and out: "out = take (nal_offset data) data @ [data ! nal_offset data, data ! (nal_offset data + 1)] @ escape 0 (bs_payload bs)"
    unfolding slice_rewritten_def by blast
  have v: "validate_slice_syntax_bounds pp" using assms(1) by (simp add: rk_hevc_rewrite_slice_nal_def)
  have a: "br_adv (slice_reader data) br0" by (rule slice_start_same [OF slice_reader_wf v s(1)])
  then have "br_adv br0 br" using slice_poc_reads [OF br_adv_wf [OF a], of pp] s(2) by simp
  with a have br: "br_wf br" "br_data br = slice_rbsp data" by (auto simp: br_adv_def)
  have cap: "length (slice_rbsp data) + 4096 \<le> length data - nal_offset data + 4096"
    using length_unescape_le [of 0 "drop (nal_offset data + 2) data"] by simp
  from rewritten_bytes [OF s(3) assms(2) v br cap] s(1,2) out False show ?thesis by fastforce
qed

theorem hevc_slice_rewrite_exact_witness:
  "\<exists>br0 l br rps H out. rk_hevc_rewrite_slice_nal True 20000 sample_slice sample_hevc (Some \<lparr>slice_data_byte_offset = 8\<rparr>) = Ok out \<and>
     slice_start 1 sample_hevc (slice_reader sample_slice) = Ok (False, br0) \<and> slice_poc sample_hevc br0 = Ok (l, br) \<and>
     new_header sample_hevc (Some \<lparr>slice_data_byte_offset = 8\<rparr>) l br rps (bytes_bits H) 48 \<and>
     out = [0, 0, 1, 2, 1] @ escape 0 (H @ [0xaa, 0x55, 0x12])"
proof -
  obtain out where out: "rk_hevc_rewrite_slice_nal True 20000 sample_slice sample_hevc (Some \<lparr>slice_data_byte_offset = 8\<rparr>) = Ok out"
    using rewrite_slice_accepts [OF sample_slice_ok(1,2) _ sample_slice_ok(4), of 20000]
    by (auto simp: sample_slice_ok(3,5) INT_MAX_def)
  have o: "nal_offset sample_slice = 3" by (simp add: sample_slice_def nal_offset_def)
  have t: "nal_type_of (drop 3 sample_slice) = 1" by (simp add: sample_slice_def nal_type_of_def)
  have s: "\<exists>br. slice_start 1 sample_hevc (slice_reader sample_slice) = Ok (False, br)"
    using sample_slice_scan unfolding sample_slice_reader by auto
  then have u: "\<not> slice_unchanged sample_slice sample_hevc" unfolding slice_unchanged_def o t by auto
  from hevc_slice_rewrite_exact [OF out] u obtain br0 l br rps H
    where r: "slice_start 1 sample_hevc (slice_reader sample_slice) = Ok (False, br0)" "slice_poc sample_hevc br0 = Ok (l, br)"
      "new_header sample_hevc (Some \<lparr>slice_data_byte_offset = 8\<rparr>) l br rps (bytes_bits H) 48"
      "out = take 3 sample_slice @ [sample_slice ! 3, sample_slice ! (3 + 1)] @ escape 0 (H @ drop 6 (unescape 0 (drop (3 + 2) sample_slice)))"
    unfolding o t by auto
  have "out = [0, 0, 1, 2, 1] @ escape 0 (H @ [0xaa, 0x55, 0x12])"
    by (subst r(4)) (simp add: sample_slice_def)
  with r(1-3) out show ?thesis by blast
qed


lemma sample_hevc_rps_full:
  "map_option (\<lambda>r. (map (unat \<circ> delta) (negative r), map (unat \<circ> delta) (positive r), map (unat \<circ> poc) (long_term r)))
     (collect_rps sample_hevc) = Some ([2, 4], [8], [])"
  by code_simp


text \<open>
  C32: for a slice whose \<open>slice_pic_order_cnt_lsb\<close> belongs to the current picture, the long-term
  entries that the driver writes decode to the picture order counts and usage flags of the
  collected long-term pictures, in their order, wherever their cycle lies.
\<close>

theorem hevc_long_term_roundtrip:
  assumes "write_long_term_rps rps pp l = Some ops" and "long_term_ref_pics_present_flag pp" and "rps_wf rps"
    and "validate_slice_syntax_bounds pp"
    and "uint l = sint (pic_order_cnt (CurrPic pp)) mod 2 ^ poc_bits_of pp"
  shows "dec_long_term (poc_bits_of pp) (sint (pic_order_cnt (CurrPic pp))) (ops_bits ops @ rest) =
    Some (map (\<lambda>e. (sint (poc e), used e)) (long_term rps), rest)"
proof -
  let ?c = "sint (pic_order_cnt (CurrPic pp))"
  obtain ops' where ops: "ops = UE (of_nat (length (long_term rps))) # ops'"
      "lt_entry_ops (poc_bits_of pp) ?c l 0 (long_term rps) = Some ops'"
    using assms(1,2) by (auto simp: write_long_term_rps_def)
  have n: "unat (of_nat (length (long_term rps)) :: u32) = length (long_term rps)"
    "(of_nat (length (long_term rps)) :: u32) \<noteq> - 1"
    using assms(3) small_count [of "length (long_term rps)"] by (auto simp: rps_wf_def)
  have r: "0 < poc_bits_of pp" "poc_bits_of pp \<le> 32" "- (2 ^ 31) \<le> ?c" "?c < 2 ^ 31"
    using slice_bounds_poc [OF assms(4)] sint_range_size [of "pic_order_cnt (CurrPic pp)"]
    by (simp_all add: poc_bits_of_def word_size)
  show ?thesis
    using dec_lt_entries_ops [OF r(1,2) assms(5) r(3,4) ops(2)] n
    by (simp add: dec_long_term_def ops(1))
qed

theorem hevc_long_term_roundtrip_witness:
  "\<exists>ops. write_long_term_rps \<lparr>negative = [], positive = [], long_term =
       [\<lparr>delta = 0, poc = 5, used = True\<rparr>, \<lparr>delta = 0, poc = - 700, used = False\<rparr>]\<rparr> sample_hevc 8 = Some ops \<and>
     dec_long_term 8 8 (ops_bits ops @ [True]) = Some ([(5, True), (- 700, False)], [True])"
proof -
  let ?r = "\<lparr>negative = [], positive = [], long_term =
       [\<lparr>delta = 0, poc = 5, used = True\<rparr>, \<lparr>delta = 0, poc = - 700, used = False\<rparr>]\<rparr> :: HEVCRPS"
  have v: "validate_slice_syntax_bounds sample_hevc" by code_simp
  have f: "long_term_ref_pics_present_flag sample_hevc" "poc_bits_of sample_hevc = 8"
    "sint (pic_order_cnt (CurrPic sample_hevc)) = 8" "rps_wf ?r"
    by (simp_all add: sample_hevc_def poc_bits_of_def sample_pic_def rps_wf_def)
  have "write_long_term_rps ?r sample_hevc 8 \<noteq> None" by code_simp
  then obtain ops where ops: "write_long_term_rps ?r sample_hevc 8 = Some ops" by blast
  from hevc_long_term_roundtrip [OF ops f(1,4) v, of "[True]"] f ops show ?thesis by simp
qed

end
