(* ===== verification/VP9.thy ===== *)
theory VP9
  imports Nal
begin

text \<open>
  The VP9 uncompressed header parser of \<open>src/vp9.c\<close> and the synthesis of a one-byte
  \<open>show_existing_frame\<close> packet. A \<open>BitReader\<close> is a byte array with its size in bits and a cursor;
  reading a byte outside the array is a \<open>Fault\<close>, a \<open>false\<close> result is \<open>Fail\<close>.

  The specification describes the headers by the frames of the VP9 bitstream syntax:
  \<open>vp9_bits p f\<close> are the bits of the header of frame \<open>f\<close> in profile \<open>p\<close>.
\<close>

unbundle bit_operations_syntax

record BitReader =
  rd_data :: "u8 list"
  rd_bit_size :: nat
  rd_bit_pos :: nat

fun read_bits_loop :: "BitReader \<Rightarrow> nat \<Rightarrow> u32 \<Rightarrow> (u32 \<times> BitReader) outcome" where
  "read_bits_loop reader 0 result = Ok (result, reader)"
| "read_bits_loop reader (Suc i) result =
     (let pos = rd_bit_pos reader
      in if pos div 8 < length (rd_data reader)
         then read_bits_loop (reader\<lparr>rd_bit_pos := pos + 1\<rparr>) i
                (push_bit 1 result OR (ucast (drop_bit (7 - pos mod 8) (rd_data reader ! (pos div 8))) AND 1))
         else Fault)"

definition read_bits :: "BitReader \<Rightarrow> nat \<Rightarrow> (u32 \<times> BitReader) outcome" where
  "read_bits reader cnt =
     (if cnt > 32 \<or> rd_bit_pos reader > rd_bit_size reader \<or>
         cnt > rd_bit_size reader - rd_bit_pos reader
      then Fail else read_bits_loop reader cnt 0)"

definition read_profile :: "BitReader \<Rightarrow> (u8 \<times> BitReader) outcome" where
  "read_profile reader =
     obind (read_bits reader 1) (\<lambda>(low_bit, reader).
     obind (read_bits reader 1) (\<lambda>(high_bit, reader).
       let parsed = low_bit OR push_bit 1 high_bit
       in if parsed = 3
          then obind (read_bits reader 1) (\<lambda>(reserved_zero, reader).
                 if reserved_zero \<noteq> 0 then Fail else Ok (ucast parsed, reader))
          else Ok (ucast parsed, reader)))"

definition skip_color_config :: "BitReader \<Rightarrow> u8 \<Rightarrow> BitReader outcome" where
  "skip_color_config reader profile =
     obind (if profile \<ge> 2
            then obind (read_bits reader 1) (\<lambda>(value, reader).
                   if value \<noteq> 0 then Fail else Ok reader)
            else Ok reader) (\<lambda>reader.
     obind (read_bits reader 3) (\<lambda>(value, reader).
       if value = 7 then Fail
       else obind (read_bits reader 1) (\<lambda>(value, reader). Ok reader)))"

record RKVP9FrameInfo =
  show_existing_frame :: bool
  show_frame :: bool
  frame_to_show_map_idx :: u8
  refresh_frame_flags :: u8

definition vp9_info0 :: RKVP9FrameInfo where
  "vp9_info0 = \<lparr>show_existing_frame = False, show_frame = False,
     frame_to_show_map_idx = 0, refresh_frame_flags = 0\<rparr>"

text \<open>The sync code and, above profile 0, the colour configuration.\<close>

definition vp9_sync_and_color :: "BitReader \<Rightarrow> u8 \<Rightarrow> BitReader outcome" where
  "vp9_sync_and_color reader profile =
     obind (read_bits reader 24) (\<lambda>(value, reader).
       if value \<noteq> 0x498342 then Fail
       else if profile > 0 then skip_color_config reader profile else Ok reader)"

text \<open>The part after the frame type of a frame that is not a key frame.\<close>

definition vp9_non_key ::
    "BitReader \<Rightarrow> u8 \<Rightarrow> RKVP9FrameInfo \<Rightarrow> u32 \<Rightarrow> RKVP9FrameInfo outcome" where
  "vp9_non_key reader profile info error_resilient =
     obind (if \<not> show_frame info then read_bits reader 1 else Ok (0, reader)) (\<lambda>(intra_only, reader).
     obind (if error_resilient = 0
            then obind (read_bits reader 2) (\<lambda>(value, reader). Ok reader)
            else Ok reader) (\<lambda>reader.
     obind (if intra_only \<noteq> 0 then vp9_sync_and_color reader profile else Ok reader) (\<lambda>reader.
     obind (read_bits reader 8) (\<lambda>(value, reader).
       Ok (info\<lparr>refresh_frame_flags := ucast value\<rparr>)))))"

text \<open>A frame that is not a repetition: frame type, visibility, error resilience.\<close>

definition vp9_new_frame :: "BitReader \<Rightarrow> u8 \<Rightarrow> RKVP9FrameInfo outcome" where
  "vp9_new_frame reader profile =
     obind (read_bits reader 1) (\<lambda>(frame_type, reader).
     obind (read_bits reader 1) (\<lambda>(value, reader).
     obind (read_bits reader 1) (\<lambda>(error_resilient, reader).
       let info = vp9_info0\<lparr>show_frame := (value \<noteq> 0)\<rparr>
       in if frame_type = 0
          then obind (vp9_sync_and_color reader profile) (\<lambda>reader.
                 Ok (info\<lparr>refresh_frame_flags := 0xff\<rparr>))
          else vp9_non_key reader profile info error_resilient)))"

text \<open>The header from \<open>show_existing_frame\<close> on.\<close>

definition vp9_frame_header :: "BitReader \<Rightarrow> u8 \<Rightarrow> RKVP9FrameInfo outcome" where
  "vp9_frame_header reader profile =
     obind (read_bits reader 1) (\<lambda>(value, reader).
     if value \<noteq> 0
     then obind (read_bits reader 3) (\<lambda>(value, reader).
            Ok (vp9_info0\<lparr>show_existing_frame := True, show_frame := True,
                          frame_to_show_map_idx := ucast value\<rparr>))
     else vp9_new_frame reader profile)"

definition rk_vp9_parse_frame :: "u8 list \<Rightarrow> u8 \<Rightarrow> RKVP9FrameInfo outcome" where
  "rk_vp9_parse_frame data profile =
     (if data = [] \<or> (profile \<noteq> 0 \<and> profile \<noteq> 2) \<or> length data > (2 ^ 64 - 1) div 8 then Fail
      else
        let reader = \<lparr>rd_data = data, rd_bit_size = length data * 8, rd_bit_pos = 0\<rparr>
        in obind (read_bits reader 2) (\<lambda>(value, reader).
           if value \<noteq> 2 then Fail else
           obind (read_profile reader) (\<lambda>(parsed_profile, reader).
           if parsed_profile \<noteq> profile then Fail else vp9_frame_header reader profile)))"

definition rk_vp9_make_show_existing :: "u8 \<Rightarrow> u8 \<Rightarrow> u8 option" where
  "rk_vp9_make_show_existing profile slot =
     (if (profile \<noteq> 0 \<and> profile \<noteq> 2) \<or> slot \<ge> 8 then None
      else Some (0x88 OR (if profile = 2 then 0x10 else 0) OR slot))"

section \<open>Specification\<close>

datatype vp9_frame =
    ShowExisting "bool list"
  | KeyFrame bool bool "bool list"
  | InterFrame bool bool "(bool list) option" "bool list" "bool list"

definition sync_code :: "bool list" where
  "sync_code = word_bits 24 (0x498342 :: u32)"

text \<open>The colour configuration of profile 2: 8 or 10 bits, a colour space, a range flag.\<close>

definition color_ok :: "u8 \<Rightarrow> bool list \<Rightarrow> bool" where
  "color_ok p c \<longleftrightarrow> (if p = 2 then length c = 5 \<and> \<not> c ! 0 \<and> \<not> (c ! 1 \<and> c ! 2 \<and> c ! 3) else c = [])"

fun vp9_tail :: "vp9_frame \<Rightarrow> bool list" where
  "vp9_tail (ShowExisting slot) = True # slot"
| "vp9_tail (KeyFrame show er color) = [False, False, show, er] @ sync_code @ color"
| "vp9_tail (InterFrame show er intra reset refresh) =
     [False, True, show, er] @ (if show then [] else [intra \<noteq> None]) @ reset @
     (case intra of None \<Rightarrow> [] | Some color \<Rightarrow> sync_code @ color) @ refresh"

definition vp9_bits :: "u8 \<Rightarrow> vp9_frame \<Rightarrow> bool list" where
  "vp9_bits p f = [True, False, False, p = 2] @ vp9_tail f"

fun vp9_frame_ok :: "u8 \<Rightarrow> vp9_frame \<Rightarrow> bool" where
  "vp9_frame_ok p (ShowExisting slot) \<longleftrightarrow> length slot = 3"
| "vp9_frame_ok p (KeyFrame show er color) \<longleftrightarrow> color_ok p color"
| "vp9_frame_ok p (InterFrame show er intra reset refresh) \<longleftrightarrow>
     (show \<longrightarrow> intra = None) \<and> (case intra of None \<Rightarrow> True | Some color \<Rightarrow> color_ok p color) \<and>
     length reset = (if er then 0 else 2) \<and> length refresh = 8"

fun vp9_info :: "vp9_frame \<Rightarrow> RKVP9FrameInfo" where
  "vp9_info (ShowExisting slot) = \<lparr>show_existing_frame = True, show_frame = True,
     frame_to_show_map_idx = of_nat (bits_val slot), refresh_frame_flags = 0\<rparr>"
| "vp9_info (KeyFrame show er color) = \<lparr>show_existing_frame = False, show_frame = show,
     frame_to_show_map_idx = 0, refresh_frame_flags = 0xff\<rparr>"
| "vp9_info (InterFrame show er intra reset refresh) = \<lparr>show_existing_frame = False,
     show_frame = show, frame_to_show_map_idx = 0, refresh_frame_flags = of_nat (bits_val refresh)\<rparr>"

section \<open>The reader on bit lists\<close>

definition rd_wf :: "BitReader \<Rightarrow> bool" where
  "rd_wf r \<longleftrightarrow> rd_bit_size r = length (rd_data r) * 8 \<and> rd_bit_pos r \<le> rd_bit_size r"

definition rd_rest :: "BitReader \<Rightarrow> bool list" where
  "rd_rest r = drop (rd_bit_pos r) (bytes_bits (rd_data r))"

definition rd_adv :: "BitReader \<Rightarrow> nat \<Rightarrow> BitReader" where
  "rd_adv r n = r\<lparr>rd_bit_pos := rd_bit_pos r + n\<rparr>"

lemma length_rd_rest: "rd_wf r \<Longrightarrow> length (rd_rest r) = rd_bit_size r - rd_bit_pos r"
  by (simp add: rd_wf_def rd_rest_def)

lemma rd_adv_wf: "rd_wf r \<Longrightarrow> n \<le> length (rd_rest r) \<Longrightarrow> rd_wf (rd_adv r n)"
  by (auto simp: rd_wf_def rd_adv_def rd_rest_def)

lemma rd_rest_adv: "rd_rest (rd_adv r n) = drop n (rd_rest r)"
  by (simp add: rd_rest_def rd_adv_def add.commute)

lemma read_bits_loop_val:
  "rd_wf r \<Longrightarrow> n \<le> length (rd_rest r) \<Longrightarrow>
     read_bits_loop r n x = Ok (shift_in x (take n (rd_rest r)), rd_adv r n)"
proof (induction n arbitrary: r x)
  case (Suc n)
  let ?p = "rd_bit_pos r" and ?b = "bit (rd_data r ! (rd_bit_pos r div 8)) (7 - rd_bit_pos r mod 8)"
  from Suc.prems have p: "?p < 8 * length (rd_data r)"
    by (auto simp: rd_wf_def rd_rest_def)
  then have rest: "rd_rest r = ?b # rd_rest (rd_adv r 1)"
    by (simp add: rd_rest_def rd_adv_def drop_eq_Cons_nth nth_bytes_bits)
  have "rd_wf (rd_adv r 1)" using Suc.prems by (intro rd_adv_wf) simp_all
  moreover have "n \<le> length (rd_rest (rd_adv r 1))" using Suc.prems rest by simp
  ultimately have "read_bits_loop (rd_adv r 1) n (2 * x + of_bool ?b) =
      Ok (shift_in (2 * x + of_bool ?b) (take n (rd_rest (rd_adv r 1))), rd_adv (rd_adv r 1) n)"
    by (rule Suc.IH)
  moreover have "read_bits_loop r (Suc n) x = read_bits_loop (rd_adv r 1) n (2 * x + of_bool ?b)"
    using p by (simp only: read_bits_loop.simps Let_def ucast_bit_and_1 shift_in_bit rd_adv_def)
      (simp add: less_mult_imp_div_less mult.commute)
  ultimately show ?case
    by (simp only: rest take_Suc_Cons shift_in_simps) (simp add: rd_adv_def)
qed (simp add: rd_adv_def)

lemma read_bits_val:
  "rd_wf r \<Longrightarrow> n \<le> 32 \<Longrightarrow> read_bits r n =
     (if n \<le> length (rd_rest r) then Ok (of_nat (bits_val (take n (rd_rest r))), rd_adv r n) else Fail)"
  using read_bits_loop_val [of r n 0]
  by (auto simp: read_bits_def length_rd_rest shift_in_zero rd_wf_def)

lemma read_bits_not_Fault: "rd_wf r \<Longrightarrow> n \<le> 32 \<Longrightarrow> read_bits r n \<noteq> Fault"
  by (simp add: read_bits_val)

lemma read_bits_OkD:
  assumes "read_bits r n = Ok (v, r')" and "rd_wf r" and "n \<le> 32"
  shows "rd_wf r' \<and> (\<exists>bs. length bs = n \<and> rd_rest r = bs @ rd_rest r' \<and> v = of_nat (bits_val bs))"
proof -
  from assms have n: "n \<le> length (rd_rest r)" and v: "v = of_nat (bits_val (take n (rd_rest r)))"
    and r': "r' = rd_adv r n"
    by (auto simp: read_bits_val split: if_splits)
  show ?thesis
    using rd_adv_wf [OF assms(2) n] n unfolding r' v rd_rest_adv
    by (intro conjI exI [of _ "take n (rd_rest r)"]) simp_all
qed

text \<open>The reader stands before the bits \<open>bits\<close>.\<close>

definition rd_at :: "BitReader \<Rightarrow> bool list \<Rightarrow> bool" where
  "rd_at r bits \<longleftrightarrow> rd_wf r \<and> rd_rest r = bits"

lemma bind_read_inv:
  assumes "obind (read_bits r n) f = Ok y" and "rd_at r bits" and "n \<le> 32"
  shows "\<exists>bs rest r'. bits = bs @ rest \<and> length bs = n \<and> rd_at r' rest \<and>
    f (of_nat (bits_val bs), r') = Ok y"
  using assms read_bits_OkD [of r n] by (fastforce simp: rd_at_def)

lemma bind_read1_inv:
  assumes "obind (read_bits r 1) f = Ok y" and "rd_at r bits"
  shows "\<exists>b rest r'. bits = b # rest \<and> rd_at r' rest \<and> f (of_bool b, r') = Ok y"
proof -
  from bind_read_inv [OF assms] obtain bs rest r' where *: "bits = bs @ rest" "length bs = 1"
    "rd_at r' rest" "f (of_nat (bits_val bs), r') = Ok y" by auto
  then obtain b where "bs = [b]" by (cases bs) auto
  with * show ?thesis by (auto simp: bits_val_Cons)
qed

section \<open>The parser accepts exactly the headers of the specification\<close>

lemmas rd_eval = read_bits_val rd_adv_wf rd_rest_adv

lemma length_sync_code [simp]: "length sync_code = 24"
  by (simp add: sync_code_def)

lemma bits_val_sync_code [simp]: "bits_val sync_code = 4817730"
  by (simp add: sync_code_def bits_val_word_bits_small)

lemma color_ok_cases:
  assumes "color_ok 2 c"
  obtains x y z d where "c = [False, x, y, z, d]" and "\<not> (x \<and> y \<and> z)"
  using assms by (auto simp: color_ok_def length_Suc_conv numeral_eq_Suc)

lemma skip_color_at:
  assumes "rd_at r (c @ rest)" and "color_ok 2 c"
  shows "\<exists>r'. skip_color_config r 2 = Ok r' \<and> rd_at r' rest"
proof -
  from assms(2) obtain x y z d where c: "c = [False, x, y, z, d]" "\<not> (x \<and> y \<and> z)"
    by (rule color_ok_cases)
  with assms(1) show ?thesis
    by (auto simp: skip_color_config_def rd_at_def rd_eval bits_val_Cons numeral_3_eq_3
        split: if_splits)
qed

lemma sync_and_color_at:
  assumes "rd_at r (sync_code @ c @ rest)" and "color_ok p c" and "p = 0 \<or> p = 2"
  shows "\<exists>r'. vp9_sync_and_color r p = Ok r' \<and> rd_at r' rest"
proof -
  have "rd_at (rd_adv r 24) (c @ rest)" and "read_bits r 24 = Ok (0x498342, rd_adv r 24)"
    using assms(1) by (simp_all add: rd_at_def rd_eval)
  with assms(2,3) skip_color_at [of "rd_adv r 24" c rest] show ?thesis
    by (auto simp: vp9_sync_and_color_def color_ok_def)
qed

lemma read_profile_at:
  assumes "rd_at r (False # h # rest)"
  shows "\<exists>r'. read_profile r = Ok (if h then 2 else 0, r') \<and> rd_at r' rest"
  using assms by (cases h) (simp_all add: read_profile_def rd_at_def rd_eval bits_val_Cons)

lemma vp9_non_key_at:
  assumes "rd_at r (tl (tl (tl (tl (vp9_tail (InterFrame show er intra reset refresh))))) @ rest)"
    and "vp9_frame_ok p (InterFrame show er intra reset refresh)" and "p = 0 \<or> p = 2"
    and "show_frame info = show"
  shows "vp9_non_key r p info (of_bool er) =
    Ok (info\<lparr>refresh_frame_flags := ucast (of_nat (bits_val refresh) :: u32)\<rparr>)"
proof -
  let ?sync = "case intra of None \<Rightarrow> [] | Some color \<Rightarrow> sync_code @ color"
  let ?r1 = "if show then r else rd_adv r 1"
  let ?r2 = "if er then ?r1 else rd_adv ?r1 2"
  have l: "length reset = (if er then 0 else 2)" "length refresh = 8" "show \<longrightarrow> intra = None"
    using assms(2) by simp_all
  have r1: "rd_at ?r1 (reset @ ?sync @ refresh @ rest)"
    and s1: "(if \<not> show_frame info then read_bits r 1 else Ok (0, r)) =
      Ok (of_bool (intra \<noteq> None), ?r1)"
    using assms(1,4) l(3) by (auto simp: rd_at_def rd_eval bits_val_Cons)
  have r2: "rd_at ?r2 (?sync @ refresh @ rest)"
    and s2: "(if of_bool er = (0 :: u32) then obind (read_bits ?r1 2) (\<lambda>(value, reader). Ok reader)
      else Ok ?r1) = Ok ?r2"
    using r1 l(1) by (auto simp: rd_at_def rd_eval split: if_splits)
  obtain r3 where r3: "rd_at r3 (refresh @ rest)"
    and s3: "(if of_bool (intra \<noteq> None) \<noteq> (0 :: u32) then vp9_sync_and_color ?r2 p else Ok ?r2) = Ok r3"
  proof (cases intra)
    case None
    with r2 that [of ?r2] show thesis by simp
  next
    case (Some c)
    with r2 assms(2,3) sync_and_color_at [of ?r2 c "refresh @ rest" p] that show thesis by auto
  qed
  have "read_bits r3 8 = Ok (of_nat (bits_val refresh), rd_adv r3 8)"
    using r3 l(2) by (simp add: rd_at_def rd_eval)
  then show ?thesis
    unfolding vp9_non_key_def s1 obind.simps prod.case s2 s3 by simp
qed

lemma ucast_of_nat_byte [simp]: "ucast (of_nat k :: u32) = (of_nat k :: u8)"
  by transfer (simp add: take_bit_take_bit)

lemma vp9_parse_complete:
  assumes "p = 0 \<or> p = 2" and "length data \<le> (2 ^ 64 - 1) div 8" and "vp9_frame_ok p f"
    and "bytes_bits data = vp9_bits p f @ rest"
  shows "rk_vp9_parse_frame data p = Ok (vp9_info f)"
proof -
  let ?r = "\<lparr>rd_data = data, rd_bit_size = length data * 8, rd_bit_pos = 0\<rparr>"
  have "data \<noteq> []" using assms(4) by (auto simp: vp9_bits_def)
  have r0: "rd_at ?r ([True, False] @ False # (p = 2) # vp9_tail f @ rest)"
    using assms(4) by (simp add: rd_at_def rd_wf_def rd_rest_def vp9_bits_def)
  then have s1: "read_bits ?r 2 = Ok (2, rd_adv ?r 2)"
    and r1: "rd_at (rd_adv ?r 2) (False # (p = 2) # vp9_tail f @ rest)"
    by (simp_all add: rd_at_def rd_eval bits_val_Cons)
  obtain r2 where s2: "read_profile (rd_adv ?r 2) = Ok (p, r2)" and r2: "rd_at r2 (vp9_tail f @ rest)"
    using read_profile_at [OF r1] assms(1) by auto
  have head: "rk_vp9_parse_frame data p = vp9_frame_header r2 p"
    using \<open>data \<noteq> []\<close> assms(1,2) by (auto simp: rk_vp9_parse_frame_def s1 s2)
  show ?thesis
  proof (cases f)
    case (ShowExisting slot)
    with r2 assms(3) show ?thesis
      by (simp add: head vp9_frame_header_def vp9_new_frame_def rd_at_def rd_eval bits_val_Cons vp9_info0_def)
  next
    case (KeyFrame sh er color)
    let ?r3 = "rd_adv (rd_adv (rd_adv (rd_adv r2 1) 1) 1) 1"
    have "rd_at ?r3 (sync_code @ color @ rest)"
      using r2 KeyFrame by (simp add: rd_at_def rd_eval)
    with sync_and_color_at assms(1,3) KeyFrame obtain r' where "vp9_sync_and_color ?r3 p = Ok r'"
      by fastforce
    with r2 KeyFrame show ?thesis
      by (cases sh; cases er) (simp_all add: head vp9_frame_header_def vp9_new_frame_def rd_at_def rd_eval bits_val_Cons vp9_info0_def)
  next
    case (InterFrame sh er intra reset refresh)
    let ?r3 = "rd_adv (rd_adv (rd_adv (rd_adv r2 1) 1) 1) 1"
    have "rd_at ?r3 (tl (tl (tl (tl (vp9_tail f)))) @ rest)"
      using r2 InterFrame by (simp add: rd_at_def rd_eval)
    note nk = vp9_non_key_at [OF this [unfolded InterFrame], of p, folded InterFrame, OF assms(3,1)]
    show ?thesis
      using r2 InterFrame nk [of "vp9_info0\<lparr>show_frame := sh\<rparr>"]
      by (cases sh; cases er) (simp_all add: head vp9_frame_header_def vp9_new_frame_def rd_at_def rd_eval bits_val_Cons vp9_info0_def)
  qed
qed

text \<open>Conversely, whatever the parser accepts is a header of the specification.\<close>

lemma bits_eq_sync:
  "length bs = 24 \<Longrightarrow> (of_nat (bits_val bs) :: u32) = 0x498342 \<Longrightarrow> bs = sync_code"
proof -
  assume l: "length bs = 24" and "(of_nat (bits_val bs) :: u32) = 0x498342"
  then have "bits_val bs = bits_val sync_code" using unat_bits_val [of bs] by simp
  with l show ?thesis by (intro bits_val_inj) simp_all
qed

lemma skip_color_inv:
  assumes "skip_color_config r 2 = Ok r'" and "rd_at r bits"
  shows "\<exists>c rest. bits = c @ rest \<and> color_ok 2 c \<and> rd_at r' rest"
proof -
  let ?tail = "\<lambda>reader. obind (read_bits reader 3) (\<lambda>(value, reader).
       if value = 7 then Fail else obind (read_bits reader 1) (\<lambda>(value, reader). Ok reader))"
  from assms(1) have "obind (read_bits r 1) (\<lambda>(value, reader).
      if value \<noteq> 0 then Fail else ?tail reader) = Ok r'"
    by (auto simp: skip_color_config_def split: if_splits)
  from bind_read1_inv [OF this assms(2)] obtain rest1 r1
    where 1: "bits = False # rest1" "rd_at r1 rest1" "?tail r1 = Ok r'"
    by (auto split: if_splits)
  from bind_read_inv [OF 1(3,2)] obtain bs rest2 r2
    where 2: "rest1 = bs @ rest2" "length bs = 3" "rd_at r2 rest2"
      "(of_nat (bits_val bs) :: u32) \<noteq> 7" "obind (read_bits r2 1) (\<lambda>(value, reader). Ok reader) = Ok r'"
    by (auto split: if_splits)
  from bind_read1_inv [OF 2(5,3)] obtain d rest3 where 3: "rest2 = d # rest3" "rd_at r' rest3"
    by auto
  from 2(2) obtain x y z where bs: "bs = [x, y, z]" by (auto simp: length_Suc_conv numeral_eq_Suc)
  with 2(4) have "\<not> (x \<and> y \<and> z)" by (auto simp: bits_val_Cons)
  then have "color_ok 2 (False # bs @ [d])" by (simp add: color_ok_def bs)
  moreover have "bits = (False # bs @ [d]) @ rest3" by (simp add: 1(1) 2(1) 3(1))
  ultimately show ?thesis using 3(2) by blast
qed

lemma sync_and_color_inv:
  assumes "vp9_sync_and_color r p = Ok r'" and "rd_at r bits" and "p = 0 \<or> p = 2"
  shows "\<exists>c rest. bits = sync_code @ c @ rest \<and> color_ok p c \<and> rd_at r' rest"
proof -
  from bind_read_inv [OF assms(1) [unfolded vp9_sync_and_color_def] assms(2)] obtain bs rest r1
    where 1: "bits = bs @ rest" "length bs = 24" "rd_at r1 rest"
      "(of_nat (bits_val bs) :: u32) = 0x498342"
      "(if p > 0 then skip_color_config r1 p else Ok r1) = Ok r'"
    by (auto split: if_splits)
  then have bits: "bits = sync_code @ rest" using bits_eq_sync by simp
  show ?thesis
  proof (cases "p = 0")
    case True
    with 1 bits show ?thesis
      by (intro exI [of _ "[]"] exI [of _ rest]) (simp add: color_ok_def)
  next
    case False
    with assms(3) have "p = 2" by simp
    with 1 have "skip_color_config r1 2 = Ok r'" by simp
    from skip_color_inv [OF this 1(3)] \<open>p = 2\<close> bits show ?thesis by auto
  qed
qed

lemma vp9_non_key_inv:
  assumes "vp9_non_key r p info (of_bool er) = Ok info'" and "rd_at r bits" and "p = 0 \<or> p = 2"
  shows "\<exists>intra reset refresh rest.
    bits = tl (tl (tl (tl (vp9_tail (InterFrame (show_frame info) er intra reset refresh))))) @ rest \<and>
    vp9_frame_ok p (InterFrame (show_frame info) er intra reset refresh) \<and>
    info' = info\<lparr>refresh_frame_flags := of_nat (bits_val refresh)\<rparr>"
proof -
  let ?last = "\<lambda>reader. obind (read_bits reader 8)
      (\<lambda>(value, reader). Ok (info\<lparr>refresh_frame_flags := ucast value\<rparr>))"
  obtain intra r1 rest1
    where 1: "bits = (if show_frame info then [] else [intra]) @ rest1" "rd_at r1 rest1"
      "intra \<longrightarrow> \<not> show_frame info"
      "obind (if of_bool er = (0 :: u32) then obind (read_bits r1 2) (\<lambda>(value, reader). Ok reader)
              else Ok r1) (\<lambda>reader.
       obind (if intra then vp9_sync_and_color reader p else Ok reader) ?last) = Ok info'"
  proof (cases "show_frame info")
    case True
    with assms(1,2) that [of False bits r] show thesis by (simp add: vp9_non_key_def)
  next
    case False
    with assms(1) have "obind (read_bits r 1) (\<lambda>(intra_only, reader).
        obind (if of_bool er = (0 :: u32)
               then obind (read_bits reader 2) (\<lambda>(value, reader). Ok reader) else Ok reader) (\<lambda>reader.
        obind (if intra_only \<noteq> 0 then vp9_sync_and_color reader p else Ok reader) ?last)) = Ok info'"
      by (simp only: vp9_non_key_def simp_thms if_True)
    from bind_read1_inv [OF this assms(2)] obtain b rest r'
      where "bits = b # rest" "rd_at r' rest"
        "obind (if of_bool er = (0 :: u32)
               then obind (read_bits r' 2) (\<lambda>(value, reader). Ok reader) else Ok r') (\<lambda>reader.
        obind (if of_bool b \<noteq> (0 :: u32) then vp9_sync_and_color reader p else Ok reader) ?last) = Ok info'"
      by (simp only: prod.case) blast
    with False that [of b rest r'] show thesis by (simp add: of_bool_eq_0_iff)
  qed
  obtain reset r2 rest2
    where 2: "rest1 = reset @ rest2" "rd_at r2 rest2" "length reset = (if er then 0 else 2)"
      "obind (if intra then vp9_sync_and_color r2 p else Ok r2) ?last = Ok info'"
  proof (cases er)
    case True
    with 1 that [of "[]" rest1 r1] show thesis by simp
  next
    case False
    with 1(4) have "obind (read_bits r1 2) (\<lambda>(value, reader).
        obind (if intra then vp9_sync_and_color reader p else Ok reader) ?last) = Ok info'"
      by (simp add: obind_assoc case_prod_unfold)
    from bind_read_inv [OF this 1(2)] False that show thesis by auto
  qed
  obtain color r3 rest3
    where 3: "rest2 = (if intra then sync_code @ color else []) @ rest3" "rd_at r3 rest3"
      "intra \<longrightarrow> color_ok p color" "?last r3 = Ok info'"
  proof (cases intra)
    case True
    with 2(4) obtain r' where "vp9_sync_and_color r2 p = Ok r'" "?last r' = Ok info'" by auto
    with sync_and_color_inv [OF _ 2(2) assms(3)] True that show thesis by fastforce
  next
    case False
    with 2 that [of "[]" rest2 r2] show thesis by simp
  qed
  from bind_read_inv [OF 3(4,2)] obtain refresh rest4
    where 4: "rest3 = refresh @ rest4" "length refresh = 8"
      "info' = info\<lparr>refresh_frame_flags := of_nat (bits_val refresh)\<rparr>"
    by auto
  show ?thesis
    by (rule exI [of _ "if intra then Some color else None"], rule exI [of _ reset],
        rule exI [of _ refresh], rule exI [of _ rest4])
      (use 1 2 3 4 in auto)
qed

lemma read_profile_inv:
  assumes "read_profile r = Ok (p, r')" and "rd_at r bits" and "p = 0 \<or> p = 2"
  shows "\<exists>rest. bits = False # (p = 2) # rest \<and> rd_at r' rest"
proof -
  from bind_read1_inv [OF assms(1) [unfolded read_profile_def] assms(2)] obtain lo rest1 r1
    where 1: "bits = lo # rest1" "rd_at r1 rest1"
      "obind (read_bits r1 1) (\<lambda>(high_bit, reader).
         let parsed = of_bool lo OR push_bit 1 high_bit
         in if parsed = 3
            then obind (read_bits reader 1) (\<lambda>(reserved_zero, reader).
                   if reserved_zero \<noteq> 0 then Fail else Ok (ucast parsed, reader))
            else Ok (ucast parsed, reader)) = Ok (p, r')"
    by (simp only: prod.case) blast
  from bind_read1_inv [OF 1(3,2)] obtain hi rest2 r2
    where 2: "rest1 = hi # rest2" "rd_at r2 rest2"
      "(let parsed = of_bool lo OR push_bit 1 (of_bool hi) :: u32
        in if parsed = 3
           then obind (read_bits r2 1) (\<lambda>(reserved_zero, reader).
                  if reserved_zero \<noteq> 0 then Fail else Ok (ucast parsed, reader))
           else Ok (ucast parsed, r2)) = Ok (p, r')"
    by (simp only: prod.case) blast
  from 2(3) assms(3) have "\<not> lo \<and> p = (if hi then 2 else 0) \<and> r' = r2"
    by (cases lo; cases hi) (auto split: if_splits)
  with 1 2 show ?thesis by auto
qed

lemma vp9_new_frame_bits:
  assumes "vp9_new_frame r p = Ok info" and "rd_at r bits"
  shows "\<exists>ft sh er rest r'. bits = [ft, sh, er] @ rest \<and> rd_at r' rest \<and>
    (if ft then vp9_non_key r' p (vp9_info0\<lparr>show_frame := sh\<rparr>) (of_bool er)
     else obind (vp9_sync_and_color r' p) (\<lambda>reader.
            Ok (vp9_info0\<lparr>show_frame := sh, refresh_frame_flags := 0xff\<rparr>))) = Ok info"
proof -
  let ?k = "\<lambda>frame_type value error_resilient reader.
     let info = vp9_info0\<lparr>show_frame := (value \<noteq> (0 :: u32))\<rparr>
     in if frame_type = (0 :: u32)
        then obind (vp9_sync_and_color reader p) (\<lambda>reader. Ok (info\<lparr>refresh_frame_flags := 0xff\<rparr>))
        else vp9_non_key reader p info error_resilient"
  note s = assms(1) [unfolded vp9_new_frame_def]
  from bind_read1_inv [OF s assms(2), unfolded prod.case] obtain ft rest1 r1
    where 1: "bits = ft # rest1" "rd_at r1 rest1" and s1: "obind (read_bits r1 1) (\<lambda>(value, reader).
       obind (read_bits reader 1) (\<lambda>(er, reader). ?k (of_bool ft) value er reader)) = Ok info" by blast
  from bind_read1_inv [OF s1 1(2), unfolded prod.case] obtain sh rest2 r2
    where 2: "rest1 = sh # rest2" "rd_at r2 rest2" and s2: "obind (read_bits r2 1)
       (\<lambda>(er, reader). ?k (of_bool ft) (of_bool sh) er reader) = Ok info" by blast
  from bind_read1_inv [OF s2 2(2), unfolded prod.case] obtain er rest3 r3
    where 3: "rest2 = er # rest3" "rd_at r3 rest3" and s3:
      "?k (of_bool ft) (of_bool sh) (of_bool er) r3 = Ok info" by blast
  from 1 2 3 s3 show ?thesis
    by (intro exI [of _ ft] exI [of _ sh] exI [of _ er] exI [of _ rest3] exI [of _ r3]) auto
qed

lemma vp9_new_frame_inv:
  assumes "vp9_new_frame r p = Ok info" and "rd_at r bits" and "p = 0 \<or> p = 2"
  shows "\<exists>f rest. vp9_frame_ok p f \<and> False # bits = vp9_tail f @ rest \<and> info = vp9_info f"
proof -
  from vp9_new_frame_bits [OF assms(1,2)] obtain ft sh er rest4 r4
    where bits: "bits = [ft, sh, er] @ rest4" and at: "rd_at r4 rest4" and k:
      "(if ft then vp9_non_key r4 p (vp9_info0\<lparr>show_frame := sh\<rparr>) (of_bool er)
        else obind (vp9_sync_and_color r4 p) (\<lambda>reader.
               Ok (vp9_info0\<lparr>show_frame := sh, refresh_frame_flags := 0xff\<rparr>))) = Ok info" by blast
  show ?thesis
  proof (cases ft)
    case True
    with k have nk: "vp9_non_key r4 p (vp9_info0\<lparr>show_frame := sh\<rparr>) (of_bool er) = Ok info" by simp
    from vp9_non_key_inv [OF nk at assms(3)] obtain intra reset refresh rest
      where *: "rest4 = tl (tl (tl (tl (vp9_tail (InterFrame sh er intra reset refresh))))) @ rest"
        "vp9_frame_ok p (InterFrame sh er intra reset refresh)"
        "info = vp9_info (InterFrame sh er intra reset refresh)"
      by (auto simp: vp9_info0_def)
    with bits True show ?thesis
      by (intro exI [of _ "InterFrame sh er intra reset refresh"] exI [of _ rest]) simp
  next
    case False
    with k obtain r' where s: "vp9_sync_and_color r4 p = Ok r'"
      "info = vp9_info0\<lparr>show_frame := sh, refresh_frame_flags := 0xff\<rparr>" by auto
    from sync_and_color_inv [OF s(1) at assms(3)] obtain c rest
      where "rest4 = sync_code @ c @ rest" "color_ok p c" by blast
    with bits False s(2) show ?thesis
      by (intro exI [of _ "KeyFrame sh er c"] exI [of _ rest]) (simp add: vp9_info0_def)
  qed
qed

lemma vp9_frame_header_inv:
  assumes "vp9_frame_header r p = Ok info" and "rd_at r bits" and "p = 0 \<or> p = 2"
  shows "\<exists>f rest. vp9_frame_ok p f \<and> bits = vp9_tail f @ rest \<and> info = vp9_info f"
proof -
  from bind_read1_inv [OF assms(1) [unfolded vp9_frame_header_def] assms(2)] obtain ex rest1 r1
    where 1: "bits = ex # rest1" "rd_at r1 rest1" and
      body: "(if ex then obind (read_bits r1 3) (\<lambda>(value, reader).
            Ok (vp9_info0\<lparr>show_existing_frame := True, show_frame := True,
                          frame_to_show_map_idx := ucast value\<rparr>))
       else vp9_new_frame r1 p) = Ok info"
    by (simp only: prod.case of_bool_eq_0_iff not_not) blast
  show ?thesis
  proof (cases ex)
    case True
    with body have "obind (read_bits r1 3) (\<lambda>(value, reader).
            Ok (vp9_info0\<lparr>show_existing_frame := True, show_frame := True,
                          frame_to_show_map_idx := ucast value\<rparr>)) = Ok info" by simp
    from bind_read_inv [OF this 1(2)] obtain slot rest where
      "rest1 = slot @ rest" "length slot = 3" "info = vp9_info (ShowExisting slot)"
      by (auto simp: vp9_info0_def)
    with 1 True show ?thesis by (intro exI [of _ "ShowExisting slot"] exI [of _ rest]) simp
  next
    case False
    with body vp9_new_frame_inv [OF _ 1(2) assms(3)] 1(1) show ?thesis by simp
  qed
qed

lemma vp9_parse_sound:
  assumes "rk_vp9_parse_frame data p = Ok info"
  shows "\<exists>f rest. vp9_frame_ok p f \<and> bytes_bits data = vp9_bits p f @ rest \<and> info = vp9_info f"
proof -
  let ?r = "\<lparr>rd_data = data, rd_bit_size = length data * 8, rd_bit_pos = 0\<rparr>"
  have p: "p = 0 \<or> p = 2" and
    s: "obind (read_bits ?r 2) (\<lambda>(value, reader). if value \<noteq> 2 then Fail else
           obind (read_profile reader) (\<lambda>(parsed_profile, reader).
           if parsed_profile \<noteq> p then Fail else vp9_frame_header reader p)) = Ok info"
    using assms by (auto simp: rk_vp9_parse_frame_def Let_def split: if_splits)
  have at: "rd_at ?r (bytes_bits data)" by (simp add: rd_at_def rd_wf_def rd_rest_def)
  from bind_read_inv [OF s at] obtain m rest1 r1 where 1: "bytes_bits data = m @ rest1" "length m = 2"
      "rd_at r1 rest1" "(of_nat (bits_val m) :: u32) = 2"
      "obind (read_profile r1) (\<lambda>(parsed_profile, reader).
           if parsed_profile \<noteq> p then Fail else vp9_frame_header reader p) = Ok info"
    by (auto split: if_splits)
  from 1(5) obtain r2 where 2: "read_profile r1 = Ok (p, r2)" "vp9_frame_header r2 p = Ok info"
    by (auto split: if_splits)
  from read_profile_inv [OF 2(1) 1(3) p] obtain rest2
    where 3: "rest1 = False # (p = 2) # rest2" "rd_at r2 rest2" by blast
  have "bits_val m = bits_val [True, False]"
    using 1(2,4) unat_bits_val [of m] by (simp add: bits_val_Cons)
  with 1(2) have "m = [True, False]" by (intro bits_val_inj) simp_all
  with vp9_frame_header_inv [OF 2(2) 3(2) p] 1(1) 3(1) show ?thesis
    by (auto simp: vp9_bits_def)
qed

section \<open>Memory safety\<close>

lemma read_bits_wf: "read_bits r n = Ok (v, r') \<Longrightarrow> rd_wf r \<Longrightarrow> n \<le> 32 \<Longrightarrow> rd_wf r'"
  using read_bits_OkD by blast

lemma read_profile_safe:
  "rd_wf r \<Longrightarrow> read_profile r \<noteq> Fault \<and> (\<forall>p r'. read_profile r = Ok (p, r') \<longrightarrow> rd_wf r')"
  by (auto simp: read_profile_def Let_def read_bits_not_Fault dest!: read_bits_wf split: if_splits)

lemma skip_color_safe:
  "rd_wf r \<Longrightarrow> skip_color_config r p \<noteq> Fault \<and> (\<forall>r'. skip_color_config r p = Ok r' \<longrightarrow> rd_wf r')"
  by (auto simp: skip_color_config_def read_bits_not_Fault dest!: read_bits_wf split: if_splits)

lemma sync_and_color_safe:
  "rd_wf r \<Longrightarrow> vp9_sync_and_color r p \<noteq> Fault \<and> (\<forall>r'. vp9_sync_and_color r p = Ok r' \<longrightarrow> rd_wf r')"
  using skip_color_safe
  by (auto simp: vp9_sync_and_color_def read_bits_not_Fault dest!: read_bits_wf split: if_splits)

lemma vp9_non_key_safe: "rd_wf r \<Longrightarrow> vp9_non_key r p info er \<noteq> Fault"
  using sync_and_color_safe
  by (auto simp: vp9_non_key_def read_bits_not_Fault dest!: read_bits_wf split: if_splits)

lemma vp9_new_frame_safe: "rd_wf r \<Longrightarrow> vp9_new_frame r p \<noteq> Fault"
  using sync_and_color_safe vp9_non_key_safe
  by (auto simp: vp9_new_frame_def Let_def read_bits_not_Fault dest!: read_bits_wf split: if_splits)

lemma vp9_parse_safe: "rk_vp9_parse_frame data p \<noteq> Fault"
proof -
  have "rd_wf \<lparr>rd_data = data, rd_bit_size = length data * 8, rd_bit_pos = 0\<rparr>"
    by (simp add: rd_wf_def)
  then show ?thesis
    using read_profile_safe vp9_new_frame_safe
    by (auto simp: rk_vp9_parse_frame_def vp9_frame_header_def Let_def read_bits_not_Fault
        dest!: read_bits_wf split: if_splits)
qed

section \<open>Synthesised show-existing packets\<close>

lemma small_byte_cases:
  assumes "unat (slot :: u8) < 8"
  shows "slot \<in> set [0, 1, 2, 3, 4, 5, 6, 7]"
proof -
  from assms have "unat slot \<in> {0, 1, 2, 3, 4, 5, 6, 7}" by auto
  then have "of_nat (unat slot) \<in> (of_nat ` {0, 1, 2, 3, 4, 5, 6, 7} :: u8 set)" by (rule imageI)
  then show ?thesis by simp
qed

lemma show_existing_table:
  "\<forall>p \<in> set [0, 2 :: u8]. \<forall>slot \<in> set [0, 1, 2, 3, 4, 5, 6, 7 :: u8].
     bytes_bits [0x88 OR (if p = 2 then 0x10 else 0) OR slot] =
       vp9_bits p (ShowExisting (word_bits 3 slot))"
  by code_simp

lemma show_existing_parse:
  assumes "rk_vp9_make_show_existing p slot = Some packet"
  shows "rk_vp9_parse_frame [packet] p =
    Ok \<lparr>show_existing_frame = True, show_frame = True, frame_to_show_map_idx = slot,
        refresh_frame_flags = 0\<rparr>"
proof -
  from assms have p: "p = 0 \<or> p = 2" and s: "unat slot < 8"
    and packet: "packet = 0x88 OR (if p = 2 then 0x10 else 0) OR slot"
    by (auto simp: rk_vp9_make_show_existing_def word_le_nat_alt split: if_splits)
  then have "bytes_bits [packet] = vp9_bits p (ShowExisting (word_bits 3 slot)) @ []"
    using show_existing_table small_byte_cases [OF s] by auto
  from vp9_parse_complete [OF p _ _ this] s show ?thesis
    by (simp add: bits_val_word_bits_small)
qed

section \<open>Properties\<close>

text \<open>
  C33: every well-formed header of a supported profile is accepted, whatever bytes follow it,
  and the visibility, repeated slot and refresh mask are those of the frame.
\<close>

theorem vp9_parse_accepts:
  assumes "p = 0 \<or> p = 2" and "length data \<le> (2 ^ 64 - 1) div 8" and "vp9_frame_ok p f"
    and "bytes_bits data = vp9_bits p f @ rest"
  shows "rk_vp9_parse_frame data p = Ok (vp9_info f)"
  by (rule vp9_parse_complete [OF assms])

theorem vp9_parse_accepts_witness:
  "rk_vp9_parse_frame [0x86, 0x00, 0x40] 0 =
     Ok \<lparr>show_existing_frame = False, show_frame = True, frame_to_show_map_idx = 0, refresh_frame_flags = 1\<rparr>"
proof -
  let ?f = "InterFrame True False None [False, False] [False, False, False, False, False, False, False, True]"
  have "bytes_bits [0x86, 0x00, 0x40] = vp9_bits 0 ?f @ replicate 6 False" by code_simp
  from vp9_parse_accepts [OF _ _ _ this] show ?thesis by (simp add: bits_val_Cons)
qed

text \<open>
  C34: conversely, an accepted packet starts with a well-formed header and the reported
  information is that header's.
\<close>

theorem vp9_parse_only_headers:
  assumes "rk_vp9_parse_frame data p = Ok info"
  shows "\<exists>f rest. vp9_frame_ok p f \<and> bytes_bits data = vp9_bits p f @ rest \<and> info = vp9_info f"
  by (rule vp9_parse_sound [OF assms])

theorem vp9_parse_only_headers_witness:
  "\<exists>f rest. vp9_frame_ok 2 f \<and> bytes_bits [0x9b] = vp9_bits 2 f @ rest \<and>
     \<lparr>show_existing_frame = True, show_frame = True, frame_to_show_map_idx = 3, refresh_frame_flags = 0\<rparr> = vp9_info f"
proof (rule vp9_parse_only_headers)
  have "rk_vp9_make_show_existing 2 3 = Some 0x9b" by code_simp
  then show "rk_vp9_parse_frame [0x9b] 2 = Ok \<lparr>show_existing_frame = True, show_frame = True,
      frame_to_show_map_idx = 3, refresh_frame_flags = 0\<rparr>"
    by (rule show_existing_parse)
qed

text \<open>Parsing never reads outside the packet, for any bytes and any profile.\<close>

theorem vp9_parse_in_bounds: "rk_vp9_parse_frame data profile \<noteq> Fault"
  by (rule vp9_parse_safe)

text \<open>
  A synthesised show-existing packet is parsed back by the driver as a visible repetition
  of the requested slot that refreshes nothing.
\<close>

theorem vp9_show_existing_roundtrip:
  assumes "rk_vp9_make_show_existing p slot = Some packet"
  shows "rk_vp9_parse_frame [packet] p =
    Ok \<lparr>show_existing_frame = True, show_frame = True, frame_to_show_map_idx = slot,
        refresh_frame_flags = 0\<rparr>"
  by (rule show_existing_parse [OF assms])

theorem vp9_show_existing_roundtrip_witness:
  "rk_vp9_parse_frame [0x9d] 2 =
    Ok \<lparr>show_existing_frame = True, show_frame = True, frame_to_show_map_idx = 5,
        refresh_frame_flags = 0\<rparr>"
  by (rule vp9_show_existing_roundtrip) code_simp

end
