(* ===== verification/Object_Ref.thy ===== *)
theory Object_Ref
  imports Prelude
begin

text \<open>
  The reference counts of \<open>src/object_heap.c\<close>. An object is an address in a store that maps it
  to its \<open>refs\<close> counter; the calls of \<open>destroy\<close> are recorded in order. The store operations are
  the functions as a single thread runs them. The second half keeps the atomic instructions
  apart: every thread of the step relation loads, compares and swaps, or subtracts on its own,
  in any interleaving, and the weak compare-exchange may also fail without cause.
\<close>

record obj_store =
  obj_refs :: "nat \<Rightarrow> u32"
  obj_destroyed :: "nat list"

definition rk_object_init :: "nat \<Rightarrow> obj_store \<Rightarrow> obj_store" where
  "rk_object_init obj s = s\<lparr>obj_refs := (obj_refs s)(obj := 1)\<rparr>"

definition rk_object_ref :: "nat \<Rightarrow> obj_store \<Rightarrow> bool \<times> obj_store" where
  "rk_object_ref obj s =
     (let refs = obj_refs s obj
      in if refs \<noteq> 0 \<and> refs \<noteq> - 1
         then (True, s\<lparr>obj_refs := (obj_refs s)(obj := refs + 1)\<rparr>)
         else (False, s))"

definition rk_object_unref :: "nat \<Rightarrow> obj_store \<Rightarrow> obj_store" where
  "rk_object_unref obj s =
     (let previous = obj_refs s obj;
          s = s\<lparr>obj_refs := (obj_refs s)(obj := previous - 1)\<rparr>
      in if previous = 1 then s\<lparr>obj_destroyed := obj_destroyed s @ [obj]\<rparr> else s)"

section \<open>Sequential laws\<close>

lemma rk_object_ref_unref:
  assumes "rk_object_ref obj s = (True, s')"
  shows "rk_object_unref obj s' = s"
proof -
  from assms have "obj_refs s obj \<noteq> 0" "obj_refs s obj \<noteq> - 1"
    and s': "s' = s\<lparr>obj_refs := (obj_refs s)(obj := obj_refs s obj + 1)\<rparr>"
    by (auto simp: rk_object_ref_def Let_def split: if_splits)
  then show ?thesis by (simp add: rk_object_unref_def Let_def)
qed

lemma rk_object_ref_frame:
  "rk_object_ref obj s = (ok, s') \<Longrightarrow> obj' \<noteq> obj \<Longrightarrow> obj_refs s' obj' = obj_refs s obj'"
  by (auto simp: rk_object_ref_def Let_def split: if_splits)

lemma rk_object_unref_frame:
  "obj' \<noteq> obj \<Longrightarrow> obj_refs (rk_object_unref obj s) obj' = obj_refs s obj'"
  by (simp add: rk_object_unref_def Let_def)

section \<open>Concurrent use of one counter\<close>

text \<open>
  \<open>Looping expected\<close> is a thread inside the loop of \<open>rk_object_ref\<close> with the value it last saw.
  The field \<open>held\<close> counts the references that exist outside the object: one for the creator,
  one more for every successful \<open>rk_object_ref\<close>, one less for every \<open>rk_object_unref\<close>.
\<close>

datatype ref_pc = Idle | Looping u32

record ref_state =
  cell :: u32
  pc :: "nat \<Rightarrow> ref_pc"
  held :: nat
  destroys :: nat

definition ref_start :: ref_state where
  "ref_start = \<lparr>cell = 1, pc = (\<lambda>_. Idle), held = 1, destroys = 0\<rparr>"

inductive ref_step :: "ref_state \<Rightarrow> ref_state \<Rightarrow> bool" where
  load: "pc s t = Idle \<Longrightarrow> ref_step s (s\<lparr>pc := (pc s)(t := Looping (cell s))\<rparr>)"
| give_up: "pc s t = Looping refs \<Longrightarrow> refs = 0 \<or> refs = - 1 \<Longrightarrow>
    ref_step s (s\<lparr>pc := (pc s)(t := Idle)\<rparr>)"
| cas_ok: "pc s t = Looping refs \<Longrightarrow> refs \<noteq> 0 \<Longrightarrow> refs \<noteq> - 1 \<Longrightarrow> cell s = refs \<Longrightarrow>
    ref_step s (s\<lparr>cell := refs + 1, pc := (pc s)(t := Idle), held := held s + 1\<rparr>)"
| cas_fail: "pc s t = Looping refs \<Longrightarrow> refs \<noteq> 0 \<Longrightarrow> refs \<noteq> - 1 \<Longrightarrow>
    ref_step s (s\<lparr>pc := (pc s)(t := Looping (cell s))\<rparr>)"
| unref: "pc s t = Idle \<Longrightarrow> held s > 0 \<Longrightarrow>
    ref_step s (s\<lparr>cell := cell s - 1, held := held s - 1,
                 destroys := destroys s + (if cell s = 1 then 1 else 0)\<rparr>)"

inductive_cases ref_stepE: "ref_step s s'"

inductive ref_reach :: "ref_state \<Rightarrow> bool" where
  start: "ref_reach ref_start"
| step: "ref_reach s \<Longrightarrow> ref_step s s' \<Longrightarrow> ref_reach s'"

definition ref_inv :: "ref_state \<Rightarrow> bool" where
  "ref_inv s \<longleftrightarrow> unat (cell s) = held s \<and> destroys s = (if held s = 0 then 1 else 0)"

lemma ref_inv_start: "ref_inv ref_start"
  by (simp add: ref_inv_def ref_start_def)

lemma unat_minus_one_pos: "w \<noteq> 0 \<Longrightarrow> unat (w - 1) = unat w - 1" for w :: u32
  by (subst unat_sub) (auto simp: word_le_nat_alt word_neq_0_conv [symmetric] unat_gt_0 Suc_le_eq)

lemma unat_plus_one_lt: "w \<noteq> - 1 \<Longrightarrow> unat (w + 1) = unat w + 1" for w :: u32
  by (metis Suc_eq_plus1 add.commute add_eq_0_iff unatSuc)

lemma ref_inv_step:
  assumes "ref_step s s'" and "ref_inv s"
  shows "ref_inv s'"
  using assms
proof cases
  case (cas_ok t refs)
  with assms(2) show ?thesis
    by (auto simp: ref_inv_def unat_plus_one_lt unat_eq_0 split: if_splits)
next
  case (unref t)
  from unref(3) assms(2) have nz: "cell s \<noteq> 0" by (auto simp: ref_inv_def)
  have "cell s = 1 \<longleftrightarrow> held s = 1"
    using assms(2) unat_eq_lit_u32 [of "cell s" 1] by (auto simp: ref_inv_def)
  with unref assms(2) show ?thesis
    by (auto simp: ref_inv_def unat_minus_one_pos [OF nz])
qed (auto simp: ref_inv_def)

lemma ref_inv_reach: "ref_reach s \<Longrightarrow> ref_inv s"
  by (induction rule: ref_reach.induct) (auto intro: ref_inv_start ref_inv_step)

text \<open>Once the object is destroyed no interleaving obtains a reference again.\<close>

lemma ref_dead_step:
  "ref_step s s' \<Longrightarrow> ref_inv s \<Longrightarrow> held s = 0 \<Longrightarrow> held s' = 0 \<and> destroys s' = 1"
  by (erule ref_stepE) (auto simp: ref_inv_def unat_eq_0)

section \<open>Properties\<close>

text \<open>
  C9: in every interleaving of concurrent \<open>rk_object_ref\<close> and \<open>rk_object_unref\<close> calls the counter
  equals the number of outstanding references, and \<open>destroy\<close> has run exactly once if that
  number is zero and never otherwise.
\<close>

theorem ref_count_exact:
  assumes "ref_reach s"
  shows "unat (cell s) = held s \<and> destroys s = (if held s = 0 then 1 else 0)"
  using ref_inv_reach [OF assms] by (simp add: ref_inv_def)

theorem ref_count_exact_witness:
  "unat (cell (ref_start\<lparr>cell := 0, held := 0, destroys := 1\<rparr>)) = 0 \<and>
   destroys (ref_start\<lparr>cell := 0, held := 0, destroys := 1\<rparr>) = 1"
proof -
  have "ref_step ref_start (ref_start\<lparr>cell := 0, held := 0, destroys := 1\<rparr>)"
    using ref_step.unref [of ref_start 0] by (simp add: ref_start_def)
  then have "ref_reach (ref_start\<lparr>cell := 0, held := 0, destroys := 1\<rparr>)"
    using ref_reach.start ref_reach.step by blast
  from ref_count_exact [OF this] show ?thesis by simp
qed

end
