(* ===== verification/Object_Heap.thy ===== *)
theory Object_Heap
  imports Object_Ref
begin

unbundle bit_operations_syntax

text \<open>
  The generation-tagged object heap of \<open>src/object_heap.c\<close>. Identifiers, capacities and slot
  links are 32-bit words with the code's shifts and masks. The slot array is a list whose
  length is the allocated capacity, and an index outside it is a \<open>Fault\<close>. The result of
  \<open>realloc\<close> is the boolean argument \<open>mem\<close>; objects are addresses of \<open>Object_Ref\<close>.

  The specification is a finite map from identifiers to objects (locale \<open>id_map\<close>); the
  refinement shows that insertion yields an identifier never issued before, so that a stale
  identifier cannot reach a newer object.
\<close>

definition NO_SLOT :: u32 where
  "NO_SLOT = - 1"

record RKObjectSlot =
  object :: "nat option"
  next_free :: u32
  generation :: u8
  retired :: bool

record RKObjectHeap =
  heap_type :: u32
  slots :: "RKObjectSlot list"
  capacity :: u32
  high_water :: u32
  free_head :: u32
  heap_count :: u64

definition empty_slot :: RKObjectSlot where
  "empty_slot = \<lparr>object = None, next_free = 0, generation = 0, retired = False\<rparr>"

definition zero_heap :: RKObjectHeap where
  "zero_heap = \<lparr>heap_type = 0, slots = [], capacity = 0, high_water = 0, free_head = 0, heap_count = 0\<rparr>"

definition valid_type :: "u32 \<Rightarrow> bool" where
  "valid_type type \<longleftrightarrow> type \<ge> 1 \<and> type \<le> 5"

definition make_id :: "u32 \<Rightarrow> u8 \<Rightarrow> u32 \<Rightarrow> u32" where
  "make_id type gen index = push_bit 28 type OR push_bit 20 (ucast gen) OR index"

definition decode_id :: "RKObjectHeap \<Rightarrow> u32 \<Rightarrow> (u32 \<times> u8) option" where
  "decode_id heap oid =
     (let encoded_type = drop_bit 28 oid AND 0x0f;
          encoded_generation = drop_bit 20 oid AND 0xff;
          encoded_index = oid AND 0x000fffff
      in if encoded_type \<noteq> heap_type heap \<or> encoded_generation = 0 \<or>
            encoded_index \<ge> high_water heap
         then None else Some (encoded_index, ucast encoded_generation))"

definition grow_heap :: "bool \<Rightarrow> RKObjectHeap \<Rightarrow> RKObjectHeap option" where
  "grow_heap mem heap =
     (let maximum = 0x000fffff + 1;
          new_capacity = (if capacity heap \<noteq> 0 then capacity heap * 2 else 16)
      in if capacity heap \<ge> maximum then None
         else let new_capacity = (if new_capacity < capacity heap \<or> new_capacity > maximum
                                  then maximum else new_capacity)
              in if \<not> mem then None
                 else Some (heap\<lparr>slots := slots heap @
                        replicate (unat (new_capacity - capacity heap)) empty_slot,
                        capacity := new_capacity\<rparr>))"

definition rk_object_heap_init :: "u32 \<Rightarrow> RKObjectHeap option" where
  "rk_object_heap_init type =
     (if \<not> valid_type type then None
      else Some (zero_heap\<lparr>heap_type := type, free_head := NO_SLOT\<rparr>))"

text \<open>The second half of an insertion, once a slot index is chosen.\<close>

definition heap_fill :: "RKObjectHeap \<Rightarrow> nat \<Rightarrow> u32 \<Rightarrow> (u32 option \<times> RKObjectHeap)" where
  "heap_fill heap obj index =
     (let slot = slots heap ! unat index
      in if retired slot \<or> object slot \<noteq> None \<or> generation slot = 0 then (None, heap)
         else (Some (make_id (heap_type heap) (generation slot) index),
               heap\<lparr>slots := (slots heap)[unat index :=
                        slot\<lparr>object := Some obj, next_free := NO_SLOT\<rparr>],
                    heap_count := heap_count heap + 1\<rparr>))"

definition rk_object_heap_insert ::
    "bool \<Rightarrow> RKObjectHeap \<Rightarrow> nat \<Rightarrow> (u32 option \<times> RKObjectHeap) outcome" where
  "rk_object_heap_insert mem heap obj =
     (if \<not> valid_type (heap_type heap) then Ok (None, heap)
      else if free_head heap \<noteq> NO_SLOT
      then let index = free_head heap
           in if unat index \<ge> length (slots heap) then Fault
              else Ok (heap_fill (heap\<lparr>free_head := next_free (slots heap ! unat index)\<rparr>) obj index)
      else case (if high_water heap = capacity heap then grow_heap mem heap else Some heap) of
             None \<Rightarrow> Ok (None, heap)
           | Some heap \<Rightarrow>
               let index = high_water heap; heap = heap\<lparr>high_water := high_water heap + 1\<rparr>
               in if unat index \<ge> length (slots heap) then Fault
                  else Ok (heap_fill (heap\<lparr>slots := (slots heap)[unat index :=
                              (slots heap ! unat index)\<lparr>generation := 1\<rparr>]\<rparr>) obj index))"

definition rk_object_heap_acquire ::
    "RKObjectHeap \<Rightarrow> u32 \<Rightarrow> obj_store \<Rightarrow> (nat option \<times> obj_store) outcome" where
  "rk_object_heap_acquire heap oid s =
     (case decode_id heap oid of
        None \<Rightarrow> Ok (None, s)
      | Some (index, gen) \<Rightarrow>
          if unat index \<ge> length (slots heap) then Fault
          else let slot = slots heap ! unat index
               in case object slot of
                    None \<Rightarrow> Ok (None, s)
                  | Some obj \<Rightarrow>
                      if retired slot \<or> generation slot \<noteq> gen then Ok (None, s)
                      else let (ok, s) = rk_object_ref obj s
                           in if ok then Ok (Some obj, s) else Ok (None, s))"

definition rk_object_heap_remove ::
    "RKObjectHeap \<Rightarrow> u32 \<Rightarrow> (nat option \<times> RKObjectHeap) outcome" where
  "rk_object_heap_remove heap oid =
     (case decode_id heap oid of
        None \<Rightarrow> Ok (None, heap)
      | Some (index, gen) \<Rightarrow>
          if unat index \<ge> length (slots heap) then Fault
          else let slot = slots heap ! unat index
               in case object slot of
                    None \<Rightarrow> Ok (None, heap)
                  | Some obj \<Rightarrow>
                      if retired slot \<or> generation slot \<noteq> gen then Ok (None, heap)
                      else let slot = slot\<lparr>object := None\<rparr>;
                               heap = heap\<lparr>heap_count := heap_count heap - 1\<rparr>
                           in if generation slot = 0xff
                              then Ok (Some obj, heap\<lparr>slots := (slots heap)[unat index :=
                                     slot\<lparr>retired := True, next_free := NO_SLOT\<rparr>]\<rparr>)
                              else Ok (Some obj, heap\<lparr>slots := (slots heap)[unat index :=
                                     slot\<lparr>generation := generation slot + 1,
                                          next_free := free_head heap\<rparr>],
                                     free_head := index\<rparr>))"

fun finish_loop :: "RKObjectSlot list \<Rightarrow> nat \<Rightarrow> obj_store \<Rightarrow> obj_store outcome" where
  "finish_loop sl 0 s = Ok s"
| "finish_loop [] (Suc n) s = Fault"
| "finish_loop (slot # sl) (Suc n) s =
     finish_loop sl n (case object slot of None \<Rightarrow> s | Some obj \<Rightarrow> rk_object_unref obj s)"

definition rk_object_heap_finish ::
    "RKObjectHeap \<Rightarrow> obj_store \<Rightarrow> (RKObjectHeap \<times> obj_store) outcome" where
  "rk_object_heap_finish heap s =
     obind (finish_loop (slots heap) (unat (high_water heap)) s) (\<lambda>s. Ok (zero_heap, s))"

definition rk_object_heap_count :: "RKObjectHeap \<Rightarrow> u64" where
  "rk_object_heap_count heap = heap_count heap"

section \<open>Identifiers\<close>

lemma bit_of_small: "unat w < 2 ^ k \<Longrightarrow> k \<le> n \<Longrightarrow> \<not> bit w n" for w :: "'a::len word"
proof
  assume "unat w < 2 ^ k" "k \<le> n" "bit w n"
  then have "take_bit k (unat w) = unat w" by (simp add: take_bit_nat_eq_self)
  then have "bit (take_bit k (unat w)) n" using \<open>bit w n\<close> by (simp add: bit_unsigned_iff)
  with \<open>k \<le> n\<close> show False by (simp add: bit_take_bit_iff)
qed

lemma mask_lits: "(0xf :: u32) = mask 4" "(0xff :: u32) = mask 8" "(0xfffff :: u32) = mask 20"
  by (simp_all add: mask_eq_exp_minus_1)

lemma make_id_fields:
  assumes "unat t < 16" and "unat i < 2 ^ 20"
  shows "drop_bit 28 (make_id t g i) AND 0x0f = t"
    and "drop_bit 20 (make_id t g i) AND 0xff = ucast g"
    and "make_id t g i AND 0x000fffff = i"
proof -
  have t: "\<not> bit t n" if "4 \<le> n" for n using bit_of_small [of t 4] assms(1) that by simp
  have i: "\<not> bit i n" if "20 \<le> n" for n using bit_of_small [of i 20] assms(2) that by simp
  have g: "\<not> bit (ucast g :: u32) n" if "8 \<le> n" for n
    using bit_of_small [of "ucast g :: u32" 8] that unat_u8_lt [of g] by simp
  note b = make_id_def mask_lits bit_simps
  show "drop_bit 28 (make_id t g i) AND 0x0f = t"
    by (rule bit_word_eqI) (use t i g in \<open>auto simp: b not_le intro: ccontr\<close>)
  show "drop_bit 20 (make_id t g i) AND 0xff = ucast g"
    by (rule bit_word_eqI) (use t i g in \<open>auto simp: b not_le intro: ccontr\<close>)
  show "make_id t g i AND 0x000fffff = i"
    by (rule bit_word_eqI) (use t i g in \<open>auto simp: b not_le intro: ccontr\<close>)
qed

lemma make_id_decompose: "make_id (drop_bit 28 w AND 0x0f) (ucast (drop_bit 20 w AND 0xff)) (w AND 0x000fffff) = w"
proof (rule bit_word_eqI)
  fix n assume "n < LENGTH(32)"
  then consider "n < 20" | "20 \<le> n" "n < 28" | "28 \<le> n" "n < 32" by fastforce
  then show "bit (make_id (drop_bit 28 w AND 0x0f) (ucast (drop_bit 20 w AND 0xff)) (w AND 0x000fffff)) n = bit w n"
    by cases (auto simp: make_id_def mask_lits bit_simps)
qed

text \<open>The type and the slot and tag which an identifier encodes.\<close>

definition id_type :: "u32 \<Rightarrow> u32" where
  "id_type w = drop_bit 28 w AND 0x0f"

definition id_key :: "u32 \<Rightarrow> nat \<times> u8" where
  "id_key w = (unat (w AND 0x000fffff), ucast (drop_bit 20 w AND 0xff))"

lemma unat_of_nat_slot: "i < 2 ^ 20 \<Longrightarrow> unat (of_nat i :: u32) = i"
  by (simp add: unat_of_nat)

lemma make_id_iff:
  assumes "unat t < 16" and "i < 2 ^ 20"
  shows "w = make_id t g (of_nat i) \<longleftrightarrow> id_type w = t \<and> id_key w = (i, g)"
proof
  have "unat (of_nat i :: u32) < 2 ^ 20" using assms(2) by (simp only: unat_of_nat_slot)
  note f = make_id_fields [OF assms(1) this, of g]
  assume "w = make_id t g (of_nat i)"
  then show "id_type w = t \<and> id_key w = (i, g)"
    using unat_of_nat_slot [OF assms(2)] by (simp add: id_type_def id_key_def f)
next
  assume "id_type w = t \<and> id_key w = (i, g)"
  then show "w = make_id t g (of_nat i)"
    using make_id_decompose [of w] by (auto simp: id_type_def id_key_def)
qed

section \<open>Invariant\<close>

fun free_chain :: "RKObjectSlot list \<Rightarrow> u32 \<Rightarrow> nat list \<Rightarrow> bool" where
  "free_chain sl p [] \<longleftrightarrow> p = NO_SLOT"
| "free_chain sl p (i # is) \<longleftrightarrow> p = of_nat i \<and> free_chain sl (next_free (sl ! i)) is"

definition slot_free :: "RKObjectSlot \<Rightarrow> bool" where
  "slot_free s \<longleftrightarrow> object s = None \<and> \<not> retired s"

definition slot_ok :: "RKObjectSlot \<Rightarrow> bool" where
  "slot_ok s \<longleftrightarrow> generation s \<noteq> 0 \<and> (retired s \<longrightarrow> object s = None)"

definition hw :: "RKObjectHeap \<Rightarrow> nat" where
  "hw h = unat (high_water h)"

text \<open>The invariant while the slots of \<open>out\<close> are detached from the free list.\<close>

definition heap_inv_except :: "nat set \<Rightarrow> RKObjectHeap \<Rightarrow> bool" where
  "heap_inv_except out h \<longleftrightarrow>
     valid_type (heap_type h) \<and> length (slots h) = unat (capacity h) \<and>
     length (slots h) \<le> 2 ^ 20 \<and> hw h \<le> length (slots h) \<and>
     (\<forall>i < hw h. slot_ok (slots h ! i)) \<and>
     (\<forall>i. hw h \<le> i \<and> i < length (slots h) \<longrightarrow> slots h ! i = empty_slot) \<and>
     (\<exists>fl. distinct fl \<and> free_chain (slots h) (free_head h) fl \<and>
        set fl = {i. i < hw h \<and> slot_free (slots h ! i)} - out) \<and>
     heap_count h = of_nat (card {i. i < hw h \<and> object (slots h ! i) \<noteq> None})"

abbreviation heap_inv :: "RKObjectHeap \<Rightarrow> bool" where
  "heap_inv \<equiv> heap_inv_except {}"

text \<open>What an identifier can observe of a heap: the tags and contents of the used slots.\<close>

definition heap_view :: "RKObjectHeap \<Rightarrow> nat \<Rightarrow> (u8 \<times> nat option \<times> bool) option" where
  "heap_view h i = (if i < hw h
     then Some (generation (slots h ! i), object (slots h ! i), retired (slots h ! i)) else None)"

definition heap_find :: "RKObjectHeap \<Rightarrow> u32 \<Rightarrow> nat option" where
  "heap_find h oid =
     (case decode_id h oid of None \<Rightarrow> None
      | Some (i, g) \<Rightarrow> (case heap_view h (unat i) of
           Some (g', Some obj, False) \<Rightarrow> if g' = g then Some obj else None
         | _ \<Rightarrow> None))"

lemma valid_type_small: "valid_type t \<Longrightarrow> unat t < 16"
  by (auto simp: valid_type_def word_le_nat_alt)

lemma free_chain_cong:
  "(\<And>i. i \<in> set fl \<Longrightarrow> next_free (sl ! i) = next_free (sl' ! i)) \<Longrightarrow>
     free_chain sl p fl = free_chain sl' p fl"
  by (induction fl arbitrary: p) auto

lemma heap_init_inv: "rk_object_heap_init t = Some h \<Longrightarrow> heap_inv h \<and> heap_view h = Map.empty"
  by (auto simp: rk_object_heap_init_def heap_inv_except_def zero_heap_def hw_def heap_view_def
      split: if_splits intro!: exI [of _ "[]"])

lemma slot_not_NO_SLOT: "i < 2 ^ 20 \<Longrightarrow> (of_nat i :: u32) \<noteq> NO_SLOT"
  using unat_of_nat_slot [of i] by (auto simp: NO_SLOT_def)

text \<open>
  Lookup depends on the view only: the identifier must have the heap's type, and the slot it
  names must be occupied under the tag it carries.
\<close>

fun view_find :: "(nat \<Rightarrow> (u8 \<times> nat option \<times> bool) option) \<Rightarrow> nat \<times> u8 \<Rightarrow> nat option" where
  "view_find v (i, g) =
     (case v i of Some (g', Some obj, False) \<Rightarrow> if g' = g then Some obj else None | _ \<Rightarrow> None)"

lemma heap_find_view:
  assumes "heap_inv_except out h"
  shows "heap_find h oid =
    (if id_type oid = heap_type h then view_find (heap_view h) (id_key oid) else None)"
proof -
  let ?g = "drop_bit 20 oid AND 0xff"
  have "generation (slots h ! i) \<noteq> 0" if "i < hw h" for i
    using assms that by (auto simp: heap_inv_except_def slot_ok_def)
  then have "view_find (heap_view h) (i, 0) = None" for i
    by (auto simp: heap_view_def split: option.splits bool.splits)
  moreover have "view_find (heap_view h) (i, g) = None" if "\<not> i < hw h" for i g
    using that by (simp add: heap_view_def)
  ultimately show ?thesis
    by (auto simp: heap_find_def decode_id_def Let_def id_type_def id_key_def hw_def word_le_nat_alt
        simp del: view_find.simps) (auto split: option.splits bool.splits)
qed

section \<open>Insertion\<close>

lemma grow_heap_cases:
  assumes "grow_heap mem h = Some h'"
  obtains nc where "h' = h\<lparr>slots := slots h @ replicate (unat nc - unat (capacity h)) empty_slot,
      capacity := nc\<rparr>" and "unat (capacity h) < unat nc" and "unat nc \<le> 2 ^ 20"
proof -
  let ?n = "if capacity h \<noteq> 0 then capacity h * 2 else 16"
  let ?m = "if ?n < capacity h \<or> ?n > 0x100000 then 0x100000 else ?n"
  from assms have c: "unat (capacity h) < 2 ^ 20"
    and h': "h' = h\<lparr>slots := slots h @ replicate (unat (?m - capacity h)) empty_slot, capacity := ?m\<rparr>"
    by (auto simp: grow_heap_def Let_def not_le word_less_nat_alt word_le_nat_alt split: if_splits)
  have m: "unat (capacity h) < unat ?m" "unat ?m \<le> 2 ^ 20"
    using c unat_word_ariths(2) [of "capacity h" 2]
    by (auto simp: word_less_nat_alt unat_gt_0 not_less)
  then have "unat (?m - capacity h) = unat ?m - unat (capacity h)"
    by (subst unat_sub) (auto simp: word_le_nat_alt)
  with h' m that show thesis by metis
qed

lemma grow_heap_inv:
  assumes "heap_inv h" and "grow_heap mem h = Some h'"
  shows "heap_inv h'" and "heap_view h' = heap_view h" and "high_water h' = high_water h"
    and "heap_type h' = heap_type h" and "free_head h' = free_head h"
    and "length (slots h) < length (slots h')"
proof -
  obtain nc where h': "h' = h\<lparr>slots := slots h @ replicate (unat nc - unat (capacity h)) empty_slot,
      capacity := nc\<rparr>" and m: "unat (capacity h) < unat nc" "unat nc \<le> 2 ^ 20"
    by (rule grow_heap_cases [OF assms(2)])
  have len: "length (slots h) = unat (capacity h)" "length (slots h') = unat nc"
    using m assms(1) by (simp_all add: h' heap_inv_except_def)
  have nth: "slots h' ! i = slots h ! i" if "i < hw h" for i
    using that assms(1) by (simp add: h' nth_append heap_inv_except_def)
  have tail: "slots h' ! i = empty_slot" if "hw h \<le> i" "i < length (slots h')" for i
    using that assms(1) by (auto simp: h' nth_append heap_inv_except_def)
  have hw: "hw h' = hw h" and cap: "capacity h' = nc" "heap_type h' = heap_type h"
    "heap_count h' = heap_count h"
    by (simp_all add: h' hw_def)
  have set_eq: "{i. i < hw h \<and> P (slots h' ! i)} = {i. i < hw h \<and> P (slots h ! i)}" for P
    using nth by auto
  from assms(1) obtain fl where fl: "distinct fl" "free_chain (slots h) (free_head h) fl"
    "set fl = {i. i < hw h \<and> slot_free (slots h ! i)} - {}"
    by (auto simp: heap_inv_except_def)
  have "free_chain (slots h') (free_head h') fl"
    using fl(2) by (subst free_chain_cong [of _ _ "slots h"]) (use fl(3) nth in \<open>auto simp: h'\<close>)
  with fl have ex: "\<exists>fl. distinct fl \<and> free_chain (slots h') (free_head h') fl \<and>
      set fl = {i. i < hw h' \<and> slot_free (slots h' ! i)} - {}"
    unfolding hw set_eq by blast
  show "heap_view h' = heap_view h" by (auto simp: heap_view_def hw nth)
  show "high_water h' = high_water h" "heap_type h' = heap_type h" "free_head h' = free_head h"
    by (simp_all add: h')
  show "length (slots h) < length (slots h')" using len m by simp
  have "valid_type (heap_type h') \<and> length (slots h') = unat (capacity h') \<and>
     length (slots h') \<le> 2 ^ 20 \<and> hw h' \<le> length (slots h')"
    using assms(1) m len(2) cap by (simp add: hw heap_inv_except_def)
  moreover have "\<forall>i < hw h'. slot_ok (slots h' ! i)"
    using assms(1) nth by (simp add: hw heap_inv_except_def)
  moreover have "heap_count h' = of_nat (card {i. i < hw h' \<and> object (slots h' ! i) \<noteq> None})"
    using assms(1) cap(3) set_eq [of "\<lambda>s. object s \<noteq> None"] by (simp add: hw heap_inv_except_def)
  ultimately show "heap_inv h'"
    using ex tail unfolding heap_inv_except_def hw by blast
qed

lemma take_free_inv:
  assumes "heap_inv h" and "free_head h \<noteq> NO_SLOT"
  defines "i \<equiv> unat (free_head h)"
  shows "heap_inv_except {i} (h\<lparr>free_head := next_free (slots h ! i)\<rparr>)"
    and "i < hw h" and "slot_free (slots h ! i)" and "i < length (slots h)"
proof -
  from assms(1) obtain fl where fl: "distinct fl" "free_chain (slots h) (free_head h) fl"
    "set fl = {i. i < hw h \<and> slot_free (slots h ! i)}" and l: "hw h \<le> length (slots h)"
    "length (slots h) \<le> 2 ^ 20"
    by (auto simp: heap_inv_except_def)
  with assms(2) obtain j fl' where fl': "fl = j # fl'" "free_head h = of_nat j"
    "free_chain (slots h) (next_free (slots h ! j)) fl'"
    by (cases fl) auto
  have "j < hw h" using fl(3) fl'(1) by auto
  then have ij: "i = j" using l by (simp add: i_def fl'(2) unat_of_nat_slot)
  show "i < hw h" "slot_free (slots h ! i)" using fl(3) fl'(1) ij by auto
  then show "i < length (slots h)" using l(1) by simp
  have "set fl' = {i. i < hw h \<and> slot_free (slots h ! i)} - {j}"
    using fl(1,3) fl'(1) by auto
  then have "\<exists>fl. distinct fl \<and> free_chain (slots h) (next_free (slots h ! i)) fl \<and>
      set fl = {i. i < hw h \<and> slot_free (slots h ! i)} - {i}"
    using fl(1) fl'(1,3) ij by auto
  with assms(1) show "heap_inv_except {i} (h\<lparr>free_head := next_free (slots h ! i)\<rparr>)"
    unfolding heap_inv_except_def by (simp add: hw_def)
qed

lemma take_fresh_inv:
  assumes "heap_inv h" and "hw h < length (slots h)"
  defines "i \<equiv> hw h"
  defines "h' \<equiv> h\<lparr>high_water := high_water h + 1,
    slots := (slots h)[i := (slots h ! i)\<lparr>generation := 1\<rparr>]\<rparr>"
  shows "heap_inv_except {i} h'" and "hw h' = Suc i"
    and "slots h' ! i = empty_slot\<lparr>generation := 1\<rparr>"
    and "heap_view h' = (heap_view h)(i \<mapsto> (1, None, False))"
proof -
  have i20: "hw h < 2 ^ 20" using assms(1,2) by (auto simp: heap_inv_except_def)
  then have "high_water h \<noteq> - 1" by (auto simp: hw_def)
  then show hw': "hw h' = Suc i"
    by (simp add: h'_def i_def hw_def unat_plus_one_lt)
  have e: "slots h ! i = empty_slot" using assms(1,2) by (simp add: heap_inv_except_def i_def)
  then show si: "slots h' ! i = empty_slot\<lparr>generation := 1\<rparr>"
    using assms(2) by (simp add: h'_def i_def)
  have nth: "slots h' ! j = slots h ! j" if "j \<noteq> i" for j using that by (simp add: h'_def)
  have sets: "{j. j < Suc i \<and> P (slots h' ! j)} = {j. j < i \<and> P (slots h ! j)} \<union> {j. j = i \<and> P (slots h' ! j)}"
    for P using nth by (auto simp: less_Suc_eq)
  from assms(1) obtain fl where fl: "distinct fl" "free_chain (slots h) (free_head h) fl"
    "set fl = {j. j < i \<and> slot_free (slots h ! j)}"
    by (auto simp: heap_inv_except_def i_def)
  have "free_chain (slots h') (free_head h') fl"
    using fl(2) by (subst free_chain_cong [of _ _ "slots h"]) (use fl(3) nth in \<open>auto simp: h'_def\<close>)
  moreover have "set fl = {j. j < hw h' \<and> slot_free (slots h' ! j)} - {i}"
    unfolding hw' sets fl(3) by auto
  moreover have "heap_count h' = of_nat (card {j. j < hw h' \<and> object (slots h' ! j) \<noteq> None})"
  proof -
    have "heap_count h' = heap_count h" by (simp add: h'_def)
    moreover have "{j. j < Suc i \<and> object (slots h' ! j) \<noteq> None} = {j. j < i \<and> object (slots h ! j) \<noteq> None}"
    proof -
      have "{j. j = i \<and> object (slots h' ! j) \<noteq> None} = {}" using si by (simp add: empty_slot_def)
      then show ?thesis unfolding sets [of "\<lambda>s. object s \<noteq> None"] by (simp only: Un_empty_right)
    qed
    ultimately show ?thesis using assms(1) hw' by (simp add: heap_inv_except_def i_def)
  qed
  moreover have "\<forall>j < hw h'. slot_ok (slots h' ! j)"
    unfolding hw' using assms(1) si nth
    by (auto simp: less_Suc_eq i_def heap_inv_except_def slot_ok_def empty_slot_def)
  moreover have "\<forall>j. hw h' \<le> j \<and> j < length (slots h') \<longrightarrow> slots h' ! j = empty_slot"
    unfolding hw' using assms(1) nth by (auto simp: i_def heap_inv_except_def h'_def)
  moreover have "valid_type (heap_type h') \<and> length (slots h') = unat (capacity h') \<and>
     length (slots h') \<le> 2 ^ 20 \<and> hw h' \<le> length (slots h')"
    unfolding hw' using assms(1,2) by (simp add: h'_def i_def heap_inv_except_def Suc_le_eq)
  ultimately show "heap_inv_except {i} h'"
    using fl(1) unfolding heap_inv_except_def by blast
  show "heap_view h' = (heap_view h)(i \<mapsto> (1, None, False))"
    using si nth by (auto simp: heap_view_def hw' i_def empty_slot_def less_Suc_eq)
qed

lemma heap_fill_inv:
  assumes "heap_inv_except {i} h" and "i < hw h" and "slot_free (slots h ! i)"
  shows "\<exists>h'. heap_fill h obj (of_nat i) =
      (Some (make_id (heap_type h) (generation (slots h ! i)) (of_nat i)), h') \<and>
    heap_inv h' \<and> heap_type h' = heap_type h \<and>
    heap_view h' = (heap_view h)(i \<mapsto> (generation (slots h ! i), Some obj, False))"
proof -
  let ?s = "slots h ! i" and ?n = "unat (of_nat i :: u32)"
  let ?s' = "?s\<lparr>object := Some obj, next_free := NO_SLOT\<rparr>"
  let ?h = "h\<lparr>slots := (slots h)[i := ?s'], heap_count := heap_count h + 1\<rparr>"
  have l: "i < length (slots h)" "i < 2 ^ 20" using assms(1,2) by (auto simp: heap_inv_except_def)
  have ok: "generation ?s \<noteq> 0" using assms(1,2) by (auto simp: heap_inv_except_def slot_ok_def)
  with assms(3) have fill: "heap_fill h obj (of_nat i) =
      (Some (make_id (heap_type h) (generation ?s) (of_nat i)), ?h)"
    by (simp add: heap_fill_def Let_def unat_of_nat_slot [OF l(2)] slot_free_def)
  have nth: "slots ?h ! j = (if j = i then ?s' else slots h ! j)" for j using l(1) by simp
  have hw': "hw ?h = hw h" by (simp add: hw_def)
  from assms(1) obtain fl where fl: "distinct fl" "free_chain (slots h) (free_head h) fl"
    "set fl = {j. j < hw h \<and> slot_free (slots h ! j)} - {i}"
    by (auto simp: heap_inv_except_def)
  have "free_chain (slots ?h) (free_head ?h) fl"
    using fl(2) by (subst free_chain_cong [of _ _ "slots h"]) (use fl(3) nth in auto)
  moreover have "set fl = {j. j < hw ?h \<and> slot_free (slots ?h ! j)} - {}"
    unfolding hw' nth fl(3) by (auto simp: slot_free_def)
  moreover have "{j. j < hw h \<and> object (slots ?h ! j) \<noteq> None} =
      insert i {j. j < hw h \<and> object (slots h ! j) \<noteq> None}"
    using assms(2) l(1) by (auto simp: nth_list_update)
  then have "heap_count ?h = of_nat (card {j. j < hw ?h \<and> object (slots ?h ! j) \<noteq> None})"
    unfolding hw' using assms(1,3) by (simp add: heap_inv_except_def slot_free_def)
  moreover have "\<forall>j < hw ?h. slot_ok (slots ?h ! j)"
    unfolding hw' nth using assms(1,3) ok by (auto simp: heap_inv_except_def slot_ok_def slot_free_def)
  moreover have "\<forall>j. hw ?h \<le> j \<and> j < length (slots ?h) \<longrightarrow> slots ?h ! j = empty_slot"
    unfolding hw' nth using assms(1,2) by (auto simp: heap_inv_except_def)
  ultimately have "heap_inv ?h"
    using assms(1) fl(1) unfolding heap_inv_except_def hw' by auto
  moreover have "heap_view ?h = (heap_view h)(i \<mapsto> (generation ?s, Some obj, False))"
    unfolding heap_view_def hw' nth using assms(2,3) by (auto simp: slot_free_def)
  ultimately show ?thesis using fill by auto
qed

text \<open>
  Every insertion is one of: no memory, or the tag of a free slot or of a new slot with tag 1.
\<close>

definition free_view :: "(u8 \<times> nat option \<times> bool) option \<Rightarrow> u8 \<Rightarrow> bool" where
  "free_view v g \<longleftrightarrow> (case v of None \<Rightarrow> g = 1 | Some (g', ob, ret) \<Rightarrow> g' = g \<and> ob = None \<and> \<not> ret)"

definition heap_inserts :: "RKObjectHeap \<Rightarrow> nat \<Rightarrow> (u32 option \<times> RKObjectHeap) outcome \<Rightarrow> bool" where
  "heap_inserts h obj r \<longleftrightarrow> (\<exists>h' i g. r = Ok (Some (make_id (heap_type h) g (of_nat i)), h') \<and>
     i < 2 ^ 20 \<and> heap_inv h' \<and> heap_type h' = heap_type h \<and> free_view (heap_view h i) g \<and> g \<noteq> 0 \<and>
     heap_view h' = (heap_view h)(i \<mapsto> (g, Some obj, False)))"

lemma heap_insert_reuse:
  assumes "heap_inv h" and "free_head h \<noteq> NO_SLOT"
  shows "heap_inserts h obj (rk_object_heap_insert mem h obj)"
proof -
  let ?i = "unat (free_head h)" and ?h1 = "h\<lparr>free_head := next_free (slots h ! unat (free_head h))\<rparr>"
  note tf = take_free_inv [OF assms]
  have "?i < hw ?h1" "slot_free (slots ?h1 ! ?i)" using tf(2,3) by (simp_all add: hw_def)
  from heap_fill_inv [OF tf(1) this, of obj] obtain h' where f:
    "heap_fill ?h1 obj (free_head h) = (Some (make_id (heap_type h) (generation (slots h ! ?i)) (free_head h)), h')"
    "heap_inv h'" "heap_type h' = heap_type h"
    "heap_view h' = (heap_view ?h1)(?i \<mapsto> (generation (slots h ! ?i), Some obj, False))"
    by auto
  have "heap_view ?h1 = heap_view h" by (simp add: heap_view_def hw_def fun_eq_iff)
  moreover have "?i < 2 ^ 20" "generation (slots h ! ?i) \<noteq> 0" "valid_type (heap_type h)"
    using tf(2) assms by (auto simp: heap_inv_except_def slot_ok_def)
  moreover have "free_view (heap_view h ?i) (generation (slots h ! ?i))"
    using tf(2,3) by (simp add: free_view_def heap_view_def slot_free_def)
  ultimately show ?thesis
    using f assms(2) tf(4) unfolding heap_inserts_def
    by (intro exI [of _ h'] exI [of _ ?i] exI [of _ "generation (slots h ! ?i)"])
      (simp add: rk_object_heap_insert_def Let_def)
qed

lemma heap_insert_fresh:
  assumes "heap_inv h" and "free_head h = NO_SLOT"
    and "(if high_water h = capacity h then grow_heap mem h else Some h) = Some h0"
  shows "heap_inserts h obj (rk_object_heap_insert mem h obj)"
proof -
  have h0: "heap_inv h0" "heap_view h0 = heap_view h" "heap_type h0 = heap_type h"
    using assms grow_heap_inv(1,2,4) [of h mem h0] by (auto split: if_splits)
  have lt: "hw h0 < length (slots h0)"
  proof -
    have len: "length (slots h) = unat (capacity h)" "hw h \<le> length (slots h)"
      using assms(1) by (simp_all add: heap_inv_except_def)
    show ?thesis
    proof (cases "high_water h = capacity h")
      case True
      with assms(3) grow_heap_inv(3,6) [OF assms(1)] len show ?thesis by (simp add: hw_def)
    next
      case False
      with assms(3) len show ?thesis
        by (simp add: hw_def word_unat_eq_iff order_less_le)
    qed
  qed
  let ?i = "hw h0" and ?h1 = "h0\<lparr>high_water := high_water h0 + 1,
    slots := (slots h0)[hw h0 := (slots h0 ! hw h0)\<lparr>generation := 1\<rparr>]\<rparr>"
  note tf = take_fresh_inv [OF h0(1) lt]
  have i: "?i < hw ?h1" using tf(2) by simp
  have free: "slot_free (slots ?h1 ! ?i)" and gen: "generation (slots ?h1 ! ?i) = 1"
    unfolding tf(3) by (simp_all add: slot_free_def empty_slot_def)
  have ty: "heap_type ?h1 = heap_type h" using h0(3) by simp
  obtain h' where f:
    "heap_fill ?h1 obj (of_nat ?i) = (Some (make_id (heap_type h) 1 (of_nat ?i)), h')"
    "heap_inv h'" "heap_type h' = heap_type h"
    "heap_view h' = (heap_view h)(?i \<mapsto> (1, Some obj, False))"
    using heap_fill_inv [OF tf(1) i free, of obj] unfolding gen ty tf(4) h0(2) fun_upd_upd by blast
  have "valid_type (heap_type h)" "?i < 2 ^ 20"
    using assms(1) h0(1) lt by (auto simp: heap_inv_except_def)
  moreover have "rk_object_heap_insert mem h obj = Ok (heap_fill ?h1 obj (of_nat ?i))"
    using calculation(1) assms(2,3) lt
    by (simp add: rk_object_heap_insert_def Let_def hw_def)
  moreover have "free_view (heap_view h ?i) 1"
    unfolding h0(2) [symmetric] by (simp add: free_view_def heap_view_def)
  ultimately show ?thesis
    using f unfolding heap_inserts_def by (intro exI [of _ h'] exI [of _ ?i] exI [of _ 1]) simp
qed

lemma heap_insert_cases:
  assumes "heap_inv h"
  shows "rk_object_heap_insert mem h obj = Ok (None, h) \<or>
    heap_inserts h obj (rk_object_heap_insert mem h obj)"
proof (cases "free_head h = NO_SLOT")
  case True
  show ?thesis
  proof (cases "if high_water h = capacity h then grow_heap mem h else Some h")
    case None
    with True assms show ?thesis by (simp add: rk_object_heap_insert_def heap_inv_except_def)
  next
    case (Some h0)
    with heap_insert_fresh [OF assms True] show ?thesis by blast
  qed
qed (use heap_insert_reuse [OF assms] in blast)

section \<open>Removal and acquisition\<close>

lemma heap_find_slot:
  assumes "heap_inv h" and "decode_id h oid = Some (index, gen)"
  shows "unat index < hw h" and "unat index < length (slots h)"
    and "heap_find h oid = (let s = slots h ! unat index
           in if retired s \<or> generation s \<noteq> gen then None else object s)"
    and "oid = make_id (heap_type h) gen index" and "unat index < 2 ^ 20"
proof -
  show i: "unat index < hw h"
    using assms(2) by (auto simp: decode_id_def Let_def hw_def word_le_nat_alt split: if_splits)
  then show "unat index < length (slots h)" "unat index < 2 ^ 20"
    using assms(1) by (auto simp: heap_inv_except_def)
  show "heap_find h oid = (let s = slots h ! unat index
           in if retired s \<or> generation s \<noteq> gen then None else object s)"
    using i by (auto simp: heap_find_def assms(2) heap_view_def Let_def split: option.splits bool.splits)
  show "oid = make_id (heap_type h) gen index"
    using assms(2) make_id_decompose [of oid] by (auto simp: decode_id_def Let_def split: if_splits)
qed

lemma gen_succ:
  assumes "g \<noteq> (0xff :: u8)"
  shows "unat (g + 1) = unat g + 1" and "g + 1 \<noteq> 0"
proof -
  have "unat g \<noteq> 255" using assms by (auto simp: word_unat_eq_iff)
  then have "unat g + 1 < 256" using unat_u8_lt [of g] by linarith
  then show "unat (g + 1) = unat g + 1" by (simp add: unat_word_ariths)
  then show "g + 1 \<noteq> 0" by (metis Suc_eq_plus1 nat.distinct(1) unat_0)
qed

definition retire_view :: "u8 \<Rightarrow> u8 \<times> nat option \<times> bool" where
  "retire_view g = (if g = 0xff then (g, None, True) else (g + 1, None, False))"

lemma heap_remove_slot_inv:
  assumes "heap_inv h" and "i < hw h" and "object (slots h ! i) = Some obj"
    and "\<not> retired (slots h ! i)"
  defines "s \<equiv> (slots h ! i)\<lparr>object := None\<rparr>"
  defines "h' \<equiv> (if generation s = 0xff
     then h\<lparr>heap_count := heap_count h - 1, slots := (slots h)[i := s\<lparr>retired := True, next_free := NO_SLOT\<rparr>]\<rparr>
     else h\<lparr>heap_count := heap_count h - 1, slots := (slots h)[i := s\<lparr>generation := generation s + 1, next_free := free_head h\<rparr>],
           free_head := of_nat i\<rparr>)"
  shows "heap_inv h'" and "heap_type h' = heap_type h"
    and "heap_view h' = (heap_view h)(i \<mapsto> retire_view (generation (slots h ! i)))"
proof -
  let ?s' = "if generation s = 0xff then s\<lparr>retired := True, next_free := NO_SLOT\<rparr>
     else s\<lparr>generation := generation s + 1, next_free := free_head h\<rparr>"
  have l: "i < length (slots h)" "i < 2 ^ 20" using assms(1,2) by (auto simp: heap_inv_except_def)
  have nth: "slots h' ! j = (if j = i then ?s' else slots h ! j)" for j using l(1) by (simp add: h'_def)
  have hw': "hw h' = hw h" and cap: "capacity h' = capacity h" and len: "length (slots h') = length (slots h)"
    and cnt: "heap_count h' = heap_count h - 1"
    and fh: "free_head h' = (if generation s = 0xff then free_head h else of_nat i)"
    by (simp_all add: h'_def hw_def)
  show ty: "heap_type h' = heap_type h" by (simp add: h'_def)
  from assms(1) obtain fl where fl: "distinct fl" "free_chain (slots h) (free_head h) fl"
    "set fl = {j. j < hw h \<and> slot_free (slots h ! j)}"
    by (auto simp: heap_inv_except_def)
  have i: "i \<notin> set fl" using fl(3) assms(3) by (auto simp: slot_free_def)
  have chain: "free_chain (slots h') p fl = free_chain (slots h) p fl" for p
    by (rule free_chain_cong) (use i nth in auto)
  let ?fl = "if generation s = 0xff then fl else i # fl"
  have "distinct ?fl" "free_chain (slots h') (free_head h') ?fl"
    using fl(1,2) i by (simp_all add: chain fh nth)
  moreover have "slot_free (slots h' ! j) \<longleftrightarrow> (if j = i then generation s \<noteq> 0xff else slot_free (slots h ! j))"
    for j using assms(4) by (simp add: nth slot_free_def s_def)
  then have "set ?fl = {j. j < hw h' \<and> slot_free (slots h' ! j)} - {}"
    using fl(3) assms(2) i by (cases "generation s = 0xff") (auto simp: hw')
  ultimately have ex: "\<exists>fl. distinct fl \<and> free_chain (slots h') (free_head h') fl \<and>
      set fl = {j. j < hw h' \<and> slot_free (slots h' ! j)} - {}" by blast
  have sets: "{j. j < hw h \<and> object (slots h ! j) \<noteq> None} =
      insert i {j. j < hw h' \<and> object (slots h' ! j) \<noteq> None}"
    unfolding hw' nth using assms(2,3) by (auto simp: s_def split: if_splits)
  have "i \<notin> {j. j < hw h' \<and> object (slots h' ! j) \<noteq> None}" by (simp add: nth s_def)
  then have "heap_count h' = of_nat (card {j. j < hw h' \<and> object (slots h' ! j) \<noteq> None})"
    using assms(1) unfolding cnt heap_inv_except_def sets by simp
  moreover have "\<forall>j < hw h'. slot_ok (slots h' ! j)"
    unfolding hw' nth using assms(1,2) by (auto simp: heap_inv_except_def slot_ok_def s_def gen_succ)
  moreover have "\<forall>j. hw h' \<le> j \<and> j < length (slots h') \<longrightarrow> slots h' ! j = empty_slot"
    unfolding hw' len nth using assms(1,2) by (auto simp: heap_inv_except_def)
  ultimately show "heap_inv h'"
    using assms(1) ex unfolding heap_inv_except_def ty cap len hw' by blast
  show "heap_view h' = (heap_view h)(i \<mapsto> retire_view (generation (slots h ! i)))"
    using assms(2,4) by (auto simp: heap_view_def hw' nth retire_view_def s_def)
qed

lemma heap_remove_cases:
  assumes "heap_inv h"
  shows "(heap_find h oid = None \<and> rk_object_heap_remove h oid = Ok (None, h)) \<or>
    (\<exists>obj h' i g. heap_find h oid = Some obj \<and> rk_object_heap_remove h oid = Ok (Some obj, h') \<and>
       heap_inv h' \<and> heap_type h' = heap_type h \<and> oid = make_id (heap_type h) g (of_nat i) \<and>
       heap_view h i = Some (g, Some obj, False) \<and> heap_view h' = (heap_view h)(i \<mapsto> retire_view g))"
proof (cases "decode_id h oid")
  case None
  then show ?thesis by (simp add: heap_find_def rk_object_heap_remove_def)
next
  case (Some d)
  obtain index gen where d: "decode_id h oid = Some (index, gen)" using Some by (cases d) auto
  note fs = heap_find_slot [OF assms d]
  let ?i = "unat index" and ?s = "slots h ! unat index"
  show ?thesis
  proof (cases "object ?s = None \<or> retired ?s \<or> generation ?s \<noteq> gen")
    case True
    with fs(2,3) d show ?thesis
      by (auto simp: rk_object_heap_remove_def Let_def split: option.splits)
  next
    case False
    then obtain obj where o: "object ?s = Some obj" "\<not> retired ?s" "generation ?s = gen" by auto
    note r = heap_remove_slot_inv [OF assms fs(1) o(1,2)]
    let ?h' = "if generation (?s\<lparr>object := None\<rparr>) = 0xff
     then h\<lparr>heap_count := heap_count h - 1, slots := (slots h)[?i := ?s\<lparr>object := None\<rparr>\<lparr>retired := True, next_free := NO_SLOT\<rparr>]\<rparr>
     else h\<lparr>heap_count := heap_count h - 1, slots := (slots h)[?i := ?s\<lparr>object := None\<rparr>\<lparr>generation := generation (?s\<lparr>object := None\<rparr>) + 1, next_free := free_head h\<rparr>],
           free_head := of_nat ?i\<rparr>"
    have "rk_object_heap_remove h oid = Ok (Some obj, ?h')"
      using fs(2) d o by (simp add: rk_object_heap_remove_def Let_def)
    moreover have "heap_find h oid = Some obj" using fs(3) o by simp
    moreover have "oid = make_id (heap_type h) gen (of_nat ?i)" using fs(4) by simp
    moreover have "heap_view h ?i = Some (gen, Some obj, False)"
      using fs(1) o by (simp add: heap_view_def)
    ultimately show ?thesis using r o(3) by blast
  qed
qed

text \<open>Acquisition is lookup followed by a reference.\<close>

lemma heap_acquire_find:
  assumes "heap_inv h"
  shows "rk_object_heap_acquire h oid s =
    (case heap_find h oid of
       None \<Rightarrow> Ok (None, s)
     | Some obj \<Rightarrow> let (ok, s') = rk_object_ref obj s in Ok (if ok then Some obj else None, s'))"
proof (cases "decode_id h oid")
  case None
  then show ?thesis by (simp add: heap_find_def rk_object_heap_acquire_def)
next
  case (Some d)
  obtain index gen where d: "decode_id h oid = Some (index, gen)" using Some by (cases d) auto
  note fs = heap_find_slot [OF assms d]
  with d show ?thesis
    by (auto simp: rk_object_heap_acquire_def Let_def split: option.splits prod.splits)
qed

section \<open>The heap as a map of identifiers\<close>

locale id_map =
  fixes inv :: "'h \<Rightarrow> bool"
    and find :: "'h \<Rightarrow> 'k \<Rightarrow> 'x option"
    and ins :: "'h \<Rightarrow> 'x \<Rightarrow> ('k option \<times> 'h) outcome"
    and rem :: "'h \<Rightarrow> 'k \<Rightarrow> ('x option \<times> 'h) outcome"
  assumes ins_total: "inv h \<Longrightarrow> \<exists>r h'. ins h x = Ok (r, h')"
    and rem_total: "inv h \<Longrightarrow> \<exists>y h'. rem h k = Ok (y, h')"
    and ins_inv: "inv h \<Longrightarrow> ins h x = Ok (r, h') \<Longrightarrow> inv h'"
    and rem_inv: "inv h \<Longrightarrow> rem h k = Ok (y, h') \<Longrightarrow> inv h'"
    and ins_fresh: "inv h \<Longrightarrow> ins h x = Ok (Some k, h') \<Longrightarrow> find h k = None"
    and ins_find: "inv h \<Longrightarrow> ins h x = Ok (Some k, h') \<Longrightarrow> find h' = (find h)(k \<mapsto> x)"
    and ins_none: "inv h \<Longrightarrow> ins h x = Ok (None, h') \<Longrightarrow> find h' = find h"
    and rem_result: "inv h \<Longrightarrow> rem h k = Ok (y, h') \<Longrightarrow> y = find h k"
    and rem_find: "inv h \<Longrightarrow> rem h k = Ok (y, h') \<Longrightarrow> find h' = (find h)(k := None)"
begin

lemma insert_remove:
  assumes "inv h" and "ins h x = Ok (Some k, h1)"
  shows "\<exists>h2. rem h1 k = Ok (Some x, h2) \<and> find h2 = find h"
proof -
  have i: "inv h1" using ins_inv assms by blast
  obtain r h2 where r: "rem h1 k = Ok (r, h2)" using rem_total [OF i] by blast
  then show ?thesis
    using rem_result [OF i r] rem_find [OF i r] ins_find [OF assms] ins_fresh [OF assms]
    by (auto simp: fun_upd_idem)
qed

lemma remove_twice:
  assumes "inv h" and "rem h k = Ok (r, h1)"
  shows "\<exists>h2. rem h1 k = Ok (None, h2) \<and> find h2 = find h1"
proof -
  have i: "inv h1" using rem_inv assms by blast
  obtain r' h2 where r: "rem h1 k = Ok (r', h2)" using rem_total [OF i] by blast
  then show ?thesis
    using rem_result [OF i r] rem_find [OF i r] rem_find [OF assms] by auto
qed

lemma insert_other:
  "inv h \<Longrightarrow> ins h x = Ok (Some k, h') \<Longrightarrow> find h k' = Some y \<Longrightarrow> find h' k' = Some y"
  using ins_find ins_fresh by fastforce

end

lemma view_find_insert:
  "free_view (v i) g \<Longrightarrow> view_find (v(i \<mapsto> (g, Some obj, False))) = (view_find v)((i, g) \<mapsto> obj)"
proof (rule ext)
  fix k assume "free_view (v i) g"
  then show "view_find (v(i \<mapsto> (g, Some obj, False))) k = ((view_find v)((i, g) \<mapsto> obj)) k"
    by (cases k; cases "fst k = i") (auto simp: free_view_def split: option.splits)
qed

lemma view_find_free: "free_view (v i) g \<Longrightarrow> view_find v (i, g) = None"
  by (auto simp: free_view_def split: option.splits)

lemma view_find_remove:
  "v i = Some (g, Some obj, False) \<Longrightarrow> view_find (v(i \<mapsto> retire_view g)) = (view_find v)((i, g) := None)"
proof (rule ext)
  fix k assume "v i = Some (g, Some obj, False)"
  then show "view_find (v(i \<mapsto> retire_view g)) k = ((view_find v)((i, g) := None)) k"
    by (cases k; cases "fst k = i") (auto simp: retire_view_def)
qed

lemma heap_type_small: "heap_inv h \<Longrightarrow> unat (heap_type h) < 16"
  by (simp add: heap_inv_except_def valid_type_small)

lemma heap_find_insert:
  assumes "heap_inv h" and "heap_inserts h obj (Ok (Some oid, h'))"
  shows "heap_find h oid = None" and "heap_find h' = (heap_find h)(oid \<mapsto> obj)" and "heap_inv h'"
proof -
  from assms(2) obtain i g where oid: "oid = make_id (heap_type h) g (of_nat i)" and i: "i < 2 ^ 20"
    and h': "heap_inv h'" "heap_type h' = heap_type h" and free: "free_view (heap_view h i) g"
    and view: "heap_view h' = (heap_view h)(i \<mapsto> (g, Some obj, False))"
    by (auto simp: heap_inserts_def)
  show "heap_inv h'" by (rule h'(1))
  note key = make_id_iff [OF heap_type_small [OF assms(1)] i, of _ g, folded oid]
  then have k: "id_type oid = heap_type h \<and> id_key oid = (i, g)" by blast
  with view_find_free [of "heap_view h" i g] free show "heap_find h oid = None"
    by (simp add: heap_find_view [OF assms(1)] del: view_find.simps)
  show "heap_find h' = (heap_find h)(oid \<mapsto> obj)"
    using key by (auto simp: fun_eq_iff heap_find_view [OF assms(1)] heap_find_view [OF h'(1)] h'(2)
        view view_find_insert [of "heap_view h" i g, OF free] simp del: view_find.simps)
qed

lemma heap_find_remove:
  assumes "heap_inv h" and "heap_inv h'" and "heap_type h' = heap_type h"
    and "heap_view h i = Some (g, Some obj, False)"
    and "heap_view h' = (heap_view h)(i \<mapsto> retire_view g)"
  shows "heap_find h' = (heap_find h)(make_id (heap_type h) g (of_nat i) := None)"
proof -
  have i: "i < 2 ^ 20"
    using assms(1,4) by (auto simp: heap_view_def heap_inv_except_def split: if_splits)
  note key = make_id_iff [OF heap_type_small [OF assms(1)] i, of _ g]
  show ?thesis
    using key by (auto simp: fun_eq_iff heap_find_view [OF assms(1)] heap_find_view [OF assms(2)] assms(3,5)
        view_find_remove [of "heap_view h" i g obj, OF assms(4)] simp del: view_find.simps)
qed

lemma heap_insert_None: "heap_inv h \<Longrightarrow> rk_object_heap_insert mem h obj = Ok (None, h') \<Longrightarrow> h' = h"
  using heap_insert_cases [of h mem obj] by (auto simp: heap_inserts_def)

lemma heap_insert_Some:
  "heap_inv h \<Longrightarrow> rk_object_heap_insert mem h obj = Ok (Some oid, h') \<Longrightarrow>
     heap_inserts h obj (Ok (Some oid, h'))"
  using heap_insert_cases [of h mem obj] by auto

interpretation heap_map: id_map heap_inv heap_find "rk_object_heap_insert mem" rk_object_heap_remove
  for mem
proof
  fix h x r h'
  assume inv: "heap_inv h"
  show "\<exists>y h'. rk_object_heap_insert mem h x = Ok (y, h')"
    using heap_insert_cases [OF inv, of mem x] by (auto simp: heap_inserts_def)
  show "heap_inv h'" if "rk_object_heap_insert mem h x = Ok (r, h')"
    using that heap_insert_None [OF inv, of mem x h'] heap_insert_Some [OF inv, of mem x _ h']
      heap_find_insert(3) [OF inv] inv by (cases r) auto
next
  fix h k
  assume inv: "heap_inv h"
  show "\<exists>y h'. rk_object_heap_remove h k = Ok (y, h')"
    using heap_remove_cases [OF inv, of k] by auto
next
  fix h k y h'
  assume "heap_inv h" and "rk_object_heap_remove h k = Ok (y, h')"
  then show "heap_inv h'" "y = heap_find h k" "heap_find h' = (heap_find h)(k := None)"
    using heap_remove_cases [of h k] heap_find_remove [of h h'] by auto
next
  fix h x k h'
  assume inv: "heap_inv h" and "rk_object_heap_insert mem h x = Ok (Some k, h')"
  then show "heap_find h k = None" "heap_find h' = (heap_find h)(k \<mapsto> x)"
    using heap_insert_Some heap_find_insert by blast+
next
  fix h x h'
  assume "heap_inv h" and "rk_object_heap_insert mem h x = Ok (None, h')"
  then show "heap_find h' = heap_find h" using heap_insert_None by blast
qed

section \<open>Histories: no identifier is issued twice\<close>

text \<open>A sequence of calls under the object lock, with the identifiers handed out in order.\<close>

datatype heap_op = HInsert bool nat | HRemove u32

fun heap_exec :: "RKObjectHeap \<Rightarrow> heap_op list \<Rightarrow> (u32 list \<times> RKObjectHeap) outcome" where
  "heap_exec h [] = Ok ([], h)"
| "heap_exec h (HInsert mem obj # ops) =
     obind (rk_object_heap_insert mem h obj) (\<lambda>(r, h).
     obind (heap_exec h ops) (\<lambda>(ids, h). Ok ((case r of None \<Rightarrow> [] | Some oid \<Rightarrow> [oid]) @ ids, h)))"
| "heap_exec h (HRemove oid # ops) =
     obind (rk_object_heap_remove h oid) (\<lambda>(r, h). heap_exec h ops)"

text \<open>
  A key is used up once its slot carries a larger tag or is retired; it is spent once it was
  issued, that is, once it is used up or currently in use.
\<close>

definition key_dead :: "(nat \<Rightarrow> (u8 \<times> nat option \<times> bool) option) \<Rightarrow> nat \<times> u8 \<Rightarrow> bool" where
  "key_dead v k \<longleftrightarrow> (case v (fst k) of None \<Rightarrow> False
     | Some (g, ob, ret) \<Rightarrow> unat (snd k) < unat g \<or> (snd k = g \<and> ret))"

definition key_spent :: "(nat \<Rightarrow> (u8 \<times> nat option \<times> bool) option) \<Rightarrow> nat \<times> u8 \<Rightarrow> bool" where
  "key_spent v k \<longleftrightarrow> key_dead v k \<or> view_find v k \<noteq> None"

lemma key_dead_insert:
  "free_view (v i) g \<Longrightarrow> key_dead v k \<Longrightarrow> key_dead (v(i \<mapsto> (g, Some obj, False))) k"
  by (cases "fst k = i") (auto simp: key_dead_def free_view_def split: option.splits)

lemma key_dead_retire:
  "v i = Some (g, Some obj, False) \<Longrightarrow> key_dead (v(i \<mapsto> retire_view g)) (i, g)"
  by (cases "g = 0xff") (simp_all add: key_dead_def retire_view_def gen_succ)

lemma key_dead_remove:
  assumes "v i = Some (g, Some obj, False)" and "key_dead v k"
  shows "key_dead (v(i \<mapsto> retire_view g)) k"
proof (cases "fst k = i")
  case True
  with assms have "unat (snd k) < unat g" by (simp add: key_dead_def)
  with True show ?thesis
    by (cases "g = 0xff") (simp_all add: key_dead_def retire_view_def gen_succ)
next
  case False
  with assms(2) show ?thesis by (simp add: key_dead_def)
qed

lemma key_dead_find: "key_dead v k \<Longrightarrow> view_find v k = None"
  by (cases k) (auto simp: key_dead_def split: option.splits bool.splits)

lemma free_not_spent: "free_view (v i) g \<Longrightarrow> \<not> key_spent v (i, g)"
  using view_find_free [of v i g]
  by (auto simp: key_spent_def key_dead_def free_view_def split: option.splits)

definition issued :: "RKObjectHeap \<Rightarrow> u32 \<Rightarrow> bool" where
  "issued h w \<longleftrightarrow> id_type w = heap_type h \<and> key_spent (heap_view h) (id_key w)"

definition stale :: "RKObjectHeap \<Rightarrow> u32 \<Rightarrow> bool" where
  "stale h w \<longleftrightarrow> id_type w = heap_type h \<and> key_dead (heap_view h) (id_key w)"

lemma stale_find: "heap_inv h \<Longrightarrow> stale h w \<Longrightarrow> heap_find h w = None"
  by (simp add: heap_find_view stale_def key_dead_find del: view_find.simps)

lemma issued_cases: "heap_inv h \<Longrightarrow> issued h w \<Longrightarrow> stale h w \<or> heap_find h w \<noteq> None"
  by (auto simp: issued_def stale_def key_spent_def heap_find_view simp del: view_find.simps)

lemma insert_issued:
  assumes "heap_inv h" and "rk_object_heap_insert mem h obj = Ok (Some oid, h')"
  shows "\<not> issued h oid" and "issued h' oid"
    and "issued h w \<Longrightarrow> issued h' w" and "stale h w \<Longrightarrow> stale h' w"
proof -
  from heap_insert_Some [OF assms] obtain i g where
    oid: "oid = make_id (heap_type h) g (of_nat i)" and i: "i < 2 ^ 20"
    and ty: "heap_type h' = heap_type h" and free: "free_view (heap_view h i) g"
    and view: "heap_view h' = (heap_view h)(i \<mapsto> (g, Some obj, False))"
    by (auto simp: heap_inserts_def)
  have key: "id_type oid = heap_type h \<and> id_key oid = (i, g)"
    using make_id_iff [OF heap_type_small [OF assms(1)] i, of oid g] oid by simp
  note vf = view_find_insert [of "heap_view h" i g obj, OF free]
  show "\<not> issued h oid"
    using key free_not_spent [of "heap_view h", OF free] by (simp add: issued_def)
  show "issued h' oid" using key ty vf by (simp add: issued_def view key_spent_def del: view_find.simps)
  note dead = key_dead_insert [of "heap_view h" i g "id_key w" obj, OF free]
  show "stale h w \<Longrightarrow> stale h' w" using dead by (simp add: stale_def ty view)
  show "issued h w \<Longrightarrow> issued h' w"
    using dead by (auto simp: issued_def ty view key_spent_def vf simp del: view_find.simps)
qed

lemma remove_issued:
  assumes "heap_inv h" and "rk_object_heap_remove h oid = Ok (r, h')"
  shows "issued h w \<Longrightarrow> issued h' w" and "stale h w \<Longrightarrow> stale h' w"
proof -
  consider "h' = h" | i g obj where "heap_type h' = heap_type h" "heap_view h i = Some (g, Some obj, False)"
      "heap_view h' = (heap_view h)(i \<mapsto> retire_view g)"
    using heap_remove_cases [OF assms(1), of oid] assms(2) by auto
  then have "(issued h w \<longrightarrow> issued h' w) \<and> (stale h w \<longrightarrow> stale h' w)"
  proof cases
    case 2
    note d = key_dead_remove [of "heap_view h" i g obj "id_key w", OF 2(2)]
      key_dead_retire [of "heap_view h" i g obj, OF 2(2)]
    note vf = view_find_remove [of "heap_view h" i g obj, OF 2(2)]
    show ?thesis
      using d by (auto simp: issued_def stale_def 2(1,3) key_spent_def vf simp del: view_find.simps)
  qed simp
  then show "issued h w \<Longrightarrow> issued h' w" "stale h w \<Longrightarrow> stale h' w" by simp_all
qed

lemma heap_exec_run:
  "heap_inv h \<Longrightarrow> \<exists>ids h'. heap_exec h ops = Ok (ids, h') \<and> heap_inv h' \<and> distinct ids \<and>
     (\<forall>w \<in> set ids. \<not> issued h w \<and> issued h' w) \<and>
     (\<forall>w. issued h w \<longrightarrow> issued h' w) \<and> (\<forall>w. stale h w \<longrightarrow> stale h' w)"
proof (induction h ops rule: heap_exec.induct)
  case (2 h mem obj ops)
  from heap_map.ins_total [OF 2(2), of mem obj] obtain r h1
    where r: "rk_object_heap_insert mem h obj = Ok (r, h1)" by blast
  have inv1: "heap_inv h1" by (rule heap_map.ins_inv [OF 2(2) r])
  from 2(1) [OF inv1] obtain ids h' where IH: "heap_exec h1 ops = Ok (ids, h')" "heap_inv h'"
    "distinct ids" "\<forall>w \<in> set ids. \<not> issued h1 w \<and> issued h' w"
    "\<forall>w. issued h1 w \<longrightarrow> issued h' w" "\<forall>w. stale h1 w \<longrightarrow> stale h' w"
    by blast
  show ?case
  proof (cases r)
    case None
    then have "h1 = h" using r heap_insert_None [OF 2(2), of mem obj h1] by simp
    with None r IH show ?thesis by simp
  next
    case (Some oid)
    with insert_issued [OF 2(2)] r IH show ?thesis by (auto 4 3)
  qed
next
  case (3 h oid ops)
  from heap_map.rem_total [OF 3(2), of oid] obtain r h1
    where r: "rk_object_heap_remove h oid = Ok (r, h1)" by blast
  have inv1: "heap_inv h1" by (rule heap_map.rem_inv [OF 3(2) r])
  from 3(1) [OF inv1] r remove_issued [OF 3(2) r] show ?case by (auto 4 4)
qed simp

section \<open>Teardown\<close>

definition live_objects :: "RKObjectHeap \<Rightarrow> nat list" where
  "live_objects h = List.map_filter object (take (hw h) (slots h))"

lemma finish_loop_unrefs:
  "n \<le> length sl \<Longrightarrow> finish_loop sl n s =
     Ok (foldl (\<lambda>s obj. rk_object_unref obj s) s (List.map_filter object (take n sl)))"
  by (induction sl n s rule: finish_loop.induct) (auto simp: map_filter_simps split: option.splits)

lemma unrefs_destroyed:
  "distinct objs \<Longrightarrow> obj_destroyed (foldl (\<lambda>s obj. rk_object_unref obj s) s objs) =
     obj_destroyed s @ filter (\<lambda>obj. obj_refs s obj = 1) objs"
proof (induction objs arbitrary: s)
  case (Cons obj objs)
  have "filter (\<lambda>o'. obj_refs (rk_object_unref obj s) o' = 1) objs = filter (\<lambda>o'. obj_refs s o' = 1) objs"
  proof (rule filter_cong [OF refl])
    fix x assume "x \<in> set objs"
    with Cons.prems have "x \<noteq> obj" by auto
    then show "(obj_refs (rk_object_unref obj s) x = 1) = (obj_refs s x = 1)"
      by (simp add: rk_object_unref_frame)
  qed
  with Cons show ?case by (simp add: rk_object_unref_def Let_def)
qed simp

lemma unrefs_refs:
  "obj_refs (foldl (\<lambda>s obj. rk_object_unref obj s) s objs) x = obj_refs s x - of_nat (count_list objs x)"
proof (induction objs arbitrary: s)
  case (Cons obj objs)
  have "obj_refs (rk_object_unref obj s) x = obj_refs s x - (if obj = x then 1 else 0)"
    by (simp add: rk_object_unref_def Let_def)
  then show ?case using Cons [of "rk_object_unref obj s"] by simp
qed simp

lemma heap_finish_unrefs:
  "heap_inv h \<Longrightarrow> rk_object_heap_finish h s =
     Ok (zero_heap, foldl (\<lambda>s obj. rk_object_unref obj s) s (live_objects h))"
  using finish_loop_unrefs [of "hw h" "slots h" s]
  by (simp add: rk_object_heap_finish_def live_objects_def hw_def heap_inv_except_def)

section \<open>Properties\<close>

text \<open>
  C7: no sequence of insertions and removals on a fresh heap faults or issues an identifier
  twice, and the invariant of the heap (free list, tags, count, capacity) holds afterwards.
\<close>

theorem heap_ids_unique:
  assumes "rk_object_heap_init type = Some h"
  shows "\<exists>ids h'. heap_exec h ops = Ok (ids, h') \<and> distinct ids \<and> heap_inv h'"
  using heap_exec_run [of h ops] heap_init_inv [OF assms] by blast

theorem heap_ids_unique_witness:
  "\<exists>ids h'. heap_exec (zero_heap\<lparr>heap_type := 3, free_head := NO_SLOT\<rparr>)
     [HInsert True 7, HRemove 0x30100000, HInsert False 8] = Ok (ids, h') \<and> distinct ids \<and> heap_inv h'"
  by (rule heap_ids_unique [of 3]) (simp add: rk_object_heap_init_def valid_type_def)

text \<open>
  C6: once an identifier issued by the heap stops resolving, it resolves to nothing for ever,
  whatever is inserted or removed later: a stale handle never reaches another object.
\<close>

theorem heap_stale_ids_dead:
  assumes "rk_object_heap_init type = Some h" and "heap_exec h ops = Ok (ids, h1)"
    and "oid \<in> set ids" and "heap_find h1 oid = None" and "heap_exec h1 ops' = Ok (ids', h2)"
  shows "heap_find h2 oid = None \<and> oid \<notin> set ids'"
proof -
  have "heap_inv h" using heap_init_inv [OF assms(1)] by simp
  from heap_exec_run [OF this, of ops] assms(2,3) have h1: "heap_inv h1" "issued h1 oid" by auto
  with assms(4) issued_cases have "stale h1 oid" by blast
  with heap_exec_run [OF h1(1), of ops'] assms(5) h1(2) stale_find show ?thesis by auto
qed

theorem heap_stale_ids_dead_witness:
  "heap_find (zero_heap\<lparr>heap_type := 3, free_head := NO_SLOT\<rparr>) 0x30100000 = None \<and>
   (\<exists>ids h1 ids' h2. heap_exec (zero_heap\<lparr>heap_type := 3, free_head := NO_SLOT\<rparr>)
        [HInsert True 7, HRemove 0x30100000] = Ok (ids, h1) \<and> ids = [0x30100000] \<and>
      heap_exec h1 [HInsert True 8] = Ok (ids', h2) \<and> heap_find h2 0x30100000 = None)"
proof -
  let ?h = "zero_heap\<lparr>heap_type := 3, free_head := NO_SLOT\<rparr>"
  have i: "rk_object_heap_init 3 = Some ?h" by (simp add: rk_object_heap_init_def valid_type_def)
  have "(case heap_exec ?h [HInsert True 7, HRemove 0x30100000] of
      Ok (ids, h1) \<Rightarrow> ids = [0x30100000] \<and> heap_find h1 0x30100000 = None | _ \<Rightarrow> False)" by code_simp
  then obtain h1 where 1: "heap_exec ?h [HInsert True 7, HRemove 0x30100000] = Ok ([0x30100000], h1)"
    "heap_find h1 0x30100000 = None" by (auto split: outcome.splits)
  have "heap_inv h1" using heap_exec_run [of ?h "[HInsert True 7, HRemove 0x30100000]"] heap_init_inv [OF i] 1(1) by auto
  from heap_exec_run [OF this, of "[HInsert True 8]"] obtain ids' h2
    where 2: "heap_exec h1 [HInsert True 8] = Ok (ids', h2)" by blast
  from heap_stale_ids_dead [OF i 1(1) _ 1(2) 2] 1(1) 2 show ?thesis
    by (intro conjI) (code_simp, auto)
qed

text \<open>
  C8: the heap refines a map from identifiers to objects: insertion adds one fresh binding,
  removal returns and deletes the binding of its identifier, and acquisition takes a reference
  on exactly the object the map holds.
\<close>

theorem heap_refines_map:
  assumes "heap_inv h"
  shows "(\<exists>r h'. rk_object_heap_insert mem h obj = Ok (r, h') \<and> heap_inv h' \<and>
      (case r of None \<Rightarrow> h' = h
       | Some k \<Rightarrow> heap_find h k = None \<and> heap_find h' = (heap_find h)(k \<mapsto> obj))) \<and>
    (\<exists>h'. rk_object_heap_remove h oid = Ok (heap_find h oid, h') \<and> heap_inv h' \<and>
      heap_find h' = (heap_find h)(oid := None)) \<and>
    rk_object_heap_acquire h oid s = (case heap_find h oid of None \<Rightarrow> Ok (None, s)
      | Some x \<Rightarrow> let (ok, s') = rk_object_ref x s in Ok (if ok then Some x else None, s'))"
proof (intro conjI)
  obtain r h' where r: "rk_object_heap_insert mem h obj = Ok (r, h')"
    using heap_map.ins_total [OF assms] by blast
  then show "\<exists>r h'. rk_object_heap_insert mem h obj = Ok (r, h') \<and> heap_inv h' \<and>
      (case r of None \<Rightarrow> h' = h
       | Some k \<Rightarrow> heap_find h k = None \<and> heap_find h' = (heap_find h)(k \<mapsto> obj))"
    using heap_map.ins_inv [OF assms r] heap_map.ins_fresh [OF assms] heap_map.ins_find [OF assms]
      heap_insert_None [OF assms] by (intro exI [of _ r] exI [of _ h']) (auto split: option.splits)
  show "\<exists>h'. rk_object_heap_remove h oid = Ok (heap_find h oid, h') \<and> heap_inv h' \<and>
      heap_find h' = (heap_find h)(oid := None)"
    using heap_map.rem_total [OF assms, of oid] heap_map.rem_inv [OF assms]
      heap_map.rem_result [OF assms] heap_map.rem_find [OF assms] by metis
qed (rule heap_acquire_find [OF assms])

theorem heap_refines_map_witness:
  "\<exists>h'. rk_object_heap_remove (zero_heap\<lparr>heap_type := 2, free_head := NO_SLOT\<rparr>) 0x20100000 = Ok (None, h') \<and>
     heap_inv h'"
proof -
  let ?h = "zero_heap\<lparr>heap_type := 2, free_head := NO_SLOT\<rparr>"
  have "heap_inv ?h"
    using heap_init_inv [of 2 ?h] by (simp add: rk_object_heap_init_def valid_type_def)
  moreover have "heap_find ?h 0x20100000 = None" by code_simp
  ultimately show ?thesis using heap_refines_map [of ?h True 0 "0x20100000"] by auto
qed

text \<open>
  Tearing the heap down drops exactly one reference of every object it still holds, in
  slot order, destroys those whose count was one, and leaves an empty heap.
\<close>

theorem heap_finish_releases:
  assumes "heap_inv h"
  shows "\<exists>s'. rk_object_heap_finish h s = Ok (zero_heap, s') \<and>
    (\<forall>x. obj_refs s' x = obj_refs s x - of_nat (count_list (live_objects h) x)) \<and>
    (distinct (live_objects h) \<longrightarrow> obj_destroyed s' =
       obj_destroyed s @ filter (\<lambda>x. obj_refs s x = 1) (live_objects h))"
  using heap_finish_unrefs [OF assms, of s] unrefs_refs unrefs_destroyed by auto

theorem heap_finish_releases_witness:
  "\<exists>s'. rk_object_heap_finish (zero_heap\<lparr>heap_type := 2, free_head := NO_SLOT\<rparr>)
      \<lparr>obj_refs = (\<lambda>_. 1), obj_destroyed = []\<rparr> = Ok (zero_heap, s') \<and> obj_destroyed s' = []"
proof -
  let ?h = "zero_heap\<lparr>heap_type := 2, free_head := NO_SLOT\<rparr>"
  have "heap_inv ?h"
    using heap_init_inv [of 2 ?h] by (simp add: rk_object_heap_init_def valid_type_def)
  from heap_finish_releases [OF this, of "\<lparr>obj_refs = (\<lambda>_. 1), obj_destroyed = []\<rparr>"] show ?thesis
    by (auto simp: live_objects_def hw_def zero_heap_def map_filter_simps)
qed

end
