(* ===== verification/Frame_Layout.thy ===== *)
theory Frame_Layout
  imports Prelude
begin

unbundle bit_operations_syntax

text \<open>
  Buffer size computation of \<open>src/frame_layout.c\<close> on 64-bit \<open>size_t\<close> words and 32-bit dimensions,
  with every wrap-around check of the code. \<open>None\<close> is the result \<open>false\<close>. The specification is
  the same computation on unbounded naturals: a result is returned exactly when the true size
  fits, and it is the true size.
\<close>

abbreviation SIZE_MAX :: u64 where
  "SIZE_MAX \<equiv> - 1"

definition align_up :: "u64 \<Rightarrow> u64 \<Rightarrow> u64 option" where
  "align_up value alignment =
     (if alignment = 0 \<or> value > SIZE_MAX - (alignment - 1) then None
      else Some ((value + alignment - 1) AND NOT (alignment - 1)))"

definition rk_nv12_layout_size :: "u64 \<Rightarrow> u64 \<Rightarrow> u64 option" where
  "rk_nv12_layout_size byte_stride vertical_stride =
     (if byte_stride = 0 \<or> vertical_stride = 0 \<or> vertical_stride AND 1 \<noteq> 0 \<or>
         byte_stride > SIZE_MAX div vertical_stride then None
      else let luma_size = byte_stride * vertical_stride
           in if luma_size > SIZE_MAX - luma_size div 2 then None
              else Some (luma_size + luma_size div 2))"

definition rk_p010_layout_size :: "u64 \<Rightarrow> u64 \<Rightarrow> u64 option" where
  "rk_p010_layout_size pixel_stride vertical_stride =
     (if pixel_stride = 0 \<or> pixel_stride > SIZE_MAX div 2 then None
      else rk_nv12_layout_size (pixel_stride * 2) vertical_stride)"

definition rk_surface_buffer_size :: "u32 \<Rightarrow> u32 \<Rightarrow> u64 option" where
  "rk_surface_buffer_size width height =
     (if width = 0 \<or> height = 0 then None
      else case align_up (ucast width) 256 of None \<Rightarrow> None | Some aligned_width \<Rightarrow>
           case align_up (ucast height) 64 of None \<Rightarrow> None | Some aligned_height \<Rightarrow>
             let vp9_stride = aligned_width OR 256
             in if vp9_stride > SIZE_MAX div aligned_height then None
                else let luma_size = vp9_stride * aligned_height
                     in if luma_size > SIZE_MAX div 2 then None else Some (luma_size * 2))"

definition rk_surface_placeholder_size :: "u32 \<Rightarrow> u32 \<Rightarrow> bool \<Rightarrow> u64 option" where
  "rk_surface_placeholder_size width height is_10bit =
     (case rk_surface_buffer_size width height of None \<Rightarrow> None | Some conservative_size \<Rightarrow>
        if is_10bit
        then case align_up (ucast width) 16 of None \<Rightarrow> None | Some pixel_stride \<Rightarrow>
             case align_up (ucast height) 16 of None \<Rightarrow> None | Some vertical_stride \<Rightarrow>
             case rk_p010_layout_size pixel_stride vertical_stride of None \<Rightarrow> None | Some p010_size \<Rightarrow>
               Some (if p010_size > conservative_size then p010_size else conservative_size)
        else Some conservative_size)"

section \<open>Specification on naturals\<close>

definition nat_align :: "nat \<Rightarrow> nat \<Rightarrow> nat" where
  "nat_align v a = (v + a - 1) div a * a"

definition nv12_bytes :: "nat \<Rightarrow> nat \<Rightarrow> nat" where
  "nv12_bytes stride rows = stride * rows * 3 div 2"

definition odd_256 :: "nat \<Rightarrow> nat" where
  "odd_256 s = (if odd (s div 256) then s else s + 256)"

definition surface_bytes :: "nat \<Rightarrow> nat \<Rightarrow> nat" where
  "surface_bytes w h = odd_256 (nat_align w 256) * nat_align h 64 * 2"

lemma nat_align_props:
  assumes "0 < a"
  shows "v \<le> nat_align v a" and "nat_align v a < v + a" and "a dvd nat_align v a"
proof -
  have "v + a - 1 = (v + a - 1) div a * a + (v + a - 1) mod a" by simp
  moreover have "(v + a - 1) mod a \<le> a - 1" using assms by (metis Suc_pred' less_Suc_eq_le mod_less_divisor)
  ultimately show "v \<le> nat_align v a" "nat_align v a < v + a"
    using assms unfolding nat_align_def by linarith+
  show "a dvd nat_align v a" by (simp add: nat_align_def)
qed

lemma unat_two_power: "k < 64 \<Longrightarrow> unat (2 ^ k :: u64) = 2 ^ k"
proof -
  assume "k < 64"
  then have "(2::nat) ^ k < 2 ^ 64" by (intro power_strict_increasing) simp_all
  then have "unat (of_nat (2 ^ k) :: u64) = 2 ^ k" by (subst unat_of_nat) simp
  then show ?thesis by simp
qed

lemma odd_unat: "odd (unat v) \<longleftrightarrow> odd v" for v :: u64
  by (simp add: bit_unsigned_iff flip: bit_0)

lemma unat_plus_no_wrap: "unat a + unat b < 2 ^ 64 \<Longrightarrow> unat (a + b) = unat a + unat b" for a b :: u64
  by (simp add: unat_word_ariths)

lemma unat_mult_no_wrap: "unat a * unat b < 2 ^ 64 \<Longrightarrow> unat (a * b) = unat a * unat b" for a b :: u64
  by (simp add: unat_word_ariths)

lemma unat_and_not_mask:
  "unat (w AND NOT (2 ^ k - 1)) = unat w div 2 ^ k * 2 ^ k" if "k < 64" for w :: u64
proof -
  have "w AND NOT (mask k) = push_bit k (drop_bit k w)"
    by (rule bit_word_eqI) (auto simp: bit_simps)
  moreover have "unat (push_bit k (drop_bit k w)) = unat w div 2 ^ k * 2 ^ k"
  proof -
    have "unat w div 2 ^ k * 2 ^ k < 2 ^ 64"
      by (rule le_less_trans [OF div_times_less_eq_dividend]) simp
    then have "unat ((w div 2 ^ k) * 2 ^ k) = unat w div 2 ^ k * 2 ^ k"
      by (subst unat_mult_no_wrap) (simp_all add: unat_div unat_two_power [OF that])
    then show ?thesis by (simp add: push_bit_eq_mult drop_bit_eq_div)
  qed
  ultimately show ?thesis by (simp add: mask_eq_exp_minus_1)
qed

section \<open>Exactness\<close>

lemma le_max_minus: "a \<le> SIZE_MAX - b \<longleftrightarrow> unat a + unat b < 2 ^ 64" for a b :: u64
proof -
  have "unat (SIZE_MAX - b) = 18446744073709551615 - unat b"
    by (subst unat_sub) (simp_all add: word_le_nat_alt less_Suc_eq_le [symmetric])
  then show ?thesis
    unfolding word_le_nat_alt using unat_u64_lt [of b] by (simp only:) (simp del: unat_u64_lt, linarith)
qed

lemma le_max_div: "a \<le> SIZE_MAX div b \<longleftrightarrow> unat a * unat b < 2 ^ 64" if "b \<noteq> 0" for a b :: u64
proof -
  have b: "0 < unat b" using that by (simp add: unat_gt_0)
  have "unat a \<le> 18446744073709551615 div unat b \<longleftrightarrow> unat a * unat b \<le> 18446744073709551615"
    using b by (rule less_eq_div_iff_mult_less_eq)
  then show ?thesis by (simp add: word_le_nat_alt unat_div) linarith
qed

lemma align_up_exact:
  assumes "k < 64"
  shows "align_up v (2 ^ k) = (if unat v + 2 ^ k - 1 < 2 ^ 64
    then Some (of_nat (nat_align (unat v) (2 ^ k))) else None)"
proof -
  let ?a = "2 ^ k :: u64"
  have a: "unat ?a = 2 ^ k" by (rule unat_two_power [OF assms])
  then have nz: "?a \<noteq> 0" by (metis power_not_zero unat_0 zero_neq_numeral)
  have am: "unat (?a - 1) = 2 ^ k - 1" using a nz by (subst unat_sub) (auto simp: word_le_nat_alt unat_gt_0)
  have c: "v > SIZE_MAX - (?a - 1) \<longleftrightarrow> \<not> unat v + 2 ^ k - 1 < 2 ^ 64"
    using le_max_minus [of v "?a - 1"] am by (auto simp: not_le [symmetric] simp del: not_le)
  show ?thesis
  proof (cases "unat v + 2 ^ k - 1 < 2 ^ 64")
    case True
    have "v + ?a - 1 = v + (?a - 1)" by simp
    moreover have "unat (v + (?a - 1)) = unat v + 2 ^ k - 1"
      using True am by (subst unat_plus_no_wrap) auto
    ultimately have "unat ((v + ?a - 1) AND NOT (?a - 1)) = nat_align (unat v) (2 ^ k)"
      unfolding nat_align_def by (simp only: unat_and_not_mask [OF assms])
    then have "(v + ?a - 1) AND NOT (?a - 1) = of_nat (nat_align (unat v) (2 ^ k))"
      by (metis of_nat_unat ucast_id)
    with True c nz show ?thesis by (simp add: align_up_def)
  next
    case False
    with c show ?thesis by (simp add: align_up_def)
  qed
qed

lemma nv12_size_exact:
  "rk_nv12_layout_size s v =
     (if s \<noteq> 0 \<and> v \<noteq> 0 \<and> even (unat v) \<and> nv12_bytes (unat s) (unat v) < 2 ^ 64
      then Some (of_nat (nv12_bytes (unat s) (unat v))) else None)"
proof (cases "s = 0 \<or> v = 0 \<or> odd (unat v)")
  case True
  have "v AND 1 \<noteq> 0 \<longleftrightarrow> odd (unat v)" by (simp add: one_and_eq and_one_eq odd_unat mod_2_eq_odd)
  with True show ?thesis by (auto simp: rk_nv12_layout_size_def)
next
  case False
  have odd: "v AND 1 \<noteq> 0 \<longleftrightarrow> odd (unat v)" by (simp add: one_and_eq and_one_eq odd_unat mod_2_eq_odd)
  let ?l = "unat s * unat v"
  have size: "nv12_bytes (unat s) (unat v) = ?l + ?l div 2" by (simp add: nv12_bytes_def)
  show ?thesis
  proof (cases "?l < 2 ^ 64")
    case True
    have l: "unat (s * v) = ?l" by (rule unat_mult_no_wrap [OF True])
    have "s * v \<le> SIZE_MAX - (s * v) div 2 \<longleftrightarrow> ?l + ?l div 2 < 2 ^ 64"
      by (simp add: le_max_minus l unat_div)
    moreover have "s * v + (s * v) div 2 = of_nat (?l + ?l div 2)" if "?l + ?l div 2 < 2 ^ 64"
    proof -
      have "unat (s * v + (s * v) div 2) = ?l + ?l div 2"
        using that by (subst unat_plus_no_wrap) (simp_all add: l unat_div)
      then show ?thesis by (metis of_nat_unat ucast_id)
    qed
    ultimately show ?thesis
      using False True odd le_max_div [of v s]
      by (auto simp: rk_nv12_layout_size_def Let_def size not_less simp del: of_nat_add)
  next
    case l: False
    with False odd le_max_div [of v s] show ?thesis
      by (auto simp: rk_nv12_layout_size_def size not_less)
  qed
qed

lemma p010_size_exact:
  "rk_p010_layout_size s v =
     (if s \<noteq> 0 \<and> v \<noteq> 0 \<and> even (unat v) \<and> nv12_bytes (2 * unat s) (unat v) < 2 ^ 64
      then Some (of_nat (nv12_bytes (2 * unat s) (unat v))) else None)"
proof (cases "unat s * 2 < 2 ^ 64")
  case True
  then have u: "unat (s * 2) = 2 * unat s" by (subst unat_mult_no_wrap) simp_all
  then have "s * 2 \<noteq> 0 \<longleftrightarrow> s \<noteq> 0" by (metis mult_eq_0_iff unat_eq_0 zero_neq_numeral)
  with True u show ?thesis
    using le_max_div [of 2 s] by (auto simp: rk_p010_layout_size_def nv12_size_exact not_less)
next
  case False
  have "2 ^ 64 \<le> nv12_bytes (2 * unat s) (unat v)" if "v \<noteq> 0"
  proof -
    have "unat s * 1 \<le> unat s * unat v"
      using that by (intro mult_le_mono2) (simp add: Suc_le_eq unat_gt_0)
    moreover have "nv12_bytes (2 * unat s) (unat v) = 3 * (unat s * unat v)" by (simp add: nv12_bytes_def)
    ultimately show ?thesis using False by linarith
  qed
  with False show ?thesis
    using le_max_div [of 2 s] by (auto simp: rk_p010_layout_size_def not_less not_le)
qed

lemma align_up_dimension:
  assumes "k \<le> 16"
  shows "align_up (ucast (d :: u32)) (2 ^ k) = Some (of_nat (nat_align (unat d) (2 ^ k)))"
    and "unat (of_nat (nat_align (unat d) (2 ^ k)) :: u64) = nat_align (unat d) (2 ^ k)"
    and "nat_align (unat d) (2 ^ k) < 2 ^ 33"
proof -
  have p: "(2::nat) ^ k \<le> 65536" using power_increasing [OF assms, of "2::nat"] by simp
  have "nat_align (unat d) (2 ^ k) < unat d + 2 ^ k" by (rule nat_align_props(2)) simp
  then show b: "nat_align (unat d) (2 ^ k) < 2 ^ 33"
    using p unat_u32_lt [of d] by (simp del: unat_u32_lt)
  then show "unat (of_nat (nat_align (unat d) (2 ^ k)) :: u64) = nat_align (unat d) (2 ^ k)"
    by (simp add: unat_of_nat)
  have "unat d + 2 ^ k - 1 < 2 ^ 64" using p unat_u32_lt [of d] by (simp del: unat_u32_lt)
  then show "align_up (ucast d) (2 ^ k) = Some (of_nat (nat_align (unat d) (2 ^ k)))"
    using align_up_exact [of k "ucast d"] assms by simp
qed

lemma or_256_odd:
  assumes "unat w < 2 ^ 33"
  shows "unat (w OR 256 :: u64) = odd_256 (unat w)"
proof (cases "bit w 8")
  case True
  then have "w OR 256 = w" by (intro bit_word_eqI) (auto simp: bit_simps bit_exp_iff [of 8, simplified])
  moreover have "odd (unat w div 256)" using True by (simp add: bit_iff_odd_drop_bit drop_bit_eq_div flip: odd_unat add: unat_div)
  ultimately show ?thesis by (simp add: odd_256_def)
next
  case False
  then have "w OR 256 = w + 256"
    by (intro disjunctive_add [symmetric]) (auto simp: bit_simps bit_exp_iff [of 8, simplified])
  moreover have "unat (w + 256) = unat w + 256"
    using assms by (subst unat_plus_no_wrap) simp_all
  moreover have "even (unat w div 256)" using False by (simp add: bit_iff_odd_drop_bit drop_bit_eq_div flip: odd_unat add: unat_div)
  ultimately show ?thesis by (simp add: odd_256_def)
qed

lemma surface_size_exact:
  "rk_surface_buffer_size w h =
     (if w \<noteq> 0 \<and> h \<noteq> 0 \<and> surface_bytes (unat w) (unat h) < 2 ^ 64
      then Some (of_nat (surface_bytes (unat w) (unat h))) else None)"
proof (cases "w = 0 \<or> h = 0")
  case True
  then show ?thesis by (auto simp: rk_surface_buffer_size_def)
next
  case False
  let ?aw = "of_nat (nat_align (unat w) 256) :: u64" and ?ah = "of_nat (nat_align (unat h) 64) :: u64"
  let ?S = "odd_256 (nat_align (unat w) 256)" and ?H = "nat_align (unat h) 64"
  note aw = align_up_dimension [of 8 w, simplified] and ah = align_up_dimension [of 6 h, simplified]
  have s: "unat (?aw OR 256) = ?S" using or_256_odd [of ?aw] aw by simp
  have "unat h \<le> ?H" by (rule nat_align_props(1)) simp
  then have h0: "?ah \<noteq> 0" using False ah(2) by (metis le_zero_eq unat_0 unat_eq_0)
  have eq: "rk_surface_buffer_size w h = (if (?aw OR 256) \<le> SIZE_MAX div ?ah
      then if (?aw OR 256) * ?ah \<le> SIZE_MAX div 2 then Some ((?aw OR 256) * ?ah * 2) else None else None)"
    using False aw(1) ah(1) by (simp add: rk_surface_buffer_size_def Let_def not_le [symmetric])
  show ?thesis
  proof (cases "?S * ?H < 2 ^ 64")
    case True
    have l: "unat ((?aw OR 256) * ?ah) = ?S * ?H"
      using True s ah(2) by (subst unat_mult_no_wrap) simp_all
    have "(?aw OR 256) * ?ah * 2 = of_nat (?S * ?H * 2)" if "?S * ?H * 2 < 2 ^ 64"
    proof -
      have "unat ((?aw OR 256) * ?ah * 2) = ?S * ?H * 2"
        using that l by (subst unat_mult_no_wrap) simp_all
      then show ?thesis by (metis of_nat_unat ucast_id)
    qed
    moreover have "(2 :: u64) \<noteq> 0" "unat (2 :: u64) = 2" by simp_all
    ultimately show ?thesis
      using True False h0 unfolding eq surface_bytes_def le_max_div [OF h0]
        le_max_div [OF \<open>(2 :: u64) \<noteq> 0\<close>] l s ah(2) \<open>unat (2 :: u64) = 2\<close> by presburger
  next
    case l: False
    then have "\<not> surface_bytes (unat w) (unat h) < 2 ^ 64" unfolding surface_bytes_def by linarith
    with l h0 s ah(2) show ?thesis unfolding eq by (simp add: le_max_div)
  qed
qed

lemma placeholder_size_exact:
  "rk_surface_placeholder_size w h ten =
     (if w \<noteq> 0 \<and> h \<noteq> 0 \<and> surface_bytes (unat w) (unat h) < 2 ^ 64 \<and>
         (ten \<longrightarrow> nv12_bytes (2 * nat_align (unat w) 16) (nat_align (unat h) 16) < 2 ^ 64)
      then Some (of_nat (if ten then max (surface_bytes (unat w) (unat h))
             (nv12_bytes (2 * nat_align (unat w) 16) (nat_align (unat h) 16))
           else surface_bytes (unat w) (unat h))) else None)"
proof (cases "ten \<and> w \<noteq> 0 \<and> h \<noteq> 0 \<and> surface_bytes (unat w) (unat h) < 2 ^ 64")
  case False
  then show ?thesis by (auto simp: rk_surface_placeholder_size_def surface_size_exact)
next
  case True
  let ?W = "nat_align (unat w) 16" and ?H = "nat_align (unat h) 16"
  let ?S = "surface_bytes (unat w) (unat h)" and ?P = "nv12_bytes (2 * ?W) ?H"
  note aw = align_up_dimension [of 4 w, simplified] and ah = align_up_dimension [of 4 h, simplified]
  have "unat h \<le> ?H" "unat w \<le> ?W" by (rule nat_align_props(1), simp)+
  then have nz: "(of_nat ?H :: u64) \<noteq> 0" "(of_nat ?W :: u64) \<noteq> 0"
    using True aw(2) ah(2) by (metis le_zero_eq unat_0 unat_eq_0)+
  have "16 dvd ?H" by (rule nat_align_props(3)) simp
  then have "even ?H" by (metis dvd_trans dvd_triv_left numeral_Bit0 mult_2)
  then have p: "rk_p010_layout_size (of_nat ?W) (of_nat ?H) = (if ?P < 2 ^ 64 then Some (of_nat ?P) else None)"
    using nz aw(2) ah(2) by (simp add: p010_size_exact)
  have "(of_nat ?P :: u64) > of_nat ?S \<longleftrightarrow> ?P > ?S" if "?P < 2 ^ 64"
    using that True by (simp add: word_less_nat_alt unat_of_nat)
  with True p show ?thesis
    by (auto simp: rk_surface_placeholder_size_def surface_size_exact aw(1) ah(1) max_def)
qed

section \<open>Properties\<close>

text \<open>
  The NV12 size is computed exactly: the result is three halves of stride times rows, and
  it is refused precisely when an argument is zero, the row count is odd or the true size does
  not fit into \<open>size_t\<close>.
\<close>

theorem nv12_layout_exact:
  "rk_nv12_layout_size s v =
     (if s \<noteq> 0 \<and> v \<noteq> 0 \<and> even (unat v) \<and> nv12_bytes (unat s) (unat v) < 2 ^ 64
      then Some (of_nat (nv12_bytes (unat s) (unat v))) else None)"
  by (rule nv12_size_exact)

text \<open>
  C40: the placeholder size of a surface is exact as well: twice the luma plane with the odd
  256-byte stride, at least the P010 layout for ten bits, and refused exactly when a dimension
  is zero or a true size does not fit.
\<close>

theorem placeholder_size_exact_for_surface:
  "rk_surface_placeholder_size w h ten =
     (if w \<noteq> 0 \<and> h \<noteq> 0 \<and> surface_bytes (unat w) (unat h) < 2 ^ 64 \<and>
         (if ten then nv12_bytes (2 * nat_align (unat w) 16) (nat_align (unat h) 16) < 2 ^ 64 else True)
      then Some (of_nat (if ten then max (surface_bytes (unat w) (unat h))
             (nv12_bytes (2 * nat_align (unat w) 16) (nat_align (unat h) 16))
           else surface_bytes (unat w) (unat h))) else None)"
  by (simp add: placeholder_size_exact)

end
