(* ===== verification/Linked_Queue.thy ===== *)
theory Linked_Queue
  imports Prelude
begin

text \<open>
  The intrusive singly linked lists of \<open>src/mpp_dec.c\<close>: the list of H.264 and HEVC routes, which
  has a head pointer only, and the route and job queues, which have a head and a tail pointer.
  A list owns a store of nodes: an address maps to the payload and the \<open>next\<close> pointer. Reading
  or freeing an unmapped address is a \<open>Fault\<close>. Loops over \<open>next\<close> pointers carry as fuel the
  number of addresses ever allocated; running out would mean a cyclic list, is a \<open>Fault\<close> as
  well and does not happen on well-formed lists.

  The abstraction of a list is the sequence of its addresses and payloads; the laws of the
  locale \<open>fifo\<close> are what the decode worker relies on.
\<close>

type_synonym addr = nat

record 'a ll =
  ll_cells :: "addr \<rightharpoonup> 'a \<times> addr option"
  ll_brk :: addr
  ll_head :: "addr option"

record 'a lq = "'a ll" +
  lq_tail :: "addr option"

definition ll_empty :: "'a ll" where
  "ll_empty = \<lparr>ll_cells = Map.empty, ll_brk = 0, ll_head = None\<rparr>"

definition lq_empty :: "'a lq" where
  "lq_empty = \<lparr>ll_cells = Map.empty, ll_brk = 0, ll_head = None, lq_tail = None\<rparr>"

text \<open>A successful \<open>calloc\<close> of a node followed by the initialisation of its payload.\<close>

definition ll_new :: "('a, 'z) ll_scheme \<Rightarrow> 'a \<Rightarrow> addr \<times> ('a, 'z) ll_scheme" where
  "ll_new l x = (ll_brk l, l\<lparr>ll_cells := (ll_cells l)(ll_brk l \<mapsto> (x, None)), ll_brk := ll_brk l + 1\<rparr>)"

definition ll_get :: "('a, 'z) ll_scheme \<Rightarrow> addr \<Rightarrow> ('a \<times> addr option) outcome" where
  "ll_get l p = (case ll_cells l p of None \<Rightarrow> Fault | Some n \<Rightarrow> Ok n)"

definition ll_free :: "('a, 'z) ll_scheme \<Rightarrow> addr \<Rightarrow> ('a \<times> ('a, 'z) ll_scheme) outcome" where
  "ll_free l p = obind (ll_get l p) (\<lambda>(x, n). Ok (x, l\<lparr>ll_cells := (ll_cells l)(p := None)\<rparr>))"

definition ll_set_next :: "('a, 'z) ll_scheme \<Rightarrow> addr \<Rightarrow> addr option \<Rightarrow> ('a, 'z) ll_scheme outcome" where
  "ll_set_next l p n = obind (ll_get l p) (\<lambda>(x, _). Ok (l\<lparr>ll_cells := (ll_cells l)(p \<mapsto> (x, n))\<rparr>))"

section \<open>Head-only list\<close>

definition ll_push :: "('a, 'z) ll_scheme \<Rightarrow> addr \<Rightarrow> ('a, 'z) ll_scheme outcome" where
  "ll_push l p = obind (ll_set_next l p (ll_head l)) (\<lambda>l. Ok (l\<lparr>ll_head := Some p\<rparr>))"

fun ll_find :: "('a, 'z) ll_scheme \<Rightarrow> ('a \<Rightarrow> bool) \<Rightarrow> nat \<Rightarrow> addr option \<Rightarrow> addr option outcome" where
  "ll_find l P fuel None = Ok None"
| "ll_find l P 0 (Some p) = Fault"
| "ll_find l P (Suc fuel) (Some p) =
     obind (ll_get l p) (\<lambda>(x, n). if P x then Ok (Some p) else ll_find l P fuel n)"

text \<open>The pointer-to-pointer \<open>cursor\<close>: \<open>None\<close> is the head, \<open>Some q\<close> the \<open>next\<close> field of \<open>q\<close>.\<close>

definition ll_store :: "('a, 'z) ll_scheme \<Rightarrow> addr option \<Rightarrow> addr option \<Rightarrow> ('a, 'z) ll_scheme outcome" where
  "ll_store l cursor n =
     (case cursor of None \<Rightarrow> Ok (l\<lparr>ll_head := n\<rparr>) | Some q \<Rightarrow> ll_set_next l q n)"

text \<open>
  The unlinking loop. The result is the address that was unlinked, the node before it and the
  changed list.
\<close>

fun ll_unlink ::
    "('a, 'z) ll_scheme \<Rightarrow> (addr \<Rightarrow> 'a \<Rightarrow> bool) \<Rightarrow> nat \<Rightarrow> addr option \<Rightarrow> addr option \<Rightarrow>
     ((addr \<times> addr option) option \<times> ('a, 'z) ll_scheme) outcome" where
  "ll_unlink l P fuel cursor None = Ok (None, l)"
| "ll_unlink l P 0 cursor (Some p) = Fault"
| "ll_unlink l P (Suc fuel) cursor (Some p) =
     obind (ll_get l p) (\<lambda>(x, n).
       if P p x
       then obind (ll_store l cursor n) (\<lambda>l. obind (ll_set_next l p None) (\<lambda>l. Ok (Some (p, cursor), l)))
       else ll_unlink l P fuel (Some p) n)"

section \<open>Queue with head and tail\<close>

definition lq_append :: "'a lq \<Rightarrow> addr \<Rightarrow> 'a lq outcome" where
  "lq_append q p =
     obind (ll_set_next q p None) (\<lambda>q.
     obind (case lq_tail q of Some t \<Rightarrow> ll_set_next q t (Some p) | None \<Rightarrow> Ok (q\<lparr>ll_head := Some p\<rparr>)) (\<lambda>q.
       Ok (q\<lparr>lq_tail := Some p\<rparr>)))"

definition lq_pop :: "'a lq \<Rightarrow> (addr option \<times> 'a lq) outcome" where
  "lq_pop q =
     (case ll_head q of
        None \<Rightarrow> Ok (None, q)
      | Some p \<Rightarrow>
          obind (ll_get q p) (\<lambda>(x, n).
            let q = q\<lparr>ll_head := n\<rparr>; q = (if n = None then q\<lparr>lq_tail := None\<rparr> else q)
            in obind (ll_set_next q p None) (\<lambda>q. Ok (Some p, q))))"

definition lq_remove :: "'a lq \<Rightarrow> addr \<Rightarrow> 'a lq outcome" where
  "lq_remove q p =
     obind (ll_unlink q (\<lambda>r _. r = p) (ll_brk q) None (ll_head q)) (\<lambda>(found, q').
       case found of
         None \<Rightarrow> Ok q'
       | Some (_, previous) \<Rightarrow> Ok (if lq_tail q' = Some p then q'\<lparr>lq_tail := previous\<rparr> else q'))"

section \<open>Paths\<close>

fun path :: "(addr \<rightharpoonup> 'a \<times> addr option) \<Rightarrow> addr option \<Rightarrow> addr list \<Rightarrow> addr option \<Rightarrow> bool" where
  "path c s [] e \<longleftrightarrow> s = e"
| "path c s (p # ps) e \<longleftrightarrow> s = Some p \<and> (\<exists>x n. c p = Some (x, n) \<and> path c n ps e)"

lemma path_append: "path c s (ps @ qs) e \<longleftrightarrow> (\<exists>m. path c s ps m \<and> path c m qs e)"
  by (induction ps arbitrary: s) auto

lemma path_update [simp]: "p \<notin> set ps \<Longrightarrow> path (c(p := v)) s ps e \<longleftrightarrow> path c s ps e"
  by (induction ps arbitrary: s) auto

lemma path_dom: "path c s ps e \<Longrightarrow> set ps \<subseteq> dom c"
  by (induction ps arbitrary: s) auto

lemma path_snoc: "path c s (ps @ [p]) e \<longleftrightarrow> path c s ps (Some p) \<and> (\<exists>x. c p = Some (x, e))"
  by (auto simp: path_append)

text \<open>A well-formed list through the addresses \<open>ps\<close>.\<close>

definition ll_wf :: "('a, 'z) ll_scheme \<Rightarrow> addr list \<Rightarrow> bool" where
  "ll_wf l ps \<longleftrightarrow> path (ll_cells l) (ll_head l) ps None \<and> distinct ps \<and> dom (ll_cells l) \<subseteq> {..<ll_brk l}"

definition lq_wf :: "'a lq \<Rightarrow> addr list \<Rightarrow> bool" where
  "lq_wf q ps \<longleftrightarrow> ll_wf q ps \<and> lq_tail q = (if ps = [] then None else Some (last ps))"

definition ll_val :: "('a, 'z) ll_scheme \<Rightarrow> addr \<Rightarrow> 'a" where
  "ll_val l p = fst (the (ll_cells l p))"

abbreviation ll_vals :: "('a, 'z) ll_scheme \<Rightarrow> addr list \<Rightarrow> 'a list" where
  "ll_vals l ps \<equiv> map (ll_val l) ps"

lemma ll_wf_length: "ll_wf l ps \<Longrightarrow> length ps \<le> ll_brk l"
proof -
  assume "ll_wf l ps"
  then have "set ps \<subseteq> {..<ll_brk l}" "distinct ps"
    using path_dom [of "ll_cells l" "ll_head l" ps None] by (auto simp: ll_wf_def)
  then have "card (set ps) \<le> card {..<ll_brk l}" by (intro card_mono) auto
  with \<open>distinct ps\<close> show ?thesis by (simp add: distinct_card)
qed

lemma ll_wf_unique: "ll_wf l ps \<Longrightarrow> ll_wf l qs \<Longrightarrow> ps = qs"
proof -
  have "path c s ps None \<Longrightarrow> path c s qs None \<Longrightarrow> ps = qs" for c :: "addr \<rightharpoonup> 'a \<times> addr option" and s
    by (induction ps arbitrary: s qs) (case_tac qs; auto)+
  then show "ll_wf l ps \<Longrightarrow> ll_wf l qs \<Longrightarrow> ps = qs" by (auto simp: ll_wf_def)
qed

lemma ll_get_mem: "ll_wf l ps \<Longrightarrow> p \<in> set ps \<Longrightarrow> \<exists>n. ll_get l p = Ok (ll_val l p, n)"
  using path_dom [of "ll_cells l" "ll_head l" ps None]
  by (auto simp: ll_wf_def ll_get_def ll_val_def split: option.splits)


text \<open>Two stores with the same nodes and payloads; only links may differ.\<close>

definition same_nodes :: "('a, 'z) ll_scheme \<Rightarrow> ('a, 'y) ll_scheme \<Rightarrow> bool" where
  "same_nodes l l' \<longleftrightarrow> map_option fst \<circ> ll_cells l' = map_option fst \<circ> ll_cells l \<and> ll_brk l' = ll_brk l"

lemma same_nodes_refl [simp]: "same_nodes l l"
  by (simp add: same_nodes_def)

lemma same_nodes_trans: "same_nodes a b \<Longrightarrow> same_nodes b c \<Longrightarrow> same_nodes a c"
  by (simp add: same_nodes_def)

lemma same_nodes_dom: "same_nodes l l' \<Longrightarrow> dom (ll_cells l') = dom (ll_cells l)"
  by (metis dom_map_option_comp same_nodes_def)

lemma ll_get_ok: "ll_cells l p = Some n \<Longrightarrow> ll_get l p = Ok n"
  by (simp add: ll_get_def)

lemma same_nodes_val: "same_nodes l l' \<Longrightarrow> ll_val l' = ll_val l"
proof
  fix p assume "same_nodes l l'"
  then have "map_option fst (ll_cells l' p) = map_option fst (ll_cells l p)"
    by (metis comp_apply same_nodes_def)
  then show "ll_val l' p = ll_val l p"
    by (cases "ll_cells l p"; cases "ll_cells l' p") (auto simp: ll_val_def)
qed

lemma ll_set_next_ok:
  assumes "p \<in> dom (ll_cells l)"
  shows "ll_set_next l p n = Ok (l\<lparr>ll_cells := (ll_cells l)(p \<mapsto> (ll_val l p, n))\<rparr>)"
  using assms by (auto simp: ll_set_next_def ll_get_def ll_val_def)

lemma same_nodes_next: "p \<in> dom (ll_cells l) \<Longrightarrow> same_nodes l (l\<lparr>ll_cells := (ll_cells l)(p \<mapsto> (ll_val l p, n))\<rparr>)"
  by (auto simp: same_nodes_def fun_eq_iff ll_val_def)

lemma same_nodes_head [simp]: "same_nodes l (l\<lparr>ll_head := h\<rparr>)"
  by (simp add: same_nodes_def)

lemma same_nodes_tail [simp]: "same_nodes l (q\<lparr>lq_tail := t\<rparr>) \<longleftrightarrow> same_nodes l q"
  by (simp add: same_nodes_def)

section \<open>Laws\<close>

lemma ll_new_wf:
  assumes "ll_wf l ps" and "ll_new l x = (p, l')"
  shows "ll_wf l' ps" and "p \<notin> dom (ll_cells l)" and "dom (ll_cells l') = insert p (dom (ll_cells l))"
    and "ll_val l' p = x" and "q \<noteq> p \<Longrightarrow> ll_val l' q = ll_val l q" and "p \<notin> set ps"
    and "ll_head l' = ll_head l"
proof -
  have p: "p = ll_brk l" "l' = l\<lparr>ll_cells := (ll_cells l)(p \<mapsto> (x, None)), ll_brk := ll_brk l + 1\<rparr>"
    using assms(2) by (auto simp: ll_new_def)
  show fresh: "p \<notin> dom (ll_cells l)" using assms(1) p by (auto simp: ll_wf_def)
  then show np: "p \<notin> set ps" using path_dom [of "ll_cells l" "ll_head l" ps None] assms(1) by (auto simp: ll_wf_def)
  show "ll_wf l' ps" using assms(1) np by (auto simp: ll_wf_def p(2)) (use p(1) in auto)
  show "dom (ll_cells l') = insert p (dom (ll_cells l))" "ll_val l' p = x" "ll_head l' = ll_head l"
    by (simp_all add: p(2) ll_val_def)
  show "ll_val l' q = ll_val l q" if "q \<noteq> p" using that by (simp add: p(2) ll_val_def)
qed

lemma ll_free_wf:
  assumes "ll_wf l ps" and "p \<in> dom (ll_cells l)" and "p \<notin> set ps"
  shows "\<exists>l'. ll_free l p = Ok (ll_val l p, l') \<and> ll_wf l' ps \<and>
    dom (ll_cells l') = dom (ll_cells l) - {p} \<and> (\<forall>q. q \<noteq> p \<longrightarrow> ll_val l' q = ll_val l q)"
  using assms by (auto simp: ll_free_def ll_get_def ll_val_def ll_wf_def)

lemma ll_push_wf:
  assumes "ll_wf l ps" and "p \<in> dom (ll_cells l)" and "p \<notin> set ps"
  shows "\<exists>l'. ll_push l p = Ok l' \<and> ll_wf l' (p # ps) \<and> same_nodes l l'"
  using assms same_nodes_next [OF assms(2), of "ll_head l"]
  by (auto simp: ll_push_def ll_set_next_ok ll_wf_def same_nodes_def)

lemma ll_find_path:
  assumes "path (ll_cells l) s ps None" and "length ps \<le> fuel"
  shows "ll_find l P fuel s = Ok (find (\<lambda>p. P (ll_val l p)) ps)"
  using assms
proof (induction ps arbitrary: s fuel)
  case (Cons p ps)
  then obtain f n where f: "fuel = Suc f" "s = Some p" "ll_cells l p = Some (ll_val l p, n)"
      "path (ll_cells l) n ps None" "length ps \<le> f"
    by (cases fuel) (auto simp: ll_val_def)
  show ?case
    unfolding f(1,2) ll_find.simps ll_get_ok [OF f(3)] obind.simps prod.case Cons.IH [OF f(4,5)] by simp
qed simp

lemma ll_find_wf: "ll_wf l ps \<Longrightarrow> ll_find l P (ll_brk l) (ll_head l) = Ok (find (\<lambda>p. P (ll_val l p)) ps)"
  using ll_wf_length [of l ps] ll_find_path [of l "ll_head l" ps "ll_brk l" P] by (simp add: ll_wf_def)

text \<open>Unlinking at a known place of the path.\<close>

lemma ll_store_path:
  assumes "ll_wf l (as @ p # bs)"
  shows "\<exists>l1. ll_store l (if as = [] then None else Some (last as)) n = Ok l1 \<and>
    same_nodes l l1 \<and> path (ll_cells l1) (ll_head l1) as n \<and>
    (\<forall>q. q \<notin> set as \<longrightarrow> ll_cells l1 q = ll_cells l q)"
proof (cases as rule: rev_cases)
  case Nil
  then show ?thesis by (simp add: ll_store_def)
next
  case (snoc as' a)
  with assms have d: "a \<in> dom (ll_cells l)" "a \<notin> set as'" "path (ll_cells l) (ll_head l) as' (Some a)"
    by (auto simp: ll_wf_def path_append)
  then show ?thesis
    using same_nodes_next [OF d(1), of n] by (simp add: snoc ll_store_def ll_set_next_ok path_snoc)
qed

lemma ll_unlink_found:
  assumes "ll_wf l (as @ p # bs)" and "P p (ll_val l p)"
  shows "\<exists>l'. ll_unlink l P (Suc fuel) (if as = [] then None else Some (last as)) (Some p) =
      Ok (Some (p, if as = [] then None else Some (last as)), l') \<and> ll_wf l' (as @ bs) \<and> same_nodes l l'"
proof -
  obtain n where n: "ll_cells l p = Some (ll_val l p, n)" "path (ll_cells l) n bs None"
    using assms(1) by (auto simp: ll_wf_def path_append ll_val_def)
  obtain l1 where l1: "ll_store l (if as = [] then None else Some (last as)) n = Ok l1" "same_nodes l l1"
      "path (ll_cells l1) (ll_head l1) as n" "\<forall>q. q \<notin> set as \<longrightarrow> ll_cells l1 q = ll_cells l q"
    using ll_store_path [OF assms(1), of n] by blast
  have d: "distinct (as @ p # bs)" "dom (ll_cells l) \<subseteq> {..<ll_brk l}" using assms(1) by (auto simp: ll_wf_def)
  have p1: "p \<in> dom (ll_cells l1)" using n l1(4) d(1) by auto
  let ?l2 = "l1\<lparr>ll_cells := (ll_cells l1)(p \<mapsto> (ll_val l1 p, None))\<rparr>"
  have s2: "same_nodes l ?l2" using l1(2) same_nodes_next [OF p1] by (rule same_nodes_trans)
  have eq: "path (ll_cells l1) m bs None \<longleftrightarrow> path (ll_cells l) m bs None" for m
    using l1(4) d(1) by (induction bs arbitrary: m) auto
  have "ll_wf ?l2 (as @ bs)"
    using l1(3) n(2) d(1) eq [of n] same_nodes_dom [OF s2] d(2) s2
    by (auto simp: ll_wf_def path_append same_nodes_def)
  with s2 show ?thesis
    unfolding ll_unlink.simps ll_get_ok [OF n(1)] obind.simps prod.case if_P [where P = "P p (ll_val l p)", OF assms(2)]
      l1(1) ll_set_next_ok [OF p1] by blast
qed

lemma ll_unlink_path:
  assumes "ll_wf l (as @ ps)" and "length ps \<le> fuel" and "path (ll_cells l) s ps None"
  shows "\<exists>l'. ll_unlink l P fuel (if as = [] then None else Some (last as)) s =
      Ok (map_option (\<lambda>p. (p, let us = as @ takeWhile (\<lambda>p. \<not> P p (ll_val l p)) ps in if us = [] then None else Some (last us)))
        (find (\<lambda>p. P p (ll_val l p)) ps), l') \<and> same_nodes l l' \<and>
      ll_wf l' (as @ takeWhile (\<lambda>p. \<not> P p (ll_val l p)) ps @ tl (dropWhile (\<lambda>p. \<not> P p (ll_val l p)) ps))"
  using assms
proof (induction ps arbitrary: as fuel s)
  case (Cons p ps)
  then obtain f n where f: "fuel = Suc f" "s = Some p" "ll_cells l p = Some (ll_val l p, n)" "path (ll_cells l) n ps None"
    by (cases fuel) (auto simp: ll_val_def)
  show ?case
  proof (cases "P p (ll_val l p)")
    case True
    from ll_unlink_found [OF Cons.prems(1), of P, OF True, of f] show ?thesis
      unfolding f(1,2) by (cases "as = []") (auto simp add: Let_def True simp del: ll_unlink.simps)
  next
    case False
    have "ll_wf l ((as @ [p]) @ ps)" "length ps \<le> f" using Cons.prems f by auto
    from Cons.IH [OF this f(4)] show ?thesis
      unfolding f(1,2) ll_unlink.simps ll_get_ok [OF f(3)] obind.simps prod.case by (simp add: False)
  qed
qed auto


text \<open>Unlinking the first node with a property from a whole list.\<close>

lemma ll_unlink_wf:
  assumes "ll_wf l ps"
  shows "\<exists>l' prev. ll_unlink l P (ll_brk l) None (ll_head l) =
      Ok (map_option (\<lambda>p. (p, prev)) (find (\<lambda>p. P p (ll_val l p)) ps), l') \<and> same_nodes l l' \<and>
      ll_wf l' (takeWhile (\<lambda>p. \<not> P p (ll_val l p)) ps @ tl (dropWhile (\<lambda>p. \<not> P p (ll_val l p)) ps)) \<and>
      prev = (let us = takeWhile (\<lambda>p. \<not> P p (ll_val l p)) ps in if us = [] then None else Some (last us))"
  using ll_unlink_path [of l "[]" ps "ll_brk l" "ll_head l" P] assms ll_wf_length [OF assms]
  by (auto simp: ll_wf_def Let_def)

lemma lq_append_wf:
  assumes "lq_wf q ps" and "p \<in> dom (ll_cells q)" and "p \<notin> set ps"
  shows "\<exists>q'. lq_append q p = Ok q' \<and> lq_wf q' (ps @ [p]) \<and> same_nodes q q'"
proof -
  let ?q1 = "q\<lparr>ll_cells := (ll_cells q)(p \<mapsto> (ll_val q p, None))\<rparr>"
  have s1: "same_nodes q ?q1" by (rule same_nodes_next [OF assms(2)])
  show ?thesis
  proof (cases ps rule: rev_cases)
    case Nil
    with assms s1 same_nodes_dom [OF s1] show ?thesis
      by (auto simp: lq_append_def ll_set_next_ok lq_wf_def ll_wf_def same_nodes_def)
  next
    case (snoc as t)
    then have t: "t \<in> dom (ll_cells q)" "t \<noteq> p" "t \<notin> set as" "p \<notin> set as" "path (ll_cells q) (ll_head q) as (Some t)"
      and tail: "lq_tail q = Some t" and d: "distinct as" "dom (ll_cells q) \<subseteq> {..<ll_brk q}"
      using assms by (auto simp: lq_wf_def ll_wf_def path_snoc)
    have t1: "t \<in> dom (ll_cells ?q1)" using t by simp
    let ?q2 = "?q1\<lparr>ll_cells := (ll_cells ?q1)(t \<mapsto> (ll_val ?q1 t, Some p))\<rparr>"
    have s2: "same_nodes q ?q2" using s1 same_nodes_next [OF t1] by (rule same_nodes_trans)
    have "lq_append q p = Ok (?q2\<lparr>lq_tail := Some p\<rparr>)"
      using t1 assms(2) tail by (simp add: lq_append_def ll_set_next_ok)
    moreover have "lq_wf (?q2\<lparr>lq_tail := Some p\<rparr>) (ps @ [p])"
      using t d assms(2) by (auto simp: snoc lq_wf_def ll_wf_def path_append)
    ultimately show ?thesis using s2 by auto
  qed
qed

lemma lq_pop_wf:
  assumes "lq_wf q (p # ps)"
  shows "\<exists>q'. lq_pop q = Ok (Some p, q') \<and> lq_wf q' ps \<and> same_nodes q q'"
proof -
  obtain n where n: "ll_cells q p = Some (ll_val q p, n)" "path (ll_cells q) n ps None" "ll_head q = Some p"
    and d: "p \<notin> set ps" "distinct ps" "dom (ll_cells q) \<subseteq> {..<ll_brk q}"
    using assms by (auto simp: lq_wf_def ll_wf_def ll_val_def)
  let ?q1 = "if n = None then q\<lparr>ll_head := n\<rparr>\<lparr>lq_tail := None\<rparr> else q\<lparr>ll_head := n\<rparr>"
  have p: "p \<in> dom (ll_cells ?q1)" using n(1) by auto
  have v: "ll_val ?q1 p = ll_val q p" by (simp add: ll_val_def)
  let ?q2 = "?q1\<lparr>ll_cells := (ll_cells ?q1)(p \<mapsto> (ll_val q p, None))\<rparr>"
  have run: "lq_pop q = Ok (Some p, ?q2)"
    unfolding lq_pop_def n(3) option.case ll_get_ok [OF n(1)] obind.simps prod.case Let_def
      ll_set_next_ok [OF p] v by simp
  have e: "n = None \<longleftrightarrow> ps = []" using n(2) by (cases ps) auto
  have "lq_wf ?q2 ps" using n d e assms by (auto simp: lq_wf_def ll_wf_def)
  moreover have "same_nodes q ?q2" using n(1) by (auto simp: same_nodes_def fun_eq_iff)
  ultimately show ?thesis using run by blast
qed

lemma lq_pop_empty: "lq_wf q [] \<Longrightarrow> lq_pop q = Ok (None, q)"
  by (simp add: lq_pop_def lq_wf_def ll_wf_def)

lemma takeWhile_neq_split: "distinct ps \<Longrightarrow> p \<in> set ps \<Longrightarrow> \<exists>as bs. ps = as @ p # bs \<and> p \<notin> set as \<and> p \<notin> set bs"
  by (metis distinct.simps(2) distinct_append split_list not_distinct_conv_prefix disjoint_iff list.set_intros(1))

lemma ll_set_next_tail: "ll_set_next q p n = Ok q' \<Longrightarrow> lq_tail q' = lq_tail q"
  by (auto simp: ll_set_next_def)

lemma ll_unlink_tail: "ll_unlink q P fuel cursor s = Ok (r, q') \<Longrightarrow> lq_tail q' = lq_tail q"
proof (induction q P fuel cursor s rule: ll_unlink.induct)
  case (3 q P fuel cursor p)
  then show ?case
    by (auto simp: ll_store_def dest!: ll_set_next_tail split: if_splits option.splits)
qed auto

lemma lq_remove_wf:
  assumes "lq_wf q ps"
  shows "\<exists>q'. lq_remove q p = Ok q' \<and> lq_wf q' (remove1 p ps) \<and> same_nodes q q'"
proof -
  let ?us = "takeWhile (\<lambda>r. r \<noteq> p) ps"
  have wf: "ll_wf q ps" "lq_tail q = (if ps = [] then None else Some (last ps))"
    using assms by (auto simp: lq_wf_def)
  obtain q' prev where u: "ll_unlink q (\<lambda>r _. r = p) (ll_brk q) None (ll_head q) =
      Ok (map_option (\<lambda>p. (p, prev)) (find (\<lambda>r. r = p) ps), q')" "same_nodes q q'"
      "ll_wf q' (?us @ tl (dropWhile (\<lambda>r. r \<noteq> p) ps))" "prev = (if ?us = [] then None else Some (last ?us))"
    using ll_unlink_wf [OF wf(1), of "\<lambda>r _. r = p"] by (auto simp: Let_def)
  have t: "lq_tail q' = lq_tail q" using ll_unlink_tail [OF u(1)] .
  show ?thesis
  proof (cases "p \<in> set ps")
    case False
    then have f: "find (\<lambda>r. r = p) ps = None" "?us = ps" "dropWhile (\<lambda>r. r \<noteq> p) ps = []"
      by (auto simp: find_None_iff takeWhile_eq_all_conv dropWhile_eq_Nil_conv)
    have "lq_remove q p = Ok q'" unfolding lq_remove_def u(1) f(1) by simp
    with u(2,3) f t wf(2) False show ?thesis by (auto simp: lq_wf_def remove1_idem)
  next
    case True
    then obtain as bs where ps: "ps = as @ p # bs" "p \<notin> set as" "p \<notin> set bs"
      using takeWhile_neq_split [of ps p] wf(1) by (auto simp: ll_wf_def)
    have "find (\<lambda>r. r = p) (as @ p # bs) = Some p" using ps(2) by (induction as) auto
    moreover have "takeWhile (\<lambda>r. r \<noteq> p) (as @ p # bs) = as" "dropWhile (\<lambda>r. r \<noteq> p) (as @ p # bs) = p # bs"
      using ps(2) by (induction as) auto
    ultimately have f: "find (\<lambda>r. r = p) ps = Some p" "?us = as" "dropWhile (\<lambda>r. r \<noteq> p) ps = p # bs"
      "remove1 p ps = as @ bs" using ps by (auto simp: remove1_append)
    let ?q2 = "if lq_tail q' = Some p then q'\<lparr>lq_tail := prev\<rparr> else q'"
    have "lq_remove q p = Ok ?q2" unfolding lq_remove_def u(1) f(1) by simp
    moreover have "lq_wf ?q2 (remove1 p ps)"
      using u(3,4) t wf(2) ps f by (auto simp: lq_wf_def ll_wf_def)
    moreover have "same_nodes q ?q2" using u(2) by simp
    ultimately show ?thesis by blast
  qed
qed


section \<open>The queue contract\<close>

text \<open>
  A client that allocates a node per element, appends it, and frees the node it takes sees a
  first-in first-out queue. \<open>items q xs\<close> relates a queue to its contents.
\<close>

datatype 'a qop = Put 'a | Get

fun q_run ::
    "('q \<Rightarrow> 'a \<Rightarrow> 'q outcome) \<Rightarrow> ('q \<Rightarrow> ('a option \<times> 'q) outcome) \<Rightarrow> 'q \<Rightarrow> 'a qop list \<Rightarrow> 'a list outcome" where
  "q_run put get q [] = Ok []"
| "q_run put get q (Put x # ops) = obind (put q x) (\<lambda>q. q_run put get q ops)"
| "q_run put get q (Get # ops) =
     obind (get q) (\<lambda>(r, q). obind (q_run put get q ops) (\<lambda>out.
       Ok (case r of None \<Rightarrow> out | Some x \<Rightarrow> x # out)))"

fun fifo_run :: "'a list \<Rightarrow> 'a qop list \<Rightarrow> 'a list" where
  "fifo_run xs [] = []"
| "fifo_run xs (Put x # ops) = fifo_run (xs @ [x]) ops"
| "fifo_run [] (Get # ops) = fifo_run [] ops"
| "fifo_run (x # xs) (Get # ops) = x # fifo_run xs ops"

locale fifo =
  fixes items :: "'q \<Rightarrow> 'a list \<Rightarrow> bool"
    and put :: "'q \<Rightarrow> 'a \<Rightarrow> 'q outcome"
    and get :: "'q \<Rightarrow> ('a option \<times> 'q) outcome"
  assumes put_items: "items q xs \<Longrightarrow> \<exists>q'. put q x = Ok q' \<and> items q' (xs @ [x])"
    and get_none: "items q [] \<Longrightarrow> \<exists>q'. get q = Ok (None, q') \<and> items q' []"
    and get_some: "items q (x # xs) \<Longrightarrow> \<exists>q'. get q = Ok (Some x, q') \<and> items q' xs"
begin

lemma run_refines: "items q xs \<Longrightarrow> q_run put get q ops = Ok (fifo_run xs ops)"
proof (induction xs ops arbitrary: q rule: fifo_run.induct)
  case (2 xs x ops)
  from put_items [OF 2(2), of x] obtain q' where "put q x = Ok q'" "items q' (xs @ [x])" by blast
  with 2(1) show ?case by simp
next
  case (3 ops)
  from get_none [OF 3(2)] obtain q' where "get q = Ok (None, q')" "items q' []" by blast
  with 3(1) show ?case by simp
next
  case (4 x xs ops)
  from get_some [OF 4(2)] obtain q' where "get q = Ok (Some x, q')" "items q' xs" by blast
  with 4(1) show ?case by simp
qed simp

end

definition lq_put :: "'a lq \<Rightarrow> 'a \<Rightarrow> 'a lq outcome" where
  "lq_put q x = (let (p, q) = ll_new q x in lq_append q p)"

definition lq_get :: "'a lq \<Rightarrow> ('a option \<times> 'a lq) outcome" where
  "lq_get q = obind (lq_pop q) (\<lambda>(r, q). case r of None \<Rightarrow> Ok (None, q)
     | Some p \<Rightarrow> obind (ll_free q p) (\<lambda>(x, q). Ok (Some x, q)))"

text \<open>A queue that holds exactly its linked nodes, so that nothing is leaked.\<close>

definition lq_items :: "'a lq \<Rightarrow> 'a list \<Rightarrow> bool" where
  "lq_items q xs \<longleftrightarrow> (\<exists>ps. lq_wf q ps \<and> dom (ll_cells q) = set ps \<and> xs = ll_vals q ps)"

lemma lq_new_wf:
  assumes "lq_wf q ps" and "ll_new q x = (p, q')"
  shows "lq_wf q' ps"
proof -
  have "lq_tail q' = lq_tail q" using assms(2) by (auto simp: ll_new_def)
  with assms ll_new_wf(1) [OF _ assms(2)] show ?thesis by (auto simp: lq_wf_def)
qed

lemma lq_put_items:
  assumes "lq_items q xs"
  shows "\<exists>q'. lq_put q x = Ok q' \<and> lq_items q' (xs @ [x])"
proof -
  obtain ps where ps: "lq_wf q ps" "dom (ll_cells q) = set ps" "xs = ll_vals q ps"
    using assms by (auto simp: lq_items_def)
  obtain p q1 where q1: "ll_new q x = (p, q1)" by (cases "ll_new q x")
  have wf: "ll_wf q ps" using ps by (simp add: lq_wf_def)
  note n = ll_new_wf [OF wf q1]
  obtain q2 where q2: "lq_append q1 p = Ok q2" "lq_wf q2 (ps @ [p])" "same_nodes q1 q2"
    using lq_append_wf [OF lq_new_wf [OF ps(1) q1], of p] n by auto
  have "ll_vals q2 (ps @ [p]) = xs @ [x]"
    using n(4-6) same_nodes_val [OF q2(3)] ps(3) by (auto intro!: n(5))
  with q2 n(3) same_nodes_dom [OF q2(3)] ps(2) show ?thesis
    unfolding lq_items_def lq_put_def q1 by (auto intro!: exI [of _ "ps @ [p]"])
qed

lemma lq_get_items:
  assumes "lq_items q (x # xs)"
  shows "\<exists>q'. lq_get q = Ok (Some x, q') \<and> lq_items q' xs"
proof -
  obtain p ps where ps: "lq_wf q (p # ps)" "dom (ll_cells q) = insert p (set ps)" "x = ll_val q p" "xs = ll_vals q ps"
    using assms by (auto simp: lq_items_def)
  obtain q1 where q1: "lq_pop q = Ok (Some p, q1)" "lq_wf q1 ps" "same_nodes q q1"
    using lq_pop_wf [OF ps(1)] by blast
  have p: "p \<in> dom (ll_cells q1)" "p \<notin> set ps" using ps same_nodes_dom [OF q1(3)]
    by (auto simp: lq_wf_def ll_wf_def)
  have wf: "ll_wf q1 ps" using q1 by (simp add: lq_wf_def)
  obtain q2 where q2: "ll_free q1 p = Ok (ll_val q1 p, q2)" "ll_wf q2 ps"
      "dom (ll_cells q2) = dom (ll_cells q1) - {p}" "\<forall>r. r \<noteq> p \<longrightarrow> ll_val q2 r = ll_val q1 r"
    using ll_free_wf [OF wf p] by blast
  have "lq_tail q2 = lq_tail q1" using q2(1) by (auto simp: ll_free_def)
  then have "lq_wf q2 ps" using q2(2) q1(2) by (simp add: lq_wf_def)
  moreover have "ll_vals q2 ps = xs" using q2(4) p(2) same_nodes_val [OF q1(3)] ps(4) by auto
  ultimately show ?thesis
    using q1 q2 ps p same_nodes_dom [OF q1(3)] same_nodes_val [OF q1(3)]
    by (auto simp: lq_get_def lq_items_def)
qed

interpretation route_fifo: fifo lq_items lq_put lq_get
proof
  fix q :: "'a lq" assume "lq_items q []"
  then show "\<exists>q'. lq_get q = Ok (None, q') \<and> lq_items q' []"
    by (auto simp: lq_items_def lq_get_def lq_pop_empty)
qed (auto intro: lq_put_items lq_get_items)

lemma lq_empty_items: "lq_items lq_empty []"
  by (auto simp: lq_items_def lq_wf_def ll_wf_def lq_empty_def)

section \<open>Properties\<close>

text \<open>
  C5: whatever enqueue and dequeue calls are made on the pointer queue of routes or jobs, no
  dangling node is touched and the payloads come out in the order in which they went in.
\<close>

theorem route_queue_fifo: "q_run lq_put lq_get lq_empty ops = Ok (fifo_run [] ops)"
  by (rule route_fifo.run_refines [OF lq_empty_items])

end
