(* ===== verification/Decode_State.thy ===== *)
theory Decode_State
  imports Linked_Queue Object_Ref
begin

text \<open>
  The state that a decode context shares between the application's thread and its worker:
  surfaces with their fences, the job queue, the route lists, and the picture being assembled.
  The operations are the ones of \<open>src/context.c\<close> (the decode halves of \<open>rk_BeginPicture\<close> and
  \<open>rk_EndPicture\<close>) and the small helpers of \<open>src/mpp_dec.c\<close> that complete or fail a surface and
  create or destroy jobs and routes.

  Pointers are addresses. A surface handle resolves to the address \<open>w_ptr\<close> while it is \<open>w_live\<close>;
  a handle never names two objects, which is the uniqueness property of the object heap. The
  counters of all reference-counted objects are one \<open>obj_store\<close>. Calls into MPP that obtain or
  release a frame or a buffer are recorded in \<open>w_log\<close>. The code has no counterpart of that trace
  and of \<open>w_accepted\<close>, the number of jobs accepted so far; no operation reads them.
\<close>

datatype MppCodingType = CodingAVC | CodingHEVC | CodingVP8 | CodingVP9 | CodingAV1

record RKSurface =
  s_width :: int
  s_height :: int
  s_frame :: "nat option"
  s_backing_buf :: "nat option"
  s_decode_pool :: "addr option"
  s_hstride :: int
  s_vstride :: int
  s_fmt :: nat
  s_imported :: bool
  s_decoded :: bool
  s_decode_failed :: bool
  s_h264_field_pending :: bool
  s_ctx_id :: "u32 option"
  s_fence :: u64

record RKDecodeJob =
  j_data :: "u8 list"
  j_target :: u32
  j_surface :: addr
  j_fence :: u64
  j_token :: u64
  j_h264_field :: bool
  j_is_hidden :: bool
  j_repeat_slot :: u8
  j_sequence_headers :: "u8 list option"

record RKFrameRoute =
  r_target :: u32
  r_surface :: addr
  r_fence :: u64
  r_token :: u64

datatype mpp_event = Frame_Get nat | Frame_Deinit nat | Buffer_Get nat | Buffer_Inc nat | Buffer_Put nat

record mpp_buf =
  b_id :: nat
  b_size :: u64
  b_index :: int
  b_fd :: int

record RKDecodePool =
  p_object :: addr
  p_buffers :: "mpp_buf option list"
  p_count :: nat
  p_capacity :: nat
  p_buffer_size :: u64

record RKContext =
  w_id :: u32
  w_coding :: MppCodingType
  w_profile2 :: bool
  w_width :: int
  w_height :: int
  w_surf :: "addr \<Rightarrow> RKSurface"
  w_ptr :: "u32 \<Rightarrow> addr"
  w_live :: "u32 \<Rightarrow> bool"
  w_objs :: obj_store
  w_jobs :: "RKDecodeJob lq"
  w_h264_routes :: "RKFrameRoute ll"
  w_generic :: "RKFrameRoute lq"
  w_next_token :: u64
  w_accepted :: nat
  w_outstanding :: u32
  w_pool :: "RKDecodePool option"
  w_stop :: bool
  w_drain :: bool
  w_deadline :: int
  w_saw_eos :: bool
  w_render :: "(u32 \<times> addr) option"
  w_render_fence :: u64
  w_sequence_headers :: "u8 list option"
  w_log :: "mpp_event list"

definition codec_uses_token_routes :: "RKContext \<Rightarrow> bool" where
  "codec_uses_token_routes c \<longleftrightarrow> w_coding c = CodingAVC \<or> w_coding c = CodingHEVC"

definition upd_surf :: "addr \<Rightarrow> (RKSurface \<Rightarrow> RKSurface) \<Rightarrow> RKContext \<Rightarrow> RKContext" where
  "upd_surf p f c = c\<lparr>w_surf := (w_surf c)(p := f (w_surf c p))\<rparr>"

definition unref :: "addr \<Rightarrow> RKContext \<Rightarrow> RKContext" where
  "unref p c = c\<lparr>w_objs := rk_object_unref p (w_objs c)\<rparr>"

definition release :: "mpp_event list \<Rightarrow> RKContext \<Rightarrow> RKContext" where
  "release es c = c\<lparr>w_log := w_log c @ es\<rparr>"

section \<open>Completing a surface\<close>

definition complete_surface_ref :: "addr \<Rightarrow> u64 \<Rightarrow> bool \<Rightarrow> RKContext \<Rightarrow> RKContext" where
  "complete_surface_ref p fence success c =
     (if s_fence (w_surf c p) = fence
      then upd_surf p (\<lambda>s. s\<lparr>s_decoded := success, s_decode_failed := \<not> success,
             s_h264_field_pending := False\<rparr>) c
      else c)"

definition rk_mpp_dec_fail_surface :: "addr \<Rightarrow> u64 \<Rightarrow> RKContext \<Rightarrow> RKContext" where
  "rk_mpp_dec_fail_surface p fence c =
     (if s_fence (w_surf c p) = fence \<and> \<not> s_decoded (w_surf c p)
      then upd_surf p (\<lambda>s. s\<lparr>s_decode_failed := True\<rparr>) c else c)"

section \<open>Jobs\<close>

text \<open>What \<open>rk_mpp_dec_build_job\<close> adds to the target of a job.\<close>

record job_content =
  jc_data :: "u8 list"
  jc_h264_field :: bool
  jc_is_hidden :: bool
  jc_repeat_slot :: u8
  jc_sequence_headers :: "u8 list option"

definition decode_job_create :: "bool \<Rightarrow> RKContext \<Rightarrow> job_content \<Rightarrow> (RKDecodeJob \<times> RKContext) option" where
  "decode_job_create alloc_ok c j =
     (if \<not> alloc_ok then None
      else case w_render c of
        None \<Rightarrow> None
      | Some (target, p) \<Rightarrow>
          let (ok, objs) = rk_object_ref p (w_objs c)
          in if \<not> ok then None
             else Some (\<lparr>j_data = jc_data j, j_target = target, j_surface = p, j_fence = w_render_fence c,
                    j_token = 0, j_h264_field = jc_h264_field j, j_is_hidden = jc_is_hidden j,
                    j_repeat_slot = jc_repeat_slot j, j_sequence_headers = jc_sequence_headers j\<rparr>,
                  c\<lparr>w_objs := objs\<rparr>))"

definition rk_mpp_dec_job_destroy :: "RKDecodeJob \<Rightarrow> RKContext \<Rightarrow> RKContext" where
  "rk_mpp_dec_job_destroy job c = unref (j_surface job) c"

definition rk_mpp_dec_reject_job :: "RKDecodeJob \<Rightarrow> RKContext \<Rightarrow> RKContext" where
  "rk_mpp_dec_reject_job job c =
     rk_mpp_dec_job_destroy job (complete_surface_ref (j_surface job) (j_fence job) False c)"

definition bump_token :: "u64 \<Rightarrow> u64" where
  "bump_token t = (let t = t + 1 in if t = 0 \<or> t > 9223372036854775807 then 1 else t)"

definition rk_mpp_dec_enqueue_job :: "RKContext \<Rightarrow> RKDecodeJob \<Rightarrow> (bool \<times> RKContext) outcome" where
  "rk_mpp_dec_enqueue_job c job =
     (if w_stop c then Ok (False, c)
      else let c = (case j_sequence_headers job of None \<Rightarrow> c | Some h \<Rightarrow> c\<lparr>w_sequence_headers := Some h\<rparr>);
               token = bump_token (w_next_token c);
               c = c\<lparr>w_next_token := token, w_accepted := w_accepted c + 1\<rparr>
           in obind (lq_put (w_jobs c) (job\<lparr>j_sequence_headers := None, j_token := token\<rparr>)) (\<lambda>q.
                Ok (True, c\<lparr>w_jobs := q\<rparr>)))"

section \<open>Routes\<close>

definition frame_route_create ::
    "bool \<Rightarrow> RKDecodeJob \<Rightarrow> (RKFrameRoute, 'z) ll_scheme \<Rightarrow> obj_store \<Rightarrow>
     (addr \<times> (RKFrameRoute, 'z) ll_scheme \<times> obj_store) option" where
  "frame_route_create alloc_ok job l objs =
     (if \<not> alloc_ok then None
      else let (ok, objs) = rk_object_ref (j_surface job) objs
           in if \<not> ok then None
              else let (p, l) = ll_new l \<lparr>r_target = j_target job, r_surface = j_surface job,
                                  r_fence = j_fence job, r_token = j_token job\<rparr>
                   in Some (p, l, objs))"

definition h264_route_add :: "RKContext \<Rightarrow> addr \<Rightarrow> RKContext outcome" where
  "h264_route_add c p = obind (ll_push (w_h264_routes c) p) (\<lambda>l. Ok (c\<lparr>w_h264_routes := l\<rparr>))"

definition h264_route_find_surface :: "RKContext \<Rightarrow> u32 \<Rightarrow> u64 \<Rightarrow> addr option outcome" where
  "h264_route_find_surface c target fence =
     ll_find (w_h264_routes c) (\<lambda>r. r_target r = target \<and> r_fence r = fence)
       (ll_brk (w_h264_routes c)) (ll_head (w_h264_routes c))"

definition h264_route_take :: "RKContext \<Rightarrow> u64 \<Rightarrow> (addr option \<times> RKContext) outcome" where
  "h264_route_take c token =
     obind (ll_unlink (w_h264_routes c) (\<lambda>_ r. r_token r = token)
              (ll_brk (w_h264_routes c)) None (ll_head (w_h264_routes c))) (\<lambda>(found, l).
       Ok (map_option fst found, c\<lparr>w_h264_routes := l\<rparr>))"

definition generic_route_add :: "RKContext \<Rightarrow> addr \<Rightarrow> RKContext outcome" where
  "generic_route_add c p = obind (lq_append (w_generic c) p) (\<lambda>q. Ok (c\<lparr>w_generic := q\<rparr>))"

definition generic_route_take :: "RKContext \<Rightarrow> (addr option \<times> RKContext) outcome" where
  "generic_route_take c = obind (lq_pop (w_generic c)) (\<lambda>(r, q). Ok (r, c\<lparr>w_generic := q\<rparr>))"

definition generic_route_remove :: "RKContext \<Rightarrow> addr \<Rightarrow> RKContext outcome" where
  "generic_route_remove c p = obind (lq_remove (w_generic c) p) (\<lambda>q. Ok (c\<lparr>w_generic := q\<rparr>))"

text \<open>\<open>frame_route_destroy\<close> for a node of either store: drop the surface reference, free the node.\<close>

definition h264_route_destroy :: "addr \<Rightarrow> RKContext \<Rightarrow> RKContext outcome" where
  "h264_route_destroy p c =
     obind (ll_free (w_h264_routes c) p) (\<lambda>(r, l). Ok (unref (r_surface r) (c\<lparr>w_h264_routes := l\<rparr>)))"

definition generic_route_destroy :: "addr \<Rightarrow> RKContext \<Rightarrow> RKContext outcome" where
  "generic_route_destroy p c =
     obind (ll_free (w_generic c) p) (\<lambda>(r, q). Ok (unref (r_surface r) (c\<lparr>w_generic := q\<rparr>)))"

section \<open>The application's side\<close>

text \<open>
  The decode half of \<open>rk_BeginPicture\<close>: acquire the surface, start a new fence unless a second
  H.264 field continues the pending picture, release what the surface held, and fail a picture
  that was begun before and never ended.
\<close>

definition next_fence :: "u64 \<Rightarrow> u64" where
  "next_fence f = (let f = f + 1 in if f = 0 then f + 1 else f)"

definition begin_continues :: "RKContext \<Rightarrow> RKSurface \<Rightarrow> bool" where
  "begin_continues c s \<longleftrightarrow> w_coding c = CodingAVC \<and> s_h264_field_pending s \<and> s_ctx_id s = Some (w_id c) \<and>
     \<not> s_decoded s \<and> \<not> s_decode_failed s \<and> s_fence s \<noteq> 0"

definition begin_surface :: "RKContext \<Rightarrow> RKSurface \<Rightarrow> RKSurface" where
  "begin_surface c s =
     (let s' = (if begin_continues c s then s
                else s\<lparr>s_frame := None, s_backing_buf := None, s_decode_pool := None,
                       s_h264_field_pending := False, s_fence := next_fence (s_fence s)\<rparr>)
      in s'\<lparr>s_decoded := False, s_decode_failed := False, s_ctx_id := Some (w_id c)\<rparr>)"

definition begin_release :: "RKContext \<Rightarrow> RKSurface \<Rightarrow> RKContext \<Rightarrow> RKContext" where
  "begin_release c0 s c =
     (if begin_continues c0 s then c
      else let c = release ((case s_frame s of None \<Rightarrow> [] | Some f \<Rightarrow> [Frame_Deinit f]) @
                    (case s_backing_buf s of None \<Rightarrow> [] | Some b \<Rightarrow> [Buffer_Put b])) c
           in case s_decode_pool s of None \<Rightarrow> c | Some pool \<Rightarrow> unref pool c)"

definition rk_BeginPicture :: "RKContext \<Rightarrow> u32 \<Rightarrow> bool \<times> RKContext" where
  "rk_BeginPicture c render_target =
     (if \<not> w_live c render_target then (False, c)
      else let p = w_ptr c render_target; (ok, objs) = rk_object_ref p (w_objs c)
      in if \<not> ok then (False, c)
      else let c = c\<lparr>w_objs := objs\<rparr>; s = w_surf c p
      in if s_imported s then (False, unref p c)
      else let previous = w_render c; previous_fence = w_render_fence c;
               c1 = upd_surf p (begin_surface c) c;
               c1 = c1\<lparr>w_render := Some (render_target, p), w_render_fence := s_fence (w_surf c1 p)\<rparr>;
               c1 = begin_release c s c1
      in (True, case previous of None \<Rightarrow> c1
                | Some (_, p0) \<Rightarrow> unref p0 (rk_mpp_dec_fail_surface p0 previous_fence c1)))"

text \<open>
  The decode half of \<open>rk_EndPicture\<close>. The argument is the outcome of \<open>rk_mpp_dec_build_job\<close>: the
  content of the job or \<open>None\<close> for an error status.
\<close>

definition mark_field :: "addr \<Rightarrow> u64 \<Rightarrow> bool \<Rightarrow> RKContext \<Rightarrow> RKContext" where
  "mark_field p fence field c =
     (if s_fence (w_surf c p) = fence then upd_surf p (\<lambda>s. s\<lparr>s_h264_field_pending := field\<rparr>) c else c)"

definition rk_EndPicture :: "bool \<Rightarrow> RKContext \<Rightarrow> job_content option \<Rightarrow> (bool \<times> RKContext) outcome" where
  "rk_EndPicture alloc_ok c content =
     (case w_render c of
        None \<Rightarrow> Ok (False, c)
      | Some (target, p) \<Rightarrow>
          if w_render_fence c = 0 then Ok (False, c)
          else let fence = w_render_fence c;
                   built = (case content of None \<Rightarrow> None | Some j \<Rightarrow> decode_job_create alloc_ok c j)
               in case built of
                    None \<Rightarrow> Ok (False, unref p (rk_mpp_dec_fail_surface p fence
                              (c\<lparr>w_render := None, w_render_fence := 0\<rparr>)))
                  | Some (job, c) \<Rightarrow>
                      let c = unref p ((mark_field p fence (j_h264_field job) c)\<lparr>w_render := None, w_render_fence := 0\<rparr>)
                      in obind (rk_mpp_dec_enqueue_job c job) (\<lambda>(queued, c).
                           Ok (if queued then (True, c) else (False, rk_mpp_dec_reject_job job c))))"

text \<open>
  What another thread may do to the context while the worker runs: begin a picture, end it,
  destroy a surface handle, or ask for the teardown drain.
\<close>

datatype app_act =
    App_Begin u32
  | App_End bool "job_content option"
  | App_Forget u32
  | App_Drain int

fun app_step :: "app_act \<Rightarrow> RKContext \<Rightarrow> RKContext outcome" where
  "app_step (App_Begin t) c = Ok (snd (rk_BeginPicture c t))"
| "app_step (App_End a j) c = obind (rk_EndPicture a c j) (\<lambda>(ok, c). Ok c)"
| "app_step (App_Forget t) c = Ok (c\<lparr>w_live := (w_live c)(t := False)\<rparr>)"
| "app_step (App_Drain deadline) c = Ok (c\<lparr>w_deadline := deadline, w_drain := True\<rparr>)"

fun app_run :: "app_act list \<Rightarrow> RKContext \<Rightarrow> RKContext outcome" where
  "app_run [] c = Ok c"
| "app_run (a # as) c = obind (app_step a c) (app_run as)"


section \<open>The invariant\<close>

text \<open>
  A surface of the context is waiting when its picture is neither decoded nor failed; a call of
  \<open>vaSyncSurface\<close> blocks on it. The invariant is that somebody is responsible for every waiting
  surface: the picture being assembled, a queued job, a route, or the code that is running (the
  pairs \<open>H\<close>).
\<close>

definition waiting :: "RKContext \<Rightarrow> addr \<Rightarrow> bool" where
  "waiting c p \<longleftrightarrow> s_ctx_id (w_surf c p) = Some (w_id c) \<and> \<not> s_decoded (w_surf c p) \<and>
     \<not> s_decode_failed (w_surf c p)"

definition job_pair :: "RKDecodeJob \<Rightarrow> addr \<times> u64" where
  "job_pair j = (j_surface j, j_fence j)"

definition route_pair :: "RKFrameRoute \<Rightarrow> addr \<times> u64" where
  "route_pair r = (r_surface r, r_fence r)"

definition render_pairs :: "RKContext \<Rightarrow> (addr \<times> u64) set" where
  "render_pairs c = (case w_render c of None \<Rightarrow> {} | Some (t, p) \<Rightarrow> {(p, w_render_fence c)})"

text \<open>The lists of the context, as sequences of payloads.\<close>

record queues =
  q_jobs :: "RKDecodeJob list"
  q_h264 :: "RKFrameRoute list"
  q_generic :: "RKFrameRoute list"

definition token_routes :: "RKContext \<Rightarrow> RKFrameRoute list \<Rightarrow> bool" where
  "token_routes c rs \<longleftrightarrow> (\<exists>ps. ll_wf (w_h264_routes c) ps \<and> rs = ll_vals (w_h264_routes c) ps)"

definition generic_routes :: "RKContext \<Rightarrow> RKFrameRoute list \<Rightarrow> bool" where
  "generic_routes c rs \<longleftrightarrow> (\<exists>ps. lq_wf (w_generic c) ps \<and> rs = ll_vals (w_generic c) ps)"

definition holds :: "RKContext \<Rightarrow> queues \<Rightarrow> bool" where
  "holds c q \<longleftrightarrow> lq_items (w_jobs c) (q_jobs q) \<and> token_routes c (q_h264 q) \<and> generic_routes c (q_generic q)"

definition holders :: "RKContext \<Rightarrow> queues \<Rightarrow> (addr \<times> u64) set" where
  "holders c q = job_pair ` set (q_jobs q) \<union> route_pair ` set (q_h264 q) \<union> route_pair ` set (q_generic q) \<union>
     render_pairs c"

definition targets_ok :: "RKContext \<Rightarrow> queues \<Rightarrow> bool" where
  "targets_ok c q \<longleftrightarrow> list_all (\<lambda>j. j_surface j = w_ptr c (j_target j)) (q_jobs q) \<and>
     list_all (\<lambda>r. r_surface r = w_ptr c (r_target r)) (q_h264 q @ q_generic q) \<and>
     (case w_render c of None \<Rightarrow> True | Some (t, p) \<Rightarrow> p = w_ptr c t)"

definition accounted :: "RKContext \<Rightarrow> queues \<Rightarrow> (addr \<times> u64) set \<Rightarrow> bool" where
  "accounted c q H \<longleftrightarrow> (\<forall>p. waiting c p \<longrightarrow> (p, s_fence (w_surf c p)) \<in> holders c q \<union> H)"

text \<open>
  Tokens identify a route as long as the 63-bit counter has not wrapped around. The token \<open>hi\<close> is
  the last one the worker took from the queue, and \<open>R\<close> is what is known about the routes of the
  token-routed codecs.
\<close>

definition few :: "RKContext \<Rightarrow> bool" where
  "few c \<longleftrightarrow> w_accepted c < 2 ^ 63"

definition uniform :: "RKFrameRoute list \<Rightarrow> bool" where
  "uniform rs \<longleftrightarrow> (\<forall>r \<in> set rs. \<forall>r' \<in> set rs. r_token r = r_token r' \<longrightarrow> route_pair r = route_pair r')"

definition tokens_ok :: "RKContext \<Rightarrow> queues \<Rightarrow> (RKFrameRoute \<Rightarrow> bool) \<Rightarrow> u64 \<Rightarrow> bool" where
  "tokens_ok c q R hi \<longleftrightarrow> unat (w_next_token c) = w_accepted c \<and> hi \<le> w_next_token c \<and>
     sorted_wrt (<) (hi # map j_token (q_jobs q)) \<and> list_all (\<lambda>j. j_token j \<le> w_next_token c) (q_jobs q) \<and>
     list_all R (q_h264 q) \<and> uniform (q_h264 q)"

definition ctx_inv :: "RKContext \<Rightarrow> (addr \<times> u64) set \<Rightarrow> (RKFrameRoute \<Rightarrow> bool) \<Rightarrow> u64 \<Rightarrow> bool" where
  "ctx_inv c H R hi \<longleftrightarrow> (\<exists>q. holds c q \<and> targets_ok c q \<and> (few c \<longrightarrow> accounted c q H \<and> tokens_ok c q R hi))"

lemma accounted_mono: "accounted c q H \<Longrightarrow> H \<subseteq> H' \<Longrightarrow> accounted c q H'"
  by (auto simp: accounted_def)

lemma ctx_invI [intro?]:
  "holds c q \<Longrightarrow> targets_ok c q \<Longrightarrow> (few c \<Longrightarrow> accounted c q H) \<Longrightarrow> (few c \<Longrightarrow> tokens_ok c q R hi) \<Longrightarrow>
   ctx_inv c H R hi"
  by (auto simp: ctx_inv_def)

lemma ctx_invE [elim?]:
  assumes "ctx_inv c H R hi"
  obtains q where "holds c q" "targets_ok c q" "few c \<Longrightarrow> accounted c q H" "few c \<Longrightarrow> tokens_ok c q R hi"
  using assms by (auto simp: ctx_inv_def)

lemma tokens_cong:
  assumes "w_next_token c' = w_next_token c" and "w_accepted c' = w_accepted c"
  shows "tokens_ok c' q R hi = tokens_ok c q R hi" and "few c' = few c"
  using assms by (simp_all add: tokens_ok_def few_def)

lemma ctx_inv_mono: "ctx_inv c H R hi \<Longrightarrow> H \<subseteq> H' \<Longrightarrow> ctx_inv c H' R hi"
  by (auto simp: ctx_inv_def intro: accounted_mono)

text \<open>Fields that completing, failing and reference counting leave alone.\<close>

lemma unref_simps [simp]:
  "w_surf (unref p c) = w_surf c" "w_id (unref p c) = w_id c" "w_ptr (unref p c) = w_ptr c"
  "w_jobs (unref p c) = w_jobs c" "w_h264_routes (unref p c) = w_h264_routes c" "w_generic (unref p c) = w_generic c"
  "w_render (unref p c) = w_render c" "w_render_fence (unref p c) = w_render_fence c" "w_coding (unref p c) = w_coding c"
  "w_stop (unref p c) = w_stop c" "w_drain (unref p c) = w_drain c" "w_outstanding (unref p c) = w_outstanding c"
  "w_pool (unref p c) = w_pool c" "w_saw_eos (unref p c) = w_saw_eos c"
  "w_next_token (unref p c) = w_next_token c" "w_accepted (unref p c) = w_accepted c"
  by (simp_all add: unref_def)

lemma release_simps [simp]:
  "w_surf (release es c) = w_surf c" "w_id (release es c) = w_id c" "w_ptr (release es c) = w_ptr c"
  "w_jobs (release es c) = w_jobs c" "w_h264_routes (release es c) = w_h264_routes c" "w_generic (release es c) = w_generic c"
  "w_render (release es c) = w_render c" "w_render_fence (release es c) = w_render_fence c" "w_coding (release es c) = w_coding c"
  "w_stop (release es c) = w_stop c" "w_drain (release es c) = w_drain c" "w_outstanding (release es c) = w_outstanding c"
  "w_pool (release es c) = w_pool c" "w_saw_eos (release es c) = w_saw_eos c"
  "w_next_token (release es c) = w_next_token c" "w_accepted (release es c) = w_accepted c"
  by (simp_all add: release_def)

lemma upd_surf_simps [simp]:
  "w_id (upd_surf p f c) = w_id c" "w_ptr (upd_surf p f c) = w_ptr c" "w_jobs (upd_surf p f c) = w_jobs c"
  "w_h264_routes (upd_surf p f c) = w_h264_routes c" "w_generic (upd_surf p f c) = w_generic c"
  "w_render (upd_surf p f c) = w_render c" "w_render_fence (upd_surf p f c) = w_render_fence c"
  "w_coding (upd_surf p f c) = w_coding c" "w_stop (upd_surf p f c) = w_stop c" "w_drain (upd_surf p f c) = w_drain c"
  "w_outstanding (upd_surf p f c) = w_outstanding c" "w_surf (upd_surf p f c) = (w_surf c)(p := f (w_surf c p))"
  "w_pool (upd_surf p f c) = w_pool c" "w_saw_eos (upd_surf p f c) = w_saw_eos c"
  "w_next_token (upd_surf p f c) = w_next_token c" "w_accepted (upd_surf p f c) = w_accepted c"
  by (simp_all add: upd_surf_def)

text \<open>Two contexts that differ in nothing the invariant reads.\<close>

definition same_view :: "RKContext \<Rightarrow> RKContext \<Rightarrow> bool" where
  "same_view c c' \<longleftrightarrow> w_jobs c' = w_jobs c \<and> w_h264_routes c' = w_h264_routes c \<and> w_generic c' = w_generic c \<and>
     w_ptr c' = w_ptr c \<and> w_id c' = w_id c \<and> w_render c' = w_render c \<and> w_render_fence c' = w_render_fence c \<and>
     w_next_token c' = w_next_token c \<and> w_accepted c' = w_accepted c"

lemma same_view_refl [simp]: "same_view c c"
  by (simp add: same_view_def)

lemma same_view_trans: "same_view a b \<Longrightarrow> same_view b c \<Longrightarrow> same_view a c"
  by (simp add: same_view_def)

lemma same_view_queues:
  "same_view c c' \<Longrightarrow> holds c' q = holds c q \<and> targets_ok c' q = targets_ok c q \<and> holders c' q = holders c q \<and>
    tokens_ok c' q R hi = tokens_ok c q R hi \<and> few c' = few c"
  by (auto simp: same_view_def holds_def token_routes_def generic_routes_def targets_ok_def holders_def render_pairs_def tokens_ok_def few_def
    split: option.splits)

lemma ctx_inv_cong: "same_view c c' \<Longrightarrow> w_surf c' = w_surf c \<Longrightarrow> ctx_inv c' H R hi \<longleftrightarrow> ctx_inv c H R hi"
  using same_view_queues [of c c']
  by (simp add: ctx_inv_def accounted_def waiting_def) (simp add: same_view_def)

lemma ctx_inv_view:
  assumes "ctx_inv c H R hi" and "same_view c c'"
    and "\<And>p. waiting c' p \<Longrightarrow> s_fence (w_surf c' p) = s_fence (w_surf c p) \<and> waiting c p \<or> (p, s_fence (w_surf c' p)) \<in> H'"
    and "\<And>p. waiting c' p \<Longrightarrow> (p, s_fence (w_surf c' p)) \<in> H \<Longrightarrow> (p, s_fence (w_surf c' p)) \<in> H'"
  shows "ctx_inv c' H' R hi"
proof -
  from assms(1) obtain q where q: "holds c q" "targets_ok c q" "few c \<Longrightarrow> accounted c q H" "few c \<Longrightarrow> tokens_ok c q R hi"
    by (rule ctx_invE) blast
  note v = same_view_queues [OF assms(2), of q R hi]
  have "accounted c' q H'" if "few c'"
    unfolding accounted_def
  proof (intro allI impI)
    fix p assume w: "waiting c' p"
    from assms(3) [OF w] show "(p, s_fence (w_surf c' p)) \<in> holders c' q \<union> H'"
    proof
      assume "s_fence (w_surf c' p) = s_fence (w_surf c p) \<and> waiting c p"
      then have "(p, s_fence (w_surf c' p)) \<in> holders c q \<union> H" using q(3) v that by (simp add: accounted_def)
      with assms(4) [OF w] v show ?thesis by blast
    qed blast
  qed
  with q v show ?thesis by (intro ctx_invI [of _ q]) auto
qed

lemma same_view_unref [simp]: "same_view c (unref p c')  \<longleftrightarrow> same_view c c'"
  by (simp add: same_view_def)

lemma same_view_release [simp]: "same_view c (release es c') \<longleftrightarrow> same_view c c'"
  by (simp add: same_view_def)

lemma same_view_upd [simp]: "same_view c (upd_surf p f c') \<longleftrightarrow> same_view c c'"
  by (simp add: same_view_def)

lemma ctx_inv_unref [simp]: "ctx_inv (unref p c) H R hi \<longleftrightarrow> ctx_inv c H R hi"
  by (rule ctx_inv_cong) simp_all

lemma ctx_inv_release [simp]: "ctx_inv (release es c) H R hi \<longleftrightarrow> ctx_inv c H R hi"
  by (rule ctx_inv_cong) simp_all

lemma complete_view [simp]: "same_view c (complete_surface_ref p f b c') \<longleftrightarrow> same_view c c'"
  by (simp add: complete_surface_ref_def)

lemma fail_view [simp]: "same_view c (rk_mpp_dec_fail_surface p f c') \<longleftrightarrow> same_view c c'"
  by (simp add: rk_mpp_dec_fail_surface_def)

lemma complete_inv:
  assumes "ctx_inv c (insert (p, f) H) R hi"
  shows "ctx_inv (complete_surface_ref p f b c) H R hi"
  by (rule ctx_inv_view [OF assms]) (auto simp: complete_surface_ref_def waiting_def split: if_splits)

lemma fail_inv:
  assumes "ctx_inv c (insert (p, f) H) R hi"
  shows "ctx_inv (rk_mpp_dec_fail_surface p f c) H R hi"
  by (rule ctx_inv_view [OF assms]) (auto simp: rk_mpp_dec_fail_surface_def waiting_def split: if_splits)

section \<open>The application preserves the invariant\<close>

lemma ctx_inv_drop_render:
  assumes "ctx_inv c H R hi"
  shows "ctx_inv (c\<lparr>w_render := None, w_render_fence := 0\<rparr>) (H \<union> render_pairs c) R hi"
proof -
  from assms obtain q where q: "holds c q" "targets_ok c q" "few c \<Longrightarrow> accounted c q H" "few c \<Longrightarrow> tokens_ok c q R hi"
    by (rule ctx_invE) blast
  let ?c = "c\<lparr>w_render := None, w_render_fence := 0\<rparr>"
  have "holds ?c q" "targets_ok ?c q" using q by (simp_all add: holds_def token_routes_def generic_routes_def targets_ok_def)
  moreover have "accounted ?c q (H \<union> render_pairs c)" if "few c"
    using q(3) [OF that] by (fastforce simp: accounted_def waiting_def holders_def render_pairs_def)
  moreover have "tokens_ok ?c q R hi = tokens_ok c q R hi" "few ?c = few c" by (rule tokens_cong; simp)+
  ultimately show ?thesis using q(4) by (intro ctx_invI [of _ q]) auto
qed

lemma render_target_ok: "ctx_inv c H R hi \<Longrightarrow> w_render c = Some (t, p) \<Longrightarrow> p = w_ptr c t"
  by (auto simp: ctx_inv_def targets_ok_def)

lemma bump_token_fresh:
  assumes "few (c\<lparr>w_accepted := w_accepted c + 1\<rparr>)" and "unat (w_next_token c) = w_accepted c"
  shows "w_next_token c < bump_token (w_next_token c)" "unat (bump_token (w_next_token c)) = w_accepted c + 1"
proof -
  have lt: "unat (w_next_token c) + 1 < 2 ^ 63" using assms by (simp add: few_def)
  then have u: "unat (w_next_token c + 1) = unat (w_next_token c) + 1"
    by (subst unat_word_ariths) simp
  then have "w_next_token c + 1 \<noteq> 0" "\<not> w_next_token c + 1 > 9223372036854775807"
    using lt by (auto simp: word_less_nat_alt)
  then have b: "bump_token (w_next_token c) = w_next_token c + 1" by (simp add: bump_token_def Let_def)
  show "w_next_token c < bump_token (w_next_token c)" "unat (bump_token (w_next_token c)) = w_accepted c + 1"
    using u b assms(2) by (simp_all add: word_less_nat_alt)
qed

lemma enqueue_tokens:
  assumes "few c \<Longrightarrow> tokens_ok c q R hi" and "few (c\<lparr>w_next_token := t, w_accepted := w_accepted c + 1\<rparr>)"
    and "t = bump_token (w_next_token c)" and "j_token job = t"
  shows "tokens_ok (c\<lparr>w_sequence_headers := h, w_next_token := t, w_accepted := w_accepted c + 1, w_jobs := jq\<rparr>)
    (q\<lparr>q_jobs := q_jobs q @ [job]\<rparr>) R hi"
proof -
  have t: "tokens_ok c q R hi" using assms(1,2) by (simp add: few_def)
  then have b: "w_next_token c < t" "unat t = w_accepted c + 1"
    using bump_token_fresh [of c] assms(2,3) by (simp_all add: tokens_ok_def few_def)
  have le: "j_token j < t" if "j \<in> set (q_jobs q)" for j
    using t b(1) that by (fastforce simp: tokens_ok_def list_all_iff)
  have hi: "hi < t" using t b(1) le_less_trans by (auto simp: tokens_ok_def)
  show ?thesis
    unfolding tokens_ok_def
    using t b assms(4) le hi by (simp add: tokens_ok_def sorted_wrt_append list_all_iff less_imp_le)
qed

lemma enqueue_inv:
  assumes "ctx_inv c (insert (job_pair job) H) R hi" and "j_surface job = w_ptr c (j_target job)"
  shows "\<exists>b c'. rk_mpp_dec_enqueue_job c job = Ok (b, c') \<and> (if b then ctx_inv c' H R hi else c' = c)"
proof (cases "w_stop c")
  case True
  then show ?thesis by (intro exI [of _ False] exI [of _ c]) (simp add: rk_mpp_dec_enqueue_job_def)
next
  case False
  from assms(1) obtain q where q: "holds c q" "targets_ok c q" "few c \<Longrightarrow> accounted c q (insert (job_pair job) H)" "few c \<Longrightarrow> tokens_ok c q R hi"
    by (rule ctx_invE) blast
  let ?tok = "bump_token (w_next_token c)"
  let ?job = "job\<lparr>j_sequence_headers := None, j_token := ?tok\<rparr>"
  obtain jq where jq: "lq_put (w_jobs c) ?job = Ok jq" "lq_items jq (q_jobs q @ [?job])"
    using lq_put_items [of "w_jobs c" "q_jobs q" ?job] q(1) by (auto simp: holds_def)
  let ?h = "case j_sequence_headers job of None \<Rightarrow> w_sequence_headers c | Some h \<Rightarrow> Some h"
  let ?c = "c\<lparr>w_sequence_headers := ?h, w_next_token := ?tok, w_accepted := w_accepted c + 1, w_jobs := jq\<rparr>"
  let ?q = "q\<lparr>q_jobs := q_jobs q @ [?job]\<rparr>"
  have run: "rk_mpp_dec_enqueue_job c job = Ok (True, ?c)"
    using False jq(1) by (simp add: rk_mpp_dec_enqueue_job_def Let_def split: option.splits)
  have "holds ?c ?q" using q(1) jq(2) by (simp add: holds_def token_routes_def generic_routes_def)
  moreover have "targets_ok ?c ?q" using q(2) assms(2) by (auto simp: targets_ok_def split: option.splits)
  moreover have "holders ?c ?q = insert (job_pair job) (holders c q)"
    by (auto simp: holders_def render_pairs_def job_pair_def split: option.splits)
  moreover have "few c" if "few ?c" using that by (simp add: few_def)
  moreover have "tokens_ok ?c ?q R hi" if "few ?c"
    by (rule enqueue_tokens [OF q(4)]) (use that in \<open>simp_all add: few_def\<close>)
  moreover have "accounted ?c ?q H" if "few c" "holders ?c ?q = insert (job_pair job) (holders c q)"
    using q(3) that by (simp add: accounted_def waiting_def)
  ultimately have "ctx_inv ?c H R hi" by (intro ctx_invI [of _ ?q]) auto
  with run show ?thesis by auto
qed

lemma reject_inv: "ctx_inv c (insert (job_pair job) H) R hi \<Longrightarrow> ctx_inv (rk_mpp_dec_reject_job job c) H R hi"
  by (simp add: rk_mpp_dec_reject_job_def rk_mpp_dec_job_destroy_def job_pair_def complete_inv)

lemma decode_job_create_result:
  assumes "decode_job_create a c j = Some (job, c')"
  shows "\<exists>t p objs. w_render c = Some (t, p) \<and> j_target job = t \<and> j_surface job = p \<and>
    j_fence job = w_render_fence c \<and> c' = c\<lparr>w_objs := objs\<rparr>"
  using assms by (auto simp: decode_job_create_def Let_def split: if_splits option.splits prod.splits)

lemma ctx_inv_objs [simp]: "ctx_inv (c\<lparr>w_objs := objs\<rparr>) H R hi \<longleftrightarrow> ctx_inv c H R hi"
  by (rule ctx_inv_cong) (simp_all add: same_view_def)

lemma mark_field_inv [simp]: "ctx_inv c H R hi \<Longrightarrow> ctx_inv (mark_field p f b c) H R hi"
  by (erule ctx_inv_view) (auto simp: mark_field_def waiting_def split: if_splits)

lemma EndPicture_inv:
  assumes "ctx_inv c H R hi"
  shows "\<exists>b c'. rk_EndPicture a c content = Ok (b, c') \<and> ctx_inv c' H R hi"
proof (cases "w_render c = None \<or> w_render_fence c = 0")
  case True
  then show ?thesis using assms by (auto simp: rk_EndPicture_def split: option.splits)
next
  case False
  then obtain t p where r: "w_render c = Some (t, p)" "w_render_fence c \<noteq> 0" by auto
  let ?f = "w_render_fence c" and ?d = "\<lambda>c. c\<lparr>w_render := None, w_render_fence := 0\<rparr>"
  have drop: "ctx_inv (?d c') (insert (p, ?f) H) R hi" if "ctx_inv c' H R hi" "w_render c' = Some (t, p)" "w_render_fence c' = ?f" for c'
    using ctx_inv_drop_render [OF that(1)] that by (simp add: render_pairs_def)
  show ?thesis
  proof (cases "case content of None \<Rightarrow> None | Some j \<Rightarrow> decode_job_create a c j")
    case None
    have "rk_EndPicture a c content = Ok (False, unref p (rk_mpp_dec_fail_surface p ?f (?d c)))"
      unfolding rk_EndPicture_def r(1) option.case prod.case if_not_P [OF r(2)] Let_def None ..
    then show ?thesis using fail_inv [OF drop [OF assms]] r by fastforce
  next
    case (Some jc)
    then obtain j job objs where j: "jc = (job, c\<lparr>w_objs := objs\<rparr>)" "j_target job = t" "j_surface job = p" "j_fence job = ?f"
      using r decode_job_create_result by (cases jc; cases content) fastforce+
    let ?c1 = "mark_field p ?f (j_h264_field job) (c\<lparr>w_objs := objs\<rparr>)"
    have m: "w_render ?c1 = Some (t, p)" "w_render_fence ?c1 = ?f" "w_ptr ?c1 = w_ptr c"
      using r by (simp_all add: mark_field_def)
    have i: "ctx_inv (unref p (?d ?c1)) (insert (job_pair job) H) R hi"
      using drop [of ?c1] assms m j by (simp add: job_pair_def)
    have t: "j_surface job = w_ptr (unref p (?d ?c1)) (j_target job)"
      using render_target_ok [OF assms r(1)] j m by simp
    from enqueue_inv [OF i t] obtain b c' where e: "rk_mpp_dec_enqueue_job (unref p (?d ?c1)) job = Ok (b, c')"
      "if b then ctx_inv c' H R hi else c' = unref p (?d ?c1)" by blast
    have "rk_EndPicture a c content = Ok (if b then (True, c') else (False, rk_mpp_dec_reject_job job c'))"
      unfolding rk_EndPicture_def r(1) option.case prod.case if_not_P [OF r(2)] Let_def Some j(1) e(1) obind.simps ..
    with e(2) reject_inv [OF i] show ?thesis by (cases b) auto
  qed
qed

lemma begin_surface_fields:
  "s_ctx_id (begin_surface c s) = Some (w_id c)" "\<not> s_decoded (begin_surface c s)" "\<not> s_decode_failed (begin_surface c s)"
  by (simp_all add: begin_surface_def Let_def)

lemma begin_release_view [simp]: "same_view c (begin_release c0 s c') \<longleftrightarrow> same_view c c'"
  by (simp add: begin_release_def Let_def split: option.splits)

lemma begin_release_surf [simp]: "w_surf (begin_release c0 s c) = w_surf c"
  by (simp add: begin_release_def Let_def split: option.splits)

lemma begin_started:
  assumes "ctx_inv c H R hi" and "p = w_ptr c t"
  shows "ctx_inv ((upd_surf p (begin_surface c0) c)\<lparr>w_render := Some (t, p),
      w_render_fence := s_fence (begin_surface c0 (w_surf c p))\<rparr>) (H \<union> render_pairs c) R hi" (is "ctx_inv ?c _ R hi")
proof -
  from assms(1) obtain q where q: "holds c q" "targets_ok c q" "few c \<Longrightarrow> accounted c q H" "few c \<Longrightarrow> tokens_ok c q R hi"
    by (rule ctx_invE) blast
  have "holds ?c q" "targets_ok ?c q" using q(1,2) assms(2) by (simp_all add: holds_def token_routes_def generic_routes_def targets_ok_def)
  moreover have "accounted ?c q (H \<union> render_pairs c)" if "few c"
    using q(3) [OF that] by (fastforce simp: accounted_def waiting_def holders_def render_pairs_def)
  moreover have "tokens_ok ?c q R hi = tokens_ok c q R hi" "few ?c = few c" by (rule tokens_cong; simp)+
  ultimately show ?thesis using q(4) by (intro ctx_invI [of _ q]) auto
qed

lemma BeginPicture_inv:
  assumes "ctx_inv c H R hi"
  shows "ctx_inv (snd (rk_BeginPicture c t)) H R hi"
proof -
  let ?p = "w_ptr c t" and ?o = "snd (rk_object_ref (w_ptr c t) (w_objs c))"
  let ?c = "c\<lparr>w_objs := ?o\<rparr>"
  let ?c1 = "(upd_surf ?p (begin_surface ?c) ?c)\<lparr>w_render := Some (t, ?p),
      w_render_fence := s_fence (begin_surface ?c (w_surf ?c ?p))\<rparr>"
  let ?c2 = "begin_release ?c (w_surf c ?p) ?c1"
  have "ctx_inv ?c1 (H \<union> render_pairs ?c) R hi"
    using begin_started [of ?c H R hi ?p t ?c] assms by simp
  then have inv: "ctx_inv ?c2 (H \<union> render_pairs c) R hi"
    using ctx_inv_cong [of ?c1 ?c2] by (simp add: render_pairs_def cong: option.case_cong)
  have started: "ctx_inv (case w_render c of None \<Rightarrow> ?c2
      | Some (_, p0) \<Rightarrow> unref p0 (rk_mpp_dec_fail_surface p0 (w_render_fence c) ?c2)) H R hi"
  proof (cases "w_render c")
    case None
    then show ?thesis using inv by (simp add: render_pairs_def)
  next
    case (Some r)
    then show ?thesis using inv fail_inv [of ?c2 _ "w_render_fence c" H R hi] by (cases r) (simp add: render_pairs_def)
  qed
  have "rk_BeginPicture c t = (False, c) \<or> rk_BeginPicture c t = (False, unref ?p ?c) \<or>
      rk_BeginPicture c t = (True, case w_render c of None \<Rightarrow> ?c2
      | Some (_, p0) \<Rightarrow> unref p0 (rk_mpp_dec_fail_surface p0 (w_render_fence c) ?c2))"
    by (cases "w_live c t"; cases "fst (rk_object_ref ?p (w_objs c))"; cases "s_imported (w_surf c ?p)")
      (simp_all add: rk_BeginPicture_def Let_def split_beta split: option.splits)
  with started assms show ?thesis by auto
qed

lemma app_step_inv:
  assumes "ctx_inv c H R hi"
  shows "\<exists>c'. app_step a c = Ok c' \<and> ctx_inv c' H R hi"
proof (cases a)
  case (App_Begin t)
  then show ?thesis using BeginPicture_inv [OF assms] by simp
next
  case (App_End al j)
  then show ?thesis using EndPicture_inv [OF assms, of al j] by auto
next
  case (App_Forget t)
  have "ctx_inv (c\<lparr>w_live := (w_live c)(t := False)\<rparr>) H R hi \<longleftrightarrow> ctx_inv c H R hi"
    by (rule ctx_inv_cong) (simp_all add: same_view_def)
  then show ?thesis using App_Forget assms by simp
next
  case (App_Drain d)
  have "ctx_inv (c\<lparr>w_deadline := d, w_drain := True\<rparr>) H R hi \<longleftrightarrow> ctx_inv c H R hi"
    by (rule ctx_inv_cong) (simp_all add: same_view_def)
  then show ?thesis using App_Drain assms by simp
qed

lemma app_run_inv: "ctx_inv c H R hi \<Longrightarrow> \<exists>c'. app_run as c = Ok c' \<and> ctx_inv c' H R hi"
proof (induction "as" arbitrary: c)
  case (Cons a "as")
  from app_step_inv [OF Cons.prems, of a] obtain c1 where "app_step a c = Ok c1" "ctx_inv c1 H R hi" by blast
  with Cons.IH show ?case by simp
qed simp

text \<open>What belongs to the worker is left alone by the application.\<close>

definition worker_view ::
    "RKContext \<Rightarrow> RKDecodePool option \<times> MppCodingType \<times> u32 \<times> RKFrameRoute ll \<times> RKFrameRoute lq \<times> bool \<times> bool \<times> (u32 \<Rightarrow> addr)" where
  "worker_view c = (w_pool c, w_coding c, w_outstanding c, w_h264_routes c, w_generic c, w_stop c, w_saw_eos c, w_ptr c)"

lemma worker_view_simps [simp]:
  "worker_view (unref p c) = worker_view c" "worker_view (release es c) = worker_view c"
  "worker_view (upd_surf p f c) = worker_view c" "worker_view (complete_surface_ref p fence b c) = worker_view c"
  "worker_view (rk_mpp_dec_fail_surface p fence c) = worker_view c" "worker_view (mark_field p fence b c) = worker_view c"
  "worker_view (begin_release c0 s c) = worker_view c" "worker_view (rk_mpp_dec_reject_job job c) = worker_view c"
  "worker_view (c\<lparr>w_objs := objs\<rparr>) = worker_view c"
  "worker_view (c\<lparr>w_render := x, w_render_fence := y\<rparr>) = worker_view c"
  by (simp_all add: worker_view_def complete_surface_ref_def rk_mpp_dec_fail_surface_def mark_field_def
    begin_release_def rk_mpp_dec_reject_job_def rk_mpp_dec_job_destroy_def Let_def split: option.splits)

lemma BeginPicture_worker: "worker_view (snd (rk_BeginPicture c t)) = worker_view c"
  by (simp add: rk_BeginPicture_def Let_def split_beta split: option.splits)

lemma enqueue_worker: "rk_mpp_dec_enqueue_job c job = Ok (b, c') \<Longrightarrow> worker_view c' = worker_view c"
  by (auto simp: rk_mpp_dec_enqueue_job_def Let_def worker_view_def split: if_splits option.splits)

lemma EndPicture_worker: "rk_EndPicture a c j = Ok (b, c') \<Longrightarrow> worker_view c' = worker_view c"
  by (auto simp: rk_EndPicture_def Let_def dest!: enqueue_worker decode_job_create_result split: option.splits if_splits)

lemma app_step_worker: "app_step a c = Ok c' \<Longrightarrow> worker_view c' = worker_view c"
  by (cases a) (auto simp: BeginPicture_worker dest: EndPicture_worker, simp_all add: worker_view_def)

lemma app_run_worker: "app_run as c = Ok c' \<Longrightarrow> worker_view c' = worker_view c"
  by (induction "as" arbitrary: c) (auto dest: app_step_worker)

end
