(* ===== verification/State_Outcome.thy ===== *)
theory State_Outcome
  imports Prelude
begin

text \<open>
  Stateful code that may fault: functions from a state to an \<open>outcome\<close> with a result and a new
  state, their composition, and total-correctness triples. \<open>runs E P f Q\<close> says that from a state
  with \<open>P\<close> the code \<open>f\<close> returns with \<open>Q\<close>, or faults where \<open>E\<close> admits faults.
\<close>

type_synonym ('s, 'a) act = "'s \<Rightarrow> ('a \<times> 's) outcome"

definition sret :: "'a \<Rightarrow> ('s, 'a) act" where
  "sret a = (\<lambda>s. Ok (a, s))"

definition sbind :: "('s, 'a) act \<Rightarrow> ('a \<Rightarrow> ('s, 'b) act) \<Rightarrow> ('s, 'b) act" where
  "sbind f g = (\<lambda>s. obind (f s) (\<lambda>(a, s). g a s))"

definition sseq :: "('s, 'a) act \<Rightarrow> ('s, 'b) act \<Rightarrow> ('s, 'b) act" where
  "sseq f g = sbind f (\<lambda>_. g)"

definition swhen :: "bool \<Rightarrow> ('s, unit) act \<Rightarrow> ('s, unit) act" where
  "swhen b f = (if b then f else sret ())"

definition runs :: "bool \<Rightarrow> ('s \<Rightarrow> bool) \<Rightarrow> ('s, 'a) act \<Rightarrow> ('a \<Rightarrow> 's \<Rightarrow> bool) \<Rightarrow> bool" where
  "runs E P f Q \<longleftrightarrow> (\<forall>s. P s \<longrightarrow> (case f s of Ok (a, s') \<Rightarrow> Q a s' | Fail \<Rightarrow> False | Fault \<Rightarrow> E))"

named_theorems runs_rules \<open>syntax-directed rules for triples\<close>

lemma runs_ret [runs_rules]: "(\<And>s. P s \<Longrightarrow> Q a s) \<Longrightarrow> runs E P (sret a) Q"
  by (simp add: runs_def sret_def)

lemma runs_bind [runs_rules]:
  assumes "runs E P f Q" and "\<And>a. runs E (Q a) (g a) R"
  shows "runs E P (sbind f g) R"
  unfolding runs_def
proof (intro allI impI)
  fix s assume "P s"
  with assms(1) have f: "case f s of Ok (a, s') \<Rightarrow> Q a s' | Fail \<Rightarrow> False | Fault \<Rightarrow> E" by (simp add: runs_def)
  show "case sbind f g s of Ok (a, s') \<Rightarrow> R a s' | Fail \<Rightarrow> False | Fault \<Rightarrow> E"
  proof (cases "f s")
    case (Ok x)
    then show ?thesis using f assms(2) [of "fst x"] by (cases x) (simp add: sbind_def runs_def)
  qed (use f in \<open>simp_all add: sbind_def\<close>)
qed

lemma runs_bind_pure:
  assumes "runs E P f (\<lambda>a s. Q s \<and> B a)" and "\<And>a. B a \<Longrightarrow> runs E Q (g a) R"
  shows "runs E P (sbind f g) R"
  by (rule runs_bind [OF assms(1)]) (use assms(2) in \<open>fastforce simp: runs_def\<close>)

lemma runs_seq [runs_rules]:
  assumes "runs E P f (\<lambda>_. Q)" and "runs E Q g R"
  shows "runs E P (sseq f g) R"
  unfolding sseq_def by (rule runs_bind [OF assms(1)]) (rule assms(2))

lemma runs_when [runs_rules]:
  "(b \<Longrightarrow> runs E P f (\<lambda>_. Q)) \<Longrightarrow> (\<And>s. \<not> b \<Longrightarrow> P s \<Longrightarrow> Q s) \<Longrightarrow> runs E P (swhen b f) (\<lambda>_. Q)"
  by (simp add: swhen_def runs_ret)

lemma runs_if [runs_rules]:
  "(b \<Longrightarrow> runs E P f Q) \<Longrightarrow> (\<not> b \<Longrightarrow> runs E P g Q) \<Longrightarrow> runs E P (if b then f else g) Q"
  by simp

lemma runs_case_option [runs_rules]:
  "(x = None \<Longrightarrow> runs E P f Q) \<Longrightarrow> (\<And>y. x = Some y \<Longrightarrow> runs E P (g y) Q) \<Longrightarrow>
   runs E P (case x of None \<Rightarrow> f | Some y \<Rightarrow> g y) Q"
  by (cases x) simp_all

lemma runs_case_prod [runs_rules]:
  "(\<And>a b. x = (a, b) \<Longrightarrow> runs E P (g a b) Q) \<Longrightarrow> runs E P (case x of (a, b) \<Rightarrow> g a b) Q"
  by (cases x) simp

lemma runs_pre: "runs E P f Q \<Longrightarrow> (\<And>s. P' s \<Longrightarrow> P s) \<Longrightarrow> runs E P' f Q"
  by (simp add: runs_def)

lemma runs_post: "runs E P f Q \<Longrightarrow> (\<And>a s. Q a s \<Longrightarrow> Q' a s) \<Longrightarrow> runs E P f Q'"
  unfolding runs_def by (fastforce split: outcome.splits)

lemma runs_conseq:
  "runs E P f Q \<Longrightarrow> (\<And>s. P' s \<Longrightarrow> P s) \<Longrightarrow> (\<And>a s. Q a s \<Longrightarrow> Q' a s) \<Longrightarrow> runs E P' f Q'"
  by (rule runs_post [OF runs_pre])

lemma runs_cond: "(\<And>s. P s \<Longrightarrow> B) \<Longrightarrow> (B \<Longrightarrow> runs E P f Q) \<Longrightarrow> runs E P f Q"
  by (auto simp: runs_def)

lemma runs_ex: "(\<And>x. runs E (P x) f Q) \<Longrightarrow> runs E (\<lambda>s. \<exists>x. P x s) f Q"
  by (auto simp: runs_def)

lemma runs_I:
  "(\<And>s. P s \<Longrightarrow> \<exists>a s'. f s = Ok (a, s') \<and> Q a s') \<Longrightarrow> runs E P f Q"
  unfolding runs_def by fastforce

lemma runs_fault: "(\<And>s. P s \<Longrightarrow> E) \<Longrightarrow> runs E P (\<lambda>s. Fault) Q"
  by (simp add: runs_def)

lemma runs_admit: "runs E P f Q \<Longrightarrow> (E \<Longrightarrow> E') \<Longrightarrow> runs E' P f Q"
  unfolding runs_def by (fastforce split: outcome.splits)

lemma runs_conj:
  assumes "runs E P f Q" and "runs E P' f Q'"
  shows "runs E (\<lambda>s. P s \<and> P' s) f (\<lambda>a s. Q a s \<and> Q' a s)"
  using assms unfolding runs_def by (fastforce split: outcome.splits)

lemma runs_Ok: "runs E P f Q \<Longrightarrow> P s \<Longrightarrow> f s = Ok (a, s') \<Longrightarrow> Q a s'"
  unfolding runs_def by fastforce

lemma runs_total: "runs False P f Q \<Longrightarrow> P s \<Longrightarrow> \<exists>a s'. f s = Ok (a, s') \<and> Q a s'"
  unfolding runs_def by (fastforce split: outcome.splits)

lemma sbind_Ok: "f s = Ok (a, s') \<Longrightarrow> sbind f g s = g a s'"
  by (simp add: sbind_def)

lemma sseq_Ok: "f s = Ok (a, s') \<Longrightarrow> sseq f g s = g s'"
  by (simp add: sseq_def sbind_def)

section \<open>Partial triples\<close>

text \<open>\<open>sat P f Q\<close>: if \<open>f\<close> returns from a state with \<open>P\<close>, then with \<open>Q\<close>.\<close>

definition sat :: "('s \<Rightarrow> bool) \<Rightarrow> ('s, 'a) act \<Rightarrow> ('a \<Rightarrow> 's \<Rightarrow> bool) \<Rightarrow> bool" where
  "sat P f Q \<longleftrightarrow> (\<forall>s a s'. P s \<longrightarrow> f s = Ok (a, s') \<longrightarrow> Q a s')"

named_theorems sat_rules \<open>syntax-directed rules for partial triples\<close>

lemma sat_ret: "(\<And>s. P s \<Longrightarrow> Q a s) \<Longrightarrow> sat P (sret a) Q"
  by (simp add: sat_def sret_def)

lemma sat_ret_same [sat_rules]: "sat P (sret a) (\<lambda>_. P)"
  by (simp add: sat_def sret_def)

lemma sat_bind:
  assumes "sat P f Q" and "\<And>a. sat (Q a) (g a) R"
  shows "sat P (sbind f g) R"
  using assms unfolding sat_def sbind_def by fastforce

lemma sat_bind_same [sat_rules]: "sat P f (\<lambda>_. P) \<Longrightarrow> (\<And>a. sat P (g a) R) \<Longrightarrow> sat P (sbind f g) R"
  by (rule sat_bind)

lemma sat_seq: "sat P f (\<lambda>_. Q) \<Longrightarrow> sat Q g R \<Longrightarrow> sat P (sseq f g) R"
  unfolding sseq_def by (rule sat_bind)

lemma sat_seq_same [sat_rules]: "sat P f (\<lambda>_. P) \<Longrightarrow> sat P g R \<Longrightarrow> sat P (sseq f g) R"
  by (rule sat_seq)

lemma sat_when [sat_rules]: "sat P f (\<lambda>_. P) \<Longrightarrow> sat P (swhen b f) (\<lambda>_. P)"
  by (simp add: swhen_def sat_ret)

lemma sat_if [sat_rules]: "(b \<Longrightarrow> sat P f Q) \<Longrightarrow> (\<not> b \<Longrightarrow> sat P g Q) \<Longrightarrow> sat P (if b then f else g) Q"
  by simp

lemma sat_case_option [sat_rules]:
  "(x = None \<Longrightarrow> sat P f Q) \<Longrightarrow> (\<And>y. x = Some y \<Longrightarrow> sat P (g y) Q) \<Longrightarrow> sat P (case x of None \<Rightarrow> f | Some y \<Rightarrow> g y) Q"
  by (cases x) simp_all

lemma sat_case_prod [sat_rules]:
  "(\<And>a b. x = (a, b) \<Longrightarrow> sat P (g a b) Q) \<Longrightarrow> sat P (case x of (a, b) \<Rightarrow> g a b) Q"
  by (cases x) simp

lemma sat_fault [sat_rules]: "sat P (\<lambda>s. Fault) Q"
  by (simp add: sat_def)

lemma sat_pre: "sat P f Q \<Longrightarrow> (\<And>s. P' s \<Longrightarrow> P s) \<Longrightarrow> sat P' f Q"
  unfolding sat_def by blast

lemma sat_post: "sat P f Q \<Longrightarrow> (\<And>a s. Q a s \<Longrightarrow> Q' a s) \<Longrightarrow> sat P f Q'"
  unfolding sat_def by blast

lemma sat_D: "sat P f Q \<Longrightarrow> P s \<Longrightarrow> f s = Ok (a, s') \<Longrightarrow> Q a s'"
  unfolding sat_def by blast

end
