(* ===== verification/Decode_Worker.thy ===== *)
theory Decode_Worker
  imports Decode_State State_Outcome Frame_Layout VP9
begin

text \<open>
  The decode worker of \<open>src/mpp_dec.c\<close>: submission of jobs to MPP, routing of MPP's output frames
  to surfaces, the external buffer pool, the drain at teardown and the stall timeout.

  MPP, the C allocator, the clock and the image operations of \<open>src/convert.c\<close> and
  \<open>src/surface.c\<close> are the fields of a record \<open>'m backend\<close> over a state \<open>'m\<close> of their own, so
  that every theorem holds for all their behaviours. So is the scheduler: before each section of
  the worker that takes a lock, \<open>others\<close> chooses the calls that other threads complete first.
\<close>

section \<open>The environment\<close>

datatype frame_format = FMT_YUV420SP | FMT_YUV420SP_10BIT | FMT_OTHER

record mpp_frame =
  f_id :: nat
  f_info_change :: bool
  f_eos :: bool
  f_pts :: u64
  f_errinfo :: u32
  f_discard :: u32
  f_buffer :: "mpp_buf option"
  f_width :: u32
  f_height :: u32
  f_hor_stride :: u32
  f_ver_stride :: u32
  f_hor_stride_pixel :: u32
  f_fbc_hdr_stride :: u32
  f_offset_x :: u32
  f_offset_y :: u32
  f_fmt :: nat
  f_format :: frame_format
  f_afbc :: bool
  f_buf_size :: u64

record mpp_packet =
  k_data :: "u8 list"
  k_pts :: u64
  k_eos :: bool

datatype mpp_call =
    Call_Calloc
  | Call_Group_External
  | Call_Group_Internal
  | Call_Commit mpp_buf nat
  | Call_Ext_Buf_Group
  | Call_Info_Change_Ready
  | Call_Inc_Ref nat
  | Call_Packet_Init
  | Call_Reset

record frame_geometry =
  g_width :: int
  g_height :: int
  g_hs :: int
  g_vs :: int
  g_hs_pixels :: int
  g_size :: u64
  g_valid :: bool

datatype stable_result = Copy_Failed | Not_Stable | Copied u32 u32

record 'm backend =
  mpp_call :: "mpp_call \<Rightarrow> 'm \<Rightarrow> bool \<times> 'm"
  decode_put_packet :: "mpp_packet \<Rightarrow> 'm \<Rightarrow> bool \<times> 'm"
  decode_get_frame :: "'m \<Rightarrow> mpp_frame option \<times> 'm"
  mpp_buffer_get :: "u64 \<Rightarrow> 'm \<Rightarrow> mpp_buf option \<times> 'm"
  calloc_pool :: "'m \<Rightarrow> addr option \<times> 'm"
  convert_nv15_to_p010 :: "frame_geometry \<Rightarrow> mpp_frame \<Rightarrow> 'm \<Rightarrow> mpp_buf option \<times> 'm"
  copy_to_stable_export :: "addr \<Rightarrow> frame_geometry \<Rightarrow> u64 \<Rightarrow> 'm \<Rightarrow> stable_result \<times> 'm"
  monotonic_ns :: "'m \<Rightarrow> int \<times> 'm"
  others :: "'m \<Rightarrow> app_act list \<times> 'm"

type_synonym ('m, 'a) worker = "(RKContext \<times> 'm, 'a) act"

definition env_do :: "('m \<Rightarrow> 'a \<times> 'm) \<Rightarrow> ('m, 'a) worker" where
  "env_do f = (\<lambda>(c, m). let (a, m) = f m in Ok (a, (c, m)))"

definition ctx_do :: "(RKContext \<Rightarrow> ('a \<times> RKContext) outcome) \<Rightarrow> ('m, 'a) worker" where
  "ctx_do f = (\<lambda>(c, m). obind (f c) (\<lambda>(a, c). Ok (a, (c, m))))"

definition ctx_get :: "(RKContext \<Rightarrow> 'a) \<Rightarrow> ('m, 'a) worker" where
  "ctx_get f = (\<lambda>(c, m). Ok (f c, (c, m)))"

definition ctx_upd :: "(RKContext \<Rightarrow> RKContext) \<Rightarrow> ('m, unit) worker" where
  "ctx_upd f = (\<lambda>(c, m). Ok ((), (f c, m)))"

definition sync :: "'m backend \<Rightarrow> ('m, unit) worker" where
  "sync e = (\<lambda>(c, m). let (as, m) = others e m in obind (app_run as c) (\<lambda>c. Ok ((), (c, m))))"

definition worker_complete :: "'m backend \<Rightarrow> addr \<Rightarrow> u64 \<Rightarrow> bool \<Rightarrow> ('m, unit) worker" where
  "worker_complete e p fence success = sseq (sync e) (ctx_upd (complete_surface_ref p fence success))"

definition mpp_frame_deinit :: "nat \<Rightarrow> ('m, unit) worker" where
  "mpp_frame_deinit f = ctx_upd (release [Frame_Deinit f])"

definition mpp_buffer_put :: "nat \<Rightarrow> ('m, unit) worker" where
  "mpp_buffer_put b = ctx_upd (release [Buffer_Put b])"

definition when_some :: "'a option \<Rightarrow> ('a \<Rightarrow> ('m, unit) worker) \<Rightarrow> ('m, unit) worker" where
  "when_some x f = (case x of None \<Rightarrow> sret () | Some y \<Rightarrow> f y)"

section \<open>The external buffer pool\<close>

definition EXTERNAL_POOL_COUNT :: nat where "EXTERNAL_POOL_COUNT = 24"
definition EXTERNAL_POOL_MAX :: nat where "EXTERNAL_POOL_MAX = 64"
definition EXTERNAL_POOL_GROW :: nat where "EXTERNAL_POOL_GROW = 8"

definition decode_pool_destroy :: "RKDecodePool \<Rightarrow> ('m, unit) worker" where
  "decode_pool_destroy pool =
     ctx_upd (release (map (\<lambda>b. Buffer_Put (b_id b)) (List.map_filter id (take (p_count pool) (p_buffers pool)))))"

definition set_buffer :: "RKDecodePool \<Rightarrow> nat \<Rightarrow> mpp_buf option \<Rightarrow> RKDecodePool" where
  "set_buffer pool i b = pool\<lparr>p_buffers := (p_buffers pool)[i := b]\<rparr>"

definition commit_pool_buffer :: "'m backend \<Rightarrow> RKDecodePool \<Rightarrow> nat \<Rightarrow> ('m, bool \<times> RKDecodePool) worker" where
  "commit_pool_buffer e pool index =
     (if index \<ge> length (p_buffers pool) then \<lambda>s. Fault
      else sbind (env_do (mpp_buffer_get e (p_buffer_size pool))) (\<lambda>got.
        case got of
          None \<Rightarrow> sret (False, pool)
        | Some b \<Rightarrow>
            sseq (ctx_upd (release [Buffer_Get (b_id b)]))
            (sbind (if b_fd b < 0 then sret False else env_do (mpp_call e (Call_Commit b index))) (\<lambda>committed.
               if committed then sret (True, set_buffer pool index (Some b))
               else sseq (mpp_buffer_put (b_id b)) (sret (False, set_buffer pool index None))))))"

fun grow_loop :: "'m backend \<Rightarrow> nat \<Rightarrow> nat \<Rightarrow> RKDecodePool \<Rightarrow> ('m, nat \<times> RKDecodePool) worker" where
  "grow_loop e 0 i pool = sret (0, pool)"
| "grow_loop e (Suc n) i pool =
     sbind (commit_pool_buffer e pool i) (\<lambda>(ok, pool).
       if \<not> ok then sret (0, pool)
       else sbind (grow_loop e n (i + 1) pool) (\<lambda>(added, pool). sret (added + 1, pool)))"

definition grow_external_group :: "'m backend \<Rightarrow> ('m, bool) worker" where
  "grow_external_group e =
     sbind (ctx_get w_pool) (\<lambda>p.
       case p of
         None \<Rightarrow> sret False
       | Some pool \<Rightarrow>
           if p_count pool \<ge> p_capacity pool then sret False
           else let target = min (p_count pool + EXTERNAL_POOL_GROW) (p_capacity pool)
                in sbind (grow_loop e (target - p_count pool) (p_count pool) pool) (\<lambda>(added, pool).
                     sseq (ctx_upd (\<lambda>c. c\<lparr>w_pool := Some (pool\<lparr>p_count := p_count pool + added\<rparr>)\<rparr>))
                       (sret (added \<noteq> 0))))"

fun commit_loop :: "'m backend \<Rightarrow> nat \<Rightarrow> RKDecodePool \<Rightarrow> ('m, bool \<times> RKDecodePool) worker" where
  "commit_loop e 0 pool = sret (True, pool)"
| "commit_loop e (Suc n) pool =
     sbind (commit_pool_buffer e pool (p_count pool)) (\<lambda>(ok, pool).
       if \<not> ok then sret (False, pool) else commit_loop e n (pool\<lparr>p_count := p_count pool + 1\<rparr>))"

definition pool_sizes :: "RKContext \<Rightarrow> u64 \<Rightarrow> u64" where
  "pool_sizes c required_size =
     (case rk_surface_buffer_size (word_of_int (w_width c)) (word_of_int (w_height c)) of
        Some conservative_size \<Rightarrow> if conservative_size > required_size then conservative_size else required_size
      | None \<Rightarrow> required_size)"

definition fresh_pool :: "addr \<Rightarrow> u64 \<Rightarrow> RKDecodePool" where
  "fresh_pool p bytes = \<lparr>p_object = p, p_buffers = [], p_count = 0, p_capacity = EXTERNAL_POOL_MAX, p_buffer_size = bytes\<rparr>"

text \<open>The label \<open>fail\<close>: the creator's reference is the only one, so dropping it destroys the pool.\<close>

definition configure_fail :: "RKDecodePool \<Rightarrow> ('m, bool) worker" where
  "configure_fail pool = sseq (ctx_upd (unref (p_object pool))) (sseq (decode_pool_destroy pool) (sret False))"

definition configure_new_pool :: "'m backend \<Rightarrow> u64 \<Rightarrow> ('m, bool) worker" where
  "configure_new_pool e allocation_size =
     sbind (env_do (calloc_pool e)) (\<lambda>p.
       case p of
         None \<Rightarrow> sret False
       | Some p \<Rightarrow>
           let pool = fresh_pool p allocation_size
           in sseq (ctx_upd (\<lambda>c. c\<lparr>w_objs := rk_object_init p (w_objs c)\<rparr>))
              (sbind (env_do (mpp_call e Call_Group_External)) (\<lambda>ok. if \<not> ok then configure_fail pool
               else sbind (env_do (mpp_call e Call_Group_Internal)) (\<lambda>ok. if \<not> ok then configure_fail pool
               else sbind (env_do (mpp_call e Call_Calloc)) (\<lambda>ok. if \<not> ok then configure_fail pool
               else sbind (commit_loop e EXTERNAL_POOL_COUNT
                      (pool\<lparr>p_buffers := replicate (p_capacity pool) None\<rparr>)) (\<lambda>(ok, pool).
                    if \<not> ok then configure_fail pool
                    else sbind (env_do (mpp_call e Call_Ext_Buf_Group)) (\<lambda>ok. if \<not> ok then configure_fail pool
                    else sseq (ctx_upd (\<lambda>c. c\<lparr>w_pool := Some pool\<rparr>)) (sret True))))))))"

definition configure_external_group :: "'m backend \<Rightarrow> mpp_frame \<Rightarrow> ('m, bool) worker" where
  "configure_external_group e f =
     (let required_size = f_buf_size f
      in if required_size = 0 then sret False
         else sbind (ctx_get (\<lambda>c. (w_pool c, pool_sizes c required_size))) (\<lambda>(p, allocation_size).
           case p of
             Some pool \<Rightarrow>
               if p_count pool = 0 then sret False
               else (case p_buffers pool of
                       Some b # _ \<Rightarrow> sret (b_size b \<ge> required_size)
                     | _ \<Rightarrow> (\<lambda>s. Fault))
           | None \<Rightarrow> configure_new_pool e allocation_size))"

text \<open>The index of the pool buffer behind an output buffer, when they are the same memory.\<close>

definition external_buffer_matches_pool :: "RKContext \<Rightarrow> mpp_buf option \<Rightarrow> nat option" where
  "external_buffer_matches_pool c buffer =
     (case (w_pool c, buffer) of
        (Some pool, Some b) \<Rightarrow>
          if b_index b < 0 \<or> b_index b \<ge> int (p_count pool) then None
          else (case p_buffers pool ! nat (b_index b) of
                  None \<Rightarrow> None
                | Some backing \<Rightarrow> if b_fd backing < 0 \<or> b_fd b \<noteq> b_fd backing then None else Some (nat (b_index b)))
      | _ \<Rightarrow> None)"

section \<open>Routing an output frame\<close>

definition take_route :: "u64 \<Rightarrow> RKContext \<Rightarrow> (addr option \<times> RKContext) outcome" where
  "take_route pts c = (if codec_uses_token_routes c then h264_route_take c pts else generic_route_take c)"

definition route_payload :: "addr \<Rightarrow> RKContext \<Rightarrow> (RKFrameRoute \<times> RKContext) outcome" where
  "route_payload p c =
     obind (if codec_uses_token_routes c then ll_get (w_h264_routes c) p else ll_get (w_generic c) p) (\<lambda>(r, _). Ok (r, c))"

definition frame_route_destroy :: "addr \<Rightarrow> RKContext \<Rightarrow> (unit \<times> RKContext) outcome" where
  "frame_route_destroy p c =
     obind (if codec_uses_token_routes c then h264_route_destroy p c else generic_route_destroy p c) (\<lambda>c. Ok ((), c))"

definition linear_layout_valid :: "mpp_frame \<Rightarrow> frame_geometry \<Rightarrow> bool" where
  "linear_layout_valid f g \<longleftrightarrow>
     \<not> f_afbc f \<and> (f_format f = FMT_YUV420SP \<or> f_format f = FMT_YUV420SP_10BIT) \<and>
     g_hs g > 0 \<and> g_vs g \<ge> g_height g \<and>
     (case rk_nv12_layout_size (word_of_int (g_hs g)) (word_of_int (g_vs g)) of
        None \<Rightarrow> False | Some layout_size \<Rightarrow> g_size g \<ge> layout_size) \<and>
     (f_format f = FMT_YUV420SP_10BIT \<longrightarrow>
        g_hs_pixels g \<ge> g_width g \<and> g_hs_pixels g mod 64 = 0 \<and>
        (sint (f_hor_stride_pixel f) \<le> 0 \<or> sint (f_hor_stride_pixel f) = g_hs_pixels g))"

definition afbc_layout_valid :: "mpp_frame \<Rightarrow> frame_geometry \<Rightarrow> bool" where
  "afbc_layout_valid f g \<longleftrightarrow>
     (let offset_x = sint (f_offset_x f); offset_y = sint (f_offset_y f)
      in f_format f = FMT_YUV420SP_10BIT \<and> f_afbc f \<and> g_hs_pixels g \<ge> g_width g \<and>
         g_hs_pixels g mod 64 = 0 \<and> g_vs g \<ge> g_height g \<and> g_vs g mod 16 = 0 \<and>
         offset_x \<ge> 0 \<and> offset_y \<ge> 0 \<and>
         offset_x \<le> g_hs_pixels g \<and> g_width g \<le> g_hs_pixels g - offset_x \<and>
         offset_y \<le> g_vs g \<and> g_height g \<le> g_vs g - offset_y \<and> g_size g > 0)"

definition frame_geometry_of :: "mpp_frame \<Rightarrow> RKSurface \<Rightarrow> frame_geometry" where
  "frame_geometry_of f s =
     (let fwidth = sint (f_width f); fheight = sint (f_height f); fhs = sint (f_hor_stride f);
          fvs = sint (f_ver_stride f); fbc_hs = sint (f_fbc_hdr_stride f);
          nv15 = f_format f = FMT_YUV420SP_10BIT;
          frame_w = (if fwidth > 0 then fwidth else s_width s);
          frame_h = (if fheight > 0 then fheight else s_height s);
          src_hs = (if fhs > 0 then fhs else frame_w);
          src_vs = (if fvs > 0 then fvs else frame_h);
          src_hs_pixels = (if nv15 \<and> f_afbc f \<and> fbc_hs > 0 then fbc_hs else sint (f_hor_stride_pixel f));
          src_hs_pixels = (if nv15 \<and> \<not> f_afbc f \<and> src_hs > 0 \<and> src_hs mod 5 = 0 then src_hs div 5 * 4 else src_hs_pixels);
          g = \<lparr>g_width = frame_w, g_height = frame_h, g_hs = src_hs, g_vs = src_vs, g_hs_pixels = src_hs_pixels,
               g_size = (case f_buffer f of None \<Rightarrow> 0 | Some b \<Rightarrow> b_size b), g_valid = False\<rparr>
      in g\<lparr>g_valid := linear_layout_valid f g \<or> afbc_layout_valid f g\<rparr>)"

text \<open>
  The local variables of \<open>assign_mpp_frame\<close> that its later stages change. \<open>o_frame\<close> is the variable
  \<open>frame\<close>, which \<open>mpp_frame_deinit\<close> sets to null.
\<close>

record frame_output =
  o_usable :: bool
  o_converted :: bool
  o_stable :: bool
  o_backing :: "nat option"
  o_stored :: "nat option"
  o_frame :: "nat option"
  o_hstride :: int
  o_vstride :: int
  o_pool :: "addr option"

definition output_start :: "RKContext \<Rightarrow> mpp_frame \<Rightarrow> frame_geometry \<Rightarrow> frame_output" where
  "output_start c f g =
     \<lparr>o_usable = g_valid g \<and> (w_pool c = None \<or> external_buffer_matches_pool c (f_buffer f) \<noteq> None),
      o_converted = False, o_stable = False, o_backing = None, o_stored = Some (f_id f), o_frame = Some (f_id f),
      o_hstride = g_hs g, o_vstride = g_vs g, o_pool = None\<rparr>"

definition output_convert :: "'m backend \<Rightarrow> mpp_frame \<Rightarrow> frame_geometry \<Rightarrow> RKDecodePool option \<Rightarrow> frame_output \<Rightarrow> ('m, frame_output) worker" where
  "output_convert e f g pool out =
     (if \<not> (o_usable out \<and> f_format f = FMT_YUV420SP_10BIT) then sret out
      else if pool = None then sret (out\<lparr>o_usable := False\<rparr>)
      else sbind (env_do (convert_nv15_to_p010 e g f)) (\<lambda>converted.
        case converted of
          None \<Rightarrow> sret (out\<lparr>o_usable := False\<rparr>)
        | Some b \<Rightarrow> sseq (ctx_upd (release [Buffer_Get (b_id b)]))
            (sret (out\<lparr>o_converted := True, o_backing := Some (b_id b), o_stored := None, o_hstride := g_hs_pixels g\<rparr>))))"

definition output_stable :: "'m backend \<Rightarrow> addr \<Rightarrow> u64 \<Rightarrow> frame_geometry \<Rightarrow> frame_output \<Rightarrow> ('m, frame_output) worker" where
  "output_stable e s fence g out =
     (if \<not> o_usable out then sret out
      else sbind (env_do (copy_to_stable_export e s (g\<lparr>g_hs := o_hstride out, g_vs := o_vstride out\<rparr>) fence)) (\<lambda>copy.
        case copy of
          Copy_Failed \<Rightarrow> sseq (when_some (o_backing out) mpp_buffer_put)
            (sret (out\<lparr>o_usable := False, o_backing := None\<rparr>))
        | Not_Stable \<Rightarrow> sret out
        | Copied hs vs \<Rightarrow> sseq (when_some (o_backing out) mpp_buffer_put)
            (sseq (when_some (o_stored out) mpp_frame_deinit)
            (sret (out\<lparr>o_stable := True, o_backing := None, o_stored := None,
                       o_frame := (if o_stored out = None then o_frame out else None),
                       o_hstride := sint hs, o_vstride := sint vs\<rparr>)))))"

definition output_retain :: "'m backend \<Rightarrow> RKDecodePool option \<Rightarrow> nat option \<Rightarrow> frame_output \<Rightarrow> ('m, frame_output) worker" where
  "output_retain e pool index out =
     (case (pool, index) of
        (Some pool, Some i) \<Rightarrow>
          if o_usable out \<and> \<not> o_stable out \<and> \<not> o_converted out
          then (case p_buffers pool ! i of
                  None \<Rightarrow> sret (out\<lparr>o_backing := None\<rparr>)
                | Some b \<Rightarrow> sbind (env_do (mpp_call e (Call_Inc_Ref (b_id b)))) (\<lambda>ok.
                    if ok then sseq (ctx_upd (release [Buffer_Inc (b_id b)])) (sret (out\<lparr>o_backing := Some (b_id b)\<rparr>))
                    else sret (out\<lparr>o_backing := Some (b_id b), o_usable := False\<rparr>)))
          else sret out
      | _ \<Rightarrow> sret out)"

definition output_pool :: "RKDecodePool option \<Rightarrow> frame_output \<Rightarrow> ('m, frame_output) worker" where
  "output_pool pool out =
     (if \<not> (o_usable out \<and> \<not> o_stable out) then sret out
      else case pool of
        None \<Rightarrow> sret out
      | Some pool \<Rightarrow>
          sbind (ctx_do (\<lambda>c. let (ok, objs) = rk_object_ref (p_object pool) (w_objs c) in Ok (ok, c\<lparr>w_objs := objs\<rparr>))) (\<lambda>ok.
            if ok then sret (out\<lparr>o_pool := Some (p_object pool)\<rparr>)
            else sseq (when_some (o_backing out) mpp_buffer_put) (sret (out\<lparr>o_usable := False, o_backing := None\<rparr>))))"

definition store_output :: "mpp_frame \<Rightarrow> frame_output \<Rightarrow> RKSurface \<Rightarrow> RKSurface" where
  "store_output f out s =
     s\<lparr>s_frame := o_stored out, s_backing_buf := o_backing out, s_decode_pool := o_pool out, s_fmt := f_fmt f,
       s_width := (if sint (f_width f) > 0 then sint (f_width f) else s_width s),
       s_height := (if sint (f_height f) > 0 then sint (f_height f) else s_height s),
       s_hstride := (if o_hstride out > 0 then o_hstride out else s_hstride s),
       s_vstride := (if o_vstride out > 0 then o_vstride out else s_vstride s),
       s_decoded := True, s_decode_failed := False, s_h264_field_pending := False\<rparr>"

text \<open>The locked section that publishes an output, unless the surface has moved on to another picture.\<close>

definition commit_output :: "'m backend \<Rightarrow> mpp_frame \<Rightarrow> addr \<Rightarrow> RKFrameRoute \<Rightarrow> frame_output \<Rightarrow> ('m, bool) worker" where
  "commit_output e f route r out =
     (let s = r_surface r
      in sseq (sync e)
         (sbind (ctx_get (\<lambda>c. w_surf c s)) (\<lambda>old.
            if s_fence old \<noteq> r_fence r
            then sseq (when_some (o_backing out) mpp_buffer_put)
                 (sseq (when_some (o_pool out) (\<lambda>p. ctx_upd (unref p)))
                 (sseq (ctx_do (frame_route_destroy route))
                 (sseq (when_some (o_frame out) mpp_frame_deinit) (sret True))))
            else sseq (ctx_upd (upd_surf s (store_output f out)))
                 (sseq (when_some (s_frame old) mpp_frame_deinit)
                 (sseq (swhen (o_converted out) (when_some (o_frame out) mpp_frame_deinit))
                 (sseq (when_some (s_backing_buf old) mpp_buffer_put)
                 (sseq (when_some (s_decode_pool old) (\<lambda>p. ctx_upd (unref p)))
                 (sseq (ctx_do (frame_route_destroy route)) (sret True)))))))))"

text \<open>The failure branches, which differ in their log lines only.\<close>

definition reject_output :: "'m backend \<Rightarrow> nat option \<Rightarrow> addr \<Rightarrow> RKFrameRoute \<Rightarrow> ('m, bool) worker" where
  "reject_output e frame route r =
     sseq (when_some frame mpp_frame_deinit)
     (sseq (worker_complete e (r_surface r) (r_fence r) False)
     (sseq (ctx_do (frame_route_destroy route)) (sret True)))"

definition assign_routed :: "'m backend \<Rightarrow> mpp_frame \<Rightarrow> addr \<Rightarrow> RKFrameRoute \<Rightarrow> ('m, bool) worker" where
  "assign_routed e f route r =
     sseq (sync e)
     (sbind (ctx_get (\<lambda>c. w_surf c (r_surface r))) (\<lambda>s.
        if s_fence s \<noteq> r_fence r
        then sseq (ctx_do (frame_route_destroy route)) (sseq (mpp_frame_deinit (f_id f)) (sret True))
        else if f_errinfo f \<noteq> 0 \<or> f_discard f \<noteq> 0 then reject_output e (Some (f_id f)) route r
        else let g = frame_geometry_of f s
             in sbind (ctx_get (\<lambda>c. (w_pool c, external_buffer_matches_pool c (f_buffer f), output_start c f g)))
                  (\<lambda>(pool, index, out).
                sbind (output_convert e f g pool out) (\<lambda>out.
                sbind (output_stable e (r_surface r) (r_fence r) g out) (\<lambda>out.
                sbind (output_retain e pool index out) (\<lambda>out.
                sbind (output_pool pool out) (\<lambda>out.
                  if o_usable out then commit_output e f route r out
                  else reject_output e (o_frame out) route r)))))))"

definition assign_mpp_frame :: "'m backend \<Rightarrow> mpp_frame \<Rightarrow> ('m, bool) worker" where
  "assign_mpp_frame e f =
     (if f_info_change f
      then sbind (configure_external_group e f) (\<lambda>external.
           sbind (env_do (mpp_call e Call_Info_Change_Ready)) (\<lambda>_.
           sseq (mpp_frame_deinit (f_id f)) (sret False)))
      else sbind (ctx_do (take_route (f_pts f))) (\<lambda>route.
        case route of
          None \<Rightarrow> sseq (mpp_frame_deinit (f_id f)) (sret False)
        | Some p \<Rightarrow> sbind (ctx_do (route_payload p)) (\<lambda>r. assign_routed e f p r)))"

section \<open>Submitting jobs\<close>

definition decode_worker_stopping :: "'m backend \<Rightarrow> ('m, bool) worker" where
  "decode_worker_stopping e =
     sseq (sync e)
     (sbind (ctx_get (\<lambda>c. (w_stop c, w_drain c, w_deadline c))) (\<lambda>(stop, drain, deadline).
        if stop then sret True
        else if \<not> drain then sret False
        else sbind (env_do (monotonic_ns e)) (\<lambda>now. sret (now > deadline))))"

definition count_output :: "RKContext \<Rightarrow> RKContext" where
  "count_output c = (if w_outstanding c > 0 then c\<lparr>w_outstanding := w_outstanding c - 1\<rparr> else c)"

definition drain_output_frame :: "'m backend \<Rightarrow> ('m, bool) worker" where
  "drain_output_frame e =
     sbind (env_do (decode_get_frame e)) (\<lambda>got.
       case got of
         None \<Rightarrow> sret False
       | Some f \<Rightarrow>
           sseq (ctx_upd (release [Frame_Get (f_id f)]))
           (sseq (ctx_upd (\<lambda>c. if f_eos f then c\<lparr>w_saw_eos := True\<rparr> else c))
           (sbind (assign_mpp_frame e f) (\<lambda>consumed.
              sseq (swhen consumed (ctx_upd count_output)) (sret True)))))"

definition STARVED_TRIES :: nat where "STARVED_TRIES = 25"

fun put_loop :: "'m backend \<Rightarrow> mpp_packet \<Rightarrow> nat \<Rightarrow> nat \<Rightarrow> ('m, bool) worker" where
  "put_loop e pkt 0 starved = sret False"
| "put_loop e pkt (Suc tries) starved =
     sbind (decode_worker_stopping e) (\<lambda>stopping.
       if stopping then sret False
       else sbind (env_do (decode_put_packet e pkt)) (\<lambda>ok.
         if ok then sret True
         else sbind (drain_output_frame e) (\<lambda>drained.
           if drained then put_loop e pkt tries 0
           else if starved + 1 \<ge> STARVED_TRIES
           then sbind (grow_external_group e) (\<lambda>grown. if \<not> grown then sret False else put_loop e pkt tries 0)
           else put_loop e pkt tries (starved + 1))))"

definition put_packet_draining :: "'m backend \<Rightarrow> mpp_packet \<Rightarrow> ('m, bool) worker" where
  "put_packet_draining e pkt = put_loop e pkt 500 0"

definition drain_hevc_after_submit :: "'m backend \<Rightarrow> ('m, unit) worker" where
  "drain_hevc_after_submit e =
     sbind (ctx_get (\<lambda>c. w_coding c = CodingHEVC \<and> w_outstanding c > 0)) (\<lambda>b.
       swhen b (sbind (drain_output_frame e) (\<lambda>_. sret ())))"

definition submit_decode_packet :: "'m backend \<Rightarrow> u8 list \<Rightarrow> u64 \<Rightarrow> ('m, bool) worker" where
  "submit_decode_packet e data token =
     sbind (env_do (mpp_call e Call_Packet_Init)) (\<lambda>ok.
       if \<not> ok then sret False
       else put_packet_draining e \<lparr>k_data = data, k_pts = token, k_eos = False\<rparr>)"

text \<open>\<open>frame_route_create\<close> on the list of the context's codec.\<close>

definition create_token_route :: "'m backend \<Rightarrow> RKDecodeJob \<Rightarrow> ('m, addr option) worker" where
  "create_token_route e job =
     sbind (env_do (mpp_call e Call_Calloc)) (\<lambda>alloc_ok. ctx_do (\<lambda>c.
       case frame_route_create alloc_ok job (w_h264_routes c) (w_objs c) of
         None \<Rightarrow> Ok (None, c)
       | Some (p, l, objs) \<Rightarrow> Ok (Some p, c\<lparr>w_h264_routes := l, w_objs := objs\<rparr>)))"

definition create_generic_route :: "'m backend \<Rightarrow> RKDecodeJob \<Rightarrow> ('m, addr option) worker" where
  "create_generic_route e job =
     sbind (env_do (mpp_call e Call_Calloc)) (\<lambda>alloc_ok. ctx_do (\<lambda>c.
       case frame_route_create alloc_ok job (w_generic c) (w_objs c) of
         None \<Rightarrow> Ok (None, c)
       | Some (p, q, objs) \<Rightarrow> Ok (Some p, c\<lparr>w_generic := q, w_objs := objs\<rparr>)))"

definition add_route :: "(RKContext \<Rightarrow> addr \<Rightarrow> RKContext outcome) \<Rightarrow> addr \<Rightarrow> ('m, unit) worker" where
  "add_route add p = ctx_do (\<lambda>c. obind (add c p) (\<lambda>c. Ok ((), c)))"

definition count_submit :: "RKContext \<Rightarrow> RKContext" where
  "count_submit c = c\<lparr>w_outstanding := w_outstanding c + 1\<rparr>"

definition fail_job :: "'m backend \<Rightarrow> RKDecodeJob \<Rightarrow> ('m, unit) worker" where
  "fail_job e job = worker_complete e (j_surface job) (j_fence job) False"

definition find_paired :: "RKDecodeJob \<Rightarrow> ('m, addr option) worker" where
  "find_paired job = ctx_do (\<lambda>c. obind (h264_route_find_surface c (j_target job) (j_fence job)) (\<lambda>r. Ok (r, c)))"

text \<open>After a failed submission: take back the route, if draining has not consumed it.\<close>

definition token_submit_failed :: "'m backend \<Rightarrow> RKDecodeJob \<Rightarrow> bool \<Rightarrow> u64 \<Rightarrow> ('m, unit) worker" where
  "token_submit_failed e job new_route token =
     sbind (ctx_do (\<lambda>c. h264_route_take c token)) (\<lambda>failed.
       sseq (swhen (\<not> new_route \<and> failed \<noteq> None) (ctx_upd count_output))
       (sseq (when_some failed (\<lambda>p. ctx_do (\<lambda>c. obind (h264_route_destroy p c) (\<lambda>c. Ok ((), c)))))
       (fail_job e job)))"

text \<open>After an accepted submission: count the new route, or restore one that draining consumed.\<close>

definition token_submitted :: "'m backend \<Rightarrow> RKDecodeJob \<Rightarrow> bool \<Rightarrow> u64 \<Rightarrow> ('m, unit) worker" where
  "token_submitted e job new_route token =
     (if new_route then sseq (ctx_upd count_submit) (drain_hevc_after_submit e)
      else sbind (find_paired job) (\<lambda>found.
        case found of
          Some _ \<Rightarrow> sret ()
        | None \<Rightarrow>
            sbind (create_token_route e (job\<lparr>j_token := token\<rparr>)) (\<lambda>replacement.
              case replacement of
                None \<Rightarrow> fail_job e job
              | Some p \<Rightarrow> sseq (add_route h264_route_add p) (sseq (ctx_upd count_submit) (drain_hevc_after_submit e)))))"

definition submit_on_route :: "'m backend \<Rightarrow> RKDecodeJob \<Rightarrow> bool \<Rightarrow> addr \<Rightarrow> ('m, unit) worker" where
  "submit_on_route e job new_route p =
     sbind (ctx_do (\<lambda>c. obind (ll_get (w_h264_routes c) p) (\<lambda>(r, _). Ok (r_token r, c)))) (\<lambda>route_token.
     sbind (submit_decode_packet e (j_data job) route_token) (\<lambda>ok.
       if ok then token_submitted e job new_route route_token
       else token_submit_failed e job new_route route_token))"

definition submit_token_job :: "'m backend \<Rightarrow> RKDecodeJob \<Rightarrow> ('m, unit) worker" where
  "submit_token_job e job =
     sbind (ctx_get (\<lambda>c. w_coding c = CodingAVC \<and> j_h264_field job)) (\<lambda>paired_field.
     sbind (if paired_field then find_paired job else sret None) (\<lambda>route.
       case route of
         Some p \<Rightarrow> submit_on_route e job False p
       | None \<Rightarrow>
           sbind (create_token_route e job) (\<lambda>created.
             case created of
               None \<Rightarrow> fail_job e job
             | Some p \<Rightarrow> sseq (add_route h264_route_add p) (submit_on_route e job True p))))"

definition submit_generic :: "'m backend \<Rightarrow> RKDecodeJob \<Rightarrow> u8 list \<Rightarrow> addr \<Rightarrow> ('m, unit) worker" where
  "submit_generic e job data p =
     sseq (add_route generic_route_add p)
     (sbind (submit_decode_packet e data (j_token job)) (\<lambda>ok.
        if ok then sseq (ctx_upd count_submit) (drain_hevc_after_submit e)
        else sseq (ctx_do (\<lambda>c. obind (generic_route_remove c p) (\<lambda>c. Ok ((), c))))
             (sseq (ctx_do (\<lambda>c. obind (generic_route_destroy p c) (\<lambda>c. Ok ((), c))))
             (fail_job e job))))"

definition submit_hidden_job :: "'m backend \<Rightarrow> RKDecodeJob \<Rightarrow> ('m, unit) worker" where
  "submit_hidden_job e job =
     sbind (submit_decode_packet e (j_data job) (j_token job)) (\<lambda>ok.
       if \<not> ok then fail_job e job
       else if j_repeat_slot job \<ge> 8 then worker_complete e (j_surface job) (j_fence job) True
       else sbind (create_generic_route e job) (\<lambda>route.
            sbind (ctx_get (\<lambda>c. rk_vp9_make_show_existing (if w_profile2 c then 2 else 0) (j_repeat_slot job))) (\<lambda>packet.
              case (route, packet) of
                (Some p, Some repeat_data) \<Rightarrow> submit_generic e job [repeat_data] p
              | _ \<Rightarrow> sseq (when_some route (\<lambda>p. ctx_do (\<lambda>c. obind (generic_route_destroy p c) (\<lambda>c. Ok ((), c)))))
                       (fail_job e job))))"

definition submit_shown_job :: "'m backend \<Rightarrow> RKDecodeJob \<Rightarrow> ('m, unit) worker" where
  "submit_shown_job e job =
     sbind (create_generic_route e job) (\<lambda>route.
       case route of None \<Rightarrow> fail_job e job | Some p \<Rightarrow> submit_generic e job (j_data job) p)"

definition worker_submit_job :: "'m backend \<Rightarrow> RKDecodeJob \<Rightarrow> ('m, unit) worker" where
  "worker_submit_job e job =
     (if j_data job = [] then worker_complete e (j_surface job) (j_fence job) True
      else sbind (ctx_get codec_uses_token_routes) (\<lambda>token.
        if token then submit_token_job e job
        else if j_is_hidden job then submit_hidden_job e job
        else submit_shown_job e job))"

section \<open>The worker loop\<close>

definition worker_drain_one :: "'m backend \<Rightarrow> ('m, bool) worker" where
  "worker_drain_one e = drain_output_frame e"

fun eos_loop :: "'m backend \<Rightarrow> nat \<Rightarrow> ('m, unit) worker" where
  "eos_loop e 0 = sret ()"
| "eos_loop e (Suc tries) =
     sbind (env_do (decode_put_packet e \<lparr>k_data = [], k_pts = 0, k_eos = True\<rparr>)) (\<lambda>ok.
       if ok then sret ()
       else sbind (drain_output_frame e) (\<lambda>drained.
         if drained then eos_loop e tries
         else sbind (env_do (monotonic_ns e)) (\<lambda>now.
              sbind (ctx_get w_deadline) (\<lambda>deadline. if now > deadline then sret () else eos_loop e tries))))"

definition worker_signal_eos :: "'m backend \<Rightarrow> ('m, unit) worker" where
  "worker_signal_eos e = sbind (env_do (mpp_call e Call_Packet_Init)) (\<lambda>ok. swhen ok (eos_loop e 50))"

definition WORKER_DRAIN_TIMEOUT_NS :: int where "WORKER_DRAIN_TIMEOUT_NS = 1000000000"
definition WORKER_STALL_TIMEOUT_NS :: int where "WORKER_STALL_TIMEOUT_NS = 10000000000"

text \<open>The two loops over detached lists: every node is read, its surface failed, and the node freed.\<close>

fun fail_h264_routes :: "nat \<Rightarrow> addr option \<Rightarrow> RKContext \<Rightarrow> RKContext outcome" where
  "fail_h264_routes fuel None c = Ok c"
| "fail_h264_routes 0 (Some p) c = Fault"
| "fail_h264_routes (Suc fuel) (Some p) c =
     obind (ll_get (w_h264_routes c) p) (\<lambda>(r, n).
     obind (h264_route_destroy p (rk_mpp_dec_fail_surface (r_surface r) (r_fence r) c)) (\<lambda>c.
       fail_h264_routes fuel n c))"

fun fail_generic_routes :: "nat \<Rightarrow> addr option \<Rightarrow> RKContext \<Rightarrow> RKContext outcome" where
  "fail_generic_routes fuel None c = Ok c"
| "fail_generic_routes 0 (Some p) c = Fault"
| "fail_generic_routes (Suc fuel) (Some p) c =
     obind (ll_get (w_generic c) p) (\<lambda>(r, n).
     obind (generic_route_destroy p (rk_mpp_dec_fail_surface (r_surface r) (r_fence r) c)) (\<lambda>c.
       fail_generic_routes fuel n c))"

definition fail_pending_routes :: "RKContext \<Rightarrow> RKContext outcome" where
  "fail_pending_routes c =
     (let h = w_h264_routes c
      in obind (fail_h264_routes (ll_brk h) (ll_head h) (c\<lparr>w_h264_routes := h\<lparr>ll_head := None\<rparr>\<rparr>)) (\<lambda>c.
      let q = w_generic c
      in obind (fail_generic_routes (ll_brk q) (ll_head q) (c\<lparr>w_generic := q\<lparr>ll_head := None, lq_tail := None\<rparr>\<rparr>)) (\<lambda>c.
         Ok (c\<lparr>w_outstanding := 0\<rparr>))))"

record worker_locals =
  stalled_since_ns :: int
  signalled_eos :: bool

definition worker_idle :: "RKContext \<Rightarrow> bool" where
  "worker_idle c \<longleftrightarrow> \<not> w_stop c \<and> \<not> w_drain c \<and> ll_head (w_jobs c) = None \<and> w_outstanding c = 0"

definition worker_stall :: "'m backend \<Rightarrow> worker_locals \<Rightarrow> ('m, worker_locals) worker" where
  "worker_stall e v =
     sbind (env_do (monotonic_ns e)) (\<lambda>now.
       if stalled_since_ns v = 0 then sret (v\<lparr>stalled_since_ns := now\<rparr>)
       else if now - stalled_since_ns v > WORKER_STALL_TIMEOUT_NS
       then sseq (sync e) (sseq (ctx_do (\<lambda>c. obind (fail_pending_routes c) (\<lambda>c. Ok ((), c)))) (sret (v\<lparr>stalled_since_ns := 0\<rparr>)))
       else sret v)"

text \<open>The body of the loop below the locked section, with the job taken from the queue.\<close>

definition worker_body :: "'m backend \<Rightarrow> worker_locals \<Rightarrow> bool \<Rightarrow> RKDecodeJob option \<Rightarrow> ('m, worker_locals) worker" where
  "worker_body e v draining job =
     (let signal = draining \<and> job = None \<and> \<not> signalled_eos v;
          v = (if signal then v\<lparr>signalled_eos := True\<rparr> else v)
      in sseq (swhen signal (worker_signal_eos e))
         (case job of
            Some job \<Rightarrow> sseq (worker_submit_job e job)
              (sseq (ctx_upd (rk_mpp_dec_job_destroy job)) (sret (v\<lparr>stalled_since_ns := 0\<rparr>)))
          | None \<Rightarrow> sbind (worker_drain_one e) (\<lambda>drained.
              if drained then sret (v\<lparr>stalled_since_ns := 0\<rparr>)
              else sbind (ctx_get (\<lambda>c. w_outstanding c > 0 \<and> \<not> draining)) (\<lambda>stalling.
                if stalling then worker_stall e v else sret v))))"

text \<open>
  One round of the loop of \<open>rk_mpp_dec_worker_main\<close>: \<open>None\<close> when it leaves the loop. A round that
  finds nothing to do is a wake-up of the condition variable.
\<close>

definition worker_round :: "'m backend \<Rightarrow> worker_locals \<Rightarrow> ('m, worker_locals option) worker" where
  "worker_round e v =
     sseq (sync e)
     (sbind (ctx_get (\<lambda>c. c)) (\<lambda>c.
        if worker_idle c then sret (Some v)
        else if w_stop c then sret None
        else sbind (if w_drain c then sbind (env_do (monotonic_ns e)) (\<lambda>now. sret (now > w_deadline c)) else sret False) (\<lambda>expired.
          if w_drain c \<and> (expired \<or> w_saw_eos c \<or> (ll_head (w_jobs c) = None \<and> w_outstanding c = 0)) then sret None
          else sbind (ctx_do (\<lambda>c. obind (lq_get (w_jobs c)) (\<lambda>(job, q). Ok (job, c\<lparr>w_jobs := q\<rparr>)))) (\<lambda>job.
               sbind (worker_body e v (w_drain c) job) (\<lambda>v. sret (Some v))))))"

text \<open>The loop, for a number of rounds: \<open>None\<close> when it has ended, its local variables otherwise.\<close>

fun rk_mpp_dec_worker_main :: "'m backend \<Rightarrow> nat \<Rightarrow> worker_locals \<Rightarrow> ('m, worker_locals option) worker" where
  "rk_mpp_dec_worker_main e 0 v = sret (Some v)"
| "rk_mpp_dec_worker_main e (Suc rounds) v =
     sbind (worker_round e v) (\<lambda>next. case next of None \<Rightarrow> sret None | Some v \<Rightarrow> rk_mpp_dec_worker_main e rounds v)"

section \<open>Stopping\<close>

fun fail_jobs :: "nat \<Rightarrow> RKContext \<Rightarrow> RKContext outcome" where
  "fail_jobs 0 c = (if ll_head (w_jobs c) = None then Ok c else Fault)"
| "fail_jobs (Suc fuel) c =
     obind (lq_get (w_jobs c)) (\<lambda>(job, q).
       case job of
         None \<Rightarrow> Ok c
       | Some job \<Rightarrow> fail_jobs fuel (rk_mpp_dec_job_destroy job
           (rk_mpp_dec_fail_surface (j_surface job) (j_fence job) (c\<lparr>w_jobs := q\<rparr>))))"

definition stop_render :: "RKContext \<Rightarrow> RKContext" where
  "stop_render c =
     (let c' = c\<lparr>w_render := None, w_render_fence := 0\<rparr>
      in case w_render c of
           None \<Rightarrow> c'
         | Some (_, p) \<Rightarrow> unref p (rk_mpp_dec_fail_surface p (w_render_fence c) c'))"

text \<open>The part of \<open>rk_mpp_dec_stop\<close> behind \<open>pthread_join\<close>.\<close>

definition stop_joined :: "'m backend \<Rightarrow> ('m, bool) worker" where
  "stop_joined e =
     sseq (sync e)
     (sseq (ctx_upd (\<lambda>c. c\<lparr>w_stop := True\<rparr>))
     (sseq (ctx_do (\<lambda>c. obind (fail_jobs (ll_brk (w_jobs c)) c) (\<lambda>c. Ok ((), c))))
     (sseq (ctx_do (\<lambda>c. obind (fail_pending_routes c) (\<lambda>c. Ok ((), c))))
     (sseq (sync e)
     (sseq (ctx_upd stop_render)
     (sbind (env_do (mpp_call e Call_Reset)) (\<lambda>_. sret True)))))))"

text \<open>
  \<open>rk_mpp_dec_stop\<close> on a context with a worker. The result is false when the worker has not ended
  within the given rounds, that is, \<open>pthread_join\<close> has not returned.
\<close>

definition rk_mpp_dec_stop :: "'m backend \<Rightarrow> nat \<Rightarrow> worker_locals \<Rightarrow> ('m, bool) worker" where
  "rk_mpp_dec_stop e rounds v =
     sseq (sync e)
     (sbind (env_do (monotonic_ns e)) (\<lambda>now.
      sseq (ctx_upd (\<lambda>c. c\<lparr>w_deadline := now + WORKER_DRAIN_TIMEOUT_NS, w_drain := True\<rparr>))
      (sbind (rk_mpp_dec_worker_main e rounds v) (\<lambda>running.
         if running \<noteq> None then sret False else stop_joined e))))"

text \<open>
  A context as \<open>rk_CreateContext\<close> leaves it: zeroed, with empty lists. Its identifier is new, so no
  surface refers to it. Its life is a number of rounds of the worker, then the stop. The worker may
  also have seen the drain flag in the middle of a round and ended before the round was over.
\<close>

definition context_start ::
    "u32 \<Rightarrow> MppCodingType \<Rightarrow> bool \<Rightarrow> int \<Rightarrow> int \<Rightarrow> (addr \<Rightarrow> RKSurface) \<Rightarrow> (u32 \<Rightarrow> addr) \<Rightarrow> (u32 \<Rightarrow> bool) \<Rightarrow> obj_store \<Rightarrow> RKContext" where
  "context_start cid coding profile2 width height surf ptr live objs =
     \<lparr>w_id = cid, w_coding = coding, w_profile2 = profile2, w_width = width, w_height = height,
      w_surf = surf, w_ptr = ptr, w_live = live, w_objs = objs, w_jobs = lq_empty, w_h264_routes = ll_empty,
      w_generic = lq_empty, w_next_token = 0, w_accepted = 0, w_outstanding = 0, w_pool = None, w_stop = False,
      w_drain = False, w_deadline = 0, w_saw_eos = False, w_render = None, w_render_fence = 0,
      w_sequence_headers = None, w_log = []\<rparr>"

definition worker_start :: worker_locals where
  "worker_start = \<lparr>stalled_since_ns = 0, signalled_eos = False\<rparr>"

definition context_life :: "'m backend \<Rightarrow> nat \<Rightarrow> nat \<Rightarrow> ('m, bool) worker" where
  "context_life e before_stop rounds =
     sbind (rk_mpp_dec_worker_main e before_stop worker_start) (\<lambda>running.
       case running of None \<Rightarrow> stop_joined e | Some v \<Rightarrow> rk_mpp_dec_stop e rounds v)"

end
