(* ===== verification/Worker_Invariant.thy ===== *)
theory Worker_Invariant
  imports Decode_Worker
begin

text \<open>
  The decode worker keeps the invariant of the context, whatever MPP, the allocator, the clock
  and the other threads do: nothing dangling is touched, and every surface that is neither
  decoded nor failed has somebody responsible for it.
\<close>

section \<open>Triples over the context\<close>

abbreviation wruns :: "bool \<Rightarrow> (RKContext \<Rightarrow> bool) \<Rightarrow> ('m, 'a) worker \<Rightarrow> ('a \<Rightarrow> RKContext \<Rightarrow> bool) \<Rightarrow> bool" where
  "wruns E I f J \<equiv> runs E (\<lambda>s. I (fst s)) f (\<lambda>a s. J a (fst s))"

lemma w_env: "wruns E I (env_do f) (\<lambda>_. I)"
  by (auto simp: runs_def env_do_def Let_def split: prod.splits)

lemma w_get: "wruns E I (ctx_get f) (\<lambda>a c. I c \<and> a = f c)"
  by (auto simp: runs_def ctx_get_def)

lemma w_upd: "(\<And>c. I c \<Longrightarrow> J (f c)) \<Longrightarrow> wruns E I (ctx_upd f) (\<lambda>_. J)"
  by (auto simp: runs_def ctx_upd_def)

lemma w_do: "(\<And>c. I c \<Longrightarrow> \<exists>a c'. f c = Ok (a, c') \<and> J a c') \<Longrightarrow> wruns E I (ctx_do f) J"
  unfolding runs_def ctx_do_def by fastforce

lemma w_do_fault:
  "(\<And>c. I c \<Longrightarrow> (\<exists>a c'. f c = Ok (a, c') \<and> J a c') \<or> f c = Fault \<and> E) \<Longrightarrow> wruns E I (ctx_do f) J"
  unfolding runs_def ctx_do_def by fastforce

lemma w_sync: "(\<And>c as. I c \<Longrightarrow> \<exists>c'. app_run as c = Ok c' \<and> J c') \<Longrightarrow> wruns E I (sync e) (\<lambda>_. J)"
proof (rule runs_I)
  fix s :: "RKContext \<times> 'a"
  assume a: "\<And>c as. I c \<Longrightarrow> \<exists>c'. app_run as c = Ok c' \<and> J c'" and "I (fst s)"
  obtain "as" m where o: "others e (snd s) = (as, m)" by (cases "others e (snd s)")
  from a [OF \<open>I (fst s)\<close>, of "as"] obtain c' where "app_run as (fst s) = Ok c'" "J c'" by blast
  with o show "\<exists>a s'. sync e s = Ok (a, s') \<and> J (fst s')" by (cases s) (simp add: sync_def)
qed

lemma w_when_some:
  "(\<And>y. x = Some y \<Longrightarrow> wruns E I (f y) (\<lambda>_. I)) \<Longrightarrow> wruns E I (when_some x f) (\<lambda>_. I)"
  unfolding when_some_def by (auto intro!: runs_rules)

section \<open>The invariant\<close>

text \<open>
  The node store of a route list holds the linked nodes and the one, if any, that the running
  code has in hand.
\<close>

type_synonym hand = "(addr \<times> RKFrameRoute) option"

definition store_exact :: "(RKFrameRoute, 'z) ll_scheme \<Rightarrow> addr list \<Rightarrow> hand \<Rightarrow> bool" where
  "store_exact l ps hand \<longleftrightarrow>
     (case hand of
        None \<Rightarrow> dom (ll_cells l) = set ps
      | Some (p, r) \<Rightarrow> p \<notin> set ps \<and> dom (ll_cells l) = insert p (set ps) \<and> ll_val l p = r)"

definition routes_exact :: "hand \<Rightarrow> RKContext \<Rightarrow> bool" where
  "routes_exact hand c \<longleftrightarrow> (\<exists>ps gs. ll_wf (w_h264_routes c) ps \<and> lq_wf (w_generic c) gs \<and>
     store_exact (w_h264_routes c) ps (if codec_uses_token_routes c then hand else None) \<and>
     store_exact (w_generic c) gs (if codec_uses_token_routes c then None else hand))"

definition pool_wf :: "RKDecodePool \<Rightarrow> bool" where
  "pool_wf pool \<longleftrightarrow> p_count pool \<le> p_capacity pool \<and> p_capacity pool = EXTERNAL_POOL_MAX \<and>
     length (p_buffers pool) = p_capacity pool \<and> list_all (\<lambda>b. b \<noteq> None) (take (p_count pool) (p_buffers pool))"

definition pool_ok :: "RKContext \<Rightarrow> bool" where
  "pool_ok c \<longleftrightarrow> (case w_pool c of None \<Rightarrow> True | Some pool \<Rightarrow> pool_wf pool \<and> EXTERNAL_POOL_COUNT \<le> p_count pool)"

text \<open>
  What stays fixed during a call: whether the codec is one without tokens, the objects that
  surface handles name, and what is known about the nodes of the generic route queue.
\<close>

record fixed =
  fx_generic :: bool
  fx_ptr :: "u32 \<Rightarrow> addr"
  fx_node :: "addr \<Rightarrow> RKFrameRoute \<Rightarrow> bool"

definition fixed_ok :: "fixed \<Rightarrow> RKContext \<Rightarrow> bool" where
  "fixed_ok K c \<longleftrightarrow> (codec_uses_token_routes c \<longleftrightarrow> \<not> fx_generic K) \<and> w_ptr c = fx_ptr K \<and>
     (\<forall>p \<in> dom (ll_cells (w_generic c)). fx_node K p (ll_val (w_generic c) p))"

definition winv ::
    "fixed \<Rightarrow> (addr \<times> u64) set \<Rightarrow> (RKFrameRoute \<Rightarrow> bool) \<Rightarrow> u64 \<Rightarrow> hand \<Rightarrow> RKContext \<Rightarrow> bool" where
  "winv K H R hi hand c \<longleftrightarrow> ctx_inv c H R hi \<and> routes_exact hand c \<and> pool_ok c \<and> fixed_ok K c"

lemma exact_cong:
  assumes "w_coding c' = w_coding c" and "w_h264_routes c' = w_h264_routes c" and "w_generic c' = w_generic c"
  shows "codec_uses_token_routes c' = codec_uses_token_routes c" and "routes_exact hand c' = routes_exact hand c"
    and "w_ptr c' = w_ptr c \<Longrightarrow> fixed_ok K c' = fixed_ok K c"
  using assms by (simp_all add: codec_uses_token_routes_def routes_exact_def fixed_ok_def)

lemma winv_view:
  assumes "winv K H R hi hand c" and "worker_view c' = worker_view c" and "ctx_inv c' H' R' hi'"
  shows "winv K H' R' hi' hand c'"
  using assms exact_cong [of c' c] by (simp add: winv_def worker_view_def pool_ok_def)

lemma winv_sync: "wruns E (winv K H R hi hand) (sync e) (\<lambda>_. winv K H R hi hand)"
proof (rule w_sync)
  fix c "as" assume w: "winv K H R hi hand c"
  then have "ctx_inv c H R hi" by (simp add: winv_def)
  from app_run_inv [OF this, of "as"] obtain c' where "app_run as c = Ok c'" "ctx_inv c' H R hi" by blast
  with w show "\<exists>c'. app_run as c = Ok c' \<and> winv K H R hi hand c'"
    using winv_view app_run_worker by blast
qed

lemma winv_release [simp]: "winv K H R hi hand (release es c) = winv K H R hi hand c"
  by (auto simp: winv_def routes_exact_def codec_uses_token_routes_def pool_ok_def fixed_ok_def)

lemma winv_unref [simp]: "winv K H R hi hand (unref p c) = winv K H R hi hand c"
  by (auto simp: winv_def routes_exact_def codec_uses_token_routes_def pool_ok_def fixed_ok_def)

lemma ctx_inv_outstanding [simp]: "ctx_inv (c\<lparr>w_outstanding := n\<rparr>) H R hi = ctx_inv c H R hi"
  by (rule ctx_inv_cong) (simp_all add: same_view_def)

lemma ctx_inv_eos [simp]: "ctx_inv (c\<lparr>w_saw_eos := b\<rparr>) H R hi = ctx_inv c H R hi"
  by (rule ctx_inv_cong) (simp_all add: same_view_def)

lemma ctx_inv_pool [simp]: "ctx_inv (c\<lparr>w_pool := p\<rparr>) H R hi = ctx_inv c H R hi"
  by (rule ctx_inv_cong) (simp_all add: same_view_def)

lemma winv_fields [simp]:
  "winv K H R hi hand (c\<lparr>w_outstanding := n\<rparr>) = winv K H R hi hand c"
  "winv K H R hi hand (c\<lparr>w_saw_eos := b\<rparr>) = winv K H R hi hand c"
  "winv K H R hi hand (c\<lparr>w_objs := objs\<rparr>) = winv K H R hi hand c"
  by (auto simp: winv_def routes_exact_def codec_uses_token_routes_def pool_ok_def fixed_ok_def)

lemma winv_count [simp]:
  "winv K H R hi hand (count_output c) = winv K H R hi hand c"
  "winv K H R hi hand (count_submit c) = winv K H R hi hand c"
  by (simp_all add: count_output_def count_submit_def)

lemma winv_complete:
  "winv K (insert (p, f) H) R hi hand c \<Longrightarrow> winv K H R hi hand (complete_surface_ref p f b c)"
  by (rule winv_view, assumption) (auto intro: complete_inv simp: winv_def)

lemma winv_fail:
  "winv K (insert (p, f) H) R hi hand c \<Longrightarrow> winv K H R hi hand (rk_mpp_dec_fail_surface p f c)"
  by (rule winv_view, assumption) (auto intro: fail_inv simp: winv_def)

lemma winv_weaken: "winv K H R hi hand c \<Longrightarrow> H \<subseteq> H' \<Longrightarrow> winv K H' R hi hand c"
  by (auto simp: winv_def intro: ctx_inv_mono)

lemma winv_stale:
  assumes "winv K (insert (p, f) H) R hi hand c" and "s_fence (w_surf c p) \<noteq> f"
  shows "winv K H R hi hand c"
proof -
  have "ctx_inv c H R hi"
    by (rule ctx_inv_view [of c "insert (p, f) H"]) (use assms in \<open>auto simp: winv_def\<close>)
  with assms(1) show ?thesis by (simp add: winv_def)
qed

lemma winv_store:
  assumes "winv K (insert (p, f) H) R hi hand c" and "s_fence (w_surf c p) = f"
  shows "winv K H R hi hand (upd_surf p (store_output fr out) c)"
proof -
  have "ctx_inv (upd_surf p (store_output fr out) c) H R hi"
    by (rule ctx_inv_view [of c "insert (p, f) H"])
      (use assms in \<open>auto simp: winv_def waiting_def store_output_def split: if_splits\<close>)
  then show ?thesis by (rule winv_view [OF assms(1), rotated]) simp
qed

section \<open>Steps that keep the invariant\<close>

abbreviation keeps :: "bool \<Rightarrow> (RKContext \<Rightarrow> bool) \<Rightarrow> ('m, 'a) worker \<Rightarrow> bool" where
  "keeps E I f \<equiv> wruns E I f (\<lambda>_. I)"

lemma keeps_release: "(\<And>c. I (release es c) = I c) \<Longrightarrow> keeps E I (ctx_upd (release es))"
  by (rule w_upd) simp

lemma keeps_put: "keeps E (winv K H R hi hand) (mpp_buffer_put b)"
  unfolding mpp_buffer_put_def by (rule keeps_release) simp

lemma keeps_deinit: "keeps E (winv K H R hi hand) (mpp_frame_deinit f)"
  unfolding mpp_frame_deinit_def by (rule keeps_release) simp

lemma keeps_unref: "keeps E (winv K H R hi hand) (ctx_upd (unref p))"
  by (rule w_upd) simp

lemmas keeps_rules = keeps_put keeps_deinit keeps_unref w_env winv_sync

lemma complete_runs:
  "wruns E (winv K (insert (p, f) H) R hi hand) (worker_complete e p f b) (\<lambda>_. winv K H R hi hand)"
  unfolding worker_complete_def
  by (rule runs_seq [OF winv_sync]) (rule w_upd, rule winv_complete)

lemma complete_keeps: "keeps E (winv K H R hi hand) (worker_complete e p f b)"
  by (rule runs_pre [OF complete_runs]) (auto elim: winv_weaken)

section \<open>The pool\<close>

lemma pool_wf_set: "pool_wf pool \<Longrightarrow> p_count pool \<le> i \<Longrightarrow> pool_wf (set_buffer pool i b)"
  by (simp add: pool_wf_def set_buffer_def take_update_cancel)

lemma pool_wf_add:
  assumes "pool_wf pool" and "p_count pool < p_capacity pool" and "b \<noteq> None"
  shows "pool_wf ((set_buffer pool (p_count pool) b)\<lparr>p_count := p_count pool + 1\<rparr>)"
  using assms by (simp add: pool_wf_def set_buffer_def take_Suc_conv_app_nth take_update_cancel)

lemma commit_runs:
  assumes "\<And>es c. I (release es c) = I c" and "index < length (p_buffers pool)"
  shows "wruns E I (commit_pool_buffer e pool index)
    (\<lambda>r c. I c \<and> (\<exists>b. snd r = set_buffer pool index b \<and> (fst r \<longrightarrow> b \<noteq> None)))"
proof -
  have same: "\<exists>b. pool = set_buffer pool index b"
    by (rule exI [of _ "p_buffers pool ! index"]) (use assms(2) in \<open>simp add: set_buffer_def\<close>)
  have b: "keeps E I (if b_fd b < 0 then sret False else env_do (mpp_call e (Call_Commit b index)))" for b
    by (intro runs_rules w_env) simp_all
  have rel: "keeps E I (ctx_upd (release es))" for es by (rule keeps_release) (rule assms(1))
  have put: "keeps E I (mpp_buffer_put b)" for b unfolding mpp_buffer_put_def by (rule rel)
  have "\<not> length (p_buffers pool) \<le> index" using assms(2) by simp
  then show ?thesis
    unfolding commit_pool_buffer_def
    by (simp only: if_False, intro runs_bind [OF w_env] runs_case_option runs_seq [OF rel] runs_bind [OF b] runs_if
        runs_seq [OF put] runs_ret) (use same in auto)
qed

lemma commit_loop_runs:
  assumes "\<And>es c. I (release es c) = I c" and "pool_wf pool" and "p_count pool + n \<le> p_capacity pool"
  shows "wruns E I (commit_loop e n pool) (\<lambda>r c. I c \<and> (pool_wf (snd r) \<and> (fst r \<longrightarrow> p_count (snd r) = p_count pool + n)))"
  using assms(2,3)
proof (induction n arbitrary: pool)
  case 0
  then show ?case by (auto intro!: runs_ret)
next
  case (Suc n)
  have l: "p_count pool < length (p_buffers pool)" "p_count pool < p_capacity pool"
    using Suc.prems by (auto simp: pool_wf_def)
  show ?case
    unfolding commit_loop.simps
  proof (rule runs_bind_pure [OF commit_runs [OF assms(1) l(1)]], goal_cases)
    case (1 r)
    then obtain ok b where r: "r = (ok, set_buffer pool (p_count pool) b)" "ok \<longrightarrow> b \<noteq> None" by (cases r) auto
    let ?pool = "set_buffer pool (p_count pool) b"
    have f: "p_count ?pool = p_count pool" "p_capacity ?pool = p_capacity pool" by (simp_all add: set_buffer_def)
    show ?case
    proof (cases ok)
      case False
      with pool_wf_set [OF Suc.prems(1), of "p_count pool" b] show ?thesis by (auto simp: r(1) intro!: runs_ret)
    next
      case True
      with r(2) have n: "pool_wf (?pool\<lparr>p_count := p_count pool + 1\<rparr>)"
        using pool_wf_add [OF Suc.prems(1) l(2), of b] by auto
      from Suc.IH [OF n] Suc.prems(2) f True show ?thesis by (simp add: r(1))
    qed
  qed
qed

lemma grow_loop_runs:
  assumes "\<And>es c. I (release es c) = I c" and "pool_wf (pool\<lparr>p_count := i\<rparr>)" and "i + n \<le> p_capacity pool"
  shows "wruns E I (grow_loop e n i pool)
    (\<lambda>r c. I c \<and> (pool_wf ((snd r)\<lparr>p_count := i + fst r\<rparr>) \<and> p_count (snd r) = p_count pool))"
  using assms(2,3)
proof (induction n arbitrary: pool i)
  case 0
  then show ?case by (auto intro!: runs_ret)
next
  case (Suc n)
  have l: "i < length (p_buffers pool)" using Suc.prems by (auto simp: pool_wf_def)
  show ?case
    unfolding grow_loop.simps
  proof (rule runs_bind_pure [OF commit_runs [OF assms(1) l]], goal_cases)
    case (1 r)
    then obtain ok b where r: "r = (ok, set_buffer pool i b)" "ok \<longrightarrow> b \<noteq> None" by (cases r) auto
    have s: "set_buffer (pool\<lparr>p_count := j\<rparr>) i b = (set_buffer pool i b)\<lparr>p_count := j\<rparr>" for j
      by (simp add: set_buffer_def)
    have f: "p_count (set_buffer pool i b) = p_count pool" "p_capacity (set_buffer pool i b) = p_capacity pool"
      by (simp_all add: set_buffer_def)
    show ?case
    proof (cases ok)
      case False
      with pool_wf_set [OF Suc.prems(1), of i b] s [of i] f show ?thesis by (auto simp: r(1) intro!: runs_ret)
    next
      case True
      with r(2) have n: "pool_wf ((set_buffer pool i b)\<lparr>p_count := i + 1\<rparr>)"
        using pool_wf_add [OF Suc.prems(1), of b] Suc.prems(2) s [of i] by simp
      have step: "wruns E I (grow_loop e n (i + 1) (set_buffer pool i b))
        (\<lambda>r c. I c \<and> (pool_wf ((snd r)\<lparr>p_count := i + 1 + fst r\<rparr>) \<and> p_count (snd r) = p_count pool))"
        using Suc.IH [OF n] Suc.prems(2) f by simp
      show ?thesis
        unfolding r(1) prod.case if_not_P [of "\<not> ok", unfolded not_not, OF True]
        by (rule runs_bind_pure [OF step]) (auto intro!: runs_ret)
    qed
  qed
qed

lemma winv_pool:
  assumes "winv K H R hi hand c" and "pool_wf pool" and "EXTERNAL_POOL_COUNT \<le> p_count pool"
  shows "winv K H R hi hand (c\<lparr>w_pool := Some pool\<rparr>)"
  using assms exact_cong [of "c\<lparr>w_pool := Some pool\<rparr>" c] by (simp add: winv_def pool_ok_def)

lemma grow_keeps: "keeps E (winv K H R hi hand) (grow_external_group e)"
proof -
  let ?I = "winv K H R hi hand"
  have body: "keeps E ?I (let target = min (p_count pool + EXTERNAL_POOL_GROW) (p_capacity pool)
      in sbind (grow_loop e (target - p_count pool) (p_count pool) pool) (\<lambda>(added, pool).
           sseq (ctx_upd (\<lambda>c. c\<lparr>w_pool := Some (pool\<lparr>p_count := p_count pool + added\<rparr>)\<rparr>)) (sret (added \<noteq> 0))))"
    if "pool_wf pool" "EXTERNAL_POOL_COUNT \<le> p_count pool" "\<not> p_capacity pool \<le> p_count pool" for pool
    unfolding Let_def
  proof (rule runs_bind_pure [OF grow_loop_runs [where I = ?I]], goal_cases)
    case (4 r)
    have "keeps E ?I (ctx_upd (\<lambda>c. c\<lparr>w_pool := Some ((snd r)\<lparr>p_count := p_count (snd r) + fst r\<rparr>)\<rparr>))"
      by (rule w_upd, erule winv_pool) (use 4 that(2) in simp_all)
    then show ?case by (cases r) (auto intro!: runs_seq runs_ret)
  qed (use that in auto)
  show ?thesis
    unfolding grow_external_group_def
  proof (rule runs_bind [OF w_get], goal_cases)
    case (1 p)
    show ?case
    proof (intro runs_case_option runs_if runs_ret, blast, blast)
      fix pool assume "p = Some pool" "\<not> p_capacity pool \<le> p_count pool"
      then show "wruns E (\<lambda>c. ?I c \<and> p = w_pool c) (let target = min (p_count pool + EXTERNAL_POOL_GROW) (p_capacity pool)
      in sbind (grow_loop e (target - p_count pool) (p_count pool) pool) (\<lambda>(added, pool).
           sseq (ctx_upd (\<lambda>c. c\<lparr>w_pool := Some (pool\<lparr>p_count := p_count pool + added\<rparr>)\<rparr>)) (sret (added \<noteq> 0)))) (\<lambda>_. ?I)"
        by (rule_tac runs_cond [where B = "pool_wf pool \<and> EXTERNAL_POOL_COUNT \<le> p_count pool"],
            force simp: winv_def pool_ok_def split: option.splits, rule_tac runs_pre [OF body]) simp_all
    qed
  qed
qed

lemma configure_keeps: "keeps E (winv K H R hi hand) (configure_external_group e f)"
proof -
  let ?I = "winv K H R hi hand"
  have fail: "keeps E ?I (configure_fail pool)" for pool
    unfolding configure_fail_def decode_pool_destroy_def
    by (intro runs_seq [OF keeps_unref] runs_seq [OF keeps_release] runs_ret) simp_all
  have start: "pool_wf ((fresh_pool p n)\<lparr>p_buffers := replicate (p_capacity (fresh_pool p n)) None\<rparr>)" for p n
    by (simp add: pool_wf_def fresh_pool_def)
  have loop: "wruns E ?I (commit_loop e EXTERNAL_POOL_COUNT ((fresh_pool p n)\<lparr>p_buffers := replicate (p_capacity (fresh_pool p n)) None\<rparr>))
      (\<lambda>r c. ?I c \<and> (pool_wf (snd r) \<and> (fst r \<longrightarrow> p_count (snd r) = EXTERNAL_POOL_COUNT)))" for p n
    using commit_loop_runs [where I = ?I and n = EXTERNAL_POOL_COUNT and e = e and E = E, OF _ start [of p n]]
    by (simp add: fresh_pool_def EXTERNAL_POOL_COUNT_def EXTERNAL_POOL_MAX_def)
  have init: "keeps E ?I (ctx_upd (\<lambda>c. c\<lparr>w_objs := rk_object_init p (w_objs c)\<rparr>))" for p
    by (rule w_upd) simp
  have commit: "keeps E ?I (ctx_upd (\<lambda>c. c\<lparr>w_pool := Some pool\<rparr>))"
    if "pool_wf pool" "p_count pool = EXTERNAL_POOL_COUNT" for pool
    using that by (intro w_upd winv_pool) simp_all
  have tail: "keeps E ?I (case r of (ok, pool) \<Rightarrow> if \<not> ok then configure_fail pool
      else sbind (env_do (mpp_call e Call_Ext_Buf_Group)) (\<lambda>ok. if \<not> ok then configure_fail pool
      else sseq (ctx_upd (\<lambda>c. c\<lparr>w_pool := Some pool\<rparr>)) (sret True)))"
    if "pool_wf (snd r) \<and> (fst r \<longrightarrow> p_count (snd r) = EXTERNAL_POOL_COUNT)" for r
    using that by (intro runs_case_prod runs_if fail runs_bind [OF w_env] runs_seq [OF commit] runs_ret) auto
  have new: "keeps E ?I (configure_new_pool e n)" for n
    unfolding configure_new_pool_def Let_def
    by (intro runs_bind [OF w_env] runs_case_option runs_if fail runs_seq [OF init] runs_bind_pure [OF loop] tail runs_ret)
  show ?thesis
    unfolding configure_external_group_def Let_def
  proof (intro runs_if runs_ret, assumption, rule runs_bind [OF w_get], rule runs_case_prod, rule runs_case_option, goal_cases)
    case (1 a p n)
    then show ?case by (rule_tac runs_pre [OF new]) simp
  next
    case (2 a p n pool)
    show ?case
    proof (rule runs_if, goal_cases)
      case 2
      then show ?case using \<open>p = Some pool\<close> \<open>a = (p, n)\<close>
        by (auto simp: runs_def sret_def winv_def pool_ok_def pool_wf_def list_all_iff split: list.splits option.splits)
          (auto simp: EXTERNAL_POOL_MAX_def neq0_conv take_Cons')
    qed (rule runs_ret, simp)
  qed
qed

section \<open>Routes\<close>

lemma uniform_subset: "uniform rs \<Longrightarrow> set rs' \<subseteq> set rs \<Longrightarrow> uniform rs'"
  unfolding uniform_def by blast

lemma uniform_Cons:
  "uniform rs \<Longrightarrow> (\<And>r. r \<in> set rs \<Longrightarrow> r_token r = r_token x \<Longrightarrow> route_pair r = route_pair x) \<Longrightarrow> uniform (x # rs)"
  unfolding uniform_def by (metis set_ConsD)

lemma accounted_swap:
  assumes "accounted c q H" and "w_surf c' = w_surf c" and "w_id c' = w_id c" and "holders c q \<union> H \<subseteq> holders c' q' \<union> H'"
  shows "accounted c' q' H'"
  using assms by (auto simp: accounted_def waiting_def)

lemma render_pairs_routes [simp]:
  "render_pairs (c\<lparr>w_h264_routes := l\<rparr>) = render_pairs c" "render_pairs (c\<lparr>w_generic := g\<rparr>) = render_pairs c"
  "render_pairs (c\<lparr>w_jobs := j\<rparr>) = render_pairs c"
  by (simp_all add: render_pairs_def split: option.splits)

lemma ctx_inv_h264_remove:
  assumes "ctx_inv c H R hi" and "ll_wf (w_h264_routes c) ps" and "ll_wf l ps'"
    and "set (ll_vals l ps') \<subseteq> set (ll_vals (w_h264_routes c) ps)"
    and "set (ll_vals (w_h264_routes c) ps) \<subseteq> set (ll_vals l ps') \<union> D"
  shows "ctx_inv (c\<lparr>w_h264_routes := l\<rparr>) (H \<union> route_pair ` D) R hi" (is "ctx_inv ?c _ _ _")
  using assms(1)
proof (rule ctx_invE)
  fix q assume q: "holds c q" "targets_ok c q" "few c \<Longrightarrow> accounted c q H" "few c \<Longrightarrow> tokens_ok c q R hi"
  let ?q = "q\<lparr>q_h264 := ll_vals l ps'\<rparr>"
  have r: "q_h264 q = ll_vals (w_h264_routes c) ps"
    using q(1) assms(2) ll_wf_unique by (auto simp: holds_def token_routes_def)
  have sub: "set (q_h264 ?q) \<subseteq> set (q_h264 q)" "route_pair ` set (q_h264 q) \<subseteq> route_pair ` set (q_h264 ?q) \<union> route_pair ` D"
    using assms(4,5) r by (auto 0 3)
  show ?thesis
  proof (rule ctx_invI [of _ ?q])
    show "holds ?c ?q" using q(1) assms(3) by (auto simp: holds_def token_routes_def generic_routes_def)
    show "targets_ok ?c ?q" using q(2) sub(1) by (auto simp: targets_ok_def list_all_iff split: option.splits)
    have "holders c q \<union> H \<subseteq> holders ?c ?q \<union> (H \<union> route_pair ` D)" using sub(2) by (auto simp: holders_def)
    then show "accounted ?c ?q (H \<union> route_pair ` D)" if "few ?c"
      by (rule accounted_swap [OF q(3), rotated 3]) (use that in \<open>simp_all add: few_def\<close>)
    show "tokens_ok ?c ?q R hi" if "few ?c"
    proof -
      have "tokens_ok c q R hi" by (rule q(4)) (use that in \<open>simp add: few_def\<close>)
      then show ?thesis using sub(1) uniform_subset [of "q_h264 q" "q_h264 ?q"] by (auto simp: tokens_ok_def list_all_iff)
    qed
  qed
qed

lemma ctx_inv_generic_remove:
  assumes "ctx_inv c H R hi" and "lq_wf (w_generic c) ps" and "lq_wf l ps'"
    and "set (ll_vals l ps') \<subseteq> set (ll_vals (w_generic c) ps)"
    and "set (ll_vals (w_generic c) ps) \<subseteq> set (ll_vals l ps') \<union> D"
  shows "ctx_inv (c\<lparr>w_generic := l\<rparr>) (H \<union> route_pair ` D) R hi" (is "ctx_inv ?c _ _ _")
  using assms(1)
proof (rule ctx_invE)
  fix q assume q: "holds c q" "targets_ok c q" "few c \<Longrightarrow> accounted c q H" "few c \<Longrightarrow> tokens_ok c q R hi"
  let ?q = "q\<lparr>q_generic := ll_vals l ps'\<rparr>"
  have r: "q_generic q = ll_vals (w_generic c) ps"
    using q(1) assms(2) ll_wf_unique by (auto simp: holds_def generic_routes_def lq_wf_def)
  have sub: "set (q_generic ?q) \<subseteq> set (q_generic q)" "route_pair ` set (q_generic q) \<subseteq> route_pair ` set (q_generic ?q) \<union> route_pair ` D"
    using assms(4,5) r by (auto 0 3)
  show ?thesis
  proof (rule ctx_invI [of _ ?q])
    show "holds ?c ?q" using q(1) assms(3) by (auto simp: holds_def token_routes_def generic_routes_def)
    show "targets_ok ?c ?q" using q(2) sub(1) by (auto simp: targets_ok_def list_all_iff split: option.splits)
    have "holders c q \<union> H \<subseteq> holders ?c ?q \<union> (H \<union> route_pair ` D)" using sub(2) by (auto simp: holders_def)
    then show "accounted ?c ?q (H \<union> route_pair ` D)" if "few ?c"
      by (rule accounted_swap [OF q(3), rotated 3]) (use that in \<open>simp_all add: few_def\<close>)
    show "tokens_ok ?c ?q R hi" if "few ?c"
    proof -
      have "tokens_ok c q R hi" by (rule q(4)) (use that in \<open>simp add: few_def\<close>)
      then show ?thesis by (simp add: tokens_ok_def)
    qed
  qed
qed

lemma find_split:
  assumes "find P ps = Some p"
  shows "P p" "p \<in> set ps" "ps = takeWhile (\<lambda>x. \<not> P x) ps @ p # tl (dropWhile (\<lambda>x. \<not> P x) ps)"
  using assms by (induction ps) (auto split: if_splits)

lemma find_none_split: "find P ps = None \<Longrightarrow> takeWhile (\<lambda>x. \<not> P x) ps @ tl (dropWhile (\<lambda>x. \<not> P x) ps) = ps"
  by (induction ps) (auto split: if_splits)

lemma few_routes [simp]: "few (c\<lparr>w_h264_routes := l\<rparr>) = few c"
  by (simp add: few_def)

lemma linked_R:
  assumes "ctx_inv c H R hi" and "ll_wf (w_h264_routes c) ps" and "p \<in> set ps" and "few c"
  shows "R (ll_val (w_h264_routes c) p)"
  using assms(1)
proof (rule ctx_invE)
  fix q assume q: "holds c q" "few c \<Longrightarrow> tokens_ok c q R hi"
  obtain qs where "ll_wf (w_h264_routes c) qs" "q_h264 q = ll_vals (w_h264_routes c) qs"
    using q(1) by (auto simp: holds_def token_routes_def)
  then have "ll_val (w_h264_routes c) p \<in> set (q_h264 q)"
    using assms(3) ll_wf_unique [OF assms(2)] by simp
  with q(2) [OF assms(4)] show ?thesis by (simp add: tokens_ok_def list_all_iff)
qed

lemma h264_take_winv:
  assumes "winv K H R hi None c" and "codec_uses_token_routes c"
  shows "\<exists>r c'. h264_route_take c token = Ok (r, c') \<and>
    (case r of None \<Rightarrow> winv K H R hi None c' | Some p \<Rightarrow> \<exists>x. winv K (insert (route_pair x) H) R hi (Some (p, x)) c' \<and>
       r_token x = token \<and> (few c' \<longrightarrow> R x))"
proof -
  let ?h = "w_h264_routes c" and ?P = "\<lambda>p. r_token (ll_val (w_h264_routes c) p) = token"
  obtain ps gs where ps: "ll_wf ?h ps" "dom (ll_cells ?h) = set ps" "lq_wf (w_generic c) gs" "dom (ll_cells (w_generic c)) = set gs"
    using assms by (auto simp: winv_def routes_exact_def store_exact_def)
  obtain l prev where l: "ll_unlink ?h (\<lambda>_ r. r_token r = token) (ll_brk ?h) None (ll_head ?h) =
        Ok (map_option (\<lambda>p. (p, prev)) (find ?P ps), l)" "same_nodes ?h l"
      "ll_wf l (takeWhile (\<lambda>p. \<not> ?P p) ps @ tl (dropWhile (\<lambda>p. \<not> ?P p) ps))"
    using ll_unlink_wf [OF ps(1), of "\<lambda>_ r. r_token r = token"] by blast
  let ?c = "c\<lparr>w_h264_routes := l\<rparr>"
  have v: "ll_val l = ll_val ?h" "dom (ll_cells l) = set ps" using l(2) same_nodes_val same_nodes_dom ps(2) by blast+
  have run: "h264_route_take c token = Ok (find ?P ps, ?c)"
    unfolding h264_route_take_def l(1) by (simp add: option.map_comp comp_def option.map_ident)
  have rest: "pool_ok ?c" "fixed_ok K ?c" "codec_uses_token_routes ?c"
    using assms by (simp_all add: winv_def pool_ok_def fixed_ok_def codec_uses_token_routes_def)
  have inv: "ctx_inv c H R hi" using assms(1) by (simp add: winv_def)
  show ?thesis
  proof (cases "find ?P ps")
    case None
    then have w: "ll_wf l ps" using l(3) find_none_split [of ?P ps] by simp
    have "ctx_inv ?c H R hi" using ctx_inv_h264_remove [OF inv ps(1) w, of "{}"] v by simp
    with rest w ps v run None show ?thesis
      by (auto simp: winv_def routes_exact_def store_exact_def)
  next
    case (Some p)
    note f = find_split [OF Some]
    let ?ps' = "takeWhile (\<lambda>p. \<not> ?P p) ps @ tl (dropWhile (\<lambda>p. \<not> ?P p) ps)"
    have s: "set ps = insert p (set ?ps')" using arg_cong [OF f(3), of set] by simp
    have d: "distinct ps" using ps(1) by (simp add: ll_wf_def)
    have n: "p \<notin> set ?ps'" using d by (subst (asm) f(3)) auto
    have "ctx_inv ?c (H \<union> route_pair ` {ll_val ?h p}) R hi"
      by (rule ctx_inv_h264_remove [OF inv ps(1) l(3)]) (use s v in auto)
    moreover have "few ?c \<longrightarrow> R (ll_val ?h p)" unfolding few_routes using linked_R [OF inv ps(1) f(2)] by blast
    moreover have "routes_exact (Some (p, ll_val ?h p)) ?c"
      unfolding routes_exact_def by (intro exI [of _ ?ps'] exI [of _ gs]) (use rest(3) l(3) ps v s n in \<open>simp add: store_exact_def\<close>)
    ultimately show ?thesis using run rest f(1) by (auto simp: Some winv_def)
  qed
qed

lemma generic_take_winv:
  assumes "winv K H R hi None c" and "\<not> codec_uses_token_routes c"
  shows "\<exists>r c'. generic_route_take c = Ok (r, c') \<and>
    (case r of None \<Rightarrow> winv K H R hi None c' | Some p \<Rightarrow> \<exists>x. winv K (insert (route_pair x) H) R hi (Some (p, x)) c')"
proof -
  let ?g = "w_generic c"
  obtain ps gs where ps: "ll_wf (w_h264_routes c) ps" "dom (ll_cells (w_h264_routes c)) = set ps"
      "lq_wf ?g gs" "dom (ll_cells ?g) = set gs"
    using assms by (auto simp: winv_def routes_exact_def store_exact_def)
  have inv: "ctx_inv c H R hi" using assms(1) by (simp add: winv_def)
  show ?thesis
  proof (cases gs)
    case Nil
    then have "generic_route_take c = Ok (None, c)" using ps(3) by (simp add: generic_route_take_def lq_pop_empty)
    with assms(1) show ?thesis by simp
  next
    case (Cons p gs')
    obtain l where l: "lq_pop ?g = Ok (Some p, l)" "lq_wf l gs'" "same_nodes ?g l"
      using lq_pop_wf ps(3) Cons by blast
    let ?c = "c\<lparr>w_generic := l\<rparr>"
    have v: "ll_val l = ll_val ?g" "dom (ll_cells l) = set gs" using l(3) same_nodes_val same_nodes_dom ps(4) by blast+
    have "ctx_inv ?c (H \<union> route_pair ` {ll_val ?g p}) R hi"
      by (rule ctx_inv_generic_remove [OF inv ps(3) l(2)]) (use Cons v in auto)
    moreover have "\<not> codec_uses_token_routes ?c" "p \<notin> set gs'"
      using assms(2) ps(3) Cons by (simp_all add: codec_uses_token_routes_def lq_wf_def ll_wf_def)
    then have "routes_exact (Some (p, ll_val ?g p)) ?c"
      unfolding routes_exact_def
      by (intro exI [of _ ps] exI [of _ gs']) (use l(2) ps(1,2) v Cons in \<open>simp add: store_exact_def\<close>)
    moreover have "pool_ok ?c" "fixed_ok K ?c"
      using assms v ps(4) by (auto simp: winv_def pool_ok_def fixed_ok_def codec_uses_token_routes_def)
    moreover have "generic_route_take c = Ok (Some p, ?c)" using l(1) by (simp add: generic_route_take_def)
    ultimately show ?thesis by (auto simp: winv_def)
  qed
qed

lemma take_route_runs:
  "wruns E (winv K H R hi None) (ctx_do (take_route pts))
    (\<lambda>r c. case r of None \<Rightarrow> winv K H R hi None c | Some p \<Rightarrow> \<exists>x. winv K (insert (route_pair x) H) R hi (Some (p, x)) c)"
proof (rule w_do)
  fix c assume w: "winv K H R hi None c"
  show "\<exists>r c'. take_route pts c = Ok (r, c') \<and>
    (case r of None \<Rightarrow> winv K H R hi None c' | Some p \<Rightarrow> \<exists>x. winv K (insert (route_pair x) H) R hi (Some (p, x)) c')"
  proof (cases "codec_uses_token_routes c")
    case True
    from h264_take_winv [OF w True, of pts] obtain r c' where "h264_route_take c pts = Ok (r, c')"
      "case r of None \<Rightarrow> winv K H R hi None c' | Some p \<Rightarrow> \<exists>x. winv K (insert (route_pair x) H) R hi (Some (p, x)) c' \<and>
         r_token x = pts \<and> (few c' \<longrightarrow> R x)" by blast
    with True show ?thesis by (cases r) (auto simp: take_route_def)
  next
    case False
    with generic_take_winv [OF w False] show ?thesis by (simp add: take_route_def)
  qed
qed

lemma winv_hand_node:
  assumes "winv K H R hi (Some (p, x)) c"
  shows "\<exists>n. (if codec_uses_token_routes c then ll_get (w_h264_routes c) p else ll_get (w_generic c) p) = Ok (x, n)"
  using assms by (force simp: winv_def routes_exact_def store_exact_def ll_get_def ll_val_def split: if_splits option.splits)

lemma payload_runs:
  "wruns E (\<lambda>c. \<exists>x. winv K (H x) R hi (Some (p, x)) c) (ctx_do (route_payload p)) (\<lambda>x. winv K (H x) R hi (Some (p, x)))"
proof (rule w_do)
  fix c assume "\<exists>x. winv K (H x) R hi (Some (p, x)) c"
  then obtain x where w: "winv K (H x) R hi (Some (p, x)) c" by blast
  from winv_hand_node [OF w] obtain n
    where "(if codec_uses_token_routes c then ll_get (w_h264_routes c) p else ll_get (w_generic c) p) = Ok (x, n)" by blast
  then have "route_payload p c = Ok (x, c)" by (simp add: route_payload_def)
  with w show "\<exists>x c'. route_payload p c = Ok (x, c') \<and> winv K (H x) R hi (Some (p, x)) c'" by blast
qed

lemma h264_destroy_winv:
  assumes "winv K H R hi (Some (p, x)) c" and "codec_uses_token_routes c"
  shows "\<exists>c'. h264_route_destroy p c = Ok c' \<and> winv K H R hi None c'"
proof -
  let ?h = "w_h264_routes c"
  obtain ps gs where ps: "ll_wf ?h ps" "p \<notin> set ps" "dom (ll_cells ?h) = insert p (set ps)"
      "lq_wf (w_generic c) gs" "dom (ll_cells (w_generic c)) = set gs"
    using assms by (auto simp: winv_def routes_exact_def store_exact_def)
  obtain l where l: "ll_free ?h p = Ok (ll_val ?h p, l)" "ll_wf l ps" "dom (ll_cells l) = set ps"
      "\<forall>q. q \<noteq> p \<longrightarrow> ll_val l q = ll_val ?h q"
    using ll_free_wf [OF ps(1) _ ps(2)] ps(2,3) by auto
  let ?c = "c\<lparr>w_h264_routes := l\<rparr>"
  have inv: "ctx_inv c H R hi" using assms(1) by (simp add: winv_def)
  have "ll_vals l ps = ll_vals ?h ps" using l(4) ps(2) by auto
  then have "ctx_inv ?c H R hi" using ctx_inv_h264_remove [OF inv ps(1) l(2), of "{}"] by simp
  moreover have "routes_exact None ?c"
    using l ps assms(2) by (auto simp: routes_exact_def store_exact_def)
  ultimately have "winv K H R hi None ?c"
    using assms by (auto simp: winv_def pool_ok_def fixed_ok_def codec_uses_token_routes_def)
  then show ?thesis by (simp add: h264_route_destroy_def l(1))
qed

lemma generic_destroy_winv:
  assumes "winv K H R hi (Some (p, x)) c" and "\<not> codec_uses_token_routes c"
  shows "\<exists>c'. generic_route_destroy p c = Ok c' \<and> winv K H R hi None c'"
proof -
  let ?g = "w_generic c"
  obtain ps gs where ps: "ll_wf (w_h264_routes c) ps" "dom (ll_cells (w_h264_routes c)) = set ps"
      "lq_wf ?g gs" "p \<notin> set gs" "dom (ll_cells ?g) = insert p (set gs)"
    using assms by (auto simp: winv_def routes_exact_def store_exact_def)
  have wf: "ll_wf ?g gs" using ps(3) by (simp add: lq_wf_def)
  obtain l where l: "ll_free ?g p = Ok (ll_val ?g p, l)" "ll_wf l gs" "dom (ll_cells l) = set gs"
      "\<forall>q. q \<noteq> p \<longrightarrow> ll_val l q = ll_val ?g q"
    using ll_free_wf [OF wf _ ps(4)] ps(4,5) by auto
  have "lq_tail l = lq_tail ?g" using l(1) by (auto simp: ll_free_def)
  then have lq: "lq_wf l gs" using l(2) ps(3) by (simp add: lq_wf_def)
  let ?c = "c\<lparr>w_generic := l\<rparr>"
  have inv: "ctx_inv c H R hi" using assms(1) by (simp add: winv_def)
  have v: "ll_vals l gs = ll_vals ?g gs" using l(4) ps(4) by auto
  then have "ctx_inv ?c H R hi" using ctx_inv_generic_remove [OF inv ps(3) lq, of "{}"] by simp
  moreover have "routes_exact None ?c"
    using l lq ps assms(2) by (auto simp: routes_exact_def store_exact_def codec_uses_token_routes_def)
  moreover have "fixed_ok K ?c"
    using assms(1) l(3,4) ps(4,5) by (auto simp: winv_def fixed_ok_def codec_uses_token_routes_def)
  ultimately have "winv K H R hi None ?c" using assms(1) by (auto simp: winv_def pool_ok_def)
  then show ?thesis by (simp add: generic_route_destroy_def l(1))
qed

lemma destroy_runs:
  "wruns E (winv K H R hi (Some (p, x))) (ctx_do (frame_route_destroy p)) (\<lambda>_. winv K H R hi None)"
proof (rule w_do)
  fix c assume w: "winv K H R hi (Some (p, x)) c"
  show "\<exists>a c'. frame_route_destroy p c = Ok (a, c') \<and> winv K H R hi None c'"
    using h264_destroy_winv [OF w] generic_destroy_winv [OF w]
    by (cases "codec_uses_token_routes c") (auto simp: frame_route_destroy_def)
qed

section \<open>Assigning an output frame\<close>

lemma keeps_log: "keeps E (winv K H R hi hand) (ctx_upd (release es))"
  by (rule keeps_release) simp

lemma keeps_when:
  "keeps E (winv K H R hi hand) (when_some x mpp_buffer_put)"
  "keeps E (winv K H R hi hand) (when_some x mpp_frame_deinit)"
  "keeps E (winv K H R hi hand) (when_some y (\<lambda>p. ctx_upd (unref p)))"
  by (intro w_when_some keeps_put keeps_deinit keeps_unref)+

lemma output_convert_keeps: "keeps E (winv K H R hi hand) (output_convert e f g pool out)"
  unfolding output_convert_def
  by (intro runs_if runs_ret runs_bind [OF w_env] runs_case_option runs_seq [OF keeps_log])

lemma output_stable_keeps: "keeps E (winv K H R hi hand) (output_stable e s fence g out)"
proof -
  have "keeps E (winv K H R hi hand) (case copy of
      Copy_Failed \<Rightarrow> sseq (when_some (o_backing out) mpp_buffer_put) (sret x)
    | Not_Stable \<Rightarrow> sret out
    | Copied hs vs \<Rightarrow> sseq (when_some (o_backing out) mpp_buffer_put)
        (sseq (when_some (o_stored out) mpp_frame_deinit) (sret (y hs vs))))" for copy x y
    by (cases copy) (auto intro!: runs_rules w_when_some keeps_put keeps_deinit)
  then show ?thesis unfolding output_stable_def by (intro runs_if runs_ret runs_bind [OF w_env])
qed

lemma output_retain_keeps: "keeps E (winv K H R hi hand) (output_retain e pool index out)"
  unfolding output_retain_def
  by (cases pool; cases index) (auto intro!: runs_rules w_env keeps_log)

lemma output_pool_keeps: "keeps E (winv K H R hi hand) (output_pool pool out)"
proof -
  have ref: "keeps E (winv K H R hi hand)
      (ctx_do (\<lambda>c. let (ok, objs) = rk_object_ref p (w_objs c) in Ok (ok, c\<lparr>w_objs := objs\<rparr>)))" for p
    by (rule w_do) (auto simp: Let_def split_beta)
  show ?thesis
    unfolding output_pool_def
    by (intro runs_if runs_ret runs_case_option runs_bind [OF ref] runs_seq [OF keeps_when(1)])
qed

lemma commit_output_runs:
  "wruns E (winv K (insert (route_pair r) H) R hi (Some (p, r))) (commit_output e f p r out) (\<lambda>_. winv K H R hi None)"
proof -
  let ?hand = "Some (p, r)"
  note put = keeps_when(1) and deinit = keeps_when(2) and un = keeps_when(3)
  have cond: "keeps E (winv K H R hi hand) (swhen b (when_some x mpp_frame_deinit))" for b x hand by (intro runs_when deinit)
  have stale: "wruns E (\<lambda>c. winv K (insert (route_pair r) H) R hi ?hand c \<and> old = w_surf c (r_surface r))
      (sseq (when_some (o_backing out) mpp_buffer_put) (sseq (when_some (o_pool out) (\<lambda>p. ctx_upd (unref p)))
        (sseq (ctx_do (frame_route_destroy p)) (sseq (when_some (o_frame out) mpp_frame_deinit) (sret True)))))
      (\<lambda>_. winv K H R hi None)" if "s_fence old \<noteq> r_fence r" for old
    by (rule runs_pre [where P = "\<lambda>s. winv K H R hi ?hand (fst s)"],
        intro runs_seq [OF put] runs_seq [OF un] runs_seq [OF destroy_runs] runs_seq [OF deinit] runs_ret)
      (use that in \<open>auto simp: route_pair_def elim!: winv_stale\<close>)
  have store: "wruns E (\<lambda>c. winv K (insert (route_pair r) H) R hi ?hand c \<and> old = w_surf c (r_surface r))
      (ctx_upd (upd_surf (r_surface r) (store_output f out))) (\<lambda>_. winv K H R hi ?hand)" if "\<not> s_fence old \<noteq> r_fence r" for old
    by (rule w_upd) (use that in \<open>auto simp: route_pair_def intro!: winv_store\<close>)
  show ?thesis
    unfolding commit_output_def Let_def
    by (intro runs_seq [OF winv_sync] runs_bind [OF w_get] runs_if stale runs_seq [OF store] runs_seq [OF deinit]
        runs_seq [OF cond] runs_seq [OF put] runs_seq [OF un] runs_seq [OF destroy_runs] runs_ret)
qed

lemma reject_output_runs:
  "wruns E (winv K (insert (route_pair r) H) R hi (Some (p, r))) (reject_output e fr p r) (\<lambda>_. winv K H R hi None)"
  unfolding reject_output_def route_pair_def
  by (intro runs_seq [OF keeps_when(2)] runs_seq [OF complete_runs] runs_seq [OF destroy_runs] runs_ret)

lemma assign_routed_runs:
  "wruns E (winv K (insert (route_pair r) H) R hi (Some (p, r))) (assign_routed e f p r) (\<lambda>_. winv K H R hi None)"
proof -
  let ?I = "winv K (insert (route_pair r) H) R hi (Some (p, r))"
  have stale: "wruns E (\<lambda>c. ?I c \<and> s = w_surf c (r_surface r))
      (sseq (ctx_do (frame_route_destroy p)) (sseq (mpp_frame_deinit (f_id f)) (sret True))) (\<lambda>_. winv K H R hi None)"
    if "s_fence s \<noteq> r_fence r" for s
    by (rule runs_pre [where P = "\<lambda>s. winv K H R hi (Some (p, r)) (fst s)"],
        intro runs_seq [OF destroy_runs] runs_seq [OF keeps_deinit] runs_ret)
      (use that in \<open>auto simp: route_pair_def elim!: winv_stale\<close>)
  have reject: "wruns E (\<lambda>c. ?I c \<and> s = w_surf c (r_surface r)) (reject_output e fr p r) (\<lambda>_. winv K H R hi None)" for s fr
    by (rule runs_pre [OF reject_output_runs]) simp
  have stages: "wruns E ?I
     (sbind (output_convert e f g pool out) (\<lambda>out.
      sbind (output_stable e (r_surface r) (r_fence r) g out) (\<lambda>out.
      sbind (output_retain e pool index out) (\<lambda>out.
      sbind (output_pool pool out) (\<lambda>out.
        if o_usable out then commit_output e f p r out else reject_output e (o_frame out) p r)))))
      (\<lambda>_. winv K H R hi None)" for g pool out index
    by (intro runs_bind [OF output_convert_keeps] runs_bind [OF output_stable_keeps] runs_bind [OF output_retain_keeps]
        runs_bind [OF output_pool_keeps] runs_if commit_output_runs reject_output_runs)
  show ?thesis
    unfolding assign_routed_def Let_def
    by (intro runs_seq [OF winv_sync] runs_bind [OF w_get] runs_if stale reject runs_case_prod runs_pre [OF stages]) auto
qed

lemma assign_keeps: "keeps E (winv K H R hi None) (assign_mpp_frame e f)"
  unfolding assign_mpp_frame_def
proof (intro runs_if, goal_cases)
  case 1
  show ?case
    by (intro runs_bind [OF configure_keeps] runs_bind [OF w_env] runs_seq [OF keeps_deinit] runs_ret)
next
  case 2
  show ?case
  proof (rule runs_bind [OF take_route_runs], intro runs_case_option, goal_cases)
    case (1 r)
    then show ?case by (auto intro!: runs_seq [OF keeps_deinit] runs_ret)
  next
    case (2 r p)
    then show ?case by (auto intro!: runs_bind [OF payload_runs] assign_routed_runs)
  qed
qed

section \<open>Submitting\<close>

lemma drain_keeps: "keeps E (winv K H R hi None) (drain_output_frame e)"
proof -
  have eos: "keeps E (winv K H R hi None) (ctx_upd (\<lambda>c. if b then c\<lparr>w_saw_eos := True\<rparr> else c))" for b
    by (rule w_upd) simp
  have cnt: "keeps E (winv K H R hi None) (swhen b (ctx_upd count_output))" for b
    by (intro runs_when w_upd) simp_all
  show ?thesis
    unfolding drain_output_frame_def
    by (intro runs_bind [OF w_env] runs_case_option runs_ret runs_seq [OF keeps_log] runs_seq [OF eos]
        runs_bind [OF assign_keeps] runs_seq [OF cnt])
qed

lemma stopping_keeps: "keeps E (winv K H R hi hand) (decode_worker_stopping e)"
  unfolding decode_worker_stopping_def
  by (intro runs_seq [OF winv_sync] runs_bind [OF runs_post [OF w_get, where Q' = "\<lambda>_ s. winv K H R hi hand (fst s)"]]
      runs_case_prod runs_if runs_ret runs_bind [OF w_env]) simp_all

lemma put_loop_keeps: "keeps E (winv K H R hi None) (put_loop e pkt n starved)"
proof (induction n arbitrary: starved)
  case (Suc n)
  show ?case
    unfolding put_loop.simps
    by (intro runs_bind [OF stopping_keeps] runs_if runs_ret runs_bind [OF w_env] runs_bind [OF drain_keeps]
        runs_bind [OF grow_keeps] Suc.IH)
qed (simp add: runs_ret)

lemma submit_packet_keeps: "keeps E (winv K H R hi None) (submit_decode_packet e data token)"
  unfolding submit_decode_packet_def put_packet_draining_def
  by (intro runs_bind [OF w_env] runs_if runs_ret put_loop_keeps)

lemma drain_hevc_keeps: "keeps E (winv K H R hi None) (drain_hevc_after_submit e)"
  unfolding drain_hevc_after_submit_def
  by (intro runs_bind [OF runs_post [OF w_get, where Q' = "\<lambda>_ s. winv K H R hi None (fst s)"]] runs_when
      runs_bind [OF drain_keeps] runs_ret) simp_all

lemma count_keeps: "keeps E (winv K H R hi hand) (ctx_upd count_submit)"
  by (rule w_upd) simp

lemma submitted_keeps: "keeps E (winv K H R hi None) (sseq (ctx_upd count_submit) (drain_hevc_after_submit e))"
  by (intro runs_seq [OF count_keeps] drain_hevc_keeps)

lemma fail_job_runs: "wruns E (winv K (insert (job_pair job) H) R hi hand) (fail_job e job) (\<lambda>_. winv K H R hi hand)"
  unfolding fail_job_def job_pair_def by (rule complete_runs)

lemma fail_job_keeps: "keeps E (winv K H R hi hand) (fail_job e job)"
  unfolding fail_job_def by (rule complete_keeps)

text \<open>Creating and linking routes.\<close>

definition route_of :: "RKDecodeJob \<Rightarrow> RKFrameRoute" where
  "route_of job = \<lparr>r_target = j_target job, r_surface = j_surface job, r_fence = j_fence job, r_token = j_token job\<rparr>"

lemma route_of_simps [simp]:
  "route_pair (route_of job) = job_pair job" "r_token (route_of job) = j_token job"
  "r_target (route_of job) = j_target job" "r_surface (route_of job) = j_surface job"
  by (simp_all add: route_of_def route_pair_def job_pair_def)

lemma route_create_cases:
  obtains "frame_route_create a job l objs = None"
  | p l' objs' where "frame_route_create a job l objs = Some (p, l', objs')" "ll_new l (route_of job) = (p, l')"
proof (cases "frame_route_create a job l objs")
  case (Some t)
  then show thesis
    using that(2) by (cases t) (auto simp: frame_route_create_def route_of_def Let_def split_beta split: if_splits)
qed (rule that(1))

lemma winv_new_h264:
  assumes "winv K H R hi None c" and "\<not> fx_generic K" and "ll_new (w_h264_routes c) x = (p, l)"
  shows "winv K H R hi (Some (p, x)) (c\<lparr>w_h264_routes := l, w_objs := objs\<rparr>)"
proof -
  have tok: "codec_uses_token_routes c" using assms(1,2) by (simp add: winv_def fixed_ok_def)
  obtain ps gs where ps: "ll_wf (w_h264_routes c) ps" "dom (ll_cells (w_h264_routes c)) = set ps"
      "lq_wf (w_generic c) gs" "dom (ll_cells (w_generic c)) = set gs"
    using assms(1) tok by (auto simp: winv_def routes_exact_def store_exact_def)
  note n = ll_new_wf [OF ps(1) assms(3)]
  have inv: "ctx_inv c H R hi" using assms(1) by (simp add: winv_def)
  have "ll_vals l ps = ll_vals (w_h264_routes c) ps" using n(6) by (intro map_cong refl n(5)) auto
  then have "ctx_inv (c\<lparr>w_h264_routes := l\<rparr>) H R hi" using ctx_inv_h264_remove [OF inv ps(1) n(1), of "{}"] by simp
  moreover have "routes_exact (Some (p, x)) (c\<lparr>w_h264_routes := l\<rparr>)"
    using tok n ps by (auto simp: routes_exact_def store_exact_def codec_uses_token_routes_def)
  ultimately have "winv K H R hi (Some (p, x)) (c\<lparr>w_h264_routes := l\<rparr>)"
    using assms(1) by (simp add: winv_def pool_ok_def fixed_ok_def codec_uses_token_routes_def)
  then show ?thesis by simp
qed

lemma winv_new_generic:
  assumes "winv K H R hi None c" and "fx_generic K" and "ll_new (w_generic c) x = (p, l)" and "fx_node K p x"
  shows "winv K H R hi (Some (p, x)) (c\<lparr>w_generic := l, w_objs := objs\<rparr>)"
proof -
  have tok: "\<not> codec_uses_token_routes c" using assms(1,2) by (simp add: winv_def fixed_ok_def)
  obtain ps gs where ps: "ll_wf (w_h264_routes c) ps" "dom (ll_cells (w_h264_routes c)) = set ps"
      "lq_wf (w_generic c) gs" "dom (ll_cells (w_generic c)) = set gs"
    using assms(1) tok by (auto simp: winv_def routes_exact_def store_exact_def)
  have wf: "ll_wf (w_generic c) gs" using ps(3) by (simp add: lq_wf_def)
  note n = ll_new_wf [OF wf assms(3)] and lq = lq_new_wf [OF ps(3) assms(3)]
  have inv: "ctx_inv c H R hi" using assms(1) by (simp add: winv_def)
  have v: "ll_vals l gs = ll_vals (w_generic c) gs" using n(6) by (intro map_cong refl n(5)) auto
  then have "ctx_inv (c\<lparr>w_generic := l\<rparr>) H R hi" using ctx_inv_generic_remove [OF inv ps(3) lq, of "{}"] by simp
  moreover have "routes_exact (Some (p, x)) (c\<lparr>w_generic := l\<rparr>)"
    using tok n lq ps by (auto simp: routes_exact_def store_exact_def codec_uses_token_routes_def)
  moreover have "fx_node K r (ll_val l r)" if "r \<in> dom (ll_cells l)" for r
    using that assms(1,4) n(3,4) n(5) [of r] by (cases "r = p") (simp_all add: winv_def fixed_ok_def)
  then have "fixed_ok K (c\<lparr>w_generic := l\<rparr>)"
    using assms(1) by (simp add: winv_def fixed_ok_def codec_uses_token_routes_def)
  ultimately have "winv K H R hi (Some (p, x)) (c\<lparr>w_generic := l\<rparr>)"
    using assms(1) by (simp add: winv_def pool_ok_def)
  then show ?thesis by simp
qed

lemma create_token_runs:
  assumes "\<not> fx_generic K"
  shows "wruns E (winv K H R hi None) (create_token_route e job)
    (\<lambda>r c. case r of None \<Rightarrow> winv K H R hi None c | Some p \<Rightarrow> winv K H R hi (Some (p, route_of job)) c)"
  unfolding create_token_route_def
proof (rule runs_bind [OF w_env], rule w_do, goal_cases)
  case (1 a c)
  then show ?case
    using winv_new_h264 [OF _ assms] by (cases rule: route_create_cases [of a job "w_h264_routes c" "w_objs c"]) auto
qed

lemma create_generic_runs:
  assumes "fx_generic K" and "\<And>p. fx_node K p (route_of job)"
  shows "wruns E (winv K H R hi None) (create_generic_route e job)
    (\<lambda>r c. case r of None \<Rightarrow> winv K H R hi None c | Some p \<Rightarrow> winv K H R hi (Some (p, route_of job)) c)"
  unfolding create_generic_route_def
proof (rule runs_bind [OF w_env], rule w_do, goal_cases)
  case (1 a c)
  then show ?case
    using winv_new_generic [OF _ assms(1) _ assms(2)]
    by (cases rule: route_create_cases [of a job "w_generic c" "w_objs c"]) auto
qed

definition linked :: "addr \<Rightarrow> RKFrameRoute \<Rightarrow> RKContext \<Rightarrow> bool" where
  "linked p x c \<longleftrightarrow> (\<exists>ps. ll_wf (w_h264_routes c) ps \<and> p \<in> set ps \<and> ll_val (w_h264_routes c) p = x)"

lemma ctx_inv_h264_push:
  assumes "ctx_inv c (insert (route_pair x) H) R hi" and "ll_wf (w_h264_routes c) ps" and "ll_wf l ps'"
    and "ll_vals l ps' = x # ll_vals (w_h264_routes c) ps" and "r_surface x = w_ptr c (r_target x)"
    and "\<And>r. R r \<Longrightarrow> R' r" and "R' x" and "\<And>r. R r \<Longrightarrow> r_token r = r_token x \<Longrightarrow> route_pair r = route_pair x"
  shows "ctx_inv (c\<lparr>w_h264_routes := l\<rparr>) H R' hi" (is "ctx_inv ?c _ _ _")
  using assms(1)
proof (rule ctx_invE)
  fix q assume q: "holds c q" "targets_ok c q" "few c \<Longrightarrow> accounted c q (insert (route_pair x) H)" "few c \<Longrightarrow> tokens_ok c q R hi"
  let ?q = "q\<lparr>q_h264 := x # q_h264 q\<rparr>"
  have r: "q_h264 q = ll_vals (w_h264_routes c) ps"
    using q(1) assms(2) ll_wf_unique by (auto simp: holds_def token_routes_def)
  show ?thesis
  proof (rule ctx_invI [of _ ?q])
    show "holds ?c ?q"
      using q(1) assms(3,4) r by (auto simp: holds_def token_routes_def generic_routes_def intro!: exI [of _ ps'])
    show "targets_ok ?c ?q" using q(2) assms(5) by (auto simp: targets_ok_def split: option.splits)
    have "holders c q \<union> insert (route_pair x) H \<subseteq> holders ?c ?q \<union> H" by (auto simp: holders_def)
    then show "accounted ?c ?q H" if "few ?c"
      by (rule accounted_swap [OF q(3), rotated 3]) (use that in \<open>simp_all add: few_def\<close>)
    show "tokens_ok ?c ?q R' hi" if "few ?c"
    proof -
      have t: "tokens_ok c q R hi" by (rule q(4)) (use that in \<open>simp add: few_def\<close>)
      then have "uniform (x # q_h264 q)" using assms(8) by (intro uniform_Cons) (auto simp: tokens_ok_def list_all_iff)
      then show ?thesis using t assms(6,7) by (auto simp: tokens_ok_def list_all_iff)
    qed
  qed
qed

lemma add_token_runs:
  assumes "\<not> fx_generic K" and "r_surface x = fx_ptr K (r_target x)"
    and "\<And>r. R r \<Longrightarrow> R' r" and "R' x" and "\<And>r. R r \<Longrightarrow> r_token r = r_token x \<Longrightarrow> route_pair r = route_pair x"
  shows "wruns E (winv K (insert (route_pair x) H) R hi (Some (p, x))) (add_route h264_route_add p)
    (\<lambda>_ c. winv K H R' hi None c \<and> linked p x c)"
  unfolding add_route_def
proof (rule w_do)
  fix c assume w: "winv K (insert (route_pair x) H) R hi (Some (p, x)) c"
  let ?h = "w_h264_routes c"
  have tok: "codec_uses_token_routes c" using w assms(1) by (simp add: winv_def fixed_ok_def)
  obtain ps gs where ps: "ll_wf ?h ps" "p \<notin> set ps" "dom (ll_cells ?h) = insert p (set ps)" "ll_val ?h p = x"
      "lq_wf (w_generic c) gs" "dom (ll_cells (w_generic c)) = set gs"
    using w tok by (auto simp: winv_def routes_exact_def store_exact_def)
  obtain l where l: "ll_push ?h p = Ok l" "ll_wf l (p # ps)" "same_nodes ?h l"
    using ll_push_wf [OF ps(1) _ ps(2)] ps(3) by auto
  have v: "ll_val l = ll_val ?h" "dom (ll_cells l) = insert p (set ps)"
    using same_nodes_val [OF l(3)] same_nodes_dom [OF l(3)] ps(3) by auto
  let ?c = "c\<lparr>w_h264_routes := l\<rparr>"
  have inv: "ctx_inv c (insert (route_pair x) H) R hi" using w by (simp add: winv_def)
  have "ctx_inv ?c H R' hi"
    by (rule ctx_inv_h264_push [OF inv ps(1) l(2)]) (use w v(1) ps(4) assms in \<open>auto simp: winv_def fixed_ok_def\<close>)
  moreover have "routes_exact None ?c"
    unfolding routes_exact_def
    by (intro exI [of _ "p # ps"] exI [of _ gs]) (use l(2) v(2) ps in \<open>simp add: store_exact_def\<close>)
  ultimately have "winv K H R' hi None ?c" "linked p x ?c"
    using w l(2) v(1) ps(4) by (auto simp: winv_def pool_ok_def fixed_ok_def codec_uses_token_routes_def linked_def)
  then show "\<exists>a c'. obind (h264_route_add c p) (\<lambda>c. Ok ((), c)) = Ok (a, c') \<and> winv K H R' hi None c' \<and> linked p x c'"
    by (simp add: h264_route_add_def l(1))
qed

lemma ctx_inv_generic_append:
  assumes "ctx_inv c (insert (route_pair x) H) R hi" and "lq_wf (w_generic c) ps" and "lq_wf l ps'"
    and "ll_vals l ps' = ll_vals (w_generic c) ps @ [x]" and "r_surface x = w_ptr c (r_target x)"
  shows "ctx_inv (c\<lparr>w_generic := l\<rparr>) H R hi" (is "ctx_inv ?c _ _ _")
  using assms(1)
proof (rule ctx_invE)
  fix q assume q: "holds c q" "targets_ok c q" "few c \<Longrightarrow> accounted c q (insert (route_pair x) H)" "few c \<Longrightarrow> tokens_ok c q R hi"
  let ?q = "q\<lparr>q_generic := q_generic q @ [x]\<rparr>"
  have r: "q_generic q = ll_vals (w_generic c) ps"
    using q(1) assms(2) ll_wf_unique by (auto simp: holds_def generic_routes_def lq_wf_def)
  show ?thesis
  proof (rule ctx_invI [of _ ?q])
    show "holds ?c ?q"
      using q(1) assms(3,4) r by (auto simp: holds_def token_routes_def generic_routes_def intro!: exI [of _ ps'])
    show "targets_ok ?c ?q" using q(2) assms(5) by (auto simp: targets_ok_def split: option.splits)
    have "holders c q \<union> insert (route_pair x) H \<subseteq> holders ?c ?q \<union> H" by (auto simp: holders_def)
    then show "accounted ?c ?q H" if "few ?c"
      by (rule accounted_swap [OF q(3), rotated 3]) (use that in \<open>simp_all add: few_def\<close>)
    show "tokens_ok ?c ?q R hi" if "few ?c"
    proof -
      have t: "tokens_ok c q R hi" by (rule q(4)) (use that in \<open>simp add: few_def\<close>)
      then show ?thesis by (simp add: tokens_ok_def)
    qed
  qed
qed

lemma add_generic_runs:
  assumes "fx_generic K" and "r_surface x = fx_ptr K (r_target x)"
  shows "wruns E (winv K (insert (route_pair x) H) R hi (Some (p, x))) (add_route generic_route_add p)
    (\<lambda>_. winv (K\<lparr>fx_node := \<lambda>q r. q = p \<longrightarrow> r = x\<rparr>) H R hi None)"
  unfolding add_route_def
proof (rule w_do)
  fix c assume w: "winv K (insert (route_pair x) H) R hi (Some (p, x)) c"
  let ?g = "w_generic c"
  have tok: "\<not> codec_uses_token_routes c" using w assms(1) by (simp add: winv_def fixed_ok_def)
  obtain ps gs where ps: "ll_wf (w_h264_routes c) ps" "dom (ll_cells (w_h264_routes c)) = set ps"
      "lq_wf ?g gs" "p \<notin> set gs" "dom (ll_cells ?g) = insert p (set gs)" "ll_val ?g p = x"
    using w tok by (auto simp: winv_def routes_exact_def store_exact_def)
  obtain l where l: "lq_append ?g p = Ok l" "lq_wf l (gs @ [p])" "same_nodes ?g l"
    using lq_append_wf [OF ps(3) _ ps(4)] ps(5) by auto
  have v: "ll_val l = ll_val ?g" "dom (ll_cells l) = insert p (set gs)"
    using same_nodes_val [OF l(3)] same_nodes_dom [OF l(3)] ps(5) by auto
  let ?c = "c\<lparr>w_generic := l\<rparr>" and ?K = "K\<lparr>fx_node := \<lambda>q r. q = p \<longrightarrow> r = x\<rparr>"
  have "ctx_inv ?c H R hi"
    by (rule ctx_inv_generic_append [OF _ ps(3) l(2)]) (use w v(1) ps(6) assms in \<open>auto simp: winv_def fixed_ok_def\<close>)
  moreover have "\<not> codec_uses_token_routes ?c" using tok by (simp add: codec_uses_token_routes_def)
  then have "routes_exact None ?c"
    unfolding routes_exact_def
    by (intro exI [of _ ps] exI [of _ "gs @ [p]"]) (use l(2) v(2) ps(1,2) in \<open>simp add: store_exact_def\<close>)
  moreover have "fixed_ok ?K ?c"
    using w v(1) ps(6) by (simp add: winv_def fixed_ok_def codec_uses_token_routes_def)
  ultimately have "winv ?K H R hi None ?c" using w by (simp add: winv_def pool_ok_def)
  then show "\<exists>a c'. obind (generic_route_add c p) (\<lambda>c. Ok ((), c)) = Ok (a, c') \<and> winv ?K H R hi None c'"
    by (simp add: generic_route_add_def l(1))
qed

section \<open>Jobs\<close>

lemma winv_R_mono:
  assumes "winv K H R hi hand c" and "\<And>r. R r \<Longrightarrow> R' r"
  shows "winv K H R' hi hand c"
  using assms unfolding winv_def ctx_inv_def tokens_ok_def list_all_iff by blast

lemma winv_not_few: "winv K H R hi hand c \<Longrightarrow> \<not> few c \<Longrightarrow> winv K H' R' hi' hand c"
  by (auto simp: winv_def ctx_inv_def)

lemma linked_target:
  assumes "winv K H R hi hand c" and "linked p x c"
  shows "r_surface x = fx_ptr K (r_target x)"
proof -
  from assms(1) obtain q where q: "holds c q" "targets_ok c q" by (auto simp: winv_def ctx_inv_def)
  have "x \<in> set (q_h264 q)"
    using q(1) assms(2) ll_wf_unique by (fastforce simp: linked_def holds_def token_routes_def)
  with q(2) assms(1) show ?thesis by (auto simp: targets_ok_def list_all_iff winv_def fixed_ok_def)
qed

lemma linked_shift:
  assumes "winv K (insert (route_pair x) H) R hi hand c" and "linked p x c" and "\<And>r. R r \<Longrightarrow> r_token r \<le> hi"
  shows "winv K H (\<lambda>r. r_token r \<le> max hi (r_token x) \<and> (r_token r = r_token x \<longrightarrow> route_pair r = route_pair x))
    (max hi (r_token x)) hand c"
proof -
  from assms(1) obtain q where q: "holds c q" "targets_ok c q"
      "few c \<Longrightarrow> accounted c q (insert (route_pair x) H)" "few c \<Longrightarrow> tokens_ok c q R hi"
    by (auto simp: winv_def ctx_inv_def)
  have x: "x \<in> set (q_h264 q)"
    using q(1) assms(2) ll_wf_unique by (fastforce simp: linked_def holds_def token_routes_def)
  let ?R = "\<lambda>r. r_token r \<le> max hi (r_token x) \<and> (r_token r = r_token x \<longrightarrow> route_pair r = route_pair x)"
  have a: "accounted c q H" if "few c"
    by (rule accounted_swap [OF q(3) [OF that]]) (use x in \<open>auto simp: holders_def\<close>)
  have t: "tokens_ok c q ?R (max hi (r_token x))" if "few c"
  proof -
    have t: "tokens_ok c q R hi" by (rule q(4) [OF that])
    then have "r_token x \<le> hi" using x assms(3) by (simp add: tokens_ok_def list_all_iff)
    then have "max hi (r_token x) = hi" by simp
    moreover have "\<forall>r \<in> set (q_h264 q). r_token r = r_token x \<longrightarrow> route_pair r = route_pair x"
      using t x unfolding tokens_ok_def uniform_def by blast
    ultimately show ?thesis using t assms(3) by (auto simp: tokens_ok_def list_all_iff)
  qed
  have "ctx_inv c H ?R (max hi (r_token x))" by (rule ctx_invI [OF q(1,2)]) (use a t in blast)+
  with assms(1) show ?thesis by (simp add: winv_def)
qed

lemma find_paired_runs:
  "wruns E (winv K H R hi hand) (find_paired job) (\<lambda>r c. winv K H R hi hand c \<and>
    (case r of None \<Rightarrow> True | Some p \<Rightarrow> \<exists>x. linked p x c \<and> r_target x = j_target job \<and> r_fence x = j_fence job))"
  unfolding find_paired_def
proof (rule w_do)
  fix c assume w: "winv K H R hi hand c"
  let ?h = "w_h264_routes c" and ?P = "\<lambda>r. r_target r = j_target job \<and> r_fence r = j_fence job"
  obtain ps where ps: "ll_wf ?h ps" using w by (auto simp: winv_def routes_exact_def)
  have f: "h264_route_find_surface c (j_target job) (j_fence job) = Ok (find (\<lambda>p. ?P (ll_val ?h p)) ps)"
    unfolding h264_route_find_surface_def by (rule ll_find_wf [OF ps])
  have l: "linked p (ll_val ?h p) c \<and> ?P (ll_val ?h p)" if "find (\<lambda>p. ?P (ll_val ?h p)) ps = Some p" for p
    using find_split(1,2) [OF that] ps unfolding linked_def by blast
  have "case find (\<lambda>p. ?P (ll_val ?h p)) ps of None \<Rightarrow> True
      | Some p \<Rightarrow> \<exists>x. linked p x c \<and> r_target x = j_target job \<and> r_fence x = j_fence job"
  proof (cases "find (\<lambda>p. ?P (ll_val ?h p)) ps")
    case (Some p)
    from l [OF Some] show ?thesis unfolding Some option.case by blast
  qed simp
  with w show "\<exists>r c'. obind (h264_route_find_surface c (j_target job) (j_fence job)) (\<lambda>r. Ok (r, c)) = Ok (r, c') \<and>
      winv K H R hi hand c' \<and>
      (case r of None \<Rightarrow> True | Some p \<Rightarrow> \<exists>x. linked p x c' \<and> r_target x = j_target job \<and> r_fence x = j_fence job)"
    unfolding f by simp
qed

lemma submit_failed_runs:
  assumes "\<not> fx_generic K" and "\<And>r. R r \<Longrightarrow> r_token r = tk \<Longrightarrow> route_pair r = job_pair job"
  shows "keeps E (winv K H R hi None) (token_submit_failed e job new tk)"
proof -
  let ?J = "\<lambda>r c. case r of None \<Rightarrow> winv K H R hi None c | Some p \<Rightarrow> \<exists>x. winv K (insert (job_pair job) H) R hi (Some (p, x)) c"
  have take: "wruns E (winv K H R hi None) (ctx_do (\<lambda>c. h264_route_take c tk)) ?J"
  proof (rule w_do)
    fix c assume w: "winv K H R hi None c"
    then have "codec_uses_token_routes c" using assms(1) by (simp add: winv_def fixed_ok_def)
    from h264_take_winv [OF w this, of tk] obtain r c' where r: "h264_route_take c tk = Ok (r, c')"
      "case r of None \<Rightarrow> winv K H R hi None c' | Some p \<Rightarrow> \<exists>x. winv K (insert (route_pair x) H) R hi (Some (p, x)) c' \<and>
         r_token x = tk \<and> (few c' \<longrightarrow> R x)" by blast
    moreover have "winv K (insert (job_pair job) H) R hi (Some (p, x)) c'"
      if "winv K (insert (route_pair x) H) R hi (Some (p, x)) c'" "r_token x = tk" "few c' \<longrightarrow> R x" for p x
      using that assms(2) winv_not_few by (cases "few c'") auto
    ultimately have "?J r c'" by (auto split: option.splits)
    with r(1) show "\<exists>r c'. h264_route_take c tk = Ok (r, c') \<and> ?J r c'" by blast
  qed
  have cnt: "wruns E (?J r) (swhen b (ctx_upd count_output)) (\<lambda>_. ?J r)" for r b
    by (intro runs_when w_upd) (auto split: option.splits)
  have destroy: "wruns E (?J r) (when_some r (\<lambda>p. ctx_do (\<lambda>c. obind (h264_route_destroy p c) (\<lambda>c. Ok ((), c)))))
      (\<lambda>_. winv K (insert (job_pair job) H) R hi None)" for r
  proof (cases r)
    case None
    then show ?thesis by (auto simp: when_some_def intro!: runs_ret elim: winv_weaken)
  next
    case (Some p)
    have "\<exists>a c'. obind (h264_route_destroy p c) (\<lambda>c. Ok ((), c)) = Ok (a, c') \<and> winv K (insert (job_pair job) H) R hi None c'"
      if "winv K (insert (job_pair job) H) R hi (Some (p, x)) c" for c x
      using h264_destroy_winv [OF that] that assms(1) by (auto simp: winv_def fixed_ok_def)
    then show ?thesis by (auto simp: Some when_some_def intro!: w_do)
  qed
  show ?thesis
    unfolding token_submit_failed_def
    by (intro runs_bind [OF take] runs_seq [OF cnt] runs_seq [OF destroy] fail_job_runs)
qed

definition tokens_upto :: "u64 \<Rightarrow> RKFrameRoute \<Rightarrow> bool" where
  "tokens_upto hi r \<longleftrightarrow> r_token r \<le> hi"

text \<open>The invariant between two rounds of the worker loop.\<close>

definition idle_inv :: "fixed \<Rightarrow> RKContext \<Rightarrow> bool" where
  "idle_inv K c \<longleftrightarrow> (\<exists>hi. winv K {} (tokens_upto hi) hi None c)"

text \<open>What is known about the routes while a job with token \<open>tk\<close> is being submitted.\<close>

definition job_routes :: "u64 \<Rightarrow> u64 \<Rightarrow> RKDecodeJob \<Rightarrow> RKFrameRoute \<Rightarrow> bool" where
  "job_routes hi tk job r \<longleftrightarrow> r_token r \<le> hi \<and> (r_token r = tk \<longrightarrow> route_pair r = job_pair job)"

lemma job_routes_idle: "winv K {} (job_routes hi tk job) hi None c \<Longrightarrow> idle_inv K c"
  unfolding idle_inv_def by (rule exI [of _ hi], erule winv_R_mono) (simp add: job_routes_def tokens_upto_def)

lemma submitted_runs:
  assumes "\<not> fx_generic K" and "j_surface job = fx_ptr K (j_target job)" and "tk \<le> hi"
  shows "keeps E (winv K {} (job_routes hi tk job) hi None) (token_submitted e job new tk)"
proof -
  let ?I = "winv K {} (job_routes hi tk job) hi None" and ?x = "route_of (job\<lparr>j_token := tk\<rparr>)"
  have pair: "job_pair (job\<lparr>j_token := tk\<rparr>) = job_pair job" by (simp add: job_pair_def)
  have add: "wruns E (winv K {} (job_routes hi tk job) hi (Some (p, ?x))) (add_route h264_route_add p) (\<lambda>_. ?I)" for p
    by (rule runs_conseq [OF add_token_runs [of K ?x "job_routes hi tk job" "job_routes hi tk job" E "{}" hi p]])
      (use assms pair in \<open>auto simp: job_routes_def elim: winv_weaken\<close>)
  have new: "keeps E ?I (sbind (create_token_route e (job\<lparr>j_token := tk\<rparr>)) (\<lambda>replacement.
      case replacement of None \<Rightarrow> fail_job e job
      | Some p \<Rightarrow> sseq (add_route h264_route_add p) (sseq (ctx_upd count_submit) (drain_hevc_after_submit e))))"
    by (rule runs_bind [OF create_token_runs [OF assms(1)]], intro runs_case_option)
      (auto intro!: fail_job_keeps runs_seq [OF add] submitted_keeps)
  have found: "keeps E ?I (find_paired job)" by (rule runs_post [OF find_paired_runs]) simp
  show ?thesis
    unfolding token_submitted_def
    by (intro runs_if submitted_keeps runs_bind [OF found] runs_case_option runs_ret new)
qed

lemma submit_on_route_runs:
  assumes "\<not> fx_generic K" and "j_surface job = fx_ptr K (j_target job)" and "r_token x \<le> hi"
  shows "wruns E (\<lambda>c. winv K {} (job_routes hi (r_token x) job) hi None c \<and> linked p x c)
    (submit_on_route e job new p) (\<lambda>_. idle_inv K)"
proof -
  let ?I = "winv K {} (job_routes hi (r_token x) job) hi None"
  have read: "wruns E (\<lambda>c. ?I c \<and> linked p x c)
      (ctx_do (\<lambda>c. obind (ll_get (w_h264_routes c) p) (\<lambda>(r, _). Ok (r_token r, c)))) (\<lambda>tk c. ?I c \<and> tk = r_token x)"
    by (rule w_do) (auto simp: linked_def dest!: ll_get_mem)
  have rest: "keeps E ?I (sbind (submit_decode_packet e (j_data job) (r_token x)) (\<lambda>ok.
      if ok then token_submitted e job new (r_token x) else token_submit_failed e job new (r_token x)))"
    by (intro runs_bind [OF submit_packet_keeps] runs_if submitted_runs [OF assms] submit_failed_runs [OF assms(1)])
      (simp add: job_routes_def)
  show ?thesis
    unfolding submit_on_route_def
    by (rule runs_bind_pure [OF read]) (auto intro!: runs_post [OF rest] elim: job_routes_idle)
qed

lemma submit_on_some_route:
  assumes "\<not> fx_generic K" and "j_surface job = fx_ptr K (j_target job)"
  shows "wruns E (\<lambda>c. \<exists>x hi. r_token x \<le> hi \<and> winv K {} (job_routes hi (r_token x) job) hi None c \<and> linked p x c)
    (submit_on_route e job new p) (\<lambda>_. idle_inv K)"
proof (intro runs_ex, goal_cases)
  case (1 x hi)
  show ?case
    by (rule runs_cond [where B = "r_token x \<le> hi"], simp, rule runs_pre [OF submit_on_route_runs [OF assms]]) auto
qed

definition before_job :: "fixed \<Rightarrow> RKDecodeJob \<Rightarrow> RKContext \<Rightarrow> bool" where
  "before_job K job = winv K {job_pair job} (\<lambda>r. r_token r < j_token job) (j_token job) None"

lemma winv_idle: "winv K {} (\<lambda>r. r_token r < hi) hi None c \<Longrightarrow> idle_inv K c"
  unfolding idle_inv_def by (rule exI [of _ hi], erule winv_R_mono) (simp add: tokens_upto_def)

lemma fail_before_job: "wruns E (before_job K job) (fail_job e job) (\<lambda>_. idle_inv K)"
  unfolding before_job_def by (rule runs_post [OF fail_job_runs]) (erule winv_idle)

lemma submit_token_job_runs:
  assumes "\<not> fx_generic K" and "j_surface job = fx_ptr K (j_target job)"
  shows "wruns E (before_job K job) (submit_token_job e job) (\<lambda>_. idle_inv K)"
proof -
  let ?tk = "j_token job" and ?x = "route_of job"
  have get: "keeps E (before_job K job) (ctx_get f)" for f :: "RKContext \<Rightarrow> 'x" by (rule runs_post [OF w_get]) simp
  have find: "wruns E (before_job K job) (if b then find_paired job else sret None)
      (\<lambda>r c. before_job K job c \<and> (case r of None \<Rightarrow> True | Some p \<Rightarrow> \<exists>x. linked p x c \<and> r_target x = j_target job \<and> r_fence x = j_fence job))" for b
    unfolding before_job_def by (intro runs_if find_paired_runs runs_ret) simp
  have paired: "wruns E (\<lambda>c. before_job K job c \<and> (\<exists>x. linked p x c \<and> r_target x = j_target job \<and> r_fence x = j_fence job))
      (submit_on_route e job False p) (\<lambda>_. idle_inv K)" for p
  proof (rule runs_pre [OF submit_on_some_route [OF assms]])
    fix s :: "RKContext \<times> 'a"
    let ?c = "fst s"
    assume "before_job K job ?c \<and> (\<exists>x. linked p x ?c \<and> r_target x = j_target job \<and> r_fence x = j_fence job)"
    then obtain x where w: "before_job K job ?c" and x: "linked p x ?c" "r_target x = j_target job" "r_fence x = j_fence job" by blast
    have "route_pair x = job_pair job"
      using linked_target [OF w [unfolded before_job_def] x(1)] x(2,3) assms(2) by (simp add: route_pair_def job_pair_def)
    with linked_shift [of K x "{}" "\<lambda>r. r_token r < ?tk" ?tk None ?c p] w x(1)
    have "winv K {} (job_routes (max ?tk (r_token x)) (r_token x) job) (max ?tk (r_token x)) None ?c"
      by (simp add: before_job_def job_routes_def [abs_def])
    with x(1) show "\<exists>x hi. r_token x \<le> hi \<and> winv K {} (job_routes hi (r_token x) job) hi None ?c \<and> linked p x ?c"
      by (intro exI [of _ x] exI [of _ "max ?tk (r_token x)"]) simp
  qed
  have add: "wruns E (winv K {job_pair job} (\<lambda>r. r_token r < ?tk) ?tk (Some (p, ?x))) (add_route h264_route_add p)
      (\<lambda>_ c. winv K {} (job_routes ?tk ?tk job) ?tk None c \<and> linked p ?x c)" for p
    using add_token_runs [of K ?x "\<lambda>r. r_token r < ?tk" "job_routes ?tk ?tk job" E "{}" ?tk p] assms
    by (auto simp: job_routes_def less_imp_le)
  have new: "wruns E (before_job K job) (sbind (create_token_route e job) (\<lambda>created. case created of
      None \<Rightarrow> fail_job e job
    | Some p \<Rightarrow> sseq (add_route h264_route_add p) (submit_on_route e job True p))) (\<lambda>_. idle_inv K)"
    unfolding before_job_def
    by (rule runs_bind [OF create_token_runs [OF assms(1)]], intro runs_case_option)
      (use submit_on_route_runs [OF assms, of ?x ?tk] fail_before_job in
        \<open>auto intro!: runs_seq [OF add] simp: before_job_def\<close>)
  show ?thesis
    unfolding submit_token_job_def
    by (intro runs_bind [OF get] runs_bind [OF find] runs_case_option)
      (auto intro!: runs_pre [OF new] runs_pre [OF paired])
qed

text \<open>The codecs without tokens. Here a route may be freed twice, so that faults are admitted.\<close>

lemma winv_forget: "winv (K\<lparr>fx_node := N\<rparr>) H R hi hand c \<Longrightarrow> fx_node K = (\<lambda>_ _. True) \<Longrightarrow> winv K H R hi hand c"
  by (simp add: winv_def fixed_ok_def)

lemma generic_remove_winv:
  assumes "winv K H R hi None c" and "fx_generic K"
  shows "\<exists>c'. generic_route_remove c p = Ok c' \<and>
    (winv K (insert (route_pair (ll_val (w_generic c) p)) H) R hi (Some (p, ll_val (w_generic c) p)) c' \<and>
       fx_node K p (ll_val (w_generic c) p)
     \<or> p \<notin> dom (ll_cells (w_generic c')))"
proof -
  let ?g = "w_generic c"
  have tok: "\<not> codec_uses_token_routes c" using assms by (simp add: winv_def fixed_ok_def)
  obtain ps gs where ps: "ll_wf (w_h264_routes c) ps" "dom (ll_cells (w_h264_routes c)) = set ps"
      "lq_wf ?g gs" "dom (ll_cells ?g) = set gs"
    using assms(1) tok by (auto simp: winv_def routes_exact_def store_exact_def)
  obtain l where l: "lq_remove ?g p = Ok l" "lq_wf l (remove1 p gs)" "same_nodes ?g l"
    using lq_remove_wf [OF ps(3), of p] by blast
  have v: "ll_val l = ll_val ?g" "dom (ll_cells l) = set gs" using l(3) same_nodes_val same_nodes_dom ps(4) by blast+
  let ?c = "c\<lparr>w_generic := l\<rparr>"
  have run: "generic_route_remove c p = Ok ?c" by (simp add: generic_route_remove_def l(1))
  show ?thesis
  proof (cases "p \<in> set gs")
    case False
    then have "p \<notin> dom (ll_cells (w_generic ?c))" using v(2) by simp
    with run show ?thesis by blast
  next
    case True
    have d: "distinct gs" using ps(3) by (simp add: lq_wf_def ll_wf_def)
    have inv: "ctx_inv c H R hi" using assms(1) by (simp add: winv_def)
    have "ctx_inv ?c (H \<union> route_pair ` {ll_val ?g p}) R hi"
      by (rule ctx_inv_generic_remove [OF inv ps(3) l(2)]) (use d v in \<open>auto simp: set_remove1_eq\<close>)
    moreover have "\<not> codec_uses_token_routes ?c" using tok by (simp add: codec_uses_token_routes_def)
    then have "routes_exact (Some (p, ll_val ?g p)) ?c"
      unfolding routes_exact_def
      by (intro exI [of _ ps] exI [of _ "remove1 p gs"])
        (use l(2) v ps(1,2) True d in \<open>simp add: store_exact_def set_remove1_eq insert_absorb\<close>)
    moreover have "fixed_ok K ?c" "fx_node K p (ll_val ?g p)"
      using assms(1) v ps(4) True by (auto simp: winv_def fixed_ok_def codec_uses_token_routes_def)
    ultimately have "winv K (insert (route_pair (ll_val ?g p)) H) R hi (Some (p, ll_val ?g p)) ?c"
      using assms(1) by (simp add: winv_def pool_ok_def)
    with run \<open>fx_node K p (ll_val ?g p)\<close> show ?thesis by blast
  qed
qed

lemma generic_destroy_fault: "p \<notin> dom (ll_cells (w_generic c)) \<Longrightarrow> generic_route_destroy p c = Fault"
  by (auto simp: generic_route_destroy_def ll_free_def ll_get_def split: option.splits)

lemma submit_generic_runs:
  assumes "fx_generic K" and "j_surface job = fx_ptr K (j_target job)" and "fx_node K = (\<lambda>_ _. True)"
  shows "wruns True (winv K {job_pair job} (\<lambda>r. r_token r < j_token job) (j_token job) (Some (p, route_of job)))
    (submit_generic e job data p) (\<lambda>_. idle_inv K)"
proof -
  let ?x = "route_of job" and ?R = "\<lambda>r. r_token r < j_token job" and ?hi = "j_token job"
  let ?K = "K\<lparr>fx_node := \<lambda>q r. q = p \<longrightarrow> r = ?x\<rparr>"
  have return: "idle_inv K c" if "winv ?K {} ?R ?hi None c" for c
    by (rule winv_idle [OF winv_forget [OF that assms(3)]])
  have add: "wruns True (winv K {job_pair job} ?R ?hi (Some (p, ?x))) (add_route generic_route_add p) (\<lambda>_. winv ?K {} ?R ?hi None)"
    using add_generic_runs [OF assms(1), of ?x True "{}" ?R ?hi p] assms(2) by simp
  let ?J = "\<lambda>c. winv ?K {job_pair job} ?R ?hi (Some (p, ?x)) c \<or> p \<notin> dom (ll_cells (w_generic c))"
  have remove: "wruns True (winv ?K {} ?R ?hi None) (ctx_do (\<lambda>c. obind (generic_route_remove c p) (\<lambda>c. Ok ((), c)))) (\<lambda>_. ?J)"
    by (rule w_do) (use generic_remove_winv [of ?K "{}" ?R ?hi _ p] assms(1) in force)
  have destroy: "wruns True ?J (ctx_do (\<lambda>c. obind (generic_route_destroy p c) (\<lambda>c. Ok ((), c)))) (\<lambda>_. winv ?K {job_pair job} ?R ?hi None)"
  proof (rule w_do_fault, elim disjE)
    fix c assume w: "winv ?K {job_pair job} ?R ?hi (Some (p, ?x)) c"
    then have "\<not> codec_uses_token_routes c" using assms(1) by (simp add: winv_def fixed_ok_def)
    from generic_destroy_winv [OF w this]
    show "(\<exists>a c'. obind (generic_route_destroy p c) (\<lambda>c. Ok ((), c)) = Ok (a, c') \<and> winv ?K {job_pair job} ?R ?hi None c') \<or>
        obind (generic_route_destroy p c) (\<lambda>c. Ok ((), c)) = Fault \<and> True" by auto
  qed (simp add: generic_destroy_fault)
  have ok: "wruns True (winv ?K {} ?R ?hi None) (sseq (ctx_upd count_submit) (drain_hevc_after_submit e)) (\<lambda>_. idle_inv K)"
    by (rule runs_post [OF submitted_keeps]) (erule return)
  have fail: "wruns True (winv ?K {job_pair job} ?R ?hi None) (fail_job e job) (\<lambda>_. idle_inv K)"
    by (rule runs_post [OF fail_job_runs]) (erule return)
  show ?thesis
    unfolding submit_generic_def
    by (intro runs_seq [OF add] runs_bind [OF submit_packet_keeps] runs_if ok runs_seq [OF remove] runs_seq [OF destroy] fail)
qed

lemma complete_before_job: "wruns E (before_job K job) (worker_complete e (j_surface job) (j_fence job) b) (\<lambda>_. idle_inv K)"
  unfolding before_job_def job_pair_def by (rule runs_post [OF complete_runs]) (erule winv_idle)

lemma create_before_job:
  assumes "fx_generic K" and "fx_node K = (\<lambda>_ _. True)"
  shows "wruns E (before_job K job) (create_generic_route e job) (\<lambda>r c. case r of None \<Rightarrow> before_job K job c
    | Some p \<Rightarrow> winv K {job_pair job} (\<lambda>r. r_token r < j_token job) (j_token job) (Some (p, route_of job)) c)"
  unfolding before_job_def by (rule create_generic_runs) (use assms in simp_all)

lemma submit_shown_runs:
  assumes "fx_generic K" and "j_surface job = fx_ptr K (j_target job)" and "fx_node K = (\<lambda>_ _. True)"
  shows "wruns True (before_job K job) (submit_shown_job e job) (\<lambda>_. idle_inv K)"
  unfolding submit_shown_job_def
  by (rule runs_bind [OF create_before_job [OF assms(1,3)]], intro runs_case_option)
    (auto intro!: fail_before_job submit_generic_runs assms)

lemma submit_hidden_runs:
  assumes "fx_generic K" and "j_surface job = fx_ptr K (j_target job)" and "fx_node K = (\<lambda>_ _. True)"
  shows "wruns True (before_job K job) (submit_hidden_job e job) (\<lambda>_. idle_inv K)"
proof -
  let ?H = "\<lambda>p. winv K {job_pair job} (\<lambda>r. r_token r < j_token job) (j_token job) (Some (p, route_of job))"
  let ?J = "\<lambda>r c. case r of None \<Rightarrow> before_job K job c | Some p \<Rightarrow> ?H p c"
  have packet: "keeps True (before_job K job) (submit_decode_packet e data tk)" for data tk
    unfolding before_job_def by (rule submit_packet_keeps)
  have get: "wruns True (?J r) (ctx_get f) (\<lambda>_. ?J r)" for r and f :: "RKContext \<Rightarrow> u8 option"
    by (rule runs_post [OF w_get]) simp
  have destroy: "wruns True (?J r) (when_some r (\<lambda>p. ctx_do (\<lambda>c. obind (generic_route_destroy p c) (\<lambda>c. Ok ((), c)))))
      (\<lambda>_. before_job K job)" for r
  proof (cases r)
    case (Some p)
    have "\<exists>a c'. obind (generic_route_destroy p c) (\<lambda>c. Ok ((), c)) = Ok (a, c') \<and> before_job K job c'" if "?H p c" for c
      using generic_destroy_winv [OF that] that assms(1) by (auto simp: winv_def fixed_ok_def before_job_def)
    then show ?thesis by (auto simp: Some when_some_def intro!: w_do)
  qed (auto simp: when_some_def intro!: runs_ret)
  have last: "wruns True (?J r) (case (r, packet) of
      (Some p, Some repeat_data) \<Rightarrow> submit_generic e job [repeat_data] p
    | _ \<Rightarrow> sseq (when_some r (\<lambda>p. ctx_do (\<lambda>c. obind (generic_route_destroy p c) (\<lambda>c. Ok ((), c))))) (fail_job e job))
      (\<lambda>_. idle_inv K)" for r packet
    using runs_seq [OF destroy [of r] fail_before_job [where e = e]] submit_generic_runs [OF assms, where e = e]
    by (cases r; cases packet) simp_all
  show ?thesis
    unfolding submit_hidden_job_def
    by (intro runs_bind [OF packet] runs_if fail_before_job complete_before_job
        runs_bind [OF create_before_job [OF assms(1,3)]] runs_bind [OF get] last)
qed

lemma worker_submit_runs:
  assumes "j_surface job = fx_ptr K (j_target job)" and "fx_node K = (\<lambda>_ _. True)"
  shows "wruns (fx_generic K) (before_job K job) (worker_submit_job e job) (\<lambda>_. idle_inv K)"
proof -
  have codec: "wruns (fx_generic K) (before_job K job) (ctx_get codec_uses_token_routes) (\<lambda>a c. before_job K job c \<and> a = (\<not> fx_generic K))"
    by (rule runs_post [OF w_get]) (auto simp: before_job_def winv_def fixed_ok_def)
  show ?thesis
    unfolding worker_submit_job_def
  proof (intro runs_if complete_before_job, rule runs_bind_pure [OF codec], goal_cases)
    case (1 token)
    then show ?case
      using submit_token_job_runs [OF _ assms(1), where E = "fx_generic K"] submit_shown_runs [OF _ assms] submit_hidden_runs [OF _ assms]
      by (cases "fx_generic K") auto
  qed
qed

end
