(* ===== verification/Worker_Loop.thy ===== *)
theory Worker_Loop
  imports Worker_Invariant
begin

text \<open>
  The worker loop and the stop of a context: the invariant holds after every round, the stop
  leaves no surface waiting, and the drain at teardown ends.
\<close>

section \<open>Rounds\<close>

lemma runs_bind_dep:
  assumes "runs E P f (\<lambda>a s. Q a s \<and> B a)" and "\<And>a. B a \<Longrightarrow> runs E (Q a) (g a) R"
  shows "runs E P (sbind f g) R"
  by (rule runs_bind [OF assms(1)]) (use assms(2) in \<open>fastforce simp: runs_def\<close>)

lemma runs_at: "runs E P f Q \<Longrightarrow> P s \<Longrightarrow> case f s of Ok (a, s') \<Rightarrow> Q a s' | Fail \<Rightarrow> False | Fault \<Rightarrow> E"
  by (simp add: runs_def)

lemma idle_keeps:
  "(\<And>hi. keeps E (winv K {} (tokens_upto hi) hi None) f) \<Longrightarrow> keeps E (idle_inv K) f"
  unfolding idle_inv_def by (rule runs_ex, rule runs_post, assumption) blast

lemma pop_winv:
  assumes "idle_inv K c"
  shows "\<exists>r q. lq_get (w_jobs c) = Ok (r, q) \<and>
    (case r of None \<Rightarrow> idle_inv K (c\<lparr>w_jobs := q\<rparr>) \<and> lq_items (w_jobs c) []
     | Some job \<Rightarrow> before_job K job (c\<lparr>w_jobs := q\<rparr>) \<and> j_surface job = fx_ptr K (j_target job) \<and>
         (\<exists>js. lq_items (w_jobs c) (job # js) \<and> lq_items q js))"
proof -
  obtain hi where w: "winv K {} (tokens_upto hi) hi None c" using assms by (auto simp: idle_inv_def)
  then obtain q where q: "holds c q" "targets_ok c q" "few c \<Longrightarrow> accounted c q {}" "few c \<Longrightarrow> tokens_ok c q (tokens_upto hi) hi"
    by (auto simp: winv_def ctx_inv_def)
  have items: "lq_items (w_jobs c) (q_jobs q)" using q(1) by (simp add: holds_def)
  have move: "winv K H R h None (c\<lparr>w_jobs := jq\<rparr>)" if "ctx_inv (c\<lparr>w_jobs := jq\<rparr>) H R h" for jq H R h
    using w that exact_cong [of "c\<lparr>w_jobs := jq\<rparr>" c] by (simp add: winv_def pool_ok_def)
  have inv: "ctx_inv (c\<lparr>w_jobs := jq\<rparr>) H R h"
    if "lq_items jq js" "set js \<subseteq> set (q_jobs q)" "few c \<Longrightarrow> job_pair ` set (q_jobs q) \<subseteq> job_pair ` set js \<union> H"
      "few c \<Longrightarrow> tokens_ok c (q\<lparr>q_jobs := js\<rparr>) R h" for jq js H R h
  proof (rule ctx_invI [of _ "q\<lparr>q_jobs := js\<rparr>"])
    show "holds (c\<lparr>w_jobs := jq\<rparr>) (q\<lparr>q_jobs := js\<rparr>)"
      using q(1) that(1) by (simp add: holds_def token_routes_def generic_routes_def)
    show "targets_ok (c\<lparr>w_jobs := jq\<rparr>) (q\<lparr>q_jobs := js\<rparr>)"
      using q(2) that(2) by (auto simp: targets_ok_def list_all_iff split: option.splits)
    show "accounted (c\<lparr>w_jobs := jq\<rparr>) (q\<lparr>q_jobs := js\<rparr>) H" if f: "few (c\<lparr>w_jobs := jq\<rparr>)"
    proof -
      have f: "few c" using f by (simp add: few_def)
      show ?thesis
        by (rule accounted_swap [OF q(3) [OF f]]) (use \<open>few c \<Longrightarrow> _ \<subseteq> _\<close> [OF f] in \<open>auto simp: holders_def\<close>)
    qed
    show "tokens_ok (c\<lparr>w_jobs := jq\<rparr>) (q\<lparr>q_jobs := js\<rparr>) R h" if f: "few (c\<lparr>w_jobs := jq\<rparr>)"
      using \<open>few c \<Longrightarrow> tokens_ok c _ R h\<close> f by (simp add: few_def tokens_ok_def)
  qed
  show ?thesis
  proof (cases "q_jobs q")
    case Nil
    obtain jq where jq: "lq_get (w_jobs c) = Ok (None, jq)" "lq_items jq []"
      using route_fifo.get_none items Nil by metis
    have "ctx_inv (c\<lparr>w_jobs := jq\<rparr>) {} (tokens_upto hi) hi"
      by (rule inv [OF jq(2)]) (use q(4) Nil in \<open>simp_all add: tokens_ok_def\<close>)
    then have "idle_inv K (c\<lparr>w_jobs := jq\<rparr>)" unfolding idle_inv_def using move by blast
    with jq items Nil show ?thesis by auto
  next
    case (Cons job js)
    obtain jq where jq: "lq_get (w_jobs c) = Ok (Some job, jq)" "lq_items jq js"
      using lq_get_items items Cons by metis
    have "ctx_inv (c\<lparr>w_jobs := jq\<rparr>) {job_pair job} (\<lambda>r. r_token r < j_token job) (j_token job)"
    proof (rule inv [OF jq(2)])
      show "tokens_ok c (q\<lparr>q_jobs := js\<rparr>) (\<lambda>r. r_token r < j_token job) (j_token job)" if "few c"
        using q(4) [OF that] Cons by (auto simp: tokens_ok_def list_all_iff tokens_upto_def)
    qed (use Cons in auto)
    then have "before_job K job (c\<lparr>w_jobs := jq\<rparr>)" unfolding before_job_def by (rule move)
    moreover have "j_surface job = fx_ptr K (j_target job)"
      using q(2) Cons w by (simp add: targets_ok_def winv_def fixed_ok_def)
    ultimately show ?thesis using jq items Cons by auto
  qed
qed

lemma pop_runs:
  "wruns E (idle_inv K) (ctx_do (\<lambda>c. obind (lq_get (w_jobs c)) (\<lambda>(job, q). Ok (job, c\<lparr>w_jobs := q\<rparr>))))
    (\<lambda>r c. (case r of None \<Rightarrow> idle_inv K c | Some job \<Rightarrow> before_job K job c) \<and>
      (case r of None \<Rightarrow> True | Some job \<Rightarrow> j_surface job = fx_ptr K (j_target job)))"
proof (rule w_do, goal_cases)
  case (1 c)
  from pop_winv [OF this] obtain r q where r: "lq_get (w_jobs c) = Ok (r, q)"
    "case r of None \<Rightarrow> idle_inv K (c\<lparr>w_jobs := q\<rparr>) \<and> lq_items (w_jobs c) []
     | Some job \<Rightarrow> before_job K job (c\<lparr>w_jobs := q\<rparr>) \<and> j_surface job = fx_ptr K (j_target job) \<and>
         (\<exists>js. lq_items (w_jobs c) (job # js) \<and> lq_items q js)" by blast
  then show ?case by (cases r) auto
qed

lemma eos_loop_keeps: "keeps E (winv K H R hi None) (eos_loop e n)"
proof (induction n)
  case (Suc n)
  show ?case
    unfolding eos_loop.simps
    by (intro runs_bind [OF w_env] runs_if runs_ret runs_bind [OF drain_keeps] Suc.IH
        runs_bind [OF runs_post [OF w_get, where Q' = "\<lambda>_ s. winv K H R hi None (fst s)"]]) simp_all
qed (simp add: runs_ret)

lemma signal_eos_keeps: "keeps E (idle_inv K) (worker_signal_eos e)"
  unfolding worker_signal_eos_def
  by (intro idle_keeps runs_bind [OF w_env] runs_when eos_loop_keeps) simp

section \<open>Failing what is pending\<close>

text \<open>A list whose head was cleared while the nodes on the path \<open>ps\<close> are still allocated.\<close>

definition detached :: "(RKFrameRoute, 'z) ll_scheme \<Rightarrow> addr option \<Rightarrow> addr list \<Rightarrow> bool" where
  "detached l s ps \<longleftrightarrow> path (ll_cells l) s ps None \<and> distinct ps \<and> dom (ll_cells l) = set ps \<and> ll_head l = None \<and>
     dom (ll_cells l) \<subseteq> {..<ll_brk l}"

lemma detached_free:
  assumes "detached l (Some p) (p # ps)"
  shows "\<exists>n l'. ll_get l p = Ok (ll_val l p, n) \<and> ll_free l p = Ok (ll_val l p, l') \<and> detached l' n ps \<and>
    ll_vals l' ps = ll_vals l ps"
proof -
  obtain n where n: "ll_cells l p = Some (ll_val l p, n)" "path (ll_cells l) n ps None"
    using assms by (auto simp: detached_def ll_val_def)
  let ?l = "l\<lparr>ll_cells := (ll_cells l)(p := None)\<rparr>"
  have "ll_get l p = Ok (ll_val l p, n)" "ll_free l p = Ok (ll_val l p, ?l)"
    using n(1) by (simp_all add: ll_get_def ll_free_def)
  moreover have "detached ?l n ps" "ll_vals ?l ps = ll_vals l ps"
    using assms n(2) by (auto simp: detached_def ll_val_def)
  ultimately show ?thesis by blast
qed

lemma detached_wf: "detached l s ps \<Longrightarrow> ll_wf l []"
  by (auto simp: detached_def ll_wf_def)

definition rest_view :: "RKContext \<Rightarrow> _" where
  "rest_view c = (w_pool c, w_coding c, w_ptr c, w_jobs c, w_stop c, w_render c)"

lemma rest_view_simps [simp]:
  "rest_view (unref p c) = rest_view c" "rest_view (rk_mpp_dec_fail_surface p f c) = rest_view c"
  "rest_view (c\<lparr>w_h264_routes := h\<rparr>) = rest_view c" "rest_view (c\<lparr>w_generic := g\<rparr>) = rest_view c"
  by (auto simp: rest_view_def rk_mpp_dec_fail_surface_def)

lemma fail_surface_lists [simp]:
  "w_h264_routes (rk_mpp_dec_fail_surface p f c) = w_h264_routes c" "w_generic (rk_mpp_dec_fail_surface p f c) = w_generic c"
  by (simp_all add: rk_mpp_dec_fail_surface_def)

lemma fail_h264_loop:
  assumes "detached (w_h264_routes c) s ps" and "length ps \<le> fuel"
    and "ctx_inv c (H \<union> route_pair ` set (ll_vals (w_h264_routes c) ps)) R hi"
  shows "\<exists>c'. fail_h264_routes fuel s c = Ok c' \<and> ctx_inv c' H R hi \<and> detached (w_h264_routes c') None [] \<and>
    w_generic c' = w_generic c \<and> rest_view c' = rest_view c"
  using assms
proof (induction ps arbitrary: c s fuel)
  case Nil
  then show ?case by (auto simp: detached_def)
next
  case (Cons p ps)
  let ?h = "w_h264_routes c" and ?x = "ll_val (w_h264_routes c) p"
  have s: "s = Some p" using Cons.prems(1) by (simp add: detached_def)
  obtain f where f: "fuel = Suc f" "length ps \<le> f" using Cons.prems(2) by (cases fuel) auto
  obtain n l where l: "ll_get ?h p = Ok (?x, n)" "ll_free ?h p = Ok (?x, l)" "detached l n ps" "ll_vals l ps = ll_vals ?h ps"
    using detached_free Cons.prems(1) s by blast
  let ?c1 = "rk_mpp_dec_fail_surface (r_surface ?x) (r_fence ?x) c"
  let ?c2 = "unref (r_surface ?x) (?c1\<lparr>w_h264_routes := l\<rparr>)"
  have "ctx_inv ?c1 (H \<union> route_pair ` set (ll_vals ?h ps)) R hi"
    by (rule fail_inv) (use Cons.prems(3) in \<open>simp add: route_pair_def\<close>)
  then have "ctx_inv ?c2 (H \<union> route_pair ` set (ll_vals l ps)) R hi"
    using ctx_inv_h264_remove [of ?c1 _ R hi "[]" l "[]" "{}"] detached_wf [OF Cons.prems(1)] detached_wf [OF l(3)] l(4) by simp
  then obtain c' where c': "fail_h264_routes f n ?c2 = Ok c'" "ctx_inv c' H R hi" "detached (w_h264_routes c') None []"
      "w_generic c' = w_generic ?c2" "rest_view c' = rest_view ?c2"
    using Cons.IH [of ?c2 n f] l(3) f(2) by auto
  have "fail_h264_routes fuel s c = Ok c'"
    unfolding f(1) s fail_h264_routes.simps l(1) obind.simps prod.case h264_route_destroy_def fail_surface_lists l(2) c'(1) ..
  with c' show ?case by simp
qed

lemma fail_generic_loop:
  assumes "detached (w_generic c) s ps" and "length ps \<le> fuel" and "lq_tail (w_generic c) = None"
    and "ctx_inv c (H \<union> route_pair ` set (ll_vals (w_generic c) ps)) R hi"
  shows "\<exists>c'. fail_generic_routes fuel s c = Ok c' \<and> ctx_inv c' H R hi \<and> detached (w_generic c') None [] \<and>
    lq_tail (w_generic c') = None \<and> w_h264_routes c' = w_h264_routes c \<and> rest_view c' = rest_view c"
  using assms
proof (induction ps arbitrary: c s fuel)
  case Nil
  then show ?case by (auto simp: detached_def)
next
  case (Cons p ps)
  let ?g = "w_generic c" and ?x = "ll_val (w_generic c) p"
  have s: "s = Some p" using Cons.prems(1) by (simp add: detached_def)
  obtain f where f: "fuel = Suc f" "length ps \<le> f" using Cons.prems(2) by (cases fuel) auto
  obtain n l where l: "ll_get ?g p = Ok (?x, n)" "ll_free ?g p = Ok (?x, l)" "detached l n ps" "ll_vals l ps = ll_vals ?g ps"
    using detached_free Cons.prems(1) s by blast
  have t: "lq_tail l = None" using l(2) Cons.prems(3) by (auto simp: ll_free_def)
  let ?c1 = "rk_mpp_dec_fail_surface (r_surface ?x) (r_fence ?x) c"
  let ?c2 = "unref (r_surface ?x) (?c1\<lparr>w_generic := l\<rparr>)"
  have "ctx_inv ?c1 (H \<union> route_pair ` set (ll_vals ?g ps)) R hi"
    by (rule fail_inv) (use Cons.prems(4) in \<open>simp add: route_pair_def\<close>)
  then have "ctx_inv ?c2 (H \<union> route_pair ` set (ll_vals l ps)) R hi"
    using ctx_inv_generic_remove [of ?c1 _ R hi "[]" l "[]" "{}"] detached_wf [OF Cons.prems(1)] detached_wf [OF l(3)] l(4)
      t Cons.prems(3) by (simp add: lq_wf_def)
  then obtain c' where c': "fail_generic_routes f n ?c2 = Ok c'" "ctx_inv c' H R hi" "detached (w_generic c') None []"
      "lq_tail (w_generic c') = None" "w_h264_routes c' = w_h264_routes ?c2" "rest_view c' = rest_view ?c2"
    using Cons.IH [of ?c2 n f] l(3) f(2) t by auto
  have "fail_generic_routes fuel s c = Ok c'"
    unfolding f(1) s fail_generic_routes.simps l(1) obind.simps prod.case generic_route_destroy_def fail_surface_lists l(2) c'(1) ..
  with c' show ?case by simp
qed

lemma detach_h264:
  assumes "ctx_inv c {} R hi" and "ll_wf (w_h264_routes c) ps" and "dom (ll_cells (w_h264_routes c)) = set ps"
  shows "\<exists>c'. fail_h264_routes (ll_brk (w_h264_routes c)) (ll_head (w_h264_routes c))
      (c\<lparr>w_h264_routes := (w_h264_routes c)\<lparr>ll_head := None\<rparr>\<rparr>) = Ok c' \<and>
    ctx_inv c' {} R hi \<and> detached (w_h264_routes c') None [] \<and> w_generic c' = w_generic c \<and> rest_view c' = rest_view c"
proof -
  let ?h = "w_h264_routes c"
  let ?l = "?h\<lparr>ll_head := None\<rparr>"
  have d: "detached ?l (ll_head ?h) ps" using assms(2,3) by (auto simp: detached_def ll_wf_def)
  have v: "ll_vals ?l ps = ll_vals ?h ps" by (simp add: ll_val_def)
  have "ctx_inv (c\<lparr>w_h264_routes := ?l\<rparr>) ({} \<union> route_pair ` set (ll_vals ?h ps)) R hi"
    by (rule ctx_inv_h264_remove [OF assms(1,2) detached_wf [OF d]]) auto
  from fail_h264_loop [of "c\<lparr>w_h264_routes := ?l\<rparr>" "ll_head ?h" ps "ll_brk ?h" "{}" R hi] this d v ll_wf_length [OF assms(2)]
  show ?thesis by simp
qed

lemma detach_generic:
  assumes "ctx_inv c {} R hi" and "lq_wf (w_generic c) ps" and "dom (ll_cells (w_generic c)) = set ps"
  shows "\<exists>c'. fail_generic_routes (ll_brk (w_generic c)) (ll_head (w_generic c))
      (c\<lparr>w_generic := (w_generic c)\<lparr>ll_head := None, lq_tail := None\<rparr>\<rparr>) = Ok c' \<and>
    ctx_inv c' {} R hi \<and> detached (w_generic c') None [] \<and> lq_tail (w_generic c') = None \<and>
    w_h264_routes c' = w_h264_routes c \<and> rest_view c' = rest_view c"
proof -
  let ?g = "w_generic c"
  let ?l = "?g\<lparr>ll_head := None, lq_tail := None\<rparr>"
  have wf: "ll_wf ?g ps" using assms(2) by (simp add: lq_wf_def)
  have d: "detached ?l (ll_head ?g) ps" using wf assms(3) by (auto simp: detached_def ll_wf_def)
  have v: "ll_vals ?l ps = ll_vals ?g ps" by (simp add: ll_val_def)
  have "lq_wf ?l []" using detached_wf [OF d] by (simp add: lq_wf_def)
  then have "ctx_inv (c\<lparr>w_generic := ?l\<rparr>) ({} \<union> route_pair ` set (ll_vals ?g ps)) R hi"
    by (rule ctx_inv_generic_remove [OF assms(1,2)]) auto
  from fail_generic_loop [of "c\<lparr>w_generic := ?l\<rparr>" "ll_head ?g" ps "ll_brk ?g" "{}" R hi] this d v ll_wf_length [OF wf]
  show ?thesis by simp
qed

definition no_routes :: "RKContext \<Rightarrow> bool" where
  "no_routes c \<longleftrightarrow> token_routes c [] \<and> generic_routes c []"

lemma fail_pending_winv:
  assumes "winv K {} R hi None c"
  shows "\<exists>c'. fail_pending_routes c = Ok c' \<and> winv K {} R hi None c' \<and> no_routes c' \<and> w_jobs c' = w_jobs c \<and> w_stop c' = w_stop c"
proof -
  have inv: "ctx_inv c {} R hi" using assms by (simp add: winv_def)
  obtain ps gs where ps: "ll_wf (w_h264_routes c) ps" "dom (ll_cells (w_h264_routes c)) = set ps"
      "lq_wf (w_generic c) gs" "dom (ll_cells (w_generic c)) = set gs"
    using assms by (auto simp: winv_def routes_exact_def store_exact_def)
  obtain c1 where c1: "fail_h264_routes (ll_brk (w_h264_routes c)) (ll_head (w_h264_routes c))
        (c\<lparr>w_h264_routes := (w_h264_routes c)\<lparr>ll_head := None\<rparr>\<rparr>) = Ok c1" "ctx_inv c1 {} R hi"
      "detached (w_h264_routes c1) None []" "w_generic c1 = w_generic c" "rest_view c1 = rest_view c"
    using detach_h264 [OF inv ps(1,2)] by blast
  obtain c2 where c2: "fail_generic_routes (ll_brk (w_generic c1)) (ll_head (w_generic c1))
        (c1\<lparr>w_generic := (w_generic c1)\<lparr>ll_head := None, lq_tail := None\<rparr>\<rparr>) = Ok c2" "ctx_inv c2 {} R hi"
      "detached (w_generic c2) None []" "lq_tail (w_generic c2) = None" "w_h264_routes c2 = w_h264_routes c1"
      "rest_view c2 = rest_view c1"
    using detach_generic [OF c1(2)] ps(3,4) c1(4) by metis
  let ?c = "c2\<lparr>w_outstanding := 0\<rparr>"
  have run: "fail_pending_routes c = Ok ?c"
    unfolding fail_pending_routes_def Let_def c1(1) obind.simps c2(1) ..
  have e: "ll_wf (w_h264_routes ?c) []" "lq_wf (w_generic ?c) []"
      "dom (ll_cells (w_h264_routes ?c)) = {}" "dom (ll_cells (w_generic ?c)) = {}"
    using detached_wf [OF c1(3)] detached_wf [OF c2(3)] c1(3) c2(3-5) by (simp_all add: lq_wf_def detached_def)
  have r: "w_pool ?c = w_pool c" "w_coding ?c = w_coding c" "w_ptr ?c = w_ptr c" "w_jobs ?c = w_jobs c" "w_stop ?c = w_stop c"
    using c1(5) c2(6) by (simp_all add: rest_view_def)
  have "routes_exact None ?c"
    unfolding routes_exact_def by (intro exI [of _ "[]"]) (use e in \<open>simp add: store_exact_def\<close>)
  then have "winv K {} R hi None ?c"
    using assms c2(2) e(4) r(1-3) by (simp add: winv_def pool_ok_def fixed_ok_def codec_uses_token_routes_def)
  moreover have "no_routes ?c" unfolding no_routes_def token_routes_def generic_routes_def using e(1,2) by force
  ultimately show ?thesis using run r(4,5) by blast
qed

lemma stall_keeps: "keeps E (idle_inv K) (worker_stall e v)"
proof (rule idle_keeps)
  fix hi
  have f: "keeps E (winv K {} (tokens_upto hi) hi None) (ctx_do (\<lambda>c. obind (fail_pending_routes c) (\<lambda>c. Ok ((), c))))"
  proof (rule w_do)
    fix c assume "winv K {} (tokens_upto hi) hi None c"
    from fail_pending_winv [OF this] obtain c' where "fail_pending_routes c = Ok c'" "winv K {} (tokens_upto hi) hi None c'" by blast
    then show "\<exists>a c'. obind (fail_pending_routes c) (\<lambda>c. Ok ((), c)) = Ok (a, c') \<and> winv K {} (tokens_upto hi) hi None c'" by simp
  qed
  show "keeps E (winv K {} (tokens_upto hi) hi None) (worker_stall e v)"
    unfolding worker_stall_def
    by (intro runs_bind [OF w_env] runs_if runs_ret runs_seq [OF winv_sync] runs_seq [OF f])
qed

lemma body_runs:
  assumes "fx_node K = (\<lambda>_ _. True)"
    and "case job of None \<Rightarrow> True | Some job \<Rightarrow> j_surface job = fx_ptr K (j_target job)"
  shows "wruns (fx_generic K) (\<lambda>c. case job of None \<Rightarrow> idle_inv K c | Some job \<Rightarrow> before_job K job c)
    (worker_body e v draining job) (\<lambda>_. idle_inv K)"
proof (cases job)
  case None
  have drain: "keeps (fx_generic K) (idle_inv K) (worker_drain_one e)"
    unfolding worker_drain_one_def by (intro idle_keeps drain_keeps)
  have get: "keeps (fx_generic K) (idle_inv K) (ctx_get f)" for f :: "RKContext \<Rightarrow> bool" by (rule runs_post [OF w_get]) simp
  have eos: "keeps (fx_generic K) (idle_inv K) (swhen b (worker_signal_eos e))" for b by (intro runs_when signal_eos_keeps)
  show ?thesis
    unfolding worker_body_def Let_def None option.case
    by (intro runs_seq [OF eos] runs_bind [OF drain] runs_if runs_ret runs_bind [OF get] stall_keeps)
next
  case (Some j)
  have "keeps (fx_generic K) (idle_inv K) (ctx_upd (rk_mpp_dec_job_destroy j))"
    by (rule w_upd) (simp add: rk_mpp_dec_job_destroy_def idle_inv_def)
  moreover have "wruns (fx_generic K) (before_job K j) (worker_submit_job e j) (\<lambda>_. idle_inv K)"
    by (rule worker_submit_runs) (use assms Some in simp_all)
  moreover have "keeps (fx_generic K) (before_job K j) (swhen False f)" for f :: "('a, unit) worker"
    by (rule runs_when) simp_all
  ultimately show ?thesis
    unfolding worker_body_def Let_def Some by (auto intro!: runs_seq runs_ret)
qed

lemma round_keeps:
  assumes "fx_node K = (\<lambda>_ _. True)"
  shows "keeps (fx_generic K) (idle_inv K) (worker_round e v)"
proof -
  have sync: "keeps (fx_generic K) (idle_inv K) (sync e)" by (intro idle_keeps winv_sync)
  have get: "keeps (fx_generic K) (idle_inv K) (ctx_get (\<lambda>c. c))" by (rule runs_post [OF w_get]) simp
  have clock: "keeps (fx_generic K) (idle_inv K)
      (if b then sbind (env_do (monotonic_ns e)) (\<lambda>now. sret (now > d)) else sret False)" for b d
    by (intro runs_if runs_bind [OF w_env] runs_ret)
  show ?thesis
    unfolding worker_round_def
    by (intro runs_seq [OF sync] runs_bind [OF get] runs_if runs_ret runs_bind [OF clock] runs_bind_dep [OF pop_runs]
        runs_bind [OF body_runs [OF assms]])
qed

lemma main_keeps:
  assumes "fx_node K = (\<lambda>_ _. True)"
  shows "keeps (fx_generic K) (idle_inv K) (rk_mpp_dec_worker_main e n v)"
proof (induction n arbitrary: v)
  case (Suc n)
  show ?case
    unfolding rk_mpp_dec_worker_main.simps by (intro runs_bind [OF round_keeps [OF assms]] runs_case_option runs_ret Suc.IH)
qed (simp add: runs_ret)

section \<open>Stopping\<close>

lemma lq_items_empty_head: "lq_items q [] \<Longrightarrow> ll_head q = None"
  by (auto simp: lq_items_def lq_wf_def ll_wf_def)

lemma lq_items_length: "lq_items q xs \<Longrightarrow> length xs \<le> ll_brk q"
  by (auto simp: lq_items_def lq_wf_def dest: ll_wf_length)

lemma lq_items_unique: "lq_items q xs \<Longrightarrow> lq_items q ys \<Longrightarrow> xs = ys"
  by (auto simp: lq_items_def lq_wf_def dest: ll_wf_unique)

lemma fail_jobs_inv:
  assumes "idle_inv K c" and "lq_items (w_jobs c) js" and "length js \<le> fuel"
  shows "\<exists>c'. fail_jobs fuel c = Ok c' \<and> idle_inv K c' \<and> lq_items (w_jobs c') [] \<and> w_stop c' = w_stop c"
  using assms
proof (induction fuel arbitrary: c js)
  case 0
  then show ?case by (auto simp: lq_items_empty_head)
next
  case (Suc fuel)
  obtain r q where r: "lq_get (w_jobs c) = Ok (r, q)"
    "case r of None \<Rightarrow> idle_inv K (c\<lparr>w_jobs := q\<rparr>) \<and> lq_items (w_jobs c) []
     | Some job \<Rightarrow> before_job K job (c\<lparr>w_jobs := q\<rparr>) \<and> j_surface job = fx_ptr K (j_target job) \<and>
         (\<exists>js. lq_items (w_jobs c) (job # js) \<and> lq_items q js)" using pop_winv [OF Suc.prems(1)] by blast
  show ?case
  proof (cases r)
    case None
    with r Suc.prems(1) show ?thesis by (auto simp: fail_jobs.simps)
  next
    case (Some job)
    let ?c = "rk_mpp_dec_job_destroy job (rk_mpp_dec_fail_surface (j_surface job) (j_fence job) (c\<lparr>w_jobs := q\<rparr>))"
    from r(2) Some obtain js' where b: "before_job K job (c\<lparr>w_jobs := q\<rparr>)" "lq_items (w_jobs c) (job # js')" "lq_items q js'"
      by auto
    have "winv K {} (\<lambda>r. r_token r < j_token job) (j_token job) None ?c"
      using winv_fail [OF b(1) [unfolded before_job_def job_pair_def]] by (simp add: rk_mpp_dec_job_destroy_def)
    then have i: "idle_inv K ?c" by (rule winv_idle)
    have w: "w_jobs ?c = q" "w_stop ?c = w_stop c"
      by (simp_all add: rk_mpp_dec_job_destroy_def rk_mpp_dec_fail_surface_def)
    have "length js' \<le> fuel" using lq_items_unique [OF b(2) Suc.prems(2)] Suc.prems(3) by auto
    from Suc.IH [OF i _ this] b(3) w obtain c' where "fail_jobs fuel ?c = Ok c'" "idle_inv K c'" "lq_items (w_jobs c') []"
        "w_stop c' = w_stop c" by auto
    then show ?thesis using r(1) Some by simp
  qed
qed

lemma app_step_stopped: "app_step a c = Ok c' \<Longrightarrow> w_stop c \<Longrightarrow> w_jobs c' = w_jobs c"
proof (cases a)
  case (App_End al j)
  assume s: "app_step a c = Ok c'" "w_stop c"
  have e: "rk_mpp_dec_enqueue_job c1 job = Ok (False, c1)" if "w_stop c1" for c1 job
    using that by (simp add: rk_mpp_dec_enqueue_job_def)
  have j: "w_jobs (rk_mpp_dec_fail_surface p f c1) = w_jobs c1" "w_jobs (mark_field p f b c1) = w_jobs c1"
    "w_stop (mark_field p f b c1) = w_stop c1" "w_jobs (rk_mpp_dec_reject_job job c1) = w_jobs c1" for p f b c1 job
    by (simp_all add: rk_mpp_dec_fail_surface_def mark_field_def rk_mpp_dec_reject_job_def rk_mpp_dec_job_destroy_def
      complete_surface_ref_def)
  from s App_End show ?thesis
    by (auto simp: rk_EndPicture_def Let_def e j dest!: decode_job_create_result split: option.splits if_splits)
next
  case (App_Begin t)
  have "w_jobs (snd (rk_BeginPicture c t)) = w_jobs c"
    by (simp add: rk_BeginPicture_def begin_release_def rk_mpp_dec_fail_surface_def Let_def split_beta split: option.splits)
  then show "app_step a c = Ok c' \<Longrightarrow> w_jobs c' = w_jobs c" using App_Begin by auto
qed auto

lemma app_run_stopped: "app_run as c = Ok c' \<Longrightarrow> w_stop c \<Longrightarrow> w_jobs c' = w_jobs c"
proof (induction "as" arbitrary: c)
  case (Cons a "as")
  then obtain c1 where c1: "app_step a c = Ok c1" "app_run as c1 = Ok c'" by auto
  have "w_stop c1" using app_step_worker [OF c1(1)] Cons.prems(2) by (simp add: worker_view_def)
  with Cons.IH [OF c1(2)] app_step_stopped [OF c1(1)] Cons.prems(2) show ?case by simp
qed simp

text \<open>The context after everything queued was failed: nothing is left but the picture being assembled.\<close>

definition settled :: "fixed \<Rightarrow> RKContext \<Rightarrow> bool" where
  "settled K c \<longleftrightarrow> idle_inv K c \<and> w_stop c \<and> no_routes c \<and> lq_items (w_jobs c) []"

lemma settled_sync: "keeps E (settled K) (sync e)"
proof (rule w_sync)
  fix c "as" assume s: "settled K c"
  then obtain hi where w: "winv K {} (tokens_upto hi) hi None c" by (auto simp: settled_def idle_inv_def)
  then have "ctx_inv c {} (tokens_upto hi) hi" by (simp add: winv_def)
  from app_run_inv [OF this, of "as"] obtain c' where c': "app_run as c = Ok c'" "ctx_inv c' {} (tokens_upto hi) hi" by blast
  have v: "worker_view c' = worker_view c" by (rule app_run_worker [OF c'(1)])
  have "winv K {} (tokens_upto hi) hi None c'" by (rule winv_view [OF w v c'(2)])
  moreover have "w_jobs c' = w_jobs c" using app_run_stopped [OF c'(1)] s by (simp add: settled_def)
  moreover have "no_routes c' = no_routes c" "w_stop c' = w_stop c"
    using v by (simp_all add: worker_view_def no_routes_def token_routes_def generic_routes_def)
  ultimately show "\<exists>c'. app_run as c = Ok c' \<and> settled K c'"
    using c'(1) s unfolding settled_def idle_inv_def by auto
qed

lemma stop_render_settles:
  assumes "settled K c" and "few (stop_render c)"
  shows "\<not> waiting (stop_render c) p"
proof -
  let ?c = "c\<lparr>w_render := None, w_render_fence := 0\<rparr>"
  obtain hi where inv: "ctx_inv c {} (tokens_upto hi) hi" using assms(1) by (auto simp: settled_def idle_inv_def winv_def)
  have d: "ctx_inv ?c ({} \<union> render_pairs c) (tokens_upto hi) hi" by (rule ctx_inv_drop_render [OF inv])
  have "ctx_inv (stop_render c) {} (tokens_upto hi) hi"
    using d fail_inv [of ?c _ "w_render_fence c" "{}" "tokens_upto hi" hi]
    by (auto simp: stop_render_def Let_def render_pairs_def split: option.splits)
  then obtain q where q: "holds (stop_render c) q" "accounted (stop_render c) q {}"
    using assms(2) by (auto simp: ctx_inv_def)
  have f: "w_jobs (stop_render c) = w_jobs c" "w_h264_routes (stop_render c) = w_h264_routes c"
      "w_generic (stop_render c) = w_generic c" "w_render (stop_render c) = None"
    by (auto simp: stop_render_def rk_mpp_dec_fail_surface_def Let_def split: option.splits)
  have "q_jobs q = []" using q(1) assms(1) f(1) lq_items_unique by (fastforce simp: holds_def settled_def)
  moreover have "q_h264 q = []" "q_generic q = []"
    using q(1) assms(1) f(2,3) ll_wf_unique
    by (fastforce simp: holds_def settled_def no_routes_def token_routes_def generic_routes_def lq_wf_def)+
  ultimately show ?thesis using q(2) f(4) by (simp add: accounted_def holders_def render_pairs_def)
qed

lemma idle_sync: "keeps E (idle_inv K) (sync e)"
  by (intro idle_keeps winv_sync)

lemma idle_flags:
  "idle_inv K c \<Longrightarrow> idle_inv K (c\<lparr>w_stop := b\<rparr>)" "idle_inv K c \<Longrightarrow> idle_inv K (c\<lparr>w_deadline := d, w_drain := b\<rparr>)"
proof -
  have "ctx_inv (c\<lparr>w_stop := b\<rparr>) H R hi = ctx_inv c H R hi" "ctx_inv (c\<lparr>w_deadline := d, w_drain := b\<rparr>) H R hi = ctx_inv c H R hi"
    for H R hi by (rule ctx_inv_cong; simp add: same_view_def)+
  then show "idle_inv K c \<Longrightarrow> idle_inv K (c\<lparr>w_stop := b\<rparr>)" "idle_inv K c \<Longrightarrow> idle_inv K (c\<lparr>w_deadline := d, w_drain := b\<rparr>)"
    using exact_cong [of "c\<lparr>w_stop := b\<rparr>" c] exact_cong [of "c\<lparr>w_deadline := d, w_drain := b\<rparr>" c]
    by (simp_all add: idle_inv_def winv_def pool_ok_def)
qed

lemma stop_joined_runs:
  "wruns E (idle_inv K) (stop_joined e) (\<lambda>_ c. few c \<longrightarrow> (\<forall>p. \<not> waiting c p))"
proof -
  let ?S = "\<lambda>c. idle_inv K c \<and> w_stop c"
  have stop: "wruns E (idle_inv K) (ctx_upd (\<lambda>c. c\<lparr>w_stop := True\<rparr>)) (\<lambda>_. ?S)"
    by (rule w_upd) (simp add: idle_flags)
  have jobs: "wruns E ?S (ctx_do (\<lambda>c. obind (fail_jobs (ll_brk (w_jobs c)) c) (\<lambda>c. Ok ((), c))))
      (\<lambda>_ c. ?S c \<and> lq_items (w_jobs c) [])"
  proof (rule w_do)
    fix c assume c: "?S c"
    then obtain js where "lq_items (w_jobs c) js" by (auto simp: idle_inv_def winv_def ctx_inv_def holds_def)
    with fail_jobs_inv [of K c js "ll_brk (w_jobs c)"] c lq_items_length [of "w_jobs c" js]
    show "\<exists>a c'. obind (fail_jobs (ll_brk (w_jobs c)) c) (\<lambda>c. Ok ((), c)) = Ok (a, c') \<and> ?S c' \<and> lq_items (w_jobs c') []" by auto
  qed
  have routes: "wruns E (\<lambda>c. ?S c \<and> lq_items (w_jobs c) [])
      (ctx_do (\<lambda>c. obind (fail_pending_routes c) (\<lambda>c. Ok ((), c)))) (\<lambda>_. settled K)"
  proof (rule w_do)
    fix c assume c: "?S c \<and> lq_items (w_jobs c) []"
    then obtain hi where "winv K {} (tokens_upto hi) hi None c" by (auto simp: idle_inv_def)
    from fail_pending_winv [OF this] obtain c' where "fail_pending_routes c = Ok c'" "winv K {} (tokens_upto hi) hi None c'"
      "no_routes c'" "w_jobs c' = w_jobs c" "w_stop c' = w_stop c" by blast
    with c show "\<exists>a c'. obind (fail_pending_routes c) (\<lambda>c. Ok ((), c)) = Ok (a, c') \<and> settled K c'"
      by (auto simp: settled_def idle_inv_def)
  qed
  have render: "wruns E (settled K) (ctx_upd stop_render) (\<lambda>_ c. few c \<longrightarrow> (\<forall>p. \<not> waiting c p))"
    by (rule w_upd) (blast dest: stop_render_settles)
  show ?thesis
    unfolding stop_joined_def
    by (intro runs_seq [OF idle_sync] runs_seq [OF stop] runs_seq [OF jobs] runs_seq [OF routes] runs_seq [OF settled_sync]
        runs_seq [OF render] runs_bind [OF w_env] runs_ret)
qed

lemma stop_runs:
  assumes "fx_node K = (\<lambda>_ _. True)"
  shows "wruns (fx_generic K) (idle_inv K) (rk_mpp_dec_stop e rounds v) (\<lambda>joined c. joined \<longrightarrow> few c \<longrightarrow> (\<forall>p. \<not> waiting c p))"
proof -
  have drain: "keeps (fx_generic K) (idle_inv K) (ctx_upd (\<lambda>c. c\<lparr>w_deadline := d, w_drain := True\<rparr>))" for d
    by (rule w_upd) (rule idle_flags)
  show ?thesis
    unfolding rk_mpp_dec_stop_def
    by (intro runs_seq [OF idle_sync] runs_bind [OF w_env] runs_seq [OF drain] runs_bind [OF main_keeps [OF assms]] runs_if
        runs_ret runs_post [OF stop_joined_runs]) simp_all
qed

definition start_fixed :: "RKContext \<Rightarrow> fixed" where
  "start_fixed c = \<lparr>fx_generic = (\<not> codec_uses_token_routes c), fx_ptr = w_ptr c, fx_node = (\<lambda>_ _. True)\<rparr>"

lemma ll_empty_wf: "ll_wf ll_empty []" "lq_wf lq_empty []"
  by (simp_all add: ll_wf_def lq_wf_def ll_empty_def lq_empty_def)

lemma start_inv:
  assumes "\<And>p. s_ctx_id (surf p) \<noteq> Some cid"
  shows "idle_inv (start_fixed (context_start cid coding prof width height surf ptr live objs))
    (context_start cid coding prof width height surf ptr live objs)" (is "idle_inv ?K ?c")
proof -
  let ?q = "\<lparr>q_jobs = [], q_h264 = [], q_generic = []\<rparr>"
  have "ctx_inv ?c {} (tokens_upto 0) 0"
    by (rule ctx_invI [of _ ?q])
      (use assms lq_empty_items ll_empty_wf in \<open>auto simp: context_start_def holds_def token_routes_def generic_routes_def
        targets_ok_def accounted_def waiting_def tokens_ok_def uniform_def\<close>)
  moreover have "routes_exact None ?c"
    unfolding routes_exact_def
    by (intro exI [of _ "[]"]) (simp add: context_start_def ll_empty_wf store_exact_def, simp add: ll_empty_def lq_empty_def)
  ultimately show ?thesis
    unfolding idle_inv_def winv_def
    by (intro exI [of _ 0])
      (simp add: pool_ok_def fixed_ok_def start_fixed_def, simp add: context_start_def lq_empty_def)
qed

lemma life_runs:
  assumes "fx_node K = (\<lambda>_ _. True)"
  shows "wruns (fx_generic K) (idle_inv K) (context_life e n rounds) (\<lambda>joined c. joined \<longrightarrow> few c \<longrightarrow> (\<forall>p. \<not> waiting c p))"
  unfolding context_life_def
  by (intro runs_bind [OF main_keeps [OF assms]] runs_case_option stop_runs [OF assms] runs_post [OF stop_joined_runs]) simp

section \<open>A small environment\<close>

text \<open>
  An environment in which every call succeeds, MPP accepts packets and never returns a frame, one
  picture is begun and ended while the worker starts, and each look at the clock takes two seconds.
  The state counts those looks and remembers whether the picture was submitted.
\<close>

definition demo_env :: "(nat \<times> bool) backend" where
  "demo_env =
     \<lparr>mpp_call = (\<lambda>_ m. (True, m)), decode_put_packet = (\<lambda>_ m. (True, m)), decode_get_frame = (\<lambda>m. (None, m)),
      mpp_buffer_get = (\<lambda>_ m. (None, m)), calloc_pool = (\<lambda>m. (None, m)), convert_nv15_to_p010 = (\<lambda>_ _ m. (None, m)),
      copy_to_stable_export = (\<lambda>_ _ _ m. (Not_Stable, m)),
      monotonic_ns = (\<lambda>(k, b). (2000000000 * int k, (k + 1, b))),
      others = (\<lambda>(k, b). (if b then [] else [App_Begin 7, App_End True (Some
        \<lparr>jc_data = [1, 2], jc_h264_field = False, jc_is_hidden = False, jc_repeat_slot = 8, jc_sequence_headers = None\<rparr>)],
        (k, True)))\<rparr>"

definition demo_surface :: RKSurface where
  "demo_surface = \<lparr>s_width = 64, s_height = 64, s_frame = None, s_backing_buf = None, s_decode_pool = None, s_hstride = 64,
     s_vstride = 64, s_fmt = 0, s_imported = False, s_decoded = False, s_decode_failed = False, s_h264_field_pending = False,
     s_ctx_id = None, s_fence = 0\<rparr>"

definition demo_start :: "MppCodingType \<Rightarrow> RKContext" where
  "demo_start coding = context_start 3 coding False 64 64 (\<lambda>_. demo_surface) (\<lambda>_. 5) (\<lambda>_. True)
     \<lparr>obj_refs = (\<lambda>_. 1), obj_destroyed = []\<rparr>"

lemma demo_runs:
  "case context_life demo_env 1 1 (demo_start CodingHEVC, (0, False)) of
     Ok (joined, (c, m)) \<Rightarrow> joined \<and> w_accepted c = 1 \<and> s_ctx_id (w_surf c 5) = Some 3 \<and> s_decode_failed (w_surf c 5)
   | _ \<Rightarrow> False"
  by code_simp

section \<open>Properties\<close>

text \<open>
  C1: whatever MPP, the allocator, the clock and the application's threads do while a context
  lives, once \<open>rk_mpp_dec_stop\<close> has returned no surface of the context is left waiting: each is
  decoded or failed, so no \<open>vaSyncSurface\<close> blocks for ever. For the codecs that route by token the
  run does not touch a dangling route either. The token counter has 63 bits, so fewer than
  \<open>2 ^ 63\<close> jobs are assumed.
\<close>

theorem stop_settles_surfaces:
  assumes "\<forall>p. s_ctx_id (surf p) \<noteq> Some cid"
  shows "case context_life e n rounds (context_start cid coding prof width height surf ptr live objs, m) of
      Ok (joined, (c, _)) \<Rightarrow> joined \<longrightarrow> w_accepted c < 2 ^ 63 \<longrightarrow> \<not> waiting c p
    | Fail \<Rightarrow> False
    | Fault \<Rightarrow> coding \<noteq> CodingAVC \<and> coding \<noteq> CodingHEVC"
proof -
  let ?c = "context_start cid coding prof width height surf ptr live objs"
  have "case context_life e n rounds (?c, m) of Ok (a, s') \<Rightarrow> a \<longrightarrow> few (fst s') \<longrightarrow> (\<forall>p. \<not> waiting (fst s') p)
      | Fail \<Rightarrow> False | Fault \<Rightarrow> fx_generic (start_fixed ?c)"
    by (rule runs_at [OF life_runs]) (use start_inv [of surf cid] assms in \<open>simp_all add: start_fixed_def\<close>)
  then show ?thesis
    by (auto simp: few_def start_fixed_def codec_uses_token_routes_def context_start_def split: outcome.splits)
qed

theorem stop_settles_surfaces_witness:
  "case context_life demo_env 1 1 (demo_start CodingHEVC, (0, False)) of
     Ok (joined, (c, m)) \<Rightarrow> joined \<and> w_accepted c = 1 \<and> s_ctx_id (w_surf c 5) = Some 3 \<and> \<not> waiting c 5
   | _ \<Rightarrow> False"
  using demo_runs
    stop_settles_surfaces [where surf = "\<lambda>_. demo_surface" and cid = 3 and e = demo_env and n = 1 and rounds = 1
      and coding = CodingHEVC and prof = False and width = 64 and height = 64 and ptr = "\<lambda>_. 5" and live = "\<lambda>_. True"
      and objs = "\<lparr>obj_refs = (\<lambda>_. 1), obj_destroyed = []\<rparr>" and m = "(0, False)" and p = 5]
  by (auto simp: demo_start_def [symmetric] split: outcome.splits) (simp_all add: demo_surface_def)

text \<open>
  C2: after any number of rounds of the worker of a context, for every behaviour of its environment,
  each waiting surface has somebody responsible for exactly its current fence (a queued job, a
  route, or the picture being assembled), the buffer pool has between 24 and 64 committed buffers,
  and no route node is allocated that is not linked.
\<close>

theorem worker_keeps_accounts:
  assumes "\<forall>p. s_ctx_id (surf p) \<noteq> Some cid"
  shows "case rk_mpp_dec_worker_main e n worker_start (context_start cid coding prof width height surf ptr live objs, m) of
      Ok (_, (c, _)) \<Rightarrow> (\<exists>q. holds c q \<and> (w_accepted c < 2 ^ 63 \<longrightarrow> accounted c q {})) \<and> routes_exact None c \<and> pool_ok c
    | Fail \<Rightarrow> False
    | Fault \<Rightarrow> coding \<noteq> CodingAVC \<and> coding \<noteq> CodingHEVC"
proof -
  let ?c = "context_start cid coding prof width height surf ptr live objs"
  have "case rk_mpp_dec_worker_main e n worker_start (?c, m) of Ok (a, s') \<Rightarrow> idle_inv (start_fixed ?c) (fst s')
      | Fail \<Rightarrow> False | Fault \<Rightarrow> fx_generic (start_fixed ?c)"
    by (rule runs_at [OF main_keeps]) (use start_inv [of surf cid] assms in \<open>simp_all add: start_fixed_def\<close>)
  then show ?thesis
    by (auto simp: idle_inv_def winv_def ctx_inv_def few_def start_fixed_def codec_uses_token_routes_def context_start_def
      split: outcome.splits)
qed

theorem worker_keeps_accounts_witness:
  "case rk_mpp_dec_worker_main demo_env 1 worker_start (demo_start CodingHEVC, (0, False)) of
     Ok (_, (c, _)) \<Rightarrow> w_accepted c = 1 \<and> (\<exists>q. holds c q \<and> accounted c q {}) \<and> waiting c 5
   | _ \<Rightarrow> False"
proof -
  have "case rk_mpp_dec_worker_main demo_env 1 worker_start (demo_start CodingHEVC, (0, False)) of
      Ok (_, (c, _)) \<Rightarrow> w_accepted c = 1 \<and> waiting c 5 | _ \<Rightarrow> False" by code_simp
  with worker_keeps_accounts [where surf = "\<lambda>_. demo_surface" and cid = 3 and e = demo_env and n = 1
      and coding = CodingHEVC and prof = False and width = 64 and height = 64 and ptr = "\<lambda>_. 5" and live = "\<lambda>_. True"
      and objs = "\<lparr>obj_refs = (\<lambda>_. 1), obj_destroyed = []\<rparr>" and m = "(0, False)"]
  show ?thesis
    by (auto simp: demo_start_def [symmetric] split: outcome.splits) (simp_all add: demo_surface_def)
qed

end
