(* ===== verification/Worker_Live.thy ===== *)
theory Worker_Live
  imports Worker_Loop
begin

text \<open>
  Termination of the teardown drain. With a clock that advances, the worker leaves its loop once
  the deadline of the drain has passed, whatever MPP does, so \<open>rk_mpp_dec_stop\<close> returns.
\<close>

section \<open>Time\<close>

text \<open>
  \<open>T\<close> is the time of an environment state. A look at the clock shows a time that is not before it
  and takes time; nothing else takes it back. No second thread asks for a drain.
\<close>

definition timed :: "('m \<Rightarrow> int) \<Rightarrow> 'm backend \<Rightarrow> bool" where
  "timed T e \<longleftrightarrow>
     (\<forall>m. T m \<le> fst (monotonic_ns e m) \<and> T m < T (snd (monotonic_ns e m))) \<and>
     (\<forall>k m. T m \<le> T (snd (mpp_call e k m))) \<and>
     (\<forall>k m. T m \<le> T (snd (decode_put_packet e k m))) \<and>
     (\<forall>m. T m \<le> T (snd (decode_get_frame e m))) \<and>
     (\<forall>n m. T m \<le> T (snd (mpp_buffer_get e n m))) \<and>
     (\<forall>m. T m \<le> T (snd (calloc_pool e m))) \<and>
     (\<forall>g f m. T m \<le> T (snd (convert_nv15_to_p010 e g f m))) \<and>
     (\<forall>p g f m. T m \<le> T (snd (copy_to_stable_export e p g f m))) \<and>
     (\<forall>m. T m \<le> T (snd (others e m)) \<and> (\<forall>d. App_Drain d \<notin> set (fst (others e m))))"

definition draining_at :: "('m \<Rightarrow> int) \<Rightarrow> int \<Rightarrow> int \<Rightarrow> RKContext \<times> 'm \<Rightarrow> bool" where
  "draining_at T d t s \<longleftrightarrow> w_drain (fst s) \<and> w_deadline (fst s) = d \<and> t \<le> T (snd s)"

definition drain_view :: "RKContext \<Rightarrow> bool \<times> int" where
  "drain_view c = (w_drain c, w_deadline c)"

lemma drain_view_simps [simp]:
  "drain_view (unref p c) = drain_view c" "drain_view (release es c) = drain_view c"
  "drain_view (upd_surf p f c) = drain_view c" "drain_view (complete_surface_ref p fence b c) = drain_view c"
  "drain_view (rk_mpp_dec_fail_surface p fence c) = drain_view c" "drain_view (mark_field p fence b c) = drain_view c"
  "drain_view (begin_release c0 s c) = drain_view c" "drain_view (rk_mpp_dec_reject_job job c) = drain_view c"
  "drain_view (rk_mpp_dec_job_destroy job c) = drain_view c"
  "drain_view (count_output c) = drain_view c" "drain_view (count_submit c) = drain_view c"
  "drain_view (c\<lparr>w_objs := objs\<rparr>) = drain_view c" "drain_view (c\<lparr>w_pool := p'\<rparr>) = drain_view c"
  "drain_view (c\<lparr>w_render := x, w_render_fence := y\<rparr>) = drain_view c" "drain_view (c\<lparr>w_saw_eos := b\<rparr>) = drain_view c"
  "drain_view (c\<lparr>w_h264_routes := l\<rparr>) = drain_view c" "drain_view (c\<lparr>w_generic := g\<rparr>) = drain_view c"
  "drain_view (c\<lparr>w_jobs := q\<rparr>) = drain_view c" "drain_view (c\<lparr>w_outstanding := n\<rparr>) = drain_view c"
  by (simp_all add: drain_view_def unref_def release_def upd_surf_def complete_surface_ref_def rk_mpp_dec_fail_surface_def
    mark_field_def begin_release_def rk_mpp_dec_reject_job_def rk_mpp_dec_job_destroy_def count_output_def count_submit_def
    Let_def split: option.splits)

lemma draining_at_view: "drain_view c' = drain_view c \<Longrightarrow> t \<le> T m \<Longrightarrow> draining_at T d t' (c, m') \<Longrightarrow> draining_at T d t (c', m)"
  by (simp add: draining_at_def drain_view_def)

section \<open>Primitive steps\<close>

abbreviation steady :: "('m \<Rightarrow> int) \<Rightarrow> int \<Rightarrow> int \<Rightarrow> ('m, 'a) worker \<Rightarrow> bool" where
  "steady T d t f \<equiv> sat (draining_at T d t) f (\<lambda>_. draining_at T d t)"

lemma steady_env: "(\<And>m. T m \<le> T (snd (f m))) \<Longrightarrow> steady T d t (env_do f)"
  by (auto simp: sat_def env_do_def draining_at_def Let_def split_beta intro: order_trans)

lemma steady_get: "steady T d t (ctx_get f)"
  by (auto simp: sat_def ctx_get_def)

lemma steady_upd: "(\<And>c. drain_view (f c) = drain_view c) \<Longrightarrow> steady T d t (ctx_upd f)"
  by (auto simp: sat_def ctx_upd_def draining_at_def drain_view_def)

lemma steady_do: "(\<And>c a c'. f c = Ok (a, c') \<Longrightarrow> drain_view c' = drain_view c) \<Longrightarrow> steady T d t (ctx_do f)"
  by (fastforce simp: sat_def ctx_do_def draining_at_def drain_view_def)

lemma app_step_drain: "app_step a c = Ok c' \<Longrightarrow> (\<forall>d. a \<noteq> App_Drain d) \<Longrightarrow> drain_view c' = drain_view c"
proof -
  have e: "drain_view c2 = drain_view c1" if "rk_mpp_dec_enqueue_job c1 job = Ok (b, c2)" for c1 c2 job b
    using that by (auto simp: rk_mpp_dec_enqueue_job_def Let_def drain_view_def split: if_splits option.splits)
  have b: "drain_view (snd (rk_BeginPicture c t)) = drain_view c" for t
    by (simp add: rk_BeginPicture_def Let_def split_beta split: option.splits)
  show "app_step a c = Ok c' \<Longrightarrow> (\<forall>d. a \<noteq> App_Drain d) \<Longrightarrow> drain_view c' = drain_view c"
    by (cases a)
      (auto simp: b rk_EndPicture_def Let_def dest!: e decode_job_create_result split: option.splits if_splits,
       simp add: drain_view_def)
qed

lemma app_run_drain: "app_run as c = Ok c' \<Longrightarrow> (\<forall>d. App_Drain d \<notin> set as) \<Longrightarrow> drain_view c' = drain_view c"
proof (induction "as" arbitrary: c)
  case (Cons a "as")
  then obtain c1 where c1: "app_step a c = Ok c1" "app_run as c1 = Ok c'" by auto
  have "drain_view c1 = drain_view c" by (rule app_step_drain [OF c1(1)]) (use Cons.prems(2) in auto)
  with Cons.IH [OF c1(2)] Cons.prems(2) show ?case by simp
qed simp

lemma steady_sync: "timed T e \<Longrightarrow> steady T d t (sync e)"
proof (unfold sat_def, intro allI impI)
  fix s a s' assume t: "timed T e" "draining_at T d t s" "sync e s = Ok (a, s')"
  obtain c m where s: "s = (c, m)" by (cases s)
  obtain "as" m' where o: "others e m = (as, m')" by (cases "others e m")
  from t(3) obtain c' where c': "app_run as c = Ok c'" "s' = (c', m')" by (auto simp: sync_def s o)
  have "T m \<le> T m'" "\<forall>d. App_Drain d \<notin> set as" using t(1) o unfolding timed_def by (metis fst_conv snd_conv)+
  with app_run_drain [OF c'(1)] t(2) s c'(2) show "draining_at T d t s'" by (auto simp: draining_at_def drain_view_def)
qed

lemma steady_backend:
  assumes "timed T e"
  shows "steady T d t (env_do (mpp_call e k))" "steady T d t (env_do (decode_put_packet e pkt))"
    "steady T d t (env_do (decode_get_frame e))" "steady T d t (env_do (mpp_buffer_get e n))"
    "steady T d t (env_do (calloc_pool e))" "steady T d t (env_do (convert_nv15_to_p010 e g f))"
    "steady T d t (env_do (copy_to_stable_export e p g fence))" "steady T d t (env_do (monotonic_ns e))"
  using assms by (auto simp: timed_def intro!: steady_env dest: less_imp_le)

lemma steady_release:
  "steady T d t (mpp_frame_deinit f)" "steady T d t (mpp_buffer_put b)" "steady T d t (decode_pool_destroy pool)"
  "steady T d t (ctx_upd (release es))" "steady T d t (ctx_upd (unref p))" "steady T d t (ctx_upd count_output)"
  "steady T d t (ctx_upd count_submit)" "steady T d t (ctx_upd (upd_surf p h))"
  "steady T d t (ctx_upd (\<lambda>c. c\<lparr>w_pool := Some pool\<rparr>))" "steady T d t (ctx_upd (rk_mpp_dec_job_destroy job))"
  "steady T d t (ctx_upd (complete_surface_ref p fence ok))"
  "steady T d t (ctx_upd (\<lambda>c. c\<lparr>w_objs := rk_object_init p (w_objs c)\<rparr>))"
  "steady T d t (ctx_upd (\<lambda>c. if b' then c\<lparr>w_saw_eos := True\<rparr> else c))"
  by (simp_all add: mpp_frame_deinit_def mpp_buffer_put_def decode_pool_destroy_def steady_upd)

lemma steady_when_some:
  "(\<And>y. steady T d t (f y)) \<Longrightarrow> steady T d t (when_some x f)"
  unfolding when_some_def by (intro sat_rules)

lemma steady_routes:
  "steady T d t (ctx_do (take_route pts))" "steady T d t (ctx_do (route_payload p))"
  "steady T d t (ctx_do (frame_route_destroy p))" "steady T d t (ctx_do (\<lambda>c. h264_route_take c token))"
  "steady T d t (ctx_do (\<lambda>c. obind (h264_route_destroy p c) (\<lambda>c. Ok ((), c))))"
  "steady T d t (ctx_do (\<lambda>c. obind (generic_route_destroy p c) (\<lambda>c. Ok ((), c))))"
  "steady T d t (ctx_do (\<lambda>c. obind (generic_route_remove c p) (\<lambda>c. Ok ((), c))))"
  "steady T d t (add_route h264_route_add p)" "steady T d t (add_route generic_route_add p)"
  "steady T d t (find_paired job)"
  "steady T d t (ctx_do (\<lambda>c. obind (ll_get (w_h264_routes c) p) (\<lambda>(r, _). Ok (r_token r, c))))"
  "steady T d t (ctx_do (\<lambda>c. let (ok, objs) = rk_object_ref p (w_objs c) in Ok (ok, c\<lparr>w_objs := objs\<rparr>)))"
  "steady T d t (ctx_do (\<lambda>c. obind (lq_get (w_jobs c)) (\<lambda>(job, q). Ok (job, c\<lparr>w_jobs := q\<rparr>))))"
  unfolding add_route_def find_paired_def
  by (auto intro!: steady_do simp: take_route_def route_payload_def frame_route_destroy_def h264_route_take_def
    generic_route_take_def h264_route_destroy_def generic_route_destroy_def generic_route_remove_def h264_route_add_def
    generic_route_add_def Let_def split: if_splits prod.splits)

lemma steady_create:
  assumes "timed T e"
  shows "steady T d t (create_token_route e job)" "steady T d t (create_generic_route e job)"
  unfolding create_token_route_def create_generic_route_def
  by (auto intro!: sat_bind_same steady_backend [OF assms] steady_do simp: drain_view_def split: option.splits)

lemmas steady_steps = sat_rules steady_backend steady_release steady_get steady_when_some steady_routes steady_create steady_sync

lemma steady_complete: "timed T e \<Longrightarrow> steady T d t (worker_complete e p f b)" "timed T e \<Longrightarrow> steady T d t (fail_job e job)"
  unfolding fail_job_def worker_complete_def by (intro steady_steps; assumption)+

lemma steady_commit: "timed T e \<Longrightarrow> steady T d t (commit_pool_buffer e pool i)"
  unfolding commit_pool_buffer_def by (intro steady_steps)

lemma steady_grow_loop: "timed T e \<Longrightarrow> steady T d t (grow_loop e n i pool)"
  by (induction n arbitrary: i pool) (auto intro!: sat_rules steady_commit)

lemma steady_commit_loop: "timed T e \<Longrightarrow> steady T d t (commit_loop e n pool)"
  by (induction n arbitrary: pool) (auto intro!: sat_rules steady_commit)

lemma steady_grow: "timed T e \<Longrightarrow> steady T d t (grow_external_group e)"
  unfolding grow_external_group_def Let_def by (intro steady_steps steady_grow_loop; assumption)

lemma steady_configure: "timed T e \<Longrightarrow> steady T d t (configure_external_group e f)"
proof -
  assume t: "timed T e"
  have "steady T d t (configure_fail pool)" for pool
    unfolding configure_fail_def by (intro steady_steps)
  then have "steady T d t (configure_new_pool e n)" for n
    unfolding configure_new_pool_def Let_def
    by (intro sat_rules steady_backend [OF t] steady_release steady_commit_loop [OF t])
  moreover have "steady T d t (case bs of Some b # _ \<Rightarrow> sret x | _ \<Rightarrow> (\<lambda>s. Fault))" for bs :: "mpp_buf option list" and x :: "mpp_buf \<Rightarrow> bool"
    by (auto split: list.splits option.splits intro!: sat_rules)
  ultimately show ?thesis
    unfolding configure_external_group_def Let_def
    by (auto intro!: sat_rules steady_get split: list.splits option.splits)
qed

section \<open>The worker's routines\<close>

lemma steady_outputs:
  assumes "timed T e"
  shows "steady T d t (output_convert e f g pool out)" "steady T d t (output_stable e p fence g out)"
    "steady T d t (output_retain e pool index out)" "steady T d t (output_pool pool out)"
proof -
  show "steady T d t (output_convert e f g pool out)"
    unfolding output_convert_def by (intro steady_steps assms)
  have "steady T d t (case copy of
      Copy_Failed \<Rightarrow> sseq (when_some (o_backing out) mpp_buffer_put) (sret x)
    | Not_Stable \<Rightarrow> sret out
    | Copied hs vs \<Rightarrow> sseq (when_some (o_backing out) mpp_buffer_put)
        (sseq (when_some (o_stored out) mpp_frame_deinit) (sret (y hs vs))))" for copy x y
    by (cases copy) (auto intro!: steady_steps)
  then show "steady T d t (output_stable e p fence g out)"
    unfolding output_stable_def by (intro sat_rules steady_backend [OF assms])
  show "steady T d t (output_retain e pool index out)"
    unfolding output_retain_def by (cases pool; cases index) (auto intro!: sat_rules steady_backend [OF assms] steady_release)
  show "steady T d t (output_pool pool out)"
    unfolding output_pool_def by (intro steady_steps)
qed

lemma steady_reject: "timed T e \<Longrightarrow> steady T d t (reject_output e fr p r)"
  unfolding reject_output_def by (intro steady_steps steady_complete; assumption)

lemma steady_commit_output: "timed T e \<Longrightarrow> steady T d t (commit_output e f p r out)"
  unfolding commit_output_def Let_def by (intro steady_steps; assumption)

lemma steady_assign: "timed T e \<Longrightarrow> steady T d t (assign_mpp_frame e f)"
  unfolding assign_mpp_frame_def assign_routed_def Let_def
  by (intro steady_steps steady_configure steady_outputs steady_reject steady_commit_output; assumption)

lemma steady_drain: "timed T e \<Longrightarrow> steady T d t (drain_output_frame e)"
  unfolding drain_output_frame_def by (intro steady_steps steady_assign; assumption)

lemma steady_put_loop: "timed T e \<Longrightarrow> steady T d t (put_loop e pkt n starved)"
proof (induction n arbitrary: starved)
  case (Suc n)
  have "steady T d t (decode_worker_stopping e)"
    unfolding decode_worker_stopping_def by (intro steady_steps Suc.prems)
  then show ?case
    unfolding put_loop.simps
    by (intro sat_rules steady_backend steady_drain steady_grow Suc.IH Suc.prems)
qed (simp add: sat_rules)

lemma steady_submit: "timed T e \<Longrightarrow> steady T d t (submit_decode_packet e data tk)"
  unfolding submit_decode_packet_def put_packet_draining_def by (intro steady_steps steady_put_loop; assumption)

lemma steady_hevc: "timed T e \<Longrightarrow> steady T d t (drain_hevc_after_submit e)"
  unfolding drain_hevc_after_submit_def by (intro steady_steps steady_drain; assumption)

lemma steady_token_job: "timed T e \<Longrightarrow> steady T d t (submit_token_job e job)"
  unfolding submit_token_job_def submit_on_route_def token_submitted_def token_submit_failed_def
  by (intro steady_steps steady_submit steady_hevc steady_complete; assumption)

lemma steady_generic: "timed T e \<Longrightarrow> steady T d t (submit_generic e job data p)"
  unfolding submit_generic_def by (intro steady_steps steady_submit steady_hevc steady_complete; assumption)

lemma steady_hidden: "timed T e \<Longrightarrow> steady T d t (submit_hidden_job e job)"
  unfolding submit_hidden_job_def
  by (intro steady_steps steady_submit steady_complete steady_generic; assumption)

lemma steady_job: "timed T e \<Longrightarrow> steady T d t (worker_submit_job e job)"
  unfolding worker_submit_job_def submit_shown_job_def
  by (intro steady_steps steady_complete steady_token_job steady_hidden steady_generic; assumption)

lemma steady_eos_loop: "timed T e \<Longrightarrow> steady T d t (eos_loop e n)"
  by (induction n) (auto intro!: sat_rules steady_backend steady_drain steady_get)

lemma fail_loops_drain:
  "fail_h264_routes n s c = Ok c' \<Longrightarrow> drain_view c' = drain_view c"
  "fail_generic_routes n s c = Ok c' \<Longrightarrow> drain_view c' = drain_view c"
proof -
  show "fail_h264_routes n s c = Ok c' \<Longrightarrow> drain_view c' = drain_view c"
    by (induction n s c rule: fail_h264_routes.induct) (auto simp: h264_route_destroy_def)
  show "fail_generic_routes n s c = Ok c' \<Longrightarrow> drain_view c' = drain_view c"
    by (induction n s c rule: fail_generic_routes.induct) (auto simp: generic_route_destroy_def)
qed

lemma steady_stall: "timed T e \<Longrightarrow> steady T d t (worker_stall e v)"
proof -
  assume t: "timed T e"
  have "steady T d t (ctx_do (\<lambda>c. obind (fail_pending_routes c) (\<lambda>c. Ok ((), c))))"
    by (rule steady_do) (auto simp: fail_pending_routes_def Let_def dest!: fail_loops_drain)
  then show ?thesis unfolding worker_stall_def by (intro sat_rules steady_backend steady_sync t)
qed

lemma steady_body: "timed T e \<Longrightarrow> steady T d t (worker_body e v draining job)"
  unfolding worker_body_def worker_signal_eos_def worker_drain_one_def Let_def
  by (intro steady_steps steady_job steady_eos_loop steady_drain steady_stall; assumption)

section \<open>Progress\<close>

lemma clock_progress:
  assumes "timed T e"
  shows "sat (draining_at T d t) (env_do (monotonic_ns e)) (\<lambda>now s. t \<le> now \<and> draining_at T d (t + 1) s)"
  unfolding sat_def
proof (intro allI impI)
  fix s a s' assume s: "draining_at T d t s" "env_do (monotonic_ns e) s = Ok (a, s')"
  obtain c m where m: "s = (c, m)" by (cases s)
  have "T m \<le> fst (monotonic_ns e m)" "T m < T (snd (monotonic_ns e m))" using assms by (simp_all add: timed_def)
  with s m show "t \<le> a \<and> draining_at T d (t + 1) s'"
    by (auto simp: env_do_def draining_at_def Let_def split_beta)
qed

text \<open>A round either ends the loop or the deadline has not passed and time goes on.\<close>

lemma round_progress:
  assumes "timed T e"
  shows "sat (draining_at T d t) (worker_round e v) (\<lambda>r s. r = None \<or> t \<le> d \<and> draining_at T d (t + 1) s)"
proof -
  let ?Q = "\<lambda>r s. r = None \<or> t \<le> d \<and> draining_at T d (t + 1) s"
  have get: "sat (draining_at T d t) (ctx_get (\<lambda>c. c)) (\<lambda>c s. draining_at T d t s \<and> w_drain c \<and> w_deadline c = d)"
    by (auto simp: sat_def ctx_get_def draining_at_def)
  have go: "sat (\<lambda>s. t \<le> d \<and> draining_at T d (t + 1) s)
      (sbind (ctx_do (\<lambda>c. obind (lq_get (w_jobs c)) (\<lambda>(job, q). Ok (job, c\<lparr>w_jobs := q\<rparr>)))) (\<lambda>job.
        sbind (worker_body e v b job) (\<lambda>v. sret (Some v)))) ?Q" for b
  proof (cases "t \<le> d")
    case True
    have "steady T d (t + 1) (sbind (ctx_do (\<lambda>c. obind (lq_get (w_jobs c)) (\<lambda>(job, q). Ok (job, c\<lparr>w_jobs := q\<rparr>)))) (\<lambda>job.
        sbind (worker_body e v b job) (\<lambda>v. sret (Some v))))"
      by (intro sat_rules steady_routes steady_body assms)
    with True show ?thesis by (auto simp: sat_def)
  qed (simp add: sat_def)
  have rest: "sat (draining_at T d t)
     (if worker_idle c then sret (Some v)
      else if w_stop c then sret None
      else sbind (if w_drain c then sbind (env_do (monotonic_ns e)) (\<lambda>now. sret (now > w_deadline c)) else sret False) (\<lambda>expired.
        if w_drain c \<and> (expired \<or> w_saw_eos c \<or> (ll_head (w_jobs c) = None \<and> w_outstanding c = 0)) then sret None
        else sbind (ctx_do (\<lambda>c. obind (lq_get (w_jobs c)) (\<lambda>(job, q). Ok (job, c\<lparr>w_jobs := q\<rparr>)))) (\<lambda>job.
             sbind (worker_body e v (w_drain c) job) (\<lambda>v. sret (Some v))))) ?Q" if c: "w_drain c" "w_deadline c = d" for c
  proof -
    have clock: "sat (draining_at T d t) (sbind (env_do (monotonic_ns e)) (\<lambda>now. sret (now > d)))
        (\<lambda>b s. \<not> b \<longrightarrow> t \<le> d \<and> draining_at T d (t + 1) s)"
      by (rule sat_bind [OF clock_progress [OF assms]], rule sat_ret) auto
    have idle: "\<not> worker_idle c" using c by (simp add: worker_idle_def)
    show ?thesis
      unfolding if_not_P [OF idle] if_P [OF c(1)] c(2)
      by (intro sat_if sat_bind [OF clock] sat_ret sat_pre [OF go]) (use c in auto)
  qed
  show ?thesis
    unfolding worker_round_def
    by (rule sat_seq [OF steady_sync [OF assms]], rule sat_bind [OF get]) (use rest in \<open>fastforce simp: sat_def\<close>)
qed

lemma main_ends:
  assumes "timed T e" and "draining_at T d t s" and "d - t + 2 \<le> int n" and "0 < n"
    and "rk_mpp_dec_worker_main e n v s = Ok (r, s')"
  shows "r = None"
  using assms(2-5)
proof (induction n arbitrary: t s v)
  case (Suc n)
  obtain r1 s1 where r1: "worker_round e v s = Ok (r1, s1)"
      "(case r1 of None \<Rightarrow> sret None | Some v \<Rightarrow> rk_mpp_dec_worker_main e n v) s1 = Ok (r, s')"
    using Suc.prems(4) by (auto simp: sbind_def)
  from sat_D [OF round_progress [OF assms(1)] Suc.prems(1) r1(1)]
  have p: "r1 = None \<or> t \<le> d \<and> draining_at T d (t + 1) s1" .
  show ?case
  proof (cases r1)
    case None
    with r1(2) show ?thesis by (simp add: sret_def)
  next
    case (Some v1)
    with p have "t \<le> d" "draining_at T d (t + 1) s1" by auto
    moreover have "d - (t + 1) + 2 \<le> int n" "0 < n" using Suc.prems(2) \<open>t \<le> d\<close> by auto
    ultimately show ?thesis using Suc.IH [of "t + 1" s1 v1] r1(2) Some by simp
  qed
qed simp

lemma stop_joined_True: "stop_joined e s = Ok (a, s') \<Longrightarrow> a"
  by (auto simp: stop_joined_def sseq_def sbind_def sret_def)

lemma stop_returns:
  assumes "timed T e" and "\<not> fx_generic K" and "fx_node K = (\<lambda>_ _. True)" and "idle_inv K (fst s)"
  shows "\<exists>rounds s'. rk_mpp_dec_stop e rounds v s = Ok (True, s')"
proof -
  obtain u c1 m1 where s1: "sync e s = Ok (u, (c1, m1))" "idle_inv K c1"
    using runs_total [OF idle_sync [where E = False], of K s e] assms(4) by auto
  obtain now m2 where m2: "monotonic_ns e m1 = (now, m2)" by (cases "monotonic_ns e m1")
  let ?d = "now + WORKER_DRAIN_TIMEOUT_NS"
  let ?s3 = "(c1\<lparr>w_deadline := ?d, w_drain := True\<rparr>, m2)"
  let ?n = "nat (max 1 (?d - T m2 + 2))"
  have i3: "idle_inv K (fst ?s3)" using idle_flags(2) [OF s1(2)] by simp
  obtain r s4 where s4: "rk_mpp_dec_worker_main e ?n v ?s3 = Ok (r, s4)" "idle_inv K (fst s4)"
    using runs_total [OF main_keeps [OF assms(3), of e ?n v, unfolded eq_False [THEN iffD2, OF assms(2)]] i3] by blast
  have "r = None"
    by (rule main_ends [OF assms(1) _ _ _ s4(1), where d = ?d and t = "T m2"]) (auto simp: draining_at_def)
  obtain a s5 where s5: "stop_joined e s4 = Ok (a, s5)"
    using runs_total [OF stop_joined_runs [where E = False] s4(2)] by blast
  have "rk_mpp_dec_stop e ?n v s = Ok (a, s5)"
    using s1(1) m2 s4(1) s5 \<open>r = None\<close> unfolding rk_mpp_dec_stop_def
    by (simp add: sseq_def sbind_def env_do_def ctx_upd_def)
  with stop_joined_True [OF s5] have "rk_mpp_dec_stop e ?n v s = Ok (True, s5)" by simp
  then show ?thesis by blast
qed

lemma life_returns:
  assumes "timed T e" and "\<not> fx_generic K" and "fx_node K = (\<lambda>_ _. True)" and "idle_inv K (fst s)"
  shows "\<exists>rounds s'. context_life e n rounds s = Ok (True, s')"
proof -
  obtain r s1 where s1: "rk_mpp_dec_worker_main e n worker_start s = Ok (r, s1)" "idle_inv K (fst s1)"
    using runs_total [OF main_keeps [OF assms(3), of e n worker_start, unfolded eq_False [THEN iffD2, OF assms(2)]] assms(4)] by blast
  show ?thesis
  proof (cases r)
    case None
    obtain a s5 where s5: "stop_joined e s1 = Ok (a, s5)"
      using runs_total [OF stop_joined_runs [where E = False] s1(2)] by blast
    with s1(1) None stop_joined_True [OF s5] show ?thesis by (auto simp: context_life_def sbind_def)
  next
    case (Some v)
    from stop_returns [OF assms(1-3) s1(2), of v] obtain rounds s' where "rk_mpp_dec_stop e rounds v s1 = Ok (True, s')" by blast
    with s1(1) Some show ?thesis by (auto simp: context_life_def sbind_def intro!: exI [of _ rounds])
  qed
qed

section \<open>Properties\<close>

text \<open>
  C3: for the codecs that route by token, \<open>rk_mpp_dec_stop\<close> returns, however MPP behaves (it may
  reject every packet and produce no frame): some number of rounds suffices for the worker to end
  and be joined. The assumption is a clock that advances.
\<close>

theorem teardown_terminates:
  assumes "timed T e" and "coding = CodingAVC \<or> coding = CodingHEVC" and "\<forall>p. s_ctx_id (surf p) \<noteq> Some cid"
  shows "\<exists>rounds s'. context_life e n rounds (context_start cid coding prof width height surf ptr live objs, m) = Ok (True, s')"
proof -
  let ?c = "context_start cid coding prof width height surf ptr live objs"
  have "idle_inv (start_fixed ?c) ?c" by (rule start_inv) (use assms(3) in simp)
  moreover have "\<not> fx_generic (start_fixed ?c)" "fx_node (start_fixed ?c) = (\<lambda>_ _. True)"
    using assms(2) by (simp_all add: start_fixed_def codec_uses_token_routes_def context_start_def)
  ultimately show ?thesis using life_returns [OF assms(1), of "start_fixed ?c" "(?c, m)"] by simp
qed

theorem teardown_terminates_witness:
  "timed (\<lambda>(k, b). 2000000000 * int k) demo_env \<and>
   (\<exists>rounds s'. context_life demo_env 3 rounds (demo_start CodingAVC, (0, False)) = Ok (True, s'))"
proof -
  have t: "timed (\<lambda>(k, b). 2000000000 * int k) demo_env" by (auto simp: timed_def demo_env_def)
  show ?thesis
    using t teardown_terminates [OF t, of CodingAVC "\<lambda>_. demo_surface" 3 3 False 64 64 "\<lambda>_. 5" "\<lambda>_. True"
      "\<lparr>obj_refs = (\<lambda>_. 1), obj_destroyed = []\<rparr>" "(0, False)"]
    by (simp add: demo_start_def demo_surface_def)
qed

end
