(* ===== verification/Worker_Frames.thy ===== *)
theory Worker_Frames
  imports Worker_Loop
begin

text \<open>
  Ownership of MPP's output frames. Every frame that \<open>decode_get_frame\<close> hands out is released by
  \<open>mpp_frame_deinit\<close> exactly once, or it is still the frame of exactly one surface.
\<close>

section \<open>The account\<close>

fun frame_event :: "mpp_event \<Rightarrow> bool" where
  "frame_event (Frame_Get f) = True"
| "frame_event (Frame_Deinit f) = True"
| "frame_event _ = False"

definition frame_view :: "RKContext \<Rightarrow> (addr \<Rightarrow> nat option) \<times> mpp_event list" where
  "frame_view c = (\<lambda>p. s_frame (w_surf c p), filter frame_event (w_log c))"

definition owners :: "RKContext \<Rightarrow> nat \<Rightarrow> nat" where
  "owners c f = card {p. s_frame (w_surf c p) = Some f}"

text \<open>\<open>L\<close> is the list of frames that the running code has in hand.\<close>

definition account :: "nat list \<Rightarrow> (addr \<Rightarrow> nat option) \<times> mpp_event list \<Rightarrow> bool" where
  "account L v \<longleftrightarrow> finite {p. fst v p \<noteq> None} \<and>
     (\<forall>f. count_list (snd v) (Frame_Get f) =
          count_list (snd v) (Frame_Deinit f) + card {p. fst v p = Some f} + count_list L f)"

definition balanced :: "nat list \<Rightarrow> RKContext \<Rightarrow> bool" where
  "balanced L c \<longleftrightarrow> account L (frame_view c)"

lemma count_frame_event: "frame_event x \<Longrightarrow> count_list (filter frame_event xs) x = count_list xs x"
  by (induction xs) auto

lemma balanced_iff:
  "balanced L c \<longleftrightarrow> finite {p. s_frame (w_surf c p) \<noteq> None} \<and>
     (\<forall>f. count_list (w_log c) (Frame_Get f) =
          count_list (w_log c) (Frame_Deinit f) + owners c f + count_list L f)"
  by (simp add: balanced_def account_def frame_view_def owners_def count_frame_event)

lemma balanced_view: "balanced L c \<Longrightarrow> frame_view c' = frame_view c \<Longrightarrow> balanced L c'"
  by (simp add: balanced_def)

lemma balanced_perm: "balanced L c \<Longrightarrow> (\<And>f. count_list L' f = count_list L f) \<Longrightarrow> balanced L' c"
  by (simp add: balanced_iff)

lemma release_Nil [simp]: "release [] c = c"
  by (simp add: release_def)

lemma release_log [simp]: "w_log (release es c) = w_log c @ es"
  by (simp add: release_def)

lemma balanced_get: "balanced L c \<Longrightarrow> balanced (f # L) (release [Frame_Get f] c)"
  by (simp add: balanced_iff owners_def)

lemma balanced_deinit: "balanced (f # L) c \<Longrightarrow> balanced L (release [Frame_Deinit f] c)"
  by (auto simp: balanced_iff owners_def)

lemma owners_move:
  assumes "finite {q. s_frame (w_surf c q) \<noteq> None}"
  shows "owners (upd_surf p h c) f + (if s_frame (w_surf c p) = Some f then 1 else 0) =
    owners c f + (if s_frame (h (w_surf c p)) = Some f then 1 else 0)"
proof -
  let ?A = "{q. s_frame (w_surf c q) = Some f} - {p}"
  have fin: "finite ?A" using assms by (rule rev_finite_subset) auto
  have card: "card {q. s_frame (if q = p then x else w_surf c q) = Some f} = card ?A + (if s_frame x = Some f then 1 else 0)" for x
  proof -
    have "{q. s_frame (if q = p then x else w_surf c q) = Some f} = (if s_frame x = Some f then insert p ?A else ?A)" by auto
    then show ?thesis using card_insert_disjoint [OF fin, of p] by (simp only: split: if_split) simp
  qed
  have new: "owners (upd_surf p h c) f = card ?A + (if s_frame (h (w_surf c p)) = Some f then 1 else 0)"
    using card [of "h (w_surf c p)"] by (simp add: owners_def fun_upd_def)
  have "{q. s_frame (w_surf c q) = Some f} = {q. s_frame (if q = p then w_surf c p else w_surf c q) = Some f}"
    by (auto split: if_splits)
  then have old: "owners c f = card ?A + (if s_frame (w_surf c p) = Some f then 1 else 0)"
    unfolding owners_def by (simp only: card)
  show ?thesis using new old by simp
qed

abbreviation opt_list :: "'a option \<Rightarrow> 'a list" where
  "opt_list x \<equiv> case x of None \<Rightarrow> [] | Some y \<Rightarrow> [y]"

lemma count_opt: "count_list (opt_list x) f = (if x = Some f then 1 else 0)"
  by (cases x) auto

lemma balanced_store:
  assumes "balanced (opt_list (s_frame (h (w_surf c p))) @ L) c"
  shows "balanced (opt_list (s_frame (w_surf c p)) @ L) (upd_surf p h c)"
proof -
  have fin: "finite {q. s_frame (w_surf c q) \<noteq> None}" using assms by (simp add: balanced_iff)
  then have "finite {q. s_frame (w_surf (upd_surf p h c) q) \<noteq> None}"
    by (rule finite_subset [rotated, OF finite.insertI [of _ p]]) auto
  moreover have "w_log (upd_surf p h c) = w_log c" by (simp add: upd_surf_def)
  moreover have "owners (upd_surf p h c) f + count_list (opt_list (s_frame (w_surf c p))) f =
      owners c f + count_list (opt_list (s_frame (h (w_surf c p)))) f" for f
    using owners_move [OF fin, of p h f] by (simp add: count_opt)
  ultimately show ?thesis using assms by (simp add: balanced_iff add.assoc)
qed

section \<open>Steps that do not touch frames\<close>

lemma frame_view_simps [simp]:
  "frame_view (unref p c) = frame_view c" "frame_view (complete_surface_ref p fence b c) = frame_view c"
  "frame_view (rk_mpp_dec_fail_surface p fence c) = frame_view c" "frame_view (mark_field p fence b c) = frame_view c"
  "frame_view (rk_mpp_dec_job_destroy job c) = frame_view c" "frame_view (rk_mpp_dec_reject_job job c) = frame_view c"
  "frame_view (count_output c) = frame_view c" "frame_view (count_submit c) = frame_view c"
  "frame_view (c\<lparr>w_objs := objs\<rparr>) = frame_view c" "frame_view (c\<lparr>w_pool := p'\<rparr>) = frame_view c"
  "frame_view (c\<lparr>w_render := x, w_render_fence := y\<rparr>) = frame_view c" "frame_view (c\<lparr>w_saw_eos := b\<rparr>) = frame_view c"
  "frame_view (c\<lparr>w_h264_routes := l\<rparr>) = frame_view c" "frame_view (c\<lparr>w_generic := g\<rparr>) = frame_view c"
  "frame_view (c\<lparr>w_jobs := q\<rparr>) = frame_view c" "frame_view (c\<lparr>w_outstanding := n\<rparr>) = frame_view c"
  "frame_view (c\<lparr>w_live := v\<rparr>) = frame_view c" "frame_view (c\<lparr>w_deadline := d, w_drain := b\<rparr>) = frame_view c"
  "frame_view (c\<lparr>w_stop := b\<rparr>) = frame_view c" "frame_view (stop_render c) = frame_view c"
  by (auto simp: frame_view_def unref_def upd_surf_def complete_surface_ref_def rk_mpp_dec_fail_surface_def
    mark_field_def rk_mpp_dec_reject_job_def rk_mpp_dec_job_destroy_def count_output_def count_submit_def stop_render_def
    Let_def split: option.splits)

lemma frame_view_release: "list_all (\<lambda>x. \<not> frame_event x) es \<Longrightarrow> frame_view (release es c) = frame_view c"
  by (simp add: frame_view_def release_def list_all_iff)

lemma balanced_begin:
  assumes "balanced L c"
  shows "balanced L (begin_release c0 (w_surf c p) (upd_surf p (begin_surface c0) c))"
proof (cases "begin_continues c0 (w_surf c p)")
  case True
  then have "frame_view (upd_surf p (begin_surface c0) c) = frame_view c"
    by (auto simp: frame_view_def upd_surf_def begin_surface_def)
  with True assms show ?thesis by (simp add: begin_release_def balanced_def)
next
  case False
  let ?s = "w_surf c p" and ?c = "upd_surf p (begin_surface c0) c"
  have "balanced (opt_list (s_frame ?s) @ L) ?c"
    by (rule balanced_store) (use False assms in \<open>simp add: begin_surface_def Let_def\<close>)
  then have d: "balanced L (release (case s_frame ?s of None \<Rightarrow> [] | Some f \<Rightarrow> [Frame_Deinit f]) ?c)"
    by (cases "s_frame ?s") (auto intro: balanced_deinit)
  have split: "release (as @ bs) c' = release bs (release as c')" for "as" bs c' by (simp add: release_def)
  have "frame_view (release (case s_backing_buf ?s of None \<Rightarrow> [] | Some b \<Rightarrow> [Buffer_Put b]) c') = frame_view c'" for c'
    by (rule frame_view_release) (simp split: option.splits)
  with d False show ?thesis
    by (simp add: begin_release_def Let_def split balanced_def split: option.splits)
qed

lemma BeginPicture_balanced:
  assumes "balanced L c"
  shows "balanced L (snd (rk_BeginPicture c t))"
proof -
  let ?p = "w_ptr c t" and ?c = "c\<lparr>w_objs := snd (rk_object_ref (w_ptr c t) (w_objs c))\<rparr>"
  let ?u = "upd_surf ?p (begin_surface ?c) ?c"
  have b: "balanced L (begin_release ?c (w_surf ?c ?p) ?u)" by (rule balanced_begin) (use assms in \<open>simp add: balanced_def\<close>)
  have "frame_view (begin_release ?c s (c'\<lparr>w_render := x, w_render_fence := y\<rparr>)) = frame_view (begin_release ?c s c')" for c' s x y
    by (simp add: begin_release_def release_def frame_view_def unref_def Let_def split: option.splits)
  with b assms show ?thesis
    by (simp add: rk_BeginPicture_def Let_def split_beta balanced_def split: option.splits)
qed

lemma EndPicture_frames: "rk_EndPicture a c j = Ok (b, c') \<Longrightarrow> frame_view c' = frame_view c"
proof -
  have e: "frame_view c2 = frame_view c1" if "rk_mpp_dec_enqueue_job c1 job = Ok (q, c2)" for c1 c2 job q
    using that by (auto simp: rk_mpp_dec_enqueue_job_def Let_def frame_view_def split: if_splits option.splits)
  show "rk_EndPicture a c j = Ok (b, c') \<Longrightarrow> frame_view c' = frame_view c"
    by (auto simp: rk_EndPicture_def Let_def dest!: e decode_job_create_result split: option.splits if_splits)
qed

lemma app_step_balanced: "balanced L c \<Longrightarrow> app_step a c = Ok c' \<Longrightarrow> balanced L c'"
  by (cases a) (auto simp: BeginPicture_balanced dest: EndPicture_frames balanced_view, simp_all add: balanced_def)

lemma app_run_balanced: "balanced L c \<Longrightarrow> app_run as c = Ok c' \<Longrightarrow> balanced L c'"
  by (induction "as" arbitrary: c) (auto dest: app_step_balanced)

section \<open>Primitive steps\<close>

abbreviation frames :: "nat list \<Rightarrow> ('m, 'a) worker \<Rightarrow> nat list \<Rightarrow> bool" where
  "frames L f L' \<equiv> sat (\<lambda>s. balanced L (fst s)) f (\<lambda>_ s. balanced L' (fst s))"

lemma frames_env: "frames L (env_do f) L"
  by (auto simp: sat_def env_do_def Let_def split_beta)

lemma frames_get: "frames L (ctx_get f) L"
  by (auto simp: sat_def ctx_get_def)

lemma frames_upd: "(\<And>c. frame_view (f c) = frame_view c) \<Longrightarrow> frames L (ctx_upd f) L"
  by (auto simp: sat_def ctx_upd_def balanced_def)

lemma frames_do: "(\<And>c a c'. f c = Ok (a, c') \<Longrightarrow> frame_view c' = frame_view c) \<Longrightarrow> frames L (ctx_do f) L"
  by (fastforce simp: sat_def ctx_do_def balanced_def)

lemma frames_sync: "frames L (sync e) L"
  unfolding sat_def sync_def Let_def by (auto split: prod.splits dest: app_run_balanced)

lemma frames_deinit: "frames (f # L) (mpp_frame_deinit f) L"
  by (auto simp: sat_def mpp_frame_deinit_def ctx_upd_def intro: balanced_deinit)

lemma frames_take: "frames L (ctx_upd (release [Frame_Get f])) (f # L)"
  by (auto simp: sat_def ctx_upd_def intro: balanced_get)

lemma frames_when_deinit: "frames (opt_list x @ L) (when_some x mpp_frame_deinit) L"
  by (cases x) (auto simp: when_some_def intro!: sat_rules frames_deinit)

lemma frames_release:
  "frames L (mpp_buffer_put b) L" "frames L (decode_pool_destroy pool) L" "frames L (ctx_upd (unref p)) L"
  "frames L (ctx_upd (release [Buffer_Get b])) L" "frames L (ctx_upd (release [Buffer_Inc b])) L"
  "frames L (ctx_upd count_output) L" "frames L (ctx_upd count_submit) L"
  "frames L (ctx_upd (\<lambda>c. c\<lparr>w_pool := Some pool\<rparr>)) L" "frames L (ctx_upd (rk_mpp_dec_job_destroy job)) L"
  "frames L (ctx_upd (complete_surface_ref p fence ok)) L"
  "frames L (ctx_upd (\<lambda>c. c\<lparr>w_objs := rk_object_init p (w_objs c)\<rparr>)) L"
  "frames L (ctx_upd (\<lambda>c. if b' then c\<lparr>w_saw_eos := True\<rparr> else c)) L"
  "frames L (ctx_upd (\<lambda>c. c\<lparr>w_deadline := d, w_drain := True\<rparr>)) L" "frames L (ctx_upd (\<lambda>c. c\<lparr>w_stop := True\<rparr>)) L"
  "frames L (ctx_upd stop_render) L"
  unfolding mpp_buffer_put_def decode_pool_destroy_def
  by (rule frames_upd; simp add: frame_view_release list_all_iff)+

lemma frames_when_some:
  "frames L (when_some x mpp_buffer_put) L" "frames L (when_some y (\<lambda>p. ctx_upd (unref p))) L"
  unfolding when_some_def by (intro sat_rules frames_release)+

lemma frames_routes:
  "frames L (ctx_do (take_route pts)) L" "frames L (ctx_do (route_payload p)) L"
  "frames L (ctx_do (frame_route_destroy p)) L" "frames L (ctx_do (\<lambda>c. h264_route_take c token)) L"
  "frames L (ctx_do (\<lambda>c. obind (h264_route_destroy p c) (\<lambda>c. Ok ((), c)))) L"
  "frames L (ctx_do (\<lambda>c. obind (generic_route_destroy p c) (\<lambda>c. Ok ((), c)))) L"
  "frames L (ctx_do (\<lambda>c. obind (generic_route_remove c p) (\<lambda>c. Ok ((), c)))) L"
  "frames L (add_route h264_route_add p) L" "frames L (add_route generic_route_add p) L"
  "frames L (find_paired job) L"
  "frames L (ctx_do (\<lambda>c. obind (ll_get (w_h264_routes c) p) (\<lambda>(r, _). Ok (r_token r, c)))) L"
  "frames L (ctx_do (\<lambda>c. let (ok, objs) = rk_object_ref p (w_objs c) in Ok (ok, c\<lparr>w_objs := objs\<rparr>))) L"
  "frames L (ctx_do (\<lambda>c. obind (lq_get (w_jobs c)) (\<lambda>(job, q). Ok (job, c\<lparr>w_jobs := q\<rparr>)))) L"
  unfolding add_route_def find_paired_def
  by (auto intro!: frames_do simp: take_route_def route_payload_def frame_route_destroy_def h264_route_take_def
    generic_route_take_def h264_route_destroy_def generic_route_destroy_def generic_route_remove_def h264_route_add_def
    generic_route_add_def Let_def split: if_splits prod.splits)

lemma frames_create: "frames L (create_token_route e job) L" "frames L (create_generic_route e job) L"
  unfolding create_token_route_def create_generic_route_def
  by (auto intro!: sat_bind_same frames_env frames_do simp: frame_view_def split: option.splits)

lemma frames_destroy_some:
  "frames L (when_some x (\<lambda>p. ctx_do (\<lambda>c. obind (h264_route_destroy p c) (\<lambda>c. Ok ((), c))))) L"
  "frames L (when_some x (\<lambda>p. ctx_do (\<lambda>c. obind (generic_route_destroy p c) (\<lambda>c. Ok ((), c))))) L"
  unfolding when_some_def by (intro sat_rules frames_routes)+

lemmas frames_steps = sat_rules frames_env frames_get frames_sync frames_release frames_when_some frames_routes frames_create
  frames_destroy_some

lemma frames_complete: "frames L (worker_complete e p f b) L" "frames L (fail_job e job) L"
  unfolding fail_job_def worker_complete_def by (intro frames_steps)+

lemma frames_commit_pool: "frames L (commit_pool_buffer e pool i) L"
  unfolding commit_pool_buffer_def by (intro frames_steps)

lemma frames_grow_loop: "frames L (grow_loop e n i pool) L"
  by (induction n arbitrary: i pool) (auto intro!: sat_rules frames_commit_pool)

lemma frames_commit_loop: "frames L (commit_loop e n pool) L"
  by (induction n arbitrary: pool) (auto intro!: sat_rules frames_commit_pool)

lemma frames_grow: "frames L (grow_external_group e) L"
  unfolding grow_external_group_def Let_def by (intro frames_steps frames_grow_loop)

lemma frames_configure: "frames L (configure_external_group e f) L"
proof -
  have "frames L (configure_fail pool) L" for pool
    unfolding configure_fail_def by (intro frames_steps)
  then have "frames L (configure_new_pool e n) L" for n
    unfolding configure_new_pool_def Let_def by (intro sat_rules frames_env frames_release frames_commit_loop)
  then show ?thesis
    unfolding configure_external_group_def Let_def
    by (auto intro!: sat_rules frames_get split: list.splits option.splits)
qed

section \<open>Assigning a frame\<close>

text \<open>The frame in hand is the value of the variable \<open>frame\<close>, and what will be stored is it or nothing.\<close>

definition in_hand :: "nat list \<Rightarrow> frame_output \<Rightarrow> RKContext \<times> 'm \<Rightarrow> bool" where
  "in_hand L out s \<longleftrightarrow> balanced (opt_list (o_frame out) @ L) (fst s) \<and>
     (o_stored out = o_frame out \<and> \<not> o_converted out \<or> o_stored out = None \<and> (o_converted out \<or> o_frame out = None))"

lemma in_hand_frames:
  assumes "\<And>L. frames L f L"
  shows "sat (in_hand L out) f (\<lambda>_. in_hand L out)"
  unfolding sat_def
proof (intro allI impI)
  fix s a s' assume "in_hand L out s" "f s = Ok (a, s')"
  then show "in_hand L out s'"
    using sat_D [OF assms [of "opt_list (o_frame out) @ L"], of s a s'] by (simp add: in_hand_def)
qed

lemma in_hand_ret:
  assumes "o_frame out' = o_frame out" and "o_stored out' = o_stored out" and "o_converted out' = o_converted out"
  shows "sat (in_hand L out) (sret out') (in_hand L)"
  by (rule sat_ret) (use assms in \<open>simp add: in_hand_def\<close>)

lemma output_convert_hand: "sat (in_hand L out) (output_convert e f g pool out) (in_hand L)"
  unfolding output_convert_def
  by (intro sat_if sat_bind [OF in_hand_frames [OF frames_env]] sat_case_option
      sat_seq [OF in_hand_frames [OF frames_release(4)]])
    (auto simp: in_hand_def intro!: sat_ret)

lemma output_stable_hand: "sat (in_hand L out) (output_stable e p fence g out) (in_hand L)"
proof -
  have deinit: "sat (in_hand L out) (when_some (o_stored out) mpp_frame_deinit)
      (\<lambda>_ s. in_hand L (out\<lparr>o_stored := None, o_frame := (if o_stored out = None then o_frame out else None)\<rparr>) s)"
  proof (cases "o_stored out")
    case None
    then show ?thesis by (auto simp: when_some_def in_hand_def intro!: sat_ret)
  next
    case (Some x)
    show ?thesis
      unfolding sat_def
    proof (intro allI impI)
      fix s a s' assume s: "in_hand L out s" "when_some (o_stored out) mpp_frame_deinit s = Ok (a, s')"
      then have "o_frame out = Some x" "\<not> o_converted out" using Some by (auto simp: in_hand_def)
      with s Some sat_D [OF frames_deinit [of x L], of s a s']
      show "in_hand L (out\<lparr>o_stored := None, o_frame := (if o_stored out = None then o_frame out else None)\<rparr>) s'"
        by (simp add: in_hand_def when_some_def)
    qed
  qed
  have copied: "sat (in_hand L out) (sseq (when_some (o_backing out) mpp_buffer_put)
      (sseq (when_some (o_stored out) mpp_frame_deinit)
      (sret (out\<lparr>o_stable := True, o_backing := None, o_stored := None,
                 o_frame := (if o_stored out = None then o_frame out else None), o_hstride := h, o_vstride := v\<rparr>)))) (in_hand L)" for h v
    by (intro sat_seq [OF in_hand_frames [OF frames_when_some(1)]] sat_seq [OF deinit] sat_ret) (simp add: in_hand_def)
  show ?thesis
    unfolding output_stable_def
  proof (intro sat_if in_hand_ret sat_bind [OF in_hand_frames [OF frames_env]], goal_cases)
    case (4 copy)
    have "sat (in_hand L out) (sseq (when_some (o_backing out) mpp_buffer_put) (sret (out\<lparr>o_usable := False, o_backing := None\<rparr>))) (in_hand L)"
      by (intro sat_seq [OF in_hand_frames [OF frames_when_some(1)]] in_hand_ret) simp_all
    moreover have "sat (in_hand L out) (sret out) (in_hand L)"
      by (intro in_hand_ret) simp_all
    ultimately show ?case
      using copied by (cases copy) (simp_all only: stable_result.case)
  qed simp_all
qed

lemma output_retain_hand: "sat (in_hand L out) (output_retain e pool index out) (in_hand L)"
  unfolding output_retain_def
  by (cases pool; cases index)
    (auto intro!: in_hand_ret sat_bind [OF in_hand_frames [OF frames_env]] sat_seq [OF in_hand_frames [OF frames_release(5)]]
      split: option.splits)

lemma output_pool_hand: "sat (in_hand L out) (output_pool pool out) (in_hand L)"
  unfolding output_pool_def
  by (intro sat_if sat_case_option in_hand_ret sat_bind [OF in_hand_frames [OF frames_routes(12)]]
      sat_seq [OF in_hand_frames [OF frames_when_some(1)]]) simp_all

lemma commit_output_hand: "sat (in_hand L out) (commit_output e f p r out) (\<lambda>_ s. balanced L (fst s))"
proof -
  let ?s = "r_surface r"
  have get: "sat (in_hand L out) (ctx_get (\<lambda>c. w_surf c ?s)) (\<lambda>old s. in_hand L out s \<and> old = w_surf (fst s) ?s)"
    by (auto simp: sat_def ctx_get_def)
  have stale: "sat (in_hand L out) (sseq (when_some (o_backing out) mpp_buffer_put)
      (sseq (when_some (o_pool out) (\<lambda>p. ctx_upd (unref p)))
      (sseq (ctx_do (frame_route_destroy p)) (sseq (when_some (o_frame out) mpp_frame_deinit) (sret True)))))
      (\<lambda>_ s. balanced L (fst s))"
    by (rule sat_pre [where P = "\<lambda>s. balanced (opt_list (o_frame out) @ L) (fst s)"])
      (auto simp: in_hand_def intro!: sat_seq [OF frames_when_some(1)] sat_seq [OF frames_when_some(2)] sat_seq [OF frames_routes(3)]
        sat_seq [OF frames_when_deinit] sat_ret)
  let ?L = "if o_converted out then opt_list (o_frame out) @ L else L"
  have store: "sat (\<lambda>s. in_hand L out s \<and> old = w_surf (fst s) ?s) (ctx_upd (upd_surf ?s (store_output f out)))
      (\<lambda>_ s. balanced (opt_list (s_frame old) @ ?L) (fst s))" for old
    using balanced_store [of "store_output f out" _ ?s ?L]
    by (auto simp: sat_def ctx_upd_def in_hand_def store_output_def split: if_splits)
  have conv: "sat (\<lambda>s. balanced ?L (fst s)) (swhen (o_converted out) (when_some (o_frame out) mpp_frame_deinit))
      (\<lambda>_ s. balanced L (fst s))"
    using frames_when_deinit [of "o_frame out" L] by (auto simp: swhen_def intro!: sat_ret)
  have done': "sat (\<lambda>s. in_hand L out s \<and> old = w_surf (fst s) ?s) (sseq (ctx_upd (upd_surf ?s (store_output f out)))
      (sseq (when_some (s_frame old) mpp_frame_deinit)
      (sseq (swhen (o_converted out) (when_some (o_frame out) mpp_frame_deinit))
      (sseq (when_some (s_backing_buf old) mpp_buffer_put)
      (sseq (when_some (s_decode_pool old) (\<lambda>p. ctx_upd (unref p)))
      (sseq (ctx_do (frame_route_destroy p)) (sret True))))))) (\<lambda>_ s. balanced L (fst s))" for old
    by (intro sat_seq [OF store] sat_seq [OF frames_when_deinit] sat_seq [OF conv] sat_seq [OF frames_when_some(1)]
        sat_seq [OF frames_when_some(2)] sat_seq [OF frames_routes(3)] sat_ret)
  show ?thesis
    unfolding commit_output_def Let_def
    by (intro sat_seq [OF in_hand_frames [OF frames_sync]] sat_bind [OF get] sat_if done' sat_pre [OF stale]) simp
qed

lemma reject_output_hand: "frames (opt_list fr @ L) (reject_output e fr p r) L"
  unfolding reject_output_def
  by (intro sat_seq [OF frames_when_deinit] sat_seq [OF frames_complete(1)] sat_seq [OF frames_routes(3)] sat_ret_same)

lemma assign_routed_frames: "frames (f_id f # L) (assign_routed e f p r) L"
proof -
  have reject: "frames (f_id f # L) (reject_output e (Some (f_id f)) p r) L"
    using reject_output_hand [of "Some (f_id f)" L e p r] by simp
  have start: "sat (\<lambda>s. balanced (f_id f # L) (fst s))
      (ctx_get (\<lambda>c. (w_pool c, external_buffer_matches_pool c (f_buffer f), output_start c f g)))
      (\<lambda>(pool, index, out). in_hand L out)" for g
    by (auto simp: sat_def ctx_get_def in_hand_def output_start_def)
  have last: "sat (in_hand L out) (if o_usable out then commit_output e f p r out else reject_output e (o_frame out) p r)
      (\<lambda>_ s. balanced L (fst s))" for out
    by (intro sat_if commit_output_hand sat_pre [OF reject_output_hand]) (simp add: in_hand_def)
  have stages: "sat (case x of (pool, index, out) \<Rightarrow> in_hand L out) (case x of (pool, index, out) \<Rightarrow>
      sbind (output_convert e f g pool out) (\<lambda>out.
      sbind (output_stable e (r_surface r) (r_fence r) g out) (\<lambda>out.
      sbind (output_retain e pool index out) (\<lambda>out.
      sbind (output_pool pool out) (\<lambda>out.
        if o_usable out then commit_output e f p r out else reject_output e (o_frame out) p r)))))
      (\<lambda>_ s. balanced L (fst s))" for x g
    by (cases x) (auto intro!: sat_bind [OF output_convert_hand] sat_bind [OF output_stable_hand]
      sat_bind [OF output_retain_hand] sat_bind [OF output_pool_hand] last)
  show ?thesis
    unfolding assign_routed_def Let_def
    by (intro sat_seq [OF frames_sync] sat_bind [OF frames_get] sat_if sat_seq [OF frames_routes(3)] sat_seq [OF frames_deinit]
        sat_ret_same reject sat_bind [OF start] stages)
qed

lemma assign_frames: "frames (f_id f # L) (assign_mpp_frame e f) L"
  unfolding assign_mpp_frame_def
  by (intro sat_if sat_bind [OF frames_configure] sat_bind [OF frames_env] sat_seq [OF frames_deinit] sat_ret_same
      sat_bind [OF frames_routes(1)] sat_case_option sat_bind [OF frames_routes(2)] assign_routed_frames)

section \<open>The worker\<close>

lemma frames_drain: "frames L (drain_output_frame e) L"
  unfolding drain_output_frame_def
  by (intro sat_bind [OF frames_env] sat_case_option sat_ret_same sat_seq [OF frames_take] sat_seq [OF frames_release(12)]
      sat_bind [OF assign_frames] frames_steps)

lemma frames_put_loop: "frames L (put_loop e pkt n starved) L"
proof (induction n arbitrary: starved)
  case (Suc n)
  have "frames L (decode_worker_stopping e) L"
    unfolding decode_worker_stopping_def by (intro frames_steps)
  then show ?case
    unfolding put_loop.simps by (intro sat_rules frames_env frames_drain frames_grow Suc.IH)
qed (simp add: sat_ret)

lemma frames_submit: "frames L (submit_decode_packet e data tk) L"
  unfolding submit_decode_packet_def put_packet_draining_def by (intro frames_steps frames_put_loop)

lemma frames_hevc: "frames L (drain_hevc_after_submit e) L"
  unfolding drain_hevc_after_submit_def by (intro frames_steps frames_drain)

lemma frames_token_job: "frames L (submit_token_job e job) L"
  unfolding submit_token_job_def submit_on_route_def token_submitted_def token_submit_failed_def
  by (intro frames_steps frames_submit frames_hevc frames_complete)

lemma frames_generic: "frames L (submit_generic e job data p) L"
  unfolding submit_generic_def by (intro frames_steps frames_submit frames_hevc frames_complete)

lemma frames_hidden: "frames L (submit_hidden_job e job) L"
  unfolding submit_hidden_job_def by (intro frames_steps frames_submit frames_complete frames_generic)

lemma frames_job: "frames L (worker_submit_job e job) L"
  unfolding worker_submit_job_def submit_shown_job_def
  by (intro frames_steps frames_complete frames_token_job frames_hidden frames_generic)

lemma frames_eos_loop: "frames L (eos_loop e n) L"
  by (induction n) (auto intro!: sat_rules frames_env frames_drain frames_get)

lemma fail_loops_frames:
  "fail_h264_routes n s c = Ok c' \<Longrightarrow> frame_view c' = frame_view c"
  "fail_generic_routes n s c = Ok c' \<Longrightarrow> frame_view c' = frame_view c"
proof -
  show "fail_h264_routes n s c = Ok c' \<Longrightarrow> frame_view c' = frame_view c"
    by (induction n s c rule: fail_h264_routes.induct) (auto simp: h264_route_destroy_def)
  show "fail_generic_routes n s c = Ok c' \<Longrightarrow> frame_view c' = frame_view c"
    by (induction n s c rule: fail_generic_routes.induct) (auto simp: generic_route_destroy_def)
qed

lemma frames_fail_pending: "frames L (ctx_do (\<lambda>c. obind (fail_pending_routes c) (\<lambda>c. Ok ((), c)))) L"
  by (rule frames_do) (auto simp: fail_pending_routes_def Let_def dest!: fail_loops_frames)

lemma fail_jobs_frames: "fail_jobs n c = Ok c' \<Longrightarrow> frame_view c' = frame_view c"
  by (induction n c rule: fail_jobs.induct) (auto split: if_splits option.splits)

lemma frames_stall: "frames L (worker_stall e v) L"
  unfolding worker_stall_def by (intro frames_steps frames_fail_pending)

lemma frames_body: "frames L (worker_body e v draining job) L"
  unfolding worker_body_def worker_signal_eos_def worker_drain_one_def Let_def
  by (intro frames_steps frames_job frames_eos_loop frames_drain frames_stall)

lemma frames_main: "frames L (rk_mpp_dec_worker_main e n v) L"
proof (induction n arbitrary: v)
  case (Suc n)
  have "frames L (worker_round e v) L"
    unfolding worker_round_def by (intro frames_steps frames_body)
  then show ?case unfolding rk_mpp_dec_worker_main.simps by (intro sat_rules Suc.IH)
qed (simp add: sat_ret)

lemma frames_joined: "frames L (stop_joined e) L"
proof -
  have "frames L (ctx_do (\<lambda>c. obind (fail_jobs (ll_brk (w_jobs c)) c) (\<lambda>c. Ok ((), c)))) L"
    by (rule frames_do) (auto dest: fail_jobs_frames)
  then show ?thesis unfolding stop_joined_def by (intro frames_steps frames_fail_pending)
qed

lemma frames_life: "frames L (context_life e n rounds) L"
  unfolding context_life_def rk_mpp_dec_stop_def by (intro frames_steps frames_main frames_joined)

section \<open>Properties\<close>

text \<open>
  C4: no output frame of MPP is leaked or released twice. At every end of a context's life, for
  every behaviour of MPP and of the other threads, the number of times a frame was handed out is the
  number of times it was given back plus the number of surfaces that own it now.
\<close>

theorem frames_released_once:
  assumes "\<forall>p. s_frame (surf p) = None"
    and "context_life e n rounds (context_start cid coding prof width height surf ptr live objs, m) = Ok (joined, (c, m'))"
  shows "count_list (w_log c) (Frame_Get f) = count_list (w_log c) (Frame_Deinit f) + card {p. s_frame (w_surf c p) = Some f}"
proof -
  have "balanced [] (context_start cid coding prof width height surf ptr live objs)"
    using assms(1) by (simp add: balanced_iff owners_def context_start_def)
  then have "balanced [] c" using sat_D [OF frames_life _ assms(2), of "[]"] by simp
  then show ?thesis by (simp add: balanced_iff owners_def)
qed

definition shown_frame :: mpp_frame where
  "shown_frame = \<lparr>f_id = 9, f_info_change = False, f_eos = False, f_pts = 1, f_errinfo = 0, f_discard = 0,
     f_buffer = Some \<lparr>b_id = 4, b_size = 6144, b_index = 0, b_fd = 3\<rparr>, f_width = 64, f_height = 64, f_hor_stride = 64, f_ver_stride = 64,
     f_hor_stride_pixel = 64, f_fbc_hdr_stride = 0, f_offset_x = 0, f_offset_y = 0, f_fmt = 0, f_format = FMT_YUV420SP,
     f_afbc = False, f_buf_size = 6144\<rparr>"

definition frame_env :: "(nat \<times> bool) backend" where
  "frame_env = demo_env\<lparr>decode_get_frame := (\<lambda>(k, b). if b \<and> k < 100 then (Some shown_frame, (k + 100, b)) else (None, (k, b)))\<rparr>"

theorem frames_released_once_witness:
  "case context_life frame_env 1 1 (demo_start CodingHEVC, (0, False)) of
     Ok (joined, (c, m)) \<Rightarrow> joined \<and> s_frame (w_surf c 5) = Some 9 \<and>
       count_list (w_log c) (Frame_Get 9) = count_list (w_log c) (Frame_Deinit 9) + card {p. s_frame (w_surf c p) = Some 9}
   | _ \<Rightarrow> False"
proof -
  have "case context_life frame_env 1 1 (demo_start CodingHEVC, (0, False)) of
      Ok (joined, (c, m)) \<Rightarrow> joined \<and> s_frame (w_surf c 5) = Some 9 | _ \<Rightarrow> False" by code_simp
  with frames_released_once [where surf = "\<lambda>_. demo_surface" and cid = 3 and e = frame_env and n = 1 and rounds = 1
      and coding = CodingHEVC and prof = False and width = 64 and height = 64 and ptr = "\<lambda>_. 5" and live = "\<lambda>_. True"
      and objs = "\<lparr>obj_refs = (\<lambda>_. 1), obj_destroyed = []\<rparr>" and m = "(0, False)" and f = 9]
  show ?thesis
    by (auto simp: demo_start_def [symmetric] split: outcome.splits) (simp_all add: demo_surface_def)
qed

text \<open>
  The failure branch of the generic path destroys its route again when a frame drained during the
  submission has consumed it: MPP rejects the packet of the only VP9 job but returns a frame.
\<close>

definition rejecting_env :: "(nat \<times> bool) backend" where
  "rejecting_env = frame_env\<lparr>decode_put_packet := (\<lambda>_ m. (False, m))\<rparr>"

lemma generic_route_double_free:
  "rk_mpp_dec_worker_main rejecting_env 1 worker_start (demo_start CodingVP9, (0, False)) = Fault"
proof -
  have "case rk_mpp_dec_worker_main rejecting_env 1 worker_start (demo_start CodingVP9, (0, False)) of Fault \<Rightarrow> True | _ \<Rightarrow> False"
    by code_simp
  then show ?thesis by (simp split: outcome.splits)
qed

end
