(* ===== verification/Buffers.thy ===== *)
theory Buffers
  imports Object_Heap
begin

unbundle bit_operations_syntax

text \<open>
  The data buffers of \<open>src/buffer.c\<close>: creation, resizing, mapping, coded output, export handles
  and destruction, over the buffer heap of the driver and the reference counts of
  \<open>Object_Heap\<close>.

  Allocated memory is a list of optional bytes, \<open>None\<close> for a byte that was never written; a read of
  such a byte, an access outside the allocation and a use of a freed object are the outcome
  \<open>Fault\<close>. Results of the allocators and system calls are arguments. An operation yields the
  \<open>VAStatus\<close> of the code (\<open>Inl\<close>) or its results (\<open>Inr\<close>) with the new state of the driver.
\<close>

section \<open>Memory\<close>

type_synonym mem = "u8 option list"

definition mem_alloc :: "nat \<Rightarrow> mem" where
  "mem_alloc n = replicate (if n \<noteq> 0 then n else 1) None"

definition mem_realloc :: "mem \<Rightarrow> nat \<Rightarrow> mem" where
  "mem_realloc m n = (let n = (if n \<noteq> 0 then n else 1) in take n m @ replicate (n - length m) None)"

definition mem_write :: "mem \<Rightarrow> nat \<Rightarrow> u8 list \<Rightarrow> mem outcome" where
  "mem_write m off xs =
     (if off + length xs \<le> length m then Ok (take off m @ map Some xs @ drop (off + length xs) m) else Fault)"

definition mem_read :: "mem \<Rightarrow> nat \<Rightarrow> nat \<Rightarrow> u8 list outcome" where
  "mem_read m off n =
     (if off + n \<le> length m \<and> list_all (\<lambda>b. b \<noteq> None) (take n (drop off m))
      then Ok (map the (take n (drop off m))) else Fault)"

section \<open>Buffers and the driver\<close>

datatype VAStatus =
    VA_STATUS_SUCCESS
  | VA_STATUS_ERROR_ALLOCATION_FAILED
  | VA_STATUS_ERROR_INVALID_BUFFER
  | VA_STATUS_ERROR_INVALID_PARAMETER
  | VA_STATUS_ERROR_INVALID_SURFACE
  | VA_STATUS_ERROR_OPERATION_FAILED
  | VA_STATUS_ERROR_UNSUPPORTED_BUFFERTYPE
  | VA_STATUS_ERROR_UNSUPPORTED_MEMORY_TYPE
  | VA_STATUS_ERROR_NOT_ENOUGH_BUFFER
  | VA_STATUS_ERROR_DECODING_ERROR
  | VA_STATUS_ERROR_ENCODING_ERROR
  | VA_STATUS_ERROR_MAX_NUM_EXCEEDED
  | VA_STATUS_ERROR_RESOLUTION_NOT_SUPPORTED
  | VA_STATUS_ERROR_UNSUPPORTED_RT_FORMAT
  | VA_STATUS_ERROR_ATTR_NOT_SUPPORTED
  | VA_STATUS_ERROR_INVALID_IMAGE
  | VA_STATUS_ERROR_TIMEDOUT

datatype VABufferType =
    VAPictureParameterBufferType
  | VAIQMatrixBufferType
  | VASliceParameterBufferType
  | VASliceDataBufferType
  | VAImageBufferType
  | VAEncCodedBufferType
  | VAEncSequenceParameterBufferType
  | VAEncPictureParameterBufferType
  | VAEncSliceParameterBufferType
  | VAEncMiscParameterBufferType
  | VABufferTypeOther nat

datatype VACodedStatus = Coded_Status u32 | Coded_Overflow

record VACodedBufferSegment =
  seg_size :: u32
  seg_status :: VACodedStatus
  seg_at_data :: bool

record derived_image =
  dv_surface :: nat
  dv_size :: u64
  dv_chroma_offset :: u64
  dv_map :: bool
  dv_pitch :: u32
  dv_fd :: int

record RKBuffer =
  b_type :: VABufferType
  b_bytes :: u32
  b_num_elements :: u32
  b_capacity :: u64
  b_data :: mem
  b_segment :: VACodedBufferSegment
  b_coded_ready :: bool
  b_coded_failed :: bool
  b_derived :: "derived_image option"
  b_acquired_fd :: int

datatype sys_event = Ev_Munmap int | Ev_Dup int int | Ev_Close int | Ev_Sync_Start int | Ev_Sync_End int

record RKDriver =
  d_objs :: obj_store
  d_brk :: nat
  d_buffer_heap :: RKObjectHeap
  d_buf :: "nat \<rightharpoonup> RKBuffer"
  d_sys :: "sys_event list"

definition sys_log :: "sys_event list \<Rightarrow> RKDriver \<Rightarrow> RKDriver" where
  "sys_log evs d = d\<lparr>d_sys := d_sys d @ evs\<rparr>"

definition buffer_destroy :: "nat \<Rightarrow> RKBuffer \<Rightarrow> RKDriver \<Rightarrow> RKDriver" where
  "buffer_destroy p b d =
     (let d = (case b_derived b of Some v \<Rightarrow> if dv_map v then sys_log [Ev_Munmap (dv_fd v)] d else d | None \<Rightarrow> d);
          d = (if b_acquired_fd b \<ge> 0 then sys_log [Ev_Close (b_acquired_fd b)] d else d);
          d = (case b_derived b of Some v \<Rightarrow> d\<lparr>d_objs := rk_object_unref (dv_surface v) (d_objs d)\<rparr> | None \<Rightarrow> d)
      in d\<lparr>d_buf := (d_buf d)(p := None)\<rparr>)"

text \<open>\<open>rk_object_unref\<close> on a buffer: the last reference runs \<open>buffer_destroy\<close>.\<close>

definition buffer_unref :: "nat \<Rightarrow> RKDriver \<Rightarrow> RKDriver outcome" where
  "buffer_unref p d =
     (case d_buf d p of
        None \<Rightarrow> Fault
      | Some b \<Rightarrow>
          let last = obj_refs (d_objs d) p = 1; d = d\<lparr>d_objs := rk_object_unref p (d_objs d)\<rparr>
          in Ok (if last then buffer_destroy p b d else d))"

definition buffer_acquire :: "RKDriver \<Rightarrow> u32 \<Rightarrow> (nat option \<times> RKDriver) outcome" where
  "buffer_acquire d bid =
     obind (rk_object_heap_acquire (d_buffer_heap d) bid (d_objs d)) (\<lambda>(p, objs). Ok (p, d\<lparr>d_objs := objs\<rparr>))"

definition buffer_at :: "RKDriver \<Rightarrow> nat \<Rightarrow> RKBuffer outcome" where
  "buffer_at d p = (case d_buf d p of None \<Rightarrow> Fault | Some b \<Rightarrow> Ok b)"

definition buffer_set :: "nat \<Rightarrow> RKBuffer \<Rightarrow> RKDriver \<Rightarrow> RKDriver" where
  "buffer_set p b d = d\<lparr>d_buf := (d_buf d)(p \<mapsto> b)\<rparr>"

text \<open>
  The pattern of most entry points: acquire, run the body on the buffer, drop the reference. The
  body yields the result and the buffer it leaves behind.
\<close>

definition with_buffer ::
    "RKDriver \<Rightarrow> u32 \<Rightarrow> (nat \<Rightarrow> RKBuffer \<Rightarrow> RKDriver \<Rightarrow> ((VAStatus + 'a) \<times> RKDriver) outcome) \<Rightarrow> ((VAStatus + 'a) \<times> RKDriver) outcome" where
  "with_buffer d bid body =
     obind (buffer_acquire d bid) (\<lambda>(p, d).
       case p of
         None \<Rightarrow> Ok (Inl VA_STATUS_ERROR_INVALID_BUFFER, d)
       | Some p \<Rightarrow> obind (buffer_at d p) (\<lambda>b. obind (body p b d) (\<lambda>(r, d).
           obind (buffer_unref p d) (\<lambda>d. Ok (r, d)))))"

section \<open>Creation\<close>

definition size_overflow :: "u32 \<Rightarrow> u32 \<Rightarrow> bool" where
  "size_overflow each num \<longleftrightarrow> each \<noteq> 0 \<and> (ucast num :: u64) > - 1 div ucast each"

definition zero_segment :: VACodedBufferSegment where
  "zero_segment = \<lparr>seg_size = 0, seg_status = Coded_Status 0, seg_at_data = False\<rparr>"

definition fresh_buffer :: "VABufferType \<Rightarrow> u32 \<Rightarrow> u32 \<Rightarrow> u64 \<Rightarrow> RKBuffer" where
  "fresh_buffer type each num bytes =
     \<lparr>b_type = type, b_bytes = each, b_num_elements = num, b_capacity = bytes, b_data = [],
      b_segment = zero_segment, b_coded_ready = False, b_coded_failed = False, b_derived = None, b_acquired_fd = - 1\<rparr>"

text \<open>The body of \<open>rk_CreateBuffer\<close> from \<open>malloc\<close> on; \<open>data\<close> is the memory the caller passes.\<close>

definition fill_buffer :: "RKBuffer \<Rightarrow> u8 list option \<Rightarrow> RKBuffer outcome" where
  "fill_buffer b data =
     (let bytes = unat (b_capacity b)
      in obind (case data of
                  Some src \<Rightarrow> if length src < bytes then Fault else mem_write (mem_alloc bytes) 0 (take bytes src)
                | None \<Rightarrow> mem_write (mem_alloc bytes) 0 (replicate bytes 0)) (\<lambda>m.
           Ok (if b_type b = VAEncCodedBufferType then b\<lparr>b_data := m, b_segment := (b_segment b)\<lparr>seg_at_data := True\<rparr>\<rparr>
               else b\<lparr>b_data := m\<rparr>)))"

definition new_buffer :: "RKBuffer \<Rightarrow> RKDriver \<Rightarrow> nat \<times> RKDriver" where
  "new_buffer b d =
     (d_brk d, d\<lparr>d_brk := d_brk d + 1, d_objs := rk_object_init (d_brk d) (d_objs d), d_buf := (d_buf d)(d_brk d \<mapsto> b)\<rparr>)"

record create_mem =
  m_object :: bool
  m_data :: bool
  m_heap :: bool

definition rk_CreateBuffer ::
    "create_mem \<Rightarrow> RKDriver \<Rightarrow> VABufferType \<Rightarrow> u32 \<Rightarrow> u32 \<Rightarrow> u8 list option \<Rightarrow> ((VAStatus + u32) \<times> RKDriver) outcome" where
  "rk_CreateBuffer m d type each num data =
     (if size_overflow each num then Ok (Inl VA_STATUS_ERROR_ALLOCATION_FAILED, d)
      else if \<not> m_object m then Ok (Inl VA_STATUS_ERROR_ALLOCATION_FAILED, d)
      else let b = fresh_buffer type each num (ucast each * ucast num); (p, d) = new_buffer b d
      in if \<not> m_data m then obind (buffer_unref p d) (\<lambda>d. Ok (Inl VA_STATUS_ERROR_ALLOCATION_FAILED, d))
      else obind (fill_buffer b data) (\<lambda>b.
           let d = buffer_set p b d
           in obind (rk_object_heap_insert (m_heap m) (d_buffer_heap d) p) (\<lambda>(bid, h).
                let d = d\<lparr>d_buffer_heap := h\<rparr>
                in case bid of
                     None \<Rightarrow> obind (buffer_unref p d) (\<lambda>d. Ok (Inl VA_STATUS_ERROR_ALLOCATION_FAILED, d))
                   | Some bid \<Rightarrow> Ok (Inr bid, d))))"

definition create2_stride :: "u32 \<Rightarrow> u32" where
  "create2_stride width = (width + 15) AND NOT 15"

definition rk_CreateBuffer2 ::
    "create_mem \<Rightarrow> RKDriver \<Rightarrow> VABufferType \<Rightarrow> u32 \<Rightarrow> u32 \<Rightarrow> ((VAStatus + u32) \<times> u32 \<times> u32 \<times> RKDriver) outcome" where
  "rk_CreateBuffer2 m d type width height =
     (let stride = create2_stride width; each = stride * height
      in obind (rk_CreateBuffer m d type each 1 None) (\<lambda>(r, d). Ok (r, each, stride, d)))"

section \<open>Operations\<close>

text \<open>\<open>rk_BufferSetNumElements\<close> on an acquired buffer.\<close>

definition resize_buffer :: "RKBuffer \<Rightarrow> u32 \<Rightarrow> RKBuffer outcome" where
  "resize_buffer b num =
     (let bytes = ucast (b_bytes b) * ucast num; m = mem_realloc (b_data b) (unat bytes)
      in obind (if bytes > b_capacity b
                then mem_write m (unat (b_capacity b)) (replicate (unat (bytes - b_capacity b)) 0) else Ok m) (\<lambda>m.
         let b = b\<lparr>b_data := m, b_capacity := bytes, b_num_elements := num\<rparr>
         in Ok (if b_type b = VAEncCodedBufferType
                then b\<lparr>b_segment := (b_segment b)\<lparr>seg_at_data := True, seg_size := 0\<rparr>, b_coded_ready := False, b_coded_failed := False\<rparr>
                else b)))"

definition resize_call :: "bool \<Rightarrow> u32 \<Rightarrow> nat \<Rightarrow> RKBuffer \<Rightarrow> RKDriver \<Rightarrow> ((VAStatus + unit) \<times> RKDriver) outcome" where
  "resize_call mem_ok num p b d =
     (if size_overflow (b_bytes b) num then Ok (Inl VA_STATUS_ERROR_ALLOCATION_FAILED, d)
      else if \<not> mem_ok then Ok (Inl VA_STATUS_ERROR_ALLOCATION_FAILED, d)
      else obind (resize_buffer b num) (\<lambda>b. Ok (Inr (), buffer_set p b d)))"

definition rk_BufferSetNumElements ::
    "bool \<Rightarrow> RKDriver \<Rightarrow> u32 \<Rightarrow> u32 \<Rightarrow> ((VAStatus + unit) \<times> RKDriver) outcome" where
  "rk_BufferSetNumElements mem_ok d bid num = with_buffer d bid (resize_call mem_ok num)"

text \<open>
  \<open>derived_still_valid\<close>; \<open>layout\<close> is the result of \<open>surface_linear_layout\<close>: descriptor, object
  size, pitch and chroma offset of the surface now.
\<close>

definition derived_refresh :: "RKBuffer \<Rightarrow> derived_image \<Rightarrow> int \<Rightarrow> u64 \<Rightarrow> RKDriver \<Rightarrow> RKBuffer \<times> RKDriver" where
  "derived_refresh b v fd object_size d =
     (let d = (if dv_map v then sys_log [Ev_Munmap (dv_fd v)] d else d);
          d = (if b_acquired_fd b \<ge> 0 then sys_log [Ev_Close (b_acquired_fd b)] d else d)
      in (b\<lparr>b_derived := Some (v\<lparr>dv_map := False, dv_fd := fd, dv_size := object_size\<rparr>), b_acquired_fd := - 1\<rparr>, d))"

definition derived_still_valid ::
    "(int \<times> u64 \<times> u32 \<times> u64) option \<Rightarrow> RKBuffer \<Rightarrow> derived_image \<Rightarrow> RKDriver \<Rightarrow> (RKBuffer \<times> RKDriver) option" where
  "derived_still_valid layout b v d =
     (case layout of
        None \<Rightarrow> None
      | Some (fd, object_size, pitch, chroma_offset) \<Rightarrow>
          if pitch \<noteq> dv_pitch v \<or> chroma_offset \<noteq> dv_chroma_offset v then None
          else if fd \<noteq> dv_fd v then Some (derived_refresh b v fd object_size d)
          else Some (b, d))"

datatype mapping = Map_Data | Map_Segment | Map_Derived int

record map_env =
  e_layout :: "(int \<times> u64 \<times> u32 \<times> u64) option"
  e_layout_again :: "(int \<times> u64 \<times> u32 \<times> u64) option"
  e_mmap :: bool
  e_sync :: bool
  e_dup :: int

definition map_derived :: "map_env \<Rightarrow> nat \<Rightarrow> RKBuffer \<Rightarrow> RKDriver \<Rightarrow> ((VAStatus + mapping) \<times> RKDriver) outcome" where
  "map_derived e p b d =
     (case b_derived b of
        None \<Rightarrow> Fault
      | Some v \<Rightarrow>
          case derived_still_valid (e_layout e) b v d of
            None \<Rightarrow> Ok (Inl VA_STATUS_ERROR_OPERATION_FAILED, d)
          | Some (b, d) \<Rightarrow>
              let d = buffer_set p b d; v = the (b_derived b)
              in if \<not> dv_map v \<and> \<not> e_mmap e then Ok (Inl VA_STATUS_ERROR_OPERATION_FAILED, d)
                 else let d = buffer_set p (b\<lparr>b_derived := Some (v\<lparr>dv_map := True\<rparr>)\<rparr>) d
                      in if \<not> e_sync e then Ok (Inl VA_STATUS_ERROR_OPERATION_FAILED, d)
                         else Ok (Inr (Map_Derived (dv_fd v)), sys_log [Ev_Sync_Start (dv_fd v)] d))"

definition map_call :: "map_env \<Rightarrow> nat \<Rightarrow> RKBuffer \<Rightarrow> RKDriver \<Rightarrow> ((VAStatus + mapping) \<times> RKDriver) outcome" where
  "map_call e p b d =
     (if b_derived b \<noteq> None then map_derived e p b d
      else Ok (Inr (if b_type b = VAEncCodedBufferType then Map_Segment else Map_Data), d))"

definition rk_MapBuffer :: "map_env \<Rightarrow> RKDriver \<Rightarrow> u32 \<Rightarrow> ((VAStatus + mapping) \<times> RKDriver) outcome" where
  "rk_MapBuffer e d bid = with_buffer d bid (map_call e)"

definition unmap_call :: "map_env \<Rightarrow> nat \<Rightarrow> RKBuffer \<Rightarrow> RKDriver \<Rightarrow> ((VAStatus + unit) \<times> RKDriver) outcome" where
  "unmap_call e p b d =
     (case b_derived b of
        None \<Rightarrow> Ok (Inr (), d)
      | Some v \<Rightarrow>
          if dv_map v
          then if e_sync e then Ok (Inr (), sys_log [Ev_Sync_End (dv_fd v)] d) else Ok (Inl VA_STATUS_ERROR_OPERATION_FAILED, d)
          else Ok (Inr (), d))"

definition rk_UnmapBuffer :: "map_env \<Rightarrow> RKDriver \<Rightarrow> u32 \<Rightarrow> ((VAStatus + unit) \<times> RKDriver) outcome" where
  "rk_UnmapBuffer e d bid = with_buffer d bid (unmap_call e)"

definition rk_buffer_store_coded :: "RKBuffer \<Rightarrow> u8 list \<Rightarrow> u32 \<Rightarrow> (VAStatus \<times> RKBuffer) outcome" where
  "rk_buffer_store_coded b data status =
     (if b_type b \<noteq> VAEncCodedBufferType then Ok (VA_STATUS_ERROR_INVALID_BUFFER, b)
      else if length data > unat (b_capacity b)
      then Ok (VA_STATUS_ERROR_NOT_ENOUGH_BUFFER,
               b\<lparr>b_segment := (b_segment b)\<lparr>seg_size := 0, seg_status := Coded_Overflow\<rparr>, b_coded_ready := True, b_coded_failed := True\<rparr>)
      else obind (mem_write (b_data b) 0 data) (\<lambda>m.
           Ok (VA_STATUS_SUCCESS,
               b\<lparr>b_data := m, b_segment := \<lparr>seg_size = of_nat (length data), seg_status = Coded_Status status, seg_at_data = True\<rparr>,
                 b_coded_ready := True, b_coded_failed := False\<rparr>)))"

text \<open>\<open>prime\<close>: the caller asks for no memory type or for a DRM PRIME descriptor.\<close>

definition dup_handle :: "map_env \<Rightarrow> nat \<Rightarrow> RKBuffer \<Rightarrow> RKDriver \<Rightarrow> ((VAStatus + int \<times> u64) \<times> RKDriver) outcome" where
  "dup_handle e p b d =
     (case b_derived b of
        None \<Rightarrow> Fault
      | Some v \<Rightarrow>
          let b = b\<lparr>b_acquired_fd := e_dup e\<rparr>;
              d = buffer_set p b (if e_dup e \<ge> 0 then sys_log [Ev_Dup (dv_fd v) (e_dup e)] d else d)
          in case derived_still_valid (e_layout_again e) b v d of
               None \<Rightarrow> Ok (Inl VA_STATUS_ERROR_OPERATION_FAILED, d)
             | Some (b, d) \<Rightarrow>
                 if b_acquired_fd b < 0 then Ok (Inl VA_STATUS_ERROR_ALLOCATION_FAILED, buffer_set p b d)
                 else Ok (Inr (b_acquired_fd b, dv_size (the (b_derived b))), buffer_set p b d))"

definition handle_call :: "map_env \<Rightarrow> bool \<Rightarrow> nat \<Rightarrow> RKBuffer \<Rightarrow> RKDriver \<Rightarrow> ((VAStatus + int \<times> u64) \<times> RKDriver) outcome" where
  "handle_call e prime p b d =
     (case b_derived b of
        None \<Rightarrow> Ok (Inl VA_STATUS_ERROR_UNSUPPORTED_BUFFERTYPE, d)
      | Some v \<Rightarrow>
          if \<not> prime then Ok (Inl VA_STATUS_ERROR_UNSUPPORTED_MEMORY_TYPE, d)
          else case derived_still_valid (e_layout e) b v d of
            None \<Rightarrow> Ok (Inl VA_STATUS_ERROR_OPERATION_FAILED, d)
          | Some (b, d) \<Rightarrow>
              if b_acquired_fd b < 0 then dup_handle e p b d
              else Ok (Inr (b_acquired_fd b, dv_size (the (b_derived b))), buffer_set p b d))"

definition rk_buffer_acquire_handle ::
    "map_env \<Rightarrow> bool \<Rightarrow> RKDriver \<Rightarrow> u32 \<Rightarrow> ((VAStatus + int \<times> u64) \<times> RKDriver) outcome" where
  "rk_buffer_acquire_handle e prime d bid = with_buffer d bid (handle_call e prime)"

definition release_call :: "nat \<Rightarrow> RKBuffer \<Rightarrow> RKDriver \<Rightarrow> ((VAStatus + unit) \<times> RKDriver) outcome" where
  "release_call p b d =
     (if b_acquired_fd b \<ge> 0
      then Ok (Inr (), buffer_set p (b\<lparr>b_acquired_fd := - 1\<rparr>) (sys_log [Ev_Close (b_acquired_fd b)] d))
      else Ok (Inr (), d))"

definition rk_buffer_release_handle :: "RKDriver \<Rightarrow> u32 \<Rightarrow> ((VAStatus + unit) \<times> RKDriver) outcome" where
  "rk_buffer_release_handle d bid = with_buffer d bid release_call"

definition rk_DestroyBuffer :: "RKDriver \<Rightarrow> u32 \<Rightarrow> ((VAStatus + unit) \<times> RKDriver) outcome" where
  "rk_DestroyBuffer d bid =
     obind (rk_object_heap_remove (d_buffer_heap d) bid) (\<lambda>(p, h).
       let d = d\<lparr>d_buffer_heap := h\<rparr>
       in case p of
            None \<Rightarrow> Ok (Inl VA_STATUS_ERROR_INVALID_BUFFER, d)
          | Some p \<Rightarrow> obind (buffer_unref p d) (\<lambda>d. Ok (Inr (), d)))"

definition info_call :: "nat \<Rightarrow> RKBuffer \<Rightarrow> RKDriver \<Rightarrow> ((VAStatus + VABufferType \<times> u32 \<times> u32) \<times> RKDriver) outcome" where
  "info_call p b d = Ok (Inr (b_type b, b_bytes b, b_num_elements b), d)"

definition rk_BufferInfo :: "RKDriver \<Rightarrow> u32 \<Rightarrow> ((VAStatus + VABufferType \<times> u32 \<times> u32) \<times> RKDriver) outcome" where
  "rk_BufferInfo d bid = with_buffer d bid info_call"

section \<open>Calls in sequence\<close>

text \<open>The calls an application makes on its buffers; \<open>Op_Store\<close> is the encoder filling a coded buffer.\<close>

datatype buf_op =
    Op_Create create_mem VABufferType u32 u32 "u8 list option"
  | Op_Resize bool u32 u32
  | Op_Map map_env u32
  | Op_Unmap map_env u32
  | Op_Store u32 "u8 list"
  | Op_Handle map_env bool u32
  | Op_Release u32
  | Op_Destroy u32
  | Op_Info u32

definition store_call :: "u8 list \<Rightarrow> nat \<Rightarrow> RKBuffer \<Rightarrow> RKDriver \<Rightarrow> ((VAStatus + unit) \<times> RKDriver) outcome" where
  "store_call data p b d =
     obind (rk_buffer_store_coded b data 0) (\<lambda>(st, b).
       Ok (if st = VA_STATUS_SUCCESS then Inr () else Inl st, buffer_set p b d))"

definition rk_store_coded :: "RKDriver \<Rightarrow> u32 \<Rightarrow> u8 list \<Rightarrow> ((VAStatus + unit) \<times> RKDriver) outcome" where
  "rk_store_coded d bid data = with_buffer d bid (store_call data)"

fun buf_step :: "buf_op \<Rightarrow> RKDriver \<Rightarrow> RKDriver outcome" where
  "buf_step (Op_Create m type each num data) d = obind (rk_CreateBuffer m d type each num data) (\<lambda>(r, d). Ok d)"
| "buf_step (Op_Resize mem_ok i n) d = obind (rk_BufferSetNumElements mem_ok d i n) (\<lambda>(r, d). Ok d)"
| "buf_step (Op_Map e i) d = obind (rk_MapBuffer e d i) (\<lambda>(r, d). Ok d)"
| "buf_step (Op_Unmap e i) d = obind (rk_UnmapBuffer e d i) (\<lambda>(r, d). Ok d)"
| "buf_step (Op_Store i data) d = obind (rk_store_coded d i data) (\<lambda>(r, d). Ok d)"
| "buf_step (Op_Handle e prime i) d = obind (rk_buffer_acquire_handle e prime d i) (\<lambda>(r, d). Ok d)"
| "buf_step (Op_Release i) d = obind (rk_buffer_release_handle d i) (\<lambda>(r, d). Ok d)"
| "buf_step (Op_Destroy i) d = obind (rk_DestroyBuffer d i) (\<lambda>(r, d). Ok d)"
| "buf_step (Op_Info i) d = obind (rk_BufferInfo d i) (\<lambda>(r, d). Ok d)"

fun buf_run :: "buf_op list \<Rightarrow> RKDriver \<Rightarrow> RKDriver outcome" where
  "buf_run [] d = Ok d"
| "buf_run (a # as) d = obind (buf_step a d) (buf_run as)"

text \<open>The obligation of the caller: memory it passes holds as many bytes as it announces.\<close>

fun buf_op_ok :: "buf_op \<Rightarrow> bool" where
  "buf_op_ok (Op_Create m type each num (Some data)) \<longleftrightarrow> unat each * unat num \<le> length data"
| "buf_op_ok _ \<longleftrightarrow> True"

fun buf_op_target :: "buf_op \<Rightarrow> u32 option" where
  "buf_op_target (Op_Resize _ i _) = Some i"
| "buf_op_target (Op_Store i _) = Some i"
| "buf_op_target (Op_Destroy i) = Some i"
| "buf_op_target _ = None"

section \<open>Invariant\<close>

definition init_prefix :: "nat \<Rightarrow> mem \<Rightarrow> bool" where
  "init_prefix n m \<longleftrightarrow> n \<le> length m \<and> (\<forall>i < n. m ! i \<noteq> None)"

definition buf_wf :: "RKBuffer \<Rightarrow> bool" where
  "buf_wf b \<longleftrightarrow> b_data b \<noteq> [] \<and> (b_derived b \<noteq> None \<longrightarrow> b_type b = VAImageBufferType) \<and> (b_derived b = None \<longrightarrow>
     unat (b_bytes b) * unat (b_num_elements b) = unat (b_capacity b) \<and> init_prefix (unat (b_capacity b)) (b_data b))"

definition b_surface :: "RKBuffer \<Rightarrow> nat option" where
  "b_surface b = map_option dv_surface (b_derived b)"

definition store_ok :: "nat \<Rightarrow> (nat \<rightharpoonup> RKBuffer) \<Rightarrow> bool" where
  "store_ok brk m \<longleftrightarrow> (\<forall>p b. m p = Some b \<longrightarrow> p < brk \<and> buf_wf b \<and> (\<forall>s. b_surface b = Some s \<longrightarrow> m s = None \<and> s < brk))"

definition handles_ok :: "RKObjectHeap \<Rightarrow> (nat \<rightharpoonup> 'b) \<Rightarrow> (nat \<Rightarrow> u32) \<Rightarrow> bool" where
  "handles_ok h m refs \<longleftrightarrow> heap_inv h \<and>
     (\<forall>i p. heap_find h i = Some p \<longrightarrow> m p \<noteq> None \<and> refs p \<noteq> 0) \<and>
     (\<forall>i i' p. heap_find h i = Some p \<longrightarrow> heap_find h i' = Some p \<longrightarrow> i = i')"

definition drv_inv :: "RKDriver \<Rightarrow> bool" where
  "drv_inv d \<longleftrightarrow> handles_ok (d_buffer_heap d) (d_buf d) (obj_refs (d_objs d)) \<and> store_ok (d_brk d) (d_buf d)"

definition bytes_of :: "RKBuffer \<Rightarrow> (VABufferType \<times> u8 list) option" where
  "bytes_of b = (case mem_read (b_data b) 0 (unat (b_capacity b)) of Ok xs \<Rightarrow> Some (b_type b, xs) | _ \<Rightarrow> None)"

definition buffer_bytes :: "RKDriver \<Rightarrow> u32 \<Rightarrow> (VABufferType \<times> u8 list) option" where
  "buffer_bytes d i = Option.bind (heap_find (d_buffer_heap d) i) (\<lambda>p. Option.bind (d_buf d p) bytes_of)"

section \<open>Memory lemmas\<close>

lemma unat_mul32: "unat (ucast (a :: u32) * ucast (b :: u32) :: u64) = unat a * unat b"
proof -
  have "unat a * unat b < 2 ^ 32 * 2 ^ 32" by (intro mult_strict_mono) (use unsigned_less [of a] unsigned_less [of b] in auto)
  then show ?thesis by (simp add: unat_word_ariths(2))
qed

lemma mem_alloc_write:
  "length xs = n \<Longrightarrow> mem_write (mem_alloc n) 0 xs = Ok (map Some xs @ (if n = 0 then [None] else []))"
  by (auto simp: mem_write_def mem_alloc_def)

lemma init_prefix_read:
  assumes "init_prefix n m"
  obtains xs where "mem_read m 0 n = Ok xs" "length xs = n"
  using assms that by (auto simp: init_prefix_def mem_read_def list_all_length)

lemma init_prefix_write:
  "init_prefix n m \<Longrightarrow> mem_write m off xs = Ok m' \<Longrightarrow> init_prefix n m'"
  by (auto simp: init_prefix_def mem_write_def nth_append split: if_splits)

lemma mem_read_init: "mem_read (map Some xs @ m) 0 (length xs) = Ok xs"
  by (simp add: mem_read_def list_all_iff comp_def)

section \<open>The body of a call on one buffer\<close>

lemma sys_log_Nil [simp]: "sys_log [] d = d"
  by (simp add: sys_log_def)

lemma sys_log_fields [simp]:
  "d_objs (sys_log evs d) = d_objs d" "d_brk (sys_log evs d) = d_brk d"
  "d_buffer_heap (sys_log evs d) = d_buffer_heap d" "d_buf (sys_log evs d) = d_buf d"
  "sys_log evs (sys_log evs' d) = sys_log (evs' @ evs) d"
  by (simp_all add: sys_log_def)

lemma buffer_set_fields [simp]:
  "d_objs (buffer_set p b d) = d_objs d" "d_brk (buffer_set p b d) = d_brk d"
  "d_buffer_heap (buffer_set p b d) = d_buffer_heap d" "d_buf (buffer_set p b d) = (d_buf d)(p \<mapsto> b)"
  "buffer_set p b (buffer_set p b' d) = buffer_set p b d"
  "sys_log evs (buffer_set p b d) = buffer_set p b (sys_log evs d)"
  by (simp_all add: buffer_set_def sys_log_def)

lemma buffer_set_same: "d_buf d p = Some b \<Longrightarrow> buffer_set p b d = d"
  by (simp add: buffer_set_def fun_upd_idem)

text \<open>
  What a body may do: replace the buffer by one of the same type and the same surface that is
  well formed again, with the same contents unless it writes (\<open>w\<close>), and log system calls.
\<close>

definition buf_keeps :: "bool \<Rightarrow> RKBuffer \<Rightarrow> RKBuffer \<Rightarrow> bool" where
  "buf_keeps w b b' \<longleftrightarrow> (buf_wf b \<longrightarrow> buf_wf b') \<and> b_type b' = b_type b \<and>
     b_surface b' = b_surface b \<and>
     (\<not> w \<longrightarrow> b_data b' = b_data b \<and> b_capacity b' = b_capacity b)"

definition is_local :: "bool \<Rightarrow> nat \<Rightarrow> RKBuffer \<Rightarrow> RKDriver \<Rightarrow> ((VAStatus + 'a) \<times> RKDriver) outcome \<Rightarrow> bool" where
  "is_local w p b d res \<longleftrightarrow> (\<exists>r b' evs. res = Ok (r, buffer_set p b' (sys_log evs d)) \<and> buf_keeps w b b')"

definition local_body :: "bool \<Rightarrow> (nat \<Rightarrow> RKBuffer \<Rightarrow> RKDriver \<Rightarrow> ((VAStatus + 'a) \<times> RKDriver) outcome) \<Rightarrow> bool" where
  "local_body w body \<longleftrightarrow> (\<forall>p b d. d_buf d p = Some b \<longrightarrow> buf_wf b \<longrightarrow> is_local w p b d (body p b d))"

lemma buf_keeps_refl [simp]: "buf_keeps w b b"
  by (simp add: buf_keeps_def)

lemma buf_keeps_trans: "buf_keeps w a b \<Longrightarrow> buf_keeps w b c \<Longrightarrow> buf_keeps w a c"
  by (auto simp: buf_keeps_def)

lemma is_local_intros:
  "d_buf d p = Some b \<Longrightarrow> is_local w p b d (Ok (r, sys_log evs d))"
  "d_buf d p = Some b \<Longrightarrow> is_local w p b d (Ok (r, d))"
  "buf_keeps w b b' \<Longrightarrow> is_local w p b d (Ok (r, buffer_set p b' (sys_log evs d)))"
  "buf_keeps w b b' \<Longrightarrow> is_local w p b d (Ok (r, buffer_set p b' d))"
proof -
  show 1: "buf_keeps w b b' \<Longrightarrow> is_local w p b d (Ok (r, buffer_set p b' (sys_log evs d)))" for b' evs
    unfolding is_local_def by blast
  show "buf_keeps w b b' \<Longrightarrow> is_local w p b d (Ok (r, buffer_set p b' d))"
    using 1 [of b' "[]"] by simp
  show "d_buf d p = Some b \<Longrightarrow> is_local w p b d (Ok (r, sys_log evs d))"
    using 1 [of b evs] by (simp add: buffer_set_same)
  show "d_buf d p = Some b \<Longrightarrow> is_local w p b d (Ok (r, d))"
    using 1 [of b "[]"] by (simp add: buffer_set_same)
qed

lemma buffer_unref_acquired:
  assumes "d_buf d p = Some b" and "rk_object_ref p objs = (True, objs')" and "d_objs d = objs'"
  shows "buffer_unref p d = Ok (d\<lparr>d_objs := objs\<rparr>)"
proof -
  from assms(2) have "obj_refs objs p \<noteq> 0" and r: "obj_refs objs' p = obj_refs objs p + 1"
    by (auto simp: rk_object_ref_def Let_def split: if_splits)
  then have "obj_refs objs' p \<noteq> 1" by simp
  with assms rk_object_ref_unref [OF assms(2)] show ?thesis by (simp add: buffer_unref_def Let_def)
qed

lemma with_buffer_local:
  assumes "drv_inv d" and "local_body w body"
  obtains (missing) "with_buffer d i body = Ok (Inl VA_STATUS_ERROR_INVALID_BUFFER, d)"
  | (called) p b r b' evs where "heap_find (d_buffer_heap d) i = Some p" "d_buf d p = Some b" "buf_wf b"
      "with_buffer d i body = Ok (r, buffer_set p b' (sys_log evs d))" "buf_keeps w b b'"
proof (cases "heap_find (d_buffer_heap d) i")
  case None
  have "buffer_acquire d i = Ok (None, d)"
    using assms(1) None by (simp add: buffer_acquire_def heap_acquire_find drv_inv_def handles_ok_def)
  with missing show thesis by (simp add: with_buffer_def)
next
  case (Some p)
  obtain b where b: "d_buf d p = Some b" "buf_wf b"
    using assms(1) Some by (fastforce simp: drv_inv_def handles_ok_def store_ok_def)
  obtain ok objs where r: "rk_object_ref p (d_objs d) = (ok, objs)" by fastforce
  have acq: "buffer_acquire d i = Ok (if ok then Some p else None, d\<lparr>d_objs := objs\<rparr>)"
    using assms(1) Some r by (simp add: buffer_acquire_def heap_acquire_find drv_inv_def handles_ok_def)
  show thesis
  proof (cases ok)
    case False
    with r have "objs = d_objs d" by (auto simp: rk_object_ref_def Let_def split: if_splits)
    with acq False missing show thesis by (simp add: with_buffer_def)
  next
    case True
    let ?d = "d\<lparr>d_objs := objs\<rparr>"
    have "d_buf ?d p = Some b" using b(1) by simp
    then obtain res b' evs where body: "body p b ?d = Ok (res, buffer_set p b' (sys_log evs ?d))" "buf_keeps w b b'"
      using assms(2) b(2) unfolding local_body_def is_local_def by blast
    have "buffer_unref p (buffer_set p b' (sys_log evs ?d)) = Ok (buffer_set p b' (sys_log evs d))"
      using buffer_unref_acquired [of "buffer_set p b' (sys_log evs ?d)" p b' "d_objs d" objs] r True
      by (simp add: buffer_set_def sys_log_def)
    with acq True b body called [OF Some b _ body(2)] show thesis
      by (simp add: with_buffer_def buffer_at_def)
  qed
qed

lemma store_ok_upd:
  assumes "store_ok k m" and "m p = Some b" and "buf_keeps w b b'"
  shows "store_ok k (m(p \<mapsto> b'))"
  unfolding store_ok_def
proof (intro allI impI)
  fix q c assume "(m(p \<mapsto> b')) q = Some c"
  then obtain c0 where c0: "m q = Some c0" "b_surface c = b_surface c0" "buf_wf c"
    using assms by (cases "q = p") (auto simp: store_ok_def buf_keeps_def)
  with assms(1) have "q < k" "\<forall>s. b_surface c = Some s \<longrightarrow> m s = None \<and> s < k" by (auto simp: store_ok_def)
  with c0(3) assms(2) show "q < k \<and> buf_wf c \<and> (\<forall>s. b_surface c = Some s \<longrightarrow> (m(p \<mapsto> b')) s = None \<and> s < k)"
    by auto
qed

lemma drv_inv_set:
  assumes "drv_inv d" and "d_buf d p = Some b" and "buf_keeps w b b'"
  shows "drv_inv (buffer_set p b' (sys_log evs d))"
  using assms store_ok_upd [of "d_brk d" "d_buf d" p b w b'] by (auto simp: drv_inv_def handles_ok_def)

subsection \<open>The bodies are local\<close>

lemma localI:
  "(\<And>p b d. d_buf d p = Some b \<Longrightarrow> buf_wf b \<Longrightarrow> is_local w p b d (body p b d)) \<Longrightarrow> local_body w body"
  unfolding local_body_def by blast

lemma resize_wf:
  assumes "buf_wf b"
  obtains b' where "resize_buffer b num = Ok b'" "buf_keeps True b b'"
proof -
  let ?n = "unat (b_bytes b) * unat num" and ?c = "unat (b_capacity b)"
  let ?m = "mem_realloc (b_data b) ?n"
  let ?bytes = "ucast (b_bytes b) * ucast num :: u64"
  have n: "unat ?bytes = ?n" by (rule unat_mul32)
  have len: "length ?m = (if ?n = 0 then 1 else ?n)" by (auto simp: mem_realloc_def Let_def min_def)
  have gap: "unat (?bytes - b_capacity b) = ?n - ?c" if "?bytes > b_capacity b"
    using that by (simp add: unat_sub n less_imp_le)
  define m' where "m' = (if ?bytes > b_capacity b then take ?c ?m @ replicate (?n - ?c) (Some 0) else ?m)"
  have w: "(if ?bytes > b_capacity b then mem_write ?m ?c (replicate (unat (?bytes - b_capacity b)) 0) else Ok ?m) = Ok m'"
    using len gap by (auto simp: mem_write_def m'_def word_less_nat_alt n map_replicate)
  have "?m \<noteq> []" by (metis len length_0_conv zero_neq_one)
  then have m': "m' \<noteq> []" "?n \<le> length m'" using len by (auto simp: m'_def word_less_nat_alt n)
  have init: "init_prefix ?n m'" if "b_derived b = None"
  proof -
    from assms that have c: "?c \<le> length (b_data b)" "\<forall>i < ?c. b_data b ! i \<noteq> None"
      by (auto simp: buf_wf_def init_prefix_def)
    have old: "?m ! i = b_data b ! i" if "i < ?n" "i < ?c" for i
      using that c by (auto simp: mem_realloc_def Let_def nth_append)
    have "m' ! i \<noteq> None" if "i < ?n" for i
      using that old [of i] c len by (cases "i < ?c") (auto simp: m'_def nth_append word_less_nat_alt n)
    with m'(2) show ?thesis by (simp add: init_prefix_def)
  qed
  have r: "\<exists>b'. resize_buffer b num = Ok b' \<and> b_data b' = m' \<and> b_capacity b' = ?bytes \<and> b_num_elements b' = num \<and>
      b_bytes b' = b_bytes b \<and> b_type b' = b_type b \<and> b_derived b' = b_derived b"
    unfolding resize_buffer_def Let_def n w by simp
  then obtain b' where "resize_buffer b num = Ok b'" and f: "b_data b' = m'" "b_capacity b' = ?bytes" "b_num_elements b' = num"
      "b_bytes b' = b_bytes b" "b_type b' = b_type b" "b_derived b' = b_derived b"
    by blast
  moreover have "buf_keeps True b b'"
    unfolding buf_keeps_def buf_wf_def b_surface_def f n using m' init by simp
  ultimately show thesis using that by blast
qed

lemma derived_still_valid_keeps:
  assumes "derived_still_valid layout b v d = Some (b', d')" and "b_derived b = Some v"
  obtains evs where "d' = sys_log evs d" "buf_keeps w b b'" "b_derived b' \<noteq> None"
  using assms that [of "[]"] that
  by (auto simp: derived_still_valid_def derived_refresh_def Let_def buf_keeps_def buf_wf_def b_surface_def split: option.splits if_splits)

lemma store_coded_keeps:
  assumes "buf_wf b"
  obtains st b' where "rk_buffer_store_coded b data status = Ok (st, b')" "buf_keeps True b b'"
proof (cases "b_type b = VAEncCodedBufferType \<and> length data \<le> unat (b_capacity b)")
  case True
  from assms True have b: "b_derived b = None" "init_prefix (unat (b_capacity b)) (b_data b)"
    by (auto simp: buf_wf_def)
  with True obtain m where w: "mem_write (b_data b) 0 data = Ok m" by (auto simp: mem_write_def init_prefix_def)
  let ?b = "b\<lparr>b_data := m, b_segment := \<lparr>seg_size = of_nat (length data), seg_status = Coded_Status status, seg_at_data = True\<rparr>,
    b_coded_ready := True, b_coded_failed := False\<rparr>"
  have "m \<noteq> []" using w assms by (auto simp: mem_write_def buf_wf_def split: if_splits)
  then have "buf_keeps True b ?b"
    using init_prefix_write [OF b(2) w] b(1) by (auto simp: buf_keeps_def buf_wf_def b_surface_def)
  moreover have "rk_buffer_store_coded b data status = Ok (VA_STATUS_SUCCESS, ?b)"
    using True w by (simp add: rk_buffer_store_coded_def)
  ultimately show thesis using that by blast
next
  case False
  have "buf_keeps True b (b\<lparr>b_segment := (b_segment b)\<lparr>seg_size := 0, seg_status := Coded_Overflow\<rparr>,
      b_coded_ready := True, b_coded_failed := True\<rparr>)"
    by (simp add: buf_keeps_def buf_wf_def b_surface_def)
  with False that show thesis
    by (cases "b_type b = VAEncCodedBufferType") (auto simp: rk_buffer_store_coded_def)
qed

lemma buf_keeps_derived:
  "b_derived b = Some v \<Longrightarrow> dv_surface v' = dv_surface v \<Longrightarrow> buf_keeps w b (b\<lparr>b_derived := Some v'\<rparr>)"
  "buf_keeps w b (b\<lparr>b_acquired_fd := fd\<rparr>)"
  by (simp_all add: buf_keeps_def buf_wf_def b_surface_def)

lemma local_calls:
  "local_body True (resize_call mem_ok num)" "local_body w (unmap_call e)" "local_body True (store_call data)"
  "local_body w release_call" "local_body w info_call"
proof -
  show "local_body True (resize_call mem_ok num)"
  proof (rule localI)
    fix p b and d :: RKDriver assume b: "d_buf d p = Some b" "buf_wf b"
    obtain b' where "resize_buffer b num = Ok b'" "buf_keeps True b b'" by (rule resize_wf [OF b(2)])
    with b(1) show "is_local True p b d (resize_call mem_ok num p b d)" by (simp add: resize_call_def is_local_intros)
  qed
  show "local_body True (store_call data)"
  proof (rule localI)
    fix p b and d :: RKDriver assume b: "d_buf d p = Some b" "buf_wf b"
    obtain st b' where "rk_buffer_store_coded b data 0 = Ok (st, b')" "buf_keeps True b b'" by (rule store_coded_keeps [OF b(2)])
    then show "is_local True p b d (store_call data p b d)" by (simp add: store_call_def is_local_intros)
  qed
  show "local_body w (unmap_call e)" by (rule localI) (auto simp: unmap_call_def is_local_intros split: option.splits)
  show "local_body w info_call" by (rule localI) (simp add: info_call_def is_local_intros)
  show "local_body w release_call" by (rule localI) (simp add: release_call_def is_local_intros buf_keeps_derived)
qed

lemma local_map: "local_body w (map_call e)"
proof (rule localI)
  fix p b and d :: RKDriver assume b: "d_buf d p = Some b" "buf_wf b"
  show "is_local w p b d (map_call e p b d)"
  proof (cases "b_derived b")
    case None
    with b(1) show ?thesis by (simp add: map_call_def is_local_intros)
  next
    case (Some v)
    note v = this
    show ?thesis
    proof (cases "derived_still_valid (e_layout e) b v d")
      case None
      with v b(1) show ?thesis by (simp add: map_call_def map_derived_def is_local_intros)
    next
      case (Some x)
      then obtain b1 d1 where x: "derived_still_valid (e_layout e) b v d = Some (b1, d1)" by (cases x) auto
      obtain evs where k: "d1 = sys_log evs d" "buf_keeps w b b1" "b_derived b1 \<noteq> None"
        by (rule derived_still_valid_keeps [OF x v])
      then obtain v1 where v1: "b_derived b1 = Some v1" by blast
      have "buf_keeps w b (b1\<lparr>b_derived := Some (v1\<lparr>dv_map := True\<rparr>)\<rparr>)"
        by (rule buf_keeps_trans [OF k(2) buf_keeps_derived(1) [OF v1]]) simp
      with k(2) v show ?thesis
        by (simp add: map_call_def map_derived_def x v1 k(1) Let_def is_local_intros)
    qed
  qed
qed

lemma local_dup:
  assumes "b_derived b = Some v" and "buf_keeps w b0 b"
  shows "is_local w p b0 d0 (dup_handle e p b (sys_log evs0 d0))"
proof -
  let ?b = "b\<lparr>b_acquired_fd := e_dup e\<rparr>" and ?d = "sys_log evs0 d0"
  let ?d1 = "if e_dup e \<ge> 0 then sys_log [Ev_Dup (dv_fd v) (e_dup e)] ?d else ?d"
  obtain evs1 where d: "?d1 = sys_log evs1 d0" by (cases "e_dup e \<ge> 0") auto
  have kb: "buf_keeps w b0 ?b" by (rule buf_keeps_trans [OF assms(2) buf_keeps_derived(2)])
  show ?thesis
  proof (cases "derived_still_valid (e_layout_again e) ?b v (buffer_set p ?b ?d1)")
    case None
    with kb assms(1) show ?thesis by (simp add: dup_handle_def Let_def d is_local_intros del: sys_log_fields)
  next
    case (Some x)
    then obtain b1 d1 where x: "derived_still_valid (e_layout_again e) ?b v (buffer_set p ?b ?d1) = Some (b1, d1)" by (cases x) auto
    have "b_derived ?b = Some v" using assms(1) by simp
    then obtain evs where k: "d1 = sys_log evs (buffer_set p ?b ?d1)" "buf_keeps w ?b b1"
      by (rule derived_still_valid_keeps [OF x]) blast
    have "buf_keeps w b0 b1" by (rule buf_keeps_trans [OF kb k(2)])
    moreover have "buffer_set p b1 d1 = buffer_set p b1 (sys_log (evs1 @ evs) d0)" unfolding k(1) d by simp
    ultimately show ?thesis
      using assms(1) x by (simp add: dup_handle_def Let_def is_local_intros del: sys_log_fields)
  qed
qed

lemma local_handle: "local_body w (handle_call e prime)"
proof (rule localI)
  fix p b and d :: RKDriver assume b: "d_buf d p = Some b" "buf_wf b"
  show "is_local w p b d (handle_call e prime p b d)"
  proof (cases "\<exists>v b1 d1. b_derived b = Some v \<and> prime \<and> derived_still_valid (e_layout e) b v d = Some (b1, d1)")
    case False
    with b(1) show ?thesis by (auto simp: handle_call_def is_local_intros split: option.splits)
  next
    case True
    then obtain v b1 d1 where v: "b_derived b = Some v" and prime and x: "derived_still_valid (e_layout e) b v d = Some (b1, d1)"
      by blast
    obtain evs where k: "d1 = sys_log evs d" "buf_keeps w b b1" "b_derived b1 \<noteq> None"
      by (rule derived_still_valid_keeps [OF x v])
    then obtain v1 where v1: "b_derived b1 = Some v1" by blast
    show ?thesis
      using local_dup [OF v1 k(2), of p d e evs] k(2) v x \<open>prime\<close> by (simp add: handle_call_def k(1) is_local_intros)
  qed
qed

section \<open>Creation and destruction\<close>

lemma fill_buffer_ok:
  assumes "\<And>src. data = Some src \<Longrightarrow> unat each * unat num \<le> length src"
  obtains b xs where "fill_buffer (fresh_buffer type each num (ucast each * ucast num)) data = Ok b" "buf_wf b" "b_surface b = None"
    "b_type b = type" "mem_read (b_data b) 0 (unat (b_capacity b)) = Ok xs"
    "xs = (case data of Some src \<Rightarrow> take (unat each * unat num) src | None \<Rightarrow> replicate (unat each * unat num) 0)"
proof -
  let ?n = "unat each * unat num" and ?b = "fresh_buffer type each num (ucast each * ucast num)"
  let ?xs = "case data of Some src \<Rightarrow> take ?n src | None \<Rightarrow> replicate ?n 0"
  let ?m = "map Some ?xs @ (if ?n = 0 then [None] else [])"
  have xs: "length ?xs = ?n" using assms by (cases data) auto
  have cap: "unat (b_capacity ?b) = ?n" by (simp add: fresh_buffer_def unat_mul32)
  have "(case data of Some src \<Rightarrow> if length src < ?n then Fault else mem_write (mem_alloc ?n) 0 (take ?n src)
      | None \<Rightarrow> mem_write (mem_alloc ?n) 0 (replicate ?n 0)) = Ok ?m"
    using assms by (cases data) (auto simp: mem_alloc_write not_less)
  then obtain b where b: "fill_buffer ?b data = Ok b" and f: "b_data b = ?m" "b_capacity b = b_capacity ?b" "b_type b = type"
      "b_bytes b = each" "b_num_elements b = num" "b_derived b = None"
    unfolding fill_buffer_def cap Let_def by (auto simp: fresh_buffer_def)
  have "init_prefix ?n ?m" using xs by (auto simp: init_prefix_def nth_append)
  moreover have "?m \<noteq> []" using xs by (cases "?n = 0") auto
  ultimately have "buf_wf b" unfolding buf_wf_def f(2,4-6) cap by (simp only: f(1) option.simps simp_thms)
  moreover have "mem_read (b_data b) 0 (unat (b_capacity b)) = Ok ?xs"
    using mem_read_init [of ?xs] unfolding xs f(1,2) cap .
  ultimately show thesis using that [OF b] f by (simp add: b_surface_def)
qed

lemma store_ok_new:
  assumes "store_ok k m" and "buf_wf b" and "b_surface b = None"
  shows "store_ok (Suc k) (m(k \<mapsto> b))"
  unfolding store_ok_def
proof (intro allI impI)
  fix q c assume c: "(m(k \<mapsto> b)) q = Some c"
  show "q < Suc k \<and> buf_wf c \<and> (\<forall>s. b_surface c = Some s \<longrightarrow> (m(k \<mapsto> b)) s = None \<and> s < Suc k)"
  proof (cases "q = k")
    case False
    with c assms(1) have "q < k" "buf_wf c" "\<forall>s. b_surface c = Some s \<longrightarrow> m s = None \<and> s < k"
      by (auto simp: store_ok_def)
    then show ?thesis by auto
  qed (use c assms in simp)
qed

lemma store_ok_weaken: "store_ok k m \<Longrightarrow> store_ok k (m(p := None))" "store_ok k m \<Longrightarrow> store_ok (Suc k) m"
  by (fastforce simp: store_ok_def)+

lemma store_ok_fresh: "store_ok k m \<Longrightarrow> m k = None"
  by (cases "m k") (auto simp: store_ok_def)

lemma handles_named:
  assumes "handles_ok h m refs" and "heap_find h i = Some p"
  obtains b where "m p = Some b" "refs p \<noteq> 0" "\<And>j. heap_find h j = Some p \<Longrightarrow> j = i"
  using assms unfolding handles_ok_def by blast

lemma handles_ok_frame:
  assumes "handles_ok h m refs" and "\<And>p. m p \<noteq> None \<Longrightarrow> refs p \<noteq> 0 \<Longrightarrow> m' p \<noteq> None \<and> refs' p \<noteq> 0"
  shows "handles_ok h m' refs'"
  using assms by (auto simp: handles_ok_def)

lemma buffer_unref_last:
  "d_buf d p = Some b \<Longrightarrow> b_derived b = None \<Longrightarrow> b_acquired_fd b = - 1 \<Longrightarrow> obj_refs (d_objs d) p = 1 \<Longrightarrow>
     buffer_unref p d = Ok (d\<lparr>d_objs := rk_object_unref p (d_objs d), d_buf := (d_buf d)(p := None)\<rparr>)"
  by (simp add: buffer_unref_def buffer_destroy_def Let_def)

lemma fill_buffer_keeps:
  "fill_buffer b data = Ok b' \<Longrightarrow> b_derived b' = b_derived b \<and> b_acquired_fd b' = b_acquired_fd b"
  by (auto simp: fill_buffer_def Let_def split: if_splits)

lemma new_buffer_fails:
  assumes "drv_inv d" and "b_derived b = None" and "b_acquired_fd b = - 1"
  defines "p \<equiv> d_brk d"
  defines "d1 \<equiv> d\<lparr>d_brk := Suc p, d_objs := rk_object_init p (d_objs d), d_buf := (d_buf d)(p \<mapsto> b)\<rparr>"
  shows "\<exists>d'. buffer_unref p d1 = Ok d' \<and> drv_inv d' \<and> d_buffer_heap d' = d_buffer_heap d \<and> d_buf d' = d_buf d"
proof -
  let ?d' = "d1\<lparr>d_objs := rk_object_unref p (d_objs d1), d_buf := (d_buf d1)(p := None)\<rparr>"
  have ok: "store_ok p (d_buf d)" "handles_ok (d_buffer_heap d) (d_buf d) (obj_refs (d_objs d))"
    using assms(1) by (simp_all add: drv_inv_def p_def)
  note fresh = store_ok_fresh [OF ok(1)]
  have "buffer_unref p d1 = Ok ?d'"
    by (rule buffer_unref_last) (use assms(2,3) in \<open>simp_all add: d1_def rk_object_init_def\<close>)
  moreover have buf: "d_buf ?d' = d_buf d" using fresh by (simp add: d1_def fun_upd_idem)
  moreover have "handles_ok (d_buffer_heap d) (d_buf d) (obj_refs (d_objs ?d'))"
    by (rule handles_ok_frame [OF ok(2)])
       (use fresh in \<open>auto simp: d1_def rk_object_unref_def rk_object_init_def Let_def\<close>)
  ultimately show ?thesis
    using store_ok_weaken(2) [OF ok(1)] by (auto simp: drv_inv_def buf d1_def)
qed

definition created :: "RKDriver \<Rightarrow> u32 \<Rightarrow> nat \<Rightarrow> RKBuffer \<Rightarrow> RKDriver \<Rightarrow> bool" where
  "created d i p b d' \<longleftrightarrow> heap_find (d_buffer_heap d) i = None \<and> heap_find (d_buffer_heap d') = (heap_find (d_buffer_heap d))(i \<mapsto> p) \<and>
     d_buf d p = None \<and> d_buf d' = (d_buf d)(p \<mapsto> b)"

lemma new_buffer_enters:
  assumes "drv_inv d" and "buf_wf b" and "b_surface b = None"
  defines "p \<equiv> d_brk d"
  assumes "rk_object_heap_insert mem (d_buffer_heap d) p = Ok (Some i, h)"
  defines "d' \<equiv> d\<lparr>d_brk := Suc p, d_objs := rk_object_init p (d_objs d), d_buf := (d_buf d)(p \<mapsto> b), d_buffer_heap := h\<rparr>"
  shows "drv_inv d' \<and> created d i p b d'"
proof -
  have ok: "store_ok p (d_buf d)" "handles_ok (d_buffer_heap d) (d_buf d) (obj_refs (d_objs d))"
    using assms(1) by (simp_all add: drv_inv_def p_def)
  note fresh = store_ok_fresh [OF ok(1)]
  from ok(2) have inv: "heap_inv (d_buffer_heap d)" by (simp add: handles_ok_def)
  note find = heap_map.ins_fresh [OF inv assms(5)] heap_map.ins_find [OF inv assms(5)] heap_map.ins_inv [OF inv assms(5)]
  have no: "heap_find (d_buffer_heap d) j \<noteq> Some p" for j
    using ok(2) fresh unfolding handles_ok_def by (metis option.distinct(1))
  have "handles_ok h (d_buf d') (obj_refs (d_objs d'))"
    using ok(2) find no fresh by (auto simp: handles_ok_def d'_def rk_object_init_def)
  moreover have "store_ok (Suc p) (d_buf d')" unfolding d'_def using store_ok_new [OF ok(1) assms(2,3)] by simp
  ultimately show ?thesis using find fresh by (simp add: drv_inv_def created_def d'_def)
qed

lemma create_cases:
  assumes "drv_inv d" and "\<And>src. data = Some src \<Longrightarrow> unat each * unat num \<le> length src"
  obtains (fails) st d' where "rk_CreateBuffer m d type each num data = Ok (Inl st, d')" "drv_inv d'"
      "d_buffer_heap d' = d_buffer_heap d" "d_buf d' = d_buf d"
  | (creates) i p b d' where "rk_CreateBuffer m d type each num data = Ok (Inr i, d')" "drv_inv d'" "created d i p b d'"
      "b_type b = type" "mem_read (b_data b) 0 (unat (b_capacity b)) =
         Ok (case data of Some src \<Rightarrow> take (unat each * unat num) src | None \<Rightarrow> replicate (unat each * unat num) 0)"
proof (cases "size_overflow each num \<or> \<not> m_object m")
  case True
  with fails [of _ d] assms(1) show thesis by (auto simp: rk_CreateBuffer_def)
next
  case False
  let ?b = "fresh_buffer type each num (ucast each * ucast num)" and ?p = "d_brk d"
  obtain b xs where b: "fill_buffer ?b data = Ok b" "buf_wf b" "b_surface b = None" "b_type b = type"
      "mem_read (b_data b) 0 (unat (b_capacity b)) = Ok xs"
      "xs = (case data of Some src \<Rightarrow> take (unat each * unat num) src | None \<Rightarrow> replicate (unat each * unat num) 0)"
    by (rule fill_buffer_ok [OF assms(2)])
  have clean: "b_derived ?b = None" "b_acquired_fd ?b = - 1" "b_derived b = None" "b_acquired_fd b = - 1"
    using fill_buffer_keeps [OF b(1)] by (simp_all add: fresh_buffer_def)
  note drop = new_buffer_fails [OF assms(1) clean(1,2)] new_buffer_fails [OF assms(1) clean(3,4)]
  have inv: "heap_inv (d_buffer_heap d)" using assms(1) by (simp add: drv_inv_def handles_ok_def)
  obtain r h where ins: "rk_object_heap_insert (m_heap m) (d_buffer_heap d) ?p = Ok (r, h)"
    using heap_map.ins_total [OF inv] by blast
  consider "\<not> m_data m" | "m_data m" "r = None" | i where "m_data m" "r = Some i" by fastforce
  then show thesis
  proof cases
    case 1
    with False drop(1) fails show thesis by (auto simp: rk_CreateBuffer_def new_buffer_def Let_def)
  next
    case 2
    then have "h = d_buffer_heap d" using heap_insert_None [OF inv] ins by simp
    with 2 False drop(2) fails b(1) ins show thesis
      by (auto simp: rk_CreateBuffer_def new_buffer_def Let_def buffer_set_def)
  next
    case 3
    from new_buffer_enters [OF assms(1) b(2,3), of "m_heap m" i h] ins 3 have e:
      "drv_inv (d\<lparr>d_brk := Suc ?p, d_objs := rk_object_init ?p (d_objs d), d_buf := (d_buf d)(?p \<mapsto> b), d_buffer_heap := h\<rparr>)"
      "created d i ?p b (d\<lparr>d_brk := Suc ?p, d_objs := rk_object_init ?p (d_objs d), d_buf := (d_buf d)(?p \<mapsto> b), d_buffer_heap := h\<rparr>)"
      by simp_all
    show thesis
      by (rule creates [OF _ e b(4)])
         (use 3 False b ins in \<open>simp_all add: rk_CreateBuffer_def new_buffer_def Let_def buffer_set_def\<close>)
  qed
qed

lemma buffer_destroy_fields:
  assumes "b_surface b = s"
  shows "d_buf (buffer_destroy p b d) = (d_buf d)(p := None)" "d_buffer_heap (buffer_destroy p b d) = d_buffer_heap d"
    "d_brk (buffer_destroy p b d) = d_brk d"
    "s \<noteq> Some q \<Longrightarrow> obj_refs (d_objs (buffer_destroy p b d)) q = obj_refs (d_objs d) q"
  using assms by (auto simp: buffer_destroy_def Let_def b_surface_def rk_object_unref_def split: option.splits)

lemma unref_unnamed:
  assumes "drv_inv d" and "d_buf d p = Some b" and "\<And>i. heap_find (d_buffer_heap d) i \<noteq> Some p"
  obtains d' where "buffer_unref p d = Ok d'" "drv_inv d'" "d_buffer_heap d' = d_buffer_heap d"
    "\<And>q. q \<noteq> p \<Longrightarrow> d_buf d' q = d_buf d q"
proof -
  let ?last = "obj_refs (d_objs d) p = 1" and ?d1 = "d\<lparr>d_objs := rk_object_unref p (d_objs d)\<rparr>"
  let ?d' = "if ?last then buffer_destroy p b ?d1 else ?d1"
  have ok: "handles_ok (d_buffer_heap d) (d_buf d) (obj_refs (d_objs d))" "store_ok (d_brk d) (d_buf d)"
    using assms(1) by (simp_all add: drv_inv_def)
  have surf: "d_buf d s = None" if "b_surface b = Some s" for s using ok(2) assms(2) that by (auto simp: store_ok_def)
  note f = buffer_destroy_fields [OF refl, where p = p and b = b and d = ?d1]
  have refs: "obj_refs (d_objs ?d') q = obj_refs (d_objs d) q" if "q \<noteq> p" "d_buf d q \<noteq> None" for q
  proof -
    have "b_surface b \<noteq> Some q" using surf that by auto
    with f(4) [of q] that show ?thesis by (simp add: rk_object_unref_frame)
  qed
  have "handles_ok (d_buffer_heap d) (d_buf ?d') (obj_refs (d_objs ?d'))"
    unfolding handles_ok_def
  proof (intro conjI allI impI)
    fix i q assume i: "heap_find (d_buffer_heap d) i = Some q"
    then have q: "q \<noteq> p" "d_buf d q \<noteq> None" "obj_refs (d_objs d) q \<noteq> 0" using assms(3) ok(1) by (auto simp: handles_ok_def)
    then show "d_buf ?d' q \<noteq> None" by (simp add: f(1))
    show "obj_refs (d_objs ?d') q \<noteq> 0" using refs [OF q(1,2)] q(3) by simp
  qed (use ok(1) in \<open>auto simp: handles_ok_def\<close>)
  moreover have "store_ok (d_brk d) (d_buf ?d')" using ok(2) store_ok_weaken(1) [OF ok(2), of p] by (simp add: f(1))
  ultimately have "drv_inv ?d'" unfolding drv_inv_def by (simp add: f(2,3) split: if_splits)
  moreover have "buffer_unref p d = Ok ?d'" using assms(2) by (simp add: buffer_unref_def Let_def)
  ultimately show thesis using that [of ?d'] by (simp add: f(1,2))
qed

lemma destroy_cases:
  assumes "drv_inv d"
  obtains r d' where "rk_DestroyBuffer d i = Ok (r, d')" "drv_inv d'"
    "heap_find (d_buffer_heap d') = (heap_find (d_buffer_heap d))(i := None)"
    "\<forall>q. heap_find (d_buffer_heap d) i \<noteq> Some q \<longrightarrow> d_buf d' q = d_buf d q"
proof -
  have ok: "handles_ok (d_buffer_heap d) (d_buf d) (obj_refs (d_objs d))" "store_ok (d_brk d) (d_buf d)"
    using assms by (simp_all add: drv_inv_def)
  then have inv: "heap_inv (d_buffer_heap d)" by (simp add: handles_ok_def)
  obtain r h where rem: "rk_object_heap_remove (d_buffer_heap d) i = Ok (r, h)" using heap_map.rem_total [OF inv] by blast
  note h = heap_map.rem_result [OF inv rem] heap_map.rem_find [OF inv rem] heap_map.rem_inv [OF inv rem]
  let ?d = "d\<lparr>d_buffer_heap := h\<rparr>"
  have "handles_ok h (d_buf d) (obj_refs (d_objs d))" using ok(1) h(2,3) by (auto simp: handles_ok_def split: if_splits)
  with ok(2) have d: "drv_inv ?d" by (simp add: drv_inv_def)
  show thesis
  proof (cases r)
    case None
    then show thesis using that [of "Inl VA_STATUS_ERROR_INVALID_BUFFER" ?d] rem d h by (simp add: rk_DestroyBuffer_def)
  next
    case (Some p)
    then have p: "heap_find (d_buffer_heap d) i = Some p" using h(1) by simp
    from handles_named [OF ok(1) this] obtain b where b: "d_buf ?d p = Some b" by auto
    have "heap_find (d_buffer_heap ?d) j \<noteq> Some p" for j
      using ok(1) p by (auto simp: h(2) handles_ok_def)
    then obtain d' where u: "buffer_unref p ?d = Ok d'" "drv_inv d'" "d_buffer_heap d' = d_buffer_heap ?d"
        "\<And>q. q \<noteq> p \<Longrightarrow> d_buf d' q = d_buf ?d q"
      using unref_unnamed [OF d b] by blast
    with that [of "Inr ()" d'] Some rem p h(2) show thesis by (auto simp: rk_DestroyBuffer_def)
  qed
qed

section \<open>Sequences of calls\<close>

definition steps_well :: "buf_op \<Rightarrow> RKDriver \<Rightarrow> RKDriver \<Rightarrow> bool" where
  "steps_well a d d' \<longleftrightarrow> drv_inv d' \<and>
     (\<forall>i. buf_op_target a \<noteq> Some i \<longrightarrow> buffer_bytes d i \<noteq> None \<longrightarrow> buffer_bytes d' i = buffer_bytes d i)"

lemma with_buffer_steps:
  assumes "drv_inv d" and "local_body w body" and "w \<Longrightarrow> buf_op_target a = Some i"
  obtains r d' where "with_buffer d i body = Ok (r, d')" "steps_well a d d'"
proof (rule with_buffer_local [OF assms(1,2), of i])
  assume "with_buffer d i body = Ok (Inl VA_STATUS_ERROR_INVALID_BUFFER, d)"
  with that assms(1) show thesis by (auto simp: steps_well_def)
next
  fix p b r b' evs
  assume p: "heap_find (d_buffer_heap d) i = Some p" "d_buf d p = Some b"
    and res: "with_buffer d i body = Ok (r, buffer_set p b' (sys_log evs d))" "buf_keeps w b b'"
  let ?d' = "buffer_set p b' (sys_log evs d)"
  have "buffer_bytes ?d' j = buffer_bytes d j" if "buf_op_target a \<noteq> Some j" for j
  proof (cases "heap_find (d_buffer_heap d) j = Some p")
    case True
    then have "j = i" using handles_named [OF _ p(1)] assms(1) by (auto simp: drv_inv_def)
    with assms(3) that have "\<not> w" by blast
    with res(2) have "b_type b' = b_type b" "b_data b' = b_data b" "b_capacity b' = b_capacity b" by (simp_all add: buf_keeps_def)
    then have "bytes_of b' = bytes_of b" by (simp add: bytes_of_def split: outcome.splits)
    with True p(2) show ?thesis by (simp add: buffer_bytes_def)
  next
    case False
    then show ?thesis by (cases "heap_find (d_buffer_heap d) j") (auto simp: buffer_bytes_def)
  qed
  then have "steps_well a d ?d'" using drv_inv_set [OF assms(1) p(2) res(2)] by (auto simp: steps_well_def)
  with that res(1) show thesis by blast
qed

lemma create_bytes:
  assumes "created d i p b d'" and "mem_read (b_data b) 0 (unat (b_capacity b)) = Ok xs"
  shows "buffer_bytes d' i = Some (b_type b, xs)" and "buffer_bytes d j \<noteq> None \<Longrightarrow> buffer_bytes d' j = buffer_bytes d j"
proof -
  show "buffer_bytes d' i = Some (b_type b, xs)" using assms by (simp add: created_def buffer_bytes_def bytes_of_def)
  show "buffer_bytes d j \<noteq> None \<Longrightarrow> buffer_bytes d' j = buffer_bytes d j"
    using assms(1) by (cases "heap_find (d_buffer_heap d) j") (auto simp: created_def buffer_bytes_def)
qed

lemma call_steps:
  assumes "drv_inv d" and "local_body w body" and "w \<Longrightarrow> buf_op_target a = Some i"
    and "buf_step a d = obind (with_buffer d i body) (\<lambda>(r, d). Ok d)"
  shows "\<exists>d'. buf_step a d = Ok d' \<and> steps_well a d d'"
  by (rule with_buffer_steps [OF assms(1-3)]) (use assms(4) in auto)

lemma create_steps:
  assumes "drv_inv d" and "buf_op_ok (Op_Create m type each num data)"
  shows "\<exists>d'. buf_step (Op_Create m type each num data) d = Ok d' \<and> steps_well (Op_Create m type each num data) d d'"
proof (rule create_cases [OF assms(1), where m = m and type = type and data = data and each = each and num = num])
  show "unat each * unat num \<le> length src" if "data = Some src" for src using assms(2) that by simp
next
  fix st d' assume "rk_CreateBuffer m d type each num data = Ok (Inl st, d')" "drv_inv d'"
    "d_buffer_heap d' = d_buffer_heap d" "d_buf d' = d_buf d"
  then show ?thesis by (intro exI [of _ d']) (simp add: steps_well_def buffer_bytes_def)
next
  fix i p b d' assume "rk_CreateBuffer m d type each num data = Ok (Inr i, d')" "drv_inv d'" and c: "created d i p b d'"
    and r: "mem_read (b_data b) 0 (unat (b_capacity b)) =
       Ok (case data of Some src \<Rightarrow> take (unat each * unat num) src | None \<Rightarrow> replicate (unat each * unat num) 0)"
  then show ?thesis using create_bytes(2) [OF c r] by (intro exI [of _ d']) (simp add: steps_well_def)
qed

lemma destroy_steps:
  assumes "drv_inv d"
  shows "\<exists>d'. buf_step (Op_Destroy i) d = Ok d' \<and> steps_well (Op_Destroy i) d d'"
proof -
  obtain r d' where d: "rk_DestroyBuffer d i = Ok (r, d')" "drv_inv d'"
      "heap_find (d_buffer_heap d') = (heap_find (d_buffer_heap d))(i := None)"
      "\<forall>q. heap_find (d_buffer_heap d) i \<noteq> Some q \<longrightarrow> d_buf d' q = d_buf d q"
    using destroy_cases [OF assms, of i] by blast
  have "buffer_bytes d' j = buffer_bytes d j" if "j \<noteq> i" for j
  proof (cases "heap_find (d_buffer_heap d) j")
    case (Some q)
    then have "heap_find (d_buffer_heap d) i \<noteq> Some q"
      using that handles_named [OF _ Some] assms by (metis drv_inv_def)
    with Some that d(3,4) show ?thesis by (simp add: buffer_bytes_def)
  qed (use that d(3) in \<open>simp add: buffer_bytes_def\<close>)
  with d(1,2) show ?thesis by (intro exI [of _ d']) (auto simp: steps_well_def)
qed

lemma buf_step_well:
  assumes "drv_inv d" and "buf_op_ok a"
  shows "\<exists>d'. buf_step a d = Ok d' \<and> steps_well a d d'"
proof (cases a)
  case (Op_Create m type each num data)
  with create_steps [OF assms(1)] assms(2) show ?thesis by blast
next
  case (Op_Destroy i)
  with destroy_steps [OF assms(1)] show ?thesis by blast
next
  case (Op_Resize mem_ok i n)
  then show ?thesis by (intro call_steps [OF assms(1) local_calls(1)]) (auto simp: rk_BufferSetNumElements_def)
next
  case (Op_Map e i)
  then show ?thesis by (intro call_steps [OF assms(1) local_map [where w = False]]) (auto simp: rk_MapBuffer_def)
next
  case (Op_Unmap e i)
  then show ?thesis by (intro call_steps [OF assms(1) local_calls(2) [where w = False]]) (auto simp: rk_UnmapBuffer_def)
next
  case (Op_Store i data)
  then show ?thesis by (intro call_steps [OF assms(1) local_calls(3)]) (auto simp: rk_store_coded_def)
next
  case (Op_Handle e prime i)
  then show ?thesis by (intro call_steps [OF assms(1) local_handle [where w = False]]) (auto simp: rk_buffer_acquire_handle_def)
next
  case (Op_Release i)
  then show ?thesis by (intro call_steps [OF assms(1) local_calls(4) [where w = False]]) (auto simp: rk_buffer_release_handle_def)
next
  case (Op_Info i)
  then show ?thesis by (intro call_steps [OF assms(1) local_calls(5) [where w = False]]) (auto simp: rk_BufferInfo_def)
qed

lemma buf_run_well:
  "drv_inv d \<Longrightarrow> list_all buf_op_ok ops \<Longrightarrow> \<exists>d'. buf_run ops d = Ok d' \<and> drv_inv d' \<and>
     (\<forall>i. Some i \<notin> buf_op_target ` set ops \<longrightarrow> buffer_bytes d i \<noteq> None \<longrightarrow> buffer_bytes d' i = buffer_bytes d i)"
proof (induction ops arbitrary: d)
  case (Cons a ops)
  from Cons.prems obtain d1 where d1: "buf_step a d = Ok d1" "steps_well a d d1" using buf_step_well [of d a] by auto
  with Cons.IH [of d1] Cons.prems obtain d' where "buf_run ops d1 = Ok d'" "drv_inv d'"
      "\<forall>i. Some i \<notin> buf_op_target ` set ops \<longrightarrow> buffer_bytes d1 i \<noteq> None \<longrightarrow> buffer_bytes d' i = buffer_bytes d1 i"
    by (auto simp: steps_well_def)
  with d1 show ?case by (intro exI [of _ d']) (auto simp: steps_well_def)
qed simp

section \<open>Properties\<close>

definition driver_start :: RKDriver where
  "driver_start = \<lparr>d_objs = \<lparr>obj_refs = (\<lambda>_. 0), obj_destroyed = []\<rparr>, d_brk = 0,
     d_buffer_heap = zero_heap\<lparr>heap_type := 4, free_head := NO_SLOT\<rparr>, d_buf = Map.empty, d_sys = []\<rparr>"

lemma driver_start_inv: "drv_inv driver_start"
proof -
  let ?h = "zero_heap\<lparr>heap_type := 4, free_head := NO_SLOT\<rparr>"
  have "rk_object_heap_init 4 = Some ?h" by (simp add: rk_object_heap_init_def valid_type_def)
  from heap_init_inv [OF this] have "heap_inv ?h" "heap_find ?h i = None" for i
    by (auto simp: heap_find_def split: option.splits)
  then show ?thesis by (simp add: drv_inv_def handles_ok_def store_ok_def driver_start_def)
qed

text \<open>
  C10: no sequence of buffer calls (create, resize, map, unmap, store coded data, export and release
  handles, query, destroy, with valid or stale identifiers and failing allocations) reads or writes
  outside a buffer's memory, reads a byte that was never written, or touches a freed buffer, as long
  as the memory that callers pass is as large as they say. Every buffer keeps a capacity of exactly
  element size times number of elements, backed by as many initialised bytes.
\<close>

theorem buffer_calls_safe:
  assumes "list_all buf_op_ok ops"
  shows "\<exists>d. buf_run ops driver_start = Ok d \<and> drv_inv d"
  using buf_run_well [OF driver_start_inv assms] by blast

definition demo_mem :: create_mem where
  "demo_mem = \<lparr>m_object = True, m_data = True, m_heap = True\<rparr>"

theorem buffer_calls_safe_witness:
  "\<exists>d. buf_run [Op_Create demo_mem VAEncCodedBufferType 3 2 (Some [1, 2, 3, 4, 5, 6]), Op_Store 0x40100000 [9, 9],
     Op_Resize True 0x40100000 4, Op_Destroy 0x40100000, Op_Info 0x40100000] driver_start = Ok d \<and> drv_inv d"
  by (rule buffer_calls_safe) simp

text \<open>
  C11: a buffer holds the bytes it was created with until a call resizes, overwrites or destroys that
  very buffer, whatever happens to the other buffers in between; after its destruction the identifier
  is invalid.
\<close>

theorem buffer_contents_roundtrip:
  assumes "drv_inv d" and "unat each * unat num \<le> length data"
    and "rk_CreateBuffer m d type each num (Some data) = Ok (Inr i, d1)"
    and "list_all buf_op_ok ops" and "Some i \<notin> buf_op_target ` set ops"
  shows "\<exists>d2 d3. buf_run ops d1 = Ok d2 \<and> buffer_bytes d2 i = Some (type, take (unat each * unat num) data) \<and>
    buf_step (Op_Destroy i) d2 = Ok d3 \<and> buffer_bytes d3 i = None"
proof -
  have c: "drv_inv d1" "buffer_bytes d1 i = Some (type, take (unat each * unat num) data)"
    by (rule create_cases [OF assms(1), where m = m and type = type and data = "Some data" and each = each and num = num];
        use assms(2,3) create_bytes(1) in fastforce)+
  with buf_run_well [OF c(1) assms(4)] assms(5) obtain d2 where d2: "buf_run ops d1 = Ok d2" "drv_inv d2"
      "buffer_bytes d2 i = Some (type, take (unat each * unat num) data)" by auto
  obtain r d3 where "rk_DestroyBuffer d2 i = Ok (r, d3)" "heap_find (d_buffer_heap d3) = (heap_find (d_buffer_heap d2))(i := None)"
    using destroy_cases [OF d2(2), of i] by blast
  with d2 show ?thesis by (auto simp: buffer_bytes_def)
qed

theorem buffer_contents_roundtrip_witness:
  "\<exists>d1 d2 d3. rk_CreateBuffer demo_mem driver_start VASliceDataBufferType 2 1 (Some [7, 9]) = Ok (Inr 0x40100000, d1) \<and>
     buf_run [Op_Create demo_mem VASliceDataBufferType 1 1 None, Op_Info 0x40100000] d1 = Ok d2 \<and>
     buffer_bytes d2 0x40100000 = Some (VASliceDataBufferType, [7, 9]) \<and>
     buf_step (Op_Destroy 0x40100000) d2 = Ok d3 \<and> buffer_bytes d3 0x40100000 = None"
proof -
  have "case rk_CreateBuffer demo_mem driver_start VASliceDataBufferType 2 1 (Some [7, 9]) of
      Ok (Inr i, d1) \<Rightarrow> i = 0x40100000 | _ \<Rightarrow> False" by code_simp
  then obtain d1 where c: "rk_CreateBuffer demo_mem driver_start VASliceDataBufferType 2 1 (Some [7, 9]) = Ok (Inr 0x40100000, d1)"
    by (auto split: outcome.splits sum.splits)
  from buffer_contents_roundtrip [OF driver_start_inv _ c, of "[Op_Create demo_mem VASliceDataBufferType 1 1 None, Op_Info 0x40100000]"] c
  show ?thesis by auto
qed

end
