(* ===== verification/Job_Build.thy ===== *)
theory Job_Build
  imports Decode_Worker H264 HEVC_Slice VP9 Buffers
begin

text \<open>
  How a picture becomes a decode job: \<open>rk_RenderPicture\<close> of \<open>src/context.c\<close> collects the buffers of the
  picture and copies its parameters, and \<open>rk_mpp_dec_build_job\<close> of \<open>src/mpp_dec.c\<close> packs the
  reconstructed parameter sets and the slices into one packet.

  The layout of libva's parameter structures is the record \<open>va_abi\<close>: the size of each and the function
  that reads it from its bytes; \<open>field_pic_flag\<close>, which the parameter sets do not use, is a field of its
  own. The results of the allocations of one call are a function from their
  number.
\<close>

section \<open>The state of a picture\<close>

datatype VAProfile =
    VAProfileH264ConstrainedBaseline | VAProfileH264Main | VAProfileH264High | VAProfileH264High10
  | VAProfileHEVCMain | VAProfileHEVCMain10 | VAProfileVP8Version0_3
  | VAProfileVP9Profile0 | VAProfileVP9Profile2 | VAProfileAV1Profile0 | VAProfileAV1Profile1
  | VAProfileOther

record va_abi =
  sizeof_pp_h264 :: nat
  load_pp_h264 :: "u8 list \<Rightarrow> VAPictureParameterBufferH264"
  load_field_pic_flag :: "u8 list \<Rightarrow> bool"
  sizeof_iq_h264 :: nat
  load_iq_h264 :: "u8 list \<Rightarrow> VAIQMatrixBufferH264"
  sizeof_slice_h264 :: nat
  load_slice_h264 :: "u8 list \<Rightarrow> u8 \<times> u8"
  sizeof_pp_hevc :: nat
  load_pp_hevc :: "u8 list \<Rightarrow> VAPictureParameterBufferHEVC"
  sizeof_iq_hevc :: nat
  load_iq_hevc :: "u8 list \<Rightarrow> VAIQMatrixBufferHEVC"
  sizeof_slice_hevc :: nat
  load_slice_hevc :: "u8 list \<Rightarrow> VASliceParameterBufferHEVC"

record picture =
  pc_profile :: VAProfile
  pc_coding :: MppCodingType
  pc_pending :: "u32 list"
  pc_capacity :: int
  last_pp :: VAPictureParameterBufferH264
  last_field_pic_flag :: bool
  last_iq :: VAIQMatrixBufferH264
  has_iq :: bool
  sps_sent :: bool
  last_hevc_pp :: VAPictureParameterBufferHEVC
  last_hevc_iq :: VAIQMatrixBufferHEVC
  has_hevc_pp :: bool
  has_hevc_iq :: bool

definition profile_to_coding :: "VAProfile \<Rightarrow> MppCodingType option" where
  "profile_to_coding p =
     (case p of
        VAProfileH264ConstrainedBaseline \<Rightarrow> Some CodingAVC
      | VAProfileH264Main \<Rightarrow> Some CodingAVC
      | VAProfileH264High \<Rightarrow> Some CodingAVC
      | VAProfileH264High10 \<Rightarrow> Some CodingAVC
      | VAProfileHEVCMain \<Rightarrow> Some CodingHEVC
      | VAProfileHEVCMain10 \<Rightarrow> Some CodingHEVC
      | VAProfileVP8Version0_3 \<Rightarrow> Some CodingVP8
      | VAProfileVP9Profile0 \<Rightarrow> Some CodingVP9
      | VAProfileVP9Profile2 \<Rightarrow> Some CodingVP9
      | VAProfileAV1Profile0 \<Rightarrow> Some CodingAV1
      | VAProfileAV1Profile1 \<Rightarrow> Some CodingAV1
      | VAProfileOther \<Rightarrow> None)"

definition h264_profile_idc :: "VAProfile \<Rightarrow> int" where
  "h264_profile_idc p =
     (case p of
        VAProfileH264ConstrainedBaseline \<Rightarrow> 66
      | VAProfileH264Main \<Rightarrow> 77
      | VAProfileH264High \<Rightarrow> 100
      | VAProfileH264High10 \<Rightarrow> 110
      | _ \<Rightarrow> 100)"

text \<open>Acquire a buffer, look at it and drop the reference again.\<close>

definition visit :: "RKDriver \<Rightarrow> u32 \<Rightarrow> (RKBuffer option \<times> RKDriver) outcome" where
  "visit d bid =
     obind (buffer_acquire d bid) (\<lambda>(p, d).
       case p of
         None \<Rightarrow> Ok (None, d)
       | Some p \<Rightarrow> obind (buffer_at d p) (\<lambda>b. obind (buffer_unref p d) (\<lambda>d. Ok (Some b, d))))"

section \<open>Collecting buffers\<close>

definition PENDING_LIMIT :: int where "PENDING_LIMIT = 1048576"

function grow_capacity :: "int \<Rightarrow> int \<Rightarrow> int" where
  "grow_capacity cap needed = (if cap < needed \<and> cap > 0 then grow_capacity (cap * 2) needed else cap)"
  by pat_completeness auto
termination by (relation "measure (\<lambda>(cap, needed). nat (needed - cap))") auto

declare grow_capacity.simps [simp del]

definition reserve_pending :: "bool \<Rightarrow> picture \<Rightarrow> int \<Rightarrow> VAStatus \<times> picture" where
  "reserve_pending mem_ok c extra =
     (let n = int (length (pc_pending c))
      in if extra < 0 \<or> n > PENDING_LIMIT - extra then (VA_STATUS_ERROR_MAX_NUM_EXCEEDED, c)
         else let needed = n + extra
              in if needed \<le> pc_capacity c then (VA_STATUS_SUCCESS, c)
                 else let cap = grow_capacity (if pc_capacity c \<noteq> 0 then pc_capacity c else 64) needed
                      in if \<not> mem_ok then (VA_STATUS_ERROR_ALLOCATION_FAILED, c)
                         else (VA_STATUS_SUCCESS, c\<lparr>pc_capacity := cap\<rparr>))"

text \<open>\<open>(size_t)size * num_elements\<close> of a buffer.\<close>

definition b_total :: "RKBuffer \<Rightarrow> nat" where
  "b_total b = unat (ucast (b_bytes b) * ucast (b_num_elements b) :: u64)"

definition snapshot :: "va_abi \<Rightarrow> RKBuffer \<Rightarrow> picture \<Rightarrow> picture outcome" where
  "snapshot abi b c =
     (if b_type b = VAPictureParameterBufferType \<and> pc_coding c = CodingAVC \<and> b_total b \<ge> sizeof_pp_h264 abi
      then obind (mem_read (b_data b) 0 (sizeof_pp_h264 abi)) (\<lambda>xs. Ok (c\<lparr>last_pp := load_pp_h264 abi xs, last_field_pic_flag := load_field_pic_flag abi xs\<rparr>))
      else if b_type b = VAIQMatrixBufferType \<and> pc_coding c = CodingAVC \<and> b_total b \<ge> sizeof_iq_h264 abi
      then obind (mem_read (b_data b) 0 (sizeof_iq_h264 abi)) (\<lambda>xs. Ok (c\<lparr>last_iq := load_iq_h264 abi xs, has_iq := True\<rparr>))
      else if b_type b = VAPictureParameterBufferType \<and> pc_coding c = CodingHEVC \<and> b_total b \<ge> sizeof_pp_hevc abi
      then obind (mem_read (b_data b) 0 (sizeof_pp_hevc abi)) (\<lambda>xs. Ok (c\<lparr>last_hevc_pp := load_pp_hevc abi xs, has_hevc_pp := True\<rparr>))
      else if b_type b = VAIQMatrixBufferType \<and> pc_coding c = CodingHEVC \<and> b_total b \<ge> sizeof_iq_hevc abi
      then obind (mem_read (b_data b) 0 (sizeof_iq_hevc abi)) (\<lambda>xs. Ok (c\<lparr>last_hevc_iq := load_iq_hevc abi xs, has_hevc_iq := True\<rparr>))
      else Ok c)"

text \<open>\<open>pending[n_pending++] = id\<close>: a store behind the reserved capacity is a \<open>Fault\<close>.\<close>

fun render_loop :: "va_abi \<Rightarrow> u32 list \<Rightarrow> picture \<Rightarrow> RKDriver \<Rightarrow> (picture \<times> RKDriver) outcome" where
  "render_loop abi [] c d = Ok (c, d)"
| "render_loop abi (i # ids) c d =
     (if int (length (pc_pending c)) \<ge> pc_capacity c then Fault
      else let c = c\<lparr>pc_pending := pc_pending c @ [i]\<rparr>
           in obind (visit d i) (\<lambda>(b, d).
              obind (case b of None \<Rightarrow> Ok c | Some b \<Rightarrow> snapshot abi b c) (\<lambda>c. render_loop abi ids c d)))"

definition rk_RenderPicture ::
    "va_abi \<Rightarrow> bool \<Rightarrow> picture \<Rightarrow> RKDriver \<Rightarrow> u32 list \<Rightarrow> (VAStatus \<times> picture \<times> RKDriver) outcome" where
  "rk_RenderPicture abi mem_ok c d ids =
     (let (reserved, c) = reserve_pending mem_ok c (int (length ids))
      in if reserved \<noteq> VA_STATUS_SUCCESS then Ok (reserved, c, d)
         else obind (render_loop abi ids c d) (\<lambda>(c, d). Ok (VA_STATUS_SUCCESS, c, d)))"

text \<open>What \<open>rk_BeginPicture\<close> resets.\<close>

definition begin_picture :: "picture \<Rightarrow> picture" where
  "begin_picture c = c\<lparr>pc_pending := [], has_iq := False, has_hevc_pp := False, has_hevc_iq := False\<rparr>"

section \<open>Packets\<close>

definition SIZE_MAX :: int where "SIZE_MAX = 2 ^ 64 - 1"

record packet =
  pk_data :: "u8 list"
  pk_capacity :: int
  pk_allocs :: nat

definition no_packet :: "nat \<Rightarrow> packet" where
  "no_packet k = \<lparr>pk_data = [], pk_capacity = 0, pk_allocs = k\<rparr>"

definition packet_append :: "(nat \<Rightarrow> bool) \<Rightarrow> packet \<Rightarrow> u8 list \<Rightarrow> VAStatus + packet" where
  "packet_append al pk data =
     (if data = [] then Inr pk
      else if int (length (pk_data pk)) > SIZE_MAX - int (length data) then Inl VA_STATUS_ERROR_INVALID_PARAMETER
      else let needed = int (length (pk_data pk)) + int (length data)
           in if needed > pk_capacity pk
              then let new_capacity = (if needed \<le> (SIZE_MAX - 4096) div 2 then needed * 2 + 4096 else needed)
                   in if \<not> al (pk_allocs pk) then Inl VA_STATUS_ERROR_ALLOCATION_FAILED
                      else Inr \<lparr>pk_data = pk_data pk @ data, pk_capacity = new_capacity, pk_allocs = pk_allocs pk + 1\<rparr>
              else Inr (pk\<lparr>pk_data := pk_data pk @ data\<rparr>))"

definition slice_bytes :: "RKBuffer \<Rightarrow> u8 list outcome" where
  "slice_bytes b = mem_read (b_data b) 0 (unat (b_capacity b))"

definition sc :: "u8 list" where "sc = [0, 0, 0, 1]"

section \<open>H.264 jobs\<close>

fun h264_ref_counts :: "va_abi \<Rightarrow> u32 list \<Rightarrow> RKDriver \<Rightarrow> ((u8 \<times> u8) \<times> RKDriver) outcome" where
  "h264_ref_counts abi [] d = Ok ((0, 0), d)"
| "h264_ref_counts abi (i # ids) d =
     obind (visit d i) (\<lambda>(b, d).
       case b of
         None \<Rightarrow> h264_ref_counts abi ids d
       | Some b \<Rightarrow>
           if b_type b \<noteq> VASliceParameterBufferType \<or> unat (b_capacity b) < sizeof_slice_h264 abi
           then h264_ref_counts abi ids d
           else obind (mem_read (b_data b) 0 (sizeof_slice_h264 abi)) (\<lambda>xs. Ok (load_slice_h264 abi xs, d)))"

fun h264_is_idr :: "u32 list \<Rightarrow> RKDriver \<Rightarrow> (bool \<times> RKDriver) outcome" where
  "h264_is_idr [] d = Ok (False, d)"
| "h264_is_idr (i # ids) d =
     obind (visit d i) (\<lambda>(b, d).
       case b of
         None \<Rightarrow> h264_is_idr ids d
       | Some b \<Rightarrow>
           if b_type b \<noteq> VASliceDataBufferType \<or> b_capacity b = 0 then h264_is_idr ids d
           else obind (mem_read (b_data b) 0 1) (\<lambda>xs. Ok (hd xs AND 0x1F = 5, d)))"

fun h264_append_slices ::
    "(nat \<Rightarrow> bool) \<Rightarrow> u32 list \<Rightarrow> packet \<Rightarrow> RKDriver \<Rightarrow> ((VAStatus + packet) \<times> RKDriver) outcome" where
  "h264_append_slices al [] pk d = Ok (Inr pk, d)"
| "h264_append_slices al (i # ids) pk d =
     obind (visit d i) (\<lambda>(b, d).
       case b of
         None \<Rightarrow> h264_append_slices al ids pk d
       | Some b \<Rightarrow>
           if b_type b \<noteq> VASliceDataBufferType then h264_append_slices al ids pk d
           else case packet_append al pk sc of
             Inl st \<Rightarrow> Ok (Inl st, d)
           | Inr pk \<Rightarrow> obind (slice_bytes b) (\<lambda>xs.
               case packet_append al pk xs of Inl st \<Rightarrow> Ok (Inl st, d) | Inr pk \<Rightarrow> h264_append_slices al ids pk d))"

text \<open>
  The parameter sets in front of the slices. The flag \<open>sps_sent\<close> is set as soon as the SPS is in the
  packet, before the PPS is known to succeed.
\<close>

definition h264_headers :: "(nat \<Rightarrow> bool) \<Rightarrow> picture \<Rightarrow> bool \<Rightarrow> u8 \<times> u8 \<Rightarrow> (VAStatus + packet) \<times> picture" where
  "h264_headers al c is_idr refs =
     (let sps = (if is_idr \<or> \<not> sps_sent c
                 then (case h264_write_sps 2048 (last_pp c) (h264_profile_idc (pc_profile c)) of
                         None \<Rightarrow> (Inl VA_STATUS_ERROR_DECODING_ERROR, c)
                       | Some hdr \<Rightarrow> (case packet_append al (no_packet 0) hdr of
                             Inl st \<Rightarrow> (Inl st, c)
                           | Inr pk \<Rightarrow> (Inr pk, c\<lparr>sps_sent := True\<rparr>)))
                 else (Inr (no_packet 0), c))
      in case sps of
           (Inl st, c) \<Rightarrow> (Inl st, c)
         | (Inr pk, c) \<Rightarrow>
             (case h264_write_pps 2048 (last_pp c)
                     (if has_iq c \<and> h264_profile_idc (pc_profile c) \<ge> 100 then Some (last_iq c) else None)
                     (uint (fst refs)) (uint (snd refs)) of
                None \<Rightarrow> (Inl VA_STATUS_ERROR_DECODING_ERROR, c)
              | Some hdr \<Rightarrow> (packet_append al pk hdr, c)))"

definition build_h264_job ::
    "va_abi \<Rightarrow> (nat \<Rightarrow> bool) \<Rightarrow> picture \<Rightarrow> RKDriver \<Rightarrow> ((VAStatus + job_content) \<times> picture \<times> RKDriver) outcome" where
  "build_h264_job abi al c d =
     obind (h264_ref_counts abi (pc_pending c) d) (\<lambda>(refs, d).
     obind (h264_is_idr (pc_pending c) d) (\<lambda>(is_idr, d).
       case h264_headers al c is_idr refs of
         (Inl st, c) \<Rightarrow> Ok (Inl st, c, d)
       | (Inr pk, c) \<Rightarrow>
           obind (h264_append_slices al (pc_pending c) pk d) (\<lambda>(r, d).
             case r of
               Inl st \<Rightarrow> Ok (Inl st, c, d)
             | Inr pk \<Rightarrow> Ok (Inr \<lparr>jc_data = pk_data pk, jc_h264_field = last_field_pic_flag c, jc_is_hidden = False,
                   jc_repeat_slot = 8, jc_sequence_headers = None\<rparr>, c, d))))"

section \<open>HEVC jobs\<close>

definition HEVC_HEADER_CAPACITY :: nat where "HEVC_HEADER_CAPACITY = 65536"
definition HEVC_SEQUENCE_HEADER_CAPACITY :: nat where "HEVC_SEQUENCE_HEADER_CAPACITY = 4096"

text \<open>The first slice with data decides; \<open>None\<close> when there is none or it is malformed.\<close>

fun hevc_first_slice :: "u32 list \<Rightarrow> RKDriver \<Rightarrow> (RKHEVCSliceInfo option \<times> RKDriver) outcome" where
  "hevc_first_slice [] d = Ok (None, d)"
| "hevc_first_slice (i # ids) d =
     obind (visit d i) (\<lambda>(b, d).
       case b of
         None \<Rightarrow> hevc_first_slice ids d
       | Some b \<Rightarrow>
           if b_type b = VASliceDataBufferType \<and> b_capacity b > 0
           then obind (slice_bytes b) (\<lambda>xs.
                case rk_hevc_parse_slice_info xs of Ok info \<Rightarrow> Ok (Some info, d) | Fail \<Rightarrow> Ok (None, d) | Fault \<Rightarrow> Fault)
           else hevc_first_slice ids d)"

text \<open>The header block: the sequence parameter sets unless they are the ones sent last, and the PPS.\<close>

definition hevc_headers ::
    "picture \<Rightarrow> u8 list option \<Rightarrow> RKHEVCSliceInfo \<Rightarrow> (u8 list \<times> u8 list option) outcome" where
  "hevc_headers c cached info =
     (let profile_idc = (if pc_profile c = VAProfileHEVCMain10 then 2 else 1);
          iq = (if has_hevc_iq c then Some (last_hevc_iq c) else None)
      in obind (rk_hevc_write_sequence_parameter_sets HEVC_SEQUENCE_HEADER_CAPACITY (last_hevc_pp c) iq profile_idc) (\<lambda>seq.
           let changed = (cached \<noteq> Some seq); headers = (if changed then seq else [])
           in obind (rk_hevc_write_picture_parameter_set (HEVC_HEADER_CAPACITY - length headers) (last_hevc_pp c) iq
                  (slice_pps_id info) profile_idc) (\<lambda>pps.
                Ok (headers @ pps, if changed then Some seq else None))))"

record hevc_slices =
  hs_packet :: packet
  hs_param :: "VASliceParameterBufferHEVC option"
  hs_count :: nat

definition hevc_append_slice ::
    "(nat \<Rightarrow> bool) \<Rightarrow> picture \<Rightarrow> hevc_slices \<Rightarrow> u8 list \<Rightarrow> (VAStatus + hevc_slices) outcome" where
  "hevc_append_slice al c h xs =
     (let k = pk_allocs (hs_packet h)
      in if \<not> al k then Ok (Inl VA_STATUS_ERROR_ALLOCATION_FAILED)
         else case rk_hevc_rewrite_slice_nal (al (k + 1)) (length xs + 4096) xs (last_hevc_pp c) (hs_param h) of
           Fault \<Rightarrow> Fault
         | Fail \<Rightarrow> Ok (Inl VA_STATUS_ERROR_DECODING_ERROR)
         | Ok data \<Rightarrow>
             Ok (case (if has_annex_b_prefix data then Inr ((hs_packet h)\<lparr>pk_allocs := k + 2\<rparr>)
                       else packet_append al ((hs_packet h)\<lparr>pk_allocs := k + 2\<rparr>) sc) of
                   Inl st \<Rightarrow> Inl st
                 | Inr pk \<Rightarrow> (case packet_append al pk data of
                       Inl st \<Rightarrow> Inl st
                     | Inr pk \<Rightarrow> Inr (h\<lparr>hs_packet := pk, hs_count := hs_count h + 1\<rparr>))))"

fun hevc_append_slices ::
    "va_abi \<Rightarrow> (nat \<Rightarrow> bool) \<Rightarrow> picture \<Rightarrow> u32 list \<Rightarrow> hevc_slices \<Rightarrow> RKDriver \<Rightarrow> ((VAStatus + hevc_slices) \<times> RKDriver) outcome" where
  "hevc_append_slices abi al c [] h d = Ok (Inr h, d)"
| "hevc_append_slices abi al c (i # ids) h d =
     obind (visit d i) (\<lambda>(b, d).
       case b of
         None \<Rightarrow> hevc_append_slices abi al c ids h d
       | Some b \<Rightarrow>
           if b_type b = VASliceParameterBufferType \<and> unat (b_capacity b) \<ge> sizeof_slice_hevc abi
           then obind (mem_read (b_data b) 0 (sizeof_slice_hevc abi)) (\<lambda>xs.
                hevc_append_slices abi al c ids (h\<lparr>hs_param := Some (load_slice_hevc abi xs)\<rparr>) d)
           else if b_type b \<noteq> VASliceDataBufferType \<or> b_capacity b = 0 then hevc_append_slices abi al c ids h d
           else obind (slice_bytes b) (\<lambda>xs. obind (hevc_append_slice al c h xs) (\<lambda>r.
                case r of Inl st \<Rightarrow> Ok (Inl st, d) | Inr h \<Rightarrow> hevc_append_slices abi al c ids h d)))"

definition hevc_pack ::
    "va_abi \<Rightarrow> (nat \<Rightarrow> bool) \<Rightarrow> picture \<Rightarrow> u8 list \<Rightarrow> u8 list option \<Rightarrow> RKDriver \<Rightarrow> ((VAStatus + job_content) \<times> RKDriver) outcome" where
  "hevc_pack abi al c headers new_seq d =
     (case packet_append al (no_packet 1) headers of
        Inl st \<Rightarrow> Ok (Inl st, d)
      | Inr pk \<Rightarrow>
          obind (hevc_append_slices abi al c (pc_pending c) \<lparr>hs_packet = pk, hs_param = None, hs_count = 0\<rparr> d) (\<lambda>(r, d).
            case r of
              Inl st \<Rightarrow> Ok (Inl st, d)
            | Inr h \<Rightarrow>
                if hs_count h = 0 then Ok (Inl VA_STATUS_ERROR_DECODING_ERROR, d)
                else if new_seq \<noteq> None \<and> \<not> al (pk_allocs (hs_packet h)) then Ok (Inl VA_STATUS_ERROR_ALLOCATION_FAILED, d)
                else Ok (Inr \<lparr>jc_data = pk_data (hs_packet h), jc_h264_field = False, jc_is_hidden = False,
                       jc_repeat_slot = 8, jc_sequence_headers = new_seq\<rparr>, d)))"

definition build_hevc_job ::
    "va_abi \<Rightarrow> (nat \<Rightarrow> bool) \<Rightarrow> picture \<Rightarrow> u8 list option \<Rightarrow> RKDriver \<Rightarrow> ((VAStatus + job_content) \<times> RKDriver) outcome" where
  "build_hevc_job abi al c cached d =
     (if \<not> has_hevc_pp c then Ok (Inl VA_STATUS_ERROR_DECODING_ERROR, d)
      else obind (hevc_first_slice (pc_pending c) d) (\<lambda>(info, d).
        case info of
          None \<Rightarrow> Ok (Inl VA_STATUS_ERROR_DECODING_ERROR, d)
        | Some info \<Rightarrow>
            if \<not> al 0 then Ok (Inl VA_STATUS_ERROR_ALLOCATION_FAILED, d)
            else case hevc_headers c cached info of
                Fault \<Rightarrow> Fault
              | Fail \<Rightarrow> Ok (Inl VA_STATUS_ERROR_DECODING_ERROR, d)
              | Ok (headers, new_seq) \<Rightarrow> hevc_pack abi al c headers new_seq d))"

section \<open>Other jobs\<close>

fun refresh_slot_from :: "nat \<Rightarrow> nat \<Rightarrow> u8 \<Rightarrow> u8" where
  "refresh_slot_from 0 slot flags = 8"
| "refresh_slot_from (Suc n) slot flags =
     (if (ucast flags :: u32) AND push_bit slot 1 \<noteq> 0 then of_nat slot else refresh_slot_from n (slot + 1) flags)"

definition first_refresh_slot :: "u8 \<Rightarrow> u8" where
  "first_refresh_slot flags = refresh_slot_from 8 0 flags"

fun generic_append_slices ::
    "(nat \<Rightarrow> bool) \<Rightarrow> u32 list \<Rightarrow> packet \<Rightarrow> RKDriver \<Rightarrow> ((VAStatus + packet) \<times> RKDriver) outcome" where
  "generic_append_slices al [] pk d = Ok (Inr pk, d)"
| "generic_append_slices al (i # ids) pk d =
     obind (visit d i) (\<lambda>(b, d).
       case b of
         None \<Rightarrow> generic_append_slices al ids pk d
       | Some b \<Rightarrow>
           if b_type b \<noteq> VASliceDataBufferType then generic_append_slices al ids pk d
           else obind (slice_bytes b) (\<lambda>xs.
             case packet_append al pk xs of Inl st \<Rightarrow> Ok (Inl st, d) | Inr pk \<Rightarrow> generic_append_slices al ids pk d))"

definition generic_info :: "picture \<Rightarrow> u8 list \<Rightarrow> RKVP9FrameInfo outcome" where
  "generic_info c data =
     (if data \<noteq> [] \<and> pc_coding c = CodingVP9
      then rk_vp9_parse_frame data (if pc_profile c = VAProfileVP9Profile2 then 2 else 0)
      else Ok vp9_info0)"

definition build_generic_job ::
    "(nat \<Rightarrow> bool) \<Rightarrow> picture \<Rightarrow> RKDriver \<Rightarrow> ((VAStatus + job_content) \<times> RKDriver) outcome" where
  "build_generic_job al c d =
     obind (generic_append_slices al (pc_pending c) (no_packet 0) d) (\<lambda>(r, d).
       case r of
         Inl st \<Rightarrow> Ok (Inl st, d)
       | Inr pk \<Rightarrow>
           case generic_info c (pk_data pk) of
             Fault \<Rightarrow> Fault
           | Fail \<Rightarrow> Ok (Inl VA_STATUS_ERROR_DECODING_ERROR, d)
           | Ok info \<Rightarrow>
               let hidden = (pk_data pk \<noteq> [] \<and> pc_coding c = CodingVP9 \<and> \<not> show_existing_frame info \<and> \<not> show_frame info)
               in Ok (Inr \<lparr>jc_data = pk_data pk, jc_h264_field = False, jc_is_hidden = hidden,
                      jc_repeat_slot = (if hidden then first_refresh_slot (refresh_frame_flags info) else 8),
                      jc_sequence_headers = None\<rparr>, d))"

definition rk_mpp_dec_build_job ::
    "va_abi \<Rightarrow> (nat \<Rightarrow> bool) \<Rightarrow> picture \<Rightarrow> u8 list option \<Rightarrow> RKDriver \<Rightarrow>
     ((VAStatus + job_content) \<times> picture \<times> RKDriver) outcome" where
  "rk_mpp_dec_build_job abi al c cached d =
     (case pc_coding c of
        CodingAVC \<Rightarrow> build_h264_job abi al c d
      | CodingHEVC \<Rightarrow> obind (build_hevc_job abi al c cached d) (\<lambda>(r, d). Ok (r, c, d))
      | _ \<Rightarrow> obind (build_generic_job al c d) (\<lambda>(r, d). Ok (r, c, d)))"

section \<open>What a picture's buffers hold\<close>

definition seen :: "RKDriver \<Rightarrow> u32 \<Rightarrow> RKBuffer option" where
  "seen d i = (case heap_find (d_buffer_heap d) i of None \<Rightarrow> None
     | Some p \<Rightarrow> if obj_refs (d_objs d) p = - 1 then None else d_buf d p)"

definition shown_buffers :: "RKDriver \<Rightarrow> u32 list \<Rightarrow> RKBuffer list" where
  "shown_buffers d ids = List.map_filter (seen d) ids"

definition content :: "RKBuffer \<Rightarrow> u8 list" where
  "content b = map the (take (unat (b_capacity b)) (b_data b))"

definition is_slice :: "RKBuffer \<Rightarrow> bool" where
  "is_slice b \<longleftrightarrow> b_type b = VASliceDataBufferType"

definition slices :: "RKBuffer list \<Rightarrow> u8 list list" where
  "slices bs = map content (filter is_slice bs)"

lemma visit_seen:
  assumes "drv_inv d"
  shows "visit d i = Ok (seen d i, d)"
proof (cases "heap_find (d_buffer_heap d) i")
  case None
  have "buffer_acquire d i = Ok (None, d)"
    using assms None by (simp add: buffer_acquire_def heap_acquire_find drv_inv_def handles_ok_def)
  with None show ?thesis by (simp add: visit_def seen_def)
next
  case (Some p)
  have h: "handles_ok (d_buffer_heap d) (d_buf d) (obj_refs (d_objs d))" using assms by (simp add: drv_inv_def)
  then obtain b where b: "d_buf d p = Some b" "obj_refs (d_objs d) p \<noteq> 0" using handles_named [OF _ Some] by blast
  obtain ok objs where r: "rk_object_ref p (d_objs d) = (ok, objs)" by fastforce
  have acq: "buffer_acquire d i = Ok (if ok then Some p else None, d\<lparr>d_objs := objs\<rparr>)"
    using h Some r by (simp add: buffer_acquire_def heap_acquire_find handles_ok_def)
  have ok: "ok \<longleftrightarrow> obj_refs (d_objs d) p \<noteq> - 1" "\<not> ok \<Longrightarrow> objs = d_objs d"
    using r b(2) by (auto simp: rk_object_ref_def Let_def split: if_splits)
  show ?thesis
  proof (cases ok)
    case True
    with buffer_unref_acquired [of "d\<lparr>d_objs := objs\<rparr>" p b "d_objs d" objs] r b acq ok Some
    show ?thesis by (simp add: visit_def seen_def buffer_at_def)
  next
    case False
    with acq ok Some show ?thesis by (simp add: visit_def seen_def)
  qed
qed

lemma seen_wf: "drv_inv d \<Longrightarrow> seen d i = Some b \<Longrightarrow> buf_wf b"
  by (auto simp: seen_def drv_inv_def store_ok_def split: option.splits if_splits)

lemma shown_simps [simp]:
  "shown_buffers d [] = []"
  "seen d i = None \<Longrightarrow> shown_buffers d (i # ids) = shown_buffers d ids"
  "seen d i = Some b \<Longrightarrow> shown_buffers d (i # ids) = b # shown_buffers d ids"
  by (simp_all add: shown_buffers_def map_filter_simps)

lemma content_read:
  assumes "buf_wf b" and "b_type b \<noteq> VAImageBufferType" and "n \<le> unat (b_capacity b)"
  shows "mem_read (b_data b) 0 n = Ok (take n (content b))" and "length (content b) = unat (b_capacity b)"
proof -
  from assms have i: "unat (b_capacity b) \<le> length (b_data b)" "\<And>k. k < unat (b_capacity b) \<Longrightarrow> b_data b ! k \<noteq> None"
    by (auto simp: buf_wf_def init_prefix_def)
  with assms(3) have "list_all (\<lambda>x. x \<noteq> None) (take n (b_data b))" by (auto simp: list_all_length)
  with i assms(3) show "mem_read (b_data b) 0 n = Ok (take n (content b))"
    by (simp add: mem_read_def content_def take_map min_absorb1)
  show "length (content b) = unat (b_capacity b)" using i by (simp add: content_def)
qed

lemma slice_read: "buf_wf b \<Longrightarrow> is_slice b \<Longrightarrow> slice_bytes b = Ok (content b)"
  using content_read [of b "unat (b_capacity b)"] by (simp add: slice_bytes_def is_slice_def)

lemma total_capacity: "buf_wf b \<Longrightarrow> b_derived b = None \<Longrightarrow> b_total b = unat (b_capacity b)"
  by (simp add: b_total_def unat_mul32 buf_wf_def)

section \<open>Collecting\<close>

definition pending_ok :: "picture \<Rightarrow> bool" where
  "pending_ok c \<longleftrightarrow> int (length (pc_pending c)) \<le> pc_capacity c \<and> int (length (pc_pending c)) \<le> PENDING_LIMIT \<and>
     pc_capacity c < 2 * PENDING_LIMIT"

lemma grow_capacity_bounds:
  "0 < cap \<Longrightarrow> needed \<le> grow_capacity cap needed \<and> cap \<le> grow_capacity cap needed \<and>
     (grow_capacity cap needed = cap \<or> grow_capacity cap needed < 2 * needed)"
proof (induction cap needed rule: grow_capacity.induct)
  case (1 cap needed)
  show ?case
  proof (cases "cap < needed")
    case True
    with 1 show ?thesis by (subst (1 2 3 4) grow_capacity.simps) auto
  next
    case False
    then show ?thesis by (subst (1 2 3 4) grow_capacity.simps) auto
  qed
qed

lemma reserve_cases:
  assumes "pending_ok c"
  obtains (refused) st where "reserve_pending mem_ok c (int n) = (st, c)" "st \<noteq> VA_STATUS_SUCCESS"
      "\<not> mem_ok \<or> int (length (pc_pending c)) + int n > PENDING_LIMIT"
  | (reserved) cap where "reserve_pending mem_ok c (int n) = (VA_STATUS_SUCCESS, c\<lparr>pc_capacity := cap\<rparr>)"
      "int (length (pc_pending c)) + int n \<le> cap" "int (length (pc_pending c)) + int n \<le> PENDING_LIMIT" "cap < 2 * PENDING_LIMIT"
proof -
  let ?n = "int (length (pc_pending c)) + int n" and ?cap0 = "if pc_capacity c \<noteq> 0 then pc_capacity c else 64"
  have cap0: "0 < ?cap0" "?cap0 < 2 * PENDING_LIMIT" using assms by (auto simp: pending_ok_def PENDING_LIMIT_def)
  note g = grow_capacity_bounds [OF cap0(1), of ?n]
  consider "?n > PENDING_LIMIT" | "?n \<le> PENDING_LIMIT" "?n \<le> pc_capacity c" | "?n \<le> PENDING_LIMIT" "?n > pc_capacity c" by linarith
  then show thesis
  proof cases
    case 1
    with refused show thesis by (auto simp: reserve_pending_def Let_def)
  next
    case 2
    with reserved [of "pc_capacity c"] assms show thesis by (auto simp: reserve_pending_def Let_def pending_ok_def)
  next
    case 3
    have "grow_capacity ?cap0 ?n < 2 * PENDING_LIMIT" using g cap0 3 by auto
    with 3 g reserved [of "grow_capacity ?cap0 ?n"] refused show thesis
      by (cases mem_ok) (auto simp: reserve_pending_def Let_def)
  qed
qed


text \<open>\<open>rk_RenderPicture\<close> leaves the buffers alone and changes of the picture only its parameters and its list.\<close>

lemma snapshot_ok:
  assumes "buf_wf b"
  shows "\<exists>c'. snapshot abi b c = Ok c' \<and> pc_pending c' = pc_pending c \<and> pc_capacity c' = pc_capacity c"
proof (cases "b_type b = VAPictureParameterBufferType \<or> b_type b = VAIQMatrixBufferType")
  case True
  then have t: "b_type b \<noteq> VAImageBufferType" by auto
  with assms have "b_derived b = None" by (auto simp: buf_wf_def)
  with assms content_read(1) [OF assms t] have "\<And>n. n \<le> b_total b \<Longrightarrow> mem_read (b_data b) 0 n = Ok (take n (content b))"
    by (simp add: total_capacity)
  then show ?thesis by (simp add: snapshot_def)
next
  case False
  then show ?thesis by (simp add: snapshot_def)
qed

lemma render_loop_ok:
  assumes "drv_inv d" and "int (length (pc_pending c)) + int (length ids) \<le> pc_capacity c"
  shows "\<exists>c'. render_loop abi ids c d = Ok (c', d) \<and> pc_pending c' = pc_pending c @ ids \<and> pc_capacity c' = pc_capacity c"
  using assms(2)
proof (induction ids arbitrary: c)
  case (Cons i ids)
  let ?c = "c\<lparr>pc_pending := pc_pending c @ [i]\<rparr>"
  have "\<exists>c'. (case seen d i of None \<Rightarrow> Ok ?c | Some b \<Rightarrow> snapshot abi b ?c) = Ok c' \<and>
      pc_pending c' = pc_pending ?c \<and> pc_capacity c' = pc_capacity ?c"
    using snapshot_ok [OF seen_wf [OF assms(1)], of i _ abi ?c] by (cases "seen d i") auto
  then obtain c1 where c1: "(case seen d i of None \<Rightarrow> Ok ?c | Some b \<Rightarrow> snapshot abi b ?c) = Ok c1"
      "pc_pending c1 = pc_pending c @ [i]" "pc_capacity c1 = pc_capacity c" by auto
  have "\<exists>c'. render_loop abi ids c1 d = Ok (c', d) \<and> pc_pending c' = pc_pending c1 @ ids \<and> pc_capacity c' = pc_capacity c1"
    using Cons.IH [of c1] Cons.prems c1 by simp
  with c1 Cons.prems show ?case by (simp add: visit_seen [OF assms(1)] Let_def)
qed simp

lemma render_cases:
  assumes "drv_inv d" and "pending_ok c"
  shows "\<exists>st c'. rk_RenderPicture abi mem_ok c d ids = Ok (st, c', d) \<and> pending_ok c' \<and>
     (st = VA_STATUS_SUCCESS \<longrightarrow> pc_pending c' = pc_pending c @ ids) \<and> (st \<noteq> VA_STATUS_SUCCESS \<longrightarrow> c' = c) \<and>
     (mem_ok \<and> int (length (pc_pending c)) + int (length ids) \<le> PENDING_LIMIT \<longrightarrow> st = VA_STATUS_SUCCESS)"
proof (cases rule: reserve_cases [OF assms(2), of mem_ok "length ids", case_names refused reserved])
  case (refused st)
  with assms show ?thesis by (auto simp: rk_RenderPicture_def)
next
  case (reserved cap)
  then obtain c' where "render_loop abi ids (c\<lparr>pc_capacity := cap\<rparr>) d = Ok (c', d)" "pc_pending c' = pc_pending c @ ids"
      "pc_capacity c' = cap"
    using render_loop_ok [OF assms(1), of "c\<lparr>pc_capacity := cap\<rparr>" ids abi] by auto
  with reserved show ?thesis by (auto simp: rk_RenderPicture_def pending_ok_def)
qed


section \<open>Packing\<close>

lemma packet_append_data: "packet_append al pk xs = Inr pk' \<Longrightarrow> pk_data pk' = pk_data pk @ xs"
  by (auto simp: packet_append_def Let_def split: if_splits)

lemma packet_append_total:
  assumes "\<forall>k. al k" and "int (length (pk_data pk) + length xs) \<le> SIZE_MAX"
  shows "\<exists>pk'. packet_append al pk xs = Inr pk' \<and> pk_data pk' = pk_data pk @ xs"
  using assms by (auto simp: packet_append_def Let_def)

text \<open>\<open>packs al pk bytes r\<close>: the loop appended \<open>bytes\<close>, or ran out of memory.\<close>

definition packs :: "(nat \<Rightarrow> bool) \<Rightarrow> packet \<Rightarrow> u8 list \<Rightarrow> VAStatus + packet \<Rightarrow> bool" where
  "packs al pk bytes r \<longleftrightarrow> (\<forall>pk'. r = Inr pk' \<longrightarrow> pk_data pk' = pk_data pk @ bytes) \<and>
     ((\<forall>k. al k) \<and> int (length (pk_data pk) + length bytes) \<le> SIZE_MAX \<longrightarrow> (\<exists>pk'. r = Inr pk'))"

lemma packs_append [simp]: "packs al pk xs (packet_append al pk xs)"
  using packet_append_total [of al pk xs] by (auto simp: packs_def dest: packet_append_data)

lemma packs_Nil [simp]: "packs al pk [] (Inr pk)"
  by (simp add: packs_def)

lemma packs_stop: "packs al pk xs (Inl st) \<Longrightarrow> packs al pk (xs @ ys) (Inl st)"
  by (auto simp: packs_def)

lemma packs_next:
  assumes "packs al pk xs (Inr pk')" and "packs al pk' ys r"
  shows "packs al pk (xs @ ys) r"
proof -
  from assms(1) have d: "pk_data pk' = pk_data pk @ xs" by (simp add: packs_def)
  then have "length (pk_data pk') + length ys = length (pk_data pk) + length (xs @ ys)" by simp
  with assms(2) show ?thesis unfolding packs_def d append_assoc by metis
qed

lemma packs_two:
  "packs al pk (xs @ ys) (case packet_append al pk xs of Inl st \<Rightarrow> Inl st | Inr pk \<Rightarrow> packet_append al pk ys)"
  using packs_append [of al pk xs] by (cases "packet_append al pk xs") (auto intro: packs_stop packs_next [OF _ packs_append])

lemma slices_simps [simp]:
  "slices [] = []"
  "is_slice b \<Longrightarrow> slices (b # bs) = content b # slices bs"
  "\<not> is_slice b \<Longrightarrow> slices (b # bs) = slices bs"
  by (simp_all add: slices_def)

lemma generic_slices:
  assumes "drv_inv d"
  shows "\<exists>r. generic_append_slices al ids pk d = Ok (r, d) \<and> packs al pk (concat (slices (shown_buffers d ids))) r"
proof (induction ids arbitrary: pk)
  case (Cons i ids)
  show ?case
  proof (cases "seen d i")
    case None
    with Cons show ?thesis by (simp add: visit_seen [OF assms])
  next
    case (Some b)
    show ?thesis
    proof (cases "is_slice b")
      case True
      note sl = slice_read [OF seen_wf [OF assms Some] True]
      show ?thesis
      proof (cases "packet_append al pk (content b)")
        case (Inl st)
        then have "packs al pk (content b @ concat (slices (shown_buffers d ids))) (Inl st)"
          using packs_append [of al pk "content b"] by (simp add: packs_stop)
        with Some sl True Inl show ?thesis by (simp add: visit_seen [OF assms] is_slice_def)
      next
        case (Inr pk')
        from Cons [of pk'] obtain r where r: "generic_append_slices al ids pk' d = Ok (r, d)"
          "packs al pk' (concat (slices (shown_buffers d ids))) r" by blast
        then have "packs al pk (content b @ concat (slices (shown_buffers d ids))) r"
          using packs_append [of al pk "content b"] Inr by (simp add: packs_next)
        with Some sl True Inr r show ?thesis by (simp add: visit_seen [OF assms] is_slice_def)
      qed
    next
      case False
      with Cons Some show ?thesis by (simp add: visit_seen [OF assms] is_slice_def)
    qed
  qed
qed simp

lemma h264_slices:
  assumes "drv_inv d"
  shows "\<exists>r. h264_append_slices al ids pk d = Ok (r, d) \<and>
     packs al pk (concat (map ((@) sc) (slices (shown_buffers d ids)))) r"
proof (induction ids arbitrary: pk)
  case (Cons i ids)
  show ?case
  proof (cases "seen d i")
    case None
    with Cons show ?thesis by (simp add: visit_seen [OF assms])
  next
    case (Some b)
    show ?thesis
    proof (cases "is_slice b")
      case True
      let ?rest = "concat (map ((@) sc) (slices (shown_buffers d ids)))"
      note sl = slice_read [OF seen_wf [OF assms Some] True]
      let ?two = "case packet_append al pk sc of Inl st \<Rightarrow> Inl st | Inr pk \<Rightarrow> packet_append al pk (content b)"
      have two: "packs al pk (sc @ content b) ?two"
        by (rule packs_two)
      show ?thesis
      proof (cases ?two)
        case (Inl st)
        with two have "packs al pk ((sc @ content b) @ ?rest) (Inl st)" by (metis packs_stop)
        with Some sl True Inl show ?thesis
          by (auto simp: visit_seen [OF assms] is_slice_def split: sum.splits)
      next
        case (Inr pk')
        from Cons [of pk'] obtain r where r: "h264_append_slices al ids pk' d = Ok (r, d)" "packs al pk' ?rest r" by blast
        with two Inr have "packs al pk ((sc @ content b) @ ?rest) r" by (metis packs_next)
        with Some sl True Inr r show ?thesis
          by (auto simp: visit_seen [OF assms] is_slice_def split: sum.splits)
      qed
    next
      case False
      with Cons Some show ?thesis by (simp add: visit_seen [OF assms] is_slice_def)
    qed
  qed
qed simp


section \<open>What an H.264 packet has to hold\<close>

definition h264_refs :: "va_abi \<Rightarrow> RKBuffer list \<Rightarrow> u8 \<times> u8" where
  "h264_refs abi bs =
     (case filter (\<lambda>b. b_type b = VASliceParameterBufferType \<and> sizeof_slice_h264 abi \<le> unat (b_capacity b)) bs of
        [] \<Rightarrow> (0, 0) | b # _ \<Rightarrow> load_slice_h264 abi (take (sizeof_slice_h264 abi) (content b)))"

definition h264_idr :: "RKBuffer list \<Rightarrow> bool" where
  "h264_idr bs = (case filter (\<lambda>xs. xs \<noteq> []) (slices bs) of [] \<Rightarrow> False | xs # _ \<Rightarrow> hd xs AND 0x1F = 5)"

definition h264_header_bytes :: "picture \<Rightarrow> bool \<Rightarrow> u8 \<times> u8 \<Rightarrow> u8 list option" where
  "h264_header_bytes c idr refs =
     do {
       sps \<leftarrow> (if idr \<or> \<not> sps_sent c then h264_write_sps 2048 (last_pp c) (h264_profile_idc (pc_profile c)) else Some []);
       pps \<leftarrow> h264_write_pps 2048 (last_pp c)
               (if has_iq c \<and> h264_profile_idc (pc_profile c) \<ge> 100 then Some (last_iq c) else None)
               (uint (fst refs)) (uint (snd refs));
       Some (sps @ pps)
     }"

definition h264_packet :: "va_abi \<Rightarrow> picture \<Rightarrow> RKBuffer list \<Rightarrow> u8 list option" where
  "h264_packet abi c bs = map_option (\<lambda>headers. headers @ concat (map ((@) sc) (slices bs)))
     (h264_header_bytes c (h264_idr bs) (h264_refs abi bs))"

lemma content_empty: "buf_wf b \<Longrightarrow> is_slice b \<Longrightarrow> content b = [] \<longleftrightarrow> b_capacity b = 0"
  using content_read(2) [of b 0] by (auto simp: is_slice_def unat_eq_0 simp flip: length_0_conv)

lemma h264_refs_read: "drv_inv d \<Longrightarrow> h264_ref_counts abi ids d = Ok (h264_refs abi (shown_buffers d ids), d)"
proof (induction ids)
  case (Cons i ids)
  show ?case
  proof (cases "seen d i")
    case (Some b)
    from content_read(1) [OF seen_wf [OF Cons.prems Some], of "sizeof_slice_h264 abi"] Cons Some show ?thesis
      by (auto simp: visit_seen h264_refs_def)
  qed (use Cons in \<open>simp add: visit_seen\<close>)
qed (simp add: h264_refs_def)

lemma h264_idr_read: "drv_inv d \<Longrightarrow> h264_is_idr ids d = Ok (h264_idr (shown_buffers d ids), d)"
proof (induction ids)
  case (Cons i ids)
  show ?case
  proof (cases "seen d i")
    case (Some b)
    note wf = seen_wf [OF Cons.prems Some]
    show ?thesis
    proof (cases "is_slice b \<and> b_capacity b \<noteq> 0")
      case True
      then have "1 \<le> unat (b_capacity b)" by (simp add: Suc_le_eq unat_gt_0)
      with True content_read [OF wf, of 1] have "mem_read (b_data b) 0 1 = Ok (take 1 (content b))" by (auto simp: is_slice_def)
      moreover have "content b \<noteq> []" using True content_empty [OF wf] by simp
      ultimately show ?thesis using True Cons Some by (cases "content b") (auto simp: visit_seen h264_idr_def is_slice_def)
    next
      case False
      with Cons Some content_empty [OF wf] show ?thesis
        by (cases "is_slice b") (auto simp: visit_seen h264_idr_def is_slice_def)
    qed
  qed (use Cons in \<open>simp add: visit_seen\<close>)
qed (simp add: h264_idr_def)

lemma h264_headers_packs:
  assumes "h264_headers al c idr refs = (r, c')"
  shows "case h264_header_bytes c idr refs of None \<Rightarrow> \<exists>st. r = Inl st
      | Some bytes \<Rightarrow> packs al (no_packet 0) bytes r \<and> (\<forall>pk. r = Inr pk \<longrightarrow> sps_sent c')"
    and "c' = c \<or> c' = c\<lparr>sps_sent := True\<rparr>"
proof -
  let ?pps = "h264_write_pps 2048 (last_pp c) (if has_iq c \<and> h264_profile_idc (pc_profile c) \<ge> 100 then Some (last_iq c) else None)
     (uint (fst refs)) (uint (snd refs))"
  show "c' = c \<or> c' = c\<lparr>sps_sent := True\<rparr>"
    using assms by (auto simp: h264_headers_def Let_def split: if_splits option.splits sum.splits)
  show "case h264_header_bytes c idr refs of None \<Rightarrow> \<exists>st. r = Inl st
      | Some bytes \<Rightarrow> packs al (no_packet 0) bytes r \<and> (\<forall>pk. r = Inr pk \<longrightarrow> sps_sent c')"
  proof (cases "idr \<or> \<not> sps_sent c")
    case False
    with assms show ?thesis by (auto simp: h264_headers_def h264_header_bytes_def Let_def split: option.splits)
  next
    case True
    show ?thesis
    proof (cases "h264_write_sps 2048 (last_pp c) (h264_profile_idc (pc_profile c))")
      case None
      with True assms show ?thesis by (auto simp: h264_headers_def h264_header_bytes_def Let_def)
    next
      case (Some sps)
      define pps where "pps = ?pps"
      have e: "h264_headers al c idr refs = (case packet_append al (no_packet 0) sps of Inl st \<Rightarrow> (Inl st, c)
          | Inr pk \<Rightarrow> (case pps of None \<Rightarrow> (Inl VA_STATUS_ERROR_DECODING_ERROR, c\<lparr>sps_sent := True\<rparr>)
              | Some hdr \<Rightarrow> (packet_append al pk hdr, c\<lparr>sps_sent := True\<rparr>)))"
        using True Some by (auto simp: h264_headers_def pps_def split: sum.split)
      have b: "h264_header_bytes c idr refs = map_option ((@) sps) pps"
        using True Some by (cases ?pps) (auto simp: h264_header_bytes_def pps_def)
      obtain q where q: "packet_append al (no_packet 0) sps = q" by simp
      from packs_append [of al "no_packet 0" sps] show ?thesis using assms unfolding e b q
        by (cases q; cases pps) (auto intro: packs_stop packs_next)
    qed
  qed
qed

lemma h264_job_packs:
  fixes c :: picture and abi :: va_abi and d :: RKDriver
  assumes "drv_inv d" and "pc_coding c = CodingAVC"
  defines "bs \<equiv> shown_buffers d (pc_pending c)"
  shows "\<exists>r c'. rk_mpp_dec_build_job abi al c cached d = Ok (r, c', d) \<and> (c' = c \<or> c' = c\<lparr>sps_sent := True\<rparr>) \<and>
     (\<forall>j. r = Inr j \<longrightarrow> h264_packet abi c bs = Some (jc_data j) \<and> jc_h264_field j = last_field_pic_flag c \<and>
        \<not> jc_is_hidden j \<and> jc_sequence_headers j = None \<and> sps_sent c') \<and>
     (\<forall>bytes. (\<forall>k. al k) \<longrightarrow> h264_packet abi c bs = Some bytes \<longrightarrow> int (length bytes) \<le> SIZE_MAX \<longrightarrow> (\<exists>j. r = Inr j))"
proof -
  obtain r c' where h: "h264_headers al c (h264_idr bs) (h264_refs abi bs) = (r, c')" by fastforce
  note hp = h264_headers_packs [OF h]
  have p: "pc_pending c' = pc_pending c" "last_field_pic_flag c' = last_field_pic_flag c" using hp(2) by auto
  note rd = h264_refs_read [OF assms(1)] h264_idr_read [OF assms(1)]
  show ?thesis
  proof (cases r)
    case (Inl st)
    with h hp rd assms show ?thesis
      by (auto simp: rk_mpp_dec_build_job_def build_h264_job_def h264_packet_def packs_def no_packet_def split: option.splits)
  next
    case (Inr pk)
    obtain r2 where r2: "h264_append_slices al (pc_pending c) pk d = Ok (r2, d)"
        "packs al pk (concat (map ((@) sc) (slices bs))) r2" using h264_slices [OF assms(1)] bs_def by blast
    from hp(1) Inr obtain bytes where b: "h264_header_bytes c (h264_idr bs) (h264_refs abi bs) = Some bytes"
        "packs al (no_packet 0) bytes (Inr pk)" "sps_sent c'" by (auto split: option.splits)
    from packs_next [OF b(2) r2(2)] have
      "packs al (no_packet 0) (bytes @ concat (map ((@) sc) (slices bs))) r2" .
    with h Inr r2 b hp(2) p rd assms show ?thesis
      by (cases r2) (auto simp: rk_mpp_dec_build_job_def build_h264_job_def h264_packet_def packs_def no_packet_def)
  qed
qed


section \<open>What a VP9 packet has to hold\<close>

lemma refresh_slot_from_least:
  "slot + n = 8 \<Longrightarrow> slot \<le> unat (refresh_slot_from n slot f) \<and> unat (refresh_slot_from n slot f) \<le> 8 \<and>
     (unat (refresh_slot_from n slot f) < 8 \<longrightarrow> bit f (unat (refresh_slot_from n slot f))) \<and>
     (\<forall>k. slot \<le> k \<longrightarrow> k < unat (refresh_slot_from n slot f) \<longrightarrow> \<not> bit f k)"
proof (induction n slot f rule: refresh_slot_from.induct)
  case (2 n slot f)
  have b: "(ucast f :: u32) AND push_bit slot 1 \<noteq> 0 \<longleftrightarrow> bit f slot"
    using 2(2) bit_iff_and_push_bit_not_eq_0 [of "ucast f :: u32" slot] by (auto simp: bit_unsigned_iff dest: bit_imp_le_length)
  have u: "unat (of_nat slot :: u8) = slot" using 2(2) by (simp add: unat_of_nat)
  show ?case
  proof (cases "bit f slot")
    case False
    with 2 b show ?thesis by (auto simp: le_less_Suc_eq Suc_le_eq dest: le_neq_implies_less)
  qed (use b u 2(2) in auto)
qed simp

lemma first_refresh_slot_least:
  "unat (first_refresh_slot f) \<le> 8 \<and> (unat (first_refresh_slot f) < 8 \<longrightarrow> bit f (unat (first_refresh_slot f))) \<and>
     (\<forall>k < unat (first_refresh_slot f). \<not> bit f k)"
  using refresh_slot_from_least [of 0 8 f] by (simp add: first_refresh_slot_def)

lemma first_refresh_slot_eq: "unat (first_refresh_slot f) = (LEAST k. k = 8 \<or> bit f k)"
proof (rule Least_equality [symmetric])
  show "unat (first_refresh_slot f) = 8 \<or> bit f (unat (first_refresh_slot f))"
    using first_refresh_slot_least [of f] by auto
  show "unat (first_refresh_slot f) \<le> k" if "k = 8 \<or> bit f k" for k
    using first_refresh_slot_least [of f] that by (meson not_less)
qed

lemma generic_info_no_fault: "generic_info c data \<noteq> Fault"
  by (simp add: generic_info_def vp9_parse_safe)

lemma generic_job_packs:
  fixes c :: picture and abi :: va_abi and d :: RKDriver
  assumes "drv_inv d" and "pc_coding c \<notin> {CodingAVC, CodingHEVC}"
  defines "data \<equiv> concat (slices (shown_buffers d (pc_pending c)))"
  shows "\<exists>r. rk_mpp_dec_build_job abi al c cached d = Ok (r, c, d) \<and>
     (\<forall>j. r = Inr j \<longrightarrow> (\<exists>info. generic_info c data = Ok info \<and> jc_data j = data \<and>
        (jc_is_hidden j \<longleftrightarrow> data \<noteq> [] \<and> pc_coding c = CodingVP9 \<and> \<not> show_existing_frame info \<and> \<not> show_frame info) \<and>
        jc_repeat_slot j = (if jc_is_hidden j then first_refresh_slot (refresh_frame_flags info) else 8) \<and>
        \<not> jc_h264_field j \<and> jc_sequence_headers j = None)) \<and>
     ((\<forall>k. al k) \<longrightarrow> generic_info c data \<noteq> Fail \<longrightarrow> int (length data) \<le> SIZE_MAX \<longrightarrow> (\<exists>j. r = Inr j))"
proof -
  obtain r where r: "generic_append_slices al (pc_pending c) (no_packet 0) d = Ok (r, d)" "packs al (no_packet 0) data r"
    using generic_slices [OF assms(1)] data_def by blast
  have e: "rk_mpp_dec_build_job abi al c cached d = obind (build_generic_job al c d) (\<lambda>(r, d). Ok (r, c, d))"
    using assms(2) by (auto simp: rk_mpp_dec_build_job_def split: MppCodingType.splits)
  show ?thesis
  proof (cases r)
    case (Inl st)
    with r show ?thesis unfolding e by (auto simp: build_generic_job_def packs_def no_packet_def)
  next
    case (Inr pk)
    with r have d: "pk_data pk = data" by (simp add: packs_def no_packet_def)
    with r Inr generic_info_no_fault [of c data] show ?thesis unfolding e
      by (cases "generic_info c data") (auto simp: build_generic_job_def Let_def)
  qed
qed

section \<open>What an HEVC packet has to hold\<close>

text \<open>The slices with the slice parameters that precede each of them.\<close>

fun hevc_units :: "va_abi \<Rightarrow> VASliceParameterBufferHEVC option \<Rightarrow> RKBuffer list \<Rightarrow>
    (u8 list \<times> VASliceParameterBufferHEVC option) list" where
  "hevc_units abi sp [] = []"
| "hevc_units abi sp (b # bs) =
     (if b_type b = VASliceParameterBufferType \<and> sizeof_slice_hevc abi \<le> unat (b_capacity b)
      then hevc_units abi (Some (load_slice_hevc abi (take (sizeof_slice_hevc abi) (content b)))) bs
      else if is_slice b \<and> content b \<noteq> [] then (content b, sp) # hevc_units abi sp bs
      else hevc_units abi sp bs)"

definition annex_b :: "u8 list \<Rightarrow> u8 list" where
  "annex_b xs = (if has_annex_b_prefix xs then xs else sc @ xs)"

definition rewritten :: "VAPictureParameterBufferHEVC \<Rightarrow> (u8 list \<times> VASliceParameterBufferHEVC option) \<Rightarrow> u8 list \<Rightarrow> bool" where
  "rewritten pp u nal \<longleftrightarrow> rk_hevc_rewrite_slice_nal True (length (fst u) + 4096) (fst u) pp (snd u) = Ok nal"

lemma rewrite_alloc:
  "rk_hevc_rewrite_slice_nal a n xs pp sp = Ok nal \<Longrightarrow> rk_hevc_rewrite_slice_nal True n xs pp sp = Ok nal"
  by (auto simp: rk_hevc_rewrite_slice_nal_def Let_def split: if_splits)

lemma hevc_slice_packs:
  "\<exists>r. hevc_append_slice al c h xs = Ok r \<and>
     (\<forall>h'. r = Inr h' \<longrightarrow> hs_count h' = hs_count h + 1 \<and> hs_param h' = hs_param h \<and>
        (\<exists>nal. rewritten (last_hevc_pp c) (xs, hs_param h) nal \<and> pk_data (hs_packet h') = pk_data (hs_packet h) @ annex_b nal)) \<and>
     (\<forall>nal. (\<forall>k. al k) \<longrightarrow> rewritten (last_hevc_pp c) (xs, hs_param h) nal \<longrightarrow>
        int (length (pk_data (hs_packet h)) + length (annex_b nal)) \<le> SIZE_MAX \<longrightarrow> (\<exists>h'. r = Inr h'))"
proof -
  let ?k = "pk_allocs (hs_packet h)" and ?pk = "(hs_packet h)\<lparr>pk_allocs := pk_allocs (hs_packet h) + 2\<rparr>"
  let ?rw = "\<lambda>a. rk_hevc_rewrite_slice_nal a (length xs + 4096) xs (last_hevc_pp c) (hs_param h)"
  show ?thesis
  proof (cases "al ?k")
    case False
    then show ?thesis by (auto simp: hevc_append_slice_def Let_def)
  next
    case True
    show ?thesis
    proof (cases "?rw (al (?k + 1))")
      case (Ok nal)
      let ?r = "case (if has_annex_b_prefix nal then Inr ?pk else packet_append al ?pk sc) of Inl st \<Rightarrow> Inl st
          | Inr pk \<Rightarrow> packet_append al pk nal"
      have p: "packs al ?pk (annex_b nal) ?r"
        using packs_two [of al ?pk sc nal] by (simp add: annex_b_def)
      have e: "hevc_append_slice al c h xs =
          Ok (case ?r of Inl st \<Rightarrow> Inl st | Inr pk \<Rightarrow> Inr (h\<lparr>hs_packet := pk, hs_count := hs_count h + 1\<rparr>))"
        using True Ok by (auto simp: hevc_append_slice_def Let_def split: sum.splits)
      have w: "rewritten (last_hevc_pp c) (xs, hs_param h) nal" using rewrite_alloc [OF Ok] by (simp add: rewritten_def)
      then have "rewritten (last_hevc_pp c) (xs, hs_param h) n \<longleftrightarrow> n = nal" for n by (auto simp: rewritten_def)
      with p w show ?thesis unfolding e by (cases ?r) (auto simp: packs_def)
    next
      case Fail
      with True show ?thesis by (auto simp: hevc_append_slice_def Let_def rewritten_def)
    next
      case Fault
      with slice_no_fault show ?thesis by blast
    qed
  qed
qed


text \<open>The loop over the buffers, with what it needs to succeed.\<close>

definition hevc_packs :: "(nat \<Rightarrow> bool) \<Rightarrow> picture \<Rightarrow> (u8 list \<times> VASliceParameterBufferHEVC option) list \<Rightarrow> hevc_slices \<Rightarrow>
    VAStatus + hevc_slices \<Rightarrow> bool" where
  "hevc_packs al c us h r \<longleftrightarrow>
     (\<forall>h'. r = Inr h' \<longrightarrow> hs_count h' = hs_count h + length us \<and>
        (\<exists>nals. list_all2 (rewritten (last_hevc_pp c)) us nals \<and>
           pk_data (hs_packet h') = pk_data (hs_packet h) @ concat (map annex_b nals))) \<and>
     (\<forall>nals. (\<forall>k. al k) \<longrightarrow> list_all2 (rewritten (last_hevc_pp c)) us nals \<longrightarrow>
        int (length (pk_data (hs_packet h)) + length (concat (map annex_b nals))) \<le> SIZE_MAX \<longrightarrow> (\<exists>h'. r = Inr h'))"

lemma hevc_packs_simps [simp]:
  "hevc_packs al c [] h (Inr h)"
  "hevc_packs al c us (h\<lparr>hs_param := sp\<rparr>) r \<longleftrightarrow> hevc_packs al c us h r"
  by (simp_all add: hevc_packs_def)

lemma rewritten_unique: "rewritten pp u nal \<Longrightarrow> rewritten pp u nal' \<Longrightarrow> nal' = nal"
  by (simp add: rewritten_def)

lemma hevc_packs_Cons:
  assumes "hevc_append_slice al c h xs = Ok r"
    and "\<And>h'. r = Inr h' \<Longrightarrow> hevc_packs al c us h' r'" and "\<And>st. r = Inl st \<Longrightarrow> r' = Inl st"
  shows "hevc_packs al c ((xs, hs_param h) # us) h r'"
proof -
  let ?W = "rewritten (last_hevc_pp c)"
  from hevc_slice_packs [of al c h xs] assms(1) have
    s: "\<And>h'. r = Inr h' \<Longrightarrow> hs_count h' = hs_count h + 1 \<and>
          (\<exists>nal. ?W (xs, hs_param h) nal \<and> pk_data (hs_packet h') = pk_data (hs_packet h) @ annex_b nal)"
    and t: "\<And>nal. \<forall>k. al k \<Longrightarrow> ?W (xs, hs_param h) nal \<Longrightarrow>
        int (length (pk_data (hs_packet h)) + length (annex_b nal)) \<le> SIZE_MAX \<Longrightarrow> \<exists>h'. r = Inr h'" by auto
  show ?thesis
  proof (cases r)
    case (Inl st)
    with assms(3) t show ?thesis
      by (fastforce simp: hevc_packs_def list_all2_Cons1)
  next
    case (Inr h1)
    from s [OF Inr] obtain nal where nal: "?W (xs, hs_param h) nal" "hs_count h1 = hs_count h + 1"
      "pk_data (hs_packet h1) = pk_data (hs_packet h) @ annex_b nal" by blast
    have sz: "int (length (pk_data (hs_packet h1)) + n) = int (length (pk_data (hs_packet h)) + (length (annex_b nal) + n))" for n
      using nal(3) by simp
    note h1 = assms(2) [OF Inr, unfolded hevc_packs_def nal(2,3) sz]
    show ?thesis unfolding hevc_packs_def
    proof (intro conjI allI impI)
      fix h' assume "r' = Inr h'"
      with h1 obtain nals where "list_all2 ?W us nals" "hs_count h' = hs_count h + 1 + length us"
        "pk_data (hs_packet h') = (pk_data (hs_packet h) @ annex_b nal) @ concat (map annex_b nals)" by blast
      with nal(1) show "hs_count h' = hs_count h + length ((xs, hs_param h) # us)"
        and "\<exists>nals. list_all2 ?W ((xs, hs_param h) # us) nals \<and> pk_data (hs_packet h') = pk_data (hs_packet h) @ concat (map annex_b nals)"
        by (auto intro!: exI [of _ "nal # nals"])
    next
      fix nals
      assume "\<forall>k. al k" and l: "list_all2 ?W ((xs, hs_param h) # us) nals"
        and "int (length (pk_data (hs_packet h)) + length (concat (map annex_b nals))) \<le> SIZE_MAX"
      moreover from l nal(1) obtain ns where "nals = nal # ns" "list_all2 ?W us ns"
        by (auto simp: list_all2_Cons1 dest: rewritten_unique)
      ultimately show "\<exists>h'. r' = Inr h'" using h1 by simp
    qed
  qed
qed

lemma hevc_slices_pack:
  assumes "drv_inv d"
  shows "\<exists>r. hevc_append_slices abi al c ids h d = Ok (r, d) \<and>
     hevc_packs al c (hevc_units abi (hs_param h) (shown_buffers d ids)) h r"
proof (induction ids arbitrary: h)
  case (Cons i ids)
  show ?case
  proof (cases "seen d i")
    case None
    with Cons show ?thesis by (simp add: visit_seen [OF assms])
  next
    case (Some b)
    note wf = seen_wf [OF assms Some]
    consider (param) "b_type b = VASliceParameterBufferType" "sizeof_slice_hevc abi \<le> unat (b_capacity b)"
      | (slice) "is_slice b" "b_capacity b \<noteq> 0" | (skip) "b_type b = VASliceParameterBufferType \<longrightarrow> \<not> sizeof_slice_hevc abi \<le> unat (b_capacity b)"
          "\<not> is_slice b \<or> b_capacity b = 0" by blast
    then show ?thesis
    proof cases
      case param
      with Cons [of "h\<lparr>hs_param := Some (load_slice_hevc abi (take (sizeof_slice_hevc abi) (content b)))\<rparr>"] Some
        content_read(1) [OF wf, of "sizeof_slice_hevc abi"] show ?thesis by (simp add: visit_seen [OF assms])
    next
      case slice
      obtain r where r: "hevc_append_slice al c h (content b) = Ok r"
        using hevc_slice_packs [of al c h "content b"] by (elim exE conjE)
      have u: "hevc_units abi (hs_param h) (shown_buffers d (i # ids)) =
          (content b, hs_param h) # hevc_units abi (hs_param h) (shown_buffers d ids)"
        using Some slice content_empty [OF wf] by (simp add: is_slice_def)
      have e: "hevc_append_slices abi al c (i # ids) h d =
          (case r of Inl st \<Rightarrow> Ok (Inl st, d) | Inr h \<Rightarrow> hevc_append_slices abi al c ids h d)"
        using Some slice slice_read [OF wf slice(1)] r by (simp add: visit_seen [OF assms] is_slice_def)
      show ?thesis
      proof (cases r)
        case (Inl st)
        have "hevc_packs al c ((content b, hs_param h) # hevc_units abi (hs_param h) (shown_buffers d ids)) h (Inl st)"
          by (rule hevc_packs_Cons [OF r]) (simp_all add: Inl)
        then show ?thesis unfolding u e Inl sum.case by blast
      next
        case (Inr h1)
        then have "hs_param h1 = hs_param h" using hevc_slice_packs [of al c h "content b"] r by auto
        with Cons [of h1] obtain r' where r': "hevc_append_slices abi al c ids h1 d = Ok (r', d)"
          "hevc_packs al c (hevc_units abi (hs_param h) (shown_buffers d ids)) h1 r'" by auto
        have "hevc_packs al c ((content b, hs_param h) # hevc_units abi (hs_param h) (shown_buffers d ids)) h r'"
          by (rule hevc_packs_Cons [OF r]) (simp_all add: Inr r')
        with r' show ?thesis unfolding u e Inr sum.case by blast
      qed
    next
      case skip
      with Cons Some content_empty [OF wf] show ?thesis
        by (auto simp: visit_seen [OF assms] is_slice_def)
    qed
  qed
qed simp


definition hevc_info :: "RKBuffer list \<Rightarrow> RKHEVCSliceInfo option" where
  "hevc_info bs = (case filter (\<lambda>xs. xs \<noteq> []) (slices bs) of [] \<Rightarrow> None
     | xs # _ \<Rightarrow> (case rk_hevc_parse_slice_info xs of Ok info \<Rightarrow> Some info | _ \<Rightarrow> None))"

definition hevc_profile :: "picture \<Rightarrow> int" where
  "hevc_profile c = (if pc_profile c = VAProfileHEVCMain10 then 2 else 1)"

definition hevc_iq :: "picture \<Rightarrow> VAIQMatrixBufferHEVC option" where
  "hevc_iq c = (if has_hevc_iq c then Some (last_hevc_iq c) else None)"

definition hevc_sequence :: "picture \<Rightarrow> u8 list outcome" where
  "hevc_sequence c = rk_hevc_write_sequence_parameter_sets HEVC_SEQUENCE_HEADER_CAPACITY (last_hevc_pp c) (hevc_iq c) (hevc_profile c)"

text \<open>\<open>hevc_job\<close>: the job for a picture whose shown buffers are \<open>bs\<close>, when the decoder already has the
  sequence parameter sets \<open>cached\<close>.\<close>

definition hevc_job :: "va_abi \<Rightarrow> picture \<Rightarrow> u8 list option \<Rightarrow> RKBuffer list \<Rightarrow> job_content \<Rightarrow> bool" where
  "hevc_job abi c cached bs j \<longleftrightarrow> has_hevc_pp c \<and> hevc_units abi None bs \<noteq> [] \<and>
     (\<exists>info seq pps nals. hevc_info bs = Some info \<and> hevc_sequence c = Ok seq \<and>
        rk_hevc_write_picture_parameter_set (HEVC_HEADER_CAPACITY - (if cached = Some seq then 0 else length seq))
          (last_hevc_pp c) (hevc_iq c) (slice_pps_id info) (hevc_profile c) = Ok pps \<and>
        list_all2 (rewritten (last_hevc_pp c)) (hevc_units abi None bs) nals \<and>
        j = \<lparr>jc_data = (if cached = Some seq then [] else seq) @ pps @ concat (map annex_b nals),
             jc_h264_field = False, jc_is_hidden = False, jc_repeat_slot = 8,
             jc_sequence_headers = (if cached = Some seq then None else Some seq)\<rparr>)"

lemma hevc_first_read: "drv_inv d \<Longrightarrow> hevc_first_slice ids d = Ok (hevc_info (shown_buffers d ids), d)"
proof (induction ids)
  case (Cons i ids)
  show ?case
  proof (cases "seen d i")
    case (Some b)
    note wf = seen_wf [OF Cons.prems Some]
    show ?thesis
    proof (cases "is_slice b \<and> b_capacity b \<noteq> 0")
      case True
      with Some slice_read [OF wf] content_empty [OF wf] Cons.prems show ?thesis
        using slice_no_fault [of True 0 "content b" undefined None]
        by (auto simp: visit_seen hevc_info_def is_slice_def word_gt_0 split: outcome.splits)
    next
      case False
      with Cons Some content_empty [OF wf] show ?thesis
        by (cases "is_slice b") (auto simp: visit_seen hevc_info_def is_slice_def)
    qed
  qed (use Cons in \<open>simp add: visit_seen\<close>)
qed (simp add: hevc_info_def)

lemma rewritten_nals_unique: "list_all2 (rewritten pp) us ns \<Longrightarrow> list_all2 (rewritten pp) us ns' \<Longrightarrow> ns' = ns"
  by (rule nth_equalityI) (auto simp: list_all2_conv_all_nth rewritten_def)

lemma if_not: "(if \<not> P then x else y) = (if P then y else x)"
  by simp

lemma hevc_pack_job:
  fixes abi :: va_abi and c :: picture and d :: RKDriver
  assumes "drv_inv d"
  defines "us \<equiv> hevc_units abi None (shown_buffers d (pc_pending c))"
  shows "\<exists>r. hevc_pack abi al c headers new_seq d = Ok (r, d) \<and>
     (\<forall>j. r = Inr j \<longrightarrow> us \<noteq> [] \<and> (\<exists>nals. list_all2 (rewritten (last_hevc_pp c)) us nals \<and>
        j = \<lparr>jc_data = headers @ concat (map annex_b nals), jc_h264_field = False, jc_is_hidden = False,
             jc_repeat_slot = 8, jc_sequence_headers = new_seq\<rparr>)) \<and>
     (\<forall>nals. (\<forall>k. al k) \<longrightarrow> us \<noteq> [] \<longrightarrow> list_all2 (rewritten (last_hevc_pp c)) us nals \<longrightarrow>
        int (length headers + length (concat (map annex_b nals))) \<le> SIZE_MAX \<longrightarrow> (\<exists>j. r = Inr j))"
proof (cases "packet_append al (no_packet 1) headers")
  case (Inl st)
  with packs_append [of al "no_packet 1" headers] show ?thesis
    by (auto simp: hevc_pack_def packs_def no_packet_def)
next
  case (Inr pk)
  then have pk: "pk_data pk = headers" by (simp add: packet_append_data no_packet_def)
  let ?h = "\<lparr>hs_packet = pk, hs_param = None, hs_count = 0\<rparr>"
  obtain r where r: "hevc_append_slices abi al c (pc_pending c) ?h d = Ok (r, d)" "hevc_packs al c us ?h r"
    using hevc_slices_pack [OF assms(1), of abi al c "pc_pending c" ?h] by (auto simp: us_def)
  show ?thesis
  proof (cases r)
    case (Inl st)
    with Inr r pk show ?thesis by (auto simp: hevc_pack_def hevc_packs_def)
  next
    case (Inr h)
    with \<open>packet_append _ _ _ = _\<close> r pk show ?thesis by (auto simp: hevc_pack_def hevc_packs_def)
  qed
qed

lemma hevc_headers_eq:
  "hevc_headers c cached info = obind (hevc_sequence c) (\<lambda>seq.
     obind (rk_hevc_write_picture_parameter_set (HEVC_HEADER_CAPACITY - (if cached = Some seq then 0 else length seq))
       (last_hevc_pp c) (hevc_iq c) (slice_pps_id info) (hevc_profile c)) (\<lambda>pps.
     Ok ((if cached = Some seq then [] else seq) @ pps, if cached = Some seq then None else Some seq)))"
  by (simp add: hevc_headers_def hevc_sequence_def hevc_iq_def hevc_profile_def Let_def if_not if_distrib [of length]
      cong: if_cong)

lemma hevc_headers_no_fault: "hevc_pp_wf (last_hevc_pp c) \<Longrightarrow> hevc_headers c cached info \<noteq> Fault"
  using parameter_sets_no_fault [of "last_hevc_pp c"] by (auto simp: hevc_headers_eq hevc_sequence_def)


lemma hevc_job_packs:
  fixes c :: picture and abi :: va_abi and d :: RKDriver
  assumes "drv_inv d" and "pc_coding c = CodingHEVC" and "hevc_pp_wf (last_hevc_pp c)"
  defines "bs \<equiv> shown_buffers d (pc_pending c)"
  shows "\<exists>r. rk_mpp_dec_build_job abi al c cached d = Ok (r, c, d) \<and> (\<forall>j. r = Inr j \<longrightarrow> hevc_job abi c cached bs j) \<and>
     (\<forall>j. (\<forall>k. al k) \<longrightarrow> hevc_job abi c cached bs j \<longrightarrow> int (length (jc_data j)) \<le> SIZE_MAX \<longrightarrow> r = Inr j)"
proof (cases "has_hevc_pp c \<and> al 0 \<and> hevc_info bs \<noteq> None")
  case False
  with assms hevc_first_read [OF assms(1)] show ?thesis
    by (cases "hevc_info bs") (auto simp: rk_mpp_dec_build_job_def build_hevc_job_def hevc_job_def bs_def)
next
  case True
  then obtain info where i: "has_hevc_pp c" "al 0" "hevc_info bs = Some info" by auto
  have e: "rk_mpp_dec_build_job abi al c cached d = obind (case hevc_headers c cached info of Fault \<Rightarrow> Fault
      | Fail \<Rightarrow> Ok (Inl VA_STATUS_ERROR_DECODING_ERROR, d)
      | Ok (headers, new_seq) \<Rightarrow> hevc_pack abi al c headers new_seq d) (\<lambda>(r, d). Ok (r, c, d))"
    using i assms hevc_first_read [OF assms(1)] by (simp add: rk_mpp_dec_build_job_def build_hevc_job_def bs_def)
  show ?thesis
  proof (cases "hevc_headers c cached info")
    case (Ok hs)
    obtain headers new_seq where hs: "hs = (headers, new_seq)" by fastforce
    with Ok i have J: "hevc_job abi c cached bs j \<longleftrightarrow> hevc_units abi None bs \<noteq> [] \<and>
        (\<exists>nals. list_all2 (rewritten (last_hevc_pp c)) (hevc_units abi None bs) nals \<and>
           j = \<lparr>jc_data = headers @ concat (map annex_b nals), jc_h264_field = False, jc_is_hidden = False,
             jc_repeat_slot = 8, jc_sequence_headers = new_seq\<rparr>)" for j
      by (auto simp: hevc_headers_eq hevc_job_def; blast)
    show ?thesis unfolding e Ok hs outcome.case prod.case J
      using hevc_pack_job [OF assms(1), of abi al c headers new_seq]
      by (fastforce simp: bs_def dest: rewritten_nals_unique)
  next
    case Fail
    then have "\<not> hevc_job abi c cached bs j" for j using i by (auto simp: hevc_headers_eq hevc_job_def)
    with Fail show ?thesis unfolding e by simp
  next
    case Fault
    with hevc_headers_no_fault [OF assms(3)] show ?thesis by blast
  qed
qed

text \<open>The flag is set before the PPS is known to succeed: the picture fails but the SPS counts as sent.\<close>

lemma failed_pps_counts_sps:
  assumes "idr \<or> \<not> sps_sent c" and "h264_write_sps 2048 (last_pp c) (h264_profile_idc (pc_profile c)) = Some hdr"
    and "packet_append al (no_packet 0) hdr = Inr pk" and "h264_header_bytes c idr refs = None"
  shows "h264_headers al c idr refs = (Inl VA_STATUS_ERROR_DECODING_ERROR, c\<lparr>sps_sent := True\<rparr>)"
  using assms by (auto simp: h264_headers_def h264_header_bytes_def split: option.splits)

section \<open>The parameter sets in force\<close>

text \<open>
  A decode session as the decoder sees it: the sequence parameter sets the context believes to be in
  force, and the packets that were accepted with the picture each was built from. Between two pictures
  the context may change in any way that leaves its record of the parameter sets alone.
\<close>

inductive hevc_session :: "va_abi \<Rightarrow> u8 list option \<Rightarrow> (picture \<times> u8 list) list \<Rightarrow> bool" for abi where
  session_start: "hevc_session abi None []"
| session_end_picture:
    "hevc_session abi (w_sequence_headers c) sent \<Longrightarrow> drv_inv d \<Longrightarrow> pc_coding p = CodingHEVC \<Longrightarrow>
     hevc_pp_wf (last_hevc_pp p) \<Longrightarrow>
     rk_mpp_dec_build_job abi al p (w_sequence_headers c) d = Ok (r, p', d') \<Longrightarrow>
     rk_EndPicture alloc_ok c (case r of Inl _ \<Rightarrow> None | Inr j \<Rightarrow> Some j) = Ok (accepted, c') \<Longrightarrow>
     hevc_session abi (w_sequence_headers c')
       (sent @ (if accepted then [(p, case r of Inl _ \<Rightarrow> [] | Inr j \<Rightarrow> jc_data j)] else []))"

text \<open>The parameter sets of picture \<open>k\<close> opened packet \<open>i\<close>, and no packet since carried others.\<close>

definition in_force :: "(picture \<times> u8 list) list \<Rightarrow> nat \<Rightarrow> u8 list \<Rightarrow> bool" where
  "in_force sent k seq \<longleftrightarrow> (\<exists>i \<le> k. take (length seq) (snd (sent ! i)) = seq \<and>
     (\<forall>m. i \<le> m \<longrightarrow> m \<le> k \<longrightarrow> hevc_sequence (fst (sent ! m)) = Ok seq))"

lemma EndPicture_headers:
  assumes "rk_EndPicture alloc_ok c built = Ok (accepted, c')"
  shows "\<not> accepted \<Longrightarrow> w_sequence_headers c' = w_sequence_headers c"
    and "accepted \<Longrightarrow> \<exists>j. built = Some j \<and> w_sequence_headers c' =
      (case jc_sequence_headers j of None \<Rightarrow> w_sequence_headers c | Some h \<Rightarrow> Some h)"
  using assms
  by (auto simp: rk_EndPicture_def decode_job_create_def rk_mpp_dec_enqueue_job_def rk_mpp_dec_reject_job_def
      rk_mpp_dec_job_destroy_def complete_surface_ref_def rk_mpp_dec_fail_surface_def mark_field_def upd_surf_def unref_def Let_def
      split: option.splits if_splits prod.splits)

lemma in_force_append: "in_force sent k seq \<Longrightarrow> k < length sent \<Longrightarrow> in_force (sent @ xs) k seq"
  by (auto simp: in_force_def nth_append)

lemma in_force_kept:
  assumes "in_force sent (length sent - 1) seq" and "sent \<noteq> []" and "hevc_sequence p = Ok seq"
  shows "in_force (sent @ [(p, data)]) (length sent) seq"
proof -
  from assms(1) obtain i where i: "i \<le> length sent - 1" "take (length seq) (snd (sent ! i)) = seq"
      "\<And>m. i \<le> m \<Longrightarrow> m \<le> length sent - 1 \<Longrightarrow> hevc_sequence (fst (sent ! m)) = Ok seq" by (auto simp: in_force_def)
  have l: "i < length sent" using i(1) assms(2) by (cases sent) auto
  have "hevc_sequence (fst ((sent @ [(p, data)]) ! m)) = Ok seq" if "i \<le> m" "m \<le> length sent" for m
    using that i(3) [of m] assms(3) by (cases "m = length sent") (auto simp: nth_append)
  moreover have "take (length seq) (snd ((sent @ [(p, data)]) ! i)) = seq" using i(2) l by (simp add: nth_append)
  ultimately show ?thesis using l unfolding in_force_def by (blast intro: less_imp_le)
qed

lemma in_force_sent: "hevc_sequence p = Ok seq \<Longrightarrow> in_force (sent @ [(p, seq @ rest)]) (length sent) seq"
  by (auto simp: in_force_def nth_append intro!: exI [of _ "length sent"])

definition session_ok :: "u8 list option \<Rightarrow> (picture \<times> u8 list) list \<Rightarrow> bool" where
  "session_ok cached sent \<longleftrightarrow>
     (\<forall>k < length sent. \<exists>seq. hevc_sequence (fst (sent ! k)) = Ok seq \<and> in_force sent k seq) \<and>
     (case cached of None \<Rightarrow> sent = [] | Some seq \<Rightarrow> sent \<noteq> [] \<and> in_force sent (length sent - 1) seq)"

lemma session_ok_step:
  assumes "session_ok cached sent" and "hevc_job abi p cached bs j"
  shows "session_ok (case jc_sequence_headers j of None \<Rightarrow> cached | Some h \<Rightarrow> Some h) (sent @ [(p, jc_data j)])"
proof -
  from assms(2) obtain seq rest where s: "hevc_sequence p = Ok seq" "jc_data j = (if cached = Some seq then [] else seq) @ rest"
      "jc_sequence_headers j = (if cached = Some seq then None else Some seq)" by (auto simp: hevc_job_def)
  have f: "in_force (sent @ [(p, jc_data j)]) (length sent) seq"
  proof (cases "cached = Some seq")
    case True
    with assms(1) s show ?thesis by (auto simp: session_ok_def intro: in_force_kept)
  next
    case False
    with in_force_sent [OF s(1)] s(2) show ?thesis by simp
  qed
  have "\<exists>seq. hevc_sequence (fst ((sent @ [(p, jc_data j)]) ! k)) = Ok seq \<and> in_force (sent @ [(p, jc_data j)]) k seq"
    if "k < length sent + 1" for k
  proof (cases "k = length sent")
    case False
    with that have k: "k < length sent" by simp
    with assms(1) obtain q where "hevc_sequence (fst (sent ! k)) = Ok q" "in_force sent k q" by (auto simp: session_ok_def)
    with k in_force_append [of sent k q] show ?thesis by (auto simp: nth_append)
  qed (use f s(1) in simp)
  with f s(3) show ?thesis by (auto simp: session_ok_def)
qed

lemma hevc_session_ok: "hevc_session abi cached sent \<Longrightarrow> session_ok cached sent"
proof (induction rule: hevc_session.induct)
  case (session_end_picture c sent d p al r p' d' alloc_ok accepted c')
  note hd = EndPicture_headers [OF session_end_picture.hyps(6)]
  show ?case
  proof (cases accepted)
    case False
    with hd session_end_picture.IH show ?thesis by simp
  next
    case True
    with hd obtain j where j: "r = Inr j" "w_sequence_headers c' =
        (case jc_sequence_headers j of None \<Rightarrow> w_sequence_headers c | Some h \<Rightarrow> Some h)"
      by (cases r) auto
    with hevc_job_packs [of d p abi al "w_sequence_headers c"] session_end_picture.hyps have
      "hevc_job abi p (w_sequence_headers c) (shown_buffers d (pc_pending p)) j" by auto
    from session_ok_step [OF session_end_picture.IH this] True j show ?thesis by simp
  qed
qed (simp add: session_ok_def)


section \<open>An example\<close>

text \<open>One buffer with a slice, structures of one byte, and a context that has begun a picture.\<close>

definition demo_abi :: va_abi where
  "demo_abi = \<lparr>sizeof_pp_h264 = 1, load_pp_h264 = (\<lambda>_. sample_pp), load_field_pic_flag = (\<lambda>_. False), sizeof_iq_h264 = 1,
     load_iq_h264 = (\<lambda>_. sample_iq), sizeof_slice_h264 = 1, load_slice_h264 = (\<lambda>xs. (hd xs, 0)), sizeof_pp_hevc = 1,
     load_pp_hevc = (\<lambda>_. sample_hevc), sizeof_iq_hevc = 1, load_iq_hevc = (\<lambda>_. sample_hevc_iq), sizeof_slice_hevc = 1,
     load_slice_hevc = (\<lambda>_. \<lparr>slice_data_byte_offset = 8\<rparr>)\<rparr>"

definition demo_picture :: "MppCodingType \<Rightarrow> VAProfile \<Rightarrow> picture" where
  "demo_picture coding profile = \<lparr>pc_profile = profile, pc_coding = coding, pc_pending = [0x40100000], pc_capacity = 64,
     last_pp = sample_pp, last_field_pic_flag = False, last_iq = sample_iq, has_iq = False, sps_sent = False,
     last_hevc_pp = sample_hevc, last_hevc_iq = sample_hevc_iq, has_hevc_pp = True, has_hevc_iq = True\<rparr>"

definition demo_buffer :: "VABufferType \<Rightarrow> u8 list \<Rightarrow> RKDriver outcome" where
  "demo_buffer ty xs = buf_run [Op_Create demo_mem ty (of_nat (length xs)) 1 (Some xs)] driver_start"

definition demo_context :: RKContext where
  "demo_context = snd (rk_BeginPicture (context_start 3 CodingHEVC False 64 64
     (\<lambda>_. \<lparr>s_width = 64, s_height = 64, s_frame = None, s_backing_buf = None, s_decode_pool = None, s_hstride = 64,
        s_vstride = 64, s_fmt = 0, s_imported = False, s_decoded = False, s_decode_failed = False,
        s_h264_field_pending = False, s_ctx_id = None, s_fence = 0\<rparr>)
     (\<lambda>_. 5) (\<lambda>_. True) \<lparr>obj_refs = (\<lambda>_. 1), obj_destroyed = []\<rparr>) 7)"

lemma demo_slice:
  assumes "unat (of_nat (length xs) :: u32) \<le> length xs"
  obtains d where "demo_buffer ty xs = Ok d" "drv_inv d"
  using buf_run_well [OF driver_start_inv, of "[Op_Create demo_mem ty (of_nat (length xs)) 1 (Some xs)]"] assms
  by (auto simp: demo_buffer_def)

section \<open>Packets that decode\<close>

definition h264_iq :: "picture \<Rightarrow> VAIQMatrixBufferH264 option" where
  "h264_iq c = (if has_iq c \<and> h264_profile_idc (pc_profile c) \<ge> 100 then Some (last_iq c) else None)"

lemma h264_write_length:
  "h264_write_sps n pp p = Some out \<Longrightarrow> length out \<le> n"
  "h264_write_pps n pp iq l0 l1 = Some out' \<Longrightarrow> length out' \<le> n"
proof -
  have a: "h264_annex_b raw n = Some out \<Longrightarrow> length out \<le> n" for raw out
  proof (cases "raw \<noteq> [] \<and> 4 + 2 * length raw \<le> n")
    case True
    then show "h264_annex_b raw n = Some out \<Longrightarrow> length out \<le> n"
      using h264_annex_b_fits [of raw n] length_escape_le [of 0 raw] by auto
  qed (auto simp: h264_annex_b_def h264_esc.esc_fits Let_def split: if_splits)
  then show "h264_write_sps n pp p = Some out \<Longrightarrow> length out \<le> n" by (simp add: h264_write_sps_cases)
  show "h264_write_pps n pp iq l0 l1 = Some out' \<Longrightarrow> length out' \<le> n" using a
    by (auto simp: h264_write_pps_def Let_def bind_eq_Some_conv split: if_splits)
qed

lemma h264_profile_range: "0 \<le> h264_profile_idc p" "h264_profile_idc p < 256"
  by (simp_all add: h264_profile_idc_def split: VAProfile.split)

lemma h264_header_decodes:
  assumes "h264_pp_wf (last_pp c)" and "\<And>m. h264_iq c = Some m \<Longrightarrow> h264_iq_wf m" and "iq_coded (last_pp c) (h264_iq c)"
    and "frame_mbs_only_flag (last_pp c) \<or> 0 < picture_height_in_mbs_minus1 (last_pp c)"
  shows "\<exists>sps pps. h264_header_bytes c idr refs = Some (sps @ pps) \<and> length (sps @ pps) \<le> 4096 \<and>
     (if idr \<or> \<not> sps_sent c then nal_holds dec_sps (sps_info_of (last_pp c) (h264_profile_idc (pc_profile c))) sps else sps = []) \<and>
     nal_holds dec_pps (pps_info_of (last_pp c) (h264_iq c) (uint (fst refs)) (uint (snd refs))) pps"
proof -
  obtain sps where s: "h264_write_sps 2048 (last_pp c) (h264_profile_idc (pc_profile c)) = Some sps"
      "nal_holds dec_sps (sps_info_of (last_pp c) (h264_profile_idc (pc_profile c))) sps"
    using h264_write_sps_holds [OF assms(1) h264_profile_range assms(4), where buf_size = 2048] by auto
  have u: "uint (x :: u8) < 2 ^ 31" for x using uint_bounded [of x] by simp
  obtain pps where p: "h264_write_pps 2048 (last_pp c) (h264_iq c) (uint (fst refs)) (uint (snd refs)) = Some pps"
      "nal_holds dec_pps (pps_info_of (last_pp c) (h264_iq c) (uint (fst refs)) (uint (snd refs))) pps"
    using h264_write_pps_holds [OF assms(1-3) u u, where buf_size = 2048] by auto
  from h264_write_length(1) [OF s(1)] h264_write_length(2) [OF p(1)] have l: "length sps + length pps \<le> 4096" by simp
  have e: "h264_header_bytes c idr refs = Some ((if idr \<or> \<not> sps_sent c then sps else []) @ pps)"
    using s(1) p(1) by (simp add: h264_header_bytes_def flip: h264_iq_def)
  show ?thesis
    by (rule exI [of _ "if idr \<or> \<not> sps_sent c then sps else []"], rule exI [of _ pps]) (use l in \<open>simp add: e s(2) p(2)\<close>)
qed

lemma hevc_sequence_decodes:
  assumes "validate_picture_parameters (last_hevc_pp c) (hevc_iq c) (hevc_profile c) = Ok rps"
  shows "\<exists>vps sps. hevc_sequence c = Ok (vps @ sps) \<and> length (vps @ sps) \<le> 630 \<and>
     nal_holds dec_vps (hevc_vps_info_of (last_hevc_pp c) (hevc_profile c)) vps \<and>
     nal_holds dec_hevc_sps (hevc_sps_info_of (last_hevc_pp c) (hevc_profile c)) sps"
proof -
  obtain vps sps where "write_sequence_parameter_sets HEVC_SEQUENCE_HEADER_CAPACITY (last_hevc_pp c) (hevc_profile c) = Some (vps @ sps)"
      and h: "nal_holds dec_vps (hevc_vps_info_of (last_hevc_pp c) (hevc_profile c)) vps"
      "nal_holds dec_hevc_sps (hevc_sps_info_of (last_hevc_pp c) (hevc_profile c)) sps" "length vps + length sps \<le> 630"
    using write_sequence_holds [OF assms, of HEVC_SEQUENCE_HEADER_CAPACITY] by (auto simp: HEVC_SEQUENCE_HEADER_CAPACITY_def)
  then have "hevc_sequence c = Ok (vps @ sps)"
    using assms by (simp add: hevc_sequence_def rk_hevc_write_sequence_parameter_sets_def of_opt_def)
  with h show ?thesis by auto
qed

lemma hevc_pps_decodes:
  assumes "hevc_pp_wf (last_hevc_pp c)" and "validate_picture_parameters (last_hevc_pp c) (hevc_iq c) (hevc_profile c) = Ok rps"
    and "scaling_list_enabled_flag (last_hevc_pp c) \<Longrightarrow> dc_coded (the (hevc_iq c))" and "pps_id \<le> 63" and "n \<le> 630"
  shows "\<exists>pps. rk_hevc_write_picture_parameter_set (HEVC_HEADER_CAPACITY - n) (last_hevc_pp c) (hevc_iq c) pps_id (hevc_profile c) = Ok pps \<and>
     length pps \<le> 6800 \<and> nal_holds dec_hevc_pps (hevc_pps_info_of (last_hevc_pp c) (hevc_iq c) pps_id (pps_uniform (last_hevc_pp c))) pps"
proof -
  have "6800 \<le> HEVC_HEADER_CAPACITY - n" using assms(5) by (simp add: HEVC_HEADER_CAPACITY_def)
  from write_pps_holds [OF assms(1,2) this assms(3), of pps_id] assms(2,4) show ?thesis
    by (auto simp: rk_hevc_write_picture_parameter_set_def guard_else_fail_def not_less)
qed


lemma build_no_fault:
  assumes "drv_inv d" and "hevc_pp_wf (last_hevc_pp c)"
  shows "\<exists>r c'. rk_mpp_dec_build_job abi al c cached d = Ok (r, c', d)"
proof (cases "pc_coding c = CodingAVC")
  case True
  from h264_job_packs [OF assms(1) True, of abi al cached] show ?thesis by (elim exE conjE) (intro exI)
next
  case False
  then show ?thesis
    using hevc_job_packs [OF assms(1) _ assms(2), of abi al cached] generic_job_packs [OF assms(1), of c abi al cached]
    by (cases "pc_coding c = CodingHEVC") blast+
qed

definition abi_ok :: "va_abi \<Rightarrow> bool" where
  "abi_ok abi \<longleftrightarrow> (\<forall>xs. hevc_pp_wf (load_pp_hevc abi xs))"

lemma render_loop_hevc_wf:
  assumes "abi_ok abi"
  shows "render_loop abi ids c d = Ok (c', d') \<Longrightarrow> hevc_pp_wf (last_hevc_pp c) \<Longrightarrow> hevc_pp_wf (last_hevc_pp c')"
proof (induction ids arbitrary: c d)
  case (Cons i ids)
  have s: "snapshot abi b c = Ok c1 \<Longrightarrow> hevc_pp_wf (last_hevc_pp c) \<Longrightarrow> hevc_pp_wf (last_hevc_pp c1)" for b c c1
    using assms by (auto simp: snapshot_def abi_ok_def split: if_splits)
  from Cons.prems(1) obtain b d1 c1 where "(case b of None \<Rightarrow> Ok (c\<lparr>pc_pending := pc_pending c @ [i]\<rparr>)
      | Some b \<Rightarrow> snapshot abi b (c\<lparr>pc_pending := pc_pending c @ [i]\<rparr>)) = Ok c1" and r: "render_loop abi ids c1 d1 = Ok (c', d')"
    by (auto simp: Let_def split: if_splits)
  with s Cons.prems(2) have "hevc_pp_wf (last_hevc_pp c1)" by (fastforce split: option.splits)
  with Cons.IH r show ?case by blast
qed simp

lemma render_hevc_wf:
  assumes "abi_ok abi" and "rk_RenderPicture abi mem_ok c d ids = Ok (st, c', d')" and "hevc_pp_wf (last_hevc_pp c)"
  shows "hevc_pp_wf (last_hevc_pp c')"
proof -
  obtain st1 c1 where r: "reserve_pending mem_ok c (int (length ids)) = (st1, c1)" by fastforce
  then have "last_hevc_pp c1 = last_hevc_pp c" by (auto simp: reserve_pending_def Let_def split: if_splits)
  with render_loop_hevc_wf [OF assms(1)] assms(2,3) r show ?thesis
    by (auto simp: rk_RenderPicture_def split: if_splits)
qed

section \<open>Properties\<close>

text \<open>
  C20: assembling a picture is memory safe. From any state of the buffers, \<open>rk_RenderPicture\<close> either
  refuses, with a status and without any effect, or appends all identifiers behind the pending ones
  within the reserved array, never more than the limit; it cannot refuse while memory lasts and the
  limit is kept. Parameters are copied only from initialised bytes of live buffers. Whatever was
  collected, building the job then reads no freed, foreign or uninitialised memory either and leaves
  every buffer as it was.
\<close>

theorem picture_assembly_safe:
  assumes "drv_inv d" and "pending_ok c" and "abi_ok abi" and "hevc_pp_wf (last_hevc_pp c)"
  shows "\<exists>st c'. rk_RenderPicture abi mem_ok c d ids = Ok (st, c', d) \<and> pending_ok c' \<and>
     (if st = VA_STATUS_SUCCESS then pc_pending c' = pc_pending c @ ids else c' = c) \<and>
     (mem_ok \<and> int (length (pc_pending c)) + int (length ids) \<le> PENDING_LIMIT \<longrightarrow> st = VA_STATUS_SUCCESS) \<and>
     (\<forall>al cached. \<exists>r c''. rk_mpp_dec_build_job abi al c' cached d = Ok (r, c'', d))"
proof -
  obtain st c' where r: "rk_RenderPicture abi mem_ok c d ids = Ok (st, c', d)" "pending_ok c'"
     "st = VA_STATUS_SUCCESS \<longrightarrow> pc_pending c' = pc_pending c @ ids" "st \<noteq> VA_STATUS_SUCCESS \<longrightarrow> c' = c"
     "mem_ok \<and> int (length (pc_pending c)) + int (length ids) \<le> PENDING_LIMIT \<longrightarrow> st = VA_STATUS_SUCCESS"
    using render_cases [OF assms(1,2)] by blast
  moreover have "\<forall>al cached. \<exists>r c''. rk_mpp_dec_build_job abi al c' cached d = Ok (r, c'', d)"
    using build_no_fault [OF assms(1) render_hevc_wf [OF assms(3) r(1) assms(4)]] by blast
  ultimately show ?thesis by auto
qed

lemma demo_abi_ok: "abi_ok demo_abi"
  using sample_hevc_wf by (simp add: abi_ok_def demo_abi_def)

theorem picture_assembly_safe_witness:
  "\<exists>d c'. demo_buffer VAPictureParameterBufferType [7] = Ok d \<and>
     rk_RenderPicture demo_abi True (demo_picture CodingHEVC VAProfileHEVCMain) d [0x40100000, 99] = Ok (VA_STATUS_SUCCESS, c', d) \<and>
     pc_pending c' = [0x40100000, 0x40100000, 99] \<and>
     (\<exists>r c''. rk_mpp_dec_build_job demo_abi (\<lambda>_. True) c' None d = Ok (r, c'', d))"
proof -
  let ?c = "demo_picture CodingHEVC VAProfileHEVCMain"
  obtain d where d: "demo_buffer VAPictureParameterBufferType [7] = Ok d" "drv_inv d" using demo_slice [of "[7]"] by auto
  have "pending_ok ?c" "hevc_pp_wf (last_hevc_pp ?c)"
    using sample_hevc_wf by (simp_all add: pending_ok_def demo_picture_def PENDING_LIMIT_def)
  from picture_assembly_safe [OF d(2) this(1) demo_abi_ok this(2), of True "[0x40100000, 99]"] obtain st c' where
    "rk_RenderPicture demo_abi True ?c d [0x40100000, 99] = Ok (st, c', d)"
    "if st = VA_STATUS_SUCCESS then pc_pending c' = pc_pending ?c @ [0x40100000, 99] else c' = ?c"
    "st = VA_STATUS_SUCCESS" "\<exists>r c''. rk_mpp_dec_build_job demo_abi (\<lambda>_. True) c' None d = Ok (r, c'', d)"
    by (auto simp: demo_picture_def PENDING_LIMIT_def)
  with d(1) show ?thesis by (auto simp: demo_picture_def)
qed


text \<open>
  C17: the packet of an H.264 picture decodes. With valid parameters and enough memory the job is built;
  its packet is the SPS exactly when the first slice is an IDR or no SPS was sent, then the PPS, then
  every slice of the picture in order behind a start code, and a decoder that follows the standard reads
  from the two parameter sets the picture's parameters, its scaling lists and the reference counts of
  its first slice parameters.
\<close>

theorem h264_job_decodes:
  fixes c :: picture and d :: RKDriver and abi :: va_abi
  assumes "drv_inv d" and "pc_coding c = CodingAVC" and "h264_pp_wf (last_pp c)"
    and "\<And>m. h264_iq c = Some m \<Longrightarrow> h264_iq_wf m" and "iq_coded (last_pp c) (h264_iq c)"
    and "frame_mbs_only_flag (last_pp c) \<or> 0 < picture_height_in_mbs_minus1 (last_pp c)" and "\<forall>k. al k"
  defines "bs \<equiv> shown_buffers d (pc_pending c)"
  assumes "int (length (concat (map ((@) sc) (slices bs)))) + 4096 \<le> SIZE_MAX"
  shows "\<exists>j c' sps pps. rk_mpp_dec_build_job abi al c cached d = Ok (Inr j, c', d) \<and> sps_sent c' \<and>
     jc_data j = sps @ pps @ concat (map ((@) sc) (slices bs)) \<and> jc_h264_field j = last_field_pic_flag c \<and>
     (if h264_idr bs \<or> \<not> sps_sent c
      then nal_holds dec_sps (sps_info_of (last_pp c) (h264_profile_idc (pc_profile c))) sps else sps = []) \<and>
     nal_holds dec_pps (pps_info_of (last_pp c) (h264_iq c) (uint (fst (h264_refs abi bs))) (uint (snd (h264_refs abi bs)))) pps"
proof -
  obtain sps pps where h: "h264_header_bytes c (h264_idr bs) (h264_refs abi bs) = Some (sps @ pps)" "length (sps @ pps) \<le> 4096"
      "if h264_idr bs \<or> \<not> sps_sent c then nal_holds dec_sps (sps_info_of (last_pp c) (h264_profile_idc (pc_profile c))) sps else sps = []"
      "nal_holds dec_pps (pps_info_of (last_pp c) (h264_iq c) (uint (fst (h264_refs abi bs))) (uint (snd (h264_refs abi bs)))) pps"
    using h264_header_decodes [OF assms(3-6), where idr = "h264_idr bs" and refs = "h264_refs abi bs"] by auto
  let ?bytes = "sps @ pps @ concat (map ((@) sc) (slices bs))"
  have p: "h264_packet abi c bs = Some ?bytes" using h(1) by (simp add: h264_packet_def)
  have l: "int (length ?bytes) \<le> SIZE_MAX" using h(2) assms(9) by simp
  obtain r c' where r: "rk_mpp_dec_build_job abi al c cached d = Ok (r, c', d)"
      "\<forall>j. r = Inr j \<longrightarrow> h264_packet abi c bs = Some (jc_data j) \<and> jc_h264_field j = last_field_pic_flag c \<and>
        \<not> jc_is_hidden j \<and> jc_sequence_headers j = None \<and> sps_sent c'"
      "\<forall>bytes. (\<forall>k. al k) \<longrightarrow> h264_packet abi c bs = Some bytes \<longrightarrow> int (length bytes) \<le> SIZE_MAX \<longrightarrow> (\<exists>j. r = Inr j)"
    using h264_job_packs [OF assms(1,2), of abi al cached] unfolding bs_def by (elim exE conjE)
  from r(3) assms(7) p l obtain j where "r = Inr j" by metis
  with r p h(3,4) show ?thesis
    by (intro exI [of _ j] exI [of _ c'] exI [of _ sps] exI [of _ pps]) auto
qed

theorem h264_job_decodes_witness:
  "\<exists>d j c' sps pps. demo_buffer VASliceDataBufferType [0x65, 0x88] = Ok d \<and>
     rk_mpp_dec_build_job demo_abi (\<lambda>_. True) (demo_picture CodingAVC VAProfileH264High) None d = Ok (Inr j, c', d) \<and>
     jc_data j = sps @ pps @ [0, 0, 0, 1, 0x65, 0x88] \<and> nal_holds dec_sps (sps_info_of sample_pp 100) sps \<and>
     nal_holds dec_pps (pps_info_of sample_pp None 0 0) pps"
proof -
  let ?c = "demo_picture CodingAVC VAProfileH264High"
  obtain d where d: "demo_buffer VASliceDataBufferType [0x65, 0x88] = Ok d" "drv_inv d"
    using demo_slice [of "[0x65, 0x88]"] by auto
  have "case demo_buffer VASliceDataBufferType [0x65, 0x88] of Ok d \<Rightarrow>
     slices (shown_buffers d [0x40100000]) = [[0x65, 0x88]] \<and> h264_refs demo_abi (shown_buffers d [0x40100000]) = (0, 0) | _ \<Rightarrow> False"
    by code_simp
  with d have b: "slices (shown_buffers d (pc_pending ?c)) = [[0x65, 0x88]]"
      "h264_refs demo_abi (shown_buffers d (pc_pending ?c)) = (0, 0)" by (simp_all add: demo_picture_def)
  have c: "h264_iq ?c = None" "last_pp ?c = sample_pp" "sps_sent ?c = False" "pc_coding ?c = CodingAVC"
      "h264_profile_idc (pc_profile ?c) = 100" by (simp_all add: demo_picture_def h264_iq_def h264_profile_idc_def)
  have "iq_coded sample_pp None" by code_simp
  with h264_job_decodes [OF d(2), of ?c "\<lambda>_. True" demo_abi None] b c show ?thesis
    using d(1) by (simp add: h264_pp_wf_def sample_pp_def sc_def SIZE_MAX_def) blast
qed


text \<open>
  C19: the packet of a VP9 picture is the concatenation of its slices and nothing else. It is built
  exactly when memory lasts and the driver can parse its header; the job is hidden exactly when the
  header says that the frame is not shown, and then the slot to repeat is the least slot that the frame
  refreshes, or 8 when it refreshes none.
\<close>

theorem vp9_job_exact:
  fixes c :: picture and d :: RKDriver
  assumes "drv_inv d" and "pc_coding c = CodingVP9"
  defines "data \<equiv> concat (slices (shown_buffers d (pc_pending c)))"
  assumes "\<forall>k. al k" and "data \<noteq> []" and "int (length data) \<le> SIZE_MAX"
  shows "case rk_vp9_parse_frame data (if pc_profile c = VAProfileVP9Profile2 then 2 else 0) of
      Ok info \<Rightarrow> \<exists>j. rk_mpp_dec_build_job abi al c cached d = Ok (Inr j, c, d) \<and> jc_data j = data \<and>
        (jc_is_hidden j \<longleftrightarrow> \<not> show_existing_frame info \<and> \<not> show_frame info) \<and>
        (jc_is_hidden j \<longrightarrow> unat (jc_repeat_slot j) = (LEAST k. k = 8 \<or> bit (refresh_frame_flags info) k)) \<and>
        (\<not> jc_is_hidden j \<longrightarrow> jc_repeat_slot j = 8)
    | _ \<Rightarrow> \<exists>st. rk_mpp_dec_build_job abi al c cached d = Ok (Inl st, c, d)"
proof -
  have c: "pc_coding c \<notin> {CodingAVC, CodingHEVC}" using assms(2) by simp
  have g: "generic_info c data = rk_vp9_parse_frame data (if pc_profile c = VAProfileVP9Profile2 then 2 else 0)"
    using assms(2,5) by (simp add: generic_info_def)
  obtain r where r: "rk_mpp_dec_build_job abi al c cached d = Ok (r, c, d)"
    "\<forall>j. r = Inr j \<longrightarrow> (\<exists>info. generic_info c data = Ok info \<and> jc_data j = data \<and>
        (jc_is_hidden j \<longleftrightarrow> data \<noteq> [] \<and> pc_coding c = CodingVP9 \<and> \<not> show_existing_frame info \<and> \<not> show_frame info) \<and>
        jc_repeat_slot j = (if jc_is_hidden j then first_refresh_slot (refresh_frame_flags info) else 8) \<and>
        \<not> jc_h264_field j \<and> jc_sequence_headers j = None)"
    "(\<forall>k. al k) \<longrightarrow> generic_info c data \<noteq> Fail \<longrightarrow> int (length data) \<le> SIZE_MAX \<longrightarrow> (\<exists>j. r = Inr j)"
    using generic_job_packs [OF assms(1) c, of abi al cached] unfolding data_def by (elim exE conjE)
  show ?thesis
  proof (cases "generic_info c data")
    case (Ok info)
    with r(3) assms(4,6) obtain j where j: "r = Inr j" by auto
    with r Ok assms(2,5) show ?thesis unfolding g [symmetric] Ok outcome.case
      by (intro exI [of _ j]) (simp add: first_refresh_slot_eq)
  next
    case Fail
    with r obtain st where "r = Inl st" by (cases r) auto
    with r(1) Fail g show ?thesis by auto
  next
    case Fault
    with generic_info_no_fault show ?thesis by blast
  qed
qed

lemma demo_vp9_header:
  "rk_vp9_parse_frame [0x84, 0x00, 0x80] 0 =
     Ok \<lparr>show_existing_frame = False, show_frame = False, frame_to_show_map_idx = 0, refresh_frame_flags = 4\<rparr>"
proof -
  let ?f = "InterFrame False False None [False, False] [False, False, False, False, False, True, False, False]"
  have "bytes_bits [0x84, 0x00, 0x80] = vp9_bits 0 ?f @ replicate 5 False" by code_simp
  from vp9_parse_complete [OF _ _ _ this] show ?thesis by (simp add: bits_val_Cons)
qed

theorem vp9_job_exact_witness:
  "\<exists>d j. demo_buffer VASliceDataBufferType [0x84, 0x00, 0x80] = Ok d \<and>
     rk_mpp_dec_build_job demo_abi (\<lambda>_. True) (demo_picture CodingVP9 VAProfileVP9Profile0) None d =
       Ok (Inr j, demo_picture CodingVP9 VAProfileVP9Profile0, d) \<and>
     jc_data j = [0x84, 0x00, 0x80] \<and> jc_is_hidden j \<and> unat (jc_repeat_slot j) = 2"
proof -
  let ?c = "demo_picture CodingVP9 VAProfileVP9Profile0"
  obtain d where d: "demo_buffer VASliceDataBufferType [0x84, 0x00, 0x80] = Ok d" "drv_inv d"
    using demo_slice [of "[0x84, 0x00, 0x80]"] by auto
  have "case demo_buffer VASliceDataBufferType [0x84, 0x00, 0x80] of Ok d \<Rightarrow>
     concat (slices (shown_buffers d [0x40100000])) = [0x84, 0x00, 0x80] | _ \<Rightarrow> False" by code_simp
  with d(1) have b: "concat (slices (shown_buffers d (pc_pending ?c))) = [0x84, 0x00, 0x80]" by (simp add: demo_picture_def)
  have l: "(LEAST k. k = 8 \<or> bit (4 :: u8) k) = 2"
    by (rule first_refresh_slot_eq [symmetric, THEN trans]) code_simp
  have c: "pc_coding ?c = CodingVP9" "(if pc_profile ?c = VAProfileVP9Profile2 then 2 else 0) = (0 :: u8)"
    by (simp_all add: demo_picture_def)
  from vp9_job_exact [OF d(2) c(1), of "\<lambda>_. True" demo_abi None, unfolded b c(2) demo_vp9_header outcome.case]
  obtain j where "rk_mpp_dec_build_job demo_abi (\<lambda>_. True) ?c None d = Ok (Inr j, ?c, d)" "jc_data j = [0x84, 0x00, 0x80]"
    "jc_is_hidden j" "jc_is_hidden j \<longrightarrow> unat (jc_repeat_slot j) = (LEAST k. k = 8 \<or> bit (4 :: u8) k)"
    by (simp add: SIZE_MAX_def) blast
  with d(1) l show ?thesis by (intro exI [of _ d] exI [of _ j]) simp
qed

lemma hevc_job_holds:
  assumes "has_hevc_pp c" and "hevc_pp_wf (last_hevc_pp c)"
    and "validate_picture_parameters (last_hevc_pp c) (hevc_iq c) (hevc_profile c) = Ok rps"
    and "scaling_list_enabled_flag (last_hevc_pp c) \<Longrightarrow> dc_coded (the (hevc_iq c))"
    and "hevc_info bs = Some info" and "slice_pps_id info \<le> 63" and "hevc_units abi None bs \<noteq> []"
    and "list_all2 (rewritten (last_hevc_pp c)) (hevc_units abi None bs) nals"
    and "int (length (concat (map annex_b nals))) + 8192 \<le> SIZE_MAX"
  shows "\<exists>j vps sps pps. hevc_job abi c cached bs j \<and> int (length (jc_data j)) \<le> SIZE_MAX \<and>
     jc_data j = (if cached = Some (vps @ sps) then [] else vps @ sps) @ pps @ concat (map annex_b nals) \<and>
     jc_sequence_headers j = (if cached = Some (vps @ sps) then None else Some (vps @ sps)) \<and>
     nal_holds dec_vps (hevc_vps_info_of (last_hevc_pp c) (hevc_profile c)) vps \<and>
     nal_holds dec_hevc_sps (hevc_sps_info_of (last_hevc_pp c) (hevc_profile c)) sps \<and>
     nal_holds dec_hevc_pps (hevc_pps_info_of (last_hevc_pp c) (hevc_iq c) (slice_pps_id info) (pps_uniform (last_hevc_pp c))) pps"
proof -
  obtain vps sps where s: "hevc_sequence c = Ok (vps @ sps)" "length (vps @ sps) \<le> 630"
      "nal_holds dec_vps (hevc_vps_info_of (last_hevc_pp c) (hevc_profile c)) vps"
      "nal_holds dec_hevc_sps (hevc_sps_info_of (last_hevc_pp c) (hevc_profile c)) sps"
    using hevc_sequence_decodes [OF assms(3)] by blast
  define n where "n = (if cached = Some (vps @ sps) then 0 else length (vps @ sps))"
  have "n \<le> 630" using s(2) by (simp add: n_def)
  then obtain pps where p: "rk_hevc_write_picture_parameter_set (HEVC_HEADER_CAPACITY - n)
        (last_hevc_pp c) (hevc_iq c) (slice_pps_id info) (hevc_profile c) = Ok pps" "length pps \<le> 6800"
      "nal_holds dec_hevc_pps (hevc_pps_info_of (last_hevc_pp c) (hevc_iq c) (slice_pps_id info) (pps_uniform (last_hevc_pp c))) pps"
    using hevc_pps_decodes [OF assms(2,3) _ assms(6), of n] assms(4) by metis
  let ?j = "\<lparr>jc_data = (if cached = Some (vps @ sps) then [] else vps @ sps) @ pps @ concat (map annex_b nals),
     jc_h264_field = False, jc_is_hidden = False, jc_repeat_slot = 8,
     jc_sequence_headers = (if cached = Some (vps @ sps) then None else Some (vps @ sps))\<rparr>"
  have "hevc_job abi c cached bs ?j" unfolding hevc_job_def
    by (intro conjI exI [of _ info] exI [of _ "vps @ sps"] exI [of _ pps] exI [of _ nals])
      (use p(1) in \<open>simp_all add: n_def assms s(1)\<close>)
  moreover have "int (length (jc_data ?j)) \<le> SIZE_MAX" using s(2) p(2) assms(9) by simp
  ultimately show ?thesis using s(3,4) p(3)
    by (intro exI [of _ ?j] exI [of _ vps] exI [of _ sps] exI [of _ pps]) simp
qed

lemma hevc_job_built:
  assumes "drv_inv d" and "pc_coding c = CodingHEVC" and "hevc_pp_wf (last_hevc_pp c)" and "\<forall>k. al k"
    and "hevc_job abi c cached (shown_buffers d (pc_pending c)) j" and "int (length (jc_data j)) \<le> SIZE_MAX"
  shows "rk_mpp_dec_build_job abi al c cached d = Ok (Inr j, c, d)"
proof -
  obtain r where "rk_mpp_dec_build_job abi al c cached d = Ok (r, c, d)" "\<forall>j. (\<forall>k. al k) \<longrightarrow>
      hevc_job abi c cached (shown_buffers d (pc_pending c)) j \<longrightarrow> int (length (jc_data j)) \<le> SIZE_MAX \<longrightarrow> r = Inr j"
    using hevc_job_packs [OF assms(1-3), of abi al cached] by (elim exE conjE)
  with assms(4-6) show ?thesis by metis
qed

text \<open>
  C18: the packet of an HEVC picture decodes. With valid parameters and enough memory the job is built;
  its packet is the VPS and the SPS unless the decoder already has exactly these, the PPS under the
  identifier that the first slice refers to, and every slice in order, rewritten with the slice
  parameters that precede it and in Annex B form. The parameter sets decode to the picture's parameters,
  and the job remembers new sequence parameter sets for the context.
\<close>

theorem hevc_job_decodes:
  fixes c :: picture and d :: RKDriver and abi :: va_abi
  assumes "drv_inv d" and "pc_coding c = CodingHEVC" and "has_hevc_pp c" and "hevc_pp_wf (last_hevc_pp c)"
    and "validate_picture_parameters (last_hevc_pp c) (hevc_iq c) (hevc_profile c) = Ok rps"
    and "scaling_list_enabled_flag (last_hevc_pp c) \<Longrightarrow> dc_coded (the (hevc_iq c))" and "\<forall>k. al k"
  defines "bs \<equiv> shown_buffers d (pc_pending c)"
  assumes "hevc_info bs = Some info" and "slice_pps_id info \<le> 63" and "hevc_units abi None bs \<noteq> []"
    and "list_all2 (rewritten (last_hevc_pp c)) (hevc_units abi None bs) nals"
    and "int (length (concat (map annex_b nals))) + 8192 \<le> SIZE_MAX"
  shows "\<exists>j vps sps pps. rk_mpp_dec_build_job abi al c cached d = Ok (Inr j, c, d) \<and>
     jc_data j = (if cached = Some (vps @ sps) then [] else vps @ sps) @ pps @ concat (map annex_b nals) \<and>
     jc_sequence_headers j = (if cached = Some (vps @ sps) then None else Some (vps @ sps)) \<and>
     nal_holds dec_vps (hevc_vps_info_of (last_hevc_pp c) (hevc_profile c)) vps \<and>
     nal_holds dec_hevc_sps (hevc_sps_info_of (last_hevc_pp c) (hevc_profile c)) sps \<and>
     nal_holds dec_hevc_pps (hevc_pps_info_of (last_hevc_pp c) (hevc_iq c) (slice_pps_id info) (pps_uniform (last_hevc_pp c))) pps"
  using hevc_job_holds [OF assms(3-6,9-13), where cached = cached] hevc_job_built [OF assms(1,2,4,7)]
  unfolding bs_def by blast

definition demo_idr :: "u8 list" where
  "demo_idr = [0x26, 0x02, 0x8b, 0x80, 0x11]"

lemma demo_idr_info: "\<exists>info. rk_hevc_parse_slice_info demo_idr = Ok info \<and> slice_pps_id info \<le> 63"
proof -
  have "case rk_hevc_parse_slice_info demo_idr of Ok info \<Rightarrow> slice_pps_id info \<le> 63 | _ \<Rightarrow> False" by code_simp
  then show ?thesis by (auto split: outcome.splits)
qed

lemma demo_idr_rewritten: "rewritten sample_hevc (demo_idr, None) demo_idr"
proof -
  have "nal_offset demo_idr = 0" by (simp add: demo_idr_def nal_offset_def)
  then show ?thesis using sample_slice_ok(1)
    by (simp add: rewritten_def rk_hevc_rewrite_slice_nal_def demo_idr_def nal_type_of_def INT_MAX_def)
qed

lemma demo_hevc:
  fixes d :: RKDriver
  assumes "demo_buffer VASliceDataBufferType demo_idr = Ok d"
  defines "c \<equiv> demo_picture CodingHEVC VAProfileHEVCMain10"
  shows "shown_buffers d (pc_pending c) \<noteq> []" and "hevc_units demo_abi None (shown_buffers d (pc_pending c)) = [(demo_idr, None)]"
    and "slices (shown_buffers d (pc_pending c)) = [demo_idr]"
    and "pc_coding c = CodingHEVC" "has_hevc_pp c" "last_hevc_pp c = sample_hevc" "hevc_iq c = Some sample_hevc_iq" "hevc_profile c = 2"
proof -
  have "case demo_buffer VASliceDataBufferType demo_idr of Ok d \<Rightarrow>
     hevc_units demo_abi None (shown_buffers d [0x40100000]) = [(demo_idr, None)] \<and>
     slices (shown_buffers d [0x40100000]) = [demo_idr] | _ \<Rightarrow> False" by code_simp
  with assms(1) show "hevc_units demo_abi None (shown_buffers d (pc_pending c)) = [(demo_idr, None)]"
    and "slices (shown_buffers d (pc_pending c)) = [demo_idr]"
    by (simp_all add: c_def demo_picture_def)
  then show "shown_buffers d (pc_pending c) \<noteq> []" by auto
qed (simp_all add: c_def demo_picture_def hevc_iq_def hevc_profile_def)

lemma demo_premises:
  obtains rps info where "validate_picture_parameters sample_hevc (Some sample_hevc_iq) 2 = Ok rps" "dc_coded sample_hevc_iq"
    "rk_hevc_parse_slice_info demo_idr = Ok info" "slice_pps_id info \<le> 63" "annex_b demo_idr = [0, 0, 0, 1] @ demo_idr" "length demo_idr = 5"
    "demo_idr \<noteq> []"
proof -
  have "dc_coded sample_hevc_iq" by code_simp
  moreover have "annex_b demo_idr = [0, 0, 0, 1] @ demo_idr" "length demo_idr = 5" "demo_idr \<noteq> []"
    by (simp_all add: annex_b_def demo_idr_def has_annex_b_prefix_def sc_def)
  ultimately show thesis using that sample_hevc_valid demo_idr_info by blast
qed

lemma demo_hevc_built:
  fixes d :: RKDriver
  assumes "demo_buffer VASliceDataBufferType demo_idr = Ok d" and "drv_inv d"
  defines "c \<equiv> demo_picture CodingHEVC VAProfileHEVCMain10"
  shows "\<exists>j. rk_mpp_dec_build_job demo_abi (\<lambda>_. True) c None d = Ok (Inr j, c, d)"
proof -
  note h = demo_hevc [OF assms(1), folded c_def]
  obtain rps info where p: "validate_picture_parameters sample_hevc (Some sample_hevc_iq) 2 = Ok rps" "dc_coded sample_hevc_iq"
    "rk_hevc_parse_slice_info demo_idr = Ok info" "slice_pps_id info \<le> 63" "annex_b demo_idr = [0, 0, 0, 1] @ demo_idr"
    "length demo_idr = 5" "demo_idr \<noteq> []" by (rule demo_premises)
  then have "hevc_info (shown_buffers d (pc_pending c)) = Some info" using h(3) by (simp add: hevc_info_def)
  with hevc_job_holds [of c rps "shown_buffers d (pc_pending c)" info demo_abi "[demo_idr]" None] p h
  obtain j where "hevc_job demo_abi c None (shown_buffers d (pc_pending c)) j" "int (length (jc_data j)) \<le> SIZE_MAX"
    using sample_hevc_wf demo_idr_rewritten by (auto simp: SIZE_MAX_def)
  with hevc_job_built [OF assms(2) h(4)] sample_hevc_wf h(6) show ?thesis by auto
qed

theorem hevc_job_decodes_witness:
  "\<exists>d j vps sps pps. demo_buffer VASliceDataBufferType demo_idr = Ok d \<and>
     rk_mpp_dec_build_job demo_abi (\<lambda>_. True) (demo_picture CodingHEVC VAProfileHEVCMain10) None d =
       Ok (Inr j, demo_picture CodingHEVC VAProfileHEVCMain10, d) \<and>
     jc_data j = vps @ sps @ pps @ [0, 0, 0, 1] @ demo_idr \<and> jc_sequence_headers j = Some (vps @ sps) \<and>
     nal_holds dec_hevc_sps (hevc_sps_info_of sample_hevc 2) sps"
proof -
  let ?c = "demo_picture CodingHEVC VAProfileHEVCMain10"
  obtain d where d: "demo_buffer VASliceDataBufferType demo_idr = Ok d" "drv_inv d"
    using demo_slice [of demo_idr] by (auto simp: demo_idr_def)
  note h = demo_hevc [OF d(1)]
  obtain rps info where p: "validate_picture_parameters sample_hevc (Some sample_hevc_iq) 2 = Ok rps" "dc_coded sample_hevc_iq"
    "rk_hevc_parse_slice_info demo_idr = Ok info" "slice_pps_id info \<le> 63" "annex_b demo_idr = [0, 0, 0, 1] @ demo_idr"
    "length demo_idr = 5" "demo_idr \<noteq> []" by (rule demo_premises)
  then have hi: "hevc_info (shown_buffers d (pc_pending ?c)) = Some info" using h(3) by (simp add: hevc_info_def)
  have "\<exists>j vps sps pps. rk_mpp_dec_build_job demo_abi (\<lambda>_. True) ?c None d = Ok (Inr j, ?c, d) \<and>
     jc_data j = (if None = Some (vps @ sps) then [] else vps @ sps) @ pps @ concat (map annex_b [demo_idr]) \<and>
     jc_sequence_headers j = (if None = Some (vps @ sps) then None else Some (vps @ sps)) \<and>
     nal_holds dec_vps (hevc_vps_info_of (last_hevc_pp ?c) (hevc_profile ?c)) vps \<and>
     nal_holds dec_hevc_sps (hevc_sps_info_of (last_hevc_pp ?c) (hevc_profile ?c)) sps \<and>
     nal_holds dec_hevc_pps (hevc_pps_info_of (last_hevc_pp ?c) (hevc_iq ?c) (slice_pps_id info) (pps_uniform (last_hevc_pp ?c))) pps"
    by (rule hevc_job_decodes [OF d(2) h(4,5) _ _ _ _ hi p(4)])
      (use h(2) p sample_hevc_wf demo_idr_rewritten in \<open>simp_all add: h(6-8) SIZE_MAX_def\<close>)
  with d(1) show ?thesis by (simp add: h(6,8) p(5)) blast
qed


lemma EndPicture_accepts:
  assumes "w_render c = Some (t, p)" and "w_render_fence c \<noteq> 0" and "\<not> w_stop c" and "lq_items (w_jobs c) xs"
    and "rk_object_ref p (w_objs c) = (True, objs)"
  shows "\<exists>c'. rk_EndPicture True c (Some j) = Ok (True, c')"
proof -
  obtain job where job: "decode_job_create True c j = Some (job, c\<lparr>w_objs := objs\<rparr>)"
    using assms(1,5) by (simp add: decode_job_create_def)
  let ?c = "unref p ((mark_field p (w_render_fence c) (j_h264_field job) (c\<lparr>w_objs := objs\<rparr>))\<lparr>w_render := None, w_render_fence := 0\<rparr>)"
  have "w_jobs ?c = w_jobs c" "w_stop ?c = w_stop c"
    by (simp_all add: unref_def mark_field_def upd_surf_def Let_def)
  with assms(3) lq_put_items [OF assms(4)] have "\<exists>c'. rk_mpp_dec_enqueue_job ?c job = Ok (True, c')"
    by (auto simp: rk_mpp_dec_enqueue_job_def Let_def split: option.splits)
  then show ?thesis unfolding rk_EndPicture_def using assms(1,2) job by (auto simp: Let_def)
qed

lemma demo_accepts: "\<exists>c. rk_EndPicture True demo_context (Some j) = Ok (True, c)"
proof (rule EndPicture_accepts)
  show "w_render demo_context = Some (7, 5)" "w_render_fence demo_context \<noteq> 0" "\<not> w_stop demo_context"
      "lq_items (w_jobs demo_context) []"
      "rk_object_ref 5 (w_objs demo_context) = (True, (w_objs demo_context)\<lparr>obj_refs := (\<lambda>_. 1)(5 := 3)\<rparr>)"
    by (simp_all add: demo_context_def rk_BeginPicture_def context_start_def rk_object_ref_def upd_surf_def begin_surface_def
        begin_continues_def begin_release_def release_def next_fence_def unref_def Let_def lq_empty_items)
qed

lemma demo_context_headers: "w_sequence_headers demo_context = None"
  by code_simp


end
