(* ===== verification/Encoder.thy ===== *)
theory Encoder
  imports Job_Build
begin

text \<open>
  The encoder: \<open>src/mpp_enc.c\<close> and the encoder branches of \<open>rk_BeginPicture\<close>, \<open>rk_RenderPicture\<close> and
  \<open>rk_EndPicture\<close> (\<open>src/context.c\<close>). MPP, the conversion of imported images and their results are the
  record \<open>enc_backend\<close> over an arbitrary state; \<open>enc_abi\<close> holds the sizes of libva's encode structures and
  how they are read from bytes. Dimensions are positive integers (\<open>rk_CreateContext\<close> refuses others).
\<close>

type_synonym s8 = "8 word"

section \<open>State\<close>

record VAEncSequenceParameterBufferH264 =
  es_picture_width_in_mbs :: u16
  es_picture_height_in_mbs :: u16
  es_intra_period :: u32
  es_bits_per_second :: u32
  es_level_idc :: u8

record VAEncPictureParameterBufferH264 =
  ep_coded_buf :: u32
  ep_pic_init_qp :: u8
  ep_idr_pic_flag :: bool
  ep_entropy_coding_mode_flag :: bool
  ep_transform_8x8_mode_flag :: bool

record VAEncSliceParameterBufferH264 =
  el_macroblock_address :: u32
  el_num_macroblocks :: u32
  el_slice_type :: u8

record VAEncSequenceParameterBufferHEVC =
  hq_general_profile_idc :: u8
  hq_general_tier_flag :: u8
  hq_general_level_idc :: u8
  hq_pic_width_in_luma_samples :: u16
  hq_pic_height_in_luma_samples :: u16
  hq_chroma_format_idc :: u8
  hq_separate_colour_plane_flag :: bool
  hq_bit_depth_luma_minus8 :: u8
  hq_bit_depth_chroma_minus8 :: u8
  hq_scaling_list_enabled_flag :: bool
  hq_pcm_enabled_flag :: bool
  hq_ip_period :: u32
  hq_intra_period :: u32
  hq_bits_per_second :: u32
  hq_log2_min_luma_coding_block_size_minus3 :: u8
  hq_log2_diff_max_min_luma_coding_block_size :: u8

record VAEncPictureParameterBufferHEVC =
  hp_coded_buf :: u32
  hp_pic_init_qp :: u8
  hp_num_tile_columns_minus1 :: u8
  hp_num_tile_rows_minus1 :: u8
  hp_tiles_enabled_flag :: bool
  hp_scaling_list_data_present_flag :: bool
  hp_weighted_pred_flag :: bool
  hp_weighted_bipred_flag :: bool
  hp_coding_type :: u8
  hp_diff_cu_qp_delta_depth :: u8
  hp_pps_cb_qp_offset :: s8
  hp_pps_cr_qp_offset :: s8
  hp_constrained_intra_pred_flag :: bool
  hp_idr_pic_flag :: bool

record VAEncSliceParameterBufferHEVC =
  hl_slice_segment_address :: u32
  hl_num_ctu_in_slice :: u32
  hl_slice_type :: u8
  hl_slice_pic_parameter_set_id :: u8
  hl_slice_qp_delta :: s8
  hl_slice_cb_qp_offset :: s8
  hl_slice_cr_qp_offset :: s8
  hl_slice_beta_offset_div2 :: s8
  hl_slice_tc_offset_div2 :: s8
  hl_dependent_slice_segment_flag :: bool
  hl_slice_sao_luma_flag :: bool
  hl_slice_sao_chroma_flag :: bool
  hl_slice_deblocking_filter_disabled_flag :: bool
  hl_slice_loop_filter_across_slices_enabled_flag :: bool
  hl_last_slice_of_pic_flag :: bool

datatype misc_type = Misc_RateControl | Misc_FrameRate | Misc_Other

record enc_abi =
  sz_seq :: nat
  ld_seq :: "u8 list \<Rightarrow> VAEncSequenceParameterBufferH264"
  sz_pic :: nat
  ld_pic :: "u8 list \<Rightarrow> VAEncPictureParameterBufferH264"
  sz_slice :: nat
  ld_slice :: "u8 list \<Rightarrow> VAEncSliceParameterBufferH264"
  sz_hevc_seq :: nat
  ld_hevc_seq :: "u8 list \<Rightarrow> VAEncSequenceParameterBufferHEVC"
  sz_hevc_pic :: nat
  ld_hevc_pic :: "u8 list \<Rightarrow> VAEncPictureParameterBufferHEVC"
  sz_hevc_slice :: nat
  ld_hevc_slice :: "u8 list \<Rightarrow> VAEncSliceParameterBufferHEVC"
  sz_misc :: nat
  ld_misc :: "u8 list \<Rightarrow> misc_type"
  sz_rate_control :: nat
  ld_bits_per_second :: "u8 list \<Rightarrow> u32"
  sz_frame_rate :: nat
  ld_framerate :: "u8 list \<Rightarrow> u32"

datatype VARateControl = VA_RC_CBR | VA_RC_VBR | VA_RC_OTHER

datatype MppRcMode = RC_MODE_CBR | RC_MODE_VBR | RC_MODE_FIXQP

record enc_surface =
  v_width :: int
  v_height :: int
  v_hstride :: int
  v_vstride :: int
  v_fmt_10bit :: bool
  v_import_buf :: bool
  v_priv_buf :: bool
  v_imported_rgb :: bool
  v_imported_multiplane :: bool

record enc_context =
  e_coding :: MppCodingType
  e_profile :: VAProfile
  e_rate_control :: VARateControl
  e_width :: int
  e_height :: int
  enc_seq :: VAEncSequenceParameterBufferH264
  enc_pic :: VAEncPictureParameterBufferH264
  enc_slice :: VAEncSliceParameterBufferH264
  enc_hevc_seq :: VAEncSequenceParameterBufferHEVC
  enc_hevc_pic :: VAEncPictureParameterBufferHEVC
  enc_hevc_slice :: VAEncSliceParameterBufferHEVC
  has_enc_seq :: bool
  has_enc_pic :: bool
  has_enc_slice :: bool
  enc_slice_count :: u32
  enc_slice_units :: u32
  enc_slice_unit_span :: u32
  enc_slice_last_units :: u32
  enc_bitrate :: u32
  enc_fps_num :: u32
  enc_fps_den :: u32
  e_render :: "enc_surface option"

section \<open>Derived settings\<close>

definition mpp_rc_mode :: "VARateControl \<Rightarrow> MppRcMode" where
  "mpp_rc_mode va_mode =
     (if va_mode = VA_RC_CBR then RC_MODE_CBR else if va_mode = VA_RC_VBR then RC_MODE_VBR else RC_MODE_FIXQP)"

definition bounded_bitrate :: "int \<Rightarrow> int" where
  "bounded_bitrate value = (if value < 1 then 1 else if value > 2147483647 then 2147483647 else value)"

definition encoder_bitrate :: "enc_context \<Rightarrow> u32" where
  "encoder_bitrate c =
     (if enc_bitrate c \<noteq> 0 then enc_bitrate c
      else if e_coding c = CodingHEVC then hq_bits_per_second (enc_hevc_seq c) else es_bits_per_second (enc_seq c))"

definition encoder_gop :: "enc_context \<Rightarrow> u32" where
  "encoder_gop c =
     (let value = (if e_coding c = CodingHEVC then hq_intra_period (enc_hevc_seq c) else es_intra_period (enc_seq c))
      in if value \<noteq> 0 then value else 60)"

definition encoder_qp :: "enc_context \<Rightarrow> int" where
  "encoder_qp c =
     (let value = (if e_coding c = CodingHEVC then hp_pic_init_qp (enc_hevc_pic c) else ep_pic_init_qp (enc_pic c))
      in if value \<ge> 1 \<and> value \<le> 51 then uint value else 26)"

definition hevc_ctu_size :: "enc_context \<Rightarrow> u32" where
  "hevc_ctu_size c =
     (let seq = enc_hevc_seq c;
          log2_size = 3 + ucast (hq_log2_min_luma_coding_block_size_minus3 seq) +
                      ucast (hq_log2_diff_max_min_luma_coding_block_size seq) :: u32
      in if log2_size \<le> 6 then push_bit (unat log2_size) 1 else 0)"

section \<open>Slices\<close>

definition add_encoder_slice :: "enc_context \<Rightarrow> u32 \<Rightarrow> u32 \<Rightarrow> u32 \<Rightarrow> enc_context option" where
  "add_encoder_slice c address units units_per_row =
     (if units = 0 \<or> units_per_row = 0 \<or> address \<noteq> enc_slice_units c \<or>
         address mod units_per_row \<noteq> 0 \<or> units mod units_per_row \<noteq> 0 \<or>
         (enc_slice_count c \<noteq> 0 \<and>
            (enc_slice_last_units c \<noteq> enc_slice_unit_span c \<or> units > enc_slice_unit_span c)) \<or>
         units > - 1 - enc_slice_units c
      then None
      else Some (c\<lparr>enc_slice_unit_span := (if enc_slice_count c = 0 then units else enc_slice_unit_span c),
                   enc_slice_count := enc_slice_count c + 1,
                   enc_slice_units := enc_slice_units c + units,
                   enc_slice_last_units := units\<rparr>))"

definition hevc_slices_compatible :: "VAEncSliceParameterBufferHEVC \<Rightarrow> VAEncSliceParameterBufferHEVC \<Rightarrow> bool" where
  "hevc_slices_compatible a b \<longleftrightarrow>
     hl_slice_type a = hl_slice_type b \<and>
     hl_slice_pic_parameter_set_id a = hl_slice_pic_parameter_set_id b \<and>
     hl_slice_qp_delta a = hl_slice_qp_delta b \<and>
     hl_slice_cb_qp_offset a = hl_slice_cb_qp_offset b \<and>
     hl_slice_cr_qp_offset a = hl_slice_cr_qp_offset b \<and>
     hl_slice_beta_offset_div2 a = hl_slice_beta_offset_div2 b \<and>
     hl_slice_tc_offset_div2 a = hl_slice_tc_offset_div2 b \<and>
     hl_dependent_slice_segment_flag a = hl_dependent_slice_segment_flag b \<and>
     hl_slice_sao_luma_flag a = hl_slice_sao_luma_flag b \<and>
     hl_slice_sao_chroma_flag a = hl_slice_sao_chroma_flag b \<and>
     hl_slice_deblocking_filter_disabled_flag a = hl_slice_deblocking_filter_disabled_flag b \<and>
     hl_slice_loop_filter_across_slices_enabled_flag a = hl_slice_loop_filter_across_slices_enabled_flag b"

section \<open>Configuration\<close>

datatype cfg_value = S32 int | Fmt_YUV420SP | Rc_Mode MppRcMode | Split_None | Split_By_Ctu

datatype enc_command =
    MPP_ENC_GET_CFG | MPP_ENC_SET_CFG | MPP_SET_INPUT_TIMEOUT int | MPP_SET_OUTPUT_TIMEOUT int
  | MPP_ENC_SET_HEADER_MODE_EACH_IDR | MPP_ENC_SET_IDR_FRAME

datatype enc_input = Import_Buf | Priv_Buf

record enc_frame =
  f_width :: int
  f_height :: int
  f_hor_stride :: int
  f_ver_stride :: int
  f_buffer :: enc_input

text \<open>\<open>encode_get_packet\<close>: the result code, and the packet with its data pointer and length.\<close>

record 'm enc_backend =
  mpp_enc_cfg_init :: "'m \<Rightarrow> bool \<times> 'm"
  mpp_enc_cfg_set_s32 :: "string \<Rightarrow> cfg_value \<Rightarrow> 'm \<Rightarrow> bool \<times> 'm"
  mpi_control :: "enc_command \<Rightarrow> 'm \<Rightarrow> bool \<times> 'm"
  normalize_multiplane_import :: "'m \<Rightarrow> bool \<times> 'm"
  convert_rgb_to_nv12 :: "'m \<Rightarrow> bool \<times> 'm"
  mpp_frame_init :: "'m \<Rightarrow> bool \<times> 'm"
  encode_put_frame :: "enc_frame \<Rightarrow> 'm \<Rightarrow> bool \<times> 'm"
  encode_get_packet :: "'m \<Rightarrow> bool \<times> u8 list option option \<times> 'm"

text \<open>A chain \<open>a || b || \<dots>\<close> of configuration calls: the first that fails ends it.\<close>

fun enc_set_s32 :: "'m enc_backend \<Rightarrow> (string \<times> cfg_value) list \<Rightarrow> 'm \<Rightarrow> bool \<times> 'm" where
  "enc_set_s32 e [] m = (True, m)"
| "enc_set_s32 e ((k, v) # kvs) m =
     (case mpp_enc_cfg_set_s32 e k v m of (ok, m) \<Rightarrow> if ok then enc_set_s32 e kvs m else (False, m))"

text \<open>\<open>(int32_t)\<close> of an unsigned value, and a bit-field as an integer.\<close>

definition s32 :: "u32 \<Rightarrow> cfg_value" where "s32 w = S32 (sint w)"
definition flag :: "bool \<Rightarrow> cfg_value" where "flag b = S32 (of_bool b)"

definition align16 :: "int \<Rightarrow> int" where "align16 x = (x + 15) AND NOT 15"

definition encoder_width :: "enc_context \<Rightarrow> int" where
  "encoder_width c = (case e_render c of Some s \<Rightarrow> v_width s | None \<Rightarrow> e_width c)"

definition encoder_height :: "enc_context \<Rightarrow> int" where
  "encoder_height c = (case e_render c of Some s \<Rightarrow> v_height s | None \<Rightarrow> e_height c)"

definition target_bitrate :: "enc_context \<Rightarrow> int" where
  "target_bitrate c = bounded_bitrate (if encoder_bitrate c \<noteq> 0 then uint (encoder_bitrate c) else 2000000)"

definition common_settings :: "enc_context \<Rightarrow> (string \<times> cfg_value) list" where
  "common_settings c =
     (let width = encoder_width c; height = encoder_height c;
          hstride = (case e_render c of Some s \<Rightarrow> v_hstride s | None \<Rightarrow> align16 width);
          vstride = (case e_render c of Some s \<Rightarrow> v_vstride s | None \<Rightarrow> align16 height);
          fps_num = (if enc_fps_num c \<noteq> 0 then enc_fps_num c else 30);
          fps_den = (if enc_fps_den c \<noteq> 0 then enc_fps_den c else 1)
      in [(''prep:width'', S32 width), (''prep:height'', S32 height),
          (''prep:hor_stride'', S32 hstride), (''prep:ver_stride'', S32 vstride),
          (''prep:format'', Fmt_YUV420SP), (''rc:fps_in_flex'', S32 0),
          (''rc:fps_in_num'', s32 fps_num), (''rc:fps_in_denom'', s32 fps_den),
          (''rc:fps_out_flex'', S32 0), (''rc:fps_out_num'', s32 fps_num), (''rc:fps_out_denom'', s32 fps_den),
          (''rc:gop'', s32 (encoder_gop c)), (''rc:mode'', Rc_Mode (mpp_rc_mode (e_rate_control c))),
          (''rc:qp_init'', S32 (encoder_qp c)),
          (''split:mode'', if enc_slice_count c > 1 then Split_By_Ctu else Split_None),
          (''split:arg'', if enc_slice_count c > 1 then s32 (enc_slice_unit_span c) else S32 0),
          (''split:out'', S32 0)])"

definition codec_settings :: "enc_context \<Rightarrow> (string \<times> cfg_value) list" where
  "codec_settings c =
     (if e_coding c = CodingAVC
      then let seq = enc_seq c; pic = enc_pic c
           in [(''h264:profile'', S32 (if e_profile c = VAProfileH264High then 100 else 77)),
               (''h264:level'', S32 (if es_level_idc seq \<noteq> 0 then uint (es_level_idc seq) else 40)),
               (''h264:cabac_en'', flag (ep_entropy_coding_mode_flag pic)), (''h264:cabac_idc'', S32 0),
               (''h264:trans8x8'', flag (ep_transform_8x8_mode_flag pic))]
      else let seq = enc_hevc_seq c; pic = enc_hevc_pic c; sl = enc_hevc_slice c
           in [(''h265:profile'', S32 (uint (hq_general_profile_idc seq))),
               (''h265:tier'', S32 (uint (hq_general_tier_flag seq))),
               (''h265:level'', S32 (if hq_general_level_idc seq \<noteq> 0 then uint (hq_general_level_idc seq) else 120)),
               (''h265:lcu_size'', s32 (hevc_ctu_size c)),
               (''h265:diff_cu_qp_delta_depth'', S32 (uint (hp_diff_cu_qp_delta_depth pic))),
               (''h265:cb_qp_offset'', S32 (sint (hp_pps_cb_qp_offset pic))),
               (''h265:cr_qp_offset'', S32 (sint (hp_pps_cr_qp_offset pic))),
               (''h265:const_intra'', flag (hp_constrained_intra_pred_flag pic)),
               (''h265:sao_luma_disable'', flag (\<not> hl_slice_sao_luma_flag sl)),
               (''h265:sao_chroma_disable'', flag (\<not> hl_slice_sao_chroma_flag sl)),
               (''h265:dblk_disable'', flag (hl_slice_deblocking_filter_disabled_flag sl)),
               (''h265:dblk_alpha'', S32 (sint (hl_slice_beta_offset_div2 sl))),
               (''h265:dblk_beta'', S32 (sint (hl_slice_tc_offset_div2 sl)))])"

definition rate_settings :: "enc_context \<Rightarrow> (string \<times> cfg_value) list" where
  "rate_settings c =
     (let qp = encoder_qp c; bitrate = target_bitrate c; mode = mpp_rc_mode (e_rate_control c)
      in if mode = RC_MODE_FIXQP
         then [(''rc:qp_min'', S32 qp), (''rc:qp_max'', S32 qp), (''rc:qp_min_i'', S32 qp), (''rc:qp_max_i'', S32 qp),
               (''rc:qp_ip'', S32 0)]
         else let max_bps = bounded_bitrate (if mode = RC_MODE_CBR then bitrate * 17 div 16 else bitrate * 3 div 2);
                  min_bps = bounded_bitrate (if mode = RC_MODE_CBR then bitrate * 15 div 16 else bitrate div 16)
              in [(''rc:bps_target'', S32 bitrate), (''rc:bps_max'', S32 max_bps), (''rc:bps_min'', S32 min_bps),
                  (''rc:qp_min'', S32 0), (''rc:qp_max'', S32 48), (''rc:qp_min_i'', S32 0), (''rc:qp_max_i'', S32 48),
                  (''rc:qp_ip'', S32 2)])"

definition configure_encoder :: "'m enc_backend \<Rightarrow> enc_context \<Rightarrow> 'm \<Rightarrow> bool \<times> 'm" where
  "configure_encoder e c m =
     (case enc_set_s32 e (common_settings c @ codec_settings c @ rate_settings c) m of
        (ok, m) \<Rightarrow> if ok then mpi_control e MPP_ENC_SET_CFG m else (False, m))"

definition rk_mpp_enc_init :: "'m enc_backend \<Rightarrow> 'm \<Rightarrow> VAStatus \<times> 'm" where
  "rk_mpp_enc_init e m =
     (case mpp_enc_cfg_init e m of (ok, m) \<Rightarrow> if \<not> ok then (VA_STATUS_ERROR_ALLOCATION_FAILED, m)
      else case mpi_control e MPP_ENC_GET_CFG m of (ok, m) \<Rightarrow> if \<not> ok then (VA_STATUS_ERROR_ALLOCATION_FAILED, m)
      else case mpi_control e (MPP_SET_INPUT_TIMEOUT 1000) m of (ok, m) \<Rightarrow> if \<not> ok then (VA_STATUS_ERROR_ALLOCATION_FAILED, m)
      else case mpi_control e (MPP_SET_OUTPUT_TIMEOUT 1000) m of (ok, m) \<Rightarrow> if \<not> ok then (VA_STATUS_ERROR_ALLOCATION_FAILED, m)
      else case mpi_control e MPP_ENC_SET_HEADER_MODE_EACH_IDR m of (ok, m) \<Rightarrow>
             (if ok then VA_STATUS_SUCCESS else VA_STATUS_ERROR_ALLOCATION_FAILED, m))"


section \<open>Parameter buffers\<close>

text \<open>
  A structure is copied into the context before it is examined, so the context holds it even when the
  call is refused.
\<close>

definition render_seq_h264 :: "enc_abi \<Rightarrow> RKBuffer \<Rightarrow> enc_context \<Rightarrow> (VAStatus \<times> enc_context) outcome" where
  "render_seq_h264 abi b c =
     (if b_total b < sz_seq abi then Ok (VA_STATUS_ERROR_INVALID_BUFFER, c)
      else obind (mem_read (b_data b) 0 (sz_seq abi)) (\<lambda>xs.
        let seq = ld_seq abi xs; c = c\<lparr>enc_seq := seq\<rparr>
        in if es_picture_width_in_mbs seq = 0 \<or> es_picture_height_in_mbs seq = 0 \<or>
              es_picture_width_in_mbs seq \<noteq> word_of_int ((e_width c + 15) div 16) \<or>
              es_picture_height_in_mbs seq \<noteq> word_of_int ((e_height c + 15) div 16) \<or>
              unat (es_intra_period seq) > INT_MAX
           then Ok (VA_STATUS_ERROR_INVALID_PARAMETER, c)
           else Ok (VA_STATUS_SUCCESS, c\<lparr>has_enc_seq := True\<rparr>)))"

definition visible_dimensions :: "VAEncSequenceParameterBufferHEVC \<Rightarrow> enc_context \<Rightarrow> bool" where
  "visible_dimensions seq c =
     (case e_render c of None \<Rightarrow> False
      | Some s \<Rightarrow> hq_pic_width_in_luma_samples seq = word_of_int (v_width s) \<and>
                  hq_pic_height_in_luma_samples seq = word_of_int (v_height s))"

definition aligned_context_dimensions :: "VAEncSequenceParameterBufferHEVC \<Rightarrow> enc_context \<Rightarrow> bool" where
  "aligned_context_dimensions seq c =
     (case e_render c of None \<Rightarrow> False
      | Some s \<Rightarrow> align16 (v_width s) = e_width c \<and> align16 (v_height s) = e_height c \<and>
                  hq_pic_width_in_luma_samples seq = word_of_int (e_width c) \<and>
                  hq_pic_height_in_luma_samples seq = word_of_int (e_height c))"

definition render_seq_hevc :: "enc_abi \<Rightarrow> RKBuffer \<Rightarrow> enc_context \<Rightarrow> (VAStatus \<times> enc_context) outcome" where
  "render_seq_hevc abi b c =
     (if b_total b < sz_hevc_seq abi then Ok (VA_STATUS_ERROR_INVALID_BUFFER, c)
      else obind (mem_read (b_data b) 0 (sz_hevc_seq abi)) (\<lambda>xs.
        let seq = ld_hevc_seq abi xs; c = c\<lparr>enc_hevc_seq := seq\<rparr>
        in if hq_general_profile_idc seq \<noteq> 1 \<or>
              (\<not> visible_dimensions seq c \<and> \<not> aligned_context_dimensions seq c) \<or>
              hq_chroma_format_idc seq \<noteq> 1 \<or> hq_separate_colour_plane_flag seq \<or>
              hq_bit_depth_luma_minus8 seq \<noteq> 0 \<or> hq_bit_depth_chroma_minus8 seq \<noteq> 0 \<or>
              hq_scaling_list_enabled_flag seq \<or> hq_pcm_enabled_flag seq \<or>
              hq_ip_period seq > 1 \<or> unat (hq_intra_period seq) > INT_MAX \<or> hevc_ctu_size c = 0
           then Ok (VA_STATUS_ERROR_INVALID_PARAMETER, c)
           else Ok (VA_STATUS_SUCCESS, c\<lparr>has_enc_seq := True\<rparr>)))"

definition render_pic_h264 :: "enc_abi \<Rightarrow> RKBuffer \<Rightarrow> enc_context \<Rightarrow> (VAStatus \<times> enc_context) outcome" where
  "render_pic_h264 abi b c =
     (if b_total b < sz_pic abi then Ok (VA_STATUS_ERROR_INVALID_BUFFER, c)
      else obind (mem_read (b_data b) 0 (sz_pic abi)) (\<lambda>xs.
        Ok (VA_STATUS_SUCCESS, c\<lparr>enc_pic := ld_pic abi xs, has_enc_pic := True\<rparr>)))"

definition render_pic_hevc :: "enc_abi \<Rightarrow> RKBuffer \<Rightarrow> enc_context \<Rightarrow> (VAStatus \<times> enc_context) outcome" where
  "render_pic_hevc abi b c =
     (if b_total b < sz_hevc_pic abi then Ok (VA_STATUS_ERROR_INVALID_BUFFER, c)
      else obind (mem_read (b_data b) 0 (sz_hevc_pic abi)) (\<lambda>xs.
        let pic = ld_hevc_pic abi xs; c = c\<lparr>enc_hevc_pic := pic\<rparr>
        in if hp_num_tile_columns_minus1 pic \<noteq> 0 \<or> hp_num_tile_rows_minus1 pic \<noteq> 0 \<or> hp_tiles_enabled_flag pic \<or>
              hp_scaling_list_data_present_flag pic \<or> hp_weighted_pred_flag pic \<or> hp_weighted_bipred_flag pic \<or>
              hp_coding_type pic < 1 \<or> hp_coding_type pic > 2 \<or> hp_diff_cu_qp_delta_depth pic > 2
           then Ok (VA_STATUS_ERROR_INVALID_PARAMETER, c)
           else Ok (VA_STATUS_SUCCESS, c\<lparr>has_enc_pic := True\<rparr>)))"

text \<open>The slices of a buffer lie one element size apart.\<close>

fun h264_slice_loop ::
    "enc_abi \<Rightarrow> RKBuffer \<Rightarrow> u32 \<Rightarrow> nat list \<Rightarrow> enc_context \<Rightarrow> (VAStatus \<times> enc_context) outcome" where
  "h264_slice_loop abi b units_per_row [] c = Ok (VA_STATUS_SUCCESS, c)"
| "h264_slice_loop abi b units_per_row (i # js) c =
     obind (mem_read (b_data b) (i * unat (b_bytes b)) (sz_slice abi)) (\<lambda>xs.
       let sl = ld_slice abi xs
       in if enc_slice_count c \<noteq> 0 \<and> el_slice_type (enc_slice c) \<noteq> el_slice_type sl
          then Ok (VA_STATUS_ERROR_INVALID_PARAMETER, c)
          else case add_encoder_slice c (el_macroblock_address sl) (el_num_macroblocks sl) units_per_row of
              None \<Rightarrow> Ok (VA_STATUS_ERROR_INVALID_PARAMETER, c)
            | Some c \<Rightarrow> h264_slice_loop abi b units_per_row js
                          (if enc_slice_count c = 1 then c\<lparr>enc_slice := sl\<rparr> else c))"

definition note_hevc_slice :: "VAEncSliceParameterBufferHEVC \<Rightarrow> enc_context \<Rightarrow> enc_context" where
  "note_hevc_slice sl c =
     (if enc_slice_count c = 1 then c\<lparr>enc_hevc_slice := sl\<rparr>
      else if hl_last_slice_of_pic_flag sl
      then c\<lparr>enc_hevc_slice := (enc_hevc_slice c)\<lparr>hl_last_slice_of_pic_flag := True\<rparr>\<rparr>
      else c)"

fun hevc_slice_loop ::
    "enc_abi \<Rightarrow> RKBuffer \<Rightarrow> u32 \<Rightarrow> nat list \<Rightarrow> enc_context \<Rightarrow> (VAStatus \<times> enc_context) outcome" where
  "hevc_slice_loop abi b units_per_row [] c = Ok (VA_STATUS_SUCCESS, c)"
| "hevc_slice_loop abi b units_per_row (i # js) c =
     obind (mem_read (b_data b) (i * unat (b_bytes b)) (sz_hevc_slice abi)) (\<lambda>xs.
       let sl = ld_hevc_slice abi xs
       in if enc_slice_count c \<noteq> 0 \<and>
             (\<not> hevc_slices_compatible (enc_hevc_slice c) sl \<or> hl_last_slice_of_pic_flag (enc_hevc_slice c))
          then Ok (VA_STATUS_ERROR_INVALID_PARAMETER, c)
          else case add_encoder_slice c (hl_slice_segment_address sl) (hl_num_ctu_in_slice sl) units_per_row of
              None \<Rightarrow> Ok (VA_STATUS_ERROR_INVALID_PARAMETER, c)
            | Some c \<Rightarrow> hevc_slice_loop abi b units_per_row js (note_hevc_slice sl c))"

text \<open>\<open>render_surface\<close> is read without a check here; a missing surface is a \<open>Fault\<close>.\<close>

definition render_slices :: "enc_abi \<Rightarrow> RKBuffer \<Rightarrow> enc_context \<Rightarrow> (VAStatus \<times> enc_context) outcome" where
  "render_slices abi b c =
     (if b_num_elements b = 0 then Ok (VA_STATUS_ERROR_INVALID_BUFFER, c)
      else obind
        (if e_coding c = CodingAVC
         then if unat (b_bytes b) < sz_slice abi then Ok (VA_STATUS_ERROR_INVALID_BUFFER, c)
              else h264_slice_loop abi b ((word_of_int (e_width c) + 15) div 16) [0..<unat (b_num_elements b)] c
         else if unat (b_bytes b) < sz_hevc_slice abi then Ok (VA_STATUS_ERROR_INVALID_BUFFER, c)
              else let ctu = hevc_ctu_size c
                   in obind (if ctu = 0 then Ok 0
                             else case e_render c of None \<Rightarrow> Fault
                               | Some s \<Rightarrow> Ok ((word_of_int (v_width s) + ctu - 1) div ctu)) (\<lambda>units_per_row.
                      hevc_slice_loop abi b units_per_row [0..<unat (b_num_elements b)] c))
        (\<lambda>(st, c). Ok (st, if st = VA_STATUS_SUCCESS then c\<lparr>has_enc_slice := True\<rparr> else c)))"

definition render_misc :: "enc_abi \<Rightarrow> RKBuffer \<Rightarrow> enc_context \<Rightarrow> (VAStatus \<times> enc_context) outcome" where
  "render_misc abi b c =
     (if b_total b < sz_misc abi then Ok (VA_STATUS_ERROR_INVALID_BUFFER, c)
      else obind (mem_read (b_data b) 0 (sz_misc abi)) (\<lambda>xs.
        case ld_misc abi xs of
          Misc_RateControl \<Rightarrow>
            if b_total b < sz_misc abi + sz_rate_control abi then Ok (VA_STATUS_ERROR_INVALID_BUFFER, c)
            else obind (mem_read (b_data b) (sz_misc abi) (sz_rate_control abi)) (\<lambda>ys.
              let bits_per_second = ld_bits_per_second abi ys
              in if unat bits_per_second > INT_MAX then Ok (VA_STATUS_ERROR_INVALID_PARAMETER, c)
                 else Ok (VA_STATUS_SUCCESS, c\<lparr>enc_bitrate := bits_per_second\<rparr>))
        | Misc_FrameRate \<Rightarrow>
            if b_total b < sz_misc abi + sz_frame_rate abi then Ok (VA_STATUS_ERROR_INVALID_BUFFER, c)
            else obind (mem_read (b_data b) (sz_misc abi) (sz_frame_rate abi)) (\<lambda>ys.
              let framerate = ld_framerate abi ys; den = drop_bit 16 framerate;
                  c = c\<lparr>enc_fps_num := framerate AND 0xffff, enc_fps_den := (if den = 0 then 1 else den)\<rparr>
              in if enc_fps_num c = 0 then Ok (VA_STATUS_ERROR_INVALID_PARAMETER, c) else Ok (VA_STATUS_SUCCESS, c))
        | Misc_Other \<Rightarrow> Ok (VA_STATUS_SUCCESS, c)))"

definition rk_mpp_enc_render_buffer :: "enc_abi \<Rightarrow> enc_context \<Rightarrow> RKBuffer \<Rightarrow> (VAStatus \<times> enc_context) outcome" where
  "rk_mpp_enc_render_buffer abi c b =
     (if b_type b = VAEncSequenceParameterBufferType
      then if e_coding c = CodingAVC then render_seq_h264 abi b c else render_seq_hevc abi b c
      else if b_type b = VAEncPictureParameterBufferType
      then if e_coding c = CodingAVC then render_pic_h264 abi b c else render_pic_hevc abi b c
      else if b_type b = VAEncSliceParameterBufferType then render_slices abi b c
      else if b_type b = VAEncMiscParameterBufferType then render_misc abi b c
      else Ok (VA_STATUS_ERROR_UNSUPPORTED_BUFFERTYPE, c))"

section \<open>Encoding\<close>

datatype enc_event = Ev_Frame_Init | Ev_Frame_Deinit | Ev_Packet | Ev_Packet_Deinit

definition submit_frame ::
    "'m enc_backend \<Rightarrow> bool \<Rightarrow> enc_frame \<Rightarrow> 'm \<Rightarrow> u8 list option \<times> enc_event list \<times> 'm" where
  "submit_frame e request_idr frame m =
     (case (if request_idr then mpi_control e MPP_ENC_SET_IDR_FRAME m else (True, m)) of (ok, m) \<Rightarrow>
      if \<not> ok then (None, [], m)
      else case encode_put_frame e frame m of (ok, m) \<Rightarrow>
      if \<not> ok then (None, [], m)
      else case encode_get_packet e m of (ok, packet, m) \<Rightarrow>
        (case packet of
           None \<Rightarrow> (None, [], m)
         | Some position \<Rightarrow>
             (if \<not> ok then None
              else case position of None \<Rightarrow> None
                | Some bytes \<Rightarrow> if bytes = [] \<or> int (length bytes) > uint (- 1 :: u32) then None else Some bytes,
              [Ev_Packet, Ev_Packet_Deinit], m)))"

definition encode_frame ::
    "'m enc_backend \<Rightarrow> enc_context \<Rightarrow> enc_surface \<Rightarrow> bool \<Rightarrow> 'm \<Rightarrow> u8 list option \<times> enc_event list \<times> 'm" where
  "encode_frame e c s request_idr m =
     (case (if v_imported_multiplane s then normalize_multiplane_import e m else (True, m)) of (import_ready, m) \<Rightarrow>
      let input = (if v_import_buf s \<and> \<not> v_imported_rgb s \<and> \<not> v_imported_multiplane s then Some Import_Buf
                   else if v_priv_buf s then Some Priv_Buf else None)
      in case input of
           None \<Rightarrow> (None, [], m)
         | Some input \<Rightarrow>
             if \<not> import_ready \<or> v_fmt_10bit s then (None, [], m)
             else case (if v_imported_rgb s then convert_rgb_to_nv12 e m else (True, m)) of (converted, m) \<Rightarrow>
             if \<not> converted then (None, [], m)
             else case configure_encoder e c m of (configured, m) \<Rightarrow>
             if \<not> configured then (None, [], m)
             else case mpp_frame_init e m of (ok, m) \<Rightarrow>
             if \<not> ok then (None, [], m)
             else case submit_frame e request_idr \<lparr>f_width = v_width s, f_height = v_height s,
                         f_hor_stride = v_hstride s, f_ver_stride = v_vstride s, f_buffer = input\<rparr> m of
               (r, evs, m) \<Rightarrow> (r, Ev_Frame_Init # evs @ [Ev_Frame_Deinit], m))"

definition encode_call ::
    "'m enc_backend \<Rightarrow> enc_context \<Rightarrow> enc_surface \<Rightarrow> bool \<Rightarrow> 'm \<Rightarrow> nat \<Rightarrow> RKBuffer \<Rightarrow> RKDriver \<Rightarrow>
     ((VAStatus + VAStatus \<times> enc_event list \<times> 'm) \<times> RKDriver) outcome" where
  "encode_call e c s request_idr m p b d =
     (if b_type b \<noteq> VAEncCodedBufferType then Ok (Inl VA_STATUS_ERROR_INVALID_BUFFER, d)
      else let b = b\<lparr>b_coded_ready := False, b_coded_failed := False\<rparr>
           in case encode_frame e c s request_idr m of (r, evs, m) \<Rightarrow>
              obind (case r of None \<Rightarrow> Ok (VA_STATUS_ERROR_ENCODING_ERROR, b)
                     | Some bytes \<Rightarrow> rk_buffer_store_coded b bytes 0) (\<lambda>(status, b).
                let b = (if status \<noteq> VA_STATUS_SUCCESS then b\<lparr>b_coded_ready := True, b_coded_failed := True\<rparr> else b)
                in Ok (Inr (status, evs, m), buffer_set p b d)))"

text \<open>Whether the slices cover the picture, and the buffer and frame type it asks for.\<close>

definition encode_request :: "enc_context \<Rightarrow> enc_surface \<Rightarrow> (u32 \<times> bool) option" where
  "encode_request c s =
     (if e_coding c = CodingAVC
      then if enc_slice_units c \<noteq> word_of_int (((e_width c + 15) div 16) * ((e_height c + 15) div 16)) then None
           else Some (ep_coded_buf (enc_pic c), ep_idr_pic_flag (enc_pic c))
      else let ctu = hevc_ctu_size c
           in if ctu = 0 then None
              else if enc_slice_units c \<noteq> (word_of_int (v_width s) + ctu - 1) div ctu * ((word_of_int (v_height s) + ctu - 1) div ctu) \<or>
                      \<not> hl_last_slice_of_pic_flag (enc_hevc_slice c) then None
              else Some (hp_coded_buf (enc_hevc_pic c), hp_idr_pic_flag (enc_hevc_pic c)))"

definition rk_mpp_enc_encode ::
    "'m enc_backend \<Rightarrow> enc_context \<Rightarrow> RKDriver \<Rightarrow> 'm \<Rightarrow> ((VAStatus + VAStatus \<times> enc_event list \<times> 'm) \<times> RKDriver) outcome" where
  "rk_mpp_enc_encode e c d m =
     (case e_render c of
        None \<Rightarrow> Ok (Inl VA_STATUS_ERROR_INVALID_PARAMETER, d)
      | Some s \<Rightarrow>
          if \<not> has_enc_seq c \<or> \<not> has_enc_pic c \<or> \<not> has_enc_slice c then Ok (Inl VA_STATUS_ERROR_INVALID_PARAMETER, d)
          else case encode_request c s of
              None \<Rightarrow> Ok (Inl VA_STATUS_ERROR_INVALID_PARAMETER, d)
            | Some (coded_id, request_idr) \<Rightarrow> with_buffer d coded_id (encode_call e c s request_idr m))"

section \<open>The encoder branches of the picture calls\<close>

definition forget_slices :: "enc_context \<Rightarrow> enc_context" where
  "forget_slices c = c\<lparr>has_enc_pic := False, has_enc_slice := False, enc_slice_count := 0, enc_slice_units := 0,
     enc_slice_unit_span := 0, enc_slice_last_units := 0\<rparr>"

definition begin_encode :: "enc_context \<Rightarrow> enc_surface \<Rightarrow> VAStatus \<times> enc_context" where
  "begin_encode c s =
     (let exact_dimensions = (v_width s = e_width c \<and> v_height s = e_height c);
          aligned_hevc_dimensions = (e_coding c = CodingHEVC \<and> align16 (v_width s) = e_width c \<and> align16 (v_height s) = e_height c)
      in if (\<not> exact_dimensions \<and> \<not> aligned_hevc_dimensions) \<or> v_fmt_10bit s then (VA_STATUS_ERROR_INVALID_SURFACE, c)
         else if e_render c \<noteq> None then (VA_STATUS_ERROR_OPERATION_FAILED, c)
         else (VA_STATUS_SUCCESS, forget_slices (c\<lparr>e_render := Some s\<rparr>)))"

fun render_encode_loop ::
    "enc_abi \<Rightarrow> u32 list \<Rightarrow> enc_context \<Rightarrow> RKDriver \<Rightarrow> (VAStatus \<times> enc_context \<times> RKDriver) outcome" where
  "render_encode_loop abi [] c d = Ok (VA_STATUS_SUCCESS, c, d)"
| "render_encode_loop abi (i # ids) c d =
     obind (visit d i) (\<lambda>(b, d).
       case b of
         None \<Rightarrow> Ok (VA_STATUS_ERROR_INVALID_BUFFER, c, d)
       | Some b \<Rightarrow> obind (rk_mpp_enc_render_buffer abi c b) (\<lambda>(st, c).
           if st = VA_STATUS_SUCCESS then render_encode_loop abi ids c d else Ok (st, c, d)))"

definition render_encode ::
    "enc_abi \<Rightarrow> u32 list \<Rightarrow> enc_context \<Rightarrow> RKDriver \<Rightarrow> (VAStatus \<times> enc_context \<times> RKDriver) outcome" where
  "render_encode abi ids c d =
     (if e_render c = None then Ok (VA_STATUS_ERROR_OPERATION_FAILED, c, d) else render_encode_loop abi ids c d)"

definition end_encode ::
    "'m enc_backend \<Rightarrow> enc_context \<Rightarrow> RKDriver \<Rightarrow> 'm \<Rightarrow>
     ((VAStatus + VAStatus \<times> enc_event list \<times> 'm) \<times> enc_context \<times> RKDriver) outcome" where
  "end_encode e c d m =
     (if e_render c = None then Ok (Inl VA_STATUS_ERROR_OPERATION_FAILED, c, d)
      else obind (rk_mpp_enc_encode e c d m) (\<lambda>(r, d). Ok (r, forget_slices (c\<lparr>e_render := None\<rparr>), d)))"


section \<open>Slices tile the picture\<close>

text \<open>The units of a picture, cut every \<open>span\<close> units: what \<open>split:mode\<close> with \<open>split:arg\<close> makes MPP do.\<close>

definition split_units :: "nat \<Rightarrow> nat \<Rightarrow> (nat \<times> nat) list" where
  "split_units total_units span =
     map (\<lambda>k. (k * span, min span (total_units - k * span))) [0..<(total_units + span - 1) div span]"

text \<open>\<open>tiled c ss\<close>: the context has accepted exactly the slices \<open>ss\<close> (address and size).\<close>

definition tiled :: "enc_context \<Rightarrow> (u32 \<times> u32) list \<Rightarrow> bool" where
  "tiled c ss \<longleftrightarrow> unat (enc_slice_count c) = length ss \<and>
     (if ss = [] then enc_slice_units c = 0
      else let n = length ss - 1; span = unat (enc_slice_unit_span c); last_units = unat (enc_slice_last_units c)
           in 0 < last_units \<and> last_units \<le> span \<and> unat (enc_slice_units c) = n * span + last_units \<and>
              (\<forall>k < n. unat (fst (ss ! k)) = k * span \<and> unat (snd (ss ! k)) = span) \<and>
              unat (fst (ss ! n)) = n * span \<and> unat (snd (ss ! n)) = last_units)"

lemma tiled_count: "tiled c ss \<Longrightarrow> length ss \<le> unat (enc_slice_units c)"
proof (cases ss)
  case (Cons s ss')
  assume t: "tiled c ss"
  then have l: "0 < unat (enc_slice_last_units c)" "unat (enc_slice_last_units c) \<le> unat (enc_slice_unit_span c)"
      "unat (enc_slice_units c) = length ss' * unat (enc_slice_unit_span c) + unat (enc_slice_last_units c)"
    using Cons by (auto simp: tiled_def Let_def)
  then have "length ss' \<le> length ss' * unat (enc_slice_unit_span c)" by (cases "unat (enc_slice_unit_span c)") auto
  with l have "length ss' + 1 \<le> unat (enc_slice_units c)" by linarith
  then show ?thesis using Cons by simp
qed simp

lemma tiled_add:
  assumes "tiled c ss" and "add_encoder_slice c a u upr = Some c'"
  shows "tiled c' (ss @ [(a, u)])"
proof -
  from assms(2) have g: "u \<noteq> 0" "a = enc_slice_units c" "\<not> u > - 1 - enc_slice_units c"
      "enc_slice_count c \<noteq> 0 \<longrightarrow> enc_slice_last_units c = enc_slice_unit_span c \<and> u \<le> enc_slice_unit_span c"
    and c': "c' = c\<lparr>enc_slice_unit_span := (if enc_slice_count c = 0 then u else enc_slice_unit_span c),
        enc_slice_count := enc_slice_count c + 1, enc_slice_units := enc_slice_units c + u, enc_slice_last_units := u\<rparr>"
    by (auto simp: add_encoder_slice_def not_less split: if_splits)
  have "unat (- 1 - enc_slice_units c) = 4294967295 - unat (enc_slice_units c)"
    by (subst unat_sub [OF word_n1_ge]) simp
  moreover have "unat (enc_slice_units c) < 4294967296" by (rule order_less_le_trans [OF unsigned_less]) simp
  moreover have "unat u \<le> unat (- 1 - enc_slice_units c)" using g(3) by (simp add: not_less word_le_nat_alt)
  ultimately have "unat (enc_slice_units c) + unat u < 4294967296" by linarith
  then have "unat (enc_slice_units c) + unat u < 2 ^ 32" by simp
  then have units: "unat (enc_slice_units c + u) = unat (enc_slice_units c) + unat u" by (simp add: unat_word_ariths(1))
  have "unat u \<noteq> 0" using g(1) by (simp add: unat_eq_0)
  then have n: "length ss + 1 \<le> unat (enc_slice_units c) + unat u" using tiled_count [OF assms(1)] by simp
  have "unat (enc_slice_count c) = length ss" using assms(1) by (simp add: tiled_def)
  with n \<open>_ < 2 ^ 32\<close> have count: "unat (enc_slice_count c + 1) = length ss + 1" by (simp add: unat_word_ariths(1))
  have z: "enc_slice_count c = 0 \<longleftrightarrow> ss = []" using assms(1) by (auto simp: tiled_def unat_eq_0)
  show ?thesis
  proof (cases "ss = []")
    case True
    with z assms(1) \<open>unat u \<noteq> 0\<close> count units g(2) show ?thesis unfolding c' by (simp add: tiled_def)
  next
    case False
    let ?span = "unat (enc_slice_unit_span c)" and ?n = "length ss - 1"
    from False z g(4) have s: "unat (enc_slice_last_units c) = ?span" "unat u \<le> ?span" by (auto simp: word_le_nat_alt)
    from assms(1) False s(1) have t: "unat (enc_slice_units c) = ?n * ?span + ?span"
        "\<And>k. k < ?n \<Longrightarrow> unat (fst (ss ! k)) = k * ?span \<and> unat (snd (ss ! k)) = ?span"
        "unat (fst (ss ! ?n)) = ?n * ?span" "unat (snd (ss ! ?n)) = ?span" by (auto simp: tiled_def Let_def)
    then have "unat (enc_slice_units c) = length ss * ?span" using False by (cases ss) auto
    moreover have "unat (fst (ss ! k)) = k * ?span \<and> unat (snd (ss ! k)) = ?span" if "k < length ss" for k
      using t(2-4) that by (cases "k = ?n") auto
    ultimately show ?thesis unfolding c' using False z s(2) \<open>unat u \<noteq> 0\<close> count units g(2)
      by (simp add: tiled_def nth_append)
  qed
qed

lemma tiled_split:
  assumes "tiled c ss"
  shows "map (map_prod unat unat) ss = split_units (unat (enc_slice_units c)) (unat (enc_slice_unit_span c))"
proof (cases "ss = []")
  case True
  with assms have "unat (enc_slice_units c) = 0" by (simp add: tiled_def)
  with True show ?thesis by (cases "unat (enc_slice_unit_span c) = 0") (simp_all add: split_units_def)
next
  case False
  let ?span = "unat (enc_slice_unit_span c)" and ?n = "length ss - 1" and ?l = "unat (enc_slice_last_units c)"
  let ?total = "unat (enc_slice_units c)"
  from assms False have t: "0 < ?l" "?l \<le> ?span" "?total = ?n * ?span + ?l"
      "\<And>k. k < ?n \<Longrightarrow> unat (fst (ss ! k)) = k * ?span \<and> unat (snd (ss ! k)) = ?span"
      "unat (fst (ss ! ?n)) = ?n * ?span" "unat (snd (ss ! ?n)) = ?l" by (auto simp: tiled_def Let_def)
  have "?total + ?span - 1 = (?n + 1) * ?span + (?l - 1)" using t(1-3) by (simp add: algebra_simps)
  moreover have "?l - 1 < ?span" using t(1,2) by simp
  ultimately have "(?total + ?span - 1) div ?span = ?n + 1" by (metis add.commute div_mult_self3 div_less add.right_neutral not_less0 add_0)
  then have len: "length (split_units ?total ?span) = length ss" using False by (simp add: split_units_def)
  show ?thesis
  proof (rule nth_equalityI)
    fix k assume "k < length (map (map_prod unat unat) ss)"
    then have k: "k < length ss" by simp
    have sp: "split_units ?total ?span ! k = (k * ?span, min ?span (?total - k * ?span))"
      using k len by (simp add: split_units_def)
    show "map (map_prod unat unat) ss ! k = split_units ?total ?span ! k"
    proof (cases "k = ?n")
      case True
      with t k show ?thesis unfolding sp by (simp add: prod_eq_iff)
    next
      case False
      with k have kn: "k < ?n" by simp
      then have "(k + 1) * ?span \<le> ?n * ?span" by (intro mult_le_mono1) simp
      with t(3) have "?span \<le> ?total - k * ?span" by (simp add: algebra_simps)
      with t(4) [OF kn] k show ?thesis unfolding sp by (simp add: prod_eq_iff)
    qed
  qed (use len in simp)
qed


section \<open>Reading parameter buffers\<close>

definition bytes_at :: "RKBuffer \<Rightarrow> nat \<Rightarrow> nat \<Rightarrow> u8 list" where
  "bytes_at b off n = map the (take n (drop off (b_data b)))"

lemma bytes_at_read:
  assumes "buf_wf b" and "b_type b \<noteq> VAImageBufferType" and "off + n \<le> b_total b"
  shows "mem_read (b_data b) off n = Ok (bytes_at b off n)"
proof -
  from assms(1,2) have "b_derived b = None" by (auto simp: buf_wf_def)
  with assms(1,3) have i: "off + n \<le> length (b_data b)" "\<And>k. k < off + n \<Longrightarrow> b_data b ! k \<noteq> None"
    by (auto simp: total_capacity buf_wf_def init_prefix_def)
  then show ?thesis by (auto simp: mem_read_def bytes_at_def list_all_length)
qed

text \<open>Element \<open>i\<close> of a slice parameter buffer, as address and number of units.\<close>

definition slice_at :: "enc_abi \<Rightarrow> MppCodingType \<Rightarrow> RKBuffer \<Rightarrow> nat \<Rightarrow> u32 \<times> u32" where
  "slice_at abi coding b i =
     (if coding = CodingAVC
      then let sl = ld_slice abi (bytes_at b (i * unat (b_bytes b)) (sz_slice abi))
           in (el_macroblock_address sl, el_num_macroblocks sl)
      else let sl = ld_hevc_slice abi (bytes_at b (i * unat (b_bytes b)) (sz_hevc_slice abi))
           in (hl_slice_segment_address sl, hl_num_ctu_in_slice sl))"

definition buffer_slices :: "enc_abi \<Rightarrow> MppCodingType \<Rightarrow> RKBuffer \<Rightarrow> (u32 \<times> u32) list" where
  "buffer_slices abi coding b =
     (if b_type b = VAEncSliceParameterBufferType then map (slice_at abi coding b) [0..<unat (b_num_elements b)] else [])"

lemma element_read:
  assumes "buf_wf b" and "b_type b = VAEncSliceParameterBufferType" and "n \<le> unat (b_bytes b)" and "i < unat (b_num_elements b)"
  shows "mem_read (b_data b) (i * unat (b_bytes b)) n = Ok (bytes_at b (i * unat (b_bytes b)) n)"
proof (rule bytes_at_read [OF assms(1)])
  have "(i + 1) * unat (b_bytes b) \<le> unat (b_num_elements b) * unat (b_bytes b)" using assms(4) by (intro mult_le_mono1) simp
  then show "i * unat (b_bytes b) + n \<le> b_total b" using assms(3) by (simp add: b_total_def unat_mul32 mult.commute)
qed (simp add: assms(2))

text \<open>What the slice calls leave alone.\<close>

definition enc_frame_of :: "enc_context \<Rightarrow> MppCodingType \<times> VAEncSequenceParameterBufferH264 \<times> VAEncSequenceParameterBufferHEVC \<times>
    u32 \<times> u32 \<times> u32 \<times> enc_surface option \<times> int \<times> int" where
  "enc_frame_of c = (e_coding c, enc_seq c, enc_hevc_seq c, enc_bitrate c, enc_fps_num c, enc_fps_den c, e_render c, e_width c, e_height c)"

lemma add_slice_frame: "add_encoder_slice c a u upr = Some c' \<Longrightarrow> enc_frame_of c' = enc_frame_of c"
  by (auto simp: add_encoder_slice_def enc_frame_of_def split: if_splits)

lemma tiled_cong:
  "tiled (c\<lparr>enc_slice := x\<rparr>) ss = tiled c ss" "tiled (note_hevc_slice y c) ss = tiled c ss"
  "tiled (c\<lparr>has_enc_slice := h\<rparr>) ss = tiled c ss"
  by (simp_all add: tiled_def note_hevc_slice_def)

definition slices_taken :: "enc_context \<Rightarrow> (u32 \<times> u32) list \<Rightarrow> (u32 \<times> u32) list \<Rightarrow> (VAStatus \<times> enc_context) outcome \<Rightarrow> bool" where
  "slices_taken c ss new res \<longleftrightarrow> (\<exists>st c' k. res = Ok (st, c') \<and> enc_frame_of c' = enc_frame_of c \<and>
     tiled c' (ss @ take k new) \<and> (st = VA_STATUS_SUCCESS \<longrightarrow> length new \<le> k))"

lemma slices_taken_refused: "tiled c ss \<Longrightarrow> st \<noteq> VA_STATUS_SUCCESS \<Longrightarrow> slices_taken c ss new (Ok (st, c))"
  unfolding slices_taken_def by (intro exI [of _ st] exI [of _ c] exI [of _ 0]) simp

lemma slices_taken_step:
  assumes "slices_taken c' (ss @ [s]) new res" and "enc_frame_of c' = enc_frame_of c"
  shows "slices_taken c ss (s # new) res"
proof -
  from assms(1) obtain st c1 k where "res = Ok (st, c1)" "enc_frame_of c1 = enc_frame_of c'" "tiled c1 ((ss @ [s]) @ take k new)"
      "st = VA_STATUS_SUCCESS \<longrightarrow> length new \<le> k" unfolding slices_taken_def by blast
  with assms(2) show ?thesis unfolding slices_taken_def by (intro exI [of _ st] exI [of _ c1] exI [of _ "Suc k"]) simp
qed

lemma h264_loop_result:
  assumes "buf_wf b" "b_type b = VAEncSliceParameterBufferType" "sz_slice abi \<le> unat (b_bytes b)"
    and "\<forall>i \<in> set js. i < unat (b_num_elements b)" and "tiled c ss"
  shows "slices_taken c ss (map (slice_at abi CodingAVC b) js) (h264_slice_loop abi b upr js c)"
  using assms(4,5)
proof (induction js arbitrary: c ss)
  case Nil
  then show ?case by (auto simp: slices_taken_def)
next
  case (Cons i js)
  let ?sl = "ld_slice abi (bytes_at b (i * unat (b_bytes b)) (sz_slice abi))"
  have rd: "mem_read (b_data b) (i * unat (b_bytes b)) (sz_slice abi) = Ok (bytes_at b (i * unat (b_bytes b)) (sz_slice abi))"
    using element_read [OF assms(1,2,3)] Cons.prems(1) by simp
  have at: "slice_at abi CodingAVC b i = (el_macroblock_address ?sl, el_num_macroblocks ?sl)" by (simp add: slice_at_def Let_def)
  show ?case
  proof (cases "(enc_slice_count c \<noteq> 0 \<and> el_slice_type (enc_slice c) \<noteq> el_slice_type ?sl) \<or>
      add_encoder_slice c (el_macroblock_address ?sl) (el_num_macroblocks ?sl) upr = None")
    case True
    then show ?thesis using slices_taken_refused [OF Cons.prems(2)] by (auto simp: rd Let_def split: option.split)
  next
    case False
    then obtain c1 where a: "add_encoder_slice c (el_macroblock_address ?sl) (el_num_macroblocks ?sl) upr = Some c1" by auto
    let ?c = "if enc_slice_count c1 = 1 then c1\<lparr>enc_slice := ?sl\<rparr> else c1"
    have "tiled ?c (ss @ [slice_at abi CodingAVC b i])" using tiled_add [OF Cons.prems(2) a] by (simp add: at tiled_cong)
    from Cons.IH [OF _ this] Cons.prems(1)
    have "slices_taken ?c (ss @ [slice_at abi CodingAVC b i]) (map (slice_at abi CodingAVC b) js) (h264_slice_loop abi b upr js ?c)"
      by simp
    moreover have "enc_frame_of ?c = enc_frame_of c" using add_slice_frame [OF a] by (simp add: enc_frame_of_def)
    moreover have "h264_slice_loop abi b upr (i # js) c = h264_slice_loop abi b upr js ?c" using False a by (auto simp: rd Let_def)
    ultimately show ?thesis unfolding list.map by (metis slices_taken_step)
  qed
qed

lemma hevc_loop_result:
  assumes "buf_wf b" "b_type b = VAEncSliceParameterBufferType" "sz_hevc_slice abi \<le> unat (b_bytes b)" and "coding \<noteq> CodingAVC"
    and "\<forall>i \<in> set js. i < unat (b_num_elements b)" and "tiled c ss"
  shows "slices_taken c ss (map (slice_at abi coding b) js) (hevc_slice_loop abi b upr js c)"
  using assms(5,6)
proof (induction js arbitrary: c ss)
  case Nil
  then show ?case by (auto simp: slices_taken_def)
next
  case (Cons i js)
  let ?sl = "ld_hevc_slice abi (bytes_at b (i * unat (b_bytes b)) (sz_hevc_slice abi))"
  have rd: "mem_read (b_data b) (i * unat (b_bytes b)) (sz_hevc_slice abi) = Ok (bytes_at b (i * unat (b_bytes b)) (sz_hevc_slice abi))"
    using element_read [OF assms(1,2,3)] Cons.prems(1) by simp
  have at: "slice_at abi coding b i = (hl_slice_segment_address ?sl, hl_num_ctu_in_slice ?sl)"
    using assms(4) by (simp add: slice_at_def Let_def)
  show ?case
  proof (cases "(enc_slice_count c \<noteq> 0 \<and> (\<not> hevc_slices_compatible (enc_hevc_slice c) ?sl \<or> hl_last_slice_of_pic_flag (enc_hevc_slice c))) \<or>
      add_encoder_slice c (hl_slice_segment_address ?sl) (hl_num_ctu_in_slice ?sl) upr = None")
    case True
    then show ?thesis using slices_taken_refused [OF Cons.prems(2)] by (auto simp: rd Let_def split: option.split)
  next
    case False
    then obtain c1 where a: "add_encoder_slice c (hl_slice_segment_address ?sl) (hl_num_ctu_in_slice ?sl) upr = Some c1" by auto
    let ?c = "note_hevc_slice ?sl c1"
    have "tiled ?c (ss @ [slice_at abi coding b i])" using tiled_add [OF Cons.prems(2) a] by (simp add: at tiled_cong)
    from Cons.IH [OF _ this] Cons.prems(1)
    have "slices_taken ?c (ss @ [slice_at abi coding b i]) (map (slice_at abi coding b) js) (hevc_slice_loop abi b upr js ?c)"
      by simp
    moreover have "enc_frame_of ?c = enc_frame_of c" using add_slice_frame [OF a] by (simp add: enc_frame_of_def note_hevc_slice_def)
    moreover have "hevc_slice_loop abi b upr (i # js) c = hevc_slice_loop abi b upr js ?c" using False a by (auto simp: rd Let_def)
    ultimately show ?thesis unfolding list.map by (metis slices_taken_step)
  qed
qed


section \<open>Any parameter buffer\<close>

definition enc_ranges :: "enc_context \<Rightarrow> bool" where
  "enc_ranges c \<longleftrightarrow> unat (enc_fps_num c) \<le> 65535 \<and> unat (enc_fps_den c) \<le> 65535 \<and> unat (enc_bitrate c) \<le> INT_MAX"

text \<open>Picture, size and codec stay, the ranges too, and the slices of the buffer are added up to the first that is refused.\<close>

definition enc_renders :: "enc_context \<Rightarrow> (u32 \<times> u32) list \<Rightarrow> (u32 \<times> u32) list \<Rightarrow> (VAStatus \<times> enc_context) outcome \<Rightarrow> bool" where
  "enc_renders c ss new res \<longleftrightarrow> (\<exists>st c' k. res = Ok (st, c') \<and> e_coding c' = e_coding c \<and> e_render c' = e_render c \<and>
     e_width c' = e_width c \<and> e_height c' = e_height c \<and> (enc_ranges c \<longrightarrow> enc_ranges c') \<and>
     tiled c' (ss @ take k new) \<and> (st = VA_STATUS_SUCCESS \<longrightarrow> length new \<le> k))"

lemma enc_renders_Ok:
  assumes "tiled c ss" "e_coding c' = e_coding c" "e_render c' = e_render c" "e_width c' = e_width c" "e_height c' = e_height c"
    "enc_ranges c \<longrightarrow> enc_ranges c'" "enc_slice_count c' = enc_slice_count c" "enc_slice_units c' = enc_slice_units c"
    "enc_slice_unit_span c' = enc_slice_unit_span c" "enc_slice_last_units c' = enc_slice_last_units c"
  shows "enc_renders c ss [] (Ok (st, c'))"
proof -
  have "tiled c' ss" using assms(1) unfolding tiled_def assms(7-10) .
  with assms show ?thesis by (simp add: enc_renders_def)
qed

lemma enc_renders_if: "enc_renders c ss new (if P then x else y) = (if P then enc_renders c ss new x else enc_renders c ss new y)"
  by simp

lemma slices_taken_renders:
  assumes "slices_taken c ss new res"
  shows "enc_renders c ss new (obind res (\<lambda>(st, c). Ok (st, if st = VA_STATUS_SUCCESS then c\<lparr>has_enc_slice := True\<rparr> else c)))"
proof -
  from assms obtain st c' k where r: "res = Ok (st, c')" "enc_frame_of c' = enc_frame_of c" "tiled c' (ss @ take k new)"
      "st = VA_STATUS_SUCCESS \<longrightarrow> length new \<le> k" unfolding slices_taken_def by blast
  then show ?thesis unfolding enc_renders_def
    by (intro exI [of _ st] exI [of _ "if st = VA_STATUS_SUCCESS then c'\<lparr>has_enc_slice := True\<rparr> else c'"] exI [of _ k])
      (auto simp: enc_frame_of_def enc_ranges_def tiled_cong)
qed

lemma parameter_reads:
  assumes "buf_wf b" and "b_type b \<in> {VAEncSequenceParameterBufferType, VAEncPictureParameterBufferType, VAEncMiscParameterBufferType}"
  shows "n \<le> b_total b \<Longrightarrow> mem_read (b_data b) 0 n = Ok (bytes_at b 0 n)"
    and "m + n \<le> b_total b \<Longrightarrow> mem_read (b_data b) m n = Ok (bytes_at b m n)"
  using bytes_at_read [OF assms(1)] assms(2) by auto

lemma render_slices_result:
  assumes "buf_wf b" and "b_type b = VAEncSliceParameterBufferType" and "tiled c ss" and "e_render c = Some s"
  shows "enc_renders c ss (buffer_slices abi (e_coding c) b) (render_slices abi b c)"
proof -
  let ?js = "[0..<unat (b_num_elements b)]"
  have js: "\<forall>i \<in> set ?js. i < unat (b_num_elements b)" by simp
  have new: "buffer_slices abi (e_coding c) b = map (slice_at abi (e_coding c) b) ?js" using assms(2) by (simp add: buffer_slices_def)
  note refused = slices_taken_refused [OF assms(3), of VA_STATUS_ERROR_INVALID_BUFFER, THEN slices_taken_renders, simplified]
  note avc = h264_loop_result [OF assms(1,2) _ js assms(3), of abi] and hevc = hevc_loop_result [OF assms(1,2) _ _ js assms(3), of abi "e_coding c"]
  show ?thesis
  proof (cases "e_coding c = CodingAVC")
    case True
    then show ?thesis unfolding new using refused slices_taken_renders [OF avc]
      by (auto simp: render_slices_def)
  next
    case False
    then show ?thesis unfolding new using refused slices_taken_renders [OF hevc [OF _ False]] assms(4)
      by (auto simp: render_slices_def Let_def)
  qed
qed

lemma low_half: "unat (w AND 0xffff :: u32) \<le> 65535" "unat (drop_bit 16 w :: u32) \<le> 65535"
proof -
  have "unat (take_bit 16 w :: u32) < 2 ^ 16" using take_bit_nat_less_exp [of 16 "unat w"] by (simp add: unsigned_take_bit_eq)
  moreover have "w AND 0xffff = take_bit 16 w" by (simp add: take_bit_eq_mask mask_eq_exp_minus_1)
  ultimately show "unat (w AND 0xffff) \<le> 65535" by simp
  have "unat w < 4294967296" by (rule order_less_le_trans [OF unsigned_less]) simp
  then have "unat w div 65536 < 65536" by (intro less_mult_imp_div_less) simp
  then show "unat (drop_bit 16 w) \<le> 65535" by (simp add: drop_bit_eq_div unat_div)
qed

lemma render_buffer_result:
  assumes "buf_wf b" and "tiled c ss" and "e_render c = Some s"
  shows "enc_renders c ss (buffer_slices abi (e_coding c) b) (rk_mpp_enc_render_buffer abi c b)"
proof (cases "b_type b = VAEncSliceParameterBufferType")
  case True
  then show ?thesis using render_slices_result [OF assms(1) True assms(2,3)] by (simp add: rk_mpp_enc_render_buffer_def)
next
  case False
  then have new: "buffer_slices abi (e_coding c) b = []" by (simp add: buffer_slices_def)
  note rd = parameter_reads [OF assms(1)]
  note ok = enc_renders_Ok [OF assms(2)]
  consider (seq) "b_type b = VAEncSequenceParameterBufferType" | (pic) "b_type b = VAEncPictureParameterBufferType"
    | (misc) "b_type b = VAEncMiscParameterBufferType"
    | (other) "b_type b \<notin> {VAEncSequenceParameterBufferType, VAEncPictureParameterBufferType, VAEncMiscParameterBufferType}" by blast
  then have "enc_renders c ss [] (rk_mpp_enc_render_buffer abi c b)"
  proof cases
    case seq
    then show ?thesis
      by (cases "e_coding c = CodingAVC"; cases "b_total b < (if e_coding c = CodingAVC then sz_seq abi else sz_hevc_seq abi)")
        (simp_all add: rk_mpp_enc_render_buffer_def render_seq_h264_def render_seq_hevc_def rd Let_def enc_ranges_def ok enc_renders_if
          cong: if_cong split del: if_split)
  next
    case pic
    then show ?thesis
      by (cases "e_coding c = CodingAVC"; cases "b_total b < (if e_coding c = CodingAVC then sz_pic abi else sz_hevc_pic abi)")
        (simp_all add: rk_mpp_enc_render_buffer_def render_pic_h264_def render_pic_hevc_def rd Let_def enc_ranges_def ok enc_renders_if
          cong: if_cong split del: if_split)
  next
    case misc
    then show ?thesis
      by (cases "b_total b < sz_misc abi"; cases "ld_misc abi (bytes_at b 0 (sz_misc abi))";
          cases "b_total b < sz_misc abi + sz_rate_control abi"; cases "b_total b < sz_misc abi + sz_frame_rate abi")
        (auto simp: rk_mpp_enc_render_buffer_def render_misc_def rd Let_def not_less enc_ranges_def low_half intro!: ok)
  next
    case other
    with False show ?thesis by (auto simp: rk_mpp_enc_render_buffer_def intro!: ok)
  qed
  then show ?thesis unfolding new .
qed


section \<open>Whole pictures\<close>

lemma render_encode_loop_result:
  assumes "drv_inv d"
  shows "tiled c ss \<Longrightarrow> e_render c = Some s \<Longrightarrow> \<exists>st c' new. render_encode_loop abi ids c d = Ok (st, c', d) \<and>
     e_coding c' = e_coding c \<and> e_render c' = Some s \<and> e_width c' = e_width c \<and> e_height c' = e_height c \<and>
     (enc_ranges c \<longrightarrow> enc_ranges c') \<and> tiled c' (ss @ new) \<and>
     (st = VA_STATUS_SUCCESS \<longrightarrow> new = concat (map (buffer_slices abi (e_coding c)) (shown_buffers d ids)))"
proof (induction ids arbitrary: c ss)
  case Nil
  then show ?case by (intro exI [of _ VA_STATUS_SUCCESS] exI [of _ c] exI [of _ "[]"]) simp
next
  case (Cons i ids)
  show ?case
  proof (cases "seen d i")
    case None
    with Cons.prems show ?thesis
      by (intro exI [of _ VA_STATUS_ERROR_INVALID_BUFFER] exI [of _ c] exI [of _ "[]"]) (simp add: visit_seen [OF assms])
  next
    case (Some b)
    from render_buffer_result [OF seen_wf [OF assms Some] Cons.prems, of abi] obtain st c1 k where
      r: "rk_mpp_enc_render_buffer abi c b = Ok (st, c1)" "e_coding c1 = e_coding c" "e_render c1 = Some s" "e_width c1 = e_width c"
        "e_height c1 = e_height c" "enc_ranges c \<longrightarrow> enc_ranges c1" "tiled c1 (ss @ take k (buffer_slices abi (e_coding c) b))"
        "st = VA_STATUS_SUCCESS \<longrightarrow> length (buffer_slices abi (e_coding c) b) \<le> k"
      unfolding enc_renders_def Cons.prems(2) by blast
    show ?thesis
    proof (cases "st = VA_STATUS_SUCCESS")
      case False
      with r Some show ?thesis
        by (intro exI [of _ st] exI [of _ c1] exI [of _ "take k (buffer_slices abi (e_coding c) b)"]) (simp add: visit_seen [OF assms])
    next
      case True
      with r(7,8) have t: "tiled c1 (ss @ buffer_slices abi (e_coding c) b)" by simp
      from Cons.IH [OF this r(3)] obtain st2 c2 new where
        r2: "render_encode_loop abi ids c1 d = Ok (st2, c2, d)" "e_coding c2 = e_coding c1" "e_render c2 = Some s" "e_width c2 = e_width c1"
          "e_height c2 = e_height c1" "enc_ranges c1 \<longrightarrow> enc_ranges c2" "tiled c2 ((ss @ buffer_slices abi (e_coding c) b) @ new)"
          "st2 = VA_STATUS_SUCCESS \<longrightarrow> new = concat (map (buffer_slices abi (e_coding c1)) (shown_buffers d ids))" by blast
      then show ?thesis using r True Some
        by (intro exI [of _ st2] exI [of _ c2] exI [of _ "buffer_slices abi (e_coding c) b @ new"]) (simp add: visit_seen [OF assms])
    qed
  qed
qed

definition picture_units :: "enc_context \<Rightarrow> enc_surface \<Rightarrow> nat" where
  "picture_units c s =
     (if e_coding c = CodingAVC then nat ((e_width c + 15) div 16) * nat ((e_height c + 15) div 16)
      else let ctu = unat (hevc_ctu_size c)
           in ((nat (v_width s) + ctu - 1) div ctu) * ((nat (v_height s) + ctu - 1) div ctu))"

lemma sum_no_wrap: "a < 256 \<Longrightarrow> b < 256 \<Longrightarrow> ((3 + a) mod 4294967296 + b) mod 4294967296 = 3 + a + (b :: nat)"
  by simp

lemma unat_of_int_small: "0 \<le> k \<Longrightarrow> k < 4294967296 \<Longrightarrow> unat (word_of_int k :: u32) = nat k"
  by (simp add: unsigned_of_int take_bit_int_eq_self)

lemma ctu_range:
  assumes "hevc_ctu_size c \<noteq> 0"
  shows "8 \<le> unat (hevc_ctu_size c)" "unat (hevc_ctu_size c) \<le> 64"
proof -
  let ?seq = "enc_hevc_seq c"
  let ?l = "3 + ucast (hq_log2_min_luma_coding_block_size_minus3 ?seq) + ucast (hq_log2_diff_max_min_luma_coding_block_size ?seq) :: u32"
  let ?a = "unat (hq_log2_min_luma_coding_block_size_minus3 ?seq)" and ?b = "unat (hq_log2_diff_max_min_luma_coding_block_size ?seq)"
  have "unat ?l = 3 + ?a + ?b" using sum_no_wrap [of ?a ?b] by (simp add: unat_word_ariths(1))
  moreover from assms have l: "?l \<le> 6" "hevc_ctu_size c = push_bit (unat ?l) 1" by (auto simp: hevc_ctu_size_def Let_def split: if_splits)
  ultimately have "unat ?l \<in> {3, 4, 5, 6}" by (auto simp: word_le_nat_alt)
  then show "8 \<le> unat (hevc_ctu_size c)" "unat (hevc_ctu_size c) \<le> 64" unfolding l(2) by auto
qed

lemma ceil_div_word:
  fixes ctu :: u32
  assumes "0 \<le> w" "w \<le> 32768" "8 \<le> unat ctu" "unat ctu \<le> 64"
  shows "unat ((word_of_int w + ctu - 1) div ctu) = (nat w + unat ctu - 1) div unat ctu"
    and "(nat w + unat ctu - 1) div unat ctu \<le> 32831"
proof -
  have w: "unat (word_of_int w :: u32) = nat w" using assms(1,2) by (intro unat_of_int_small) auto
  then have a: "unat (word_of_int w + ctu) = nat w + unat ctu" using assms by (simp add: unat_word_ariths(1))
  have "(1 :: u32) \<le> word_of_int w + ctu" using assms(3) by (simp add: word_le_nat_alt a)
  then have "unat (word_of_int w + ctu - 1) = nat w + unat ctu - 1" by (simp add: unat_sub a)
  then show "unat ((word_of_int w + ctu - 1) div ctu) = (nat w + unat ctu - 1) div unat ctu" by (simp add: unat_div)
  have "(nat w + unat ctu - 1) div unat ctu \<le> nat w + unat ctu - 1" by (rule div_le_dividend)
  then show "(nat w + unat ctu - 1) div unat ctu \<le> 32831" using assms by linarith
qed

lemma request_covers:
  assumes "encode_request c s = Some r" and "0 < e_width c" "e_width c \<le> 32768" "0 < e_height c" "e_height c \<le> 32768"
    and "0 < v_width s" "v_width s \<le> 32768" "0 < v_height s" "v_height s \<le> 32768"
  shows "unat (enc_slice_units c) = picture_units c s"
proof (cases "e_coding c = CodingAVC")
  case True
  let ?k = "((e_width c + 15) div 16) * ((e_height c + 15) div 16)"
  have d: "0 \<le> (e_width c + 15) div 16" "(e_width c + 15) div 16 \<le> 2048" "0 \<le> (e_height c + 15) div 16" "(e_height c + 15) div 16 \<le> 2048"
    using assms(2-5) by auto
  then have "0 \<le> ?k" by simp
  have "?k \<le> 2048 * 2048" using d by (intro mult_mono) auto
  with \<open>0 \<le> ?k\<close> have "unat (word_of_int ?k :: u32) = nat ?k" by (intro unat_of_int_small) auto
  moreover have "enc_slice_units c = word_of_int ?k" using assms(1) True by (auto simp: encode_request_def split: if_splits)
  ultimately show ?thesis using True d by (simp add: picture_units_def nat_mult_distrib)
next
  case False
  let ?ctu = "hevc_ctu_size c"
  from assms(1) False have z: "?ctu \<noteq> 0" and u: "enc_slice_units c =
      (word_of_int (v_width s) + ?ctu - 1) div ?ctu * ((word_of_int (v_height s) + ?ctu - 1) div ?ctu)"
    by (auto simp: encode_request_def Let_def split: if_splits)
  note c = ctu_range [OF z]
  note w = ceil_div_word [OF _ assms(7) c] and h = ceil_div_word [OF _ assms(9) c]
  have "((nat (v_width s) + unat ?ctu - 1) div unat ?ctu) * ((nat (v_height s) + unat ?ctu - 1) div unat ?ctu) \<le> 32831 * 32831"
    using w(2) h(2) assms(6,8) by (intro mult_mono) auto
  then show ?thesis unfolding u using w(1) h(1) assms(6,8) False by (simp add: unat_word_ariths(2) picture_units_def Let_def)
qed


section \<open>The coded buffer\<close>

lemma with_buffer_seen:
  assumes "drv_inv d"
  shows "seen d i = None \<Longrightarrow> with_buffer d i body = Ok (Inl VA_STATUS_ERROR_INVALID_BUFFER, d)"
    and "seen d i = Some b \<Longrightarrow> (\<And>p d'. d_buf d' p = Some b \<Longrightarrow> body p b d' = Ok (r, buffer_set p b' d')) \<Longrightarrow>
      \<exists>p. heap_find (d_buffer_heap d) i = Some p \<and> d_buf d p = Some b \<and> obj_refs (d_objs d) p \<noteq> - 1 \<and>
          with_buffer d i body = Ok (r, buffer_set p b' d)"
proof -
  have h: "handles_ok (d_buffer_heap d) (d_buf d) (obj_refs (d_objs d))" using assms by (simp add: drv_inv_def)
  have acq: "buffer_acquire d i = Ok (case heap_find (d_buffer_heap d) i of None \<Rightarrow> (None, d)
      | Some p \<Rightarrow> (case rk_object_ref p (d_objs d) of (ok, objs) \<Rightarrow> (if ok then Some p else None, d\<lparr>d_objs := objs\<rparr>)))"
    using h by (auto simp: buffer_acquire_def heap_acquire_find handles_ok_def split: option.split prod.split)
  have ref: "\<exists>objs. rk_object_ref p (d_objs d) = (obj_refs (d_objs d) p \<noteq> - 1, objs) \<and> (obj_refs (d_objs d) p = - 1 \<longrightarrow> objs = d_objs d)"
    if "heap_find (d_buffer_heap d) i = Some p" for p
    using handles_named [OF h that] by (auto simp: rk_object_ref_def Let_def)
  show "seen d i = None \<Longrightarrow> with_buffer d i body = Ok (Inl VA_STATUS_ERROR_INVALID_BUFFER, d)"
    using acq ref handles_named [OF h, of i] by (fastforce simp: with_buffer_def seen_def split: option.splits if_splits)
  assume s: "seen d i = Some b" and body: "\<And>p d'. d_buf d' p = Some b \<Longrightarrow> body p b d' = Ok (r, buffer_set p b' d')"
  from s obtain p where p: "heap_find (d_buffer_heap d) i = Some p" "d_buf d p = Some b" "obj_refs (d_objs d) p \<noteq> - 1"
    by (auto simp: seen_def split: option.splits if_splits)
  from ref [OF p(1)] p(3) obtain objs where o: "rk_object_ref p (d_objs d) = (True, objs)" by auto
  have "buffer_unref p (buffer_set p b' (d\<lparr>d_objs := objs\<rparr>)) = Ok (buffer_set p b' d)"
    using buffer_unref_acquired [of "buffer_set p b' (d\<lparr>d_objs := objs\<rparr>)" p b' "d_objs d" objs] o by (simp add: buffer_set_def)
  with p acq o body [of "d\<lparr>d_objs := objs\<rparr>" p] show "\<exists>p. heap_find (d_buffer_heap d) i = Some p \<and> d_buf d p = Some b \<and>
      obj_refs (d_objs d) p \<noteq> - 1 \<and> with_buffer d i body = Ok (r, buffer_set p b' d)"
    by (simp add: with_buffer_def buffer_at_def)
qed

text \<open>The events of a call: every frame and every packet it obtained is given back.\<close>

definition released :: "enc_event list \<Rightarrow> bool" where
  "released evs \<longleftrightarrow> count_list evs Ev_Frame_Init = count_list evs Ev_Frame_Deinit \<and>
     count_list evs Ev_Packet = count_list evs Ev_Packet_Deinit"

lemma encode_frame_result:
  assumes "encode_frame e c s idr m = (r, evs, m')"
  shows "released evs" and "r = Some bytes \<Longrightarrow> bytes \<noteq> [] \<and> int (length bytes) \<le> uint (- 1 :: u32)"
proof -
  have 1: "fst (submit_frame e idr f m) = Some bs \<Longrightarrow> bs \<noteq> [] \<and> int (length bs) \<le> uint (- 1 :: u32)" for f m bs
    by (simp add: submit_frame_def split: prod.splits option.splits if_splits)
  have 2: "fst (snd (submit_frame e idr f m)) \<in> {[], [Ev_Packet, Ev_Packet_Deinit]}" for f m
    by (simp add: submit_frame_def split: prod.split option.split)
  have 3: "evs = [] \<and> r = None \<or> (\<exists>f m evs0 m1. submit_frame e idr f m = (r, evs0, m1) \<and> evs = Ev_Frame_Init # evs0 @ [Ev_Frame_Deinit])"
    using assms by (auto simp: encode_frame_def Let_def split: prod.splits option.splits if_splits; blast)
  then show "released evs"
  proof
    assume "\<exists>f m evs0 m1. submit_frame e idr f m = (r, evs0, m1) \<and> evs = Ev_Frame_Init # evs0 @ [Ev_Frame_Deinit]"
    then obtain f m evs0 m1 where "submit_frame e idr f m = (r, evs0, m1)" "evs = Ev_Frame_Init # evs0 @ [Ev_Frame_Deinit]" by blast
    with 2 [of f m] show ?thesis by (auto simp: released_def)
  qed (simp add: released_def)
  assume "r = Some bytes"
  with 3 obtain f m evs0 m1 where "submit_frame e idr f m = (Some bytes, evs0, m1)" by blast
  with 1 [of f m bytes] show "bytes \<noteq> [] \<and> int (length bytes) \<le> uint (- 1 :: u32)" by simp
qed

text \<open>What the coded buffer says after a call with status \<open>st\<close>, where MPP produced \<open>r\<close>.\<close>

definition coded_reports :: "u8 list option \<Rightarrow> VAStatus \<Rightarrow> RKBuffer \<Rightarrow> bool" where
  "coded_reports r st b \<longleftrightarrow> b_coded_ready b \<and> (b_coded_failed b \<longleftrightarrow> st \<noteq> VA_STATUS_SUCCESS) \<and>
     (st = VA_STATUS_SUCCESS \<longleftrightarrow> (\<exists>bytes. r = Some bytes \<and> length bytes \<le> unat (b_capacity b))) \<and>
     (\<forall>bytes. st = VA_STATUS_SUCCESS \<longrightarrow> r = Some bytes \<longrightarrow> take (length bytes) (content b) = bytes \<and>
        seg_size (b_segment b) = of_nat (length bytes))"

lemma encode_call_result:
  assumes "buf_wf b" and "b_type b = VAEncCodedBufferType" and "encode_frame e c s idr m = (r, evs, m')"
  shows "\<exists>st b'. (\<forall>p d. encode_call e c s idr m p b d = Ok (Inr (st, evs, m'), buffer_set p b' d)) \<and>
     buf_keeps True b b' \<and> coded_reports r st b'"
proof -
  let ?b = "b\<lparr>b_coded_ready := False, b_coded_failed := False\<rparr>"
  have k: "buf_keeps True b ?b" "buf_wf ?b" using assms(1) by (simp_all add: buf_keeps_def buf_wf_def b_surface_def)
  show ?thesis
  proof (cases r)
    case None
    let ?b' = "?b\<lparr>b_coded_ready := True, b_coded_failed := True\<rparr>"
    have "buf_keeps True b ?b'" by (simp add: buf_keeps_def buf_wf_def b_surface_def)
    with None assms show ?thesis
      by (intro exI [of _ VA_STATUS_ERROR_ENCODING_ERROR] exI [of _ ?b']) (simp add: encode_call_def coded_reports_def)
  next
    case (Some bytes)
    show ?thesis
    proof (cases "length bytes \<le> unat (b_capacity b)")
      case False
      let ?b' = "?b\<lparr>b_segment := (b_segment ?b)\<lparr>seg_size := 0, seg_status := Coded_Overflow\<rparr>, b_coded_ready := True, b_coded_failed := True\<rparr>"
      have "buf_keeps True b ?b'" by (simp add: buf_keeps_def buf_wf_def b_surface_def)
      with Some False assms show ?thesis
        by (intro exI [of _ VA_STATUS_ERROR_NOT_ENOUGH_BUFFER] exI [of _ ?b'])
          (simp add: encode_call_def coded_reports_def rk_buffer_store_coded_def)
    next
      case True
      obtain st b' where st: "rk_buffer_store_coded ?b bytes 0 = Ok (st, b')" "buf_keeps True ?b b'" by (rule store_coded_keeps [OF k(2)])
      then obtain mm where w: "mem_write (b_data b) 0 bytes = Ok mm" "st = VA_STATUS_SUCCESS" "b_data b' = mm" "b_capacity b' = b_capacity b"
          "b_coded_ready b'" "\<not> b_coded_failed b'" "seg_size (b_segment b') = of_nat (length bytes)"
        using True assms(2) by (auto simp: rk_buffer_store_coded_def)
      have "take (length bytes) (content b') = bytes" unfolding content_def w(3,4)
        using True w(1) by (auto simp: mem_write_def take_map comp_def split: if_splits)
      with w st(2) k(1) Some assms True show ?thesis
        by (intro exI [of _ st] exI [of _ b']) (auto simp: encode_call_def coded_reports_def st(1) intro: buf_keeps_trans)
    qed
  qed
qed


section \<open>Reachable contexts\<close>

inductive enc_reach :: "enc_abi \<Rightarrow> enc_context \<Rightarrow> bool" for abi where
  reach_start: "enc_bitrate c = 0 \<Longrightarrow> enc_fps_num c = 0 \<Longrightarrow> enc_fps_den c = 0 \<Longrightarrow> enc_slice_count c = 0 \<Longrightarrow> enc_slice_units c = 0 \<Longrightarrow>
     e_render c = None \<Longrightarrow> enc_reach abi c"
| reach_begin: "enc_reach abi c \<Longrightarrow> begin_encode c s = (st, c') \<Longrightarrow> enc_reach abi c'"
| reach_render: "enc_reach abi c \<Longrightarrow> drv_inv d \<Longrightarrow> render_encode abi ids c d = Ok (st, c', d') \<Longrightarrow> enc_reach abi c'"
| reach_end: "enc_reach abi c \<Longrightarrow> enc_reach abi (forget_slices (c\<lparr>e_render := None\<rparr>))"

lemma tiled_forget [simp]: "tiled (forget_slices c) []"
  by (simp add: tiled_def forget_slices_def)

lemma enc_ranges_forget [simp]: "enc_ranges (forget_slices c) = enc_ranges c" "enc_ranges (c\<lparr>e_render := x\<rparr>) = enc_ranges c"
  by (simp_all add: enc_ranges_def forget_slices_def)

lemma begin_encode_cases:
  assumes "begin_encode c s = (st, c')"
  shows "c' = c \<and> st \<noteq> VA_STATUS_SUCCESS \<or> c' = forget_slices (c\<lparr>e_render := Some s\<rparr>) \<and> st = VA_STATUS_SUCCESS"
  using assms by (auto simp: begin_encode_def Let_def split: if_splits)

lemma enc_reach_inv: "enc_reach abi c \<Longrightarrow> enc_ranges c \<and> (\<exists>ss. tiled c ss)"
proof (induction rule: enc_reach.induct)
  case (reach_start c)
  then show ?case by (auto simp: enc_ranges_def tiled_def intro: exI [of _ "[]"])
next
  case (reach_begin c s st c')
  with begin_encode_cases [OF reach_begin.hyps(2)] show ?case by (auto intro: exI [of _ "[]"])
next
  case (reach_render c d ids st c' d')
  then obtain ss where ss: "tiled c ss" by blast
  show ?case
  proof (cases "e_render c")
    case None
    with reach_render show ?thesis by (auto simp: render_encode_def)
  next
    case (Some s)
    from render_encode_loop_result [OF reach_render.hyps(2) ss Some, of abi ids] reach_render Some show ?thesis
      by (auto simp: render_encode_def)
  qed
next
  case (reach_end c)
  then show ?case by (auto intro: exI [of _ "[]"])
qed

lemma s32_small:
  assumes "unat (w :: u32) \<le> 65535"
  shows "sint w = int (unat w)"
proof -
  obtain n where n: "unat w = n" by simp
  have "signed_take_bit 31 (int n) = int n" using assms n by (intro signed_take_bit_int_eq_self) auto
  then show ?thesis by (simp only: sint_uint uint_nat n) simp
qed

lemma s32_large:
  assumes "unat (w :: u32) > INT_MAX"
  shows "sint w < 0"
proof -
  obtain n where n: "unat w = n" by simp
  have "n < 4294967296" unfolding n [symmetric] by (rule order_less_le_trans [OF unsigned_less]) simp
  with assms n have "int n div 2 ^ 31 = 1" by (simp add: INT_MAX_def)
  then have "bit (int n) 31" by (simp add: bit_iff_odd)
  then show ?thesis by (simp only: sint_uint uint_nat n signed_take_bit_negative_iff) simp
qed

lemma bounded_bitrate_mono: "x \<le> y \<Longrightarrow> bounded_bitrate x \<le> bounded_bitrate y" "1 \<le> bounded_bitrate x" "bounded_bitrate x \<le> 2147483647"
    "1 \<le> x \<Longrightarrow> x \<le> 2147483647 \<Longrightarrow> bounded_bitrate x = x"
  by (auto simp: bounded_bitrate_def)

lemma qp_range: "1 \<le> encoder_qp c" "encoder_qp c \<le> 51"
  by (auto simp: encoder_qp_def Let_def word_le_def)

definition settings :: "enc_context \<Rightarrow> string \<rightharpoonup> cfg_value" where
  "settings c = map_of (common_settings c @ codec_settings c @ rate_settings c)"

lemma common_lookup:
  "settings c ''rc:fps_in_num'' = Some (s32 (if enc_fps_num c \<noteq> 0 then enc_fps_num c else 30))"
  "settings c ''rc:fps_in_denom'' = Some (s32 (if enc_fps_den c \<noteq> 0 then enc_fps_den c else 1))"
  "settings c ''rc:qp_init'' = Some (S32 (encoder_qp c))"
  "settings c ''split:mode'' = Some (if enc_slice_count c > 1 then Split_By_Ctu else Split_None)"
  "settings c ''split:arg'' = Some (if enc_slice_count c > 1 then s32 (enc_slice_unit_span c) else S32 0)"
  by (simp_all add: settings_def common_settings_def Let_def)

lemma rate_lookup:
  assumes "mpp_rc_mode (e_rate_control c) \<noteq> RC_MODE_FIXQP"
  defines "k \<equiv> mpp_rc_mode (e_rate_control c) = RC_MODE_CBR" and "t \<equiv> target_bitrate c"
  shows "settings c ''rc:bps_target'' = Some (S32 t)"
    "settings c ''rc:bps_max'' = Some (S32 (bounded_bitrate (if k then t * 17 div 16 else t * 3 div 2)))"
    "settings c ''rc:bps_min'' = Some (S32 (bounded_bitrate (if k then t * 15 div 16 else t div 16)))"
  using assms(1) by (simp_all add: settings_def common_settings_def codec_settings_def rate_settings_def Let_def k_def t_def)

text \<open>A refused sequence stays in the context, and an earlier one keeps the context ready to encode.\<close>

lemma refused_sequence_in_force:
  assumes "buf_wf b" and "b_type b = VAEncSequenceParameterBufferType" and "e_coding c = CodingAVC" and "sz_seq abi \<le> b_total b"
    and "has_enc_seq c" and "unat (es_intra_period (ld_seq abi (bytes_at b 0 (sz_seq abi)))) > INT_MAX"
  shows "\<exists>c'. rk_mpp_enc_render_buffer abi c b = Ok (VA_STATUS_ERROR_INVALID_PARAMETER, c') \<and> has_enc_seq c' \<and>
     settings c' ''rc:gop'' = Some (s32 (es_intra_period (ld_seq abi (bytes_at b 0 (sz_seq abi))))) \<and>
     sint (es_intra_period (ld_seq abi (bytes_at b 0 (sz_seq abi)))) < 0"
proof -
  let ?p = "es_intra_period (ld_seq abi (bytes_at b 0 (sz_seq abi)))"
  have "?p \<noteq> 0" using assms(6) by auto
  moreover have "sint ?p < 0" by (rule s32_large) (rule assms(6))
  ultimately show ?thesis using assms parameter_reads(1) [OF assms(1), of "sz_seq abi"]
    by (simp add: rk_mpp_enc_render_buffer_def render_seq_h264_def Let_def settings_def common_settings_def encoder_gop_def)
qed


section \<open>Properties\<close>

text \<open>
  C21: the slices of an encoded picture are exactly what MPP is told to make. After a picture was begun,
  the slice parameters that \<open>rk_RenderPicture\<close> accepted, over any number of buffers and whatever other
  parameters come in between, are the picture's units cut every \<open>enc_slice_unit_span\<close> units, the value
  passed as \<open>split:arg\<close>: contiguous from 0, of equal size but for a shorter last one. When the encoder then
  accepts the picture these units are all macroblocks or coding tree units of the picture. No call reads
  outside a buffer.
\<close>

theorem encoder_slices_exact:
  assumes "drv_inv d" and "begin_encode c0 s = (VA_STATUS_SUCCESS, c)"
    and "0 < e_width c0" "e_width c0 \<le> 32768" "0 < e_height c0" "e_height c0 \<le> 32768"
    and "0 < v_width s" "v_width s \<le> 32768" "0 < v_height s" "v_height s \<le> 32768"
  shows "\<exists>st c'. render_encode abi ids c d = Ok (st, c', d) \<and>
     (st = VA_STATUS_SUCCESS \<longrightarrow> map (map_prod unat unat) (concat (map (buffer_slices abi (e_coding c)) (shown_buffers d ids))) =
        split_units (unat (enc_slice_units c')) (unat (enc_slice_unit_span c'))) \<and>
     (encode_request c' s \<noteq> None \<longrightarrow> unat (enc_slice_units c') = picture_units c' s)"
proof -
  have c: "c = forget_slices (c0\<lparr>e_render := Some s\<rparr>)" using begin_encode_cases [OF assms(2)] by simp
  then have t: "tiled c []" "e_render c = Some s" "e_width c = e_width c0" "e_height c = e_height c0"
    by simp (simp_all add: c forget_slices_def)
  from render_encode_loop_result [OF assms(1) t(1,2), of abi ids] obtain st c' new where
    r: "render_encode_loop abi ids c d = Ok (st, c', d)" "e_width c' = e_width c" "e_height c' = e_height c" "tiled c' new"
      "st = VA_STATUS_SUCCESS \<longrightarrow> new = concat (map (buffer_slices abi (e_coding c)) (shown_buffers d ids))" by auto
  have "unat (enc_slice_units c') = picture_units c' s" if "encode_request c' s = Some q" for q
    by (rule request_covers [OF that]) (use assms(3-10) r(2,3) t(3,4) in simp_all)
  with r t(2) tiled_split [OF r(4)] show ?thesis
    by (intro exI [of _ st] exI [of _ c']) (auto simp: render_encode_def)
qed

definition demo_enc_abi :: enc_abi where
  "demo_enc_abi = \<lparr>sz_seq = 1, ld_seq = (\<lambda>xs. \<lparr>es_picture_width_in_mbs = 2, es_picture_height_in_mbs = 2, es_intra_period = 30,
       es_bits_per_second = 0, es_level_idc = 40\<rparr>),
     sz_pic = 1, ld_pic = (\<lambda>xs. \<lparr>ep_coded_buf = 0, ep_pic_init_qp = hd xs, ep_idr_pic_flag = False, ep_entropy_coding_mode_flag = True,
       ep_transform_8x8_mode_flag = False\<rparr>),
     sz_slice = 2, ld_slice = (\<lambda>xs. \<lparr>el_macroblock_address = ucast (xs ! 0), el_num_macroblocks = ucast (xs ! 1), el_slice_type = 2\<rparr>),
     sz_hevc_seq = 1, ld_hevc_seq = (\<lambda>_. undefined), sz_hevc_pic = 1, ld_hevc_pic = (\<lambda>_. undefined),
     sz_hevc_slice = 1, ld_hevc_slice = (\<lambda>_. undefined), sz_misc = 1, ld_misc = (\<lambda>_. Misc_FrameRate), sz_rate_control = 1,
     ld_bits_per_second = (\<lambda>xs. ucast (hd xs)), sz_frame_rate = 1, ld_framerate = (\<lambda>xs. ucast (hd xs))\<rparr>"

definition demo_encoder :: enc_context where
  "demo_encoder =
     \<lparr>e_coding = CodingAVC, e_profile = VAProfileH264High, e_rate_control = VA_RC_CBR, e_width = 32, e_height = 32,
      enc_seq = ld_seq demo_enc_abi [], enc_pic = ld_pic demo_enc_abi [26], enc_slice = ld_slice demo_enc_abi [0, 0],
      enc_hevc_seq = undefined, enc_hevc_pic = undefined, enc_hevc_slice = undefined, has_enc_seq = False, has_enc_pic = False,
      has_enc_slice = False, enc_slice_count = 0, enc_slice_units = 0, enc_slice_unit_span = 0, enc_slice_last_units = 0,
      enc_bitrate = 0, enc_fps_num = 0, enc_fps_den = 0, e_render = None\<rparr>"

definition demo_input :: enc_surface where
  "demo_input = \<lparr>v_width = 32, v_height = 32, v_hstride = 32, v_vstride = 32, v_fmt_10bit = False, v_import_buf = False,
     v_priv_buf = True, v_imported_rgb = False, v_imported_multiplane = False\<rparr>"

lemma demo_encoder_begins:
  "begin_encode demo_encoder demo_input = (VA_STATUS_SUCCESS, forget_slices (demo_encoder\<lparr>e_render := Some demo_input\<rparr>))"
  by (simp add: begin_encode_def demo_encoder_def demo_input_def)

definition demo_slices :: "RKDriver outcome" where
  "demo_slices = buf_run [Op_Create demo_mem VAEncSliceParameterBufferType 2 2 (Some [0, 2, 2, 2])] driver_start"

definition demo_begun :: enc_context where
  "demo_begun = forget_slices (demo_encoder\<lparr>e_render := Some demo_input\<rparr>)"

theorem encoder_slices_exact_witness:
  "\<exists>d c'. demo_slices = Ok d \<and> render_encode demo_enc_abi [0x40100000] demo_begun d = Ok (VA_STATUS_SUCCESS, c', d) \<and>
     [(0, 2), (2, 2)] = split_units (unat (enc_slice_units c')) (unat (enc_slice_unit_span c'))"
proof -
  obtain d where d: "demo_slices = Ok d" "drv_inv d"
    using buf_run_well [OF driver_start_inv, of "[Op_Create demo_mem VAEncSliceParameterBufferType 2 2 (Some [0, 2, 2, 2])]"]
    by (auto simp: demo_slices_def)
  have "case demo_slices of Ok d \<Rightarrow>
     (case render_encode demo_enc_abi [0x40100000] demo_begun d of Ok (st, _, _) \<Rightarrow> st = VA_STATUS_SUCCESS | _ \<Rightarrow> False) \<and>
     map (map_prod unat unat) (concat (map (buffer_slices demo_enc_abi (e_coding demo_begun)) (shown_buffers d [0x40100000]))) = [(0, 2), (2, 2)]
     | _ \<Rightarrow> False" by code_simp
  then have e: "case render_encode demo_enc_abi [0x40100000] demo_begun d of Ok (st, _, _) \<Rightarrow> st = VA_STATUS_SUCCESS | _ \<Rightarrow> False"
    "map (map_prod unat unat) (concat (map (buffer_slices demo_enc_abi (e_coding demo_begun)) (shown_buffers d [0x40100000]))) = [(0, 2), (2, 2)]"
    unfolding d(1) by simp_all
  from encoder_slices_exact [OF d(2) demo_encoder_begins [folded demo_begun_def], of demo_enc_abi "[0x40100000]"]
  obtain st c' where "render_encode demo_enc_abi [0x40100000] demo_begun d = Ok (st, c', d)"
    "st = VA_STATUS_SUCCESS \<longrightarrow> [(0, 2), (2, 2)] = split_units (unat (enc_slice_units c')) (unat (enc_slice_unit_span c'))"
    unfolding e(2) by (auto simp: demo_encoder_def demo_input_def)
  with e(1) d(1) show ?thesis by auto
qed

lemma encode_result:
  assumes "drv_inv d"
  shows "\<exists>r d'. rk_mpp_enc_encode e c d m = Ok (r, d') \<and> drv_inv d' \<and>
     (case r of
        Inl st \<Rightarrow> st \<noteq> VA_STATUS_SUCCESS \<and> d' = d
      | Inr (st, evs, m') \<Rightarrow> released evs \<and> (\<exists>s coded_id idr packet b. e_render c = Some s \<and>
          encode_request c s = Some (coded_id, idr) \<and> encode_frame e c s idr m = (packet, evs, m') \<and>
          seen d' coded_id = Some b \<and> coded_reports packet st b))"
proof (cases "\<exists>s i idr. e_render c = Some s \<and> has_enc_seq c \<and> has_enc_pic c \<and> has_enc_slice c \<and> encode_request c s = Some (i, idr)")
  case False
  then have "rk_mpp_enc_encode e c d m = Ok (Inl VA_STATUS_ERROR_INVALID_PARAMETER, d)"
    by (auto simp: rk_mpp_enc_encode_def split: option.split)
  with assms show ?thesis by simp
next
  case True
  then obtain s i idr where q: "e_render c = Some s" "encode_request c s = Some (i, idr)"
    and e: "rk_mpp_enc_encode e c d m = with_buffer d i (encode_call e c s idr m)" by (auto simp: rk_mpp_enc_encode_def)
  show ?thesis
  proof (cases "seen d i")
    case None
    with e assms with_buffer_seen(1) [OF assms None, of "encode_call e c s idr m"] show ?thesis by simp
  next
    case (Some b)
    note wf = seen_wf [OF assms Some]
    show ?thesis
    proof (cases "b_type b = VAEncCodedBufferType")
      case False
      then have "\<And>p d'. d_buf d' p = Some b \<Longrightarrow> encode_call e c s idr m p b d' = Ok (Inl VA_STATUS_ERROR_INVALID_BUFFER, buffer_set p b d')"
        by (simp add: encode_call_def buffer_set_same)
      from with_buffer_seen(2) [OF assms Some, where body = "encode_call e c s idr m", OF this] e assms show ?thesis by (auto simp: buffer_set_same)
    next
      case True
      obtain packet evs m' where f: "encode_frame e c s idr m = (packet, evs, m')" by (cases "encode_frame e c s idr m")
      from encode_call_result [OF wf True f] obtain st b' where
        b': "\<And>p d. encode_call e c s idr m p b d = Ok (Inr (st, evs, m'), buffer_set p b' d)" "buf_keeps True b b'" "coded_reports packet st b'"
        by blast
      from with_buffer_seen(2) [OF assms Some, where body = "encode_call e c s idr m", OF b'(1)] obtain p where
        p: "heap_find (d_buffer_heap d) i = Some p" "d_buf d p = Some b" "obj_refs (d_objs d) p \<noteq> - 1"
          "with_buffer d i (encode_call e c s idr m) = Ok (Inr (st, evs, m'), buffer_set p b' d)" by blast
      have "seen (buffer_set p b' d) i = Some b'" using p(1,3) by (simp add: seen_def)
      with p e q f b'(3) drv_inv_set [OF assms p(2) b'(2), of "[]"] encode_frame_result(1) [OF f] show ?thesis
        by (intro exI [of _ "Inr (st, evs, m')"] exI [of _ "buffer_set p b' d"]) simp
    qed
  qed
qed

text \<open>
  C22: an encode call always settles its coded buffer. Whatever MPP and the converters do, the end of a
  picture either refuses without touching any buffer, or leaves the buffer ready: marked as failed exactly
  when the status is an error, and otherwise holding exactly the bytes of MPP's packet with their length.
  The status is success exactly when a packet was produced that fits. Every frame and packet is
  released, the buffers stay consistent, and the next picture starts with no slices.
\<close>

theorem encode_settles_buffer:
  assumes "drv_inv d"
  shows "\<exists>r c' d'. end_encode e c d m = Ok (r, c', d') \<and> drv_inv d' \<and> e_render c' = None \<and> (e_render c \<noteq> None \<longrightarrow> tiled c' []) \<and>
     (case r of
        Inl st \<Rightarrow> st \<noteq> VA_STATUS_SUCCESS \<and> d' = d
      | Inr (st, evs, m') \<Rightarrow> released evs \<and> (\<exists>s coded_id idr packet b. e_render c = Some s \<and>
          encode_request c s = Some (coded_id, idr) \<and> encode_frame e c s idr m = (packet, evs, m') \<and>
          seen d' coded_id = Some b \<and> coded_reports packet st b))"
  using encode_result [OF assms, of e c m] assms
  by (cases "e_render c") (auto simp: end_encode_def forget_slices_def [of "c\<lparr>e_render := None\<rparr>"] tiled_def)


text \<open>A backend on which everything succeeds, and a context that asks for the buffer of \<open>demo_coded\<close>.\<close>

definition demo_enc_backend :: "unit enc_backend" where
  "demo_enc_backend = \<lparr>mpp_enc_cfg_init = (\<lambda>m. (True, m)), mpp_enc_cfg_set_s32 = (\<lambda>_ _ m. (True, m)), mpi_control = (\<lambda>_ m. (True, m)),
     normalize_multiplane_import = (\<lambda>m. (True, m)), convert_rgb_to_nv12 = (\<lambda>m. (True, m)), mpp_frame_init = (\<lambda>m. (True, m)),
     encode_put_frame = (\<lambda>_ m. (True, m)), encode_get_packet = (\<lambda>m. (True, Some (Some [7, 8]), m))\<rparr>"

definition demo_coded :: "RKDriver outcome" where
  "demo_coded = buf_run [Op_Create demo_mem VAEncCodedBufferType 4 1 None] driver_start"

definition demo_ready :: enc_context where
  "demo_ready = demo_begun\<lparr>has_enc_seq := True, has_enc_pic := True, has_enc_slice := True, enc_slice_units := 4,
     enc_pic := (enc_pic demo_begun)\<lparr>ep_coded_buf := 0x40100000\<rparr>\<rparr>"

theorem encode_settles_buffer_witness:
  "\<exists>d evs c' d' b. demo_coded = Ok d \<and> end_encode demo_enc_backend demo_ready d () = Ok (Inr (VA_STATUS_SUCCESS, evs, ()), c', d') \<and>
     released evs \<and> drv_inv d' \<and> seen d' 0x40100000 = Some b \<and> coded_reports (Some [7, 8]) VA_STATUS_SUCCESS b"
proof -
  obtain d where d: "demo_coded = Ok d" "drv_inv d"
    using buf_run_well [OF driver_start_inv, of "[Op_Create demo_mem VAEncCodedBufferType 4 1 None]"] by (auto simp: demo_coded_def)
  have "case demo_coded of Ok d \<Rightarrow> (case end_encode demo_enc_backend demo_ready d () of
      Ok (Inr (st, _), _) \<Rightarrow> st = VA_STATUS_SUCCESS | _ \<Rightarrow> False) | _ \<Rightarrow> False" by code_simp
  then have "case end_encode demo_enc_backend demo_ready d () of Ok (Inr (st, _), _) \<Rightarrow> st = VA_STATUS_SUCCESS | _ \<Rightarrow> False"
    unfolding d(1) by simp
  then obtain evs c' d' where r: "end_encode demo_enc_backend demo_ready d () = Ok (Inr (VA_STATUS_SUCCESS, evs, ()), c', d')"
    by (auto split: outcome.splits sum.splits prod.splits)
  have "e_render demo_ready = Some demo_input" "encode_request demo_ready demo_input = Some (0x40100000, False)"
    by (simp_all add: demo_ready_def demo_begun_def demo_encoder_def demo_input_def forget_slices_def encode_request_def demo_enc_abi_def)
  moreover have "fst (encode_frame demo_enc_backend demo_ready demo_input False ()) = Some [7, 8]" by code_simp
  ultimately show ?thesis using encode_settles_buffer [OF d(2), of demo_enc_backend demo_ready "()"] r d(1) by auto
qed

text \<open>
  C23: what the encoder is configured with. In every reachable context, after any sequence of begun,
  rendered (accepted or refused) and ended pictures, the frame rate passed to MPP is a fraction of
  positive 16-bit numbers, the initial quantiser is between 1 and 51, and outside the fixed-quantiser
  mode the bit rates satisfy minimum at most target at most maximum, all of them positive 32-bit values.
  A picture with several slices is split by units with the span its slices had.
\<close>

theorem encoder_settings_in_range:
  assumes "enc_reach abi c"
  shows "(\<exists>num den qp. settings c ''rc:fps_in_num'' = Some (S32 num) \<and> 1 \<le> num \<and> num \<le> 65535 \<and>
       settings c ''rc:fps_in_denom'' = Some (S32 den) \<and> 1 \<le> den \<and> den \<le> 65535 \<and>
       settings c ''rc:qp_init'' = Some (S32 qp) \<and> 1 \<le> qp \<and> qp \<le> 51) \<and>
     (mpp_rc_mode (e_rate_control c) \<noteq> RC_MODE_FIXQP \<longrightarrow>
       (\<exists>lo target hi. settings c ''rc:bps_min'' = Some (S32 lo) \<and> settings c ''rc:bps_target'' = Some (S32 target) \<and>
         settings c ''rc:bps_max'' = Some (S32 hi) \<and> 1 \<le> lo \<and> lo \<le> target \<and> target \<le> hi \<and> hi \<le> 2147483647)) \<and>
     (enc_slice_count c > 1 \<longrightarrow> settings c ''split:mode'' = Some Split_By_Ctu \<and> settings c ''split:arg'' = Some (s32 (enc_slice_unit_span c)) \<and>
       (\<exists>ss. tiled c ss \<and> map (map_prod unat unat) ss = split_units (unat (enc_slice_units c)) (unat (enc_slice_unit_span c))))"
proof (intro conjI impI)
  from enc_reach_inv [OF assms] obtain ss where r: "enc_ranges c" and ss: "tiled c ss" by blast
  have pos: "1 \<le> sint w \<and> sint w \<le> 65535" if "w \<noteq> 0" "unat w \<le> 65535" for w :: u32
  proof -
    have "unat w \<noteq> 0" using that(1) by (simp add: unat_eq_0)
    then show ?thesis unfolding s32_small [OF that(2)] using that(2) by linarith
  qed
  show "\<exists>num den qp. settings c ''rc:fps_in_num'' = Some (S32 num) \<and> 1 \<le> num \<and> num \<le> 65535 \<and>
       settings c ''rc:fps_in_denom'' = Some (S32 den) \<and> 1 \<le> den \<and> den \<le> 65535 \<and>
       settings c ''rc:qp_init'' = Some (S32 qp) \<and> 1 \<le> qp \<and> qp \<le> 51"
    using r qp_range [of c] pos [of "enc_fps_num c"] pos [of "enc_fps_den c"] unfolding common_lookup s32_def
    by (auto simp: enc_ranges_def)
  assume m: "mpp_rc_mode (e_rate_control c) \<noteq> RC_MODE_FIXQP"
  let ?t = "target_bitrate c" and ?k = "mpp_rc_mode (e_rate_control c) = RC_MODE_CBR"
  have t: "1 \<le> ?t" "?t \<le> 2147483647" by (simp_all add: target_bitrate_def bounded_bitrate_mono)
  have "bounded_bitrate (if ?k then ?t * 15 div 16 else ?t div 16) \<le> bounded_bitrate ?t" by (rule bounded_bitrate_mono) (use t in auto)
  moreover have "bounded_bitrate ?t \<le> bounded_bitrate (if ?k then ?t * 17 div 16 else ?t * 3 div 2)" by (rule bounded_bitrate_mono) (use t in auto)
  ultimately show "\<exists>lo target hi. settings c ''rc:bps_min'' = Some (S32 lo) \<and> settings c ''rc:bps_target'' = Some (S32 target) \<and>
         settings c ''rc:bps_max'' = Some (S32 hi) \<and> 1 \<le> lo \<and> lo \<le> target \<and> target \<le> hi \<and> hi \<le> 2147483647"
    unfolding rate_lookup [OF m] bounded_bitrate_mono(4) [OF t] by (simp add: bounded_bitrate_mono)
next
  from enc_reach_inv [OF assms] obtain ss where ss: "tiled c ss" by blast
  assume "1 < enc_slice_count c"
  then show "settings c ''split:mode'' = Some Split_By_Ctu" "settings c ''split:arg'' = Some (s32 (enc_slice_unit_span c))"
    by (simp_all add: common_lookup)
  show "\<exists>ss. tiled c ss \<and> map (map_prod unat unat) ss = split_units (unat (enc_slice_units c)) (unat (enc_slice_unit_span c))"
    using ss tiled_split by blast
qed

theorem encoder_settings_in_range_witness:
  "enc_reach demo_enc_abi demo_encoder \<and> (\<exists>lo target hi. settings demo_encoder ''rc:bps_min'' = Some (S32 lo) \<and>
     settings demo_encoder ''rc:bps_target'' = Some (S32 target) \<and> settings demo_encoder ''rc:bps_max'' = Some (S32 hi) \<and>
     1 \<le> lo \<and> lo \<le> target \<and> target \<le> hi)"
proof -
  have r: "enc_reach demo_enc_abi demo_encoder" by (rule reach_start) (simp_all add: demo_encoder_def)
  have "mpp_rc_mode (e_rate_control demo_encoder) \<noteq> RC_MODE_FIXQP" by (simp add: demo_encoder_def mpp_rc_mode_def)
  with encoder_settings_in_range [OF r] r show ?thesis by blast
qed

end
