(* ===== verification/Pixel_Rows.thy ===== *)
theory Pixel_Rows
  imports Buffers
begin

unbundle bit_operations_syntax

text \<open>
  The loops of \<open>src/surface.c\<close> and \<open>src/buffer.c\<close> that move the rows of a picture between two
  memories, each with its own offset and pitch: \<open>memcpy\<close> row by row, interleaving two chroma planes,
  and splitting an interleaved one. Offsets and pitches are \<open>size_t\<close> values; an access outside a
  memory is the outcome \<open>Fault\<close>. The lemmas say which byte arrives where and that every other
  byte is kept.
\<close>

text \<open>\<open>memcpy(dst + doff + row * dpitch, src + soff + row * spitch, n)\<close> for \<open>k\<close> rows.\<close>

fun copy_rows :: "nat \<Rightarrow> nat \<Rightarrow> nat \<Rightarrow> mem \<Rightarrow> u64 \<Rightarrow> u64 \<Rightarrow> u64 \<Rightarrow> u64 \<Rightarrow> mem \<Rightarrow> mem outcome" where
  "copy_rows 0 row n src soff spitch doff dpitch dst = Ok dst"
| "copy_rows (Suc k) row n src soff spitch doff dpitch dst =
     obind (mem_read src (unat (soff + of_nat row * spitch)) n) (\<lambda>xs.
     obind (mem_write dst (unat (doff + of_nat row * dpitch)) xs)
       (copy_rows k (Suc row) n src soff spitch doff dpitch))"

fun interleave :: "'a list \<Rightarrow> 'a list \<Rightarrow> 'a list" where
  "interleave (u # us) (v # vs) = u # v # interleave us vs"
| "interleave us vs = []"

definition every_other :: "nat \<Rightarrow> nat \<Rightarrow> 'a list \<Rightarrow> 'a list" where
  "every_other start n xs = map (\<lambda>c. xs ! (2 * c + start)) [0..<n]"

text \<open>\<open>row_uv[2 * c] = src_u[c]; row_uv[2 * c + 1] = src_v[c]\<close> for \<open>n\<close> columns of \<open>k\<close> rows.\<close>

fun interleave_rows ::
    "nat \<Rightarrow> nat \<Rightarrow> nat \<Rightarrow> mem \<Rightarrow> u64 \<Rightarrow> u64 \<Rightarrow> u64 \<Rightarrow> u64 \<Rightarrow> u64 \<Rightarrow> u64 \<Rightarrow> mem \<Rightarrow> mem outcome" where
  "interleave_rows 0 row n src uoff upitch voff vpitch doff dpitch dst = Ok dst"
| "interleave_rows (Suc k) row n src uoff upitch voff vpitch doff dpitch dst =
     obind (mem_read src (unat (uoff + of_nat row * upitch)) n) (\<lambda>us.
     obind (mem_read src (unat (voff + of_nat row * vpitch)) n) (\<lambda>vs.
     obind (mem_write dst (unat (doff + of_nat row * dpitch)) (interleave us vs))
       (interleave_rows k (Suc row) n src uoff upitch voff vpitch doff dpitch)))"

text \<open>\<open>du[c] = row_uv[2 * c]; dv[c] = row_uv[2 * c + 1]\<close> for \<open>n\<close> columns of \<open>k\<close> rows.\<close>

fun split_rows ::
    "nat \<Rightarrow> nat \<Rightarrow> nat \<Rightarrow> mem \<Rightarrow> u64 \<Rightarrow> u64 \<Rightarrow> u64 \<Rightarrow> u64 \<Rightarrow> u64 \<Rightarrow> u64 \<Rightarrow> mem \<Rightarrow> mem outcome" where
  "split_rows 0 row n src soff spitch uoff upitch voff vpitch dst = Ok dst"
| "split_rows (Suc k) row n src soff spitch uoff upitch voff vpitch dst =
     obind (mem_read src (unat (soff + of_nat row * spitch)) (2 * n)) (\<lambda>xs.
     obind (mem_write dst (unat (uoff + of_nat row * upitch)) (every_other 0 n xs)) (\<lambda>dst.
     obind (mem_write dst (unat (voff + of_nat row * vpitch)) (every_other 1 n xs))
       (split_rows k (Suc row) n src soff spitch uoff upitch voff vpitch)))"

section \<open>Single accesses\<close>

lemma row_addr:
  fixes off pitch :: u64
  assumes "unat off + row * unat pitch < 2 ^ 64"
  shows "unat (off + of_nat row * pitch) = unat off + row * unat pitch"
proof (cases "unat pitch = 0")
  case False
  then have "row * 1 \<le> row * unat pitch" by (intro mult_le_mono2) simp
  with assms have "row < 2 ^ 64" by linarith
  then have "unat (of_nat row :: u64) = row" by (simp add: unat_of_nat)
  with assms show ?thesis by (simp add: unat_word_ariths)
qed (simp add: unat_eq_0)

text \<open>A range of defined bytes can be read.\<close>

definition defined_at :: "mem \<Rightarrow> nat \<Rightarrow> nat \<Rightarrow> bool" where
  "defined_at m off n \<longleftrightarrow> off + n \<le> length m \<and> (\<forall>c < n. m ! (off + c) \<noteq> None)"

lemma defined_at_read:
  assumes "defined_at m off n"
  shows "mem_read m off n = Ok (map (\<lambda>c. the (m ! (off + c))) [0..<n])"
proof -
  have "take n (drop off m) = map (\<lambda>c. m ! (off + c)) [0..<n]"
    using assms by (intro nth_equalityI) (auto simp: defined_at_def)
  with assms show ?thesis by (auto simp: mem_read_def defined_at_def list_all_iff)
qed

lemma init_prefix_defined: "init_prefix k m \<Longrightarrow> off + n \<le> k \<Longrightarrow> defined_at m off n"
  by (auto simp: init_prefix_def defined_at_def)

text \<open>The bytes at the positions \<open>P\<close> have become \<open>g\<close>, the others are kept.\<close>

definition wrote :: "nat set \<Rightarrow> (nat \<Rightarrow> u8 option) \<Rightarrow> mem \<Rightarrow> mem \<Rightarrow> bool" where
  "wrote P g m m' \<longleftrightarrow> length m' = length m \<and> (\<forall>i < length m. m' ! i = (if i \<in> P then g i else m ! i))"

lemma wrote_trans:
  "wrote P g m m1 \<Longrightarrow> wrote Q h m1 m2 \<Longrightarrow> wrote (P \<union> Q) (\<lambda>i. if i \<in> Q then h i else g i) m m2"
  by (auto simp: wrote_def)

lemma wrote_cong: "wrote P g m m' \<Longrightarrow> (\<And>i. i \<in> P \<Longrightarrow> g i = h i) \<Longrightarrow> wrote P h m m'"
  by (simp add: wrote_def)

lemma choice_widen:
  "A \<subseteq> U \<Longrightarrow> B \<subseteq> V \<Longrightarrow> U \<inter> V = {} \<Longrightarrow> i \<in> A \<union> B \<Longrightarrow> (if i \<in> B then x else y) = (if i \<in> V then x else y)"
  by auto

lemma wrote_init: "wrote P g m m' \<Longrightarrow> init_prefix k m \<Longrightarrow> (\<And>i. i \<in> P \<Longrightarrow> g i \<noteq> None) \<Longrightarrow> init_prefix k m'"
  by (auto simp: wrote_def init_prefix_def)

lemma mem_write_wrote:
  assumes "off + length xs \<le> length m"
  shows "\<exists>m'. mem_write m off xs = Ok m' \<and> wrote {off..<off + length xs} (\<lambda>i. Some (xs ! (i - off))) m m'"
proof -
  let ?m = "take off m @ map Some xs @ drop (off + length xs) m"
  have "wrote {off..<off + length xs} (\<lambda>i. Some (xs ! (i - off))) m ?m"
    using assms by (auto simp: wrote_def nth_append)
  with assms show ?thesis by (auto simp: mem_write_def)
qed

lemma length_interleave: "length us = length vs \<Longrightarrow> length (interleave us vs) = 2 * length us"
  by (induction us vs rule: interleave.induct) auto

lemma nth_interleave:
  "length us = length vs \<Longrightarrow> i < 2 * length us \<Longrightarrow> interleave us vs ! i = (if even i then us else vs) ! (i div 2)"
proof (induction us vs arbitrary: i rule: interleave.induct)
  case (1 u us v vs)
  show ?case
  proof (cases i)
    case (Suc j)
    with 1 show ?thesis by (cases j) (auto simp: nth_Cons')
  qed simp
qed auto

section \<open>Loops over rows\<close>

locale row_loop =
  fixes step :: "nat \<Rightarrow> mem \<Rightarrow> mem outcome"
    and loop :: "nat \<Rightarrow> nat \<Rightarrow> mem \<Rightarrow> mem outcome"
  assumes loop_0: "loop 0 row m = Ok m"
    and loop_Suc: "loop (Suc k) row m = obind (step row m) (loop k (Suc row))"
begin

lemma loop_wrote:
  assumes "\<And>r m. row \<le> r \<Longrightarrow> r < row + k \<Longrightarrow> length m = len \<Longrightarrow> \<exists>m'. step r m = Ok m' \<and> wrote (P r) g m m'"
    and "length m = len"
  shows "\<exists>m'. loop k row m = Ok m' \<and> wrote (\<Union>r \<in> {row..<row + k}. P r) g m m'"
  using assms
proof (induction k arbitrary: row m)
  case 0
  then show ?case by (simp add: loop_0 wrote_def)
next
  case (Suc k)
  obtain m1 where m1: "step row m = Ok m1" "wrote (P row) g m m1" using Suc.prems(1) [of row m] Suc.prems(2) by auto
  then have "length m1 = len" using Suc.prems(2) by (simp add: wrote_def)
  then obtain m2 where m2: "loop k (Suc row) m1 = Ok m2" "wrote (\<Union>r \<in> {Suc row..<Suc row + k}. P r) g m1 m2"
    using Suc.IH [of "Suc row" m1] Suc.prems(1) by auto
  have "{row..<row + Suc k} = insert row {Suc row..<Suc row + k}" by auto
  with wrote_trans [OF m1(2) m2(2)] m1(1) m2(1) show ?case by (simp add: loop_Suc if_distrib cong: if_cong)
qed

end

text \<open>The byte at position \<open>i\<close> of a plane is in row \<open>(i - off) div pitch\<close>.\<close>

definition plane_cells :: "nat \<Rightarrow> nat \<Rightarrow> nat \<Rightarrow> nat \<Rightarrow> nat set" where
  "plane_cells off pitch n rows = (\<Union>r < rows. {off + r * pitch..<off + r * pitch + n})"

lemma cell_row:
  fixes off r pitch c :: nat
  assumes "c < pitch"
  shows "(off + r * pitch + c - off) div pitch = r" "(off + r * pitch + c - off) mod pitch = c"
proof -
  have "off + r * pitch + c - off = c + r * pitch" by simp
  then show "(off + r * pitch + c - off) div pitch = r" "(off + r * pitch + c - off) mod pitch = c" using assms by simp_all
qed

lemma cell_cases:
  fixes i off n :: nat
  assumes "i \<in> {off..<off + n}"
  obtains c where "i = off + c" "c < n"
  using assms that [of "i - off"] by auto

interpretation copy: row_loop
  "\<lambda>row m. obind (mem_read src (unat (soff + of_nat row * spitch)) n) (mem_write m (unat (doff + of_nat row * dpitch)))"
  "\<lambda>k row. copy_rows k row n src soff spitch doff dpitch"
  for n src soff spitch doff dpitch
  by unfold_locales (simp_all add: obind_assoc)

text \<open>Where a copied byte comes from.\<close>

definition copied_from :: "mem \<Rightarrow> nat \<Rightarrow> nat \<Rightarrow> nat \<Rightarrow> nat \<Rightarrow> nat \<Rightarrow> u8 option" where
  "copied_from src soff spitch doff dpitch i = src ! (soff + (i - doff) div dpitch * spitch + (i - doff) mod dpitch)"

definition plane_defined :: "mem \<Rightarrow> u64 \<Rightarrow> u64 \<Rightarrow> nat \<Rightarrow> nat \<Rightarrow> bool" where
  "plane_defined m off pitch n rows \<longleftrightarrow>
     (\<forall>r < rows. unat off + r * unat pitch < 2 ^ 64 \<and> defined_at m (unat off + r * unat pitch) n)"

definition plane_room :: "nat \<Rightarrow> u64 \<Rightarrow> u64 \<Rightarrow> nat \<Rightarrow> nat \<Rightarrow> bool" where
  "plane_room len off pitch n rows \<longleftrightarrow> n \<le> unat pitch \<and>
     (\<forall>r < rows. unat off + r * unat pitch < 2 ^ 64 \<and> unat off + r * unat pitch + n \<le> len)"

lemma copied_from_cell: "c < dpitch \<Longrightarrow> copied_from src soff spitch doff dpitch (doff + r * dpitch + c) = src ! (soff + r * spitch + c)"
  unfolding copied_from_def cell_row ..

lemma copy_rows_wrote:
  assumes "plane_defined src soff spitch n rows" and "plane_room (length dst) doff dpitch n rows"
  shows "\<exists>dst'. copy_rows rows 0 n src soff spitch doff dpitch dst = Ok dst' \<and>
    wrote (plane_cells (unat doff) (unat dpitch) n rows)
      (copied_from src (unat soff) (unat spitch) (unat doff) (unat dpitch)) dst dst'"
proof -
  let ?g = "copied_from src (unat soff) (unat spitch) (unat doff) (unat dpitch)"
  have "\<exists>m'. obind (mem_read src (unat (soff + of_nat r * spitch)) n) (mem_write m (unat (doff + of_nat r * dpitch))) = Ok m' \<and>
      wrote {unat doff + r * unat dpitch..<unat doff + r * unat dpitch + n} ?g m m'"
    if r: "r < rows" and m: "length m = length dst" for r m
  proof -
    let ?s = "unat soff + r * unat spitch" and ?d = "unat doff + r * unat dpitch"
    have s: "unat (soff + of_nat r * spitch) = ?s" "defined_at src ?s n"
      using assms(1) r by (auto simp: plane_defined_def row_addr)
    have d: "unat (doff + of_nat r * dpitch) = ?d" "?d + n \<le> length m" "n \<le> unat dpitch"
      using assms(2) r m by (auto simp: plane_room_def row_addr)
    let ?xs = "map (\<lambda>c. the (src ! (?s + c))) [0..<n]"
    obtain m' where m': "mem_write m ?d ?xs = Ok m'" "wrote {?d..<?d + n} (\<lambda>i. Some (?xs ! (i - ?d))) m m'"
      using mem_write_wrote [of ?d ?xs m] d(2) by auto
    have "Some (?xs ! (i - ?d)) = ?g i" if "i \<in> {?d..<?d + n}" for i
    proof (rule cell_cases [OF that])
      fix c assume c: "i = ?d + c" "c < n"
      then have "src ! (?s + c) \<noteq> None" using s(2) by (simp add: defined_at_def)
      with c d(3) show "Some (?xs ! (i - ?d)) = ?g i" by (simp add: copied_from_cell)
    qed
    with m' have "wrote {?d..<?d + n} ?g m m'" by (auto simp: wrote_def)
    with m' s d show ?thesis by (simp add: defined_at_read)
  qed
  then show ?thesis
    using copy.loop_wrote [where row = 0 and k = rows and len = "length dst" and g = ?g and m = dst
        and P = "\<lambda>r. {unat doff + r * unat dpitch..<unat doff + r * unat dpitch + n}"]
    by (simp add: plane_cells_def atLeast0LessThan)
qed

text \<open>Interleaving two planes of \<open>n\<close> columns.\<close>

interpretation weave: row_loop
  "\<lambda>row m. obind (mem_read src (unat (uoff + of_nat row * upitch)) n) (\<lambda>us. obind (mem_read src (unat (voff + of_nat row * vpitch)) n)
     (\<lambda>vs. mem_write m (unat (doff + of_nat row * dpitch)) (interleave us vs)))"
  "\<lambda>k row. interleave_rows k row n src uoff upitch voff vpitch doff dpitch"
  for n src uoff upitch voff vpitch doff dpitch
  by unfold_locales (simp_all add: obind_assoc)

definition woven_from :: "mem \<Rightarrow> nat \<Rightarrow> nat \<Rightarrow> nat \<Rightarrow> nat \<Rightarrow> nat \<Rightarrow> nat \<Rightarrow> nat \<Rightarrow> u8 option" where
  "woven_from src uoff upitch voff vpitch doff dpitch i =
     (let r = (i - doff) div dpitch; c = (i - doff) mod dpitch
      in if even c then src ! (uoff + r * upitch + c div 2) else src ! (voff + r * vpitch + c div 2))"

lemma woven_from_cell:
  "c < dpitch \<Longrightarrow> woven_from src uoff upitch voff vpitch doff dpitch (doff + r * dpitch + c) =
     (if even c then src ! (uoff + r * upitch + c div 2) else src ! (voff + r * vpitch + c div 2))"
  unfolding woven_from_def Let_def cell_row ..

lemma interleave_rows_wrote:
  assumes "plane_defined src uoff upitch n rows" and "plane_defined src voff vpitch n rows"
    and "plane_room (length dst) doff dpitch (2 * n) rows"
  shows "\<exists>dst'. interleave_rows rows 0 n src uoff upitch voff vpitch doff dpitch dst = Ok dst' \<and>
    wrote (plane_cells (unat doff) (unat dpitch) (2 * n) rows)
      (woven_from src (unat uoff) (unat upitch) (unat voff) (unat vpitch) (unat doff) (unat dpitch)) dst dst'"
proof -
  let ?g = "woven_from src (unat uoff) (unat upitch) (unat voff) (unat vpitch) (unat doff) (unat dpitch)"
  have "\<exists>m'. obind (mem_read src (unat (uoff + of_nat r * upitch)) n) (\<lambda>us. obind (mem_read src (unat (voff + of_nat r * vpitch)) n)
        (\<lambda>vs. mem_write m (unat (doff + of_nat r * dpitch)) (interleave us vs))) = Ok m' \<and>
      wrote {unat doff + r * unat dpitch..<unat doff + r * unat dpitch + 2 * n} ?g m m'"
    if r: "r < rows" and m: "length m = length dst" for r m
  proof -
    let ?u = "unat uoff + r * unat upitch" and ?v = "unat voff + r * unat vpitch" and ?d = "unat doff + r * unat dpitch"
    have s: "unat (uoff + of_nat r * upitch) = ?u" "defined_at src ?u n"
        "unat (voff + of_nat r * vpitch) = ?v" "defined_at src ?v n"
      using assms(1,2) r by (auto simp: plane_defined_def row_addr)
    have d: "unat (doff + of_nat r * dpitch) = ?d" "?d + 2 * n \<le> length m" "2 * n \<le> unat dpitch"
      using assms(3) r m by (auto simp: plane_room_def row_addr)
    let ?us = "map (\<lambda>c. the (src ! (?u + c))) [0..<n]" and ?vs = "map (\<lambda>c. the (src ! (?v + c))) [0..<n]"
    let ?xs = "interleave ?us ?vs"
    have len: "length ?xs = 2 * n" by (simp add: length_interleave)
    obtain m' where m': "mem_write m ?d ?xs = Ok m'" "wrote {?d..<?d + 2 * n} (\<lambda>i. Some (?xs ! (i - ?d))) m m'"
      using mem_write_wrote [of ?d ?xs m] d(2) len by auto
    have "Some (?xs ! (i - ?d)) = ?g i" if "i \<in> {?d..<?d + 2 * n}" for i
    proof (rule cell_cases [OF that])
      fix c assume c: "i = ?d + c" "c < 2 * n"
      then have "c div 2 < n" by simp
      with s have "src ! (?u + c div 2) \<noteq> None" "src ! (?v + c div 2) \<noteq> None" by (simp_all add: defined_at_def)
      with c d(3) \<open>c div 2 < n\<close> show "Some (?xs ! (i - ?d)) = ?g i" by (simp add: woven_from_cell nth_interleave)
    qed
    with m' have "wrote {?d..<?d + 2 * n} ?g m m'" by (auto simp: wrote_def)
    with m' s d show ?thesis by (simp add: defined_at_read)
  qed
  then show ?thesis
    using weave.loop_wrote [where row = 0 and k = rows and len = "length dst" and g = ?g and m = dst
        and P = "\<lambda>r. {unat doff + r * unat dpitch..<unat doff + r * unat dpitch + 2 * n}"]
    by (simp add: plane_cells_def atLeast0LessThan)
qed

text \<open>Splitting an interleaved plane into two disjoint ones.\<close>

interpretation split: row_loop
  "\<lambda>row m. obind (mem_read src (unat (soff + of_nat row * spitch)) (2 * n)) (\<lambda>xs.
     obind (mem_write m (unat (uoff + of_nat row * upitch)) (every_other 0 n xs)) (\<lambda>m.
       mem_write m (unat (voff + of_nat row * vpitch)) (every_other 1 n xs)))"
  "\<lambda>k row. split_rows k row n src soff spitch uoff upitch voff vpitch"
  for n src soff spitch uoff upitch voff vpitch
  by unfold_locales (simp_all add: obind_assoc)

definition half_from :: "mem \<Rightarrow> nat \<Rightarrow> nat \<Rightarrow> nat \<Rightarrow> nat \<Rightarrow> nat \<Rightarrow> nat \<Rightarrow> u8 option" where
  "half_from src soff spitch start doff dpitch i =
     src ! (soff + (i - doff) div dpitch * spitch + 2 * ((i - doff) mod dpitch) + start)"

lemma half_from_cell:
  "c < dpitch \<Longrightarrow> half_from src soff spitch start doff dpitch (doff + r * dpitch + c) = src ! (soff + r * spitch + 2 * c + start)"
  unfolding half_from_def cell_row ..

lemma write_half:
  assumes "defined_at src s (2 * n)" and "start < 2" and "d = doff + r * dpitch" and "s = soff + r * spitch"
    and "n \<le> dpitch" and "d + n \<le> length m"
  shows "\<exists>m'. mem_write m d (every_other start n (map (\<lambda>c. the (src ! (s + c))) [0..<2 * n])) = Ok m' \<and>
    wrote {d..<d + n} (half_from src soff spitch start doff dpitch) m m'"
proof -
  let ?xs = "every_other start n (map (\<lambda>c. the (src ! (s + c))) [0..<2 * n])"
  have len: "length ?xs = n" by (simp add: every_other_def)
  obtain m' where m': "mem_write m d ?xs = Ok m'" "wrote {d..<d + n} (\<lambda>i. Some (?xs ! (i - d))) m m'"
    using mem_write_wrote [of d ?xs m] assms(6) len by auto
  have "Some (?xs ! (i - d)) = half_from src soff spitch start doff dpitch i" if "i \<in> {d..<d + n}" for i
  proof (rule cell_cases [OF that])
    fix c assume c: "i = d + c" "c < n"
    then have "src ! (s + (2 * c + start)) \<noteq> None" using assms(1,2) by (simp add: defined_at_def)
    with c assms(2,3,4,5) show "Some (?xs ! (i - d)) = half_from src soff spitch start doff dpitch i"
      by (simp add: half_from_cell [unfolded add.assoc] every_other_def add.assoc)
  qed
  with m' show ?thesis by (auto simp: wrote_def)
qed

definition split_from :: "mem \<Rightarrow> nat \<Rightarrow> nat \<Rightarrow> nat \<Rightarrow> nat \<Rightarrow> nat \<Rightarrow> nat \<Rightarrow> nat set \<Rightarrow> nat \<Rightarrow> u8 option" where
  "split_from src soff spitch uoff upitch voff vpitch V i =
     (if i \<in> V then half_from src soff spitch 1 voff vpitch i else half_from src soff spitch 0 uoff upitch i)"

lemma split_rows_wrote:
  assumes "plane_defined src soff spitch (2 * n) rows"
    and "plane_room (length dst) uoff upitch n rows" and "plane_room (length dst) voff vpitch n rows"
  defines "U \<equiv> plane_cells (unat uoff) (unat upitch) n rows" and "V \<equiv> plane_cells (unat voff) (unat vpitch) n rows"
  assumes "U \<inter> V = {}"
  shows "\<exists>dst'. split_rows rows 0 n src soff spitch uoff upitch voff vpitch dst = Ok dst' \<and>
    wrote (U \<union> V) (split_from src (unat soff) (unat spitch) (unat uoff) (unat upitch) (unat voff) (unat vpitch) V) dst dst'"
proof -
  let ?g = "split_from src (unat soff) (unat spitch) (unat uoff) (unat upitch) (unat voff) (unat vpitch) V"
  let ?U = "\<lambda>r. {unat uoff + r * unat upitch..<unat uoff + r * unat upitch + n}"
  let ?V = "\<lambda>r. {unat voff + r * unat vpitch..<unat voff + r * unat vpitch + n}"
  have "\<exists>m'. obind (mem_read src (unat (soff + of_nat r * spitch)) (2 * n)) (\<lambda>xs.
        obind (mem_write m (unat (uoff + of_nat r * upitch)) (every_other 0 n xs)) (\<lambda>m.
          mem_write m (unat (voff + of_nat r * vpitch)) (every_other 1 n xs))) = Ok m' \<and> wrote (?U r \<union> ?V r) ?g m m'"
    if r: "r < rows" and m: "length m = length dst" for r m
  proof -
    let ?s = "unat soff + r * unat spitch" and ?u = "unat uoff + r * unat upitch" and ?v = "unat voff + r * unat vpitch"
    have s: "unat (soff + of_nat r * spitch) = ?s" "defined_at src ?s (2 * n)"
      using assms(1) r by (auto simp: plane_defined_def row_addr)
    have d: "unat (uoff + of_nat r * upitch) = ?u" "?u + n \<le> length m" "n \<le> unat upitch"
        "unat (voff + of_nat r * vpitch) = ?v" "?v + n \<le> length m" "n \<le> unat vpitch"
      using assms(2,3) r m by (auto simp: plane_room_def row_addr)
    obtain m1 where m1: "mem_write m ?u (every_other 0 n (map (\<lambda>c. the (src ! (?s + c))) [0..<2 * n])) = Ok m1"
        "wrote (?U r) (half_from src (unat soff) (unat spitch) 0 (unat uoff) (unat upitch)) m m1"
      using write_half [where start = 0, OF s(2) _ refl refl d(3,2)] by auto
    then have "?v + n \<le> length m1" using d(5) by (simp add: wrote_def)
    then obtain m2 where m2: "mem_write m1 ?v (every_other 1 n (map (\<lambda>c. the (src ! (?s + c))) [0..<2 * n])) = Ok m2"
        "wrote (?V r) (half_from src (unat soff) (unat spitch) 1 (unat voff) (unat vpitch)) m1 m2"
      using write_half [where start = 1, OF s(2) _ refl refl d(6)] by auto
    have "?U r \<subseteq> U" "?V r \<subseteq> V" using r by (auto simp: U_def V_def plane_cells_def)
    then have "wrote (?U r \<union> ?V r) ?g m m2"
      unfolding split_from_def
      by (intro wrote_cong [OF wrote_trans [OF m1(2) m2(2)]] choice_widen [OF _ _ assms(6)])
    with m1 m2 s d show ?thesis by (simp add: defined_at_read)
  qed
  then have "\<exists>dst'. split_rows rows 0 n src soff spitch uoff upitch voff vpitch dst = Ok dst' \<and>
      wrote (\<Union>r \<in> {0..<0 + rows}. ?U r \<union> ?V r) ?g dst dst'"
    by (intro split.loop_wrote) auto
  moreover have "(\<Union>r \<in> {0..<0 + rows}. ?U r \<union> ?V r) = U \<union> V"
    by (auto simp: U_def V_def plane_cells_def)
  ultimately show ?thesis by simp
qed

section \<open>Planes that fit\<close>

text \<open>The last row of the plane ends inside \<open>len\<close> bytes.\<close>

definition plane_ends :: "nat \<Rightarrow> nat \<Rightarrow> nat \<Rightarrow> nat \<Rightarrow> nat \<Rightarrow> bool" where
  "plane_ends off pitch n rows len \<longleftrightarrow> n \<le> pitch \<and> (rows \<noteq> 0 \<longrightarrow> off + (rows - 1) * pitch + n \<le> len)"

lemma plane_ends_rows: "n \<le> pitch \<Longrightarrow> off + rows * pitch \<le> len \<Longrightarrow> plane_ends off pitch n rows len"
  by (cases rows) (auto simp: plane_ends_def)

lemma plane_ends_row:
  assumes "plane_ends off pitch n rows len" and "r < rows"
  shows "off + r * pitch + n \<le> len"
proof -
  have "r * pitch \<le> (rows - 1) * pitch" using assms(2) by (intro mult_le_mono1) simp
  moreover have "off + (rows - 1) * pitch + n \<le> len" using assms by (simp add: plane_ends_def)
  ultimately show ?thesis by linarith
qed

lemma plane_ends_cells: "plane_ends off pitch n rows len \<Longrightarrow> plane_cells off pitch n rows \<subseteq> {off..<len}"
  using plane_ends_row by (fastforce simp: plane_cells_def)

lemma plane_defined_fits:
  assumes "plane_ends (unat off) (unat pitch) n rows len" and "init_prefix len m" and "len < 2 ^ 64"
  shows "plane_defined m off pitch n rows"
  unfolding plane_defined_def
proof (intro allI impI conjI)
  fix r assume "r < rows"
  then have r: "unat off + r * unat pitch + n \<le> len" by (rule plane_ends_row [OF assms(1)])
  with assms(3) show "unat off + r * unat pitch < 2 ^ 64" by linarith
  from r assms(2) show "defined_at m (unat off + r * unat pitch) n" by (rule init_prefix_defined [rotated])
qed

lemma plane_room_fits:
  assumes "plane_ends (unat off) (unat pitch) n rows len" and "len \<le> length m" and "len < 2 ^ 64"
  shows "plane_room (length m) off pitch n rows"
  unfolding plane_room_def
proof (intro allI impI conjI)
  show "n \<le> unat pitch" using assms(1) by (simp add: plane_ends_def)
  fix r assume "r < rows"
  then have r: "unat off + r * unat pitch + n \<le> len" by (rule plane_ends_row [OF assms(1)])
  with assms(3) show "unat off + r * unat pitch < 2 ^ 64" by linarith
  from r assms(2) show "unat off + r * unat pitch + n \<le> length m" by linarith
qed

text \<open>Every cell of a copied plane is defined when the source plane is.\<close>

lemma copied_defined:
  assumes "plane_defined src soff spitch n rows" and "n \<le> unat dpitch" and "i \<in> plane_cells (unat doff) (unat dpitch) n rows"
  shows "copied_from src (unat soff) (unat spitch) (unat doff) (unat dpitch) i \<noteq> None"
proof -
  from assms(3) obtain r where r: "r < rows" "i \<in> {unat doff + r * unat dpitch..<unat doff + r * unat dpitch + n}"
    by (auto simp: plane_cells_def)
  from r(2) show ?thesis
  proof (rule cell_cases)
    fix c assume "i = unat doff + r * unat dpitch + c" "c < n"
    with assms(1,2) r(1) show ?thesis by (auto simp: copied_from_cell plane_defined_def defined_at_def)
  qed
qed

end
