(* ===== verification/Surfaces.thy ===== *)
theory Surfaces
  imports Pixel_Rows Frame_Layout
begin

unbundle bit_operations_syntax

text \<open>
  The surfaces of \<open>src/surface.c\<close>: creation with placeholder memory or imported DMA-BUFs,
  destruction, waiting for a picture, and the copy of a two-object import into contiguous memory.

  A surface owns file descriptors, MPP buffers, a buffer group, possibly a frame and a reference to
  a decode pool. The list \<open>sd_open\<close> holds what the driver has acquired and not yet given back;
  giving back something it does not hold is the outcome \<open>Fault\<close>. The memory behind an MPP buffer is
  in \<open>sd_mem\<close> as long as the driver holds a reference to the buffer. Results of MPP, of the
  allocators and of the kernel are arguments; a failing call leaves its result \<open>NULL\<close>.
\<close>

section \<open>Surfaces\<close>

datatype VAFourcc =
    VA_FOURCC_NV12
  | VA_FOURCC_P010
  | VA_FOURCC_I420
  | VA_FOURCC_YV12
  | VA_FOURCC_RGBA
  | VA_FOURCC_RGBX
  | VA_FOURCC_BGRA
  | VA_FOURCC_BGRX
  | VA_FOURCC_Other nat

datatype DRMFormat =
    DRM_FORMAT_NV12
  | DRM_FORMAT_P010
  | DRM_FORMAT_ABGR8888
  | DRM_FORMAT_XBGR8888
  | DRM_FORMAT_ARGB8888
  | DRM_FORMAT_XRGB8888
  | DRM_FORMAT_Other nat

record mpp_memory =
  mb_fd :: int
  mb_size :: u64
  mb_ptr :: bool
  mb_bytes :: mem

text \<open>\<open>sf_10bit\<close> and \<open>sf_fbc\<close> are the two questions the code asks of \<open>surface->fmt\<close>.\<close>

record SurfaceObject =
  sf_width :: int
  sf_height :: int
  sf_frame :: "(nat \<times> nat option) option"
  sf_backing_buf :: "nat option"
  sf_decode_pool :: "nat option"
  sf_hstride :: int
  sf_vstride :: int
  sf_priv_group :: "nat option"
  sf_priv_buf :: "nat option"
  sf_stable_export :: bool
  sf_export_buf :: "nat option"
  sf_import_buf :: "nat option"
  sf_import_fd :: int
  sf_import_size :: u64
  sf_import_pitch :: u32
  sf_import_chroma_buf :: "nat option"
  sf_import_chroma_fd :: int
  sf_import_chroma_size :: u64
  sf_import_chroma_pitch :: u32
  sf_import_drm_format :: DRMFormat
  sf_imported_rgb :: bool
  sf_imported_multiplane :: bool
  sf_encoder_input :: bool
  sf_10bit :: bool
  sf_fbc :: bool
  sf_fourcc :: VAFourcc
  sf_decoded :: bool
  sf_decode_failed :: bool
  sf_ctx_id :: u32
  sf_fence :: u64

datatype resource = R_Fd int | R_Buffer nat | R_Group nat | R_Frame nat "nat option" | R_Pool nat

record SDriver =
  sd_drv :: RKDriver
  sd_surface_heap :: RKObjectHeap
  sd_surf :: "nat \<rightharpoonup> SurfaceObject"
  sd_mem :: "nat \<rightharpoonup> mpp_memory"
  sd_open :: "resource list"

abbreviation sd_objs :: "SDriver \<Rightarrow> obj_store" where
  "sd_objs d \<equiv> d_objs (sd_drv d)"

abbreviation sd_brk :: "SDriver \<Rightarrow> nat" where
  "sd_brk d \<equiv> d_brk (sd_drv d)"

definition sd_set_objs :: "obj_store \<Rightarrow> SDriver \<Rightarrow> SDriver" where
  "sd_set_objs objs d = d\<lparr>sd_drv := (sd_drv d)\<lparr>d_objs := objs\<rparr>\<rparr>"

definition surf_set :: "nat \<Rightarrow> SurfaceObject \<Rightarrow> SDriver \<Rightarrow> SDriver" where
  "surf_set p s d = d\<lparr>sd_surf := (sd_surf d)(p \<mapsto> s)\<rparr>"

definition take_res :: "resource \<Rightarrow> SDriver \<Rightarrow> SDriver" where
  "take_res r d = d\<lparr>sd_open := r # sd_open d\<rparr>"

text \<open>The buffer a resource keeps alive: an MPP frame holds a reference to its buffer.\<close>

fun res_buf :: "resource \<Rightarrow> nat option" where
  "res_buf (R_Buffer q) = Some q"
| "res_buf (R_Frame f q) = q"
| "res_buf _ = None"

definition give_back :: "resource \<Rightarrow> SDriver \<Rightarrow> SDriver outcome" where
  "give_back r d =
     (if r \<in> set (sd_open d)
      then let kept = remove1 r (sd_open d)
           in Ok (d\<lparr>sd_open := kept,
                    sd_mem := (\<lambda>q. if res_buf r = Some q \<and> Some q \<notin> res_buf ` set kept then None else sd_mem d q)\<rparr>)
      else Fault)"

fun give_all :: "resource list \<Rightarrow> SDriver \<Rightarrow> SDriver outcome" where
  "give_all [] d = Ok d"
| "give_all (r # rs) d = obind (give_back r d) (give_all rs)"

text \<open>A new MPP buffer or group: a fresh address and a reference to it.\<close>

definition mpp_new_buffer :: "mpp_memory \<Rightarrow> SDriver \<Rightarrow> nat \<times> SDriver" where
  "mpp_new_buffer m d =
     (let q = sd_brk d
      in (q, d\<lparr>sd_drv := (sd_drv d)\<lparr>d_brk := Suc q\<rparr>, sd_mem := (sd_mem d)(q \<mapsto> m), sd_open := R_Buffer q # sd_open d\<rparr>))"

definition mpp_new_group :: "SDriver \<Rightarrow> nat \<times> SDriver" where
  "mpp_new_group d =
     (let q = sd_brk d in (q, d\<lparr>sd_drv := (sd_drv d)\<lparr>d_brk := Suc q\<rparr>, sd_open := R_Group q # sd_open d\<rparr>))"

text \<open>What \<open>surface_destroy\<close> gives back, in its order.\<close>

definition surface_held :: "SurfaceObject \<Rightarrow> resource list" where
  "surface_held s =
     (case sf_frame s of None \<Rightarrow> [] | Some (f, q) \<Rightarrow> [R_Frame f q]) @
     (case sf_backing_buf s of None \<Rightarrow> [] | Some q \<Rightarrow> [R_Buffer q]) @
     (case sf_import_buf s of None \<Rightarrow> [] | Some q \<Rightarrow> [R_Buffer q]) @
     (if sf_import_fd s \<ge> 0 then [R_Fd (sf_import_fd s)] else []) @
     (case sf_import_chroma_buf s of None \<Rightarrow> [] | Some q \<Rightarrow> [R_Buffer q]) @
     (if sf_import_chroma_fd s \<ge> 0 then [R_Fd (sf_import_chroma_fd s)] else []) @
     (case sf_decode_pool s of None \<Rightarrow> [] | Some q \<Rightarrow> [R_Pool q]) @
     (case sf_priv_buf s of None \<Rightarrow> [] | Some q \<Rightarrow> [R_Buffer q]) @
     (case sf_export_buf s of None \<Rightarrow> [] | Some q \<Rightarrow> [R_Buffer q]) @
     (case sf_priv_group s of None \<Rightarrow> [] | Some q \<Rightarrow> [R_Group q])"

definition surface_destroy :: "nat \<Rightarrow> SurfaceObject \<Rightarrow> SDriver \<Rightarrow> SDriver outcome" where
  "surface_destroy p s d = obind (give_all (surface_held s) d) (\<lambda>d. Ok (d\<lparr>sd_surf := (sd_surf d)(p := None)\<rparr>))"

text \<open>\<open>rk_object_unref\<close> on a surface: the last reference runs \<open>surface_destroy\<close>.\<close>

definition surface_unref :: "nat \<Rightarrow> SDriver \<Rightarrow> SDriver outcome" where
  "surface_unref p d =
     (case sd_surf d p of
        None \<Rightarrow> Fault
      | Some s \<Rightarrow>
          let last = obj_refs (sd_objs d) p = 1; d = sd_set_objs (rk_object_unref p (sd_objs d)) d
          in if last then surface_destroy p s d else Ok d)"

definition surface_acquire :: "SDriver \<Rightarrow> u32 \<Rightarrow> (nat option \<times> SDriver) outcome" where
  "surface_acquire d sid =
     obind (rk_object_heap_acquire (sd_surface_heap d) sid (sd_objs d)) (\<lambda>(p, objs). Ok (p, sd_set_objs objs d))"

definition surface_at :: "SDriver \<Rightarrow> nat \<Rightarrow> SurfaceObject outcome" where
  "surface_at d p = (case sd_surf d p of None \<Rightarrow> Fault | Some s \<Rightarrow> Ok s)"

definition mem_at :: "SDriver \<Rightarrow> nat \<Rightarrow> mpp_memory outcome" where
  "mem_at d q = (case sd_mem d q of None \<Rightarrow> Fault | Some m \<Rightarrow> Ok m)"

section \<open>Imported memory\<close>

definition rgb_drm_format :: "VAFourcc \<Rightarrow> DRMFormat option" where
  "rgb_drm_format fourcc =
     (case fourcc of
        VA_FOURCC_RGBA \<Rightarrow> Some DRM_FORMAT_ABGR8888
      | VA_FOURCC_RGBX \<Rightarrow> Some DRM_FORMAT_XBGR8888
      | VA_FOURCC_BGRA \<Rightarrow> Some DRM_FORMAT_ARGB8888
      | VA_FOURCC_BGRX \<Rightarrow> Some DRM_FORMAT_XRGB8888
      | _ \<Rightarrow> None)"

definition rgb_fourcc :: "VAFourcc \<Rightarrow> bool" where
  "rgb_fourcc fourcc \<longleftrightarrow> rgb_drm_format fourcc \<noteq> None"

record prime_object =
  po_fd :: int
  po_size :: u32
  po_linear :: bool

text \<open>\<open>VADRMPRIMESurfaceDescriptor\<close>: the first two objects and the first layer with two planes.\<close>

record prime_descriptor =
  pd_fourcc :: VAFourcc
  pd_width :: u32
  pd_height :: u32
  pd_num_objects :: u32
  pd_object0 :: prime_object
  pd_object1 :: prime_object
  pd_num_layers :: u32
  pd_drm_format :: DRMFormat
  pd_num_planes :: u32
  pd_object_index0 :: u32
  pd_object_index1 :: u32
  pd_offset0 :: u32
  pd_offset1 :: u32
  pd_pitch0 :: u32
  pd_pitch1 :: u32

definition is_multiplane :: "SurfaceObject \<Rightarrow> prime_descriptor \<Rightarrow> bool" where
  "is_multiplane s pd \<longleftrightarrow> \<not> rgb_fourcc (sf_fourcc s) \<and> pd_num_objects pd = 2"

text \<open>The checks on the header of the descriptor, and on its second object.\<close>

definition import_header_ok :: "SurfaceObject \<Rightarrow> prime_descriptor \<Rightarrow> bool" where
  "import_header_ok s pd \<longleftrightarrow>
     \<not> (pd_fourcc pd \<noteq> sf_fourcc s \<or> pd_width pd \<noteq> of_int (sf_width s) \<or> pd_height pd \<noteq> of_int (sf_height s) \<or>
        (pd_num_objects pd \<noteq> 1 \<and> (rgb_fourcc (sf_fourcc s) \<or> pd_num_objects pd \<noteq> 2)) \<or>
        po_fd (pd_object0 pd) < 0 \<or> po_size (pd_object0 pd) = 0 \<or> \<not> po_linear (pd_object0 pd) \<or> pd_num_layers pd \<noteq> 1) \<and>
     \<not> (is_multiplane s pd \<and>
        (po_fd (pd_object1 pd) < 0 \<or> po_size (pd_object1 pd) = 0 \<or> \<not> po_linear (pd_object1 pd)))"

text \<open>The layout of an RGB import and of an NV12 or P010 import; the required size of the first object.\<close>

definition import_rgb_layout :: "SurfaceObject \<Rightarrow> prime_descriptor \<Rightarrow> u64 option" where
  "import_rgb_layout s pd =
     (let pitch = pd_pitch0 pd; required_size = ucast pitch * ucast (of_int (sf_height s) :: u32) :: u64
      in if Some (pd_drm_format pd) \<noteq> rgb_drm_format (sf_fourcc s) \<or> pd_num_planes pd \<noteq> 1 \<or> pd_object_index0 pd \<noteq> 0 \<or>
            pd_offset0 pd \<noteq> 0 \<or> pitch mod 4 \<noteq> 0 \<or> pitch div 4 < of_int (sf_width s) \<or>
            sf_width s AND 1 \<noteq> 0 \<or> sf_height s AND 1 \<noteq> 0
         then None else Some required_size)"

definition import_yuv_layout :: "SurfaceObject \<Rightarrow> prime_descriptor \<Rightarrow> u64 option" where
  "import_yuv_layout s pd =
     (let p010 = sf_fourcc s = VA_FOURCC_P010; multiplane = is_multiplane s pd; pitch = pd_pitch0 pd;
          height = of_int (sf_height s) :: u32;
          bytes_per_sample = (if p010 then 2 else 1) :: u32; chroma_pitch = pd_pitch1 pd;
          chroma_offset = (if multiplane then 0 else ucast pitch * ucast height) :: u64;
          required_size = (if multiplane then ucast pitch * ucast height
                           else chroma_offset + ucast chroma_pitch * ucast (height div 2)) :: u64
      in if pd_drm_format pd \<noteq> (if p010 then DRM_FORMAT_P010 else DRM_FORMAT_NV12) \<or> pd_num_planes pd \<noteq> 2 \<or>
            pd_object_index0 pd \<noteq> 0 \<or> pd_object_index1 pd \<noteq> (if multiplane then 1 else 0) \<or>
            pd_offset0 pd \<noteq> 0 \<or> ucast (pd_offset1 pd) \<noteq> chroma_offset \<or>
            pitch mod bytes_per_sample \<noteq> 0 \<or> chroma_pitch mod bytes_per_sample \<noteq> 0 \<or>
            (\<not> multiplane \<and> chroma_pitch \<noteq> pitch) \<or>
            pitch div bytes_per_sample < of_int (sf_width s) \<or> chroma_pitch div bytes_per_sample < of_int (sf_width s) \<or>
            (multiplane \<and> ucast chroma_pitch * ucast (height div 2) > (ucast (po_size (pd_object1 pd)) :: u64))
         then None else Some required_size)"

definition import_check :: "bool \<Rightarrow> SurfaceObject \<Rightarrow> prime_descriptor option \<Rightarrow> VAStatus + prime_descriptor" where
  "import_check rga s descriptor =
     (let rgb = rgb_fourcc (sf_fourcc s)
      in if \<not> rgb \<and> sf_fourcc s \<noteq> VA_FOURCC_NV12 \<and> sf_fourcc s \<noteq> VA_FOURCC_P010 then Inl VA_STATUS_ERROR_ATTR_NOT_SUPPORTED
         else if rgb \<and> \<not> rga then Inl VA_STATUS_ERROR_ATTR_NOT_SUPPORTED
         else case descriptor of
           None \<Rightarrow> Inl VA_STATUS_ERROR_INVALID_PARAMETER
         | Some pd \<Rightarrow>
             if \<not> import_header_ok s pd then Inl VA_STATUS_ERROR_INVALID_PARAMETER
             else case (if rgb then import_rgb_layout s pd else import_yuv_layout s pd) of
               None \<Rightarrow> Inl VA_STATUS_ERROR_INVALID_PARAMETER
             | Some required_size \<Rightarrow>
                 if required_size > ucast (po_size (pd_object0 pd)) then Inl VA_STATUS_ERROR_INVALID_PARAMETER
                 else Inr pd)"

text \<open>
  One object: \<open>dup\<close>, the two probing syncs and \<open>mpp_buffer_import\<close>, whose result depends on the
  announced size.
\<close>

record object_env =
  oe_dup :: int
  oe_sync_start :: bool
  oe_sync_end :: bool
  oe_buffer :: "u64 \<Rightarrow> mpp_memory option"

definition import_object :: "object_env \<Rightarrow> u32 \<Rightarrow> SDriver \<Rightarrow> ((VAStatus + nat) \<times> SDriver) outcome" where
  "import_object e bytes d =
     (let fd = oe_dup e
      in if fd < 0 then Ok (Inl VA_STATUS_ERROR_ALLOCATION_FAILED, d)
         else let d = take_res (R_Fd fd) d
         in if \<not> oe_sync_start e \<or> \<not> oe_sync_end e
            then obind (give_back (R_Fd fd) d) (\<lambda>d. Ok (Inl VA_STATUS_ERROR_INVALID_PARAMETER, d))
            else case oe_buffer e (ucast bytes) of
              None \<Rightarrow> obind (give_back (R_Fd fd) d) (\<lambda>d. Ok (Inl VA_STATUS_ERROR_ALLOCATION_FAILED, d))
            | Some m \<Rightarrow> (let (q, d) = mpp_new_buffer m d in Ok (Inr q, d)))"

record import_env =
  ie_rga :: bool
  ie_luma :: object_env
  ie_chroma :: object_env

definition import_assign ::
    "import_env \<Rightarrow> prime_descriptor \<Rightarrow> nat \<Rightarrow> nat option \<Rightarrow> SurfaceObject \<Rightarrow> SurfaceObject" where
  "import_assign e pd q qc s =
     (let multiplane = is_multiplane s pd; rgb = rgb_fourcc (sf_fourcc s); p010 = sf_fourcc s = VA_FOURCC_P010;
          s = s\<lparr>sf_import_buf := Some q, sf_import_fd := oe_dup (ie_luma e),
                sf_import_size := ucast (po_size (pd_object0 pd)), sf_import_pitch := pd_pitch0 pd,
                sf_import_chroma_buf := qc, sf_import_chroma_fd := (if multiplane then oe_dup (ie_chroma e) else - 1),
                sf_import_chroma_size := (if multiplane then ucast (po_size (pd_object1 pd)) else 0),
                sf_import_chroma_pitch := (if multiplane then pd_pitch1 pd else 0),
                sf_import_drm_format := pd_drm_format pd, sf_imported_rgb := rgb, sf_imported_multiplane := multiplane\<rparr>
      in if \<not> rgb \<and> \<not> multiplane
         then s\<lparr>sf_hstride := sint (pd_pitch0 pd div (if p010 then 2 else 1)), sf_vstride := sf_height s\<rparr> else s)"

text \<open>The second object is released together with the first when it cannot be imported.\<close>

definition import_surface_descriptor ::
    "import_env \<Rightarrow> nat \<Rightarrow> prime_descriptor option \<Rightarrow> SurfaceObject \<Rightarrow> SDriver \<Rightarrow> (VAStatus \<times> SDriver) outcome" where
  "import_surface_descriptor e p descriptor s d =
     (case import_check (ie_rga e) s descriptor of
        Inl status \<Rightarrow> Ok (status, d)
      | Inr pd \<Rightarrow>
          obind (import_object (ie_luma e) (po_size (pd_object0 pd)) d) (\<lambda>(r, d).
            case r of
              Inl status \<Rightarrow> Ok (status, d)
            | Inr q \<Rightarrow>
                if \<not> is_multiplane s pd
                then Ok (VA_STATUS_SUCCESS, surf_set p (import_assign e pd q None s) d)
                else obind (import_object (ie_chroma e) (po_size (pd_object1 pd)) d) (\<lambda>(r, d).
                  case r of
                    Inl status \<Rightarrow>
                      obind (give_all [R_Buffer q, R_Fd (oe_dup (ie_luma e))] d) (\<lambda>d. Ok (status, d))
                  | Inr qc \<Rightarrow> Ok (VA_STATUS_SUCCESS, surf_set p (import_assign e pd q (Some qc) s) d))))"

section \<open>Creation and destruction\<close>

definition RK_MAX_WIDTH :: int where
  "RK_MAX_WIDTH = 8192"

definition RK_MAX_HEIGHT :: int where
  "RK_MAX_HEIGHT = 8192"

definition zero_surface :: "int \<Rightarrow> int \<Rightarrow> VAFourcc \<Rightarrow> SurfaceObject" where
  "zero_surface width height fourcc =
     \<lparr>sf_width = width, sf_height = height, sf_frame = None, sf_backing_buf = None, sf_decode_pool = None,
      sf_hstride = 0, sf_vstride = 0, sf_priv_group = None, sf_priv_buf = None, sf_stable_export = False,
      sf_export_buf = None, sf_import_buf = None, sf_import_fd = - 1, sf_import_size = 0, sf_import_pitch = 0,
      sf_import_chroma_buf = None, sf_import_chroma_fd = - 1, sf_import_chroma_size = 0, sf_import_chroma_pitch = 0,
      sf_import_drm_format = DRM_FORMAT_Other 0, sf_imported_rgb = False, sf_imported_multiplane = False,
      sf_encoder_input = False, sf_10bit = (fourcc = VA_FOURCC_P010), sf_fbc = False, sf_fourcc = fourcc,
      sf_decoded = False, sf_decode_failed = False, sf_ctx_id = 0, sf_fence = 0\<rparr>"

text \<open>The strides of a surface whose pixels live in the placeholder.\<close>

definition placeholder_hstride :: "int \<Rightarrow> bool \<Rightarrow> int" where
  "placeholder_hstride width wide =
     (let horizontal_alignment = (if wide then 64 else 16) :: u32
      in sint ((of_int width + horizontal_alignment - 1) AND NOT (horizontal_alignment - 1)))"

definition placeholder_vstride :: "int \<Rightarrow> int" where
  "placeholder_vstride height = (height + 15) AND NOT 15"

record create_env =
  ce_object :: bool
  ce_lock :: bool
  ce_import :: import_env
  ce_group :: bool
  ce_buffer :: "u64 \<Rightarrow> mpp_memory option"
  ce_heap :: bool

definition placeholder_assign ::
    "bool \<Rightarrow> bool \<Rightarrow> nat \<Rightarrow> nat \<Rightarrow> SurfaceObject \<Rightarrow> SurfaceObject" where
  "placeholder_assign imports encoder_input grp q s =
     (let s = s\<lparr>sf_priv_group := Some grp, sf_priv_buf := Some q\<rparr>;
          is_10bit = sf_fourcc s = VA_FOURCC_P010;
          s = (if \<not> imports \<or> sf_imported_rgb s \<or> sf_imported_multiplane s
               then s\<lparr>sf_hstride := placeholder_hstride (sf_width s) (\<not> imports \<and> \<not> encoder_input \<and> \<not> is_10bit),
                      sf_vstride := placeholder_vstride (sf_height s)\<rparr>
               else s)
      in s\<lparr>sf_encoder_input := encoder_input\<rparr>)"

definition create_placeholder ::
    "create_env \<Rightarrow> bool \<Rightarrow> bool \<Rightarrow> nat \<Rightarrow> SurfaceObject \<Rightarrow> SDriver \<Rightarrow> SDriver outcome" where
  "create_placeholder e imports encoder_input p s d =
     (case rk_surface_placeholder_size (of_int (sf_width s)) (of_int (sf_height s)) (sf_fourcc s = VA_FOURCC_P010) of
        None \<Rightarrow> Ok d
      | Some alloc_size \<Rightarrow>
          if \<not> ce_group e then Ok d
          else let (grp, d) = mpp_new_group d
          in case ce_buffer e alloc_size of
               None \<Rightarrow> give_back (R_Group grp) d
             | Some m \<Rightarrow>
                 let (q, d) = mpp_new_buffer m d
                 in if mb_fd m \<ge> 0 then Ok (surf_set p (placeholder_assign imports encoder_input grp q s) d)
                    else give_all [R_Buffer q, R_Group grp] d)"

text \<open>\<open>calloc\<close> and \<open>rk_object_init\<close>.\<close>

definition new_surface :: "SurfaceObject \<Rightarrow> SDriver \<Rightarrow> nat \<times> SDriver" where
  "new_surface s d =
     (let p = sd_brk d
      in (p, d\<lparr>sd_drv := (sd_drv d)\<lparr>d_brk := Suc p, d_objs := rk_object_init p (sd_objs d)\<rparr>,
              sd_surf := (sd_surf d)(p \<mapsto> s)\<rparr>))"

definition drop_surface :: "nat \<Rightarrow> VAStatus \<Rightarrow> SDriver \<Rightarrow> ((VAStatus + u32) \<times> SDriver) outcome" where
  "drop_surface p status d = obind (surface_unref p d) (\<lambda>d. Ok (Inl status, d))"

text \<open>From the placeholder to the identifier.\<close>

definition finish_surface ::
    "create_env \<Rightarrow> bool \<Rightarrow> bool \<Rightarrow> nat \<Rightarrow> SDriver \<Rightarrow> ((VAStatus + u32) \<times> SDriver) outcome" where
  "finish_surface e imports encoder_input p d =
     obind (surface_at d p) (\<lambda>s.
     obind (create_placeholder e imports encoder_input p s d) (\<lambda>d.
     obind (surface_at d p) (\<lambda>s.
       if sf_priv_buf s = None then drop_surface p VA_STATUS_ERROR_ALLOCATION_FAILED d
       else obind (rk_object_heap_insert (ce_heap e) (sd_surface_heap d) p) (\<lambda>(sid, h).
         let d = d\<lparr>sd_surface_heap := h\<rparr>
         in case sid of
              None \<Rightarrow> drop_surface p VA_STATUS_ERROR_ALLOCATION_FAILED d
            | Some sid \<Rightarrow> Ok (Inr sid, d)))))"

text \<open>One round of the loop; \<open>descriptor\<close> is the entry of \<open>imports\<close> for it.\<close>

definition create_surface ::
    "create_env \<Rightarrow> int \<Rightarrow> int \<Rightarrow> VAFourcc \<Rightarrow> prime_descriptor option \<Rightarrow> bool \<Rightarrow> SDriver \<Rightarrow>
       ((VAStatus + u32) \<times> SDriver) outcome" where
  "create_surface e width height fourcc descriptor encoder_input d =
     (if \<not> ce_object e \<or> \<not> ce_lock e then Ok (Inl VA_STATUS_ERROR_ALLOCATION_FAILED, d)
      else let s = zero_surface width height fourcc; (p, d) = new_surface s d
      in if descriptor = None then finish_surface e False encoder_input p d
         else obind (import_surface_descriptor (ce_import e) p descriptor s d) (\<lambda>(status, d).
           if status \<noteq> VA_STATUS_SUCCESS then drop_surface p status d
           else finish_surface e True encoder_input p d))"

definition destroy_one :: "u32 \<Rightarrow> SDriver \<Rightarrow> SDriver outcome" where
  "destroy_one sid d =
     obind (rk_object_heap_remove (sd_surface_heap d) sid) (\<lambda>(p, h).
       let d = d\<lparr>sd_surface_heap := h\<rparr>
       in case p of None \<Rightarrow> Ok d | Some p \<Rightarrow> surface_unref p d)"

fun rk_DestroySurfaces :: "u32 list \<Rightarrow> SDriver \<Rightarrow> SDriver outcome" where
  "rk_DestroySurfaces [] d = Ok d"
| "rk_DestroySurfaces (sid # sids) d = obind (destroy_one sid d) (rk_DestroySurfaces sids)"

text \<open>
  The loop of \<open>create_surfaces\<close>; \<open>ids\<close> holds the identifiers written so far. The rollback is the
  loop of \<open>rk_DestroySurfaces\<close> over them.
\<close>

fun create_loop ::
    "(nat \<Rightarrow> create_env) \<Rightarrow> nat \<Rightarrow> nat \<Rightarrow> int \<Rightarrow> int \<Rightarrow> VAFourcc \<Rightarrow> prime_descriptor list option \<Rightarrow> bool \<Rightarrow> u32 list \<Rightarrow> SDriver \<Rightarrow>
       ((VAStatus + u32 list) \<times> SDriver) outcome" where
  "create_loop env 0 i width height fourcc imports encoder_input ids d = Ok (Inr ids, d)"
| "create_loop env (Suc k) i width height fourcc imports encoder_input ids d =
     (if (case imports of None \<Rightarrow> False | Some pds \<Rightarrow> i \<ge> length pds) then Fault
      else obind (create_surface (env i) width height fourcc (map_option (\<lambda>pds. pds ! i) imports) encoder_input d) (\<lambda>(r, d).
        case r of
          Inl status \<Rightarrow> obind (rk_DestroySurfaces ids d) (\<lambda>d. Ok (Inl status, d))
        | Inr sid \<Rightarrow> create_loop env k (Suc i) width height fourcc imports encoder_input (ids @ [sid]) d))"

definition create_surfaces ::
    "(nat \<Rightarrow> create_env) \<Rightarrow> int \<Rightarrow> int \<Rightarrow> int \<Rightarrow> bool \<Rightarrow> VAFourcc \<Rightarrow> prime_descriptor list option \<Rightarrow> bool \<Rightarrow> SDriver \<Rightarrow>
       ((VAStatus + u32 list) \<times> SDriver) outcome" where
  "create_surfaces env width height n ids fourcc imports encoder_input d =
     (if width \<le> 0 \<or> height \<le> 0 \<or> n < 0 \<or> (n > 0 \<and> \<not> ids) then Ok (Inl VA_STATUS_ERROR_INVALID_PARAMETER, d)
      else if width > RK_MAX_WIDTH \<or> height > RK_MAX_HEIGHT then Ok (Inl VA_STATUS_ERROR_RESOLUTION_NOT_SUPPORTED, d)
      else if (fourcc = VA_FOURCC_I420 \<or> fourcc = VA_FOURCC_YV12 \<or> fourcc = VA_FOURCC_P010) \<and>
              (width AND 1 \<noteq> 0 \<or> height AND 1 \<noteq> 0) then Ok (Inl VA_STATUS_ERROR_INVALID_PARAMETER, d)
      else create_loop env (nat n) 0 width height fourcc imports encoder_input [] d)"

datatype VARTFormat = VA_RT_FORMAT_YUV420 | VA_RT_FORMAT_YUV420_10 | VA_RT_FORMAT_RGB32 | VA_RT_FORMAT_Other nat

definition rk_CreateSurfaces ::
    "(nat \<Rightarrow> create_env) \<Rightarrow> int \<Rightarrow> int \<Rightarrow> VARTFormat \<Rightarrow> int \<Rightarrow> bool \<Rightarrow> SDriver \<Rightarrow> ((VAStatus + u32 list) \<times> SDriver) outcome" where
  "rk_CreateSurfaces env width height format n ids d =
     (if format \<noteq> VA_RT_FORMAT_YUV420 \<and> format \<noteq> VA_RT_FORMAT_YUV420_10 then Ok (Inl VA_STATUS_ERROR_UNSUPPORTED_RT_FORMAT, d)
      else create_surfaces env width height n ids
             (if format = VA_RT_FORMAT_YUV420_10 then VA_FOURCC_P010 else VA_FOURCC_NV12) None False d)"

subsection \<open>Attributes\<close>

text \<open>
  An attribute of \<open>vaCreateSurfaces2\<close>; \<open>None\<close> is a value of the wrong generic type. The usage hint
  is its encoder bit, the descriptor array is a pointer and what it points to.
\<close>

datatype mem_type = VA_SURFACE_ATTRIB_MEM_TYPE_VA | VA_SURFACE_ATTRIB_MEM_TYPE_DRM_PRIME_2 | Mem_Type_Other nat

datatype surface_attrib =
    VASurfaceAttribUsageHint "bool option"
  | VASurfaceAttribMemoryType "mem_type option"
  | VASurfaceAttribExternalBufferDescriptor "(nat \<times> prime_descriptor list) option"
  | VASurfaceAttribPixelFormat "VAFourcc option"
  | VASurfaceAttribOther nat

record attrib_state =
  at_fourcc :: VAFourcc
  at_pixel_format_seen :: bool
  at_memory_type_seen :: bool
  at_memory_type :: mem_type
  at_descriptor :: "(nat \<times> prime_descriptor list) option"
  at_encoder_input :: bool

definition format_matches :: "VARTFormat \<Rightarrow> VAFourcc \<Rightarrow> bool" where
  "format_matches format requested \<longleftrightarrow>
     \<not> ((format = VA_RT_FORMAT_YUV420_10 \<and> requested \<noteq> VA_FOURCC_P010) \<or>
        (format = VA_RT_FORMAT_YUV420 \<and> requested \<noteq> VA_FOURCC_NV12 \<and> requested \<noteq> VA_FOURCC_I420 \<and> requested \<noteq> VA_FOURCC_YV12) \<or>
        (format = VA_RT_FORMAT_RGB32 \<and> \<not> rgb_fourcc requested))"

definition known_fourcc :: "VAFourcc \<Rightarrow> bool" where
  "known_fourcc f \<longleftrightarrow> f = VA_FOURCC_NV12 \<or> f = VA_FOURCC_P010 \<or> f = VA_FOURCC_I420 \<or> f = VA_FOURCC_YV12 \<or> rgb_fourcc f"

fun surface_attrib_step :: "VARTFormat \<Rightarrow> surface_attrib \<Rightarrow> attrib_state \<Rightarrow> VAStatus + attrib_state" where
  "surface_attrib_step format (VASurfaceAttribUsageHint v) a =
     Inr (if v = Some True then a\<lparr>at_encoder_input := True\<rparr> else a)"
| "surface_attrib_step format (VASurfaceAttribMemoryType None) a = Inl VA_STATUS_ERROR_INVALID_PARAMETER"
| "surface_attrib_step format (VASurfaceAttribMemoryType (Some requested)) a =
     (if requested \<noteq> VA_SURFACE_ATTRIB_MEM_TYPE_VA \<and> requested \<noteq> VA_SURFACE_ATTRIB_MEM_TYPE_DRM_PRIME_2
      then Inl VA_STATUS_ERROR_UNSUPPORTED_MEMORY_TYPE
      else if at_memory_type_seen a \<and> requested \<noteq> at_memory_type a then Inl VA_STATUS_ERROR_INVALID_PARAMETER
      else Inr (a\<lparr>at_memory_type := requested, at_memory_type_seen := True\<rparr>))"
| "surface_attrib_step format (VASurfaceAttribExternalBufferDescriptor None) a = Inl VA_STATUS_ERROR_INVALID_PARAMETER"
| "surface_attrib_step format (VASurfaceAttribExternalBufferDescriptor (Some requested)) a =
     (if (case at_descriptor a of None \<Rightarrow> False | Some seen \<Rightarrow> fst requested \<noteq> fst seen) then Inl VA_STATUS_ERROR_INVALID_PARAMETER
      else Inr (a\<lparr>at_descriptor := Some requested\<rparr>))"
| "surface_attrib_step format (VASurfaceAttribPixelFormat None) a = Inl VA_STATUS_ERROR_INVALID_PARAMETER"
| "surface_attrib_step format (VASurfaceAttribPixelFormat (Some requested)) a =
     (if at_pixel_format_seen a \<and> requested \<noteq> at_fourcc a then Inl VA_STATUS_ERROR_INVALID_PARAMETER
      else if \<not> known_fourcc requested then Inl VA_STATUS_ERROR_ATTR_NOT_SUPPORTED
      else if \<not> format_matches format requested then Inl VA_STATUS_ERROR_UNSUPPORTED_RT_FORMAT
      else Inr (a\<lparr>at_fourcc := requested, at_pixel_format_seen := True\<rparr>))"
| "surface_attrib_step format (VASurfaceAttribOther n) a = Inr a"

fun surface_attribs :: "VARTFormat \<Rightarrow> surface_attrib list \<Rightarrow> attrib_state \<Rightarrow> VAStatus + attrib_state" where
  "surface_attribs format [] a = Inr a"
| "surface_attribs format (x # xs) a =
     (case surface_attrib_step format x a of Inl status \<Rightarrow> Inl status | Inr a \<Rightarrow> surface_attribs format xs a)"

definition attrib_request :: "attrib_state \<Rightarrow> VAStatus + VAFourcc \<times> prime_descriptor list option \<times> bool" where
  "attrib_request a =
     (let imported = at_memory_type a = VA_SURFACE_ATTRIB_MEM_TYPE_DRM_PRIME_2; fourcc = at_fourcc a
      in if imported \<noteq> (at_descriptor a \<noteq> None) then Inl VA_STATUS_ERROR_INVALID_PARAMETER
         else if rgb_fourcc fourcc \<and> \<not> imported then Inl VA_STATUS_ERROR_UNSUPPORTED_MEMORY_TYPE
         else if imported \<and> fourcc \<noteq> VA_FOURCC_NV12 \<and> fourcc \<noteq> VA_FOURCC_P010 \<and> \<not> rgb_fourcc fourcc
         then Inl VA_STATUS_ERROR_ATTR_NOT_SUPPORTED
         else Inr (fourcc, if imported then map_option snd (at_descriptor a) else None, at_encoder_input a))"

definition rt_fourcc :: "VARTFormat \<Rightarrow> VAFourcc option" where
  "rt_fourcc format =
     (case format of VA_RT_FORMAT_YUV420 \<Rightarrow> Some VA_FOURCC_NV12 | VA_RT_FORMAT_YUV420_10 \<Rightarrow> Some VA_FOURCC_P010
      | VA_RT_FORMAT_RGB32 \<Rightarrow> Some VA_FOURCC_BGRA | VA_RT_FORMAT_Other _ \<Rightarrow> None)"

definition attrib_start :: "VAFourcc \<Rightarrow> attrib_state" where
  "attrib_start fourcc =
     \<lparr>at_fourcc = fourcc, at_pixel_format_seen = False, at_memory_type_seen = False,
      at_memory_type = VA_SURFACE_ATTRIB_MEM_TYPE_VA, at_descriptor = None, at_encoder_input = False\<rparr>"

definition rk_CreateSurfaces2 ::
    "(nat \<Rightarrow> create_env) \<Rightarrow> VARTFormat \<Rightarrow> u32 \<Rightarrow> u32 \<Rightarrow> bool \<Rightarrow> u32 \<Rightarrow> surface_attrib list option \<Rightarrow> u32 \<Rightarrow> SDriver \<Rightarrow>
       ((VAStatus + u32 list) \<times> SDriver) outcome" where
  "rk_CreateSurfaces2 env format width height ids n attribs n_attribs d =
     (if (n_attribs > 0 \<and> attribs = None) \<or> width > 0x7fffffff \<or> height > 0x7fffffff \<or> n > 0x7fffffff
      then Ok (Inl VA_STATUS_ERROR_INVALID_PARAMETER, d)
      else case rt_fourcc format of
        None \<Rightarrow> Ok (Inl VA_STATUS_ERROR_UNSUPPORTED_RT_FORMAT, d)
      | Some fourcc \<Rightarrow>
          let xs = (if n_attribs = 0 then [] else the attribs)
          in if length xs < unat n_attribs then Fault
             else case surface_attribs format (take (unat n_attribs) xs) (attrib_start fourcc) of
               Inl status \<Rightarrow> Ok (Inl status, d)
             | Inr a \<Rightarrow> (case attrib_request a of
                   Inl status \<Rightarrow> Ok (Inl status, d)
                 | Inr (fourcc, imports, encoder_input) \<Rightarrow>
                     create_surfaces env (uint width) (uint height) (uint n) ids fourcc imports encoder_input d))"

section \<open>Waiting and status\<close>

text \<open>
  \<open>sync_surface_timeout\<close> re-reads three fields of the surface each time it wakes up. A wake-up is the
  result of the wait and the values found after it; \<open>Fail\<close> says that the call has not returned by the
  end of the given wake-ups.
\<close>

datatype wait_result = Wait_Ok | Wait_Timeout | Wait_Error

record sync_view =
  sv_failed :: bool
  sv_decoded :: bool
  sv_ctx_id :: u32

definition sync_view_of :: "SurfaceObject \<Rightarrow> sync_view" where
  "sync_view_of s = \<lparr>sv_failed = sf_decode_failed s, sv_decoded = sf_decoded s, sv_ctx_id = sf_ctx_id s\<rparr>"

fun sync_wait :: "bool \<Rightarrow> sync_view \<Rightarrow> (wait_result \<times> sync_view) list \<Rightarrow> VAStatus outcome" where
  "sync_wait poll v wakeups =
     (if sv_failed v then Ok VA_STATUS_ERROR_DECODING_ERROR
      else if sv_decoded v \<or> sv_ctx_id v = 0 then Ok VA_STATUS_SUCCESS
      else if poll then Ok VA_STATUS_ERROR_TIMEDOUT
      else case wakeups of
        [] \<Rightarrow> Fail
      | (w, v) # wakeups \<Rightarrow>
          if w = Wait_Timeout then Ok VA_STATUS_ERROR_TIMEDOUT
          else if w = Wait_Error then Ok VA_STATUS_ERROR_OPERATION_FAILED
          else sync_wait poll v wakeups)"

text \<open>The entry points acquire the surface, run and drop the reference.\<close>

definition with_surface ::
    "SDriver \<Rightarrow> u32 \<Rightarrow> (nat \<Rightarrow> SurfaceObject \<Rightarrow> SDriver \<Rightarrow> ((VAStatus + 'a) \<times> SDriver) outcome) \<Rightarrow> ((VAStatus + 'a) \<times> SDriver) outcome" where
  "with_surface d sid body =
     obind (surface_acquire d sid) (\<lambda>(p, d).
       case p of
         None \<Rightarrow> Ok (Inl VA_STATUS_ERROR_INVALID_SURFACE, d)
       | Some p \<Rightarrow> obind (surface_at d p) (\<lambda>s. obind (body p s d) (\<lambda>(r, d).
           obind (surface_unref p d) (\<lambda>d. Ok (r, d)))))"

definition VA_TIMEOUT_INFINITE :: u64 where
  "VA_TIMEOUT_INFINITE = - 1"

definition sync_surface_timeout ::
    "(wait_result \<times> sync_view) list \<Rightarrow> SDriver \<Rightarrow> u32 \<Rightarrow> u64 \<Rightarrow> ((VAStatus + unit) \<times> SDriver) outcome" where
  "sync_surface_timeout wakeups d sid timeout_ns =
     with_surface d sid (\<lambda>p s d. obind (sync_wait (timeout_ns = 0) (sync_view_of s) wakeups) (\<lambda>status.
       Ok (if status = VA_STATUS_SUCCESS then Inr () else Inl status, d)))"

definition rk_SyncSurface :: "(wait_result \<times> sync_view) list \<Rightarrow> SDriver \<Rightarrow> u32 \<Rightarrow> ((VAStatus + unit) \<times> SDriver) outcome" where
  "rk_SyncSurface wakeups d sid = sync_surface_timeout wakeups d sid VA_TIMEOUT_INFINITE"

datatype VASurfaceStatus = VASurfaceReady | VASurfaceRendering

definition surface_status :: "sync_view \<Rightarrow> VASurfaceStatus" where
  "surface_status v = (if sv_decoded v \<or> sv_ctx_id v = 0 then VASurfaceReady else VASurfaceRendering)"

definition rk_QuerySurfaceStatus :: "SDriver \<Rightarrow> u32 \<Rightarrow> ((VAStatus + VASurfaceStatus) \<times> SDriver) outcome" where
  "rk_QuerySurfaceStatus d sid = with_surface d sid (\<lambda>p s d. Ok (Inr (surface_status (sync_view_of s)), d))"

section \<open>Layout of the current buffer\<close>

definition active_buffer :: "SurfaceObject \<Rightarrow> nat option" where
  "active_buffer s =
     (case sf_import_buf s of Some q \<Rightarrow> Some q | None \<Rightarrow>
        case sf_backing_buf s of Some q \<Rightarrow> Some q | None \<Rightarrow>
          case sf_frame s of Some (f, q) \<Rightarrow> q | None \<Rightarrow> sf_priv_buf s)"

definition surface_linear_layout :: "SDriver \<Rightarrow> SurfaceObject \<Rightarrow> (int \<times> u64 \<times> u32 \<times> u64) option outcome" where
  "surface_linear_layout d s =
     (if sf_imported_multiplane s then Ok None
      else obind (case active_buffer s of None \<Rightarrow> Ok (- 1, 0) | Some q \<Rightarrow> obind (mem_at d q) (\<lambda>m. Ok (mb_fd m, mb_size m)))
        (\<lambda>(fd, object_size).
          let hstride = of_int (if sf_hstride s \<noteq> 0 then sf_hstride s else sf_width s) :: u32;
              vstride = of_int (if sf_vstride s \<noteq> 0 then sf_vstride s else sf_height s) :: u32
          in if fd < 0 \<or> object_size = 0 then Ok None
             else let pitch = (if sf_10bit s then hstride * 2 else hstride);
                      chroma_offset = ucast pitch * ucast vstride :: u64
                  in if chroma_offset + chroma_offset div 2 > object_size then Ok None
                     else Ok (Some (fd, object_size, pitch, chroma_offset))))"

section \<open>Two-object imports\<close>

record norm_env =
  ne_start_y :: bool
  ne_start_uv :: bool
  ne_start_dst :: bool
  ne_end_dst :: bool
  ne_end_uv :: bool
  ne_end_y :: bool

definition sd_sync :: "sys_event list \<Rightarrow> SDriver \<Rightarrow> SDriver" where
  "sd_sync evs d = d\<lparr>sd_drv := sys_log evs (sd_drv d)\<rparr>"

definition norm_ready :: "SurfaceObject \<Rightarrow> bool" where
  "norm_ready s \<longleftrightarrow> sf_imported_multiplane s \<and> sf_import_buf s \<noteq> None \<and> sf_import_chroma_buf s \<noteq> None \<and>
     sf_priv_buf s \<noteq> None \<and> sf_import_fd s \<ge> 0 \<and> sf_import_chroma_fd s \<ge> 0"

definition norm_pitch :: "SurfaceObject \<Rightarrow> u64" where
  "norm_pitch s = ucast (of_int (sf_hstride s) :: u32) * (if sf_10bit s then 2 else 1)"

definition norm_row :: "SurfaceObject \<Rightarrow> u64" where
  "norm_row s = ucast (of_int (sf_width s) :: u32) * (if sf_10bit s then 2 else 1)"

text \<open>The guards on the layout; the result is \<open>destination_size\<close>.\<close>

definition norm_layout :: "SurfaceObject \<Rightarrow> mpp_memory \<Rightarrow> u64 option" where
  "norm_layout s m =
     (if sf_width s \<le> 0 \<or> sf_height s \<le> 0 \<or> sf_hstride s < sf_width s \<or> sf_vstride s < sf_height s \<or>
         ucast (sf_import_pitch s) < norm_row s \<or> ucast (sf_import_chroma_pitch s) < norm_row s then None
      else case rk_nv12_layout_size (norm_pitch s) (ucast (of_int (sf_vstride s) :: u32)) of
        None \<Rightarrow> None
      | Some destination_size \<Rightarrow> if destination_size > mb_size m then None else Some destination_size)"

definition norm_copy :: "SurfaceObject \<Rightarrow> u64 \<Rightarrow> mem \<Rightarrow> mem \<Rightarrow> mem \<Rightarrow> mem outcome" where
  "norm_copy s destination_size y uv destination =
     obind (mem_write destination 0 (replicate (unat destination_size) 0)) (\<lambda>destination.
     obind (copy_rows (nat (sf_height s)) 0 (unat (norm_row s)) y 0 (ucast (sf_import_pitch s)) 0 (norm_pitch s) destination)
       (copy_rows (nat (sf_height s div 2)) 0 (unat (norm_row s)) uv 0 (ucast (sf_import_chroma_pitch s))
          (norm_pitch s * ucast (of_int (sf_vstride s) :: u32)) (norm_pitch s)))"

definition mem_set :: "nat \<Rightarrow> mem \<Rightarrow> SDriver \<Rightarrow> SDriver" where
  "mem_set q bytes d = (case sd_mem d q of None \<Rightarrow> d | Some m \<Rightarrow> d\<lparr>sd_mem := (sd_mem d)(q \<mapsto> m\<lparr>mb_bytes := bytes\<rparr>)\<rparr>)"

definition norm_move :: "SurfaceObject \<Rightarrow> u64 \<Rightarrow> nat \<Rightarrow> mpp_memory \<Rightarrow> SDriver \<Rightarrow> (bool \<times> SDriver) outcome" where
  "norm_move s destination_size q m d =
     obind (mem_at d (the (sf_import_buf s))) (\<lambda>y. obind (mem_at d (the (sf_import_chroma_buf s))) (\<lambda>uv.
       if mb_ptr y \<and> mb_ptr uv \<and> mb_ptr m
       then obind (norm_copy s destination_size (mb_bytes y) (mb_bytes uv) (mb_bytes m)) (\<lambda>bytes. Ok (True, mem_set q bytes d))
       else Ok (False, d)))"

definition rk_surface_normalize_multiplane_import ::
    "norm_env \<Rightarrow> SurfaceObject \<Rightarrow> SDriver \<Rightarrow> (bool \<times> SDriver) outcome" where
  "rk_surface_normalize_multiplane_import e s d =
     (if \<not> norm_ready s then Ok (False, d)
      else let q = the (sf_priv_buf s); y_fd = sf_import_fd s; uv_fd = sf_import_chroma_fd s in
        obind (mem_at d q) (\<lambda>m.
        case norm_layout s m of
          None \<Rightarrow> Ok (False, d)
        | Some destination_size \<Rightarrow>
            let y_started = ne_start_y e; uv_started = y_started \<and> ne_start_uv e;
                destination_started = uv_started \<and> mb_fd m \<ge> 0 \<and> ne_start_dst e;
                d = sd_sync ((if y_started then [Ev_Sync_Start y_fd] else []) @
                             (if uv_started then [Ev_Sync_Start uv_fd] else []) @
                             (if destination_started then [Ev_Sync_Start (mb_fd m)] else [])) d
            in obind (if destination_started then norm_move s destination_size q m d else Ok (False, d)) (\<lambda>(copied, d).
                 let d = sd_sync ((if destination_started then [Ev_Sync_End (mb_fd m)] else []) @
                                  (if uv_started then [Ev_Sync_End uv_fd] else []) @
                                  (if y_started then [Ev_Sync_End y_fd] else [])) d;
                     sync_ok = (destination_started \<longrightarrow> ne_end_dst e) \<and> (uv_started \<longrightarrow> ne_end_uv e) \<and> (y_started \<longrightarrow> ne_end_y e)
                 in Ok (copied \<and> sync_ok, d))))"

end
