(* ===== verification/Surface_Accounts.thy ===== *)
theory Surface_Accounts
  imports Surfaces
begin

unbundle bit_operations_syntax

text \<open>
  The invariant of the surfaces of a driver and its preservation. The accounts say that the
  resources the driver holds are exactly those in the fields of its surfaces, that the memory of a
  buffer is there as long as a surface refers to it, and that the planes a surface describes end
  inside its buffers. Intermediate states of the construction of a surface satisfy the accounts
  with the resources in local variables named explicitly.
\<close>

section \<open>Invariant\<close>

definition mem_ok :: "mpp_memory \<Rightarrow> bool" where
  "mem_ok m \<longleftrightarrow> init_prefix (unat (mb_size m)) (mb_bytes m)"

definition room :: "(nat \<rightharpoonup> mpp_memory) \<Rightarrow> nat \<Rightarrow> nat \<Rightarrow> bool" where
  "room mem q n \<longleftrightarrow> (case mem q of None \<Rightarrow> False | Some m \<Rightarrow> n \<le> unat (mb_size m))"

text \<open>The buffer the strides of a surface without a decoded picture describe.\<close>

definition pixel_buffer :: "SurfaceObject \<Rightarrow> nat option" where
  "pixel_buffer s =
     (if sf_import_buf s \<noteq> None \<and> \<not> sf_imported_rgb s \<and> \<not> sf_imported_multiplane s then sf_import_buf s else sf_priv_buf s)"

definition bytes_per_sample :: "SurfaceObject \<Rightarrow> nat" where
  "bytes_per_sample s = (if sf_10bit s then 2 else 1)"

definition pixels_fit :: "(nat \<rightharpoonup> mpp_memory) \<Rightarrow> SurfaceObject \<Rightarrow> bool" where
  "pixels_fit mem s \<longleftrightarrow> sf_width s \<le> sf_hstride s \<and> sf_height s \<le> sf_vstride s \<and>
     (\<forall>q. pixel_buffer s = Some q \<longrightarrow>
        room mem q (nat (sf_hstride s) * bytes_per_sample s * (nat (sf_vstride s) + nat (sf_height s) div 2)))"

text \<open>The planes of an import end inside its objects.\<close>

definition import_fits :: "(nat \<rightharpoonup> mpp_memory) \<Rightarrow> SurfaceObject \<Rightarrow> bool" where
  "import_fits mem s \<longleftrightarrow>
     (\<forall>q. sf_import_buf s = Some q \<longrightarrow> room mem q (unat (sf_import_size s)) \<and>
        unat (sf_import_pitch s) * nat (sf_height s) \<le> unat (sf_import_size s)) \<and>
     (\<forall>q. sf_import_chroma_buf s = Some q \<longrightarrow> room mem q (unat (sf_import_chroma_size s)) \<and>
        unat (sf_import_chroma_pitch s) * (nat (sf_height s) div 2) \<le> unat (sf_import_chroma_size s))"

definition c_int :: "int \<Rightarrow> bool" where
  "c_int k \<longleftrightarrow> - (2 ^ 31) \<le> k \<and> k < 2 ^ 31"

text \<open>
  A surface under construction (\<open>built\<close> false) has no placeholder yet. The rows of a decoded picture
  are covered by the strides that MPP reports for it.
\<close>

definition surface_ok :: "bool \<Rightarrow> (nat \<rightharpoonup> mpp_memory) \<Rightarrow> SurfaceObject \<Rightarrow> bool" where
  "surface_ok built mem s \<longleftrightarrow> 0 < sf_width s \<and> sf_width s \<le> RK_MAX_WIDTH \<and> 0 < sf_height s \<and> sf_height s \<le> RK_MAX_HEIGHT \<and>
     c_int (sf_hstride s) \<and> c_int (sf_vstride s) \<and> (built \<longrightarrow> sf_priv_buf s \<noteq> None) \<and> import_fits mem s \<and>
     (built \<or> sf_import_buf s \<noteq> None \<and> \<not> sf_imported_rgb s \<and> \<not> sf_imported_multiplane s \<longrightarrow> sf_height s \<le> sf_vstride s) \<and>
     (sf_frame s = None \<and> sf_backing_buf s = None \<and> (sf_import_buf s = None \<or> 2 \<le> sf_height s) \<and>
      (built \<or> sf_import_buf s \<noteq> None \<and> \<not> sf_imported_rgb s \<and> \<not> sf_imported_multiplane s) \<longrightarrow> pixels_fit mem s)"

definition held_by :: "(nat \<rightharpoonup> SurfaceObject) \<Rightarrow> resource multiset" where
  "held_by surf = (\<Sum>p \<in> dom surf. mset (surface_held (the (surf p))))"

text \<open>
  The accounts with the resources \<open>extra\<close> in the hands of a running function and the surfaces
  \<open>X\<close> under construction.
\<close>

definition mems_ok :: "nat \<Rightarrow> (nat \<rightharpoonup> mpp_memory) \<Rightarrow> resource list \<Rightarrow> bool" where
  "mems_ok brk mem kept \<longleftrightarrow> (\<forall>q. mem q \<noteq> None \<longleftrightarrow> Some q \<in> res_buf ` set kept) \<and>
     (\<forall>q m. mem q = Some m \<longrightarrow> q < brk \<and> mem_ok m)"

definition accounts :: "nat set \<Rightarrow> resource multiset \<Rightarrow> SDriver \<Rightarrow> bool" where
  "accounts X extra d \<longleftrightarrow> finite (dom (sd_surf d)) \<and> mset (sd_open d) = held_by (sd_surf d) + extra \<and>
     mems_ok (sd_brk d) (sd_mem d) (sd_open d) \<and>
     (\<forall>p s. sd_surf d p = Some s \<longrightarrow> p < sd_brk d \<and> surface_ok (p \<notin> X) (sd_mem d) s)"

definition surf_inv :: "SDriver \<Rightarrow> bool" where
  "surf_inv d \<longleftrightarrow> handles_ok (sd_surface_heap d) (sd_surf d) (obj_refs (sd_objs d)) \<and> accounts {} {#} d"

text \<open>What the calls on surfaces leave alone: buffers, and every object that is not a surface.\<close>

definition others_keep :: "SDriver \<Rightarrow> SDriver \<Rightarrow> bool" where
  "others_keep d d' \<longleftrightarrow> d_buf (sd_drv d') = d_buf (sd_drv d) \<and> d_buffer_heap (sd_drv d') = d_buffer_heap (sd_drv d) \<and>
     sd_brk d \<le> sd_brk d' \<and>
     (\<forall>q < sd_brk d. sd_surf d q = None \<longrightarrow> sd_surf d' q = None \<and> obj_refs (sd_objs d') q = obj_refs (sd_objs d) q)"

section \<open>Accounts\<close>

lemma others_keep_refl [simp]: "others_keep d d"
  by (auto simp: others_keep_def)

lemma others_keep_trans: "others_keep a b \<Longrightarrow> others_keep b c \<Longrightarrow> others_keep a c"
  by (simp add: others_keep_def)

lemma accounts_surface:
  "accounts X extra d \<Longrightarrow> sd_surf d p = Some s \<Longrightarrow> p < sd_brk d \<and> surface_ok (p \<notin> X) (sd_mem d) s"
  by (simp add: accounts_def)

lemma held_by_new: "finite (dom surf) \<Longrightarrow> surf p = None \<Longrightarrow> held_by (surf(p \<mapsto> s)) = mset (surface_held s) + held_by surf"
  unfolding held_by_def dom_fun_upd by (auto simp: domIff intro!: sum.cong)

lemma held_by_remove:
  assumes "finite (dom surf)" and "surf p = Some s"
  shows "held_by surf = mset (surface_held s) + held_by (surf(p := None))"
proof -
  have "surf = (surf(p := None))(p \<mapsto> s)" using assms(2) by auto
  then show ?thesis using held_by_new [of "surf(p := None)" p s] assms(1) by simp
qed

lemma held_by_upd:
  assumes "finite (dom surf)" and "surf p = Some s0"
  shows "held_by (surf(p \<mapsto> s)) + mset (surface_held s0) = held_by surf + mset (surface_held s)"
  using held_by_remove [OF assms] held_by_new [of "surf(p := None)" p s] assms(1) by simp

lemma held_by_mem: "finite (dom surf) \<Longrightarrow> surf p = Some s \<Longrightarrow> r \<in> set (surface_held s) \<Longrightarrow> r \<in># held_by surf"
  by (simp add: held_by_remove)

lemma room_keep: "room mem q n \<Longrightarrow> (\<And>m. mem q = Some m \<Longrightarrow> \<exists>m'. mem' q = Some m' \<and> mb_size m' = mb_size m) \<Longrightarrow> room mem' q n"
  by (cases "mem q") (fastforce simp: room_def)+

lemma surface_ok_mem:
  assumes "surface_ok built mem s"
    and "\<And>q m. R_Buffer q \<in> set (surface_held s) \<Longrightarrow> mem q = Some m \<Longrightarrow> \<exists>m'. mem' q = Some m' \<and> mb_size m' = mb_size m"
  shows "surface_ok built mem' s"
proof -
  have keep: "room mem' q n" if "room mem q n" "sf_import_buf s = Some q \<or> sf_import_chroma_buf s = Some q \<or> sf_priv_buf s = Some q" for q n
  proof (rule room_keep [OF that(1)])
    have "R_Buffer q \<in> set (surface_held s)" using that(2) by (auto simp: surface_held_def)
    then show "\<exists>m'. mem' q = Some m' \<and> mb_size m' = mb_size m" if "mem q = Some m" for m using assms(2) that by blast
  qed
  then have "import_fits mem s \<Longrightarrow> import_fits mem' s" by (simp add: import_fits_def)
  moreover have "pixel_buffer s = Some q \<Longrightarrow> sf_import_buf s = Some q \<or> sf_priv_buf s = Some q" for q
    by (auto simp: pixel_buffer_def split: if_splits)
  then have "pixels_fit mem s \<Longrightarrow> pixels_fit mem' s" using keep unfolding pixels_fit_def by metis
  ultimately show ?thesis using assms(1) unfolding surface_ok_def by blast
qed

text \<open>Acquiring and giving back resources leaves the objects alone.\<close>

definition builds :: "SDriver \<Rightarrow> SDriver \<Rightarrow> bool" where
  "builds d d' \<longleftrightarrow> sd_surf d' = sd_surf d \<and> sd_surface_heap d' = sd_surface_heap d \<and>
     sd_brk d \<le> sd_brk d' \<and> (sd_drv d')\<lparr>d_brk := 0\<rparr> = (sd_drv d)\<lparr>d_brk := 0\<rparr>"

lemma builds_refl [simp]: "builds d d"
  by (simp add: builds_def)

lemma builds_trans: "builds a b \<Longrightarrow> builds b c \<Longrightarrow> builds a c"
  by (simp add: builds_def)

lemma builds_fields:
  assumes "builds d d'"
  shows "sd_surf d' = sd_surf d" "sd_surface_heap d' = sd_surface_heap d" "sd_brk d \<le> sd_brk d'" "sd_objs d' = sd_objs d"
    "d_buf (sd_drv d') = d_buf (sd_drv d)" "d_buffer_heap (sd_drv d') = d_buffer_heap (sd_drv d)" "d_sys (sd_drv d') = d_sys (sd_drv d)"
  using assms unfolding builds_def by (cases "sd_drv d"; cases "sd_drv d'"; simp)+

lemma give_back_ok:
  assumes "accounts X (add_mset r extra) d"
  obtains d' where "give_back r d = Ok d'" "accounts X extra d'" "builds d d'"
proof -
  from assms have a: "finite (dom (sd_surf d))" "mset (sd_open d) = add_mset r (held_by (sd_surf d) + extra)"
      "mems_ok (sd_brk d) (sd_mem d) (sd_open d)"
      "\<And>p s. sd_surf d p = Some s \<Longrightarrow> p < sd_brk d \<and> surface_ok (p \<notin> X) (sd_mem d) s"
    by (auto simp: accounts_def)
  let ?held = "remove1 r (sd_open d)"
  let ?mem = "\<lambda>q. if res_buf r = Some q \<and> Some q \<notin> res_buf ` set ?held then None else sd_mem d q"
  let ?d = "d\<lparr>sd_open := ?held, sd_mem := ?mem\<rparr>"
  have r: "r \<in> set (sd_open d)" using a(2) by (metis set_mset_mset union_single_eq_member)
  have held: "mset ?held = held_by (sd_surf d) + extra" using a(2) by simp
  have "set (sd_open d) = insert r (set ?held)"
    using a(2) held by (metis set_mset_add_mset_insert set_mset_mset)
  then have "sd_mem d q \<noteq> None \<longleftrightarrow> res_buf r = Some q \<or> Some q \<in> res_buf ` set ?held" for q
    using a(3) unfolding mems_ok_def by (metis image_insert insert_iff)
  moreover have "sd_mem d q = Some m \<Longrightarrow> q < sd_brk d \<and> mem_ok m" for q m using a(3) by (simp add: mems_ok_def)
  ultimately have m: "mems_ok (sd_brk d) ?mem ?held" unfolding mems_ok_def by (metis option.distinct(1))
  have "surface_ok (p \<notin> X) ?mem s" if "sd_surf d p = Some s" for p s
  proof (rule surface_ok_mem)
    show "surface_ok (p \<notin> X) (sd_mem d) s" using a(4) that by blast
    fix q m assume q: "R_Buffer q \<in> set (surface_held s)" "sd_mem d q = Some m"
    then have "R_Buffer q \<in># held_by (sd_surf d)" using held_by_mem a(1) that(1) by blast
    then have "R_Buffer q \<in> set ?held" by (metis held set_mset_mset union_iff)
    then have "Some q \<in> res_buf ` set ?held" by (metis image_eqI res_buf.simps(1))
    with q(2) show "\<exists>m'. ?mem q = Some m' \<and> mb_size m' = mb_size m" by simp
  qed
  then have "accounts X extra ?d" using a(1,4) m held by (auto simp: accounts_def)
  moreover have "give_back r d = Ok ?d" using r by (simp add: give_back_def Let_def)
  ultimately show thesis using that by (simp add: builds_def)
qed

lemma give_all_ok:
  "accounts X (mset rs + extra) d \<Longrightarrow> \<exists>d'. give_all rs d = Ok d' \<and> accounts X extra d' \<and> builds d d'"
proof (induction rs arbitrary: d)
  case (Cons r rs)
  then obtain d1 where d1: "give_back r d = Ok d1" "accounts X (mset rs + extra) d1" "builds d d1"
    by (metis give_back_ok mset.simps(2) union_mset_add_mset_left)
  from Cons.IH [OF d1(2)] d1 show ?case using builds_trans by auto
qed simp

lemma give_back_surf:
  "give_back r (d\<lparr>sd_surf := x\<rparr>) = obind (give_back r d) (\<lambda>d. Ok (d\<lparr>sd_surf := x\<rparr>))"
  by (simp add: give_back_def Let_def cong: if_cong)

lemma give_all_surf:
  "give_all rs (d\<lparr>sd_surf := x\<rparr>) = obind (give_all rs d) (\<lambda>d. Ok (d\<lparr>sd_surf := x\<rparr>))"
  by (induction rs arbitrary: d) (simp_all add: give_back_surf obind_assoc)

lemma surface_destroy_ok:
  assumes "accounts (insert p X) extra d" and "sd_surf d p = Some s"
  obtains d' where "surface_destroy p s d = Ok d'" "accounts X extra d'" "builds (d\<lparr>sd_surf := (sd_surf d)(p := None)\<rparr>) d'"
proof -
  let ?d = "d\<lparr>sd_surf := (sd_surf d)(p := None)\<rparr>"
  have f: "finite (dom (sd_surf d))" using assms(1) by (simp add: accounts_def)
  have ok: "surface_ok (q \<notin> X) (sd_mem d) t" if "sd_surf d q = Some t" "q \<noteq> p" for q t
    using assms(1) that by (auto simp: accounts_def dest: spec [of _ q])
  have "accounts X (mset (surface_held s) + extra) ?d"
    using assms held_by_remove [OF f assms(2)] ok by (simp add: accounts_def)
  from give_all_ok [OF this] obtain d' where d': "give_all (surface_held s) ?d = Ok d'" "accounts X extra d'" "builds ?d d'" by blast
  from d'(1) obtain d1 where d1: "give_all (surface_held s) d = Ok d1" "d' = d1\<lparr>sd_surf := (sd_surf d)(p := None)\<rparr>"
    by (auto simp: give_all_surf)
  have "give_all (surface_held s) (d\<lparr>sd_surf := sd_surf d\<rparr>) = Ok (d1\<lparr>sd_surf := sd_surf d\<rparr>)"
    unfolding give_all_surf d1(1) by simp
  with d1(1) have "sd_surf d1 = sd_surf d" by (metis SDriver.select_convs(3) SDriver.surjective SDriver.update_convs(3) outcome.inject)
  with d1 d' that [of d'] show thesis by (simp add: surface_destroy_def)
qed

lemma sd_set_objs_fields [simp]:
  "sd_surf (sd_set_objs x d) = sd_surf d" "sd_surface_heap (sd_set_objs x d) = sd_surface_heap d"
  "sd_mem (sd_set_objs x d) = sd_mem d" "sd_open (sd_set_objs x d) = sd_open d"
  "sd_drv (sd_set_objs x d) = (sd_drv d)\<lparr>d_objs := x\<rparr>"
  by (simp_all add: sd_set_objs_def)

lemma accounts_objs [simp]: "accounts X extra (sd_set_objs x d) = accounts X extra d"
  by (simp add: accounts_def)

text \<open>
  The last reference of a surface that no identifier names, possibly one under construction; and a
  reference that is not the last.
\<close>

lemma surface_unref_last:
  assumes "accounts {p} {#} d" and "handles_ok (sd_surface_heap d) (sd_surf d) (obj_refs (sd_objs d))"
    and "sd_surf d p = Some s" and "obj_refs (sd_objs d) p = 1" and "\<And>i. heap_find (sd_surface_heap d) i \<noteq> Some p"
  obtains d' where "surface_unref p d = Ok d'" "surf_inv d'" "others_keep d d'" "sd_surface_heap d' = sd_surface_heap d"
    "sd_surf d' = (sd_surf d)(p := None)" "sd_objs d' = rk_object_unref p (sd_objs d)"
proof -
  let ?d = "sd_set_objs (rk_object_unref p (sd_objs d)) d"
  have "accounts (insert p {}) {#} ?d" "sd_surf ?d p = Some s" using assms(1,3) by simp_all
  then obtain d' where d': "surface_destroy p s ?d = Ok d'" "accounts {} {#} d'"
      "builds (?d\<lparr>sd_surf := (sd_surf ?d)(p := None)\<rparr>) d'" by (rule surface_destroy_ok)
  note f = builds_fields [OF d'(3), simplified]
  have "handles_ok (sd_surface_heap d') (sd_surf d') (obj_refs (sd_objs d'))"
    using assms(2,5) by (auto simp: f handles_ok_def rk_object_unref_frame)
  moreover have "others_keep d d'" using assms(3) by (auto simp: others_keep_def f rk_object_unref_frame)
  ultimately show thesis
    using that [of d'] d' assms(3,4) by (simp add: surf_inv_def surface_unref_def Let_def f)
qed

lemma surface_unref_more:
  assumes "surf_inv d" and "sd_surf d p = Some s" and "obj_refs (sd_objs d) p \<noteq> 1" and "\<And>i. heap_find (sd_surface_heap d) i \<noteq> Some p"
  shows "surface_unref p d = Ok (sd_set_objs (rk_object_unref p (sd_objs d)) d)"
    "surf_inv (sd_set_objs (rk_object_unref p (sd_objs d)) d)" "others_keep d (sd_set_objs (rk_object_unref p (sd_objs d)) d)"
proof -
  have "q \<noteq> p" if "heap_find (sd_surface_heap d) i = Some q" for i q using that assms(4) by auto
  then show "surf_inv (sd_set_objs (rk_object_unref p (sd_objs d)) d)"
    using assms(1) by (auto simp: surf_inv_def handles_ok_def rk_object_unref_frame)
qed (use assms(2,3) in \<open>auto simp: surface_unref_def Let_def others_keep_def rk_object_unref_def\<close>)

lemma accounts_widen: "accounts {} extra d \<Longrightarrow> accounts X extra d"
  unfolding accounts_def surface_ok_def by auto

lemma destroy_one_ok:
  assumes "surf_inv d"
  obtains d' where "destroy_one sid d = Ok d'" "surf_inv d'" "others_keep d d'"
    "heap_find (sd_surface_heap d') = (heap_find (sd_surface_heap d))(sid := None)"
    "\<And>p. heap_find (sd_surface_heap d) sid \<noteq> Some p \<Longrightarrow> sd_surf d' p = sd_surf d p \<and> obj_refs (sd_objs d') p = obj_refs (sd_objs d) p"
    "\<And>p. heap_find (sd_surface_heap d) sid = Some p \<Longrightarrow> obj_refs (sd_objs d) p = 1 \<Longrightarrow> sd_surf d' p = None"
proof -
  have ok: "handles_ok (sd_surface_heap d) (sd_surf d) (obj_refs (sd_objs d))" "accounts {} {#} d"
    using assms by (simp_all add: surf_inv_def)
  then have inv: "heap_inv (sd_surface_heap d)" by (simp add: handles_ok_def)
  obtain r h where rem: "rk_object_heap_remove (sd_surface_heap d) sid = Ok (r, h)" using heap_map.rem_total [OF inv] by blast
  note h = heap_map.rem_result [OF inv rem] heap_map.rem_find [OF inv rem] heap_map.rem_inv [OF inv rem]
  let ?d = "d\<lparr>sd_surface_heap := h\<rparr>"
  have "handles_ok h (sd_surf d) (obj_refs (sd_objs d))" using ok(1) h(2,3) by (auto simp: handles_ok_def split: if_splits)
  moreover have "accounts {} {#} ?d" using ok(2) by (simp add: accounts_def)
  ultimately have d: "surf_inv ?d" by (simp add: surf_inv_def)
  have k: "others_keep d d'" if "others_keep ?d d'" for d' using that by (simp add: others_keep_def)
  show thesis
  proof (cases r)
    case None
    with rem d h that [of ?d] show thesis by (simp add: destroy_one_def k)
  next
    case (Some p)
    then have p: "heap_find (sd_surface_heap d) sid = Some p" using h(1) by simp
    from handles_named [OF ok(1) this] obtain s where s: "sd_surf ?d p = Some s" by auto
    have un: "heap_find (sd_surface_heap ?d) j \<noteq> Some p" for j using ok(1) p by (auto simp: h(2) handles_ok_def)
    show thesis
    proof (cases "obj_refs (sd_objs d) p = 1")
      case True
      have "accounts {p} {#} ?d" "handles_ok (sd_surface_heap ?d) (sd_surf ?d) (obj_refs (sd_objs ?d))"
        using d accounts_widen by (auto simp: surf_inv_def)
      then obtain d' where "surface_unref p ?d = Ok d'" "surf_inv d'" "others_keep ?d d'" "sd_surface_heap d' = sd_surface_heap ?d"
          "sd_surf d' = (sd_surf ?d)(p := None)" "sd_objs d' = rk_object_unref p (sd_objs ?d)"
        using surface_unref_last [of p ?d s] s True un by auto
      with rem Some p h(2) that [of d'] show thesis by (simp add: destroy_one_def k rk_object_unref_frame)
    next
      case False
      note u = surface_unref_more [OF d s _ un, simplified, OF False]
      with rem Some p h(2) that [of "sd_set_objs (rk_object_unref p (sd_objs ?d)) ?d"] False show thesis
        by (simp add: destroy_one_def k rk_object_unref_frame)
    qed
  qed
qed

text \<open>What destroying the surfaces \<open>sids\<close> does to the objects.\<close>

definition destroys :: "u32 list \<Rightarrow> SDriver \<Rightarrow> SDriver \<Rightarrow> bool" where
  "destroys sids d d' \<longleftrightarrow>
     heap_find (sd_surface_heap d') = (\<lambda>i. if i \<in> set sids then None else heap_find (sd_surface_heap d) i) \<and>
     (\<forall>q. (\<forall>i \<in> set sids. heap_find (sd_surface_heap d) i \<noteq> Some q) \<longrightarrow>
        sd_surf d' q = sd_surf d q \<and> obj_refs (sd_objs d') q = obj_refs (sd_objs d) q) \<and>
     (\<forall>q. (\<exists>i \<in> set sids. heap_find (sd_surface_heap d) i = Some q) \<longrightarrow> obj_refs (sd_objs d) q = 1 \<longrightarrow> sd_surf d' q = None)"

lemma destroys_step:
  assumes "destroys [sid] d d1" and "destroys sids d1 d2"
    and inj: "\<And>i j q. heap_find (sd_surface_heap d) i = Some q \<Longrightarrow> heap_find (sd_surface_heap d) j = Some q \<Longrightarrow> i = j"
  shows "destroys (sid # sids) d d2"
proof -
  let ?f = "heap_find (sd_surface_heap d)" and ?g = "heap_find (sd_surface_heap d1)"
  have f: "?g i = (if i = sid then None else ?f i)" for i using assms(1) by (simp add: destroys_def)
  have one: "?f sid \<noteq> Some q \<Longrightarrow> sd_surf d1 q = sd_surf d q \<and> obj_refs (sd_objs d1) q = obj_refs (sd_objs d) q" for q
    using assms(1) by (simp add: destroys_def)
  have rest: "(\<And>i. i \<in> set sids \<Longrightarrow> ?g i \<noteq> Some q) \<Longrightarrow> sd_surf d2 q = sd_surf d1 q \<and> obj_refs (sd_objs d2) q = obj_refs (sd_objs d1) q" for q
    using assms(2) by (simp add: destroys_def)
  have "heap_find (sd_surface_heap d2) = (\<lambda>i. if i \<in> set (sid # sids) then None else ?f i)"
    using assms(2) f by (auto simp: destroys_def fun_eq_iff)
  moreover have "sd_surf d2 q = sd_surf d q \<and> obj_refs (sd_objs d2) q = obj_refs (sd_objs d) q" if "\<forall>i \<in> set (sid # sids). ?f i \<noteq> Some q" for q
    using that one [of q] rest [of q] f by (simp split: if_splits)
  moreover have "sd_surf d2 q = None" if i: "i \<in> set (sid # sids)" "?f i = Some q" and r: "obj_refs (sd_objs d) q = 1" for i q
  proof (cases "?f sid = Some q")
    case True
    then have "?g j \<noteq> Some q" for j using f inj by (metis option.distinct(1))
    moreover have "sd_surf d1 q = None" using assms(1) True r by (simp add: destroys_def)
    ultimately show ?thesis using rest [of q] by simp
  next
    case False
    then have "i \<in> set sids" "?g i = Some q" "obj_refs (sd_objs d1) q = 1" using i f one [of q] r by auto
    with assms(2) show ?thesis unfolding destroys_def by blast
  qed
  ultimately show ?thesis unfolding destroys_def by blast
qed

lemma destroy_surfaces_ok:
  "surf_inv d \<Longrightarrow> \<exists>d'. rk_DestroySurfaces sids d = Ok d' \<and> surf_inv d' \<and> others_keep d d' \<and> destroys sids d d'"
proof (induction sids arbitrary: d)
  case (Cons sid sids)
  show ?case
  proof (rule destroy_one_ok [OF Cons.prems, of sid])
    fix d1 assume d1: "destroy_one sid d = Ok d1" "surf_inv d1" "others_keep d d1"
      "heap_find (sd_surface_heap d1) = (heap_find (sd_surface_heap d))(sid := None)"
      "\<And>p. heap_find (sd_surface_heap d) sid \<noteq> Some p \<Longrightarrow> sd_surf d1 p = sd_surf d p \<and> obj_refs (sd_objs d1) p = obj_refs (sd_objs d) p"
      "\<And>p. heap_find (sd_surface_heap d) sid = Some p \<Longrightarrow> obj_refs (sd_objs d) p = 1 \<Longrightarrow> sd_surf d1 p = None"
    have one: "destroys [sid] d d1" using d1(4-6) by (auto simp: destroys_def fun_eq_iff)
    from Cons.IH [OF d1(2)] obtain d2 where d2: "rk_DestroySurfaces sids d1 = Ok d2" "surf_inv d2" "others_keep d1 d2" "destroys sids d1 d2"
      by blast
    have "destroys (sid # sids) d d2"
      by (rule destroys_step [OF one d2(4)]) (use Cons.prems in \<open>auto simp: surf_inv_def handles_ok_def\<close>)
    with d1(1,3) d2 others_keep_trans show ?case by auto
  qed
qed (simp add: destroys_def)

section \<open>Construction\<close>

lemma accounts_new_buffer:
  assumes "accounts X extra d" and "mem_ok m"
  defines "q \<equiv> sd_brk d"
  defines "d' \<equiv> d\<lparr>sd_drv := (sd_drv d)\<lparr>d_brk := Suc q\<rparr>, sd_mem := (sd_mem d)(q \<mapsto> m), sd_open := R_Buffer q # sd_open d\<rparr>"
  shows "mpp_new_buffer m d = (q, d')" "accounts X (add_mset (R_Buffer q) extra) d'" "builds d d'"
proof -
  have fresh: "sd_mem d q = None" using assms(1) unfolding accounts_def mems_ok_def q_def by (metis less_irrefl not_None_eq)
  have "surface_ok (p \<notin> X) (sd_mem d') s" if "sd_surf d p = Some s" for p s
  proof (rule surface_ok_mem)
    show "surface_ok (p \<notin> X) (sd_mem d) s" using assms(1) that by (simp add: accounts_def)
    show "\<exists>m'. sd_mem d' r = Some m' \<and> mb_size m' = mb_size m0" if "sd_mem d r = Some m0" for r m0
      using that fresh by (auto simp: d'_def)
  qed
  moreover have "mems_ok (sd_brk d') (sd_mem d') (sd_open d')"
    using assms(1,2) fresh unfolding accounts_def mems_ok_def d'_def q_def by (auto simp: less_Suc_eq)
  ultimately show "accounts X (add_mset (R_Buffer q) extra) d'"
    using assms(1) by (auto simp: accounts_def d'_def q_def less_Suc_eq)
  show "mpp_new_buffer m d = (q, d')" by (simp add: mpp_new_buffer_def Let_def d'_def q_def)
  show "builds d d'" by (simp add: builds_def d'_def q_def)
qed

lemma accounts_new_group:
  assumes "accounts X extra d"
  defines "q \<equiv> sd_brk d"
  defines "d' \<equiv> d\<lparr>sd_drv := (sd_drv d)\<lparr>d_brk := Suc q\<rparr>, sd_open := R_Group q # sd_open d\<rparr>"
  shows "mpp_new_group d = (q, d')" "accounts X (add_mset (R_Group q) extra) d'" "builds d d'"
  using assms(1) by (auto simp: accounts_def mems_ok_def mpp_new_group_def Let_def d'_def q_def builds_def less_Suc_eq)

lemma accounts_take_fd: "accounts X extra d \<Longrightarrow> accounts X (add_mset (R_Fd fd) extra) (take_res (R_Fd fd) d)"
  "builds d (take_res (R_Fd fd) d)"
  by (auto simp: accounts_def mems_ok_def take_res_def builds_def)

text \<open>The fields of a surface take over resources that were in the hands of the function.\<close>

lemma accounts_surf_set:
  assumes "accounts X (extra + mset new) d" and "sd_surf d p = Some s0"
    and "mset (surface_held s) = mset (surface_held s0) + mset new"
    and "surface_ok (p \<notin> Y) (sd_mem d) s" and "X - {p} = Y - {p}"
  shows "accounts Y extra (surf_set p s d)"
proof -
  have f: "finite (dom (sd_surf d))" using assms(1) by (simp add: accounts_def)
  have "held_by ((sd_surf d)(p \<mapsto> s)) + mset (surface_held s0) = held_by (sd_surf d) + mset new + mset (surface_held s0)"
    using held_by_upd [OF f assms(2), of s] assms(3) by simp
  then have h: "held_by ((sd_surf d)(p \<mapsto> s)) = held_by (sd_surf d) + mset new" by simp
  have "surface_ok (q \<notin> Y) (sd_mem d) t" if "sd_surf d q = Some t" "q \<noteq> p" for q t
  proof -
    have "q \<notin> X \<longleftrightarrow> q \<notin> Y" using assms(5) that(2) by auto
    moreover have "surface_ok (q \<notin> X) (sd_mem d) t" using assms(1) that(1) by (simp add: accounts_def)
    ultimately show ?thesis by simp
  qed
  with assms(1,2,4) f h show ?thesis by (auto simp: accounts_def surf_set_def ac_simps)
qed

text \<open>What MPP documents: an imported buffer has the announced size, an allocated one at least the requested size.\<close>

definition object_env_ok :: "object_env \<Rightarrow> bool" where
  "object_env_ok e \<longleftrightarrow> (\<forall>n m. oe_buffer e n = Some m \<longrightarrow> mb_size m = n \<and> mem_ok m)"

definition create_env_ok :: "create_env \<Rightarrow> bool" where
  "create_env_ok e \<longleftrightarrow> object_env_ok (ie_luma (ce_import e)) \<and> object_env_ok (ie_chroma (ce_import e)) \<and>
     (\<forall>n m. ce_buffer e n = Some m \<longrightarrow> n \<le> mb_size m \<and> mem_ok m)"

lemma import_object_ok:
  assumes "accounts X extra d" and "object_env_ok e"
  obtains (fails) st d' where "import_object e bytes d = Ok (Inl st, d')" "st \<noteq> VA_STATUS_SUCCESS" "accounts X extra d'" "builds d d'"
  | (taken) q m d' where "import_object e bytes d = Ok (Inr q, d')" "0 \<le> oe_dup e"
      "accounts X (add_mset (R_Buffer q) (add_mset (R_Fd (oe_dup e)) extra)) d'" "builds d d'"
      "sd_mem d' q = Some m" "mb_size m = ucast bytes" "\<And>r. r \<noteq> q \<Longrightarrow> sd_mem d' r = sd_mem d r" "sd_mem d q = None"
proof (cases "oe_dup e < 0")
  case True
  with fails [of VA_STATUS_ERROR_ALLOCATION_FAILED d] assms(1) show thesis by (simp add: import_object_def)
next
  case False
  let ?fd = "R_Fd (oe_dup e)" and ?d = "take_res (R_Fd (oe_dup e)) d"
  note t = accounts_take_fd(1) [OF assms(1), of "oe_dup e"] accounts_take_fd(2) [where d = d and fd = "oe_dup e"]
  obtain d1 where d1: "give_back ?fd ?d = Ok d1" "accounts X extra d1" "builds ?d d1" by (rule give_back_ok [OF t(1)])
  show thesis
  proof (cases "oe_sync_start e \<and> oe_sync_end e \<and> oe_buffer e (ucast bytes) \<noteq> None")
    case True
    then obtain m where m: "oe_buffer e (ucast bytes) = Some m" by auto
    then have mk: "mb_size m = ucast bytes" "mem_ok m" using assms(2) by (auto simp: object_env_ok_def)
    note n = accounts_new_buffer [OF t(1) mk(2)]
    have "sd_mem d (sd_brk d) = None"
      using assms(1) unfolding accounts_def mems_ok_def by (metis less_irrefl not_None_eq)
    then show thesis
      by (intro taken [OF _ _ n(2) builds_trans [OF t(2) n(3)] _ mk(1)])
         (use True False m n(1) in \<open>auto simp: import_object_def Let_def take_res_def\<close>)
  next
    case False
    let ?st = "if oe_sync_start e \<and> oe_sync_end e then VA_STATUS_ERROR_ALLOCATION_FAILED else VA_STATUS_ERROR_INVALID_PARAMETER"
    have "import_object e bytes d = Ok (Inl ?st, d1)"
      using False \<open>\<not> oe_dup e < 0\<close> d1(1) by (auto simp: import_object_def Let_def)
    then show thesis by (rule fails [OF _ _ d1(2) builds_trans [OF t(2) d1(3)]]) simp
  qed
qed

subsection \<open>Layouts\<close>

lemma unat_of_int_c: "0 \<le> k \<Longrightarrow> k \<le> 8192 \<Longrightarrow> unat (of_int k :: u32) = nat k"
  using unat_word_of_int_u32 [of k] by simp

lemma div2_u32: "unat (of_int k div 2 :: u32) = nat k div 2" if "0 \<le> k" "k \<le> 8192"
  using that by (simp add: unat_div unat_of_int_c)

lemma rows_u64:
  assumes "0 \<le> h" "h \<le> 8192"
  shows "unat (ucast (pitch :: u32) * ucast (of_int h :: u32) :: u64) = unat pitch * nat h"
    "unat (ucast (pitch :: u32) * ucast (of_int h div 2 :: u32) :: u64) = unat pitch * (nat h div 2)"
    "unat (ucast (pitch :: u32) * ucast (of_int h :: u32) + ucast pitch * ucast (of_int h div 2 :: u32) :: u64) =
       unat pitch * (nat h + nat h div 2)"
proof -
  show 1: "unat (ucast (pitch :: u32) * ucast (of_int h :: u32) :: u64) = unat pitch * nat h"
    "unat (ucast (pitch :: u32) * ucast (of_int h div 2 :: u32) :: u64) = unat pitch * (nat h div 2)"
    unfolding unat_mul32 using assms by (simp_all add: unat_of_int_c div2_u32)
  have "unat pitch * (nat h + nat h div 2) \<le> 4294967296 * 12288"
    using assms unat_u32_lt [of pitch] by (intro mult_le_mono) (linarith | simp)+
  then show "unat (ucast (pitch :: u32) * ucast (of_int h :: u32) + ucast pitch * ucast (of_int h div 2 :: u32) :: u64) =
      unat pitch * (nat h + nat h div 2)"
    by (subst unat_plus_no_wrap) (simp_all only: 1, simp_all add: distrib_left)
qed

text \<open>What an accepted descriptor guarantees.\<close>

lemma import_check_cases:
  assumes "import_check rga s (Some pd) = Inr pd'"
  shows "pd' = pd" "rgb_fourcc (sf_fourcc s) \<or> sf_fourcc s = VA_FOURCC_NV12 \<or> sf_fourcc s = VA_FOURCC_P010"
    "\<exists>req. (if rgb_fourcc (sf_fourcc s) then import_rgb_layout s pd else import_yuv_layout s pd) = Some req \<and>
       req \<le> ucast (po_size (pd_object0 pd))"
  using assms by (auto simp: import_check_def Let_def not_less split: if_splits option.splits)

lemma import_check_layout:
  assumes "import_check rga s (Some pd) = Inr pd'" and "0 < sf_width s" "sf_width s \<le> 8192" "0 < sf_height s" "sf_height s \<le> 8192"
  defines "bytes \<equiv> unat (po_size (pd_object0 pd))" and "h \<equiv> nat (sf_height s)"
    and "bps \<equiv> (if sf_fourcc s = VA_FOURCC_P010 then 2 else 1) :: u32"
  shows "unat (pd_pitch0 pd) * h \<le> bytes"
    "is_multiplane s pd \<Longrightarrow> unat (pd_pitch1 pd) * (h div 2) \<le> unat (po_size (pd_object1 pd))"
    "\<not> rgb_fourcc (sf_fourcc s) \<Longrightarrow> \<not> is_multiplane s pd \<Longrightarrow>
       unat (pd_pitch0 pd) * (h + h div 2) \<le> bytes \<and> pd_pitch0 pd mod bps = 0 \<and> of_int (sf_width s) \<le> pd_pitch0 pd div bps"
proof -
  note c = import_check_cases [OF assms(1)]
  have h: "0 \<le> sf_height s" "sf_height s \<le> 8192" using assms(4,5) by simp_all
  obtain req where req: "(if rgb_fourcc (sf_fourcc s) then import_rgb_layout s pd else import_yuv_layout s pd) = Some req"
      "unat req \<le> bytes"
    using c(3) by (auto simp: word_le_nat_alt bytes_def)
  note r = rows_u64 [OF h]
  have multi: "unat (pd_pitch1 pd) * (h div 2) \<le> unat (po_size (pd_object1 pd))" if "is_multiplane s pd"
    using req that r(2) [of "pd_pitch1 pd"] unfolding h_def
    by (auto simp: import_yuv_layout_def Let_def not_less word_le_nat_alt is_multiplane_def split: if_splits)
  then show "is_multiplane s pd \<Longrightarrow> unat (pd_pitch1 pd) * (h div 2) \<le> unat (po_size (pd_object1 pd))" .
  have single: "unat (pd_pitch0 pd) * (h + h div 2) \<le> bytes \<and> pd_pitch0 pd mod bps = 0 \<and> of_int (sf_width s) \<le> pd_pitch0 pd div bps"
    if "\<not> rgb_fourcc (sf_fourcc s)" "\<not> is_multiplane s pd"
    using req that r(3) [of "pd_pitch0 pd"] unfolding h_def bps_def
    by (auto simp: import_yuv_layout_def Let_def not_less split: if_splits)
  then show "\<not> rgb_fourcc (sf_fourcc s) \<Longrightarrow> \<not> is_multiplane s pd \<Longrightarrow>
       unat (pd_pitch0 pd) * (h + h div 2) \<le> bytes \<and> pd_pitch0 pd mod bps = 0 \<and> of_int (sf_width s) \<le> pd_pitch0 pd div bps" .
  show "unat (pd_pitch0 pd) * h \<le> bytes"
  proof (cases "\<not> rgb_fourcc (sf_fourcc s) \<and> \<not> is_multiplane s pd")
    case True
    then have "unat (pd_pitch0 pd) * (h + h div 2) \<le> bytes" using single by blast
    then show ?thesis by (simp add: distrib_left)
  next
    case False
    with req have "req = ucast (pd_pitch0 pd) * ucast (of_int (sf_height s) :: u32)"
      by (auto simp: import_yuv_layout_def import_rgb_layout_def Let_def split: if_splits)
    with req(2) r(1) show ?thesis by (simp add: h_def)
  qed
qed

lemma sint_small: "unat w < 2 ^ 31 \<Longrightarrow> sint w = int (unat w)" for w :: u32
  by (simp add: sint_uint signed_take_bit_int_eq_self uint_nat del: of_nat_unat)

text \<open>A surface before its placeholder is allocated.\<close>

definition raw_surface :: "bool \<Rightarrow> SurfaceObject \<Rightarrow> bool" where
  "raw_surface imported s \<longleftrightarrow> sf_frame s = None \<and> sf_backing_buf s = None \<and> sf_decode_pool s = None \<and> sf_export_buf s = None \<and>
     sf_priv_group s = None \<and> sf_priv_buf s = None \<and> sf_10bit s = (sf_fourcc s = VA_FOURCC_P010) \<and>
     imported = (sf_import_buf s \<noteq> None)"

definition surface_shape :: "SurfaceObject \<Rightarrow> int \<times> int \<times> VAFourcc" where
  "surface_shape s = (sf_width s, sf_height s, sf_fourcc s)"

lemma import_assign_shape: "surface_shape (import_assign e pd q qc s) = surface_shape s"
  by (simp add: surface_shape_def import_assign_def Let_def)

lemma zero_surface_raw: "raw_surface False (zero_surface w h f)" "surface_held (zero_surface w h f) = []"
  by (simp_all add: raw_surface_def zero_surface_def surface_held_def)

lemma import_assign_raw: "raw_surface False s \<Longrightarrow> raw_surface True (import_assign e pd q qc s)"
  by (simp add: raw_surface_def import_assign_def Let_def)

lemma import_assign_held:
  assumes "raw_surface False s" and "0 \<le> oe_dup (ie_luma e)"
    and "surface_held s = []" and "if is_multiplane s pd then qc \<noteq> None \<and> 0 \<le> oe_dup (ie_chroma e) else qc = None"
  shows "mset (surface_held (import_assign e pd q qc s)) = {#R_Buffer q, R_Fd (oe_dup (ie_luma e))#} +
    (if is_multiplane s pd then {#R_Buffer (the qc), R_Fd (oe_dup (ie_chroma e))#} else {#})"
  using assms by (auto simp: surface_held_def import_assign_def Let_def raw_surface_def)

lemma import_assign_pixels:
  assumes "raw_surface False s" and "import_check rga s (Some pd) = Inr pd'"
    and "0 < sf_width s" "sf_width s \<le> 8192" "2 \<le> sf_height s" "sf_height s \<le> 8192"
    and "\<not> rgb_fourcc (sf_fourcc s)" "\<not> is_multiplane s pd" and "room mem q (unat (po_size (pd_object0 pd)))"
  shows "pixels_fit mem (import_assign e pd q None s)"
proof -
  let ?h = "nat (sf_height s)" and ?w = "pd_pitch0 pd div (if sf_fourcc s = VA_FOURCC_P010 then 2 else 1)"
  let ?s = "import_assign e pd q None s" and ?b = "if sf_fourcc s = VA_FOURCC_P010 then 2 else 1 :: nat"
  have "0 < sf_height s" using assms(5) by simp
  note l = import_check_layout(3) [OF assms(2,3,4) this assms(6-8)]
  have "unat (pd_pitch0 pd) * 3 \<le> unat (pd_pitch0 pd) * (?h + ?h div 2)" using assms(5) by (intro mult_le_mono2) linarith
  also have "\<dots> \<le> unat (po_size (pd_object0 pd))" using l by blast
  finally have p: "unat (pd_pitch0 pd) < 2 ^ 31" using unat_u32_lt [of "po_size (pd_object0 pd)"] by (simp del: unat_u32_lt)
  have w: "unat ?w = unat (pd_pitch0 pd) div ?b" by (simp add: unat_div)
  then have "unat ?w < 2 ^ 31" using p div_le_dividend [of "unat (pd_pitch0 pd)" ?b] by linarith
  note hs = sint_small [OF this]
  have "?b dvd unat (pd_pitch0 pd)"
  proof -
    have "unat (pd_pitch0 pd mod (if sf_fourcc s = VA_FOURCC_P010 then 2 else 1)) = unat (pd_pitch0 pd) mod ?b" by (simp add: unat_mod)
    with l show ?thesis by (metis dvd_eq_mod_eq_0 unat_0)
  qed
  then have "unat ?w * ?b = unat (pd_pitch0 pd)" by (simp add: w)
  then have b: "nat (sint ?w) * ?b = unat (pd_pitch0 pd)" by (simp add: hs)
  have "nat (sf_width s) \<le> unat ?w" using l assms(3,4) unat_of_int_c [of "sf_width s"] by (simp only: word_le_nat_alt)
  then have "sf_width s \<le> sint ?w" by (simp only: hs nat_le_iff)
  moreover have "room mem q (nat (sint ?w) * ?b * (?h + ?h div 2))"
    unfolding b using l assms(9) by (auto simp: room_def split: option.splits)
  ultimately show ?thesis
    using assms(1,7,8) by (cases "sf_fourcc s = VA_FOURCC_P010")
      (simp_all add: pixels_fit_def import_assign_def Let_def pixel_buffer_def bytes_per_sample_def raw_surface_def)
qed

lemma c_int_sint: "c_int (sint (w :: u32))"
  using sint_range_size [of w] by (simp add: c_int_def word_size)

lemma import_assign_ok:
  assumes "raw_surface False s" and "import_check rga s (Some pd) = Inr pd'"
    and "0 < sf_width s" "sf_width s \<le> 8192" "0 < sf_height s" "sf_height s \<le> 8192"
    and "room mem q (unat (po_size (pd_object0 pd)))"
    and "if is_multiplane s pd then \<exists>r. qc = Some r \<and> room mem r (unat (po_size (pd_object1 pd))) else qc = None"
    and strides: "c_int (sf_hstride s)" "c_int (sf_vstride s)"
  shows "surface_ok False mem (import_assign e pd q qc s)"
proof -
  note l = import_check_layout(1,2) [OF assms(2-6)]
  have f: "import_fits mem (import_assign e pd q qc s)"
    using assms(7,8) l by (auto simp: import_fits_def import_assign_def Let_def split: if_splits)
  have "pixels_fit mem (import_assign e pd q qc s)" if "2 \<le> sf_height s" "\<not> rgb_fourcc (sf_fourcc s)" "\<not> is_multiplane s pd"
  proof -
    have "qc = None" using that(3) assms(8) by simp
    with import_assign_pixels [OF assms(1-4) that(1) assms(6) that(2,3) assms(7)] show ?thesis by simp
  qed
  moreover have "c_int (sf_hstride (import_assign e pd q qc s))" "c_int (sf_vstride (import_assign e pd q qc s))"
    using assms(5,6) c_int_sint strides by (auto simp: import_assign_def Let_def c_int_def)
  ultimately show ?thesis using f assms(3-6)
    by (simp add: surface_ok_def RK_MAX_WIDTH_def RK_MAX_HEIGHT_def import_assign_def Let_def)
qed

lemma import_assign_accounts:
  assumes "accounts {p} ({#R_Buffer q, R_Fd (oe_dup (ie_luma e))#} +
      (if is_multiplane s pd then {#R_Buffer (the qc), R_Fd (oe_dup (ie_chroma e))#} else {#})) d"
    and "sd_surf d p = Some s" and "raw_surface False s" "surface_held s = []"
    and "import_check rga s (Some pd) = Inr pd'" and "0 < sf_width s" "sf_width s \<le> 8192" "0 < sf_height s" "sf_height s \<le> 8192"
    and "0 \<le> oe_dup (ie_luma e)" and "room (sd_mem d) q (unat (po_size (pd_object0 pd)))"
    and "if is_multiplane s pd then 0 \<le> oe_dup (ie_chroma e) \<and> (\<exists>r. qc = Some r \<and> room (sd_mem d) r (unat (po_size (pd_object1 pd))))
      else qc = None"
  shows "accounts {p} {#} (surf_set p (import_assign e pd q qc s) d)"
proof -
  let ?new = "[R_Buffer q, R_Fd (oe_dup (ie_luma e))] @ (if is_multiplane s pd then [R_Buffer (the qc), R_Fd (oe_dup (ie_chroma e))] else [])"
  have held: "mset (surface_held (import_assign e pd q qc s)) = mset (surface_held s) + mset ?new"
    using import_assign_held [where pd = pd and qc = qc and q = q, OF assms(3,10,4)] assms(4,12) by (auto split: if_splits)
  have ok: "surface_ok False (sd_mem d) (import_assign e pd q qc s)"
    using import_assign_ok [OF assms(3,5-9,11)] accounts_surface [OF assms(1,2)] assms(12)
    by (simp add: surface_ok_def split: if_splits)
  have "accounts {p} ({#} + mset ?new) d" using assms(1) by (simp split: if_splits)
  from accounts_surf_set [OF this assms(2) held, of "{p}"] ok show ?thesis by simp
qed

lemma import_descriptor_ok:
  assumes acc: "accounts {p} {#} d" "sd_surf d p = Some s" and s: "raw_surface False s" "surface_held s = []"
    and dims: "0 < sf_width s" "sf_width s \<le> 8192" "0 < sf_height s" "sf_height s \<le> 8192"
    and env: "object_env_ok (ie_luma e)" "object_env_ok (ie_chroma e)"
  obtains (fails) st d' where "import_surface_descriptor e p (Some pd) s d = Ok (st, d')" "st \<noteq> VA_STATUS_SUCCESS"
      "accounts {p} {#} d'" "builds d d'"
  | (taken) s' d' where "import_surface_descriptor e p (Some pd) s d = Ok (VA_STATUS_SUCCESS, d')"
      "accounts {p} {#} d'" "builds (surf_set p s' d) d'" "raw_surface True s'" "surface_shape s' = surface_shape s"
proof (cases "import_check (ie_rga e) s (Some pd)")
  case (Inl st)
  then have "st \<noteq> VA_STATUS_SUCCESS" by (auto simp: import_check_def Let_def split: if_splits option.splits)
  with Inl acc(1) fails [of st d] show thesis by (simp add: import_surface_descriptor_def)
next
  case (Inr pd')
  note chk = Inr and pd = import_check_cases(1) [OF Inr]
  let ?f = "R_Fd (oe_dup (ie_luma e))"
  show thesis
  proof (cases rule: import_object_ok [OF acc(1) env(1), of "po_size (pd_object0 pd)"])
    case (1 st d1)
    then show thesis using fails [OF _ 1(2-4)] chk pd by (simp add: import_surface_descriptor_def)
  next
    case (2 q m d1)
    note o = 2 and surf = builds_fields(1) [OF 2(4)]
    have room1: "room (sd_mem d1) q (unat (po_size (pd_object0 pd)))" using o(5,6) by (simp add: room_def)
    show thesis
    proof (cases "is_multiplane s pd")
      case False
      have "accounts {p} {#} (surf_set p (import_assign e pd q None s) d1)"
        by (rule import_assign_accounts [OF _ _ s chk dims o(2) room1]) (use o(3) False acc(2) surf in simp_all)
      then show thesis
        by (rule taken [where s' = "import_assign e pd q None s", rotated])
           (use o(1,4) False chk pd import_assign_raw [OF s(1)] import_assign_shape in \<open>simp_all add: import_surface_descriptor_def surf_set_def builds_def\<close>)
    next
      case True
      show thesis
      proof (cases rule: import_object_ok [OF o(3) env(2), of "po_size (pd_object1 pd)"])
        case (1 st d2)
        have "accounts {p} (mset [R_Buffer q, ?f] + {#}) d2" using 1(3) by simp
        from give_all_ok [OF this] obtain d3 where "give_all [R_Buffer q, ?f] d2 = Ok d3" "accounts {p} {#} d3" "builds d2 d3" by blast
        with fails [of st d3] 1 o(1,4) True chk pd show thesis by (simp add: import_surface_descriptor_def builds_def)
      next
        case (2 r mc d2)
        have "room (sd_mem d2) q (unat (po_size (pd_object0 pd)))"
          using 2(7) [of q] 2(8) o(5,6) by (cases "q = r") (simp_all add: room_def)
        moreover have "room (sd_mem d2) r (unat (po_size (pd_object1 pd)))" using 2(5,6) by (simp add: room_def)
        moreover have "sd_surf d2 p = Some s" using builds_fields(1) [OF 2(4)] surf acc(2) by simp
        ultimately have "accounts {p} {#} (surf_set p (import_assign e pd q (Some r) s) d2)"
          by (intro import_assign_accounts [OF _ _ s chk dims o(2)]) (use 2(2,3) True in \<open>simp_all add: add_mset_commute\<close>)
        then show thesis
          by (rule taken [where s' = "import_assign e pd q (Some r) s", rotated])
             (use o(1,4) 2(1,4) True chk pd import_assign_raw [OF s(1)] import_assign_shape in
               \<open>simp_all add: import_surface_descriptor_def surf_set_def builds_def\<close>)
      qed
    qed
  qed
qed

end
