(* ===== verification/Surface_Create.thy ===== *)
theory Surface_Create
  imports Surface_Accounts
begin

unbundle bit_operations_syntax

text \<open>
  Creation and destruction of surfaces keep the accounts: a failing creation gives back everything
  it acquired and leaves the identifiers as they were, a successful one yields surfaces whose pixels
  fit their memory.
\<close>

section \<open>Placeholders\<close>

lemma unat_align_u32: "unat (w AND NOT (mask k) :: u32) = unat w div 2 ^ k * 2 ^ k" if "k < 32"
proof -
  have "w AND NOT (mask k) = push_bit k (drop_bit k w)" by (rule bit_word_eqI) (auto simp: bit_simps)
  moreover have "unat w div 2 ^ k * 2 ^ k < 4294967296" by (rule le_less_trans [OF div_times_less_eq_dividend]) simp
  moreover have "unat (2 ^ k :: u32) = 2 ^ k"
  proof -
    have "(2::nat) ^ k < 2 ^ 32" using that by (intro power_strict_increasing) simp_all
    then have "unat (of_nat (2 ^ k) :: u32) = 2 ^ k" by (subst unat_of_nat) simp
    then show ?thesis by simp
  qed
  ultimately show ?thesis by (simp add: push_bit_eq_mult drop_bit_eq_div unat_word_ariths(2) unat_div)
qed

lemma unat_plus_small: "0 \<le> w \<Longrightarrow> w \<le> 8192 \<Longrightarrow> unat (of_int w + 63 :: u32) = nat w + 63"
  "0 \<le> w \<Longrightarrow> w \<le> 8192 \<Longrightarrow> unat (of_int w + 15 :: u32) = nat w + 15"
  using unat_of_int_c [of w] by (simp_all add: unat_word_ariths(1))

lemma placeholder_hstride_align:
  assumes "0 < w" "w \<le> 8192"
  shows "placeholder_hstride w wide = int (nat_align (nat w) (if wide then 64 else 16))"
proof -
  have lit: "(63 :: u32) = mask 6" "(15 :: u32) = mask 4" by (simp_all add: mask_eq_exp_minus_1)
  have "unat ((of_int w + 63) AND NOT 63 :: u32) = nat_align (nat w) 64" "unat ((of_int w + 15) AND NOT 15 :: u32) = nat_align (nat w) 16"
    unfolding lit(1)[THEN arg_cong [where f = NOT]] lit(2)[THEN arg_cong [where f = NOT]]
    using assms unat_plus_small [of w] by (simp_all add: unat_align_u32 nat_align_def)
  moreover have "nat_align (nat w) 64 < 2 ^ 31" "nat_align (nat w) 16 < 2 ^ 31"
    using nat_align_props(2) [of 64 "nat w"] nat_align_props(2) [of 16 "nat w"] assms by simp_all
  ultimately show ?thesis
    using sint_small [of "(of_int w + 63) AND NOT 63"] sint_small [of "(of_int w + 15) AND NOT 15"]
    by (simp add: placeholder_hstride_def Let_def add.commute)
qed

lemma placeholder_vstride_align:
  assumes "0 < h"
  shows "placeholder_vstride h = int (nat_align (nat h) 16)"
proof -
  have "(h + 15) AND NOT (mask 4) = push_bit 4 (drop_bit 4 (h + 15))" by (rule bit_eqI) (auto simp: bit_simps)
  moreover have "(15 :: int) = mask 4" by (simp add: mask_eq_exp_minus_1)
  ultimately have "placeholder_vstride h = (h + 15) div 16 * 16"
    by (simp add: placeholder_vstride_def push_bit_eq_mult drop_bit_eq_div)
  moreover have "int ((nat h + 15) div 16 * 16) = (h + 15) div 16 * 16" using assms by (simp add: zdiv_int)
  ultimately show ?thesis by (simp add: nat_align_def)
qed

lemma nat_align_mono_pow:
  assumes "0 < a" "a dvd b" "0 < b"
  shows "nat_align v a \<le> nat_align v b"
proof -
  have "a dvd nat_align v b" using nat_align_props(3) [OF assms(3)] assms(2) dvd_trans by blast
  then obtain k where k: "nat_align v b = k * a" by (metis dvd_def mult.commute)
  have "v \<le> k * a" using nat_align_props(1) [OF assms(3), of v] k by simp
  then have "v + a - 1 < (k + 1) * a" using assms(1) by simp
  then have "(v + a - 1) div a < k + 1" using assms(1) by (simp add: less_mult_imp_div_less)
  then show ?thesis unfolding k by (simp add: nat_align_def)
qed

lemma placeholder_fits:
  assumes "rk_surface_placeholder_size (of_int w) (of_int h) ten = Some bytes" and "wide \<Longrightarrow> \<not> ten"
    and "0 < w" "w \<le> 8192" "0 < h" "h \<le> 8192"
  shows "w \<le> placeholder_hstride w wide" "h \<le> placeholder_vstride h"
    "nat (placeholder_hstride w wide) * (if ten then 2 else 1) * (nat (placeholder_vstride h) + nat h div 2) \<le> unat bytes"
proof -
  let ?W = "nat_align (nat w)" and ?H = "nat_align (nat h)" and ?k = "if wide then 64 else 16 :: nat"
  note hs = placeholder_hstride_align [OF assms(3,4), of wide] and vs = placeholder_vstride_align [OF assms(5)]
  have le: "nat w \<le> ?W ?k" "nat h \<le> ?H 16" "16 dvd ?H 16" by (auto intro: nat_align_props)
  then show "w \<le> placeholder_hstride w wide" "h \<le> placeholder_vstride h" using assms(3,5) unfolding hs vs by linarith+
  have u: "unat (of_int w :: u32) = nat w" "unat (of_int h :: u32) = nat h" using assms(3-6) by (simp_all add: unat_of_int_c)
  have "?W ?k \<le> ?W 256" "?H 16 \<le> ?H 64" by (auto intro!: nat_align_mono_pow simp: dvd_numeral_simp)
  moreover have "?W 256 \<le> odd_256 (?W 256)" by (simp add: odd_256_def)
  ultimately have "?W ?k * (?H 16 + nat h div 2) \<le> odd_256 (?W 256) * (?H 64 * 2)"
    using le(2) by (intro mult_le_mono) linarith+
  then have eight: "?W ?k * (?H 16 + nat h div 2) \<le> surface_bytes (nat w) (nat h)" by (simp add: surface_bytes_def mult.assoc)
  have "2 * (nat h div 2) \<le> nat h" by simp
  then have "2 * (?H 16 + nat h div 2) \<le> 3 * ?H 16" using le(2) by simp
  then have "?W 16 * (2 * (?H 16 + nat h div 2)) \<le> ?W 16 * (3 * ?H 16)" by (rule mult_le_mono2)
  then have ten: "?W 16 * 2 * (?H 16 + nat h div 2) \<le> nv12_bytes (2 * ?W 16) (?H 16)" by (simp add: nv12_bytes_def mult_ac)
  have "unat bytes = (if ten then max (surface_bytes (nat w) (nat h)) (nv12_bytes (2 * ?W 16) (?H 16)) else surface_bytes (nat w) (nat h))"
    using assms(1) by (auto simp: placeholder_size_exact u unat_of_nat max_def split: if_splits)
  with eight ten assms(2) show
    "nat (placeholder_hstride w wide) * (if ten then 2 else 1) * (nat (placeholder_vstride h) + nat h div 2) \<le> unat bytes"
    unfolding hs vs by (auto simp: max_def)
qed

lemma placeholder_assign_ok:
  assumes "raw_surface imported s" and "surface_ok False mem s" and "room mem q (unat bytes)"
    and "rk_surface_placeholder_size (of_int (sf_width s)) (of_int (sf_height s)) (sf_fourcc s = VA_FOURCC_P010) = Some bytes"
  shows "surface_ok True mem (placeholder_assign imported enc grp q s)"
proof -
  let ?s = "placeholder_assign imported enc grp q s"
  let ?wide = "\<not> imported \<and> \<not> enc \<and> sf_fourcc s \<noteq> VA_FOURCC_P010"
  have raw: "sf_10bit s = (sf_fourcc s = VA_FOURCC_P010)" "imported = (sf_import_buf s \<noteq> None)"
    using assms(1) by (simp_all add: raw_surface_def)
  have dims: "0 < sf_width s" "sf_width s \<le> 8192" "0 < sf_height s" "sf_height s \<le> 8192"
    using assms(2) by (simp_all add: surface_ok_def RK_MAX_WIDTH_def RK_MAX_HEIGHT_def)
  note fit = placeholder_fits [OF assms(4) _ dims, where wide = ?wide]
  have same: "import_fits mem ?s" "sf_width ?s = sf_width s" "sf_height ?s = sf_height s" "sf_priv_buf ?s = Some q"
      "sf_frame ?s = sf_frame s" "sf_backing_buf ?s = sf_backing_buf s" "sf_import_buf ?s = sf_import_buf s"
    using assms(2) by (simp_all add: placeholder_assign_def Let_def import_fits_def surface_ok_def)
  have "pixels_fit mem ?s" if "sf_frame s = None" "sf_backing_buf s = None" "sf_import_buf s = None \<or> 2 \<le> sf_height s"
  proof (cases "imported \<and> \<not> sf_imported_rgb s \<and> \<not> sf_imported_multiplane s")
    case True
    then have "pixels_fit mem s" using assms(2) that raw(2) by (simp add: surface_ok_def)
    with True raw(2) show ?thesis
      by (simp add: pixels_fit_def pixel_buffer_def bytes_per_sample_def placeholder_assign_def Let_def)
  next
    case False
    have "room mem q n" if "n \<le> unat bytes" for n using assms(3) that by (auto simp: room_def split: option.splits)
    with False fit raw show ?thesis
      by (auto simp: pixels_fit_def pixel_buffer_def bytes_per_sample_def placeholder_assign_def Let_def)
  qed
  moreover have "sf_height s \<le> sf_vstride ?s"
    using assms(2) raw(2) fit(2) by (auto simp: placeholder_assign_def Let_def surface_ok_def)
  moreover have "c_int (sf_hstride ?s)" "c_int (sf_vstride ?s)"
    using assms(2) c_int_sint placeholder_vstride_align [OF dims(3)] nat_align_props(2) [of 16 "nat (sf_height s)"] dims(4)
    by (auto simp: placeholder_assign_def Let_def surface_ok_def placeholder_hstride_def c_int_def)
  ultimately show ?thesis using assms(2) by (simp add: surface_ok_def same)
qed

lemma placeholder_assign_held:
  "raw_surface imported s \<Longrightarrow> mset (surface_held (placeholder_assign imported enc grp q s)) =
     mset (surface_held s) + mset [R_Buffer q, R_Group grp]"
  by (auto simp: raw_surface_def surface_held_def placeholder_assign_def Let_def)

lemma create_placeholder_ok:
  assumes "accounts {p} {#} d" and "sd_surf d p = Some s" and "raw_surface imported s" and "create_env_ok e"
  obtains (refused) d' where "create_placeholder e imported enc p s d = Ok d'" "accounts {p} {#} d'" "builds d d'"
  | (placed) s' d' where "create_placeholder e imported enc p s d = Ok d'" "accounts {} {#} d'" "builds (surf_set p s' d) d'"
      "sf_priv_buf s' \<noteq> None" "surface_shape s' = surface_shape s"
proof (cases "rk_surface_placeholder_size (of_int (sf_width s)) (of_int (sf_height s)) (sf_fourcc s = VA_FOURCC_P010) = None \<or> \<not> ce_group e")
  case True
  with refused [of d] assms(1) show thesis by (auto simp: create_placeholder_def split: option.splits)
next
  case False
  then obtain n where n: "rk_surface_placeholder_size (of_int (sf_width s)) (of_int (sf_height s)) (sf_fourcc s = VA_FOURCC_P010) = Some n"
    by auto
  let ?g = "sd_brk d"
  note g = accounts_new_group [OF assms(1)]
  let ?d = "d\<lparr>sd_drv := (sd_drv d)\<lparr>d_brk := Suc ?g\<rparr>, sd_open := R_Group ?g # sd_open d\<rparr>"
  show thesis
  proof (cases "ce_buffer e n")
    case None
    obtain d' where "give_back (R_Group ?g) ?d = Ok d'" "accounts {p} {#} d'" "builds ?d d'" by (rule give_back_ok [OF g(2)])
    with None n False refused [of d'] g(1) builds_trans [OF g(3)] show thesis by (simp add: create_placeholder_def)
  next
    case (Some m)
    then have m: "n \<le> mb_size m" "mem_ok m" using assms(4) by (auto simp: create_env_ok_def)
    let ?q = "sd_brk ?d"
    define d2 where "d2 = ?d\<lparr>sd_drv := (sd_drv ?d)\<lparr>d_brk := Suc ?q\<rparr>, sd_mem := (sd_mem ?d)(?q \<mapsto> m), sd_open := R_Buffer ?q # sd_open ?d\<rparr>"
    have b: "mpp_new_buffer m ?d = (?q, d2)" "accounts {p} (add_mset (R_Buffer ?q) {#R_Group ?g#}) d2" "builds ?d d2"
      using accounts_new_buffer [OF g(2) m(2)] unfolding d2_def by blast+
    have bd: "builds d d2" by (rule builds_trans [OF g(3) b(3)])
    have acc2: "accounts {p} ({#} + mset [R_Buffer ?q, R_Group ?g]) d2" using b(2) by simp
    show thesis
    proof (cases "mb_fd m \<ge> 0")
      case False
      have "accounts {p} (mset [R_Buffer ?q, R_Group ?g] + {#}) d2" using acc2 by simp
      from give_all_ok [OF this] obtain d' where "give_all [R_Buffer ?q, R_Group ?g] d2 = Ok d'" "accounts {p} {#} d'" "builds d2 d'"
        by blast
      with refused [of d'] builds_trans [OF bd] n Some b(1) g(1) False \<open>\<not> (_ \<or> \<not> ce_group e)\<close> show thesis
        by (simp add: create_placeholder_def)
    next
      case True
      let ?s = "placeholder_assign imported enc ?g ?q s"
      have s2: "sd_surf d2 p = Some s" using bd assms(2) by (simp add: builds_def)
      have "surface_ok False (sd_mem d2) s" using accounts_surface [OF acc2 s2] by simp
      moreover have "room (sd_mem d2) ?q (unat n)" using m(1) by (simp add: d2_def room_def word_le_nat_alt)
      ultimately have ok: "surface_ok True (sd_mem d2) ?s" using placeholder_assign_ok [OF assms(3) _ _ n] by blast
      have "accounts {} {#} (surf_set p ?s d2)"
        by (rule accounts_surf_set [OF acc2 s2 placeholder_assign_held [OF assms(3)]]) (use ok in simp_all)
      then show thesis
        by (rule placed [where s' = ?s, rotated])
           (use n Some b(1) g(1) True bd \<open>\<not> (_ \<or> \<not> ce_group e)\<close> in
             \<open>simp_all add: create_placeholder_def surf_set_def builds_def placeholder_assign_def surface_shape_def Let_def\<close>)
    qed
  qed
qed

section \<open>One surface\<close>

text \<open>A failed construction has left no trace but used addresses.\<close>

definition rolled_back :: "SDriver \<Rightarrow> SDriver \<Rightarrow> bool" where
  "rolled_back d d' \<longleftrightarrow> surf_inv d' \<and> others_keep d d' \<and> sd_surface_heap d' = sd_surface_heap d \<and> sd_surf d' = sd_surf d \<and>
     (\<forall>q < sd_brk d. obj_refs (sd_objs d') q = obj_refs (sd_objs d) q)"

definition entered :: "int \<times> int \<times> VAFourcc \<Rightarrow> SDriver \<Rightarrow> u32 \<Rightarrow> SDriver \<Rightarrow> bool" where
  "entered shape d sid d' \<longleftrightarrow> surf_inv d' \<and> others_keep d d' \<and> heap_find (sd_surface_heap d) sid = None \<and>
     (\<exists>p s. p = sd_brk d \<and> surface_shape s = shape \<and> sd_surf d p = None \<and> sd_surf d' = (sd_surf d)(p \<mapsto> s) \<and>
        obj_refs (sd_objs d') = (obj_refs (sd_objs d))(p := 1) \<and>
        heap_find (sd_surface_heap d') = (heap_find (sd_surface_heap d))(sid \<mapsto> p))"

text \<open>\<open>d1\<close> is \<open>d\<close> with one more object \<open>p\<close> that no identifier names.\<close>

definition constructing :: "SDriver \<Rightarrow> nat \<Rightarrow> SDriver \<Rightarrow> bool" where
  "constructing d p d1 \<longleftrightarrow> surf_inv d \<and> p = sd_brk d \<and> (\<exists>s. sd_surf d1 = (sd_surf d)(p \<mapsto> s)) \<and>
     sd_surface_heap d1 = sd_surface_heap d \<and> p < sd_brk d1 \<and> sd_objs d1 = rk_object_init p (sd_objs d) \<and>
     d_buf (sd_drv d1) = d_buf (sd_drv d) \<and> d_buffer_heap (sd_drv d1) = d_buffer_heap (sd_drv d)"

lemma constructing_facts:
  assumes "constructing d p d1"
  shows "sd_surf d p = None" "heap_find (sd_surface_heap d1) i \<noteq> Some p" "obj_refs (sd_objs d1) p = 1"
    "handles_ok (sd_surface_heap d1) (sd_surf d1) (obj_refs (sd_objs d1))" "others_keep d d1"
proof -
  have inv: "handles_ok (sd_surface_heap d) (sd_surf d) (obj_refs (sd_objs d))" "accounts {} {#} d" "p = sd_brk d"
    using assms by (auto simp: constructing_def surf_inv_def)
  show p: "sd_surf d p = None" using accounts_surface [OF inv(2), of p] inv(3) by (cases "sd_surf d p") auto
  have no: "heap_find (sd_surface_heap d) i \<noteq> Some p" for i using inv(1) p unfolding handles_ok_def by metis
  then show "heap_find (sd_surface_heap d1) i \<noteq> Some p" using assms by (simp add: constructing_def)
  show "obj_refs (sd_objs d1) p = 1" using assms by (simp add: constructing_def rk_object_init_def)
  show "handles_ok (sd_surface_heap d1) (sd_surf d1) (obj_refs (sd_objs d1))"
    using assms inv(1) no unfolding constructing_def by (auto simp: handles_ok_def rk_object_init_def)
  show "others_keep d d1" using assms by (auto simp: constructing_def others_keep_def rk_object_init_def)
qed

lemma constructing_builds:
  assumes "constructing d p d1"
  shows "builds d1 d2 \<Longrightarrow> constructing d p d2" "builds (surf_set p s d1) d2 \<Longrightarrow> constructing d p d2"
  using assms builds_fields [of d1 d2] builds_fields [of "surf_set p s d1" d2]
  by (auto simp: constructing_def surf_set_def)

lemma drop_surface_ok:
  assumes "constructing d p d1" and "accounts {p} {#} d1"
  obtains d' where "drop_surface p st d1 = Ok (Inl st, d')" "rolled_back d d'"
proof -
  obtain s where s: "sd_surf d1 = (sd_surf d)(p \<mapsto> s)" using assms(1) by (auto simp: constructing_def)
  note c = constructing_facts [OF assms(1)]
  obtain d' where "surface_unref p d1 = Ok d'" "surf_inv d'" "others_keep d1 d'" "sd_surface_heap d' = sd_surface_heap d1"
      "sd_surf d' = (sd_surf d1)(p := None)" "sd_objs d' = rk_object_unref p (sd_objs d1)"
    using surface_unref_last [OF assms(2) c(4) _ c(3,2)] s by auto
  with that [of d'] s c(1,5) assms(1) others_keep_trans show thesis
    by (auto simp: drop_surface_def rolled_back_def constructing_def fun_upd_idem rk_object_unref_def rk_object_init_def Let_def)
qed

lemma finish_surface_ok:
  assumes "constructing d p d1" and "accounts {p} {#} d1" and "sd_surf d1 p = Some s" and "raw_surface imported s" and "create_env_ok e"
  obtains (fails) st d' where "finish_surface e imported enc p d1 = Ok (Inl st, d')" "rolled_back d d'"
  | (enters) sid d' where "finish_surface e imported enc p d1 = Ok (Inr sid, d')" "entered (surface_shape s) d sid d'"
proof (cases rule: create_placeholder_ok [OF assms(2-5), of enc])
  case (1 d2)
  have "sf_priv_buf s = None" using assms(4) by (simp add: raw_surface_def)
  moreover have "sd_surf d2 p = Some s" using builds_fields(1) [OF 1(3)] assms(3) by simp
  moreover obtain d' where "drop_surface p VA_STATUS_ERROR_ALLOCATION_FAILED d2 = Ok (Inl VA_STATUS_ERROR_ALLOCATION_FAILED, d')" "rolled_back d d'"
    by (rule drop_surface_ok [OF constructing_builds(1) [OF assms(1) 1(3)] 1(2)])
  ultimately show thesis using fails [of VA_STATUS_ERROR_ALLOCATION_FAILED d'] 1(1) assms(3)
    by (simp add: finish_surface_def surface_at_def)
next
  case (2 s' d2)
  note cons = constructing_builds(2) [OF assms(1) 2(3)]
  note c = constructing_facts [OF cons]
  have s2: "sd_surf d2 p = Some s'" using builds_fields(1) [OF 2(3)] by (simp add: surf_set_def)
  have inv: "heap_inv (sd_surface_heap d2)" using c(4) by (simp add: handles_ok_def)
  obtain r h where ins: "rk_object_heap_insert (ce_heap e) (sd_surface_heap d2) p = Ok (r, h)"
    using heap_map.ins_total [OF inv] by blast
  show thesis
  proof (cases r)
    case None
    then have "h = sd_surface_heap d2" using heap_insert_None [OF inv] ins by simp
    moreover obtain d' where "drop_surface p VA_STATUS_ERROR_ALLOCATION_FAILED d2 = Ok (Inl VA_STATUS_ERROR_ALLOCATION_FAILED, d')" "rolled_back d d'"
      by (rule drop_surface_ok [OF cons accounts_widen [OF 2(2)]])
    ultimately show thesis using fails [of VA_STATUS_ERROR_ALLOCATION_FAILED d'] None ins 2(1,4) s2 assms(3)
      by (simp add: finish_surface_def surface_at_def)
  next
    case (Some sid)
    note find = heap_map.ins_fresh [OF inv ins [unfolded Some]] heap_map.ins_find [OF inv ins [unfolded Some]]
      heap_map.ins_inv [OF inv ins [unfolded Some]]
    let ?d = "d2\<lparr>sd_surface_heap := h\<rparr>"
    have "handles_ok h (sd_surf d2) (obj_refs (sd_objs d2))"
      using c(2,3,4) find s2 by (auto simp: handles_ok_def)
    moreover have "accounts {} {#} ?d" using 2(2) by (simp add: accounts_def)
    moreover have "others_keep d ?d" using c(5) by (simp add: others_keep_def)
    moreover have "sd_surface_heap d2 = sd_surface_heap d" "\<exists>t. sd_surf d2 = (sd_surf d)(p \<mapsto> t)" using cons unfolding constructing_def by blast+
    moreover have "sd_objs d2 = rk_object_init p (sd_objs d)" "p = sd_brk d" using cons by (simp_all add: constructing_def)
    moreover have "sd_surf d2 = (sd_surf d)(p \<mapsto> s')" using calculation(5) s2 by auto
    ultimately have "entered (surface_shape s) d sid ?d"
      using find c(1) 2(5) by (auto simp: entered_def surf_inv_def rk_object_init_def)
    with enters [of sid ?d] Some ins 2(1,4) s2 assms(3) show thesis by (simp add: finish_surface_def surface_at_def)
  qed
qed

lemma create_surface_ok:
  assumes "surf_inv d" and "0 < w" "w \<le> 8192" "0 < h" "h \<le> 8192" and "create_env_ok e"
  obtains (fails) st d' where "create_surface e w h f pd enc d = Ok (Inl st, d')" "rolled_back d d'"
  | (enters) sid d' where "create_surface e w h f pd enc d = Ok (Inr sid, d')" "entered (w, h, f) d sid d'"
proof (cases "ce_object e \<and> ce_lock e")
  case False
  with fails [of _ d] assms(1) show thesis by (auto simp: create_surface_def rolled_back_def)
next
  case True
  let ?s = "zero_surface w h f" and ?p = "sd_brk d"
  define d1 where "d1 = d\<lparr>sd_drv := (sd_drv d)\<lparr>d_brk := Suc ?p, d_objs := rk_object_init ?p (sd_objs d)\<rparr>, sd_surf := (sd_surf d)(?p \<mapsto> ?s)\<rparr>"
  have new: "new_surface ?s d = (?p, d1)" by (simp add: new_surface_def Let_def d1_def)
  have acc: "accounts {} {#} d" using assms(1) by (simp add: surf_inv_def)
  have c1: "constructing d ?p d1" using assms(1) by (auto simp: constructing_def d1_def)
  have "sd_surf d ?p = None" using constructing_facts(1) [OF c1] .
  then have "held_by (sd_surf d1) = held_by (sd_surf d)"
    using acc by (simp add: d1_def accounts_def held_by_new zero_surface_raw)
  moreover have "surface_ok False (sd_mem d) ?s"
    using assms(2-5) by (simp add: surface_ok_def zero_surface_def import_fits_def RK_MAX_WIDTH_def RK_MAX_HEIGHT_def c_int_def)
  ultimately have a1: "accounts {?p} {#} d1"
    using acc by (auto simp: accounts_def d1_def mems_ok_def less_Suc_eq)
  have s1: "sd_surf d1 ?p = Some ?s" by (simp add: d1_def)
  note z = zero_surface_raw [of w h f]
  have shape: "surface_shape ?s = (w, h, f)" by (simp add: surface_shape_def zero_surface_def)
  show thesis
  proof (cases pd)
    case None
    show thesis
      by (cases rule: finish_surface_ok [OF c1 a1 s1 z(1) assms(6), of enc])
         (use True new None fails enters shape in \<open>auto simp: create_surface_def\<close>)
  next
    case (Some x)
    have dims: "0 < sf_width ?s" "sf_width ?s \<le> 8192" "0 < sf_height ?s" "sf_height ?s \<le> 8192"
      using assms(2-5) by (simp_all add: zero_surface_def)
    have env: "object_env_ok (ie_luma (ce_import e))" "object_env_ok (ie_chroma (ce_import e))" using assms(6) by (simp_all add: create_env_ok_def)
    show thesis
    proof (cases rule: import_descriptor_ok [OF a1 s1 z dims env, of x])
      case (1 st d2)
      obtain d' where "drop_surface ?p st d2 = Ok (Inl st, d')" "rolled_back d d'"
        by (rule drop_surface_ok [OF constructing_builds(1) [OF c1 1(4)] 1(3)])
      with fails [of st d'] 1(1,2) True new Some show thesis by (simp add: create_surface_def)
    next
      case (2 s' d2)
      have "sd_surf d2 ?p = Some s'" using builds_fields(1) [OF 2(3)] by (simp add: surf_set_def)
      then show thesis
        by (cases rule: finish_surface_ok [OF constructing_builds(2) [OF c1 2(3)] 2(2) _ 2(4) assms(6), of enc])
           (use True new Some 2(1,5) fails enters shape in \<open>auto simp: create_surface_def\<close>)
    qed
  qed
qed

section \<open>Several surfaces\<close>

text \<open>The state of the loop that started in \<open>d0\<close> and has written the identifiers \<open>ids\<close>.\<close>

definition created_so_far :: "int \<times> int \<times> VAFourcc \<Rightarrow> SDriver \<Rightarrow> u32 list \<Rightarrow> SDriver \<Rightarrow> bool" where
  "created_so_far shape d0 ids d \<longleftrightarrow> surf_inv d \<and> others_keep d0 d \<and> distinct ids \<and>
     (\<forall>i. i \<notin> set ids \<longrightarrow> heap_find (sd_surface_heap d) i = heap_find (sd_surface_heap d0) i) \<and>
     (\<forall>i \<in> set ids. heap_find (sd_surface_heap d0) i = None \<and>
        (\<exists>p s. heap_find (sd_surface_heap d) i = Some p \<and> sd_surf d p = Some s \<and> surface_shape s = shape \<and>
           obj_refs (sd_objs d) p = 1 \<and> sd_surf d0 p = None)) \<and>
     (\<forall>q. (\<forall>i \<in> set ids. heap_find (sd_surface_heap d) i \<noteq> Some q) \<longrightarrow> sd_surf d q = sd_surf d0 q)"

lemma created_start: "surf_inv d \<Longrightarrow> created_so_far shape d [] d"
  by (simp add: created_so_far_def)

lemma surf_brk: "surf_inv d \<Longrightarrow> sd_surf d p = Some s \<Longrightarrow> p < sd_brk d"
  by (simp add: surf_inv_def accounts_def)

lemma created_next:
  assumes "created_so_far shape d0 ids d" and "entered shape d sid d'"
  shows "created_so_far shape d0 (ids @ [sid]) d'"
proof -
  from assms(2) obtain p s where e: "surf_inv d'" "others_keep d d'" "heap_find (sd_surface_heap d) sid = None" "p = sd_brk d"
      "surface_shape s = shape" "sd_surf d p = None" "sd_surf d' = (sd_surf d)(p \<mapsto> s)"
      "obj_refs (sd_objs d') = (obj_refs (sd_objs d))(p := 1)" "heap_find (sd_surface_heap d') = (heap_find (sd_surface_heap d))(sid \<mapsto> p)"
    by (auto simp: entered_def)
  from assms(1) have c: "surf_inv d" "others_keep d0 d" "distinct ids"
      "\<And>i. i \<notin> set ids \<Longrightarrow> heap_find (sd_surface_heap d) i = heap_find (sd_surface_heap d0) i"
      "\<And>i. i \<in> set ids \<Longrightarrow> heap_find (sd_surface_heap d0) i = None \<and>
        (\<exists>p s. heap_find (sd_surface_heap d) i = Some p \<and> sd_surf d p = Some s \<and> surface_shape s = shape \<and>
           obj_refs (sd_objs d) p = 1 \<and> sd_surf d0 p = None)"
      "\<And>q. (\<And>i. i \<in> set ids \<Longrightarrow> heap_find (sd_surface_heap d) i \<noteq> Some q) \<Longrightarrow> sd_surf d q = sd_surf d0 q"
    by (simp_all add: created_so_far_def)
  have new: "sid \<notin> set ids" using c(5) [of sid] e(3) by auto
  have old: "q \<noteq> p" if "i \<in> set ids" "heap_find (sd_surface_heap d) i = Some q" for i q using c(5) that e(6) by fastforce
  have p0: "sd_surf d0 p = None" using c(6) [of p] e(6) old by metis
  have named: "heap_find (sd_surface_heap d0) i = None \<and> (\<exists>p s. heap_find (sd_surface_heap d') i = Some p \<and> sd_surf d' p = Some s \<and>
      surface_shape s = shape \<and> obj_refs (sd_objs d') p = 1 \<and> sd_surf d0 p = None)" if "i \<in> set (ids @ [sid])" for i
  proof (cases "i = sid")
    case True
    then show ?thesis using c(4) new e(3,5,7,8,9) p0 by simp
  next
    case False
    then have "i \<in> set ids" using that by simp
    with c(5) old False e(7,8,9) show ?thesis by fastforce
  qed
  have same: "sd_surf d' q = sd_surf d0 q" if un: "\<And>i. i \<in> set (ids @ [sid]) \<Longrightarrow> heap_find (sd_surface_heap d') i \<noteq> Some q" for q
  proof -
    have "q \<noteq> p" using un [of sid] e(9) by auto
    moreover have "heap_find (sd_surface_heap d) i \<noteq> Some q" if "i \<in> set ids" for i using that un [of i] new e(9) by (cases "i = sid") simp_all
    ultimately show ?thesis using c(6) e(7) by auto
  qed
  have keep: "others_keep d0 d'" by (rule others_keep_trans [OF c(2) e(2)])
  have heap: "heap_find (sd_surface_heap d') i = heap_find (sd_surface_heap d0) i" if "i \<notin> set (ids @ [sid])" for i
    using that c(4) e(9) by simp
  show ?thesis
    unfolding created_so_far_def
    by (intro conjI allI impI) (use e(1) keep c(3) new heap in simp, use e(1) keep c(3) new heap in simp, use c(3) new in simp,
       erule heap, use named in blast, use same in blast)
qed

definition untouched :: "SDriver \<Rightarrow> SDriver \<Rightarrow> bool" where
  "untouched d0 d \<longleftrightarrow> surf_inv d \<and> others_keep d0 d \<and> heap_find (sd_surface_heap d) = heap_find (sd_surface_heap d0) \<and> sd_surf d = sd_surf d0"

lemma rollback_untouched:
  assumes "created_so_far shape d0 ids d" and "rolled_back d d1"
  obtains d' where "rk_DestroySurfaces ids d1 = Ok d'" "untouched d0 d'"
proof -
  have r: "surf_inv d1" "others_keep d d1" "sd_surface_heap d1 = sd_surface_heap d" "sd_surf d1 = sd_surf d"
      "\<And>q. q < sd_brk d \<Longrightarrow> obj_refs (sd_objs d1) q = obj_refs (sd_objs d) q"
    using assms(2) by (simp_all add: rolled_back_def)
  obtain d' where d': "rk_DestroySurfaces ids d1 = Ok d'" "surf_inv d'" "others_keep d1 d'" "destroys ids d1 d'"
    using destroy_surfaces_ok [OF r(1)] by blast
  have heap: "heap_find (sd_surface_heap d') = heap_find (sd_surface_heap d0)"
    using d'(4) assms(1) r(3) by (auto simp: destroys_def created_so_far_def fun_eq_iff)
  have "sd_surf d' q = sd_surf d0 q" for q
  proof (cases "\<exists>i \<in> set ids. heap_find (sd_surface_heap d) i = Some q")
    case True
    then have "sd_surf d0 q = None" "obj_refs (sd_objs d) q = 1" "sd_surf d q \<noteq> None"
      using assms(1) unfolding created_so_far_def by fastforce+
    moreover from this have "obj_refs (sd_objs d1) q = 1" using r(5) surf_brk assms(1) unfolding created_so_far_def by fastforce
    moreover have "\<exists>i \<in> set ids. heap_find (sd_surface_heap d1) i = Some q" using True r(3) by simp
    ultimately show ?thesis using d'(4) unfolding destroys_def by simp
  next
    case False
    with d'(4) assms(1) r(3,4) show ?thesis unfolding destroys_def created_so_far_def by simp
  qed
  moreover have "others_keep d0 d'" using assms(1) r(2) d'(3) others_keep_trans unfolding created_so_far_def by blast
  ultimately show thesis using that [of d'] d'(1,2) heap by (auto simp: untouched_def)
qed

lemma create_loop_ok:
  assumes "created_so_far (w, h, f) d0 ids d" and "0 < w" "w \<le> 8192" "0 < h" "h \<le> 8192" and "\<And>i. create_env_ok (env i)"
    and "\<And>pds. pdl = Some pds \<Longrightarrow> i + k \<le> length pds"
  shows "(\<exists>st d'. create_loop env k i w h f pdl enc ids d = Ok (Inl st, d') \<and> untouched d0 d') \<or>
    (\<exists>ids' d'. create_loop env k i w h f pdl enc ids d = Ok (Inr ids', d') \<and> created_so_far (w, h, f) d0 ids' d' \<and> length ids' = length ids + k)"
  using assms(1,7)
proof (induction k arbitrary: i ids d)
  case (Suc k)
  have inv: "surf_inv d" using Suc.prems(1) by (simp add: created_so_far_def)
  have bound: "\<not> (case pdl of None \<Rightarrow> False | Some pds \<Rightarrow> i \<ge> length pds)"
    using Suc.prems(2) by (auto split: option.splits)
  show ?case
  proof (cases rule: create_surface_ok [OF inv assms(2-5) assms(6) [of i], of f "map_option (\<lambda>pds. pds ! i) pdl" enc])
    case (1 st d1)
    obtain d' where "rk_DestroySurfaces ids d1 = Ok d'" "untouched d0 d'" by (rule rollback_untouched [OF Suc.prems(1) 1(2)])
    with 1(1) bound show ?thesis by simp
  next
    case (2 sid d1)
    have "created_so_far (w, h, f) d0 (ids @ [sid]) d1" by (rule created_next [OF Suc.prems(1) 2(2)])
    from Suc.IH [OF this, of "Suc i"] Suc.prems(2) 2(1) bound show ?thesis by simp
  qed
qed simp

end
