(* ===== verification/Surface_Calls.thy ===== *)
theory Surface_Calls
  imports Surface_Create
begin

unbundle bit_operations_syntax

text \<open>
  The entry points of \<open>src/surface.c\<close> in sequence: a call on an acquired surface drops its reference
  again, the copy of a two-object import stays inside the three buffers, and no sequence of calls
  faults or breaks the accounts. Creation is all or nothing.
\<close>

section \<open>Calls on an acquired surface\<close>

text \<open>What a call may change: the contents of buffers and the trace of system calls.\<close>

definition same_buffer :: "mpp_memory \<Rightarrow> mpp_memory \<Rightarrow> bool" where
  "same_buffer m m' \<longleftrightarrow> mb_fd m' = mb_fd m \<and> mb_size m' = mb_size m \<and> mb_ptr m' = mb_ptr m \<and> (mem_ok m \<longrightarrow> mem_ok m')"

definition mem_like :: "(nat \<rightharpoonup> mpp_memory) \<Rightarrow> (nat \<rightharpoonup> mpp_memory) \<Rightarrow> bool" where
  "mem_like mem mem' \<longleftrightarrow> (\<forall>q. rel_option same_buffer (mem q) (mem' q))"

definition call_keeps :: "SDriver \<Rightarrow> SDriver \<Rightarrow> bool" where
  "call_keeps d d' \<longleftrightarrow> sd_surf d' = sd_surf d \<and> sd_surface_heap d' = sd_surface_heap d \<and> sd_open d' = sd_open d \<and>
     mem_like (sd_mem d) (sd_mem d') \<and> sd_brk d' = sd_brk d \<and> sd_objs d' = sd_objs d \<and>
     d_buf (sd_drv d') = d_buf (sd_drv d) \<and> d_buffer_heap (sd_drv d') = d_buffer_heap (sd_drv d)"

lemma mem_like_refl [simp]: "mem_like mem mem"
  by (simp add: mem_like_def option.rel_refl same_buffer_def)

lemma mem_like_cases:
  assumes "mem_like mem mem'"
  shows "mem' q \<noteq> None \<longleftrightarrow> mem q \<noteq> None" "mem q = Some m \<Longrightarrow> \<exists>m'. mem' q = Some m' \<and> same_buffer m m'"
    "mem' q = Some m' \<Longrightarrow> \<exists>m. mem q = Some m \<and> same_buffer m m'"
proof -
  have "rel_option same_buffer (mem q) (mem' q)" using assms by (simp add: mem_like_def)
  then show "mem' q \<noteq> None \<longleftrightarrow> mem q \<noteq> None" "mem q = Some m \<Longrightarrow> \<exists>m'. mem' q = Some m' \<and> same_buffer m m'"
    "mem' q = Some m' \<Longrightarrow> \<exists>m. mem q = Some m \<and> same_buffer m m'" by (auto elim: option.rel_cases)
qed

lemma call_keeps_refl [simp]: "call_keeps d d"
  by (simp add: call_keeps_def)

lemma sd_sync_fields [simp]:
  "sd_surf (sd_sync evs d) = sd_surf d" "sd_surface_heap (sd_sync evs d) = sd_surface_heap d" "sd_mem (sd_sync evs d) = sd_mem d"
  "sd_open (sd_sync evs d) = sd_open d" "sd_drv (sd_sync evs d) = sys_log evs (sd_drv d)"
  by (simp_all add: sd_sync_def)

lemma call_keeps_sync: "call_keeps d d' \<Longrightarrow> call_keeps d (sd_sync evs d')" "call_keeps (sd_sync evs d) d' \<Longrightarrow> call_keeps d d'"
  by (simp_all add: call_keeps_def sd_sync_def sys_log_def)

lemma call_keeps_mem_set:
  assumes "sd_mem d q = Some m" and "init_prefix (unat (mb_size m)) bytes"
  shows "call_keeps d (mem_set q bytes d)"
proof -
  have "mem_like (sd_mem d) ((sd_mem d)(q \<mapsto> m\<lparr>mb_bytes := bytes\<rparr>))"
    using assms by (simp add: mem_like_def option.rel_refl same_buffer_def mem_ok_def)
  with assms(1) show ?thesis by (simp add: call_keeps_def mem_set_def)
qed

lemma call_keeps_fields:
  assumes "call_keeps d d'"
  shows "sd_brk d' = sd_brk d" "sd_objs d' = sd_objs d" "d_buf (sd_drv d') = d_buf (sd_drv d)"
    "d_buffer_heap (sd_drv d') = d_buffer_heap (sd_drv d)" "sd_surf d' = sd_surf d" "sd_surface_heap d' = sd_surface_heap d"
  using assms by (simp_all add: call_keeps_def)

lemma call_keeps_accounts:
  assumes "call_keeps d d'" and "accounts {} {#} d"
  shows "accounts {} {#} d'"
proof -
  note f = call_keeps_fields [OF assms(1)]
  have like: "mem_like (sd_mem d) (sd_mem d')" "sd_open d' = sd_open d" using assms(1) by (simp_all add: call_keeps_def)
  note c = mem_like_cases [OF like(1)]
  have "surface_ok True (sd_mem d') s" if "sd_surf d p = Some s" for p s
  proof (rule surface_ok_mem)
    show "surface_ok True (sd_mem d) s" using assms(2) that by (simp add: accounts_def)
    show "\<exists>m'. sd_mem d' q = Some m' \<and> mb_size m' = mb_size m" if "sd_mem d q = Some m" for q m
      using c(2) [OF that] by (auto simp: same_buffer_def)
  qed
  moreover have "mems_ok (sd_brk d) (sd_mem d) (sd_open d)" using assms(2) by (simp add: accounts_def)
  then have "mems_ok (sd_brk d) (sd_mem d') (sd_open d)"
    using c(1,3) unfolding mems_ok_def same_buffer_def by metis
  ultimately show ?thesis using assms(2) f like(2) by (simp add: accounts_def)
qed

lemma with_surface_ok:
  assumes "surf_inv d"
    and "\<And>p s d1. sd_surf d1 p = Some s \<Longrightarrow> accounts {} {#} d1 \<Longrightarrow> \<exists>r d2. body p s d1 = Ok (r, d2) \<and> call_keeps d1 d2"
  obtains (missing) "with_surface d sid body = Ok (Inl VA_STATUS_ERROR_INVALID_SURFACE, d)"
  | (called) p s objs r d2 where "heap_find (sd_surface_heap d) sid = Some p" "sd_surf d p = Some s"
      "body p s (sd_set_objs objs d) = Ok (r, d2)" "with_surface d sid body = Ok (r, sd_set_objs (sd_objs d) d2)"
      "surf_inv (sd_set_objs (sd_objs d) d2)" "call_keeps (sd_set_objs objs d) d2" "call_keeps d (sd_set_objs (sd_objs d) d2)"
proof (cases "heap_find (sd_surface_heap d) sid")
  case None
  have "surface_acquire d sid = Ok (None, d)"
    using assms(1) None by (simp add: surface_acquire_def heap_acquire_find surf_inv_def handles_ok_def sd_set_objs_def)
  with missing show thesis by (simp add: with_surface_def)
next
  case (Some p)
  obtain s where s: "sd_surf d p = Some s" using assms(1) Some unfolding surf_inv_def by (blast elim: handles_named)
  obtain ok objs where r: "rk_object_ref p (sd_objs d) = (ok, objs)" by fastforce
  have acq: "surface_acquire d sid = Ok (if ok then Some p else None, sd_set_objs objs d)"
    using assms(1) Some r by (simp add: surface_acquire_def heap_acquire_find surf_inv_def handles_ok_def)
  show thesis
  proof (cases ok)
    case False
    with r have "objs = sd_objs d" by (auto simp: rk_object_ref_def Let_def split: if_splits)
    with acq False missing show thesis by (simp add: with_surface_def sd_set_objs_def)
  next
    case True
    let ?d = "sd_set_objs objs d"
    have acc: "accounts {} {#} d" "handles_ok (sd_surface_heap d) (sd_surf d) (obj_refs (sd_objs d))" using assms(1) by (simp_all add: surf_inv_def)
    obtain res d2 where b: "body p s ?d = Ok (res, d2)" "call_keeps ?d d2" using assms(2) [of ?d p s] s acc by auto
    note f = call_keeps_fields [OF b(2), simplified]
    have more: "obj_refs objs p \<noteq> 1" using r True by (auto simp: rk_object_ref_def Let_def split: if_splits)
    have u: "rk_object_unref p objs = sd_objs d" using rk_object_ref_unref r True by simp
    then have "surface_unref p d2 = Ok (sd_set_objs (sd_objs d) d2)"
      using more s f by (simp add: surface_unref_def Let_def)
    moreover have "surf_inv (sd_set_objs (sd_objs d) d2)"
      using call_keeps_accounts [OF b(2)] acc f by (simp add: surf_inv_def)
    moreover have "call_keeps d (sd_set_objs (sd_objs d) d2)"
      using b(2) by (simp add: call_keeps_def)
    ultimately show thesis using called [OF Some s b(1) _ _ b(2)] acq True b(1) s by (simp add: with_surface_def surface_at_def)
  qed
qed

section \<open>Two planes in one buffer\<close>

lemma nv12_planes:
  assumes "rk_nv12_layout_size P V = Some n" and "row \<le> unat P" and "h \<le> unat V"
  shows "unat (P * V) = unat P * unat V" "unat P * unat V \<le> unat n"
    "plane_ends 0 (unat P) row h (unat (P * V))" "plane_ends (unat (P * V)) (unat P) row (h div 2) (unat n)"
proof -
  let ?l = "unat P * unat V"
  from assms(1) have e: "even (unat V)" "nv12_bytes (unat P) (unat V) < 2 ^ 64" "n = of_nat (nv12_bytes (unat P) (unat V))"
    by (auto simp: nv12_size_exact split: if_splits)
  have b: "nv12_bytes (unat P) (unat V) = ?l + ?l div 2" by (simp add: nv12_bytes_def)
  have "unat n = nv12_bytes (unat P) (unat V)" using e(2) unfolding e(3) by (subst unat_of_nat) simp
  then have n: "unat n = ?l + ?l div 2" by (simp only: b)
  show l: "unat (P * V) = ?l" using e(2) b by (intro unat_mult_no_wrap) simp
  show "?l \<le> unat n" using n by simp
  have "h * unat P \<le> ?l" using assms(3) by (simp add: mult.commute)
  then show "plane_ends 0 (unat P) row h (unat (P * V))" unfolding l by (intro plane_ends_rows assms(2)) simp
  have "h div 2 * unat P \<le> unat V div 2 * unat P" using assms(3) by (intro mult_le_mono1 div_le_mono)
  also have "\<dots> = ?l div 2" using e(1) by (metis dvd_div_mult mult.commute)
  finally show "plane_ends (unat (P * V)) (unat P) row (h div 2) (unat n)"
    unfolding l n by (intro plane_ends_rows assms(2)) simp
qed

text \<open>Clearing a memory and copying two planes into it, one behind the other.\<close>

definition two_planes :: "mem \<Rightarrow> nat \<Rightarrow> nat \<Rightarrow> mem \<Rightarrow> nat \<Rightarrow> nat \<Rightarrow> nat \<Rightarrow> nat \<Rightarrow> nat \<Rightarrow> nat \<Rightarrow> mem \<Rightarrow> bool" where
  "two_planes y yoff ypitch uv uvoff uvpitch P chroma row h bytes \<longleftrightarrow>
     (\<forall>r < h. \<forall>c < row. bytes ! (r * P + c) = y ! (yoff + r * ypitch + c)) \<and>
     (\<forall>r < h div 2. \<forall>c < row. bytes ! (chroma + r * P + c) = uv ! (uvoff + r * uvpitch + c))"

lemma clear_ok:
  assumes "init_prefix k m" and "n \<le> k"
  obtains m' where "mem_write m 0 (replicate n 0) = Ok m'" "init_prefix k m'"
proof -
  have "mem_write m 0 (replicate n 0) = Ok (map Some (replicate n 0) @ drop n m)"
    using assms by (simp add: mem_write_def init_prefix_def)
  with init_prefix_write [OF assms(1)] that show thesis by blast
qed

lemma wrote_cell:
  "wrote P g m m' \<Longrightarrow> i < length m \<Longrightarrow> i \<in> P \<Longrightarrow> m' ! i = g i"
  "wrote P g m m' \<Longrightarrow> i < length m \<Longrightarrow> i \<notin> P \<Longrightarrow> m' ! i = m ! i"
  by (simp_all add: wrote_def)

lemma in_plane_cells: "r < rows \<Longrightarrow> c < n \<Longrightarrow> off + r * pitch + c \<in> plane_cells off pitch n rows"
  by (auto simp: plane_cells_def intro!: bexI [of _ r])

lemma two_planes_ok:
  assumes layout: "rk_nv12_layout_size P V = Some n" "unat row \<le> unat P" "h \<le> unat V" "0 < unat row"
    and dst: "init_prefix k dst" "unat n \<le> k" "k < 2 ^ 64"
    and y: "plane_defined y yoff ypitch (unat row) h" and uv: "plane_defined uv uvoff uvpitch (unat row) (h div 2)"
  obtains bytes where "obind (mem_write dst 0 (replicate (unat n) 0)) (\<lambda>dst.
      obind (copy_rows h 0 (unat row) y yoff ypitch 0 P dst) (copy_rows (h div 2) 0 (unat row) uv uvoff uvpitch (P * V) P)) = Ok bytes"
    "init_prefix k bytes"
    "two_planes y (unat yoff) (unat ypitch) uv (unat uvoff) (unat uvpitch) (unat P) (unat (P * V)) (unat row) h bytes"
proof -
  note p = nv12_planes [OF layout(1-3)]
  obtain m0 where m0: "mem_write dst 0 (replicate (unat n) 0) = Ok m0" "init_prefix k m0" by (rule clear_ok [OF dst(1,2)])
  then have len0: "k \<le> length m0" by (simp add: init_prefix_def)
  let ?Y = "plane_cells 0 (unat P) (unat row) h" and ?gy = "copied_from y (unat yoff) (unat ypitch) 0 (unat P)"
  have "plane_room (length m0) 0 P (unat row) h"
    by (rule plane_room_fits [of _ _ _ _ "unat (P * V)"]) (use p dst len0 layout(4) in simp_all)
  from copy_rows_wrote [OF y this] obtain m1 where
    m1: "copy_rows h 0 (unat row) y yoff ypitch 0 P m0 = Ok m1" "wrote ?Y ?gy m0 m1" unfolding unat_0 by blast
  have len1: "length m1 = length m0" using m1(2) by (simp add: wrote_def)
  let ?C = "plane_cells (unat (P * V)) (unat P) (unat row) (h div 2)"
  let ?gc = "copied_from uv (unat uvoff) (unat uvpitch) (unat (P * V)) (unat P)"
  have "plane_room (length m1) (P * V) P (unat row) (h div 2)"
    by (rule plane_room_fits [OF p(4)]) (use dst len0 len1 layout(4) in simp_all)
  from copy_rows_wrote [OF uv this] obtain m2 where
    m2: "copy_rows (h div 2) 0 (unat row) uv uvoff uvpitch (P * V) P m1 = Ok m2" "wrote ?C ?gc m1 m2" by auto
  have "init_prefix k m2"
    by (rule wrote_init [OF m2(2) wrote_init [OF m1(2) m0(2)]]) (use copied_defined [OF y layout(2), of _ 0] copied_defined [OF uv layout(2)] in auto)
  moreover have "m2 ! (r * unat P + c) = y ! (unat yoff + r * unat ypitch + c)" if "r < h" "c < unat row" for r c
  proof -
    have i: "r * unat P + c \<in> ?Y" using in_plane_cells [OF that, of 0 "unat P"] by simp
    then have "r * unat P + c < unat (P * V)" using plane_ends_cells [OF p(3)] by auto
    moreover from this have "r * unat P + c \<notin> ?C" using plane_ends_cells [OF p(4)] by auto
    ultimately have "m2 ! (r * unat P + c) = ?gy (r * unat P + c)"
      using wrote_cell(2) [OF m2(2)] wrote_cell(1) [OF m1(2) _ i] len1 len0 dst(2) p(1,2) by auto
    also have "\<dots> = y ! (unat yoff + r * unat ypitch + c)"
      using copied_from_cell [of c "unat P" y "unat yoff" "unat ypitch" 0 r] that(2) layout(2) by simp
    finally show ?thesis .
  qed
  moreover have "m2 ! (unat (P * V) + r * unat P + c) = uv ! (unat uvoff + r * unat uvpitch + c)" if "r < h div 2" "c < unat row" for r c
  proof -
    have i: "unat (P * V) + r * unat P + c \<in> ?C" using in_plane_cells [OF that] by simp
    then have "unat (P * V) + r * unat P + c < length m1" using plane_ends_cells [OF p(4)] dst(2) len0 len1 by fastforce
    then have "m2 ! (unat (P * V) + r * unat P + c) = ?gc (unat (P * V) + r * unat P + c)" using wrote_cell(1) [OF m2(2) _ i] by blast
    also have "\<dots> = uv ! (unat uvoff + r * unat uvpitch + c)" by (rule copied_from_cell) (use that(2) layout(2) in linarith)
    finally show ?thesis .
  qed
  ultimately show thesis using that m0 m1 m2 by (simp add: two_planes_def)
qed

section \<open>Two-object imports\<close>

lemma unat_c_int: "0 \<le> k \<Longrightarrow> k < 2 ^ 31 \<Longrightarrow> unat (of_int k :: u32) = nat k"
  using unat_word_of_int_u32 [of k] by simp

lemma unat_times_bps: "unat x < 2 ^ 32 \<Longrightarrow> unat (x * (if b then 2 else 1) :: u64) = unat x * (if b then 2 else 1)"
  by (simp add: unat_mult_no_wrap)

lemma norm_layout_facts:
  assumes "surface_ok True mem s" and "norm_layout s m = Some n"
  defines "V \<equiv> ucast (of_int (sf_vstride s) :: u32) :: u64"
  shows "rk_nv12_layout_size (norm_pitch s) V = Some n" "unat (norm_row s) \<le> unat (norm_pitch s)" "nat (sf_height s) \<le> unat V"
    "0 < unat (norm_row s)" "unat n \<le> unat (mb_size m)" "unat (norm_row s) \<le> unat (sf_import_pitch s)"
    "unat (norm_row s) \<le> unat (sf_import_chroma_pitch s)"
    "unat (norm_row s) = nat (sf_width s) * bytes_per_sample s" "unat (norm_pitch s) = nat (sf_hstride s) * bytes_per_sample s"
proof -
  have c: "0 < sf_width s" "sf_width s \<le> 8192" "0 < sf_height s" "sf_height s \<le> 8192" "sf_hstride s < 2 ^ 31" "sf_vstride s < 2 ^ 31"
    using assms(1) by (simp_all add: surface_ok_def RK_MAX_WIDTH_def RK_MAX_HEIGHT_def c_int_def)
  from assms(2) have l: "sf_width s \<le> sf_hstride s" "sf_height s \<le> sf_vstride s" "norm_row s \<le> ucast (sf_import_pitch s)"
      "norm_row s \<le> ucast (sf_import_chroma_pitch s)" "rk_nv12_layout_size (norm_pitch s) V = Some n" "n \<le> mb_size m"
    by (auto simp: norm_layout_def V_def split: if_splits option.splits)
  show row: "unat (norm_row s) = nat (sf_width s) * bytes_per_sample s" "unat (norm_pitch s) = nat (sf_hstride s) * bytes_per_sample s"
    using c l(1) unat_c_int [of "sf_width s"] unat_c_int [of "sf_hstride s"]
    by (simp_all add: norm_row_def norm_pitch_def unat_times_bps bytes_per_sample_def)
  show "unat (norm_row s) \<le> unat (norm_pitch s)" unfolding row using l(1) by (intro mult_le_mono1) simp
  show "0 < unat (norm_row s)" using c(1) unfolding row by (simp add: bytes_per_sample_def)
  show "nat (sf_height s) \<le> unat V" using c l(2) unat_c_int [of "sf_vstride s"] by (simp add: V_def)
  show "rk_nv12_layout_size (norm_pitch s) V = Some n" by (rule l(5))
  show "unat n \<le> unat (mb_size m)" "unat (norm_row s) \<le> unat (sf_import_pitch s)" "unat (norm_row s) \<le> unat (sf_import_chroma_pitch s)"
    using l(3,4,6) by (simp_all add: word_le_nat_alt)
qed

text \<open>The pixels of the two objects arrive in the planes of the placeholder.\<close>

lemma norm_copy_ok:
  assumes "surface_ok True mem s" and "norm_layout s m = Some n" and "mem_ok m"
    and "sf_import_buf s = Some q" "mem q = Some y" "mem_ok y" and "sf_import_chroma_buf s = Some qc" "mem qc = Some uv" "mem_ok uv"
  obtains bytes where "norm_copy s n (mb_bytes y) (mb_bytes uv) (mb_bytes m) = Ok bytes" "init_prefix (unat (mb_size m)) bytes"
    "two_planes (mb_bytes y) 0 (unat (sf_import_pitch s)) (mb_bytes uv) 0 (unat (sf_import_chroma_pitch s))
       (nat (sf_hstride s) * bytes_per_sample s) (unat (norm_pitch s * ucast (of_int (sf_vstride s) :: u32)))
       (nat (sf_width s) * bytes_per_sample s) (nat (sf_height s)) bytes"
proof -
  note f = norm_layout_facts [OF assms(1,2)]
  let ?h = "nat (sf_height s)" and ?row = "unat (norm_row s)"
  have fits: "unat (sf_import_pitch s) * ?h \<le> unat (mb_size y)" "unat (sf_import_chroma_pitch s) * (?h div 2) \<le> unat (mb_size uv)"
    using assms(1,4,5,7,8) by (auto simp: surface_ok_def import_fits_def room_def)
  have y: "plane_defined (mb_bytes y) 0 (ucast (sf_import_pitch s)) ?row ?h"
    by (rule plane_defined_fits [OF plane_ends_rows assms(6) [unfolded mem_ok_def]])
       (use fits(1) f(4,6) in \<open>simp_all add: mult.commute\<close>)
  have uv: "plane_defined (mb_bytes uv) 0 (ucast (sf_import_chroma_pitch s)) ?row (?h div 2)"
    by (rule plane_defined_fits [OF plane_ends_rows assms(9) [unfolded mem_ok_def]])
       (use fits(2) f(4,7) in \<open>simp_all add: mult.commute\<close>)
  have lt: "unat (mb_size m) < 2 ^ 64" by simp
  have half: "nat (sf_height s div 2) = ?h div 2" using assms(1) by (simp add: surface_ok_def nat_div_distrib)
  obtain bytes where "norm_copy s n (mb_bytes y) (mb_bytes uv) (mb_bytes m) = Ok bytes" "init_prefix (unat (mb_size m)) bytes"
      "two_planes (mb_bytes y) (unat (0 :: u64)) (unat (ucast (sf_import_pitch s) :: u64)) (mb_bytes uv) (unat (0 :: u64))
        (unat (ucast (sf_import_chroma_pitch s) :: u64)) (unat (norm_pitch s)) (unat (norm_pitch s * ucast (of_int (sf_vstride s) :: u32))) ?row ?h bytes"
    unfolding norm_copy_def half by (rule two_planes_ok [OF f(1-4) assms(3) [unfolded mem_ok_def] f(5) lt y uv])
  then show thesis by (intro that [of bytes]) (simp_all add: f(8,9))
qed

lemma accounts_live:
  assumes "accounts {} {#} d" and "sd_surf d p = Some s" and "Some q \<in> res_buf ` set (surface_held s)"
  shows "\<exists>m. sd_mem d q = Some m \<and> mem_ok m"
proof -
  have a: "finite (dom (sd_surf d))" "mset (sd_open d) = held_by (sd_surf d)" "mems_ok (sd_brk d) (sd_mem d) (sd_open d)"
    using assms(1) by (simp_all add: accounts_def)
  have "set (surface_held s) \<subseteq> set_mset (held_by (sd_surf d))" using held_by_mem [of "sd_surf d" p s] a(1) assms(2) by blast
  also have "\<dots> = set (sd_open d)" by (metis a(2) set_mset_mset)
  finally have "Some q \<in> res_buf ` set (sd_open d)" using assms(3) by blast
  with a(3) show ?thesis unfolding mems_ok_def by (metis not_None_eq)
qed

lemma normalize_ok:
  assumes "accounts {} {#} d" and "sd_surf d p = Some s"
  obtains b d' where "rk_surface_normalize_multiplane_import e s d = Ok (b, d')" "call_keeps d d'"
proof (cases "norm_ready s")
  case False
  with that [of False d] show thesis by (simp add: rk_surface_normalize_multiplane_import_def)
next
  case True
  have ok: "surface_ok True (sd_mem d) s" using accounts_surface [OF assms] by simp
  have live: "\<exists>m. sd_mem d q = Some m \<and> mem_ok m" if "R_Buffer q \<in> set (surface_held s)" for q
    by (rule accounts_live [OF assms]) (use that in force)
  obtain q qy qc where b: "sf_priv_buf s = Some q" "sf_import_buf s = Some qy" "sf_import_chroma_buf s = Some qc"
    using True by (auto simp: norm_ready_def)
  obtain m y uv where mem: "sd_mem d q = Some m" "mem_ok m" "sd_mem d qy = Some y" "mem_ok y" "sd_mem d qc = Some uv" "mem_ok uv"
    using live [of q] live [of qy] live [of qc] b by (auto simp: surface_held_def)
  show thesis
  proof (cases "norm_layout s m")
    case None
    with that [of False d] True b mem show thesis by (simp add: rk_surface_normalize_multiplane_import_def Let_def mem_at_def)
  next
    case (Some n)
    obtain bytes where bytes: "norm_copy s n (mb_bytes y) (mb_bytes uv) (mb_bytes m) = Ok bytes" "init_prefix (unat (mb_size m)) bytes"
      by (rule norm_copy_ok [OF ok Some mem(2) b(2) mem(3,4) b(3) mem(5,6)])
    have move: "\<exists>r d1. norm_move s n q m (sd_sync evs d) = Ok (r, d1) \<and> call_keeps d d1" for evs
    proof -
      have "call_keeps d (mem_set q bytes (sd_sync evs d))"
        by (rule call_keeps_sync(2) [OF call_keeps_mem_set]) (use mem(1) bytes(2) in auto)
      moreover have "norm_move s n q m (sd_sync evs d) =
          Ok (if mb_ptr y \<and> mb_ptr uv \<and> mb_ptr m then (True, mem_set q bytes (sd_sync evs d)) else (False, sd_sync evs d))"
        using b mem bytes by (simp add: norm_move_def mem_at_def)
      ultimately show ?thesis by (auto simp: call_keeps_sync)
    qed
    define evs where "evs = (if ne_start_y e then [Ev_Sync_Start (sf_import_fd s)] else []) @
      (if ne_start_y e \<and> ne_start_uv e then [Ev_Sync_Start (sf_import_chroma_fd s)] else []) @
      (if (ne_start_y e \<and> ne_start_uv e) \<and> mb_fd m \<ge> 0 \<and> ne_start_dst e then [Ev_Sync_Start (mb_fd m)] else [])"
    define go where "go \<longleftrightarrow> (ne_start_y e \<and> ne_start_uv e) \<and> mb_fd m \<ge> 0 \<and> ne_start_dst e"
    obtain copied d1 where d1: "(if go then norm_move s n q m (sd_sync evs d) else Ok (False, sd_sync evs d)) = Ok (copied, d1)" "call_keeps d d1"
      using move [of evs] by (cases go) (auto simp: call_keeps_sync)
    obtain r evs' where "rk_surface_normalize_multiplane_import e s d =
        obind (if go then norm_move s n q m (sd_sync evs d) else Ok (False, sd_sync evs d)) (\<lambda>(copied, d). Ok (copied \<and> r, sd_sync evs' d))"
      using True b mem(1) Some unfolding rk_surface_normalize_multiplane_import_def Let_def evs_def go_def
      by (simp only: option.sel option.case mem_at_def obind.simps not_True_eq_False if_False)
    with d1 that [of "copied \<and> r" "sd_sync evs' d1"] show thesis by (simp add: call_keeps_sync)
  qed
qed

section \<open>Sequences of calls\<close>

text \<open>The encoder calls \<open>rk_surface_normalize_multiplane_import\<close> on a surface it holds.\<close>

definition normalize_call :: "norm_env \<Rightarrow> SDriver \<Rightarrow> u32 \<Rightarrow> ((VAStatus + bool) \<times> SDriver) outcome" where
  "normalize_call e d sid = with_surface d sid (\<lambda>p s d. obind (rk_surface_normalize_multiplane_import e s d) (\<lambda>(b, d). Ok (Inr b, d)))"

datatype surf_op =
    Sop_Create "nat \<Rightarrow> create_env" int int VARTFormat int bool
  | Sop_Create2 "nat \<Rightarrow> create_env" VARTFormat u32 u32 bool u32 "surface_attrib list option" u32
  | Sop_Destroy "u32 list"
  | Sop_Sync "(wait_result \<times> sync_view) list" u32 u64
  | Sop_Query u32
  | Sop_Normalize norm_env u32

fun surf_step :: "surf_op \<Rightarrow> SDriver \<Rightarrow> SDriver outcome" where
  "surf_step (Sop_Create env w h fmt n ids) d = obind (rk_CreateSurfaces env w h fmt n ids d) (\<lambda>(r, d). Ok d)"
| "surf_step (Sop_Create2 env fmt w h ids n attribs n_attribs) d =
     obind (rk_CreateSurfaces2 env fmt w h ids n attribs n_attribs d) (\<lambda>(r, d). Ok d)"
| "surf_step (Sop_Destroy sids) d = rk_DestroySurfaces sids d"
| "surf_step (Sop_Sync wakeups sid timeout) d = obind (sync_surface_timeout wakeups d sid timeout) (\<lambda>(r, d). Ok d)"
| "surf_step (Sop_Query sid) d = obind (rk_QuerySurfaceStatus d sid) (\<lambda>(r, d). Ok d)"
| "surf_step (Sop_Normalize e sid) d = obind (normalize_call e d sid) (\<lambda>(r, d). Ok d)"

fun surf_run :: "surf_op list \<Rightarrow> SDriver \<Rightarrow> SDriver outcome" where
  "surf_run [] d = Ok d"
| "surf_run (a # as) d = obind (surf_step a d) (surf_run as)"

text \<open>
  The obligations: MPP keeps its promises, arrays are as long as announced, and a wait is ended by a
  picture, a timeout or an error.
\<close>

definition wakes :: "(wait_result \<times> sync_view) list \<Rightarrow> bool" where
  "wakes wakeups \<longleftrightarrow> list_ex (\<lambda>(w, v). w \<noteq> Wait_Ok \<or> sv_failed v \<or> sv_decoded v \<or> sv_ctx_id v = 0) wakeups"

fun surface_attrib_ok :: "nat \<Rightarrow> surface_attrib \<Rightarrow> bool" where
  "surface_attrib_ok n (VASurfaceAttribExternalBufferDescriptor (Some (a, pds))) \<longleftrightarrow> n \<le> length pds"
| "surface_attrib_ok n _ \<longleftrightarrow> True"

fun surf_op_ok :: "surf_op \<Rightarrow> bool" where
  "surf_op_ok (Sop_Create env w h fmt n ids) \<longleftrightarrow> (\<forall>i. create_env_ok (env i))"
| "surf_op_ok (Sop_Create2 env fmt w h ids n attribs n_attribs) \<longleftrightarrow> (\<forall>i. create_env_ok (env i)) \<and>
     (case attribs of None \<Rightarrow> True | Some xs \<Rightarrow> unat n_attribs \<le> length xs \<and> list_all (surface_attrib_ok (unat n)) xs)"
| "surf_op_ok (Sop_Sync wakeups sid timeout) \<longleftrightarrow> timeout = 0 \<or> wakes wakeups"
| "surf_op_ok _ \<longleftrightarrow> True"

subsection \<open>Waiting ends\<close>

declare sync_wait.simps [simp del]

lemma sync_wait_returns: "poll \<or> wakes wakeups \<Longrightarrow> \<exists>st. sync_wait poll v wakeups = Ok st"
proof (induction wakeups arbitrary: v)
  case Nil
  then show ?case by (subst sync_wait.simps) (simp add: wakes_def)
next
  case (Cons x xs)
  obtain w v' where x: "x = (w, v')" by fastforce
  have "\<exists>st. sync_wait poll v' xs = Ok st" if "w = Wait_Ok"
  proof (cases "sv_failed v' \<or> sv_decoded v' \<or> sv_ctx_id v' = 0")
    case True
    then show ?thesis by (subst sync_wait.simps) auto
  next
    case False
    with Cons.prems x that have "poll \<or> wakes xs" by (simp add: wakes_def)
    then show ?thesis by (rule Cons.IH)
  qed
  with x show ?case by (subst sync_wait.simps) (cases w; auto)
qed

subsection \<open>Creation\<close>

definition create_result :: "int \<times> int \<times> VAFourcc \<Rightarrow> nat \<Rightarrow> SDriver \<Rightarrow> ((VAStatus + u32 list) \<times> SDriver) outcome \<Rightarrow> bool" where
  "create_result shape n d res \<longleftrightarrow> (\<exists>st d'. res = Ok (Inl st, d') \<and> untouched d d') \<or>
     (\<exists>ids d'. res = Ok (Inr ids, d') \<and> created_so_far shape d ids d' \<and> length ids = n)"

lemma create_refused: "surf_inv d \<Longrightarrow> create_result shape n d (Ok (Inl st, d))"
  by (simp add: create_result_def untouched_def)

lemma create_surfaces_ok:
  assumes "surf_inv d" and "\<And>i. create_env_ok (env i)" and "\<And>pds. pdl = Some pds \<Longrightarrow> nat n \<le> length pds"
  shows "create_result (w, h, f) (nat n) d (create_surfaces env w h n ids f pdl enc d)"
proof -
  have "create_result (w, h, f) (nat n) d (create_loop env (nat n) 0 w h f pdl enc [] d)" if "0 < w" "w \<le> 8192" "0 < h" "h \<le> 8192"
    unfolding create_result_def
    using create_loop_ok [where pdl = pdl and i = 0 and k = "nat n" and enc = enc and env = env,
        OF created_start [OF assms(1), of "(w, h, f)"] that assms(2)] assms(3) by simp
  then show ?thesis
    using create_refused [OF assms(1)] by (simp add: create_surfaces_def RK_MAX_WIDTH_def RK_MAX_HEIGHT_def)
qed

lemma surface_attribs_descriptor:
  assumes "surface_attribs fmt xs a = Inr a'" and "list_all (surface_attrib_ok n) xs"
    and "\<And>u pds. at_descriptor a = Some (u, pds) \<Longrightarrow> n \<le> length pds" and "at_descriptor a' = Some (u, pds)"
  shows "n \<le> length pds"
  using assms
proof (induction xs arbitrary: a)
  case (Cons y ys)
  from Cons.prems(1) obtain b where b: "surface_attrib_step fmt y a = Inr b" "surface_attribs fmt ys b = Inr a'"
    by (auto split: sum.splits)
  have "at_descriptor b = Some (u, pds) \<Longrightarrow> n \<le> length pds" for u pds
    using b(1) Cons.prems(2,3) by (cases "(fmt, y, a)" rule: surface_attrib_step.cases) (auto split: if_splits)
  with Cons.IH [OF b(2)] Cons.prems(2,4) show ?case by simp
qed simp

lemma create_surfaces2_ok:
  assumes "surf_inv d" and "surf_op_ok (Sop_Create2 env fmt w h ids n attribs n_attribs)"
  shows "\<exists>f. create_result (uint w, uint h, f) (unat n) d (rk_CreateSurfaces2 env fmt w h ids n attribs n_attribs d)"
proof (cases "(n_attribs > 0 \<and> attribs = None) \<or> w > 0x7fffffff \<or> h > 0x7fffffff \<or> n > 0x7fffffff")
  case True
  then show ?thesis using create_refused [OF assms(1)] by (auto simp: rk_CreateSurfaces2_def)
next
  case guard: False
  let ?xs = "if n_attribs = 0 then [] else the attribs"
  have env: "\<And>i. create_env_ok (env i)" using assms(2) by simp
  have xs: "list_all (surface_attrib_ok (unat n)) ?xs" "\<not> length ?xs < unat n_attribs"
    using assms(2) guard by (auto split: option.splits simp: word_gt_0)
  then have xs': "list_all (surface_attrib_ok (unat n)) (take (unat n_attribs) ?xs)" by (auto simp: list_all_iff dest: in_set_takeD)
  note eq = rk_CreateSurfaces2_def [of env fmt w h ids n attribs n_attribs d, unfolded if_not_P [OF guard] Let_def if_not_P [OF xs(2)]]
  show ?thesis
  proof (cases "rt_fourcc fmt")
    case None
    with eq create_refused [OF assms(1)] show ?thesis by simp
  next
    case fourcc: (Some f)
    show ?thesis
    proof (cases "surface_attribs fmt (take (unat n_attribs) ?xs) (attrib_start f)")
      case (Inl st)
      with eq fourcc create_refused [OF assms(1)] show ?thesis by simp
    next
      case attribs: (Inr a)
      show ?thesis
      proof (cases "attrib_request a")
        case (Inl st)
        with eq fourcc attribs create_refused [OF assms(1)] show ?thesis by simp
      next
        case (Inr req)
        obtain g pdl enc where req: "req = (g, pdl, enc)" by (cases req)
        have "nat (uint n) \<le> length pds" if pds: "pdl = Some pds" for pds
        proof -
          obtain u where "at_descriptor a = Some (u, pds)"
            using Inr req pds by (auto simp: attrib_request_def Let_def split: if_splits)
          then show ?thesis using surface_attribs_descriptor [OF attribs xs'] by (simp add: attrib_start_def)
        qed
        from create_surfaces_ok [OF assms(1) env this] have
          "create_result (uint w, uint h, g) (nat (uint n)) d (create_surfaces env (uint w) (uint h) (uint n) ids g pdl enc d)" .
        with eq fourcc attribs Inr req show ?thesis by auto
      qed
    qed
  qed
qed

subsection \<open>Every call keeps the invariant\<close>

lemma ex_obind: "\<exists>y. m = Ok y \<Longrightarrow> (\<And>y. \<exists>r z. f y = Ok (r, z) \<and> P z) \<Longrightarrow> \<exists>r z. obind m f = Ok (r, z) \<and> P z"
  by auto

lemma with_surface_inv:
  assumes "surf_inv d"
    and "\<And>p s d1. sd_surf d1 p = Some s \<Longrightarrow> accounts {} {#} d1 \<Longrightarrow> \<exists>r d2. body p s d1 = Ok (r, d2) \<and> call_keeps d1 d2"
  shows "\<exists>r d'. with_surface d sid body = Ok (r, d') \<and> surf_inv d' \<and> others_keep d d'"
proof (rule with_surface_ok [OF assms(1), of body sid])
  show "\<exists>r d2. body p s d1 = Ok (r, d2) \<and> call_keeps d1 d2" if "sd_surf d1 p = Some s" "accounts {} {#} d1" for p s d1
    using assms(2) that by blast
qed (use assms(1) call_keeps_fields in \<open>fastforce simp: others_keep_def\<close>)+

lemma surf_step_ok:
  assumes "surf_inv d" and "surf_op_ok a"
  shows "\<exists>d'. surf_step a d = Ok d' \<and> surf_inv d' \<and> others_keep d d'"
proof (cases a)
  case (Sop_Create env w h fmt n ids)
  have "create_result (w, h, f) (nat n) d (create_surfaces env w h n ids f None False d)" for f
    by (rule create_surfaces_ok) (use assms Sop_Create in simp_all)
  then show ?thesis using Sop_Create create_refused [OF assms(1)]
    by (fastforce simp: rk_CreateSurfaces_def create_result_def untouched_def created_so_far_def)
next
  case (Sop_Create2 env fmt w h ids n attribs n_attribs)
  with create_surfaces2_ok [OF assms(1)] assms(2) show ?thesis
    by (fastforce simp: create_result_def untouched_def created_so_far_def simp del: surf_op_ok.simps)
next
  case (Sop_Destroy sids)
  with destroy_surfaces_ok [OF assms(1)] show ?thesis by auto
next
  case (Sop_Sync wakeups sid timeout)
  then have "\<exists>st. sync_wait (timeout = 0) v wakeups = Ok st" for v using assms(2) by (intro sync_wait_returns) simp
  then have "\<exists>r d'. sync_surface_timeout wakeups d sid timeout = Ok (r, d') \<and> surf_inv d' \<and> others_keep d d'"
    unfolding sync_surface_timeout_def by (intro with_surface_inv [OF assms(1)]) (rule ex_obind, auto)
  with Sop_Sync show ?thesis by auto
next
  case (Sop_Query sid)
  have "\<exists>r d'. rk_QuerySurfaceStatus d sid = Ok (r, d') \<and> surf_inv d' \<and> others_keep d d'"
    unfolding rk_QuerySurfaceStatus_def by (intro with_surface_inv [OF assms(1)]) simp
  with Sop_Query show ?thesis by auto
next
  case (Sop_Normalize e sid)
  have "\<exists>r d'. normalize_call e d sid = Ok (r, d') \<and> surf_inv d' \<and> others_keep d d'"
    unfolding normalize_call_def
  proof (rule with_surface_inv [OF assms(1)])
    fix p s d1 assume "sd_surf d1 p = Some s" "accounts {} {#} d1"
    then obtain b d2 where "rk_surface_normalize_multiplane_import e s d1 = Ok (b, d2)" "call_keeps d1 d2" using normalize_ok by blast
    then show "\<exists>r d2. obind (rk_surface_normalize_multiplane_import e s d1) (\<lambda>(b, d). Ok (Inr b, d)) = Ok (r, d2) \<and> call_keeps d1 d2" by simp
  qed
  with Sop_Normalize show ?thesis by auto
qed

lemma surf_run_ok: "surf_inv d \<Longrightarrow> list_all surf_op_ok ops \<Longrightarrow> \<exists>d'. surf_run ops d = Ok d' \<and> surf_inv d'"
proof (induction ops arbitrary: d)
  case (Cons a ops)
  then obtain d1 where "surf_step a d = Ok d1" "surf_inv d1" using surf_step_ok [of d a] by auto
  with Cons show ?case by auto
qed simp

section \<open>Properties\<close>

definition surfaces_start :: SDriver where
  "surfaces_start = \<lparr>sd_drv = driver_start, sd_surface_heap = zero_heap\<lparr>heap_type := 3, free_head := NO_SLOT\<rparr>,
     sd_surf = Map.empty, sd_mem = Map.empty, sd_open = []\<rparr>"

lemma surfaces_start_inv: "surf_inv surfaces_start"
proof -
  let ?h = "zero_heap\<lparr>heap_type := 3, free_head := NO_SLOT\<rparr>"
  have "rk_object_heap_init 3 = Some ?h" by (simp add: rk_object_heap_init_def valid_type_def)
  from heap_init_inv [OF this] have "heap_inv ?h" "heap_find ?h i = None" for i
    by (auto simp: heap_find_def split: option.splits)
  then show ?thesis by (simp add: surf_inv_def handles_ok_def accounts_def mems_ok_def held_by_def surfaces_start_def)
qed

text \<open>
  C12: whatever surfaces an application creates, imports, waits for, queries, copies and destroys, in
  any order and with any identifiers, and whichever allocations, imports and system calls fail, no
  call touches a destroyed surface, releases a resource twice or reads or writes outside a buffer.
  The file descriptors, buffers and groups the driver holds are at every moment exactly those its
  surfaces refer to, and the planes each surface describes end inside the buffers it owns.
\<close>

theorem surface_calls_safe:
  assumes "list_all surf_op_ok ops"
  shows "\<exists>d. surf_run ops surfaces_start = Ok d \<and> mset (sd_open d) = held_by (sd_surf d) \<and>
    (\<forall>p s. sd_surf d p = Some s \<longrightarrow> surface_ok True (sd_mem d) s) \<and>
    (\<forall>sid p. heap_find (sd_surface_heap d) sid = Some p \<longrightarrow> sd_surf d p \<noteq> None)"
proof -
  obtain d where d: "surf_run ops surfaces_start = Ok d" "surf_inv d" using surf_run_ok [OF surfaces_start_inv assms] by blast
  then have "mset (sd_open d) = held_by (sd_surf d)" "\<And>p s. sd_surf d p = Some s \<Longrightarrow> surface_ok True (sd_mem d) s"
      "\<And>sid p. heap_find (sd_surface_heap d) sid = Some p \<Longrightarrow> sd_surf d p \<noteq> None"
    by (simp_all add: surf_inv_def accounts_def handles_ok_def)
  with d(1) show ?thesis by blast
qed

definition demo_object_env :: object_env where
  "demo_object_env = \<lparr>oe_dup = 7, oe_sync_start = True, oe_sync_end = True,
     oe_buffer = (\<lambda>n. Some \<lparr>mb_fd = 7, mb_size = n, mb_ptr = True, mb_bytes = replicate (unat n) (Some 0)\<rparr>)\<rparr>"

definition demo_create_env :: create_env where
  "demo_create_env = \<lparr>ce_object = True, ce_lock = True,
     ce_import = \<lparr>ie_rga = True, ie_luma = demo_object_env, ie_chroma = demo_object_env\<rparr>, ce_group = True,
     ce_buffer = (\<lambda>n. Some \<lparr>mb_fd = 9, mb_size = n, mb_ptr = True, mb_bytes = replicate (unat n) (Some 0)\<rparr>), ce_heap = True\<rparr>"

lemma demo_create_env_ok: "create_env_ok demo_create_env"
  by (simp add: create_env_ok_def object_env_ok_def demo_create_env_def demo_object_env_def mem_ok_def init_prefix_def)

definition demo_norm_env :: norm_env where
  "demo_norm_env = \<lparr>ne_start_y = True, ne_start_uv = True, ne_start_dst = True, ne_end_dst = True, ne_end_uv = True, ne_end_y = True\<rparr>"

theorem surface_calls_safe_witness:
  "\<exists>d. surf_run [Sop_Create2 (\<lambda>_. demo_create_env) VA_RT_FORMAT_YUV420 64 32 True 2 (Some [VASurfaceAttribUsageHint (Some True)]) 1,
       Sop_Create (\<lambda>_. demo_create_env) 64 32 VA_RT_FORMAT_YUV420_10 1 True, Sop_Query 0x30100000, Sop_Normalize demo_norm_env 0x30100001,
       Sop_Sync [(Wait_Timeout, \<lparr>sv_failed = False, sv_decoded = False, sv_ctx_id = 1\<rparr>)] 0x30100001 5,
       Sop_Destroy [0x30100000, 0x30100000, 0x30100001]] surfaces_start = Ok d \<and> mset (sd_open d) = held_by (sd_surf d) \<and>
    (\<forall>p s. sd_surf d p = Some s \<longrightarrow> surface_ok True (sd_mem d) s) \<and>
    (\<forall>sid p. heap_find (sd_surface_heap d) sid = Some p \<longrightarrow> sd_surf d p \<noteq> None)"
  by (rule surface_calls_safe) (simp add: demo_create_env_ok wakes_def)

text \<open>
  C13: creating surfaces is all or nothing. Whatever the attributes and descriptors, and wherever an
  allocation, an import or an insertion fails, a refused call leaves every identifier, every surface
  and every held resource as it was. An accepted call yields as many new identifiers as asked for,
  all different, and each names a fresh surface of the requested size, owned by its identifier alone,
  whose planes fit its memory; the older identifiers still name the same surfaces.
\<close>

theorem create_surfaces_atomic:
  assumes "surf_inv d" and "surf_op_ok (Sop_Create2 env fmt w h ids n attribs n_attribs)"
  shows "(\<exists>st d'. rk_CreateSurfaces2 env fmt w h ids n attribs n_attribs d = Ok (Inl st, d') \<and>
      heap_find (sd_surface_heap d') = heap_find (sd_surface_heap d) \<and> sd_surf d' = sd_surf d \<and> mset (sd_open d') = mset (sd_open d)) \<or>
    (\<exists>sids d'. rk_CreateSurfaces2 env fmt w h ids n attribs n_attribs d = Ok (Inr sids, d') \<and> length sids = unat n \<and> distinct sids \<and>
      (\<forall>i. i \<notin> set sids \<longrightarrow> heap_find (sd_surface_heap d') i = heap_find (sd_surface_heap d) i) \<and>
      (\<forall>i \<in> set sids. heap_find (sd_surface_heap d) i = None \<and>
        (\<exists>p s. heap_find (sd_surface_heap d') i = Some p \<and> sd_surf d' p = Some s \<and> sf_width s = uint w \<and> sf_height s = uint h \<and>
           obj_refs (sd_objs d') p = 1 \<and> sd_surf d p = None \<and> surface_ok True (sd_mem d') s)))"
  (is "?refused \<or> ?made")
proof -
  obtain f where "create_result (uint w, uint h, f) (unat n) d (rk_CreateSurfaces2 env fmt w h ids n attribs n_attribs d)"
    using create_surfaces2_ok [OF assms] by blast
  then consider (no) st d' where "rk_CreateSurfaces2 env fmt w h ids n attribs n_attribs d = Ok (Inl st, d')" "untouched d d'"
    | (yes) sids d' where "rk_CreateSurfaces2 env fmt w h ids n attribs n_attribs d = Ok (Inr sids, d')"
        "created_so_far (uint w, uint h, f) d sids d'" "length sids = unat n"
    unfolding create_result_def by blast
  then show ?thesis
  proof cases
    case no
    then have "mset (sd_open d') = mset (sd_open d)" using assms(1) by (simp add: untouched_def surf_inv_def accounts_def)
    with no have ?refused by (auto simp: untouched_def)
    then show ?thesis ..
  next
    case yes
    have "surface_ok True (sd_mem d') s" if "sd_surf d' p = Some s" for p s
      using yes(2) that by (simp add: created_so_far_def surf_inv_def accounts_def)
    with yes have ?made unfolding created_so_far_def surface_shape_def by fastforce
    then show ?thesis ..
  qed
qed

definition demo_create_call :: "((VAStatus + u32 list) \<times> SDriver) outcome" where
  "demo_create_call = rk_CreateSurfaces2 (\<lambda>i. if i < 1 then demo_create_env else demo_create_env\<lparr>ce_heap := False\<rparr>) VA_RT_FORMAT_YUV420 64 32
     True 2 (Some [VASurfaceAttribPixelFormat (Some VA_FOURCC_I420)]) 1 surfaces_start"

theorem create_surfaces_atomic_witness:
  "(\<exists>st d'. demo_create_call = Ok (Inl st, d') \<and> heap_find (sd_surface_heap d') = heap_find (sd_surface_heap surfaces_start) \<and>
      sd_surf d' = sd_surf surfaces_start \<and> mset (sd_open d') = mset (sd_open surfaces_start)) \<or>
   (\<exists>sids d'. demo_create_call = Ok (Inr sids, d') \<and> length sids = 2 \<and> distinct sids)"
proof -
  have "create_env_ok (demo_create_env\<lparr>ce_heap := False\<rparr>)" using demo_create_env_ok by (simp add: create_env_ok_def)
  then have "surf_op_ok (Sop_Create2 (\<lambda>i. if i < 1 then demo_create_env else demo_create_env\<lparr>ce_heap := False\<rparr>) VA_RT_FORMAT_YUV420 64 32
      True 2 (Some [VASurfaceAttribPixelFormat (Some VA_FOURCC_I420)]) 1)"
    using demo_create_env_ok by simp
  from create_surfaces_atomic [OF surfaces_start_inv this] show ?thesis unfolding demo_create_call_def by auto
qed

end
