(* ===== verification/Images.thy ===== *)
theory Images
  imports Surface_Calls
begin

unbundle bit_operations_syntax

text \<open>
  The images of \<open>src/buffer.c\<close> and \<open>src/surface.c\<close>: creation with a buffer of their own, derivation
  from a surface, destruction, and the two copies between an image and a surface,
  \<open>rk_PutImage\<close> and \<open>rk_GetImage\<close>.

  An image holds a reference to its buffer; the buffer of a derived image holds one to the surface.
  The driver of \<open>Surfaces\<close> is extended by the image heap and the images. As there, what MPP, the
  kernel and the allocators answer is an argument.
\<close>

section \<open>Images and the driver\<close>

record RKImage =
  im_buffer_id :: u32
  im_buffer :: "nat option"
  im_fourcc :: VAFourcc
  im_width :: u32
  im_height :: u32
  im_num_planes :: u32
  im_pitches :: "u32 list"
  im_offsets :: "u32 list"

record VAImageFormat =
  ft_fourcc :: VAFourcc
  ft_lsb_first :: bool
  ft_bits_per_pixel :: u32

record VAImage =
  vi_image_id :: u32
  vi_buf :: u32
  vi_format :: VAImageFormat
  vi_width :: u16
  vi_height :: u16
  vi_num_planes :: u32
  vi_pitches :: "u32 list"
  vi_offsets :: "u32 list"
  vi_data_size :: u32

record IDriver =
  id_sd :: SDriver
  id_image_heap :: RKObjectHeap
  id_img :: "nat \<rightharpoonup> RKImage"

abbreviation id_drv :: "IDriver \<Rightarrow> RKDriver" where
  "id_drv d \<equiv> sd_drv (id_sd d)"

abbreviation id_objs :: "IDriver \<Rightarrow> obj_store" where
  "id_objs d \<equiv> d_objs (id_drv d)"

definition id_set_drv :: "RKDriver \<Rightarrow> IDriver \<Rightarrow> IDriver" where
  "id_set_drv drv d = d\<lparr>id_sd := (id_sd d)\<lparr>sd_drv := drv\<rparr>\<rparr>"

definition id_set_objs :: "obj_store \<Rightarrow> IDriver \<Rightarrow> IDriver" where
  "id_set_objs objs d = d\<lparr>id_sd := sd_set_objs objs (id_sd d)\<rparr>"

text \<open>
  \<open>rk_object_unref\<close> on a buffer when surfaces are part of the state: the last reference to the buffer
  of a derived image drops one to the surface, and that may be the last one as well.
\<close>

definition ibuffer_unref :: "nat \<Rightarrow> IDriver \<Rightarrow> IDriver outcome" where
  "ibuffer_unref p d =
     obind (buffer_at (id_drv d) p) (\<lambda>b.
     obind (buffer_unref p (id_drv d)) (\<lambda>drv.
       let d' = id_set_drv drv d
       in case (if obj_refs (id_objs d) p = 1 then b_surface b else None) of
            None \<Rightarrow> Ok d'
          | Some q \<Rightarrow>
              if obj_refs (id_objs d) q = 1
              then obind (surface_at (id_sd d') q) (\<lambda>s. obind (surface_destroy q s (id_sd d')) (\<lambda>sd. Ok (d'\<lparr>id_sd := sd\<rparr>)))
              else Ok d'))"

definition idestroy_buffer :: "u32 \<Rightarrow> IDriver \<Rightarrow> IDriver outcome" where
  "idestroy_buffer bid d =
     obind (rk_object_heap_remove (d_buffer_heap (id_drv d)) bid) (\<lambda>(p, h).
       let d = id_set_drv ((id_drv d)\<lparr>d_buffer_heap := h\<rparr>) d
       in case p of None \<Rightarrow> Ok d | Some p \<Rightarrow> ibuffer_unref p d)"

definition image_destroy :: "nat \<Rightarrow> RKImage \<Rightarrow> IDriver \<Rightarrow> IDriver outcome" where
  "image_destroy q im d =
     obind (case im_buffer im of None \<Rightarrow> Ok d | Some p \<Rightarrow> ibuffer_unref p d) (\<lambda>d.
       Ok (d\<lparr>id_img := (id_img d)(q := None)\<rparr>))"

text \<open>\<open>rk_object_unref\<close> on an image: the last reference runs \<open>image_destroy\<close>.\<close>

definition image_unref :: "nat \<Rightarrow> IDriver \<Rightarrow> IDriver outcome" where
  "image_unref q d =
     (case id_img d q of
        None \<Rightarrow> Fault
      | Some im \<Rightarrow>
          let last = obj_refs (id_objs d) q = 1; d = id_set_objs (rk_object_unref q (id_objs d)) d
          in if last then image_destroy q im d else Ok d)"

definition image_acquire :: "IDriver \<Rightarrow> u32 \<Rightarrow> (nat option \<times> IDriver) outcome" where
  "image_acquire d iid =
     obind (rk_object_heap_acquire (id_image_heap d) iid (id_objs d)) (\<lambda>(q, objs). Ok (q, id_set_objs objs d))"

definition image_at :: "IDriver \<Rightarrow> nat \<Rightarrow> RKImage outcome" where
  "image_at d q = (case id_img d q of None \<Rightarrow> Fault | Some im \<Rightarrow> Ok im)"

definition image_format :: "VAFourcc \<Rightarrow> u32 \<Rightarrow> VAImageFormat" where
  "image_format fourcc bits = \<lparr>ft_fourcc = fourcc, ft_lsb_first = True, ft_bits_per_pixel = bits\<rparr>"

definition rk_QueryImageFormats :: "VAImageFormat list" where
  "rk_QueryImageFormats =
     [image_format VA_FOURCC_NV12 12, image_format VA_FOURCC_P010 24, image_format VA_FOURCC_I420 12, image_format VA_FOURCC_YV12 12]"

section \<open>Creation\<close>

definition planar_fourcc :: "VAFourcc \<Rightarrow> bool" where
  "planar_fourcc f \<longleftrightarrow> f = VA_FOURCC_I420 \<or> f = VA_FOURCC_YV12"

definition image_sample :: "VAFourcc \<Rightarrow> u32 \<Rightarrow> u32 \<Rightarrow> VAStatus + u32" where
  "image_sample fourcc width height =
     (if fourcc = VA_FOURCC_NV12 then Inr 1
      else if fourcc = VA_FOURCC_P010 then Inr 2
      else if planar_fourcc fourcc \<and> (width AND 1 \<noteq> 0 \<or> height AND 1 \<noteq> 0) then Inl VA_STATUS_ERROR_INVALID_PARAMETER
      else if planar_fourcc fourcc then Inr 1
      else Inl VA_STATUS_ERROR_UNSUPPORTED_RT_FORMAT)"

definition image_alloc :: "bool \<Rightarrow> u32 \<Rightarrow> u32 \<Rightarrow> u32 \<Rightarrow> u64 option" where
  "image_alloc planar image_pitch chroma_pitch height =
     (if planar
      then let luma_size = ucast image_pitch * ucast height :: u64; chroma_size = ucast chroma_pitch * ucast (height div 2)
           in if chroma_size > (SIZE_MAX - luma_size) div 2 then None else Some (luma_size + 2 * chroma_size)
      else rk_nv12_layout_size (ucast image_pitch) (ucast height))"

text \<open>The pitches of the two planes and the size of the buffer. The mask of the code is a 32-bit value.\<close>

definition image_plan :: "VAFourcc \<Rightarrow> u32 \<Rightarrow> u32 \<Rightarrow> VAStatus + u32 \<times> u32 \<times> u32" where
  "image_plan fourcc width height =
     (case image_sample fourcc width height of
        Inl status \<Rightarrow> Inl status
      | Inr sample_bytes \<Rightarrow>
          let planar = planar_fourcc fourcc;
              aligned_width = (ucast width + 15 :: u64) AND ucast (NOT (15 :: u32))
          in if aligned_width > ucast ((- 1 :: u32) div sample_bytes) then Inl VA_STATUS_ERROR_ALLOCATION_FAILED
             else let image_pitch = ucast aligned_width * sample_bytes;
                      chroma_pitch = (if planar then ucast aligned_width div 2 else image_pitch)
                  in case image_alloc planar image_pitch chroma_pitch height of
                       None \<Rightarrow> Inl VA_STATUS_ERROR_ALLOCATION_FAILED
                     | Some allocation_size \<Rightarrow>
                         if allocation_size > ucast (- 1 :: u32) then Inl VA_STATUS_ERROR_ALLOCATION_FAILED
                         else Inr (image_pitch, chroma_pitch, ucast allocation_size))"

definition image_object :: "VAFourcc \<Rightarrow> u32 \<Rightarrow> u32 \<Rightarrow> u32 \<Rightarrow> u32 \<Rightarrow> u32 \<Rightarrow> nat \<Rightarrow> RKImage" where
  "image_object fourcc width height image_pitch chroma_pitch bid p =
     (let planar = planar_fourcc fourcc; offset1 = image_pitch * height
      in \<lparr>im_buffer_id = bid, im_buffer = Some p, im_fourcc = fourcc, im_width = width, im_height = height,
          im_num_planes = (if planar then 3 else 2),
          im_pitches = [image_pitch, chroma_pitch, if planar then chroma_pitch else 0],
          im_offsets = [0, offset1, if planar then offset1 + chroma_pitch * (height div 2) else 0]\<rparr>)"

record image_env =
  ime_buffer :: create_mem
  ime_object :: bool
  ime_heap :: bool

definition new_image :: "RKImage \<Rightarrow> IDriver \<Rightarrow> nat \<times> IDriver" where
  "new_image im d =
     (let q = d_brk (id_drv d); drv = (id_drv d)\<lparr>d_brk := Suc q, d_objs := rk_object_init q (id_objs d)\<rparr>
      in (q, (id_set_drv drv d)\<lparr>id_img := (id_img d)(q \<mapsto> im)\<rparr>))"

text \<open>The end of \<open>rk_CreateImage\<close> and \<open>rk_DeriveImage\<close>: the image enters the heap.\<close>

definition enter_image :: "image_env \<Rightarrow> RKImage \<Rightarrow> IDriver \<Rightarrow> ((VAStatus + u32) \<times> IDriver) outcome" where
  "enter_image e im d =
     (let (q, d) = new_image im d
      in obind (rk_object_heap_insert (ime_heap e) (id_image_heap d) q) (\<lambda>(iid, h).
           let d = d\<lparr>id_image_heap := h\<rparr>
           in case iid of
                None \<Rightarrow> obind (image_unref q d) (\<lambda>d. obind (idestroy_buffer (im_buffer_id im) d) (\<lambda>d.
                  Ok (Inl VA_STATUS_ERROR_ALLOCATION_FAILED, d)))
              | Some iid \<Rightarrow> Ok (Inr iid, d)))"

definition va_image :: "u32 \<Rightarrow> VAImageFormat \<Rightarrow> RKImage \<Rightarrow> u32 \<Rightarrow> VAImage" where
  "va_image iid format im bytes =
     \<lparr>vi_image_id = iid, vi_buf = im_buffer_id im, vi_format = format, vi_width = ucast (im_width im),
      vi_height = ucast (im_height im), vi_num_planes = im_num_planes im,
      vi_pitches = take (unat (im_num_planes im)) (im_pitches im), vi_offsets = take (unat (im_num_planes im)) (im_offsets im),
      vi_data_size = bytes\<rparr>"

definition rk_CreateImage ::
    "image_env \<Rightarrow> IDriver \<Rightarrow> VAImageFormat option \<Rightarrow> int \<Rightarrow> int \<Rightarrow> bool \<Rightarrow> ((VAStatus + VAImage) \<times> IDriver) outcome" where
  "rk_CreateImage e d format width height given =
     (if format = None \<or> \<not> given \<or> width \<le> 0 \<or> height \<le> 0 \<or> width > 65535 \<or> height > 65535
      then Ok (Inl VA_STATUS_ERROR_INVALID_PARAMETER, d)
      else let fourcc = ft_fourcc (the format); w = of_int width; h = of_int height
      in case image_plan fourcc w h of
           Inl status \<Rightarrow> Ok (Inl status, d)
         | Inr (image_pitch, chroma_pitch, bytes) \<Rightarrow>
             obind (rk_CreateBuffer (ime_buffer e) (id_drv d) VAImageBufferType bytes 1 None) (\<lambda>(r, drv).
               let d = id_set_drv drv d
               in case r of
                    Inl status \<Rightarrow> Ok (Inl status, d)
                  | Inr bid \<Rightarrow>
                      obind (buffer_acquire (id_drv d) bid) (\<lambda>(p, drv).
                        let d = id_set_drv drv d
                        in case p of
                             None \<Rightarrow> obind (idestroy_buffer bid d) (\<lambda>d. Ok (Inl VA_STATUS_ERROR_ALLOCATION_FAILED, d))
                           | Some p \<Rightarrow>
                               if \<not> ime_object e
                               then obind (ibuffer_unref p d) (\<lambda>d. obind (idestroy_buffer bid d) (\<lambda>d.
                                      Ok (Inl VA_STATUS_ERROR_ALLOCATION_FAILED, d)))
                               else let im = image_object fourcc w h image_pitch chroma_pitch bid p
                               in obind (enter_image e im d) (\<lambda>(r, d).
                                    Ok (case r of Inl status \<Rightarrow> Inl status | Inr iid \<Rightarrow> Inr (va_image iid (the format) im bytes), d)))))"

definition rk_DestroyImage :: "IDriver \<Rightarrow> u32 \<Rightarrow> ((VAStatus + unit) \<times> IDriver) outcome" where
  "rk_DestroyImage d iid =
     obind (rk_object_heap_remove (id_image_heap d) iid) (\<lambda>(q, h).
       let d = d\<lparr>id_image_heap := h\<rparr>
       in case q of
            None \<Rightarrow> Ok (Inl VA_STATUS_ERROR_INVALID_IMAGE, d)
          | Some q \<Rightarrow>
              obind (image_at d q) (\<lambda>im. obind (idestroy_buffer (im_buffer_id im) d) (\<lambda>d.
              obind (image_unref q d) (\<lambda>d. Ok (Inr (), d)))))"

definition rk_SetImagePalette :: "IDriver \<Rightarrow> u32 \<Rightarrow> (VAStatus + unit) \<times> IDriver" where
  "rk_SetImagePalette d iid = (Inr (), d)"

section \<open>Derived images\<close>

text \<open>\<open>de_world\<close> is what the worker did to the surfaces while the call waited for the picture.\<close>

record derive_env =
  de_wakeups :: "(wait_result \<times> sync_view) list"
  de_world :: "SDriver \<Rightarrow> SDriver"
  de_image :: image_env

definition derive_settle :: "derive_env \<Rightarrow> SurfaceObject \<Rightarrow> u32 \<Rightarrow> SDriver \<Rightarrow> ((VAStatus + unit) \<times> SDriver) outcome" where
  "derive_settle e s sid d =
     (if \<not> sf_decoded s \<and> sf_ctx_id s \<noteq> 0
      then obind (rk_SyncSurface (de_wakeups e) d sid) (\<lambda>(r, d). Ok (r, de_world e d)) else Ok (Inr (), d))"

definition derivable :: "SurfaceObject \<Rightarrow> bool" where
  "derivable s \<longleftrightarrow>
     (let stable_provisional_p010 = sf_10bit s \<and> \<not> sf_decoded s \<and> sf_hstride s \<ge> sf_width s \<and> sf_hstride s mod 64 = 0 \<and>
            sf_vstride s \<ge> sf_height s \<and> sf_vstride s mod 16 = 0
      in \<not> (sf_import_buf s \<noteq> None \<or> sf_imported_rgb s \<or> sf_imported_multiplane s \<or> (sf_frame s \<noteq> None \<and> sf_fbc s) \<or>
            (sf_10bit s \<and> \<not> sf_decoded s \<and> \<not> stable_provisional_p010) \<or> sf_encoder_input s))"

definition derive_layout :: "SDriver \<Rightarrow> SurfaceObject \<Rightarrow> (int \<times> u64 \<times> u32 \<times> u64) option outcome" where
  "derive_layout d s =
     obind (surface_linear_layout d s) (\<lambda>l.
       Ok (case l of
             None \<Rightarrow> None
           | Some (fd, object_size, pitch, chroma_offset) \<Rightarrow>
               if object_size > ucast (- 1 :: u32) \<or> (of_int (sf_width s) :: u32) > 65535 \<or> (of_int (sf_height s) :: u32) > 65535
               then None else l))"

definition derived_buffer :: "nat \<Rightarrow> int \<times> u64 \<times> u32 \<times> u64 \<Rightarrow> RKBuffer \<Rightarrow> RKBuffer" where
  "derived_buffer t layout b =
     (case layout of (fd, object_size, pitch, chroma_offset) \<Rightarrow>
        let required = chroma_offset + chroma_offset div 2
        in b\<lparr>b_derived := Some \<lparr>dv_surface = t, dv_size = object_size, dv_chroma_offset = chroma_offset, dv_map = False,
                               dv_pitch = pitch, dv_fd = fd\<rparr>,
             b_capacity := required, b_bytes := ucast required, b_num_elements := 1\<rparr>)"

definition derived_object :: "SurfaceObject \<Rightarrow> int \<times> u64 \<times> u32 \<times> u64 \<Rightarrow> u32 \<Rightarrow> nat \<Rightarrow> RKImage" where
  "derived_object s layout bid p =
     (case layout of (fd, object_size, pitch, chroma_offset) \<Rightarrow>
        \<lparr>im_buffer_id = bid, im_buffer = Some p, im_fourcc = (if sf_10bit s then VA_FOURCC_P010 else VA_FOURCC_NV12),
         im_width = of_int (sf_width s), im_height = of_int (sf_height s), im_num_planes = 2,
         im_pitches = [pitch, pitch, 0], im_offsets = [0, ucast chroma_offset, 0]\<rparr>)"

text \<open>From the description of the layout to the image; the reference to the surface goes to the buffer.\<close>

definition derive_enter ::
    "image_env \<Rightarrow> nat \<Rightarrow> SurfaceObject \<Rightarrow> int \<times> u64 \<times> u32 \<times> u64 \<Rightarrow> IDriver \<Rightarrow> ((VAStatus + VAImage) \<times> IDriver) outcome" where
  "derive_enter e t s layout d =
     obind (rk_CreateBuffer (ime_buffer e) (id_drv d) VAImageBufferType 0 0 None) (\<lambda>(r, drv).
       let d = id_set_drv drv d
       in case r of
            Inl status \<Rightarrow> obind (surface_unref t (id_sd d)) (\<lambda>sd. Ok (Inl status, d\<lparr>id_sd := sd\<rparr>))
          | Inr bid \<Rightarrow>
              obind (buffer_acquire (id_drv d) bid) (\<lambda>(p, drv).
                let d = id_set_drv drv d
                in if p = None \<or> \<not> ime_object e
                   then obind (case p of None \<Rightarrow> Ok d | Some p \<Rightarrow> ibuffer_unref p d) (\<lambda>d.
                        obind (idestroy_buffer bid d) (\<lambda>d.
                        obind (surface_unref t (id_sd d)) (\<lambda>sd. Ok (Inl VA_STATUS_ERROR_ALLOCATION_FAILED, d\<lparr>id_sd := sd\<rparr>))))
                   else obind (buffer_at (id_drv d) (the p)) (\<lambda>b.
                     let b = derived_buffer t layout b; d = id_set_drv (buffer_set (the p) b (id_drv d)) d;
                         im = derived_object s layout bid (the p);
                         format = image_format (im_fourcc im) (if sf_10bit s then 24 else 12)
                     in obind (enter_image e im d) (\<lambda>(r, d).
                          Ok (case r of Inl status \<Rightarrow> Inl status | Inr iid \<Rightarrow> Inr (va_image iid format im (b_bytes b)), d)))))"

definition rk_DeriveImage :: "derive_env \<Rightarrow> IDriver \<Rightarrow> u32 \<Rightarrow> bool \<Rightarrow> ((VAStatus + VAImage) \<times> IDriver) outcome" where
  "rk_DeriveImage e d sid given =
     (if \<not> given then Ok (Inl VA_STATUS_ERROR_INVALID_PARAMETER, d)
      else obind (surface_acquire (id_sd d) sid) (\<lambda>(t, sd).
        case t of
          None \<Rightarrow> Ok (Inl VA_STATUS_ERROR_INVALID_SURFACE, d\<lparr>id_sd := sd\<rparr>)
        | Some t \<Rightarrow>
            let leave = (\<lambda>status sd. obind (surface_unref t sd) (\<lambda>sd. Ok (Inl status, d\<lparr>id_sd := sd\<rparr>)))
            in obind (surface_at sd t) (\<lambda>s. obind (derive_settle e s sid sd) (\<lambda>(r, sd).
                 case r of
                   Inl status \<Rightarrow> leave status sd
                 | Inr _ \<Rightarrow> obind (surface_at sd t) (\<lambda>s.
                     if \<not> derivable s then leave VA_STATUS_ERROR_OPERATION_FAILED sd
                     else obind (derive_layout sd s) (\<lambda>l.
                       case l of
                         None \<Rightarrow> leave VA_STATUS_ERROR_INVALID_SURFACE sd
                       | Some layout \<Rightarrow> derive_enter (de_image e) t s layout (d\<lparr>id_sd := sd\<rparr>)))))))"

section \<open>Copies between images and surfaces\<close>

definition image_plane_fits :: "RKImage \<Rightarrow> nat \<Rightarrow> u64 \<Rightarrow> u32 \<Rightarrow> u64 \<Rightarrow> bool" where
  "image_plane_fits im plane row_bytes rows cap \<longleftrightarrow>
     \<not> (plane \<ge> unat (im_num_planes im) \<or> ucast (im_pitches im ! plane) < row_bytes \<or> ucast (im_offsets im ! plane) > cap) \<and>
     (rows = 0 \<or>
      (let last_row = ucast (rows - 1) * ucast (im_pitches im ! plane)
       in last_row \<le> cap - ucast (im_offsets im ! plane) \<and>
          row_bytes \<le> cap - ucast (im_offsets im ! plane) - last_row))"

text \<open>The planes of an image against a picture of \<open>width\<close> samples of \<open>row_bytes\<close> bytes by \<open>height\<close> rows.\<close>

definition image_layout_valid :: "RKImage \<Rightarrow> u64 \<Rightarrow> u64 \<Rightarrow> u32 \<Rightarrow> u64 \<Rightarrow> bool" where
  "image_layout_valid im width row_bytes height cap \<longleftrightarrow>
     (let planar = planar_fourcc (im_fourcc im); chroma_bytes = width div 2
      in image_plane_fits im 0 (if planar then width else row_bytes) height cap \<and>
         image_plane_fits im 1 (if planar then chroma_bytes else row_bytes) (height div 2) cap \<and>
         (\<not> planar \<or> image_plane_fits im 2 chroma_bytes (height div 2) cap))"

definition u_plane :: "RKImage \<Rightarrow> nat" where
  "u_plane im = (if im_fourcc im = VA_FOURCC_I420 then 1 else 2)"

definition v_plane :: "RKImage \<Rightarrow> nat" where
  "v_plane im = (if im_fourcc im = VA_FOURCC_I420 then 2 else 1)"

abbreviation im_pitch :: "RKImage \<Rightarrow> nat \<Rightarrow> u64" where
  "im_pitch im i \<equiv> ucast (im_pitches im ! i)"

abbreviation im_offset :: "RKImage \<Rightarrow> nat \<Rightarrow> u64" where
  "im_offset im i \<equiv> ucast (im_offsets im ! i)"

record copy_env =
  cp_start :: bool
  cp_end :: bool
  cp_norm :: norm_env

record put_rect =
  pr_src_x :: int
  pr_src_y :: int
  pr_src_width :: u32
  pr_src_height :: u32
  pr_dest_x :: int
  pr_dest_y :: int
  pr_dest_width :: u32
  pr_dest_height :: u32

definition put_full_frame :: "put_rect \<Rightarrow> RKImage \<Rightarrow> SurfaceObject \<Rightarrow> bool" where
  "put_full_frame a im s \<longleftrightarrow>
     pr_src_x a = 0 \<and> pr_src_y a = 0 \<and> pr_dest_x a = 0 \<and> pr_dest_y a = 0 \<and>
     pr_src_width a = im_width im \<and> pr_src_height a = im_height im \<and>
     pr_dest_width a = of_int (sf_width s) \<and> pr_dest_height a = of_int (sf_height s) \<and>
     pr_src_width a = pr_dest_width a \<and> pr_src_height a = pr_dest_height a"

definition put_copy :: "RKImage \<Rightarrow> SurfaceObject \<Rightarrow> u64 \<Rightarrow> u64 \<Rightarrow> u64 \<Rightarrow> u64 \<Rightarrow> mem \<Rightarrow> mem \<Rightarrow> mem outcome" where
  "put_copy im s row_bytes destination_size P V src dst =
     (let planar = planar_fourcc (im_fourcc im); width = of_int (sf_width s) :: u64;
          h = nat (sf_height s); half = nat (sf_height s div 2)
      in obind (mem_write dst 0 (replicate (unat destination_size) 0)) (\<lambda>dst.
         obind (copy_rows h 0 (unat (if planar then width else row_bytes)) src (im_offset im 0) (im_pitch im 0) 0 P dst)
           (if planar
            then interleave_rows half 0 (unat (width div 2)) src (im_offset im (u_plane im)) (im_pitch im (u_plane im))
                   (im_offset im (v_plane im)) (im_pitch im (v_plane im)) (P * V) P
            else copy_rows half 0 (unat row_bytes) src (im_offset im 1) (im_pitch im 1) (P * V) P)))"

definition put_image ::
    "copy_env \<Rightarrow> put_rect \<Rightarrow> SurfaceObject \<Rightarrow> RKImage \<Rightarrow> RKBuffer \<Rightarrow> SDriver \<Rightarrow> ((VAStatus + unit) \<times> SDriver) outcome" where
  "put_image e a s im b d =
     (let failed = Inl VA_STATUS_ERROR_OPERATION_FAILED; bps = (if sf_10bit s then 2 else 1) :: u64;
          width = of_int (sf_width s); row_bytes = width * bps
      in if sf_import_buf s \<noteq> None \<or> \<not> put_full_frame a im s \<or> im_fourcc im \<noteq> sf_fourcc s \<or>
            (planar_fourcc (im_fourcc im) \<and> sf_10bit s) \<or>
            \<not> image_layout_valid im width row_bytes (of_int (sf_height s)) (b_capacity b)
         then Ok (failed, d)
         else case sf_priv_buf s of
           None \<Rightarrow> Ok (failed, d)
         | Some q \<Rightarrow> obind (mem_at d q) (\<lambda>m.
             let P = of_int (sf_hstride s) * bps; V = of_int (sf_vstride s); size = rk_nv12_layout_size P V
             in if P < row_bytes \<or> size = None \<or> the size > mb_size m \<or> im_offset im 0 > b_capacity b \<or>
                   mb_fd m < 0 \<or> \<not> mb_ptr m \<or> \<not> cp_start e
                then Ok (failed, d)
                else obind (put_copy im s row_bytes (the size) P V (b_data b) (mb_bytes m)) (\<lambda>bytes.
                  let d = mem_set q bytes (sd_sync [Ev_Sync_Start (mb_fd m)] d)
                  in Ok (if cp_end e then (Inr (), sd_sync [Ev_Sync_End (mb_fd m)] d) else (failed, d)))))"

definition get_copy :: "RKImage \<Rightarrow> SurfaceObject \<Rightarrow> u64 \<Rightarrow> u64 \<Rightarrow> u64 \<Rightarrow> u64 \<Rightarrow> mem \<Rightarrow> mem \<Rightarrow> mem outcome" where
  "get_copy im s row_bytes cap P V src dst =
     (let planar = planar_fourcc (im_fourcc im); width = ucast (of_int (sf_width s) :: u32) :: u64;
          h = nat (sf_height s); half = nat (sf_height s div 2)
      in obind (mem_write dst 0 (replicate (unat cap) 0)) (\<lambda>dst.
         obind (copy_rows h 0 (unat (if planar then width else row_bytes)) src 0 P (im_offset im 0) (im_pitch im 0) dst)
           (if planar
            then split_rows half 0 (unat (width div 2)) src (P * V) P (im_offset im (u_plane im)) (im_pitch im (u_plane im))
                   (im_offset im (v_plane im)) (im_pitch im (v_plane im))
            else copy_rows half 0 (unat row_bytes) src (P * V) P (im_offset im 1) (im_pitch im 1))))"

definition get_source :: "SurfaceObject \<Rightarrow> nat option" where
  "get_source s = (if sf_imported_multiplane s then sf_priv_buf s else active_buffer s)"

definition get_full_frame :: "int \<times> int \<times> u32 \<times> u32 \<Rightarrow> RKImage \<Rightarrow> SurfaceObject \<Rightarrow> bool" where
  "get_full_frame a im s \<longleftrightarrow>
     (case a of (x, y, w, h) \<Rightarrow> x = 0 \<and> y = 0 \<and> w = of_int (sf_width s) \<and> h = of_int (sf_height s) \<and>
        im_width im \<ge> w \<and> im_height im \<ge> h)"

text \<open>From the choice of the source buffer on.\<close>

definition get_move ::
    "copy_env \<Rightarrow> SurfaceObject \<Rightarrow> RKImage \<Rightarrow> RKBuffer \<Rightarrow> mpp_memory \<Rightarrow> SDriver \<Rightarrow> ((VAStatus + unit) \<times> RKBuffer \<times> SDriver) outcome" where
  "get_move e s im b m d =
     (let failed = Inl VA_STATUS_ERROR_OPERATION_FAILED; bps = (if sf_10bit s then 2 else 1) :: u64;
          width = ucast (of_int (sf_width s) :: u32); row_bytes = width * bps;
          P = of_int (if sf_hstride s \<noteq> 0 then sf_hstride s else sf_width s) * bps;
          V = of_int (if sf_vstride s \<noteq> 0 then sf_vstride s else sf_height s);
          size = rk_nv12_layout_size P V
      in if sf_imported_rgb s \<or> im_fourcc im \<noteq> sf_fourcc s \<or> (planar_fourcc (im_fourcc im) \<and> sf_10bit s) \<or>
            P < row_bytes \<or> size = None \<or> the size > mb_size m \<or>
            \<not> image_layout_valid im width row_bytes (of_int (sf_height s)) (b_capacity b)
         then Ok (failed, b, d)
         else if mb_fd m < 0 \<or> \<not> cp_start e then Ok (failed, b, d)
         else if \<not> mb_ptr m
         then Ok (failed, b, sd_sync ([Ev_Sync_Start (mb_fd m)] @ (if cp_end e then [Ev_Sync_End (mb_fd m)] else [])) d)
         else obind (get_copy im s row_bytes (b_capacity b) P V (mb_bytes m) (b_data b)) (\<lambda>bytes.
           let d = sd_sync [Ev_Sync_Start (mb_fd m)] d; b = b\<lparr>b_data := bytes\<rparr>
           in Ok (if cp_end e then (Inr (), b, sd_sync [Ev_Sync_End (mb_fd m)] d) else (failed, b, d))))"

definition get_image ::
    "copy_env \<Rightarrow> int \<times> int \<times> u32 \<times> u32 \<Rightarrow> SurfaceObject \<Rightarrow> RKImage \<Rightarrow> RKBuffer \<Rightarrow> SDriver \<Rightarrow>
       ((VAStatus + unit) \<times> RKBuffer \<times> SDriver) outcome" where
  "get_image e a s im b d =
     obind (if sf_imported_multiplane s then rk_surface_normalize_multiplane_import (cp_norm e) s d else Ok (True, d)) (\<lambda>(normalized, d).
       if \<not> normalized \<or> get_source s = None \<or> \<not> get_full_frame a im s
       then Ok (Inl VA_STATUS_ERROR_OPERATION_FAILED, b, d)
       else obind (mem_at d (the (get_source s))) (\<lambda>m. get_move e s im b m d))"

text \<open>
  Both calls acquire the surface and the image, and drop both references on every path.
\<close>

definition image_drop :: "nat option \<Rightarrow> IDriver \<Rightarrow> IDriver outcome" where
  "image_drop q d = (case q of None \<Rightarrow> Ok d | Some q \<Rightarrow> image_unref q d)"

definition surface_drop :: "nat \<Rightarrow> IDriver \<Rightarrow> IDriver outcome" where
  "surface_drop t d = obind (surface_unref t (id_sd d)) (\<lambda>sd. Ok (d\<lparr>id_sd := sd\<rparr>))"

text \<open>The image and its buffer, when there are both and the buffer has memory.\<close>

definition image_source :: "nat option \<Rightarrow> IDriver \<Rightarrow> (RKImage \<times> nat \<times> RKBuffer) option outcome" where
  "image_source q d =
     (case q of
        None \<Rightarrow> Ok None
      | Some q \<Rightarrow> obind (image_at d q) (\<lambda>im.
          case im_buffer im of
            None \<Rightarrow> Ok None
          | Some p \<Rightarrow> obind (buffer_at (id_drv d) p) (\<lambda>b. Ok (if b_data b = [] then None else Some (im, p, b)))))"

definition with_surface_image ::
    "IDriver \<Rightarrow> u32 \<Rightarrow> u32 \<Rightarrow>
       (SurfaceObject \<Rightarrow> RKImage \<Rightarrow> nat \<Rightarrow> RKBuffer \<Rightarrow> IDriver \<Rightarrow> ((VAStatus + unit) \<times> IDriver) outcome) \<Rightarrow>
       ((VAStatus + unit) \<times> IDriver) outcome" where
  "with_surface_image d sid iid body =
     obind (surface_acquire (id_sd d) sid) (\<lambda>(t, sd).
     obind (image_acquire (d\<lparr>id_sd := sd\<rparr>) iid) (\<lambda>(q, d).
       case t of
         None \<Rightarrow> obind (image_drop q d) (\<lambda>d. Ok (Inl VA_STATUS_ERROR_INVALID_SURFACE, d))
       | Some t \<Rightarrow> obind (image_source q d) (\<lambda>src.
           case src of
             None \<Rightarrow> obind (surface_drop t d) (\<lambda>d. obind (image_drop q d) (\<lambda>d. Ok (Inl VA_STATUS_ERROR_INVALID_IMAGE, d)))
           | Some (im, p, b) \<Rightarrow> obind (surface_at (id_sd d) t) (\<lambda>s. obind (body s im p b d) (\<lambda>(r, d).
               obind (image_drop q d) (\<lambda>d. obind (surface_drop t d) (\<lambda>d. Ok (r, d))))))))"

definition rk_PutImage :: "copy_env \<Rightarrow> put_rect \<Rightarrow> IDriver \<Rightarrow> u32 \<Rightarrow> u32 \<Rightarrow> ((VAStatus + unit) \<times> IDriver) outcome" where
  "rk_PutImage e a d sid iid =
     with_surface_image d sid iid (\<lambda>s im p b d. obind (put_image e a s im b (id_sd d)) (\<lambda>(r, sd). Ok (r, d\<lparr>id_sd := sd\<rparr>)))"

definition rk_GetImage :: "copy_env \<Rightarrow> int \<times> int \<times> u32 \<times> u32 \<Rightarrow> IDriver \<Rightarrow> u32 \<Rightarrow> u32 \<Rightarrow> ((VAStatus + unit) \<times> IDriver) outcome" where
  "rk_GetImage e a d sid iid =
     with_surface_image d sid iid (\<lambda>s im p b d. obind (get_image e a s im b (id_sd d)) (\<lambda>(r, b, sd).
       Ok (r, id_set_drv (buffer_set p b (sd_drv sd)) (d\<lparr>id_sd := sd\<rparr>))))"

end
