(* ===== verification/Image_Copies.thy ===== *)
theory Image_Copies
  imports Images
begin

unbundle bit_operations_syntax

text \<open>
  The copies between an image and a surface. A plane that \<open>image_plane_fits\<close> accepts ends inside the
  buffer; both copies stay inside their memories; and afterwards the surface shows the image, that
  is, every luma and chroma sample of the picture is the same in both.
\<close>

section \<open>What an image shows\<close>

definition image_luma :: "RKImage \<Rightarrow> mem \<Rightarrow> nat \<Rightarrow> nat \<Rightarrow> u8 option" where
  "image_luma im data r c = data ! (unat (im_offset im 0) + r * unat (im_pitch im 0) + c)"

text \<open>The chroma rows in the interleaved order of NV12, whatever the format of the image.\<close>

definition image_chroma :: "RKImage \<Rightarrow> mem \<Rightarrow> nat \<Rightarrow> nat \<Rightarrow> u8 option" where
  "image_chroma im data r c =
     (if planar_fourcc (im_fourcc im)
      then let i = (if even c then u_plane im else v_plane im)
           in data ! (unat (im_offset im i) + r * unat (im_pitch im i) + c div 2)
      else data ! (unat (im_offset im 1) + r * unat (im_pitch im 1) + c))"

definition pictured :: "RKImage \<Rightarrow> mem \<Rightarrow> nat \<Rightarrow> nat \<Rightarrow> nat \<Rightarrow> nat \<Rightarrow> nat \<Rightarrow> mem \<Rightarrow> bool" where
  "pictured im data P chroma row crow h bytes \<longleftrightarrow>
     (\<forall>r < h. \<forall>c < row. bytes ! (r * P + c) = image_luma im data r c) \<and>
     (\<forall>r < h div 2. \<forall>c < crow. bytes ! (chroma + r * P + c) = image_chroma im data r c)"

lemma plane_fits_ends:
  assumes "image_plane_fits im i n rows cap"
  shows "plane_ends (unat (im_offset im i)) (unat (im_pitch im i)) (unat n) (unat rows) (unat cap)"
    "unat n \<le> unat (im_pitch im i)"
proof -
  let ?o = "im_offset im i" and ?p = "im_pitch im i"
  from assms have a: "n \<le> ?p" "?o \<le> cap"
    and b: "rows \<noteq> 0 \<Longrightarrow> ucast (rows - 1) * ?p \<le> cap - ?o \<and> n \<le> cap - ?o - ucast (rows - 1) * ?p"
    by (auto simp: image_plane_fits_def Let_def)
  show n: "unat n \<le> unat ?p" using a(1) by (simp add: word_le_nat_alt)
  have "unat ?o + (unat rows - 1) * unat ?p + unat n \<le> unat cap" if "rows \<noteq> 0"
  proof -
    let ?l = "ucast (rows - 1) * ?p :: u64"
    have l: "unat ?l = (unat rows - 1) * unat ?p"
      unfolding unat_mul32 using that by (simp add: unat_minus_one)
    have "unat ?l \<le> unat cap - unat ?o" "unat n \<le> unat cap - unat ?o - unat ?l" "unat ?o \<le> unat cap"
      using b [OF that] a(2) unat_sub [of ?o cap] unat_sub [of ?l "cap - ?o"] by (simp_all only: word_le_nat_alt)
    then show ?thesis unfolding l by linarith
  qed
  with n show "plane_ends (unat ?o) (unat ?p) (unat n) (unat rows) (unat cap)"
    by (auto simp: plane_ends_def unat_eq_0)
qed

section \<open>Two writes into one memory\<close>

lemma two_writes:
  assumes "wrote A g m m1" and "wrote B h m1 m2" and "A \<inter> B = {}"
    and "init_prefix k m" and "\<And>i. i \<in> A \<Longrightarrow> g i \<noteq> None" and "\<And>i. i \<in> B \<Longrightarrow> h i \<noteq> None"
  shows "init_prefix k m2" "i \<in> A \<Longrightarrow> i < length m \<Longrightarrow> m2 ! i = g i" "i \<in> B \<Longrightarrow> i < length m \<Longrightarrow> m2 ! i = h i"
proof -
  show "init_prefix k m2" using wrote_init [OF assms(2) wrote_init [OF assms(1,4)]] assms(5,6) by blast
  show "i \<in> A \<Longrightarrow> i < length m \<Longrightarrow> m2 ! i = g i" "i \<in> B \<Longrightarrow> i < length m \<Longrightarrow> m2 ! i = h i"
    using assms(1-3) by (auto simp: wrote_def)
qed

lemma plane_cellE:
  assumes "i \<in> plane_cells off pitch n rows"
  obtains r c where "i = off + r * pitch + c" "r < rows" "c < n"
proof -
  from assms obtain r where "r < rows" "i \<in> {off + r * pitch..<off + r * pitch + n}" by (auto simp: plane_cells_def)
  then show thesis using that [of r] cell_cases by metis
qed

lemma woven_defined:
  assumes "plane_defined src uoff upitch n rows" and "plane_defined src voff vpitch n rows" and "2 * n \<le> unat dpitch"
    and "i \<in> plane_cells (unat doff) (unat dpitch) (2 * n) rows"
  shows "woven_from src (unat uoff) (unat upitch) (unat voff) (unat vpitch) (unat doff) (unat dpitch) i \<noteq> None"
proof (rule plane_cellE [OF assms(4)])
  fix r c assume "i = unat doff + r * unat dpitch + c" "r < rows" "c < 2 * n"
  moreover from this have "c div 2 < n" by simp
  ultimately show ?thesis using assms(1-3) by (simp add: woven_from_cell plane_defined_def defined_at_def)
qed

lemma half_defined:
  assumes "plane_defined src soff spitch (2 * n) rows" and "start < 2" and "n \<le> unat dpitch"
    and "i \<in> plane_cells (unat doff) (unat dpitch) n rows"
  shows "half_from src (unat soff) (unat spitch) start (unat doff) (unat dpitch) i \<noteq> None"
proof (rule plane_cellE [OF assms(4)])
  fix r c assume i: "i = unat doff + r * unat dpitch + c" "r < rows" "c < n"
  with assms(1,2) have "src ! (unat soff + r * unat spitch + (2 * c + start)) \<noteq> None" by (simp add: plane_defined_def defined_at_def)
  with i assms(3) show ?thesis by (simp add: half_from_cell [unfolded add.assoc] add.assoc)
qed

section \<open>From an image to a surface\<close>

text \<open>The rows of the picture, as the code computes them for a surface of legal size.\<close>

lemma picture_dims:
  assumes "0 < sf_width s" "sf_width s \<le> 8192" "0 < sf_height s" "sf_height s \<le> 8192"
  shows "unat (of_int (sf_width s) :: u64) = nat (sf_width s)" "unat (of_int (sf_width s) :: u32) = nat (sf_width s)"
    "unat (of_int (sf_height s) :: u32) = nat (sf_height s)" "unat ((of_int (sf_height s) :: u32) div 2) = nat (sf_height s) div 2"
    "nat (sf_height s div 2) = nat (sf_height s) div 2" "unat ((of_int (sf_width s) :: u64) div 2) = nat (sf_width s) div 2"
    "ucast (of_int (sf_width s) :: u32) = (of_int (sf_width s) :: u64)"
proof -
  show w: "unat (of_int (sf_width s) :: u64) = nat (sf_width s)" "unat (of_int (sf_width s) :: u32) = nat (sf_width s)"
    and h: "unat (of_int (sf_height s) :: u32) = nat (sf_height s)"
    using assms by (simp_all add: unat_of_int_c unat_eq_nat_uint uint_word_of_int_eq take_bit_int_eq_self)
  show "unat ((of_int (sf_height s) :: u32) div 2) = nat (sf_height s) div 2"
    "unat ((of_int (sf_width s) :: u64) div 2) = nat (sf_width s) div 2" using w h by (simp_all add: unat_div)
  show "nat (sf_height s div 2) = nat (sf_height s) div 2" using assms by (simp add: nat_div_distrib)
  have "unat (ucast (of_int (sf_width s) :: u32) :: u64) = unat (of_int (sf_width s) :: u64)" using w by simp
  then show "ucast (of_int (sf_width s) :: u32) = (of_int (sf_width s) :: u64)" by (rule unsigned_word_eqI)
qed

text \<open>The bytes of a chroma row that are copied: all but the last of an odd planar row.\<close>

definition chroma_row :: "RKImage \<Rightarrow> u64 \<Rightarrow> nat" where
  "chroma_row im row = (if planar_fourcc (im_fourcc im) then 2 * (unat row div 2) else unat row)"

definition legal_size :: "SurfaceObject \<Rightarrow> bool" where
  "legal_size s \<longleftrightarrow> 0 < sf_width s \<and> sf_width s \<le> 8192 \<and> 0 < sf_height s \<and> sf_height s \<le> 8192"

text \<open>The planes of a valid layout are inside the buffer.\<close>

lemma valid_planes:
  assumes "legal_size s" and "image_layout_valid im (of_int (sf_width s)) row (of_int (sf_height s)) cap"
    and "planar_fourcc (im_fourcc im) \<longrightarrow> row = of_int (sf_width s)"
  shows "plane_ends (unat (im_offset im 0)) (unat (im_pitch im 0)) (unat row) (nat (sf_height s)) (unat cap)"
    "\<not> planar_fourcc (im_fourcc im) \<Longrightarrow>
       plane_ends (unat (im_offset im 1)) (unat (im_pitch im 1)) (unat row) (nat (sf_height s) div 2) (unat cap)"
    "planar_fourcc (im_fourcc im) \<Longrightarrow> i = 1 \<or> i = 2 \<Longrightarrow>
       plane_ends (unat (im_offset im i)) (unat (im_pitch im i)) (unat row div 2) (nat (sf_height s) div 2) (unat cap)"
proof -
  note d = picture_dims [OF conjunct1 [OF assms(1) [unfolded legal_size_def]]]
  have dims: "unat (of_int (sf_height s) :: u32) = nat (sf_height s)" "unat ((of_int (sf_height s) :: u32) div 2) = nat (sf_height s) div 2"
      "unat ((of_int (sf_width s) :: u64) div 2) = unat (of_int (sf_width s) :: u64) div 2"
    using d assms(1) by (simp_all add: legal_size_def)
  have f: "image_plane_fits im 0 row (of_int (sf_height s)) cap"
      "\<not> planar_fourcc (im_fourcc im) \<Longrightarrow> image_plane_fits im 1 row (of_int (sf_height s) div 2) cap"
      "planar_fourcc (im_fourcc im) \<Longrightarrow> i = 1 \<or> i = 2 \<Longrightarrow> image_plane_fits im i (row div 2) (of_int (sf_height s) div 2) cap"
    using assms(2,3) by (auto simp: image_layout_valid_def Let_def split: if_splits)
  show "plane_ends (unat (im_offset im 0)) (unat (im_pitch im 0)) (unat row) (nat (sf_height s)) (unat cap)"
    using plane_fits_ends(1) [OF f(1)] by (simp only: dims)
  show "plane_ends (unat (im_offset im 1)) (unat (im_pitch im 1)) (unat row) (nat (sf_height s) div 2) (unat cap)"
    if "\<not> planar_fourcc (im_fourcc im)" using plane_fits_ends(1) [OF f(2) [OF that]] by (simp only: dims)
  show "plane_ends (unat (im_offset im i)) (unat (im_pitch im i)) (unat row div 2) (nat (sf_height s) div 2) (unat cap)"
    if "planar_fourcc (im_fourcc im)" "i = 1 \<or> i = 2"
    using plane_fits_ends(1) [OF f(3) [OF that]] assms(3) that(1) by (simp only: dims)
qed

lemma put_planar_ok:
  assumes layout: "rk_nv12_layout_size P V = Some n" "row \<le> unat P" "h \<le> unat V"
    and dst: "init_prefix k dst" "unat n \<le> k" "k < 2 ^ 64"
    and y: "plane_defined src yoff ypitch row h"
    and u: "plane_defined src uoff upitch (row div 2) (h div 2)" and v: "plane_defined src voff vpitch (row div 2) (h div 2)"
  obtains bytes where "obind (mem_write dst 0 (replicate (unat n) 0)) (\<lambda>dst.
      obind (copy_rows h 0 row src yoff ypitch 0 P dst)
        (interleave_rows (h div 2) 0 (row div 2) src uoff upitch voff vpitch (P * V) P)) = Ok bytes" "init_prefix k bytes"
    "\<And>r c. r < h \<Longrightarrow> c < row \<Longrightarrow> bytes ! (r * unat P + c) = src ! (unat yoff + r * unat ypitch + c)"
    "\<And>r c. r < h div 2 \<Longrightarrow> c < 2 * (row div 2) \<Longrightarrow> bytes ! (unat (P * V) + r * unat P + c) =
       (if even c then src ! (unat uoff + r * unat upitch + c div 2) else src ! (unat voff + r * unat vpitch + c div 2))"
proof -
  let ?w = "2 * (row div 2)"
  have w: "?w \<le> unat P" using layout(2) by linarith
  note p = nv12_planes(1-3) [OF layout(1-3)] nv12_planes(4) [OF layout(1) w layout(3)]
  obtain m0 where m0: "mem_write dst 0 (replicate (unat n) 0) = Ok m0" "init_prefix k m0" by (rule clear_ok [OF dst(1,2)])
  then have len: "k \<le> length m0" by (simp add: init_prefix_def)
  have "plane_room (length m0) 0 P row h"
    by (rule plane_room_fits [of _ _ _ _ "unat (P * V)"]) (use p dst len in simp_all)
  from copy_rows_wrote [OF y this] obtain m1 where m1: "copy_rows h 0 row src yoff ypitch 0 P m0 = Ok m1"
      "wrote (plane_cells 0 (unat P) row h) (copied_from src (unat yoff) (unat ypitch) 0 (unat P)) m0 m1" unfolding unat_0 by blast
  have "plane_room (length m1) (P * V) P ?w (h div 2)"
    by (rule plane_room_fits [OF p(4)]) (use dst len m1(2) in \<open>simp_all add: wrote_def\<close>)
  from interleave_rows_wrote [OF u v this] obtain m2 where
    m2: "interleave_rows (h div 2) 0 (row div 2) src uoff upitch voff vpitch (P * V) P m1 = Ok m2"
      "wrote (plane_cells (unat (P * V)) (unat P) ?w (h div 2))
         (woven_from src (unat uoff) (unat upitch) (unat voff) (unat vpitch) (unat (P * V)) (unat P)) m1 m2" by blast
  have sub: "plane_cells 0 (unat P) row h \<subseteq> {..<unat (P * V)}" "plane_cells (unat (P * V)) (unat P) ?w (h div 2) \<subseteq> {unat (P * V)..<k}"
    using plane_ends_cells [OF p(3)] plane_ends_cells [OF p(4)] dst(2) by (auto simp: subset_iff)
  then have dis: "plane_cells 0 (unat P) row h \<inter> plane_cells (unat (P * V)) (unat P) ?w (h div 2) = {}" by fastforce
  note t = two_writes [OF m1(2) m2(2) dis m0(2) copied_defined [OF y layout(2), of _ 0, unfolded unat_0] woven_defined [OF u v w]]
  show thesis
  proof (rule that)
    show "init_prefix k m2" using t(1) by blast
    show "m2 ! (r * unat P + c) = src ! (unat yoff + r * unat ypitch + c)" if "r < h" "c < row" for r c
      using t(2) [OF _ _ in_plane_cells [OF that, of 0 "unat P"]] sub(1) in_plane_cells [OF that, of 0 "unat P"] len dst(2) p(1,2)
        copied_from_cell [of c "unat P" src "unat yoff" "unat ypitch" 0 r] that(2) layout(2) by auto
    show "m2 ! (unat (P * V) + r * unat P + c) =
        (if even c then src ! (unat uoff + r * unat upitch + c div 2) else src ! (unat voff + r * unat vpitch + c div 2))"
      if "r < h div 2" "c < ?w" for r c
      using t(3) [OF _ _ in_plane_cells [OF that]] subsetD [OF sub(2) in_plane_cells [OF that]] len that(2) w
      by (simp add: woven_from_cell)
  qed (use m0 m1 m2 in simp)
qed

lemma put_copy_ok:
  assumes s: "legal_size s" "image_layout_valid im (of_int (sf_width s)) row (of_int (sf_height s)) cap"
      "planar_fourcc (im_fourcc im) \<longrightarrow> row = of_int (sf_width s)" "0 < unat row"
    and layout: "rk_nv12_layout_size P V = Some n" "unat row \<le> unat P" "nat (sf_height s) \<le> unat V"
    and src: "init_prefix (unat cap) src" and dst: "init_prefix k dst" "unat n \<le> k" "k < 2 ^ 64"
  obtains bytes where "put_copy im s row n P V src dst = Ok bytes" "init_prefix k bytes"
    "pictured im src (unat P) (unat (P * V)) (unat row) (chroma_row im row) (nat (sf_height s)) bytes"
proof -
  let ?h = "nat (sf_height s)"
  note planes = valid_planes [OF s(1-3)]
  have half: "nat (sf_height s div 2) = ?h div 2" using s(1) by (simp add: legal_size_def nat_div_distrib)
  have lt: "unat cap < 2 ^ 64" by simp
  note fits = plane_defined_fits [OF _ src lt]
  have y: "plane_defined src (im_offset im 0) (im_pitch im 0) (unat row) ?h" by (rule fits [OF planes(1)])
  show thesis
  proof (cases "planar_fourcc (im_fourcc im)")
    case False
    have uv: "plane_defined src (im_offset im 1) (im_pitch im 1) (unat row) (?h div 2)" by (rule fits [OF planes(2) [OF False]])
    show thesis
    proof (rule two_planes_ok [OF layout s(4) dst y uv])
      fix bytes assume "obind (mem_write dst 0 (replicate (unat n) 0)) (\<lambda>dst. obind (copy_rows ?h 0 (unat row) src (im_offset im 0) (im_pitch im 0) 0 P dst)
            (copy_rows (?h div 2) 0 (unat row) src (im_offset im 1) (im_pitch im 1) (P * V) P)) = Ok bytes" "init_prefix k bytes"
        "two_planes src (unat (im_offset im 0)) (unat (im_pitch im 0)) src (unat (im_offset im 1)) (unat (im_pitch im 1)) (unat P)
          (unat (P * V)) (unat row) ?h bytes"
      with False show thesis
        by (intro that) (simp_all add: put_copy_def Let_def half pictured_def two_planes_def image_luma_def image_chroma_def chroma_row_def)
    qed
  next
    case True
    have w: "unat ((of_int (sf_width s) :: u64) div 2) = unat row div 2" "unat (of_int (sf_width s) :: u64) = unat row"
      using s(3) True by (simp_all add: unat_div)
    have p: "plane_defined src (im_offset im i) (im_pitch im i) (unat row div 2) (?h div 2)" if "i = 1 \<or> i = 2" for i
      by (rule fits [OF planes(3) [OF True that]])
    have uv: "u_plane im = 1 \<or> u_plane im = 2" "v_plane im = 1 \<or> v_plane im = 2" by (simp_all add: u_plane_def v_plane_def)
    show thesis
      by (rule put_planar_ok [OF layout dst y p [OF uv(1)] p [OF uv(2)]])
         (use True w in \<open>auto intro!: that simp: put_copy_def Let_def half pictured_def image_luma_def image_chroma_def chroma_row_def\<close>)
  qed
qed

section \<open>From a surface to an image\<close>

text \<open>The layout that \<open>rk_CreateImage\<close> gives an image: the planes follow one another.\<close>

definition image_ok :: "RKImage \<Rightarrow> bool" where
  "image_ok im \<longleftrightarrow> im_offsets im ! 0 = 0 \<and> unat (im_offsets im ! 1) = unat (im_pitches im ! 0) * unat (im_height im) \<and>
     (planar_fourcc (im_fourcc im) \<longrightarrow> im_pitches im ! 2 = im_pitches im ! 1 \<and>
        unat (im_offsets im ! 2) = unat (im_offsets im ! 1) + unat (im_pitches im ! 1) * (unat (im_height im) div 2))"

definition plane_at :: "RKImage \<Rightarrow> nat \<Rightarrow> nat \<Rightarrow> nat \<Rightarrow> nat set" where
  "plane_at im i n rows = plane_cells (unat (im_offset im i)) (unat (im_pitch im i)) n rows"

lemma image_planes_apart:
  assumes "image_ok im" and "h \<le> unat (im_height im)" and "n \<le> unat (im_pitch im 0)" and "m \<le> unat (im_pitch im 1)"
  shows "plane_at im 0 n h \<inter> plane_at im 1 m k = {}"
    "planar_fourcc (im_fourcc im) \<Longrightarrow> plane_at im 0 n h \<inter> plane_at im 2 m k = {}"
    "planar_fourcc (im_fourcc im) \<Longrightarrow> plane_at im 1 m (h div 2) \<inter> plane_at im 2 m k = {}"
proof -
  let ?o = "\<lambda>i. unat (im_offset im i)" and ?p = "\<lambda>i. unat (im_pitch im i)"
  have above: "plane_at im i m' k \<subseteq> {?o i..}" for i m' by (auto simp: plane_at_def plane_cells_def)
  have o: "?o 0 = 0" "?o 1 = ?p 0 * unat (im_height im)" using assms(1) by (simp_all add: image_ok_def)
  have "plane_ends (?o 0) (?p 0) n h (?o 1)"
    by (rule plane_ends_rows [OF assms(3)]) (use assms(2) o in \<open>simp add: mult.commute\<close>)
  from plane_ends_cells [OF this] have l: "plane_at im 0 n h \<subseteq> {..<?o 1}" by (auto simp: plane_at_def)
  with above [of 1 m] show "plane_at im 0 n h \<inter> plane_at im 1 m k = {}" by fastforce
  assume "planar_fourcc (im_fourcc im)"
  then have o2: "?o 2 = ?o 1 + ?p 1 * (unat (im_height im) div 2)" using assms(1) by (simp add: image_ok_def)
  with l above [of 2 m] show "plane_at im 0 n h \<inter> plane_at im 2 m k = {}" by fastforce
  have "?p 1 * (h div 2) \<le> ?p 1 * (unat (im_height im) div 2)" using assms(2) by (intro mult_le_mono2 div_le_mono)
  then have "plane_ends (?o 1) (?p 1) m (h div 2) (?o 2)"
    by (intro plane_ends_rows [OF assms(4)]) (simp only: o2 mult.commute add_le_cancel_left)
  from plane_ends_cells [OF this] have "plane_at im 1 m (h div 2) \<subseteq> {..<?o 2}" by (auto simp: plane_at_def)
  with above [of 2 m] show "plane_at im 1 m (h div 2) \<inter> plane_at im 2 m k = {}" by fastforce
qed

lemma wrote_length: "wrote A g m m' \<Longrightarrow> length m' = length m"
  by (simp add: wrote_def)

text \<open>A sample of a plane is inside the buffer.\<close>

lemma plane_at_cell:
  assumes "plane_ends (unat (im_offset im i)) (unat (im_pitch im i)) n rows cap" and "r < rows" and "c < n"
  shows "unat (im_offset im i) + r * unat (im_pitch im i) + c \<in> plane_at im i n rows"
    "unat (im_offset im i) + r * unat (im_pitch im i) + c < cap"
proof -
  show a: "unat (im_offset im i) + r * unat (im_pitch im i) + c \<in> plane_at im i n rows"
    unfolding plane_at_def by (rule in_plane_cells [OF assms(2,3)])
  show "unat (im_offset im i) + r * unat (im_pitch im i) + c < cap"
    using plane_ends_row [OF assms(1,2)] assms(3) by linarith
qed

lemma copied_at_defined:
  "plane_defined src soff spitch n rows \<Longrightarrow> n \<le> unat (im_pitch im k) \<Longrightarrow> i \<in> plane_at im k n rows \<Longrightarrow>
     copied_from src (unat soff) (unat spitch) (unat (im_offset im k)) (unat (im_pitch im k)) i \<noteq> None"
  unfolding plane_at_def by (rule copied_defined)

lemma copy_to_plane:
  assumes "plane_defined src soff spitch n rows" and "plane_ends (unat (im_offset im i)) (unat (im_pitch im i)) n rows cap"
    and "cap \<le> length dst" "cap < 2 ^ 64"
  obtains dst' where "copy_rows rows 0 n src soff spitch (im_offset im i) (im_pitch im i) dst = Ok dst'"
    "wrote (plane_at im i n rows) (copied_from src (unat soff) (unat spitch) (unat (im_offset im i)) (unat (im_pitch im i))) dst dst'"
  using copy_rows_wrote [OF assms(1) plane_room_fits [OF assms(2-4)]] unfolding plane_at_def by blast

lemma get_copy_semiplanar:
  assumes "\<not> planar_fourcc (im_fourcc im)" and "image_ok im" "h \<le> unat (im_height im)"
    and y: "plane_defined src 0 P (unat row) h" and uv: "plane_defined src (P * V) P (unat row) (h div 2)"
    and p0: "plane_ends (unat (im_offset im 0)) (unat (im_pitch im 0)) (unat row) h cap"
    and p1: "plane_ends (unat (im_offset im 1)) (unat (im_pitch im 1)) (unat row) (h div 2) cap"
    and dst: "init_prefix cap dst" "cap < 2 ^ 64"
  obtains data where "obind (copy_rows h 0 (unat row) src 0 P (im_offset im 0) (im_pitch im 0) dst)
      (copy_rows (h div 2) 0 (unat row) src (P * V) P (im_offset im 1) (im_pitch im 1)) = Ok data"
    "init_prefix cap data" "pictured im data (unat P) (unat (P * V)) (unat row) (chroma_row im row) h src"
proof -
  have le: "unat row \<le> unat (im_pitch im 0)" "unat row \<le> unat (im_pitch im 1)" "cap \<le> length dst"
    using p0 p1 dst(1) by (simp_all add: plane_ends_def init_prefix_def)
  obtain m1 where m1: "copy_rows h 0 (unat row) src 0 P (im_offset im 0) (im_pitch im 0) dst = Ok m1"
      "wrote (plane_at im 0 (unat row) h)
         (copied_from src (unat (0 :: u64)) (unat P) (unat (im_offset im 0)) (unat (im_pitch im 0))) dst m1"
    by (rule copy_to_plane [OF y p0 le(3) dst(2)])
  have "cap \<le> length m1" using le(3) wrote_length [OF m1(2)] by simp
  then obtain m2 where m2: "copy_rows (h div 2) 0 (unat row) src (P * V) P (im_offset im 1) (im_pitch im 1) m1 = Ok m2"
      "wrote (plane_at im 1 (unat row) (h div 2))
         (copied_from src (unat (P * V)) (unat P) (unat (im_offset im 1)) (unat (im_pitch im 1))) m1 m2"
    by (rule copy_to_plane [OF uv p1 _ dst(2)])
  note t = two_writes [OF m1(2) m2(2) image_planes_apart(1) [OF assms(2,3) le(1,2)] dst(1)
      copied_at_defined [OF y le(1)] copied_at_defined [OF uv le(2)]]
  have "image_luma im m2 r c = src ! (r * unat P + c)" if "r < h" "c < unat row" for r c
    using t(2) [OF _ _ plane_at_cell(1) [OF p0 that]] plane_at_cell(2) [OF p0 that] le that(2)
    by (simp add: image_luma_def copied_from_cell)
  moreover have "image_chroma im m2 r c = src ! (unat (P * V) + r * unat P + c)" if "r < h div 2" "c < unat row" for r c
    using t(3) [OF _ _ plane_at_cell(1) [OF p1 that]] plane_at_cell(2) [OF p1 that] le that(2) assms(1)
    by (simp add: image_chroma_def copied_from_cell)
  ultimately show thesis using that [of m2] m1(1) m2(1) t(1) assms(1) by (simp add: pictured_def chroma_row_def)
qed

text \<open>Splitting the interleaved rows into the planes \<open>a\<close> and \<open>b\<close>.\<close>

lemma split_to_planes:
  assumes uv: "plane_defined src soff P (2 * n) rows" and dis: "plane_at im a n rows \<inter> plane_at im b n rows = {}"
    and a: "plane_ends (unat (im_offset im a)) (unat (im_pitch im a)) n rows cap"
    and b: "plane_ends (unat (im_offset im b)) (unat (im_pitch im b)) n rows cap"
    and dst: "cap \<le> length dst" "cap < 2 ^ 64"
  obtains dst' g where "split_rows rows 0 n src soff P (im_offset im a) (im_pitch im a) (im_offset im b) (im_pitch im b) dst = Ok dst'"
    "wrote (plane_at im a n rows \<union> plane_at im b n rows) g dst dst'"
    "\<And>i. i \<in> plane_at im a n rows \<union> plane_at im b n rows \<Longrightarrow> g i \<noteq> None"
    "\<And>r c. r < rows \<Longrightarrow> c < n \<Longrightarrow> g (unat (im_offset im a) + r * unat (im_pitch im a) + c) = src ! (unat soff + r * unat P + 2 * c)"
    "\<And>r c. r < rows \<Longrightarrow> c < n \<Longrightarrow> g (unat (im_offset im b) + r * unat (im_pitch im b) + c) = src ! (unat soff + r * unat P + 2 * c + 1)"
proof -
  let ?g = "split_from src (unat soff) (unat P) (unat (im_offset im a)) (unat (im_pitch im a)) (unat (im_offset im b))
      (unat (im_pitch im b)) (plane_at im b n rows)"
  have n: "n \<le> unat (im_pitch im a)" "n \<le> unat (im_pitch im b)" using a b by (simp_all add: plane_ends_def)
  obtain m where m: "split_rows rows 0 n src soff P (im_offset im a) (im_pitch im a) (im_offset im b) (im_pitch im b) dst = Ok m"
      "wrote (plane_at im a n rows \<union> plane_at im b n rows) ?g dst m"
    using split_rows_wrote [OF uv plane_room_fits [OF a dst] plane_room_fits [OF b dst] dis [unfolded plane_at_def]]
    unfolding plane_at_def by blast
  have half: "i \<in> plane_at im k n rows \<Longrightarrow> start < 2 \<Longrightarrow> n \<le> unat (im_pitch im k) \<Longrightarrow>
      half_from src (unat soff) (unat P) start (unat (im_offset im k)) (unat (im_pitch im k)) i \<noteq> None" for i k start
    unfolding plane_at_def by (rule half_defined [OF uv])
  show thesis
  proof (rule that [OF m])
    show "?g i \<noteq> None" if "i \<in> plane_at im a n rows \<union> plane_at im b n rows" for i
      using that half [of i a 0] half [of i b 1] n by (auto simp: split_from_def)
    fix r c assume rc: "r < rows" "c < n"
    show "?g (unat (im_offset im a) + r * unat (im_pitch im a) + c) = src ! (unat soff + r * unat P + 2 * c)"
      using plane_at_cell(1) [OF a rc] dis rc(2) n(1) half_from_cell [of c "unat (im_pitch im a)" src "unat soff" "unat P" 0]
      unfolding split_from_def by auto
    show "?g (unat (im_offset im b) + r * unat (im_pitch im b) + c) = src ! (unat soff + r * unat P + 2 * c + 1)"
      using plane_at_cell(1) [OF b rc] rc(2) n(2) unfolding split_from_def by (simp only: if_True half_from_cell)
  qed
qed

lemma get_copy_planar:
  assumes planar: "planar_fourcc (im_fourcc im)" and "image_ok im" "h \<le> unat (im_height im)"
    and y: "plane_defined src 0 P (unat row) h" and uv: "plane_defined src (P * V) P (2 * (unat row div 2)) (h div 2)"
    and p0: "plane_ends (unat (im_offset im 0)) (unat (im_pitch im 0)) (unat row) h cap"
    and p12: "\<And>i. i = 1 \<or> i = 2 \<Longrightarrow> plane_ends (unat (im_offset im i)) (unat (im_pitch im i)) (unat row div 2) (h div 2) cap"
    and dst: "init_prefix cap dst" "cap < 2 ^ 64"
  obtains data where "obind (copy_rows h 0 (unat row) src 0 P (im_offset im 0) (im_pitch im 0) dst)
      (split_rows (h div 2) 0 (unat row div 2) src (P * V) P (im_offset im (u_plane im)) (im_pitch im (u_plane im))
         (im_offset im (v_plane im)) (im_pitch im (v_plane im))) = Ok data"
    "init_prefix cap data" "pictured im data (unat P) (unat (P * V)) (unat row) (chroma_row im row) h src"
proof -
  let ?n = "unat row div 2" and ?u = "u_plane im" and ?v = "v_plane im"
  let ?cells = "\<lambda>i. plane_at im i ?n (h div 2)"
  have uv12: "?u = 1 \<and> ?v = 2 \<or> ?u = 2 \<and> ?v = 1" by (simp add: u_plane_def v_plane_def)
  then have pu: "plane_ends (unat (im_offset im ?u)) (unat (im_pitch im ?u)) ?n (h div 2) cap"
    and pv: "plane_ends (unat (im_offset im ?v)) (unat (im_pitch im ?v)) ?n (h div 2) cap" by (metis p12)+
  have le: "unat row \<le> unat (im_pitch im 0)" "?n \<le> unat (im_pitch im 1)" "cap \<le> length dst"
    using p0 p12 [of 1] dst(1) by (simp_all add: plane_ends_def init_prefix_def)
  note ap = image_planes_apart [OF assms(2,3) le(1,2), where k = "h div 2"]
  have dis: "?cells ?u \<inter> ?cells ?v = {}" using ap(3) [OF planar] uv12 by (metis Int_commute)
  have dis0: "plane_at im 0 (unat row) h \<inter> (?cells ?u \<union> ?cells ?v) = {}"
    unfolding Int_Un_distrib using ap(1) ap(2) [OF planar] uv12 by (metis Un_absorb)
  obtain m1 where m1: "copy_rows h 0 (unat row) src 0 P (im_offset im 0) (im_pitch im 0) dst = Ok m1"
      "wrote (plane_at im 0 (unat row) h)
         (copied_from src (unat (0 :: u64)) (unat P) (unat (im_offset im 0)) (unat (im_pitch im 0))) dst m1"
    by (rule copy_to_plane [OF y p0 le(3) dst(2)])
  have "cap \<le> length m1" using le(3) wrote_length [OF m1(2)] by simp
  then obtain m2 g where m2: "split_rows (h div 2) 0 ?n src (P * V) P (im_offset im ?u) (im_pitch im ?u) (im_offset im ?v) (im_pitch im ?v) m1 = Ok m2"
      "wrote (?cells ?u \<union> ?cells ?v) g m1 m2" "\<And>i. i \<in> ?cells ?u \<union> ?cells ?v \<Longrightarrow> g i \<noteq> None"
    and gu: "\<And>r c. r < h div 2 \<Longrightarrow> c < ?n \<Longrightarrow> g (unat (im_offset im ?u) + r * unat (im_pitch im ?u) + c) = src ! (unat (P * V) + r * unat P + 2 * c)"
    and gv: "\<And>r c. r < h div 2 \<Longrightarrow> c < ?n \<Longrightarrow> g (unat (im_offset im ?v) + r * unat (im_pitch im ?v) + c) = src ! (unat (P * V) + r * unat P + 2 * c + 1)"
    using split_to_planes [OF uv dis pu pv _ dst(2), of m1] by blast
  note t = two_writes [OF m1(2) m2(2) dis0 dst(1) copied_at_defined [OF y le(1)] m2(3)]
  have "image_luma im m2 r c = src ! (r * unat P + c)" if "r < h" "c < unat row" for r c
    using t(2) [OF _ _ plane_at_cell(1) [OF p0 that]] plane_at_cell(2) [OF p0 that] le that(2)
    by (simp add: image_luma_def copied_from_cell)
  moreover have "image_chroma im m2 r c = src ! (unat (P * V) + r * unat P + c)" if rc: "r < h div 2" "c < 2 * ?n" for r c
  proof -
    have c: "c div 2 < ?n" using rc(2) by simp
    note cu = plane_at_cell [OF pu rc(1) c] and cv = plane_at_cell [OF pv rc(1) c]
    have "m2 ! (unat (im_offset im ?u) + r * unat (im_pitch im ?u) + c div 2) = src ! (unat (P * V) + r * unat P + 2 * (c div 2))"
      "m2 ! (unat (im_offset im ?v) + r * unat (im_pitch im ?v) + c div 2) = src ! (unat (P * V) + r * unat P + 2 * (c div 2) + 1)"
      using t(3) [OF _ _ UnI1 [OF cu(1)]] t(3) [OF _ _ UnI2 [OF cv(1)]] cu(2) cv(2) le(3) gu [OF rc(1) c] gv [OF rc(1) c] by simp_all
    then show ?thesis using planar unfolding image_chroma_def Let_def by (cases "even c") (auto elim!: evenE oddE)
  qed
  ultimately show thesis using that [of m2] m1(1) m2(1) t(1) planar by (simp add: pictured_def chroma_row_def)
qed

lemma get_copy_ok:
  assumes s: "legal_size s" "image_layout_valid im (of_int (sf_width s)) row (of_int (sf_height s)) cap"
      "planar_fourcc (im_fourcc im) \<longrightarrow> row = of_int (sf_width s)"
    and im: "image_ok im" "nat (sf_height s) \<le> unat (im_height im)"
    and layout: "rk_nv12_layout_size P V = Some n" "unat row \<le> unat P" "nat (sf_height s) \<le> unat V"
    and src: "init_prefix k src" "unat n \<le> k" "k < 2 ^ 64" and dst: "init_prefix (unat cap) dst"
  obtains data where "get_copy im s row cap P V src dst = Ok data" "init_prefix (unat cap) data"
    "pictured im data (unat P) (unat (P * V)) (unat row) (chroma_row im row) (nat (sf_height s)) src"
proof -
  let ?h = "nat (sf_height s)"
  note planes = valid_planes [OF s(1-3)]
  have half: "nat (sf_height s div 2) = ?h div 2" and u: "ucast (of_int (sf_width s) :: u32) = (of_int (sf_width s) :: u64)"
    using s(1) picture_dims(5,7) [of s] by (simp_all add: legal_size_def)
  have le: "2 * (unat row div 2) \<le> unat P" using layout(2) by linarith
  note p = nv12_planes [OF layout] and p2 = nv12_planes(4) [OF layout(1) le layout(3)]
  have pre: "init_prefix (unat n) src" "init_prefix (unat (P * V)) src" "unat cap < 2 ^ 64" "unat n < 2 ^ 64" "unat (P * V) < 2 ^ 64"
    using src p(1,2) by (auto simp: init_prefix_def)
  have y: "plane_defined src 0 P (unat row) ?h" by (rule plane_defined_fits [of _ _ _ _ "unat (P * V)"]) (use p(3) pre in simp_all)
  obtain m0 where m0: "mem_write dst 0 (replicate (unat cap) 0) = Ok m0" "init_prefix (unat cap) m0" by (rule clear_ok [OF dst order_refl])
  show thesis
  proof (cases "planar_fourcc (im_fourcc im)")
    case False
    have uv: "plane_defined src (P * V) P (unat row) (?h div 2)" by (rule plane_defined_fits [OF p(4) pre(1,4)])
    show thesis
      by (rule get_copy_semiplanar [OF False im y uv planes(1) planes(2) [OF False] m0(2) pre(3)])
         (use False m0(1) in \<open>auto intro!: that simp: get_copy_def Let_def half\<close>)
  next
    case True
    have w: "unat ((of_int (sf_width s) :: u64) div 2) = unat row div 2" "unat (of_int (sf_width s) :: u64) = unat row"
      using s(3) True by (simp_all add: unat_div)
    have uv: "plane_defined src (P * V) P (2 * (unat row div 2)) (?h div 2)" by (rule plane_defined_fits [OF p2 pre(1,4)])
    show thesis
      by (rule get_copy_planar [OF True im y uv planes(1) planes(3) [OF True] m0(2) pre(3)])
         (use True m0(1) w in \<open>auto intro!: that simp: get_copy_def Let_def half u\<close>)
  qed
qed

section \<open>The bodies of the two calls\<close>

definition sample :: "SurfaceObject \<Rightarrow> u64" where
  "sample s = (if sf_10bit s then 2 else 1)"

definition row_bytes :: "SurfaceObject \<Rightarrow> u64" where
  "row_bytes s = of_int (sf_width s) * sample s"

definition pitch_bytes :: "SurfaceObject \<Rightarrow> u64" where
  "pitch_bytes s = of_int (sf_hstride s) * sample s"

definition stride_rows :: "SurfaceObject \<Rightarrow> u64" where
  "stride_rows s = of_int (sf_vstride s)"

text \<open>The picture of the surface in the memory \<open>bytes\<close> is that of the image with contents \<open>data\<close>.\<close>

definition same_picture :: "SurfaceObject \<Rightarrow> RKImage \<Rightarrow> mem \<Rightarrow> mem \<Rightarrow> bool" where
  "same_picture s im data bytes \<longleftrightarrow>
     pictured im data (unat (pitch_bytes s)) (unat (pitch_bytes s * stride_rows s)) (unat (row_bytes s)) (chroma_row im (row_bytes s))
       (nat (sf_height s)) bytes"

lemma surface_picture:
  assumes "surface_ok True mem s"
  shows "legal_size s" "0 < unat (row_bytes s)" "unat (row_bytes s) = nat (sf_width s) * (if sf_10bit s then 2 else 1)"
    "nat (sf_height s) \<le> unat (stride_rows s)"
    "ucast (of_int (sf_width s) :: u32) = (of_int (sf_width s) :: u64)" "sf_vstride s \<noteq> 0"
proof -
  show l: "legal_size s" using assms by (simp add: surface_ok_def legal_size_def RK_MAX_WIDTH_def RK_MAX_HEIGHT_def)
  have w: "unat (of_int (sf_width s) :: u64) = nat (sf_width s)" using l picture_dims(1) [of s] by (simp add: legal_size_def)
  show row: "unat (row_bytes s) = nat (sf_width s) * (if sf_10bit s then 2 else 1)"
    using w l by (auto simp: row_bytes_def sample_def legal_size_def unat_mult_no_wrap)
  show "0 < unat (row_bytes s)" unfolding row using l by (simp add: legal_size_def)
  have v: "sf_height s \<le> sf_vstride s" "sf_vstride s < 2 ^ 31" "0 < sf_height s"
    using assms by (simp_all add: surface_ok_def c_int_def)
  then have "unat (of_int (sf_vstride s) :: u64) = nat (sf_vstride s)"
    by (simp add: unat_eq_nat_uint uint_word_of_int_eq take_bit_int_eq_self)
  with v show "nat (sf_height s) \<le> unat (stride_rows s)" "sf_vstride s \<noteq> 0" by (simp_all add: stride_rows_def)
  show "ucast (of_int (sf_width s) :: u32) = (of_int (sf_width s) :: u64)" using l picture_dims(7) [of s] by (simp add: legal_size_def)
qed

text \<open>All guards of \<open>rk_PutImage\<close> behind the acquisition.\<close>

definition put_passes :: "copy_env \<Rightarrow> put_rect \<Rightarrow> SurfaceObject \<Rightarrow> RKImage \<Rightarrow> RKBuffer \<Rightarrow> mpp_memory \<Rightarrow> bool" where
  "put_passes e a s im b m \<longleftrightarrow> sf_import_buf s = None \<and> put_full_frame a im s \<and> im_fourcc im = sf_fourcc s \<and>
     \<not> (planar_fourcc (im_fourcc im) \<and> sf_10bit s) \<and>
     image_layout_valid im (of_int (sf_width s)) (row_bytes s) (of_int (sf_height s)) (b_capacity b) \<and>
     row_bytes s \<le> pitch_bytes s \<and> rk_nv12_layout_size (pitch_bytes s) (stride_rows s) \<noteq> None \<and>
     the (rk_nv12_layout_size (pitch_bytes s) (stride_rows s)) \<le> mb_size m \<and> im_offset im 0 \<le> b_capacity b \<and>
     0 \<le> mb_fd m \<and> mb_ptr m \<and> cp_start e"

lemma put_image_eq:
  assumes "sf_priv_buf s = Some q" and "sd_mem d q = Some m"
  shows "put_image e a s im b d = (if put_passes e a s im b m
    then obind (put_copy im s (row_bytes s) (the (rk_nv12_layout_size (pitch_bytes s) (stride_rows s))) (pitch_bytes s) (stride_rows s)
        (b_data b) (mb_bytes m)) (\<lambda>bytes.
      Ok (if cp_end e then Inr () else Inl VA_STATUS_ERROR_OPERATION_FAILED,
        mem_set q bytes (sd_sync ([Ev_Sync_Start (mb_fd m)] @ (if cp_end e then [Ev_Sync_End (mb_fd m)] else [])) d)))
    else Ok (Inl VA_STATUS_ERROR_OPERATION_FAILED, d))"
proof -
  have sync: "sd_sync [Ev_Sync_End (mb_fd m)] (mem_set q bytes (sd_sync [Ev_Sync_Start (mb_fd m)] d)) =
      mem_set q bytes (sd_sync [Ev_Sync_Start (mb_fd m), Ev_Sync_End (mb_fd m)] d)" for bytes
    using assms(2) by (simp add: mem_set_def sd_sync_def)
  define g1 where "g1 \<longleftrightarrow> sf_import_buf s \<noteq> None \<or> \<not> put_full_frame a im s \<or> im_fourcc im \<noteq> sf_fourcc s \<or>
      (planar_fourcc (im_fourcc im) \<and> sf_10bit s) \<or>
      \<not> image_layout_valid im (of_int (sf_width s)) (row_bytes s) (of_int (sf_height s)) (b_capacity b)"
  define g2 where "g2 \<longleftrightarrow> pitch_bytes s < row_bytes s \<or> rk_nv12_layout_size (pitch_bytes s) (stride_rows s) = None \<or>
      the (rk_nv12_layout_size (pitch_bytes s) (stride_rows s)) > mb_size m \<or> im_offset im 0 > b_capacity b \<or>
      mb_fd m < 0 \<or> \<not> mb_ptr m \<or> \<not> cp_start e"
  have "put_passes e a s im b m \<longleftrightarrow> \<not> g1 \<and> \<not> g2"
    unfolding put_passes_def g1_def g2_def de_Morgan_disj not_not not_less by blast
  moreover have "put_image e a s im b d = (if g1 then Ok (Inl VA_STATUS_ERROR_OPERATION_FAILED, d)
      else if g2 then Ok (Inl VA_STATUS_ERROR_OPERATION_FAILED, d)
      else obind (put_copy im s (row_bytes s) (the (rk_nv12_layout_size (pitch_bytes s) (stride_rows s))) (pitch_bytes s) (stride_rows s)
          (b_data b) (mb_bytes m)) (\<lambda>bytes.
        let d = mem_set q bytes (sd_sync [Ev_Sync_Start (mb_fd m)] d)
        in Ok (if cp_end e then (Inr (), sd_sync [Ev_Sync_End (mb_fd m)] d) else (Inl VA_STATUS_ERROR_OPERATION_FAILED, d))))"
    unfolding put_image_def Let_def g1_def g2_def row_bytes_def pitch_bytes_def stride_rows_def sample_def
    using assms by (simp add: mem_at_def cong: if_cong)
  ultimately show ?thesis by (cases g1; cases g2; cases "cp_end e") (simp_all add: sync Let_def)
qed

lemma put_image_cases:
  assumes "accounts {} {#} d" and "sd_surf d t = Some s" and "buf_wf b" "b_derived b = None"
  obtains q m where "sf_priv_buf s = Some q" "sd_mem d q = Some m" "mem_ok m"
    "\<not> put_passes e a s im b m \<Longrightarrow> put_image e a s im b d = Ok (Inl VA_STATUS_ERROR_OPERATION_FAILED, d)"
    "put_passes e a s im b m \<Longrightarrow> \<exists>bytes evs. init_prefix (unat (mb_size m)) bytes \<and> same_picture s im (b_data b) bytes \<and>
       put_image e a s im b d = Ok (if cp_end e then Inr () else Inl VA_STATUS_ERROR_OPERATION_FAILED, mem_set q bytes (sd_sync evs d))"
proof -
  have ok: "surface_ok True (sd_mem d) s" using accounts_surface [OF assms(1,2)] by simp
  note f = surface_picture [OF ok]
  obtain q where q: "sf_priv_buf s = Some q" using ok by (auto simp: surface_ok_def)
  obtain m where m: "sd_mem d q = Some m" "mem_ok m"
    using accounts_live [OF assms(1,2), of q] q by (force simp: surface_held_def)
  have "\<exists>bytes evs. init_prefix (unat (mb_size m)) bytes \<and> same_picture s im (b_data b) bytes \<and>
       put_image e a s im b d = Ok (if cp_end e then Inr () else Inl VA_STATUS_ERROR_OPERATION_FAILED, mem_set q bytes (sd_sync evs d))"
    if pass: "put_passes e a s im b m"
  proof -
    from pass obtain n where n: "rk_nv12_layout_size (pitch_bytes s) (stride_rows s) = Some n" "n \<le> mb_size m" by (auto simp: put_passes_def)
    have p: "unat (row_bytes s) \<le> unat (pitch_bytes s)" "unat n \<le> unat (mb_size m)" "unat (mb_size m) < 2 ^ 64"
        "planar_fourcc (im_fourcc im) \<longrightarrow> row_bytes s = of_int (sf_width s)"
        "image_layout_valid im (of_int (sf_width s)) (row_bytes s) (of_int (sf_height s)) (b_capacity b)"
      using pass n by (auto simp: put_passes_def word_le_nat_alt [symmetric] row_bytes_def sample_def)
    have src: "init_prefix (unat (b_capacity b)) (b_data b)" using assms(3,4) by (simp add: buf_wf_def)
    obtain bytes where "put_copy im s (row_bytes s) n (pitch_bytes s) (stride_rows s) (b_data b) (mb_bytes m) = Ok bytes"
        "init_prefix (unat (mb_size m)) bytes" "same_picture s im (b_data b) bytes" unfolding same_picture_def
      by (rule put_copy_ok [OF f(1) p(5,4) f(2) n(1) p(1) f(4) src m(2) [unfolded mem_ok_def] p(2,3)])
    with pass n show ?thesis unfolding put_image_eq [OF q m(1)] by (auto intro!: exI)
  qed
  with that [OF q m] show thesis by (simp add: put_image_eq [OF q m(1)])
qed

text \<open>The pitch and the guards of \<open>rk_GetImage\<close>.\<close>

definition get_pitch :: "SurfaceObject \<Rightarrow> u64" where
  "get_pitch s = of_int (if sf_hstride s \<noteq> 0 then sf_hstride s else sf_width s) * sample s"

definition get_passes :: "copy_env \<Rightarrow> SurfaceObject \<Rightarrow> RKImage \<Rightarrow> RKBuffer \<Rightarrow> mpp_memory \<Rightarrow> bool" where
  "get_passes e s im b m \<longleftrightarrow> \<not> sf_imported_rgb s \<and> im_fourcc im = sf_fourcc s \<and> \<not> (planar_fourcc (im_fourcc im) \<and> sf_10bit s) \<and>
     row_bytes s \<le> get_pitch s \<and> rk_nv12_layout_size (get_pitch s) (stride_rows s) \<noteq> None \<and>
     the (rk_nv12_layout_size (get_pitch s) (stride_rows s)) \<le> mb_size m \<and>
     image_layout_valid im (of_int (sf_width s)) (row_bytes s) (of_int (sf_height s)) (b_capacity b) \<and> 0 \<le> mb_fd m \<and> cp_start e"

lemma get_move_eq:
  assumes "surface_ok True mem s"
  shows "\<exists>evs. get_move e s im b m d = (if get_passes e s im b m \<and> mb_ptr m
    then obind (get_copy im s (row_bytes s) (b_capacity b) (get_pitch s) (stride_rows s) (mb_bytes m) (b_data b)) (\<lambda>bytes.
      Ok (if cp_end e then Inr () else Inl VA_STATUS_ERROR_OPERATION_FAILED, b\<lparr>b_data := bytes\<rparr>, sd_sync evs d))
    else Ok (Inl VA_STATUS_ERROR_OPERATION_FAILED, b, sd_sync evs d))"
proof -
  note f = surface_picture(5,6) [OF assms]
  let ?size = "rk_nv12_layout_size (get_pitch s) (stride_rows s)"
  define g1 where "g1 \<longleftrightarrow> sf_imported_rgb s \<or> im_fourcc im \<noteq> sf_fourcc s \<or> (planar_fourcc (im_fourcc im) \<and> sf_10bit s) \<or>
      get_pitch s < row_bytes s \<or> ?size = None \<or> the ?size > mb_size m \<or>
      \<not> image_layout_valid im (of_int (sf_width s)) (row_bytes s) (of_int (sf_height s)) (b_capacity b)"
  define g2 where "g2 \<longleftrightarrow> mb_fd m < 0 \<or> \<not> cp_start e"
  have pass: "get_passes e s im b m \<longleftrightarrow> \<not> g1 \<and> \<not> g2"
    unfolding get_passes_def g1_def g2_def de_Morgan_disj not_not not_less by blast
  have eq: "get_move e s im b m d = (if g1 then Ok (Inl VA_STATUS_ERROR_OPERATION_FAILED, b, d)
      else if g2 then Ok (Inl VA_STATUS_ERROR_OPERATION_FAILED, b, d)
      else if \<not> mb_ptr m
      then Ok (Inl VA_STATUS_ERROR_OPERATION_FAILED, b, sd_sync ([Ev_Sync_Start (mb_fd m)] @ (if cp_end e then [Ev_Sync_End (mb_fd m)] else [])) d)
      else obind (get_copy im s (row_bytes s) (b_capacity b) (get_pitch s) (stride_rows s) (mb_bytes m) (b_data b)) (\<lambda>bytes.
        let d = sd_sync [Ev_Sync_Start (mb_fd m)] d; b = b\<lparr>b_data := bytes\<rparr>
        in Ok (if cp_end e then (Inr (), b, sd_sync [Ev_Sync_End (mb_fd m)] d) else (Inl VA_STATUS_ERROR_OPERATION_FAILED, b, d))))"
    unfolding get_move_def Let_def g1_def g2_def row_bytes_def get_pitch_def stride_rows_def sample_def f(1)
    using f(2) by (simp cong: if_cong)
  have Nil: "sd_sync [] d = d" by (simp add: sd_sync_def)
  have two: "sd_sync [Ev_Sync_End fd] (sd_sync [Ev_Sync_Start fd] d) = sd_sync [Ev_Sync_Start fd, Ev_Sync_End fd] d" for fd
    by (simp add: sd_sync_def)
  show ?thesis
  proof (cases "g1 \<or> g2")
    case True
    then show ?thesis unfolding eq pass by (intro exI [of _ "[]"]) (auto simp: Nil)
  next
    case False
    then show ?thesis unfolding eq pass
      by (intro exI [of _ "[Ev_Sync_Start (mb_fd m)] @ (if cp_end e then [Ev_Sync_End (mb_fd m)] else [])"]) (simp add: two Let_def)
  qed
qed

lemma get_move_ok:
  assumes "surface_ok True mem s" and "mem_ok m" and "buf_wf b" "b_derived b = None" and "image_ok im" "nat (sf_height s) \<le> unat (im_height im)"
  obtains r b' evs where "get_move e s im b m d = Ok (r, b', sd_sync evs d)" "buf_keeps True b b'" "b_derived b' = None"
    "get_passes e s im b m \<Longrightarrow> mb_ptr m \<Longrightarrow> cp_end e \<Longrightarrow> r = Inr () \<and> pictured im (b_data b') (unat (get_pitch s))
       (unat (get_pitch s * stride_rows s)) (unat (row_bytes s)) (chroma_row im (row_bytes s)) (nat (sf_height s)) (mb_bytes m)"
proof -
  note f = surface_picture [OF assms(1)]
  from get_move_eq [OF assms(1)] obtain evs where eq: "get_move e s im b m d = (if get_passes e s im b m \<and> mb_ptr m
    then obind (get_copy im s (row_bytes s) (b_capacity b) (get_pitch s) (stride_rows s) (mb_bytes m) (b_data b)) (\<lambda>bytes.
      Ok (if cp_end e then Inr () else Inl VA_STATUS_ERROR_OPERATION_FAILED, b\<lparr>b_data := bytes\<rparr>, sd_sync evs d))
    else Ok (Inl VA_STATUS_ERROR_OPERATION_FAILED, b, sd_sync evs d))" by blast
  show thesis
  proof (cases "get_passes e s im b m \<and> mb_ptr m")
    case False
    show thesis by (rule that [of "Inl VA_STATUS_ERROR_OPERATION_FAILED" b evs]) (use False eq assms(4) in auto)
  next
    case True
    then obtain n where n: "rk_nv12_layout_size (get_pitch s) (stride_rows s) = Some n" "n \<le> mb_size m" by (auto simp: get_passes_def)
    have p: "unat (row_bytes s) \<le> unat (get_pitch s)" "unat n \<le> unat (mb_size m)" "unat (mb_size m) < 2 ^ 64"
        "planar_fourcc (im_fourcc im) \<longrightarrow> row_bytes s = of_int (sf_width s)"
        "image_layout_valid im (of_int (sf_width s)) (row_bytes s) (of_int (sf_height s)) (b_capacity b)"
      using True n by (auto simp: get_passes_def word_le_nat_alt [symmetric] row_bytes_def sample_def)
    have dst: "init_prefix (unat (b_capacity b)) (b_data b)" using assms(3,4) by (simp add: buf_wf_def)
    obtain data where data: "get_copy im s (row_bytes s) (b_capacity b) (get_pitch s) (stride_rows s) (mb_bytes m) (b_data b) = Ok data"
        "init_prefix (unat (b_capacity b)) data" "pictured im data (unat (get_pitch s)) (unat (get_pitch s * stride_rows s))
          (unat (row_bytes s)) (chroma_row im (row_bytes s)) (nat (sf_height s)) (mb_bytes m)"
      by (rule get_copy_ok [OF f(1) p(5,4) assms(5,6) n(1) p(1) f(4) assms(2) [unfolded mem_ok_def] p(2,3) dst])
    have "plane_ends (unat (im_offset im 0)) (unat (im_pitch im 0)) (unat (row_bytes s)) (nat (sf_height s)) (unat (b_capacity b))"
      by (rule valid_planes(1) [OF f(1) p(5,4)])
    then have "0 < unat (b_capacity b)" using f(1,2) by (auto simp: plane_ends_def legal_size_def)
    with data(2) have "data \<noteq> []" by (auto simp: init_prefix_def)
    then have "buf_keeps True b (b\<lparr>b_data := data\<rparr>)"
      using data(2) assms(4) by (auto simp: buf_keeps_def buf_wf_def b_surface_def)
    then show thesis using that [of _ "b\<lparr>b_data := data\<rparr>" evs] True eq data(1,3) assms(4) by auto
  qed
qed

lemma get_source_held: "get_source s = Some q \<Longrightarrow> Some q \<in> res_buf ` set (surface_held s)"
  by (force simp: get_source_def active_buffer_def surface_held_def split: if_splits option.splits)

lemma get_full_frame_height:
  assumes "legal_size s" and "get_full_frame a im s"
  shows "nat (sf_height s) \<le> unat (im_height im)"
  using assms picture_dims(3) [of s] by (auto simp: get_full_frame_def legal_size_def word_le_nat_alt split: prod.splits)

lemma call_keeps_trans:
  assumes "call_keeps d d1" and "call_keeps d1 d2"
  shows "call_keeps d d2"
proof -
  have "mem_like (sd_mem d) (sd_mem d2)"
    unfolding mem_like_def
  proof
    fix q
    have "rel_option same_buffer (sd_mem d q) (sd_mem d1 q)" "rel_option same_buffer (sd_mem d1 q) (sd_mem d2 q)"
      using assms by (simp_all add: call_keeps_def mem_like_def)
    then show "rel_option same_buffer (sd_mem d q) (sd_mem d2 q)" by (auto elim!: option.rel_cases simp: same_buffer_def)
  qed
  with assms show ?thesis by (simp add: call_keeps_def)
qed

lemma get_image_ok:
  assumes acc: "accounts {} {#} d" "sd_surf d t = Some s" and b: "buf_wf b" "b_derived b = None" and im: "image_ok im"
  obtains r b' d' where "get_image e a s im b d = Ok (r, b', d')" "buf_keeps True b b'" "b_derived b' = None" "call_keeps d d'"
    "\<And>q m. \<not> sf_imported_multiplane s \<Longrightarrow> get_source s = Some q \<Longrightarrow> sd_mem d q = Some m \<Longrightarrow> get_full_frame a im s \<Longrightarrow>
       get_passes e s im b m \<Longrightarrow> mb_ptr m \<Longrightarrow> cp_end e \<Longrightarrow> r = Inr () \<and> pictured im (b_data b') (unat (get_pitch s))
         (unat (get_pitch s * stride_rows s)) (unat (row_bytes s)) (chroma_row im (row_bytes s)) (nat (sf_height s)) (mb_bytes m)"
proof -
  obtain norm d1 where d1: "(if sf_imported_multiplane s then rk_surface_normalize_multiplane_import (cp_norm e) s d else Ok (True, d)) = Ok (norm, d1)"
      "call_keeps d d1" "\<not> sf_imported_multiplane s \<Longrightarrow> norm \<and> d1 = d"
  proof (cases "sf_imported_multiplane s")
    case True
    obtain n d1 where "rk_surface_normalize_multiplane_import (cp_norm e) s d = Ok (n, d1)" "call_keeps d d1" by (rule normalize_ok [OF acc])
    with True that [of n d1] show thesis by simp
  qed (use that [of True d] in simp)
  show thesis
  proof (cases "\<not> norm \<or> get_source s = None \<or> \<not> get_full_frame a im s")
    case True
    show thesis by (rule that [of "Inl VA_STATUS_ERROR_OPERATION_FAILED" b d1]) (use True d1 b(2) in \<open>auto simp: get_image_def\<close>)
  next
    case False
    then obtain q where q: "get_source s = Some q" by auto
    have acc1: "accounts {} {#} d1" "sd_surf d1 t = Some s" using call_keeps_accounts [OF d1(2) acc(1)] call_keeps_fields(5) [OF d1(2)] acc(2) by simp_all
    have ok: "surface_ok True (sd_mem d1) s" using accounts_surface [OF acc1] by simp
    obtain m where m: "sd_mem d1 q = Some m" "mem_ok m" using accounts_live [OF acc1 get_source_held [OF q]] by blast
    have h: "nat (sf_height s) \<le> unat (im_height im)" using get_full_frame_height [OF surface_picture(1) [OF ok]] False by blast
    obtain r b' evs where g: "get_move e s im b m d1 = Ok (r, b', sd_sync evs d1)" "buf_keeps True b b'" "b_derived b' = None"
        "get_passes e s im b m \<Longrightarrow> mb_ptr m \<Longrightarrow> cp_end e \<Longrightarrow> r = Inr () \<and> pictured im (b_data b') (unat (get_pitch s))
           (unat (get_pitch s * stride_rows s)) (unat (row_bytes s)) (chroma_row im (row_bytes s)) (nat (sf_height s)) (mb_bytes m)"
      using get_move_ok [OF ok m(2) b im h, of e d1] by blast
    show thesis
    proof (rule that [OF _ g(2,3) call_keeps_sync(1) [OF d1(2), of evs]])
      show "get_image e a s im b d = Ok (r, b', sd_sync evs d1)" using d1(1) False q m(1) g(1) by (simp add: get_image_def mem_at_def)
    qed (use g(4) m(1) q d1(3) in auto)
  qed
qed

lemma put_image_ok:
  assumes "accounts {} {#} d" and "sd_surf d t = Some s" and "buf_wf b" "b_derived b = None"
  shows "\<exists>r d'. put_image e a s im b d = Ok (r, d') \<and> call_keeps d d'"
proof (rule put_image_cases [OF assms, of e a im])
  fix q m assume q: "sd_mem d q = Some m"
    and no: "\<not> put_passes e a s im b m \<Longrightarrow> put_image e a s im b d = Ok (Inl VA_STATUS_ERROR_OPERATION_FAILED, d)"
    and yes: "put_passes e a s im b m \<Longrightarrow> \<exists>bytes evs. init_prefix (unat (mb_size m)) bytes \<and> same_picture s im (b_data b) bytes \<and>
       put_image e a s im b d = Ok (if cp_end e then Inr () else Inl VA_STATUS_ERROR_OPERATION_FAILED, mem_set q bytes (sd_sync evs d))"
  show ?thesis
  proof (cases "put_passes e a s im b m")
    case True
    from yes [OF this] obtain bytes evs where r: "init_prefix (unat (mb_size m)) bytes"
        "put_image e a s im b d = Ok (if cp_end e then Inr () else Inl VA_STATUS_ERROR_OPERATION_FAILED, mem_set q bytes (sd_sync evs d))" by blast
    have "call_keeps (sd_sync evs d) (mem_set q bytes (sd_sync evs d))" by (rule call_keeps_mem_set) (use q r(1) in simp_all)
    from call_keeps_sync(2) [OF this] r(2) show ?thesis by blast
  qed (use no in auto)
qed

end
