(* ===== verification/Image_Accounts.thy ===== *)
theory Image_Accounts
  imports Image_Copies
begin

unbundle bit_operations_syntax

text \<open>
  Who holds a reference to the buffer of an image: its identifier, and every image made of it. The
  accounts say that the reference counts of buffers and images are exactly that, plus the references
  in the hands of running functions, and that the buffer of an image is alive. Every step of the
  functions on images keeps them.
\<close>

section \<open>Accounts\<close>

definition named :: "RKObjectHeap \<Rightarrow> nat \<Rightarrow> nat" where
  "named h p = (if \<exists>i. heap_find h i = Some p then 1 else 0)"

definition image_count :: "(nat \<rightharpoonup> RKImage) \<Rightarrow> nat \<Rightarrow> nat" where
  "image_count img p = card {q. \<exists>im. img q = Some im \<and> im_buffer im = Some p}"

definition image_live :: "(nat \<rightharpoonup> RKBuffer) \<Rightarrow> RKImage \<Rightarrow> bool" where
  "image_live buf im \<longleftrightarrow> image_ok im \<and> (\<exists>p. im_buffer im = Some p \<and> buf p \<noteq> None)"

text \<open>\<open>E\<close> counts the references in the hands of a running function.\<close>

definition buffers_counted :: "(nat \<Rightarrow> nat) \<Rightarrow> IDriver \<Rightarrow> bool" where
  "buffers_counted E d \<longleftrightarrow> (\<forall>p b. d_buf (id_drv d) p = Some b \<longrightarrow> sd_surf (id_sd d) p = None \<and> id_img d p = None \<and> b_derived b = None \<and>
     unat (obj_refs (id_objs d) p) = named (d_buffer_heap (id_drv d)) p + image_count (id_img d) p + E p)"

definition images_counted :: "(nat \<Rightarrow> nat) \<Rightarrow> IDriver \<Rightarrow> bool" where
  "images_counted E d \<longleftrightarrow> (\<forall>q im. id_img d q = Some im \<longrightarrow> q < d_brk (id_drv d) \<and> sd_surf (id_sd d) q = None \<and>
     image_live (d_buf (id_drv d)) im \<and> unat (obj_refs (id_objs d) q) = named (id_image_heap d) q + E q)"

definition image_accounts :: "(nat \<Rightarrow> nat) \<Rightarrow> IDriver \<Rightarrow> bool" where
  "image_accounts E d \<longleftrightarrow> surf_inv (id_sd d) \<and> drv_inv (id_drv d) \<and> handles_ok (id_image_heap d) (id_img d) (obj_refs (id_objs d)) \<and>
     finite (dom (id_img d)) \<and> (\<forall>p \<ge> d_brk (id_drv d). E p = 0) \<and> buffers_counted E d \<and> images_counted E d"

lemma accounts_parts:
  assumes "image_accounts E d"
  shows "surf_inv (id_sd d)" "drv_inv (id_drv d)" "handles_ok (id_image_heap d) (id_img d) (obj_refs (id_objs d))"
    "finite (dom (id_img d))" "\<And>p. p \<ge> d_brk (id_drv d) \<Longrightarrow> E p = 0" "buffers_counted E d" "images_counted E d"
  using assms by (simp_all add: image_accounts_def)

lemma counted_buffer:
  assumes "image_accounts E d" and "d_buf (id_drv d) p = Some b"
  shows "p < d_brk (id_drv d)" "sd_surf (id_sd d) p = None" "id_img d p = None" "b_derived b = None" "buf_wf b"
    "unat (obj_refs (id_objs d) p) = named (d_buffer_heap (id_drv d)) p + image_count (id_img d) p + E p"
  using assms by (auto simp: image_accounts_def buffers_counted_def drv_inv_def store_ok_def)

lemma counted_image:
  assumes "image_accounts E d" and "id_img d q = Some im"
  shows "q < d_brk (id_drv d)" "sd_surf (id_sd d) q = None" "image_ok im" "d_buf (id_drv d) q = None"
    "unat (obj_refs (id_objs d) q) = named (id_image_heap d) q + E q"
    "\<exists>p b. im_buffer im = Some p \<and> d_buf (id_drv d) p = Some b"
proof -
  show "d_buf (id_drv d) q = None" using assms counted_buffer(3) [OF assms(1), of q] by (cases "d_buf (id_drv d) q") auto
qed (use assms in \<open>auto simp: image_accounts_def images_counted_def image_live_def\<close>)

lemma accounts_surface_addr: "surf_inv d \<Longrightarrow> sd_surf d p \<noteq> None \<Longrightarrow> p < sd_brk d"
  by (auto simp: surf_inv_def accounts_def)

text \<open>Surfaces do not depend on the other objects.\<close>

lemma surf_inv_frame:
  assumes "surf_inv d" and "sd_surf d' = sd_surf d" "sd_surface_heap d' = sd_surface_heap d" "sd_mem d' = sd_mem d" "sd_open d' = sd_open d"
    and "sd_brk d \<le> sd_brk d'" and "\<And>p. sd_surf d p \<noteq> None \<Longrightarrow> obj_refs (sd_objs d') p = obj_refs (sd_objs d) p"
  shows "surf_inv d'"
proof -
  have h: "handles_ok (sd_surface_heap d) (sd_surf d) (obj_refs (sd_objs d))" using assms(1) by (simp add: surf_inv_def)
  have "handles_ok (sd_surface_heap d') (sd_surf d') (obj_refs (sd_objs d'))"
    unfolding assms(2,3) by (rule handles_ok_frame [OF h]) (use assms(7) in simp)
  moreover have "accounts {} {#} d'" using assms(1,6) unfolding surf_inv_def accounts_def mems_ok_def assms(2,4,5) by fastforce
  ultimately show ?thesis by (simp add: surf_inv_def)
qed

lemma id_set_fields [simp]:
  "id_drv (id_set_drv drv d) = drv" "id_img (id_set_drv drv d) = id_img d" "id_image_heap (id_set_drv drv d) = id_image_heap d"
  "sd_surf (id_sd (id_set_drv drv d)) = sd_surf (id_sd d)" "sd_surface_heap (id_sd (id_set_drv drv d)) = sd_surface_heap (id_sd d)"
  "sd_mem (id_sd (id_set_drv drv d)) = sd_mem (id_sd d)" "sd_open (id_sd (id_set_drv drv d)) = sd_open (id_sd d)"
  "id_set_drv drv (id_set_drv drv' d) = id_set_drv drv d" "id_set_drv (id_drv d) d = d"
  by (simp_all add: id_set_drv_def)

lemma id_set_objs_drv: "id_set_objs objs d = id_set_drv ((id_drv d)\<lparr>d_objs := objs\<rparr>) d"
  by (simp add: id_set_objs_def id_set_drv_def sd_set_objs_def)

text \<open>Changing one reference count, of a buffer or of an image.\<close>

lemma accounts_refs:
  assumes "image_accounts E d" and "d_buf (id_drv d) p \<noteq> None \<or> id_img d p \<noteq> None"
    and "\<And>q. q \<noteq> p \<Longrightarrow> obj_refs objs q = obj_refs (id_objs d) q" and "obj_refs objs p \<noteq> 0"
    and "unat (obj_refs objs p) + E p = unat (obj_refs (id_objs d) p) + k"
  shows "image_accounts (E(p := k)) (id_set_objs objs d)"
proof -
  note a = accounts_parts [OF assms(1)]
  have p: "p < d_brk (id_drv d)" "sd_surf (id_sd d) p = None"
    using assms(2) counted_buffer(1,2) [OF assms(1)] counted_image(1,2) [OF assms(1)] by auto
  have refs: "obj_refs (id_objs d) q \<noteq> 0 \<Longrightarrow> obj_refs objs q \<noteq> 0" for q using assms(3,4) by metis
  have "surf_inv (id_sd (id_set_objs objs d))"
    unfolding id_set_objs_drv by (rule surf_inv_frame [OF a(1)]) (use assms(3) p(2) in \<open>simp_all, metis option.distinct(1)\<close>)
  moreover have "drv_inv ((id_drv d)\<lparr>d_objs := objs\<rparr>)"
    using a(2) refs by (auto simp: drv_inv_def intro: handles_ok_frame)
  moreover have "handles_ok (id_image_heap d) (id_img d) (obj_refs objs)" using a(3) refs by (auto intro: handles_ok_frame)
  moreover have "buffers_counted (E(p := k)) (id_set_objs objs d)"
    using a(6) assms(3,5) unfolding buffers_counted_def id_set_objs_drv by fastforce
  moreover have "images_counted (E(p := k)) (id_set_objs objs d)"
    using a(7) assms(3,5) unfolding images_counted_def id_set_objs_drv by fastforce
  ultimately show ?thesis using a(4,5) p(1) by (simp add: image_accounts_def id_set_objs_drv)
qed

section \<open>References to buffers\<close>

lemma named_remove:
  assumes "handles_ok h m refs" and "heap_find h' = (heap_find h)(i := None)"
  shows "named h' q = (if heap_find h i = Some q then 0 else named h q)"
proof (cases "heap_find h i = Some q")
  case True
  then have "heap_find h' j \<noteq> Some q" for j using assms by (auto simp: handles_ok_def)
  with True show ?thesis by (simp add: named_def)
next
  case False
  then have "heap_find h' j = Some q \<longleftrightarrow> heap_find h j = Some q" for j using assms(2) by (cases "j = i") simp_all
  with False show ?thesis by (simp add: named_def)
qed

lemma named_insert:
  assumes "heap_find h i = None" and "heap_find h' = (heap_find h)(i \<mapsto> p)"
  shows "named h' q = (if q = p then 1 else named h q)"
proof -
  have "heap_find h' j = Some q \<longleftrightarrow> (if j = i then q = p else heap_find h j = Some q)" for j using assms(2) by auto
  moreover have "heap_find h j = Some q \<Longrightarrow> j \<noteq> i" for j using assms(1) by auto
  ultimately show ?thesis unfolding named_def by metis
qed

lemma named_pos: "heap_find h i = Some p \<Longrightarrow> named h p = 1"
  by (auto simp: named_def)

lemma unref_refs:
  assumes "0 < unat (obj_refs s p)"
  shows "unat (obj_refs (rk_object_unref p s) p) = unat (obj_refs s p) - 1"
  using assms by (simp add: rk_object_unref_def Let_def unat_minus_one unat_gt_0)

text \<open>A reference that is not the last one is given back.\<close>

lemma accounts_unref_more:
  assumes "image_accounts E d" and "d_buf (id_drv d) p \<noteq> None \<or> id_img d p \<noteq> None" and "0 < E p" and "1 < unat (obj_refs (id_objs d) p)"
  shows "image_accounts (E(p := E p - 1)) (id_set_objs (rk_object_unref p (id_objs d)) d)"
proof (rule accounts_refs [OF assms(1,2) rk_object_unref_frame])
  have "unat (obj_refs (rk_object_unref p (id_objs d)) p) = unat (obj_refs (id_objs d) p) - 1" using assms(4) by (intro unref_refs) simp
  with assms(3,4) show "unat (obj_refs (rk_object_unref p (id_objs d)) p) + E p = unat (obj_refs (id_objs d) p) + (E p - 1)"
    "obj_refs (rk_object_unref p (id_objs d)) p \<noteq> 0" by auto
qed simp

lemma buffer_unref_freed:
  "d_buf d p = Some b \<Longrightarrow> b_derived b = None \<Longrightarrow> obj_refs (d_objs d) p = 1 \<Longrightarrow>
     \<exists>evs. buffer_unref p d = Ok ((sys_log evs d)\<lparr>d_objs := rk_object_unref p (d_objs d), d_buf := (d_buf d)(p := None)\<rparr>)"
  by (rule exI [of _ "if b_acquired_fd b \<ge> 0 then [Ev_Close (b_acquired_fd b)] else []"])
     (simp add: buffer_unref_def buffer_destroy_def Let_def sys_log_def)

lemma accounts_free:
  fixes evs
  assumes "image_accounts E d" and "d_buf (id_drv d) p = Some b" and "E p = 1" and "obj_refs (id_objs d) p = 1"
  defines "drv \<equiv> (sys_log evs (id_drv d))\<lparr>d_objs := rk_object_unref p (id_objs d), d_buf := (d_buf (id_drv d))(p := None)\<rparr>"
  shows "image_accounts (E(p := 0)) (id_set_drv drv d)"
proof -
  note a = accounts_parts [OF assms(1)] and b = counted_buffer [OF assms(1,2)]
  have z: "named (d_buffer_heap (id_drv d)) p = 0" "image_count (id_img d) p = 0" using b(6) assms(3,4) by simp_all
  have un: "heap_find (d_buffer_heap (id_drv d)) i \<noteq> Some p" for i using z(1) named_pos by fastforce
  have none: "im_buffer im \<noteq> Some p" if "id_img d q = Some im" for q im
  proof
    assume "im_buffer im = Some p"
    then have "{q. \<exists>im. id_img d q = Some im \<and> im_buffer im = Some p} \<noteq> {}" using that by blast
    moreover have "finite {q. \<exists>im. id_img d q = Some im \<and> im_buffer im = Some p}" by (rule finite_subset [OF _ a(4)]) auto
    ultimately show False using z(2) by (auto simp: image_count_def)
  qed
  have refs: "q \<noteq> p \<Longrightarrow> obj_refs (rk_object_unref p (id_objs d)) q = obj_refs (id_objs d) q" for q by (simp add: rk_object_unref_frame)
  have "surf_inv (id_sd (id_set_drv drv d))"
    by (rule surf_inv_frame [OF a(1)]) (use b(2) refs in \<open>simp_all add: drv_def, metis option.distinct(1)\<close>)
  moreover have "drv_inv drv"
    using a(2) un refs store_ok_weaken(1) unfolding drv_inv_def drv_def handles_ok_def by (auto simp: refs)
  moreover have "handles_ok (id_image_heap d) (id_img d) (obj_refs (d_objs drv))"
    using a(3) refs b(3) by (auto simp: drv_def intro!: handles_ok_frame [OF a(3)]) (metis option.distinct(1))
  moreover have "buffers_counted (E(p := 0)) (id_set_drv drv d)"
    using a(6) refs unfolding buffers_counted_def by (auto simp: drv_def)
  moreover have "images_counted (E(p := 0)) (id_set_drv drv d)"
    unfolding images_counted_def
  proof (intro allI impI)
    fix q im assume q: "id_img (id_set_drv drv d) q = Some im"
    then have "q \<noteq> p" using b(3) by auto
    moreover from q counted_image(3,6) [OF assms(1)] none have "image_live (d_buf drv) im" by (fastforce simp: image_live_def drv_def)
    ultimately show "q < d_brk (id_drv (id_set_drv drv d)) \<and> sd_surf (id_sd (id_set_drv drv d)) q = None \<and>
        image_live (d_buf (id_drv (id_set_drv drv d))) im \<and>
        unat (obj_refs (id_objs (id_set_drv drv d)) q) = named (id_image_heap (id_set_drv drv d)) q + (E(p := 0)) q"
      using q counted_image(1,2,5) [OF assms(1)] refs by (simp add: drv_def)
  qed
  ultimately show ?thesis using a(4,5) by (simp add: image_accounts_def drv_def)
qed

lemma ibuffer_unref_ok:
  assumes "image_accounts E d" and "d_buf (id_drv d) p = Some b" and "0 < E p"
  obtains drv where "ibuffer_unref p d = Ok (id_set_drv drv d)" "image_accounts (E(p := E p - 1)) (id_set_drv drv d)"
    "d_buffer_heap drv = d_buffer_heap (id_drv d)" "d_brk drv = d_brk (id_drv d)" "\<And>q. q \<noteq> p \<Longrightarrow> d_buf drv q = d_buf (id_drv d) q"
    "\<And>q. q \<noteq> p \<Longrightarrow> obj_refs (d_objs drv) q = obj_refs (id_objs d) q"
proof -
  note b = counted_buffer [OF assms(1,2)]
  have surf: "b_surface b = None" using b(4) by (simp add: b_surface_def)
  show thesis
  proof (cases "obj_refs (id_objs d) p = 1")
    case True
    then have "E p = 1" using b(6) assms(3) by simp
    obtain evs where e: "buffer_unref p (id_drv d) =
        Ok ((sys_log evs (id_drv d))\<lparr>d_objs := rk_object_unref p (id_objs d), d_buf := (d_buf (id_drv d))(p := None)\<rparr>)"
      using buffer_unref_freed [OF assms(2) b(4) True] by blast
    from that [of "(sys_log evs (id_drv d))\<lparr>d_objs := rk_object_unref p (id_objs d), d_buf := (d_buf (id_drv d))(p := None)\<rparr>"]
      accounts_free [OF assms(1,2) \<open>E p = 1\<close> True, of evs] \<open>E p = 1\<close> e assms(2) surf show thesis
      by (simp add: ibuffer_unref_def buffer_at_def rk_object_unref_frame)
  next
    case False
    then have "unat (obj_refs (id_objs d) p) \<noteq> 1" by (simp add: word_unat_eq_iff)
    then have "1 < unat (obj_refs (id_objs d) p)" using b(6) assms(3) by linarith
    from accounts_unref_more [OF assms(1) _ assms(3) this] assms(2)
      that [of "(id_drv d)\<lparr>d_objs := rk_object_unref p (id_objs d)\<rparr>"] False surf show thesis
      by (simp add: ibuffer_unref_def buffer_at_def buffer_unref_def Let_def rk_object_unref_frame id_set_objs_drv)
  qed
qed

lemma accounts_ref:
  assumes "image_accounts E d" and "d_buf (id_drv d) p \<noteq> None \<or> id_img d p \<noteq> None" and "rk_object_ref p (id_objs d) = (True, objs)"
  shows "image_accounts (E(p := Suc (E p))) (id_set_objs objs d)"
proof (rule accounts_refs [OF assms(1,2)])
  from assms(3) have r: "obj_refs (id_objs d) p \<noteq> - 1" "obj_refs objs = (obj_refs (id_objs d))(p := obj_refs (id_objs d) p + 1)"
    by (auto simp: rk_object_ref_def Let_def split: if_splits)
  then have "unat (obj_refs objs p) = Suc (unat (obj_refs (id_objs d) p))" using unatSuc [of "obj_refs (id_objs d) p"] by (simp add: add.commute eq_neg_iff_add_eq_0)
  then show "obj_refs objs p \<noteq> 0" "unat (obj_refs objs p) + E p = unat (obj_refs (id_objs d) p) + Suc (E p)" by auto
  show "obj_refs objs q = obj_refs (id_objs d) q" if "q \<noteq> p" for q using r(2) that by simp
qed

lemma buffer_acquire_ok:
  assumes "image_accounts E d"
  obtains (missing) "buffer_acquire (id_drv d) bid = Ok (None, id_drv d)"
  | (acquired) p b objs where "heap_find (d_buffer_heap (id_drv d)) bid = Some p" "d_buf (id_drv d) p = Some b"
      "buffer_acquire (id_drv d) bid = Ok (Some p, (id_drv d)\<lparr>d_objs := objs\<rparr>)" "image_accounts (E(p := Suc (E p))) (id_set_objs objs d)"
proof -
  have h: "handles_ok (d_buffer_heap (id_drv d)) (d_buf (id_drv d)) (obj_refs (id_objs d))"
    using accounts_parts(2) [OF assms] by (simp add: drv_inv_def)
  then have acq: "buffer_acquire (id_drv d) bid = (case heap_find (d_buffer_heap (id_drv d)) bid of None \<Rightarrow> Ok (None, id_drv d)
      | Some p \<Rightarrow> let (ok, objs) = rk_object_ref p (id_objs d) in Ok (if ok then Some p else None, (id_drv d)\<lparr>d_objs := objs\<rparr>))"
    by (simp add: buffer_acquire_def heap_acquire_find handles_ok_def split: option.splits prod.splits)
  show thesis
  proof (cases "heap_find (d_buffer_heap (id_drv d)) bid")
    case None
    with acq missing show thesis by simp
  next
    case (Some p)
    then obtain b where b: "d_buf (id_drv d) p = Some b" using h by (auto elim: handles_named)
    obtain ok objs where r: "rk_object_ref p (id_objs d) = (ok, objs)" by fastforce
    show thesis
    proof (cases ok)
      case True
      with r have "image_accounts (E(p := Suc (E p))) (id_set_objs objs d)" using accounts_ref [OF assms] b by simp
      with acquired [OF Some b] acq Some r True show thesis by simp
    next
      case False
      with r have "objs = id_objs d" by (auto simp: rk_object_ref_def Let_def split: if_splits)
      with False acq Some r missing show thesis by simp
    qed
  qed
qed

lemma idestroy_buffer_ok:
  assumes "image_accounts E d"
  obtains drv where "idestroy_buffer bid d = Ok (id_set_drv drv d)" "image_accounts E (id_set_drv drv d)" "d_brk drv = d_brk (id_drv d)"
    "heap_find (d_buffer_heap drv) = (heap_find (d_buffer_heap (id_drv d)))(bid := None)"
    "\<And>q. heap_find (d_buffer_heap (id_drv d)) bid \<noteq> Some q \<Longrightarrow> d_buf drv q = d_buf (id_drv d) q \<and> obj_refs (d_objs drv) q = obj_refs (id_objs d) q"
proof -
  let ?h = "d_buffer_heap (id_drv d)"
  note a = accounts_parts [OF assms]
  have ok: "handles_ok ?h (d_buf (id_drv d)) (obj_refs (id_objs d))" using a(2) by (simp add: drv_inv_def)
  then have inv: "heap_inv ?h" by (simp add: handles_ok_def)
  obtain r h where rem: "rk_object_heap_remove ?h bid = Ok (r, h)" using heap_map.rem_total [OF inv] by blast
  note h = heap_map.rem_result [OF inv rem] heap_map.rem_find [OF inv rem] heap_map.rem_inv [OF inv rem]
  let ?drv = "(id_drv d)\<lparr>d_buffer_heap := h\<rparr>" and ?E = "\<lambda>q. if r = Some q then Suc (E q) else E q"
  let ?d = "id_set_drv ?drv d"
  have "handles_ok h (d_buf (id_drv d)) (obj_refs (id_objs d))" using ok h(2,3) by (auto simp: handles_ok_def split: if_splits)
  then have "drv_inv ?drv" using a(2) by (simp add: drv_inv_def)
  moreover have "surf_inv (id_sd ?d)" by (rule surf_inv_frame [OF a(1)]) simp_all
  moreover have "named ?h q = 1" if "r = Some q" for q using that h(1) named_pos by metis
  then have "buffers_counted ?E ?d"
    using a(6) named_remove [OF ok h(2)] unfolding buffers_counted_def h(1) by auto
  moreover have live: "\<exists>b. d_buf (id_drv d) q = Some b" if "r = Some q" for q using handles_named [OF ok] h(1) that by metis
  then have "r \<noteq> Some q" if "id_img d q = Some im" for q im using that counted_image(4) [OF assms] by fastforce
  then have "images_counted ?E ?d" using a(7) unfolding images_counted_def by auto
  moreover have "?E q = 0" if "q \<ge> d_brk (id_drv d)" for q
    using a(5) [OF that] live counted_buffer(1) [OF assms] that by (metis leD)
  ultimately have acc: "image_accounts ?E ?d" using a(3,4) by (simp add: image_accounts_def)
  show thesis
  proof (cases r)
    case None
    with that [of ?drv] rem acc h(2) show thesis by (simp add: idestroy_buffer_def)
  next
    case (Some p)
    with live obtain b where "d_buf (id_drv ?d) p = Some b" by auto
    from ibuffer_unref_ok [OF acc this] Some obtain drv where u: "ibuffer_unref p ?d = Ok (id_set_drv drv ?d)"
        "image_accounts (?E(p := ?E p - 1)) (id_set_drv drv ?d)" "d_buffer_heap drv = h" "d_brk drv = d_brk (id_drv d)"
        "\<And>q. q \<noteq> p \<Longrightarrow> d_buf drv q = d_buf (id_drv d) q" "\<And>q. q \<noteq> p \<Longrightarrow> obj_refs (d_objs drv) q = obj_refs (id_objs d) q" by auto
    have "?E(p := ?E p - 1) = E" using Some by auto
    with u that [of drv] rem Some h(1,2) show thesis by (simp add: idestroy_buffer_def)
  qed
qed

section \<open>New buffers\<close>

definition create_frame :: "RKDriver \<Rightarrow> RKDriver \<Rightarrow> bool" where
  "create_frame d d' \<longleftrightarrow> d_brk d \<le> d_brk d' \<and> (\<forall>q. q \<noteq> d_brk d \<longrightarrow> obj_refs (d_objs d') q = obj_refs (d_objs d) q \<and> d_buf d' q = d_buf d q) \<and>
     (\<forall>b. d_buf d' (d_brk d) = Some b \<longrightarrow> d_brk d < d_brk d' \<and> (d_buf d (d_brk d) = None \<longrightarrow> b_derived b = None \<and> obj_refs (d_objs d') (d_brk d) = 1))"

lemma create_buffer_frame:
  assumes "rk_CreateBuffer m d type each num data = Ok (r, d')" and "d_buf d (d_brk d) = None"
  shows "create_frame d d'"
proof -
  let ?b = "fresh_buffer type each num (ucast each * ucast num)" and ?p = "d_brk d"
  let ?d = "\<lambda>b. d\<lparr>d_brk := Suc ?p, d_objs := rk_object_init ?p (d_objs d), d_buf := (d_buf d)(?p \<mapsto> b)\<rparr>"
  have clean: "b_derived ?b = None" "b_acquired_fd ?b = - 1" by (simp_all add: fresh_buffer_def)
  have drop: "create_frame d d'" if "buffer_unref ?p (?d b) = Ok d'" "b_derived b = None" "b_acquired_fd b = - 1" for b d'
    using that by (auto simp: buffer_unref_last create_frame_def rk_object_init_def rk_object_unref_def Let_def)
  have heap: "buffer_unref ?p ((?d b)\<lparr>d_buffer_heap := h\<rparr>) = obind (buffer_unref ?p (?d b)) (\<lambda>d. Ok (d\<lparr>d_buffer_heap := h\<rparr>))"
    if "b_derived b = None" "b_acquired_fd b = - 1" for b h
    using that by (simp add: buffer_unref_last rk_object_init_def)
  have frame: "create_frame d (d'\<lparr>d_buffer_heap := h\<rparr>) = create_frame d d'" for d' h by (simp add: create_frame_def)
  have self: "create_frame d d" using assms(2) by (simp add: create_frame_def)
  have made: "create_frame d (?d b)" if "b_derived b = None" for b using that by (simp add: create_frame_def rk_object_init_def)
  show ?thesis
  proof (cases "size_overflow each num \<or> \<not> m_object m \<or> \<not> m_data m")
    case True
    with assms(1) self drop [OF _ clean] show ?thesis
      by (auto simp: rk_CreateBuffer_def new_buffer_def Let_def split: if_splits)
  next
    case False
    with assms(1) obtain b where b: "fill_buffer ?b data = Ok b" by (auto simp: rk_CreateBuffer_def new_buffer_def Let_def)
    with False assms(1) obtain bid h where ins: "rk_object_heap_insert (m_heap m) (d_buffer_heap d) ?p = Ok (bid, h)"
      by (auto simp: rk_CreateBuffer_def new_buffer_def Let_def buffer_set_def)
    have res: "(case bid of None \<Rightarrow> obind (buffer_unref ?p ((?d b)\<lparr>d_buffer_heap := h\<rparr>)) (\<lambda>d. Ok (Inl VA_STATUS_ERROR_ALLOCATION_FAILED, d))
          | Some bid \<Rightarrow> Ok (Inr bid, (?d b)\<lparr>d_buffer_heap := h\<rparr>)) = Ok (r, d')"
      using False assms(1) b ins by (cases bid) (simp_all add: rk_CreateBuffer_def new_buffer_def Let_def buffer_set_def)
    have c: "b_derived b = None" "b_acquired_fd b = - 1" using fill_buffer_keeps [OF b] clean by simp_all
    from res show ?thesis
      by (cases bid) (auto simp: heap [OF c] frame dest: drop [OF _ c] intro: made [OF c(1)])
  qed
qed

lemma fresh_address:
  assumes "image_accounts E d"
  shows "d_buf (id_drv d) (d_brk (id_drv d)) = None" "image_count (id_img d) (d_brk (id_drv d)) = 0"
    "sd_surf (id_sd d) (d_brk (id_drv d)) = None" "id_img d (d_brk (id_drv d)) = None"
proof -
  let ?k = "d_brk (id_drv d)"
  note a = accounts_parts [OF assms]
  show brk: "d_buf (id_drv d) ?k = None" using a(2) store_ok_fresh by (simp add: drv_inv_def)
  have "{q. \<exists>im. id_img d q = Some im \<and> im_buffer im = Some ?k} = {}" using counted_image(6) [OF assms] brk by fastforce
  then show "image_count (id_img d) ?k = 0" unfolding image_count_def by (simp only: card.empty)
  show "sd_surf (id_sd d) ?k = None" "id_img d ?k = None"
    using accounts_surface_addr [OF a(1), of ?k] counted_image(1) [OF assms, of ?k] by fastforce+
qed

lemma accounts_create:
  assumes acc: "image_accounts E d" and f: "create_frame (id_drv d) drv" and inv: "drv_inv drv"
    and n: "\<And>q. q \<noteq> d_brk (id_drv d) \<Longrightarrow> named (d_buffer_heap drv) q = named (d_buffer_heap (id_drv d)) q"
      "d_buf drv (d_brk (id_drv d)) \<noteq> None \<Longrightarrow> named (d_buffer_heap drv) (d_brk (id_drv d)) = 1"
  shows "image_accounts E (id_set_drv drv d)"
proof -
  note a = accounts_parts [OF acc] and brk = fresh_address(1) [OF acc] and count0 = fresh_address(2) [OF acc] and k = fresh_address(3,4) [OF acc]
  let ?k = "d_brk (id_drv d)"
  have keep: "obj_refs (d_objs drv) q = obj_refs (id_objs d) q" "d_buf drv q = d_buf (id_drv d) q" if "q \<noteq> ?k" for q
    using f that by (simp_all add: create_frame_def)
  have new: "b_derived b = None \<and> unat (obj_refs (d_objs drv) ?k) = 1" if "d_buf drv ?k = Some b" for b
    using f that brk by (simp add: create_frame_def)
  have le: "?k \<le> d_brk drv" using f by (simp add: create_frame_def)
  have "surf_inv (id_sd (id_set_drv drv d))"
    by (rule surf_inv_frame [OF a(1)]) (use le k(1) keep(1) in \<open>simp_all, metis option.distinct(1)\<close>)
  moreover have "handles_ok (id_image_heap d) (id_img d) (obj_refs (d_objs drv))"
    by (rule handles_ok_frame [OF a(3)]) (use k(2) keep(1) in metis)
  moreover have "buffers_counted E (id_set_drv drv d)"
    unfolding buffers_counted_def
  proof (intro allI impI)
    fix p b assume p: "d_buf (id_drv (id_set_drv drv d)) p = Some b"
    show "sd_surf (id_sd (id_set_drv drv d)) p = None \<and> id_img (id_set_drv drv d) p = None \<and> b_derived b = None \<and>
        unat (obj_refs (id_objs (id_set_drv drv d)) p) =
          named (d_buffer_heap (id_drv (id_set_drv drv d))) p + image_count (id_img (id_set_drv drv d)) p + E p"
    proof (cases "p = ?k")
      case True
      then show ?thesis using p k n(2) count0 a(5) [of p] new [of b] by simp
    next
      case False
      then show ?thesis using p keep(1) [OF False] keep(2) [OF False] n(1) [OF False] counted_buffer [OF acc, of p b] by simp
    qed
  qed
  moreover have "images_counted E (id_set_drv drv d)"
    unfolding images_counted_def
  proof (intro allI impI)
    fix q im assume "id_img (id_set_drv drv d) q = Some im"
    then have q: "id_img d q = Some im" "q \<noteq> ?k" using k(2) by auto
    obtain p b where p: "im_buffer im = Some p" "d_buf (id_drv d) p = Some b" using counted_image(6) [OF acc q(1)] by blast
    then have "d_buf drv p \<noteq> None" using keep(2) [of p] brk by (cases "p = ?k") auto
    then show "q < d_brk (id_drv (id_set_drv drv d)) \<and> sd_surf (id_sd (id_set_drv drv d)) q = None \<and>
        image_live (d_buf (id_drv (id_set_drv drv d))) im \<and>
        unat (obj_refs (id_objs (id_set_drv drv d)) q) = named (id_image_heap (id_set_drv drv d)) q + E q"
      using counted_image(1-3,5) [OF acc q(1)] p(1) keep(1) [OF q(2)] le by (auto simp: image_live_def)
  qed
  ultimately show ?thesis using a(4,5) inv le by (simp add: image_accounts_def)
qed

lemma create_buffer_ok:
  assumes "image_accounts E d" and "\<And>src. data = Some src \<Longrightarrow> unat each * unat num \<le> length src"
  obtains r drv where "rk_CreateBuffer m (id_drv d) type each num data = Ok (r, drv)" "image_accounts E (id_set_drv drv d)"
proof -
  note a = accounts_parts [OF assms(1)]
  note brk = fresh_address(1) [OF assms(1)] and fin = accounts_create [OF assms(1)]
  show thesis
  proof (rule create_cases [OF a(2) assms(2), where m = m and type = type])
    fix st drv assume c: "rk_CreateBuffer m (id_drv d) type each num data = Ok (Inl st, drv)" "drv_inv drv"
      "d_buffer_heap drv = d_buffer_heap (id_drv d)" "d_buf drv = d_buf (id_drv d)"
    have "image_accounts E (id_set_drv drv d)" by (rule fin [OF create_buffer_frame [OF c(1) brk] c(2)]) (use c(3,4) brk in simp_all)
    with that c(1) show thesis by blast
  next
    fix i p b drv assume c: "rk_CreateBuffer m (id_drv d) type each num data = Ok (Inr i, drv)" "drv_inv drv" "created (id_drv d) i p b drv"
    note f = create_buffer_frame [OF c(1) brk]
    have p: "p = d_brk (id_drv d)" using f c(3) unfolding created_def create_frame_def by (metis fun_upd_same option.distinct(1))
    have "image_accounts E (id_set_drv drv d)"
      by (rule fin [OF f c(2)]) (use c(3) named_insert [of "d_buffer_heap (id_drv d)" i "d_buffer_heap drv" p] p in \<open>simp_all add: created_def\<close>)
    with that c(1) show thesis by blast
  qed
qed

section \<open>Images\<close>

text \<open>The offsets that \<open>rk_CreateImage\<close> computes in 32 bits do not wrap.\<close>

lemma image_plan_fits:
  assumes "image_plan fourcc w h = Inr (pitch, cpitch, bytes)"
  shows "unat pitch * unat h < 2 ^ 32"
    "planar_fourcc fourcc \<Longrightarrow> unat pitch * unat h + unat cpitch * (unat h div 2) < 2 ^ 32"
proof -
  from assms obtain n where n: "image_alloc (planar_fourcc fourcc) pitch cpitch h = Some n" "n \<le> ucast (- 1 :: u32)"
    by (auto simp: image_plan_def Let_def not_less split: sum.splits option.splits if_splits)
  then have lt: "unat n < 2 ^ 32" by (simp add: word_le_nat_alt)
  have planar: "unat pitch * unat h + unat cpitch * (unat h div 2) < 2 ^ 32" if "planar_fourcc fourcc"
  proof -
    let ?l = "ucast pitch * ucast h :: u64" and ?c = "ucast cpitch * ucast (h div 2) :: u64"
    have l: "unat ?l = unat pitch * unat h" "unat ?c = unat cpitch * (unat h div 2)" unfolding unat_mul32 by (simp_all add: unat_div)
    have "?c \<le> (SIZE_MAX - ?l) div 2" "n = ?l + 2 * ?c" using n(1) that by (auto simp: image_alloc_def Let_def not_less split: if_splits)
    moreover have "unat (SIZE_MAX - ?l) = unat SIZE_MAX - unat ?l" by (rule unat_sub) (rule word_order.extremum)
    ultimately have "unat ?c \<le> (unat SIZE_MAX - unat ?l) div 2" by (simp add: word_le_nat_alt unat_div)
    then have c: "unat ?l + 2 * unat ?c < 2 ^ 64" using unat_u64_lt [of ?l] by (simp del: unat_u64_lt)
    then have "unat (2 * ?c) = 2 * unat ?c" by (simp add: unat_word_ariths(2))
    with c \<open>n = ?l + 2 * ?c\<close> have "unat n = unat ?l + 2 * unat ?c" by (simp only: unat_word_ariths(1)) simp
    with lt show ?thesis unfolding l by linarith
  qed
  then show "planar_fourcc fourcc \<Longrightarrow> unat pitch * unat h + unat cpitch * (unat h div 2) < 2 ^ 32" .
  show "unat pitch * unat h < 2 ^ 32"
  proof (cases "planar_fourcc fourcc")
    case False
    then have "rk_nv12_layout_size (ucast pitch) (ucast h) = Some n" using n(1) by (simp add: image_alloc_def)
    from nv12_planes(2) [OF this, of 0 0] lt show ?thesis by simp
  qed (use planar in linarith)
qed

lemma image_object_ok:
  assumes "image_plan fourcc w h = Inr (pitch, cpitch, bytes)"
  shows "image_ok (image_object fourcc w h pitch cpitch bid p)" "im_buffer (image_object fourcc w h pitch cpitch bid p) = Some p"
    "im_buffer_id (image_object fourcc w h pitch cpitch bid p) = bid"
proof -
  note f = image_plan_fits [OF assms]
  have o1: "unat (pitch * h) = unat pitch * unat h" using f(1) by (simp add: unat_word_ariths(2))
  have "unat (pitch * h + cpitch * (h div 2)) = unat pitch * unat h + unat cpitch * (unat h div 2)" if "planar_fourcc fourcc"
  proof -
    have "unat (cpitch * (h div 2)) = unat cpitch * (unat h div 2)" using f(2) [OF that] by (simp add: unat_word_ariths(2) unat_div)
    with o1 f(2) [OF that] show ?thesis by (simp only: unat_word_ariths(1)) simp
  qed
  with o1 show "image_ok (image_object fourcc w h pitch cpitch bid p)" by (simp add: image_ok_def image_object_def Let_def)
qed (simp_all add: image_object_def Let_def)

lemma image_count_new:
  assumes "finite (dom img)" and "img q = None"
  shows "image_count (img(q \<mapsto> im)) p = image_count img p + (if im_buffer im = Some p then 1 else 0)"
proof -
  let ?A = "{q. \<exists>im. img q = Some im \<and> im_buffer im = Some p}"
  have "finite ?A" by (rule finite_subset [OF _ assms(1)]) auto
  moreover have "q \<notin> ?A" using assms(2) by simp
  moreover have "{r. \<exists>m. (img(q \<mapsto> im)) r = Some m \<and> im_buffer m = Some p} = (if im_buffer im = Some p then insert q ?A else ?A)"
    using assms(2) by auto
  ultimately show ?thesis unfolding image_count_def by simp
qed

lemma image_count_remove:
  assumes "finite (dom img)" and "img q = Some im"
  shows "image_count img p = image_count (img(q := None)) p + (if im_buffer im = Some p then 1 else 0)"
  using image_count_new [of "img(q := None)" q im p] assms by (simp add: fun_upd_idem)

lemma accounts_drop_image:
  assumes "image_accounts E d" and "id_img d q = Some im" "im_buffer im = Some p" and "E q = 1" "obj_refs (id_objs d) q = 1"
  shows "image_accounts (E(q := 0, p := Suc (E p))) ((id_set_objs (rk_object_unref q (id_objs d)) d)\<lparr>id_img := (id_img d)(q := None)\<rparr>)"
proof -
  let ?o = "rk_object_unref q (id_objs d)" and ?img = "(id_img d)(q := None)" and ?E = "E(q := 0, p := Suc (E p))"
  let ?d = "(id_set_objs ?o d)\<lparr>id_img := ?img\<rparr>"
  note a = accounts_parts [OF assms(1)] and c = counted_image [OF assms(1,2)]
  obtain b where b: "d_buf (id_drv d) p = Some b" using c(6) assms(3) by auto
  then have pq: "p \<noteq> q" using c(4) by auto
  have refs: "r \<noteq> q \<Longrightarrow> obj_refs ?o r = obj_refs (id_objs d) r" for r by (simp add: rk_object_unref_frame)
  have un: "heap_find (id_image_heap d) i \<noteq> Some q" for i using c(5) assms(4,5) named_pos [of _ i q] by fastforce
  have f: "id_drv ?d = (id_drv d)\<lparr>d_objs := ?o\<rparr>" "sd_surf (id_sd ?d) = sd_surf (id_sd d)" by (simp_all add: id_set_objs_drv)
  have "surf_inv (id_sd ?d)"
    unfolding id_set_objs_drv by (rule surf_inv_frame [OF a(1)]) (use c(2) refs in \<open>simp_all, metis option.distinct(1)\<close>)
  moreover have "handles_ok (d_buffer_heap (id_drv d)) (d_buf (id_drv d)) (obj_refs ?o)"
    by (rule handles_ok_frame [where refs = "obj_refs (id_objs d)"]) (use a(2) c(4) refs in \<open>auto simp: drv_inv_def, metis option.distinct(1)\<close>)
  then have "drv_inv (id_drv ?d)" using a(2) unfolding f(1) by (simp add: drv_inv_def)
  moreover have "handles_ok (id_image_heap d) ?img (obj_refs ?o)"
    using a(3) un refs unfolding handles_ok_def by auto
  moreover have "buffers_counted ?E ?d"
    unfolding buffers_counted_def f
  proof (intro allI impI)
    fix r b' assume "d_buf ((id_drv d)\<lparr>d_objs := ?o\<rparr>) r = Some b'"
    then have r: "d_buf (id_drv d) r = Some b'" by simp
    note cb = counted_buffer [OF assms(1) r]
    have "r \<noteq> q" using r c(4) by auto
    then show "sd_surf (id_sd d) r = None \<and> id_img ?d r = None \<and> b_derived b' = None \<and> unat (obj_refs (d_objs ((id_drv d)\<lparr>d_objs := ?o\<rparr>)) r) =
        named (d_buffer_heap ((id_drv d)\<lparr>d_objs := ?o\<rparr>)) r + image_count (id_img ?d) r + ?E r"
      using cb refs [of r] image_count_remove [OF a(4) assms(2), of r] assms(3) by simp
  qed
  moreover have "images_counted ?E ?d"
    unfolding images_counted_def f
  proof (intro allI impI)
    fix r im' assume "id_img ?d r = Some im'"
    then have r: "id_img d r = Some im'" "r \<noteq> q" by (auto split: if_splits)
    then have "r \<noteq> p" using b counted_image(4) [OF assms(1) r(1)] by auto
    then show "r < d_brk ((id_drv d)\<lparr>d_objs := ?o\<rparr>) \<and> sd_surf (id_sd d) r = None \<and> image_live (d_buf ((id_drv d)\<lparr>d_objs := ?o\<rparr>)) im' \<and>
        unat (obj_refs (d_objs ((id_drv d)\<lparr>d_objs := ?o\<rparr>)) r) = named (id_image_heap ?d) r + ?E r"
      using counted_image [OF assms(1) r(1)] refs [OF r(2)] r(2) by (auto simp: image_live_def id_set_objs_drv)
  qed
  ultimately show ?thesis
    using a(4,5) counted_buffer(1) [OF assms(1) b] c(1) f by (simp add: image_accounts_def id_set_objs_drv)
qed

lemma id_img_sd: "d\<lparr>id_img := x, id_sd := sd\<rparr> = d\<lparr>id_sd := sd, id_img := x\<rparr>" for d :: IDriver
  by simp

lemma buffer_unref_img:
  "ibuffer_unref p (d\<lparr>id_img := x\<rparr>) = obind (ibuffer_unref p d) (\<lambda>d. Ok (d\<lparr>id_img := x\<rparr>))"
  by (cases "buffer_at (id_drv d) p"; cases "buffer_unref p (id_drv d)")
     (auto simp: ibuffer_unref_def Let_def id_set_drv_def obind_assoc id_img_sd split: option.split)

lemma buffer_unref_keeps_img: "ibuffer_unref p d = Ok d' \<Longrightarrow> id_img d' = id_img d"
  by (auto simp: ibuffer_unref_def Let_def split: option.splits if_splits)

lemma image_unref_ok:
  assumes "image_accounts E d" and "id_img d q = Some im" and "0 < E q"
  obtains d' where "image_unref q d = Ok d'" "image_accounts (E(q := E q - 1)) d'"
    "d_buffer_heap (id_drv d') = d_buffer_heap (id_drv d)" "id_image_heap d' = id_image_heap d"
proof (cases "obj_refs (id_objs d) q = 1")
  case False
  then have "unat (obj_refs (id_objs d) q) \<noteq> 1" by (simp add: word_unat_eq_iff)
  then have "1 < unat (obj_refs (id_objs d) q)" using counted_image(5) [OF assms(1,2)] assms(3) by linarith
  from accounts_unref_more [OF assms(1) _ assms(3) this] assms(2) False that [of "id_set_objs (rk_object_unref q (id_objs d)) d"] show thesis
    by (simp add: image_unref_def Let_def id_set_objs_drv)
next
  case True
  then have e: "E q = 1" using counted_image(5) [OF assms(1,2)] assms(3) by simp
  obtain p b where p: "im_buffer im = Some p" "d_buf (id_drv d) p = Some b" using counted_image(6) [OF assms(1,2)] by blast
  let ?d1 = "id_set_objs (rk_object_unref q (id_objs d)) d" and ?E = "E(q := 0, p := Suc (E p))" and ?img = "(id_img d)(q := None)"
  note acc = accounts_drop_image [OF assms(1,2) p(1) e True]
  have bp: "d_buf (id_drv (?d1\<lparr>id_img := ?img\<rparr>)) p = Some b" "0 < ?E p" using p(2) by (simp_all add: id_set_objs_drv)
  obtain drv where u: "ibuffer_unref p (?d1\<lparr>id_img := ?img\<rparr>) = Ok (id_set_drv drv (?d1\<lparr>id_img := ?img\<rparr>))"
      "image_accounts (?E(p := ?E p - 1)) (id_set_drv drv (?d1\<lparr>id_img := ?img\<rparr>))"
      "d_buffer_heap drv = d_buffer_heap (id_drv (?d1\<lparr>id_img := ?img\<rparr>))"
    using ibuffer_unref_ok [OF acc bp] by metis
  have pq: "p \<noteq> q" using p(2) counted_image(4) [OF assms(1,2)] by auto
  then have E: "?E(p := ?E p - 1) = E(q := E q - 1)" using e by auto
  from u(1) obtain d1 where d1: "ibuffer_unref p ?d1 = Ok d1" "d1\<lparr>id_img := ?img\<rparr> = id_set_drv drv (?d1\<lparr>id_img := ?img\<rparr>)"
    by (auto simp: buffer_unref_img)
  have "id_img d1 = id_img d" using buffer_unref_keeps_img [OF d1(1)] by (simp add: id_set_objs_drv)
  then have "image_unref q d = Ok (id_set_drv drv (?d1\<lparr>id_img := ?img\<rparr>))"
    using assms(2) True p(1) d1 by (simp add: image_unref_def Let_def image_destroy_def)
  with that u(2,3) E show thesis by (simp add: id_set_objs_drv)
qed

end
