(* ===== verification/Image_Calls.thy ===== *)
theory Image_Calls
  imports Image_Accounts
begin

unbundle bit_operations_syntax

text \<open>
  The entry points on images in sequence with those on buffers and surfaces. No sequence of calls
  faults as long as no image is derived, and a picture that is put onto a surface is the one that
  \<open>rk_GetImage\<close> reads back.
\<close>

section \<open>Creation and destruction\<close>

lemma handles_fresh: "handles_ok h m refs \<Longrightarrow> m q = None \<Longrightarrow> heap_find h i \<noteq> Some q"
  unfolding handles_ok_def by (metis)

lemma accounts_new_image:
  assumes "image_accounts E d" and "d_buf (id_drv d) p = Some b" and "0 < E p" and "image_ok im" "im_buffer im = Some p"
  defines "q \<equiv> d_brk (id_drv d)"
  shows "image_accounts (E(p := E p - 1, q := 1)) (snd (new_image im d))"
proof -
  let ?o = "rk_object_init q (id_objs d)" and ?img = "(id_img d)(q \<mapsto> im)" and ?E = "E(p := E p - 1, q := 1)"
  let ?drv = "(id_drv d)\<lparr>d_brk := Suc q, d_objs := ?o\<rparr>"
  let ?d = "(id_set_drv ?drv d)\<lparr>id_img := ?img\<rparr>"
  note a = accounts_parts [OF assms(1)] and k = fresh_address [OF assms(1), folded q_def]
  have pq: "p \<noteq> q" using assms(2) k(1) by auto
  have refs: "r \<noteq> q \<Longrightarrow> obj_refs ?o r = obj_refs (id_objs d) r" "obj_refs ?o q = 1" for r by (simp_all add: rk_object_init_def)
  have un: "heap_find (id_image_heap d) i \<noteq> Some q" for i by (rule handles_fresh [OF a(3) k(4)])
  have "surf_inv (id_sd (id_set_drv ?drv d))"
    by (rule surf_inv_frame [OF a(1)]) (use k(3) refs(1) in \<open>simp_all add: q_def, metis option.distinct(1)\<close>)
  moreover have "handles_ok (d_buffer_heap (id_drv d)) (d_buf (id_drv d)) (obj_refs ?o)"
    by (rule handles_ok_frame [where refs = "obj_refs (id_objs d)"]) (use a(2) k(1) refs(1) in \<open>auto simp: drv_inv_def, metis option.distinct(1)\<close>)
  then have "drv_inv ?drv" using a(2) store_ok_weaken(2) by (simp add: drv_inv_def q_def)
  moreover have "handles_ok (id_image_heap d) ?img (obj_refs ?o)" using a(3) un refs unfolding handles_ok_def by auto
  moreover have "buffers_counted ?E ?d"
    unfolding buffers_counted_def
  proof (intro allI impI)
    fix r b' assume "d_buf (id_drv ?d) r = Some b'"
    then have r: "d_buf (id_drv d) r = Some b'" by simp
    then have "r \<noteq> q" using k(1) by auto
    then show "sd_surf (id_sd ?d) r = None \<and> id_img ?d r = None \<and> b_derived b' = None \<and>
        unat (obj_refs (id_objs ?d) r) = named (d_buffer_heap (id_drv ?d)) r + image_count (id_img ?d) r + ?E r"
      using counted_buffer [OF assms(1) r] refs(1) [of r] image_count_new [OF a(4) k(4), of im r] assms(3,5) by auto
  qed
  moreover have "images_counted ?E ?d"
    unfolding images_counted_def
  proof (intro allI impI)
    fix r im' assume r: "id_img ?d r = Some im'"
    have n: "named (id_image_heap d) q = 0" using un by (simp add: named_def)
    show "r < d_brk (id_drv ?d) \<and> sd_surf (id_sd ?d) r = None \<and> image_live (d_buf (id_drv ?d)) im' \<and>
        unat (obj_refs (id_objs ?d) r) = named (id_image_heap ?d) r + ?E r"
    proof (cases "r = q")
      case True
      then show ?thesis using r k(3) assms(2,4,5) refs(2) n by (auto simp: image_live_def)
    next
      case False
      then have r': "id_img d r = Some im'" using r by simp
      then have "r \<noteq> p" using assms(2) counted_image(4) [OF assms(1) r'] by auto
      then show ?thesis using False counted_image [OF assms(1) r'] refs(1) [OF False] by (auto simp: image_live_def q_def)
    qed
  qed
  ultimately show ?thesis using a(4,5) by (simp add: image_accounts_def new_image_def Let_def q_def [symmetric])
qed

lemma accounts_name_image:
  assumes "image_accounts E d" and "id_img d q = Some im" and "E q = 1" and "\<And>i. heap_find (id_image_heap d) i \<noteq> Some q"
    and "rk_object_heap_insert ok (id_image_heap d) q = Ok (Some iid, h)"
  shows "image_accounts (E(q := 0)) (d\<lparr>id_image_heap := h\<rparr>)"
proof -
  note a = accounts_parts [OF assms(1)]
  have inv: "heap_inv (id_image_heap d)" using a(3) by (simp add: handles_ok_def)
  note h = heap_map.ins_fresh [OF inv assms(5)] heap_map.ins_find [OF inv assms(5)] heap_map.ins_inv [OF inv assms(5)]
  have n: "named (id_image_heap d) q = 0" using assms(4) by (simp add: named_def)
  note nm = named_insert [OF h(1,2)]
  have "obj_refs (id_objs d) q \<noteq> 0" using counted_image(5) [OF assms(1,2)] assms(3) by auto
  then have "handles_ok h (id_img d) (obj_refs (id_objs d))" using a(3) h assms(2,4) by (auto simp: handles_ok_def)
  moreover have "buffers_counted (E(q := 0)) (d\<lparr>id_image_heap := h\<rparr>)"
    using a(6) assms(2) unfolding buffers_counted_def by auto
  moreover have "images_counted (E(q := 0)) (d\<lparr>id_image_heap := h\<rparr>)"
    using a(7) nm n assms(3) unfolding images_counted_def by auto
  ultimately show ?thesis using a by (simp add: image_accounts_def)
qed

lemma enter_image_ok:
  assumes "image_accounts E d" and "d_buf (id_drv d) p = Some b" and "0 < E p" and "image_ok im" "im_buffer im = Some p"
  shows "\<exists>r d'. enter_image e im d = Ok (r, d') \<and> image_accounts (E(p := E p - 1)) d'"
proof -
  let ?q = "d_brk (id_drv d)" and ?E = "E(p := E p - 1, d_brk (id_drv d) := 1)"
  obtain d0 where new: "new_image im d = (?q, d0)" "id_img d0 ?q = Some im" "id_image_heap d0 = id_image_heap d"
    by (simp add: new_image_def Let_def)
  note acc = accounts_new_image [OF assms, unfolded new(1) snd_conv] and k = fresh_address [OF assms(1)]
  have E: "?E(?q := 0) = E(p := E p - 1)" using assms(2) k(1) accounts_parts(5) [OF assms(1), of ?q] by (intro ext) auto
  have h: "handles_ok (id_image_heap d) (id_img d) (obj_refs (id_objs d))" by (rule accounts_parts(3) [OF assms(1)])
  then have inv: "heap_inv (id_image_heap d)" by (simp add: handles_ok_def)
  have un: "heap_find (id_image_heap d0) i \<noteq> Some ?q" for i unfolding new(3) by (rule handles_fresh [OF h k(4)])
  obtain r h where ins: "rk_object_heap_insert (ime_heap e) (id_image_heap d0) ?q = Ok (r, h)"
    unfolding new(3) using heap_map.ins_total [OF inv] by blast
  show ?thesis
  proof (cases r)
    case (Some iid)
    from accounts_name_image [OF acc new(2) _ un ins [unfolded Some]] E have "image_accounts (E(p := E p - 1)) (d0\<lparr>id_image_heap := h\<rparr>)" by simp
    with new ins Some show ?thesis by (simp add: enter_image_def Let_def)
  next
    case None
    then have "h = id_image_heap d0" using heap_insert_None [OF inv] ins new(3) by simp
    then have hd: "d0\<lparr>id_image_heap := h\<rparr> = d0" by simp
    obtain d1 where d1: "image_unref ?q d0 = Ok d1" "image_accounts (?E(?q := ?E ?q - 1)) d1"
      using image_unref_ok [OF acc new(2)] by auto
    then have "image_accounts (E(p := E p - 1)) d1" using E by simp
    then obtain drv where "idestroy_buffer (im_buffer_id im) d1 = Ok (id_set_drv drv d1)" "image_accounts (E(p := E p - 1)) (id_set_drv drv d1)"
      by (rule idestroy_buffer_ok)
    with new ins None hd d1(1) show ?thesis by (simp add: enter_image_def Let_def)
  qed
qed

lemma create_image_ok:
  assumes "image_accounts (\<lambda>_. 0) d"
  shows "\<exists>r d'. rk_CreateImage e d format w h given = Ok (r, d') \<and> image_accounts (\<lambda>_. 0) d'"
proof (cases "format = None \<or> \<not> given \<or> w \<le> 0 \<or> h \<le> 0 \<or> w > 65535 \<or> h > 65535")
  case True
  then show ?thesis using assms unfolding rk_CreateImage_def by simp
next
  case guard: False
  let ?f = "ft_fourcc (the format)"
  note eq = rk_CreateImage_def [of e d format w h given, unfolded if_not_P [OF guard] Let_def]
  show ?thesis
  proof (cases "image_plan ?f (of_int w) (of_int h)")
    case (Inl st)
    with eq assms show ?thesis by simp
  next
    case (Inr plan)
    obtain pitch cpitch bytes where plan: "plan = (pitch, cpitch, bytes)" by (cases plan)
    note im = image_object_ok [OF Inr [unfolded plan]]
    obtain r drv where c: "rk_CreateBuffer (ime_buffer e) (id_drv d) VAImageBufferType bytes 1 None = Ok (r, drv)"
        "image_accounts (\<lambda>_. 0) (id_set_drv drv d)" using create_buffer_ok [OF assms, of None bytes 1] by blast
    let ?d = "id_set_drv drv d"
    show ?thesis
    proof (cases r)
      case (Inl st)
      with eq Inr plan c show ?thesis by simp
    next
      case bid: (Inr bid)
      show ?thesis
      proof (rule buffer_acquire_ok [OF c(2), of bid])
        assume acq: "buffer_acquire (id_drv ?d) bid = Ok (None, id_drv ?d)"
        obtain drv' where "idestroy_buffer bid ?d = Ok (id_set_drv drv' ?d)" "image_accounts (\<lambda>_. 0) (id_set_drv drv' ?d)"
          by (rule idestroy_buffer_ok [OF c(2)])
        with eq Inr plan c(1) bid acq show ?thesis by simp
      next
        fix p b objs assume p: "d_buf (id_drv ?d) p = Some b"
          and acq: "buffer_acquire (id_drv ?d) bid = Ok (Some p, (id_drv ?d)\<lparr>d_objs := objs\<rparr>)"
          and acc: "image_accounts ((\<lambda>_. 0)(p := Suc 0)) (id_set_objs objs ?d)"
        let ?d1 = "id_set_objs objs ?d"
        have p1: "d_buf (id_drv ?d1) p = Some b" "0 < ((\<lambda>_. 0 :: nat)(p := Suc 0)) p" using p by (simp_all add: id_set_objs_drv)
        have d1: "id_set_drv ((id_drv ?d)\<lparr>d_objs := objs\<rparr>) ?d = ?d1" by (simp add: id_set_objs_drv)
        have E: "((\<lambda>_. 0 :: nat)(p := Suc 0))(p := ((\<lambda>_. 0)(p := Suc 0)) p - 1) = (\<lambda>_. 0)" by auto
        show ?thesis
        proof (cases "ime_object e")
          case True
          have "\<exists>r d'. enter_image e (image_object ?f (of_int w) (of_int h) pitch cpitch bid p) ?d1 = Ok (r, d') \<and> image_accounts (\<lambda>_. 0) d'"
            using enter_image_ok [OF acc p1 im(1,2)] unfolding E .
          with eq Inr plan c(1) bid acq True d1 show ?thesis by auto
        next
          case False
          obtain drv1 where u: "ibuffer_unref p ?d1 = Ok (id_set_drv drv1 ?d1)" "image_accounts (\<lambda>_. 0) (id_set_drv drv1 ?d1)"
            using ibuffer_unref_ok [OF acc p1] unfolding E by metis
          obtain drv2 where "idestroy_buffer bid (id_set_drv drv1 ?d1) = Ok (id_set_drv drv2 (id_set_drv drv1 ?d1))"
              "image_accounts (\<lambda>_. 0) (id_set_drv drv2 (id_set_drv drv1 ?d1))" by (rule idestroy_buffer_ok [OF u(2)])
          with eq Inr plan c(1) bid acq False d1 u(1) show ?thesis by auto
        qed
      qed
    qed
  qed
qed

lemma destroy_image_ok:
  assumes "image_accounts (\<lambda>_. 0) d"
  shows "\<exists>r d'. rk_DestroyImage d iid = Ok (r, d') \<and> image_accounts (\<lambda>_. 0) d'"
proof -
  let ?h = "id_image_heap d"
  note a = accounts_parts [OF assms]
  have inv: "heap_inv ?h" using a(3) by (simp add: handles_ok_def)
  obtain r h where rem: "rk_object_heap_remove ?h iid = Ok (r, h)" using heap_map.rem_total [OF inv] by blast
  note h = heap_map.rem_result [OF inv rem] heap_map.rem_find [OF inv rem] heap_map.rem_inv [OF inv rem]
  let ?d = "d\<lparr>id_image_heap := h\<rparr>" and ?E = "\<lambda>q. if r = Some q then 1 else 0 :: nat"
  have live: "\<exists>im. id_img d q = Some im" if "r = Some q" for q using handles_named [OF a(3)] h(1) that by metis
  have "handles_ok h (id_img d) (obj_refs (id_objs d))" using a(3) h(2,3) by (auto simp: handles_ok_def split: if_splits)
  moreover have "buffers_counted ?E ?d"
    using a(6) live unfolding buffers_counted_def by fastforce
  moreover have "named ?h q = 1" if "r = Some q" for q using that h(1) named_pos by metis
  then have "images_counted ?E ?d" using a(7) named_remove [OF a(3) h(2)] h(1) unfolding images_counted_def by auto
  moreover have "?E q = 0" if "q \<ge> d_brk (id_drv d)" for q using live counted_image(1) [OF assms] that by (metis leD)
  ultimately have acc: "image_accounts ?E ?d" using a by (simp add: image_accounts_def)
  show ?thesis
  proof (cases r)
    case None
    then have "?E = (\<lambda>_. 0)" by simp
    with None rem acc show ?thesis by (simp add: rk_DestroyImage_def)
  next
    case (Some q)
    with live obtain im where im: "id_img d q = Some im" by blast
    obtain drv where b: "idestroy_buffer (im_buffer_id im) ?d = Ok (id_set_drv drv ?d)" "image_accounts ?E (id_set_drv drv ?d)"
      by (rule idestroy_buffer_ok [OF acc])
    have q: "id_img (id_set_drv drv ?d) q = Some im" "0 < ?E q" using im Some by simp_all
    have E: "?E(q := ?E q - 1) = (\<lambda>_. 0)" using Some by auto
    obtain d' where "image_unref q (id_set_drv drv ?d) = Ok d'" "image_accounts (\<lambda>_. 0) d'"
      using image_unref_ok [OF b(2) q] unfolding E by metis
    with Some rem im b(1) show ?thesis by (simp add: rk_DestroyImage_def image_at_def)
  qed
qed

section \<open>Calls on a surface and an image\<close>

text \<open>What such a call may change: the contents of memories and of buffers.\<close>

definition icall_keeps :: "IDriver \<Rightarrow> IDriver \<Rightarrow> bool" where
  "icall_keeps d d' \<longleftrightarrow> id_img d' = id_img d \<and> id_image_heap d' = id_image_heap d \<and>
     call_keeps (id_sd d) ((id_sd d')\<lparr>sd_drv := (id_drv d')\<lparr>d_buf := d_buf (id_drv d)\<rparr>\<rparr>) \<and>
     (\<forall>p. rel_option (buf_keeps True) (d_buf (id_drv d) p) (d_buf (id_drv d') p))"

lemma icall_keeps_fields:
  assumes "icall_keeps d d'"
  shows "id_img d' = id_img d" "id_image_heap d' = id_image_heap d" "sd_surf (id_sd d') = sd_surf (id_sd d)"
    "sd_surface_heap (id_sd d') = sd_surface_heap (id_sd d)" "d_brk (id_drv d') = d_brk (id_drv d)" "id_objs d' = id_objs d"
    "d_buffer_heap (id_drv d') = d_buffer_heap (id_drv d)"
  using assms by (simp_all add: icall_keeps_def call_keeps_def)

lemma icall_keeps_buffers:
  assumes "icall_keeps d d'"
  shows "d_buf (id_drv d) p = Some b \<Longrightarrow> \<exists>b'. d_buf (id_drv d') p = Some b' \<and> buf_keeps True b b'"
    "d_buf (id_drv d') p = Some b' \<Longrightarrow> \<exists>b. d_buf (id_drv d) p = Some b \<and> buf_keeps True b b'"
proof -
  have "rel_option (buf_keeps True) (d_buf (id_drv d) p) (d_buf (id_drv d') p)" using assms by (simp add: icall_keeps_def)
  then show "d_buf (id_drv d) p = Some b \<Longrightarrow> \<exists>b'. d_buf (id_drv d') p = Some b' \<and> buf_keeps True b b'"
    "d_buf (id_drv d') p = Some b' \<Longrightarrow> \<exists>b. d_buf (id_drv d) p = Some b \<and> buf_keeps True b b'" by (auto elim: option.rel_cases)
qed

lemma icall_keeps_accounts:
  assumes "icall_keeps d d'" and "image_accounts E d"
  shows "image_accounts E d'"
proof -
  note f = icall_keeps_fields [OF assms(1)] and b = icall_keeps_buffers [OF assms(1)] and a = accounts_parts [OF assms(2)]
  let ?sd = "(id_sd d')\<lparr>sd_drv := (id_drv d')\<lparr>d_buf := d_buf (id_drv d)\<rparr>\<rparr>"
  have k: "call_keeps (id_sd d) ?sd" using assms(1) by (simp add: icall_keeps_def)
  have "accounts {} {#} ?sd" by (rule call_keeps_accounts [OF k]) (use a(1) in \<open>simp add: surf_inv_def\<close>)
  then have "accounts {} {#} (id_sd d')" by (simp add: accounts_def)
  with a(1) f have "surf_inv (id_sd d')" by (simp add: surf_inv_def)
  moreover have "store_ok (d_brk (id_drv d)) (d_buf (id_drv d'))"
    unfolding store_ok_def
  proof (intro allI impI)
    fix p b' assume "d_buf (id_drv d') p = Some b'"
    then obtain b0 where b0: "d_buf (id_drv d) p = Some b0" "buf_keeps True b0 b'" using b(2) by blast
    have "d_buf (id_drv d') s = None" if "d_buf (id_drv d) s = None" for s using that b(2) by (cases "d_buf (id_drv d') s") fastforce+
    with b0 a(2) show "p < d_brk (id_drv d) \<and> buf_wf b' \<and> (\<forall>s. b_surface b' = Some s \<longrightarrow> d_buf (id_drv d') s = None \<and> s < d_brk (id_drv d))"
      by (auto simp: drv_inv_def store_ok_def buf_keeps_def)
  qed
  moreover have "handles_ok (d_buffer_heap (id_drv d)) (d_buf (id_drv d')) (obj_refs (id_objs d))"
    by (rule handles_ok_frame [where m = "d_buf (id_drv d)"]) (use a(2) b(1) in \<open>auto simp: drv_inv_def\<close>)
  ultimately have "surf_inv (id_sd d')" "drv_inv (id_drv d')" by (simp_all add: drv_inv_def f)
  moreover have "buffers_counted E d'"
    unfolding buffers_counted_def
  proof (intro allI impI)
    fix p b' assume "d_buf (id_drv d') p = Some b'"
    then obtain b0 where b0: "d_buf (id_drv d) p = Some b0" "buf_keeps True b0 b'" using b(2) by blast
    then have "b_derived b' = None" using counted_buffer(4) [OF assms(2) b0(1)] by (simp add: buf_keeps_def b_surface_def)
    then show "sd_surf (id_sd d') p = None \<and> id_img d' p = None \<and> b_derived b' = None \<and>
        unat (obj_refs (id_objs d') p) = named (d_buffer_heap (id_drv d')) p + image_count (id_img d') p + E p"
      using counted_buffer [OF assms(2) b0(1)] by (simp add: f)
  qed
  moreover have "image_live (d_buf (id_drv d)) im \<Longrightarrow> image_live (d_buf (id_drv d')) im" for im
    using b(1) by (fastforce simp: image_live_def)
  then have "images_counted E d'" using a(7) unfolding images_counted_def f by blast
  ultimately show ?thesis using a f by (simp add: image_accounts_def)
qed

lemma surface_acquire_cases:
  assumes "surf_inv d"
  obtains (missing) "surface_acquire d sid = Ok (None, d)"
  | (acquired) t s objs where "heap_find (sd_surface_heap d) sid = Some t" "sd_surf d t = Some s" "rk_object_ref t (sd_objs d) = (True, objs)"
      "surface_acquire d sid = Ok (Some t, sd_set_objs objs d)"
proof (cases "heap_find (sd_surface_heap d) sid")
  case None
  with missing assms show thesis by (simp add: surface_acquire_def heap_acquire_find surf_inv_def handles_ok_def sd_set_objs_def)
next
  case (Some t)
  obtain s where s: "sd_surf d t = Some s" using assms Some unfolding surf_inv_def by (blast elim: handles_named)
  obtain ok objs where r: "rk_object_ref t (sd_objs d) = (ok, objs)" by fastforce
  have acq: "surface_acquire d sid = Ok (if ok then Some t else None, sd_set_objs objs d)"
    using assms Some r by (simp add: surface_acquire_def heap_acquire_find surf_inv_def handles_ok_def)
  show thesis
  proof (cases ok)
    case False
    with r have "objs = sd_objs d" by (auto simp: rk_object_ref_def Let_def split: if_splits)
    with acq False missing show thesis by (simp add: sd_set_objs_def)
  qed (use acq r acquired [OF Some s] in simp)
qed

lemma image_acquire_cases:
  assumes "handles_ok (id_image_heap d) (id_img d) refs"
  obtains (missing) "image_acquire d iid = Ok (None, d)"
  | (acquired) q im objs where "heap_find (id_image_heap d) iid = Some q" "id_img d q = Some im" "rk_object_ref q (id_objs d) = (True, objs)"
      "image_acquire d iid = Ok (Some q, id_set_objs objs d)"
proof (cases "heap_find (id_image_heap d) iid")
  case None
  with missing assms show thesis by (simp add: image_acquire_def heap_acquire_find handles_ok_def id_set_objs_def sd_set_objs_def)
next
  case (Some q)
  obtain im where im: "id_img d q = Some im" using handles_named [OF assms Some] by blast
  obtain ok objs where r: "rk_object_ref q (id_objs d) = (ok, objs)" by fastforce
  have acq: "image_acquire d iid = Ok (if ok then Some q else None, id_set_objs objs d)"
    using assms Some r by (simp add: image_acquire_def heap_acquire_find handles_ok_def)
  show thesis
  proof (cases ok)
    case False
    with r have "objs = id_objs d" by (auto simp: rk_object_ref_def Let_def split: if_splits)
    with acq False missing show thesis by (simp add: id_set_objs_def sd_set_objs_def)
  qed (use acq r acquired [OF Some im] in simp)
qed

lemma ref_not_last: "rk_object_ref p s = (True, s') \<Longrightarrow> obj_refs s' p \<noteq> 1"
  by (auto simp: rk_object_ref_def Let_def split: if_splits)

lemma image_drop_acquired:
  assumes "id_img d q = Some im" and "rk_object_ref q objs = (True, id_objs d)"
  shows "image_drop (Some q) d = Ok (id_set_objs objs d)"
  using assms ref_not_last [OF assms(2)] rk_object_ref_unref [OF assms(2)] by (simp add: image_drop_def image_unref_def Let_def)

lemma surface_drop_acquired:
  assumes "sd_surf (id_sd d) t = Some s" and "rk_object_ref t objs = (True, id_objs d)"
  shows "surface_drop t d = Ok (id_set_objs objs d)"
  using assms ref_not_last [OF assms(2)] rk_object_ref_unref [OF assms(2)]
  by (simp add: surface_drop_def surface_unref_def Let_def id_set_objs_def)

lemma id_set_objs_simps [simp]:
  "id_set_objs x (id_set_objs y d) = id_set_objs x d" "id_set_objs (id_objs d) d = d" "id_objs (id_set_objs x d) = x"
  "id_img (id_set_objs x d) = id_img d" "id_image_heap (id_set_objs x d) = id_image_heap d"
  "sd_surf (id_sd (id_set_objs x d)) = sd_surf (id_sd d)" "d_buf (id_drv (id_set_objs x d)) = d_buf (id_drv d)"
  by (simp_all add: id_set_objs_def sd_set_objs_def)

lemma id_set_objs_fold: "d\<lparr>id_sd := sd_set_objs x (id_sd d)\<rparr> = id_set_objs x d"
  by (simp add: id_set_objs_def)

lemma icall_keeps_objs:
  assumes "icall_keeps (id_set_objs objs d) d2"
  shows "icall_keeps d (id_set_objs (id_objs d) d2)"
  using assms by (simp add: icall_keeps_def call_keeps_def id_set_objs_def)

lemma with_surface_image_runs:
  assumes acc: "image_accounts (\<lambda>_. 0) d"
    and t: "heap_find (sd_surface_heap (id_sd d)) sid = Some t" "sd_surf (id_sd d) t = Some s" "rk_object_ref t (id_objs d) = (True, objs)"
    and q: "heap_find (id_image_heap d) iid = Some q" "id_img d q = Some im" "rk_object_ref q objs = (True, objs2)"
    and p: "im_buffer im = Some p" "d_buf (id_drv d) p = Some b"
    and b: "body s im p b (id_set_objs objs2 d) = Ok (r, d2)" "icall_keeps (id_set_objs objs2 d) d2"
  shows "with_surface_image d sid iid body = Ok (r, id_set_objs (id_objs d) d2)"
proof -
  have acq: "surface_acquire (id_sd d) sid = Ok (Some t, sd_set_objs objs (id_sd d))" "image_acquire (id_set_objs objs d) iid = Ok (Some q, id_set_objs objs2 d)"
    using accounts_parts(1,3) [OF acc] t q
    by (simp_all add: surface_acquire_def image_acquire_def heap_acquire_find surf_inv_def handles_ok_def)
  have "b_data b \<noteq> []" using counted_buffer(5) [OF acc p(2)] by (simp add: buf_wf_def)
  then have src: "image_source (Some q) (id_set_objs objs2 d) = Ok (Some (im, p, b))"
    using q(2) p by (simp add: image_source_def image_at_def buffer_at_def)
  note f = icall_keeps_fields [OF b(2), simplified]
  have "image_drop (Some q) d2 = Ok (id_set_objs objs d2)" using image_drop_acquired [of d2 q im objs] q f by simp
  moreover have "surface_drop t (id_set_objs objs d2) = Ok (id_set_objs (id_objs d) d2)"
    using surface_drop_acquired [of "id_set_objs objs d2" t s "id_objs d"] t f by simp
  ultimately show ?thesis using acq t q src b(1) by (simp add: with_surface_image_def id_set_objs_fold surface_at_def)
qed

lemma with_surface_image_cases:
  assumes acc: "image_accounts (\<lambda>_. 0) d"
    and body: "\<And>t s q im p b objs. sd_surf (id_sd d) t = Some s \<Longrightarrow> id_img d q = Some im \<Longrightarrow> im_buffer im = Some p \<Longrightarrow>
      d_buf (id_drv d) p = Some b \<Longrightarrow> \<exists>r d2. body s im p b (id_set_objs objs d) = Ok (r, d2) \<and> icall_keeps (id_set_objs objs d) d2"
  obtains (refused) st where "with_surface_image d sid iid body = Ok (Inl st, d)"
  | (called) t s objs1 q im p b objs r d2 where "heap_find (sd_surface_heap (id_sd d)) sid = Some t" "sd_surf (id_sd d) t = Some s"
      "rk_object_ref t (id_objs d) = (True, objs1)"
      "heap_find (id_image_heap d) iid = Some q" "id_img d q = Some im" "im_buffer im = Some p" "d_buf (id_drv d) p = Some b"
      "body s im p b (id_set_objs objs d) = Ok (r, d2)" "icall_keeps (id_set_objs objs d) d2"
      "with_surface_image d sid iid body = Ok (r, id_set_objs (id_objs d) d2)"
proof (rule surface_acquire_cases [OF accounts_parts(1) [OF acc], of sid])
  assume t: "surface_acquire (id_sd d) sid = Ok (None, id_sd d)"
  show thesis
  proof (rule image_acquire_cases [OF accounts_parts(3) [OF acc], of iid])
    assume "image_acquire d iid = Ok (None, d)"
    with t refused show thesis by (simp add: with_surface_image_def image_drop_def)
  next
    fix q im objs assume q: "id_img d q = Some im" "rk_object_ref q (id_objs d) = (True, objs)" "image_acquire d iid = Ok (Some q, id_set_objs objs d)"
    have "image_drop (Some q) (id_set_objs objs d) = Ok d" using image_drop_acquired [of "id_set_objs objs d" q im "id_objs d"] q by simp
    with t q refused show thesis by (simp add: with_surface_image_def)
  qed
next
  fix t s objs assume t: "heap_find (sd_surface_heap (id_sd d)) sid = Some t" "sd_surf (id_sd d) t = Some s"
    "rk_object_ref t (id_objs d) = (True, objs)" "surface_acquire (id_sd d) sid = Ok (Some t, sd_set_objs objs (id_sd d))"
  let ?d = "id_set_objs objs d"
  have h: "handles_ok (id_image_heap ?d) (id_img ?d) (obj_refs (id_objs d))" using accounts_parts(3) [OF acc] by simp
  show thesis
  proof (rule image_acquire_cases [OF h, of iid])
    assume q: "image_acquire ?d iid = Ok (None, ?d)"
    have "surface_drop t ?d = Ok d" using surface_drop_acquired [of ?d t s "id_objs d"] t by simp
    with t q refused show thesis by (simp add: with_surface_image_def id_set_objs_fold image_drop_def image_source_def)
  next
    fix q im objs2 assume "heap_find (id_image_heap ?d) iid = Some q" "id_img ?d q = Some im" "rk_object_ref q (id_objs ?d) = (True, objs2)"
    then have q: "heap_find (id_image_heap d) iid = Some q" "id_img d q = Some im" "rk_object_ref q objs = (True, objs2)" by simp_all
    obtain p b where p: "im_buffer im = Some p" "d_buf (id_drv d) p = Some b" using counted_image(6) [OF acc q(2)] by blast
    obtain r d2 where b: "body s im p b (id_set_objs objs2 d) = Ok (r, d2)" "icall_keeps (id_set_objs objs2 d) d2" using body [OF t(2) q(2) p] by blast
    from called [OF t(1-3) q(1,2) p b] with_surface_image_runs [where body = body, OF acc t(1-3) q p b] show thesis by blast
  qed
qed

lemma put_call_ok:
  assumes "image_accounts E d" and "sd_surf (id_sd d) t = Some s" and "d_buf (id_drv d) p = Some b"
  shows "\<exists>r d2. obind (put_image e a s im b (id_sd (id_set_objs objs d))) (\<lambda>(r, sd). Ok (r, (id_set_objs objs d)\<lparr>id_sd := sd\<rparr>)) = Ok (r, d2) \<and>
    icall_keeps (id_set_objs objs d) d2"
proof -
  let ?d = "id_set_objs objs d"
  have "accounts {} {#} (id_sd ?d)" using accounts_parts(1) [OF assms(1)] by (simp add: surf_inv_def id_set_objs_def)
  from put_image_ok [OF this _ counted_buffer(5,4) [OF assms(1,3)], of t s e a im] assms(2) obtain r sd where
    sd: "put_image e a s im b (id_sd ?d) = Ok (r, sd)" "call_keeps (id_sd ?d) sd" by auto
  note f = call_keeps_fields [OF sd(2)]
  have "icall_keeps ?d (?d\<lparr>id_sd := sd\<rparr>)" using sd(2) f by (simp add: icall_keeps_def call_keeps_def option.rel_refl)
  with sd(1) show ?thesis by auto
qed

lemma get_call_ok:
  assumes "image_accounts E d" and "sd_surf (id_sd d) t = Some s" and "d_buf (id_drv d) p = Some b" and "image_ok im"
  shows "\<exists>r d2. obind (get_image e a s im b (id_sd (id_set_objs objs d))) (\<lambda>(r, b, sd).
      Ok (r, id_set_drv (buffer_set p b (sd_drv sd)) ((id_set_objs objs d)\<lparr>id_sd := sd\<rparr>))) = Ok (r, d2) \<and>
    icall_keeps (id_set_objs objs d) d2"
proof -
  let ?d = "id_set_objs objs d"
  have "accounts {} {#} (id_sd ?d)" using accounts_parts(1) [OF assms(1)] by (simp add: surf_inv_def id_set_objs_def)
  moreover have "sd_surf (id_sd ?d) t = Some s" using assms(2) by simp
  ultimately obtain r b' sd where g: "get_image e a s im b (id_sd ?d) = Ok (r, b', sd)" "buf_keeps True b b'" "call_keeps (id_sd ?d) sd"
    using get_image_ok [OF _ _ counted_buffer(5,4) [OF assms(1,3)] assms(4)] by metis
  note f = call_keeps_fields [OF g(3)]
  have "icall_keeps ?d (id_set_drv (buffer_set p b' (sd_drv sd)) (?d\<lparr>id_sd := sd\<rparr>))"
    using g(2,3) f assms(3) by (simp add: icall_keeps_def call_keeps_def id_set_drv_def buffer_set_def option.rel_refl)
  with g(1) show ?thesis by auto
qed

section \<open>Sequences of calls\<close>

datatype img_op =
    Iop_Buffer buf_op
  | Iop_Surface surf_op
  | Iop_Create image_env "VAImageFormat option" int int bool
  | Iop_Destroy u32
  | Iop_Put copy_env put_rect u32 u32
  | Iop_Get copy_env "int \<times> int \<times> u32 \<times> u32" u32 u32

fun img_step :: "img_op \<Rightarrow> IDriver \<Rightarrow> IDriver outcome" where
  "img_step (Iop_Buffer a) d =
     (case a of Op_Destroy i \<Rightarrow> idestroy_buffer i d | _ \<Rightarrow> obind (buf_step a (id_drv d)) (\<lambda>drv. Ok (id_set_drv drv d)))"
| "img_step (Iop_Surface a) d = obind (surf_step a (id_sd d)) (\<lambda>sd. Ok (d\<lparr>id_sd := sd\<rparr>))"
| "img_step (Iop_Create e format w h given) d = obind (rk_CreateImage e d format w h given) (\<lambda>(r, d). Ok d)"
| "img_step (Iop_Destroy iid) d = obind (rk_DestroyImage d iid) (\<lambda>(r, d). Ok d)"
| "img_step (Iop_Put e a sid iid) d = obind (rk_PutImage e a d sid iid) (\<lambda>(r, d). Ok d)"
| "img_step (Iop_Get e a sid iid) d = obind (rk_GetImage e a d sid iid) (\<lambda>(r, d). Ok d)"

fun img_run :: "img_op list \<Rightarrow> IDriver \<Rightarrow> IDriver outcome" where
  "img_run [] d = Ok d"
| "img_run (a # as) d = obind (img_step a d) (img_run as)"

fun img_op_ok :: "img_op \<Rightarrow> bool" where
  "img_op_ok (Iop_Buffer a) \<longleftrightarrow> buf_op_ok a"
| "img_op_ok (Iop_Surface a) \<longleftrightarrow> surf_op_ok a"
| "img_op_ok _ \<longleftrightarrow> True"

lemma store_ok_mono: "store_ok k m \<Longrightarrow> k \<le> k' \<Longrightarrow> store_ok k' m"
  by (fastforce simp: store_ok_def)

lemma surf_step_accounts:
  assumes "image_accounts (\<lambda>_. 0) d" and "surf_op_ok a"
  shows "\<exists>sd. surf_step a (id_sd d) = Ok sd \<and> image_accounts (\<lambda>_. 0) (d\<lparr>id_sd := sd\<rparr>)"
proof -
  note p = accounts_parts [OF assms(1)]
  obtain sd where sd: "surf_step a (id_sd d) = Ok sd" "surf_inv sd" "others_keep (id_sd d) sd" using surf_step_ok [OF p(1) assms(2)] by blast
  then have k: "d_buf (sd_drv sd) = d_buf (id_drv d)" "d_buffer_heap (sd_drv sd) = d_buffer_heap (id_drv d)" "d_brk (id_drv d) \<le> sd_brk sd"
      "\<And>q. q < d_brk (id_drv d) \<Longrightarrow> sd_surf (id_sd d) q = None \<Longrightarrow> sd_surf sd q = None \<and> obj_refs (sd_objs sd) q = obj_refs (id_objs d) q"
    by (simp_all add: others_keep_def)
  have b: "sd_surf sd q = None \<and> obj_refs (sd_objs sd) q = obj_refs (id_objs d) q" if "d_buf (id_drv d) q = Some b" for q b
    using k(4) counted_buffer(1,2) [OF assms(1) that] by blast
  have im: "sd_surf sd q = None \<and> obj_refs (sd_objs sd) q = obj_refs (id_objs d) q" if "id_img d q = Some im" for q im
    using k(4) counted_image(1,2) [OF assms(1) that] by blast
  have "handles_ok (d_buffer_heap (id_drv d)) (d_buf (id_drv d)) (obj_refs (sd_objs sd))"
    by (rule handles_ok_frame [where refs = "obj_refs (id_objs d)"]) (use p(2) b in \<open>auto simp: drv_inv_def\<close>)
  then have "drv_inv (sd_drv sd)" using p(2) k(3) store_ok_mono by (auto simp: drv_inv_def k(1,2))
  moreover have "handles_ok (id_image_heap d) (id_img d) (obj_refs (sd_objs sd))"
    by (rule handles_ok_frame [OF p(3)]) (use im in auto)
  moreover have "buffers_counted (\<lambda>_. 0) (d\<lparr>id_sd := sd\<rparr>)" using p(6) b unfolding buffers_counted_def by (auto simp: k(1,2))
  moreover have "images_counted (\<lambda>_. 0) (d\<lparr>id_sd := sd\<rparr>)" using p(7) im k(3) unfolding images_counted_def by (fastforce simp: k(1))
  ultimately show ?thesis using sd p(4) by (auto simp: image_accounts_def)
qed

lemma buf_local_accounts:
  assumes "image_accounts (\<lambda>_. 0) d" and "local_body w body"
    and "buf_step a (id_drv d) = obind (with_buffer (id_drv d) i body) (\<lambda>(r, d). Ok d)"
  shows "\<exists>drv. buf_step a (id_drv d) = Ok drv \<and> image_accounts (\<lambda>_. 0) (id_set_drv drv d)"
proof (rule with_buffer_local [OF accounts_parts(2) [OF assms(1)] assms(2), of i])
  assume "with_buffer (id_drv d) i body = Ok (Inl VA_STATUS_ERROR_INVALID_BUFFER, id_drv d)"
  with assms(1,3) show ?thesis by simp
next
  fix p b r b' evs assume p: "d_buf (id_drv d) p = Some b"
    and r: "with_buffer (id_drv d) i body = Ok (r, buffer_set p b' (sys_log evs (id_drv d)))" "buf_keeps w b b'"
  have "buf_keeps True b b'" using r(2) by (simp add: buf_keeps_def)
  with p have "icall_keeps d (id_set_drv (buffer_set p b' (sys_log evs (id_drv d))) d)"
    by (simp add: icall_keeps_def call_keeps_def id_set_drv_def buffer_set_def option.rel_refl)
  from icall_keeps_accounts [OF this assms(1)] assms(3) r(1) show ?thesis by simp
qed

lemma buf_step_accounts:
  assumes "image_accounts (\<lambda>_. 0) d" and "buf_op_ok a" and "\<And>i. a \<noteq> Op_Destroy i"
  shows "\<exists>drv. buf_step a (id_drv d) = Ok drv \<and> image_accounts (\<lambda>_. 0) (id_set_drv drv d)"
proof (cases a)
  case (Op_Create m type each num data)
  have "unat each * unat num \<le> length src" if "data = Some src" for src using assms(2) Op_Create that by simp
  from create_buffer_ok [where m = m and type = type, OF assms(1) this] Op_Create show ?thesis by fastforce
next
  case (Op_Resize mem_ok i n)
  then show ?thesis by (intro buf_local_accounts [OF assms(1) local_calls(1)]) (simp add: rk_BufferSetNumElements_def)
next
  case (Op_Map e i)
  then show ?thesis by (intro buf_local_accounts [OF assms(1) local_map]) (simp add: rk_MapBuffer_def)
next
  case (Op_Unmap e i)
  then show ?thesis by (intro buf_local_accounts [OF assms(1) local_calls(2)]) (simp add: rk_UnmapBuffer_def)
next
  case (Op_Store i data)
  then show ?thesis by (intro buf_local_accounts [OF assms(1) local_calls(3)]) (simp add: rk_store_coded_def)
next
  case (Op_Handle e prime i)
  then show ?thesis by (intro buf_local_accounts [OF assms(1) local_handle]) (simp add: rk_buffer_acquire_handle_def)
next
  case (Op_Release i)
  then show ?thesis by (intro buf_local_accounts [OF assms(1) local_calls(4)]) (simp add: rk_buffer_release_handle_def)
next
  case (Op_Info i)
  then show ?thesis by (intro buf_local_accounts [OF assms(1) local_calls(5)]) (simp add: rk_BufferInfo_def)
qed (use assms(3) in blast)

lemma with_surface_image_accounts:
  assumes acc: "image_accounts (\<lambda>_. 0) d"
    and body: "\<And>t s q im p b objs. sd_surf (id_sd d) t = Some s \<Longrightarrow> id_img d q = Some im \<Longrightarrow> im_buffer im = Some p \<Longrightarrow>
      d_buf (id_drv d) p = Some b \<Longrightarrow> \<exists>r d2. body s im p b (id_set_objs objs d) = Ok (r, d2) \<and> icall_keeps (id_set_objs objs d) d2"
  shows "\<exists>r d'. with_surface_image d sid iid body = Ok (r, d') \<and> image_accounts (\<lambda>_. 0) d'"
proof (rule with_surface_image_cases [OF acc, of body sid iid])
  show "\<exists>r d2. body s im p b (id_set_objs objs d) = Ok (r, d2) \<and> icall_keeps (id_set_objs objs d) d2"
    if "sd_surf (id_sd d) t = Some s" "id_img d q = Some im" "im_buffer im = Some p" "d_buf (id_drv d) p = Some b" for t s q im p b objs
    using body that by blast
qed (use acc icall_keeps_accounts [OF icall_keeps_objs acc] in auto)

lemma image_call_accounts:
  assumes "image_accounts (\<lambda>_. 0) d"
  shows "\<exists>r d'. rk_PutImage e a d sid iid = Ok (r, d') \<and> image_accounts (\<lambda>_. 0) d'"
    "\<exists>r d'. rk_GetImage e a' d sid iid = Ok (r, d') \<and> image_accounts (\<lambda>_. 0) d'"
  unfolding rk_PutImage_def rk_GetImage_def
  by (rule with_surface_image_accounts [OF assms], rule put_call_ok [OF assms], assumption, assumption)
     (rule with_surface_image_accounts [OF assms], rule get_call_ok [OF assms], assumption, assumption, rule counted_image(3) [OF assms], assumption)

lemma img_step_ok:
  assumes "image_accounts (\<lambda>_. 0) d" and "img_op_ok a"
  shows "\<exists>d'. img_step a d = Ok d' \<and> image_accounts (\<lambda>_. 0) d'"
proof (cases a)
  case (Iop_Buffer b)
  show ?thesis
  proof (cases "\<exists>i. b = Op_Destroy i")
    case True
    then obtain i where b: "b = Op_Destroy i" by blast
    obtain drv where "idestroy_buffer i d = Ok (id_set_drv drv d)" "image_accounts (\<lambda>_. 0) (id_set_drv drv d)"
      by (rule idestroy_buffer_ok [OF assms(1)])
    with Iop_Buffer b show ?thesis by simp
  next
    case False
    then have "img_step a d = obind (buf_step b (id_drv d)) (\<lambda>drv. Ok (id_set_drv drv d))" using Iop_Buffer by (simp split: buf_op.splits)
    with buf_step_accounts [OF assms(1), of b] False assms(2) Iop_Buffer show ?thesis by auto
  qed
next
  case (Iop_Surface b)
  with surf_step_accounts [OF assms(1), of b] assms(2) show ?thesis by auto
next
  case (Iop_Create e format w h given)
  with create_image_ok [OF assms(1), of e format w h given] show ?thesis by auto
next
  case (Iop_Destroy iid)
  with destroy_image_ok [OF assms(1), of iid] show ?thesis by auto
next
  case (Iop_Put e r sid iid)
  with image_call_accounts(1) [OF assms(1), of e r sid iid] show ?thesis by auto
next
  case (Iop_Get e r sid iid)
  with image_call_accounts(2) [OF assms(1), of e r sid iid] show ?thesis by auto
qed

lemma img_run_ok: "image_accounts (\<lambda>_. 0) d \<Longrightarrow> list_all img_op_ok ops \<Longrightarrow> \<exists>d'. img_run ops d = Ok d' \<and> image_accounts (\<lambda>_. 0) d'"
proof (induction ops arbitrary: d)
  case (Cons a ops)
  then obtain d1 where "img_step a d = Ok d1" "image_accounts (\<lambda>_. 0) d1" using img_step_ok [of d a] by auto
  with Cons show ?case by auto
qed simp

section \<open>Putting a picture and getting it back\<close>

text \<open>What a successful \<open>rk_PutImage\<close> leaves behind.\<close>

lemma put_success:
  assumes acc: "image_accounts (\<lambda>_. 0) d" and put: "rk_PutImage e a d sid iid = Ok (Inr (), d1)"
    and surf: "heap_find (sd_surface_heap (id_sd d)) sid = Some t" "sd_surf (id_sd d) t = Some s"
    and src: "heap_find (id_image_heap d) iid = Some q" "id_img d q = Some im" "im_buffer im = Some p" "d_buf (id_drv d) p = Some b"
  obtains g m bytes objs where "rk_object_ref t (id_objs d) = (True, objs)" "icall_keeps d d1" "d_buf (id_drv d1) = d_buf (id_drv d)"
    "sf_priv_buf s = Some g" "put_passes e a s im b m" "sd_mem (id_sd d1) g = Some (m\<lparr>mb_bytes := bytes\<rparr>)" "same_picture s im (b_data b) bytes"
proof (rule with_surface_image_cases [OF acc, of "\<lambda>s im p b d. obind (put_image e a s im b (id_sd d)) (\<lambda>(r, sd). Ok (r, d\<lparr>id_sd := sd\<rparr>))" sid iid])
  show "\<exists>r d2. obind (put_image e a s im b (id_sd (id_set_objs objs d))) (\<lambda>(r, sd). Ok (r, (id_set_objs objs d)\<lparr>id_sd := sd\<rparr>)) = Ok (r, d2) \<and>
      icall_keeps (id_set_objs objs d) d2"
    if "sd_surf (id_sd d) t = Some s" "d_buf (id_drv d) p = Some b" for t s im p b objs
    by (rule put_call_ok [OF acc that])
next
  fix st assume "with_surface_image d sid iid (\<lambda>s im p b d. obind (put_image e a s im b (id_sd d)) (\<lambda>(r, sd). Ok (r, d\<lparr>id_sd := sd\<rparr>))) = Ok (Inl st, d)"
  with put show thesis by (simp add: rk_PutImage_def)
next
  fix t' s' objs1 q' im' p' b' objs r d2
  assume "heap_find (sd_surface_heap (id_sd d)) sid = Some t'" "sd_surf (id_sd d) t' = Some s'" "rk_object_ref t' (id_objs d) = (True, objs1)"
    "heap_find (id_image_heap d) iid = Some q'" "id_img d q' = Some im'" "im_buffer im' = Some p'" "d_buf (id_drv d) p' = Some b'"
    and bd: "obind (put_image e a s' im' b' (id_sd (id_set_objs objs d))) (\<lambda>(r, sd). Ok (r, (id_set_objs objs d)\<lparr>id_sd := sd\<rparr>)) = Ok (r, d2)"
    and keeps: "icall_keeps (id_set_objs objs d) d2"
    and res: "with_surface_image d sid iid (\<lambda>s im p b d. obind (put_image e a s im b (id_sd d)) (\<lambda>(r, sd). Ok (r, d\<lparr>id_sd := sd\<rparr>))) =
      Ok (r, id_set_objs (id_objs d) d2)"
  with surf src have eq: "s' = s" "im' = im" "b' = b" and ref: "rk_object_ref t (id_objs d) = (True, objs1)" by auto
  from res put have r: "r = Inr ()" "d1 = id_set_objs (id_objs d) d2" by (simp_all add: rk_PutImage_def)
  from bd eq r(1) obtain sd where sd: "put_image e a s im b (id_sd (id_set_objs objs d)) = Ok (Inr (), sd)" "d2 = (id_set_objs objs d)\<lparr>id_sd := sd\<rparr>" by auto
  let ?sd = "id_sd (id_set_objs objs d)"
  have a: "accounts {} {#} ?sd" "sd_surf ?sd t = Some s"
    using accounts_parts(1) [OF acc] surf(2) by (simp_all add: surf_inv_def id_set_objs_def)
  show thesis
  proof (rule put_image_cases [OF a counted_buffer(5,4) [OF acc src(4)], of e a im])
    fix g m assume g: "sf_priv_buf s = Some g" "sd_mem ?sd g = Some m"
      and no: "\<not> put_passes e a s im b m \<Longrightarrow> put_image e a s im b ?sd = Ok (Inl VA_STATUS_ERROR_OPERATION_FAILED, ?sd)"
      and yes: "put_passes e a s im b m \<Longrightarrow> \<exists>bytes evs. init_prefix (unat (mb_size m)) bytes \<and> same_picture s im (b_data b) bytes \<and>
        put_image e a s im b ?sd = Ok (if cp_end e then Inr () else Inl VA_STATUS_ERROR_OPERATION_FAILED, mem_set g bytes (sd_sync evs ?sd))"
    have pass: "put_passes e a s im b m" using no sd(1) by auto
    from yes [OF this] sd(1) obtain bytes evs where bt: "same_picture s im (b_data b) bytes" "sd = mem_set g bytes (sd_sync evs ?sd)"
      by (auto split: if_splits)
    have "sd_mem (id_sd d1) g = Some (m\<lparr>mb_bytes := bytes\<rparr>)" "d_buf (id_drv d1) = d_buf (id_drv d)"
      using r(2) sd(2) bt(2) g(2) by (simp_all add: id_set_objs_def mem_set_def)
    with that [OF ref _ _ g(1) pass _ bt(1)] icall_keeps_objs [OF keeps] r(2) show thesis by simp
  qed
qed

lemma get_success:
  assumes acc: "image_accounts (\<lambda>_. 0) d"
    and surf: "heap_find (sd_surface_heap (id_sd d)) sid = Some t" "sd_surf (id_sd d) t = Some s" "rk_object_ref t (id_objs d) = (True, objs)"
    and dst: "heap_find (id_image_heap d) iid = Some q" "id_img d q = Some im" "im_buffer im = Some p" "d_buf (id_drv d) p = Some b"
    and src: "\<not> sf_imported_multiplane s" "get_source s = Some g" "sd_mem (id_sd d) g = Some m" "mb_ptr m"
    and pass: "get_full_frame a im s" "get_passes e s im b m" "cp_end e"
  obtains d2 c where "rk_GetImage e a d sid iid = Ok (Inr (), d2)" "d_buf (id_drv d2) p = Some c"
    "pictured im (b_data c) (unat (get_pitch s)) (unat (get_pitch s * stride_rows s)) (unat (row_bytes s)) (chroma_row im (row_bytes s))
       (nat (sf_height s)) (mb_bytes m)"
proof -
  note ci = counted_image [OF acc dst(2)]
  have "unat (obj_refs (id_objs d) q) = 1" using ci(5) named_pos [OF dst(1)] by simp
  then have one: "obj_refs (id_objs d) q = 1" by (simp add: word_unat_eq_iff)
  have "q \<noteq> t" using ci(2) surf(2) by auto
  with surf(3) one have "obj_refs objs q = 1" by (auto simp: rk_object_ref_def Let_def split: if_splits)
  then obtain objs2 where ref: "rk_object_ref q objs = (True, objs2)" by (simp add: rk_object_ref_def Let_def)
  let ?d = "id_set_objs objs2 d"
  have a: "accounts {} {#} (id_sd ?d)" "sd_surf (id_sd ?d) t = Some s" "sd_mem (id_sd ?d) g = Some m"
    using accounts_parts(1) [OF acc] surf(2) src(3) by (simp_all add: surf_inv_def id_set_objs_def)
  from get_image_ok [OF a(1,2) counted_buffer(5,4) [OF acc dst(4)] ci(3), of e a] obtain r c sd where
    g: "get_image e a s im b (id_sd ?d) = Ok (r, c, sd)"
    and k: "\<And>g m. \<not> sf_imported_multiplane s \<Longrightarrow> get_source s = Some g \<Longrightarrow> sd_mem (id_sd ?d) g = Some m \<Longrightarrow> get_full_frame a im s \<Longrightarrow>
       get_passes e s im b m \<Longrightarrow> mb_ptr m \<Longrightarrow> cp_end e \<Longrightarrow> r = Inr () \<and> pictured im (b_data c) (unat (get_pitch s))
         (unat (get_pitch s * stride_rows s)) (unat (row_bytes s)) (chroma_row im (row_bytes s)) (nat (sf_height s)) (mb_bytes m)"
    by metis
  note res = k [OF src(1,2) a(3) pass(1,2) src(4) pass(3)]
  let ?body = "\<lambda>s im p b d. obind (get_image e a s im b (id_sd d)) (\<lambda>(r, b, sd). Ok (r, id_set_drv (buffer_set p b (sd_drv sd)) (d\<lparr>id_sd := sd\<rparr>)))"
  let ?d2 = "id_set_drv (buffer_set p c (sd_drv sd)) (?d\<lparr>id_sd := sd\<rparr>)"
  have b: "?body s im p b ?d = Ok (Inr (), ?d2)" using g res by simp
  with get_call_ok [OF acc surf(2) dst(4) ci(3), of e a objs2] have "icall_keeps ?d ?d2" by auto
  from with_surface_image_runs [where body = ?body, OF acc surf dst(1,2) ref dst(3,4) b this]
  have "rk_GetImage e a d sid iid = Ok (Inr (), id_set_objs (id_objs d) ?d2)" by (simp only: rk_GetImage_def)
  then show thesis by (rule that [where c = c]) (use res in simp_all)
qed

section \<open>Properties\<close>

definition images_start :: IDriver where
  "images_start = \<lparr>id_sd = surfaces_start, id_image_heap = zero_heap\<lparr>heap_type := 5, free_head := NO_SLOT\<rparr>, id_img = Map.empty\<rparr>"

lemma images_start_accounts: "image_accounts (\<lambda>_. 0) images_start"
proof -
  let ?h = "zero_heap\<lparr>heap_type := 5, free_head := NO_SLOT\<rparr>"
  have "rk_object_heap_init 5 = Some ?h" by (simp add: rk_object_heap_init_def valid_type_def)
  from heap_init_inv [OF this] have h: "heap_inv ?h" "heap_find ?h i = None" for i
    by (auto simp: heap_find_def split: option.splits)
  have "sd_drv surfaces_start = driver_start" "d_buf driver_start = Map.empty" by (simp_all add: surfaces_start_def driver_start_def)
  with h surfaces_start_inv driver_start_inv show ?thesis
    by (simp add: image_accounts_def images_start_def handles_ok_def buffers_counted_def images_counted_def)
qed

text \<open>
  C14: whatever buffers, surfaces and images an application creates and destroys, and whatever pictures
  it copies between surfaces and images, in any order and with any identifiers, no call touches a
  destroyed object or reads or writes outside a memory, as long as no image is derived. The number of
  references to a buffer is at every moment exactly one for its identifier and one for each image made
  of it, the planes of every image follow one another, and its buffer is alive.
\<close>

theorem image_calls_safe:
  assumes "list_all img_op_ok ops"
  shows "\<exists>d. img_run ops images_start = Ok d \<and> mset (sd_open (id_sd d)) = held_by (sd_surf (id_sd d)) \<and>
    (\<forall>p b. d_buf (id_drv d) p = Some b \<longrightarrow>
       unat (obj_refs (id_objs d) p) = named (d_buffer_heap (id_drv d)) p + image_count (id_img d) p) \<and>
    (\<forall>q im. id_img d q = Some im \<longrightarrow> image_live (d_buf (id_drv d)) im)"
proof -
  obtain d where d: "img_run ops images_start = Ok d" "image_accounts (\<lambda>_. 0) d"
    using img_run_ok [OF images_start_accounts assms] by blast
  note a = accounts_parts [OF d(2)]
  have "mset (sd_open (id_sd d)) = held_by (sd_surf (id_sd d))" using a(1) by (simp add: surf_inv_def accounts_def)
  with d(1) a(6,7) show ?thesis unfolding buffers_counted_def images_counted_def by auto
qed

definition demo_image_env :: image_env where
  "demo_image_env = \<lparr>ime_buffer = demo_mem, ime_object = True, ime_heap = True\<rparr>"

definition demo_copy_env :: copy_env where
  "demo_copy_env = \<lparr>cp_start = True, cp_end = True, cp_norm = demo_norm_env\<rparr>"

definition whole_frame :: "u32 \<Rightarrow> u32 \<Rightarrow> put_rect" where
  "whole_frame w h = \<lparr>pr_src_x = 0, pr_src_y = 0, pr_src_width = w, pr_src_height = h,
     pr_dest_x = 0, pr_dest_y = 0, pr_dest_width = w, pr_dest_height = h\<rparr>"

theorem image_calls_safe_witness:
  "\<exists>d. img_run [Iop_Surface (Sop_Create (\<lambda>_. demo_create_env) 64 32 VA_RT_FORMAT_YUV420 1 True),
       Iop_Create demo_image_env (Some (image_format VA_FOURCC_NV12 12)) 64 32 True,
       Iop_Create demo_image_env (Some (image_format VA_FOURCC_I420 12)) 64 32 True,
       Iop_Put demo_copy_env (whole_frame 64 32) 0x30100000 0x50100000, Iop_Get demo_copy_env (0, 0, 64, 32) 0x30100000 0x50100000,
       Iop_Buffer (Op_Destroy 0x40100000), Iop_Destroy 0x50100000, Iop_Surface (Sop_Destroy [0x30100000]), Iop_Destroy 0x50100000] images_start = Ok d \<and>
    mset (sd_open (id_sd d)) = held_by (sd_surf (id_sd d)) \<and>
    (\<forall>p b. d_buf (id_drv d) p = Some b \<longrightarrow>
       unat (obj_refs (id_objs d) p) = named (d_buffer_heap (id_drv d)) p + image_count (id_img d) p) \<and>
    (\<forall>q im. id_img d q = Some im \<longrightarrow> image_live (d_buf (id_drv d)) im)"
  by (rule image_calls_safe) (simp add: demo_create_env_ok)

text \<open>
  C15: a picture survives the way through a surface. Whenever \<open>rk_PutImage\<close> has succeeded on a surface
  with memory of its own, \<open>rk_GetImage\<close> into any image of that format with room for the picture
  succeeds if the kernel lets it access the memory, and every luma and chroma sample it delivers is the
  one that was put, for semi-planar, planar and ten-bit formats and whatever pitches the two images and
  the surface have.
\<close>

theorem put_get_roundtrip:
  assumes acc: "image_accounts (\<lambda>_. 0) d"
    and surf: "heap_find (sd_surface_heap (id_sd d)) sid = Some t" "sd_surf (id_sd d) t = Some s"
      "sf_frame s = None" "sf_backing_buf s = None" "\<not> sf_imported_multiplane s" "\<not> sf_imported_rgb s"
    and src: "heap_find (id_image_heap d) iid = Some q" "id_img d q = Some im" "im_buffer im = Some p" "d_buf (id_drv d) p = Some b"
    and dst: "heap_find (id_image_heap d) iid' = Some q'" "id_img d q' = Some im'" "im_buffer im' = Some p'" "d_buf (id_drv d) p' = Some b'"
      "im_fourcc im' = im_fourcc im" "im_width im \<le> im_width im'" "im_height im \<le> im_height im'"
      "image_layout_valid im' (of_int (sf_width s)) (row_bytes s) (of_int (sf_height s)) (b_capacity b')"
    and put: "rk_PutImage e a d sid iid = Ok (Inr (), d1)" and env: "cp_start e'" "cp_end e'"
  shows "\<exists>d2 c. rk_GetImage e' (0, 0, of_int (sf_width s), of_int (sf_height s)) d1 sid iid' = Ok (Inr (), d2) \<and>
    d_buf (id_drv d2) p' = Some c \<and>
    (\<forall>r < nat (sf_height s). \<forall>k < unat (row_bytes s). image_luma im' (b_data c) r k = image_luma im (b_data b) r k) \<and>
    (\<forall>r < nat (sf_height s) div 2. \<forall>k < chroma_row im (row_bytes s). image_chroma im' (b_data c) r k = image_chroma im (b_data b) r k)"
proof -
  obtain g m bytes objs where w: "rk_object_ref t (id_objs d) = (True, objs)" "icall_keeps d d1" "d_buf (id_drv d1) = d_buf (id_drv d)"
      "sf_priv_buf s = Some g" "put_passes e a s im b m" "sd_mem (id_sd d1) g = Some (m\<lparr>mb_bytes := bytes\<rparr>)" "same_picture s im (b_data b) bytes"
    by (rule put_success [OF acc put surf(1,2) src])
  note f = icall_keeps_fields [OF w(2)] and acc1 = icall_keeps_accounts [OF w(2) acc]
  have ok: "surface_ok True (sd_mem (id_sd d)) s"
    using accounts_parts(1) [OF acc] surf(2) accounts_surface [of "{}" "{#}" "id_sd d" t s] by (simp add: surf_inv_def)
  have "pitch_bytes s \<noteq> 0" using w(5) surface_picture(2) [OF ok] by (auto simp: put_passes_def)
  then have P: "get_pitch s = pitch_bytes s" by (auto simp: get_pitch_def pitch_bytes_def)
  have imp: "sf_import_buf s = None" "put_full_frame a im s" using w(5) by (simp_all add: put_passes_def)
  have pass: "get_passes e' s im' b' (m\<lparr>mb_bytes := bytes\<rparr>)"
    using w(5) dst(5,8) env(1) surf(6) unfolding get_passes_def P put_passes_def by simp
  have full: "get_full_frame (0, 0, of_int (sf_width s), of_int (sf_height s)) im' s"
    using imp(2) dst(6,7) by (auto simp: get_full_frame_def put_full_frame_def)
  have source: "get_source s = Some g" using imp(1) surf(3,4,5) w(4) by (simp add: get_source_def active_buffer_def)
  obtain d2 c where "rk_GetImage e' (0, 0, of_int (sf_width s), of_int (sf_height s)) d1 sid iid' = Ok (Inr (), d2)" "d_buf (id_drv d2) p' = Some c"
      "pictured im' (b_data c) (unat (get_pitch s)) (unat (get_pitch s * stride_rows s)) (unat (row_bytes s)) (chroma_row im' (row_bytes s))
         (nat (sf_height s)) (mb_bytes (m\<lparr>mb_bytes := bytes\<rparr>))"
    by (rule get_success [OF acc1, of sid t s objs iid' q' im' p' b' g "m\<lparr>mb_bytes := bytes\<rparr>"])
       (use f surf w dst source full pass env in \<open>simp_all add: put_passes_def\<close>)
  with w(7) show ?thesis unfolding P same_picture_def pictured_def chroma_row_def dst(5) by (auto simp: dst(5))
qed

section \<open>A small driver\<close>

text \<open>A surface of two by two pixels in six bytes of memory, and two images of its size.\<close>

definition enter_heap :: "RKObjectHeap \<Rightarrow> nat \<Rightarrow> RKObjectHeap" where
  "enter_heap h p = (case rk_object_heap_insert True h p of Ok (Some i, h') \<Rightarrow> h' | _ \<Rightarrow> h)"

definition empty_heap :: "u32 \<Rightarrow> RKObjectHeap" where
  "empty_heap type = zero_heap\<lparr>heap_type := type, free_head := NO_SLOT\<rparr>"

definition issues :: "RKObjectHeap \<Rightarrow> nat \<Rightarrow> u32 \<Rightarrow> bool" where
  "issues h p i \<longleftrightarrow> (case rk_object_heap_insert True h p of Ok (Some j, h') \<Rightarrow> j = i | _ \<Rightarrow> False)"

lemma enter_heap_find:
  assumes "heap_inv h" and "issues h p i"
  shows "heap_inv (enter_heap h p)" "heap_find (enter_heap h p) = (heap_find h)(i \<mapsto> p)"
proof -
  from assms(2) obtain h' where ins: "rk_object_heap_insert True h p = Ok (Some i, h')"
    by (auto simp: issues_def split: outcome.splits option.splits)
  then show "heap_inv (enter_heap h p)" "heap_find (enter_heap h p) = (heap_find h)(i \<mapsto> p)"
    using heap_map.ins_inv [OF assms(1) ins] heap_map.ins_find [OF assms(1) ins] by (simp_all add: enter_heap_def)
qed

lemma empty_heap_find:
  assumes "valid_type type"
  shows "heap_inv (empty_heap type)" "heap_find (empty_heap type) = Map.empty"
proof -
  have "rk_object_heap_init type = Some (empty_heap type)" using assms by (simp add: rk_object_heap_init_def empty_heap_def)
  from heap_init_inv [OF this] show "heap_inv (empty_heap type)" "heap_find (empty_heap type) = Map.empty"
    by (auto simp: heap_find_def fun_eq_iff split: option.splits)
qed

definition demo_pixels :: "VAFourcc \<Rightarrow> SurfaceObject" where
  "demo_pixels f = (zero_surface 2 2 f)\<lparr>sf_priv_buf := Some 1, sf_hstride := 2, sf_vstride := 2\<rparr>"

definition demo_image_buffer :: "u8 \<Rightarrow> RKBuffer" where
  "demo_image_buffer x = (fresh_buffer VAImageBufferType 48 1 48)\<lparr>b_data := replicate 48 (Some x)\<rparr>"

definition demo_picture :: "VAFourcc \<Rightarrow> u32 \<Rightarrow> nat \<Rightarrow> RKImage" where
  "demo_picture f bid p = image_object f 2 2 16 (if planar_fourcc f then 8 else 16) bid p"

definition demo_driver :: "VAFourcc \<Rightarrow> IDriver" where
  "demo_driver f =
     \<lparr>id_sd = \<lparr>sd_drv = \<lparr>d_objs = \<lparr>obj_refs = (\<lambda>p. if p = 2 \<or> p = 3 then 2 else if p < 6 then 1 else 0), obj_destroyed = []\<rparr>, d_brk = 6,
        d_buffer_heap = enter_heap (enter_heap (empty_heap 4) 2) 3, d_buf = [2 \<mapsto> demo_image_buffer 7, 3 \<mapsto> demo_image_buffer 0], d_sys = []\<rparr>,
        sd_surface_heap = enter_heap (empty_heap 3) 0, sd_surf = [0 \<mapsto> demo_pixels f],
        sd_mem = [1 \<mapsto> \<lparr>mb_fd = 9, mb_size = 6, mb_ptr = True, mb_bytes = replicate 6 (Some 0)\<rparr>], sd_open = [R_Buffer 1]\<rparr>,
      id_image_heap = enter_heap (enter_heap (empty_heap 5) 4) 5,
      id_img = [4 \<mapsto> demo_picture f 0x40100000 2, 5 \<mapsto> demo_picture f 0x40100001 3]\<rparr>"

lemma demo_heaps:
  "heap_inv (sd_surface_heap (id_sd (demo_driver f)))" "heap_find (sd_surface_heap (id_sd (demo_driver f))) = [0x30100000 \<mapsto> 0]"
  "heap_inv (d_buffer_heap (id_drv (demo_driver f)))" "heap_find (d_buffer_heap (id_drv (demo_driver f))) = [0x40100000 \<mapsto> 2, 0x40100001 \<mapsto> 3]"
  "heap_inv (id_image_heap (demo_driver f))" "heap_find (id_image_heap (demo_driver f)) = [0x50100000 \<mapsto> 4, 0x50100001 \<mapsto> 5]"
proof -
  have valid: "valid_type 3" "valid_type 4" "valid_type 5" by (simp_all add: valid_type_def)
  note e3 = empty_heap_find [OF valid(1)] and e4 = empty_heap_find [OF valid(2)] and e5 = empty_heap_find [OF valid(3)]
  have i: "issues (empty_heap 3) 0 0x30100000" "issues (empty_heap 4) 2 0x40100000" "issues (enter_heap (empty_heap 4) 2) 3 0x40100001"
      "issues (empty_heap 5) 4 0x50100000" "issues (enter_heap (empty_heap 5) 4) 5 0x50100001" by code_simp+
  note f3 = enter_heap_find [OF e3(1) i(1)] and f4 = enter_heap_find [OF e4(1) i(2)] and f5 = enter_heap_find [OF e5(1) i(4)]
  note g4 = enter_heap_find [OF f4(1) i(3)] and g5 = enter_heap_find [OF f5(1) i(5)]
  show "heap_inv (sd_surface_heap (id_sd (demo_driver f)))" "heap_find (sd_surface_heap (id_sd (demo_driver f))) = [0x30100000 \<mapsto> 0]"
    "heap_inv (d_buffer_heap (id_drv (demo_driver f)))" "heap_find (d_buffer_heap (id_drv (demo_driver f))) = [0x40100000 \<mapsto> 2, 0x40100001 \<mapsto> 3]"
    "heap_inv (id_image_heap (demo_driver f))" "heap_find (id_image_heap (demo_driver f)) = [0x50100000 \<mapsto> 4, 0x50100001 \<mapsto> 5]"
    using f3 g4 g5 f4(2) f5(2) e3(2) e4(2) e5(2) by (simp_all add: demo_driver_def)
qed

lemma demo_accounts:
  assumes "f \<noteq> VA_FOURCC_P010"
  shows "image_accounts (\<lambda>_. 0) (demo_driver f)"
proof -
  let ?d = "demo_driver f"
  note h = demo_heaps [of f]
  have handles: "handles_ok (sd_surface_heap (id_sd ?d)) (sd_surf (id_sd ?d)) (obj_refs (id_objs ?d))"
      "handles_ok (d_buffer_heap (id_drv ?d)) (d_buf (id_drv ?d)) (obj_refs (id_objs ?d))"
      "handles_ok (id_image_heap ?d) (id_img ?d) (obj_refs (id_objs ?d))"
    unfolding handles_ok_def h(2,4,6) using h(1,3,5) by (auto simp: demo_driver_def split: if_splits)
  have s: "surface_ok True (sd_mem (id_sd ?d)) (demo_pixels f)"
    using assms by (simp add: surface_ok_def demo_driver_def demo_pixels_def zero_surface_def RK_MAX_WIDTH_def RK_MAX_HEIGHT_def c_int_def
        import_fits_def pixels_fit_def pixel_buffer_def room_def bytes_per_sample_def)
  have held: "surface_held (demo_pixels f) = [R_Buffer 1]" by (simp add: surface_held_def demo_pixels_def zero_surface_def)
  have "accounts {} {#} (id_sd ?d)"
    using s held by (simp add: accounts_def demo_driver_def held_by_def mems_ok_def mem_ok_def init_prefix_def)
  moreover have wf: "buf_wf (demo_image_buffer x)" "b_derived (demo_image_buffer x) = None" for x
    by (simp_all add: buf_wf_def demo_image_buffer_def fresh_buffer_def init_prefix_def)
  then have "store_ok (d_brk (id_drv ?d)) (d_buf (id_drv ?d))"
    by (auto simp: store_ok_def demo_driver_def b_surface_def split: if_splits)
  moreover have im: "image_ok (demo_picture f bid p)" "im_buffer (demo_picture f bid p) = Some p" for bid p
    by (auto simp: image_ok_def demo_picture_def image_object_def Let_def)
  have n: "image_count (id_img ?d) 2 = 1" "image_count (id_img ?d) 3 = 1"
  proof -
    have "{q. \<exists>m. id_img ?d q = Some m \<and> im_buffer m = Some 2} = {4}" "{q. \<exists>m. id_img ?d q = Some m \<and> im_buffer m = Some 3} = {5}"
      using im(2) by (auto simp: demo_driver_def split: if_splits)
    then show "image_count (id_img ?d) 2 = 1" "image_count (id_img ?d) 3 = 1" unfolding image_count_def by (simp_all only: card.insert card.empty) simp_all
  qed
  have nm: "named (d_buffer_heap (id_drv ?d)) 2 = 1" "named (d_buffer_heap (id_drv ?d)) 3 = 1"
      "named (id_image_heap ?d) 4 = 1" "named (id_image_heap ?d) 5 = 1"
    using named_pos [where h = "d_buffer_heap (id_drv ?d)" and i = "0x40100000" and p = 2]
      named_pos [where h = "d_buffer_heap (id_drv ?d)" and i = "0x40100001" and p = 3]
      named_pos [where h = "id_image_heap ?d" and i = "0x50100000" and p = 4]
      named_pos [where h = "id_image_heap ?d" and i = "0x50100001" and p = 5] by (simp_all add: h)
  have bufs: "p = 2 \<or> p = 3" if "d_buf (id_drv ?d) p = Some b" for p b using that by (auto simp: demo_driver_def split: if_splits)
  have imgs: "q = 4 \<or> q = 5" if "id_img ?d q = Some m" for q m using that by (auto simp: demo_driver_def split: if_splits)
  have live: "image_live (d_buf (id_drv ?d)) (demo_picture f bid 2)" "image_live (d_buf (id_drv ?d)) (demo_picture f bid 3)" for bid
    using im by (simp_all add: image_live_def demo_driver_def)
  have "buffers_counted (\<lambda>_. 0) ?d"
    unfolding buffers_counted_def
  proof (intro allI impI)
    fix p b assume "d_buf (id_drv ?d) p = Some b"
    with bufs [OF this] n nm wf(2) show "sd_surf (id_sd ?d) p = None \<and> id_img ?d p = None \<and> b_derived b = None \<and>
        unat (obj_refs (id_objs ?d) p) = named (d_buffer_heap (id_drv ?d)) p + image_count (id_img ?d) p + 0"
      by (auto simp: demo_driver_def)
  qed
  moreover have "images_counted (\<lambda>_. 0) ?d"
    unfolding images_counted_def
  proof (intro allI impI)
    fix q m assume "id_img ?d q = Some m"
    with imgs [OF this] live nm show "q < d_brk (id_drv ?d) \<and> sd_surf (id_sd ?d) q = None \<and> image_live (d_buf (id_drv ?d)) m \<and>
        unat (obj_refs (id_objs ?d) q) = named (id_image_heap ?d) q + 0"
      by (auto simp: demo_driver_def)
  qed
  moreover have "finite (dom (id_img ?d))" by (simp add: demo_driver_def)
  ultimately show ?thesis using handles by (simp add: image_accounts_def surf_inv_def drv_inv_def)
qed

definition demo_put :: "((VAStatus + unit) \<times> IDriver) outcome" where
  "demo_put = rk_PutImage demo_copy_env (whole_frame 2 2) (demo_driver VA_FOURCC_I420) 0x30100000 0x50100000"

lemma demo_put_succeeds: "\<exists>d. demo_put = Ok (Inr (), d)"
proof -
  have "case demo_put of Ok (Inr _, d) \<Rightarrow> True | _ \<Rightarrow> False" by code_simp
  then show ?thesis by (auto split: outcome.splits sum.splits)
qed

theorem put_get_roundtrip_witness:
  "\<exists>d1 d2 c. demo_put = Ok (Inr (), d1) \<and> rk_GetImage demo_copy_env (0, 0, 2, 2) d1 0x30100000 0x50100001 = Ok (Inr (), d2) \<and>
     d_buf (id_drv d2) 3 = Some c \<and>
     (\<forall>r < 2. \<forall>k < 2. image_luma (demo_picture VA_FOURCC_I420 0x40100001 3) (b_data c) r k =
        image_luma (demo_picture VA_FOURCC_I420 0x40100000 2) (b_data (demo_image_buffer 7)) r k) \<and>
     (\<forall>r < 1. \<forall>k < 2. image_chroma (demo_picture VA_FOURCC_I420 0x40100001 3) (b_data c) r k =
        image_chroma (demo_picture VA_FOURCC_I420 0x40100000 2) (b_data (demo_image_buffer 7)) r k)"
proof -
  let ?d = "demo_driver VA_FOURCC_I420" and ?s = "demo_pixels VA_FOURCC_I420"
  let ?im = "demo_picture VA_FOURCC_I420 0x40100000 2" and ?im' = "demo_picture VA_FOURCC_I420 0x40100001 3"
  obtain d1 where put: "demo_put = Ok (Inr (), d1)" using demo_put_succeeds by blast
  have s: "sf_width ?s = 2" "sf_height ?s = 2" "sf_frame ?s = None" "sf_backing_buf ?s = None" "\<not> sf_imported_multiplane ?s" "\<not> sf_imported_rgb ?s"
      "row_bytes ?s = 2"
    by (simp_all add: demo_pixels_def zero_surface_def row_bytes_def sample_def)
  have "image_layout_valid ?im' 2 2 2 (b_capacity (demo_image_buffer 0))" by code_simp
  moreover have "im_width ?im \<le> im_width ?im'" "im_height ?im \<le> im_height ?im'" "im_fourcc ?im' = im_fourcc ?im" "im_buffer ?im = Some 2" "im_buffer ?im' = Some 3"
      "im_fourcc ?im = VA_FOURCC_I420"
    by (simp_all add: demo_picture_def image_object_def Let_def)
  ultimately have "\<exists>d2 c. rk_GetImage demo_copy_env (0, 0, of_int (sf_width ?s), of_int (sf_height ?s)) d1 0x30100000 0x50100001 = Ok (Inr (), d2) \<and>
      d_buf (id_drv d2) 3 = Some c \<and>
      (\<forall>r < nat (sf_height ?s). \<forall>k < unat (row_bytes ?s). image_luma ?im' (b_data c) r k = image_luma ?im (b_data (demo_image_buffer 7)) r k) \<and>
      (\<forall>r < nat (sf_height ?s) div 2. \<forall>k < chroma_row ?im (row_bytes ?s).
         image_chroma ?im' (b_data c) r k = image_chroma ?im (b_data (demo_image_buffer 7)) r k)"
    by (intro put_get_roundtrip [where d = ?d and sid = "0x30100000" and t = 0 and s = ?s and iid = "0x50100000" and q = 4 and im = ?im and p = 2
          and b = "demo_image_buffer 7" and iid' = "0x50100001" and q' = 5 and im' = ?im' and p' = 3 and b' = "demo_image_buffer 0"
          and e = demo_copy_env and a = "whole_frame 2 2" and e' = demo_copy_env] demo_accounts)
       (use s put in \<open>simp_all add: demo_heaps demo_put_def, simp_all add: demo_driver_def demo_copy_env_def\<close>)
  moreover have "chroma_row ?im (row_bytes ?s) = 2" "unat (row_bytes ?s) = 2"
    using s(7) \<open>im_fourcc ?im = VA_FOURCC_I420\<close> by (simp_all add: chroma_row_def planar_fourcc_def)
  ultimately show ?thesis using put s by auto
qed

text \<open>
  A derived image advertises the size of the surface's picture as the capacity of its buffer, but the
  memory behind \<open>data\<close> is the single byte of an empty buffer: the pixels are reached through
  \<open>rk_MapBuffer\<close> only. \<open>rk_GetImage\<close> and \<open>rk_PutImage\<close> do not know that; here they leave the allocation.
\<close>

definition demo_derive_env :: derive_env where
  "demo_derive_env = \<lparr>de_wakeups = [], de_world = (\<lambda>d. d), de_image = demo_image_env\<rparr>"

definition faults :: "'a outcome \<Rightarrow> bool" where
  "faults m \<longleftrightarrow> (case m of Fault \<Rightarrow> True | _ \<Rightarrow> False)"

lemma faults_iff: "faults m \<longleftrightarrow> m = Fault"
  by (simp add: faults_def split: outcome.splits)

lemma derive_cases:
  fixes m :: "((VAStatus + VAImage) \<times> IDriver) outcome"
  obtains (answer) v d where "m = Ok (Inr v, d)" | (refused) e d where "m = Ok (Inl e, d)" | (failed) "m = Fail" | (faulted) "m = Fault"
proof (cases m)
  case (Ok x)
  then show ?thesis using that(1,2) by (cases x; cases "fst x") auto
qed (use that(3,4) in auto)

lemma derived_image_overrun:
  "\<exists>v d. image_accounts (\<lambda>_. 0) (demo_driver VA_FOURCC_NV12) \<and>
     rk_DeriveImage demo_derive_env (demo_driver VA_FOURCC_NV12) 0x30100000 True = Ok (Inr v, d) \<and>
     rk_GetImage demo_copy_env (0, 0, 2, 2) d 0x30100000 (vi_image_id v) = Fault \<and>
     rk_PutImage demo_copy_env (whole_frame 2 2) d 0x30100000 (vi_image_id v) = Fault"
proof -
  have "case rk_DeriveImage demo_derive_env (demo_driver VA_FOURCC_NV12) 0x30100000 True of
      Ok (Inr v, d) \<Rightarrow> faults (rk_GetImage demo_copy_env (0, 0, 2, 2) d 0x30100000 (vi_image_id v)) \<and>
        faults (rk_PutImage demo_copy_env (whole_frame 2 2) d 0x30100000 (vi_image_id v))
    | _ \<Rightarrow> False" by code_simp
  then obtain v d where run: "rk_DeriveImage demo_derive_env (demo_driver VA_FOURCC_NV12) 0x30100000 True = Ok (Inr v, d)"
      and get: "rk_GetImage demo_copy_env (0, 0, 2, 2) d 0x30100000 (vi_image_id v) = Fault"
      and put: "rk_PutImage demo_copy_env (whole_frame 2 2) d 0x30100000 (vi_image_id v) = Fault"
    by (cases "rk_DeriveImage demo_derive_env (demo_driver VA_FOURCC_NV12) 0x30100000 True" rule: derive_cases) (simp_all add: faults_iff)
  have "VA_FOURCC_NV12 \<noteq> VA_FOURCC_P010" by code_simp
  then have "image_accounts (\<lambda>_. 0) (demo_driver VA_FOURCC_NV12)" by (rule demo_accounts)
  with run get put show ?thesis by blast
qed

end
