(* ===== verification/Spec2Isabelle.thy ===== *)
theory Spec2Isabelle
  imports H264 HEVC_Slice VP9 Object_Heap Frame_Layout Worker_Live Worker_Frames Encoder Image_Calls
begin

text \<open>
  \<^bold>\<open>A verification library for rockchip-vaapi\<close>, a VA-API driver that decodes and encodes video through
  Rockchip's Media Process Platform (MPP). An application creates surfaces, buffers and a context,
  and submits a picture with \<open>vaBeginPicture\<close>, \<open>vaRenderPicture\<close> and \<open>vaEndPicture\<close>. The driver
  rebuilds the parameter sets that VA-API strips from the stream, packs an access unit, and hands it
  as a job to a worker thread per context, which feeds MPP, collects its output frames, and publishes
  each at the surface it belongs to. \<open>vaSyncSurface\<close> waits for that.

  \<^bold>\<open>Theories, in the order of the code's layers\<close>

  \<^item> \<open>Prelude\<close>: machine integers as words, the outcome type (\<open>Ok\<close>, \<open>Fail\<close> for an error result,
    \<open>Fault\<close> for undefined behaviour of C), bit and byte lists. \<open>State_Outcome\<close>: functions on a state
    with outcomes, and rules for total (\<open>runs\<close>) and partial (\<open>sat\<close>) triples.
  \<^item> \<open>Bitstream\<close>, \<open>Syntax_Elements\<close> (\<open>bs.h\<close>): the bit writer over a byte array with a cursor, and a
    reference decoder for its syntax elements. \<open>Nal\<close> (\<open>hevc.c\<close>, \<open>h264.c\<close>): both copies of emulation
    prevention (locale \<open>nal_escape\<close>), unescaping, start codes.
  \<^item> \<open>H264\<close> (\<open>h264.c\<close>): level derivation, SPS and PPS. \<open>HEVC_Params\<close>, \<open>HEVC_Sets\<close>, \<open>HEVC_Slice\<close>
    (\<open>hevc.c\<close>): validation of the picture parameters, reference picture sets, VPS, SPS and PPS, and the
    rewriting of slice headers. \<open>VP9\<close> (\<open>vp9.c\<close>): the header parser. For each writer a reference
    decoder written from the syntax tables reads the produced bits back.
  \<^item> \<open>Object_Ref\<close>, \<open>Object_Heap\<close> (\<open>object_heap.c\<close>): reference counts under every interleaving of their
    atomic instructions, and the generation-tagged heap of identifiers (locale \<open>id_map\<close>).
    \<open>Frame_Layout\<close> (\<open>frame_layout.c\<close>): image sizes in 64-bit arithmetic.
  \<^item> \<open>Buffers\<close> (\<open>buffer.c\<close>): data buffers over the object heap, with memory that remembers which of its
    bytes were written.
  \<^item> \<open>Linked_Queue\<close>: the pointer-linked lists of \<open>mpp_dec.c\<close> over a node store (locale \<open>fifo\<close>).
    \<open>Decode_State\<close>: surfaces, jobs, routes and the context (\<open>driver_internal.h\<close>), begin and end of a
    picture (\<open>context.c\<close>), enqueueing and routing (\<open>mpp_dec.c\<close>). \<open>Decode_Worker\<close>: the worker thread,
    the external buffer pool, the assignment of output frames, drain, stall timeout and stop.
    \<open>Worker_Invariant\<close>, \<open>Worker_Loop\<close>, \<open>Worker_Live\<close>, \<open>Worker_Frames\<close>: its invariant, safety of every
    run, termination of the teardown, and ownership of MPP's frames.
  \<^item> \<open>Job_Build\<close> (\<open>context.c\<close>, \<open>mpp_dec.c\<close>): collecting the buffers of a picture and packing them into a job
    for H.264, HEVC and VP9, on top of the writers, the parser, the buffers and the context.
  \<^item> \<open>Encoder\<close> (\<open>mpp_enc.c\<close>, \<open>context.c\<close>): parameter buffers, slice accounting, the configuration of MPP and the
    encode call.
  \<^item> \<open>Pixel_Rows\<close>: the loops that copy, interleave and split rows of pixels between planes, as one contract
    (locale \<open>row_loop\<close>). \<open>Surfaces\<close> (\<open>surface.c\<close>): the storage of a surface, import of DMA-BUF
    descriptors, creation, destruction, synchronisation and queries, the linear layout, and the copy into
    a normalised layout, over the object heap and a store of mapped memory. \<open>Surface_Accounts\<close>: which surface
    answers for which buffer, descriptor and mapping. \<open>Surface_Create\<close>: creation with rollback.
    \<open>Surface_Calls\<close>: every sequence of calls.
  \<^item> \<open>Images\<close> (\<open>buffer.c\<close>, \<open>surface.c\<close>): images with a buffer of their own or derived from a surface, and
    the copies \<open>rk_PutImage\<close> and \<open>rk_GetImage\<close>. \<open>Image_Copies\<close>: the copies as contracts on bytes.
    \<open>Image_Accounts\<close>: who holds the references to buffers, images and surfaces. \<open>Image_Calls\<close>: every
    sequence of calls, and the way of a picture onto a surface and back.

  \<^bold>\<open>How state and effects correspond.\<close> A structure is a record with the fields its modelled code uses; a
  pointer is an address in a store or an option; a function that changes state returns the new state.
  The worker's steps are functions on the context and the state of an arbitrary environment, the
  record \<open>backend\<close>: MPP, the allocator, the clock, image conversion and the scheduler are its fields, so
  the theorems hold for all their behaviours. Other threads act where the worker takes a lock: there the
  environment chooses any list of application calls (\<open>app_run\<close>) to happen first.

  \<^bold>\<open>What is shown.\<close> Writers: what they emit decodes to their input, bounds and failure conditions are exact.
  Parsers: exactly the well-formed headers are accepted, and no input makes them read outside its bytes.
  Heap and buffers: identifiers are never reused, calls with stale identifiers are refused, memory
  accesses stay inside initialised memory. Jobs: a packet holds the slices of its picture in order behind
  parameter sets that decode to the picture's parameters, and the sequence parameter sets that a decoder
  has received last are those of the picture. Encoder: accepted slices are exactly what MPP is told to
  make, its settings are in range, and every encode call settles its coded buffer. Worker: every waiting surface always has exactly one party
  that answers for its fence, no surface waits after the stop, the stop returns, and no frame is leaked
  or released twice. Surfaces: no sequence of calls leaks or frees twice a reference, a descriptor or memory,
  rows stay inside their planes, and creation is all or nothing. Images: every reference to a buffer is
  accounted for, no call leaves a memory unless an image was derived, and a picture put onto a surface is
  read back sample by sample. Where the code does not satisfy such a statement, a lemma exhibits the
  run: \<open>Worker_Frames.generic_route_double_free\<close>, \<open>HEVC_Slice.br_read_ue_alias\<close>,
  \<open>Job_Build.failed_pps_counts_sps\<close>, \<open>Encoder.refused_sequence_in_force\<close>,
  \<open>Image_Calls.derived_image_overrun\<close>.

  \<^bold>\<open>Bounds and fuel.\<close> Loops over lists and counters are structural. The retry loops have the code's own
  bounds (500 submissions, 50 end-of-stream attempts). Walks over linked lists take the allocation mark
  of the node store as fuel, which is at least the number of nodes; running out is \<open>Fault\<close>, excluded by
  the safety theorems. The worker's endless loop is run for a number of rounds; \<open>teardown_terminates\<close> shows
  that some number suffices. Tokens are assumed not to wrap (fewer than \<open>2 ^ 63\<close> jobs).

  \<^bold>\<open>Parameters.\<close> The headers of libva and MPP are not part of the repository: their structures appear with
  the fields the code uses, their flags as booleans, and their functions as parameters.

  \<^bold>\<open>Not modelled.\<close> Configuration and entry-point tables (\<open>rockchip_drv_video.c\<close>), the copy
  into the stable export of a surface (\<open>surface.c\<close>), creation and destruction of contexts (\<open>context.c\<close>), colour and format conversion by RGA
  (\<open>convert.c\<close>), DMA-BUF export (\<open>export.c\<close>), logging (\<open>log.c\<close>), the packet dump of \<open>mpp_dec.c\<close>.
\<close>

end
